(* ===== verification/Prelude.thy ===== *)
theory Prelude
  imports Main "HOL-Library.Multiset"
begin

text \<open>
  What every component of the development shares.

  \<^item> The insertion-ordered \<open>Map\<close> of the language: \<open>src/src\<close> keeps nearly all of its
    state in \<open>Map\<close> objects whose iteration order is observable (eviction of the oldest entry,
    first match, flush order). A map is an association list with distinct keys:
    \<open>jset\<close> replaces in place or appends, as \<open>Map.prototype.set\<close> does.
  \<^item> The locale \<open>keyed_store\<close>: the get/set/delete laws a client of such a store relies on,
    interpreted on the ordered map.
  \<^item> The locale \<open>machine\<close>: an initial state, a step function and an invariant every step
    keeps; what holds at the start of a run and is kept holds at its end. Every stateful
    component interprets it.
  \<^item> ASCII versions of \<open>trim\<close> and \<open>toLowerCase\<close>, and the \<open>includes\<close> and
    \<open>startsWith\<close> searches on strings.
\<close>

named_theorems jmap_simps \<open>lookups and domains of the ordered map\<close>
named_theorems model_defs \<open>definitions of small operations, unfolded by the component proofs\<close>


section \<open>The insertion-ordered map\<close>

type_synonym ('k, 'v) jmap = "('k \<times> 'v) list"

abbreviation jget :: "('k, 'v) jmap \<Rightarrow> 'k \<Rightarrow> 'v option" where
  "jget \<equiv> map_of"

fun jset :: "'k \<Rightarrow> 'v \<Rightarrow> ('k, 'v) jmap \<Rightarrow> ('k, 'v) jmap" where
  "jset k v [] = [(k, v)]"
| "jset k v ((k', v') # m) = (if k = k' then (k, v) # m else (k', v') # jset k v m)"

definition jdel :: "'k \<Rightarrow> ('k, 'v) jmap \<Rightarrow> ('k, 'v) jmap" where
  "jdel k m = filter (\<lambda>e. fst e \<noteq> k) m"

definition jkeys :: "('k, 'v) jmap \<Rightarrow> 'k list" where
  "jkeys m = map fst m"

definition jvals :: "('k, 'v) jmap \<Rightarrow> 'v list" where
  "jvals m = map snd m"

definition jhas :: "('k, 'v) jmap \<Rightarrow> 'k \<Rightarrow> bool" where
  "jhas m k \<longleftrightarrow> jget m k \<noteq> None"

definition jwf :: "('k, 'v) jmap \<Rightarrow> bool" where
  "jwf m \<longleftrightarrow> distinct (map fst m)"

lemma jget_jset [simp, jmap_simps]: "jget (jset k v m) = (jget m)(k \<mapsto> v)"
  by (induction k v m rule: jset.induct) auto

lemma keys_jset: "fst ` set (jset k v m) = insert k (fst ` set m)"
  by (induction k v m rule: jset.induct) auto

lemma set_jset_subset: "set (jset k v m) \<subseteq> insert (k, v) (set m)"
  by (induction k v m rule: jset.induct) auto

lemma jget_jdel [simp, jmap_simps]: "jget (jdel k m) = (jget m)(k := None)"
  by (induction m) (auto simp: jdel_def fun_eq_iff)

lemma keys_jdel: "fst ` set (jdel k m) = fst ` set m - {k}"
  by (auto simp: jdel_def)

lemma set_jdel_subset: "set (jdel k m) \<subseteq> set m"
  by (auto simp: jdel_def)

lemma jwf_Nil [simp]: "jwf []"
  by (simp add: jwf_def)

lemma jwf_Cons [simp]: "jwf ((k, v) # m) \<longleftrightarrow> k \<notin> fst ` set m \<and> jwf m"
  by (simp add: jwf_def)

lemma jwf_jset [simp]: "jwf m \<Longrightarrow> jwf (jset k v m)"
  by (induction k v m rule: jset.induct) (auto simp: keys_jset)

lemma jwf_filter [simp]: "jwf m \<Longrightarrow> jwf (filter P m)"
  by (induction m) (auto simp: jwf_def)

lemma jwf_jdel [simp]: "jwf m \<Longrightarrow> jwf (jdel k m)"
  by (simp add: jdel_def)

lemma jget_mem: "jget m k = Some v \<Longrightarrow> (k, v) \<in> set m"
  by (rule map_of_SomeD)

lemma jget_iff: "jwf m \<Longrightarrow> jget m k = Some v \<longleftrightarrow> (k, v) \<in> set m"
  by (simp add: jwf_def)

lemma jget_filter:
  "jwf m \<Longrightarrow> jget (filter P m) k =
     (case jget m k of None \<Rightarrow> None | Some v \<Rightarrow> if P (k, v) then Some v else None)"
  by (induction m) (auto simp: jwf_def map_of_eq_None_iff split: option.splits if_splits)

lemma length_jset:
  "length (jset k v m) = (if k \<in> fst ` set m then length m else Suc (length m))"
  by (induction k v m rule: jset.induct) auto

lemma length_jset_le: "length (jset k v m) \<le> Suc (length m)"
  by (simp add: length_jset)

lemma length_jdel_le: "length (jdel k m) \<le> length m"
  by (simp add: jdel_def)

lemma jdel_notin: "k \<notin> fst ` set m \<Longrightarrow> jdel k m = m"
  by (auto simp: jdel_def intro!: filter_True)

lemma length_jdel:
  "jwf m \<Longrightarrow> k \<in> fst ` set m \<Longrightarrow> Suc (length (jdel k m)) = length m"
proof (induction m)
  case Nil
  then show ?case by simp
next
  case (Cons e m)
  obtain k' v' where e: "e = (k', v')" by (cases e)
  show ?case
  proof (cases "k' = k")
    case True
    with Cons.prems e have "k \<notin> fst ` set m" by simp
    then have "jdel k m = m" by (rule jdel_notin)
    with True e show ?thesis by (simp add: jdel_def)
  next
    case False
    with Cons e show ?thesis by (simp add: jdel_def)
  qed
qed

lemma jset_append_new: "k \<notin> fst ` set m \<Longrightarrow> jset k v m = m @ [(k, v)]"
  by (induction k v m rule: jset.induct) auto


lemma distinct_map_sort_key: "distinct (map f (sort_key k xs)) \<longleftrightarrow> distinct (map f xs)"
proof -
  have "mset (map f (sort_key k xs)) = mset (map f xs)" by (simp only: mset_map mset_sort)
  then show ?thesis by (rule mset_eq_imp_distinct_iff)
qed

lemma jwf_sort_key [simp]: "jwf (sort_key k m) \<longleftrightarrow> jwf m"
  by (simp add: jwf_def distinct_map_sort_key)


subsection \<open>The interface of a keyed store\<close>

text \<open>
  The laws every client of a \<open>Map\<close> in the code relies on: a lookup after a set or a delete,
  and the well-formedness both keep.
\<close>

locale keyed_store =
  fixes get :: "'m \<Rightarrow> 'k \<Rightarrow> 'v option"
    and put :: "'k \<Rightarrow> 'v \<Rightarrow> 'm \<Rightarrow> 'm"
    and del :: "'k \<Rightarrow> 'm \<Rightarrow> 'm"
    and ok :: "'m \<Rightarrow> bool"
  assumes get_put: "ok m \<Longrightarrow> get (put k v m) = (get m)(k \<mapsto> v)"
    and get_del: "ok m \<Longrightarrow> get (del k m) = (get m)(k := None)"
    and ok_put: "ok m \<Longrightarrow> ok (put k v m)"
    and ok_del: "ok m \<Longrightarrow> ok (del k m)"
begin

fun put_all :: "('k \<times> 'v) list \<Rightarrow> 'm \<Rightarrow> 'm" where
  "put_all [] m = m"
| "put_all ((k, v) # kvs) m = put_all kvs (put k v m)"

lemma ok_put_all: "ok m \<Longrightarrow> ok (put_all kvs m)"
  by (induction kvs m rule: put_all.induct) (auto simp: ok_put)

lemma put_all_other:
  "ok m \<Longrightarrow> k \<notin> fst ` set kvs \<Longrightarrow> get (put_all kvs m) k = get m k"
  by (induction kvs m rule: put_all.induct) (auto simp: ok_put get_put)

lemma put_all_dom: "ok m \<Longrightarrow> dom (get (put_all kvs m)) = fst ` set kvs \<union> dom (get m)"
  by (induction kvs m rule: put_all.induct) (auto simp: ok_put get_put)

lemma del_put_same: "ok m \<Longrightarrow> get m k = None \<Longrightarrow> get (del k (put k v m)) = get m"
  by (auto simp: get_put get_del ok_put fun_eq_iff)

lemma put_overwrites: "ok m \<Longrightarrow> get (put k w (put k v m)) = get (put k w m)"
  by (simp add: get_put ok_put)

end

interpretation jm: keyed_store jget jset jdel jwf
  by unfold_locales auto


section \<open>Step machines and their invariants\<close>

text \<open>
  A component is a start state, a step function over its operations, and an invariant. The
  invariant of the start state is carried through any sequence of operations, whatever the
  values (times, keys, outcomes) the operations carry.
\<close>

fun run_steps :: "('e \<Rightarrow> 's \<Rightarrow> 's) \<Rightarrow> 'e list \<Rightarrow> 's \<Rightarrow> 's" where
  "run_steps f [] s = s"
| "run_steps f (e # es) s = run_steps f es (f e s)"

lemma run_steps_append: "run_steps f (xs @ ys) s = run_steps f ys (run_steps f xs s)"
  by (induction xs arbitrary: s) auto

lemma run_steps_fold: "run_steps f es s = fold f es s"
  by (induction es arbitrary: s) auto

locale machine =
  fixes step :: "'e \<Rightarrow> 's \<Rightarrow> 's"
    and inv :: "'s \<Rightarrow> bool"
  assumes inv_step: "inv s \<Longrightarrow> inv (step e s)"
begin

lemma inv_run: "inv s \<Longrightarrow> inv (run_steps step es s)"
  by (induction es arbitrary: s) (auto intro: inv_step)

lemma inv_prefix: "inv s \<Longrightarrow> inv (run_steps step (take n es) s)"
  by (rule inv_run)

lemma run_induct:
  assumes "inv s" and "P s" and "\<And>t e. inv t \<Longrightarrow> P t \<Longrightarrow> P (step e t)"
  shows "P (run_steps step es s)"
proof -
  have "inv (run_steps step es s) \<and> P (run_steps step es s)"
    using assms(1,2)
  proof (induction es arbitrary: s)
    case Nil
    then show ?case by simp
  next
    case (Cons e es)
    then show ?case using assms(3) by (simp add: inv_step)
  qed
  then show ?thesis ..
qed

end

text \<open>
  A machine with a measured quantity that no step increases: what a run can use up is bounded by
  what it started with.
\<close>

locale bounded_machine = machine step inv
  for step :: "'e \<Rightarrow> 's \<Rightarrow> 's" and inv :: "'s \<Rightarrow> bool" +
  fixes size_of :: "'s \<Rightarrow> nat" and bound :: "'s \<Rightarrow> nat"
  assumes size_le: "inv s \<Longrightarrow> size_of s \<le> bound s"
    and bound_step: "bound (step e s) = bound s"
begin

lemma bound_run: "bound (run_steps step es s) = bound s"
  by (induction es arbitrary: s) (auto simp: bound_step)

lemma size_run: "inv s \<Longrightarrow> size_of (run_steps step es s) \<le> bound s"
  using size_le[OF inv_run] by (simp add: bound_run)

end


section \<open>Strings\<close>

text \<open>
  Strings are lists of bytes. \<open>trim\<close> and \<open>toLowerCase\<close> act on the ASCII range: no other
  byte is white space and no other byte changes.
\<close>

definition utf8 :: "nat list \<Rightarrow> string" where
  "utf8 bytes = map char_of bytes"

definition is_ws :: "char \<Rightarrow> bool" where
  "is_ws c \<longleftrightarrow> c \<in> {CHR '' '', CHR 0x09, CHR 0x0A, CHR 0x0B, CHR 0x0C, CHR 0x0D}"

definition str_trim :: "string \<Rightarrow> string" where
  "str_trim s = rev (dropWhile is_ws (rev (dropWhile is_ws s)))"

definition lower_char :: "char \<Rightarrow> char" where
  "lower_char c = (let n = of_char c :: nat in if 65 \<le> n \<and> n \<le> 90 then char_of (n + 32) else c)"

definition str_lower :: "string \<Rightarrow> string" where
  "str_lower s = map lower_char s"

fun starts_with :: "'a list \<Rightarrow> 'a list \<Rightarrow> bool" where
  "starts_with [] s = True"
| "starts_with (p # ps) [] = False"
| "starts_with (p # ps) (c # s) = (p = c \<and> starts_with ps s)"

fun str_includes :: "'a list \<Rightarrow> 'a list \<Rightarrow> bool" where
  "str_includes p [] = starts_with p []"
| "str_includes p (c # s) = (starts_with p (c # s) \<or> str_includes p s)"

fun str_join :: "string \<Rightarrow> string list \<Rightarrow> string" where
  "str_join sep [] = []"
| "str_join sep [x] = x"
| "str_join sep (x # y # xs) = x @ sep @ str_join sep (y # xs)"

lemma starts_with_iff: "starts_with p s \<longleftrightarrow> (\<exists>t. s = p @ t)"
  by (induction p s rule: starts_with.induct) auto

lemma str_includes_iff: "str_includes p s \<longleftrightarrow> (\<exists>a b. s = a @ p @ b)"
proof (induction s)
  case Nil
  then show ?case by (auto simp: starts_with_iff)
next
  case (Cons c s)
  show ?case
  proof
    assume "str_includes p (c # s)"
    then consider "starts_with p (c # s)" | "str_includes p s" by auto
    then show "\<exists>a b. c # s = a @ p @ b"
    proof cases
      case 1
      then obtain t where "c # s = p @ t" by (auto simp: starts_with_iff)
      then have "c # s = [] @ p @ t" by simp
      then show ?thesis by blast
    next
      case 2
      then obtain a b where "s = a @ p @ b" using Cons.IH by blast
      then have "c # s = (c # a) @ p @ b" by simp
      then show ?thesis by blast
    qed
  next
    assume "\<exists>a b. c # s = a @ p @ b"
    then obtain a b where ab: "c # s = a @ p @ b" by blast
    show "str_includes p (c # s)"
    proof (cases a)
      case Nil
      with ab have "starts_with p (c # s)" by (auto simp: starts_with_iff)
      then show ?thesis by simp
    next
      case (Cons x a')
      with ab have "s = a' @ p @ b" by simp
      then have "str_includes p s" using Cons.IH by blast
      then show ?thesis by simp
    qed
  qed
qed

lemma dropWhile_eq_Nil: "dropWhile P xs = [] \<longleftrightarrow> (\<forall>x \<in> set xs. P x)"
  by (induction xs) auto

lemma str_trim_empty_iff: "str_trim s = [] \<longleftrightarrow> (\<forall>c \<in> set s. is_ws c)"
proof -
  have "(\<forall>x \<in> set (dropWhile is_ws s). is_ws x) \<longleftrightarrow> (\<forall>c \<in> set s. is_ws c)"
    by (induction s) auto
  then show ?thesis
    by (simp add: str_trim_def dropWhile_eq_Nil)
qed

lemma str_trim_length: "length (str_trim s) \<le> length s"
  unfolding str_trim_def
  by (metis length_dropWhile_le length_rev order_trans)

end
