(* ===== verification/Lanes.thy ===== *)
theory Lanes
  imports Prelude "HOL-Library.Multiset"
begin

text \<open>
  The class \<open>Lane\<close> of \<open>src/src/agent/pty/lane-queue.ts\<close>: a FIFO queue of tasks run
  one at a time, with an optional cap on the waiting tasks.

  Tasks are named by the number of the \<open>enqueue\<close> call. \<open>ln_current\<close> is the item whose
  task the drain loop awaits. \<open>ln_started\<close> logs the tasks in the order their functions are
  called and \<open>ln_settled\<close> the promises in the order they are resolved or rejected; no
  operation reads the logs. The body of the promise executor and the code of the loop between two
  \<open>await\<close>s run without interruption, so each is one step.
\<close>

datatype drop_policy = DropOld | DropNew

datatype settle = Resolved | TaskRejected | CapExceeded

record lane =
  ln_max_pending :: int
  ln_drop :: drop_policy
  ln_queue :: "nat list"
  ln_running :: bool
  ln_current :: "nat option"
  ln_next :: nat
  ln_started :: "nat list"
  ln_settled :: "(nat \<times> settle) list"

definition lane_new :: "int option \<Rightarrow> drop_policy option \<Rightarrow> lane" where
  "lane_new max_pending drp =
     \<lparr>ln_max_pending = (case max_pending of None \<Rightarrow> 0 | Some n \<Rightarrow> n),
      ln_drop = (case drp of None \<Rightarrow> DropOld | Some d \<Rightarrow> d),
      ln_queue = [], ln_running = False, ln_current = None, ln_next = 0,
      ln_started = [], ln_settled = []\<rparr>"

definition lane_settle :: "nat \<Rightarrow> settle \<Rightarrow> lane \<Rightarrow> lane" where
  "lane_settle x r l = l\<lparr>ln_settled := ln_settled l @ [(x, r)]\<rparr>"

text \<open>The head of the \<open>while\<close> loop of \<open>drain\<close>: take the next item or stop.\<close>

definition lane_drain :: "lane \<Rightarrow> lane" where
  "lane_drain l =
     (case ln_queue l of
        [] \<Rightarrow> l\<lparr>ln_running := False, ln_current := None\<rparr>
      | x # q \<Rightarrow> l\<lparr>ln_queue := q, ln_running := True, ln_current := Some x,
                  ln_started := ln_started l @ [x]\<rparr>)"

definition lane_push :: "nat \<Rightarrow> lane \<Rightarrow> lane" where
  "lane_push x l =
     (let l = l\<lparr>ln_queue := ln_queue l @ [x]\<rparr> in if ln_running l then l else lane_drain l)"

definition lane_enqueue :: "lane \<Rightarrow> nat \<times> lane" where
  "lane_enqueue l =
     (let x = ln_next l; l = l\<lparr>ln_next := Suc x\<rparr>
      in (x,
          if 0 < ln_max_pending l \<and> ln_max_pending l \<le> int (length (ln_queue l))
          then (case ln_drop l of
                  DropNew \<Rightarrow> lane_settle x CapExceeded l
                | DropOld \<Rightarrow>
                    (case ln_queue l of
                       [] \<Rightarrow> l
                     | old # q \<Rightarrow> lane_push x (lane_settle old CapExceeded (l\<lparr>ln_queue := q\<rparr>))))
          else lane_push x l))"

text \<open>The awaited task returns or throws; the item's promise is settled and the loop goes on.\<close>

definition lane_finish :: "bool \<Rightarrow> lane \<Rightarrow> lane" where
  "lane_finish succeeded l =
     (case ln_current l of
        None \<Rightarrow> l
      | Some x \<Rightarrow> lane_drain (lane_settle x (if succeeded then Resolved else TaskRejected) l))"

definition lane_pending :: "lane \<Rightarrow> nat" where
  "lane_pending l = length (ln_queue l)"

definition lane_is_idle :: "lane \<Rightarrow> bool" where
  "lane_is_idle l \<longleftrightarrow> \<not> ln_running l \<and> ln_queue l = []"

datatype lane_op = Enqueue | Finish bool

fun lane_step :: "lane_op \<Rightarrow> lane \<Rightarrow> lane" where
  "lane_step Enqueue l = snd (lane_enqueue l)"
| "lane_step (Finish b) l = lane_finish b l"


section \<open>The invariant\<close>

definition lane_current_list :: "lane \<Rightarrow> nat list" where
  "lane_current_list l = (case ln_current l of None \<Rightarrow> [] | Some x \<Rightarrow> [x])"

text \<open>The tasks whose promise is still pending.\<close>

definition lane_open :: "lane \<Rightarrow> nat list" where
  "lane_open l = lane_current_list l @ ln_queue l"

text \<open>
  Control: a task is awaited exactly while \<open>running\<close> is set, and an idle lane has nothing
  queued. Accounting: every task ever enqueued is settled, awaited or queued, exactly once.
  Order: the started tasks followed by the queued ones are in enqueue order. Outcomes: only a
  started task resolves or fails, only an unstarted one is dropped by the cap.
\<close>

definition lane_control :: "lane \<Rightarrow> bool" where
  "lane_control l \<longleftrightarrow>
     (ln_running l \<longleftrightarrow> ln_current l \<noteq> None) \<and> (\<not> ln_running l \<longrightarrow> ln_queue l = []) \<and>
     (0 < ln_max_pending l \<longrightarrow> int (length (ln_queue l)) \<le> ln_max_pending l)"

definition lane_accounts :: "lane \<Rightarrow> bool" where
  "lane_accounts l \<longleftrightarrow>
     mset (map fst (ln_settled l)) + mset (lane_open l) = mset [0..<ln_next l]"

definition lane_ordered :: "lane \<Rightarrow> bool" where
  "lane_ordered l \<longleftrightarrow>
     sorted_wrt (<) (ln_started l @ ln_queue l) \<and>
     set (ln_started l @ ln_queue l) \<subseteq> {..<ln_next l} \<and>
     set (lane_current_list l) \<subseteq> set (ln_started l)"

definition lane_outcomes :: "lane \<Rightarrow> bool" where
  "lane_outcomes l \<longleftrightarrow>
     (\<forall>(x, r) \<in> set (ln_settled l).
        (r = CapExceeded \<longrightarrow> x \<notin> set (ln_started l) \<and> x \<notin> set (ln_queue l)) \<and>
        (r \<noteq> CapExceeded \<longrightarrow> x \<in> set (ln_started l)) \<and> x < ln_next l)"

definition lane_inv :: "lane \<Rightarrow> bool" where
  "lane_inv l \<longleftrightarrow> lane_control l \<and> lane_accounts l \<and> lane_ordered l \<and> lane_outcomes l"

lemmas lane_inv_defs =
  lane_inv_def lane_control_def lane_accounts_def lane_ordered_def lane_outcomes_def
  lane_open_def lane_current_list_def

lemmas lane_op_defs =
  lane_enqueue_def lane_push_def lane_drain_def lane_finish_def lane_settle_def Let_def

lemma lane_inv_new: "lane_inv (lane_new m d)"
  by (auto simp: lane_inv_defs lane_new_def split: option.splits)

lemma lane_open_distinct:
  assumes "lane_inv l"
  shows "distinct (map fst (ln_settled l) @ lane_open l)"
proof -
  from assms have "mset (map fst (ln_settled l) @ lane_open l) = mset [0..<ln_next l]"
    by (simp add: lane_inv_def lane_accounts_def)
  then show ?thesis by (metis distinct_upt mset_eq_imp_distinct_iff)
qed

text \<open>Four ways a step changes a lane, each kept by the invariant.\<close>

lemma lane_inv_drop_new:
  assumes "lane_inv l"
  shows "lane_inv (lane_settle (ln_next l) CapExceeded (l\<lparr>ln_next := Suc (ln_next l)\<rparr>))"
  using assms by (auto simp: lane_inv_defs lane_settle_def less_Suc_eq split: option.splits)

lemma lane_inv_push_queued:
  assumes "lane_inv l" and "ln_running l"
    and "0 < ln_max_pending l \<longrightarrow> int (length (ln_queue l)) < ln_max_pending l"
  shows "lane_inv (lane_push (ln_next l) (l\<lparr>ln_next := Suc (ln_next l)\<rparr>))"
  using assms
  by (auto simp: lane_inv_defs lane_push_def sorted_wrt_append less_Suc_eq split: option.splits)

lemma lane_inv_push_idle:
  assumes "lane_inv l" and "\<not> ln_running l"
  shows "lane_inv (lane_push (ln_next l) (l\<lparr>ln_next := Suc (ln_next l)\<rparr>))"
  using assms
  by (auto simp: lane_inv_defs lane_push_def lane_drain_def sorted_wrt_append less_Suc_eq
           split: option.splits)

lemma lane_inv_drop_old:
  assumes "lane_inv l" and "ln_queue l = old # q" and "ln_running l"
  shows "lane_inv (lane_push (ln_next l)
           (lane_settle old CapExceeded (l\<lparr>ln_next := Suc (ln_next l), ln_queue := q\<rparr>)))"
  using assms lane_open_distinct[OF assms(1)]
  by (auto simp: lane_inv_defs lane_push_def lane_settle_def sorted_wrt_append less_Suc_eq
           split: option.splits)

text \<open>Finishing: the awaited task is settled and the next one, if any, becomes the awaited one.\<close>

lemma lane_finish_parts:
  assumes "ln_current l = Some x"
  shows "lane_finish b l =
    (case ln_queue l of
       [] \<Rightarrow> l\<lparr>ln_settled := ln_settled l @ [(x, if b then Resolved else TaskRejected)],
               ln_running := False, ln_current := None\<rparr>
     | y # q \<Rightarrow> l\<lparr>ln_settled := ln_settled l @ [(x, if b then Resolved else TaskRejected)],
                 ln_queue := q, ln_running := True, ln_current := Some y,
                 ln_started := ln_started l @ [y]\<rparr>)"
  using assms by (simp add: lane_finish_def lane_drain_def lane_settle_def split: list.split)

lemma lane_inv_finish:
  assumes inv: "lane_inv l"
  shows "lane_inv (lane_finish b l)"
proof (cases "ln_current l")
  case None
  with inv show ?thesis by (simp add: lane_finish_def)
next
  case cur: (Some x)
  show ?thesis
  proof (cases "ln_queue l")
    case Nil
    with inv cur show ?thesis
      by (auto simp: lane_finish_parts lane_inv_defs)
  next
    case (Cons y q)
    from inv have dist: "distinct (map fst (ln_settled l) @ lane_open l)"
      by (rule lane_open_distinct)
    have "lane_control (lane_finish b l)"
      using inv cur Cons by (auto simp: lane_finish_parts lane_inv_defs)
    moreover have "lane_accounts (lane_finish b l)"
      using inv cur Cons by (simp add: lane_finish_parts lane_inv_defs add_mset_commute)
    moreover have "lane_ordered (lane_finish b l)"
      using inv cur Cons by (simp add: lane_finish_parts lane_inv_defs)
    moreover have "lane_outcomes (lane_finish b l)"
      using inv cur Cons dist by (auto simp: lane_finish_parts lane_inv_defs)
    ultimately show ?thesis by (simp add: lane_inv_def)
  qed
qed

lemma lane_inv_enqueue:
  assumes inv: "lane_inv l"
  shows "lane_inv (snd (lane_enqueue l))"
proof (cases "0 < ln_max_pending l \<and> ln_max_pending l \<le> int (length (ln_queue l))")
  case full: True
  then have "ln_queue l \<noteq> []" by auto
  then obtain old q where q: "ln_queue l = old # q" by (cases "ln_queue l") auto
  from inv q have run: "ln_running l" by (auto simp: lane_inv_def lane_control_def)
  show ?thesis
    using full q lane_inv_drop_new[OF inv] lane_inv_drop_old[OF inv q run]
    by (cases "ln_drop l") (auto simp: lane_enqueue_def Let_def)
next
  case False
  then show ?thesis
    using lane_inv_push_idle[OF inv] lane_inv_push_queued[OF inv]
    by (cases "ln_running l") (auto simp: lane_enqueue_def Let_def)
qed

interpretation lane: machine lane_step lane_inv
proof
  fix l e
  assume "lane_inv l"
  then show "lane_inv (lane_step e l)"
    by (cases e) (auto intro: lane_inv_enqueue lane_inv_finish)
qed

text \<open>
  C2. Every task given to a lane is accounted for exactly once, in any run: it is settled, being
  run, or waiting; the tasks start in the order they were enqueued; and a waiting task implies
  that one is being run (the queue never stalls).
\<close>

theorem lane_exactly_once_in_order:
  "let l = run_steps lane_step es (lane_new m d)
   in mset (map fst (ln_settled l)) + mset (lane_open l) = mset [0..<ln_next l] \<and>
      sorted_wrt (<) (ln_started l @ ln_queue l) \<and>
      (ln_queue l = [] \<or> (\<exists>x. ln_current l = Some x))"
  using lane.inv_run[OF lane_inv_new, of es m d]
  by (auto simp: Let_def lane_inv_def lane_control_def lane_accounts_def lane_ordered_def)

text \<open>
  The cap is kept and only costs tasks that have not started: a lane with a positive limit
  never holds more waiting tasks than the limit, and a task rejected with \<open>queue_cap_exceeded\<close>
  was never run.
\<close>

theorem lane_cap_respected:
  "let l = run_steps lane_step es (lane_new (Some m) d)
   in (0 < m \<longrightarrow> int (lane_pending l) \<le> m) \<and>
      (\<forall>x. (x, CapExceeded) \<in> set (ln_settled l) \<longrightarrow> x \<notin> set (ln_started l))"
proof -
  have step: "ln_max_pending (lane_step e l) = ln_max_pending l" for e l
    by (cases e) (auto simp: lane_op_defs split: option.splits list.splits drop_policy.splits)
  have max: "ln_max_pending (run_steps lane_step es l) = ln_max_pending l" for l
    by (induction es arbitrary: l) (auto simp: step)
  from lane.inv_run[OF lane_inv_new, of es "Some m" d] show ?thesis
    by (auto simp: Let_def lane_inv_def lane_control_def lane_outcomes_def lane_pending_def max
        lane_new_def)
qed

theorem lane_cap_respected_witness:
  "let l = run_steps lane_step [Enqueue, Enqueue, Enqueue] (lane_new (Some 1) None)
   in int (lane_pending l) \<le> 1 \<and> ln_settled l = [(1, CapExceeded)] \<and> 1 \<notin> set (ln_started l)"
proof -
  let ?l = "run_steps lane_step [Enqueue, Enqueue, Enqueue] (lane_new (Some 1) None)"
  have s: "ln_settled ?l = [(1, CapExceeded)]" by (simp add: lane_op_defs lane_new_def)
  with lane_cap_respected[of "[Enqueue, Enqueue, Enqueue]" 1 None] show ?thesis
    by (simp add: Let_def del: run_steps.simps)
qed

end
