(* ===== verification/Semaphores.thy ===== *)
theory Semaphores
  imports Prelude "HOL-Library.Multiset"
begin

text \<open>
  \<open>src/src/agent/pty/semaphore.ts\<close>: the counting semaphore of the session lanes.

  Each call of \<open>acquire\<close> creates a promise and, once it is granted, a release closure with its
  own \<open>released\<close> flag. Promises are named by their creation number (\<open>sm_next\<close>), and
  \<open>sm_live\<close> lists the closures whose flag is still false. \<open>sm_granted\<close> is a log of the
  grants in the order they happened; no operation reads it.
\<close>

record semaphore =
  sm_max :: int
  sm_current :: int
  sm_waiters :: "nat list"
  sm_live :: "nat list"
  sm_next :: nat
  sm_granted :: "nat list"

definition semaphore_new :: "int \<Rightarrow> semaphore" where
  "semaphore_new concurrency =
     \<lparr>sm_max = max 1 concurrency, sm_current = 0, sm_waiters = [], sm_live = [],
      sm_next = 0, sm_granted = []\<rparr>"

text \<open>\<open>create_release\<close> makes the closure of promise \<open>r\<close>, which is thereby resolved.\<close>

definition create_release :: "nat \<Rightarrow> semaphore \<Rightarrow> semaphore" where
  "create_release r s = s\<lparr>sm_live := sm_live s @ [r], sm_granted := sm_granted s @ [r]\<rparr>"

definition sem_acquire :: "semaphore \<Rightarrow> nat \<times> bool \<times> semaphore" where
  "sem_acquire s =
     (let r = sm_next s; s = s\<lparr>sm_next := Suc r\<rparr>
      in if sm_current s < sm_max s
         then (r, True, create_release r (s\<lparr>sm_current := sm_current s + 1\<rparr>))
         else (r, False, s\<lparr>sm_waiters := sm_waiters s @ [r]\<rparr>))"

definition sem_release :: "nat \<Rightarrow> semaphore \<Rightarrow> nat option \<times> semaphore" where
  "sem_release r s =
     (if r \<notin> set (sm_live s) then (None, s)
      else let s = s\<lparr>sm_live := remove1 r (sm_live s), sm_current := sm_current s - 1\<rparr>
           in case sm_waiters s of
                [] \<Rightarrow> (None, s)
              | w # ws \<Rightarrow>
                  (Some w, create_release w (s\<lparr>sm_waiters := ws, sm_current := sm_current s + 1\<rparr>)))"

definition sem_available :: "semaphore \<Rightarrow> int" where
  "sem_available s = max 0 (sm_max s - sm_current s)"

definition sem_waiting :: "semaphore \<Rightarrow> nat" where
  "sem_waiting s = length (sm_waiters s)"

datatype sem_op = SemAcquire | SemRelease nat

fun sem_step :: "sem_op \<Rightarrow> semaphore \<Rightarrow> semaphore" where
  "sem_step SemAcquire s = snd (snd (sem_acquire s))"
| "sem_step (SemRelease r) s = snd (sem_release r s)"


section \<open>The invariant\<close>

text \<open>
  The counter counts the live closures and stays within the limit; somebody waits only while
  every slot is taken (no lost wake-up); and the grants followed by the waiters are all the
  requests ever made, in the order they were made.
\<close>

definition sem_inv :: "semaphore \<Rightarrow> bool" where
  "sem_inv s \<longleftrightarrow>
     1 \<le> sm_max s \<and> sm_current s = int (length (sm_live s)) \<and> sm_current s \<le> sm_max s \<and>
     (sm_waiters s \<noteq> [] \<longrightarrow> sm_current s = sm_max s) \<and>
     distinct (sm_live s) \<and> set (sm_live s) \<subseteq> set (sm_granted s) \<and>
     sm_granted s @ sm_waiters s = [0..<sm_next s]"

lemma sem_inv_new: "sem_inv (semaphore_new c)"
  by (simp add: sem_inv_def semaphore_new_def)

lemma granted_waiters_distinct:
  assumes "sem_inv s"
  shows "distinct (sm_granted s @ sm_waiters s)"
proof -
  from assms have "sm_granted s @ sm_waiters s = [0..<sm_next s]" by (simp add: sem_inv_def)
  then show ?thesis by (metis distinct_upt)
qed

lemma sem_next_fresh:
  assumes "sem_inv s"
  shows "sm_next s \<notin> set (sm_granted s)" and "sm_next s \<notin> set (sm_live s)"
proof -
  from assms have eq: "sm_granted s @ sm_waiters s = [0..<sm_next s]"
    and sub: "set (sm_live s) \<subseteq> set (sm_granted s)" by (auto simp: sem_inv_def)
  have "set (sm_granted s) \<subseteq> set [0..<sm_next s]" by (subst eq [symmetric]) simp
  then show "sm_next s \<notin> set (sm_granted s)" by auto
  with sub show "sm_next s \<notin> set (sm_live s)" by auto
qed

lemma sem_acquire_inv:
  assumes "sem_inv s"
  shows "sem_inv (snd (snd (sem_acquire s)))"
proof (cases "sm_current s < sm_max s")
  case True
  with assms have "sm_waiters s = []" by (auto simp: sem_inv_def)
  with True assms sem_next_fresh[OF assms] show ?thesis
    by (auto simp: sem_acquire_def create_release_def sem_inv_def Let_def)
next
  case False
  with assms show ?thesis
    by (auto simp: sem_acquire_def sem_inv_def Let_def)
qed

lemma sem_release_inv:
  assumes "sem_inv s"
  shows "sem_inv (snd (sem_release r s))"
proof (cases "r \<in> set (sm_live s)")
  case False
  with assms show ?thesis by (simp add: sem_release_def)
next
  case True
  then have "0 < length (sm_live s)" by (rule length_pos_if_in_set)
  with True have len: "int (length (remove1 r (sm_live s))) = int (length (sm_live s)) - 1"
    by (cases "length (sm_live s)") (simp_all add: length_remove1)
  have sub: "set (remove1 r (sm_live s)) \<subseteq> set (sm_live s)" by (rule set_remove1_subset)
  show ?thesis
  proof (cases "sm_waiters s")
    case Nil
    with True assms len sub show ?thesis
      by (auto simp: sem_release_def sem_inv_def Let_def)
  next
    case (Cons w ws)
    from granted_waiters_distinct[OF assms] Cons assms have "w \<notin> set (sm_live s)"
      by (auto simp: sem_inv_def)
    with sub have "w \<notin> set (remove1 r (sm_live s))" by auto
    with True Cons assms len sub show ?thesis
      by (auto simp: sem_release_def sem_inv_def Let_def create_release_def)
  qed
qed

interpretation sem: machine sem_step sem_inv
proof
  fix s e
  assume "sem_inv s"
  then show "sem_inv (sem_step e s)"
    by (cases e) (auto intro: sem_acquire_inv sem_release_inv)
qed

lemma sem_max_step: "sm_max (sem_step e s) = sm_max s"
  by (cases e)
     (auto simp: sem_acquire_def sem_release_def create_release_def Let_def split: list.splits)

interpretation sem_bounded:
  bounded_machine sem_step sem_inv "\<lambda>s. length (sm_live s)" "\<lambda>s. nat (sm_max s)"
proof
  fix s :: semaphore
  assume "sem_inv s"
  then show "length (sm_live s) \<le> nat (sm_max s)" by (auto simp: sem_inv_def)
next
  fix e s
  show "nat (sm_max (sem_step e s)) = nat (sm_max s)" by (simp add: sem_max_step)
qed

text \<open>
  Whatever acquire and release calls are made, in whatever order and however often a
  closure is called, at most \<open>max(1, concurrency)\<close> slots are held at once.
\<close>

theorem semaphore_bounded:
  "length (sm_live (run_steps sem_step es (semaphore_new c))) \<le> nat (max 1 c)"
  using sem_bounded.size_run[OF sem_inv_new, of es c] by (simp add: semaphore_new_def)

text \<open>
  C3. Requests are granted first come, first served, and none is lost or served twice: the
  grants made so far followed by the requests still waiting are exactly the requests made, in
  order; and a request waits only while all slots are held.
\<close>

theorem semaphore_fifo_no_lost_wakeup:
  "let s = run_steps sem_step es (semaphore_new c)
   in sm_granted s @ sm_waiters s = [0..<sm_next s] \<and>
      (sem_waiting s = 0 \<or> sem_available s = 0)"
  using sem.inv_run[OF sem_inv_new, of es c]
  by (auto simp: Let_def sem_inv_def sem_waiting_def sem_available_def)

text \<open>A closure called twice gives its slot back once.\<close>

lemma sem_release_idempotent:
  assumes "sem_inv s"
  shows "sem_release r (snd (sem_release r s)) = (None, snd (sem_release r s))"
proof -
  have "r \<notin> set (sm_live (snd (sem_release r s)))"
  proof (cases "r \<in> set (sm_live s)")
    case False
    then show ?thesis by (simp add: sem_release_def)
  next
    case True
    then have "r \<in> set (sm_granted s)" using assms by (auto simp: sem_inv_def)
    with granted_waiters_distinct[OF assms] have "r \<notin> set (sm_waiters s)" by auto
    with True assms show ?thesis
      by (auto simp: sem_release_def create_release_def sem_inv_def Let_def split: list.splits)
  qed
  then show ?thesis by (simp add: sem_release_def)
qed

end
