(* ===== verification/SessionLanes.thy ===== *)
theory SessionLanes
  imports Lanes Semaphores
begin

text \<open>
  The class \<open>LaneQueue\<close> of \<open>src/src/agent/pty/lane-queue.ts\<close>: one lane per session, a
  semaphore across all sessions, and the follow-up and collected message queues.

  Lane objects live in \<open>lq_heap\<close> and \<open>lq_lanes\<close> maps a session key to the index of its
  lane: a lane deleted from the map keeps running, because its drain loop holds a reference to it.
  \<open>execute\<close> is an asynchronous function; its body is cut at every \<open>await\<close>, so that any
  other operation may happen in between:
  \<^item> \<open>LqExecute\<close>: the call up to \<open>await acquire()\<close> (or the whole call without semaphore);
  \<^item> \<open>LqRun\<close>: the call resumes with its slot and enqueues its task on the session's lane;
  \<^item> \<open>LqFinish\<close>: the awaited task of a lane returns or throws;
  \<^item> \<open>LqRelease\<close>: the \<open>finally\<close> block of a call whose lane promise was settled.
  \<open>lq_waiting\<close> holds the calls suspended at \<open>acquire\<close>, \<open>lq_inflight\<close> those suspended at
  the lane (lane and task, request), \<open>lq_finally\<close> those about to release. \<open>lq_owner\<close> names the
  session a lane was made for; no operation reads it.
\<close>

record lane_queue =
  lq_heap :: "lane list"
  lq_owner :: "string list"
  lq_lanes :: "(string, nat) jmap"
  lq_followups :: "(string, string list) jmap"
  lq_collected :: "(string, string list) jmap"
  lq_sem :: "semaphore option"
  lq_max_pending :: "int option"
  lq_drop :: "drop_policy option"
  lq_waiting :: "(nat \<times> string) list"
  lq_inflight :: "((nat \<times> nat) \<times> nat) list"
  lq_finally :: "nat list"

definition lane_queue_new :: "int option \<Rightarrow> int option \<Rightarrow> drop_policy option \<Rightarrow> lane_queue" where
  "lane_queue_new global_concurrency lane_max_pending lane_drop =
     (let concurrency = (case global_concurrency of None \<Rightarrow> 0 | Some n \<Rightarrow> n)
      in \<lparr>lq_heap = [], lq_owner = [], lq_lanes = [], lq_followups = [], lq_collected = [],
          lq_sem = (if 0 < concurrency then Some (semaphore_new concurrency) else None),
          lq_max_pending = lane_max_pending, lq_drop = lane_drop,
          lq_waiting = [], lq_inflight = [], lq_finally = []\<rparr>)"

definition resolve_lane :: "string \<Rightarrow> lane_queue \<Rightarrow> nat \<times> lane_queue" where
  "resolve_lane key q =
     (case jget (lq_lanes q) key of
        Some i \<Rightarrow> (i, q)
      | None \<Rightarrow>
          (let i = length (lq_heap q)
           in (i, q\<lparr>lq_heap := lq_heap q @ [lane_new (lq_max_pending q) (lq_drop q)],
                   lq_owner := lq_owner q @ [key],
                   lq_lanes := jset key i (lq_lanes q)\<rparr>)))"

text \<open>The calls whose lane promise was settled move to their \<open>finally\<close> block.\<close>

definition settle_calls :: "nat \<Rightarrow> nat set \<Rightarrow> lane_queue \<Rightarrow> lane_queue" where
  "settle_calls i xs q =
     q\<lparr>lq_finally := lq_finally q @ map snd (filter (\<lambda>c. fst c \<in> {i} \<times> xs) (lq_inflight q)),
       lq_inflight := filter (\<lambda>c. fst c \<notin> {i} \<times> xs) (lq_inflight q)\<rparr>"

definition put_lane :: "nat \<Rightarrow> lane \<Rightarrow> lane_queue \<Rightarrow> lane_queue" where
  "put_lane i l q = settle_calls i (fst ` set (ln_settled l)) (q\<lparr>lq_heap := (lq_heap q)[i := l]\<rparr>)"

definition run_in_lane :: "string \<Rightarrow> nat option \<Rightarrow> lane_queue \<Rightarrow> lane_queue" where
  "run_in_lane key req q =
     (let (i, q) = resolve_lane key q;
          (x, l) = lane_enqueue (lq_heap q ! i)
      in put_lane i l
           (case req of None \<Rightarrow> q | Some r \<Rightarrow> q\<lparr>lq_inflight := lq_inflight q @ [((i, x), r)]\<rparr>))"

definition lq_execute :: "string \<Rightarrow> lane_queue \<Rightarrow> lane_queue" where
  "lq_execute key q =
     (case lq_sem q of
        None \<Rightarrow> run_in_lane key None q
      | Some s \<Rightarrow>
          (let (r, _, s') = sem_acquire s
           in q\<lparr>lq_sem := Some s', lq_waiting := lq_waiting q @ [(r, key)]\<rparr>))"

definition lq_resume :: "nat \<Rightarrow> lane_queue \<Rightarrow> lane_queue" where
  "lq_resume r q =
     (case (lq_sem q, jget (lq_waiting q) r) of
        (Some s, Some key) \<Rightarrow>
          if r \<in> set (sm_live s)
          then run_in_lane key (Some r) (q\<lparr>lq_waiting := jdel r (lq_waiting q)\<rparr>)
          else q
      | _ \<Rightarrow> q)"

definition lq_finish :: "nat \<Rightarrow> bool \<Rightarrow> lane_queue \<Rightarrow> lane_queue" where
  "lq_finish i b q =
     (if i < length (lq_heap q) then put_lane i (lane_finish b (lq_heap q ! i)) q else q)"

definition lq_release :: "nat \<Rightarrow> lane_queue \<Rightarrow> lane_queue" where
  "lq_release r q =
     (case lq_sem q of
        None \<Rightarrow> q
      | Some s \<Rightarrow>
          if r \<in> set (lq_finally q)
          then q\<lparr>lq_sem := Some (snd (sem_release r s)), lq_finally := remove1 r (lq_finally q)\<rparr>
          else q)"

definition append_to :: "string \<Rightarrow> string \<Rightarrow> (string, string list) jmap \<Rightarrow> (string, string list) jmap" where
  "append_to key content m =
     jset key ((case jget m key of None \<Rightarrow> [] | Some ms \<Rightarrow> ms) @ [content]) m"

definition followup :: "string \<Rightarrow> string \<Rightarrow> lane_queue \<Rightarrow> lane_queue" where
  "followup key content q = q\<lparr>lq_followups := append_to key content (lq_followups q)\<rparr>"

definition collect :: "string \<Rightarrow> string \<Rightarrow> lane_queue \<Rightarrow> lane_queue" where
  "collect key content q = q\<lparr>lq_collected := append_to key content (lq_collected q)\<rparr>"

definition drain_followups :: "string \<Rightarrow> lane_queue \<Rightarrow> string list \<times> lane_queue" where
  "drain_followups key q =
     ((case jget (lq_followups q) key of None \<Rightarrow> [] | Some ms \<Rightarrow> ms),
      q\<lparr>lq_followups := jdel key (lq_followups q)\<rparr>)"

definition drain_collected :: "string \<Rightarrow> string \<Rightarrow> lane_queue \<Rightarrow> string option \<times> lane_queue" where
  "drain_collected key separator q =
     (case jget (lq_collected q) key of
        None \<Rightarrow> (None, q)
      | Some ms \<Rightarrow>
          if ms = [] then (None, q)
          else (Some (str_join separator ms), q\<lparr>lq_collected := jdel key (lq_collected q)\<rparr>))"

text \<open>
  \<open>wait_for_followup\<close>: one immediate drain, then one every 200 ms until something arrives or
  the timeout has elapsed. \<open>arrive n\<close> are the messages queued for the session before the
  \<open>n\<close>-th poll.
\<close>

function poll_followups ::
  "string \<Rightarrow> int \<Rightarrow> (nat \<Rightarrow> string list) \<Rightarrow> nat \<Rightarrow> int \<Rightarrow> lane_queue \<Rightarrow> string list option \<times> lane_queue"
where
  "poll_followups key timeout_ms arrive n elapsed q =
     (let elapsed = elapsed + 200;
          (items, q) = drain_followups key (fold (followup key) (arrive n) q)
      in if items \<noteq> [] then (Some items, q)
         else if timeout_ms \<le> elapsed then (None, q)
         else poll_followups key timeout_ms arrive (Suc n) elapsed q)"
  by pat_completeness auto
termination
  by (relation "measure (\<lambda>(key, t, arrive, n, elapsed, q). nat (t - elapsed))") auto

declare poll_followups.simps [simp del]

definition wait_for_followup ::
  "string \<Rightarrow> int \<Rightarrow> (nat \<Rightarrow> string list) \<Rightarrow> lane_queue \<Rightarrow> string list option \<times> lane_queue" where
  "wait_for_followup key timeout_ms arrive q =
     (let (immediate, q) = drain_followups key q
      in if immediate \<noteq> [] then (Some immediate, q)
         else poll_followups key timeout_ms arrive 0 0 q)"

definition lq_clear :: "string \<Rightarrow> lane_queue \<Rightarrow> lane_queue" where
  "lq_clear key q =
     q\<lparr>lq_lanes := jdel key (lq_lanes q), lq_followups := jdel key (lq_followups q),
       lq_collected := jdel key (lq_collected q)\<rparr>"

definition prune_idle :: "lane_queue \<Rightarrow> nat \<times> lane_queue" where
  "prune_idle q =
     (let keep = filter (\<lambda>(_, i). \<not> lane_is_idle (lq_heap q ! i)) (lq_lanes q)
      in (length (lq_lanes q) - length keep, q\<lparr>lq_lanes := keep\<rparr>))"

definition lq_session_count :: "lane_queue \<Rightarrow> nat" where
  "lq_session_count q = length (lq_lanes q)"

datatype lq_op =
    LqExecute string
  | LqResume nat
  | LqFinish nat bool
  | LqRelease nat
  | LqFollowup string string
  | LqCollect string string
  | LqDrainFollowups string
  | LqDrainCollected string string
  | LqPrune
  | LqClear string

fun lq_step :: "lq_op \<Rightarrow> lane_queue \<Rightarrow> lane_queue" where
  "lq_step (LqExecute key) q = lq_execute key q"
| "lq_step (LqResume r) q = lq_resume r q"
| "lq_step (LqFinish i b) q = lq_finish i b q"
| "lq_step (LqRelease r) q = lq_release r q"
| "lq_step (LqFollowup key c) q = followup key c q"
| "lq_step (LqCollect key c) q = collect key c q"
| "lq_step (LqDrainFollowups key) q = snd (drain_followups key q)"
| "lq_step (LqDrainCollected key sep) q = snd (drain_collected key sep q)"
| "lq_step LqPrune q = snd (prune_idle q)"
| "lq_step (LqClear key) q = lq_clear key q"

text \<open>The lanes in which a task is being run.\<close>

definition lq_running :: "lane_queue \<Rightarrow> nat list" where
  "lq_running q = filter (\<lambda>i. ln_running (lq_heap q ! i)) [0..<length (lq_heap q)]"


section \<open>The global limit\<close>

text \<open>
  Every suspended call holds a distinct request; the calls past \<open>acquire\<close> hold a live slot;
  and every open task of a lane belongs to a call suspended at that lane.
\<close>

definition lq_lanes_ok :: "lane_queue \<Rightarrow> bool" where
  "lq_lanes_ok q \<longleftrightarrow>
     (\<forall>l \<in> set (lq_heap q). lane_inv l) \<and> jwf (lq_lanes q) \<and>
     snd ` set (lq_lanes q) \<subseteq> {..<length (lq_heap q)}"

definition lq_slots :: "lane_queue \<Rightarrow> nat list" where
  "lq_slots q = map snd (lq_inflight q) @ lq_finally q"

definition lq_slots_ok :: "semaphore \<Rightarrow> lane_queue \<Rightarrow> bool" where
  "lq_slots_ok s q \<longleftrightarrow>
     sem_inv s \<and> distinct (map fst (lq_waiting q) @ lq_slots q) \<and>
     set (map fst (lq_waiting q)) \<subseteq> {..<sm_next s} \<and> set (lq_slots q) \<subseteq> set (sm_live s)"

definition lq_covered :: "lane_queue \<Rightarrow> bool" where
  "lq_covered q \<longleftrightarrow>
     (\<forall>i < length (lq_heap q). \<forall>x \<in> set (lane_open (lq_heap q ! i)).
        \<exists>r. ((i, x), r) \<in> set (lq_inflight q))"

definition lq_inv :: "lane_queue \<Rightarrow> bool" where
  "lq_inv q \<longleftrightarrow>
     lq_lanes_ok q \<and> (\<forall>s. lq_sem q = Some s \<longrightarrow> lq_slots_ok s q \<and> lq_covered q)"

lemma lq_inv_new: "lq_inv (lane_queue_new c m d)"
  by (auto simp: lq_inv_def lq_lanes_ok_def lq_slots_ok_def lq_slots_def lq_covered_def
        lane_queue_new_def Let_def sem_inv_new split: if_splits)

lemma lane_open_new [simp]: "lane_open (lane_new m d) = []"
  by (simp add: lane_open_def lane_new_def lane_current_list_def)

text \<open>The open tasks of a lane are those enqueued and not settled, so a step only adds the new one.\<close>

lemma lane_open_iff:
  assumes "lane_inv l"
  shows "x \<in> set (lane_open l) \<longleftrightarrow> x < ln_next l \<and> x \<notin> fst ` set (ln_settled l)"
proof -
  from assms have "mset (map fst (ln_settled l) @ lane_open l) = mset [0..<ln_next l]"
    by (simp add: lane_inv_def lane_accounts_def)
  then have "set (map fst (ln_settled l) @ lane_open l) = set [0..<ln_next l]"
    by (rule mset_eq_setD)
  with lane_open_distinct[OF assms] show ?thesis by auto
qed

lemma lane_settled_grows:
  "set (ln_settled l) \<subseteq> set (ln_settled (lane_settle x r l))"
  "set (ln_settled l) \<subseteq> set (ln_settled (snd (lane_enqueue l)))"
  "set (ln_settled l) \<subseteq> set (ln_settled (lane_finish b l))"
  by (auto simp: lane_op_defs split: option.splits list.splits drop_policy.splits)

lemma lane_next:
  "ln_next (snd (lane_enqueue l)) = Suc (ln_next l)" "fst (lane_enqueue l) = ln_next l"
  "ln_next (lane_finish b l) = ln_next l"
  by (auto simp: lane_op_defs split: option.splits list.splits drop_policy.splits)

lemma lane_open_enqueue:
  assumes "lane_inv l" and "x \<in> set (lane_open (snd (lane_enqueue l)))"
  shows "x = fst (lane_enqueue l) \<or> x \<in> set (lane_open l)"
  using assms lane_settled_grows(2)[of l]
  by (auto simp: lane_open_iff lane_inv_enqueue lane_next)

lemma lane_open_finish:
  assumes "lane_inv l" and "x \<in> set (lane_open (lane_finish b l))"
  shows "x \<in> set (lane_open l)"
  using assms lane_settled_grows(3)[of l b]
  by (auto simp: lane_open_iff lane_inv_finish lane_next)

lemma lq_inv_resolve:
  assumes inv: "lq_inv q" and res: "resolve_lane key q = (i, q')"
  shows "lq_inv q'" and "i < length (lq_heap q')"
proof -
  show "i < length (lq_heap q')"
    using inv res
    by (auto simp: resolve_lane_def lq_inv_def lq_lanes_ok_def Let_def dest!: jget_mem
             split: option.splits)
  have lanes: "lq_lanes_ok q'"
    using inv res lane_inv_new set_jset_subset[of key "length (lq_heap q)" "lq_lanes q"]
    by (fastforce simp: resolve_lane_def lq_inv_def lq_lanes_ok_def Let_def split: option.splits)
  have same: "lq_sem q' = lq_sem q \<and> lq_waiting q' = lq_waiting q \<and> lq_slots q' = lq_slots q"
    using res by (auto simp: resolve_lane_def Let_def lq_slots_def split: option.splits)
  have "lq_covered q \<Longrightarrow> lq_covered q'"
    using res
    by (auto simp: resolve_lane_def lq_covered_def Let_def nth_append less_Suc_eq
             split: option.splits)
  with inv lanes same show "lq_inv q'" by (simp add: lq_inv_def lq_slots_ok_def)
qed

text \<open>Replacing lane \<open>i\<close> by a successor whose open tasks are all in flight.\<close>

lemma mset_partition:
  "mset (map f (filter (\<lambda>c. \<not> P c) zs)) + mset (map f (filter P zs)) = mset (map f zs)"
  by (induction zs) auto

lemma lq_slots_put_lane: "mset (lq_slots (put_lane i l q)) = mset (lq_slots q)"
  using mset_partition[of snd "\<lambda>c. fst c \<in> {i} \<times> fst ` set (ln_settled l)" "lq_inflight q"]
  by (simp add: lq_slots_def put_lane_def settle_calls_def ac_simps)

lemma lq_inv_put_lane:
  assumes inv: "lq_inv q" and l: "lane_inv l"
    and op: "\<And>s x. lq_sem q = Some s \<Longrightarrow> x \<in> set (lane_open l) \<Longrightarrow>
      \<exists>r. ((i, x), r) \<in> set (lq_inflight q)"
  shows "lq_inv (put_lane i l q)"
proof -
  let ?q = "put_lane i l q"
  have lanes: "lq_lanes_ok ?q"
    using inv l set_update_subset_insert[of "lq_heap q" i l]
    by (auto simp: put_lane_def settle_calls_def lq_inv_def lq_lanes_ok_def)
  have same: "lq_sem ?q = lq_sem q" "lq_waiting ?q = lq_waiting q"
    by (simp_all add: put_lane_def settle_calls_def)
  have slots: "lq_slots_ok s ?q" if "lq_sem q = Some s" for s
  proof -
    from inv that have ok: "lq_slots_ok s q" by (simp add: lq_inv_def)
    have "mset (map fst (lq_waiting q) @ lq_slots ?q) = mset (map fst (lq_waiting q) @ lq_slots q)"
      by (simp add: lq_slots_put_lane)
    from mset_eq_imp_distinct_iff[OF this] mset_eq_setD[OF lq_slots_put_lane[of i l q]] ok
    show ?thesis by (simp only: lq_slots_ok_def same)
  qed
  have settled: "fst ` set (ln_settled l) \<inter> set (lane_open l) = {}"
    using lane_open_distinct[OF l] by auto
  have len: "length (lq_heap ?q) = length (lq_heap q)"
    and infl: "set (lq_inflight ?q) =
      {c \<in> set (lq_inflight q). fst c \<notin> {i} \<times> fst ` set (ln_settled l)}"
    by (simp_all add: put_lane_def settle_calls_def)
  have covered: "lq_covered ?q" if s: "lq_sem q = Some s" for s
    unfolding lq_covered_def
  proof (intro allI impI ballI)
    fix j x
    assume j: "j < length (lq_heap ?q)" and x: "x \<in> set (lane_open (lq_heap ?q ! j))"
    show "\<exists>r. ((j, x), r) \<in> set (lq_inflight ?q)"
    proof (cases "j = i")
      case True
      with j x len have xl: "x \<in> set (lane_open l)" by (simp add: put_lane_def settle_calls_def)
      from op[OF s this] obtain r where "((i, x), r) \<in> set (lq_inflight q)" ..
      with xl settled True show ?thesis unfolding infl by auto
    next
      case False
      with x have "x \<in> set (lane_open (lq_heap q ! j))"
        by (simp add: put_lane_def settle_calls_def)
      with inv s j len obtain r where "((j, x), r) \<in> set (lq_inflight q)"
        by (auto simp: lq_inv_def lq_covered_def)
      with False show ?thesis unfolding infl by auto
    qed
  qed
  from lanes slots covered same show ?thesis by (simp add: lq_inv_def)
qed

lemma resolve_lane_frame:
  assumes "resolve_lane key q = (i, q')"
  shows "lq_sem q' = lq_sem q" "lq_waiting q' = lq_waiting q" "lq_slots q' = lq_slots q"
    "lq_inflight q' = lq_inflight q"
  using assms by (auto simp: resolve_lane_def Let_def lq_slots_def split: option.splits)

lemma lq_inv_add_call:
  assumes "lq_inv q"
    and "\<And>s. lq_sem q = Some s \<Longrightarrow>
      r \<in> set (sm_live s) \<and> r \<notin> set (map fst (lq_waiting q) @ lq_slots q)"
  shows "lq_inv (q\<lparr>lq_inflight := lq_inflight q @ [(c, r)]\<rparr>)"
  using assms
  by (fastforce simp: lq_inv_def lq_lanes_ok_def lq_slots_ok_def lq_slots_def lq_covered_def)

lemma lq_inv_run_in_lane:
  assumes inv: "lq_inv q"
    and req: "\<And>s. lq_sem q = Some s \<Longrightarrow>
      \<exists>r. req = Some r \<and> r \<in> set (sm_live s) \<and> r \<notin> set (map fst (lq_waiting q) @ lq_slots q)"
  shows "lq_inv (run_in_lane key req q)"
proof -
  obtain i q1 where res: "resolve_lane key q = (i, q1)" by (cases "resolve_lane key q")
  obtain x l where enq: "lane_enqueue (lq_heap q1 ! i) = (x, l)" by (cases "lane_enqueue (lq_heap q1 ! i)")
  define q2 where "q2 = (case req of None \<Rightarrow> q1 | Some r \<Rightarrow> q1\<lparr>lq_inflight := lq_inflight q1 @ [((i, x), r)]\<rparr>)"
  have inv1: "lq_inv q1" and i: "i < length (lq_heap q1)"
    using lq_inv_resolve[OF inv res] by auto
  note frame = resolve_lane_frame[OF res]
  have inv2: "lq_inv q2"
  proof (cases req)
    case None
    with inv1 show ?thesis by (simp add: q2_def)
  next
    case (Some r)
    then show ?thesis
      unfolding q2_def using lq_inv_add_call[OF inv1, of r "(i, x)"] req frame by auto
  qed
  have lane: "lane_inv (lq_heap q1 ! i)" using inv1 i by (simp add: lq_inv_def lq_lanes_ok_def)
  then have l: "lane_inv l" using lane_inv_enqueue[OF lane] enq by simp
  have "\<exists>r. ((i, y), r) \<in> set (lq_inflight q2)"
    if s: "lq_sem q2 = Some s" and y: "y \<in> set (lane_open l)" for s y
  proof -
    from s have "lq_sem q = Some s" by (cases req) (auto simp: q2_def frame)
    with req obtain r where r: "req = Some r" by blast
    from lane_open_enqueue[OF lane, of y] y enq have "y = x \<or> y \<in> set (lane_open (lq_heap q1 ! i))"
      by simp
    moreover have "lq_covered q1" using inv1 frame \<open>lq_sem q = Some s\<close> by (simp add: lq_inv_def)
    ultimately show ?thesis using r i by (auto simp: q2_def lq_covered_def)
  qed
  from lq_inv_put_lane[OF inv2 l this] have "lq_inv (put_lane i l q2)" .
  moreover have "run_in_lane key req q = put_lane i l q2"
    by (simp add: run_in_lane_def res enq q2_def)
  ultimately show ?thesis by simp
qed

lemma sem_acquire_parts:
  assumes "sem_acquire s = (r, g, s')"
  shows "r = sm_next s" "sm_next s' = Suc r" "set (sm_live s) \<subseteq> set (sm_live s')"
  using assms by (auto simp: sem_acquire_def create_release_def Let_def split: if_splits)

lemma sem_live_below:
  assumes "sem_inv s"
  shows "set (sm_live s) \<subseteq> {..<sm_next s}"
proof -
  from assms have eq: "sm_granted s @ sm_waiters s = [0..<sm_next s]"
    and sub: "set (sm_live s) \<subseteq> set (sm_granted s)" by (auto simp: sem_inv_def)
  have "set (sm_granted s) \<subseteq> set [0..<sm_next s]" by (subst eq [symmetric]) simp
  with sub show ?thesis by auto
qed

lemma lq_inv_execute:
  assumes inv: "lq_inv q"
  shows "lq_inv (lq_execute key q)"
proof (cases "lq_sem q")
  case None
  with lq_inv_run_in_lane[OF inv, of None key] show ?thesis by (simp add: lq_execute_def)
next
  case (Some s)
  obtain r g s' where acq: "sem_acquire s = (r, g, s')" by (cases "sem_acquire s") auto
  from inv Some have ok: "lq_slots_ok s q" by (simp add: lq_inv_def)
  then have s: "sem_inv s" by (simp add: lq_slots_ok_def)
  with sem_acquire_inv[OF s] acq have "sem_inv s'" by simp
  moreover have "r \<notin> set (map fst (lq_waiting q) @ lq_slots q)"
    using ok sem_live_below[OF s] sem_acquire_parts[OF acq] by (auto simp: lq_slots_ok_def)
  ultimately show ?thesis
    using inv ok Some sem_acquire_parts[OF acq]
    by (auto simp: lq_execute_def acq lq_inv_def lq_lanes_ok_def lq_slots_ok_def lq_slots_def
          lq_covered_def)
qed

lemma keys_drop_waiting:
  "map fst (jdel r w) = filter (\<lambda>k. k \<noteq> r) (map fst w)"
  by (induction w) (auto simp: jdel_def)

lemma lq_inv_drop_waiting:
  assumes inv: "lq_inv q"
  shows "lq_inv (q\<lparr>lq_waiting := jdel r (lq_waiting q)\<rparr>)"
proof -
  have "lq_slots_ok s (q\<lparr>lq_waiting := jdel r (lq_waiting q)\<rparr>)" if "lq_sem q = Some s" for s
  proof -
    from inv that have "lq_slots_ok s q" by (simp add: lq_inv_def)
    then show ?thesis
      by (simp add: lq_slots_ok_def lq_slots_def keys_drop_waiting del: set_map) auto
  qed
  with inv show ?thesis by (auto simp: lq_inv_def lq_lanes_ok_def lq_covered_def)
qed

lemma lq_inv_resume:
  assumes inv: "lq_inv q"
  shows "lq_inv (lq_resume r q)"
proof (cases "\<exists>s key. lq_sem q = Some s \<and> jget (lq_waiting q) r = Some key \<and> r \<in> set (sm_live s)")
  case False
  then have "lq_resume r q = q" by (auto simp: lq_resume_def split: option.splits)
  with inv show ?thesis by simp
next
  case True
  then obtain s key where s: "lq_sem q = Some s" and key: "jget (lq_waiting q) r = Some key"
    and live: "r \<in> set (sm_live s)" by blast
  let ?q = "q\<lparr>lq_waiting := jdel r (lq_waiting q)\<rparr>"
  from inv s have ok: "lq_slots_ok s q" by (simp add: lq_inv_def)
  from key have rw: "r \<in> set (map fst (lq_waiting q))" by (force dest: jget_mem)
  with ok have fresh: "r \<notin> set (lq_slots q)" by (auto simp: lq_slots_ok_def)
  have "r \<notin> set (map fst (jdel r (lq_waiting q)))" by (simp add: keys_drop_waiting del: set_map)
  with lq_inv_drop_waiting[OF inv, of r]
have "lq_inv (run_in_lane key (Some r) ?q)"
    using s live fresh by (intro lq_inv_run_in_lane) (auto simp: lq_slots_def)
  with s key live show ?thesis by (simp add: lq_resume_def)
qed

lemma lq_inv_finish:
  assumes inv: "lq_inv q"
  shows "lq_inv (lq_finish i b q)"
proof (cases "i < length (lq_heap q)")
  case False
  with inv show ?thesis by (simp add: lq_finish_def)
next
  case True
  with inv have lane: "lane_inv (lq_heap q ! i)" by (simp add: lq_inv_def lq_lanes_ok_def)
  have "\<exists>r. ((i, y), r) \<in> set (lq_inflight q)"
    if "lq_sem q = Some s" and "y \<in> set (lane_open (lane_finish b (lq_heap q ! i)))" for s y
    using inv that True lane_open_finish[OF lane] by (auto simp: lq_inv_def lq_covered_def)
  from lq_inv_put_lane[OF inv lane_inv_finish[OF lane] this] True show ?thesis
    by (simp add: lq_finish_def)
qed

lemma lq_inv_release:
  assumes inv: "lq_inv q"
  shows "lq_inv (lq_release r q)"
proof (cases "\<exists>s. lq_sem q = Some s \<and> r \<in> set (lq_finally q)")
  case False
  then have "lq_release r q = q" by (auto simp: lq_release_def split: option.splits)
  with inv show ?thesis by simp
next
  case True
  then obtain s where s: "lq_sem q = Some s" and r: "r \<in> set (lq_finally q)" by blast
  from inv s have ok: "lq_slots_ok s q" by (simp add: lq_inv_def)
  then have si: "sem_inv s" by (simp add: lq_slots_ok_def)
  have live: "set (remove1 r (sm_live s)) \<subseteq> set (sm_live (snd (sem_release r s)))"
    and nxt: "sm_next (snd (sem_release r s)) = sm_next s"
    using set_remove1_subset[of r "sm_live s"]
    by (auto simp: sem_release_def create_release_def Let_def split: list.splits)
  have "set (sm_live s) - {r} \<subseteq> set (remove1 r (sm_live s))"
    using si by (auto simp: sem_inv_def)
  with live have live': "set (sm_live s) - {r} \<subseteq> set (sm_live (snd (sem_release r s)))" by blast
  have "distinct (lq_slots q)" using ok by (simp add: lq_slots_ok_def)
  with r have rest: "set (lq_slots (lq_release r q)) = set (lq_slots q) - {r}"
    and "distinct (lq_slots (lq_release r q))"
    using s by (force simp: lq_slots_def lq_release_def)+
  with ok s have "distinct (map fst (lq_waiting (lq_release r q)) @ lq_slots (lq_release r q))"
    by (auto simp: lq_slots_ok_def lq_release_def)
  moreover have "set (lq_slots (lq_release r q)) \<subseteq> set (sm_live (snd (sem_release r s)))"
    using rest ok live' by (auto simp: lq_slots_ok_def)
  ultimately have "lq_slots_ok (snd (sem_release r s)) (lq_release r q)"
    using ok r s sem_release_inv[OF si, of r] nxt
    by (auto simp: lq_slots_ok_def lq_release_def)
  with inv s r show ?thesis
    by (auto simp: lq_inv_def lq_lanes_ok_def lq_covered_def lq_release_def)
qed

lemma lq_inv_frame:
  assumes "lq_inv q" and "lq_heap q' = lq_heap q" "lq_sem q' = lq_sem q"
    "lq_waiting q' = lq_waiting q" "lq_inflight q' = lq_inflight q" "lq_finally q' = lq_finally q"
    and "jwf (lq_lanes q')" "set (lq_lanes q') \<subseteq> set (lq_lanes q)"
  shows "lq_inv q'"
  using assms
  by (auto simp: lq_inv_def lq_lanes_ok_def lq_slots_ok_def lq_slots_def lq_covered_def)

interpretation lq: machine lq_step lq_inv
proof
  fix q e
  assume inv: "lq_inv q"
  then have "jwf (lq_lanes q)" by (simp add: lq_inv_def lq_lanes_ok_def)
  then have "lq_inv (followup key c q)" "lq_inv (collect key c q)"
    "lq_inv (snd (drain_followups key q))" "lq_inv (snd (drain_collected key sep q))"
    "lq_inv (snd (prune_idle q))" "lq_inv (lq_clear key q)" for key c sep
    by (auto intro!: lq_inv_frame[OF inv] simp: followup_def collect_def drain_followups_def
          drain_collected_def prune_idle_def lq_clear_def Let_def jdel_def split: option.splits)
  with inv show "lq_inv (lq_step e q)"
    by (cases e)
       (simp_all add: lq_inv_execute lq_inv_resume lq_inv_finish lq_inv_release)
qed

text \<open>
  C5. With a global limit, at most that many tasks run at once, counted over all sessions, in
  every interleaving of calls, completions, releases, clears and prunes.
\<close>

theorem global_concurrency_respected:
  assumes "0 < c"
  shows "length (lq_running (run_steps lq_step es (lane_queue_new (Some c) m d))) \<le> nat c"
proof -
  let ?q = "run_steps lq_step es (lane_queue_new (Some c) m d)"
  have inv: "lq_inv ?q" by (rule lq.inv_run[OF lq_inv_new])
  have step: "map_option sm_max (lq_sem (lq_step e q)) = map_option sm_max (lq_sem q)" for e q
    by (cases e)
       (auto simp: lq_execute_def lq_resume_def lq_finish_def lq_release_def run_in_lane_def
          resolve_lane_def put_lane_def settle_calls_def followup_def collect_def drain_followups_def
          drain_collected_def prune_idle_def lq_clear_def Let_def sem_acquire_def sem_release_def
          create_release_def split: option.splits prod.splits list.splits)
  have "map_option sm_max (lq_sem (run_steps lq_step es q)) = map_option sm_max (lq_sem q)" for q
    by (induction es arbitrary: q) (auto simp: step)
  from this[of "lane_queue_new (Some c) m d"] assms
  obtain s where s: "lq_sem ?q = Some s" and max: "sm_max s = c"
    by (auto simp: lane_queue_new_def semaphore_new_def)
  have slots: "lq_slots_ok s ?q" and cov: "lq_covered ?q" using inv s by (auto simp: lq_inv_def)
  have "set (lq_running ?q) \<subseteq> (fst \<circ> fst) ` set (lq_inflight ?q)"
  proof
    fix i
    assume "i \<in> set (lq_running ?q)"
    then have i: "i < length (lq_heap ?q)" and run: "ln_running (lq_heap ?q ! i)"
      by (auto simp: lq_running_def)
    from i inv have "lane_inv (lq_heap ?q ! i)" by (simp add: lq_inv_def lq_lanes_ok_def)
    with run obtain x where "x \<in> set (lane_open (lq_heap ?q ! i))"
      by (fastforce simp: lane_inv_def lane_control_def lane_open_def lane_current_list_def)
    with cov i obtain r where "((i, x), r) \<in> set (lq_inflight ?q)" by (auto simp: lq_covered_def)
    then show "i \<in> (fst \<circ> fst) ` set (lq_inflight ?q)" by force
  qed
  then have "card (set (lq_running ?q)) \<le> card ((fst \<circ> fst) ` set (lq_inflight ?q))"
    by (intro card_mono) auto
  also have "\<dots> \<le> length (lq_inflight ?q)"
    by (metis card_image_le card_length le_trans finite_set)
  also have "\<dots> \<le> length (lq_slots ?q)" by (simp add: lq_slots_def)
  also have "\<dots> = card (set (lq_slots ?q))"
    using slots by (auto simp: lq_slots_ok_def distinct_card)
  also have "\<dots> \<le> card (set (sm_live s))"
    using slots by (intro card_mono) (auto simp: lq_slots_ok_def)
  also have "\<dots> = length (sm_live s)"
    using slots by (auto simp: lq_slots_ok_def sem_inv_def distinct_card)
  also have "\<dots> \<le> nat c"
    using slots max by (auto simp: lq_slots_ok_def sem_inv_def)
  finally have "card (set (lq_running ?q)) \<le> nat c" .
  moreover have "distinct (lq_running ?q)" by (simp add: lq_running_def)
  ultimately show ?thesis by (simp only: distinct_card)
qed

theorem global_concurrency_respected_witness:
  "length (lq_running (run_steps lq_step [LqExecute ''a'', LqResume 0, LqExecute ''b'', LqResume 1]
     (lane_queue_new (Some 1) None None))) \<le> nat 1"
  by (rule global_concurrency_respected) simp



section \<open>One task at a time per session\<close>

text \<open>
  As long as no session is cleared, a lane that is not idle is the one its session's key maps to.
  \<open>prune_idle\<close> keeps this because it only drops idle lanes.
\<close>

definition lq_owned :: "lane_queue \<Rightarrow> bool" where
  "lq_owned q \<longleftrightarrow>
     length (lq_owner q) = length (lq_heap q) \<and>
     (\<forall>key i. jget (lq_lanes q) key = Some i \<longrightarrow> lq_owner q ! i = key) \<and>
     (\<forall>i < length (lq_heap q). \<not> lane_is_idle (lq_heap q ! i) \<longrightarrow>
        jget (lq_lanes q) (lq_owner q ! i) = Some i)"

lemma lq_owned_busy:
  assumes "lq_owned q" and "i < length (lq_heap q)" and "\<not> lane_is_idle (lq_heap q ! i)"
  shows "jget (lq_lanes q) (lq_owner q ! i) = Some i"
  using assms unfolding lq_owned_def by blast

lemma lane_is_idle_new: "lane_is_idle (lane_new m d)"
  by (simp add: lane_is_idle_def lane_new_def)

lemma lane_idle_finish: "lane_inv l \<Longrightarrow> lane_is_idle l \<Longrightarrow> lane_finish b l = l"
  by (auto simp: lane_is_idle_def lane_inv_def lane_control_def lane_finish_def)

lemma lq_owned_new: "lq_owned (lane_queue_new c m d)"
  by (simp add: lq_owned_def lane_queue_new_def Let_def)

lemma lq_lanes_index:
  assumes "lq_inv q" and "jget (lq_lanes q) key = Some i"
  shows "i < length (lq_heap q)"
  using assms by (auto simp: lq_inv_def lq_lanes_ok_def dest!: jget_mem)

lemma lq_owned_resolve:
  assumes inv: "lq_inv q" and own: "lq_owned q" and res: "resolve_lane key q = (i, q')"
  shows "lq_owned q'" and "jget (lq_lanes q') key = Some i" and "lq_owner q' ! i = key"
proof -
  have "lq_owned q' \<and> jget (lq_lanes q') key = Some i \<and> lq_owner q' ! i = key"
  proof (cases "jget (lq_lanes q) key")
    case (Some j)
    with own res show ?thesis by (auto simp: resolve_lane_def lq_owned_def)
  next
    case None
    have i: "i = length (lq_heap q)" and len: "length (lq_owner q) = i"
      and q': "lq_heap q' = lq_heap q @ [lane_new (lq_max_pending q) (lq_drop q)]"
        "lq_owner q' = lq_owner q @ [key]" "lq_lanes q' = jset key i (lq_lanes q)"
      using None own res by (auto simp: resolve_lane_def Let_def lq_owned_def)
    have "lq_owner q' ! j = k" if "jget (lq_lanes q') k = Some j" for k j
      using that own lq_lanes_index[OF inv, of k j] len
      by (auto simp: q' lq_owned_def nth_append i split: if_splits)
    moreover have "jget (lq_lanes q') (lq_owner q' ! j) = Some j"
      if "j < length (lq_heap q')" and "\<not> lane_is_idle (lq_heap q' ! j)" for j
    proof -
      from that have j: "j < length (lq_heap q)"
        by (cases "j = length (lq_heap q)") (auto simp: q' nth_append lane_is_idle_new)
      with that own have "jget (lq_lanes q) (lq_owner q ! j) = Some j"
        by (auto simp: q' nth_append lq_owned_def)
      with None j len i show ?thesis by (auto simp: q' nth_append)
    qed
    ultimately show ?thesis using len i by (auto simp: lq_owned_def q' nth_append)
  qed
  then show "lq_owned q'" "jget (lq_lanes q') key = Some i" "lq_owner q' ! i = key" by auto
qed

lemma put_lane_frame [simp]:
  "lq_owner (put_lane i l q) = lq_owner q" "lq_lanes (put_lane i l q) = lq_lanes q"
  "lq_heap (put_lane i l q) = (lq_heap q)[i := l]"
  by (simp_all add: put_lane_def settle_calls_def)

lemma lq_owned_put_lane:
  assumes "lq_owned q"
    and "\<not> lane_is_idle l \<Longrightarrow> jget (lq_lanes q) (lq_owner q ! i) = Some i"
  shows "lq_owned (put_lane i l q)"
  unfolding lq_owned_def
proof (intro conjI allI impI)
  fix j
  assume j: "j < length (lq_heap (put_lane i l q))"
    and busy: "\<not> lane_is_idle (lq_heap (put_lane i l q) ! j)"
  show "jget (lq_lanes (put_lane i l q)) (lq_owner (put_lane i l q) ! j) = Some j"
    using assms(2) j busy lq_owned_busy[OF assms(1), of j] by (cases "j = i") simp_all
next
  fix k j
  assume "jget (lq_lanes (put_lane i l q)) k = Some j"
  with assms(1) show "lq_owner (put_lane i l q) ! j = k" by (simp add: lq_owned_def)
next
  show "length (lq_owner (put_lane i l q)) = length (lq_heap (put_lane i l q))"
    using assms(1) by (simp add: lq_owned_def)
qed

lemma lq_owned_run_in_lane:
  assumes inv: "lq_inv q" and own: "lq_owned q"
  shows "lq_owned (run_in_lane key req q)"
proof -
  obtain i q1 where res: "resolve_lane key q = (i, q1)" by (cases "resolve_lane key q")
  obtain x l where enq: "lane_enqueue (lq_heap q1 ! i) = (x, l)"
    by (cases "lane_enqueue (lq_heap q1 ! i)")
  note own1 = lq_owned_resolve[OF inv own res]
  have "lq_owned (case req of None \<Rightarrow> q1 | Some r \<Rightarrow> q1\<lparr>lq_inflight := lq_inflight q1 @ [((i, x), r)]\<rparr>)"
    using own1(1) by (cases req) (simp_all add: lq_owned_def)
  then have "lq_owned (put_lane i l
      (case req of None \<Rightarrow> q1 | Some r \<Rightarrow> q1\<lparr>lq_inflight := lq_inflight q1 @ [((i, x), r)]\<rparr>))"
    by (rule lq_owned_put_lane) (use own1 in \<open>cases req; simp\<close>)
  then show ?thesis by (simp add: run_in_lane_def res enq)
qed

lemma lq_owned_step:
  assumes inv: "lq_inv q" and own: "lq_owned q" and noclear: "\<forall>key. e \<noteq> LqClear key"
  shows "lq_owned (lq_step e q)"
proof (cases e)
  case (LqExecute key)
  with own lq_owned_run_in_lane[OF inv own, of key None] show ?thesis
    by (auto simp: lq_execute_def lq_owned_def split: option.splits prod.splits)
next
  case (LqResume r)
  have "lq_owned (q\<lparr>lq_waiting := jdel r (lq_waiting q)\<rparr>)" using own by (simp add: lq_owned_def)
  from lq_owned_run_in_lane[OF lq_inv_drop_waiting[OF inv] this] own LqResume show ?thesis
    by (auto simp: lq_resume_def split: option.splits)
next
  case (LqFinish i b)
  show ?thesis
  proof (cases "i < length (lq_heap q) \<and> \<not> lane_is_idle (lq_heap q ! i)")
    case True
    with own have "jget (lq_lanes q) (lq_owner q ! i) = Some i" by (simp add: lq_owned_def)
    with True own LqFinish show ?thesis by (auto simp: lq_finish_def intro: lq_owned_put_lane)
  next
    case False
    with own inv LqFinish show ?thesis
      by (auto simp: lq_finish_def lane_idle_finish lq_inv_def lq_lanes_ok_def
            intro!: lq_owned_put_lane)
  qed
next
  case (LqRelease r)
  with own show ?thesis by (auto simp: lq_release_def lq_owned_def split: option.splits)
next
  case LqPrune
  have "jwf (lq_lanes q)" using inv by (simp add: lq_inv_def lq_lanes_ok_def)
  with own LqPrune show ?thesis
    by (auto simp: prune_idle_def lq_owned_def Let_def jget_filter split: option.splits)
qed (use own noclear in \<open>auto simp: followup_def collect_def drain_followups_def
        drain_collected_def lq_owned_def split: option.splits\<close>)

text \<open>
  C4. If no session is cleared during the run, the tasks of one session never overlap: two lanes
  that run a task for the same session are the same lane, which runs its tasks one by one.
\<close>

theorem session_mutual_exclusion:
  assumes "\<forall>e \<in> set es. \<forall>key. e \<noteq> LqClear key"
    and "i \<in> set (lq_running (run_steps lq_step es (lane_queue_new c m d)))"
    and "j \<in> set (lq_running (run_steps lq_step es (lane_queue_new c m d)))"
    and "lq_owner (run_steps lq_step es (lane_queue_new c m d)) ! i =
         lq_owner (run_steps lq_step es (lane_queue_new c m d)) ! j"
  shows "i = j"
proof -
  have "lq_inv q \<Longrightarrow> lq_owned q \<Longrightarrow> lq_owned (run_steps lq_step es q)" for q
    using assms(1)
  proof (induction es arbitrary: q)
    case (Cons e es)
    then show ?case by (simp add: lq_owned_step lq.inv_step)
  qed simp
  from this[OF lq_inv_new lq_owned_new]
  have own: "lq_owned (run_steps lq_step es (lane_queue_new c m d))" (is "lq_owned ?q") .
  have "jget (lq_lanes ?q) (lq_owner ?q ! k) = Some k" if "k \<in> set (lq_running ?q)" for k
    by (rule lq_owned_busy[OF own]) (use that in \<open>simp_all add: lq_running_def lane_is_idle_def\<close>)
  from this[OF assms(2)] this[OF assms(3)] assms(4) have "Some i = Some j" by metis
  then show ?thesis by simp
qed

theorem session_mutual_exclusion_witness:
  "\<exists>i j. let q = run_steps lq_step [LqExecute ''a'', LqExecute ''b'', LqExecute ''a'', LqFinish 0 True]
                   (lane_queue_new None None None)
          in i \<in> set (lq_running q) \<and> lq_owner q ! i = lq_owner q ! j \<and> i = j"
proof (intro exI)
  let ?es = "[LqExecute ''a'', LqExecute ''b'', LqExecute ''a'', LqFinish 0 True]"
  let ?q = "run_steps lq_step ?es (lane_queue_new None None None)"
  have run: "0 \<in> set (lq_running ?q)" by code_simp
  have "(0::nat) = 0"
    by (rule session_mutual_exclusion[of ?es 0 None None None 0]) (use run in simp_all)
  with run show "let q = ?q in 0 \<in> set (lq_running q) \<and> lq_owner q ! 0 = lq_owner q ! 0 \<and> 0 = (0::nat)"
    by (simp add: Let_def)
qed

text \<open>
  The restriction is needed: \<open>clear\<close> (called by \<open>AgentBus.remove_session\<close>) forgets a lane that
  is still running, and the session's next call gets a fresh lane, so two tasks of the session
  overlap.
\<close>

lemma clear_breaks_session_exclusion:
  "let q = run_steps lq_step [LqExecute ''a'', LqClear ''a'', LqExecute ''a'']
             (lane_queue_new None None None)
   in lq_running q = [0, 1] \<and> lq_owner q = [''a'', ''a'']"
  by (simp add: lane_queue_new_def lq_execute_def run_in_lane_def resolve_lane_def lane_op_defs
        lane_new_def lq_running_def put_lane_def settle_calls_def lq_clear_def jdel_def)


section \<open>Follow-ups are delivered once and in order\<close>

definition queued_followups :: "string \<Rightarrow> lane_queue \<Rightarrow> string list" where
  "queued_followups key q = (case jget (lq_followups q) key of None \<Rightarrow> [] | Some ms \<Rightarrow> ms)"

lemma queued_followup_push:
  "queued_followups key (followup k c q) =
     (if k = key then queued_followups key q @ [c] else queued_followups key q)"
  by (simp add: queued_followups_def followup_def append_to_def)

lemma queued_followup_drain:
  "fst (drain_followups key q) = queued_followups key q"
  "queued_followups k (snd (drain_followups key q)) = (if k = key then [] else queued_followups k q)"
  by (simp_all add: queued_followups_def drain_followups_def)

lemma queued_followup_pushes:
  "queued_followups key (fold (followup key) cs q) = queued_followups key q @ cs"
  by (induction cs arbitrary: q) (simp_all add: queued_followup_push)

text \<open>
  The poll loop stops, and what it returns is everything that arrived up to that poll, in order;
  a timeout leaves nothing behind.
\<close>

lemma poll_followups_step:
  assumes "queued_followups key q = []"
  shows "\<exists>q'. queued_followups key q' = [] \<and>
    poll_followups key t arrive n e q =
      (if arrive n \<noteq> [] then (Some (arrive n), q')
       else if t \<le> e + 200 then (None, q')
       else poll_followups key t arrive (Suc n) (e + 200) q')"
proof -
  obtain items q' where dr: "drain_followups key (fold (followup key) (arrive n) q) = (items, q')"
    by (cases "drain_followups key (fold (followup key) (arrive n) q)")
  have "items = arrive n" and "queued_followups key q' = []"
    using queued_followup_drain[where key = key and q = "fold (followup key) (arrive n) q"] assms dr
    by (simp_all add: queued_followup_pushes)
  with dr show ?thesis
    by (intro exI[of _ q']) (subst poll_followups.simps, simp add: Let_def del: fold_simps)
qed

text \<open>The first poll that sees messages, if it comes before the deadline.\<close>

lemma poll_followups_result:
  assumes "queued_followups key q = []" and "e < t"
  shows "fst (poll_followups key t arrive n e q) =
    (let hits = filter (\<lambda>k. arrive (n + k) \<noteq> []) [0..<nat ((t - e + 199) div 200)]
     in case hits of [] \<Rightarrow> None | k # _ \<Rightarrow> Some (arrive (n + k)))"
  using assms
proof (induction "nat (t - e)" arbitrary: n e q rule: less_induct)
  case less
  let ?m = "nat ((t - e + 199) div 200)"
  have m: "?m = Suc (nat ((t - (e + 200) + 199) div 200))" using less.prems by linarith
  have upt: "[0..<?m] = 0 # map Suc [0..<nat ((t - (e + 200) + 199) div 200)]"
    unfolding m by (simp add: map_Suc_upt upt_conv_Cons del: upt_Suc)
  from poll_followups_step[OF less.prems(1)] obtain q' where q': "queued_followups key q' = []"
    and eq: "poll_followups key t arrive n e q =
      (if arrive n \<noteq> [] then (Some (arrive n), q')
       else if t \<le> e + 200 then (None, q')
       else poll_followups key t arrive (Suc n) (e + 200) q')" by blast
  consider "arrive n \<noteq> []" | "arrive n = []" "t \<le> e + 200" | "arrive n = []" "e + 200 < t"
    by linarith
  then show ?case
  proof cases
    case 1
    then show ?thesis by (simp add: eq upt)
  next
    case 2
    then have "nat ((t - (e + 200) + 199) div 200) = 0" using less.prems by linarith
    with 2 show ?thesis by (simp add: eq upt)
  next
    case 3
    then have "nat (t - (e + 200)) < nat (t - e)" by linarith
    from less.hyps[OF this q'] 3 have
      "fst (poll_followups key t arrive (Suc n) (e + 200) q') =
        (let hits = filter (\<lambda>k. arrive (Suc n + k) \<noteq> []) [0..<nat ((t - (e + 200) + 199) div 200)]
         in case hits of [] \<Rightarrow> None | k # _ \<Rightarrow> Some (arrive (Suc n + k)))" by simp
    with 3 show ?thesis
      by (simp add: eq upt filter_map comp_def Let_def split: list.splits)
  qed
qed

text \<open>
  \<open>wait_for_followup\<close> always returns, and returns the first batch: what is queued already, or
  else the messages of the first poll, at most one timeout away, that finds any; it times out
  exactly when none does. Every drained message leaves the queue.
\<close>

theorem wait_for_followup_first_batch:
  "0 < t \<Longrightarrow> fst (wait_for_followup key t arrive q) =
     (if queued_followups key q \<noteq> [] then Some (queued_followups key q)
      else case filter (\<lambda>k. arrive k \<noteq> []) [0..<nat ((t + 199) div 200)] of
             [] \<Rightarrow> None | k # _ \<Rightarrow> Some (arrive k))"
proof -
  assume t: "0 < t"
  obtain items q' where dr: "drain_followups key q = (items, q')" by (cases "drain_followups key q")
  have items: "items = queued_followups key q" using queued_followup_drain(1)[of key q] dr by simp
  have "queued_followups key q' = []" using queued_followup_drain(2)[of key key q] dr by simp
  from poll_followups_result[OF this t, of arrive 0] items show ?thesis
    by (simp add: wait_for_followup_def dr Let_def split: list.splits)
qed

theorem wait_for_followup_first_batch_witness:
  "fst (wait_for_followup ''s'' 500 (\<lambda>n. if n = 2 then [''x'', ''y''] else [])
      (lane_queue_new None None None)) = Some [''x'', ''y'']"
  by (subst wait_for_followup_first_batch)
     (simp_all add: queued_followups_def lane_queue_new_def Let_def upt_rec)

end
