(* ===== verification/Classifier.thy ===== *)
theory Classifier
  imports Prelude Complex_Main
begin

text \<open>
  \<open>src/src/orchestration/classifier.ts\<close>: the heuristic classification of a message into an
  execution mode, without a language model.

  The phrase tables come from the locale files and are the fields of \<open>classifier_locale\<close>, an
  argument of the model; the three regular expressions built from locale patterns, and the intent
  patterns of \<open>intent-patterns.ts\<close>, are predicates and a function of it. Token sets are lists
  without repetition, in order of first occurrence. The tokeniser separates at the ASCII
  punctuation of its character class and at white space. The token cache of skill phrases only
  saves time and is not modelled.
\<close>

datatype exec_mode = ModeOnce | ModeAgent | ModeTask | ModePhase

datatype classification =
    CMode exec_mode "string list option"
  | CInquiry
  | CIdentity
  | CBuiltin string "string option"
  | CPhase "string option" "string list option"

record skill_entry =
  se_name :: string
  se_triggers :: "string list"
  se_aliases :: "string list"

record history_entry =
  he_role :: string
  he_content :: string

record classifier_context =
  cc_active_tasks :: nat
  cc_recent_history :: "history_entry list"
  cc_available_skills :: "skill_entry list"

record classifier_locale =
  cl_identity_phrases :: "string list"
  cl_inquiry_phrases :: "string list"
  cl_connector_tokens :: "string list"
  cl_connector_phrases :: "string list"
  cl_task_signal_phrases :: "string list"
  cl_tool_pairs :: "(string \<times> string) list"
  cl_task_mention :: "string \<Rightarrow> bool"
  cl_assistant_info_request :: "string \<Rightarrow> bool"
  cl_user_context_reference :: "string \<Rightarrow> bool"
  cl_extract_intents :: "string \<Rightarrow> string list"


section \<open>Tokens and similarity\<close>

definition is_separator :: "char \<Rightarrow> bool" where
  "is_separator c \<longleftrightarrow> is_ws c \<or> c \<in> {CHR ''?'', CHR ''!'', CHR ''.'', CHR '','', CHR '';'', CHR '':'', CHR 0x27, CHR 0x22}"

fun split_tokens :: "string \<Rightarrow> string \<Rightarrow> string list" where
  "split_tokens cur [] = (if cur = [] then [] else [rev cur])"
| "split_tokens cur (c # s) =
     (if is_separator c then (if cur = [] then split_tokens [] s else rev cur # split_tokens [] s)
      else split_tokens (c # cur) s)"

text \<open>First occurrences, as \<open>new Set(...)\<close> keeps them.\<close>

fun uniq :: "'a list \<Rightarrow> 'a list" where
  "uniq [] = []"
| "uniq (x # xs) = x # filter (\<lambda>y. y \<noteq> x) (uniq xs)"

definition tokenize :: "string \<Rightarrow> string list" where
  "tokenize text = uniq (split_tokens [] (str_lower text))"

definition jaccard :: "string list \<Rightarrow> string list \<Rightarrow> rat" where
  "jaccard a b =
     (let i = length (filter (\<lambda>t. t \<in> set b) a)
      in of_nat i / of_nat (length a + length b - i))"

definition exceeds_similarity :: "string list \<Rightarrow> string list list \<Rightarrow> rat \<Rightarrow> bool" where
  "exceeds_similarity tokens refs threshold = (\<exists>ref \<in> set refs. threshold \<le> jaccard tokens ref)"

definition is_identity_question :: "classifier_locale \<Rightarrow> string list \<Rightarrow> bool" where
  "is_identity_question loc tokens =
     (tokens \<noteq> [] \<and> exceeds_similarity tokens (map tokenize (cl_identity_phrases loc)) (4 / 10))"

definition is_inquiry_question :: "classifier_locale \<Rightarrow> string list \<Rightarrow> bool" where
  "is_inquiry_question loc tokens =
     (tokens \<noteq> [] \<and> exceeds_similarity tokens (map tokenize (cl_inquiry_phrases loc)) (3 / 10))"

definition last_assistant :: "history_entry list \<Rightarrow> history_entry option" where
  "last_assistant history = find (\<lambda>h. he_role h = ''assistant'') (rev history)"

definition is_followup_inquiry :: "classifier_locale \<Rightarrow> string list \<Rightarrow> history_entry list \<Rightarrow> bool" where
  "is_followup_inquiry loc tokens history =
     (if history = [] \<or> 6 < length tokens then False
      else case last_assistant history of None \<Rightarrow> False | Some h \<Rightarrow> cl_task_mention loc (he_content h))"

definition intent_to_tool_categories :: "string \<Rightarrow> string list" where
  "intent_to_tool_categories intent =
     (if intent = ''search_web'' then [''web'']
      else if intent \<in> {''generate_document'', ''read_file'', ''write_file''} then [''filesystem'']
      else if intent = ''analyze_data'' then [''filesystem'', ''data'']
      else if intent \<in> {''execute_code'', ''version_control''} then [''shell'', ''filesystem'']
      else if intent = ''send_message'' then [''messaging'']
      else if intent = ''query_database'' then [''data'', ''filesystem'']
      else [])"

definition intents_to_categories :: "string list \<Rightarrow> string list" where
  "intents_to_categories intents = uniq (concat (map intent_to_tool_categories intents))"

definition extract_history_tool_hints ::
  "classifier_locale \<Rightarrow> string list \<Rightarrow> history_entry list \<Rightarrow> string list option" where
  "extract_history_tool_hints loc tokens history =
     (if history = [] \<or> 12 < length tokens then None
      else
        let is_info_followup =
              (case last_assistant history of
                 None \<Rightarrow> False | Some h \<Rightarrow> cl_assistant_info_request loc (he_content h));
            is_context_reference = cl_user_context_reference loc (str_join '' '' tokens)
        in if \<not> is_info_followup \<and> \<not> is_context_reference then None
           else
             let cats = uniq (concat (map (\<lambda>m. intents_to_categories (cl_extract_intents loc (he_content m)))
                          (filter (\<lambda>m. he_role m = ''user'') history)))
             in if cats = [] then None else Some cats)"

definition skill_matches :: "string list \<Rightarrow> skill_entry \<Rightarrow> bool" where
  "skill_matches tokens skill =
     (\<exists>phrase \<in> set (se_triggers skill @ se_aliases skill).
        tokenize phrase \<noteq> [] \<and> 45 / 100 \<le> jaccard tokens (tokenize phrase))"

definition match_skill_trigger :: "string list \<Rightarrow> skill_entry list \<Rightarrow> string option" where
  "match_skill_trigger tokens skills = map_option se_name (find (skill_matches tokens) skills)"

definition classify_execution_complexity ::
  "classifier_locale \<Rightarrow> string \<Rightarrow> string list \<Rightarrow> classifier_context \<Rightarrow> exec_mode" where
  "classify_execution_complexity loc lower tokens ctx =
     (if \<exists>s \<in> set (cl_task_signal_phrases loc). str_includes s lower then ModeTask
      else if cc_available_skills ctx \<noteq> [] \<and>
          (case match_skill_trigger tokens (cc_available_skills ctx) of None \<Rightarrow> False | Some n \<Rightarrow> n \<noteq> [])
        then ModeOnce
      else if \<exists>t \<in> set tokens. t \<in> set (cl_connector_tokens loc) then ModeAgent
      else if \<exists>p \<in> set (cl_connector_phrases loc). str_includes p lower then ModeAgent
      else if \<exists>(a, b) \<in> set (cl_tool_pairs loc). str_includes a lower \<and> str_includes b lower then ModeAgent
      else if 50 \<le> length tokens then ModeAgent
      else ModeOnce)"


section \<open>Classification\<close>

text \<open>\<open>RE_BUILTIN\<close> on a trimmed text: a slash, a word, and the rest after white space.\<close>

definition parse_builtin :: "string \<Rightarrow> (string \<times> string option) option" where
  "parse_builtin text =
     (case text of
        [] \<Rightarrow> None
      | c # s \<Rightarrow>
          (let command = takeWhile (\<lambda>c. \<not> is_ws c) s; args = str_trim (dropWhile (\<lambda>c. \<not> is_ws c) s)
           in if c \<noteq> CHR ''/'' \<or> command = [] then None
              else Some (command, if args = [] then None else Some args)))"

definition fast_classify :: "classifier_locale \<Rightarrow> string \<Rightarrow> classifier_context \<Rightarrow> classification" where
  "fast_classify loc task ctx =
     (let text = str_trim task
      in if text = [] then CMode ModeOnce None
         else case parse_builtin text of
                Some (command, args) \<Rightarrow> CBuiltin command args
              | None \<Rightarrow>
                  let tokens = tokenize text; lower = str_lower text
                  in if is_identity_question loc tokens then CIdentity
                     else if 0 < cc_active_tasks ctx \<and>
                         (is_inquiry_question loc tokens \<or>
                          is_followup_inquiry loc tokens (cc_recent_history ctx)) then CInquiry
                     else CMode (classify_execution_complexity loc lower tokens ctx)
                            (extract_history_tool_hints loc tokens (cc_recent_history ctx)))"

datatype escalation = OnceRequiresTaskLoop | OnceRequiresAgentLoop | AgentRequiresTaskLoop

definition upper_char :: "char \<Rightarrow> char" where
  "upper_char c = (let n = of_char c :: nat in if 97 \<le> n \<and> n \<le> 122 then char_of (n - 32) else c)"

text \<open>\<open>replace(/[\s_-]+/g, " ")\<close>: every run of white space, underscores and dashes is one blank.\<close>

fun squeeze_blanks :: "bool \<Rightarrow> string \<Rightarrow> string" where
  "squeeze_blanks gap [] = []"
| "squeeze_blanks gap (c # s) =
     (if is_ws c \<or> c = CHR ''_'' \<or> c = CHR ''-''
      then (if gap then squeeze_blanks True s else CHR '' '' # squeeze_blanks True s)
      else c # squeeze_blanks False s)"

definition detect_escalation :: "string \<Rightarrow> exec_mode \<Rightarrow> escalation option" where
  "detect_escalation text source_mode =
     (let normalized = str_trim (map upper_char (squeeze_blanks False text))
      in if str_includes ''NEED TASK LOOP'' normalized
         then Some (if source_mode = ModeAgent then AgentRequiresTaskLoop else OnceRequiresTaskLoop)
         else if str_includes ''NEED AGENT LOOP'' normalized then Some OnceRequiresAgentLoop
         else None)"

definition is_once_escalation :: "escalation option \<Rightarrow> bool" where
  "is_once_escalation e \<longleftrightarrow> e = Some OnceRequiresTaskLoop \<or> e = Some OnceRequiresAgentLoop"

definition is_agent_escalation :: "escalation option \<Rightarrow> bool" where
  "is_agent_escalation e \<longleftrightarrow> e = Some AgentRequiresTaskLoop"


section \<open>Properties\<close>

lemma set_uniq [simp]: "set (uniq xs) = set xs"
  by (induction xs) auto

lemma distinct_uniq [simp]: "distinct (uniq xs)"
  by (induction xs) auto

lemma uniq_id: "distinct xs \<Longrightarrow> uniq xs = xs"
  by (induction xs) (auto intro!: filter_True)

lemma tokenize_distinct [simp]: "distinct (tokenize text)"
  by (simp add: tokenize_def)

text \<open>The score is the Jaccard index of the two token sets.\<close>

lemma jaccard_sets:
  assumes "distinct a" "distinct b"
  shows "jaccard a b = of_nat (card (set a \<inter> set b)) / of_nat (card (set a \<union> set b))"
proof -
  let ?i = "filter (\<lambda>t. t \<in> set b) a"
  have i: "length ?i = card (set a \<inter> set b)"
    using assms(1) by (subst distinct_card[symmetric]) (auto intro: arg_cong[where f = card])
  have "card (set a \<union> set b) = length a + length b - length ?i"
    using card_Un_Int[of "set a" "set b"] assms by (simp add: distinct_card i)
  with i show ?thesis by (simp add: jaccard_def Let_def)
qed

lemma jaccard_bounds:
  assumes "distinct a" "distinct b"
  shows "0 \<le> jaccard a b \<and> jaccard a b \<le> 1"
proof -
  have "card (set a \<inter> set b) \<le> card (set a \<union> set b)" by (intro card_mono) auto
  then show ?thesis unfolding jaccard_sets[OF assms] by (auto simp: divide_le_eq)
qed

lemma jaccard_one_iff:
  assumes "distinct a" "distinct b" "a \<noteq> []"
  shows "jaccard a b = 1 \<longleftrightarrow> set a = set b"
proof
  assume "jaccard a b = 1"
  then have "card (set a \<inter> set b) = card (set a \<union> set b)"
    unfolding jaccard_sets[OF assms(1,2)] by (auto simp: divide_eq_eq split: if_splits)
  then have "set a \<inter> set b = set a \<union> set b" by (intro card_subset_eq) auto
  then show "set a = set b" by blast
next
  assume "set a = set b"
  with assms show "jaccard a b = 1" unfolding jaccard_sets[OF assms(1,2)] by (auto simp: card_gt_0_iff)
qed

text \<open>
  The similarity the classifier and its skill matching use is the Jaccard index of the two
  token sets: it lies between 0 and 1, does not depend on the order of the arguments or of the
  words, and is 1 exactly when both texts have the same words.
\<close>

theorem jaccard_index:
  "let a = tokenize s; b = tokenize t
   in jaccard a b = of_nat (card (set a \<inter> set b)) / of_nat (card (set a \<union> set b)) \<and>
      0 \<le> jaccard a b \<and> jaccard a b \<le> 1 \<and> jaccard a b = jaccard b a \<and>
      (a = [] \<or> (jaccard a b = 1) = (set a = set b))"
  using jaccard_sets[of "tokenize s" "tokenize t"] jaccard_sets[of "tokenize t" "tokenize s"]
    jaccard_bounds[of "tokenize s" "tokenize t"] jaccard_one_iff[of "tokenize s" "tokenize t"]
  by (auto simp: Let_def Int_commute Un_commute)

lemma parse_builtin_command:
  assumes "parse_builtin text = Some (command, args)"
  shows "command \<noteq> [] \<and> (\<forall>c \<in> set command. \<not> is_ws c) \<and>
    (\<exists>rest. text = CHR ''/'' # command @ rest \<and> args = (if str_trim rest = [] then None else Some (str_trim rest)))"
proof -
  obtain s where "text = CHR ''/'' # s" and "command = takeWhile (\<lambda>c. \<not> is_ws c) s"
    and "args = (if str_trim (dropWhile (\<lambda>c. \<not> is_ws c) s) = [] then None
                 else Some (str_trim (dropWhile (\<lambda>c. \<not> is_ws c) s)))" and "command \<noteq> []"
    using assms by (auto simp: parse_builtin_def Let_def split: list.splits if_splits)
  then show ?thesis by (auto dest: set_takeWhileD intro!: exI[of _ "dropWhile (\<lambda>c. \<not> is_ws c) s"])
qed

text \<open>
  The classifier's result is always one the gateway can act on: a command has a name without
  white space, taken from the text after its slash; an inquiry is only reported while a task is
  active; the phase mode and an empty tool list never come out of it.
\<close>

theorem fast_classify_wellformed:
  "case fast_classify loc task ctx of
     CMode m tools \<Rightarrow> m \<in> {ModeOnce, ModeAgent, ModeTask} \<and> tools \<noteq> Some []
   | CInquiry \<Rightarrow> 0 < cc_active_tasks ctx
   | CIdentity \<Rightarrow> tokenize (str_trim task) \<noteq> []
   | CBuiltin command args \<Rightarrow>
       command \<noteq> [] \<and> filter is_ws command = [] \<and> starts_with (CHR ''/'' # command) (str_trim task) \<and> args \<noteq> Some []
   | CPhase _ _ \<Rightarrow> False"
proof (cases "str_trim task = []")
  case True
  then show ?thesis by (simp add: fast_classify_def)
next
  case False
  show ?thesis
  proof (cases "parse_builtin (str_trim task)")
    case None
    have "classify_execution_complexity loc l t ctx \<in> {ModeOnce, ModeAgent, ModeTask}" for l t
      by (simp add: classify_execution_complexity_def)
    moreover have "extract_history_tool_hints loc t h \<noteq> Some []" for t h
      by (auto simp: extract_history_tool_hints_def Let_def)
    ultimately show ?thesis
      using False None by (simp add: fast_classify_def Let_def is_identity_question_def)
  next
    case (Some ca)
    obtain command args where ca: "ca = (command, args)" by (cases ca)
    from parse_builtin_command[of "str_trim task" command args] Some ca
    show ?thesis
      by (auto simp: fast_classify_def Let_def starts_with_iff filter_empty_conv split: if_splits)
  qed
qed

text \<open>
  Escalation markers are found whatever blanks, underscores or dashes separate the words and
  in either case of the letters, and a marker for a task loop wins over one for an agent loop.
\<close>

lemma escalation_routes:
  "is_once_escalation (detect_escalation t ModeOnce) = (detect_escalation t ModeOnce \<noteq> None) \<and>
   (is_agent_escalation (detect_escalation t ModeAgent) =
      (detect_escalation t ModeOnce = Some OnceRequiresTaskLoop)) \<and>
   detect_escalation ''please need__Task-\<newline> loop'' ModeOnce = Some OnceRequiresTaskLoop"
proof -
  have "detect_escalation ''please need__Task-\<newline> loop'' ModeOnce = Some OnceRequiresTaskLoop"
    by code_simp
  then show ?thesis
    by (auto simp: detect_escalation_def is_once_escalation_def is_agent_escalation_def Let_def)
qed

end
