(* ===== verification/CircuitBreaker.thy ===== *)
theory CircuitBreaker
  imports Prelude
begin

text \<open>
  \<open>src/src/providers/circuit-breaker.ts\<close>: the circuit breaker kept for every provider and
  every agent backend. The clock is an argument: \<open>now\<close> is the value \<open>Date.now()\<close> returns during
  the call, in milliseconds; nothing is assumed about successive readings.

  The locale \<open>breaker\<close> is what the provider service and the backend registry rely on; it is
  interpreted on the class below.
\<close>

datatype circuit_state = Closed | Open | HalfOpen

record circuit_breaker =
  cb_state :: circuit_state
  cb_failure_count :: int
  cb_half_open_attempts :: int
  cb_last_failure_at :: int
  cb_failure_threshold :: int
  cb_reset_timeout_ms :: int
  cb_half_open_max :: int

record circuit_breaker_options =
  cbo_failure_threshold :: "int option"
  cbo_reset_timeout_ms :: "int option"
  cbo_half_open_max :: "int option"

definition or_default :: "'a \<Rightarrow> 'a option \<Rightarrow> 'a" where
  "or_default d v = (case v of None \<Rightarrow> d | Some x \<Rightarrow> x)"

lemma or_default_simps [simp]: "or_default d None = d" "or_default d (Some x) = x"
  by (simp_all add: or_default_def)

definition cb_new :: "circuit_breaker_options \<Rightarrow> circuit_breaker" where
  "cb_new opts =
     \<lparr>cb_state = Closed, cb_failure_count = 0, cb_half_open_attempts = 0, cb_last_failure_at = 0,
      cb_failure_threshold = or_default 5 (cbo_failure_threshold opts),
      cb_reset_timeout_ms = or_default 30000 (cbo_reset_timeout_ms opts),
      cb_half_open_max = or_default 1 (cbo_half_open_max opts)\<rparr>"

definition try_transition_to_half_open :: "int \<Rightarrow> circuit_breaker \<Rightarrow> circuit_breaker" where
  "try_transition_to_half_open now b =
     (if cb_state b = Open \<and> cb_reset_timeout_ms b \<le> now - cb_last_failure_at b
      then b\<lparr>cb_state := HalfOpen, cb_half_open_attempts := 0\<rparr> else b)"

definition can_acquire :: "int \<Rightarrow> circuit_breaker \<Rightarrow> bool \<times> circuit_breaker" where
  "can_acquire now b =
     (let b = try_transition_to_half_open now b
      in if cb_state b = Closed then (True, b)
         else if cb_state b = HalfOpen \<and> cb_half_open_attempts b < cb_half_open_max b then (True, b)
         else (False, b))"

definition try_acquire :: "int \<Rightarrow> circuit_breaker \<Rightarrow> bool \<times> circuit_breaker" where
  "try_acquire now b =
     (let b = try_transition_to_half_open now b
      in if cb_state b = Closed then (True, b)
         else if cb_state b = HalfOpen \<and> cb_half_open_attempts b < cb_half_open_max b
         then (True, b\<lparr>cb_half_open_attempts := cb_half_open_attempts b + 1\<rparr>)
         else (False, b))"

definition record_success :: "circuit_breaker \<Rightarrow> circuit_breaker" where
  "record_success b =
     (if cb_state b = HalfOpen \<or> cb_state b = Open then b\<lparr>cb_state := Closed\<rparr> else b)
       \<lparr>cb_failure_count := 0, cb_half_open_attempts := 0\<rparr>"

definition record_failure :: "int \<Rightarrow> circuit_breaker \<Rightarrow> circuit_breaker" where
  "record_failure now b =
     (let b = b\<lparr>cb_failure_count := cb_failure_count b + 1, cb_last_failure_at := now\<rparr>
      in if cb_state b = HalfOpen then b\<lparr>cb_state := Open\<rparr>
         else if cb_failure_threshold b \<le> cb_failure_count b then b\<lparr>cb_state := Open\<rparr>
         else b)"

definition cb_reset :: "circuit_breaker \<Rightarrow> circuit_breaker" where
  "cb_reset b =
     b\<lparr>cb_state := Closed, cb_failure_count := 0, cb_half_open_attempts := 0,
       cb_last_failure_at := 0\<rparr>"

lemmas cb_op_defs =
  try_transition_to_half_open_def can_acquire_def try_acquire_def record_success_def
  record_failure_def cb_reset_def Let_def

datatype cb_op = CbCan int | CbTry int | CbSuccess | CbFailure int | CbReset

fun cb_step :: "cb_op \<Rightarrow> circuit_breaker \<Rightarrow> circuit_breaker" where
  "cb_step (CbCan now) b = snd (can_acquire now b)"
| "cb_step (CbTry now) b = snd (try_acquire now b)"
| "cb_step CbSuccess b = record_success b"
| "cb_step (CbFailure now) b = record_failure now b"
| "cb_step CbReset b = cb_reset b"


section \<open>The invariant\<close>

text \<open>
  A closed breaker has counted fewer failures than the threshold (or none); a breaker that is not
  closed has counted at least one; the probes of the half-open state never exceed their limit.
\<close>

definition cb_inv :: "circuit_breaker \<Rightarrow> bool" where
  "cb_inv b \<longleftrightarrow>
     0 \<le> cb_failure_count b \<and>
     (cb_state b = Closed \<longrightarrow>
        cb_failure_count b = 0 \<or> cb_failure_count b < cb_failure_threshold b) \<and>
     (cb_state b \<noteq> Closed \<longrightarrow> 0 < cb_failure_count b) \<and>
     0 \<le> cb_half_open_attempts b \<and> cb_half_open_attempts b \<le> max 0 (cb_half_open_max b)"

lemma cb_inv_new: "cb_inv (cb_new opts)"
  by (simp add: cb_inv_def cb_new_def)

interpretation cb: machine cb_step cb_inv
proof
  fix b e
  assume "cb_inv b"
  then show "cb_inv (cb_step e b)"
    by (cases e; cases "cb_state b") (auto simp: cb_inv_def cb_op_defs)
qed

lemma cb_config_step [simp]:
  "cb_failure_threshold (cb_step e b) = cb_failure_threshold b"
  "cb_reset_timeout_ms (cb_step e b) = cb_reset_timeout_ms b"
  "cb_half_open_max (cb_step e b) = cb_half_open_max b"
  by (cases e; simp add: cb_op_defs)+


section \<open>What a client relies on\<close>

text \<open>
  \<open>can\<close> asks, \<open>acq\<close> asks and takes a slot, \<open>succ\<close> and \<open>fail\<close> report. Asking tells what acquiring
  would answer, a reported success admits the next call, and a refusal changes nothing that a
  later question at the same time could see.
\<close>

locale breaker =
  fixes can acq :: "int \<Rightarrow> 'b \<Rightarrow> bool \<times> 'b"
    and succ :: "'b \<Rightarrow> 'b"
    and fail :: "int \<Rightarrow> 'b \<Rightarrow> 'b"
  assumes acq_iff_can: "fst (acq now b) = fst (can now b)"
    and acq_after_can: "acq now (snd (can now b)) = acq now b"
    and can_after_succ: "fst (can now (succ b))"
    and can_idem: "can now (snd (can now b)) = can now b"
begin

text \<open>A call through the breaker: refused, or made and its outcome reported.\<close>

definition guarded :: "int \<Rightarrow> bool \<Rightarrow> int \<Rightarrow> 'b \<Rightarrow> bool \<times> 'b" where
  "guarded now outcome later b =
     (let (admitted, b') = acq now b
      in if admitted then (True, if outcome then succ b' else fail later b') else (False, b'))"

lemma guarded_admits: "fst (guarded now outcome later b) = fst (can now b)"
  by (simp add: guarded_def acq_iff_can[symmetric] split: prod.split)

lemma admitted_again_after_success:
  "fst (guarded now True later b) \<Longrightarrow> fst (guarded now' outcome later' (snd (guarded now True later b)))"
  by (simp add: guarded_def can_after_succ guarded_admits split: prod.splits if_splits)
     (metis acq_iff_can can_after_succ fst_conv)

lemma acq_follows_can: "fst (can now b) \<Longrightarrow> fst (acq now (snd (can now b)))"
  by (simp add: acq_after_can acq_iff_can)

end

interpretation cb: breaker can_acquire try_acquire record_success record_failure
proof
  fix now b
  show "fst (try_acquire now b) = fst (can_acquire now b)"
    "try_acquire now (snd (can_acquire now b)) = try_acquire now b"
    "can_acquire now (snd (can_acquire now b)) = can_acquire now b"
    by (auto simp: cb_op_defs)
  show "fst (can_acquire now (record_success b))"
    by (cases "cb_state b") (auto simp: cb_op_defs)
qed

text \<open>
  Asking and acquiring agree: \<open>can_acquire\<close> answers what \<open>try_acquire\<close> at the same time
  would, also when the question is asked first, and a call whose success was reported is
  followed by an admitted one.
\<close>

theorem can_acquire_predicts_try_acquire:
  "fst (try_acquire now b) = fst (can_acquire now b) \<and>
   try_acquire now (snd (can_acquire now b)) = try_acquire now b \<and>
   fst (try_acquire now' (record_success b))"
  using cb.acq_iff_can cb.acq_after_can cb.can_after_succ by metis


section \<open>Opening\<close>

fun cb_failures :: "int list \<Rightarrow> circuit_breaker \<Rightarrow> circuit_breaker" where
  "cb_failures [] b = b"
| "cb_failures (now # ts) b = cb_failures ts (record_failure now b)"

lemma cb_failures_open:
  "cb_state b = Open \<Longrightarrow> cb_state (cb_failures ts b) = Open"
  by (induction ts arbitrary: b) (auto simp: record_failure_def Let_def)

lemma cb_failures_last:
  "ts \<noteq> [] \<Longrightarrow> cb_last_failure_at (cb_failures ts b) = last ts"
proof (induction ts arbitrary: b)
  case (Cons t ts)
  then show ?case by (cases ts) (auto simp: record_failure_def Let_def)
qed simp

lemma cb_failures_closed:
  assumes "cb_state b = Closed" and "cb_failure_count b < cb_failure_threshold b"
  shows "cb_state (cb_failures ts b) =
    (if cb_failure_threshold b \<le> cb_failure_count b + int (length ts) then Open else Closed)"
  using assms
proof (induction ts arbitrary: b)
  case (Cons t ts)
  show ?case
  proof (cases "cb_failure_threshold b \<le> cb_failure_count b + 1")
    case True
    with Cons.prems have "cb_state (record_failure t b) = Open"
      by (simp add: record_failure_def Let_def)
    with True show ?thesis by (simp add: cb_failures_open)
  next
    case False
    with Cons.prems Cons.IH[of "record_failure t b"] show ?thesis
      by (simp add: record_failure_def Let_def add.assoc add.commute)
  qed
qed simp

text \<open>
  The breaker opens after exactly \<open>failure_threshold\<close> consecutive failures: after any run,
  a success (or a reset) followed by \<open>n\<close> failures leaves it open if and only if \<open>n\<close> reaches the
  threshold, and closed otherwise.
\<close>

theorem opens_at_threshold:
  assumes "0 < th" and "last_op \<in> {CbSuccess, CbReset}"
  shows "cb_state (cb_failures ts (cb_step last_op (run_steps cb_step es
           (cb_new \<lparr>cbo_failure_threshold = Some th, cbo_reset_timeout_ms = rt, cbo_half_open_max = hm\<rparr>)))) =
         (if th \<le> int (length ts) then Open else Closed)"
proof -
  let ?b = "run_steps cb_step es
    (cb_new \<lparr>cbo_failure_threshold = Some th, cbo_reset_timeout_ms = rt, cbo_half_open_max = hm\<rparr>)"
  have "cb_failure_threshold (run_steps cb_step es b) = cb_failure_threshold b" for b
    by (induction es arbitrary: b) auto
  then have th: "cb_failure_threshold (cb_step last_op ?b) = th" by (simp add: cb_new_def)
  moreover have "cb_state (cb_step last_op ?b) = Closed" "cb_failure_count (cb_step last_op ?b) = 0"
    using assms(2) by (cases "cb_state ?b"; auto simp: cb_op_defs)+
  ultimately show ?thesis
    using assms(1) cb_failures_closed[of "cb_step last_op ?b" ts] by simp
qed

theorem opens_at_threshold_witness:
  "cb_state (cb_failures [10, 20, 30] (cb_step CbReset (run_steps cb_step [CbFailure 1, CbTry 2]
     (cb_new \<lparr>cbo_failure_threshold = Some 3, cbo_reset_timeout_ms = None, cbo_half_open_max = None\<rparr>)))) = Open"
  by (subst opens_at_threshold) simp_all


section \<open>Recovering\<close>

text \<open>The answers to a sequence of acquisitions with nothing reported in between.\<close>

fun cb_tries :: "int list \<Rightarrow> circuit_breaker \<Rightarrow> bool list \<times> circuit_breaker" where
  "cb_tries [] b = ([], b)"
| "cb_tries (now # ts) b =
     (let (a, b) = try_acquire now b; (as, b) = cb_tries ts b in (a # as, b))"

lemma cb_tries_open:
  assumes "cb_state b = Open" and "\<forall>t \<in> set ts. t - cb_last_failure_at b < cb_reset_timeout_ms b"
  shows "cb_tries ts b = (replicate (length ts) False, b)"
  using assms by (induction ts) (auto simp: cb_op_defs)

lemma cb_tries_half_open:
  assumes "cb_state b = HalfOpen" and "0 \<le> cb_half_open_attempts b"
  shows "fst (cb_tries ts b) =
    (let k = nat (cb_half_open_max b - cb_half_open_attempts b)
     in replicate (min k (length ts)) True @ replicate (length ts - k) False)"
  using assms
proof (induction ts arbitrary: b)
  case (Cons t ts)
  show ?case
  proof (cases "cb_half_open_attempts b < cb_half_open_max b")
    case True
    define k where "k = nat (cb_half_open_max b - cb_half_open_attempts b - 1)"
    have k: "nat (cb_half_open_max b - cb_half_open_attempts b) = Suc k"
      using True by (simp add: k_def)
    let ?b = "b\<lparr>cb_half_open_attempts := cb_half_open_attempts b + 1\<rparr>"
    have "try_acquire t b = (True, ?b)" using Cons.prems True by (simp add: cb_op_defs)
    moreover have "nat (cb_half_open_max b - (cb_half_open_attempts b + 1)) = k"
      by (simp add: k_def)
    then have "fst (cb_tries ts ?b) =
        replicate (min k (length ts)) True @ replicate (length ts - k) False"
      using Cons.IH[of ?b] Cons.prems by (simp add: Let_def)
    ultimately show ?thesis by (cases "cb_tries ts ?b") (simp add: k Let_def)
  next
    case False
    then have "try_acquire t b = (False, b)" using Cons.prems by (simp add: cb_op_defs)
    with Cons.IH[OF Cons.prems] False show ?thesis
      by (cases "cb_tries ts b") (simp add: Let_def)
  qed
qed simp

text \<open>
  C35. An open breaker refuses every call until the reset timeout has elapsed since the last
  failure; then it admits exactly \<open>half_open_max\<close> probes, and refuses everything after them, at
  any time, until an outcome is reported.
\<close>

theorem open_then_bounded_probes:
  assumes "cb_state b = Open"
    and "\<forall>t \<in> set early. t - cb_last_failure_at b < cb_reset_timeout_ms b"
    and "cb_reset_timeout_ms b \<le> now - cb_last_failure_at b"
  shows "fst (cb_tries (early @ now # later) b) =
    (let k = nat (cb_half_open_max b); n = Suc (length later)
     in replicate (length early) False @ replicate (min k n) True @ replicate (n - k) False)"
proof -
  have app: "fst (cb_tries (xs @ ys) c) = fst (cb_tries xs c) @ fst (cb_tries ys (snd (cb_tries xs c)))"
    for xs ys c
  proof (induction xs arbitrary: c)
    case (Cons x xs)
    obtain a c' where c': "try_acquire x c = (a, c')" by (cases "try_acquire x c")
    with Cons.IH[of c'] show ?case
      by (cases "cb_tries xs c'"; cases "cb_tries (xs @ ys) c'") (simp add: Let_def)
  qed simp
  let ?h = "b\<lparr>cb_state := HalfOpen, cb_half_open_attempts := 0\<rparr>"
  have "try_acquire now b = try_acquire now ?h" using assms(1,3) by (simp add: cb_op_defs)
  then have "cb_tries (now # later) b = cb_tries (now # later) ?h" by simp
  with cb_tries_half_open[of ?h "now # later"] cb_tries_open[OF assms(1,2)]
  show ?thesis by (simp add: app Let_def)
qed

theorem open_then_bounded_probes_witness:
  "fst (cb_tries [1000, 29999, 30000, 30001, 900000]
     ((cb_new \<lparr>cbo_failure_threshold = None, cbo_reset_timeout_ms = None, cbo_half_open_max = None\<rparr>)
        \<lparr>cb_state := Open\<rparr>)) = [False, False, True, False, False]"
  using open_then_bounded_probes[of "(cb_new \<lparr>cbo_failure_threshold = None,
    cbo_reset_timeout_ms = None, cbo_half_open_max = None\<rparr>)\<lparr>cb_state := Open\<rparr>"
    "[1000, 29999]" 30000 "[30001, 900000]"]
  by (simp add: cb_new_def Let_def eval_nat_numeral)

end
