(* ===== verification/HealthScorer.thy ===== *)
theory HealthScorer
  imports CircuitBreaker Complex_Main
begin

text \<open>
  \<open>src/src/providers/health-scorer.ts\<close>: the sliding-window health score of the providers.

  Latencies and times are integers (milliseconds), weights and scores are rationals; the
  rounding of floating-point arithmetic is not modelled. Times are kept as milliseconds where the
  code formats them with \<open>toISOString\<close>.
\<close>

record sample =
  sp_ok :: bool
  sp_latency_ms :: int
  sp_at :: int

record health_scorer =
  hs_window_size :: int
  hs_latency_weight :: rat
  hs_success_weight :: rat
  hs_latency_target_ms :: int
  hs_max_age_ms :: int
  hs_windows :: "(string, sample list) jmap"

record health_scorer_options =
  hso_window_size :: "int option"
  hso_latency_weight :: "rat option"
  hso_success_weight :: "rat option"
  hso_latency_target_ms :: "int option"
  hso_max_age_ms :: "int option"

definition hs_new :: "health_scorer_options \<Rightarrow> health_scorer" where
  "hs_new opts =
     (let sw = or_default (7 / 10) (hso_success_weight opts);
          lw = or_default (3 / 10) (hso_latency_weight opts);
          total = sw + lw
      in \<lparr>hs_window_size = or_default 50 (hso_window_size opts),
          hs_latency_weight = (if 0 < total then lw / total else 1 / 2),
          hs_success_weight = (if 0 < total then sw / total else 1 / 2),
          hs_latency_target_ms = or_default 5000 (hso_latency_target_ms opts),
          hs_max_age_ms = or_default 600000 (hso_max_age_ms opts),
          hs_windows = []\<rparr>)"

definition hs_record :: "int \<Rightarrow> string \<Rightarrow> bool \<Rightarrow> int \<Rightarrow> health_scorer \<Rightarrow> health_scorer" where
  "hs_record now provider ok latency h =
     (let w = or_default [] (jget (hs_windows h) provider);
          w = w @ [\<lparr>sp_ok = ok, sp_latency_ms = latency, sp_at = now\<rparr>];
          w = drop (nat (int (length w) - hs_window_size h)) w
      in h\<lparr>hs_windows := jset provider w (hs_windows h)\<rparr>)"

definition prune_expired :: "int \<Rightarrow> health_scorer \<Rightarrow> sample list \<Rightarrow> sample list" where
  "prune_expired now h w = filter (\<lambda>s. now - hs_max_age_ms h \<le> sp_at s) w"

text \<open>The score of a window that is not empty.\<close>

definition window_score :: "health_scorer \<Rightarrow> sample list \<Rightarrow> rat" where
  "window_score h w =
     (let success_rate = of_nat (length (filter sp_ok w)) / of_nat (length w);
          avg_latency = of_int (sum_list (map sp_latency_ms w)) / of_nat (length w);
          latency_score =
            (if 0 < hs_latency_target_ms h
             then max 0 (1 - avg_latency / of_int (hs_latency_target_ms h)) else 0)
      in hs_success_weight h * success_rate + hs_latency_weight h * latency_score)"

definition hs_score :: "int \<Rightarrow> string \<Rightarrow> health_scorer \<Rightarrow> rat \<times> health_scorer" where
  "hs_score now provider h =
     (case jget (hs_windows h) provider of
        None \<Rightarrow> (1, h)
      | Some raw \<Rightarrow>
          if raw = [] then (1, h)
          else let w = prune_expired now h raw
               in if w = [] then (1, h\<lparr>hs_windows := jdel provider (hs_windows h)\<rparr>)
                  else (window_score h w,
                        if length w \<noteq> length raw
                        then h\<lparr>hs_windows := jset provider w (hs_windows h)\<rparr> else h))"

text \<open>\<open>rank\<close> scores the providers one after another and sorts by descending score (stable).\<close>

fun score_all :: "int \<Rightarrow> string list \<Rightarrow> health_scorer \<Rightarrow> (string \<times> rat) list \<times> health_scorer" where
  "score_all now [] h = ([], h)"
| "score_all now (p # ps) h =
     (let (x, h) = hs_score now p h; (xs, h) = score_all now ps h in ((p, x) # xs, h))"

definition hs_rank :: "int \<Rightarrow> health_scorer \<Rightarrow> (string \<times> rat) list \<times> health_scorer" where
  "hs_rank now h =
     (let (scores, h) = score_all now (jkeys (hs_windows h)) h
      in (sort_key (\<lambda>e. - snd e) scores, h))"

record provider_metrics =
  pm_success_count :: nat
  pm_failure_count :: nat
  pm_total_latency_ms :: int
  pm_last_success_at :: "int option"
  pm_last_failure_at :: "int option"

definition last_at :: "sample list \<Rightarrow> int option" where
  "last_at w = (if w = [] then None else Some (sp_at (last w)))"

definition hs_get_metrics :: "string \<Rightarrow> health_scorer \<Rightarrow> provider_metrics" where
  "hs_get_metrics provider h =
     (let w = or_default [] (jget (hs_windows h) provider)
      in \<lparr>pm_success_count = length (filter sp_ok w),
          pm_failure_count = length w - length (filter sp_ok w),
          pm_total_latency_ms = sum_list (map sp_latency_ms w),
          pm_last_success_at = last_at (filter sp_ok w),
          pm_last_failure_at = last_at (filter (\<lambda>s. \<not> sp_ok s) w)\<rparr>)"

datatype hs_op = HsRecord int string bool nat | HsScore int string | HsRank int

fun hs_step :: "hs_op \<Rightarrow> health_scorer \<Rightarrow> health_scorer" where
  "hs_step (HsRecord now p ok latency) h = hs_record now p ok (int latency) h"
| "hs_step (HsScore now p) h = snd (hs_score now p h)"
| "hs_step (HsRank now) h = snd (hs_rank now h)"


section \<open>The invariant\<close>

text \<open>
  The weights are non-negative and sum to one; a window holds at most \<open>window_size\<close> samples,
  with non-negative latencies.
\<close>

definition hs_weights_ok :: "health_scorer \<Rightarrow> bool" where
  "hs_weights_ok h \<longleftrightarrow>
     0 \<le> hs_success_weight h \<and> 0 \<le> hs_latency_weight h \<and>
     hs_success_weight h + hs_latency_weight h = 1"

definition hs_windows_ok :: "health_scorer \<Rightarrow> bool" where
  "hs_windows_ok h \<longleftrightarrow>
     jwf (hs_windows h) \<and>
     (\<forall>(p, w) \<in> set (hs_windows h).
        length w \<le> nat (hs_window_size h) \<and> (\<forall>s \<in> set w. 0 \<le> sp_latency_ms s))"

definition hs_inv :: "health_scorer \<Rightarrow> bool" where
  "hs_inv h \<longleftrightarrow> hs_weights_ok h \<and> hs_windows_ok h"

definition nonneg_weights :: "health_scorer_options \<Rightarrow> bool" where
  "nonneg_weights opts \<longleftrightarrow>
     0 \<le> or_default 1 (hso_success_weight opts) \<and> 0 \<le> or_default 1 (hso_latency_weight opts)"

lemma hs_inv_new:
  assumes "nonneg_weights opts"
  shows "hs_inv (hs_new opts)"
proof -
  define sw lw where "sw = or_default (7 / 10) (hso_success_weight opts)"
    and "lw = or_default (3 / 10) (hso_latency_weight opts)"
  have nonneg: "0 \<le> sw" "0 \<le> lw"
    using assms by (auto simp: sw_def lw_def nonneg_weights_def or_default_def split: option.splits)
  have "sw / (sw + lw) + lw / (sw + lw) = 1" if "0 < sw + lw"
    using that by (simp add: add_divide_distrib[symmetric])
  with nonneg show ?thesis
    by (auto simp: hs_inv_def hs_weights_ok_def hs_windows_ok_def hs_new_def Let_def
          sw_def[symmetric] lw_def[symmetric])
qed

lemma hs_windows_ok_set:
  assumes "hs_windows_ok h" and "length w \<le> nat (hs_window_size h)"
    and "\<forall>s \<in> set w. 0 \<le> sp_latency_ms s"
  shows "hs_windows_ok (h\<lparr>hs_windows := jset p w (hs_windows h)\<rparr>)"
  using assms set_jset_subset[of p w "hs_windows h"]
  unfolding hs_windows_ok_def by fastforce

lemma hs_windows_ok_del:
  "hs_windows_ok h \<Longrightarrow> hs_windows_ok (h\<lparr>hs_windows := jdel p (hs_windows h)\<rparr>)"
  using set_jdel_subset[of p "hs_windows h"] unfolding hs_windows_ok_def by fastforce

lemma hs_window_ok:
  assumes "hs_windows_ok h" and "jget (hs_windows h) p = Some w"
  shows "length w \<le> nat (hs_window_size h)" and "\<forall>s \<in> set w. 0 \<le> sp_latency_ms s"
  using assms jget_mem[OF assms(2)] unfolding hs_windows_ok_def by auto

lemma hs_inv_record:
  assumes "hs_inv h" and "0 \<le> latency"
  shows "hs_inv (hs_record now p ok latency h)"
proof -
  let ?w = "or_default [] (jget (hs_windows h) p) @
    [\<lparr>sp_ok = ok, sp_latency_ms = latency, sp_at = now\<rparr>]"
  let ?v = "drop (nat (int (length ?w) - hs_window_size h)) ?w"
  have ok: "hs_windows_ok h" using assms by (simp add: hs_inv_def)
  have "\<forall>s \<in> set ?w. 0 \<le> sp_latency_ms s"
    using assms(2) hs_window_ok(2)[OF ok, of p] by (cases "jget (hs_windows h) p") auto
  then have "\<forall>s \<in> set ?v. 0 \<le> sp_latency_ms s" by (meson in_set_dropD)
  moreover have "length ?v \<le> nat (hs_window_size h)" by simp
  ultimately have "hs_windows_ok (h\<lparr>hs_windows := jset p ?v (hs_windows h)\<rparr>)"
    using hs_windows_ok_set[OF ok] by blast
  with assms(1) show ?thesis
    by (simp add: hs_record_def Let_def hs_inv_def hs_weights_ok_def)
qed

lemma hs_inv_score:
  assumes "hs_inv h"
  shows "hs_inv (snd (hs_score now p h))"
proof (cases "jget (hs_windows h) p")
  case (Some raw)
  have ok: "hs_windows_ok h" using assms by (simp add: hs_inv_def)
  have "length (prune_expired now h raw) \<le> nat (hs_window_size h)"
    using hs_window_ok(1)[OF ok Some] le_trans[OF length_filter_le]
    unfolding prune_expired_def by blast
  moreover have "\<forall>s \<in> set (prune_expired now h raw). 0 \<le> sp_latency_ms s"
    using hs_window_ok(2)[OF ok Some] by (simp add: prune_expired_def)
  ultimately show ?thesis
    using assms Some hs_windows_ok_set[OF ok] hs_windows_ok_del[OF ok]
    by (simp add: hs_score_def Let_def hs_inv_def hs_weights_ok_def)
qed (use assms in \<open>simp add: hs_score_def\<close>)

lemma hs_inv_score_all:
  "hs_inv h \<Longrightarrow> hs_inv (snd (score_all now ps h))"
proof (induction ps arbitrary: h)
  case (Cons p ps)
  from Cons.IH[OF hs_inv_score[OF Cons.prems, of now p]] show ?case
    by (cases "hs_score now p h"; cases "score_all now ps (snd (hs_score now p h))") simp
qed simp

lemma hs_rank_snd: "snd (hs_rank now h) = snd (score_all now (jkeys (hs_windows h)) h)"
  by (simp add: hs_rank_def split: prod.split)

interpretation hs: machine hs_step hs_inv
proof
  fix h e
  assume "hs_inv h"
  then show "hs_inv (hs_step e h)"
    by (cases e) (simp_all add: hs_inv_record hs_inv_score hs_rank_snd hs_inv_score_all)
qed


section \<open>Scores\<close>

lemma window_score_bounds:
  assumes weights: "hs_weights_ok h" and w: "w \<noteq> []" and lat: "\<forall>s \<in> set w. 0 \<le> sp_latency_ms s"
  shows "0 \<le> window_score h w \<and> window_score h w \<le> 1"
proof -
  define r :: rat where "r = of_nat (length (filter sp_ok w)) / of_nat (length w)"
  define l :: rat where "l = (if 0 < hs_latency_target_ms h
    then max 0 (1 - of_int (sum_list (map sp_latency_ms w)) / of_nat (length w)
                    / of_int (hs_latency_target_ms h)) else 0)"
  have r: "0 \<le> r" "r \<le> 1" using w by (auto simp: r_def divide_le_eq)
  have "0 \<le> sum_list (map sp_latency_ms w)" using lat by (auto intro!: sum_list_nonneg)
  then have l: "0 \<le> l" "l \<le> 1" by (auto simp: l_def)
  have eq: "window_score h w = hs_success_weight h * r + hs_latency_weight h * l"
    by (simp add: window_score_def r_def l_def Let_def)
  have "hs_success_weight h * r \<le> hs_success_weight h"
    "hs_latency_weight h * l \<le> hs_latency_weight h"
    using weights r l by (auto simp: hs_weights_ok_def intro: mult_right_le_one_le)
  then show ?thesis using weights r l by (auto simp: eq hs_weights_ok_def)
qed

lemma hs_score_bounds:
  assumes "hs_inv h"
  shows "0 \<le> fst (hs_score now p h) \<and> fst (hs_score now p h) \<le> 1"
proof (cases "jget (hs_windows h) p")
  case (Some raw)
  have ok: "hs_windows_ok h" using assms by (simp add: hs_inv_def)
  have "\<forall>s \<in> set (prune_expired now h raw). 0 \<le> sp_latency_ms s"
    using hs_window_ok(2)[OF ok Some] by (simp add: prune_expired_def)
  with assms Some window_score_bounds[of h "prune_expired now h raw"] show ?thesis
    by (simp add: hs_score_def Let_def hs_inv_def)
qed (simp add: hs_score_def)

text \<open>
  In any run of recordings, scorings and rankings, every score lies between 0 and 1 and no
  window grows beyond \<open>window_size\<close>, whatever non-negative weights were configured.
\<close>

theorem health_score_in_unit_interval:
  assumes "nonneg_weights opts"
  shows "let h = run_steps hs_step es (hs_new opts)
         in 0 \<le> fst (hs_score now p h) \<and> fst (hs_score now p h) \<le> 1 \<and>
            (\<forall>(p, w) \<in> set (hs_windows h). int (length w) \<le> max 0 (or_default 50 (hso_window_size opts)))"
proof -
  let ?h = "run_steps hs_step es (hs_new opts)"
  have inv: "hs_inv ?h" by (rule hs.inv_run[OF hs_inv_new[OF assms]])
  have score: "hs_window_size (snd (hs_score now p h)) = hs_window_size h" for now p h
    by (simp add: hs_score_def Let_def split: option.split)
  have all: "hs_window_size (snd (score_all now ps h)) = hs_window_size h" for now ps h
  proof (induction ps arbitrary: h)
    case (Cons p ps)
    from Cons[of "snd (hs_score now p h)"] score[of now p h] show ?case
      by (cases "hs_score now p h"; cases "score_all now ps (snd (hs_score now p h))") simp
  qed simp
  have "hs_window_size (hs_step e h) = hs_window_size h" for e h
    by (cases e) (simp_all add: hs_record_def Let_def score hs_rank_snd all)
  then have "hs_window_size (run_steps hs_step es h) = hs_window_size h" for h
    by (induction es arbitrary: h) auto
  then have "hs_window_size ?h = or_default 50 (hso_window_size opts)"
    by (simp add: hs_new_def Let_def)
  with inv have "\<forall>(p, w) \<in> set (hs_windows ?h). int (length w) \<le> max 0 (or_default 50 (hso_window_size opts))"
    by (fastforce simp: hs_inv_def hs_windows_ok_def)
  with hs_score_bounds[OF inv, of now p] show ?thesis by (simp add: Let_def)
qed

theorem health_score_in_unit_interval_witness:
  "let h = run_steps hs_step [HsRecord 10 ''a'' True 200, HsRecord 20 ''a'' False 100]
             (hs_new \<lparr>hso_window_size = Some 1, hso_latency_weight = None,
                      hso_success_weight = None, hso_latency_target_ms = None, hso_max_age_ms = None\<rparr>)
   in fst (hs_score 30 ''a'' h) \<le> 1"
  using health_score_in_unit_interval[of "\<lparr>hso_window_size = Some 1, hso_latency_weight = None,
      hso_success_weight = None, hso_latency_target_ms = None, hso_max_age_ms = None\<rparr>"
      "[HsRecord 10 ''a'' True 200, HsRecord 20 ''a'' False 100]" 30 "''a''"]
  by (simp add: nonneg_weights_def Let_def del: run_steps.simps)

lemma score_all_keys: "map fst (fst (score_all now ps h)) = ps"
proof (induction ps arbitrary: h)
  case (Cons p ps)
  from Cons[of "snd (hs_score now p h)"] show ?case
    by (cases "hs_score now p h"; cases "score_all now ps (snd (hs_score now p h))") simp
qed simp

text \<open>The score of a provider does not depend on when the others are scored.\<close>

lemma hs_score_other:
  "p \<noteq> p' \<Longrightarrow> fst (hs_score now p (snd (hs_score now p' h))) = fst (hs_score now p h)"
proof -
  assume p: "p \<noteq> p'"
  let ?h = "snd (hs_score now p' h)"
  have get: "jget (hs_windows ?h) p = jget (hs_windows h) p"
    using p by (simp add: hs_score_def Let_def split: option.split)
  have "window_score ?h = window_score h" "prune_expired now ?h = prune_expired now h"
    by (auto simp: hs_score_def Let_def window_score_def prune_expired_def fun_eq_iff
          split: option.split)
  with get show ?thesis by (simp add: hs_score_def[of now p] Let_def split: option.split)
qed

lemma score_all_scores:
  "distinct ps \<Longrightarrow> fst (score_all now ps h) = map (\<lambda>p. (p, fst (hs_score now p h))) ps"
proof (induction ps arbitrary: h)
  case (Cons p ps)
  then have "fst (score_all now ps (snd (hs_score now p h))) =
      map (\<lambda>q. (q, fst (hs_score now q (snd (hs_score now p h))))) ps" by simp
  also have "\<dots> = map (\<lambda>q. (q, fst (hs_score now q h))) ps"
    using Cons.prems by (intro map_cong) (auto intro: hs_score_other)
  finally show ?case
    by (cases "hs_score now p h"; cases "score_all now ps (snd (hs_score now p h))") simp
qed simp

text \<open>
  \<open>rank\<close> lists every provider with a window exactly once, each with the score \<open>score\<close> gives
  it at that moment, in descending order of score; providers with equal scores keep the order in
  which they were first recorded.
\<close>

theorem rank_descending:
  assumes "jwf (hs_windows h)"
  shows "let r = fst (hs_rank now h); ps = jkeys (hs_windows h)
         in sorted_wrt (\<ge>) (map snd r) \<and>
            set r = (\<lambda>p. (p, fst (hs_score now p h))) ` set ps \<and>
            distinct (map fst r) \<and>
            (\<forall>x. filter (\<lambda>e. snd e = x) r =
               filter (\<lambda>e. snd e = x) (map (\<lambda>p. (p, fst (hs_score now p h))) ps))"
proof -
  let ?ps = "jkeys (hs_windows h)"
  let ?s = "map (\<lambda>p. (p, fst (hs_score now p h))) ?ps"
  have dist: "distinct ?ps" using assms by (simp add: jwf_def jkeys_def)
  have r: "fst (hs_rank now h) = sort_key (\<lambda>e. - snd e) ?s"
    using score_all_scores[OF dist, of now h] by (simp add: hs_rank_def case_prod_beta)
  have "sorted (map (\<lambda>e. - snd e) (sort_key (\<lambda>e. - snd e) ?s))" by simp
  then have "sorted_wrt (\<ge>) (map snd (sort_key (\<lambda>e. - snd e) ?s))"
    by (simp add: sorted_wrt_map)
  moreover have "distinct (map fst (sort_key (\<lambda>e. - snd e) ?s))"
    using dist by (simp add: distinct_map_sort_key comp_def)
  moreover have "filter (\<lambda>e. snd e = x) (sort_key (\<lambda>e. - snd e) ?s) = filter (\<lambda>e. snd e = x) ?s" for x
    using sort_key_stable[of "\<lambda>e. - snd e" "- x" ?s] by simp
  ultimately show ?thesis unfolding r Let_def by simp
qed

theorem rank_descending_witness:
  "sorted_wrt (\<ge>) (map snd (fst (hs_rank 30 (run_steps hs_step
      [HsRecord 10 ''a'' False 200, HsRecord 20 ''b'' True 100]
      (hs_new \<lparr>hso_window_size = None, hso_latency_weight = None,
               hso_success_weight = None, hso_latency_target_ms = None, hso_max_age_ms = None\<rparr>)))))"
proof -
  have "jwf (hs_windows (run_steps hs_step [HsRecord 10 ''a'' False 200, HsRecord 20 ''b'' True 100]
      (hs_new \<lparr>hso_window_size = None, hso_latency_weight = None,
               hso_success_weight = None, hso_latency_target_ms = None, hso_max_age_ms = None\<rparr>)))"
    by (simp add: hs_record_def hs_new_def Let_def)
  from rank_descending[OF this, of 30] show ?thesis by (simp only: Let_def)
qed

end
