(* ===== verification/ProviderService.thy ===== *)
theory ProviderService
  imports HealthScorer
begin

text \<open>
  \<open>ProviderRegistry\<close> of \<open>src/src/providers/service.ts\<close>: the choice of the active and of the
  orchestrator provider, and \<open>run_headless\<close>, the guarded call with retries of transient errors.

  The provider instances do network and process I/O; a call of \<open>provider.chat\<close> is answered by
  the environment: \<open>attempts n\<close> holds the outcome of the \<open>n\<close>-th call together with the clock
  readings and the abort flags the code sees around it, and \<open>sanitized\<close> says whether the
  redaction of the messages (the secret vault, a service) succeeded. Provider ids are strings.
\<close>


section \<open>Transient errors\<close>

text \<open>
  The regular expressions of \<open>TRANSIENT_ERROR_PATTERNS\<close>: literals (matched against the lowered
  text, as the patterns with letters ignore case), \<open>.?\<close>, \<open>\d\<close> and \<open>\b\<close> after a digit.
\<close>

datatype pat = Lit string | AnyOpt | Digit | WordEnd

definition is_digit :: "char \<Rightarrow> bool" where
  "is_digit c \<longleftrightarrow> c \<in> set ''0123456789''"

definition is_word_char :: "char \<Rightarrow> bool" where
  "is_word_char c \<longleftrightarrow> is_digit c \<or> lower_char c \<in> set ''abcdefghijklmnopqrstuvwxyz'' \<or> c = CHR ''_''"

fun match_here :: "pat list \<Rightarrow> string \<Rightarrow> bool" where
  "match_here [] s = True"
| "match_here (Lit l # ps) s = (starts_with l s \<and> match_here ps (drop (length l) s))"
| "match_here (AnyOpt # ps) s =
     (match_here ps s \<or>
      (case s of [] \<Rightarrow> False | c # s \<Rightarrow> c \<notin> {CHR 0x0A, CHR 0x0D} \<and> match_here ps s))"
| "match_here (Digit # ps) s = (case s of [] \<Rightarrow> False | c # s \<Rightarrow> is_digit c \<and> match_here ps s)"
| "match_here (WordEnd # ps) s =
     ((case s of [] \<Rightarrow> True | c # _ \<Rightarrow> \<not> is_word_char c) \<and> match_here ps s)"

fun match_any :: "pat list \<Rightarrow> string \<Rightarrow> bool" where
  "match_any ps [] = match_here ps []"
| "match_any ps (c # s) = (match_here ps (c # s) \<or> match_any ps s)"

definition transient_error_patterns :: "pat list list" where
  "transient_error_patterns =
     [[Lit ''rate'', AnyOpt, Lit ''limit''],
      [Lit ''too'', AnyOpt, Lit ''many'', AnyOpt, Lit ''requests''],
      [Lit ''429''],
      [Lit ''5'', Digit, Digit, WordEnd],
      [Lit ''timeout''],
      [Lit ''econnreset''],
      [Lit ''econnrefused''],
      [Lit ''etimedout''],
      [Lit ''network''],
      [Lit ''socket hang up''],
      [Lit ''stream disconnected'']]"

definition is_transient_exception :: "string \<Rightarrow> bool" where
  "is_transient_exception msg = (\<exists>p \<in> set transient_error_patterns. match_any p (str_lower msg))"

definition is_transient_error_content :: "string \<Rightarrow> bool" where
  "is_transient_error_content content =
     (let c = str_lower content in \<exists>p \<in> set transient_error_patterns. match_any p c)"

lemma match_any_literal: "match_any [Lit l] s \<longleftrightarrow> str_includes l s"
  by (induction s) auto

text \<open>A number that merely ends in such digits counts as a server error: it is retried.\<close>

lemma digits_inside_number_transient:
  "is_transient_error_content ''maximum context length is 8512 tokens''"
  by code_simp


section \<open>The registry\<close>

definition parse_provider_id :: "string \<Rightarrow> string option" where
  "parse_provider_id raw =
     (let v = str_lower (str_trim raw)
      in if v \<in> {''chatgpt'', ''codex_cli'', ''codex_appserver''} then Some ''chatgpt''
         else if v \<in> {''claude_code'', ''claude_cli'', ''claude_sdk''} then Some ''claude_code''
         else if v = ''openrouter'' then Some ''openrouter''
         else if v \<in> {''orchestrator_llm'', ''ollama'', ''openai_compatible''} then Some ''orchestrator_llm''
         else if v \<in> {''gemini'', ''gemini_cli''} then Some ''gemini''
         else None)"

record provider_registry =
  pr_providers :: "string list"
  pr_breakers :: "(string, circuit_breaker) jmap"
  pr_health :: health_scorer
  pr_active :: string
  pr_orchestrator :: string
  pr_orch_max_tokens :: int
  pr_orch_model :: "string option"

fun first_in :: "'a list \<Rightarrow> 'a list \<Rightarrow> 'a option" where
  "first_in [] ys = None"
| "first_in (x # xs) ys = (if x \<in> set ys then Some x else first_in xs ys)"

definition resolve_default_orchestrator_provider :: "string option \<Rightarrow> string list \<Rightarrow> string" where
  "resolve_default_orchestrator_provider override providers =
     (let fallback = (case first_in [''chatgpt'', ''claude_code'', ''gemini'', ''openrouter'',
                             ''orchestrator_llm''] providers of
                        Some p \<Rightarrow> p | None \<Rightarrow> hd providers)
      in case parse_provider_id (or_default [] override) of
           None \<Rightarrow> fallback
         | Some preferred \<Rightarrow> if preferred \<in> set providers then preferred else fallback)"

definition registry_provider_ids :: "string list" where
  "registry_provider_ids = [''chatgpt'', ''claude_code'', ''openrouter'', ''orchestrator_llm'', ''gemini'']"

record provider_registry_options =
  pro_orchestrator_max_tokens :: "int option"
  pro_orchestrator_provider :: "string option"
  pro_orchestrator_model_override :: "string option"
  pro_circuit_breaker :: circuit_breaker_options
  pro_health_scorer :: health_scorer_options

definition provider_registry_new :: "provider_registry_options \<Rightarrow> provider_registry" where
  "provider_registry_new opts =
     \<lparr>pr_providers = registry_provider_ids,
      pr_breakers = map (\<lambda>p. (p, cb_new (pro_circuit_breaker opts))) registry_provider_ids,
      pr_health = hs_new (pro_health_scorer opts),
      pr_active = ''chatgpt'',
      pr_orchestrator =
        resolve_default_orchestrator_provider (pro_orchestrator_provider opts) registry_provider_ids,
      pr_orch_max_tokens = or_default 4096 (pro_orchestrator_max_tokens opts),
      pr_orch_model = pro_orchestrator_model_override opts\<rparr>"

definition resolve_provider_id :: "string \<Rightarrow> provider_registry \<Rightarrow> string + string" where
  "resolve_provider_id raw r =
     (let resolved = or_default raw (parse_provider_id raw)
      in if resolved \<in> set (pr_providers r) then Inr resolved else Inl (''provider_not_found:'' @ raw))"

definition set_active_provider :: "string \<Rightarrow> provider_registry \<Rightarrow> string + provider_registry" where
  "set_active_provider raw r =
     (case resolve_provider_id raw r of Inl e \<Rightarrow> Inl e | Inr p \<Rightarrow> Inr (r\<lparr>pr_active := p\<rparr>))"

definition set_orchestrator_provider :: "string \<Rightarrow> provider_registry \<Rightarrow> string + provider_registry" where
  "set_orchestrator_provider raw r =
     (case resolve_provider_id raw r of Inl e \<Rightarrow> Inl e | Inr p \<Rightarrow> Inr (r\<lparr>pr_orchestrator := p\<rparr>))"

definition get_provider_instance :: "string \<Rightarrow> provider_registry \<Rightarrow> string + string" where
  "get_provider_instance p r =
     (if p \<in> set (pr_providers r) then Inr p else Inl (''provider_not_found:'' @ p))"

definition is_provider_available :: "int \<Rightarrow> string \<Rightarrow> provider_registry \<Rightarrow> bool \<times> provider_registry" where
  "is_provider_available now p r =
     (case jget (pr_breakers r) p of
        None \<Rightarrow> (True, r)
      | Some b \<Rightarrow> (let (ok, b) = can_acquire now b in (ok, r\<lparr>pr_breakers := jset p b (pr_breakers r)\<rparr>)))"


section \<open>Calls with retries\<close>

datatype chat_outcome = ChatReply bool string | ChatThrow string

record chat_attempt =
  ca_aborted_before :: bool
  ca_aborted_after :: bool
  ca_start :: int
  ca_outcome :: chat_outcome
  ca_breaker_at :: int
  ca_end :: int

text \<open>The result of a headless run: the reply (error flag and content) or the thrown message.\<close>

type_synonym run_result = "string + (bool \<times> string)"

definition max_transient_retries :: nat where
  "max_transient_retries = 2"

definition breaker_update :: "string \<Rightarrow> (circuit_breaker \<Rightarrow> circuit_breaker) \<Rightarrow> provider_registry \<Rightarrow> provider_registry" where
  "breaker_update p f r =
     (case jget (pr_breakers r) p of
        None \<Rightarrow> r | Some b \<Rightarrow> r\<lparr>pr_breakers := jset p (f b) (pr_breakers r)\<rparr>)"

definition health_update :: "string \<Rightarrow> bool \<Rightarrow> chat_attempt \<Rightarrow> provider_registry \<Rightarrow> provider_registry" where
  "health_update p ok a r =
     r\<lparr>pr_health := hs_record (ca_end a) p ok (ca_end a - ca_start a) (pr_health r)\<rparr>"

text \<open>
  The body of the loop after \<open>chat\<close>: \<open>Inl e\<close> goes on with \<open>last_error = e\<close>, \<open>Inr\<close> leaves the
  function. Every path reports the attempt to the breaker and to the health scorer once.
\<close>

definition attempt_body ::
  "string \<Rightarrow> nat \<Rightarrow> chat_attempt \<Rightarrow> provider_registry \<Rightarrow> (string + run_result) \<times> provider_registry"
where
  "attempt_body p n a r =
     (case ca_outcome a of
        ChatReply is_error content \<Rightarrow>
          if is_error \<and> n < max_transient_retries \<and> is_transient_error_content content
          then (Inl (if content = [] then ''transient_error'' else content),
                health_update p False a (breaker_update p (record_failure (ca_breaker_at a)) r))
          else (Inr (Inr (is_error, content)),
                health_update p (\<not> is_error) a
                  (breaker_update p (if is_error then record_failure (ca_breaker_at a)
                                     else record_success) r))
      | ChatThrow msg \<Rightarrow>
          (let r = breaker_update p (record_failure (ca_breaker_at a)) (health_update p False a r)
           in if \<not> is_transient_exception msg \<or> max_transient_retries \<le> n
              then (Inr (Inl msg), r) else (Inl msg, r)))"

text \<open>\<open>fuel\<close> is the number of iterations left; the loop runs \<open>attempt\<close> from 0 to the maximum.\<close>

fun attempt_loop ::
  "nat \<Rightarrow> string \<Rightarrow> (nat \<Rightarrow> chat_attempt) \<Rightarrow> nat \<Rightarrow> string \<Rightarrow> provider_registry
     \<Rightarrow> run_result \<times> nat \<times> provider_registry"
where
  "attempt_loop 0 p attempts n last_error r = (Inl last_error, n, r)"
| "attempt_loop (Suc fuel) p attempts n last_error r =
     (if 0 < n \<and> (ca_aborted_before (attempts n) \<or> ca_aborted_after (attempts n))
      then (Inl last_error, n, r)
      else case attempt_body p n (attempts n) r of
             (Inr res, r) \<Rightarrow> (res, Suc n, r)
           | (Inl e, r) \<Rightarrow> attempt_loop fuel p attempts (Suc n) e r)"

text \<open>\<open>run_headless\<close>; the second component is the number of \<open>chat\<close> calls made.\<close>

definition run_headless ::
  "int \<Rightarrow> string option \<Rightarrow> (unit + string) \<Rightarrow> (nat \<Rightarrow> chat_attempt) \<Rightarrow> provider_registry
     \<Rightarrow> run_result \<times> nat \<times> provider_registry"
where
  "run_headless now provider_id sanitized attempts r =
     (let p = (case provider_id of Some q \<Rightarrow> if q = [] then pr_active r else q | None \<Rightarrow> pr_active r)
      in case get_provider_instance p r of
           Inl e \<Rightarrow> (Inl e, 0, r)
         | Inr _ \<Rightarrow>
             (let (admitted, r) =
                 (case jget (pr_breakers r) p of
                    None \<Rightarrow> (True, r)
                  | Some b \<Rightarrow> (let (ok, b) = try_acquire now b
                              in (ok, r\<lparr>pr_breakers := jset p b (pr_breakers r)\<rparr>)))
              in if \<not> admitted then (Inl (''circuit_open:'' @ p), 0, r)
                 else case sanitized of
                        Inr e \<Rightarrow> (Inl e, 0, r)
                      | Inl _ \<Rightarrow> attempt_loop (Suc max_transient_retries) p attempts 0 [] r))"

record headless_args =
  ha_provider_id :: "string option"
  ha_model :: "string option"
  ha_max_tokens :: "int option"
  ha_temperature :: "rat option"

text \<open>The arguments \<open>run_orchestrator\<close> calls \<open>run_headless\<close> with.\<close>

definition run_orchestrator_args :: "headless_args \<Rightarrow> provider_registry \<Rightarrow> headless_args" where
  "run_orchestrator_args a r =
     \<lparr>ha_provider_id = (case ha_provider_id a of
          Some p \<Rightarrow> Some (if p = [] then pr_orchestrator r else p) | None \<Rightarrow> Some (pr_orchestrator r)),
      ha_model = (case ha_model a of
          Some m \<Rightarrow> if m = [] then pr_orch_model r else Some m | None \<Rightarrow> pr_orch_model r),
      ha_max_tokens = Some (or_default (pr_orch_max_tokens r) (ha_max_tokens a)),
      ha_temperature = Some (or_default (2 / 10) (ha_temperature a))\<rparr>"


section \<open>The retry loop in closed form\<close>

text \<open>
  Every attempt is reported once: success to the breaker and to the scorer when the reply is no
  error, failure otherwise.
\<close>

definition attempt_ok :: "chat_attempt \<Rightarrow> bool" where
  "attempt_ok a = (case ca_outcome a of ChatReply is_error _ \<Rightarrow> \<not> is_error | ChatThrow _ \<Rightarrow> False)"

definition attempt_transient :: "chat_attempt \<Rightarrow> bool" where
  "attempt_transient a =
     (case ca_outcome a of
        ChatReply is_error content \<Rightarrow> is_error \<and> is_transient_error_content content
      | ChatThrow msg \<Rightarrow> is_transient_exception msg)"

definition attempt_result :: "chat_attempt \<Rightarrow> run_result" where
  "attempt_result a =
     (case ca_outcome a of ChatReply is_error content \<Rightarrow> Inr (is_error, content) | ChatThrow msg \<Rightarrow> Inl msg)"

definition report_attempt :: "string \<Rightarrow> chat_attempt \<Rightarrow> provider_registry \<Rightarrow> provider_registry" where
  "report_attempt p a r =
     health_update p (attempt_ok a) a
       (breaker_update p (if attempt_ok a then record_success else record_failure (ca_breaker_at a)) r)"

lemma updates_commute:
  "breaker_update p f (health_update p ok a r) = health_update p ok a (breaker_update p f r)"
  by (simp add: breaker_update_def health_update_def split: option.split)

lemma attempt_body_eq:
  "\<exists>e. attempt_body p n a r =
     (if n < max_transient_retries \<and> attempt_transient a then Inl e else Inr (attempt_result a),
      report_attempt p a r)"
  by (cases "ca_outcome a")
     (auto simp: attempt_body_def attempt_transient_def attempt_result_def report_attempt_def
        attempt_ok_def Let_def updates_commute)

lemma attempt_loop_eq:
  assumes "\<forall>n. \<not> ca_aborted_before (attempts n) \<and> \<not> ca_aborted_after (attempts n)"
    and "n + fuel = max_transient_retries"
  shows "attempt_loop (Suc fuel) p attempts n e r =
    (let k = length (takeWhile attempt_transient (map attempts [n..<n + fuel]))
     in (attempt_result (attempts (n + k)), Suc (n + k),
         fold (report_attempt p) (map attempts [n..<Suc (n + k)]) r))"
  using assms(2)
proof (induction fuel arbitrary: n e r)
  case 0
  from attempt_body_eq[of p n "attempts n" r] 0 assms(1) show ?case by auto
next
  case (Suc fuel)
  obtain e' where body: "attempt_body p n (attempts n) r =
     (if n < max_transient_retries \<and> attempt_transient (attempts n) then Inl e'
      else Inr (attempt_result (attempts n)), report_attempt p (attempts n) r)"
    using attempt_body_eq by blast
  have upt: "[n..<n + Suc fuel] = n # [Suc n..<Suc n + fuel]" by (simp add: upt_conv_Cons)
  show ?case
  proof (cases "attempt_transient (attempts n)")
    case True
    let ?k = "length (takeWhile attempt_transient (map attempts [Suc n..<Suc n + fuel]))"
    have step: "attempt_loop (Suc (Suc fuel)) p attempts n e r =
        attempt_loop (Suc fuel) p attempts (Suc n) e' (report_attempt p (attempts n) r)"
      using body True Suc.prems assms(1) by simp
    have "[n..<Suc (n + Suc ?k)] = n # [Suc n..<Suc (Suc n + ?k)]" by (simp add: upt_conv_Cons del: upt_Suc)
    then show ?thesis
      using True Suc.IH[of "Suc n" e' "report_attempt p (attempts n) r"] Suc.prems
      unfolding step upt by (simp add: Let_def del: upt_Suc attempt_loop.simps)
  next
    case False
    with body assms(1) show ?thesis unfolding upt by simp
  qed
qed

text \<open>
  A headless run makes at most three calls and stops at the first attempt that does not fail
  with a transient error: it returns that attempt's reply or error, and reports every attempt it
  made, and no other, once to the breaker and once to the health scorer. If the breaker refuses,
  no call is made.
\<close>

theorem run_headless_retries:
  assumes "\<forall>n. \<not> ca_aborted_before (attempts n) \<and> \<not> ca_aborted_after (attempts n)"
    and "p \<noteq> []" "p \<in> set (pr_providers r)" "jget (pr_breakers r) p = Some b"
  shows "run_headless now (Some p) (Inl ()) attempts r =
    (let r' = r\<lparr>pr_breakers := jset p (snd (try_acquire now b)) (pr_breakers r)\<rparr>;
         k = length (takeWhile attempt_transient [attempts 0, attempts 1])
     in if fst (try_acquire now b)
        then (attempt_result (attempts k), Suc k,
              fold (report_attempt p) (map attempts [0..<Suc k]) r')
        else (Inl (''circuit_open:'' @ p), 0, r'))"
proof -
  obtain ok b' where acq: "try_acquire now b = (ok, b')" by (cases "try_acquire now b")
  let ?r = "r\<lparr>pr_breakers := jset p b' (pr_breakers r)\<rparr>"
  have "run_headless now (Some p) (Inl ()) attempts r =
    (if ok then attempt_loop (Suc max_transient_retries) p attempts 0 [] ?r
     else (Inl (''circuit_open:'' @ p), 0, ?r))"
    using assms by (simp add: run_headless_def get_provider_instance_def acq Let_def)
  moreover have "[0..<0 + max_transient_retries] = [0, 1]"
    by (simp add: max_transient_retries_def upt_rec)
  ultimately show ?thesis
    using attempt_loop_eq[OF assms(1), of 0 max_transient_retries p "[]" ?r]
    by (simp add: acq Let_def del: attempt_loop.simps upt_Suc)
qed

definition sample_attempts :: "nat \<Rightarrow> chat_attempt" where
  "sample_attempts n =
     \<lparr>ca_aborted_before = False, ca_aborted_after = False, ca_start = 0,
      ca_outcome = (if n = 0 then ChatThrow ''ECONNRESET'' else ChatReply False ''done''),
      ca_breaker_at = 5, ca_end = 5\<rparr>"

definition sample_registry :: provider_registry where
  "sample_registry = provider_registry_new
     \<lparr>pro_orchestrator_max_tokens = None, pro_orchestrator_provider = Some ''ollama'',
      pro_orchestrator_model_override = None,
      pro_circuit_breaker = \<lparr>cbo_failure_threshold = Some 1, cbo_reset_timeout_ms = None, cbo_half_open_max = None\<rparr>,
      pro_health_scorer = \<lparr>hso_window_size = None, hso_latency_weight = None, hso_success_weight = None,
        hso_latency_target_ms = None, hso_max_age_ms = None\<rparr>\<rparr>"

theorem run_headless_retries_witness:
  "fst (run_headless 0 (Some ''gemini'') (Inl ()) sample_attempts sample_registry) = Inr (False, ''done'') \<and>
   fst (snd (run_headless 0 (Some ''gemini'') (Inl ()) sample_attempts sample_registry)) = 2"
proof -
  have transient: "attempt_transient (sample_attempts 0) \<and> \<not> attempt_transient (sample_attempts 1)"
    by code_simp
  obtain b where b: "jget (pr_breakers sample_registry) ''gemini'' = Some b" "fst (try_acquire 0 b)"
    by (simp add: sample_registry_def provider_registry_new_def registry_provider_ids_def cb_new_def
          try_acquire_def try_transition_to_half_open_def)
  have "run_headless 0 (Some ''gemini'') (Inl ()) sample_attempts sample_registry =
    (let r' = sample_registry\<lparr>pr_breakers := jset ''gemini'' (snd (try_acquire 0 b)) (pr_breakers sample_registry)\<rparr>;
         k = length (takeWhile attempt_transient [sample_attempts 0, sample_attempts 1])
     in if fst (try_acquire 0 b)
        then (attempt_result (sample_attempts k), Suc k,
              fold (report_attempt ''gemini'') (map sample_attempts [0..<Suc k]) r')
        else (Inl (''circuit_open:'' @ ''gemini''), 0, r'))"
    by (rule run_headless_retries)
       (use b in \<open>simp_all add: sample_attempts_def sample_registry_def provider_registry_new_def
          registry_provider_ids_def\<close>)
  with b transient show ?thesis
    by (simp add: Let_def attempt_result_def sample_attempts_def)
qed

text \<open>
  A failure while the messages are sanitised leaves the acquired half-open probe unreported: the
  provider then refuses every later call.
\<close>

lemma sanitize_failure_leaks_probe:
  assumes "p \<in> set (pr_providers r)" "p \<noteq> []" "jget (pr_breakers r) p = Some b"
    and "cb_state b = HalfOpen" "cb_half_open_attempts b + 1 = cb_half_open_max b"
  shows "fst (run_headless later (Some p) s attempts
           (snd (snd (run_headless now (Some p) (Inr e) attempts r)))) = Inl (''circuit_open:'' @ p)"
  using assms by (simp add: run_headless_def get_provider_instance_def cb_op_defs)


section \<open>The registry keeps valid providers\<close>

datatype registry_op =
    SetActive string
  | SetOrchestrator string
  | IsAvailable int string
  | RunHeadless int "string option" "unit + string" "nat \<Rightarrow> chat_attempt"

fun registry_step :: "registry_op \<Rightarrow> provider_registry \<Rightarrow> provider_registry" where
  "registry_step (SetActive raw) r = (case set_active_provider raw r of Inl _ \<Rightarrow> r | Inr r' \<Rightarrow> r')"
| "registry_step (SetOrchestrator raw) r =
     (case set_orchestrator_provider raw r of Inl _ \<Rightarrow> r | Inr r' \<Rightarrow> r')"
| "registry_step (IsAvailable now p) r = snd (is_provider_available now p r)"
| "registry_step (RunHeadless now p s attempts) r = snd (snd (run_headless now p s attempts r))"

definition registry_inv :: "provider_registry \<Rightarrow> bool" where
  "registry_inv r \<longleftrightarrow>
     pr_active r \<in> set (pr_providers r) \<and> pr_orchestrator r \<in> set (pr_providers r) \<and>
     fst ` set (pr_breakers r) = set (pr_providers r)"

lemma registry_inv_set_breaker:
  assumes "registry_inv r" and "jget (pr_breakers r) p = Some b"
  shows "registry_inv (r\<lparr>pr_breakers := jset p b' (pr_breakers r)\<rparr>)"
proof -
  have "p \<in> fst ` set (pr_breakers r)" using jget_mem[OF assms(2)] by force
  then show ?thesis using assms(1) by (auto simp: registry_inv_def keys_jset)
qed

lemma registry_inv_report: "registry_inv r \<Longrightarrow> registry_inv (report_attempt p a r)"
proof -
  assume inv: "registry_inv r"
  then have "registry_inv (breaker_update p f r)" for f
    by (simp add: breaker_update_def registry_inv_set_breaker split: option.split)
  then show ?thesis by (simp add: report_attempt_def health_update_def registry_inv_def)
qed

lemma registry_inv_loop:
  "registry_inv r \<Longrightarrow> registry_inv (snd (snd (attempt_loop fuel p attempts n e r)))"
proof (induction fuel arbitrary: n e r)
  case (Suc fuel)
  obtain e' where body: "attempt_body p n (attempts n) r =
     (if n < max_transient_retries \<and> attempt_transient (attempts n) then Inl e'
      else Inr (attempt_result (attempts n)), report_attempt p (attempts n) r)"
    using attempt_body_eq by blast
  from Suc.IH[OF registry_inv_report[OF Suc.prems]] Suc.prems show ?case
    by (simp add: body registry_inv_report)
qed simp

interpretation reg: machine registry_step registry_inv
proof
  fix r e
  assume inv: "registry_inv r"
  show "registry_inv (registry_step e r)"
  proof (cases e)
    case (IsAvailable now p)
    with inv show ?thesis
      by (simp add: is_provider_available_def case_prod_beta registry_inv_set_breaker split: option.split)
  next
    case (RunHeadless now p s attempts)
    then show ?thesis
      using inv registry_inv_loop[OF inv] registry_inv_loop[OF registry_inv_set_breaker[OF inv]]
        registry_inv_set_breaker[OF inv]
      by (simp add: run_headless_def case_prod_beta Let_def del: attempt_loop.simps
            split: option.split sum.split)
  qed (use inv in \<open>simp_all add: set_active_provider_def set_orchestrator_provider_def
          resolve_provider_id_def registry_inv_def Let_def\<close>)
qed

lemma registry_inv_new: "registry_inv (provider_registry_new opts)"
proof -
  have "resolve_default_orchestrator_provider q registry_provider_ids \<in> set registry_provider_ids" for q
    by (auto simp: resolve_default_orchestrator_provider_def Let_def split: option.split)
       (simp_all add: registry_provider_ids_def)
  then show ?thesis
    by (auto simp: registry_inv_def provider_registry_new_def)
       (simp_all add: registry_provider_ids_def)
qed

text \<open>
  The active and the orchestrator provider always exist, and every provider has its circuit
  breaker, after any sequence of selections, availability checks and runs.
\<close>

theorem registry_selection_valid:
  "let r = run_steps registry_step es (provider_registry_new opts)
   in pr_active r \<in> set (pr_providers r) \<and> pr_orchestrator r \<in> set (pr_providers r) \<and>
      jkeys (pr_breakers r) \<noteq> [] \<and> fst ` set (pr_breakers r) = set (pr_providers r)"
  using reg.inv_run[OF registry_inv_new, of es opts]
  by (auto simp: registry_inv_def Let_def jkeys_def)

end
