(* ===== verification/Gateway.thy ===== *)
theory Gateway
  imports Classifier ProviderService
begin

text \<open>
  From a classified message to an execution route: \<open>src/src/providers/executor.ts\<close>,
  \<open>src/src/orchestration/gateway.ts\<close>, \<open>gateway-contracts.ts\<close> and \<open>execution-gateway.ts\<close>.

  Executors are provider ids (strings). The arguments of a direct tool are of an arbitrary type
  \<open>'a\<close>; the text of the task summary is an argument. The cost tiers are linearly ordered by
  cost, as their comment in the source says.
\<close>


section \<open>Executors\<close>

record provider_capabilities =
  chatgpt_available :: bool
  claude_available :: bool
  openrouter_available :: bool

definition parse_executor_preference :: "string \<Rightarrow> string" where
  "parse_executor_preference raw =
     (let n = str_lower (str_trim raw)
      in if n \<in> {''claude_code'', ''claude_cli'', ''claude_sdk''} then ''claude_code''
         else if n \<in> {''codex_cli'', ''codex_appserver''} then ''chatgpt''
         else if n = ''openrouter'' then ''openrouter''
         else if n = ''orchestrator_llm'' then ''orchestrator_llm''
         else if n \<in> {''gemini'', ''gemini_cli''} then ''gemini''
         else ''chatgpt'')"

definition builtin_providers :: "string list" where
  "builtin_providers = [''chatgpt'', ''claude_code'', ''openrouter'', ''orchestrator_llm'', ''gemini'']"

definition resolve_executor_provider :: "string \<Rightarrow> provider_capabilities \<Rightarrow> string" where
  "resolve_executor_provider preferred caps =
     (if preferred \<notin> set builtin_providers then preferred
      else if preferred = ''orchestrator_llm'' then ''orchestrator_llm''
      else if preferred = ''gemini'' then ''gemini''
      else if preferred = ''openrouter'' then
        (if openrouter_available caps then ''openrouter''
         else if chatgpt_available caps then ''chatgpt''
         else if claude_available caps then ''claude_code''
         else ''orchestrator_llm'')
      else if preferred = ''claude_code'' then
        (if claude_available caps then ''claude_code''
         else if chatgpt_available caps then ''chatgpt''
         else if openrouter_available caps then ''openrouter''
         else ''orchestrator_llm'')
      else if chatgpt_available caps then ''chatgpt''
      else if claude_available caps then ''claude_code''
      else if openrouter_available caps then ''openrouter''
      else ''orchestrator_llm'')"


section \<open>Plans\<close>

datatype cost_tier = NoToken | ModelDirect | AgentRequired

fun tier_rank :: "cost_tier \<Rightarrow> nat" where
  "tier_rank NoToken = 0"
| "tier_rank ModelDirect = 1"
| "tier_rank AgentRequired = 2"

instantiation cost_tier :: linorder
begin

definition less_eq_cost_tier :: "cost_tier \<Rightarrow> cost_tier \<Rightarrow> bool" where
  "less_eq_cost_tier s t \<longleftrightarrow> tier_rank s \<le> tier_rank t"

definition less_cost_tier :: "cost_tier \<Rightarrow> cost_tier \<Rightarrow> bool" where
  "less_cost_tier s t \<longleftrightarrow> tier_rank s < tier_rank t"

instance
proof
  fix s t :: cost_tier
  show "s \<le> t \<Longrightarrow> t \<le> s \<Longrightarrow> s = t"
    by (cases s; cases t) (simp_all add: less_eq_cost_tier_def)
qed (auto simp: less_eq_cost_tier_def less_cost_tier_def)

end

lemmas tier_order = less_eq_cost_tier_def less_cost_tier_def

datatype 'a gateway_decision =
    DBuiltin string "string option"
  | DInquiry string
  | DIdentity
  | DDirectTool string "'a option"
  | DExecute exec_mode string "string option" "string list option" "string list option"

datatype 'a request_plan =
    PIdentity
  | PBuiltin string "string option"
  | PInquiry string
  | PDirectTool string "'a option"
  | POnce string "string list option"
  | PAgent string "string list option"
  | PTask string "string list option"
  | PWorkflow string "string option" "string list option"

fun to_request_plan :: "'a gateway_decision \<Rightarrow> 'a request_plan" where
  "to_request_plan DIdentity = PIdentity"
| "to_request_plan (DBuiltin command args) = PBuiltin command args"
| "to_request_plan (DInquiry summary) = PInquiry summary"
| "to_request_plan (DDirectTool tool args) = PDirectTool tool args"
| "to_request_plan (DExecute mode executor workflow_id tools nodes) =
     (if mode = ModeOnce then POnce executor tools
      else if mode = ModePhase then PWorkflow executor workflow_id nodes
      else if mode = ModeTask then PTask executor tools
      else PAgent executor tools)"

fun plan_cost_tier :: "'a request_plan \<Rightarrow> cost_tier" where
  "plan_cost_tier PIdentity = NoToken"
| "plan_cost_tier (PBuiltin _ _) = NoToken"
| "plan_cost_tier (PInquiry _) = NoToken"
| "plan_cost_tier (PDirectTool _ _) = NoToken"
| "plan_cost_tier (POnce _ _) = ModelDirect"
| "plan_cost_tier (PAgent _ _) = AgentRequired"
| "plan_cost_tier (PTask _ _) = AgentRequired"
| "plan_cost_tier (PWorkflow _ _ _) = AgentRequired"

fun plan_executor :: "'a request_plan \<Rightarrow> string option" where
  "plan_executor (POnce e _) = Some e"
| "plan_executor (PAgent e _) = Some e"
| "plan_executor (PTask e _) = Some e"
| "plan_executor (PWorkflow e _ _) = Some e"
| "plan_executor _ = None"

fun classify_cost_tier :: "classification \<Rightarrow> cost_tier" where
  "classify_cost_tier CIdentity = NoToken"
| "classify_cost_tier (CBuiltin _ _) = NoToken"
| "classify_cost_tier CInquiry = NoToken"
| "classify_cost_tier (CMode m _) = (if m = ModeOnce then ModelDirect else AgentRequired)"
| "classify_cost_tier (CPhase _ _) = AgentRequired"

definition result_cost_tier :: "exec_mode \<Rightarrow> cost_tier" where
  "result_cost_tier mode = (if mode = ModeOnce then ModelDirect else AgentRequired)"

record reply_channel_ref =
  rc_provider :: string
  rc_chat_id :: string
  rc_thread_id :: "string option"

definition build_reply_ref :: "string \<Rightarrow> string \<Rightarrow> string option \<Rightarrow> reply_channel_ref" where
  "build_reply_ref provider chat_id thread_id =
     \<lparr>rc_provider = provider, rc_chat_id = chat_id,
      rc_thread_id = (if thread_id = Some [] then None else thread_id)\<rparr>"

record orchestration_result =
  or_reply :: "string option"
  or_error :: "string option"
  or_suppress_reply :: "bool option"
  or_mode :: exec_mode
  or_usage :: "(int option \<times> int option \<times> int option \<times> rat option) option"
  or_tools_used :: "string list option"
  or_streamed :: bool

record result_envelope =
  re_reply_to :: reply_channel_ref
  re_content :: "string option"
  re_cost_tier :: cost_tier
  re_mode :: exec_mode
  re_error :: "string option"
  re_usage :: "(int option \<times> int option \<times> int option \<times> rat option) option"
  re_tools_used :: "string list option"
  re_streamed :: bool
  re_suppress_reply :: "bool option"

definition to_result_envelope :: "orchestration_result \<Rightarrow> reply_channel_ref \<Rightarrow> result_envelope" where
  "to_result_envelope result reply_to =
     \<lparr>re_reply_to = reply_to, re_content = or_reply result,
      re_cost_tier = result_cost_tier (or_mode result), re_mode = or_mode result,
      re_error = or_error result, re_usage = or_usage result,
      re_tools_used = or_tools_used result, re_streamed = or_streamed result,
      re_suppress_reply = or_suppress_reply result\<rparr>"

definition build_delivery_envelope ::
  "orchestration_result \<Rightarrow> string \<Rightarrow> string \<Rightarrow> string option \<Rightarrow> result_envelope" where
  "build_delivery_envelope result provider chat_id thread_id =
     to_result_envelope result (build_reply_ref provider chat_id thread_id)"


section \<open>The gateway\<close>

text \<open>
  \<open>supports_tool_loop\<close> looks the executor up in the provider registry and throws when it is not
  registered; \<open>tool_loop\<close> is the flag of the registered instances.
\<close>

definition supports_tool_loop :: "(string \<Rightarrow> bool) \<Rightarrow> string \<Rightarrow> provider_registry \<Rightarrow> string + bool" where
  "supports_tool_loop tool_loop p r =
     (case get_provider_instance (if p = [] then pr_active r else p) r of
        Inl e \<Rightarrow> Inl e | Inr q \<Rightarrow> Inr (tool_loop q))"

definition execute_decision ::
  "exec_mode \<Rightarrow> string list option \<Rightarrow> string \<Rightarrow> provider_capabilities \<Rightarrow> (string \<Rightarrow> bool)
     \<Rightarrow> provider_registry \<Rightarrow> string + 'a gateway_decision" where
  "execute_decision mode tools preference caps tool_loop r =
     (let executor = resolve_executor_provider preference caps
      in if mode = ModeOnce then Inr (DExecute mode executor None tools None)
         else case supports_tool_loop tool_loop executor r of
                Inl e \<Rightarrow> Inl e
              | Inr ok \<Rightarrow> Inr (DExecute (if ok then mode else ModeOnce) executor None tools None))"

definition resolve_gateway ::
  "classification \<Rightarrow> nat \<Rightarrow> string \<Rightarrow> string \<Rightarrow> provider_capabilities \<Rightarrow> (string \<Rightarrow> bool)
     \<Rightarrow> provider_registry \<Rightarrow> string + 'a gateway_decision" where
  "resolve_gateway c active_tasks summary preference caps tool_loop r =
     (case c of
        CIdentity \<Rightarrow> Inr DIdentity
      | CBuiltin command args \<Rightarrow> Inr (DBuiltin command args)
      | CInquiry \<Rightarrow>
          if 0 < active_tasks then Inr (DInquiry summary)
          else execute_decision ModeOnce None preference caps tool_loop r
      | CPhase workflow_id nodes \<Rightarrow>
          Inr (DExecute ModePhase (resolve_executor_provider preference caps) workflow_id None nodes)
      | CMode mode tools \<Rightarrow>
          if mode = ModePhase
          then Inr (DExecute ModePhase (resolve_executor_provider preference caps) None None None)
          else execute_decision mode tools preference caps tool_loop r)"


section \<open>The execution gateway\<close>

definition executor_available :: "string \<Rightarrow> provider_capabilities \<Rightarrow> bool" where
  "executor_available executor caps =
     (if executor = ''chatgpt'' then chatgpt_available caps
      else if executor = ''claude_code'' then claude_available caps
      else if executor = ''openrouter'' then openrouter_available caps
      else True)"

definition build_fallback_chain :: "string \<Rightarrow> provider_capabilities \<Rightarrow> string list" where
  "build_fallback_chain primary caps =
     filter (\<lambda>c. c \<noteq> primary \<and> executor_available c caps)
       [''chatgpt'', ''claude_code'', ''openrouter'', ''orchestrator_llm'']"

definition gateway_route :: "'a request_plan \<Rightarrow> provider_capabilities \<Rightarrow> string \<Rightarrow> string \<times> string list" where
  "gateway_route plan caps preference =
     (if plan_cost_tier plan = NoToken then (preference, [])
      else let primary = (case plan_executor plan of
                 Some e \<Rightarrow> e | None \<Rightarrow> resolve_executor_provider preference caps)
           in (primary, build_fallback_chain primary caps))"


section \<open>Properties\<close>

lemma executor_available_simps [simp]:
  "executor_available ''chatgpt'' caps = chatgpt_available caps"
  "executor_available ''claude_code'' caps = claude_available caps"
  "executor_available ''openrouter'' caps = openrouter_available caps"
  "executor_available ''orchestrator_llm'' caps"
  "executor_available ''gemini'' caps"
  by (simp_all add: executor_available_def)

lemma resolved_available: "executor_available (resolve_executor_provider preferred caps) caps"
proof (cases "preferred \<in> set builtin_providers")
  case True
  then show ?thesis by (simp add: resolve_executor_provider_def)
next
  case False
  then have "preferred \<notin> {''chatgpt'', ''claude_code'', ''openrouter''}"
    by (simp add: builtin_providers_def)
  with False show ?thesis by (simp add: resolve_executor_provider_def executor_available_def)
qed

lemma resolve_keeps_available:
  "preferred \<in> set builtin_providers \<Longrightarrow> executor_available preferred caps \<Longrightarrow>
   resolve_executor_provider preferred caps = preferred"
  unfolding resolve_executor_provider_def builtin_providers_def list.set
  by (elim insertE emptyE) simp_all

text \<open>
  The executor resolution returns an executor that is available; it keeps an available
  preference, never replaces a provider outside the built-in ones, and falls back to the
  orchestrator model only when the three command-line and API providers are all unavailable
  (or it was asked for).
\<close>

theorem resolve_executor_spec:
  "executor_available (resolve_executor_provider preferred caps) caps \<and>
   (executor_available preferred caps \<longrightarrow> resolve_executor_provider preferred caps = preferred) \<and>
   (resolve_executor_provider preferred caps = ''orchestrator_llm'' \<longrightarrow>
      preferred = ''orchestrator_llm'' \<or>
      \<not> chatgpt_available caps \<and> \<not> claude_available caps \<and> \<not> openrouter_available caps)"
proof (cases "preferred \<in> set builtin_providers")
  case True
  have "resolve_executor_provider preferred caps = ''orchestrator_llm'' \<longrightarrow>
      preferred = ''orchestrator_llm'' \<or>
      \<not> chatgpt_available caps \<and> \<not> claude_available caps \<and> \<not> openrouter_available caps"
    using True by (simp add: resolve_executor_provider_def)
  with True resolved_available resolve_keeps_available show ?thesis by blast
next
  case False
  then have "resolve_executor_provider preferred caps = preferred"
    by (simp add: resolve_executor_provider_def)
  with False resolved_available[of preferred caps] show ?thesis by simp
qed

theorem resolve_executor_spec_witness:
  "resolve_executor_provider ''openrouter'' \<lparr>chatgpt_available = False, claude_available = False,
     openrouter_available = True\<rparr> = ''openrouter''"
  using resolve_executor_spec[of "''openrouter''" "\<lparr>chatgpt_available = False,
     claude_available = False, openrouter_available = True\<rparr>"]
  by (simp add: executor_available_def)

text \<open>
  A route that calls a model has a primary executor and a fallback chain without repetition
  that does not contain the primary; everything in the chain is available; the chain contains
  every available executor of the order but the primary, so it is never empty unless the primary is the
  orchestrator model and nothing else is available. A route that needs no model has no fallbacks.
\<close>

theorem gateway_route_spec:
  "let (primary, chain) = gateway_route plan caps preference
   in if plan_cost_tier plan = NoToken then primary = preference \<and> chain = []
      else distinct chain \<and>
           set chain = {e. e \<in> {''chatgpt'', ''claude_code'', ''openrouter'', ''orchestrator_llm''} \<and>
                           executor_available e caps} - {primary}"
proof -
  let ?order = "[''chatgpt'', ''claude_code'', ''openrouter'', ''orchestrator_llm'']"
  have "distinct (build_fallback_chain p caps)" for p
    unfolding build_fallback_chain_def by (intro distinct_filter) simp
  moreover have "set (build_fallback_chain p caps) =
      {e. e \<in> set ?order \<and> executor_available e caps} - {p}" for p
    unfolding build_fallback_chain_def set_filter by blast
  ultimately show ?thesis
    by (simp only: gateway_route_def Let_def prod.case list.set split: if_split) simp
qed

lemma execute_decision_mode:
  assumes "execute_decision mode tools preference caps tool_loop r = Inr d"
  shows "\<exists>m. d = DExecute m (resolve_executor_provider preference caps) None tools None \<and>
    (m = mode \<or> m = ModeOnce \<and> mode \<noteq> ModeOnce \<and>
     supports_tool_loop tool_loop (resolve_executor_provider preference caps) r = Inr False)"
proof (cases "mode = ModeOnce")
  case True
  with assms show ?thesis by (simp add: execute_decision_def Let_def)
next
  case False
  with assms show ?thesis
    by (cases "supports_tool_loop tool_loop (resolve_executor_provider preference caps) r")
       (auto simp: execute_decision_def Let_def)
qed

lemma plan_tier_execute:
  "plan_cost_tier (to_request_plan (DExecute m e w t n)) = result_cost_tier m"
  by (cases m) (simp_all add: result_cost_tier_def)

lemma tier_once_le: "result_cost_tier ModeOnce \<le> result_cost_tier m"
  by (simp add: result_cost_tier_def tier_order)

text \<open>
  No message costs more than it was classified for: the plan made from the gateway's decision
  is in the tier of the classification or in a cheaper one, and it is cheaper only when the
  executor cannot run a tool loop.
\<close>

theorem plan_cost_within_classification:
  assumes "resolve_gateway c active_tasks summary preference caps tool_loop r = Inr d"
    and "c = CInquiry \<Longrightarrow> 0 < active_tasks"
  shows "plan_cost_tier (to_request_plan d) \<le> classify_cost_tier c \<and>
    (plan_cost_tier (to_request_plan d) = classify_cost_tier c \<or>
     supports_tool_loop tool_loop (resolve_executor_provider preference caps) r = Inr False)"
proof (cases c)
  case (CMode mode tools)
  have tier: "classify_cost_tier c = result_cost_tier mode"
    using CMode by (simp add: result_cost_tier_def)
  show ?thesis
  proof (cases "mode = ModePhase")
    case True
    with CMode assms(1) have "d = DExecute ModePhase (resolve_executor_provider preference caps) None None None"
      by (simp add: resolve_gateway_def)
    with True tier show ?thesis by (simp only: plan_tier_execute) simp
  next
    case False
    with CMode assms(1) have "execute_decision mode tools preference caps tool_loop r = Inr d"
      by (simp add: resolve_gateway_def)
    from execute_decision_mode[OF this] tier_once_le[of mode] show ?thesis
      unfolding tier by (auto simp only: plan_tier_execute order_refl)
  qed
next
  case (CPhase workflow_id nodes)
  with assms(1) have "d = DExecute ModePhase (resolve_executor_provider preference caps) workflow_id None nodes"
    by (simp add: resolve_gateway_def)
  with CPhase show ?thesis by (simp add: tier_order)
qed (use assms in \<open>auto simp: resolve_gateway_def\<close>)

theorem plan_cost_within_classification_witness:
  "plan_cost_tier (to_request_plan (DExecute ModeOnce ''gemini'' None None None :: string gateway_decision))
     \<le> classify_cost_tier (CMode ModeAgent None)"
proof -
  have "plan_cost_tier (to_request_plan (DExecute ModeOnce ''gemini'' None None None :: string gateway_decision))
      \<le> classify_cost_tier (CMode ModeAgent None) \<and>
    (plan_cost_tier (to_request_plan (DExecute ModeOnce ''gemini'' None None None :: string gateway_decision))
      = classify_cost_tier (CMode ModeAgent None) \<or>
     supports_tool_loop (\<lambda>_. False) (resolve_executor_provider ''gemini''
       \<lparr>chatgpt_available = False, claude_available = False, openrouter_available = True\<rparr>) sample_registry = Inr False)"
    by (rule plan_cost_within_classification[where active_tasks = 0 and summary = "[]"])
       (simp_all add: resolve_gateway_def execute_decision_def resolve_executor_provider_def
          builtin_providers_def supports_tool_loop_def get_provider_instance_def sample_registry_def
          provider_registry_new_def registry_provider_ids_def)
  then show ?thesis ..
qed

text \<open>A delivered result carries the tier of the mode it was run in, and the reply address.\<close>

lemma delivery_envelope_tier:
  "re_cost_tier (build_delivery_envelope res p chat thread) = plan_cost_tier (to_request_plan
      (DExecute (or_mode res) e w t n)) \<and>
   rc_chat_id (re_reply_to (build_delivery_envelope res p chat thread)) = chat"
  by (cases "or_mode res")
     (simp_all add: build_delivery_envelope_def to_result_envelope_def result_cost_tier_def build_reply_ref_def)

text \<open>
  An executor preference and a provider setting read the same names differently:
  \<open>ollama\<close> is the orchestrator model for the registry and \<open>chatgpt\<close> as a preference.
\<close>

lemma ollama_preference_mismatch:
  "parse_provider_id ''ollama'' = Some ''orchestrator_llm'' \<and> parse_executor_preference ''ollama'' = ''chatgpt''"
  by code_simp

end
