(* ===== verification/AgentRegistry.thy ===== *)
theory AgentRegistry
  imports HealthScorer Classifier
begin

text \<open>
  \<open>AgentBackendRegistry\<close> of \<open>src/src/agent/agent-registry.ts\<close>: registration, mode routing,
  guarded execution with failover, and the fallback search.

  A backend object is its id, an object identity (a replaced backend is another object), and its
  capability flags. What the environment answers during an operation is an argument: \<open>avail\<close> for
  \<open>is_available()\<close>, \<open>backend_call\<close> for one call of \<open>backend.run\<close> with the clock readings around
  it. A call is taken as one step: another registry operation between the start and the end of an
  awaited \<open>backend.run\<close> is not modelled. The searches read the clock once per operation.
\<close>

record backend =
  be_id :: string
  be_object :: nat
  be_capabilities :: "string list"

record provider_config =
  pc_provider_type :: string
  pc_enabled :: bool
  pc_priority :: int
  pc_supported_modes :: "exec_mode list"

record backend_config =
  bc_claude :: string
  bc_codex :: string
  bc_gemini :: "string option"

record agent_registry =
  ar_backends :: "(string, backend) jmap"
  ar_breakers :: "(string, circuit_breaker) jmap"
  ar_configs :: "(string, provider_config) jmap"
  ar_config :: backend_config
  ar_health :: health_scorer
  ar_saved :: "string list option"

definition default_backend_config :: backend_config where
  "default_backend_config =
     \<lparr>bc_claude = ''claude_cli'', bc_codex = ''codex_cli'', bc_gemini = Some ''gemini_cli''\<rparr>"

definition default_breaker :: circuit_breaker where
  "default_breaker = cb_new \<lparr>cbo_failure_threshold = None, cbo_reset_timeout_ms = None, cbo_half_open_max = None\<rparr>"

definition ar_new :: "backend list \<Rightarrow> backend_config option \<Rightarrow> bool \<Rightarrow> health_scorer \<Rightarrow> agent_registry" where
  "ar_new backends config has_store health =
     \<lparr>ar_backends = fold (\<lambda>b. jset (be_id b) b) backends [],
      ar_breakers = fold (\<lambda>b. jset (be_id b) default_breaker) backends [],
      ar_configs = [], ar_config = or_default default_backend_config config,
      ar_health = health, ar_saved = (if has_store then Some [] else None)\<rparr>"

definition ar_register :: "backend \<Rightarrow> provider_config option \<Rightarrow> agent_registry \<Rightarrow> agent_registry" where
  "ar_register b config r =
     r\<lparr>ar_backends := jset (be_id b) b (ar_backends r),
       ar_breakers := (if jhas (ar_breakers r) (be_id b) then ar_breakers r
                       else jset (be_id b) default_breaker (ar_breakers r)),
       ar_configs := (case config of None \<Rightarrow> ar_configs r | Some c \<Rightarrow> jset (be_id b) c (ar_configs r))\<rparr>"

definition ar_unregister :: "string \<Rightarrow> agent_registry \<Rightarrow> bool \<times> agent_registry" where
  "ar_unregister i r =
     (case jget (ar_backends r) i of
        None \<Rightarrow> (False, r)
      | Some _ \<Rightarrow> (True, r\<lparr>ar_backends := jdel i (ar_backends r), ar_breakers := jdel i (ar_breakers r),
                          ar_configs := jdel i (ar_configs r)\<rparr>))"

definition list_backends :: "agent_registry \<Rightarrow> string list" where
  "list_backends r = jkeys (ar_backends r)"

definition resolve_backend_id :: "string \<Rightarrow> agent_registry \<Rightarrow> string option" where
  "resolve_backend_id p r =
     (if p = ''claude_code'' then Some (bc_claude (ar_config r))
      else if p = ''chatgpt'' then Some (bc_codex (ar_config r))
      else if p = ''gemini'' then
        Some (case bc_gemini (ar_config r) of Some g \<Rightarrow> if g = [] then ''gemini_cli'' else g | None \<Rightarrow> ''gemini_cli'')
      else if p = ''openrouter'' \<or> p = ''orchestrator_llm'' then None
      else Some (bc_codex (ar_config r)))"

definition resolve_backend :: "string \<Rightarrow> agent_registry \<Rightarrow> backend option" where
  "resolve_backend p r =
     (case resolve_backend_id p r of
        None \<Rightarrow> None | Some i \<Rightarrow> if i = [] then None else jget (ar_backends r) i)"

definition priority_of :: "agent_registry \<Rightarrow> string \<Rightarrow> int" where
  "priority_of r i = (case jget (ar_configs r) i of None \<Rightarrow> 100 | Some c \<Rightarrow> pc_priority c)"


section \<open>Routing\<close>

text \<open>Asking a breaker stores the breaker it leaves behind; no breaker admits everything.\<close>

definition ask_breaker ::
  "(circuit_breaker \<Rightarrow> bool \<times> circuit_breaker) \<Rightarrow> string \<Rightarrow> agent_registry \<Rightarrow> bool \<times> agent_registry" where
  "ask_breaker f i r =
     (case jget (ar_breakers r) i of
        None \<Rightarrow> (True, r)
      | Some b \<Rightarrow> (let (ok, b) = f b in (ok, r\<lparr>ar_breakers := jset i b (ar_breakers r)\<rparr>)))"

definition config_allows :: "exec_mode \<Rightarrow> string \<Rightarrow> agent_registry \<Rightarrow> bool" where
  "config_allows mode i r =
     (case jget (ar_configs r) i of
        None \<Rightarrow> True
      | Some c \<Rightarrow> pc_enabled c \<and> (pc_supported_modes c = [] \<or> mode \<in> set (pc_supported_modes c)))"

fun available_for_mode ::
  "int \<Rightarrow> (string \<Rightarrow> bool) \<Rightarrow> exec_mode \<Rightarrow> (string \<times> backend) list \<Rightarrow> agent_registry
     \<Rightarrow> backend list \<times> agent_registry"
where
  "available_for_mode now avail mode [] r = ([], r)"
| "available_for_mode now avail mode ((i, b) # bs) r =
     (if \<not> avail i then available_for_mode now avail mode bs r
      else let (ok, r) = ask_breaker (can_acquire now) i r
           in if \<not> ok then available_for_mode now avail mode bs r
              else let (res, r') = available_for_mode now avail mode bs r
                   in (if config_allows mode i r then b # res else res, r'))"

definition matches_preference :: "agent_registry \<Rightarrow> string \<Rightarrow> backend \<Rightarrow> bool" where
  "matches_preference r pref b \<longleftrightarrow>
     be_id b = pref \<or> map_option pc_provider_type (jget (ar_configs r) (be_id b)) = Some pref"

fun first_preferred :: "agent_registry \<Rightarrow> string list \<Rightarrow> backend list \<Rightarrow> backend option" where
  "first_preferred r [] candidates = None"
| "first_preferred r (pref # prefs) candidates =
     (case find (matches_preference r pref) candidates of
        Some b \<Rightarrow> Some b | None \<Rightarrow> first_preferred r prefs candidates)"

definition resolve_for_mode ::
  "int \<Rightarrow> (string \<Rightarrow> bool) \<Rightarrow> exec_mode \<Rightarrow> string list \<Rightarrow> agent_registry
     \<Rightarrow> backend option \<times> agent_registry" where
  "resolve_for_mode now avail mode prefs r =
     (let (candidates, r) = available_for_mode now avail mode (ar_backends r) r
      in (if candidates = [] then None
          else case first_preferred r prefs candidates of
                 Some b \<Rightarrow> Some b
               | None \<Rightarrow> Some (hd (sort_key (\<lambda>b. priority_of r (be_id b)) candidates)),
          r))"

record backend_status =
  bs_id :: string
  bs_provider_type :: string
  bs_available :: bool
  bs_circuit_state :: circuit_state
  bs_priority :: int
  bs_supported_modes :: "exec_mode list"
  bs_capabilities :: "string list"

fun collect_status ::
  "int \<Rightarrow> (string \<Rightarrow> bool) \<Rightarrow> (string \<times> backend) list \<Rightarrow> agent_registry
     \<Rightarrow> backend_status list \<times> agent_registry"
where
  "collect_status now avail [] r = ([], r)"
| "collect_status now avail ((i, b) # bs) r =
     (let c = jget (ar_configs r) i;
          r = snd (ask_breaker (can_acquire now) i r);
          s = \<lparr>bs_id = i, bs_provider_type = or_default i (map_option pc_provider_type c),
               bs_available = avail i,
               bs_circuit_state = or_default Closed (map_option cb_state (jget (ar_breakers r) i)),
               bs_priority = or_default 100 (map_option pc_priority c),
               bs_supported_modes = or_default [] (map_option pc_supported_modes c),
               bs_capabilities = be_capabilities b\<rparr>;
          (ss, r) = collect_status now avail bs r
      in (s # ss, r))"

definition list_backend_status ::
  "int \<Rightarrow> (string \<Rightarrow> bool) \<Rightarrow> agent_registry \<Rightarrow> backend_status list \<times> agent_registry" where
  "list_backend_status now avail r =
     (let (ss, r) = collect_status now avail (ar_backends r) r in (sort_key bs_priority ss, r))"


section \<open>Running\<close>

datatype failover_reason = FAuth | FRateLimit | FQuota | FTimeout | FUnknown

datatype backend_outcome =
    BReply bool "string option"
  | BThrow string
  | BFailover failover_reason string

record backend_call =
  kc_start :: int
  kc_outcome :: backend_outcome
  kc_report_at :: int
  kc_end :: int

definition ar_report :: "string \<Rightarrow> (circuit_breaker \<Rightarrow> circuit_breaker) \<Rightarrow> agent_registry \<Rightarrow> agent_registry" where
  "ar_report i f r =
     (case jget (ar_breakers r) i of
        None \<Rightarrow> r | Some b \<Rightarrow> r\<lparr>ar_breakers := jset i (f b) (ar_breakers r)\<rparr>)"

definition ar_score :: "string \<Rightarrow> bool \<Rightarrow> backend_call \<Rightarrow> agent_registry \<Rightarrow> agent_registry" where
  "ar_score i ok k r = r\<lparr>ar_health := hs_record (kc_end k) i ok (kc_end k - kc_start k) (ar_health r)\<rparr>"

definition persist_session :: "string option \<Rightarrow> agent_registry \<Rightarrow> agent_registry" where
  "persist_session session r =
     (case (session, ar_saved r) of
        (Some s, Some saved) \<Rightarrow> r\<lparr>ar_saved := Some (saved @ [s])\<rparr> | _ \<Rightarrow> r)"

definition failover_circuit :: "failover_reason \<Rightarrow> int \<Rightarrow> circuit_breaker \<Rightarrow> circuit_breaker" where
  "failover_circuit reason now b =
     (if reason = FAuth \<or> reason = FQuota then ((record_failure now) ^^ 5) b else record_failure now b)"

definition legacy_fallback :: "string \<Rightarrow> string option" where
  "legacy_fallback i =
     (if i = ''claude_sdk'' then Some ''claude_cli''
      else if i = ''codex_appserver'' then Some ''codex_cli'' else None)"

text \<open>The dynamic candidates, in priority order, until a breaker hands out a slot.\<close>

fun first_acquired ::
  "int \<Rightarrow> (string \<times> backend) list \<Rightarrow> agent_registry \<Rightarrow> backend option \<times> agent_registry" where
  "first_acquired now [] r = (None, r)"
| "first_acquired now ((i, b) # cs) r =
     (let (ok, r) = ask_breaker (try_acquire now) i r
      in if ok then (Some b, r) else first_acquired now cs r)"

definition fallback_candidates :: "(string \<Rightarrow> bool) \<Rightarrow> string \<Rightarrow> agent_registry \<Rightarrow> (string \<times> backend) list" where
  "fallback_candidates avail failed_id r =
     (if ar_configs r = [] then []
      else sort_key (\<lambda>c. priority_of r (fst c))
             (filter (\<lambda>c. fst c \<noteq> failed_id \<and> avail (fst c)) (ar_backends r)))"

definition find_fallback ::
  "int \<Rightarrow> (string \<Rightarrow> bool) \<Rightarrow> string \<Rightarrow> agent_registry \<Rightarrow> backend option \<times> agent_registry" where
  "find_fallback now avail failed_id r =
     (case first_acquired now (fallback_candidates avail failed_id r) r of
        (Some b, r) \<Rightarrow> (Some b, r)
      | (None, r) \<Rightarrow>
          (case legacy_fallback failed_id of
             None \<Rightarrow> (None, r)
           | Some l \<Rightarrow> (case jget (ar_backends r) l of
                          Some b \<Rightarrow> if avail l then (Some b, r) else (None, r)
                        | None \<Rightarrow> (None, r))))"

type_synonym agent_result = "string + (string \<times> bool)"

text \<open>The log \<open>calls\<close> lists the ids whose \<open>run\<close> was called.\<close>

definition try_fallback ::
  "int \<Rightarrow> (string \<Rightarrow> bool) \<Rightarrow> backend_call \<Rightarrow> string \<Rightarrow> string \<Rightarrow> agent_registry
     \<Rightarrow> agent_result \<times> string list \<times> agent_registry" where
  "try_fallback now avail k primary_id reason r =
     (case find_fallback now avail primary_id r of
        (None, r) \<Rightarrow> (Inl reason, [], r)
      | (Some b, r) \<Rightarrow>
          (let i = be_id b in
           case kc_outcome k of
             BReply is_error session \<Rightarrow>
               (Inr (i, is_error), [i],
                persist_session session (ar_score i (\<not> is_error) k
                  (ar_report i (if is_error then record_failure (kc_report_at k) else record_success) r)))
           | BThrow msg \<Rightarrow>
               (Inl msg, [i], ar_score i False k (ar_report i (record_failure (kc_report_at k)) r))
           | BFailover _ msg \<Rightarrow>
               (Inl msg, [i], ar_score i False k (ar_report i (record_failure (kc_report_at k)) r))))"

definition ar_run ::
  "int \<Rightarrow> (string \<Rightarrow> bool) \<Rightarrow> backend_call \<Rightarrow> int \<Rightarrow> (string \<Rightarrow> bool) \<Rightarrow> backend_call \<Rightarrow> string
     \<Rightarrow> agent_registry \<Rightarrow> agent_result \<times> string list \<times> agent_registry" where
  "ar_run now avail k fb_now fb_avail fb i r =
     (case jget (ar_backends r) i of
        None \<Rightarrow> (Inl (''agent_backend_not_found:'' @ i), [], r)
      | Some _ \<Rightarrow>
          if \<not> avail i then try_fallback fb_now fb_avail fb i (''agent_backend_unavailable:'' @ i) r
          else (case ask_breaker (try_acquire now) i r of
                  (False, r) \<Rightarrow> try_fallback fb_now fb_avail fb i (''circuit_open:'' @ i) r
                | (True, r) \<Rightarrow>
                    (case kc_outcome k of
                       BReply is_error session \<Rightarrow>
                         (Inr (i, is_error), [i],
                          persist_session session (ar_score i (\<not> is_error) k
                            (ar_report i (if is_error then record_failure (kc_report_at k) else record_success) r)))
                     | BFailover reason msg \<Rightarrow>
                         (let (res, calls, r') = try_fallback fb_now fb_avail fb i msg
                                (ar_report i (failover_circuit reason (kc_report_at k)) (ar_score i False k r))
                          in (res, i # calls, r'))
                     | BThrow msg \<Rightarrow>
                         (let (res, calls, r') = try_fallback fb_now fb_avail fb i msg
                                (ar_report i (record_failure (kc_report_at k)) (ar_score i False k r))
                          in (res, i # calls, r')))))"

definition diff_capabilities :: "backend option \<Rightarrow> backend option \<Rightarrow> string list" where
  "diff_capabilities primary fallback =
     (case (primary, fallback) of
        (Some p, Some f) \<Rightarrow>
          map (\<lambda>c. CHR ''-'' # c) (filter (\<lambda>c. c \<notin> set (be_capabilities f)) (be_capabilities p))
      | _ \<Rightarrow> [])"


section \<open>The invariant\<close>

text \<open>
  Every backend is stored under its own id and has exactly one breaker; nothing but a backend has
  one.
\<close>

definition ar_inv :: "agent_registry \<Rightarrow> bool" where
  "ar_inv r \<longleftrightarrow>
     jwf (ar_backends r) \<and> (\<forall>(i, b) \<in> set (ar_backends r). be_id b = i) \<and>
     fst ` set (ar_breakers r) = fst ` set (ar_backends r)"

definition admits :: "int \<Rightarrow> agent_registry \<Rightarrow> string \<Rightarrow> bool" where
  "admits now r i = (case jget (ar_breakers r) i of None \<Rightarrow> True | Some b \<Rightarrow> fst (can_acquire now b))"

lemma ask_breaker_frame [simp]:
  "ar_backends (snd (ask_breaker f i r)) = ar_backends r"
  "ar_configs (snd (ask_breaker f i r)) = ar_configs r"
  "ar_health (snd (ask_breaker f i r)) = ar_health r"
  by (simp_all add: ask_breaker_def case_prod_beta split: option.split)

lemma ask_breaker_keys [simp]:
  "fst ` set (ar_breakers (snd (ask_breaker f i r))) = fst ` set (ar_breakers r)"
proof (cases "jget (ar_breakers r) i")
  case (Some b)
  then have "i \<in> fst ` set (ar_breakers r)" by (force dest: jget_mem)
  with Some show ?thesis by (auto simp: ask_breaker_def case_prod_beta keys_jset)
qed (simp add: ask_breaker_def)

lemma ask_breaker_other:
  "j \<noteq> i \<Longrightarrow> jget (ar_breakers (snd (ask_breaker f i r))) j = jget (ar_breakers r) j"
  by (simp add: ask_breaker_def case_prod_beta split: option.split)

lemma ask_breaker_admits:
  "fst (ask_breaker (can_acquire now) i r) = admits now r i"
  "fst (ask_breaker (try_acquire now) i r) = admits now r i"
  by (simp_all add: ask_breaker_def admits_def case_prod_beta cb.acq_iff_can split: option.split)

text \<open>Asking one breaker changes no answer at the same time: the interface law of the breaker.\<close>

lemma admits_after_ask [simp]:
  "admits now (snd (ask_breaker (can_acquire now) i r)) j = admits now r j"
  by (cases "j = i")
     (simp_all add: admits_def ask_breaker_other, simp add: ask_breaker_def case_prod_beta
        cb.can_idem split: option.split)

lemma available_for_mode_snd:
  "ar_backends (snd (available_for_mode now avail mode bs r)) = ar_backends r \<and>
   ar_configs (snd (available_for_mode now avail mode bs r)) = ar_configs r \<and>
   fst ` set (ar_breakers (snd (available_for_mode now avail mode bs r))) = fst ` set (ar_breakers r) \<and>
   (\<forall>j. admits now (snd (available_for_mode now avail mode bs r)) j = admits now r j)"
proof (induction now avail mode bs r rule: available_for_mode.induct)
  case (2 now avail mode i b bs r)
  obtain ok r1 where ask: "ask_breaker (can_acquire now) i r = (ok, r1)"
    by (cases "ask_breaker (can_acquire now) i r")
  have r1: "r1 = snd (ask_breaker (can_acquire now) i r)" by (simp add: ask)
  show ?case
    using 2 by (simp add: ask case_prod_beta) (simp add: r1)
qed simp

lemma available_for_mode_eq:
  "fst (available_for_mode now avail mode bs r) =
     map snd (filter (\<lambda>(i, b). avail i \<and> admits now r i \<and> config_allows mode i r) bs)"
proof (induction now avail mode bs r rule: available_for_mode.induct)
  case (2 now avail mode i b bs r)
  obtain ok r1 where ask: "ask_breaker (can_acquire now) i r = (ok, r1)"
    by (cases "ask_breaker (can_acquire now) i r")
  have r1: "r1 = snd (ask_breaker (can_acquire now) i r)" and ok: "ok = admits now r i"
    using ask_breaker_admits(1)[of now i r] by (simp_all add: ask)
  have same: "admits now r1 j = admits now r j" "config_allows mode j r1 = config_allows mode j r" for j
    by (simp_all add: r1 config_allows_def)
  show ?case
    using 2 by (simp add: ask case_prod_beta ok same)
qed simp

definition eligible :: "int \<Rightarrow> (string \<Rightarrow> bool) \<Rightarrow> exec_mode \<Rightarrow> agent_registry \<Rightarrow> string \<Rightarrow> bool" where
  "eligible now avail mode r i \<longleftrightarrow>
     i \<in> fst ` set (ar_backends r) \<and> avail i \<and> admits now r i \<and> config_allows mode i r"

lemma hd_sort_key_least:
  fixes f :: "'a \<Rightarrow> int"
  assumes "xs \<noteq> []"
  shows "hd (sort_key f xs) \<in> set xs \<and> (\<forall>x \<in> set xs. f (hd (sort_key f xs)) \<le> f x)"
proof -
  have ne: "sort_key f xs \<noteq> []" using assms by (metis set_empty set_sort)
  then obtain y ys where ys: "sort_key f xs = y # ys" by (cases "sort_key f xs") auto
  have "sorted (map f (sort_key f xs))" by simp
  then have "\<forall>x \<in> set (y # ys). f y \<le> f x" by (simp add: ys)
  moreover have "set (y # ys) = set xs" by (metis ys set_sort)
  ultimately show ?thesis by (metis ys list.sel(1) list.set_intros(1))
qed

lemma first_preferred_in: "first_preferred r prefs cs = Some b \<Longrightarrow> b \<in> set cs"
  by (induction prefs) (auto split: option.splits simp: find_Some_iff)

text \<open>
  Routing returns no backend exactly when none is eligible: registered, available, admitted by
  its breaker, enabled, and serving the mode. A backend it returns is eligible, a call made at the
  same time gets through its breaker, and without preferences no eligible backend has a smaller
  priority number.
\<close>

theorem resolve_for_mode_spec:
  assumes "ar_inv r"
  shows "let (res, r') = resolve_for_mode now avail mode prefs r
    in (res = None) = (\<forall>i. \<not> eligible now avail mode r i) \<and>
       (\<forall>b. res = Some b \<longrightarrow>
          eligible now avail mode r (be_id b) \<and>
          fst (ask_breaker (try_acquire now) (be_id b) r') \<and>
          (prefs = [] \<longrightarrow> (\<forall>i. eligible now avail mode r i \<longrightarrow> priority_of r (be_id b) \<le> priority_of r i)))"
proof -
  obtain cs r' where av: "available_for_mode now avail mode (ar_backends r) r = (cs, r')"
    by (cases "available_for_mode now avail mode (ar_backends r) r")
  have frame: "ar_configs r' = ar_configs r" "admits now r' j = admits now r j" for j
    using available_for_mode_snd[of now avail mode "ar_backends r" r] by (simp_all add: av)
  have prio: "priority_of r' j = priority_of r j" for j by (simp add: priority_of_def frame)
  have cs: "cs = map snd (filter (\<lambda>(i, b). avail i \<and> admits now r i \<and> config_allows mode i r) (ar_backends r))"
    using available_for_mode_eq[of now avail mode "ar_backends r" r] by (simp add: av)
  have ids: "\<forall>(i, b) \<in> set (ar_backends r). be_id b = i" using assms by (simp add: ar_inv_def)
  have "map be_id cs =
      map fst (filter (\<lambda>(i, b). avail i \<and> admits now r i \<and> config_allows mode i r) (ar_backends r))"
    unfolding cs map_map using ids by (intro map_cong) auto
  then have "be_id ` set cs = fst ` set (filter (\<lambda>(i, b). avail i \<and> admits now r i \<and>
      config_allows mode i r) (ar_backends r))" by (metis list.set_map)
  also have "\<dots> = fst ` {e \<in> set (ar_backends r).
      avail (fst e) \<and> admits now r (fst e) \<and> config_allows mode (fst e) r}"
    by (simp add: case_prod_beta)
  also have "\<dots> = {i. eligible now avail mode r i}"
    unfolding eligible_def by blast
  finally have el: "be_id ` set cs = {i. eligible now avail mode r i}" .
  let ?best = "hd (sort_key (\<lambda>b. priority_of r' (be_id b)) cs)"
  let ?res = "if cs = [] then None else case first_preferred r' prefs cs of Some b \<Rightarrow> Some b | None \<Rightarrow> Some ?best"
  have run: "resolve_for_mode now avail mode prefs r = (?res, r')"
    by (simp add: resolve_for_mode_def av Let_def)
  have "(cs = []) = (\<forall>i. \<not> eligible now avail mode r i)"
    using el by (metis empty_Collect_eq image_is_empty set_empty)
  then have none: "(?res = None) = (\<forall>i. \<not> eligible now avail mode r i)"
    by (simp split: option.split)
  have some: "b \<in> set cs" if "?res = Some b" for b
    using that first_preferred_in[of r' prefs cs] hd_sort_key_least[of cs "\<lambda>b. priority_of r' (be_id b)"]
    by (auto split: if_splits option.splits)
  have best: "priority_of r (be_id b) \<le> priority_of r i"
    if "?res = Some b" "prefs = []" "eligible now avail mode r i" for b i
  proof -
    from that(3) el obtain c where c: "c \<in> set cs" "be_id c = i" by (metis imageE mem_Collect_eq)
    then have "cs \<noteq> []" by auto
    with that(1,2) have "b = ?best" by simp
    with hd_sort_key_least[OF \<open>cs \<noteq> []\<close>, of "\<lambda>b. priority_of r' (be_id b)"] c show ?thesis
      by (auto simp: prio)
  qed
  have "eligible now avail mode r (be_id b) \<and> fst (ask_breaker (try_acquire now) (be_id b) r')"
    if "?res = Some b" for b
    using some[OF that] el by (auto simp: ask_breaker_admits frame eligible_def)
  with none best show ?thesis unfolding run by simp
qed


definition sample_backends :: "backend list" where
  "sample_backends =
     [\<lparr>be_id = ''claude_sdk'', be_object = 0, be_capabilities = []\<rparr>,
      \<lparr>be_id = ''codex_cli'', be_object = 1, be_capabilities = []\<rparr>]"

definition sample_agents :: agent_registry where
  "sample_agents = ar_new sample_backends None True
     (hs_new \<lparr>hso_window_size = None, hso_latency_weight = None, hso_success_weight = None,
              hso_latency_target_ms = None, hso_max_age_ms = None\<rparr>)"

lemma ar_inv_sample: "ar_inv sample_agents"
  by (simp add: ar_inv_def sample_agents_def ar_new_def sample_backends_def)

theorem resolve_for_mode_spec_witness:
  "fst (resolve_for_mode 0 (\<lambda>i. i = ''codex_cli'') ModeTask [] sample_agents) \<noteq> None"
proof -
  have "eligible 0 (\<lambda>i. i = ''codex_cli'') ModeTask sample_agents ''codex_cli''"
    by (simp add: eligible_def sample_agents_def ar_new_def sample_backends_def admits_def
          config_allows_def default_breaker_def cb_new_def cb_op_defs)
  with resolve_for_mode_spec[OF ar_inv_sample, of 0 "\<lambda>i. i = ''codex_cli''" ModeTask "[]"]
  show ?thesis by (cases "resolve_for_mode 0 (\<lambda>i. i = ''codex_cli'') ModeTask [] sample_agents") auto
qed


section \<open>Running\<close>

lemma ar_frames [simp]:
  "ar_backends (ar_report i f r) = ar_backends r" "ar_backends (ar_score i ok k r) = ar_backends r"
  "ar_backends (persist_session s r) = ar_backends r"
  "ar_configs (ar_report i f r) = ar_configs r" "ar_configs (ar_score i ok k r) = ar_configs r"
  "ar_breakers (ar_score i ok k r) = ar_breakers r" "ar_breakers (persist_session s r) = ar_breakers r"
  by (simp_all add: ar_report_def ar_score_def persist_session_def split: option.split)

lemma ar_report_keys [simp]:
  "fst ` set (ar_breakers (ar_report i f r)) = fst ` set (ar_breakers r)"
proof (cases "jget (ar_breakers r) i")
  case (Some b)
  then have "i \<in> fst ` set (ar_breakers r)" by (force dest: jget_mem)
  with Some show ?thesis by (auto simp: ar_report_def keys_jset)
qed (simp add: ar_report_def)

lemma admits_report: "j \<noteq> i \<Longrightarrow> admits now (ar_report i f r) j = admits now r j"
  by (simp add: ar_report_def admits_def split: option.split)

lemma admits_score [simp]: "admits now (ar_score i ok k r) j = admits now r j"
  by (simp add: admits_def)

lemma admits_ask_other: "j \<noteq> i \<Longrightarrow> admits now (snd (ask_breaker f i r)) j = admits now r j"
  by (simp add: admits_def ask_breaker_other)

lemma first_acquired_frame:
  "ar_backends (snd (first_acquired now cs r)) = ar_backends r \<and>
   fst ` set (ar_breakers (snd (first_acquired now cs r))) = fst ` set (ar_breakers r)"
proof (induction now cs r rule: first_acquired.induct)
  case (2 now i b cs r)
  obtain ok r1 where ask: "ask_breaker (try_acquire now) i r = (ok, r1)"
    by (cases "ask_breaker (try_acquire now) i r")
  have r1: "r1 = snd (ask_breaker (try_acquire now) i r)" by (simp add: ask)
  have "ar_backends r1 = ar_backends r" "fst ` set (ar_breakers r1) = fst ` set (ar_breakers r)"
    unfolding r1 by simp_all
  with 2[OF ask[symmetric] refl] ask show ?case by (cases ok) auto
qed simp

lemma first_acquired_admits:
  assumes "distinct (map fst cs)" and "first_acquired now cs r = (Some b, r')"
  shows "\<exists>i. (i, b) \<in> set cs \<and> admits now r i"
  using assms
proof (induction cs arbitrary: r)
  case (Cons c cs)
  obtain i b' where c: "c = (i, b')" by (cases c)
  obtain ok r1 where ask: "ask_breaker (try_acquire now) i r = (ok, r1)"
    by (cases "ask_breaker (try_acquire now) i r")
  have ok: "ok = admits now r i" using ask_breaker_admits(2)[of now i r] by (simp add: ask)
  have r1: "r1 = snd (ask_breaker (try_acquire now) i r)" by (simp add: ask)
  show ?case
  proof (cases ok)
    case True
    with Cons.prems ask c ok show ?thesis by auto
  next
    case False
    with Cons.prems ask c have "first_acquired now cs r1 = (Some b, r')" by simp
    with Cons.IH Cons.prems(1) c obtain j where j: "(j, b) \<in> set cs" "admits now r1 j" by auto
    with Cons.prems(1) c have "j \<noteq> i" by force
    with j r1 have "admits now r j" by (simp add: admits_ask_other)
    with j show ?thesis by auto
  qed
qed simp

lemma fallback_candidates_props:
  assumes "jwf (ar_backends r)"
  shows "distinct (map fst (fallback_candidates avail failed r))"
    and "(i, b) \<in> set (fallback_candidates avail failed r) \<Longrightarrow>
      jget (ar_backends r) i = Some b \<and> i \<noteq> failed \<and> avail i"
proof -
  have "distinct (map fst (filter P (ar_backends r)))" for P
    using jwf_filter[OF assms, of P] by (simp only: jwf_def)
  then show "distinct (map fst (fallback_candidates avail failed r))"
    by (simp add: fallback_candidates_def distinct_map_sort_key)
  assume "(i, b) \<in> set (fallback_candidates avail failed r)"
  then have "(i, b) \<in> set (ar_backends r)" "i \<noteq> failed" "avail i"
    by (auto simp: fallback_candidates_def split: if_splits)
  with assms show "jget (ar_backends r) i = Some b \<and> i \<noteq> failed \<and> avail i"
    by (simp add: jget_iff)
qed

text \<open>What the search hands out: another available backend, with a slot or from the legacy map.\<close>

lemma find_fallback_props:
  assumes inv: "ar_inv r" and fb: "find_fallback now avail failed r = (Some b, r')"
  shows "be_id b \<in> fst ` set (ar_backends r) \<and> be_id b \<noteq> failed \<and> avail (be_id b) \<and>
    (admits now r (be_id b) \<or> legacy_fallback failed = Some (be_id b))"
proof -
  have wf: "jwf (ar_backends r)" and ids: "\<And>i b. jget (ar_backends r) i = Some b \<Longrightarrow> be_id b = i"
    using inv by (auto simp: ar_inv_def dest: jget_mem)
  obtain ob r1 where fa: "first_acquired now (fallback_candidates avail failed r) r = (ob, r1)"
    by (cases "first_acquired now (fallback_candidates avail failed r) r")
  show ?thesis
  proof (cases ob)
    case (Some b')
    with fb fa have b: "b' = b" by (simp add: find_fallback_def)
    from first_acquired_admits[OF fallback_candidates_props(1)[OF wf]] fa Some b
    obtain i where i: "(i, b) \<in> set (fallback_candidates avail failed r)" "admits now r i" by blast
    from fallback_candidates_props(2)[OF wf i(1)] ids[of i b] i(2) show ?thesis
      by (force dest: jget_mem)
  next
    case None
    have "ar_backends r1 = ar_backends r"
      using first_acquired_frame[of now "fallback_candidates avail failed r" r] fa by simp
    with None fb fa obtain l where l: "legacy_fallback failed = Some l"
      "jget (ar_backends r) l = Some b" "avail l"
      by (auto simp: find_fallback_def split: option.splits if_splits)
    have "l \<noteq> failed" using l(1) by (auto simp: legacy_fallback_def split: if_splits)
    with l ids[OF l(2)] show ?thesis by (force dest: jget_mem)
  qed
qed

lemma find_fallback_frame:
  "ar_backends (snd (find_fallback now avail failed r)) = ar_backends r \<and>
   fst ` set (ar_breakers (snd (find_fallback now avail failed r))) = fst ` set (ar_breakers r)"
proof -
  obtain ob r1 where "first_acquired now (fallback_candidates avail failed r) r = (ob, r1)"
    by (cases "first_acquired now (fallback_candidates avail failed r) r")
  with first_acquired_frame[of now "fallback_candidates avail failed r" r] show ?thesis
    by (cases ob) (simp_all add: find_fallback_def split: option.split)
qed

lemma try_fallback_frame:
  assumes "try_fallback now avail k i reason r = (res, calls, r')"
  shows "ar_backends r' = ar_backends r" "fst ` set (ar_breakers r') = fst ` set (ar_breakers r)"
proof -
  obtain ob r1 where f: "find_fallback now avail i r = (ob, r1)" by (cases "find_fallback now avail i r")
  have r': "r' = snd (snd (try_fallback now avail k i reason r))" using assms by simp
  have "ar_backends r' = ar_backends r1 \<and> fst ` set (ar_breakers r') = fst ` set (ar_breakers r1)"
    unfolding r' using f by (cases ob; cases "kc_outcome k") (simp_all add: try_fallback_def Let_def)
  with f find_fallback_frame[of now avail i r]
  show "ar_backends r' = ar_backends r" "fst ` set (ar_breakers r') = fst ` set (ar_breakers r)"
    by simp_all
qed

definition guarded_fallback :: "int \<Rightarrow> (string \<Rightarrow> bool) \<Rightarrow> string \<Rightarrow> agent_registry \<Rightarrow> string \<Rightarrow> bool" where
  "guarded_fallback now avail i r j \<longleftrightarrow>
     j \<in> fst ` set (ar_backends r) \<and> j \<noteq> i \<and> avail j \<and>
     (admits now r j \<or> legacy_fallback i = Some j)"

lemma try_fallback_calls:
  assumes "ar_inv r" and "try_fallback now avail k i reason r = (res, calls, r')"
  shows "calls = [] \<and> res = Inl reason \<or>
    (\<exists>j. calls = [j] \<and> guarded_fallback now avail i r j \<and> (\<forall>j' e. res = Inr (j', e) \<longrightarrow> j' = j))"
proof -
  obtain ob r1 where f: "find_fallback now avail i r = (ob, r1)" by (cases "find_fallback now avail i r")
  show ?thesis
  proof (cases ob)
    case None
    with assms(2) f show ?thesis by (simp add: try_fallback_def)
  next
    case (Some b)
    with f find_fallback_props[OF assms(1), of now avail i b r1]
    have "guarded_fallback now avail i r (be_id b)" by (simp add: guarded_fallback_def)
    with assms(2) f Some show ?thesis by (cases "kc_outcome k") (auto simp: try_fallback_def Let_def)
  qed
qed


lemma ar_inv_frame:
  "ar_inv r \<Longrightarrow> ar_backends r' = ar_backends r \<Longrightarrow>
   fst ` set (ar_breakers r') = fst ` set (ar_breakers r) \<Longrightarrow> ar_inv r'"
  by (simp add: ar_inv_def)

text \<open>The four ways through \<open>run\<close>: unknown backend, no attempt, an answer, or a failed attempt.\<close>

lemma ar_run_cases:
  assumes "ar_run now avail k fb_now fb_avail fb i r = (res, calls, r')"
  shows "calls = [] \<and> r' = r \<and> res = Inl (''agent_backend_not_found:'' @ i) \<or>
    (\<exists>r1 e. r1 \<in> {r, snd (ask_breaker (try_acquire now) i r)} \<and>
       try_fallback fb_now fb_avail fb i e r1 = (res, calls, r')) \<or>
    (i \<in> fst ` set (ar_backends r) \<and> avail i \<and> admits now r i \<and>
     ((\<exists>is_error f s. res = Inr (i, is_error) \<and> calls = [i] \<and>
         r' = persist_session s (ar_score i (\<not> is_error) k (ar_report i f (snd (ask_breaker (try_acquire now) i r))))) \<or>
      (\<exists>f e cs. calls = i # cs \<and>
         try_fallback fb_now fb_avail fb i e
           (ar_report i f (ar_score i False k (snd (ask_breaker (try_acquire now) i r)))) = (res, cs, r'))))"
proof (cases "jget (ar_backends r) i")
  case None
  with assms show ?thesis by (simp add: ar_run_def)
next
  case (Some b)
  then have i: "i \<in> fst ` set (ar_backends r)" by (force dest: jget_mem)
  obtain ok r1 where ask: "ask_breaker (try_acquire now) i r = (ok, r1)"
    by (cases "ask_breaker (try_acquire now) i r")
  have ok: "ok = admits now r i" using ask_breaker_admits(2)[of now i r] by (simp add: ask)
  consider "\<not> avail i" | "avail i" "\<not> ok" | "avail i" "ok" by blast
  then show ?thesis
  proof cases
    case 1
    with assms Some show ?thesis by (auto simp: ar_run_def)
  next
    case 2
    with assms Some ask show ?thesis by (auto simp: ar_run_def)
  next
    case 3
    have r1: "r1 = snd (ask_breaker (try_acquire now) i r)" by (simp add: ask)
    show ?thesis
    proof (cases "kc_outcome k")
      case (BReply is_error session)
      let ?f = "if is_error then record_failure (kc_report_at k) else record_success"
      have "ar_run now avail k fb_now fb_avail fb i r =
          (Inr (i, is_error), [i], persist_session session (ar_score i (\<not> is_error) k (ar_report i ?f r1)))"
        using Some ask 3 BReply by (simp add: ar_run_def)
      then have "\<exists>is_error f s. res = Inr (i, is_error) \<and> calls = [i] \<and>
         r' = persist_session s (ar_score i (\<not> is_error) k (ar_report i f (snd (ask_breaker (try_acquire now) i r))))"
        unfolding assms r1[symmetric] by (intro exI[of _ is_error] exI[of _ ?f] exI[of _ session]) simp
      with 3 i ok show ?thesis by (intro disjI2 conjI disjI1) simp_all
    next
      case (BThrow msg)
      obtain res' cs r2 where tf: "try_fallback fb_now fb_avail fb i msg
          (ar_report i (record_failure (kc_report_at k)) (ar_score i False k r1)) = (res', cs, r2)"
        by (cases "try_fallback fb_now fb_avail fb i msg
          (ar_report i (record_failure (kc_report_at k)) (ar_score i False k r1))") auto
      then have "ar_run now avail k fb_now fb_avail fb i r = (res', i # cs, r2)"
        using Some ask 3 BThrow by (simp add: ar_run_def)
      with assms have eq: "res' = res" "calls = i # cs" "r2 = r'" by simp_all
      show ?thesis
        by (rule disjI2, rule disjI2, intro conjI disjI2)
           (use i 3 ok in simp_all, use tf eq r1 in blast)
    next
      case (BFailover reason msg)
      obtain res' cs r2 where tf: "try_fallback fb_now fb_avail fb i msg
          (ar_report i (failover_circuit reason (kc_report_at k)) (ar_score i False k r1)) = (res', cs, r2)"
        by (cases "try_fallback fb_now fb_avail fb i msg
          (ar_report i (failover_circuit reason (kc_report_at k)) (ar_score i False k r1))") auto
      then have "ar_run now avail k fb_now fb_avail fb i r = (res', i # cs, r2)"
        using Some ask 3 BFailover by (simp add: ar_run_def)
      with assms have eq: "res' = res" "calls = i # cs" "r2 = r'" by simp_all
      show ?thesis
        by (rule disjI2, rule disjI2, intro conjI disjI2)
           (use i 3 ok in simp_all, use tf eq r1 in blast)
    qed
  qed
qed

lemma guarded_fallback_frame:
  assumes "ar_backends r1 = ar_backends r" "\<And>j. j \<noteq> i \<Longrightarrow> admits now r1 j = admits now r j"
  shows "guarded_fallback now avail i r1 j = guarded_fallback now avail i r j"
  using assms by (auto simp: guarded_fallback_def)

text \<open>
  \<open>run\<close> calls at most two backends, the requested one and one fallback, which differ. The
  requested one is called only if it is available and its breaker hands out a slot. The fallback
  is registered, available, and its breaker hands out a slot too, unless it is the entry of the
  legacy map. The reply that is returned is the one of the last backend called, and a run that
  calls nothing fails.
\<close>

theorem ar_run_guarded:
  assumes inv: "ar_inv r" and run: "ar_run now avail k fb_now fb_avail fb i r = (res, calls, r')"
  shows "(calls \<in> {[], [i]} \<and> (calls = [i] \<longrightarrow> avail i \<and> admits now r i) \<or>
    (\<exists>j. guarded_fallback fb_now fb_avail i r j \<and>
       (calls = [j] \<or> calls = [i, j] \<and> avail i \<and> admits now r i))) \<and>
    (\<forall>j e. res = Inr (j, e) \<longrightarrow> calls \<noteq> [] \<and> last calls = j)"
proof -
  have fb: "(cs = [] \<and> res = Inl reason) \<or>
      (\<exists>j. cs = [j] \<and> guarded_fallback fb_now fb_avail i r j \<and> (\<forall>j' e. res = Inr (j', e) \<longrightarrow> j' = j))"
    if "try_fallback fb_now fb_avail fb i reason r1 = (res, cs, r')"
      "ar_backends r1 = ar_backends r" "fst ` set (ar_breakers r1) = fst ` set (ar_breakers r)"
      "\<And>j. j \<noteq> i \<Longrightarrow> admits fb_now r1 j = admits fb_now r j" for r1 cs reason
  proof -
    have "ar_inv r1" by (rule ar_inv_frame[OF inv that(2,3)])
    from try_fallback_calls[OF this that(1)] guarded_fallback_frame[OF that(2,4)] show ?thesis by simp
  qed
  let ?r1 = "snd (ask_breaker (try_acquire now) i r)"
  have ask: "admits fb_now ?r1 j = admits fb_now r j" if "j \<noteq> i" for j
    using that by (rule admits_ask_other)
  show ?thesis
    using ar_run_cases[OF run]
  proof (elim disjE conjE exE)
    fix r1 e
    assume "r1 \<in> {r, ?r1}" and t: "try_fallback fb_now fb_avail fb i e r1 = (res, calls, r')"
    then consider "r1 = r" | "r1 = ?r1" by blast
    then have "ar_backends r1 = ar_backends r" "fst ` set (ar_breakers r1) = fst ` set (ar_breakers r)"
      "\<And>j. j \<noteq> i \<Longrightarrow> admits fb_now r1 j = admits fb_now r j"
      by (cases; simp add: ask)+
    from fb[OF t this] show ?thesis by auto
  next
    fix f e cs
    assume calls: "calls = i # cs" and own: "avail i" "admits now r i"
      and t: "try_fallback fb_now fb_avail fb i e (ar_report i f (ar_score i False k ?r1)) = (res, cs, r')"
    have "admits fb_now (ar_report i f (ar_score i False k ?r1)) j = admits fb_now r j" if "j \<noteq> i" for j
      using that ask by (simp add: admits_report)
    from fb[OF t _ _ this] calls own show ?thesis by auto
  qed auto
qed

definition sample_call :: "backend_outcome \<Rightarrow> backend_call" where
  "sample_call outcome = \<lparr>kc_start = 0, kc_outcome = outcome, kc_report_at = 5, kc_end = 5\<rparr>"

theorem ar_run_guarded_witness:
  "fst (snd (ar_run 0 (\<lambda>_. True) (sample_call (BFailover FAuth ''401'')) 6 (\<lambda>_. True)
      (sample_call (BReply False None)) ''claude_sdk'' sample_agents)) = [''claude_sdk'']"
proof -
  obtain res calls r' where run: "ar_run 0 (\<lambda>_. True) (sample_call (BFailover FAuth ''401'')) 6 (\<lambda>_. True)
      (sample_call (BReply False None)) ''claude_sdk'' sample_agents = (res, calls, r')"
    by (cases "ar_run 0 (\<lambda>_. True) (sample_call (BFailover FAuth ''401'')) 6 (\<lambda>_. True)
      (sample_call (BReply False None)) ''claude_sdk'' sample_agents") auto
  have "legacy_fallback ''claude_sdk'' = Some ''claude_cli''" by (simp add: legacy_fallback_def)
  have "calls \<noteq> []"
    using run by (auto simp: ar_run_def sample_agents_def ar_new_def sample_backends_def sample_call_def
        ask_breaker_def default_breaker_def cb_new_def cb_op_defs case_prod_beta Let_def split: prod.splits)
  moreover have "hd calls = ''claude_sdk''"
    using run by (auto simp: ar_run_def sample_agents_def ar_new_def sample_backends_def sample_call_def
        ask_breaker_def default_breaker_def cb_new_def cb_op_defs case_prod_beta Let_def split: prod.splits)
  moreover have "length calls = 1"
    using run by (auto simp: ar_run_def sample_agents_def ar_new_def sample_backends_def sample_call_def
        try_fallback_def find_fallback_def fallback_candidates_def legacy_fallback_def ar_report_def ar_score_def
        ask_breaker_def default_breaker_def cb_new_def cb_op_defs case_prod_beta Let_def split: prod.splits)
  ultimately show ?thesis
    using ar_run_guarded[OF ar_inv_sample run] run by (cases calls) auto
qed


section \<open>The invariant along a run\<close>

datatype ar_op =
    ArRegister backend "provider_config option"
  | ArUnregister string
  | ArResolve int "string \<Rightarrow> bool" exec_mode "string list"
  | ArStatus int "string \<Rightarrow> bool"
  | ArRun int "string \<Rightarrow> bool" backend_call int "string \<Rightarrow> bool" backend_call string

fun ar_step :: "ar_op \<Rightarrow> agent_registry \<Rightarrow> agent_registry" where
  "ar_step (ArRegister b c) r = ar_register b c r"
| "ar_step (ArUnregister i) r = snd (ar_unregister i r)"
| "ar_step (ArResolve now avail mode prefs) r = snd (resolve_for_mode now avail mode prefs r)"
| "ar_step (ArStatus now avail) r = snd (list_backend_status now avail r)"
| "ar_step (ArRun now avail k fb_now fb_avail fb i) r = snd (snd (ar_run now avail k fb_now fb_avail fb i r))"

lemma collect_status_frame:
  "ar_backends (snd (collect_status now avail bs r)) = ar_backends r \<and>
   fst ` set (ar_breakers (snd (collect_status now avail bs r))) = fst ` set (ar_breakers r)"
proof (induction now avail bs r rule: collect_status.induct)
  case (2 now avail i b bs r)
  then show ?case by (simp add: Let_def case_prod_beta)
qed simp

lemma ar_run_frame:
  "ar_backends (snd (snd (ar_run now avail k fb_now fb_avail fb i r))) = ar_backends r \<and>
   fst ` set (ar_breakers (snd (snd (ar_run now avail k fb_now fb_avail fb i r)))) = fst ` set (ar_breakers r)"
proof -
  obtain res calls r' where run: "ar_run now avail k fb_now fb_avail fb i r = (res, calls, r')"
    by (cases "ar_run now avail k fb_now fb_avail fb i r") auto
  from ar_run_cases[OF run] have "ar_backends r' = ar_backends r \<and>
      fst ` set (ar_breakers r') = fst ` set (ar_breakers r)"
  proof (elim disjE conjE exE)
    fix r1 e
    assume "r1 \<in> {r, snd (ask_breaker (try_acquire now) i r)}"
      and t: "try_fallback fb_now fb_avail fb i e r1 = (res, calls, r')"
    then consider "r1 = r" | "r1 = snd (ask_breaker (try_acquire now) i r)" by blast
    then show ?thesis by (cases; simp add: try_fallback_frame[OF t])
  next
    fix f e cs
    assume "try_fallback fb_now fb_avail fb i e
        (ar_report i f (ar_score i False k (snd (ask_breaker (try_acquire now) i r)))) = (res, cs, r')"
    from try_fallback_frame[OF this] show ?thesis by simp
  qed simp_all
  with run show ?thesis by simp
qed

lemma ar_inv_register: "ar_inv r \<Longrightarrow> ar_inv (ar_register b c r)"
proof -
  assume inv: "ar_inv r"
  have "be_id b \<in> fst ` set (ar_breakers r)" if "jhas (ar_breakers r) (be_id b)"
    using that by (force simp: jhas_def dest: jget_mem)
  then have "fst ` set (ar_breakers (ar_register b c r)) = fst ` set (ar_backends (ar_register b c r))"
    using inv by (simp add: ar_inv_def ar_register_def keys_jset insert_absorb)
  moreover have "\<forall>(i, b) \<in> set (ar_backends (ar_register b c r)). be_id b = i"
    using inv set_jset_subset[of "be_id b" b "ar_backends r"]
    by (auto simp: ar_inv_def ar_register_def)
  ultimately show ?thesis using inv by (simp add: ar_inv_def ar_register_def)
qed

lemma ar_inv_unregister: "ar_inv r \<Longrightarrow> ar_inv (snd (ar_unregister i r))"
  using set_jdel_subset[of i "ar_backends r"]
  by (auto simp: ar_inv_def ar_unregister_def keys_jdel split: option.split)

interpretation ar: machine ar_step ar_inv
proof
  fix r e
  assume inv: "ar_inv r"
  show "ar_inv (ar_step e r)"
  proof (cases e)
    case (ArResolve now avail mode prefs)
    have "snd (resolve_for_mode now avail mode prefs r) = snd (available_for_mode now avail mode (ar_backends r) r)"
      by (simp add: resolve_for_mode_def case_prod_beta)
    with ArResolve available_for_mode_snd[of now avail mode "ar_backends r" r] show ?thesis
      by (simp add: ar_inv_frame[OF inv])
  next
    case (ArStatus now avail)
    have "snd (list_backend_status now avail r) = snd (collect_status now avail (ar_backends r) r)"
      by (simp add: list_backend_status_def case_prod_beta)
    with ArStatus collect_status_frame[of now avail "ar_backends r" r] show ?thesis
      by (simp add: ar_inv_frame[OF inv])
  next
    case (ArRun now avail k fb_now fb_avail fb i)
    with ar_run_frame show ?thesis by (simp add: ar_inv_frame[OF inv])
  qed (use inv in \<open>simp_all add: ar_inv_register ar_inv_unregister\<close>)
qed


section \<open>Failover\<close>

lemma record_failure_open: "cb_state b = Open \<Longrightarrow> cb_state (record_failure now b) = Open"
  by (simp add: record_failure_def Let_def)

lemma failures_count:
  "cb_state b = Closed \<Longrightarrow> 0 \<le> cb_failure_count b \<Longrightarrow> cb_failure_threshold b \<le> int n \<Longrightarrow> 0 < n \<Longrightarrow>
   cb_state ((record_failure now ^^ n) b) = Open"
proof -
  assume "cb_state b = Closed" "0 \<le> cb_failure_count b" "cb_failure_threshold b \<le> int n" "0 < n"
  moreover have "cb_state b = Closed \<longrightarrow> (cb_state ((record_failure now ^^ m) b) = Open \<or>
      cb_state ((record_failure now ^^ m) b) = Closed \<and>
      cb_failure_count ((record_failure now ^^ m) b) = cb_failure_count b + int m \<and>
      cb_failure_threshold ((record_failure now ^^ m) b) = cb_failure_threshold b \<and>
      (0 < m \<longrightarrow> cb_failure_count b + int m < cb_failure_threshold b))" for m
    by (induction m) (auto simp: record_failure_def Let_def)
  from this[of n] show ?thesis using calculation by auto
qed

text \<open>
  An authentication or quota failover blocks the backend at once: with the default breaker of
  the registry every call in the next 30 seconds is refused, whatever the breaker had counted
  before. It is not blocked until somebody intervenes: after that time the breaker hands out a
  slot again by itself.
\<close>

theorem auth_failover_blocks_thirty_seconds:
  assumes "cb_inv b" and "cb_failure_threshold b = 5" "cb_reset_timeout_ms b = 30000" "cb_half_open_max b = 1"
    and "reason \<in> {FAuth, FQuota}"
  shows "fst (try_acquire later (failover_circuit reason now b)) = (now + 30000 \<le> later)"
proof -
  let ?b = "(record_failure now ^^ 5) b"
  have open5: "cb_state ?b = Open"
  proof (cases "cb_state b = Closed")
    case True
    then show ?thesis
      using failures_count[of b 5 now] assms(1,2) by (simp add: cb_inv_def)
  next
    case False
    then have "cb_state (record_failure now b) = Open"
      by (cases "cb_state b") (auto simp: record_failure_def Let_def)
    then have "cb_state ((record_failure now ^^ m) (record_failure now b)) = Open" for m
      by (induction m) (auto simp: record_failure_open)
    from this[of 4] show ?thesis by (simp add: eval_nat_numeral funpow_swap1)
  qed
  have "cb_reset_timeout_ms ((record_failure now ^^ m) b) = cb_reset_timeout_ms b \<and>
    cb_half_open_max ((record_failure now ^^ m) b) = cb_half_open_max b \<and>
    (0 < m \<longrightarrow> cb_last_failure_at ((record_failure now ^^ m) b) = now)" for m
    by (induction m) (auto simp: record_failure_def Let_def)
  from this[of 5] open5 assms show ?thesis
    by (auto simp: failover_circuit_def cb_op_defs)
qed

theorem auth_failover_blocks_thirty_seconds_witness:
  "fst (try_acquire 31000 (failover_circuit FQuota 1000 default_breaker))"
  by (subst auth_failover_blocks_thirty_seconds)
     (simp_all add: default_breaker_def cb_inv_new, simp_all add: cb_new_def)

text \<open>
  Two gaps of the fallback search. It does not look at \<open>enabled\<close>, so a backend that was disabled
  still serves as a fallback; and the legacy pair is used although its breaker is open.
\<close>

lemma fallback_uses_disabled_backend:
  "let r = ar_register \<lparr>be_id = ''x'', be_object = 2, be_capabilities = []\<rparr>
             (Some \<lparr>pc_provider_type = ''x'', pc_enabled = False, pc_priority = 1, pc_supported_modes = []\<rparr>)
             sample_agents
   in \<not> config_allows ModeOnce ''x'' r \<and>
      map_option be_id (fst (find_fallback 0 (\<lambda>_. True) ''codex_cli'' r)) = Some ''x''"
  by (simp add: ar_register_def sample_agents_def ar_new_def sample_backends_def find_fallback_def
        fallback_candidates_def config_allows_def priority_of_def jhas_def ask_breaker_def Let_def
        default_breaker_def cb_new_def cb_op_defs insort_key_left_comm)

lemma legacy_fallback_bypasses_breaker:
  assumes "ar_configs r = []" "jget (ar_backends r) ''codex_cli'' = Some b" "avail ''codex_cli''"
  shows "fst (find_fallback now avail ''codex_appserver'' r) = Some b"
  using assms by (simp add: find_fallback_def fallback_candidates_def legacy_fallback_def)

end
