(* ===== verification/TtlMap.thy ===== *)
theory TtlMap
  imports Prelude
begin

text \<open>
  \<open>prune_ttl_map\<close> of \<open>src/src/utils/common.ts\<close>: expiry and size trimming of an insertion-ordered
  map, used by the stores that remember recent things (sent messages, decided reactions).

  \<open>ts\<close> reads the time stamp of an entry and \<open>max_size = None\<close> stands for \<open>Infinity\<close>. The locale
  \<open>expiring_store\<close> collects what a client of such a store needs: what is remembered was put there,
  is fresh at the moment of pruning, and a size limit is respected.
\<close>

definition fresh_entry :: "int \<Rightarrow> ('v \<Rightarrow> int) \<Rightarrow> int \<Rightarrow> 'k \<times> 'v \<Rightarrow> bool" where
  "fresh_entry now ts ttl e \<longleftrightarrow> now - ts (snd e) \<le> ttl"

definition prune_ttl_map ::
  "int \<Rightarrow> ('v \<Rightarrow> int) \<Rightarrow> int \<Rightarrow> nat option \<Rightarrow> ('k, 'v) jmap \<Rightarrow> ('k, 'v) jmap" where
  "prune_ttl_map now ts ttl max_size m =
     (if m = [] then m
      else let m = filter (fresh_entry now ts ttl) m
           in case max_size of
                None \<Rightarrow> m
              | Some n \<Rightarrow> if length m \<le> n then m else drop (length m - n) m)"

lemma prune_ttl_subset: "set (prune_ttl_map now ts ttl n m) \<subseteq> set m"
  by (auto simp: prune_ttl_map_def Let_def split: option.splits if_splits dest: in_set_dropD)

lemma prune_ttl_fresh:
  "e \<in> set (prune_ttl_map now ts ttl n m) \<Longrightarrow> fresh_entry now ts ttl e"
  by (auto simp: prune_ttl_map_def Let_def split: option.splits if_splits dest: in_set_dropD)

lemma prune_ttl_size: "length (prune_ttl_map now ts ttl (Some n) m) \<le> n"
  by (auto simp: prune_ttl_map_def Let_def)

lemma jwf_drop: "jwf m \<Longrightarrow> jwf (drop n m)"
  by (simp add: jwf_def drop_map[symmetric] distinct_drop)

lemma prune_ttl_wf [simp]: "jwf m \<Longrightarrow> jwf (prune_ttl_map now ts ttl n m)"
  by (simp add: prune_ttl_map_def Let_def jwf_drop split: option.split)

text \<open>Without a size limit, or below it, pruning keeps exactly the fresh entries.\<close>

lemma prune_ttl_get:
  assumes "jwf m"
  shows "jget (prune_ttl_map now ts ttl None m) k =
    (case jget m k of None \<Rightarrow> None | Some v \<Rightarrow> if now - ts v \<le> ttl then Some v else None)"
  using assms by (auto simp: prune_ttl_map_def Let_def jget_filter fresh_entry_def split: option.split)

text \<open>Trimming removes a prefix: what stays is the most recently inserted part of the fresh entries.\<close>

lemma prune_ttl_suffix:
  "\<exists>old. filter (fresh_entry now ts ttl) m = old @ prune_ttl_map now ts ttl n m"
proof -
  have "m = [] \<or> (\<exists>k. prune_ttl_map now ts ttl n m = drop k (filter (fresh_entry now ts ttl) m))"
    by (auto simp: prune_ttl_map_def Let_def split: option.split intro: exI[of _ 0])
  then show ?thesis
    by (metis append_Nil append_take_drop_id filter.simps(1) prune_ttl_map_def)
qed

locale expiring_store =
  fixes get :: "'m \<Rightarrow> 'k \<Rightarrow> 'v option"
    and put :: "'k \<Rightarrow> 'v \<Rightarrow> 'm \<Rightarrow> 'm"
    and prune :: "int \<Rightarrow> 'm \<Rightarrow> 'm"
    and stamp :: "'v \<Rightarrow> int"
    and ttl :: int
    and ok :: "'m \<Rightarrow> bool"
  assumes put_get: "ok m \<Longrightarrow> get (put k v m) = (get m)(k \<mapsto> v)"
    and put_ok: "ok m \<Longrightarrow> ok (put k v m)"
    and prune_ok: "ok m \<Longrightarrow> ok (prune now m)"
    and prune_get: "ok m \<Longrightarrow> get (prune now m) k =
      (case get m k of None \<Rightarrow> None | Some v \<Rightarrow> if now - stamp v \<le> ttl then Some v else None)"
begin

text \<open>An entry written at \<open>t\<close> is seen by a pruning lookup until \<open>t + ttl\<close>, and not after.\<close>

lemma seen_until:
  "ok m \<Longrightarrow> stamp v = t \<Longrightarrow> get (prune now (put k v m)) k = (if now \<le> t + ttl then Some v else None)"
  by (simp add: prune_get put_get put_ok algebra_simps)

lemma prune_twice:
  "ok m \<Longrightarrow> now \<le> now' \<Longrightarrow> get (prune now' (prune now m)) = get (prune now' m)"
  by (auto simp: prune_get prune_ok fun_eq_iff split: option.split)

end

interpretation ttl: expiring_store jget jset "\<lambda>now. prune_ttl_map now ts ttl None" ts ttl jwf for ts ttl
  by unfold_locales (simp_all add: prune_ttl_get)

end
