(* ===== verification/ThreadOwnership.thy ===== *)
theory ThreadOwnership
  imports CircuitBreaker TtlMap
begin

text \<open>
  \<open>src/src/channels/thread-ownership.ts\<close>: which agent may answer in a thread.

  Every operation takes the clock reading it makes. The garbage-collection timer is the operation
  \<open>OwnGc\<close>, which may happen at any time. A claim object handed out by \<open>claim\<close> is only read by its
  callers, so it is a value here.
\<close>

record thread_claim =
  tc_agent :: string
  tc_provider :: string
  tc_chat :: string
  tc_thread :: string
  tc_claimed_at :: int
  tc_last_active_at :: int

record thread_ownership =
  to_claims :: "(string, thread_claim) jmap"
  to_ttl :: int
  to_max_entries :: nat

datatype claim_result = ClaimOk thread_claim | ClaimConflict string thread_claim

definition thread_ownership_new :: "int option \<Rightarrow> nat option \<Rightarrow> thread_ownership" where
  "thread_ownership_new ttl_ms max_entries =
     \<lparr>to_claims = [], to_ttl = or_default 300000 ttl_ms, to_max_entries = or_default 5000 max_entries\<rparr>"

definition thread_key :: "string \<Rightarrow> string \<Rightarrow> string \<Rightarrow> string" where
  "thread_key provider chat thread = provider @ ''::'' @ chat @ ''::'' @ thread"

definition expired_claim :: "int \<Rightarrow> thread_ownership \<Rightarrow> thread_claim \<Rightarrow> bool" where
  "expired_claim now t c \<longleftrightarrow> to_ttl t < now - tc_last_active_at c"

text \<open>The first entry with the least \<open>last_active_at\<close>.\<close>

fun oldest_key :: "(string, thread_claim) jmap \<Rightarrow> string \<Rightarrow> int option \<Rightarrow> string" where
  "oldest_key [] k t = k"
| "oldest_key ((k', c) # m) k t =
     (case t of
        None \<Rightarrow> oldest_key m k' (Some (tc_last_active_at c))
      | Some t0 \<Rightarrow> if tc_last_active_at c < t0 then oldest_key m k' (Some (tc_last_active_at c))
                  else oldest_key m k t)"

definition evict_if_full :: "thread_ownership \<Rightarrow> thread_ownership" where
  "evict_if_full t =
     (if length (to_claims t) < to_max_entries t then t
      else let k = oldest_key (to_claims t) [] None
           in if k = [] then t else t\<lparr>to_claims := jdel k (to_claims t)\<rparr>)"

definition new_claim ::
  "int \<Rightarrow> string \<Rightarrow> string \<Rightarrow> string \<Rightarrow> string \<Rightarrow> thread_ownership \<Rightarrow> claim_result \<times> thread_ownership" where
  "new_claim now provider chat thread agent t =
     (let t = evict_if_full t;
          c = \<lparr>tc_agent = agent, tc_provider = provider, tc_chat = chat, tc_thread = thread,
               tc_claimed_at = now, tc_last_active_at = now\<rparr>
      in (ClaimOk c, t\<lparr>to_claims := jset (thread_key provider chat thread) c (to_claims t)\<rparr>))"

definition own_claim ::
  "int \<Rightarrow> string \<Rightarrow> string \<Rightarrow> string \<Rightarrow> string \<Rightarrow> thread_ownership \<Rightarrow> claim_result \<times> thread_ownership" where
  "own_claim now provider chat thread agent t =
     (let key = thread_key provider chat thread
      in case jget (to_claims t) key of
           None \<Rightarrow> new_claim now provider chat thread agent t
         | Some c \<Rightarrow>
             if expired_claim now t c
             then new_claim now provider chat thread agent (t\<lparr>to_claims := jdel key (to_claims t)\<rparr>)
             else if tc_agent c \<noteq> agent then (ClaimConflict (tc_agent c) c, t)
             else let c = c\<lparr>tc_last_active_at := now\<rparr>
                  in (ClaimOk c, t\<lparr>to_claims := jset key c (to_claims t)\<rparr>))"

definition own_release :: "string \<Rightarrow> string \<Rightarrow> string \<Rightarrow> thread_ownership \<Rightarrow> bool \<times> thread_ownership" where
  "own_release provider chat thread t =
     (let key = thread_key provider chat thread
      in (jhas (to_claims t) key, t\<lparr>to_claims := jdel key (to_claims t)\<rparr>))"

definition own_touch :: "int \<Rightarrow> string \<Rightarrow> string \<Rightarrow> string \<Rightarrow> thread_ownership \<Rightarrow> bool \<times> thread_ownership" where
  "own_touch now provider chat thread t =
     (let key = thread_key provider chat thread
      in case jget (to_claims t) key of
           None \<Rightarrow> (False, t)
         | Some c \<Rightarrow> (True, t\<lparr>to_claims := jset key (c\<lparr>tc_last_active_at := now\<rparr>) (to_claims t)\<rparr>))"

definition owner_of :: "int \<Rightarrow> string \<Rightarrow> string \<Rightarrow> string \<Rightarrow> thread_ownership \<Rightarrow> string option \<times> thread_ownership" where
  "owner_of now provider chat thread t =
     (let key = thread_key provider chat thread
      in case jget (to_claims t) key of
           None \<Rightarrow> (None, t)
         | Some c \<Rightarrow> if expired_claim now t c then (None, t\<lparr>to_claims := jdel key (to_claims t)\<rparr>)
                    else (Some (tc_agent c), t))"

definition is_owned_by ::
  "int \<Rightarrow> string \<Rightarrow> string \<Rightarrow> string \<Rightarrow> string \<Rightarrow> thread_ownership \<Rightarrow> bool \<times> thread_ownership" where
  "is_owned_by now provider chat thread agent t =
     (let (ow, t) = owner_of now provider chat thread t in (ow = Some agent, t))"

definition list_by_agent :: "int \<Rightarrow> string \<Rightarrow> thread_ownership \<Rightarrow> thread_claim list" where
  "list_by_agent now agent t =
     filter (\<lambda>c. tc_agent c = agent \<and> now - tc_last_active_at c \<le> to_ttl t) (jvals (to_claims t))"

definition own_gc :: "int \<Rightarrow> thread_ownership \<Rightarrow> nat \<times> thread_ownership" where
  "own_gc now t =
     (let keep = filter (\<lambda>(_, c). \<not> expired_claim now t c) (to_claims t)
      in (length (to_claims t) - length keep, t\<lparr>to_claims := keep\<rparr>))"

definition own_dispose :: "thread_ownership \<Rightarrow> thread_ownership" where
  "own_dispose t = t\<lparr>to_claims := []\<rparr>"

datatype own_op =
    OwnClaim int string string string string
  | OwnRelease string string string
  | OwnTouch int string string string
  | OwnQuery int string string string
  | OwnGc int
  | OwnDispose

fun own_step :: "own_op \<Rightarrow> thread_ownership \<Rightarrow> thread_ownership" where
  "own_step (OwnClaim now p c th a) t = snd (own_claim now p c th a t)"
| "own_step (OwnRelease p c th) t = snd (own_release p c th t)"
| "own_step (OwnTouch now p c th) t = snd (own_touch now p c th t)"
| "own_step (OwnQuery now p c th) t = snd (owner_of now p c th t)"
| "own_step (OwnGc now) t = snd (own_gc now t)"
| "own_step OwnDispose t = own_dispose t"


section \<open>The table stays bounded\<close>

definition own_inv :: "thread_ownership \<Rightarrow> bool" where
  "own_inv t \<longleftrightarrow>
     jwf (to_claims t) \<and> [] \<notin> fst ` set (to_claims t) \<and>
     length (to_claims t) \<le> max 1 (to_max_entries t)"

lemma oldest_key_in:
  "m \<noteq> [] \<or> t \<noteq> None \<Longrightarrow> oldest_key m k t \<in> fst ` set m \<or> t \<noteq> None \<and> oldest_key m k t = k"
  by (induction m k t rule: oldest_key.induct) (auto split: option.splits if_splits)

lemma thread_key_nonempty [simp]: "thread_key p c th \<noteq> []"
  by (simp add: thread_key_def)

lemma evict_makes_room:
  assumes "own_inv t"
  shows "own_inv (evict_if_full t)" and "length (to_claims (evict_if_full t)) < max 1 (to_max_entries t)"
    and "to_max_entries (evict_if_full t) = to_max_entries t" "to_ttl (evict_if_full t) = to_ttl t"
proof -
  show "to_max_entries (evict_if_full t) = to_max_entries t" "to_ttl (evict_if_full t) = to_ttl t"
    by (simp_all add: evict_if_full_def Let_def)
  show "own_inv (evict_if_full t)"
    using assms length_jdel_le[of "oldest_key (to_claims t) [] None" "to_claims t"]
    by (auto simp: own_inv_def evict_if_full_def Let_def keys_jdel)
  show "length (to_claims (evict_if_full t)) < max 1 (to_max_entries t)"
  proof (cases "length (to_claims t) < to_max_entries t \<or> to_claims t = []")
    case True
    then show ?thesis by (auto simp: evict_if_full_def Let_def)
  next
    case False
    then have "oldest_key (to_claims t) [] None \<in> fst ` set (to_claims t)"
      using oldest_key_in[of "to_claims t" None "[]"] by simp
    moreover from this have "oldest_key (to_claims t) [] None \<noteq> []"
      using assms unfolding own_inv_def by metis
    ultimately show ?thesis
      using assms False length_jdel[of "to_claims t" "oldest_key (to_claims t) [] None"]
      by (auto simp: own_inv_def evict_if_full_def Let_def)
  qed
qed

lemma own_inv_jset_old:
  "own_inv t \<Longrightarrow> jget (to_claims t) k = Some c \<Longrightarrow> own_inv (t\<lparr>to_claims := jset k c' (to_claims t)\<rparr>)"
proof -
  assume inv: "own_inv t" and k: "jget (to_claims t) k = Some c"
  from k have "k \<in> fst ` set (to_claims t)" by (force dest: jget_mem)
  with inv show ?thesis by (simp add: own_inv_def length_jset keys_jset insert_absorb)
qed

lemma own_inv_jdel: "own_inv t \<Longrightarrow> own_inv (t\<lparr>to_claims := jdel k (to_claims t)\<rparr>)"
  using length_jdel_le[of k "to_claims t"] by (simp add: own_inv_def keys_jdel)

lemma own_inv_new: "own_inv t \<Longrightarrow> own_inv (snd (new_claim now p c th a t))"
  using evict_makes_room[of t] length_jset_le[of "thread_key p c th" _ "to_claims (evict_if_full t)"]
  by (simp add: new_claim_def Let_def own_inv_def keys_jset)
     (metis Suc_leI le_trans max.cobounded1 thread_key_nonempty length_jset_le)

interpretation own: machine own_step own_inv
proof
  fix t e
  assume inv: "own_inv t"
  show "own_inv (own_step e t)"
  proof (cases e)
    case (OwnClaim now p c th a)
    with inv show ?thesis
      by (simp add: own_claim_def Let_def own_inv_new own_inv_jdel own_inv_jset_old split: option.split)
  next
    case (OwnGc now)
    with inv le_trans[OF length_filter_le] show ?thesis
      by (auto simp: own_gc_def own_inv_def Let_def)
  qed (use inv in \<open>simp_all add: own_release_def own_touch_def owner_of_def own_dispose_def Let_def
        own_inv_jdel own_inv_jset_old split: option.split, simp add: own_inv_def\<close>)
qed


section \<open>Exclusive ownership\<close>

text \<open>
  Two agents never hold a thread at once: \<open>claim\<close> fails exactly when another agent's claim is
  in the table and not expired, and then changes nothing; when it succeeds, the claiming agent is
  the owner a lookup at that moment reports.
\<close>

theorem claim_exclusive:
  assumes "jwf (to_claims t)" "0 \<le> to_ttl t"
  shows "(case own_claim now p c th a t of
     (ClaimConflict owner cl, t') \<Rightarrow>
       t' = t \<and> owner \<noteq> a \<and> jget (to_claims t) (thread_key p c th) = Some cl \<and>
       tc_agent cl = owner \<and> fst (owner_of now p c th t) = Some owner
   | (ClaimOk cl, t') \<Rightarrow>
       fst (owner_of now p c th t') = Some a \<and> tc_agent cl = a \<and> tc_last_active_at cl = now \<and>
       (\<forall>b. fst (owner_of now p c th t) = Some b \<longrightarrow> b = a))"
proof (cases "jget (to_claims t) (thread_key p c th)")
  case None
  then show ?thesis
    using assms
    by (simp add: own_claim_def new_claim_def evict_if_full_def owner_of_def expired_claim_def Let_def)
next
  case (Some cl)
  consider "expired_claim now t cl" | "\<not> expired_claim now t cl" "tc_agent cl = a"
    | "\<not> expired_claim now t cl" "tc_agent cl \<noteq> a" by blast
  then show ?thesis
    using assms Some
    by cases (simp_all add: own_claim_def new_claim_def evict_if_full_def owner_of_def
        expired_claim_def Let_def)
qed

theorem claim_exclusive_witness:
  "fst (owner_of 20 ''slack'' ''c'' ''t'' (snd (own_claim 20 ''slack'' ''c'' ''t'' ''a''
      (thread_ownership_new None None)))) = Some ''a''"
  using claim_exclusive[of "thread_ownership_new None None" 20 "''slack''" "''c''" "''t''" "''a''"]
  by (simp add: thread_ownership_new_def own_claim_def new_claim_def evict_if_full_def Let_def)

text \<open>
  The operations that respect a hold on \<open>key\<close> from \<open>since\<close>: they happen within one time-to-live and
  do not release the thread or dispose of the table.
\<close>

definition own_window :: "int \<Rightarrow> int \<Rightarrow> int \<Rightarrow> bool" where
  "own_window since ttl now \<longleftrightarrow> since \<le> now \<and> now \<le> since + ttl"

fun own_keeps :: "string \<Rightarrow> int \<Rightarrow> int \<Rightarrow> own_op \<Rightarrow> bool" where
  "own_keeps key since ttl (OwnClaim now p c th a) = own_window since ttl now"
| "own_keeps key since ttl (OwnRelease p c th) = (thread_key p c th \<noteq> key)"
| "own_keeps key since ttl (OwnTouch now p c th) = own_window since ttl now"
| "own_keeps key since ttl (OwnQuery now p c th) = own_window since ttl now"
| "own_keeps key since ttl (OwnGc now) = own_window since ttl now"
| "own_keeps key since ttl OwnDispose = False"

definition own_held :: "string \<Rightarrow> string \<Rightarrow> int \<Rightarrow> nat \<Rightarrow> thread_ownership \<Rightarrow> bool" where
  "own_held key a since room t \<longleftrightarrow>
     jwf (to_claims t) \<and> length (to_claims t) + room \<le> to_max_entries t \<and>
     (\<exists>cl. jget (to_claims t) key = Some cl \<and> tc_agent cl = a \<and> since \<le> tc_last_active_at cl)"

lemma own_held_jset:
  assumes "own_held key a since (Suc room) t" and "k \<noteq> key \<or> tc_agent v = a \<and> since \<le> tc_last_active_at v"
  shows "own_held key a since room (t\<lparr>to_claims := jset k v (to_claims t)\<rparr>)"
  using assms length_jset_le[of k v "to_claims t"] by (auto simp: own_held_def)

lemma own_held_jdel:
  assumes "own_held key a since room t" and "k \<noteq> key"
  shows "own_held key a since room (t\<lparr>to_claims := jdel k (to_claims t)\<rparr>)"
  using assms length_jdel_le[of k "to_claims t"] by (auto simp: own_held_def)

lemma own_held_less: "own_held key a since (Suc room) t \<Longrightarrow> own_held key a since room t"
  by (auto simp: own_held_def)

lemma own_held_new:
  assumes "own_held key a since (Suc room) t" and "thread_key p c th \<noteq> key"
  shows "own_held key a since room (snd (new_claim now p c th b t))"
proof -
  have "evict_if_full t = t" using assms(1) by (simp add: own_held_def evict_if_full_def)
  then show ?thesis
    using assms(2) by (simp add: new_claim_def Let_def own_held_jset[OF assms(1)])
qed

lemma held_not_expired:
  assumes "own_held key a since room t" and "own_window since (to_ttl t) now"
  shows "\<exists>cl. jget (to_claims t) key = Some cl \<and> tc_agent cl = a \<and> \<not> expired_claim now t cl"
  using assms by (auto simp: own_held_def own_window_def expired_claim_def)

lemma own_held_claim:
  assumes held: "own_held key a since (Suc room) t" and w: "own_window since (to_ttl t) now"
  shows "own_held key a since room (snd (own_claim now p c th b t))"
proof (cases "thread_key p c th = key")
  case True
  from held_not_expired[OF held w] obtain cl where cl: "jget (to_claims t) key = Some cl"
    "tc_agent cl = a" "\<not> expired_claim now t cl" by blast
  from w have "since \<le> now" by (simp add: own_window_def)
  with cl own_held_jset[OF held, of key "cl\<lparr>tc_last_active_at := now\<rparr>"]
  have "own_held key a since room (t\<lparr>to_claims := jset key (cl\<lparr>tc_last_active_at := now\<rparr>) (to_claims t)\<rparr>)"
    by simp
  with True cl own_held_less[OF held] show ?thesis
    by (cases "tc_agent cl = b") (simp_all add: own_claim_def Let_def)
next
  case False
  have "own_held key a since (Suc room) (t\<lparr>to_claims := jdel (thread_key p c th) (to_claims t)\<rparr>)"
    using own_held_jdel[OF held False] .
  from own_held_new[OF this False] own_held_new[OF held False] own_held_less[OF held]
    own_held_jset[OF held, of "thread_key p c th"] False
  show ?thesis by (simp add: own_claim_def Let_def split: option.split)
qed

lemma own_held_step:
  assumes held: "own_held key a since (Suc room) t" and keeps: "own_keeps key since (to_ttl t) e"
  shows "own_held key a since room (own_step e t)"
proof (cases e)
  case (OwnClaim now p c th b)
  with keeps own_held_claim[OF held] show ?thesis by simp
next
  case (OwnRelease p c th)
  with keeps own_held_jdel[OF own_held_less[OF held]] show ?thesis
    by (simp add: own_release_def Let_def)
next
  case (OwnTouch now p c th)
  with keeps have "since \<le> now" by (simp add: own_window_def)
  then show ?thesis
    using OwnTouch held own_held_jset[OF held, of "thread_key p c th"] own_held_less[OF held]
    by (cases "thread_key p c th = key") (auto simp: own_touch_def Let_def own_held_def split: option.split)
next
  case (OwnQuery now p c th)
  with keeps have w: "own_window since (to_ttl t) now" by simp
  from held_not_expired[OF held w] OwnQuery own_held_less[OF held] own_held_jdel[OF own_held_less[OF held]]
  show ?thesis
    by (cases "thread_key p c th = key") (auto simp: owner_of_def Let_def split: option.split)
next
  case (OwnGc now)
  with keeps have w: "own_window since (to_ttl t) now" by simp
  let ?keep = "filter (\<lambda>(_, c). \<not> expired_claim now t c) (to_claims t)"
  from held_not_expired[OF held w] held obtain cl where cl: "jget (to_claims t) key = Some cl"
    "tc_agent cl = a" "\<not> expired_claim now t cl" "since \<le> tc_last_active_at cl"
    by (auto simp: own_held_def)
  have "jget ?keep key = Some cl" using held cl by (simp add: own_held_def jget_filter)
  moreover have "length ?keep \<le> length (to_claims t)" by simp
  moreover have "jwf ?keep" using held by (simp add: own_held_def)
  moreover have "length ?keep + room \<le> to_max_entries t"
  proof -
    have "length ?keep + room \<le> length (to_claims t) + room"
      by (intro add_right_mono length_filter_le)
    also have "\<dots> \<le> to_max_entries t" using held by (simp add: own_held_def)
    finally show ?thesis .
  qed
  ultimately show ?thesis
    using OwnGc cl(2,4) by (simp add: own_held_def own_gc_def Let_def)
next
  case OwnDispose
  with keeps show ?thesis by simp
qed

lemma own_ttl_step [simp]: "to_ttl (own_step e t) = to_ttl t"
  by (cases e)
     (simp_all add: own_claim_def new_claim_def evict_if_full_def own_release_def own_touch_def
        owner_of_def own_gc_def own_dispose_def Let_def split: option.split)

text \<open>
  Ownership is kept for the time-to-live: after an agent claimed a thread at \<open>since\<close>, nothing
  that happens to the table until \<open>since + ttl\<close> (claims of the same and of other threads, touches,
  lookups, collections) gives the thread to another agent, provided the thread is not released
  and the table has room, so that nothing is evicted.
\<close>

theorem ownership_kept_for_ttl:
  assumes "jwf (to_claims t)" and "own_claim since p c th a t = (ClaimOk cl, t')"
    and "\<forall>e \<in> set es. own_keeps (thread_key p c th) since (to_ttl t') e"
    and "length (to_claims t') + length es < to_max_entries t'"
    and "own_window since (to_ttl t') now"
  shows "fst (owner_of now p c th (run_steps own_step es t')) = Some a"
proof -
  have "jwf (to_claims t') \<and> (\<exists>cl. jget (to_claims t') (thread_key p c th) = Some cl \<and>
      tc_agent cl = a \<and> since \<le> tc_last_active_at cl)"
    using assms(1,2)
    by (auto simp: own_claim_def new_claim_def evict_if_full_def Let_def split: option.splits if_splits)
  with assms(4) have "own_held (thread_key p c th) a since (Suc (length es)) t'"
    by (simp add: own_held_def)
  moreover have "own_held key a since (Suc (length es)) s \<Longrightarrow> to_ttl s = to_ttl t' \<Longrightarrow>
      \<forall>e \<in> set es. own_keeps key since (to_ttl t') e \<Longrightarrow>
      own_held key a since 1 (run_steps own_step es s)" for s key
  proof (induction es arbitrary: s)
    case (Cons e es)
    then have "own_held key a since (Suc (length es)) (own_step e s)"
      by (intro own_held_step) simp_all
    with Cons show ?case by simp
  qed simp
  ultimately have held: "own_held (thread_key p c th) a since 1 (run_steps own_step es t')"
    using assms(3) by blast
  have "to_ttl (run_steps own_step es s) = to_ttl s" for s by (induction es arbitrary: s) simp_all
  with held_not_expired[OF held, of now] assms(5)
  obtain cl where "jget (to_claims (run_steps own_step es t')) (thread_key p c th) = Some cl"
    "tc_agent cl = a" "\<not> expired_claim now (run_steps own_step es t') cl" by auto
  then show ?thesis by (simp add: owner_of_def Let_def)
qed

theorem ownership_kept_for_ttl_witness:
  "fst (owner_of 300010 ''slack'' ''c'' ''t'' (run_steps own_step
      [OwnClaim 20 ''slack'' ''c'' ''t'' ''b'', OwnGc 300000, OwnRelease ''slack'' ''c'' ''u'']
      (snd (own_claim 10 ''slack'' ''c'' ''t'' ''a'' (thread_ownership_new None None))))) = Some ''a''"
proof (rule ownership_kept_for_ttl[where t = "thread_ownership_new None None" and since = 10])
  show "own_claim 10 ''slack'' ''c'' ''t'' ''a'' (thread_ownership_new None None) =
    (ClaimOk \<lparr>tc_agent = ''a'', tc_provider = ''slack'', tc_chat = ''c'', tc_thread = ''t'',
       tc_claimed_at = 10, tc_last_active_at = 10\<rparr>,
     snd (own_claim 10 ''slack'' ''c'' ''t'' ''a'' (thread_ownership_new None None)))"
    by (simp add: thread_ownership_new_def own_claim_def new_claim_def evict_if_full_def Let_def)
qed (simp_all add: thread_ownership_new_def own_claim_def new_claim_def evict_if_full_def Let_def
      own_window_def thread_key_def)

text \<open>A full table breaks the promise: the oldest live claim is dropped for a new thread.\<close>

lemma full_table_drops_live_claim:
  "let t = snd (own_claim 1 ''p'' ''c'' ''t'' ''a'' (thread_ownership_new None (Some 1)));
       t = snd (own_claim 2 ''p'' ''c'' ''u'' ''b'' t)
   in fst (owner_of 3 ''p'' ''c'' ''t'' t) = None"
  by (simp add: thread_ownership_new_def own_claim_def new_claim_def evict_if_full_def owner_of_def
        thread_key_def jdel_def Let_def)

end
