(* ===== verification/RateLimiter.thy ===== *)
theory RateLimiter
  imports CircuitBreaker Complex_Main
begin

text \<open>
  \<open>src/src/channels/rate-limiter.ts\<close>: the token bucket in front of the channel APIs.

  Token amounts are rationals, times integers in milliseconds; every operation takes the clock
  reading it makes. The refill interval is positive where a property says so (the source divides
  by it).
\<close>

record token_bucket =
  tb_tokens :: rat
  tb_capacity :: rat
  tb_refill_rate :: rat
  tb_interval_ms :: int
  tb_last_refill_at :: int

definition tb_new :: "int \<Rightarrow> rat option \<Rightarrow> rat option \<Rightarrow> int option \<Rightarrow> token_bucket" where
  "tb_new now capacity refill_rate interval_ms =
     \<lparr>tb_tokens = or_default 30 capacity, tb_capacity = or_default 30 capacity,
      tb_refill_rate = or_default 1 refill_rate, tb_interval_ms = or_default 1000 interval_ms,
      tb_last_refill_at = now\<rparr>"

definition tb_refill :: "int \<Rightarrow> token_bucket \<Rightarrow> token_bucket" where
  "tb_refill now b =
     (let elapsed = now - tb_last_refill_at b
      in if elapsed < tb_interval_ms b then b
         else let intervals = elapsed div tb_interval_ms b
              in b\<lparr>tb_tokens := min (tb_capacity b) (tb_tokens b + of_int intervals * tb_refill_rate b),
                   tb_last_refill_at := now - elapsed mod tb_interval_ms b\<rparr>)"

definition tb_try_consume :: "int \<Rightarrow> rat \<Rightarrow> token_bucket \<Rightarrow> bool \<times> token_bucket" where
  "tb_try_consume now n b =
     (let b = tb_refill now b
      in if n \<le> tb_tokens b then (True, b\<lparr>tb_tokens := tb_tokens b - n\<rparr>) else (False, b))"

definition tb_wait_time_ms :: "int \<Rightarrow> token_bucket \<Rightarrow> int \<times> token_bucket" where
  "tb_wait_time_ms now b =
     (let b = tb_refill now b
      in (if 1 \<le> tb_tokens b then 0
          else \<lceil>(1 - tb_tokens b) / tb_refill_rate b * of_int (tb_interval_ms b)\<rceil>, b))"

definition tb_available :: "int \<Rightarrow> token_bucket \<Rightarrow> rat \<times> token_bucket" where
  "tb_available now b = (let b = tb_refill now b in (tb_tokens b, b))"

datatype tb_op = TbConsume int rat | TbWait int | TbAvailable int

fun tb_step :: "tb_op \<Rightarrow> token_bucket \<Rightarrow> token_bucket" where
  "tb_step (TbConsume now n) b = (if 0 \<le> n then snd (tb_try_consume now n b) else b)"
| "tb_step (TbWait now) b = snd (tb_wait_time_ms now b)"
| "tb_step (TbAvailable now) b = snd (tb_available now b)"

definition tb_inv :: "token_bucket \<Rightarrow> bool" where
  "tb_inv b \<longleftrightarrow> 0 \<le> tb_tokens b \<and> tb_tokens b \<le> tb_capacity b \<and> 0 \<le> tb_refill_rate b \<and> 0 < tb_interval_ms b"

lemma tb_refill_config [simp]:
  "tb_capacity (tb_refill now b) = tb_capacity b" "tb_refill_rate (tb_refill now b) = tb_refill_rate b"
  "tb_interval_ms (tb_refill now b) = tb_interval_ms b"
  by (simp_all add: tb_refill_def Let_def)

lemma tb_inv_refill:
  assumes "tb_inv b"
  shows "tb_inv (tb_refill now b)"
proof (cases "now - tb_last_refill_at b < tb_interval_ms b")
  case True
  with assms show ?thesis by (simp add: tb_refill_def)
next
  case False
  with assms have "0 \<le> (now - tb_last_refill_at b) div tb_interval_ms b"
    by (simp add: tb_inv_def pos_imp_zdiv_nonneg_iff)
  then have "0 \<le> of_int ((now - tb_last_refill_at b) div tb_interval_ms b) * tb_refill_rate b"
    using assms by (intro mult_nonneg_nonneg) (simp_all add: tb_inv_def)
  with False assms show ?thesis by (simp add: tb_refill_def tb_inv_def Let_def)
qed

interpretation tb: machine tb_step tb_inv
proof
  fix b e
  assume "tb_inv b"
  then have refill: "tb_inv (tb_refill now b)" for now by (rule tb_inv_refill)
  have "tb_inv (b\<lparr>tb_tokens := tb_tokens b - n\<rparr>)" if "tb_inv b" "0 \<le> n" "n \<le> tb_tokens b" for b n
    using that by (simp add: tb_inv_def)
  from this[OF refill] refill \<open>tb_inv b\<close> show "tb_inv (tb_step e b)"
    by (cases e) (simp_all add: tb_try_consume_def tb_wait_time_ms_def tb_available_def Let_def)
qed

text \<open>
  The bucket holds between zero and \<open>capacity\<close> tokens in every run of consumptions and queries,
  whatever the clock shows.
\<close>

theorem tokens_within_capacity:
  assumes "0 \<le> capacity" "0 \<le> rate" "0 < interval"
  shows "let b = run_steps tb_step es (tb_new now (Some capacity) (Some rate) (Some interval))
         in 0 \<le> tb_tokens b \<and> tb_tokens b \<le> capacity"
proof -
  let ?b = "run_steps tb_step es (tb_new now (Some capacity) (Some rate) (Some interval))"
  have "tb_capacity (tb_step e b) = tb_capacity b" for e b
    by (cases e) (simp_all add: tb_try_consume_def tb_wait_time_ms_def tb_available_def Let_def)
  then have "tb_capacity (run_steps tb_step es b) = tb_capacity b" for b
    by (induction es arbitrary: b) auto
  then have "tb_capacity ?b = capacity" by (simp add: tb_new_def)
  moreover have "tb_inv ?b" by (rule tb.inv_run) (use assms in \<open>simp add: tb_inv_def tb_new_def\<close>)
  ultimately show ?thesis by (simp add: tb_inv_def Let_def)
qed

theorem tokens_within_capacity_witness:
  "tb_tokens (run_steps tb_step [TbConsume 10 3, TbWait 2500] (tb_new 0 (Some 5) (Some 1) (Some 1000))) \<le> 5"
  using tokens_within_capacity[of 5 1 1000 "[TbConsume 10 3, TbWait 2500]" 0]
  by (simp add: Let_def del: run_steps.simps)


section \<open>The rate\<close>

text \<open>The answers to a sequence of single-token requests.\<close>

fun tb_consumes :: "int list \<Rightarrow> token_bucket \<Rightarrow> nat \<times> token_bucket" where
  "tb_consumes [] b = (0, b)"
| "tb_consumes (now # ts) b =
     (let (ok, b) = tb_try_consume now 1 b; (n, b) = tb_consumes ts b
      in ((if ok then Suc n else n), b))"

text \<open>
  Accounting from the time \<open>t0\<close> the bucket was full: what was spent and what is left never exceed
  the capacity plus what the elapsed intervals (\<open>k\<close> of them) have poured in.
\<close>

definition tb_account :: "int \<Rightarrow> nat \<Rightarrow> token_bucket \<Rightarrow> int \<Rightarrow> bool" where
  "tb_account t0 spent b k \<longleftrightarrow>
     tb_inv b \<and> 0 \<le> k \<and> tb_last_refill_at b = t0 + k * tb_interval_ms b \<and>
     of_nat spent + tb_tokens b \<le> tb_capacity b + of_int k * tb_refill_rate b"

lemma tb_account_refill:
  assumes "tb_account t0 spent b k"
  shows "\<exists>k'. tb_account t0 spent (tb_refill now b) k' \<and> (k' = k \<or> t0 + k' * tb_interval_ms b \<le> now)"
proof (cases "now - tb_last_refill_at b < tb_interval_ms b")
  case True
  with assms show ?thesis by (auto simp: tb_refill_def)
next
  case False
  let ?d = "(now - tb_last_refill_at b) div tb_interval_ms b"
  have pos: "0 < tb_interval_ms b" using assms by (simp add: tb_account_def tb_inv_def)
  then have d: "0 \<le> ?d" using False by (simp add: pos_imp_zdiv_nonneg_iff)
  have last: "tb_last_refill_at (tb_refill now b) = t0 + (k + ?d) * tb_interval_ms b"
    using False assms mult_div_mod_eq[of "tb_interval_ms b" "now - tb_last_refill_at b"]
    by (simp add: tb_refill_def tb_account_def Let_def algebra_simps)
  have "tb_tokens (tb_refill now b) \<le> tb_tokens b + of_int ?d * tb_refill_rate b"
    using False by (simp add: tb_refill_def Let_def)
  then have "of_nat spent + tb_tokens (tb_refill now b) \<le> tb_capacity b + of_int (k + ?d) * tb_refill_rate b"
    using assms by (simp add: tb_account_def algebra_simps)
  then have "tb_account t0 spent (tb_refill now b) (k + ?d)"
    using assms d last tb_inv_refill[of b now] by (simp add: tb_account_def)
  moreover have "t0 + (k + ?d) * tb_interval_ms b \<le> now"
  proof -
    have "tb_interval_ms b * ?d \<le> now - tb_last_refill_at b"
      using pos by (metis mult_div_mod_eq pos_mod_sign zle_iff_zadd add.commute le_add_same_cancel1)
    then show ?thesis using assms by (simp add: tb_account_def algebra_simps)
  qed
  ultimately show ?thesis by blast
qed

lemma tb_account_consumes:
  assumes "tb_account t0 spent b k" and "\<forall>now \<in> set ts. now \<le> t0 + w" and "t0 + k * tb_interval_ms b \<le> t0 + w"
  shows "\<exists>k'. tb_account t0 (spent + fst (tb_consumes ts b)) (snd (tb_consumes ts b)) k' \<and>
    k' * tb_interval_ms b \<le> w"
  using assms
proof (induction ts arbitrary: b spent k)
  case Nil
  then show ?case by auto
next
  case (Cons now ts)
  from tb_account_refill[OF Cons.prems(1), of now] obtain k1 where
    k1: "tb_account t0 spent (tb_refill now b) k1" "k1 = k \<or> t0 + k1 * tb_interval_ms b \<le> now" by blast
  have le: "t0 + k1 * tb_interval_ms b \<le> t0 + w" using k1(2) Cons.prems(2,3) by auto
  show ?case
  proof (cases "1 \<le> tb_tokens (tb_refill now b)")
    case True
    let ?b = "(tb_refill now b)\<lparr>tb_tokens := tb_tokens (tb_refill now b) - 1\<rparr>"
    have "tb_account t0 (Suc spent) ?b k1" using k1(1) True by (simp add: tb_account_def tb_inv_def)
    from Cons.IH[OF this] Cons.prems(2) le True show ?thesis
      by (simp add: tb_try_consume_def Let_def case_prod_beta)
  next
    case False
    from Cons.IH[OF k1(1)] Cons.prems(2) le False show ?thesis
      by (simp add: tb_try_consume_def Let_def case_prod_beta)
  qed
qed

text \<open>
  The limiter limits the rate: of the requests made within \<open>w\<close> milliseconds of its creation, in
  whatever order and at whatever times, at most \<open>capacity + rate * floor(w / interval)\<close> are granted.
\<close>

theorem granted_rate_bounded:
  assumes "0 \<le> capacity" "0 \<le> rate" "0 < interval" "0 \<le> w" "\<forall>now \<in> set ts. now \<le> t0 + w"
  shows "of_nat (fst (tb_consumes ts (tb_new t0 (Some capacity) (Some rate) (Some interval))))
    \<le> capacity + rate * of_int (w div interval)"
proof -
  let ?b = "tb_new t0 (Some capacity) (Some rate) (Some interval)"
  have config: "tb_capacity (snd (tb_consumes ts b)) = tb_capacity b \<and>
      tb_refill_rate (snd (tb_consumes ts b)) = tb_refill_rate b" for b
    by (induction ts arbitrary: b) (auto simp: tb_try_consume_def Let_def case_prod_beta)
  have "tb_account t0 0 ?b 0" using assms by (simp add: tb_account_def tb_inv_def tb_new_def)
  from tb_account_consumes[OF this assms(5)] assms(4) obtain k where
    k: "tb_account t0 (0 + fst (tb_consumes ts ?b)) (snd (tb_consumes ts ?b)) k" "k * interval \<le> w"
    by (auto simp: tb_new_def)
  have "k \<le> w div interval" using zdiv_mono1[OF k(2) assms(3)] assms(3) by simp
  then have "rate * of_int k \<le> rate * of_int (w div interval)"
    using assms(2) by (intro mult_left_mono) simp_all
  moreover have "of_nat (fst (tb_consumes ts ?b)) \<le> capacity + rate * of_int k"
    using k(1) config[of ?b] by (simp add: tb_account_def tb_inv_def tb_new_def mult.commute)
  ultimately show ?thesis by simp
qed

theorem granted_rate_bounded_witness:
  "of_nat (fst (tb_consumes [0, 0, 0, 1500, 1600, 2000] (tb_new 0 (Some 2) (Some 1) (Some 1000)))) \<le> (4 :: rat)"
  using granted_rate_bounded[of 2 1 1000 2000 "[0, 0, 0, 1500, 1600, 2000]" 0] by simp

text \<open>
  \<open>wait_time_ms\<close> is too short when a refill brings more than one token: nothing is refilled before a
  whole interval has passed, so a caller that sleeps for the advised time is refused again.
\<close>

lemma wait_time_too_short:
  "let b = snd (tb_try_consume 0 1 (tb_new 0 (Some 1) (Some 2) (Some 1000)));
       (wait, b) = tb_wait_time_ms 0 b
   in wait = 500 \<and> \<not> fst (tb_try_consume wait 1 b)"
  by (simp add: tb_new_def tb_try_consume_def tb_wait_time_ms_def tb_refill_def Let_def)

end
