(* ===== verification/Messages.thy ===== *)
theory Messages
  imports CircuitBreaker "HOL-Library.List_Lexorder" "HOL-Library.Char_ord"
begin

text \<open>
  Messages and the key that recognises a message sent twice: \<open>src/src/bus/types.ts\<close>,
  \<open>resolve_provider\<close> of \<open>src/src/channels/types.ts\<close>, \<open>normalize_text\<close> of \<open>src/src/utils/common.ts\<close> and
  \<open>src/src/channels/outbound-dedupe.ts\<close>.

  Of a message's metadata the record keeps the entries this code reads; an absent or empty string
  entry is the empty string, an absent retry count is 0.
\<close>

record media_item =
  mi_type :: string
  mi_url :: string

record message =
  ms_id :: string
  ms_provider :: string
  ms_instance_id :: string
  ms_channel :: string
  ms_sender_id :: string
  ms_chat_id :: string
  ms_content :: string
  ms_reply_to :: string
  ms_thread_id :: string
  ms_media :: "media_item list"
  ms_kind :: string
  ms_trigger_message_id :: string
  ms_source_message_id :: string
  ms_request_id :: string
  ms_dispatch_retry :: int
  ms_dispatch_error :: string

definition or_else :: "string \<Rightarrow> string \<Rightarrow> string" where
  "or_else a b = (if a = [] then b else a)"

definition resolve_provider :: "message \<Rightarrow> string option" where
  "resolve_provider m =
     (let raw = str_trim (str_lower (or_else (ms_provider m) (ms_channel m)))
      in if raw = [] then None else Some raw)"

text \<open>\<open>replace(/\s+/g, " ")\<close>.\<close>

fun squeeze_ws :: "bool \<Rightarrow> string \<Rightarrow> string" where
  "squeeze_ws gap [] = []"
| "squeeze_ws gap (c # s) =
     (if is_ws c then (if gap then squeeze_ws True s else CHR '' '' # squeeze_ws True s)
      else c # squeeze_ws False s)"

definition normalize_text :: "bool \<Rightarrow> string \<Rightarrow> string" where
  "normalize_text lowercase s =
     (let s = str_trim (squeeze_ws False s) in if lowercase then str_lower s else s)"

definition dedupe_text :: "string \<Rightarrow> string" where
  "dedupe_text s = normalize_text True s"

definition normalize_media :: "message \<Rightarrow> string" where
  "normalize_media m =
     str_join ''|'' (sort (map (\<lambda>i. mi_type i @ '':'' @ dedupe_text (mi_url i)) (ms_media m)))"

definition dedupe_key :: "string \<Rightarrow> message \<Rightarrow> string" where
  "dedupe_key provider m =
     (let kind = dedupe_text (ms_kind m);
          trigger = dedupe_text (or_else (ms_trigger_message_id m)
                      (or_else (ms_source_message_id m) (ms_request_id m)));
          sender = dedupe_text (ms_sender_id m);
          chat = dedupe_text (ms_chat_id m);
          reply_to = dedupe_text (ms_reply_to m);
          thread = dedupe_text (ms_thread_id m);
          inst = dedupe_text (or_else (ms_instance_id m) provider)
      in if (kind = ''agent_reply'' \<or> kind = ''agent_error'') \<and> trigger \<noteq> []
         then str_join ''::'' [inst, chat, thread, reply_to, kind, trigger]
         else str_join ''::'' [inst, chat, thread, reply_to, kind, or_else trigger sender,
                dedupe_text (ms_content m), normalize_media m])"


section \<open>The key\<close>

lemma normalize_media_perm:
  "mset (ms_media m) = mset (ms_media m') \<Longrightarrow> normalize_media m = normalize_media m'"
proof -
  assume "mset (ms_media m) = mset (ms_media m')"
  then have "mset (map f (ms_media m)) = mset (map f (ms_media m'))" for f :: "media_item \<Rightarrow> string" by simp
  then have "sort (map f (ms_media m)) = sort (map f (ms_media m'))" for f :: "media_item \<Rightarrow> string"
    by (metis properties_for_sort mset_sort sorted_sort)
  then show ?thesis by (simp add: normalize_media_def)
qed

definition same_target :: "message \<Rightarrow> message \<Rightarrow> bool" where
  "same_target m m' \<longleftrightarrow>
     ms_instance_id m = ms_instance_id m' \<and> ms_chat_id m = ms_chat_id m' \<and>
     ms_thread_id m = ms_thread_id m' \<and> ms_reply_to m = ms_reply_to m' \<and>
     ms_kind m = ms_kind m' \<and> ms_trigger_message_id m = ms_trigger_message_id m' \<and>
     ms_source_message_id m = ms_source_message_id m' \<and> ms_request_id m = ms_request_id m' \<and>
     ms_sender_id m = ms_sender_id m'"

text \<open>
  A final reply (or error) to a source message has one key whatever it says, so it is sent at
  most once per source message; for any other message the key sees the text up to white space
  and letter case and the media up to their order.
\<close>

theorem dedupe_key_identifies:
  assumes "same_target m m'"
    and "dedupe_text (ms_kind m) \<in> {''agent_reply'', ''agent_error''} \<and>
           dedupe_text (or_else (ms_trigger_message_id m) (or_else (ms_source_message_id m) (ms_request_id m))) \<noteq> [] \<or>
         dedupe_text (ms_content m) = dedupe_text (ms_content m') \<and> mset (ms_media m) = mset (ms_media m')"
  shows "dedupe_key p m = dedupe_key p m'"
  using assms(2)
proof
  assume "dedupe_text (ms_kind m) \<in> {''agent_reply'', ''agent_error''} \<and>
    dedupe_text (or_else (ms_trigger_message_id m) (or_else (ms_source_message_id m) (ms_request_id m))) \<noteq> []"
  then show ?thesis using assms(1) unfolding dedupe_key_def Let_def same_target_def by auto
next
  assume "dedupe_text (ms_content m) = dedupe_text (ms_content m') \<and> mset (ms_media m) = mset (ms_media m')"
  then show ?thesis
    using assms(1) normalize_media_perm[of m m'] unfolding dedupe_key_def Let_def same_target_def by simp
qed

definition sample_message :: message where
  "sample_message =
     \<lparr>ms_id = ''m1'', ms_provider = ''slack'', ms_instance_id = [], ms_channel = ''slack'', ms_sender_id = ''bot'',
      ms_chat_id = ''c1'', ms_content = ''Hello World'', ms_reply_to = [], ms_thread_id = [], ms_media = [],
      ms_kind = ''agent_reply'', ms_trigger_message_id = ''t9'', ms_source_message_id = [], ms_request_id = [],
      ms_dispatch_retry = 0, ms_dispatch_error = []\<rparr>"

theorem dedupe_key_identifies_witness:
  "dedupe_key ''slack'' sample_message = dedupe_key ''slack'' (sample_message\<lparr>ms_content := ''Bye''\<rparr>)"
proof (rule dedupe_key_identifies)
  show "same_target sample_message (sample_message\<lparr>ms_content := ''Bye''\<rparr>)"
    by (simp add: same_target_def sample_message_def)
  have "dedupe_text ''agent_reply'' = ''agent_reply'' \<and> dedupe_text ''t9'' = ''t9''" by code_simp
  then show "dedupe_text (ms_kind sample_message) \<in> {''agent_reply'', ''agent_error''} \<and>
      dedupe_text (or_else (ms_trigger_message_id sample_message)
        (or_else (ms_source_message_id sample_message) (ms_request_id sample_message))) \<noteq> [] \<or>
      dedupe_text (ms_content sample_message) = dedupe_text (ms_content (sample_message\<lparr>ms_content := ''Bye''\<rparr>)) \<and>
      mset (ms_media sample_message) = mset (ms_media (sample_message\<lparr>ms_content := ''Bye''\<rparr>))"
    by (simp add: sample_message_def or_else_def)
qed

end
