(* ===== verification/Batching.thy ===== *)
theory Batching
  imports Messages
begin

text \<open>
  The two buffers that collect messages for a short time: \<open>src/src/channels/inbound-debouncer.ts\<close> and
  \<open>src/src/channels/outbound-grouping.ts\<close>.

  The contract both keep is the locale \<open>batch_buffer\<close>: what was added under a key is, in order,
  in the batches handed out for the key followed by what is still waiting. A timer is an event that
  may fire while it is set. \<open>*_flushed\<close> logs the batches given to the callback; no operation
  reads it.
\<close>

definition handed_out :: "('k \<times> 'a list) list \<Rightarrow> 'k \<Rightarrow> 'a list" where
  "handed_out batches k = concat (map snd (filter (\<lambda>b. fst b = k) batches))"

lemma handed_out_simps [simp]:
  "handed_out [] k = []"
  "handed_out (bs @ [(k', xs)]) k = (if k' = k then handed_out bs k @ xs else handed_out bs k)"
  by (simp_all add: handed_out_def)

locale batch_buffer =
  fixes add :: "'k \<Rightarrow> 'a \<Rightarrow> 's \<Rightarrow> 's"
    and fire :: "'k \<Rightarrow> 's \<Rightarrow> 's"
    and waiting :: "'s \<Rightarrow> 'k \<Rightarrow> 'a list"
    and batches :: "'s \<Rightarrow> ('k \<times> 'a list) list"
    and ok :: "'s \<Rightarrow> bool"
  assumes add_order: "ok s \<Longrightarrow> handed_out (batches (add k x s)) j @ waiting (add k x s) j =
      handed_out (batches s) j @ waiting s j @ (if j = k then [x] else [])"
    and fire_order: "ok s \<Longrightarrow> handed_out (batches (fire k s)) j @ waiting (fire k s) j =
      handed_out (batches s) j @ waiting s j"
    and fire_empties: "ok s \<Longrightarrow> waiting (fire k s) k = []"
    and ok_add: "ok s \<Longrightarrow> ok (add k x s)"
    and ok_fire: "ok s \<Longrightarrow> ok (fire k s)"
begin

fun batch_run :: "(('k \<times> 'a) + 'k) list \<Rightarrow> 's \<Rightarrow> 's" where
  "batch_run [] s = s"
| "batch_run (Inl (k, x) # es) s = batch_run es (add k x s)"
| "batch_run (Inr k # es) s = batch_run es (fire k s)"

definition added :: "'k \<Rightarrow> (('k \<times> 'a) + 'k) list \<Rightarrow> 'a list" where
  "added k es = concat (map (\<lambda>e. case e of Inl (j, x) \<Rightarrow> if j = k then [x] else [] | Inr _ \<Rightarrow> []) es)"

lemma ok_run: "ok s \<Longrightarrow> ok (batch_run es s)"
  by (induction es s rule: batch_run.induct) (auto simp: ok_add ok_fire)

lemma run_order:
  "ok s \<Longrightarrow> handed_out (batches (batch_run es s)) k @ waiting (batch_run es s) k =
     handed_out (batches s) k @ waiting s k @ added k es"
proof (induction es s rule: batch_run.induct)
  case (2 j x es s)
  then show ?case by (simp add: ok_add added_def add_order flip: append_assoc)
next
  case (3 j es s)
  then show ?case by (simp add: ok_fire added_def fire_order flip: append_assoc)
qed (simp add: added_def)

text \<open>Once the timer of a key has fired, all that was added under it has been handed out in order.\<close>

lemma fired_complete:
  "ok s \<Longrightarrow> handed_out (batches (fire k (batch_run es s))) k =
     handed_out (batches s) k @ waiting s k @ added k es"
  using fire_order[OF ok_run, of s k es k] fire_empties[OF ok_run, of s k es] run_order[of s es k] by simp

end


section \<open>The inbound debouncer\<close>

text \<open>The messages are of any type; a timer is set for the keys in \<open>db_timers\<close>.\<close>

record 'a debouncer =
  db_buffers :: "(string, 'a list) jmap"
  db_timers :: "string list"
  db_max_messages :: int
  db_flushed :: "(string \<times> 'a list) list"

definition debouncer_new :: "int \<Rightarrow> 'a debouncer" where
  "debouncer_new max_messages =
     \<lparr>db_buffers = [], db_timers = [], db_max_messages = max_messages, db_flushed = []\<rparr>"

definition db_flush :: "string \<Rightarrow> 'a debouncer \<Rightarrow> 'a debouncer" where
  "db_flush key d =
     (let items = or_default [] (jget (db_buffers d) key)
      in d\<lparr>db_timers := filter (\<lambda>k. k \<noteq> key) (db_timers d),
           db_buffers := jdel key (db_buffers d),
           db_flushed := (if items = [] then db_flushed d else db_flushed d @ [(key, items)])\<rparr>)"

definition db_push :: "string \<Rightarrow> 'a \<Rightarrow> 'a debouncer \<Rightarrow> 'a debouncer" where
  "db_push key item d =
     (let buf = or_default [] (jget (db_buffers d) key) @ [item];
          d = d\<lparr>db_buffers := jset key buf (db_buffers d)\<rparr>
      in if db_max_messages d \<le> int (length buf) then db_flush key d
         else if key \<in> set (db_timers d) then d else d\<lparr>db_timers := db_timers d @ [key]\<rparr>)"

definition db_timer :: "string \<Rightarrow> 'a debouncer \<Rightarrow> 'a debouncer" where
  "db_timer key d = (if key \<in> set (db_timers d) then db_flush key d else d)"

definition db_clear :: "'a debouncer \<Rightarrow> 'a debouncer" where
  "db_clear d = d\<lparr>db_timers := [], db_buffers := []\<rparr>"

definition db_pending_chat_count :: "'a debouncer \<Rightarrow> nat" where
  "db_pending_chat_count d = length (db_buffers d)"

text \<open>The content of a merged batch.\<close>

definition merge_contents :: "string list \<Rightarrow> string" where
  "merge_contents contents =
     str_join [CHR 0x0A, CHR 0x0A] (filter (\<lambda>c. c \<noteq> []) (map str_trim contents))"

text \<open>Every waiting message has a timer, no batch waits once it is full, and none is empty.\<close>

definition db_inv :: "'a debouncer \<Rightarrow> bool" where
  "db_inv d \<longleftrightarrow>
     jwf (db_buffers d) \<and>
     (\<forall>k. k \<in> set (db_timers d) \<longleftrightarrow> jget (db_buffers d) k \<noteq> None) \<and>
     (\<forall>k b. jget (db_buffers d) k = Some b \<longrightarrow> b \<noteq> [] \<and> int (length b) < db_max_messages d)"

definition db_waiting :: "'a debouncer \<Rightarrow> string \<Rightarrow> 'a list" where
  "db_waiting d key = or_default [] (jget (db_buffers d) key)"

lemma db_inv_flush: "db_inv d \<Longrightarrow> db_inv (db_flush key d)"
  by (auto simp: db_inv_def db_flush_def Let_def split: option.splits)

lemma db_inv_push:
  assumes "db_inv d"
  shows "db_inv (db_push key item d)"
proof (cases "db_max_messages d \<le> int (length (or_default [] (jget (db_buffers d) key) @ [item]))")
  case True
  with assms show ?thesis
    by (auto simp: db_inv_def db_push_def db_flush_def Let_def split: option.splits)
next
  case False
  with assms show ?thesis
    by (auto simp: db_inv_def db_push_def Let_def split: option.splits)
qed

interpretation debouncer: batch_buffer db_push db_timer db_waiting db_flushed db_inv
proof
  fix d :: "'a debouncer" and key j :: string and item :: 'a
  assume inv: "db_inv d"
  show "handed_out (db_flushed (db_push key item d)) j @ db_waiting (db_push key item d) j =
      handed_out (db_flushed d) j @ db_waiting d j @ (if j = key then [item] else [])"
    by (simp add: db_push_def db_flush_def db_waiting_def Let_def)
  show "handed_out (db_flushed (db_timer key d)) j @ db_waiting (db_timer key d) j =
      handed_out (db_flushed d) j @ db_waiting d j"
    by (auto simp: db_timer_def db_flush_def db_waiting_def Let_def)
  show "db_waiting (db_timer key d) key = []"
    using inv by (auto simp: db_inv_def db_timer_def db_flush_def db_waiting_def Let_def split: option.splits)
  show "db_inv (db_push key item d)" by (rule db_inv_push[OF inv])
  show "db_inv (db_timer key d)" using db_inv_flush[OF inv] inv by (simp add: db_timer_def)
qed

lemma db_inv_new: "db_inv (debouncer_new n)"
  by (simp add: db_inv_def debouncer_new_def)

text \<open>
  The debouncer loses, repeats and reorders nothing: for every chat, the messages pushed are
  exactly those handed to the callback followed by those waiting, in the order they were pushed;
  a chat with waiting messages has its timer set; and when that timer fires, every message of
  the chat has been handed out.
\<close>

theorem debouncer_delivers_in_order:
  "let d = debouncer.batch_run es (debouncer_new n)
   in handed_out (db_flushed d) k @ db_waiting d k = debouncer.added k es \<and>
      (db_waiting d k = [] \<or> k \<in> set (db_timers d)) \<and>
      handed_out (db_flushed (db_timer k d)) k = debouncer.added k es"
proof -
  let ?d = "debouncer.batch_run es (debouncer_new n)"
  have new: "db_flushed (debouncer_new n) = []" "db_waiting (debouncer_new n) k = []"
    by (simp_all add: debouncer_new_def db_waiting_def)
  have "db_inv ?d" by (rule debouncer.ok_run[OF db_inv_new])
  then have "db_waiting ?d k = [] \<or> k \<in> set (db_timers ?d)"
    by (auto simp: db_inv_def db_waiting_def split: option.splits)
  with debouncer.run_order[OF db_inv_new, of es n k] debouncer.fired_complete[OF db_inv_new, of k es n]
  show ?thesis by (simp add: Let_def new)
qed


section \<open>The outbound grouping buffer\<close>

record grouping_buffer =
  gb_enabled :: bool
  gb_max_messages :: int
  gb_groups :: "(string, message list) jmap"
  gb_flushed :: "(string \<times> message list) list"

definition grouping_new :: "bool \<Rightarrow> int \<Rightarrow> grouping_buffer" where
  "grouping_new enabled max_messages =
     \<lparr>gb_enabled = enabled, gb_max_messages = max_messages, gb_groups = [], gb_flushed = []\<rparr>"

definition group_key :: "string \<Rightarrow> message \<Rightarrow> string" where
  "group_key provider m = provider @ '':'' @ ms_chat_id m @ '':'' @ ms_thread_id m"

definition merge_messages :: "message list \<Rightarrow> message" where
  "merge_messages ms =
     (hd ms)\<lparr>ms_content := str_join [CHR 0x0A, CHR 0x0A] (filter (\<lambda>c. c \<noteq> []) (map ms_content ms)),
             ms_media := concat (map ms_media ms)\<rparr>"

text \<open>What the callback receives for a group.\<close>

definition emit_group :: "message list \<Rightarrow> message list" where
  "emit_group ms = (if length ms \<le> 1 then ms else [merge_messages ms])"

definition gb_flush :: "string \<Rightarrow> grouping_buffer \<Rightarrow> grouping_buffer" where
  "gb_flush key g =
     (case jget (gb_groups g) key of
        None \<Rightarrow> g
      | Some ms \<Rightarrow> g\<lparr>gb_groups := jdel key (gb_groups g),
                   gb_flushed := (if ms = [] then gb_flushed g else gb_flushed g @ [(key, ms)])\<rparr>)"

definition gb_push :: "string \<Rightarrow> message \<Rightarrow> grouping_buffer \<Rightarrow> grouping_buffer" where
  "gb_push key m g =
     (if \<not> gb_enabled g then g\<lparr>gb_flushed := gb_flushed g @ [(key, [m])]\<rparr>
      else case jget (gb_groups g) key of
             Some ms \<Rightarrow>
               (let g = g\<lparr>gb_groups := jset key (ms @ [m]) (gb_groups g)\<rparr>
                in if gb_max_messages g \<le> int (length (ms @ [m])) then gb_flush key g else g)
           | None \<Rightarrow> g\<lparr>gb_groups := jset key [m] (gb_groups g)\<rparr>)"

definition gb_flush_all :: "grouping_buffer \<Rightarrow> grouping_buffer" where
  "gb_flush_all g = fold gb_flush (jkeys (gb_groups g)) g"

definition gb_waiting :: "grouping_buffer \<Rightarrow> string \<Rightarrow> message list" where
  "gb_waiting g key = or_default [] (jget (gb_groups g) key)"

lemma gb_flush_waiting:
  "gb_waiting (gb_flush key g) k = (if k = key then [] else gb_waiting g k)"
  by (auto simp: gb_flush_def gb_waiting_def split: option.split)

lemma gb_flush_order:
  "handed_out (gb_flushed (gb_flush key g)) j @ gb_waiting (gb_flush key g) j =
   handed_out (gb_flushed g) j @ gb_waiting g j"
  by (auto simp: gb_flush_def gb_waiting_def split: option.split)

definition gb_ok :: "grouping_buffer \<Rightarrow> bool" where
  "gb_ok g \<longleftrightarrow> gb_enabled g \<or> gb_groups g = []"

lemma gb_push_order:
  assumes "gb_ok g"
  shows "handed_out (gb_flushed (gb_push key m g)) j @ gb_waiting (gb_push key m g) j =
    handed_out (gb_flushed g) j @ gb_waiting g j @ (if j = key then [m] else [])"
proof (cases "gb_enabled g")
  case False
  with assms show ?thesis by (simp add: gb_ok_def gb_push_def gb_waiting_def)
next
  case True
  show ?thesis
  proof (cases "jget (gb_groups g) key")
    case None
    with True show ?thesis by (simp add: gb_push_def gb_waiting_def)
  next
    case (Some ms)
    let ?g = "g\<lparr>gb_groups := jset key (ms @ [m]) (gb_groups g)\<rparr>"
    have "handed_out (gb_flushed ?g) j @ gb_waiting ?g j =
        handed_out (gb_flushed g) j @ gb_waiting g j @ (if j = key then [m] else [])"
      using Some by (simp add: gb_waiting_def)
    with True Some gb_flush_order[of key ?g j] show ?thesis
      by (cases "j = key") (simp_all add: gb_push_def Let_def)
  qed
qed

interpretation grouping: batch_buffer gb_push gb_flush gb_waiting gb_flushed gb_ok
proof
  fix g :: grouping_buffer and key :: string and m :: message
  show "gb_ok g \<Longrightarrow> gb_ok (gb_push key m g)"
    by (auto simp: gb_ok_def gb_push_def gb_flush_def Let_def split: option.split)
  show "gb_ok g \<Longrightarrow> gb_ok (gb_flush key g)"
    by (auto simp: gb_ok_def gb_flush_def jdel_def split: option.split)
qed (rule gb_push_order gb_flush_order, assumption | rule gb_flush_order | simp add: gb_flush_waiting)+

lemma fold_flush_waiting:
  "gb_waiting (fold gb_flush ks g) k = (if k \<in> set ks then [] else gb_waiting g k)"
  by (induction ks arbitrary: g) (auto simp: gb_flush_waiting)

lemma gb_flush_all_waiting: "gb_waiting (gb_flush_all g) k = []"
proof (cases "k \<in> set (jkeys (gb_groups g))")
  case False
  then have "jget (gb_groups g) k = None" by (auto simp: jkeys_def map_of_eq_None_iff)
  then have "gb_waiting g k = []" by (simp add: gb_waiting_def)
  then show ?thesis by (simp add: gb_flush_all_def fold_flush_waiting)
qed (simp add: gb_flush_all_def fold_flush_waiting)

lemma fold_flush_order:
  "handed_out (gb_flushed (fold gb_flush ks g)) j @ gb_waiting (fold gb_flush ks g) j =
   handed_out (gb_flushed g) j @ gb_waiting g j"
  by (induction ks arbitrary: g) (simp_all add: gb_flush_order)

text \<open>Merging keeps the address of the first message, all media, and every non-empty content.\<close>

lemma emit_group_media: "concat (map ms_media (emit_group ms)) = concat (map ms_media ms)"
  by (cases ms) (simp_all add: emit_group_def merge_messages_def)

lemma str_includes_append:
  "str_includes p s \<Longrightarrow> str_includes p (a @ s @ b)"
  unfolding str_includes_iff by (metis append.assoc)

lemma str_join_includes: "x \<in> set xs \<Longrightarrow> str_includes x (str_join sep xs)"
proof (induction sep xs rule: str_join.induct)
  case (2 sep y)
  then show ?case by (auto simp: str_includes_iff intro: exI[of _ "[]"])
next
  case (3 sep y z xs)
  show ?case
  proof (cases "x = y")
    case True
    then show ?thesis by (auto simp: str_includes_iff intro: exI[of _ "[]"])
  next
    case False
    with 3 have "str_includes x (str_join sep (z # xs))" by simp
    from str_includes_append[OF this, of "y @ sep" "[]"] show ?thesis by simp
  qed
qed simp

lemma emit_group_content:
  assumes "m \<in> set ms"
  shows "\<exists>e \<in> set (emit_group ms). str_includes (ms_content m) (ms_content e) \<and> ms_chat_id e = ms_chat_id (hd ms)"
proof (cases "length ms \<le> 1")
  case True
  with assms obtain x where ms: "ms = [x]" by (cases ms; cases "tl ms") auto
  with assms show ?thesis by (auto simp: emit_group_def str_includes_iff intro: exI[of _ "[]"])
next
  case False
  have "str_includes (ms_content m) (ms_content (merge_messages ms))"
  proof (cases "ms_content m = []")
    case True
    then show ?thesis by (auto simp: str_includes_iff)
  next
    case False
    with assms show ?thesis by (auto simp: merge_messages_def intro!: str_join_includes)
  qed
  with False show ?thesis by (simp add: emit_group_def merge_messages_def)
qed

text \<open>
  Grouping loses, repeats and reorders nothing either: for every chat and thread the pushed
  messages are those of the groups handed to the sender followed by the waiting ones; after
  \<open>flush_all\<close> nothing waits; and what the sender receives for a group contains the content of
  each of its messages and all their media.
\<close>

theorem grouping_delivers_in_order:
  "let g = grouping.batch_run es (grouping_new enabled n)
   in handed_out (gb_flushed g) k @ gb_waiting g k = grouping.added k es \<and>
      handed_out (gb_flushed (gb_flush_all g)) k = grouping.added k es \<and>
      concat (map ms_media (emit_group ms)) = concat (map ms_media ms) \<and>
      list_all (\<lambda>m. list_ex (\<lambda>e. str_includes (ms_content m) (ms_content e)) (emit_group ms)) ms"
proof -
  let ?g = "grouping.batch_run es (grouping_new enabled n)"
  have new: "gb_flushed (grouping_new enabled n) = []" "gb_waiting (grouping_new enabled n) k = []"
    "gb_ok (grouping_new enabled n)"
    by (simp_all add: grouping_new_def gb_waiting_def gb_ok_def)
  have order: "handed_out (gb_flushed ?g) k @ gb_waiting ?g k = grouping.added k es"
    using grouping.run_order[OF new(3), of es k] by (simp add: new)
  have all: "handed_out (gb_flushed (gb_flush_all ?g)) k = grouping.added k es"
    using fold_flush_order[of "jkeys (gb_groups ?g)" ?g k] gb_flush_all_waiting[of ?g k] order
    by (simp add: gb_flush_all_def)
  have "list_all (\<lambda>m. list_ex (\<lambda>e. str_includes (ms_content m) (ms_content e)) (emit_group ms)) ms"
    using emit_group_content[of _ ms] by (auto simp: list_all_iff list_ex_iff)
  with order all emit_group_media show ?thesis by (simp add: Let_def)
qed

end
