(* ===== verification/Dispatch.thy ===== *)
theory Dispatch
  imports RateLimiter TtlMap Batching
begin

text \<open>
  \<open>DispatchService\<close> of \<open>src/src/channels/dispatch.service.ts\<close>: rate limiting, duplicate
  suppression, inline retries, delayed requeueing and the dead-letter queue.

  The channel registry, the message bus and the dead-letter store are services: \<open>send_env\<close> holds
  the outcomes of the calls to \<open>registry.send\<close> and the clock readings of one \<open>send_with_retry\<close>;
  what is put back on the bus is in \<open>ds_scheduled\<close> (with its delay) until the timer fires, what is
  written to the dead-letter store in \<open>ds_dlq\<close>. \<open>ds_sent\<close> logs the messages handed to
  \<open>registry.send\<close>; no operation reads it. Random jitter is a value of \<open>send_env\<close>.
\<close>

datatype send_outcome = Sent string | SendFailed string

record retry_config =
  rc_inline_retries :: int
  rc_retry_max :: int
  rc_retry_base_ms :: int
  rc_retry_max_ms :: int
  rc_retry_jitter_ms :: int

record dlq_record =
  dlq_provider :: string
  dlq_message_id :: string
  dlq_chat_id :: string
  dlq_retry_count :: int
  dlq_error :: string
  dlq_content :: string

record dispatch =
  ds_limiter :: token_bucket
  ds_recent :: "(string, int \<times> string) jmap"
  ds_scheduled :: "(int \<times> message) list"
  ds_published :: "message list"
  ds_dlq :: "dlq_record list option"
  ds_running :: bool
  ds_retry :: retry_config
  ds_ttl_ms :: int
  ds_max_size :: nat
  ds_sent :: "message list"

record send_env =
  se_now :: int
  se_now_after_wait :: int
  se_cache_now :: int
  se_sent_at :: int
  se_outcomes :: "nat \<Rightarrow> send_outcome"
  se_jitter :: int

definition non_retryable_errors :: "string list" where
  "non_retryable_errors =
     [''invalid_auth'', ''not_authed'', ''channel_not_found'', ''chat_id_required'',
      ''bot_token_missing'', ''permission_denied'', ''invalid_arguments'']"

definition is_retryable :: "string \<Rightarrow> bool" where
  "is_retryable err = (\<not> (\<exists>e \<in> set non_retryable_errors. str_includes e (str_lower err)))"

definition get_retry_count :: "message \<Rightarrow> int" where
  "get_retry_count m = max 0 (ms_dispatch_retry m)"


section \<open>Retry-after hints\<close>

text \<open>\<open>/retry[_\s-]*after[:\s]+(\d+(?:\.\d+)?)/i\<close> on the lowered text, in milliseconds rounded up.\<close>

definition digit_value :: "string \<Rightarrow> int" where
  "digit_value ds = foldl (\<lambda>n c. 10 * n + (int (of_char c) - 48)) 0 ds"

definition is_dec :: "char \<Rightarrow> bool" where
  "is_dec c \<longleftrightarrow> c \<in> set ''0123456789''"

definition retry_after_here :: "string \<Rightarrow> int option" where
  "retry_after_here s =
     (if \<not> starts_with ''retry'' s then None
      else let s = dropWhile (\<lambda>c. is_ws c \<or> c = CHR ''_'' \<or> c = CHR ''-'') (drop 5 s)
           in if \<not> starts_with ''after'' s then None
              else let rest = drop 5 s; gap = takeWhile (\<lambda>c. is_ws c \<or> c = CHR '':'') rest;
                       s = dropWhile (\<lambda>c. is_ws c \<or> c = CHR '':'') rest;
                       whole = takeWhile is_dec s; s = dropWhile is_dec s;
                       frac = (case s of [] \<Rightarrow> [] | c # s \<Rightarrow> if c = CHR ''.'' then takeWhile is_dec s else [])
                   in if gap = [] \<or> whole = [] then None
                      else Some ((digit_value (whole @ frac) * 1000 + (10 ^ length frac - 1)) div 10 ^ length frac))"

fun first_retry_after :: "string \<Rightarrow> int option" where
  "first_retry_after [] = None"
| "first_retry_after (c # s) =
     (case retry_after_here (c # s) of Some ms \<Rightarrow> Some ms | None \<Rightarrow> first_retry_after s)"

definition parse_retry_after_ms :: "string \<Rightarrow> int option" where
  "parse_retry_after_ms err =
     (case first_retry_after (str_lower err) of
        None \<Rightarrow> None | Some ms \<Rightarrow> if 0 < ms then Some ms else None)"

definition compute_delay :: "retry_config \<Rightarrow> int \<Rightarrow> int \<Rightarrow> int option \<Rightarrow> int" where
  "compute_delay c jitter attempt retry_after =
     (case retry_after of
        Some ms \<Rightarrow> if 0 < ms then min ms (rc_retry_max_ms c)
                   else min (rc_retry_base_ms c * 2 ^ nat (attempt - 1)) (rc_retry_max_ms c)
                        + (if 0 < rc_retry_jitter_ms c then jitter else 0)
      | None \<Rightarrow> min (rc_retry_base_ms c * 2 ^ nat (attempt - 1)) (rc_retry_max_ms c)
                + (if 0 < rc_retry_jitter_ms c then jitter else 0))"


section \<open>Sending\<close>

definition schedule_retry ::
  "int \<Rightarrow> message \<Rightarrow> int \<Rightarrow> string \<Rightarrow> int option \<Rightarrow> dispatch \<Rightarrow> dispatch" where
  "schedule_retry jitter m retry_count err retry_after d =
     d\<lparr>ds_scheduled := ds_scheduled d @
         [(compute_delay (ds_retry d) jitter retry_count retry_after,
           m\<lparr>ms_dispatch_retry := retry_count, ms_dispatch_error := err\<rparr>)]\<rparr>"

text \<open>The timer of the \<open>n\<close>-th scheduled message fires.\<close>

definition retry_timer :: "nat \<Rightarrow> dispatch \<Rightarrow> dispatch" where
  "retry_timer n d =
     (if n < length (ds_scheduled d)
      then d\<lparr>ds_scheduled := take n (ds_scheduled d) @ drop (Suc n) (ds_scheduled d),
             ds_published := (if ds_running d then ds_published d @ [snd (ds_scheduled d ! n)]
                              else ds_published d)\<rparr>
      else d)"

definition write_dlq :: "string \<Rightarrow> message \<Rightarrow> string \<Rightarrow> int \<Rightarrow> dispatch \<Rightarrow> dispatch" where
  "write_dlq provider m err retry_count d =
     (case ds_dlq d of
        None \<Rightarrow> d
      | Some recs \<Rightarrow>
          d\<lparr>ds_dlq := Some (recs @
            [\<lparr>dlq_provider = provider, dlq_message_id = ms_id m, dlq_chat_id = ms_chat_id m,
              dlq_retry_count = retry_count, dlq_error = or_else err ''unknown_error'',
              dlq_content = take 10000 (ms_content m)\<rparr>])\<rparr>)"

definition prune_recent_cache :: "int \<Rightarrow> bool \<Rightarrow> dispatch \<Rightarrow> dispatch" where
  "prune_recent_cache now force_trim d =
     d\<lparr>ds_recent := prune_ttl_map now fst (ds_ttl_ms d) (if force_trim then Some (ds_max_size d) else None)
                      (ds_recent d)\<rparr>"

text \<open>
  The inline attempts: the result of the last call made, and the number of calls. \<open>fuel\<close> is the
  number of attempts left, \<open>n\<close> the number made.
\<close>

fun inline_attempts :: "nat \<Rightarrow> nat \<Rightarrow> (nat \<Rightarrow> send_outcome) \<Rightarrow> string \<Rightarrow> (string + string) \<times> nat" where
  "inline_attempts 0 n outcomes last_error = (Inl last_error, n)"
| "inline_attempts (Suc fuel) n outcomes last_error =
     (case outcomes n of
        Sent i \<Rightarrow> (Inr i, Suc n)
      | SendFailed e \<Rightarrow>
          (let e = or_else e ''unknown_error''
           in if \<not> is_retryable e then (Inl e, Suc n) else inline_attempts fuel (Suc n) outcomes e))"

definition rate_limit :: "send_env \<Rightarrow> dispatch \<Rightarrow> bool \<times> dispatch" where
  "rate_limit env d =
     (let (ok, b) = tb_try_consume (se_now env) 1 (ds_limiter d)
      in if ok then (True, d\<lparr>ds_limiter := b\<rparr>)
         else let b = snd (tb_wait_time_ms (se_now env) b);
                  (ok, b) = tb_try_consume (se_now_after_wait env) 1 b
              in (ok, d\<lparr>ds_limiter := b\<rparr>))"

definition send_with_retry ::
  "send_env \<Rightarrow> string \<Rightarrow> message \<Rightarrow> bool \<Rightarrow> dispatch \<Rightarrow> (string + string) \<times> dispatch" where
  "send_with_retry env provider m allow_requeue d =
     (let (ok, d) = rate_limit env d
      in if \<not> ok then (Inl ''rate_limit_exceeded'', d)
         else
           let d = prune_recent_cache (se_cache_now env) False d;
               key = dedupe_key provider m
           in case (case jget (ds_recent d) key of
                      Some (at_ms, i) \<Rightarrow> if se_cache_now env - at_ms \<le> ds_ttl_ms d then Some i else None
                    | None \<Rightarrow> None) of
                Some i \<Rightarrow> (Inr i, d)
              | None \<Rightarrow>
                  let (res, calls) = inline_attempts (nat (max 1 (rc_inline_retries (ds_retry d) + 1))) 0
                                       (se_outcomes env) [];
                      d = d\<lparr>ds_sent := ds_sent d @ replicate calls m\<rparr>;
                      retry = get_retry_count m
                  in case res of
                       Inr i \<Rightarrow>
                         (let i = or_else i (ms_id m);
                              d = d\<lparr>ds_recent := jset key (se_sent_at env, i) (ds_recent d)\<rparr>
                          in (Inr i, if ds_max_size d + 500 < length (ds_recent d)
                                     then prune_recent_cache (se_sent_at env) True d else d))
                     | Inl e \<Rightarrow>
                         if allow_requeue \<and> retry < rc_retry_max (ds_retry d) \<and> is_retryable e
                         then (Inl (''dispatch_requeued:'' @ e),
                               schedule_retry (se_jitter env) m (retry + 1) e (parse_retry_after_ms e) d)
                         else (Inl (or_else e ''send_failed''),
                               if allow_requeue \<and> rc_retry_max (ds_retry d) \<le> retry
                               then write_dlq provider m e retry d else d))"

text \<open>A message from a bus without leases, and a flushed group.\<close>

definition dispatch_outbound :: "send_env \<Rightarrow> message \<Rightarrow> dispatch \<Rightarrow> dispatch" where
  "dispatch_outbound env m d =
     (case resolve_provider m of
        None \<Rightarrow> d
      | Some p \<Rightarrow> if p = ''web'' then d else snd (send_with_retry env p m True d))"

text \<open>A leased message: acknowledged on every path; the result says how it was settled.\<close>

datatype settled = Ignored | Delivered | DeadLettered | Requeued

definition consume_leased :: "send_env \<Rightarrow> message \<Rightarrow> dispatch \<Rightarrow> settled \<times> dispatch" where
  "consume_leased env m d =
     (case resolve_provider m of
        None \<Rightarrow> (Ignored, d)
      | Some p \<Rightarrow>
          if p = ''web'' then (Ignored, d)
          else if ms_dispatch_error m \<noteq> [] \<and> \<not> is_retryable (ms_dispatch_error m)
          then (DeadLettered, write_dlq p m (ms_dispatch_error m) (get_retry_count m) d)
          else case send_with_retry env p m False d of
                 (Inr _, d) \<Rightarrow> (Delivered, d)
               | (Inl e, d) \<Rightarrow>
                   let e = or_else e ''send_failed''; retry = get_retry_count m
                   in if \<not> is_retryable e then (DeadLettered, write_dlq p m e retry d)
                      else if rc_retry_max (ds_retry d) \<le> retry then (DeadLettered, write_dlq p m e retry d)
                      else (Requeued, schedule_retry (se_jitter env) m (retry + 1) e (parse_retry_after_ms e) d))"

definition dispatch_start :: "dispatch \<Rightarrow> dispatch" where
  "dispatch_start d = d\<lparr>ds_running := True\<rparr>"

definition dispatch_stop :: "dispatch \<Rightarrow> dispatch" where
  "dispatch_stop d = d\<lparr>ds_running := False, ds_scheduled := []\<rparr>"


section \<open>Attempts\<close>

lemma inline_attempts_bound:
  "snd (inline_attempts fuel n outcomes e) \<le> n + fuel"
proof (induction fuel arbitrary: n e)
  case (Suc fuel)
  from Suc.IH[of "Suc n"] show ?case by (auto simp: Let_def split: send_outcome.split)
qed simp

lemma inline_attempts_result:
  assumes "0 < fuel"
  shows "case inline_attempts fuel n outcomes e of
     (Inr i, k) \<Rightarrow> n < k \<and> outcomes (k - 1) = Sent i
   | (Inl err, k) \<Rightarrow> n < k \<and> err \<noteq> [] \<and> (\<exists>e'. outcomes (k - 1) = SendFailed e' \<and> err = or_else e' ''unknown_error'') \<and>
       (k = n + fuel \<or> \<not> is_retryable err)"
  using assms
proof (induction fuel arbitrary: n e)
  case (Suc fuel)
  show ?case
  proof (cases "outcomes n")
    case (Sent i)
    then show ?thesis by simp
  next
    case (SendFailed err)
    let ?e = "or_else err ''unknown_error''"
    have ne: "?e \<noteq> []" by (simp add: or_else_def)
    show ?thesis
    proof (cases "is_retryable ?e \<and> 0 < fuel")
      case True
      with Suc.IH[of "Suc n" ?e] SendFailed show ?thesis
        by (auto simp: Let_def split: sum.splits prod.splits)
    next
      case False
      with SendFailed ne show ?thesis by (cases fuel) (auto simp: Let_def)
    qed
  qed
qed simp



section \<open>Requeueing is bounded\<close>

text \<open>
  Every message waiting for its delayed requeue has failed with a retryable error and carries a
  retry count between one and the maximum; the duplicate cache is well formed and bounded.
\<close>

definition ds_inv :: "dispatch \<Rightarrow> bool" where
  "ds_inv d \<longleftrightarrow>
     (\<forall>(delay, m) \<in> set (ds_scheduled d).
        1 \<le> ms_dispatch_retry m \<and> ms_dispatch_retry m \<le> rc_retry_max (ds_retry d) \<and>
        is_retryable (ms_dispatch_error m)) \<and>
     jwf (ds_recent d) \<and> length (ds_recent d) \<le> ds_max_size d + 500"

lemma ds_frames [simp]:
  "ds_retry (write_dlq p m e n d) = ds_retry d" "ds_recent (write_dlq p m e n d) = ds_recent d"
  "ds_scheduled (write_dlq p m e n d) = ds_scheduled d" "ds_max_size (write_dlq p m e n d) = ds_max_size d"
  "ds_sent (write_dlq p m e n d) = ds_sent d" "ds_ttl_ms (write_dlq p m e n d) = ds_ttl_ms d"
  "ds_retry (prune_recent_cache now f d) = ds_retry d" "ds_scheduled (prune_recent_cache now f d) = ds_scheduled d"
  "ds_dlq (prune_recent_cache now f d) = ds_dlq d" "ds_max_size (prune_recent_cache now f d) = ds_max_size d"
  "ds_sent (prune_recent_cache now f d) = ds_sent d" "ds_ttl_ms (prune_recent_cache now f d) = ds_ttl_ms d"
  "ds_retry (schedule_retry j m k e a d) = ds_retry d" "ds_recent (schedule_retry j m k e a d) = ds_recent d"
  "ds_dlq (schedule_retry j m k e a d) = ds_dlq d" "ds_max_size (schedule_retry j m k e a d) = ds_max_size d"
  "ds_sent (schedule_retry j m k e a d) = ds_sent d" "ds_ttl_ms (schedule_retry j m k e a d) = ds_ttl_ms d"
  by (simp_all add: write_dlq_def prune_recent_cache_def schedule_retry_def split: option.split)

lemma rate_limit_frame [simp]:
  "ds_recent (snd (rate_limit env d)) = ds_recent d" "ds_scheduled (snd (rate_limit env d)) = ds_scheduled d"
  "ds_retry (snd (rate_limit env d)) = ds_retry d" "ds_dlq (snd (rate_limit env d)) = ds_dlq d"
  "ds_max_size (snd (rate_limit env d)) = ds_max_size d" "ds_sent (snd (rate_limit env d)) = ds_sent d"
  "ds_ttl_ms (snd (rate_limit env d)) = ds_ttl_ms d"
  by (simp_all add: rate_limit_def case_prod_beta Let_def)

text \<open>The three ways a send ends, with everything they change.\<close>

definition after_prune :: "send_env \<Rightarrow> dispatch \<Rightarrow> dispatch" where
  "after_prune env d = prune_recent_cache (se_cache_now env) False (snd (rate_limit env d))"

definition cached_send :: "send_env \<Rightarrow> string \<Rightarrow> message \<Rightarrow> dispatch \<Rightarrow> string option" where
  "cached_send env p m d =
     (case jget (ds_recent d) (dedupe_key p m) of
        Some (at_ms, i) \<Rightarrow> if se_cache_now env - at_ms \<le> ds_ttl_ms d then Some i else None
      | None \<Rightarrow> None)"

lemma cached_after_prune:
  "jwf (ds_recent d) \<Longrightarrow> cached_send env p m (after_prune env d) = cached_send env p m d"
  by (auto simp: cached_send_def after_prune_def prune_recent_cache_def prune_ttl_get split: option.split)

lemma send_with_retry_cases:
  assumes "send_with_retry env p m allow d = (res, d')"
  obtains
    (limited) "res = Inl ''rate_limit_exceeded''" "d' = snd (rate_limit env d)" "\<not> fst (rate_limit env d)"
  | (cached) i where "fst (rate_limit env d)" "res = Inr i" "d' = after_prune env d"
      "cached_send env p m (after_prune env d) = Some i"
  | (sent) i k d1 where "fst (rate_limit env d)" "res = Inr i" "cached_send env p m (after_prune env d) = None"
      "0 < k" "k \<le> nat (max 1 (rc_inline_retries (ds_retry d) + 1))"
      "d1 = (after_prune env d)\<lparr>ds_sent := ds_sent d @ replicate k m,
              ds_recent := jset (dedupe_key p m) (se_sent_at env, i) (ds_recent (after_prune env d))\<rparr>"
      "d' = (if ds_max_size d + 500 < length (ds_recent d1) then prune_recent_cache (se_sent_at env) True d1 else d1)"
  | (failed) e k d1 where "fst (rate_limit env d)" "cached_send env p m (after_prune env d) = None"
      "0 < k" "k \<le> nat (max 1 (rc_inline_retries (ds_retry d) + 1))" "e \<noteq> []"
      "d1 = (after_prune env d)\<lparr>ds_sent := ds_sent d @ replicate k m\<rparr>"
      "if allow \<and> get_retry_count m < rc_retry_max (ds_retry d) \<and> is_retryable e
       then res = Inl (''dispatch_requeued:'' @ e) \<and>
            d' = schedule_retry (se_jitter env) m (get_retry_count m + 1) e (parse_retry_after_ms e) d1
       else res = Inl e \<and>
            d' = (if allow \<and> rc_retry_max (ds_retry d) \<le> get_retry_count m
                  then write_dlq p m e (get_retry_count m) d1 else d1)"
proof -
  let ?n = "nat (max 1 (rc_inline_retries (ds_retry d) + 1))"
  obtain ok d0 where rl: "rate_limit env d = (ok, d0)" by (cases "rate_limit env d")
  obtain r k where ia: "inline_attempts ?n 0 (se_outcomes env) [] = (r, k)"
    by (cases "inline_attempts ?n 0 (se_outcomes env) []")
  have pos: "0 < ?n" by linarith
  have k: "0 < k" "k \<le> ?n"
    using inline_attempts_result[OF pos, of 0 "se_outcomes env" "[]"]
      inline_attempts_bound[of ?n 0 "se_outcomes env" "[]"] ia
    by (simp_all split: sum.splits)
  have d0: "d0 = snd (rate_limit env d)" by (simp add: rl)
  have same: "ds_retry d0 = ds_retry d" "ds_max_size d0 = ds_max_size d" "ds_sent d0 = ds_sent d"
    unfolding d0 by simp_all
  show thesis
  proof (cases "ok \<and> cached_send env p m (after_prune env d) = None")
    case False
    show thesis
    proof (cases ok)
      case True
      with False obtain i where i: "cached_send env p m (after_prune env d) = Some i" by auto
      have "res = Inr i \<and> d' = after_prune env d"
        using assms rl True i
        by (auto simp: send_with_retry_def Let_def after_prune_def cached_send_def split: option.splits if_splits)
      with cached[of i] i True rl show thesis by simp
    next
      case False
      with assms rl have "res = Inl ''rate_limit_exceeded''" "d' = d0" by (auto simp: send_with_retry_def)
      with limited False rl show thesis by simp
    qed
  next
    case True
    then have c: "(case jget (ds_recent (prune_recent_cache (se_cache_now env) False d0)) (dedupe_key p m) of
        None \<Rightarrow> None
      | Some (at_ms, i) \<Rightarrow> if se_cache_now env - at_ms \<le> ds_ttl_ms (prune_recent_cache (se_cache_now env) False d0)
          then Some i else None) = None"
      by (simp add: cached_send_def after_prune_def rl)
    show thesis
    proof (cases r)
      case (Inr i0)
      let ?i = "or_else i0 (ms_id m)"
      have "res = Inr ?i"
        using assms rl True c ia Inr by (simp add: send_with_retry_def Let_def same split: if_splits)
      moreover have "d' = (let d1 = (after_prune env d)\<lparr>ds_sent := ds_sent d @ replicate k m,
            ds_recent := jset (dedupe_key p m) (se_sent_at env, ?i) (ds_recent (after_prune env d))\<rparr>
          in if ds_max_size d + 500 < length (ds_recent d1) then prune_recent_cache (se_sent_at env) True d1 else d1)"
        using assms rl True c ia Inr
        by (simp add: send_with_retry_def Let_def same after_prune_def split: if_splits)
      ultimately show thesis using sent[of ?i k] True k rl by (simp add: Let_def)
    next
      case (Inl e)
      have e: "e \<noteq> []"
        using inline_attempts_result[OF pos, of 0 "se_outcomes env" "[]"] ia Inl by simp
      show thesis
        by (rule failed[of k e]) (use assms rl True c ia Inl e k in
            \<open>auto simp: send_with_retry_def Let_def same after_prune_def or_else_def split: if_splits\<close>)
    qed
  qed
qed


lemma ds_inv_schedule:
  "ds_inv d \<Longrightarrow> 0 \<le> n \<Longrightarrow> n < rc_retry_max (ds_retry d) \<Longrightarrow> is_retryable e \<Longrightarrow>
   ds_inv (schedule_retry j m (n + 1) e a d)"
  by (auto simp: ds_inv_def schedule_retry_def)

lemma ds_inv_dlq: "ds_inv d \<Longrightarrow> ds_inv (write_dlq p m e n d)"
  by (simp add: ds_inv_def)

lemma ds_inv_after_prune: "ds_inv d \<Longrightarrow> ds_inv ((after_prune env d)\<lparr>ds_sent := xs\<rparr>)"
proof -
  assume "ds_inv d"
  moreover have "length (prune_ttl_map now ts ttl None m) \<le> length m"
    for now ttl :: int and ts :: "int \<times> string \<Rightarrow> int" and m :: "(string, int \<times> string) jmap"
    by (auto simp: prune_ttl_map_def Let_def)
  from le_trans[OF this] show ?thesis
    using calculation by (simp add: ds_inv_def after_prune_def) (simp add: prune_recent_cache_def)
qed

lemma ds_inv_limited: "ds_inv d \<Longrightarrow> ds_inv (snd (rate_limit env d))"
  by (simp add: ds_inv_def)

lemma ds_inv_send:
  assumes inv: "ds_inv d" and send: "send_with_retry env p m allow d = (res, d')"
  shows "ds_inv d'"
  using send
proof (cases rule: send_with_retry_cases)
  case limited
  with ds_inv_limited[OF inv] show ?thesis by simp
next
  case (cached i)
  with ds_inv_after_prune[OF inv, where env = env and xs = "ds_sent (after_prune env d)"] show ?thesis by simp
next
  case (sent i k d1)
  let ?d0 = "(after_prune env d)\<lparr>ds_sent := ds_sent d @ replicate k m\<rparr>"
  have d0: "ds_inv ?d0" by (rule ds_inv_after_prune[OF inv])
  have max: "ds_max_size (after_prune env d) = ds_max_size d" by (simp add: after_prune_def)
  have d1: "jwf (ds_recent d1)" "ds_scheduled d1 = ds_scheduled ?d0" "ds_retry d1 = ds_retry ?d0"
    "ds_max_size d1 = ds_max_size d"
    using sent(6) d0 max by (simp_all add: ds_inv_def)
  show ?thesis
  proof (cases "ds_max_size d + 500 < length (ds_recent d1)")
    case True
    have "length (prune_ttl_map (se_sent_at env) fst (ds_ttl_ms d1) (Some (ds_max_size d)) (ds_recent d1))
        \<le> ds_max_size d + 500"
      by (rule le_trans[OF prune_ttl_size]) simp
    then show ?thesis
      using True sent(7) d1 d0 by (simp add: ds_inv_def) (simp add: prune_recent_cache_def d1)
  next
    case False
    with sent(7) d1 d0 show ?thesis by (simp add: ds_inv_def)
  qed
next
  case (failed e k d1)
  have d1: "ds_inv d1" unfolding failed(6) by (rule ds_inv_after_prune[OF inv])
  have "ds_retry d1 = ds_retry d" by (simp add: failed(6) after_prune_def)
  moreover have "0 \<le> get_retry_count m" by (simp add: get_retry_count_def)
  ultimately show ?thesis
    using failed(7) d1 ds_inv_schedule[OF d1, of "get_retry_count m" e] ds_inv_dlq[OF d1]
    by (auto split: if_splits)
qed

lemma send_frame:
  assumes "send_with_retry env p m allow d = (res, d')"
  shows "ds_retry d' = ds_retry d"
  using assms
proof (cases rule: send_with_retry_cases)
  case (failed e k d1)
  then show ?thesis by (auto simp: after_prune_def split: if_splits)
qed (auto simp: after_prune_def)

lemma ds_inv_leased:
  assumes inv: "ds_inv d"
  shows "ds_inv (snd (consume_leased env m d))"
proof (cases "resolve_provider m")
  case None
  with inv show ?thesis by (simp add: consume_leased_def)
next
  case (Some p)
  obtain res d' where send: "send_with_retry env p m False d = (res, d')"
    by (cases "send_with_retry env p m False d")
  have d': "ds_inv d'" by (rule ds_inv_send[OF inv send])
  have "0 \<le> get_retry_count m" by (simp add: get_retry_count_def)
  with inv d' Some send show ?thesis
    by (auto simp: consume_leased_def Let_def ds_inv_dlq not_le intro!: ds_inv_schedule split: sum.split)
qed

datatype dispatch_op =
    DsLeased send_env message
  | DsBasic send_env message
  | DsTimer nat
  | DsStart
  | DsStop

fun dispatch_step :: "dispatch_op \<Rightarrow> dispatch \<Rightarrow> dispatch" where
  "dispatch_step (DsLeased env m) d = snd (consume_leased env m d)"
| "dispatch_step (DsBasic env m) d = dispatch_outbound env m d"
| "dispatch_step (DsTimer n) d = retry_timer n d"
| "dispatch_step DsStart d = dispatch_start d"
| "dispatch_step DsStop d = dispatch_stop d"

interpretation ds: machine dispatch_step ds_inv
proof
  fix d e
  assume inv: "ds_inv d"
  show "ds_inv (dispatch_step e d)"
  proof (cases e)
    case (DsLeased env m)
    with inv ds_inv_leased show ?thesis by simp
  next
    case (DsBasic env m)
    with inv show ?thesis
      using ds_inv_send[OF inv] by (simp add: dispatch_outbound_def prod_eq_iff split: option.split)
  next
    case (DsTimer n)
    have "set (take n xs @ drop (Suc n) xs) \<subseteq> set xs" for xs :: "(int \<times> message) list"
      by (auto dest: in_set_takeD in_set_dropD)
    with inv DsTimer show ?thesis by (fastforce simp: ds_inv_def retry_timer_def)
  qed (use inv in \<open>auto simp: ds_inv_def dispatch_start_def dispatch_stop_def\<close>)
qed

definition dispatch_new ::
  "token_bucket \<Rightarrow> retry_config \<Rightarrow> int \<Rightarrow> nat \<Rightarrow> bool \<Rightarrow> dispatch" where
  "dispatch_new limiter retry ttl_ms max_size has_dlq =
     \<lparr>ds_limiter = limiter, ds_recent = [], ds_scheduled = [], ds_published = [],
      ds_dlq = (if has_dlq then Some [] else None), ds_running = False, ds_retry = retry,
      ds_ttl_ms = ttl_ms, ds_max_size = max_size, ds_sent = []\<rparr>"

lemma ds_inv_new: "ds_inv (dispatch_new l r t n b)"
  by (simp add: ds_inv_def dispatch_new_def)

text \<open>
  In every run of the service a message waits for a requeue only after a retryable error and
  with a retry count of at most the configured maximum, so retrying ends; and the duplicate cache
  never holds more than 500 entries above its configured size.
\<close>

theorem requeue_bounded:
  "let d = run_steps dispatch_step es (dispatch_new l r t n b)
   in (\<forall>(delay, m) \<in> set (ds_scheduled d).
         1 \<le> ms_dispatch_retry m \<and> ms_dispatch_retry m \<le> rc_retry_max r \<and> is_retryable (ms_dispatch_error m)) \<and>
      length (ds_recent d) \<le> n + 500"
proof -
  let ?d = "run_steps dispatch_step es (dispatch_new l r t n b)"
  have leased: "ds_retry (snd (consume_leased env m d)) = ds_retry d \<and>
      ds_max_size (snd (consume_leased env m d)) = ds_max_size d"
    and basic: "ds_retry (snd (send_with_retry env p m a d)) = ds_retry d \<and>
      ds_max_size (snd (send_with_retry env p m a d)) = ds_max_size d" for env m d p a
  proof -
    show basic: "ds_retry (snd (send_with_retry env p m a d)) = ds_retry d \<and>
      ds_max_size (snd (send_with_retry env p m a d)) = ds_max_size d" for p a
      by (simp add: send_with_retry_def case_prod_beta Let_def split: option.split sum.split)
    obtain p where "resolve_provider m = Some p \<or> resolve_provider m = None" by blast
    show "ds_retry (snd (consume_leased env m d)) = ds_retry d \<and>
      ds_max_size (snd (consume_leased env m d)) = ds_max_size d"
    proof (cases "resolve_provider m")
      case (Some p)
      obtain res d' where send: "send_with_retry env p m False d = (res, d')"
        by (cases "send_with_retry env p m False d")
      with basic[of p False] have "ds_retry d' = ds_retry d" "ds_max_size d' = ds_max_size d" by simp_all
      with send Some show ?thesis by (cases res) (simp_all add: consume_leased_def Let_def)
    qed (simp add: consume_leased_def)
  qed
  have "ds_retry (dispatch_step e d) = ds_retry d \<and> ds_max_size (dispatch_step e d) = ds_max_size d" for e d
    by (cases e) (simp_all add: leased basic dispatch_outbound_def retry_timer_def dispatch_start_def
        dispatch_stop_def split: option.split)
  then have "ds_retry (run_steps dispatch_step es d) = ds_retry d \<and>
      ds_max_size (run_steps dispatch_step es d) = ds_max_size d" for d
    by (induction es arbitrary: d) auto
  from this[of "dispatch_new l r t n b"] have "ds_retry ?d = r" "ds_max_size ?d = n"
    by (simp_all add: dispatch_new_def)
  with ds.inv_run[OF ds_inv_new, of es l r t n b] show ?thesis by (simp add: ds_inv_def Let_def)
qed


definition sample_retry :: retry_config where
  "sample_retry = \<lparr>rc_inline_retries = 1, rc_retry_max = 3, rc_retry_base_ms = 700,
     rc_retry_max_ms = 25000, rc_retry_jitter_ms = 0\<rparr>"

definition sample_env :: "send_outcome \<Rightarrow> int \<Rightarrow> send_env" where
  "sample_env outcome now = \<lparr>se_now = now, se_now_after_wait = now, se_cache_now = now, se_sent_at = now,
     se_outcomes = (\<lambda>_. outcome), se_jitter = 0\<rparr>"

definition sample_dispatch :: dispatch where
  "sample_dispatch = dispatch_new (tb_new 0 None None None) sample_retry 60000 100 True"

theorem requeue_bounded_witness:
  "list_all (\<lambda>(delay, m). ms_dispatch_retry m \<le> 3)
     (ds_scheduled (run_steps dispatch_step [DsStart, DsLeased (sample_env (SendFailed ''timeout'') 5) sample_message]
        sample_dispatch))"
  using requeue_bounded[of "[DsStart, DsLeased (sample_env (SendFailed ''timeout'') 5) sample_message]"
      "tb_new 0 None None None" sample_retry 60000 100 True]
  by (auto simp: Let_def list_all_iff sample_dispatch_def sample_retry_def simp del: run_steps.simps)


section \<open>Every leased message is settled once\<close>

lemma requeued_retryable: "is_retryable ''rate_limit_exceeded''"
  by code_simp

text \<open>
  With a dead-letter store every message leased from the bus is settled in exactly one way:
  sent (or recognised as sent before); put back once, with its retry count increased and within
  the maximum, after a retryable error; or written to the dead-letter store once, when its error
  is not retryable or its retries are used up. Only messages without a provider, and web messages,
  are ignored.
\<close>

theorem leased_settled_once:
  assumes "ds_dlq d = Some recs"
  shows "case consume_leased env m d of
     (Ignored, d') \<Rightarrow> d' = d \<and> resolve_provider m \<in> {None, Some ''web''}
   | (Delivered, d') \<Rightarrow> ds_scheduled d' = ds_scheduled d \<and> ds_dlq d' = Some recs \<and>
       (cached_send env (the (resolve_provider m)) m (after_prune env d) = None \<longrightarrow>
          (\<exists>k. ds_sent d' = ds_sent d @ replicate (Suc k) m))
   | (Requeued, d') \<Rightarrow>
       (\<exists>delay e. ds_scheduled d' = ds_scheduled d @
            [(delay, m\<lparr>ms_dispatch_retry := get_retry_count m + 1, ms_dispatch_error := e\<rparr>)] \<and> is_retryable e) \<and>
       get_retry_count m < rc_retry_max (ds_retry d) \<and> ds_dlq d' = Some recs
   | (DeadLettered, d') \<Rightarrow>
       (\<exists>r. ds_dlq d' = Some (recs @ [r]) \<and> dlq_message_id r = ms_id m \<and> dlq_retry_count r = get_retry_count m \<and>
          (\<not> is_retryable (dlq_error r) \<or> rc_retry_max (ds_retry d) \<le> get_retry_count m)) \<and>
       ds_scheduled d' = ds_scheduled d"
proof -
  have dlq: "\<exists>r. ds_dlq (write_dlq p m e n d') = Some (recs @ [r]) \<and> dlq_message_id r = ms_id m \<and>
      dlq_retry_count r = n \<and> dlq_error r = e" if "ds_dlq d' = Some recs" "e \<noteq> []" for p e n d'
    using that by (simp add: write_dlq_def or_else_def)
  show ?thesis
  proof (cases "resolve_provider m \<in> {None, Some ''web''}")
    case True
    then show ?thesis by (auto simp: consume_leased_def)
  next
    case False
    then obtain p where p: "resolve_provider m = Some p" "p \<noteq> ''web''" by auto
    show ?thesis
    proof (cases "ms_dispatch_error m \<noteq> [] \<and> \<not> is_retryable (ms_dispatch_error m)")
      case True
      with p dlq[OF assms, of "ms_dispatch_error m" p "get_retry_count m"] show ?thesis
        by (auto simp: consume_leased_def)
    next
      case fresh: False
      obtain res d' where send: "send_with_retry env p m False d = (res, d')"
        by (cases "send_with_retry env p m False d")
      have frame: "ds_retry d' = ds_retry d" by (rule send_frame[OF send])
      show ?thesis
      proof (cases res)
        case (Inr i)
        have "ds_scheduled d' = ds_scheduled d \<and> ds_dlq d' = Some recs \<and>
          (cached_send env p m (after_prune env d) = None \<longrightarrow> (\<exists>k. ds_sent d' = ds_sent d @ replicate (Suc k) m))"
          using send
        proof (cases rule: send_with_retry_cases)
          case (sent i' k d1)
          have "ds_sent d1 = ds_sent d @ replicate k m" "ds_scheduled d1 = ds_scheduled d" "ds_dlq d1 = Some recs"
            using sent(6) assms by (simp_all add: after_prune_def)
          then have "ds_sent d' = ds_sent d @ replicate k m" "ds_scheduled d' = ds_scheduled d" "ds_dlq d' = Some recs"
            using sent(7) by simp_all
          moreover have "k = Suc (k - 1)" using sent(4) by simp
          ultimately show ?thesis by metis
        qed (use Inr assms in \<open>auto simp: after_prune_def\<close>)
        moreover have "consume_leased env m d = (Delivered, d')"
          using p fresh send Inr by (auto simp: consume_leased_def)
        ultimately show ?thesis by (simp add: p)
      next
        case (Inl e)
        have e: "e \<noteq> [] \<and> ds_scheduled d' = ds_scheduled d \<and> ds_dlq d' = Some recs"
          using send
        proof (cases rule: send_with_retry_cases)
          case (failed e' k d1)
          with Inl assms show ?thesis by (auto simp: after_prune_def)
        qed (use Inl assms in auto)
        then have e': "or_else e ''send_failed'' = e" by (simp add: or_else_def)
        consider "is_retryable e" "get_retry_count m < rc_retry_max (ds_retry d)"
          | "\<not> is_retryable e \<or> rc_retry_max (ds_retry d) \<le> get_retry_count m" by linarith
        then show ?thesis
        proof cases
          case 1
          with p fresh send Inl e' e frame have run: "consume_leased env m d = (Requeued,
              schedule_retry (se_jitter env) m (get_retry_count m + 1) e (parse_retry_after_ms e) d')"
            by (auto simp: consume_leased_def Let_def)
          have "ds_scheduled (schedule_retry (se_jitter env) m (get_retry_count m + 1) e (parse_retry_after_ms e) d') =
              ds_scheduled d @ [(compute_delay (ds_retry d') (se_jitter env) (get_retry_count m + 1)
                (parse_retry_after_ms e), m\<lparr>ms_dispatch_retry := get_retry_count m + 1, ms_dispatch_error := e\<rparr>)]"
            using e by (simp add: schedule_retry_def)
          with 1 e show ?thesis unfolding run by auto
        next
          case 2
          with p fresh send Inl e' frame have run: "consume_leased env m d =
              (DeadLettered, write_dlq p m e (get_retry_count m) d')"
            by (auto simp: consume_leased_def Let_def)
          from dlq[of d' e p "get_retry_count m"] e 2 show ?thesis unfolding run by auto
        qed
      qed
    qed
  qed
qed

theorem leased_settled_once_witness:
  "\<exists>r. ds_dlq (snd (consume_leased (sample_env (SendFailed ''invalid_auth'') 5) sample_message sample_dispatch)) = Some [r]"
proof -
  have "ds_dlq sample_dispatch = Some []" by (simp add: sample_dispatch_def dispatch_new_def)
  note once = leased_settled_once[OF this,
    where env = "sample_env (SendFailed ''invalid_auth'') 5" and m = sample_message]
  have "fst (consume_leased (sample_env (SendFailed ''invalid_auth'') 5) sample_message sample_dispatch) = DeadLettered"
    by code_simp
  with once show ?thesis
    by (cases "consume_leased (sample_env (SendFailed ''invalid_auth'') 5) sample_message sample_dispatch") auto
qed


section \<open>No message is sent twice\<close>

text \<open>
  A message whose key was sent at \<open>at_ms\<close> and is still cached is not sent again until the
  time-to-live has passed: the service answers with the first message's id and calls nothing. The
  entry of a successful send is in the cache after it, however full the cache is.
\<close>

theorem duplicate_suppressed:
  assumes inv: "ds_inv d" and ttl: "0 \<le> ds_ttl_ms d" "0 < ds_max_size d"
    and send: "send_with_retry env p m allow d = (Inr i, d1)"
    and fresh: "cached_send env p m d = None"
    and same: "dedupe_key p m' = dedupe_key p m"
    and later: "se_cache_now env' \<le> se_sent_at env + ds_ttl_ms d" "fst (rate_limit env' d1)"
  shows "\<exists>d2. send_with_retry env' p m' allow' d1 = (Inr i, d2) \<and> ds_sent d2 = ds_sent d1"
proof -
  let ?k = "dedupe_key p m"
  have wf: "jwf (ds_recent d)" using inv by (simp add: ds_inv_def)
  have none: "cached_send env p m (after_prune env d) = None" using fresh cached_after_prune[OF wf] by simp
  have "jget (ds_recent d1) ?k = Some (se_sent_at env, i) \<and> ds_ttl_ms d1 = ds_ttl_ms d"
    using send
  proof (cases rule: send_with_retry_cases)
    case (sent i' n e1)
    let ?old = "ds_recent (after_prune env d)"
    let ?new = "jset ?k (se_sent_at env, i') ?old"
    have old: "jwf ?old" using wf by (simp add: after_prune_def prune_recent_cache_def)
    have "jget ?old ?k = None"
      using none wf by (auto simp: cached_send_def after_prune_def prune_recent_cache_def prune_ttl_get
          split: option.splits if_splits)
    then have new: "?new = ?old @ [(?k, se_sent_at env, i')]"
      by (intro jset_append_new) (simp add: map_of_eq_None_iff)
    have e1: "ds_recent e1 = ?new" "ds_ttl_ms e1 = ds_ttl_ms d" "ds_max_size e1 = ds_max_size d"
      using sent(6) by (simp_all add: after_prune_def)
    have "jget (prune_ttl_map (se_sent_at env) fst (ds_ttl_ms d) (Some (ds_max_size d)) ?new) ?k =
        Some (se_sent_at env, i')"
    proof -
      let ?f = "filter (fresh_entry (se_sent_at env) fst (ds_ttl_ms d)) ?old"
      have fr: "fresh_entry (se_sent_at env) fst (ds_ttl_ms d) (?k, se_sent_at env, i')"
        using ttl by (simp add: fresh_entry_def)
      have fil: "filter (fresh_entry (se_sent_at env) fst (ds_ttl_ms d)) ?new = ?f @ [(?k, se_sent_at env, i')]"
        using ttl by (simp add: new fresh_entry_def)
      have "jwf (?f @ [(?k, se_sent_at env, i')])"
        using old jwf_filter[OF jwf_jset[OF old], of "fresh_entry (se_sent_at env) fst (ds_ttl_ms d)" ?k
            "(se_sent_at env, i')"] by (simp add: fil)
      moreover have "drop (length (?f @ [x]) - n) (?f @ [x]) = drop (length ?f + 1 - n) ?f @ [x]"
        if "0 < n" for n and x :: "string \<times> int \<times> string"
        using that by simp
      moreover have "(?k, se_sent_at env, i') \<in> set (drop n ?f @ [(?k, se_sent_at env, i')])" for n by simp
      ultimately have "(?k, se_sent_at env, i') \<in>
          set (prune_ttl_map (se_sent_at env) fst (ds_ttl_ms d) (Some (ds_max_size d)) ?new)"
        using ttl fr by (simp add: prune_ttl_map_def fil Let_def new)
      moreover have "jwf (prune_ttl_map (se_sent_at env) fst (ds_ttl_ms d) (Some (ds_max_size d)) ?new)"
        using old by simp
      ultimately show ?thesis by (simp add: jget_iff)
    qed
    with sent(2,7) e1 show ?thesis
      by (auto simp: prune_recent_cache_def split: if_splits)
  next
    case (failed e k d1)
    then show ?thesis by (simp split: if_splits)
  qed (use none in auto)
  then have hit: "cached_send env' p m' d1 = Some i" "ds_ttl_ms d1 = ds_ttl_ms d"
    using same later(1) by (simp_all add: cached_send_def)
  have wf1: "jwf (ds_recent d1)" using ds_inv_send[OF inv send] by (simp add: ds_inv_def)
  obtain r2 d2 where send2: "send_with_retry env' p m' allow' d1 = (r2, d2)"
    by (cases "send_with_retry env' p m' allow' d1")
  have "r2 = Inr i \<and> ds_sent d2 = ds_sent d1"
    using send2
    by (cases rule: send_with_retry_cases)
       (use later(2) hit cached_after_prune[OF wf1, of env' p m'] in \<open>auto simp: after_prune_def\<close>)
  with send2 show ?thesis by simp
qed

theorem duplicate_suppressed_witness:
  "fst (send_with_retry (sample_env (Sent ''x2'') 50000) ''slack'' (sample_message\<lparr>ms_content := ''again''\<rparr>) True
     (snd (send_with_retry (sample_env (Sent ''x1'') 10) ''slack'' sample_message True sample_dispatch))) = Inr ''x1''"
proof -
  let ?d1 = "snd (send_with_retry (sample_env (Sent ''x1'') 10) ''slack'' sample_message True sample_dispatch)"
  have key: "dedupe_key ''slack'' (sample_message\<lparr>ms_content := ''again''\<rparr>) = dedupe_key ''slack'' sample_message"
    by code_simp
  have send: "send_with_retry (sample_env (Sent ''x1'') 10) ''slack'' sample_message True sample_dispatch = (Inr ''x1'', ?d1)"
    by (simp add: prod_eq_iff) code_simp
  have rate: "fst (rate_limit (sample_env (Sent ''x2'') 50000) ?d1)" by code_simp
  have "\<exists>d2. send_with_retry (sample_env (Sent ''x2'') 50000) ''slack'' (sample_message\<lparr>ms_content := ''again''\<rparr>) True ?d1
      = (Inr ''x1'', d2) \<and> ds_sent d2 = ds_sent ?d1"
    by (rule duplicate_suppressed[OF _ _ _ send _ key _ rate])
       (simp_all add: sample_dispatch_def ds_inv_new, simp_all add: dispatch_new_def cached_send_def sample_env_def)
  then show ?thesis by auto
qed



section \<open>Messages that get lost\<close>

text \<open>
  On the path without leases (and for grouped sends) a message whose error is not retryable is
  dropped while its retry count is below the maximum: it is neither requeued nor written to the
  dead-letter store, although the leased path does write it. The same happens to a message
  refused by the rate limiter.
\<close>

lemma basic_path_drops_non_retryable:
  "let d = dispatch_outbound (sample_env (SendFailed ''channel_not_found'') 5) sample_message sample_dispatch
   in ds_scheduled d = [] \<and> ds_dlq d = Some [] \<and> ds_published d = []"
  by code_simp

lemma basic_path_drops_rate_limited:
  "let d = dispatch_outbound (sample_env (Sent ''x'') 5) sample_message
             (sample_dispatch\<lparr>ds_limiter := tb_new 5 (Some 0) None None\<rparr>)
   in ds_scheduled d = [] \<and> ds_dlq d = Some [] \<and> ds_sent d = []"
  by code_simp

text \<open>
  A leased message is acknowledged before its requeue timer fires; stopping the service clears the
  timers, so the message is neither on the bus nor in the dead-letter store.
\<close>

lemma stop_drops_scheduled_retries:
  "let d = snd (consume_leased (sample_env (SendFailed ''timeout'') 5) sample_message sample_dispatch)
   in length (ds_scheduled d) = 1 \<and>
      (let d = dispatch_stop d in ds_scheduled d = [] \<and> ds_published d = [] \<and> ds_dlq d = Some [])"
  by code_simp

end
