(* ===== verification/StreamBuffer.thy ===== *)
theory StreamBuffer
  imports Messages
begin

text \<open>
  \<open>src/src/channels/stream-buffer.ts\<close>: the buffer between a streaming model and a channel. It
  extracts the new part of each chunk, holds it until a flush is due, and does not flush the same
  text twice in a row. Every operation takes the clock reading it makes.
\<close>

record stream_buffer =
  sb_buffer :: string
  sb_last_flush_at :: int
  sb_flush_count :: nat
  sb_full :: string
  sb_last_source :: string
  sb_last_flushed_key :: string

definition max_full_chars :: nat where
  "max_full_chars = 200000"

definition stream_buffer_new :: stream_buffer where
  "stream_buffer_new =
     \<lparr>sb_buffer = [], sb_last_flush_at = 0, sb_flush_count = 0, sb_full = [], sb_last_source = [],
      sb_last_flushed_key = []\<rparr>"

text \<open>The length of the longest suffix of \<open>a\<close> that is a prefix of \<open>b\<close>, looked for from \<open>n\<close> downwards.\<close>

fun overlap_from :: "nat \<Rightarrow> string \<Rightarrow> string \<Rightarrow> nat" where
  "overlap_from 0 a b = 0"
| "overlap_from (Suc n) a b =
     (if drop (length a - Suc n) a = take (Suc n) b then Suc n else overlap_from n a b)"

definition overlap_suffix_prefix :: "string \<Rightarrow> string \<Rightarrow> nat" where
  "overlap_suffix_prefix a b =
     (if a = [] \<or> b = [] then 0 else overlap_from (min 280 (min (length a) (length b))) a b)"

definition last_chars :: "nat \<Rightarrow> string \<Rightarrow> string" where
  "last_chars n s = drop (length s - n) s"

definition sb_deduplicate :: "string \<Rightarrow> stream_buffer \<Rightarrow> string \<times> stream_buffer" where
  "sb_deduplicate incoming b =
     (if incoming = [] then ([], b)
      else let prev = sb_last_source b; b = b\<lparr>sb_last_source := last_chars 4000 incoming\<rparr>
           in if prev = [] then (incoming, b)
              else if incoming = prev then ([], b)
              else if starts_with prev incoming then (drop (length prev) incoming, b)
              else if starts_with incoming prev then ([], b)
              else let n = overlap_suffix_prefix prev incoming
                   in (if 0 < n then drop n incoming else incoming, b))"

definition sb_append :: "string \<Rightarrow> stream_buffer \<Rightarrow> stream_buffer" where
  "sb_append chunk b =
     (let (delta, b) = sb_deduplicate chunk b
      in if delta = [] then b
         else b\<lparr>sb_buffer := sb_buffer b @ delta,
                sb_full := last_chars max_full_chars (sb_full b @ delta)\<rparr>)"

definition sb_should_flush :: "int \<Rightarrow> int \<Rightarrow> int \<Rightarrow> int \<Rightarrow> stream_buffer \<Rightarrow> bool" where
  "sb_should_flush now interval_ms min_chars max_chars b =
     (if str_trim (sb_buffer b) = [] then False
      else if 0 < max_chars \<and> max_chars \<le> int (length (sb_buffer b)) then True
      else if int (length (sb_buffer b)) < min_chars then False
      else interval_ms \<le> now - sb_last_flush_at b)"

definition flush_key :: "string \<Rightarrow> string" where
  "flush_key content = str_lower (squeeze_ws False content)"

definition sb_flush :: "int \<Rightarrow> stream_buffer \<Rightarrow> string option \<times> stream_buffer" where
  "sb_flush now b =
     (let content = str_trim (sb_buffer b); b = b\<lparr>sb_buffer := [], sb_last_flush_at := now\<rparr>
      in if content = [] then (None, b)
         else let key = flush_key content
              in if key = sb_last_flushed_key b then (None, b)
                 else (Some content, b\<lparr>sb_last_flushed_key := key, sb_flush_count := Suc (sb_flush_count b)\<rparr>))"

definition has_streamed :: "stream_buffer \<Rightarrow> bool" where
  "has_streamed b \<longleftrightarrow> 0 < sb_flush_count b"

datatype sb_op = SbAppend string | SbFlush int

text \<open>A run, with the texts the flushes returned.\<close>

fun sb_run :: "sb_op list \<Rightarrow> stream_buffer \<Rightarrow> string list \<times> stream_buffer" where
  "sb_run [] b = ([], b)"
| "sb_run (SbAppend c # es) b = sb_run es (sb_append c b)"
| "sb_run (SbFlush now # es) b =
     (let (out, b) = sb_flush now b; (outs, b) = sb_run es b
      in (case out of None \<Rightarrow> outs | Some s \<Rightarrow> s # outs, b))"


section \<open>Flushing\<close>

lemma squeeze_empty: "squeeze_ws g s = [] \<Longrightarrow> filter (\<lambda>c. \<not> is_ws c) s = []"
  by (induction g s rule: squeeze_ws.induct) (simp_all split: if_splits)

lemma flush_key_nonempty: "str_trim s \<noteq> [] \<Longrightarrow> flush_key (str_trim s) \<noteq> []"
proof
  assume ne: "str_trim s \<noteq> []" and "flush_key (str_trim s) = []"
  then have "squeeze_ws False (str_trim s) = []" by (simp add: flush_key_def str_lower_def)
  then have "\<forall>c \<in> set (str_trim s). is_ws c" using squeeze_empty by (simp add: filter_empty_conv)
  moreover have "\<not> is_ws (last (str_trim s))"
    using ne hd_dropWhile[of is_ws "rev (dropWhile is_ws s)"] by (simp add: str_trim_def last_rev)
  ultimately show False using ne by simp
qed

lemma sb_append_frame [simp]:
  "sb_last_flushed_key (sb_append c b) = sb_last_flushed_key b"
  "sb_flush_count (sb_append c b) = sb_flush_count b"
  by (simp_all add: sb_append_def sb_deduplicate_def case_prod_beta Let_def)

lemma sb_run_keys:
  "distinct_adj (sb_last_flushed_key b # map flush_key (fst (sb_run es b))) \<and>
   sb_flush_count (snd (sb_run es b)) = sb_flush_count b + length (fst (sb_run es b)) \<and>
   [] \<notin> set (fst (sb_run es b))"
proof (induction es b rule: sb_run.induct)
  case (3 now es b)
  obtain out b' where out: "sb_flush now b = (out, b')" by (cases "sb_flush now b")
  have IH: "distinct_adj (sb_last_flushed_key b' # map flush_key (fst (sb_run es b'))) \<and>
      sb_flush_count (snd (sb_run es b')) = sb_flush_count b' + length (fst (sb_run es b')) \<and>
      [] \<notin> set (fst (sb_run es b'))"
    using 3[OF out[symmetric] refl] by simp
  show ?case
  proof (cases out)
    case None
    then have "sb_last_flushed_key b' = sb_last_flushed_key b" "sb_flush_count b' = sb_flush_count b"
      using out by (auto simp: sb_flush_def Let_def split: if_splits)
    with IH None out show ?thesis by (simp add: case_prod_beta)
  next
    case (Some s)
    then have "sb_last_flushed_key b' = flush_key s" "flush_key s \<noteq> sb_last_flushed_key b"
      "sb_flush_count b' = Suc (sb_flush_count b)" "s \<noteq> []"
      using out by (auto simp: sb_flush_def Let_def split: if_splits)
    with IH Some out show ?thesis by (simp add: case_prod_beta distinct_adj_Cons_Cons)
  qed
qed simp_all

text \<open>
  Whatever chunks arrive and whenever flushes happen, a flush never returns a blank text, two
  flushes in a row never return the same text (up to white space and case), and the flush counter
  counts the texts returned.
\<close>

theorem stream_flushes_distinct:
  "let (outs, b) = sb_run es stream_buffer_new
   in distinct_adj (map flush_key outs) \<and> [] \<notin> set outs \<and> sb_flush_count b = length outs"
  using sb_run_keys[of stream_buffer_new es] distinct_adj_ConsD
  by (fastforce simp: case_prod_beta stream_buffer_new_def)


section \<open>Extracting the new text\<close>

lemma sb_delta_suffix: "\<exists>old. chunk = old @ fst (sb_deduplicate chunk b)"
proof -
  have "\<exists>n. fst (sb_deduplicate chunk b) = drop n chunk"
    by (auto simp: sb_deduplicate_def Let_def intro: exI[of _ 0] exI[of _ "length chunk"])
  then show ?thesis by (metis append_take_drop_id)
qed

lemma sb_full_bound: "length (sb_full b) \<le> max_full_chars \<Longrightarrow> length (sb_full (sb_append c b)) \<le> max_full_chars"
proof -
  assume full: "length (sb_full b) \<le> max_full_chars"
  have "sb_full (snd (sb_deduplicate c b)) = sb_full b"
    by (simp add: sb_deduplicate_def Let_def)
  moreover have "length (last_chars max_full_chars s) \<le> max_full_chars" for s
    by (simp add: last_chars_def)
  ultimately show ?thesis using full by (simp add: sb_append_def case_prod_beta)
qed

text \<open>Snapshots: each chunk repeats the text so far and extends it.\<close>

fun growing :: "string \<Rightarrow> string list \<Rightarrow> bool" where
  "growing s [] = True"
| "growing s (c # cs) = (starts_with s c \<and> growing c cs)"

lemma sb_append_snapshot:
  assumes "sb_last_source b = s" "sb_full b = s" "starts_with s c" "length c \<le> 4000"
  shows "sb_full (sb_append c b) = c \<and> sb_last_source (sb_append c b) = c \<and>
    sb_buffer (sb_append c b) = sb_buffer b @ drop (length s) c"
proof -
  from assms(3) obtain t where c: "c = s @ t" by (auto simp: starts_with_iff)
  have last: "last_chars 4000 c = c" using assms(4) by (simp add: last_chars_def)
  have full: "last_chars max_full_chars c = c" using assms(4) by (simp add: last_chars_def max_full_chars_def)
  consider "c = []" | "c \<noteq> []" "t = []" | "c \<noteq> []" "t \<noteq> []" by blast
  then show ?thesis
  proof cases
    case 1
    with c assms show ?thesis by (simp add: sb_append_def sb_deduplicate_def)
  next
    case 2
    with c assms last show ?thesis by (simp add: sb_append_def sb_deduplicate_def Let_def)
  next
    case 3
    with c assms last full show ?thesis
      by (cases "s = []") (simp_all add: sb_append_def sb_deduplicate_def Let_def starts_with_iff)
  qed
qed

text \<open>
  A source that sends snapshots of up to 4,000 characters, each extending the one before, is
  accumulated without loss or repetition: the full text and the buffered text are the last
  snapshot.
\<close>

theorem snapshots_accumulate_exactly:
  assumes "growing [] cs" and "\<forall>c \<in> set cs. length c \<le> 4000" and "cs \<noteq> []"
  shows "sb_full (fold sb_append cs stream_buffer_new) = last cs \<and>
         sb_buffer (fold sb_append cs stream_buffer_new) = last cs"
proof -
  have "sb_full (fold sb_append cs b) = last (s # cs) \<and> sb_buffer (fold sb_append cs b) = last (s # cs)"
    if "growing s cs" "\<forall>c \<in> set cs. length c \<le> 4000" "sb_last_source b = s" "sb_full b = s" "sb_buffer b = s"
    for s b
    using that
  proof (induction cs arbitrary: s b)
    case (Cons c cs)
    then have "starts_with s c" "length c \<le> 4000" by simp_all
    with sb_append_snapshot[of b s c] Cons.prems have step: "sb_full (sb_append c b) = c"
      "sb_last_source (sb_append c b) = c" "sb_buffer (sb_append c b) = c"
      by (auto simp: starts_with_iff)
    from Cons.IH[OF _ _ step(2,1,3)] Cons.prems show ?case by simp
  qed simp
  from this[of "[]" stream_buffer_new] assms show ?thesis by (simp add: stream_buffer_new_def)
qed

theorem snapshots_accumulate_exactly_witness:
  "sb_full (fold sb_append [''He'', ''Hello'', ''Hello w''] stream_buffer_new) = ''Hello w''"
  using snapshots_accumulate_exactly[of "[''He'', ''Hello'', ''Hello w'']"] by simp

text \<open>
  Beyond 4,000 characters only the tail of the previous snapshot is remembered, the next snapshot
  no longer begins with it, and the whole text is appended a second time.
\<close>

lemma overlap_from_none: "\<forall>k. 0 < k \<and> k \<le> n \<longrightarrow> drop (length a - k) a \<noteq> take k b \<Longrightarrow> overlap_from n a b = 0"
  by (induction n) auto

lemma long_snapshots_repeat:
  assumes s: "s = CHR ''a'' # replicate 4000 CHR ''b''"
  shows "sb_buffer (sb_append (s @ ''c'') (sb_append s stream_buffer_new)) = s @ s @ ''c''"
proof -
  define bs where "bs = replicate 4000 CHR ''b''"
  have bs: "length bs = 4000" "set bs = {CHR ''b''}" "bs \<noteq> []" and s': "s = CHR ''a'' # bs"
    by (simp_all add: bs_def s)
  have "last_chars 4000 s = bs" "last_chars max_full_chars s = s"
    by (simp_all add: last_chars_def s' bs max_full_chars_def)
  then have first: "sb_append s stream_buffer_new =
      stream_buffer_new\<lparr>sb_last_source := bs, sb_buffer := s, sb_full := s\<rparr>"
    by (simp add: sb_append_def sb_deduplicate_def s' stream_buffer_new_def Let_def)
  have hd: "bs \<noteq> CHR ''a'' # xs" "bs @ ys \<noteq> CHR ''a'' # xs" for xs ys
    using bs by (cases bs; auto)+
  have "drop (length bs - k) bs \<noteq> take k (s @ ''c'')" if pos: "0 < k" for k
  proof
    assume eq: "drop (length bs - k) bs = take k (s @ ''c'')"
    obtain j where "k = Suc j" using gr0_implies_Suc[OF pos] by auto
    then have "CHR ''a'' \<in> set (take k (s @ ''c''))" by (simp add: s')
    then have "CHR ''a'' \<in> set bs" unfolding eq[symmetric] by (rule in_set_dropD)
    then show False by (simp add: bs)
  qed
  then have "overlap_suffix_prefix bs (s @ ''c'') = 0"
    by (simp add: overlap_suffix_prefix_def overlap_from_none)
  moreover have "\<not> starts_with bs (s @ ''c'')" "\<not> starts_with (s @ ''c'') bs" "bs \<noteq> s @ ''c''"
    unfolding starts_with_iff s' using hd by (metis append_Cons)+
  ultimately show ?thesis
    using bs(3) unfolding first by (simp add: sb_append_def sb_deduplicate_def Let_def stream_buffer_new_def s')
qed

text \<open>A source that sends increments loses an increment equal to the one before.\<close>

lemma repeated_increment_lost:
  "sb_full (fold sb_append [''ha'', ''ha''] stream_buffer_new) = ''ha''"
  by (simp add: sb_append_def sb_deduplicate_def stream_buffer_new_def last_chars_def max_full_chars_def Let_def)

end
