(* ===== verification/CronExpr.thy ===== *)
theory CronExpr
  imports Prelude Complex_Main "HOL-Library.Word"
begin

text \<open>
  \<open>src/src/cron/service.ts\<close>, the pure part: cron expressions, the stagger hash and the retry
  policies (with their types in \<open>src/src/cron/types.ts\<close>).

  A parsed field is the list of the numbers the source keeps in a \<open>Set\<close>: \<open>Number(part)\<close>
  may be a fraction, so they are rationals (the exact value of the literal; a double rounds a
  literal of more than fifteen digits). \<open>js_number\<close> is \<open>None\<close> where the source's
  \<open>Number\<close> is not finite. Character codes are bytes.
\<close>

section \<open>Literals and splitting\<close>

definition cron_digit :: "char \<Rightarrow> bool" where
  "cron_digit c = (48 \<le> (of_char c :: nat) \<and> (of_char c :: nat) \<le> 57)"

definition digit_val :: "char \<Rightarrow> nat" where
  "digit_val c = of_char c - 48"

definition all_digits :: "string \<Rightarrow> bool" where
  "all_digits s = list_all cron_digit s"

definition nat_of_digits :: "string \<Rightarrow> nat" where
  "nat_of_digits s = foldl (\<lambda>a c. 10 * a + digit_val c) 0 s"

definition hex_val :: "char \<Rightarrow> nat option" where
  "hex_val c = (let n = of_char (lower_char c) :: nat
     in if 48 \<le> n \<and> n \<le> 57 then Some (n - 48) else if 97 \<le> n \<and> n \<le> 102 then Some (n - 87) else None)"

fun radix_val :: "nat \<Rightarrow> nat \<Rightarrow> string \<Rightarrow> nat option" where
  "radix_val b a [] = Some a"
| "radix_val b a (c # s) =
     (case hex_val c of None \<Rightarrow> None | Some d \<Rightarrow> if d < b then radix_val b (b * a + d) s else None)"

definition strip_sign :: "string \<Rightarrow> bool \<times> string" where
  "strip_sign s = (case s of [] \<Rightarrow> (False, s)
     | c # r \<Rightarrow> if c = CHR ''-'' then (True, r) else if c = CHR ''+'' then (False, r) else (False, s))"

definition is_exp_char :: "char \<Rightarrow> bool" where
  "is_exp_char c = (c = CHR ''e'' \<or> c = CHR ''E'')"

definition js_exponent :: "string \<Rightarrow> rat option" where
  "js_exponent ex = (case ex of [] \<Rightarrow> Some 1
     | _ # e \<Rightarrow> (case strip_sign e of (neg, ds) \<Rightarrow>
         if ds = [] \<or> \<not> all_digits ds then None
         else Some (if neg then 1 / 10 ^ nat_of_digits ds else 10 ^ nat_of_digits ds)))"

definition js_unsigned :: "string \<Rightarrow> rat option" where
  "js_unsigned s =
     (let m = takeWhile (\<lambda>c. \<not> is_exp_char c) s; ex = dropWhile (\<lambda>c. \<not> is_exp_char c) s;
          ip = takeWhile (\<lambda>c. c \<noteq> CHR ''.'') m; fp = tl (dropWhile (\<lambda>c. c \<noteq> CHR ''.'') m)
      in if \<not> all_digits ip \<or> \<not> all_digits fp \<or> (ip = [] \<and> fp = []) then None
         else case js_exponent ex of None \<Rightarrow> None
           | Some k \<Rightarrow> Some ((of_nat (nat_of_digits ip) + of_nat (nat_of_digits fp) / 10 ^ length fp) * k))"

definition radix_of_prefix :: "string \<Rightarrow> nat option" where
  "radix_of_prefix p = (let p = str_lower p
     in if p = ''0x'' then Some 16 else if p = ''0o'' then Some 8 else if p = ''0b'' then Some 2 else None)"

definition js_number :: "string \<Rightarrow> rat option" where
  "js_number s = (case radix_of_prefix (take 2 s) of
       Some b \<Rightarrow> (if drop 2 s = [] then None else map_option of_nat (radix_val b 0 (drop 2 s)))
     | None \<Rightarrow> (case strip_sign s of (neg, r) \<Rightarrow>
         map_option (\<lambda>v. if neg then - v else v) (js_unsigned r)))"

fun split_on :: "(char \<Rightarrow> bool) \<Rightarrow> string \<Rightarrow> string list" where
  "split_on p [] = [[]]"
| "split_on p (c # s) =
     (if p c then [] # split_on p s
      else case split_on p s of [] \<Rightarrow> [[c]] | w # ws \<Rightarrow> (c # w) # ws)"

definition split_ws :: "string \<Rightarrow> string list" where
  "split_ws s = (if s = [] then [[]] else filter (\<lambda>w. w \<noteq> []) (split_on is_ws s))"


section \<open>Cron fields\<close>

function range_step :: "nat \<Rightarrow> nat \<Rightarrow> nat \<Rightarrow> nat list" where
  "range_step i n mx = (if n = 0 \<or> mx < i then [] else i # range_step (i + n) n mx)"
  by pat_completeness auto
termination by (relation "measure (\<lambda>(i, n, mx). Suc mx - i)") auto

declare range_step.simps [simp del]

text \<open>The largest integer literal whose \<open>Number\<close> is still finite.\<close>

definition js_finite_nat :: "nat \<Rightarrow> bool" where
  "js_finite_nat n \<longleftrightarrow> n < 2 ^ 1024 - 2 ^ 970"

definition step_part :: "string \<Rightarrow> nat option" where
  "step_part p = (if take 2 p = ''*/'' \<and> drop 2 p \<noteq> [] \<and> all_digits (drop 2 p)
                  then Some (nat_of_digits (drop 2 p)) else None)"

definition range_part :: "string \<Rightarrow> (nat \<times> nat) option" where
  "range_part p =
     (let a = takeWhile cron_digit p; r = dropWhile cron_digit p
      in case r of [] \<Rightarrow> None
         | c # b \<Rightarrow> if c = CHR ''-'' \<and> a \<noteq> [] \<and> b \<noteq> [] \<and> all_digits b
                    then Some (nat_of_digits a, nat_of_digits b) else None)"

definition parse_part :: "nat \<Rightarrow> nat \<Rightarrow> string \<Rightarrow> rat list option" where
  "parse_part mn mx p =
     (if p = [] then Some []
      else if p = ''*'' then Some (map of_nat [mn..<Suc mx])
      else case step_part p of
        Some n \<Rightarrow> if \<not> js_finite_nat n \<or> n = 0 then None else Some (map of_nat (range_step mn n mx))
      | None \<Rightarrow> (case range_part p of
          Some (a, b) \<Rightarrow> if b < a \<or> a < mn \<or> mx < b then None else Some (map of_nat [a..<Suc b])
        | None \<Rightarrow> (case js_number p of
            None \<Rightarrow> None
          | Some v \<Rightarrow> if v < of_nat mn \<or> of_nat mx < v then None else Some [v])))"

fun parse_parts :: "nat \<Rightarrow> nat \<Rightarrow> string list \<Rightarrow> rat list \<Rightarrow> rat list option" where
  "parse_parts mn mx [] out = Some out"
| "parse_parts mn mx (p # ps) out =
     (case parse_part mn mx (str_trim p) of None \<Rightarrow> None | Some vs \<Rightarrow> parse_parts mn mx ps (out @ vs))"

definition parse_field :: "string \<Rightarrow> nat \<Rightarrow> nat \<Rightarrow> rat list option" where
  "parse_field value mn mx = parse_parts mn mx (split_on (\<lambda>c. c = CHR '','') value) []"

record parsed_cron =
  pc_minute :: "rat list"
  pc_hour :: "rat list"
  pc_day :: "rat list"
  pc_month :: "rat list"
  pc_weekday :: "rat list"

record cron_parts =
  cp_minute :: nat
  cp_hour :: nat
  cp_day :: nat
  cp_month :: nat
  cp_weekday :: nat

definition fold_weekday :: "rat list \<Rightarrow> rat list" where
  "fold_weekday ws = (if 7 \<in> set ws then filter (\<lambda>w. w \<noteq> 7) ws @ [0] else ws)"

definition parse_cron :: "string \<Rightarrow> parsed_cron option" where
  "parse_cron expr = (case split_ws (str_trim expr) of
       [f0, f1, f2, f3, f4] \<Rightarrow>
         (case (parse_field f0 0 59, parse_field f1 0 23, parse_field f2 1 31, parse_field f3 1 12, parse_field f4 0 7) of
            (Some mi, Some h, Some d, Some mo, Some w) \<Rightarrow>
              Some \<lparr>pc_minute = mi, pc_hour = h, pc_day = d, pc_month = mo, pc_weekday = fold_weekday w\<rparr>
          | _ \<Rightarrow> None)
     | _ \<Rightarrow> None)"

definition field_has :: "rat list \<Rightarrow> nat \<Rightarrow> bool" where
  "field_has f n \<longleftrightarrow> of_nat n \<in> set f"

definition match_parsed_cron :: "parsed_cron \<Rightarrow> cron_parts \<Rightarrow> bool" where
  "match_parsed_cron pc p \<longleftrightarrow>
     field_has (pc_minute pc) (cp_minute p) \<and> field_has (pc_hour pc) (cp_hour p)
     \<and> field_has (pc_day pc) (cp_day p) \<and> field_has (pc_month pc) (cp_month p)
     \<and> field_has (pc_weekday pc) (cp_weekday p)"


section \<open>Stagger\<close>

definition stagger_hash :: "string \<Rightarrow> 32 word" where
  "stagger_hash s = foldl (\<lambda>h c. push_bit 5 h - h + of_nat (of_char c)) 0 s"

definition deterministic_stagger :: "string \<Rightarrow> int \<Rightarrow> int" where
  "deterministic_stagger job_id max_ms = \<bar>sint (stagger_hash job_id)\<bar> mod max_ms"

definition is_top_of_hour_cron :: "string \<Rightarrow> bool" where
  "is_top_of_hour_cron expr =
     (let fields = split_ws (str_trim expr)
      in length fields = 5 \<and> fields ! 0 = ''0'' \<and> str_includes ''*'' (fields ! 1))"

definition top_of_hour_stagger_ms :: int where
  "top_of_hour_stagger_ms = 5 * 60000"


section \<open>Schedules and retry policies\<close>

datatype schedule_kind = KAt | KEvery | KCron

record cron_schedule =
  sc_kind :: schedule_kind
  sc_at_ms :: "int option"
  sc_every_ms :: "int option"
  sc_expr :: "string option"
  sc_tz :: "string option"
  sc_stagger_ms :: "int option"

record retry_policy =
  rp_max_retries :: int
  rp_backoff_ms :: "int list"

definition default_retry_recurring :: retry_policy where
  "default_retry_recurring = \<lparr>rp_max_retries = -1, rp_backoff_ms = [30000, 60000, 300000, 900000, 3600000]\<rparr>"

definition default_retry_oneshot :: retry_policy where
  "default_retry_oneshot = \<lparr>rp_max_retries = 3, rp_backoff_ms = [30000, 60000, 300000]\<rparr>"

definition resolve_stagger_max_ms :: "cron_schedule \<Rightarrow> int" where
  "resolve_stagger_max_ms sc =
     (case sc_stagger_ms sc of Some n \<Rightarrow> if 0 < n then n else
        (case sc_expr sc of Some e \<Rightarrow> if sc_kind sc = KCron \<and> e \<noteq> [] \<and> is_top_of_hour_cron e then top_of_hour_stagger_ms else 0 | None \<Rightarrow> 0)
      | None \<Rightarrow>
        (case sc_expr sc of Some e \<Rightarrow> if sc_kind sc = KCron \<and> e \<noteq> [] \<and> is_top_of_hour_cron e then top_of_hour_stagger_ms else 0 | None \<Rightarrow> 0))"

definition get_retry_delay :: "retry_policy \<Rightarrow> int \<Rightarrow> int" where
  "get_retry_delay policy attempt =
     (let idx = nat (max 0 (min (attempt - 1) (int (length (rp_backoff_ms policy)) - 1)))
      in if idx < length (rp_backoff_ms policy) \<and> rp_backoff_ms policy ! idx \<noteq> 0
         then rp_backoff_ms policy ! idx else 30000)"

definition default_retry_policy :: "schedule_kind \<Rightarrow> retry_policy" where
  "default_retry_policy k = (if k = KAt then default_retry_oneshot else default_retry_recurring)"

definition should_retry :: "retry_policy \<Rightarrow> int \<Rightarrow> bool" where
  "should_retry policy attempt =
     (if rp_max_retries policy < 0 then True else attempt \<le> rp_max_retries policy)"


section \<open>What parsing yields\<close>

lemma range_step_set: "0 < n \<Longrightarrow> set (range_step i n mx) = {v. i \<le> v \<and> v \<le> mx \<and> n dvd v - i}"
proof (induction i n mx rule: range_step.induct)
  case (1 i n mx)
  show ?case
  proof (cases "mx < i")
    case True
    then show ?thesis by (auto simp: range_step.simps)
  next
    case False
    with 1 have ih: "set (range_step (i + n) n mx) = {v. i + n \<le> v \<and> v \<le> mx \<and> n dvd v - (i + n)}" by simp
    have eq: "{v. i \<le> v \<and> v \<le> mx \<and> n dvd v - i}
        = insert i {v. i + n \<le> v \<and> v \<le> mx \<and> n dvd v - (i + n)}" (is "?L = insert i ?R")
    proof (rule set_eqI)
      fix v
      show "v \<in> ?L \<longleftrightarrow> v \<in> insert i ?R"
      proof (cases "i + n \<le> v")
        case True
        then have "v - i = v - (i + n) + n" by simp
        then have "n dvd v - i \<longleftrightarrow> n dvd v - (i + n)" by (metis dvd_add_left_iff dvd_refl)
        with True \<open>0 < n\<close> show ?thesis by auto
      next
        case short: False
        have "n dvd v - i \<Longrightarrow> i \<le> v \<Longrightarrow> v = i"
          using short by (metis dvd_imp_le le_add_diff_inverse nat_add_left_cancel_le not_gr_zero diff_is_0_eq le_antisym)
        with short False show ?thesis by auto
      qed
    qed
    have "set (range_step i n mx) = insert i (set (range_step (i + n) n mx))"
      using False \<open>0 < n\<close> by (subst range_step.simps) simp
    then show ?thesis unfolding ih eq .
  qed
qed

lemma parse_part_bounds:
  assumes "parse_part mn mx p = Some vs" and "v \<in> set vs"
  shows "of_nat mn \<le> v \<and> v \<le> of_nat mx"
  using assms
  by (auto simp: parse_part_def range_step_set split: if_splits option.splits prod.splits)

lemma parse_parts_bounds:
  "parse_parts mn mx ps out = Some vs \<Longrightarrow> (\<And>v. v \<in> set out \<Longrightarrow> of_nat mn \<le> v \<and> v \<le> of_nat mx)
   \<Longrightarrow> v \<in> set vs \<Longrightarrow> of_nat mn \<le> v \<and> v \<le> of_nat mx"
proof (induction mn mx ps out rule: parse_parts.induct)
  case (1 mn mx out)
  then show ?case by auto
next
  case (2 mn mx p ps out)
  from "2.prems"(1) obtain ws where ws: "parse_part mn mx (str_trim p) = Some ws"
    by (cases "parse_part mn mx (str_trim p)") simp_all
  show ?case
  proof (rule "2.IH"[OF ws])
    show "parse_parts mn mx ps (out @ ws) = Some vs" using "2.prems"(1) ws by simp
    show "of_nat mn \<le> u \<and> u \<le> of_nat mx" if "u \<in> set (out @ ws)" for u
      using that "2.prems"(2) parse_part_bounds[OF ws] by auto
  qed (rule "2.prems"(3))
qed

lemma parse_field_bounds:
  "parse_field s mn mx = Some vs \<Longrightarrow> v \<in> set vs \<Longrightarrow> of_nat mn \<le> v \<and> v \<le> of_nat mx"
  unfolding parse_field_def by (rule parse_parts_bounds) auto

definition cron_in_range :: "parsed_cron \<Rightarrow> bool" where
  "cron_in_range pc \<longleftrightarrow>
     (\<forall>v \<in> set (pc_minute pc). 0 \<le> v \<and> v \<le> 59) \<and> (\<forall>v \<in> set (pc_hour pc). 0 \<le> v \<and> v \<le> 23)
     \<and> (\<forall>v \<in> set (pc_day pc). 1 \<le> v \<and> v \<le> 31) \<and> (\<forall>v \<in> set (pc_month pc). 1 \<le> v \<and> v \<le> 12)
     \<and> (\<forall>v \<in> set (pc_weekday pc). 0 \<le> v \<and> v < 7)"

lemma fold_weekday_bounds:
  "(\<And>v. v \<in> set ws \<Longrightarrow> 0 \<le> v \<and> v \<le> 7) \<Longrightarrow> v \<in> set (fold_weekday ws) \<Longrightarrow> 0 \<le> v \<and> v < 7"
  unfolding fold_weekday_def by (cases "7 \<in> set ws") (fastforce simp: less_le)+

lemma parse_cron_fields:
  assumes "parse_cron e = Some pc"
  obtains f0 f1 f2 f3 f4 w where "split_ws (str_trim e) = [f0, f1, f2, f3, f4]"
    and "parse_field f0 0 59 = Some (pc_minute pc)" and "parse_field f1 0 23 = Some (pc_hour pc)"
    and "parse_field f2 1 31 = Some (pc_day pc)" and "parse_field f3 1 12 = Some (pc_month pc)"
    and "parse_field f4 0 7 = Some w" and "pc_weekday pc = fold_weekday w"
  using assms by (auto simp: parse_cron_def split: list.splits option.splits prod.splits)

lemmas cron_eval = parse_cron_def parse_field_def parse_part_def split_ws_def str_trim_def is_ws_def
  step_part_def range_part_def js_finite_nat_def cron_digit_def digit_val_def all_digits_def
  nat_of_digits_def js_number_def radix_of_prefix_def str_lower_def lower_char_def strip_sign_def
  js_unsigned_def is_exp_char_def js_exponent_def fold_weekday_def range_step.simps Let_def

text \<open>A parsed cron expression holds only numbers a date can have: every minute, hour, day and
  month is within its range, and the weekday 7 has been folded into Sunday.\<close>

theorem parse_cron_in_range:
  assumes "parse_cron e = Some pc"
  shows "cron_in_range pc"
proof -
  obtain f0 f1 f2 f3 f4 w where p: "parse_field f0 0 59 = Some (pc_minute pc)"
      "parse_field f1 0 23 = Some (pc_hour pc)" "parse_field f2 1 31 = Some (pc_day pc)"
      "parse_field f3 1 12 = Some (pc_month pc)" "parse_field f4 0 7 = Some w"
    and wd: "pc_weekday pc = fold_weekday w"
    using assms by (rule parse_cron_fields)
  note b = p[THEN parse_field_bounds]
  have w: "v \<in> set w \<Longrightarrow> 0 \<le> v \<and> v \<le> 7" for v using b(5)[of v] by simp
  show ?thesis
    unfolding cron_in_range_def wd
    using b(1) b(2) b(3) b(4) fold_weekday_bounds[OF w] by auto
qed

theorem parse_cron_in_range_witness:
  "cron_in_range \<lparr>pc_minute = [0, 30], pc_hour = [9], pc_day = [2, 3], pc_month = [6], pc_weekday = [1, 0]\<rparr>"
proof (rule parse_cron_in_range)
  show "parse_cron '' */30 9 2-3 6 1,7 '' =
      Some \<lparr>pc_minute = [0, 30], pc_hour = [9], pc_day = [2, 3], pc_month = [6], pc_weekday = [1, 0]\<rparr>"
    by (simp add: cron_eval)
qed

lemma all_digits_no_char: "all_digits s \<Longrightarrow> c \<in> set s \<Longrightarrow> cron_digit c"
  by (simp add: all_digits_def list_all_iff)

lemma range_part_digits:
  assumes "all_digits a" and "a \<noteq> []" and "all_digits b" and "b \<noteq> []"
  shows "range_part (a @ CHR ''-'' # b) = Some (nat_of_digits a, nat_of_digits b)"
proof -
  have nd: "\<not> cron_digit (CHR ''-'')" by (simp add: cron_digit_def)
  have "takeWhile cron_digit (a @ CHR ''-'' # b) = a" "dropWhile cron_digit (a @ CHR ''-'' # b) = CHR ''-'' # b"
    using assms nd by (simp_all add: all_digits_def list_all_iff takeWhile_append2 dropWhile_append2)
  with assms show ?thesis by (simp add: range_part_def)
qed

lemma step_part_star: "ds \<noteq> [] \<Longrightarrow> all_digits ds \<Longrightarrow> step_part (''*/'' @ ds) = Some (nat_of_digits ds)"
  by (simp add: step_part_def)

lemma step_part_digit: "all_digits (take 1 p) \<Longrightarrow> p \<noteq> [] \<Longrightarrow> step_part p = None"
  by (cases p) (auto simp: step_part_def all_digits_def cron_digit_def)

text \<open>What a cron field part means: \<open>*\<close> is the whole range, \<open>*/n\<close> is every
  n-th value counted from the lowest, \<open>a-b\<close> the values from a to b when they lie in the range,
  and a zero step, an inverted range or one that leaves the range is refused.\<close>

theorem cron_part_denotes:
  assumes "all_digits a" and "a \<noteq> []" and "all_digits b" and "b \<noteq> []" and "js_finite_nat (nat_of_digits a)"
  shows "map_option set (parse_part mn mx ''*'') = Some (of_nat ` {mn..mx})
    \<and> map_option set (parse_part mn mx (''*/'' @ a)) =
           (if nat_of_digits a = 0 then None
            else Some (of_nat ` {v. mn \<le> v \<and> v \<le> mx \<and> nat_of_digits a dvd v - mn}))
    \<and> map_option set (parse_part mn mx (a @ CHR ''-'' # b)) =
           (if mn \<le> nat_of_digits a \<and> nat_of_digits a \<le> nat_of_digits b \<and> nat_of_digits b \<le> mx
            then Some (of_nat ` {nat_of_digits a..nat_of_digits b}) else None)"
proof (intro conjI)
  show "map_option set (parse_part mn mx ''*'') = Some (of_nat ` {mn..mx})"
    by (simp add: parse_part_def atLeastLessThanSuc_atLeastAtMost del: upt_Suc)
  show "map_option set (parse_part mn mx (''*/'' @ a)) =
           (if nat_of_digits a = 0 then None
            else Some (of_nat ` {v. mn \<le> v \<and> v \<le> mx \<and> nat_of_digits a dvd v - mn}))"
    using assms step_part_star[of a] by (simp add: parse_part_def range_step_set)
  have "a @ CHR ''-'' # b \<noteq> ''*''" using assms(2) by (cases a) auto
  moreover have "step_part (a @ CHR ''-'' # b) = None"
    using assms(1,2) by (intro step_part_digit) (cases a; simp add: all_digits_def)+
  ultimately show "map_option set (parse_part mn mx (a @ CHR ''-'' # b)) =
           (if mn \<le> nat_of_digits a \<and> nat_of_digits a \<le> nat_of_digits b \<and> nat_of_digits b \<le> mx
            then Some (of_nat ` {nat_of_digits a..nat_of_digits b}) else None)"
    using range_part_digits[OF assms(1,2,3,4)]
    by (auto simp: parse_part_def atLeastLessThanSuc_atLeastAtMost simp del: upt_Suc)
qed

theorem cron_part_denotes_witness:
  "map_option set (parse_part 0 59 ''15-20'') = Some (of_nat ` {15..20})"
proof -
  have d: "all_digits ''15''" "all_digits ''20''" "nat_of_digits ''15'' = 15" "nat_of_digits ''20'' = 20"
      "js_finite_nat (nat_of_digits ''15'')" by (simp_all add: cron_eval)
  show ?thesis
    using cron_part_denotes[of "''15''" "''20''" 0 59] d by simp
qed


section \<open>Stagger and retry\<close>

lemma deterministic_stagger_bounds:
  "0 < m \<Longrightarrow> 0 \<le> deterministic_stagger i m \<and> deterministic_stagger i m < m"
  by (simp add: deterministic_stagger_def)

lemma resolve_stagger_nonneg: "0 \<le> resolve_stagger_max_ms sc"
  by (auto simp: resolve_stagger_max_ms_def top_of_hour_stagger_ms_def split: option.splits)

lemma get_retry_delay_in:
  "get_retry_delay p a = 30000 \<or> get_retry_delay p a \<in> set (rp_backoff_ms p)"
  by (simp add: get_retry_delay_def Let_def)

lemma get_retry_delay_nth:
  assumes "n < length (rp_backoff_ms p)" and "rp_backoff_ms p ! n \<noteq> 0"
  shows "get_retry_delay p (int n + 1) = rp_backoff_ms p ! n"
proof -
  have "nat (max 0 (min (int n + 1 - 1) (int (length (rp_backoff_ms p)) - 1))) = n"
    using assms(1) by (simp add: min_def max_def)
  with assms show ?thesis by (simp add: get_retry_delay_def)
qed

lemma get_retry_delay_last:
  assumes "int (length (rp_backoff_ms p)) \<le> a" and "rp_backoff_ms p \<noteq> []" and "last (rp_backoff_ms p) \<noteq> 0"
  shows "get_retry_delay p a = last (rp_backoff_ms p)"
proof -
  let ?n = "length (rp_backoff_ms p)"
  have pos: "0 < ?n" using assms(2) by simp
  have "nat (max 0 (min (a - 1) (int ?n - 1))) = ?n - 1"
    using assms(1) pos by linarith
  with assms pos show ?thesis by (simp add: get_retry_delay_def last_conv_nth)
qed

lemma get_retry_delay_pos:
  "list_all (\<lambda>d. 0 \<le> d) (rp_backoff_ms p) \<Longrightarrow> 0 < get_retry_delay p a"
  using nth_mem by (fastforce simp: get_retry_delay_def Let_def list_all_iff less_le)

end
