(* ===== verification/CronSchedule.thy ===== *)
theory CronSchedule
  imports CronExpr
begin

text \<open>
  \<open>src/src/cron/service.ts\<close>: the next-run computation with its calendar, and the validation of
  a new schedule.

  Times are integers, milliseconds since the epoch. The clock environment is the server's zone and
  the time zones the runtime knows; each has a fixed offset from UTC in whole minutes, so
  daylight-saving transitions are outside the model. The days of the proleptic calendar are
  counted from 1 January 1970, which bounds the times the calendar laws speak about. The search is
  a \<open>partial_function\<close> over any date functions, because it loops as long as the jumps say;
  the locale \<open>clock\<close> states what makes it stop and \<open>calendar\<close> what makes it exact, and
  both are interpreted on the fixed-offset dates.
\<close>

section \<open>Dates\<close>

definition ms_day :: int where "ms_day = 86400000"
definition ms_hour :: int where "ms_hour = 3600000"
definition ms_minute :: int where "ms_minute = 60000"

definition is_leap :: "nat \<Rightarrow> bool" where
  "is_leap y = (y mod 4 = 0 \<and> (y mod 100 \<noteq> 0 \<or> y mod 400 = 0))"

definition year_len :: "nat \<Rightarrow> nat" where
  "year_len y = (if is_leap y then 366 else 365)"

definition month_len :: "nat \<Rightarrow> nat \<Rightarrow> nat" where
  "month_len y m = (if m = 2 then (if is_leap y then 29 else 28) else if m \<in> {4, 6, 9, 11} then 30 else 31)"

lemma year_len_pos: "0 < year_len y"
  by (simp add: year_len_def)

text \<open>The year of the n-th day after the first of January of year y, and its day in the year.\<close>

function civil_year :: "nat \<Rightarrow> nat \<Rightarrow> nat \<times> nat" where
  "civil_year y n = (if n < year_len y then (y, n) else civil_year (Suc y) (n - year_len y))"
  by pat_completeness auto
termination
  by (relation "measure snd") (auto simp: year_len_def)

text \<open>The month and the day of the month of the n-th day after the first of month m.\<close>

function civil_month :: "nat \<Rightarrow> nat \<Rightarrow> nat \<Rightarrow> nat \<times> nat" where
  "civil_month y m n = (if 12 \<le> m \<or> n < month_len y m then (m, Suc n) else civil_month y (Suc m) (n - month_len y m))"
  by pat_completeness auto
termination
  by (relation "measure (\<lambda>(y, m, n). 12 - m)") auto

declare civil_year.simps [simp del] civil_month.simps [simp del]

definition day_index :: "int \<Rightarrow> int \<Rightarrow> nat" where
  "day_index off ms = nat ((ms + ms_minute * off) div ms_day)"

definition parts_of_day :: "nat \<Rightarrow> nat \<times> nat" where
  "parts_of_day n = (case civil_year 1970 n of (y, r) \<Rightarrow> civil_month y 1 r)"

definition parts_at :: "int \<Rightarrow> int \<Rightarrow> cron_parts" where
  "parts_at off ms = (case parts_of_day (day_index off ms) of (m, d) \<Rightarrow>
     \<lparr>cp_minute = nat ((ms + ms_minute * off) div ms_minute mod 60),
      cp_hour = nat ((ms + ms_minute * off) div ms_hour mod 24),
      cp_day = d, cp_month = m, cp_weekday = (day_index off ms + 4) mod 7\<rparr>)"

record cron_env =
  ce_offset :: int
  ce_zones :: "string \<Rightarrow> int option"

definition get_local_parts :: "cron_env \<Rightarrow> int \<Rightarrow> cron_parts" where
  "get_local_parts env ms = parts_at (ce_offset env) ms"

definition is_valid_timezone :: "cron_env \<Rightarrow> string \<Rightarrow> bool" where
  "is_valid_timezone env tz \<longleftrightarrow> ce_zones env tz \<noteq> None"

definition get_tz_parts :: "cron_env \<Rightarrow> int \<Rightarrow> string \<Rightarrow> cron_parts option" where
  "get_tz_parts env ms tz = map_option (\<lambda>off. parts_at off ms) (ce_zones env tz)"

text \<open>The three jumps, in the server's local time whatever the zone of the job.\<close>

definition next_hour_start :: "int \<Rightarrow> int \<Rightarrow> int" where
  "next_hour_start off ms = ((ms + ms_minute * off) div ms_hour + 1) * ms_hour - ms_minute * off"

definition next_day_start :: "int \<Rightarrow> int \<Rightarrow> int" where
  "next_day_start off ms = ((ms + ms_minute * off) div ms_day + 1) * ms_day - ms_minute * off"

definition next_month_start :: "int \<Rightarrow> int \<Rightarrow> int" where
  "next_month_start off ms =
     (case civil_year 1970 (day_index off ms) of (y, r) \<Rightarrow> case civil_month y 1 r of (m, d) \<Rightarrow>
        (int (day_index off ms) + 1 + int (month_len y m - d)) * ms_day - ms_minute * off)"


section \<open>The search\<close>

partial_function (option) cron_search ::
  "(int \<Rightarrow> cron_parts option) \<Rightarrow> (int \<Rightarrow> int) \<Rightarrow> (int \<Rightarrow> int) \<Rightarrow> (int \<Rightarrow> int) \<Rightarrow> parsed_cron
   \<Rightarrow> int \<Rightarrow> int \<Rightarrow> int option option" where
  "cron_search parts jm jd jh pc end_ms c =
     (if end_ms < c then Some None
      else case parts c of None \<Rightarrow> Some None
      | Some p \<Rightarrow>
          if \<not> field_has (pc_month pc) (cp_month p) then cron_search parts jm jd jh pc end_ms (jm c)
          else if \<not> field_has (pc_day pc) (cp_day p) \<or> \<not> field_has (pc_weekday pc) (cp_weekday p)
          then cron_search parts jm jd jh pc end_ms (jd c)
          else if \<not> field_has (pc_hour pc) (cp_hour p) then cron_search parts jm jd jh pc end_ms (jh c)
          else if match_parsed_cron pc p then Some (Some c)
          else cron_search parts jm jd jh pc end_ms (c + 60000))"

definition search_from :: "int \<Rightarrow> int" where
  "search_from now = now div 60000 * 60000 + 60000"

definition search_horizon :: "int \<Rightarrow> int" where
  "search_horizon now = now + 366 * 24 * 60 * 60000"

definition cron_stagger :: "cron_schedule \<Rightarrow> string option \<Rightarrow> int" where
  "cron_stagger sc stagger_id =
     (let mx = resolve_stagger_max_ms sc
      in case stagger_id of Some i \<Rightarrow> if 0 < mx \<and> i \<noteq> [] then deterministic_stagger i mx else 0 | None \<Rightarrow> 0)"

definition compute_next_run :: "cron_env \<Rightarrow> cron_schedule \<Rightarrow> int \<Rightarrow> string option \<Rightarrow> int option option" where
  "compute_next_run env sc now stagger_id =
     (case sc_kind sc of
        KAt \<Rightarrow> (case sc_at_ms sc of Some a \<Rightarrow> Some (if a \<le> 0 then None else Some a) | None \<Rightarrow> Some None)
      | KEvery \<Rightarrow> (case sc_every_ms sc of None \<Rightarrow> Some None
          | Some every \<Rightarrow> if every \<le> 0 then Some None
              else (case sc_at_ms sc of
                  Some start_at \<Rightarrow> if 0 < start_at \<and> now < start_at then Some (Some start_at) else Some (Some (now + every))
                | None \<Rightarrow> Some (Some (now + every))))
      | KCron \<Rightarrow> (case sc_expr sc of None \<Rightarrow> Some None
          | Some e \<Rightarrow> if e = [] then Some None
              else case parse_cron e of None \<Rightarrow> Some None
              | Some pc \<Rightarrow>
                  (let tz = str_trim (case sc_tz sc of Some z \<Rightarrow> z | None \<Rightarrow> []);
                       parts = (\<lambda>ms. if tz \<noteq> [] then get_tz_parts env ms tz else Some (get_local_parts env ms));
                       off = ce_offset env
                   in map_option (map_option (\<lambda>c. c + cron_stagger sc stagger_id))
                        (cron_search parts (next_month_start off) (next_day_start off) (next_hour_start off)
                           pc (search_horizon now) (search_from now)))))"

definition validate_schedule_for_add :: "cron_env \<Rightarrow> cron_schedule \<Rightarrow> string option" where
  "validate_schedule_for_add env sc =
     (if (case sc_tz sc of Some tz \<Rightarrow> tz \<noteq> [] | None \<Rightarrow> False) \<and> sc_kind sc \<noteq> KCron
      then Some ''tz can only be used with cron schedules''
      else case sc_kind sc of
        KAt \<Rightarrow> (case sc_at_ms sc of Some a \<Rightarrow> if a \<le> 0 then Some ''invalid at schedule'' else None
                 | None \<Rightarrow> Some ''invalid at schedule'')
      | KEvery \<Rightarrow> (case sc_every_ms sc of None \<Rightarrow> Some ''invalid every schedule: every_ms''
          | Some e \<Rightarrow> if e \<le> 0 then Some ''invalid every schedule: every_ms''
              else (case sc_at_ms sc of Some a \<Rightarrow> if a \<le> 0 then Some ''invalid every schedule: at_ms'' else None
                    | None \<Rightarrow> None))
      | KCron \<Rightarrow>
          (let expr = str_trim (case sc_expr sc of Some e \<Rightarrow> e | None \<Rightarrow> [])
           in if expr = [] then Some ''invalid cron schedule: expr is required''
              else if parse_cron expr = None then Some (''invalid cron expression '' @ expr)
              else case sc_tz sc of
                Some tz \<Rightarrow> if tz \<noteq> [] \<and> \<not> is_valid_timezone env tz then Some (''unknown timezone '' @ tz) else None
              | None \<Rightarrow> None))"


section \<open>What the search needs of the dates\<close>

text \<open>
  \<open>clock\<close>: every jump goes forward, so the search stops. \<open>calendar\<close> adds that a jump
  passes only over times with the same month, day or hour as the time it starts from; then nothing
  that matches is passed over.
\<close>

locale clock =
  fixes jm jd jh :: "int \<Rightarrow> int"
  assumes jm_gt: "c < jm c" and jd_gt: "c < jd c" and jh_gt: "c < jh c"
begin

lemma search_returns: "\<exists>r. cron_search parts jm jd jh pc end_ms c = Some r"
proof (induction "nat (end_ms + 1 - c)" arbitrary: c rule: less_induct)
  case less
  show ?case
  proof (cases "end_ms < c")
    case True
    then show ?thesis by (simp add: cron_search.simps)
  next
    case False
    have step: "\<exists>r. cron_search parts jm jd jh pc end_ms c' = Some r" if "c < c'" for c'
      using that False by (intro less) simp
    have five: "c < c + 60000" by simp
    show ?thesis
      using step[OF jm_gt] step[OF jd_gt] step[OF jh_gt] step[OF five] False
      by (subst cron_search.simps) (auto split: option.split)
  qed
qed

lemma search_ge: "cron_search parts jm jd jh pc end_ms c = Some (Some x) \<Longrightarrow> c \<le> x \<and> x \<le> end_ms"
proof (induction "nat (end_ms + 1 - c)" arbitrary: c rule: less_induct)
  case less
  note run = less.prems[unfolded cron_search.simps[of _ _ _ _ _ _ c]]
  show ?case
  proof (cases "end_ms < c")
    case True
    with run show ?thesis by simp
  next
    case False
    have step: "c \<le> x \<and> x \<le> end_ms" if "c < c'" "cron_search parts jm jd jh pc end_ms c' = Some (Some x)" for c'
      using that False less.hyps[of c'] by simp
    have five: "c < c + 60000" by simp
    show ?thesis
      using run step[OF jm_gt] step[OF jd_gt] step[OF jh_gt] step[OF five] False
      by (auto split: option.splits if_splits)
  qed
qed

end

locale calendar = clock jm jd jh
  for jm jd jh :: "int \<Rightarrow> int" +
  fixes parts :: "int \<Rightarrow> cron_parts" and lo :: int
  assumes jm_dvd: "60000 dvd c \<Longrightarrow> 60000 dvd jm c" and jd_dvd: "60000 dvd c \<Longrightarrow> 60000 dvd jd c"
    and jh_dvd: "60000 dvd c \<Longrightarrow> 60000 dvd jh c"
    and month_const: "lo \<le> c \<Longrightarrow> c \<le> t \<Longrightarrow> t < jm c \<Longrightarrow> cp_month (parts t) = cp_month (parts c)"
    and day_const: "lo \<le> c \<Longrightarrow> c \<le> t \<Longrightarrow> t < jd c \<Longrightarrow>
          cp_day (parts t) = cp_day (parts c) \<and> cp_weekday (parts t) = cp_weekday (parts c)"
    and hour_const: "lo \<le> c \<Longrightarrow> c \<le> t \<Longrightarrow> t < jh c \<Longrightarrow> cp_hour (parts t) = cp_hour (parts c)"
begin

definition matches :: "parsed_cron \<Rightarrow> int \<Rightarrow> bool" where
  "matches pc t \<longleftrightarrow> 60000 dvd t \<and> match_parsed_cron pc (parts t)"

definition exact :: "parsed_cron \<Rightarrow> int \<Rightarrow> int \<Rightarrow> int option \<Rightarrow> bool" where
  "exact pc end_ms c r = (case r of
       Some x \<Rightarrow> c \<le> x \<and> x \<le> end_ms \<and> matches pc x \<and> (\<forall>t. c \<le> t \<and> t < x \<longrightarrow> \<not> matches pc t)
     | None \<Rightarrow> (\<forall>t. c \<le> t \<and> t \<le> end_ms \<longrightarrow> \<not> matches pc t))"

lemma exact_shift:
  assumes "exact pc end_ms c' r" and "c < c'" and "\<And>t. c \<le> t \<Longrightarrow> t < c' \<Longrightarrow> \<not> matches pc t"
  shows "exact pc end_ms c r"
proof -
  have split: "c \<le> t \<Longrightarrow> (c' \<le> t \<Longrightarrow> \<not> matches pc t) \<Longrightarrow> \<not> matches pc t" for t
    using assms(3)[of t] by (cases "t < c'") simp_all
  show ?thesis
  proof (cases r)
    case None
    with assms(1) have q: "\<forall>t. c' \<le> t \<and> t \<le> end_ms \<longrightarrow> \<not> matches pc t" by (simp add: exact_def)
    have "\<not> matches pc t" if "c \<le> t" "t \<le> end_ms" for t by (rule split) (use that q in auto)
    with None show ?thesis by (simp add: exact_def)
  next
    case (Some x)
    with assms(1) have q: "\<forall>t. c' \<le> t \<and> t < x \<longrightarrow> \<not> matches pc t" by (simp add: exact_def)
    have "\<not> matches pc t" if "c \<le> t" "t < x" for t by (rule split) (use that q in auto)
    with Some assms(1,2) show ?thesis by (simp add: exact_def)
  qed
qed

lemma no_match_within_minute:
  assumes "60000 dvd c" and "\<not> match_parsed_cron pc (parts c)" and "c \<le> t" and "t < c + 60000"
  shows "\<not> matches pc t"
proof -
  have "60000 dvd t \<Longrightarrow> t = c" using assms by (auto elim!: dvdE)
  with assms(2) show ?thesis by (auto simp: matches_def)
qed

lemma no_match_in_month:
  "lo \<le> c \<Longrightarrow> \<not> field_has (pc_month pc) (cp_month (parts c)) \<Longrightarrow> c \<le> t \<Longrightarrow> t < jm c \<Longrightarrow> \<not> matches pc t"
  using month_const[of c t] by (auto simp: matches_def match_parsed_cron_def)

lemma no_match_in_day:
  "lo \<le> c \<Longrightarrow> \<not> field_has (pc_day pc) (cp_day (parts c)) \<or> \<not> field_has (pc_weekday pc) (cp_weekday (parts c))
   \<Longrightarrow> c \<le> t \<Longrightarrow> t < jd c \<Longrightarrow> \<not> matches pc t"
  using day_const[of c t] by (auto simp: matches_def match_parsed_cron_def)

lemma no_match_in_hour:
  "lo \<le> c \<Longrightarrow> \<not> field_has (pc_hour pc) (cp_hour (parts c)) \<Longrightarrow> c \<le> t \<Longrightarrow> t < jh c \<Longrightarrow> \<not> matches pc t"
  using hour_const[of c t] by (auto simp: matches_def match_parsed_cron_def)

lemma search_exact:
  assumes "60000 dvd c" and "lo \<le> c"
    and "cron_search (\<lambda>t. Some (parts t)) jm jd jh pc end_ms c = Some r"
  shows "exact pc end_ms c r"
  using assms
proof (induction "nat (end_ms + 1 - c)" arbitrary: c rule: less_induct)
  case less
  let ?S = "cron_search (\<lambda>t. Some (parts t)) jm jd jh pc end_ms"
  let ?mo = "field_has (pc_month pc) (cp_month (parts c))"
  let ?da = "field_has (pc_day pc) (cp_day (parts c)) \<and> field_has (pc_weekday pc) (cp_weekday (parts c))"
  let ?ho = "field_has (pc_hour pc) (cp_hour (parts c))"
  note run = less.prems(3)[unfolded cron_search.simps[of _ _ _ _ _ _ c]]
  show ?case
  proof (cases "end_ms < c")
    case True
    with run show ?thesis by (auto simp: exact_def)
  next
    case False
    have go: "exact pc end_ms c' r" if "c < c'" "60000 dvd c'" "?S c' = Some r" for c'
      using that False less.prems(2) by (intro less.hyps) simp_all
    note sh = exact_shift[OF go[OF jm_gt jm_dvd[OF less.prems(1)]] jm_gt no_match_in_month[OF less.prems(2)]]
      exact_shift[OF go[OF jd_gt jd_dvd[OF less.prems(1)]] jd_gt no_match_in_day[OF less.prems(2)]]
      exact_shift[OF go[OF jh_gt jh_dvd[OF less.prems(1)]] jh_gt no_match_in_hour[OF less.prems(2)]]
    consider (mo) "\<not> ?mo" | (da) "?mo" "\<not> ?da" | (ho) "?mo" "?da" "\<not> ?ho"
      | (hit) "match_parsed_cron pc (parts c)"
      | (mi) "?mo" "?da" "?ho" "\<not> match_parsed_cron pc (parts c)"
      by blast
    then show ?thesis
    proof cases
      case mo
      with run False show ?thesis by (intro sh(1)) simp_all
    next
      case da
      with run False show ?thesis by (intro sh(2)) auto
    next
      case ho
      with run False show ?thesis by (intro sh(3)) auto
    next
      case hit
      with run False less.prems(1) show ?thesis by (auto simp: exact_def matches_def match_parsed_cron_def)
    next
      case mi
      with run False less.prems(1) have "exact pc end_ms (c + 60000) r" by (intro go) auto
      then show ?thesis by (rule exact_shift) (use no_match_within_minute[OF less.prems(1) mi(4)] in auto)
    qed
  qed
qed

end


section \<open>The fixed-offset dates are a calendar\<close>

lemma civil_year_bound: "civil_year y n = (y', r) \<Longrightarrow> r < year_len y'"
proof (induction y n rule: civil_year.induct)
  case (1 y n)
  then show ?case by (cases "n < year_len y") (auto simp: civil_year.simps[of y n])
qed

lemma civil_year_add: "civil_year y n = (y', r) \<Longrightarrow> r + k < year_len y' \<Longrightarrow> civil_year y (n + k) = (y', r + k)"
proof (induction y n rule: civil_year.induct)
  case (1 y n)
  show ?case
  proof (cases "n < year_len y")
    case True
    then have "y' = y" "r = n" using "1.prems"(1) by (simp_all add: civil_year.simps[of y n])
    with "1.prems"(2) show ?thesis by (simp add: civil_year.simps[of y "n + k"])
  next
    case False
    with 1 have "civil_year (Suc y) (n - year_len y + k) = (y', r + k)" by (simp add: civil_year.simps[of y n])
    with False show ?thesis by (simp add: civil_year.simps[of y "n + k"])
  qed
qed

definition rest_of_year :: "nat \<Rightarrow> nat \<Rightarrow> nat" where
  "rest_of_year y m = sum (month_len y) {m..12}"

lemma rest_of_year_1: "rest_of_year y 1 = year_len y"
proof -
  have "{1..12::nat} = {1, 2, 3, 4, 5, 6, 7, 8, 9, 10, 11, 12}"
    by (simp add: set_eq_iff) presburger
  then show ?thesis by (simp add: rest_of_year_def month_len_def year_len_def)
qed

lemma rest_of_year_step: "m < 12 \<Longrightarrow> rest_of_year y m = month_len y m + rest_of_year y (Suc m)"
  by (simp add: rest_of_year_def sum.atLeast_Suc_atMost)

lemma civil_month_room:
  "civil_month y m n = (m', d) \<Longrightarrow> m \<le> 12 \<Longrightarrow> d + k \<le> month_len y m' \<Longrightarrow> n + k < rest_of_year y m"
proof (induction y m n rule: civil_month.induct)
  case (1 y m n)
  show ?case
  proof (cases "m = 12")
    case True
    with "1.prems" show ?thesis by (auto simp: civil_month.simps[of y 12 n] rest_of_year_def)
  next
    case False
    then have m: "m < 12" using "1.prems"(2) by simp
    show ?thesis
    proof (cases "n < month_len y m")
      case True
      then have "m' = m" "d = Suc n" using "1.prems"(1) by (auto simp: civil_month.simps[of y m n])
      with "1.prems"(3) show ?thesis by (simp add: rest_of_year_step[OF m])
    next
      case short: False
      with 1 m have "n - month_len y m + k < rest_of_year y (Suc m)" by (simp add: civil_month.simps[of y m n])
      with short show ?thesis by (simp add: rest_of_year_step[OF m])
    qed
  qed
qed

lemma civil_month_add:
  "civil_month y m n = (m', d) \<Longrightarrow> d + k \<le> month_len y m' \<Longrightarrow> civil_month y m (n + k) = (m', d + k)"
proof (induction y m n rule: civil_month.induct)
  case (1 y m n)
  show ?case
  proof (cases "12 \<le> m \<or> n < month_len y m")
    case True
    then have "m' = m" "d = Suc n" using "1.prems"(1) by (auto simp: civil_month.simps[of y m n])
    with "1.prems"(2) show ?thesis by (simp add: civil_month.simps[of y m "n + k"])
  next
    case False
    with 1 have "civil_month y (Suc m) (n - month_len y m + k) = (m', d + k)"
      by (simp add: civil_month.simps[of y m n])
    with False show ?thesis by (simp add: civil_month.simps[of y m "n + k"])
  qed
qed

lemma civil_month_le:
  "civil_month y m n = (m', d) \<Longrightarrow> n < rest_of_year y m \<Longrightarrow> m \<le> 12 \<Longrightarrow> d \<le> month_len y m' \<and> m' \<le> 12 \<and> m \<le> m' \<and> 0 < d"
proof (induction y m n rule: civil_month.induct)
  case (1 y m n)
  show ?case
  proof (cases "12 \<le> m \<or> n < month_len y m")
    case True
    with "1.prems" show ?thesis by (auto simp: civil_month.simps[of y m n] rest_of_year_def)
  next
    case False
    then have m: "m < 12" by simp
    have "d \<le> month_len y m' \<and> m' \<le> 12 \<and> Suc m \<le> m' \<and> 0 < d"
      using False 1 by (intro "1.IH") (auto simp: civil_month.simps[of y m n] rest_of_year_step[OF m])
    then show ?thesis by auto
  qed
qed

text \<open>Days of one month: as long as the day of the month stays within its length, only it changes.\<close>

lemma parts_of_day_add:
  assumes "civil_year 1970 n = (y, r)" and "civil_month y 1 r = (m, d)" and "d + k \<le> month_len y m"
  shows "parts_of_day (n + k) = (m, d + k)"
proof -
  have "r + k < year_len y"
    using civil_month_room[OF assms(2) _ assms(3)] by (simp add: rest_of_year_1[symmetric])
  then show ?thesis
    using civil_year_add[OF assms(1)] civil_month_add[OF assms(2,3)] by (simp add: parts_of_day_def)
qed

lemma parts_of_day_bounds: "parts_of_day n = (m, d) \<Longrightarrow> 1 \<le> m \<and> m \<le> 12 \<and> 1 \<le> d \<and> d \<le> 31"
proof -
  assume p: "parts_of_day n = (m, d)"
  obtain y r where y: "civil_year 1970 n = (y, r)" by (cases "civil_year 1970 n")
  have md: "civil_month y 1 r = (m, d)" using p y by (simp add: parts_of_day_def)
  have "r < rest_of_year y 1" using civil_year_bound[OF y] by (simp add: rest_of_year_1[symmetric])
  then have "d \<le> month_len y m \<and> m \<le> 12 \<and> 1 \<le> m \<and> 0 < d" using civil_month_le[OF md] by simp
  moreover have "month_len y m \<le> 31" by (simp add: month_len_def)
  ultimately show ?thesis by linarith
qed

lemma next_hour_gt: "c < next_hour_start off c"
  by (simp add: next_hour_start_def ms_hour_def)

lemma next_day_gt: "c < next_day_start off c"
  by (simp add: next_day_start_def ms_day_def)

lemma next_day_le_next_month: "next_day_start off c \<le> next_month_start off c"
  by (auto simp: next_day_start_def next_month_start_def day_index_def ms_day_def split: prod.split)

interpretation fxclock: clock "next_month_start off" "next_day_start off" "next_hour_start off" for off
  using next_hour_gt next_day_gt less_le_trans[OF next_day_gt next_day_le_next_month]
  by unfold_locales

lemma same_hour: "c \<le> t \<Longrightarrow> t < next_hour_start off c \<Longrightarrow> (t + ms_minute * off) div ms_hour = (c + ms_minute * off) div ms_hour"
  by (simp add: next_hour_start_def ms_hour_def)

lemma day_index_between:
  assumes "- ms_minute * off \<le> c" and "c \<le> t" and "t < next_day_start off c + int k * ms_day"
  shows "\<exists>j \<le> k. day_index off t = day_index off c + j"
proof -
  let ?d = "\<lambda>t. (t + ms_minute * off) div ms_day"
  have lo: "0 \<le> ?d c" using assms(1) by (simp add: ms_day_def)
  have "?d c \<le> ?d t" "?d t \<le> ?d c + int k"
    using assms(2,3) by (simp_all add: ms_day_def next_day_start_def)
  with lo show ?thesis by (intro exI[of _ "nat (?d t - ?d c)"]) (simp add: day_index_def nat_diff_distrib)
qed

lemma month_of_jump:
  assumes "- ms_minute * off \<le> c" and "c \<le> t" and "t < next_month_start off c"
  shows "cp_month (parts_at off t) = cp_month (parts_at off c)"
proof -
  let ?n = "day_index off c"
  obtain y r where y: "civil_year 1970 ?n = (y, r)" by (cases "civil_year 1970 ?n")
  obtain m d where md: "civil_month y 1 r = (m, d)" by (cases "civil_month y 1 r")
  have "r < rest_of_year y 1" using civil_year_bound[OF y] by (simp add: rest_of_year_1[symmetric])
  then have d: "d \<le> month_len y m" using civil_month_le[OF md] by simp
  have n: "int ?n = (c + ms_minute * off) div ms_day"
    using assms(1) by (simp add: day_index_def ms_day_def)
  have "t < next_day_start off c + int (month_len y m - d) * ms_day"
    using assms(3) y md n by (simp add: next_month_start_def next_day_start_def algebra_simps)
  then obtain j where j: "j \<le> month_len y m - d" "day_index off t = ?n + j"
    using day_index_between[OF assms(1,2)] by blast
  with d have "parts_of_day (day_index off t) = (m, d + j)"
    using parts_of_day_add[OF y md, of j] by simp
  moreover have "parts_of_day ?n = (m, d)" using y md by (simp add: parts_of_day_def)
  ultimately show ?thesis by (simp add: parts_at_def)
qed

lemma minute_dvd_jumps:
  "60000 dvd next_hour_start off c" "60000 dvd next_day_start off c" "60000 dvd next_month_start off c"
  by (auto simp: next_hour_start_def next_day_start_def next_month_start_def ms_hour_def ms_day_def ms_minute_def
      split: prod.split intro!: dvd_diff dvd_mult)

interpretation fx: calendar "next_month_start off" "next_day_start off" "next_hour_start off"
    "parts_at off" "- ms_minute * off" for off
proof
  fix c t :: int
  show "cp_month (parts_at off t) = cp_month (parts_at off c)"
    if "- ms_minute * off \<le> c" "c \<le> t" "t < next_month_start off c"
    using that by (rule month_of_jump)
  show "cp_day (parts_at off t) = cp_day (parts_at off c) \<and> cp_weekday (parts_at off t) = cp_weekday (parts_at off c)"
    if "- ms_minute * off \<le> c" "c \<le> t" "t < next_day_start off c"
    using day_index_between[OF that(1,2), of 0] that(3) by (simp add: parts_at_def split: prod.split)
  show "cp_hour (parts_at off t) = cp_hour (parts_at off c)"
    if "- ms_minute * off \<le> c" "c \<le> t" "t < next_hour_start off c"
    using same_hour[OF that(2,3)] by (simp add: parts_at_def split: prod.split)
qed (simp_all add: minute_dvd_jumps)


section \<open>The next run\<close>

definition next_run :: "cron_env \<Rightarrow> cron_schedule \<Rightarrow> int \<Rightarrow> string option \<Rightarrow> int option" where
  "next_run env sc now stagger_id = (case compute_next_run env sc now stagger_id of Some r \<Rightarrow> r | None \<Rightarrow> None)"

lemma compute_next_run_eq: "compute_next_run env sc now i = Some (next_run env sc now i)"
proof -
  have "\<exists>r. cron_search p (next_month_start (ce_offset env)) (next_day_start (ce_offset env))
          (next_hour_start (ce_offset env)) pc e c = Some r" for p pc e c
    by (rule fxclock.search_returns)
  then have "\<exists>r. compute_next_run env sc now i = Some r"
    by (auto simp: compute_next_run_def Let_def split: schedule_kind.split option.split)
  then show ?thesis by (auto simp: next_run_def)
qed

text \<open>Computing the next run always ends, whatever the schedule, the expression, the zone of the
  job and the clock reading.\<close>

theorem compute_next_run_returns: "\<exists>r. compute_next_run env sc now stagger_id = Some r"
  by (simp add: compute_next_run_eq)

definition fires_at :: "cron_env \<Rightarrow> parsed_cron \<Rightarrow> int \<Rightarrow> bool" where
  "fires_at env pc t \<longleftrightarrow> 60000 dvd t \<and> match_parsed_cron pc (get_local_parts env t)"

definition zone_is_local :: "cron_env \<Rightarrow> cron_schedule \<Rightarrow> bool" where
  "zone_is_local env sc =
     (let tz = str_trim (case sc_tz sc of Some z \<Rightarrow> z | None \<Rightarrow> [])
      in tz = [] \<or> ce_zones env tz = Some (ce_offset env))"

lemma search_from_gt: "now < search_from now"
  unfolding search_from_def by linarith

lemma search_from_dvd: "60000 dvd search_from now"
  by (simp add: search_from_def)

lemma search_from_least: "60000 dvd t \<Longrightarrow> now < t \<Longrightarrow> search_from now \<le> t"
proof -
  assume "60000 dvd t" and lt: "now < t"
  then obtain k where k: "t = 60000 * k" by (elim dvdE)
  have "now div 60000 < k" using lt unfolding k by linarith
  then show ?thesis unfolding search_from_def k by linarith
qed

lemma compute_next_run_local:
  assumes "sc_kind sc = KCron" and "sc_expr sc = Some e" and "e \<noteq> []" and "parse_cron e = Some pc"
    and "zone_is_local env sc"
  shows "compute_next_run env sc now i = map_option (map_option (\<lambda>c. c + cron_stagger sc i))
     (cron_search (\<lambda>t. Some (parts_at (ce_offset env) t)) (next_month_start (ce_offset env)) (next_day_start (ce_offset env))
        (next_hour_start (ce_offset env)) pc (search_horizon now) (search_from now))"
proof -
  let ?tz = "str_trim (case sc_tz sc of Some z \<Rightarrow> z | None \<Rightarrow> [])"
  have "(\<lambda>ms. if ?tz \<noteq> [] then get_tz_parts env ms ?tz else Some (get_local_parts env ms))
      = (\<lambda>t. Some (parts_at (ce_offset env) t))"
    using assms(5) by (auto simp: zone_is_local_def get_tz_parts_def get_local_parts_def Let_def fun_eq_iff)
  with assms show ?thesis by (simp add: compute_next_run_def Let_def)
qed

text \<open>C33. When the job's zone is the server's, the next run of a cron schedule is exact: it is the
  least whole minute after now that matches the expression, plus the job's stagger, and it is
  null only when no minute of the coming 366 days matches.\<close>

theorem cron_next_run_exact:
  assumes "sc_kind sc = KCron" and "sc_expr sc = Some e" and "e \<noteq> []" and "parse_cron e = Some pc"
    and "zone_is_local env sc" and "0 \<le> now + ms_minute * ce_offset env"
  shows "case compute_next_run env sc now i of
      Some (Some x) \<Rightarrow> \<exists>c. x = c + cron_stagger sc i \<and> now < c \<and> c \<le> search_horizon now \<and> fires_at env pc c
          \<and> (\<forall>t. now < t \<and> t < c \<longrightarrow> \<not> fires_at env pc t)
    | Some None \<Rightarrow> (\<forall>t. now < t \<and> t \<le> search_horizon now \<longrightarrow> \<not> fires_at env pc t)
    | None \<Rightarrow> False"
proof -
  let ?off = "ce_offset env"
  obtain r where r: "cron_search (\<lambda>t. Some (parts_at ?off t)) (next_month_start ?off) (next_day_start ?off)
        (next_hour_start ?off) pc (search_horizon now) (search_from now) = Some r"
    using fxclock.search_returns by blast
  have "- ms_minute * ?off \<le> search_from now" using assms(6) search_from_gt[of now] by simp
  then have ex: "fx.exact ?off pc (search_horizon now) (search_from now) r"
    using fx.search_exact[OF search_from_dvd _ r] by blast
  have m: "fx.matches ?off pc t = fires_at env pc t" for t
    by (simp add: fx.matches_def fires_at_def get_local_parts_def)
  have early: "\<not> fires_at env pc t" if "now < t" "search_from now \<le> t \<Longrightarrow> \<not> fires_at env pc t" for t
    using that search_from_least[of t now] by (auto simp: fires_at_def)
  show ?thesis
  proof (cases r)
    case None
    with ex have "\<forall>t. search_from now \<le> t \<and> t \<le> search_horizon now \<longrightarrow> \<not> fires_at env pc t"
      by (simp add: fx.exact_def m)
    then have "\<forall>t. now < t \<and> t \<le> search_horizon now \<longrightarrow> \<not> fires_at env pc t" using early by blast
    with None r show ?thesis by (simp add: compute_next_run_local[OF assms(1-5)])
  next
    case (Some c)
    with ex have c: "search_from now \<le> c" "c \<le> search_horizon now" "fires_at env pc c"
        "\<forall>t. search_from now \<le> t \<and> t < c \<longrightarrow> \<not> fires_at env pc t"
      by (simp_all add: fx.exact_def m)
    have "\<forall>t. now < t \<and> t < c \<longrightarrow> \<not> fires_at env pc t" using c(4) early by blast
    with Some r c show ?thesis using search_from_gt[of now]
      by (auto simp: compute_next_run_local[OF assms(1-5)] intro!: exI[of _ c])
  qed
qed

lemma cron_stagger_bounds: "0 \<le> cron_stagger sc i \<and> cron_stagger sc i \<le> resolve_stagger_max_ms sc"
  using deterministic_stagger_bounds[of "resolve_stagger_max_ms sc"] resolve_stagger_nonneg[of sc]
  by (auto simp: cron_stagger_def Let_def less_imp_le split: option.split)

lemma cron_next_run_window:
  assumes "sc_kind sc = KCron" and "next_run env sc now i = Some t"
  shows "now < t \<and> t \<le> search_horizon now + resolve_stagger_max_ms sc"
proof -
  from assms(2) have "compute_next_run env sc now i = Some (Some t)" by (simp add: compute_next_run_eq)
  then obtain p pc c where c: "cron_search p (next_month_start (ce_offset env)) (next_day_start (ce_offset env))
        (next_hour_start (ce_offset env)) pc (search_horizon now) (search_from now) = Some (Some c)"
      and t: "t = c + cron_stagger sc i"
    using assms(1) by (auto simp: compute_next_run_def Let_def split: option.splits if_splits)
  then show ?thesis
    using fxclock.search_ge[OF c] search_from_gt[of now] cron_stagger_bounds[of sc i] by linarith
qed

text \<open>A recurring schedule never runs in the past: the next run of an interval or cron
  schedule is strictly after now, an interval schedule at most one interval or its start time away,
  a cron schedule at most 366 days and its stagger.\<close>

theorem recurring_next_run_later:
  assumes "sc_kind sc \<noteq> KAt" and "next_run env sc now i = Some t"
  shows "now < t \<and> (case sc_kind sc of
      KEvery \<Rightarrow> (\<exists>e. sc_every_ms sc = Some e \<and> (t = now + e \<or> sc_at_ms sc = Some t))
    | KCron \<Rightarrow> t \<le> search_horizon now + resolve_stagger_max_ms sc
    | KAt \<Rightarrow> False)"
proof (cases "sc_kind sc")
  case KAt
  with assms(1) show ?thesis by simp
next
  case KEvery
  with assms(2) show ?thesis
    by (auto simp: next_run_def compute_next_run_def split: option.splits if_splits)
next
  case KCron
  with cron_next_run_window[OF _ assms(2)] show ?thesis by simp
qed

definition cron_sample_env :: cron_env where
  "cron_sample_env = \<lparr>ce_offset = 540, ce_zones = [''UTC'' \<mapsto> 0, ''America/New_York'' \<mapsto> -300]\<rparr>"

definition every_sample :: cron_schedule where
  "every_sample = \<lparr>sc_kind = KEvery, sc_at_ms = None, sc_every_ms = Some 60000, sc_expr = None, sc_tz = None, sc_stagger_ms = None\<rparr>"

definition cron_sample :: "string \<Rightarrow> string option \<Rightarrow> cron_schedule" where
  "cron_sample e tz = \<lparr>sc_kind = KCron, sc_at_ms = None, sc_every_ms = None, sc_expr = Some e, sc_tz = tz, sc_stagger_ms = None\<rparr>"

theorem recurring_next_run_later_witness:
  "(1000::int) < 61000 \<and> (case sc_kind every_sample of
      KEvery \<Rightarrow> (\<exists>e. sc_every_ms every_sample = Some e \<and> ((61000::int) = 1000 + e \<or> sc_at_ms every_sample = Some 61000))
    | KCron \<Rightarrow> 61000 \<le> search_horizon 1000 + resolve_stagger_max_ms every_sample
    | KAt \<Rightarrow> False)"
  by (rule recurring_next_run_later[where env = cron_sample_env and i = None])
    (simp_all add: every_sample_def next_run_def compute_next_run_def)

lemma parse_nine_eleven: "parse_cron ''0 9,11 * * 1'' = Some
   \<lparr>pc_minute = [0], pc_hour = [9, 11], pc_day = map of_nat [1..<32], pc_month = map of_nat [1..<13], pc_weekday = [1]\<rparr>"
  by (simp add: cron_eval)

lemma field_has_range: "field_has (map of_nat [a..<b]) n \<longleftrightarrow> a \<le> n \<and> n < b"
  by (auto simp: field_has_def)

lemmas date_eval = parts_at_def day_index_def parts_of_day_def civil_year.simps civil_month.simps
  year_len_def is_leap_def month_len_def ms_day_def ms_hour_def ms_minute_def next_month_start_def
  next_day_start_def next_hour_start_def

theorem cron_next_run_exact_witness:
  "case compute_next_run cron_sample_env (cron_sample ''0 9,11 * * 1'' None) 349200000 (Some ''a'') of
      Some (Some x) \<Rightarrow> \<exists>c. x = c + cron_stagger (cron_sample ''0 9,11 * * 1'' None) (Some ''a'')
          \<and> 349200000 < c \<and> c \<le> search_horizon 349200000
          \<and> fires_at cron_sample_env \<lparr>pc_minute = [0], pc_hour = [9, 11], pc_day = map of_nat [1..<32],
               pc_month = map of_nat [1..<13], pc_weekday = [1]\<rparr> c
          \<and> (\<forall>t. 349200000 < t \<and> t < c \<longrightarrow> \<not> fires_at cron_sample_env \<lparr>pc_minute = [0], pc_hour = [9, 11],
               pc_day = map of_nat [1..<32], pc_month = map of_nat [1..<13], pc_weekday = [1]\<rparr> t)
    | Some None \<Rightarrow> (\<forall>t. 349200000 < t \<and> t \<le> search_horizon 349200000 \<longrightarrow>
          \<not> fires_at cron_sample_env \<lparr>pc_minute = [0], pc_hour = [9, 11], pc_day = map of_nat [1..<32],
               pc_month = map of_nat [1..<13], pc_weekday = [1]\<rparr> t)
    | None \<Rightarrow> False"
  by (rule cron_next_run_exact[where e = "''0 9,11 * * 1''"])
    (simp_all only: parse_nine_eleven, simp_all add: cron_sample_def zone_is_local_def cron_sample_env_def
       ms_minute_def str_trim_def)

text \<open>
  A job in another zone: on a server nine hours ahead of UTC, a job for nine and eleven o'clock
  on Mondays in New York. The jump over the Sunday lands on the server's midnight, ten o'clock on
  Monday in New York, so nine o'clock is never tried and the job runs at eleven.
\<close>

lemma foreign_zone_skips:
  "compute_next_run cron_sample_env (cron_sample ''0 9,11 * * 1'' (Some ''America/New_York'')) 349200000 None
     = Some (Some 403200000)"
  "\<exists>pc. parse_cron ''0 9,11 * * 1'' = Some pc
     \<and> match_parsed_cron pc (parts_at (-300) 396000000) \<and> (349200000::int) < 396000000 \<and> (396000000::int) < 403200000"
proof -
  let ?pc = "\<lparr>pc_minute = [0], pc_hour = [9, 11], pc_day = map of_nat [1..<32], pc_month = map of_nat [1..<13], pc_weekday = [1]\<rparr> :: parsed_cron"
  have p: "parts_at (-300) 349260000 = \<lparr>cp_minute = 1, cp_hour = 20, cp_day = 4, cp_month = 1, cp_weekday = 0\<rparr>"
    "parts_at (-300) 399600000 = \<lparr>cp_minute = 0, cp_hour = 10, cp_day = 5, cp_month = 1, cp_weekday = 1\<rparr>"
    "parts_at (-300) 403200000 = \<lparr>cp_minute = 0, cp_hour = 11, cp_day = 5, cp_month = 1, cp_weekday = 1\<rparr>"
    "parts_at (-300) 396000000 = \<lparr>cp_minute = 0, cp_hour = 9, cp_day = 5, cp_month = 1, cp_weekday = 1\<rparr>"
    by (simp_all add: date_eval)
  have j: "next_day_start 540 349260000 = 399600000" "next_hour_start 540 399600000 = 403200000"
    by (simp_all add: date_eval)
  have h: "field_has [1] 0 = False" "field_has [1] (Suc 0)" "field_has [0] 0" "field_has [9, 11] 9" "field_has [9, 11] 11"
      "field_has [9, 11] 10 = False"
    by (simp_all add: field_has_def)
  have tz: "(\<lambda>ms. get_tz_parts cron_sample_env ms ''America/New_York'') = (\<lambda>ms. Some (parts_at (-300) ms))"
    by (simp add: get_tz_parts_def cron_sample_env_def fun_eq_iff)
  have s: "cron_search (\<lambda>ms. Some (parts_at (-300) ms)) (next_month_start 540) (next_day_start 540) (next_hour_start 540)
      ?pc (search_horizon 349200000) 349260000 = Some (Some 403200000)"
    by (subst cron_search.simps, simp add: p h field_has_range search_horizon_def j)
       (subst cron_search.simps, simp add: p h field_has_range j,
        subst cron_search.simps, simp add: p h field_has_range j match_parsed_cron_def)
  have tr: "str_trim ''America/New_York'' = ''America/New_York''" by (simp add: str_trim_def is_ws_def)
  show "compute_next_run cron_sample_env (cron_sample ''0 9,11 * * 1'' (Some ''America/New_York'')) 349200000 None
     = Some (Some 403200000)"
    using s tz by (simp add: compute_next_run_def cron_sample_def parse_nine_eleven tr cron_stagger_def
        search_from_def cron_sample_env_def[THEN arg_cong[where f = ce_offset]] Let_def del: upt_Suc)
  show "\<exists>pc. parse_cron ''0 9,11 * * 1'' = Some pc
     \<and> match_parsed_cron pc (parts_at (-300) 396000000) \<and> (349200000::int) < 396000000 \<and> (396000000::int) < 403200000"
    by (simp only: parse_nine_eleven p) (simp add: match_parsed_cron_def h field_has_range)
qed

end
