(* ===== verification/CronService.thy ===== *)
theory CronService
  imports CronSchedule
begin

text \<open>
  \<open>src/src/cron/service.ts\<close>, the service: the job store and its rows, the job lock, the
  execution of a job with its retry, the tick, the timer and the operations of the scheduler
  (with the types of \<open>src/src/cron/types.ts\<close>).

  Jobs are objects the store, a tick's snapshot and a running execution share, so they live in a
  heap: a reference is an index, and a removed job's object stays reachable from the tick that
  took it. An execution is two steps, its start and its end, because the job's handler is awaited
  between them and other operations run meanwhile; what the handler did is the outcome the end
  step takes (\<open>None\<close> or the error message). Clock readings are arguments.

  The timer is the state of the promise \<open>_timer_task\<close>: none or finished, asleep until a wake
  time, inside \<open>_on_timer\<close>, or waiting for itself. Every operation that re-arms or cancels the
  timer awaits that promise first; \<open>Waits\<close> is its result when the promise cannot have finished.
  A row's JSON columns hold the value their text encodes.
\<close>

section \<open>Jobs and rows\<close>

datatype payload_kind = PkSystemEvent | PkAgentTurn
datatype job_status = JsOk | JsError | JsSkipped

record job_overrides =
  ov_model :: "string option"
  ov_max_tokens :: "int option"
  ov_thinking_budget :: "int option"
  ov_temperature :: "rat option"

record cron_payload =
  pl_kind :: payload_kind
  pl_message :: string
  pl_deliver :: bool
  pl_channel :: "string option"
  pl_to :: "string option"
  pl_overrides :: "job_overrides option"

record cron_job_state =
  js_next_run_at_ms :: "int option"
  js_last_run_at_ms :: "int option"
  js_last_status :: "job_status option"
  js_last_error :: "string option"
  js_running :: bool
  js_running_started_at_ms :: "int option"
  js_retry_attempt :: int

record cron_job =
  cj_id :: string
  cj_team_id :: string
  cj_name :: string
  cj_enabled :: bool
  cj_schedule :: cron_schedule
  cj_payload :: cron_payload
  cj_state :: cron_job_state
  cj_created_at_ms :: int
  cj_updated_at_ms :: int
  cj_delete_after_run :: bool
  cj_retry :: "retry_policy option"

record cron_row =
  cr_id :: string
  cr_team_id :: string
  cr_name :: string
  cr_enabled :: int
  cr_schedule_kind :: schedule_kind
  cr_schedule_at_ms :: "int option"
  cr_schedule_every_ms :: "int option"
  cr_schedule_expr :: "string option"
  cr_schedule_tz :: "string option"
  cr_schedule_stagger_ms :: "int option"
  cr_payload_kind :: payload_kind
  cr_payload_message :: string
  cr_payload_deliver :: int
  cr_payload_channel :: "string option"
  cr_payload_to :: "string option"
  cr_payload_overrides :: "job_overrides option"
  cr_state_next_run_at_ms :: "int option"
  cr_state_last_run_at_ms :: "int option"
  cr_state_last_status :: "job_status option"
  cr_state_last_error :: "string option"
  cr_state_running :: int
  cr_state_running_started_at_ms :: "int option"
  cr_state_retry_attempt :: int
  cr_created_at_ms :: int
  cr_updated_at_ms :: int
  cr_delete_after_run :: int
  cr_retry_max_retries :: "int option"
  cr_retry_backoff_ms :: "int list option"

definition bit_of :: "bool \<Rightarrow> int" where
  "bit_of b = (if b then 1 else 0)"

definition job_to_row :: "cron_job \<Rightarrow> cron_row" where
  "job_to_row job =
     \<lparr>cr_id = cj_id job, cr_team_id = cj_team_id job, cr_name = cj_name job, cr_enabled = bit_of (cj_enabled job),
      cr_schedule_kind = sc_kind (cj_schedule job), cr_schedule_at_ms = sc_at_ms (cj_schedule job),
      cr_schedule_every_ms = sc_every_ms (cj_schedule job), cr_schedule_expr = sc_expr (cj_schedule job),
      cr_schedule_tz = sc_tz (cj_schedule job), cr_schedule_stagger_ms = sc_stagger_ms (cj_schedule job),
      cr_payload_kind = pl_kind (cj_payload job), cr_payload_message = pl_message (cj_payload job),
      cr_payload_deliver = bit_of (pl_deliver (cj_payload job)), cr_payload_channel = pl_channel (cj_payload job),
      cr_payload_to = pl_to (cj_payload job), cr_payload_overrides = pl_overrides (cj_payload job),
      cr_state_next_run_at_ms = js_next_run_at_ms (cj_state job),
      cr_state_last_run_at_ms = js_last_run_at_ms (cj_state job),
      cr_state_last_status = js_last_status (cj_state job), cr_state_last_error = js_last_error (cj_state job),
      cr_state_running = bit_of (js_running (cj_state job)),
      cr_state_running_started_at_ms = js_running_started_at_ms (cj_state job),
      cr_state_retry_attempt = js_retry_attempt (cj_state job),
      cr_created_at_ms = cj_created_at_ms job, cr_updated_at_ms = cj_updated_at_ms job,
      cr_delete_after_run = bit_of (cj_delete_after_run job),
      cr_retry_max_retries = map_option rp_max_retries (cj_retry job),
      cr_retry_backoff_ms = map_option rp_backoff_ms (cj_retry job)\<rparr>"

definition row_to_job :: "cron_row \<Rightarrow> cron_job" where
  "row_to_job row =
     \<lparr>cj_id = cr_id row, cj_team_id = cr_team_id row, cj_name = cr_name row, cj_enabled = (cr_enabled row = 1),
      cj_schedule = \<lparr>sc_kind = cr_schedule_kind row, sc_at_ms = cr_schedule_at_ms row,
        sc_every_ms = cr_schedule_every_ms row, sc_expr = cr_schedule_expr row, sc_tz = cr_schedule_tz row,
        sc_stagger_ms = cr_schedule_stagger_ms row\<rparr>,
      cj_payload = \<lparr>pl_kind = cr_payload_kind row, pl_message = cr_payload_message row,
        pl_deliver = (cr_payload_deliver row = 1), pl_channel = cr_payload_channel row,
        pl_to = cr_payload_to row, pl_overrides = cr_payload_overrides row\<rparr>,
      cj_state = \<lparr>js_next_run_at_ms = cr_state_next_run_at_ms row, js_last_run_at_ms = cr_state_last_run_at_ms row,
        js_last_status = cr_state_last_status row, js_last_error = cr_state_last_error row,
        js_running = (cr_state_running row = 1), js_running_started_at_ms = cr_state_running_started_at_ms row,
        js_retry_attempt = cr_state_retry_attempt row\<rparr>,
      cj_created_at_ms = cr_created_at_ms row, cj_updated_at_ms = cr_updated_at_ms row,
      cj_delete_after_run = (cr_delete_after_run row = 1),
      cj_retry = (case cr_retry_max_retries row of None \<Rightarrow> None
        | Some n \<Rightarrow> Some \<lparr>rp_max_retries = n,
            rp_backoff_ms = (case cr_retry_backoff_ms row of Some l \<Rightarrow> l | None \<Rightarrow> [30000, 60000, 300000])\<rparr>)\<rparr>"


section \<open>The service state\<close>

datatype timer_task = NoTask | Sleeping int | Firing | Wedged

datatype cron_change = ChExecuted | ChAdded | ChRemoved | ChEnabled | ChDisabled | ChPaused | ChResumed

record cron_exec =
  ce_ref :: nat
  ce_start :: int

record cron_service =
  cv_env :: cron_env
  cv_lease :: int
  cv_db :: "cron_row list"
  cv_store :: "nat list option"
  cv_heap :: "cron_job list"
  cv_locks :: "(string, int) jmap"
  cv_task :: timer_task
  cv_tick :: bool
  cv_due :: "nat list"
  cv_current :: "cron_exec option"
  cv_running :: bool
  cv_paused :: bool
  cv_notes :: "(cron_change \<times> string option \<times> string option) list"

datatype 'a cron_result = Threw string | Waits | Returned 'a

definition cron_new :: "cron_env \<Rightarrow> int option \<Rightarrow> cron_row list \<Rightarrow> cron_service" where
  "cron_new env running_lease_ms db =
     \<lparr>cv_env = env, cv_lease = max 5000 (case running_lease_ms of Some n \<Rightarrow> if n = 0 then 120000 else n | None \<Rightarrow> 120000),
      cv_db = db, cv_store = None, cv_heap = [], cv_locks = [], cv_task = NoTask, cv_tick = False, cv_due = [],
      cv_current = None, cv_running = False, cv_paused = False, cv_notes = []\<rparr>"

definition job_at :: "cron_service \<Rightarrow> nat \<Rightarrow> cron_job" where
  "job_at s r = cv_heap s ! r"

definition put_job :: "nat \<Rightarrow> cron_job \<Rightarrow> cron_service \<Rightarrow> cron_service" where
  "put_job r j s = s\<lparr>cv_heap := (cv_heap s)[r := j]\<rparr>"

definition store_refs :: "cron_service \<Rightarrow> nat list" where
  "store_refs s = (case cv_store s of Some rs \<Rightarrow> rs | None \<Rightarrow> [])"

definition load_store :: "cron_service \<Rightarrow> cron_service" where
  "load_store s = (case cv_store s of Some _ \<Rightarrow> s
     | None \<Rightarrow> (let rows = sort_key cr_created_at_ms (cv_db s); n = length (cv_heap s)
                in s\<lparr>cv_heap := cv_heap s @ map row_to_job rows, cv_store := Some [n..<n + length rows]\<rparr>))"

text \<open>
  Saving writes a row for every job. Two jobs of one id, which a random id of eight characters does not rule out, would
  violate the key of the table and make the save throw; here both rows are kept.
\<close>

definition save_store :: "cron_service \<Rightarrow> cron_service" where
  "save_store s = (let s = load_store s in s\<lparr>cv_db := map (\<lambda>r. job_to_row (job_at s r)) (store_refs s)\<rparr>)"

definition cron_notify :: "cron_change \<Rightarrow> string option \<Rightarrow> string option \<Rightarrow> cron_service \<Rightarrow> cron_service" where
  "cron_notify ty job_id team_id s = s\<lparr>cv_notes := cv_notes s @ [(ty, job_id, team_id)]\<rparr>"

definition set_next_run :: "int option \<Rightarrow> cron_job \<Rightarrow> cron_job" where
  "set_next_run n j = j\<lparr>cj_state := (cj_state j)\<lparr>js_next_run_at_ms := n\<rparr>\<rparr>"

definition job_next_run :: "cron_env \<Rightarrow> cron_job \<Rightarrow> int \<Rightarrow> int option" where
  "job_next_run env j now = next_run env (cj_schedule j) now (Some (cj_id j))"

definition is_running_fresh :: "int \<Rightarrow> cron_job \<Rightarrow> int \<Rightarrow> bool" where
  "is_running_fresh lease j now \<longleftrightarrow> js_running (cj_state j)
     \<and> (case js_running_started_at_ms (cj_state j) of None \<Rightarrow> False
        | Some started \<Rightarrow> 0 < started \<and> now - started < lease)"


section \<open>Start-up and wake time\<close>

definition recompute_job :: "cron_env \<Rightarrow> int \<Rightarrow> int \<Rightarrow> cron_job \<Rightarrow> cron_job" where
  "recompute_job env lease now j =
     (if is_running_fresh lease j now then j
      else let j = (if js_running (cj_state j)
                    then j\<lparr>cj_state := (cj_state j)\<lparr>js_running := False, js_running_started_at_ms := None\<rparr>\<rparr> else j)
           in if cj_enabled j then set_next_run (job_next_run env j now) j else j)"

definition update_jobs :: "(cron_job \<Rightarrow> cron_job) \<Rightarrow> cron_service \<Rightarrow> cron_service" where
  "update_jobs f s = fold (\<lambda>r s. put_job r (f (job_at s r)) s) (store_refs s) s"

definition recompute_next_runs :: "int \<Rightarrow> cron_service \<Rightarrow> cron_service" where
  "recompute_next_runs now s =
     (let s = load_store s in update_jobs (recompute_job (cv_env s) (cv_lease s) now) s)"

definition wake_times :: "int \<Rightarrow> cron_service \<Rightarrow> int list" where
  "wake_times now s =
     filter (\<lambda>n. 0 < n)
       (map (\<lambda>j. case js_next_run_at_ms (cj_state j) of Some n \<Rightarrow> n | None \<Rightarrow> 0)
         (filter (\<lambda>j. \<not> is_running_fresh (cv_lease s) j now)
           (filter (\<lambda>j. cj_enabled j \<and> js_next_run_at_ms (cj_state j) \<notin> {None, Some 0})
             (map (job_at s) (store_refs s)))))"

definition get_next_wake_ms :: "int \<Rightarrow> cron_service \<Rightarrow> int option \<times> cron_service" where
  "get_next_wake_ms now s =
     (let s = load_store s; times = wake_times now s
      in (if times = [] then None else Some (Min (set times)), s))"

text \<open>Awaiting the old task: a sleeping one is aborted, one inside \<open>_on_timer\<close> must finish first.\<close>

definition cancel_timer :: "cron_service \<Rightarrow> cron_service option" where
  "cancel_timer s = (case cv_task s of Firing \<Rightarrow> None | Wedged \<Rightarrow> None | _ \<Rightarrow> Some (s\<lparr>cv_task := NoTask\<rparr>))"

definition arm_timer :: "int \<Rightarrow> cron_service \<Rightarrow> cron_service option" where
  "arm_timer now s = (case cancel_timer s of None \<Rightarrow> None
     | Some s \<Rightarrow> (case get_next_wake_ms now s of (wake, s) \<Rightarrow>
         if \<not> cv_running s \<or> cv_paused s then Some s
         else (case wake of None \<Rightarrow> Some s
               | Some w \<Rightarrow> Some (s\<lparr>cv_task := Sleeping (now + max 0 (w - now))\<rparr>))))"

definition save_and_rearm :: "int \<Rightarrow> cron_service \<Rightarrow> bool \<times> cron_service" where
  "save_and_rearm now s =
     (let s = save_store s in case arm_timer now s of Some s' \<Rightarrow> (True, s') | None \<Rightarrow> (False, s))"


section \<open>The job lock\<close>

definition is_job_lock_stale :: "int \<Rightarrow> int \<Rightarrow> int \<Rightarrow> bool" where
  "is_job_lock_stale lease now mtime \<longleftrightarrow> mtime \<le> 0 \<or> lease < now - mtime"

fun lock_attempts :: "nat \<Rightarrow> string \<Rightarrow> int \<Rightarrow> int \<Rightarrow> (string, int) jmap \<Rightarrow> (string, int) jmap option" where
  "lock_attempts 0 job_id lease now locks = None"
| "lock_attempts (Suc i) job_id lease now locks =
     (case jget locks job_id of
        None \<Rightarrow> Some (jset job_id now locks)
      | Some mtime \<Rightarrow> if \<not> is_job_lock_stale lease now mtime then None
                      else lock_attempts i job_id lease now (jdel job_id locks))"

definition acquire_job_lock :: "string \<Rightarrow> int \<Rightarrow> int \<Rightarrow> (string, int) jmap \<Rightarrow> (string, int) jmap option" where
  "acquire_job_lock job_id lease now locks = lock_attempts 2 job_id lease now locks"

definition release_job_lock :: "string \<Rightarrow> (string, int) jmap \<Rightarrow> (string, int) jmap" where
  "release_job_lock job_id locks = jdel job_id locks"


section \<open>Executing a job\<close>

definition exec_begin :: "nat \<Rightarrow> int \<Rightarrow> cron_service \<Rightarrow> cron_exec option \<times> cron_service" where
  "exec_begin r now s =
     (case acquire_job_lock (cj_id (job_at s r)) (cv_lease s) now (cv_locks s) of
        None \<Rightarrow> (None, s)
      | Some locks \<Rightarrow>
          (let s = load_store (s\<lparr>cv_locks := locks\<rparr>);
               j = job_at s r;
               j = j\<lparr>cj_state := (cj_state j)\<lparr>js_running := True, js_running_started_at_ms := Some now\<rparr>,
                     cj_updated_at_ms := now\<rparr>
           in (Some \<lparr>ce_ref = r, ce_start = now\<rparr>, save_store (put_job r j s))))"

text \<open>What the end of a run decides about the job: keep it with a new state, or drop it.\<close>

definition advance_job :: "cron_env \<Rightarrow> int \<Rightarrow> cron_job \<Rightarrow> cron_job \<times> bool" where
  "advance_job env now j =
     (if cj_delete_after_run j then (j, False)
      else if sc_kind (cj_schedule j) = KAt then (set_next_run None (j\<lparr>cj_enabled := False\<rparr>), True)
      else (set_next_run (job_next_run env j now) j, True))"

definition job_policy :: "cron_job \<Rightarrow> retry_policy" where
  "job_policy j = (case cj_retry j of Some p \<Rightarrow> p | None \<Rightarrow> default_retry_policy (sc_kind (cj_schedule j)))"

definition schedule_retry_or_advance :: "cron_env \<Rightarrow> int \<Rightarrow> cron_job \<Rightarrow> cron_job \<times> bool" where
  "schedule_retry_or_advance env now j =
     (let policy = job_policy j;
          next_attempt = js_retry_attempt (cj_state j) + 1
      in if should_retry policy next_attempt
         then (j\<lparr>cj_state := (cj_state j)\<lparr>js_retry_attempt := next_attempt,
                 js_next_run_at_ms := Some (now + get_retry_delay policy next_attempt)\<rparr>\<rparr>, True)
         else advance_job env now (j\<lparr>cj_state := (cj_state j)\<lparr>js_retry_attempt := 0\<rparr>\<rparr>))"

definition record_outcome :: "string option \<Rightarrow> int \<Rightarrow> int \<Rightarrow> cron_job \<Rightarrow> cron_job" where
  "record_outcome outcome start_ms now j =
     (let st = cj_state j;
          st = (case outcome of
                  None \<Rightarrow> st\<lparr>js_last_status := Some JsOk, js_last_error := None, js_retry_attempt := 0\<rparr>
                | Some e \<Rightarrow> st\<lparr>js_last_status := Some JsError, js_last_error := Some e\<rparr>)
      in j\<lparr>cj_state := st\<lparr>js_last_run_at_ms := Some start_ms, js_running := False, js_running_started_at_ms := None\<rparr>,
           cj_updated_at_ms := now\<rparr>)"

definition settle_job :: "cron_env \<Rightarrow> string option \<Rightarrow> int \<Rightarrow> int \<Rightarrow> cron_job \<Rightarrow> cron_job \<times> bool" where
  "settle_job env outcome start_ms now j =
     (let j = record_outcome outcome start_ms now j
      in if (case outcome of Some e \<Rightarrow> e \<noteq> [] | None \<Rightarrow> False) then schedule_retry_or_advance env now j
         else advance_job env now j)"

definition drop_job :: "string \<Rightarrow> cron_service \<Rightarrow> cron_service" where
  "drop_job job_id s = s\<lparr>cv_store := map_option (filter (\<lambda>r. cj_id (job_at s r) \<noteq> job_id)) (cv_store s)\<rparr>"

definition exec_finish :: "cron_exec \<Rightarrow> string option \<Rightarrow> int \<Rightarrow> cron_service \<Rightarrow> cron_service" where
  "exec_finish x outcome now s =
     (let r = ce_ref x;
          (j, keep) = settle_job (cv_env s) outcome (ce_start x) now (job_at s r);
          s = put_job r j s;
          s = (if keep then s else drop_job (cj_id j) s);
          s = cron_notify ChExecuted (Some (cj_id j)) (Some (cj_team_id j)) s
      in s\<lparr>cv_locks := release_job_lock (cj_id j) (cv_locks s)\<rparr>)"


section \<open>The tick\<close>

definition due_refs :: "int \<Rightarrow> cron_service \<Rightarrow> nat list" where
  "due_refs now s = filter (\<lambda>r. let j = job_at s r in cj_enabled j
     \<and> (case js_next_run_at_ms (cj_state j) of None \<Rightarrow> False | Some n \<Rightarrow> n \<noteq> 0 \<and> n \<le> now)
     \<and> \<not> is_running_fresh (cv_lease s) j now) (store_refs s)"

definition tick_start :: "int \<Rightarrow> cron_service \<Rightarrow> bool \<times> cron_service" where
  "tick_start now s =
     (if \<not> cv_running s \<or> cv_paused s \<or> cv_tick s then (False, s)
      else let s = load_store (s\<lparr>cv_tick := True\<rparr>) in (True, s\<lparr>cv_due := due_refs now s\<rparr>))"

text \<open>The sleep is over: the task runs \<open>_on_timer\<close>, or ends when there is nothing to start.\<close>

definition timer_fire :: "int \<Rightarrow> cron_service \<Rightarrow> cron_service" where
  "timer_fire now s = (case cv_task s of
       Sleeping w \<Rightarrow> if now < w then s
         else if \<not> cv_running s then s\<lparr>cv_task := NoTask\<rparr>
         else (case tick_start now s of (True, s') \<Rightarrow> s'\<lparr>cv_task := Firing\<rparr> | (False, s') \<Rightarrow> s'\<lparr>cv_task := NoTask\<rparr>)
     | _ \<Rightarrow> s)"

definition tick_next :: "int \<Rightarrow> cron_service \<Rightarrow> cron_service" where
  "tick_next now s = (case (cv_tick s, cv_current s, cv_due s) of
       (True, None, r # rs) \<Rightarrow>
         (case exec_begin r now (s\<lparr>cv_due := rs\<rparr>) of (x, s') \<Rightarrow> s'\<lparr>cv_current := x\<rparr>)
     | _ \<Rightarrow> s)"

definition tick_job_done :: "string option \<Rightarrow> int \<Rightarrow> cron_service \<Rightarrow> cron_service" where
  "tick_job_done outcome now s = (case (cv_tick s, cv_current s) of
       (True, Some x) \<Rightarrow> (exec_finish x outcome now s)\<lparr>cv_current := None\<rparr>
     | _ \<Rightarrow> s)"

text \<open>The end of \<open>_on_timer\<close>: re-arming from inside the timer's own task awaits that task.\<close>

definition tick_end :: "int \<Rightarrow> cron_service \<Rightarrow> cron_service" where
  "tick_end now s = (if cv_tick s \<and> cv_current s = None \<and> cv_due s = []
     then (let s = (save_store s)\<lparr>cv_tick := False\<rparr>
           in if cv_running s
              then (case arm_timer now s of Some s' \<Rightarrow> s' | None \<Rightarrow> s\<lparr>cv_task := Wedged\<rparr>)
              else (if cv_task s = Firing then s\<lparr>cv_task := NoTask\<rparr> else s))
     else s)"


section \<open>The operations of the scheduler\<close>

definition cron_start :: "int \<Rightarrow> cron_service \<Rightarrow> unit cron_result \<times> cron_service" where
  "cron_start now s =
     (if cv_running s then (Returned (), s)
      else let s = s\<lparr>cv_running := True, cv_paused := False\<rparr>;
               s = save_store (recompute_next_runs now (load_store s))
           in case tick_start now s of
             (True, s') \<Rightarrow> (Returned (), s')
           | (False, s') \<Rightarrow> (case arm_timer now s' of Some s'' \<Rightarrow> (Returned (), s'') | None \<Rightarrow> (Waits, s')))"

definition cron_stop :: "cron_service \<Rightarrow> unit cron_result \<times> cron_service" where
  "cron_stop s =
     (let s = s\<lparr>cv_running := False, cv_paused := False\<rparr>
      in case cancel_timer s of Some s' \<Rightarrow> (Returned (), s') | None \<Rightarrow> (Waits, s))"

definition cron_pause :: "cron_service \<Rightarrow> unit cron_result \<times> cron_service" where
  "cron_pause s =
     (let s = s\<lparr>cv_paused := True\<rparr>
      in case cancel_timer s of Some s' \<Rightarrow> (Returned (), cron_notify ChPaused None None s') | None \<Rightarrow> (Waits, s))"

definition cron_resume :: "int \<Rightarrow> cron_service \<Rightarrow> unit cron_result \<times> cron_service" where
  "cron_resume now s =
     (if \<not> cv_running s then cron_start now s
      else let s = s\<lparr>cv_paused := False\<rparr>
           in case arm_timer now s of Some s' \<Rightarrow> (Returned (), cron_notify ChResumed None None s') | None \<Rightarrow> (Waits, s))"

definition max_safe_integer :: int where
  "max_safe_integer = 9007199254740991"

definition list_jobs :: "bool \<Rightarrow> string option \<Rightarrow> cron_service \<Rightarrow> cron_job list \<times> cron_service" where
  "list_jobs include_disabled team_id s =
     (let s = load_store s;
          jobs = map (job_at s) (store_refs s);
          jobs = (if include_disabled then jobs else filter cj_enabled jobs);
          jobs = (case team_id of Some t \<Rightarrow> filter (\<lambda>j. cj_team_id j = t) jobs | None \<Rightarrow> jobs)
      in (sort_key (\<lambda>j. case js_next_run_at_ms (cj_state j) of Some n \<Rightarrow> n | None \<Rightarrow> max_safe_integer) jobs, s))"

record add_options =
  ao_retry :: "retry_policy option"
  ao_overrides :: "job_overrides option"
  ao_team_id :: "string option"

definition new_job :: "cron_env \<Rightarrow> int \<Rightarrow> string \<Rightarrow> string \<Rightarrow> cron_schedule \<Rightarrow> string \<Rightarrow> bool \<Rightarrow> string option \<Rightarrow> string option
    \<Rightarrow> bool option \<Rightarrow> add_options option \<Rightarrow> cron_job" where
  "new_job env now jid name schedule message deliver channel dest delete_after_run opts =
     \<lparr>cj_id = jid, cj_team_id = (case opts of Some a \<Rightarrow> (case ao_team_id a of Some t \<Rightarrow> t | None \<Rightarrow> []) | None \<Rightarrow> []),
      cj_name = name, cj_enabled = True, cj_schedule = schedule,
      cj_payload = \<lparr>pl_kind = PkAgentTurn, pl_message = message, pl_deliver = deliver, pl_channel = channel,
        pl_to = dest, pl_overrides = (case opts of Some a \<Rightarrow> ao_overrides a | None \<Rightarrow> None)\<rparr>,
      cj_state = \<lparr>js_next_run_at_ms = next_run env schedule now (Some jid), js_last_run_at_ms = None,
        js_last_status = None, js_last_error = None, js_running = False, js_running_started_at_ms = None,
        js_retry_attempt = 0\<rparr>,
      cj_created_at_ms = now, cj_updated_at_ms = now,
      cj_delete_after_run = (case delete_after_run of Some b \<Rightarrow> b | None \<Rightarrow> sc_kind schedule = KAt),
      cj_retry = (case opts of Some a \<Rightarrow> ao_retry a | None \<Rightarrow> None)\<rparr>"

definition add_job :: "int \<Rightarrow> string \<Rightarrow> string \<Rightarrow> cron_schedule \<Rightarrow> string \<Rightarrow> bool \<Rightarrow> string option \<Rightarrow> string option
    \<Rightarrow> bool option \<Rightarrow> add_options option \<Rightarrow> cron_service \<Rightarrow> cron_job cron_result \<times> cron_service" where
  "add_job now jid name schedule message deliver channel dest delete_after_run opts s =
     (let s = load_store s
      in case validate_schedule_for_add (cv_env s) schedule of
        Some e \<Rightarrow> (Threw e, s)
      | None \<Rightarrow>
          (let job = new_job (cv_env s) now jid name schedule message deliver channel dest delete_after_run opts;
               s = s\<lparr>cv_heap := cv_heap s @ [job], cv_store := map_option (\<lambda>rs. rs @ [length (cv_heap s)]) (cv_store s)\<rparr>
           in case save_and_rearm now s of
             (True, s') \<Rightarrow> (Returned job, cron_notify ChAdded (Some jid) (Some (cj_team_id job)) s')
           | (False, s') \<Rightarrow> (Waits, s')))"

definition find_job :: "string \<Rightarrow> cron_service \<Rightarrow> nat option" where
  "find_job job_id s = find (\<lambda>r. cj_id (job_at s r) = job_id) (store_refs s)"

definition foreign_team :: "string option \<Rightarrow> cron_job \<Rightarrow> bool" where
  "foreign_team team_id j \<longleftrightarrow> (case team_id of Some t \<Rightarrow> cj_team_id j \<noteq> t | None \<Rightarrow> False)"

definition remove_job :: "int \<Rightarrow> string \<Rightarrow> string option \<Rightarrow> cron_service \<Rightarrow> bool cron_result \<times> cron_service" where
  "remove_job now job_id team_id s =
     (let s = load_store s; target = find_job job_id s
      in if team_id \<noteq> None \<and> (case target of None \<Rightarrow> True | Some r \<Rightarrow> foreign_team team_id (job_at s r))
         then (Returned False, s)
         else let s' = drop_job job_id s
              in if length (store_refs s') < length (store_refs s)
                 then (case save_and_rearm now s' of
                     (True, s'') \<Rightarrow> (Returned True,
                        cron_notify ChRemoved (Some job_id) (map_option (\<lambda>r. cj_team_id (job_at s r)) target) s'')
                   | (False, s'') \<Rightarrow> (Waits, s''))
                 else (Returned False, s'))"

definition set_enabled :: "cron_env \<Rightarrow> int \<Rightarrow> bool \<Rightarrow> cron_job \<Rightarrow> cron_job" where
  "set_enabled env now enabled j =
     (let j = j\<lparr>cj_enabled := enabled, cj_updated_at_ms := now\<rparr>
      in if enabled then (let j = set_next_run (job_next_run env j now) j
                          in j\<lparr>cj_state := (cj_state j)\<lparr>js_retry_attempt := 0\<rparr>\<rparr>)
         else set_next_run None j)"

definition enable_job :: "int \<Rightarrow> string \<Rightarrow> bool \<Rightarrow> string option \<Rightarrow> cron_service \<Rightarrow> cron_job option cron_result \<times> cron_service" where
  "enable_job now job_id enabled team_id s =
     (let s = load_store s
      in case find_job job_id s of
        None \<Rightarrow> (Returned None, s)
      | Some r \<Rightarrow>
          if foreign_team team_id (job_at s r) then (Returned None, s)
          else let j = set_enabled (cv_env s) now enabled (job_at s r)
               in case save_and_rearm now (put_job r j s) of
                 (True, s') \<Rightarrow> (Returned (Some j),
                    cron_notify (if enabled then ChEnabled else ChDisabled) (Some job_id) (Some (cj_team_id j)) s')
               | (False, s') \<Rightarrow> (Waits, s'))"

text \<open>\<open>run_job\<close> up to its handler (a refusal, or the execution it began if it got the lock),
  and from the handler's end on.\<close>

definition run_job_begin :: "int \<Rightarrow> string \<Rightarrow> bool \<Rightarrow> string option \<Rightarrow> cron_service \<Rightarrow> (bool \<times> cron_exec option) \<times> cron_service" where
  "run_job_begin now job_id force team_id s =
     (let s = load_store s
      in case find_job job_id s of
        None \<Rightarrow> ((False, None), s)
      | Some r \<Rightarrow>
          if foreign_team team_id (job_at s r) then ((False, None), s)
          else if \<not> force \<and> \<not> cj_enabled (job_at s r) then ((False, None), s)
          else (case exec_begin r now s of (x, s') \<Rightarrow> ((True, x), s')))"

definition run_job_end :: "int \<Rightarrow> (cron_exec \<times> string option) option \<Rightarrow> cron_service \<Rightarrow> bool cron_result \<times> cron_service" where
  "run_job_end now x s =
     (let s = (case x of Some (e, outcome) \<Rightarrow> exec_finish e outcome now s | None \<Rightarrow> s)
      in case save_and_rearm now s of (True, s') \<Rightarrow> (Returned True, s') | (False, s') \<Rightarrow> (Waits, s'))"

record cron_status =
  st_enabled :: bool
  st_paused :: bool
  st_jobs :: nat
  st_next_wake_at_ms :: "int option"

definition status_of_service :: "int \<Rightarrow> cron_service \<Rightarrow> cron_status \<times> cron_service" where
  "status_of_service now s =
     (let s = load_store s
      in case get_next_wake_ms now s of (wake, s') \<Rightarrow>
        (\<lparr>st_enabled = (cv_running s' \<and> \<not> cv_paused s'), st_paused = cv_paused s',
          st_jobs = length (store_refs s), st_next_wake_at_ms = wake\<rparr>, s'))"

definition disable_job :: "int \<Rightarrow> cron_job \<Rightarrow> cron_job" where
  "disable_job now j = (if cj_enabled j then set_next_run None (j\<lparr>cj_enabled := False, cj_updated_at_ms := now\<rparr>) else j)"

definition disable_all_and_pause :: "int \<Rightarrow> cron_service \<Rightarrow> nat cron_result \<times> cron_service" where
  "disable_all_and_pause now s =
     (let s = load_store s;
          count = length (filter (\<lambda>r. cj_enabled (job_at s r)) (store_refs s));
          s = (update_jobs (disable_job now) s)\<lparr>cv_paused := True\<rparr>
      in case cancel_timer s of None \<Rightarrow> (Waits, s)
         | Some s' \<Rightarrow> (Returned count, if 0 < count then save_store s' else s'))"


section \<open>Runs of the service\<close>

datatype cron_op =
    OpStart int | OpStop | OpPause | OpResume int
  | OpAdd int string string cron_schedule string "bool option" "add_options option"
  | OpRemove int string "string option" | OpEnable int string bool "string option"
  | OpRunBegin int string bool "string option" | OpRunEnd int "(cron_exec \<times> string option) option"
  | OpFire int | OpTickNext int | OpTickDone "string option" int | OpTickEnd int
  | OpDisableAll int | OpList bool "string option" | OpStatus int

fun cron_step :: "cron_op \<Rightarrow> cron_service \<Rightarrow> cron_service" where
  "cron_step (OpStart t) s = snd (cron_start t s)"
| "cron_step OpStop s = snd (cron_stop s)"
| "cron_step OpPause s = snd (cron_pause s)"
| "cron_step (OpResume t) s = snd (cron_resume t s)"
| "cron_step (OpAdd t i n sc m d opts) s = snd (add_job t i n sc m False None None d opts s)"
| "cron_step (OpRemove t i tm) s = snd (remove_job t i tm s)"
| "cron_step (OpEnable t i b tm) s = snd (enable_job t i b tm s)"
| "cron_step (OpRunBegin t i f tm) s = snd (run_job_begin t i f tm s)"
| "cron_step (OpRunEnd t x) s = snd (run_job_end t x s)"
| "cron_step (OpFire t) s = timer_fire t s"
| "cron_step (OpTickNext t) s = tick_next t s"
| "cron_step (OpTickDone e t) s = tick_job_done e t s"
| "cron_step (OpTickEnd t) s = tick_end t s"
| "cron_step (OpDisableAll t) s = snd (disable_all_and_pause t s)"
| "cron_step (OpList b tm) s = snd (list_jobs b tm s)"
| "cron_step (OpStatus t) s = snd (status_of_service t s)"

text \<open>What the helper steps leave alone.\<close>

lemma load_store_frame [simp]:
  "cv_task (load_store s) = cv_task s" "cv_locks (load_store s) = cv_locks s" "cv_running (load_store s) = cv_running s"
  "cv_paused (load_store s) = cv_paused s" "cv_lease (load_store s) = cv_lease s" "cv_env (load_store s) = cv_env s"
  "cv_tick (load_store s) = cv_tick s" "cv_current (load_store s) = cv_current s" "cv_due (load_store s) = cv_due s"
  "cv_notes (load_store s) = cv_notes s" "cv_db (load_store s) = cv_db s"
  by (simp_all add: load_store_def Let_def split: option.split)

lemma put_job_frame [simp]:
  "cv_task (put_job r j s) = cv_task s" "cv_locks (put_job r j s) = cv_locks s" "cv_running (put_job r j s) = cv_running s"
  "cv_paused (put_job r j s) = cv_paused s" "cv_lease (put_job r j s) = cv_lease s" "cv_env (put_job r j s) = cv_env s"
  "cv_tick (put_job r j s) = cv_tick s" "cv_current (put_job r j s) = cv_current s" "cv_due (put_job r j s) = cv_due s"
  "cv_store (put_job r j s) = cv_store s" "store_refs (put_job r j s) = store_refs s"
  "length (cv_heap (put_job r j s)) = length (cv_heap s)"
  by (simp_all add: put_job_def store_refs_def)

lemma save_store_frame [simp]:
  "cv_task (save_store s) = cv_task s" "cv_locks (save_store s) = cv_locks s" "cv_running (save_store s) = cv_running s"
  "cv_paused (save_store s) = cv_paused s" "cv_lease (save_store s) = cv_lease s" "cv_env (save_store s) = cv_env s"
  "cv_tick (save_store s) = cv_tick s" "cv_current (save_store s) = cv_current s" "cv_due (save_store s) = cv_due s"
  "cv_store (save_store s) = cv_store (load_store s)" "cv_heap (save_store s) = cv_heap (load_store s)"
  by (simp_all add: save_store_def Let_def)

lemma notify_frame [simp]:
  "cv_task (cron_notify c i tm s) = cv_task s" "cv_locks (cron_notify c i tm s) = cv_locks s"
  "cv_running (cron_notify c i tm s) = cv_running s" "cv_lease (cron_notify c i tm s) = cv_lease s"
  "cv_heap (cron_notify c i tm s) = cv_heap s" "cv_store (cron_notify c i tm s) = cv_store s"
  "cv_tick (cron_notify c i tm s) = cv_tick s" "cv_current (cron_notify c i tm s) = cv_current s"
  "cv_due (cron_notify c i tm s) = cv_due s" "cv_env (cron_notify c i tm s) = cv_env s"
  by (simp_all add: cron_notify_def)

lemma drop_job_frame [simp]:
  "cv_task (drop_job i s) = cv_task s" "cv_locks (drop_job i s) = cv_locks s" "cv_running (drop_job i s) = cv_running s"
  "cv_lease (drop_job i s) = cv_lease s" "cv_heap (drop_job i s) = cv_heap s"
  "cv_tick (drop_job i s) = cv_tick s" "cv_current (drop_job i s) = cv_current s" "cv_due (drop_job i s) = cv_due s"
  by (simp_all add: drop_job_def)

lemma fold_put_frame [simp]:
  "cv_task (fold (\<lambda>r s. put_job r (f (job_at s r)) s) rs s) = cv_task s"
  "cv_locks (fold (\<lambda>r s. put_job r (f (job_at s r)) s) rs s) = cv_locks s"
  "cv_running (fold (\<lambda>r s. put_job r (f (job_at s r)) s) rs s) = cv_running s"
  "cv_lease (fold (\<lambda>r s. put_job r (f (job_at s r)) s) rs s) = cv_lease s"
  "cv_store (fold (\<lambda>r s. put_job r (f (job_at s r)) s) rs s) = cv_store s"
  "cv_tick (fold (\<lambda>r s. put_job r (f (job_at s r)) s) rs s) = cv_tick s"
  "cv_current (fold (\<lambda>r s. put_job r (f (job_at s r)) s) rs s) = cv_current s"
  "cv_due (fold (\<lambda>r s. put_job r (f (job_at s r)) s) rs s) = cv_due s"
  "length (cv_heap (fold (\<lambda>r s. put_job r (f (job_at s r)) s) rs s)) = length (cv_heap s)"
  by (induction rs arbitrary: s) simp_all

lemma update_jobs_frame [simp]:
  "cv_task (update_jobs f s) = cv_task s" "cv_locks (update_jobs f s) = cv_locks s"
  "cv_running (update_jobs f s) = cv_running s" "cv_lease (update_jobs f s) = cv_lease s"
  "cv_store (update_jobs f s) = cv_store s" "cv_tick (update_jobs f s) = cv_tick s"
  "cv_current (update_jobs f s) = cv_current s" "cv_due (update_jobs f s) = cv_due s"
  "store_refs (update_jobs f s) = store_refs s" "length (cv_heap (update_jobs f s)) = length (cv_heap s)"
  by (simp_all add: update_jobs_def store_refs_def)

lemma job_at_put: "r < length (cv_heap s) \<Longrightarrow> job_at (put_job r j s) r' = (if r' = r then j else job_at s r')"
  by (simp add: job_at_def put_job_def nth_list_update)

lemma job_at_fold_put:
  "distinct rs \<Longrightarrow> set rs \<subseteq> {..<length (cv_heap s)} \<Longrightarrow>
   job_at (fold (\<lambda>r s. put_job r (f (job_at s r)) s) rs s) q = (if q \<in> set rs then f (job_at s q) else job_at s q)"
proof (induction rs arbitrary: s)
  case Nil
  then show ?case by simp
next
  case (Cons r rs)
  let ?s = "put_job r (f (job_at s r)) s"
  have r: "r < length (cv_heap s)" using Cons.prems(2) by simp
  have "job_at (fold (\<lambda>r s. put_job r (f (job_at s r)) s) rs ?s) q
      = (if q \<in> set rs then f (job_at ?s q) else job_at ?s q)"
    using Cons.prems by (intro Cons.IH) auto
  then show ?case using Cons.prems(1) by (auto simp: job_at_put[OF r])
qed


section \<open>Persistence\<close>

lemma row_to_job_to_row: "row_to_job (job_to_row j) = j"
proof -
  have b: "(bit_of x = 1) = x" for x by (simp add: bit_of_def)
  have "cj_schedule (row_to_job (job_to_row j)) = cj_schedule j"
    by (rule cron_schedule.equality) (simp_all add: row_to_job_def job_to_row_def)
  moreover have "cj_payload (row_to_job (job_to_row j)) = cj_payload j"
    by (rule cron_payload.equality) (simp_all add: row_to_job_def job_to_row_def b)
  moreover have "cj_state (row_to_job (job_to_row j)) = cj_state j"
    by (rule cron_job_state.equality) (simp_all add: row_to_job_def job_to_row_def b)
  moreover have "cj_retry (row_to_job (job_to_row j)) = cj_retry j"
    by (cases "cj_retry j") (simp_all add: row_to_job_def job_to_row_def)
  ultimately show ?thesis
    by (intro cron_job.equality) (simp_all add: row_to_job_def job_to_row_def b)
qed

lemma store_refs_load: "store_refs (load_store (cron_new env l db)) = [0..<length db]"
  by (simp add: load_store_def cron_new_def store_refs_def Let_def)

lemma jobs_of_load: "map (job_at (load_store (cron_new env l db))) (store_refs (load_store (cron_new env l db)))
   = map row_to_job (sort_key cr_created_at_ms db)"
proof -
  let ?js = "map row_to_job (sort_key cr_created_at_ms db)"
  have h: "cv_heap (load_store (cron_new env l db)) = ?js"
    by (simp add: load_store_def cron_new_def Let_def)
  have "map ((!) ?js) [0..<length ?js] = ?js" by (rule map_nth)
  then show ?thesis by (simp add: store_refs_load job_at_def[abs_def] h)
qed

lemma map_sort_key: "(\<And>x. k (f x) = l x) \<Longrightarrow> map f (sort_key l xs) = sort_key k (map f xs)"
proof (induction xs)
  case (Cons x xs)
  have "map f (insort_key l x ys) = insort_key k (f x) (map f ys)" for ys
    by (induction ys) (simp_all add: Cons.prems)
  with Cons show ?case by simp
qed simp

text \<open>C37. What a restart reads is what was saved: every job of the store comes back with every one
  of its fields, in the order of creation.\<close>

theorem saved_jobs_reload:
  "map (job_at (load_store (cron_new env l (cv_db (save_store s)))))
       (store_refs (load_store (cron_new env l (cv_db (save_store s)))))
   = sort_key cj_created_at_ms (map (job_at (load_store s)) (store_refs (load_store s)))"
proof -
  let ?js = "map (job_at (load_store s)) (store_refs (load_store s))"
  have db: "cv_db (save_store s) = map job_to_row ?js" by (simp add: save_store_def Let_def)
  have "map row_to_job (sort_key cr_created_at_ms (map job_to_row ?js))
      = sort_key cj_created_at_ms (map row_to_job (map job_to_row ?js))"
    by (rule map_sort_key) (simp add: row_to_job_def)
  also have "map row_to_job (map job_to_row ?js) = ?js" by (simp add: row_to_job_to_row)
  finally show ?thesis unfolding jobs_of_load db .
qed


section \<open>Retries\<close>

fun fail_runs :: "cron_env \<Rightarrow> (string \<times> int \<times> int) list \<Rightarrow> cron_job \<Rightarrow> cron_job \<times> bool" where
  "fail_runs env [] j = (j, True)"
| "fail_runs env ((e, start_ms, now) # xs) j =
     (case settle_job env (Some e) start_ms now j of (j', keep) \<Rightarrow> if keep then fail_runs env xs j' else (j', False))"

lemma record_outcome_frame [simp]:
  "cj_schedule (record_outcome oc st now j) = cj_schedule j" "cj_retry (record_outcome oc st now j) = cj_retry j"
  "cj_enabled (record_outcome oc st now j) = cj_enabled j" "cj_id (record_outcome oc st now j) = cj_id j"
  "cj_team_id (record_outcome oc st now j) = cj_team_id j"
  "cj_delete_after_run (record_outcome oc st now j) = cj_delete_after_run j"
  "job_policy (record_outcome oc st now j) = job_policy j" "\<not> js_running (cj_state (record_outcome oc st now j))"
  "js_retry_attempt (cj_state (record_outcome (Some e) st now j)) = js_retry_attempt (cj_state j)"
  "js_retry_attempt (cj_state (record_outcome None st now j)) = 0"
  by (simp_all add: record_outcome_def Let_def) (cases "cj_retry j"; simp add: job_policy_def)

lemma job_policy_state [simp]: "job_policy (j\<lparr>cj_state := st\<rparr>) = job_policy j"
  by (cases "cj_retry j") (simp_all add: job_policy_def)

lemma settle_retry:
  assumes "e \<noteq> []" and "should_retry (job_policy j) (js_retry_attempt (cj_state j) + 1)"
    and "settle_job env (Some e) start_ms now j = (j', keep)"
  shows "keep \<and> js_retry_attempt (cj_state j') = js_retry_attempt (cj_state j) + 1
    \<and> js_next_run_at_ms (cj_state j') = Some (now + get_retry_delay (job_policy j) (js_retry_attempt (cj_state j) + 1))
    \<and> cj_enabled j' = cj_enabled j \<and> job_policy j' = job_policy j \<and> cj_schedule j' = cj_schedule j
    \<and> cj_delete_after_run j' = cj_delete_after_run j \<and> \<not> js_running (cj_state j')"
  using assms by (auto simp: settle_job_def schedule_retry_or_advance_def Let_def)

lemma settle_exhausted:
  assumes "e \<noteq> []" and "\<not> should_retry (job_policy j) (js_retry_attempt (cj_state j) + 1)"
  shows "settle_job env (Some e) start_ms now j =
     advance_job env now (let j = record_outcome (Some e) start_ms now j in j\<lparr>cj_state := (cj_state j)\<lparr>js_retry_attempt := 0\<rparr>\<rparr>)"
  using assms by (simp add: settle_job_def schedule_retry_or_advance_def Let_def)

lemma advance_spec:
  assumes "advance_job env now j = (j', keep)"
  shows "keep = (\<not> cj_delete_after_run j) \<and> js_retry_attempt (cj_state j') = js_retry_attempt (cj_state j)
    \<and> (keep \<longrightarrow> (if sc_kind (cj_schedule j) = KAt then \<not> cj_enabled j' \<and> js_next_run_at_ms (cj_state j') = None
         else cj_enabled j' = cj_enabled j
           \<and> js_next_run_at_ms (cj_state j') = next_run env (cj_schedule j) now (Some (cj_id j'))))"
  using assms by (auto simp: advance_job_def set_next_run_def job_next_run_def split: if_splits)

lemma fail_runs_ladder:
  assumes "\<forall>x \<in> set xs. fst x \<noteq> []" and "0 \<le> js_retry_attempt (cj_state j)"
    and "rp_max_retries (job_policy j) < 0 \<or> js_retry_attempt (cj_state j) + int (length xs) \<le> rp_max_retries (job_policy j)"
    and "fail_runs env xs j = (j', keep)"
  shows "keep \<and> js_retry_attempt (cj_state j') = js_retry_attempt (cj_state j) + int (length xs)
    \<and> cj_enabled j' = cj_enabled j \<and> job_policy j' = job_policy j \<and> cj_schedule j' = cj_schedule j
    \<and> cj_delete_after_run j' = cj_delete_after_run j
    \<and> (xs \<noteq> [] \<longrightarrow> js_next_run_at_ms (cj_state j') =
         Some (snd (snd (last xs)) + get_retry_delay (job_policy j) (js_retry_attempt (cj_state j) + int (length xs))))"
  using assms
proof (induction xs arbitrary: j)
  case Nil
  then show ?case by simp
next
  case (Cons x xs)
  obtain e st now where x: "x = (e, st, now)" by (cases x)
  obtain j1 k1 where j1: "settle_job env (Some e) st now j = (j1, k1)" by (cases "settle_job env (Some e) st now j")
  have e: "e \<noteq> []" using Cons.prems(1) x by simp
  have retry: "should_retry (job_policy j) (js_retry_attempt (cj_state j) + 1)"
    using Cons.prems(3) by (auto simp: should_retry_def)
  note s = settle_retry[OF e retry j1]
  have rest: "fail_runs env xs j1 = (j', keep)" using Cons.prems(4) x j1 s by simp
  have "keep \<and> js_retry_attempt (cj_state j') = js_retry_attempt (cj_state j1) + int (length xs)
    \<and> cj_enabled j' = cj_enabled j1 \<and> job_policy j' = job_policy j1 \<and> cj_schedule j' = cj_schedule j1
    \<and> cj_delete_after_run j' = cj_delete_after_run j1
    \<and> (xs \<noteq> [] \<longrightarrow> js_next_run_at_ms (cj_state j') =
         Some (snd (snd (last xs)) + get_retry_delay (job_policy j1) (js_retry_attempt (cj_state j1) + int (length xs))))"
    using s Cons.prems(1,2,3) by (intro Cons.IH[OF _ _ _ rest]) auto
  with s rest x show ?case by (cases xs) (auto simp: algebra_simps)
qed

lemma fail_runs_append:
  "fail_runs env (xs @ ys) j = (case fail_runs env xs j of (j', keep) \<Rightarrow> if keep then fail_runs env ys j' else (j', False))"
  by (induction env xs j rule: fail_runs.induct) (auto split: prod.split)

text \<open>Consecutive failures climb the retry ladder: while the policy allows, each failed run
  keeps the job as it was and books the next attempt one backoff step after the failure; the
  failure after the last allowed retry ends the ladder, and a one-shot job is then removed or
  disabled, while a recurring one goes back to its schedule.\<close>

theorem retry_ladder:
  assumes "\<forall>x \<in> set xs. fst x \<noteq> []" and "e \<noteq> []" and "js_retry_attempt (cj_state j) = 0"
    and "rp_max_retries (job_policy j) = int n"
  shows "(0 < length xs \<and> length xs \<le> n \<longrightarrow> (\<exists>j'. fail_runs env xs j = (j', True) \<and> cj_enabled j' = cj_enabled j
            \<and> js_retry_attempt (cj_state j') = int (length xs)
            \<and> js_next_run_at_ms (cj_state j') = Some (snd (snd (last xs)) + get_retry_delay (job_policy j) (int (length xs)))))
    \<and> (length xs = n \<longrightarrow> (\<exists>j' keep. fail_runs env (xs @ [(e, st, now)]) j = (j', keep)
            \<and> keep = (\<not> cj_delete_after_run j) \<and> js_retry_attempt (cj_state j') = 0
            \<and> (keep \<longrightarrow> (if sc_kind (cj_schedule j) = KAt then \<not> cj_enabled j' \<and> js_next_run_at_ms (cj_state j') = None
                 else cj_enabled j' = cj_enabled j
                   \<and> js_next_run_at_ms (cj_state j') = next_run env (cj_schedule j) now (Some (cj_id j'))))))"
proof -
  obtain j1 k1 where j1: "fail_runs env xs j = (j1, k1)" by (cases "fail_runs env xs j")
  note ladder = fail_runs_ladder[OF assms(1) _ _ j1]
  have up: "length xs \<le> n \<Longrightarrow> k1 \<and> js_retry_attempt (cj_state j1) = int (length xs)
    \<and> cj_enabled j1 = cj_enabled j \<and> job_policy j1 = job_policy j \<and> cj_schedule j1 = cj_schedule j
    \<and> cj_delete_after_run j1 = cj_delete_after_run j
    \<and> (xs \<noteq> [] \<longrightarrow> js_next_run_at_ms (cj_state j1) = Some (snd (snd (last xs)) + get_retry_delay (job_policy j) (int (length xs))))"
    using ladder assms(3,4) by simp
  have out: "\<exists>j' keep. fail_runs env (xs @ [(e, st, now)]) j = (j', keep)
            \<and> keep = (\<not> cj_delete_after_run j) \<and> js_retry_attempt (cj_state j') = 0
            \<and> (keep \<longrightarrow> (if sc_kind (cj_schedule j) = KAt then \<not> cj_enabled j' \<and> js_next_run_at_ms (cj_state j') = None
                 else cj_enabled j' = cj_enabled j
                   \<and> js_next_run_at_ms (cj_state j') = next_run env (cj_schedule j) now (Some (cj_id j'))))"
    if len: "length xs = n"
  proof -
    have "\<not> should_retry (job_policy j1) (js_retry_attempt (cj_state j1) + 1)"
      using up len assms(4) by (simp add: should_retry_def)
    note ex = settle_exhausted[OF assms(2) this, of env st now]
    let ?j = "let j = record_outcome (Some e) st now j1 in j\<lparr>cj_state := (cj_state j)\<lparr>js_retry_attempt := 0\<rparr>\<rparr>"
    obtain j2 k2 where adv: "advance_job env now ?j = (j2, k2)" by (cases "advance_job env now ?j")
    have run: "fail_runs env (xs @ [(e, st, now)]) j = (j2, k2)"
      using up len j1 by (simp only: fail_runs_append) (simp add: ex adv)
    have j: "cj_schedule ?j = cj_schedule j" "cj_delete_after_run ?j = cj_delete_after_run j" "cj_enabled ?j = cj_enabled j"
        "js_retry_attempt (cj_state ?j) = 0"
      using up len by (simp_all add: Let_def)
    show ?thesis by (intro exI[of _ j2] exI[of _ k2] conjI run) (use advance_spec[OF adv, unfolded j] in simp_all)
  qed
  show ?thesis using up j1 out by auto
qed

definition sample_job :: "string \<Rightarrow> string \<Rightarrow> int option \<Rightarrow> cron_job" where
  "sample_job i tm nxt = (new_job cron_sample_env 1000 i ''job'' every_sample ''m'' False None None (Some False)
      (Some \<lparr>ao_retry = Some \<lparr>rp_max_retries = 1, rp_backoff_ms = [500]\<rparr>, ao_overrides = None, ao_team_id = Some tm\<rparr>))
     \<lparr>cj_state := \<lparr>js_next_run_at_ms = nxt, js_last_run_at_ms = None, js_last_status = None, js_last_error = None,
        js_running = False, js_running_started_at_ms = None, js_retry_attempt = 0\<rparr>\<rparr>"

theorem retry_ladder_witness:
  "\<exists>j'. fail_runs cron_sample_env [(''x'', 2000, 2010)] (sample_job ''a'' ''t'' (Some 2000)) = (j', True)
     \<and> js_next_run_at_ms (cj_state j') = Some 2510"
proof -
  have p: "job_policy (sample_job ''a'' ''t'' (Some 2000)) = \<lparr>rp_max_retries = 1, rp_backoff_ms = [500]\<rparr>"
    "js_retry_attempt (cj_state (sample_job ''a'' ''t'' (Some 2000))) = 0"
    by (simp_all add: sample_job_def new_job_def job_policy_def)
  have "(0 < length [(''x'', 2000::int, 2010::int)] \<and> length [(''x'', 2000::int, 2010::int)] \<le> 1)" by simp
  moreover note retry_ladder[where env = cron_sample_env and xs = "[(''x'', 2000, 2010)]" and e = "''x''" and n = 1
      and j = "sample_job ''a'' ''t'' (Some 2000)" and st = 0 and now = 0]
  ultimately obtain j' where "fail_runs cron_sample_env [(''x'', 2000, 2010)] (sample_job ''a'' ''t'' (Some 2000)) = (j', True)"
    "js_next_run_at_ms (cj_state j') = Some (2010 + get_retry_delay \<lparr>rp_max_retries = 1, rp_backoff_ms = [500]\<rparr> 1)"
    using p by auto
  moreover have "get_retry_delay \<lparr>rp_max_retries = 1, rp_backoff_ms = [500]\<rparr> 1 = 500" by (simp add: get_retry_delay_def)
  ultimately show ?thesis by auto
qed


section \<open>The job lock\<close>


lemma acquire_free: "jget locks i = None \<Longrightarrow> acquire_job_lock i lease now locks = Some (jset i now locks)"
  by (simp add: acquire_job_lock_def numeral_2_eq_2)


lemma acquire_holds: "acquire_job_lock i lease now locks = Some locks' \<Longrightarrow> jget locks' i = Some now"
  by (auto simp: acquire_job_lock_def numeral_2_eq_2 split: option.splits if_splits)

lemma exec_begin_frame:
  "exec_begin r now s = (x, s') \<Longrightarrow> cv_lease s' = cv_lease s \<and> cv_task s' = cv_task s \<and> cv_running s' = cv_running s
     \<and> cv_tick s' = cv_tick s \<and> cv_due s' = cv_due s"
  by (auto simp: exec_begin_def Let_def split: option.splits)



lemma get_next_wake_state: "snd (get_next_wake_ms now s) = load_store s"
  by (simp add: get_next_wake_ms_def Let_def)



lemma tick_start_frame:
  "tick_start now s = (b, s') \<Longrightarrow> cv_locks s' = cv_locks s \<and> cv_lease s' = cv_lease s \<and> cv_task s' = cv_task s"
  by (auto simp: tick_start_def Let_def split: if_splits)

lemma settle_job_id: "settle_job env oc st now j = (j', keep) \<Longrightarrow> cj_id j' = cj_id j \<and> cj_team_id j' = cj_team_id j"
  by (auto simp: settle_job_def schedule_retry_or_advance_def advance_job_def set_next_run_def Let_def
      split: if_splits)

lemma exec_finish_frame:
  "cv_lease (exec_finish x oc now s) = cv_lease s \<and> cv_task (exec_finish x oc now s) = cv_task s
   \<and> cv_running (exec_finish x oc now s) = cv_running s
   \<and> cv_locks (exec_finish x oc now s) = jdel (cj_id (job_at s (ce_ref x))) (cv_locks s)"
proof -
  obtain j keep where jk: "settle_job (cv_env s) oc (ce_start x) now (job_at s (ce_ref x)) = (j, keep)"
    by (cases "settle_job (cv_env s) oc (ce_start x) now (job_at s (ce_ref x))")
  show ?thesis using settle_job_id[OF jk] by (simp add: exec_finish_def jk release_job_lock_def Let_def)
qed










lemma exec_begin_free:
  "jget (cv_locks s) (cj_id (job_at s r)) = None \<Longrightarrow>
   exec_begin r now s = (Some \<lparr>ce_ref = r, ce_start = now\<rparr>, snd (exec_begin r now s))"
  by (simp add: exec_begin_def acquire_free Let_def)

lemma load_loaded: "cv_store s = Some rs \<Longrightarrow> load_store s = s"
  by (simp add: load_store_def)

lemma load_store_locks: "load_store (s\<lparr>cv_locks := l\<rparr>) = (load_store s)\<lparr>cv_locks := l\<rparr>"
  by (simp add: load_store_def Let_def split: option.split)




definition sample_service :: "cron_job list \<Rightarrow> cron_service" where
  "sample_service js = (cron_new cron_sample_env None [])\<lparr>cv_heap := js, cv_store := Some [0..<length js], cv_running := True\<rparr>"



section \<open>Where the lock does not hold\<close>

text \<open>
  An execution that has outlived its lease and ends removes the lock of its successor: the next execution of the job
  begins at once, however fresh the successor's lock was.
\<close>

lemma late_finish_frees_successor:
  assumes "exec_begin r t1 s1 = (Some y, s2)" and "cj_id (job_at s2 (ce_ref x)) = cj_id (job_at s1 r)"
    and "cj_id (job_at (exec_finish x outcome t2 s2) r') = cj_id (job_at s1 r)"
  shows "jget (cv_locks s2) (cj_id (job_at s1 r)) = Some t1
    \<and> fst (exec_begin r' t3 (exec_finish x outcome t2 s2)) = Some \<lparr>ce_ref = r', ce_start = t3\<rparr>"
proof -
  obtain locks where l: "acquire_job_lock (cj_id (job_at s1 r)) (cv_lease s1) t1 (cv_locks s1) = Some locks"
    using assms(1) by (cases "acquire_job_lock (cj_id (job_at s1 r)) (cv_lease s1) t1 (cv_locks s1)") (simp_all add: exec_begin_def)
  then have "cv_locks s2 = locks" using assms(1) by (auto simp: exec_begin_def Let_def)
  then have "jget (cv_locks s2) (cj_id (job_at s1 r)) = Some t1" using acquire_holds[OF l] by simp
  moreover have "jget (cv_locks (exec_finish x outcome t2 s2)) (cj_id (job_at (exec_finish x outcome t2 s2) r')) = None"
    by (simp add: exec_finish_frame assms(2,3))
  then have "fst (exec_begin r' t3 (exec_finish x outcome t2 s2)) = Some \<lparr>ce_ref = r', ce_start = t3\<rparr>"
    by (subst exec_begin_free) simp_all
  ultimately show ?thesis by blast
qed

text \<open>
  Seeing that a lock is stale and removing it are two operations on the file. What a caller does that has seen it:
\<close>

definition lock_after_stale :: "string \<Rightarrow> int \<Rightarrow> int \<Rightarrow> (string, int) jmap \<Rightarrow> (string, int) jmap option" where
  "lock_after_stale i lease now locks = lock_attempts 1 i lease now (jdel i locks)"

lemma acquire_stale:
  "jget locks i = Some m \<Longrightarrow> is_job_lock_stale lease now m \<Longrightarrow> acquire_job_lock i lease now locks = lock_after_stale i lease now locks"
  by (simp add: acquire_job_lock_def lock_after_stale_def numeral_2_eq_2)

text \<open>Two callers that have both seen the stale lock both get it: the second removes the fresh lock of the first.\<close>

lemma stale_lock_raced:
  "\<exists>first. lock_after_stale i lease now locks = Some first \<and> jget first i = Some now
     \<and> lock_after_stale i lease now' first = Some (jset i now' (jdel i first))"
  by (simp add: lock_after_stale_def)


section \<open>The timer after a tick\<close>

lemma wedged_awaits:
  "cv_task s = Wedged \<Longrightarrow> cancel_timer s = None" "cv_task s = Wedged \<Longrightarrow> arm_timer now s = None"
  by (simp_all add: cancel_timer_def arm_timer_def)

lemma wedged_rearm: "cv_task s = Wedged \<Longrightarrow> save_and_rearm now s = (False, save_store s)"
  by (simp add: save_and_rearm_def wedged_awaits Let_def)

lemma recompute_task [simp]: "cv_task (recompute_next_runs now s) = cv_task s"
  by (simp add: recompute_next_runs_def Let_def)

lemma cron_start_wedged: "cv_task s = Wedged \<Longrightarrow> cv_task (snd (cron_start now s)) = Wedged"
  by (auto simp: cron_start_def wedged_awaits Let_def dest!: tick_start_frame split: prod.split bool.split)

lemma cron_step_wedged:
  assumes "cv_task s = Wedged"
  shows "cv_task (cron_step op s) = Wedged"
proof (cases op)
  case (OpStart t)
  with cron_start_wedged[OF assms] show ?thesis by simp
next
  case (OpResume t)
  with cron_start_wedged[OF assms] assms show ?thesis by (simp add: cron_resume_def wedged_awaits Let_def)
next
  case (OpTickNext t)
  with assms show ?thesis
    by (auto simp: tick_next_def dest!: exec_begin_frame split: prod.split bool.split option.split list.split)
next
  case (OpRunBegin t i f tm)
  with assms show ?thesis
    by (auto simp: run_job_begin_def Let_def dest!: exec_begin_frame split: prod.split option.split)
next
  case (OpRunEnd t x)
  have "cv_task (case x of Some (e, oc) \<Rightarrow> exec_finish e oc t s | None \<Rightarrow> s) = Wedged"
    using assms by (auto simp: exec_finish_frame split: option.split)
  with OpRunEnd show ?thesis by (simp add: run_job_end_def wedged_rearm Let_def)
next
  case (OpStatus t)
  then show ?thesis
    using assms get_next_wake_state[of t "load_store s"]
    by (auto simp: status_of_service_def Let_def split: prod.split)
qed (use assms in \<open>auto simp: cron_stop_def cron_pause_def add_job_def remove_job_def enable_job_def
    timer_fire_def tick_job_done_def exec_finish_frame tick_end_def disable_all_and_pause_def list_jobs_def
    wedged_awaits wedged_rearm Let_def split: option.split prod.split bool.split\<close>)

interpretation wedge: machine cron_step "\<lambda>s. cv_task s = Wedged"
  by unfold_locales (rule cron_step_wedged)

text \<open>A tick the timer started never ends: re-arming from inside the timer's task awaits that
  very task. From then on, whatever is called, no wake-up ever starts a tick again, and every
  operation that has to re-arm or cancel the timer waits forever.\<close>

theorem timer_tick_wedges:
  assumes "cv_task s = Firing" and "cv_running s" and "cv_tick s" and "cv_current s = None" and "cv_due s = []"
    and "u = run_steps cron_step ops (tick_end t s)"
  shows "cv_task u = Wedged \<and> timer_fire t' u = u \<and> fst (cron_pause u) = Waits \<and> fst (cron_stop u) = Waits
    \<and> fst (run_job_end t' x u) = Waits \<and> fst (disable_all_and_pause t' u) = Waits
    \<and> (validate_schedule_for_add (cv_env u) sc = None \<longrightarrow> fst (add_job t' i n sc m dl ch tgt d opts u) = Waits)"
proof -
  have "cv_task (tick_end t s) = Wedged"
    using assms(1-5) by (simp add: tick_end_def arm_timer_def cancel_timer_def Let_def)
  then have w: "cv_task u = Wedged" unfolding assms(6) by (rule wedge.inv_run)
  have fin: "cv_task (case x of Some (e, oc) \<Rightarrow> exec_finish e oc t' u | None \<Rightarrow> u) = Wedged"
    using w by (auto simp: exec_finish_frame split: option.split)
  show ?thesis using w fin
    by (simp add: timer_fire_def cron_pause_def cron_stop_def run_job_end_def disable_all_and_pause_def add_job_def
        wedged_awaits wedged_rearm Let_def)
qed

definition armed_sample :: cron_service where
  "armed_sample = (sample_service [sample_job ''a'' ''t'' (Some 2000)])\<lparr>cv_task := Sleeping 2000\<rparr>"

theorem timer_tick_wedges_witness:
  "let s = run_steps cron_step [OpFire 2000, OpTickNext 2000, OpTickDone None 2100] armed_sample;
       u = run_steps cron_step [OpTickEnd 2200, OpStop, OpStart 3000] s
   in cv_task armed_sample = Sleeping 2000 \<and> length (cv_notes s) = 1 \<and> cv_task u = Wedged \<and> fst (cron_pause u) = Waits"
proof -
  let ?j = "sample_job ''a'' ''t'' (Some 2000)"
  let ?f = "timer_fire 2000 armed_sample"
  have j: "cj_enabled ?j" "js_next_run_at_ms (cj_state ?j) = Some 2000" "\<not> js_running (cj_state ?j)" "cj_id ?j = ''a''"
    by (simp_all add: sample_job_def new_job_def)
  have due: "?f = armed_sample\<lparr>cv_tick := True, cv_due := [0], cv_task := Firing\<rparr>"
    using j by (simp add: timer_fire_def armed_sample_def sample_service_def cron_new_def tick_start_def
        load_store_def due_refs_def store_refs_def job_at_def is_running_fresh_def Let_def)
  have f: "cv_locks ?f = []" "cv_tick ?f" "cv_due ?f = [0]" "cv_current ?f = None" "cv_task ?f = Firing"
      "cv_running ?f" "cv_notes ?f = []" "cv_store ?f = Some [0]"
    unfolding due by (simp_all add: armed_sample_def sample_service_def cron_new_def)
  let ?n = "tick_next 2000 ?f"
  let ?b = "?f\<lparr>cv_due := []\<rparr>"
  have b: "exec_begin 0 2000 ?b = (Some \<lparr>ce_ref = 0, ce_start = 2000\<rparr>, snd (exec_begin 0 2000 ?b))"
    by (rule exec_begin_free) (simp add: f)
  have n: "?n = (snd (exec_begin 0 2000 ?b))\<lparr>cv_current := Some \<lparr>ce_ref = 0, ce_start = 2000\<rparr>\<rparr>"
    by (simp add: tick_next_def f) (subst b, simp)
  have log: "cv_notes (snd (exec_begin 0 2000 ?b)) = []"
    by (simp add: exec_begin_def f acquire_free save_store_def put_job_def load_store_def Let_def)
  let ?d = "tick_job_done None 2100 ?n"
  have d: "cv_task ?d = Firing \<and> cv_running ?d \<and> cv_tick ?d \<and> cv_current ?d = None \<and> cv_due ?d = [] \<and> length (cv_notes ?d) = 1"
    using exec_begin_frame[OF b] log
    by (simp add: n tick_job_done_def f exec_finish_frame)
      (simp add: exec_finish_def cron_notify_def put_job_def drop_job_def Let_def split: prod.split)
  have "cv_task (run_steps cron_step [OpStop, OpStart 3000] (tick_end 2200 ?d)) = Wedged
      \<and> fst (cron_pause (run_steps cron_step [OpStop, OpStart 3000] (tick_end 2200 ?d))) = Waits"
    using timer_tick_wedges[of ?d _ "[OpStop, OpStart 3000]" 2200] d by blast
  with d show ?thesis by (simp add: Let_def armed_sample_def)
qed


section \<open>The store and its operations\<close>

text \<open>The store refers to existing, distinct objects.\<close>

definition refs_ok :: "cron_service \<Rightarrow> bool" where
  "refs_ok s \<longleftrightarrow> distinct (store_refs s) \<and> set (store_refs s) \<subseteq> {..<length (cv_heap s)}"

lemma refs_ok_cong: "cv_store s' = cv_store s \<Longrightarrow> length (cv_heap s) \<le> length (cv_heap s') \<Longrightarrow> refs_ok s \<Longrightarrow> refs_ok s'"
  by (auto simp: refs_ok_def store_refs_def split: option.splits)

lemma refs_ok_load: "refs_ok s \<Longrightarrow> refs_ok (load_store s)"
  by (auto simp: refs_ok_def store_refs_def load_store_def Let_def split: option.splits)

lemma refs_ok_simps [simp]:
  "refs_ok (put_job r j s) = refs_ok s" "refs_ok (cron_notify c i tm s) = refs_ok s"
  "refs_ok (s\<lparr>cv_task := tk\<rparr>) = refs_ok s" "refs_ok (s\<lparr>cv_running := b\<rparr>) = refs_ok s"
  "refs_ok (s\<lparr>cv_paused := b\<rparr>) = refs_ok s" "refs_ok (s\<lparr>cv_tick := b\<rparr>) = refs_ok s"
  "refs_ok (s\<lparr>cv_current := x\<rparr>) = refs_ok s" "refs_ok (s\<lparr>cv_due := d\<rparr>) = refs_ok s"
  "refs_ok (s\<lparr>cv_locks := l\<rparr>) = refs_ok s" "refs_ok (s\<lparr>cv_db := rows\<rparr>) = refs_ok s"
  "refs_ok (update_jobs f s) = refs_ok s"
  by (simp_all add: refs_ok_def put_job_def cron_notify_def store_refs_def)

lemma refs_ok_drop: "refs_ok s \<Longrightarrow> refs_ok (drop_job i s)"
  by (auto simp: refs_ok_def store_refs_def drop_job_def split: option.splits)

lemma refs_ok_save: "refs_ok s \<Longrightarrow> refs_ok (save_store s)"
  by (simp add: save_store_def Let_def refs_ok_load)

lemma refs_ok_cancel: "cancel_timer s = Some s' \<Longrightarrow> refs_ok s' = refs_ok s"
  by (auto simp: cancel_timer_def split: timer_task.splits)

lemma refs_ok_arm:
  assumes "arm_timer now s = Some s'" and "refs_ok s"
  shows "refs_ok s'"
proof -
  obtain s1 where s1: "cancel_timer s = Some s1" using assms(1) by (cases "cancel_timer s") (simp_all add: arm_timer_def)
  obtain w where w: "get_next_wake_ms now s1 = (w, load_store s1)"
    using get_next_wake_state[of now s1] by (cases "get_next_wake_ms now s1") simp
  show ?thesis using assms s1 w refs_ok_cancel[OF s1] refs_ok_load[of s1]
    by (auto simp: arm_timer_def split: if_splits option.splits)
qed

lemma refs_ok_rearm: "save_and_rearm now s = (b, s') \<Longrightarrow> refs_ok s \<Longrightarrow> refs_ok s'"
  by (auto simp: save_and_rearm_def Let_def intro: refs_ok_arm refs_ok_save split: option.splits)

lemma refs_ok_tick_start: "tick_start now s = (b, s') \<Longrightarrow> refs_ok s \<Longrightarrow> refs_ok s'"
  by (auto simp: tick_start_def Let_def refs_ok_load split: if_splits)

lemma refs_ok_begin: "exec_begin r now s = (x, s') \<Longrightarrow> refs_ok s \<Longrightarrow> refs_ok s'"
  by (auto simp: exec_begin_def Let_def intro!: refs_ok_save refs_ok_load split: option.splits)

lemma refs_ok_finish: "refs_ok s \<Longrightarrow> refs_ok (exec_finish x oc now s)"
  by (simp add: exec_finish_def Let_def refs_ok_drop split: prod.split)

lemma refs_ok_start: "cron_start now s = (res, s') \<Longrightarrow> refs_ok s \<Longrightarrow> refs_ok s'"
  by (auto simp: cron_start_def recompute_next_runs_def Let_def
      dest!: refs_ok_tick_start refs_ok_arm intro!: refs_ok_save refs_ok_load
      split: if_splits prod.splits bool.splits option.splits)

lemma refs_ok_append:
  assumes "refs_ok s"
  shows "refs_ok (s\<lparr>cv_heap := cv_heap s @ [j], cv_store := map_option (\<lambda>rs. rs @ [length (cv_heap s)]) (cv_store s)\<rparr>)"
  using assms by (auto simp: refs_ok_def store_refs_def less_Suc_eq split: option.splits)

lemma cron_step_refs_ok:
  assumes "refs_ok s"
  shows "refs_ok (cron_step op s)"
proof (cases op)
  case (OpStart t)
  then show ?thesis using assms refs_ok_start[of t s] by (cases "cron_start t s") simp
next
  case (OpResume t)
  then show ?thesis using assms refs_ok_start[of t s]
    by (cases "cron_start t s") (auto simp: cron_resume_def Let_def dest!: refs_ok_arm split: option.split)
next
  case (OpTickNext t)
  with assms show ?thesis
    by (auto simp: tick_next_def dest!: refs_ok_begin split: prod.split bool.split option.split list.split)
next
  case (OpAdd t i n sc m d opts)
  with refs_ok_append[OF refs_ok_load[OF assms]] refs_ok_load[OF assms] show ?thesis
    by (auto simp: add_job_def Let_def dest!: refs_ok_rearm split: prod.split option.split bool.split)
next
  case (OpStatus t)
  then show ?thesis
    using refs_ok_load[OF refs_ok_load[OF assms]] get_next_wake_state[of t "load_store s"]
    by (auto simp: status_of_service_def Let_def split: prod.split)
next
  case (OpEnable t i b tm)
  with refs_ok_load[OF assms] show ?thesis
    by (auto simp: enable_job_def Let_def dest!: refs_ok_rearm split: prod.split option.split bool.split)
next
  case (OpRemove t i tm)
  with refs_ok_load[OF assms] show ?thesis
    by (auto simp: remove_job_def Let_def dest!: refs_ok_rearm intro: refs_ok_drop split: prod.split option.split bool.split)
qed (use assms in \<open>auto simp: cron_stop_def cron_pause_def run_job_end_def run_job_begin_def timer_fire_def
    tick_job_done_def tick_end_def disable_all_and_pause_def list_jobs_def Let_def
    dest!: refs_ok_cancel refs_ok_arm refs_ok_rearm refs_ok_tick_start refs_ok_begin
    intro: refs_ok_load refs_ok_save refs_ok_finish
    split: option.split prod.split bool.split timer_task.split\<close>)

interpretation refs: machine cron_step refs_ok
  by unfold_locales (rule cron_step_refs_ok)


lemma store_refs_save [simp]: "store_refs (save_store s) = store_refs (load_store s)"
  by (simp add: store_refs_def)

lemma job_at_update:
  "refs_ok s \<Longrightarrow> job_at (update_jobs f s) q = (if q \<in> set (store_refs s) then f (job_at s q) else job_at s q)"
  by (simp add: update_jobs_def refs_ok_def job_at_fold_put)

lemma job_at_fields [simp]:
  "job_at (s\<lparr>cv_task := tk\<rparr>) q = job_at s q" "job_at (s\<lparr>cv_paused := b\<rparr>) q = job_at s q"
  "job_at (s\<lparr>cv_db := rows\<rparr>) q = job_at s q" "store_refs (s\<lparr>cv_task := tk\<rparr>) = store_refs s"
  "store_refs (s\<lparr>cv_paused := b\<rparr>) = store_refs s" "store_refs (s\<lparr>cv_db := rows\<rparr>) = store_refs s"
  by (simp_all add: job_at_def store_refs_def)

definition all_disabled :: "cron_service \<Rightarrow> bool" where
  "all_disabled s \<longleftrightarrow> list_all (\<lambda>r. \<not> cj_enabled (job_at s r)) (store_refs s)"

lemma all_disabled_idle: "all_disabled s \<Longrightarrow> due_refs now s = [] \<and> wake_times now s = []"
  by (auto simp: all_disabled_def list_all_iff due_refs_def wake_times_def Let_def filter_empty_conv)

lemma job_at_loaded_save: "cv_store s \<noteq> None \<Longrightarrow> job_at (save_store s) q = job_at s q \<and> store_refs (save_store s) = store_refs s"
  using load_loaded[of s] by (cases "cv_store s") (auto simp: job_at_def)

lemma load_store_loaded: "cv_store (load_store s) \<noteq> None"
  by (simp add: load_store_def Let_def split: option.split)

text \<open>The emergency stop reaches every job: after \<open>disable_all_and_pause\<close> in any state the
  service can reach, no job of the store is enabled, none is due at any time, there is no wake-up
  to arm for, and the scheduler is paused.\<close>

theorem disable_all_stops_everything:
  assumes "s = run_steps cron_step ops (cron_new env lease db)" and "u = snd (disable_all_and_pause now s)"
  shows "all_disabled u \<and> due_refs t u = [] \<and> wake_times t u = [] \<and> cv_paused u
    \<and> store_refs u = store_refs (load_store s)"
proof -
  have "refs_ok (cron_new env lease db)" by (simp add: refs_ok_def cron_new_def store_refs_def)
  then have ok: "refs_ok (load_store s)" unfolding assms(1) by (intro refs_ok_load refs.inv_run)
  let ?m = "(update_jobs (disable_job now) (load_store s))\<lparr>cv_paused := True\<rparr>"
  have loaded: "cv_store ?m \<noteq> None" using load_store_loaded[of s] by simp
  have refs: "store_refs ?m = store_refs (load_store s)" by simp
  have off: "all_disabled ?m"
    by (simp add: all_disabled_def job_at_update[OF ok] list_all_iff) (simp add: disable_job_def set_next_run_def)
  have m: "all_disabled u \<and> cv_paused u \<and> store_refs u = store_refs (load_store s)"
  proof (cases "cancel_timer ?m")
    case None
    then have "u = ?m" by (simp add: assms(2) disable_all_and_pause_def Let_def)
    with off refs show ?thesis by simp
  next
    case (Some m')
    then have m': "m' = ?m\<lparr>cv_task := NoTask\<rparr>" by (auto simp: cancel_timer_def split: timer_task.splits)
    then have dis: "all_disabled m'" "store_refs m' = store_refs (load_store s)" "cv_store m' \<noteq> None" "cv_paused m'"
      using off loaded by (simp_all add: all_disabled_def)
    have u: "u = m' \<or> u = save_store m'"
      using Some by (auto simp: assms(2) disable_all_and_pause_def Let_def)
    moreover have "all_disabled (save_store m') \<and> store_refs (save_store m') = store_refs m'"
      using dis(1) job_at_loaded_save[OF dis(3)] by (simp add: all_disabled_def)
    ultimately show ?thesis using dis by auto
  qed
  with all_disabled_idle show ?thesis by blast
qed

theorem disable_all_stops_everything_witness:
  "all_disabled (snd (disable_all_and_pause 3000 (cron_step (OpAdd 1000 ''a'' ''n'' every_sample ''m'' None None) (cron_new cron_sample_env None []))))"
  using disable_all_stops_everything[OF refl refl, where ops = "[OpAdd 1000 ''a'' ''n'' every_sample ''m'' None None]"
      and env = cron_sample_env and lease = None and db = "[]" and now = 3000]
  by simp

text \<open>
  What it does not reach is a tick under way: the jobs the tick has already selected are run
  although they are disabled (or removed) by then.
\<close>

lemma tick_ignores_disable:
  assumes "cv_tick s" and "cv_current s = None" and "cv_due s = r # rs" and "cv_store s \<noteq> None" and "refs_ok s"
    and "r \<in> set (store_refs s)" and "jget (cv_locks s) (cj_id (job_at s r)) = None" and "cv_task s = Firing"
  shows "\<not> cj_enabled (job_at (snd (disable_all_and_pause now s)) r)
    \<and> cv_current (tick_next t (snd (disable_all_and_pause now s))) = Some \<lparr>ce_ref = r, ce_start = t\<rparr>"
proof -
  have ld: "load_store s = s" using assms(4) load_loaded by (cases "cv_store s") auto
  let ?u = "(update_jobs (disable_job now) s)\<lparr>cv_paused := True\<rparr>"
  have u: "snd (disable_all_and_pause now s) = ?u"
    using assms(8) by (simp add: disable_all_and_pause_def cancel_timer_def ld Let_def)
  have j: "job_at ?u r = disable_job now (job_at s r)" using assms(5,6) by (simp add: job_at_update)
  have i: "cj_id (job_at ?u r) = cj_id (job_at s r)"
    unfolding j by (simp add: disable_job_def set_next_run_def)
  have b: "exec_begin r t (?u\<lparr>cv_due := rs\<rparr>) = (Some \<lparr>ce_ref = r, ce_start = t\<rparr>, snd (exec_begin r t (?u\<lparr>cv_due := rs\<rparr>)))"
    using assms(7) i by (intro exec_begin_free) (simp add: job_at_def)
  have "cv_current (tick_next t ?u) = Some \<lparr>ce_ref = r, ce_start = t\<rparr>"
    using assms(1-3) by (simp add: tick_next_def) (subst b, simp)
  moreover have "\<not> cj_enabled (job_at ?u r)" unfolding j by (simp add: disable_job_def set_next_run_def)
  ultimately show ?thesis by (simp add: u)
qed

text \<open>A caller with a team scope cannot touch another team's job: removing, enabling or running
  it is refused and leaves the service as it was.\<close>

theorem other_team_untouched:
  assumes "find_job i (load_store s) = Some r" and "cj_team_id (job_at (load_store s) r) \<noteq> tm"
  shows "remove_job now i (Some tm) s = (Returned False, load_store s)
    \<and> enable_job now i b (Some tm) s = (Returned None, load_store s)
    \<and> run_job_begin now i f (Some tm) s = ((False, None), load_store s)"
  using assms by (simp add: remove_job_def enable_job_def run_job_begin_def foreign_team_def Let_def)

theorem other_team_untouched_witness:
  "remove_job 5 ''a'' (Some ''other'') (sample_service [sample_job ''a'' ''t'' None])
     = (Returned False, load_store (sample_service [sample_job ''a'' ''t'' None]))"
proof -
  let ?s = "sample_service [sample_job ''a'' ''t'' None]"
  have ld: "load_store ?s = ?s" by (simp add: sample_service_def load_store_def)
  have j: "job_at ?s 0 = sample_job ''a'' ''t'' None" by (simp add: job_at_def sample_service_def)
  have f: "find_job ''a'' (load_store ?s) = Some 0"
    unfolding ld by (simp add: find_job_def store_refs_def sample_service_def job_at_def sample_job_def new_job_def)
  have "cj_team_id (job_at (load_store ?s) 0) \<noteq> ''other''"
    unfolding ld j by (simp add: sample_job_def new_job_def)
  with other_team_untouched[OF f, of "''other''" 5] show ?thesis by blast
qed

text \<open>The listing holds exactly the jobs of the store that are enabled (or all, when asked) and
  of the wanted team, each as often as the store has it, ordered by their next run, the jobs
  without one last.\<close>

theorem list_jobs_spec:
  "mset (fst (list_jobs inc tm s)) = filter_mset (\<lambda>j. (inc \<or> cj_enabled j) \<and> (tm = None \<or> tm = Some (cj_team_id j)))
       (mset (map (job_at (load_store s)) (store_refs (load_store s))))
    \<and> sorted (map (\<lambda>j. case js_next_run_at_ms (cj_state j) of Some n \<Rightarrow> n | None \<Rightarrow> max_safe_integer) (fst (list_jobs inc tm s)))"
proof -
  let ?js = "map (job_at (load_store s)) (store_refs (load_store s))"
  let ?P = "\<lambda>j. (inc \<or> cj_enabled j) \<and> (tm = None \<or> tm = Some (cj_team_id j))"
  let ?k = "\<lambda>j. case js_next_run_at_ms (cj_state j) of Some n \<Rightarrow> n | None \<Rightarrow> max_safe_integer"
  have sc: "filter (\<lambda>j. cj_team_id j = t) xs = filter (\<lambda>j. tm = None \<or> tm = Some (cj_team_id j)) xs"
    if "tm = Some t" for t and xs :: "cron_job list"
    using that by (intro filter_cong) auto
  have "fst (list_jobs inc tm s) = sort_key ?k (filter ?P ?js)"
    by (cases inc; cases tm) (simp_all add: list_jobs_def Let_def sc conj_commute eq_commute)
  then show ?thesis by (simp only: mset_sort mset_filter sorted_sort_key)
qed

end
