(* ===== verification/JsValue.thy ===== *)
theory JsValue
  imports CronExpr
begin

text \<open>
  The values of the language the workflow engine stores in its memory (\<open>unknown\<close>), and the
  field paths of \<open>src/src/agent/phase-loop-runner.ts\<close> (\<open>resolve_field\<close>,
  \<open>set_nested_field\<close>, \<open>apply_field_mappings\<close>).

  Objects are maps of their own properties in insertion order, arrays are lists; values are
  copied, so two slots never share an object. A hole of an array reads as undefined, and a
  property other than an index cannot be put on an array (the source could; it is lost when the
  state is saved).
\<close>

datatype jsval =
    JUndef
  | JNull
  | JBool bool
  | JNum rat
  | JStr string
  | JArr "jsval list"
  | JObj "(string \<times> jsval) list"

definition js_is_object :: "jsval \<Rightarrow> bool" where
  "js_is_object v = (case v of JArr _ \<Rightarrow> True | JObj _ \<Rightarrow> True | _ \<Rightarrow> False)"

text \<open>\<open>Boolean(v)\<close>.\<close>

definition js_truthy :: "jsval \<Rightarrow> bool" where
  "js_truthy v = (case v of JUndef \<Rightarrow> False | JNull \<Rightarrow> False | JBool b \<Rightarrow> b | JNum n \<Rightarrow> n \<noteq> 0 | JStr s \<Rightarrow> s \<noteq> [] | _ \<Rightarrow> True)"

text \<open>The array index a property name stands for: decimal, without leading zeros.\<close>

definition array_index :: "string \<Rightarrow> nat option" where
  "array_index k = (if k \<noteq> [] \<and> all_digits k \<and> (hd k \<noteq> CHR ''0'' \<or> k = ''0'') then Some (nat_of_digits k) else None)"

definition js_get :: "jsval \<Rightarrow> string \<Rightarrow> jsval" where
  "js_get v k = (case v of
       JObj m \<Rightarrow> (case jget m k of Some x \<Rightarrow> x | None \<Rightarrow> JUndef)
     | JArr xs \<Rightarrow> (case array_index k of
           Some i \<Rightarrow> if i < length xs then xs ! i else JUndef
         | None \<Rightarrow> if k = ''length'' then JNum (of_nat (length xs)) else JUndef)
     | _ \<Rightarrow> JUndef)"

definition js_put :: "jsval \<Rightarrow> string \<Rightarrow> jsval \<Rightarrow> jsval" where
  "js_put v k x = (case v of
       JObj m \<Rightarrow> JObj (jset k x m)
     | JArr xs \<Rightarrow> (case array_index k of
           Some i \<Rightarrow> if i < length xs then JArr (xs[i := x]) else JArr (xs @ replicate (i - length xs) JUndef @ [x])
         | None \<Rightarrow> v)
     | _ \<Rightarrow> v)"


section \<open>Paths\<close>

text \<open>The digits and what follows them, when the text starts like \<open>0]\<close>.\<close>

definition bracket_index :: "string \<Rightarrow> (string \<times> string) option" where
  "bracket_index s = (let ds = takeWhile cron_digit s
     in case dropWhile cron_digit s of
          [] \<Rightarrow> None
        | c # r \<Rightarrow> if ds \<noteq> [] \<and> c = CHR '']'' then Some (ds, r) else None)"

lemma bracket_index_shorter: "bracket_index s = Some (ds, r) \<Longrightarrow> length r < length s"
proof -
  assume "bracket_index s = Some (ds, r)"
  then have "dropWhile cron_digit s = CHR '']'' # r"
    by (auto simp: bracket_index_def Let_def split: list.splits if_splits)
  then have "Suc (length r) = length (dropWhile cron_digit s)" by simp
  also have "\<dots> \<le> length s" by (rule length_dropWhile_le)
  finally show ?thesis by simp
qed

function dot_indices :: "string \<Rightarrow> string" where
  "dot_indices [] = []"
| "dot_indices (c # s) = (if c = CHR ''['' then
       (case bracket_index s of Some (ds, r) \<Rightarrow> CHR ''.'' # ds @ dot_indices r | None \<Rightarrow> c # dot_indices s)
     else c # dot_indices s)"
  by pat_completeness auto

termination
  by (relation "measure length") (auto dest!: bracket_index_shorter)

definition path_parts :: "string \<Rightarrow> string list" where
  "path_parts path = split_on (\<lambda>c. c = CHR ''.'') (dot_indices path)"

fun resolve_parts :: "string list \<Rightarrow> jsval \<Rightarrow> jsval" where
  "resolve_parts [] current = current"
| "resolve_parts (key # parts) current =
     (if \<not> js_is_object current then JUndef else resolve_parts parts (js_get current key))"

definition resolve_field :: "jsval \<Rightarrow> string \<Rightarrow> jsval" where
  "resolve_field obj path = (if path = [] then obj else resolve_parts (path_parts path) obj)"

fun set_parts :: "string list \<Rightarrow> jsval \<Rightarrow> jsval \<Rightarrow> jsval" where
  "set_parts [] v current = current"
| "set_parts [key] v current = js_put current key v"
| "set_parts (key # k2 # parts) v current =
     js_put current key (set_parts (k2 # parts) v
       (if js_is_object (js_get current key) then js_get current key else JObj []))"

definition set_nested_field :: "jsval \<Rightarrow> string \<Rightarrow> jsval \<Rightarrow> jsval" where
  "set_nested_field obj path v = set_parts (path_parts path) v obj"

record field_mapping =
  fm_from_node :: string
  fm_from_field :: string
  fm_to_node :: string
  fm_to_field :: string

type_synonym memory = "(string, jsval) jmap"

definition memory_at :: "memory \<Rightarrow> string \<Rightarrow> jsval" where
  "memory_at m k = (case jget m k of Some v \<Rightarrow> v | None \<Rightarrow> JUndef)"

definition apply_mapping :: "string \<Rightarrow> jsval \<Rightarrow> field_mapping \<Rightarrow> memory \<Rightarrow> memory" where
  "apply_mapping from_node output fm mem =
     (if fm_from_node fm \<noteq> from_node then mem
      else let v = resolve_field output (fm_from_field fm)
           in if v = JUndef then mem
              else if fm_to_field fm \<noteq> []
              then (let target = memory_at mem (fm_to_node fm);
                        obj = (case target of JObj m \<Rightarrow> JObj m | _ \<Rightarrow> JObj [])
                    in jset (fm_to_node fm) (set_nested_field obj (fm_to_field fm) v) mem)
              else jset (fm_to_node fm) v mem)"

definition apply_field_mappings :: "memory \<Rightarrow> string \<Rightarrow> jsval \<Rightarrow> field_mapping list \<Rightarrow> memory" where
  "apply_field_mappings mem from_node output mappings =
     fold (apply_mapping from_node output) mappings mem"


section \<open>Setting and reading\<close>

text \<open>A path can be set below a value when every key it uses on an array is an index.\<close>

fun settable :: "string list \<Rightarrow> jsval \<Rightarrow> bool" where
  "settable [] v = False"
| "settable [key] v = (js_is_object v \<and> (\<forall>xs. v = JArr xs \<longrightarrow> array_index key \<noteq> None))"
| "settable (key # k2 # parts) v =
     (js_is_object v \<and> (\<forall>xs. v = JArr xs \<longrightarrow> array_index key \<noteq> None)
      \<and> settable (k2 # parts) (if js_is_object (js_get v key) then js_get v key else JObj []))"

lemma js_put_object [simp]: "js_is_object (js_put v k x) = js_is_object v"
  by (auto simp: js_put_def js_is_object_def split: jsval.split option.split)

lemma set_parts_object [simp]: "js_is_object (set_parts ks v cur) = js_is_object cur"
  by (induction ks v cur rule: set_parts.induct) simp_all

lemma js_get_put:
  assumes "js_is_object v" and "\<And>xs. v = JArr xs \<Longrightarrow> array_index k \<noteq> None"
  shows "js_get (js_put v k x) k = x"
proof (cases v)
  case (JArr xs)
  then obtain i where i: "array_index k = Some i" using assms(2) by blast
  show ?thesis
  proof (cases "i < length xs")
    case True
    with JArr i show ?thesis by (simp add: js_get_def js_put_def)
  next
    case False
    with JArr i show ?thesis by (simp add: js_get_def js_put_def nth_append)
  qed
qed (use assms(1) in \<open>simp_all add: js_get_def js_put_def js_is_object_def\<close>)

lemma resolve_set_parts: "settable ks cur \<Longrightarrow> resolve_parts ks (set_parts ks v cur) = v"
proof (induction ks v cur rule: set_parts.induct)
  case (2 key v cur)
  then show ?case by (simp add: js_get_put)
next
  case (3 key k2 parts v cur)
  let ?child = "if js_is_object (js_get cur key) then js_get cur key else JObj []"
  have g: "js_get (js_put cur key (set_parts (k2 # parts) v ?child)) key = set_parts (k2 # parts) v ?child"
    using "3.prems" by (intro js_get_put) auto
  have "resolve_parts (k2 # parts) (set_parts (k2 # parts) v ?child) = v"
    using 3 by simp
  with g "3.prems" show ?case by simp
qed simp

lemma js_get_put_other: "k \<noteq> k' \<Longrightarrow> v = JObj m \<Longrightarrow> js_get (js_put v k x) k' = js_get v k'"
  by (simp add: js_get_def js_put_def)

lemma set_parts_other:
  "cur = JObj m \<Longrightarrow> ks \<noteq> [] \<Longrightarrow> hd ks \<noteq> k \<Longrightarrow> js_get (set_parts ks v cur) k = js_get cur k"
  by (induction ks v cur rule: set_parts.induct) (auto simp: js_get_put_other)

lemma split_on_nonempty: "split_on p s \<noteq> []"
  by (induction s) (auto split: list.split)

lemma path_parts_nonempty: "path_parts p \<noteq> []"
  by (simp add: path_parts_def split_on_nonempty)

text \<open>A field mapping delivers: the value read from the node's output is what the target path
  then reads, when the path can be set in the target; every other field of the target object and
  every other node's slot is as before.\<close>

theorem field_mapping_delivers:
  assumes "fm_from_node fm = n" and "resolve_field out (fm_from_field fm) = v" and "v \<noteq> JUndef"
    and "fm_to_field fm \<noteq> []" and "memory_at mem (fm_to_node fm) = JObj m"
    and "settable (path_parts (fm_to_field fm)) (JObj m)"
  shows "resolve_field (memory_at (apply_mapping n out fm mem) (fm_to_node fm)) (fm_to_field fm) = v
    \<and> (k \<noteq> hd (path_parts (fm_to_field fm)) \<longrightarrow>
         js_get (memory_at (apply_mapping n out fm mem) (fm_to_node fm)) k = js_get (JObj m) k)
    \<and> (j \<noteq> fm_to_node fm \<longrightarrow> memory_at (apply_mapping n out fm mem) j = memory_at mem j)"
proof -
  let ?ps = "path_parts (fm_to_field fm)"
  have t: "apply_mapping n out fm mem = jset (fm_to_node fm) (set_nested_field (JObj m) (fm_to_field fm) v) mem"
    using assms(1-5) by (simp add: apply_mapping_def Let_def)
  then have at: "memory_at (apply_mapping n out fm mem) (fm_to_node fm) = set_parts ?ps v (JObj m)"
    by (simp add: memory_at_def set_nested_field_def)
  have "resolve_field (set_parts ?ps v (JObj m)) (fm_to_field fm) = v"
    using assms(4) resolve_set_parts[OF assms(6)] by (simp add: resolve_field_def)
  moreover have "js_get (set_parts ?ps v (JObj m)) k = js_get (JObj m) k" if "k \<noteq> hd ?ps"
    using that by (intro set_parts_other[OF refl]) (auto simp: path_parts_nonempty)
  moreover have "memory_at (apply_mapping n out fm mem) j = memory_at mem j" if "j \<noteq> fm_to_node fm"
    using that by (simp add: t memory_at_def)
  ultimately show ?thesis by (simp add: at)
qed

definition sample_mapping :: field_mapping where
  "sample_mapping = \<lparr>fm_from_node = ''a'', fm_from_field = ''body[1]'', fm_to_node = ''b'', fm_to_field = ''x.y''\<rparr>"

lemma sample_paths: "path_parts ''body[1]'' = [''body'', ''1'']" "path_parts ''x.y'' = [''x'', ''y'']"
  by (simp_all add: path_parts_def bracket_index_def cron_digit_def)

theorem field_mapping_delivers_witness:
  "resolve_field (memory_at (apply_mapping ''a'' (JObj [(''body'', JArr [JNull, JStr ''v''])]) sample_mapping
      [(''b'', JObj [(''z'', JBool True)])]) ''b'') ''x.y'' = JStr ''v''"
proof -
  have f: "fm_from_node sample_mapping = ''a''" "fm_to_node sample_mapping = ''b''" "fm_to_field sample_mapping = ''x.y''"
      "fm_from_field sample_mapping = ''body[1]''"
    by (simp_all add: sample_mapping_def)
  have i: "array_index ''1'' = Some 1"
    by (simp add: array_index_def all_digits_def cron_digit_def nat_of_digits_def digit_val_def)
  have r: "resolve_field (JObj [(''body'', JArr [JNull, JStr ''v''])]) (fm_from_field sample_mapping) = JStr ''v''"
    by (simp add: f resolve_field_def sample_paths js_is_object_def js_get_def i)
  have s: "settable (path_parts (fm_to_field sample_mapping)) (JObj [(''z'', JBool True)])"
    by (simp add: f sample_paths js_is_object_def js_get_def)
  have m: "memory_at [(''b'', JObj [(''z'', JBool True)])] (fm_to_node sample_mapping) = JObj [(''z'', JBool True)]"
    by (simp add: f memory_at_def)
  show ?thesis
    using field_mapping_delivers[OF f(1) r _ _ m s] by (simp add: f)
qed

end
