(* ===== verification/WorkflowGraph.thy ===== *)
theory WorkflowGraph
  imports JsValue
begin

text \<open>
  Workflow definitions (\<open>src/src/agent/phase-loop.types.ts\<close>) and the normalisation of a
  workflow into an ordered list of nodes (\<open>src/src/agent/workflow-node.types.ts\<close>).

  A node is its base with a body: a phase, one of the branching nodes whose outputs the runner
  reads, the board trigger, a trigger, or another orchestration node named by its type.
\<close>

section \<open>Definitions of a workflow\<close>

datatype failure_policy = FailFast | BestEffort | Quorum
datatype rejection_policy = RetryAll | RetryTargeted | Escalate | Goto
datatype phase_mode = ModeParallel | ModeInteractive | ModeSequentialLoop
datatype fs_isolation = IsoNone | IsoDirectory | IsoWorktree

record agent_def =
  ad_agent_id :: string
  ad_role :: string
  ad_label :: string
  ad_backend :: string
  ad_model :: "string option"
  ad_system_prompt :: string
  ad_tools :: "string list option"
  ad_max_turns :: "int option"
  ad_isolation :: "fs_isolation option"

record critic_def =
  cd_backend :: string
  cd_model :: "string option"
  cd_system_prompt :: string
  cd_gate :: bool
  cd_on_rejection :: "rejection_policy option"
  cd_goto_phase :: "string option"
  cd_max_retries :: "int option"

record phase_def =
  pd_phase_id :: string
  pd_title :: string
  pd_description :: "string option"
  pd_agents :: "agent_def list"
  pd_critic :: "critic_def option"
  pd_context_template :: "string option"
  pd_failure_policy :: "failure_policy option"
  pd_quorum_count :: "int option"
  pd_mode :: "phase_mode option"
  pd_loop_until :: "string option"
  pd_max_loop_iterations :: "int option"
  pd_depends_on :: "string list option"
  pd_tools :: "string list option"
  pd_skills :: "string list option"

record phase_body =
  pb_agents :: "agent_def list"
  pb_critic :: "critic_def option"
  pb_context_template :: "string option"
  pb_failure_policy :: "failure_policy option"
  pb_quorum_count :: "int option"
  pb_mode :: "phase_mode option"
  pb_loop_until :: "string option"
  pb_max_loop_iterations :: "int option"
  pb_tools :: "string list option"
  pb_skills :: "string list option"

record switch_case =
  sw_value :: string
  sw_targets :: "string list"

datatype node_body =
    PhaseBody phase_body
  | IfBody "string list" "string list"
  | SwitchBody "switch_case list" "string list option"
  | KanbanTriggerBody string "string list option" "string option"
  | TriggerBody
  | OtherBody string

record wf_node =
  wn_id :: string
  wn_title :: string
  wn_depends_on :: "string list option"
  wn_body :: node_body

definition phase_to_node :: "phase_def \<Rightarrow> wf_node" where
  "phase_to_node p =
     \<lparr>wn_id = pd_phase_id p, wn_title = pd_title p, wn_depends_on = pd_depends_on p,
      wn_body = PhaseBody \<lparr>pb_agents = pd_agents p, pb_critic = pd_critic p,
        pb_context_template = pd_context_template p, pb_failure_policy = pd_failure_policy p,
        pb_quorum_count = pd_quorum_count p, pb_mode = pd_mode p, pb_loop_until = pd_loop_until p,
        pb_max_loop_iterations = pd_max_loop_iterations p, pb_tools = pd_tools p, pb_skills = pd_skills p\<rparr>\<rparr>"

definition node_to_phase :: "wf_node \<Rightarrow> phase_body \<Rightarrow> phase_def" where
  "node_to_phase n b =
     \<lparr>pd_phase_id = wn_id n, pd_title = wn_title n, pd_description = None, pd_agents = pb_agents b, pd_critic = pb_critic b,
      pd_context_template = pb_context_template b, pd_failure_policy = pb_failure_policy b,
      pd_quorum_count = pb_quorum_count b, pd_mode = pb_mode b, pd_loop_until = pb_loop_until b,
      pd_max_loop_iterations = pb_max_loop_iterations b, pd_depends_on = wn_depends_on n,
      pd_tools = pb_tools b, pd_skills = pb_skills b\<rparr>"

definition is_orche_node :: "wf_node \<Rightarrow> bool" where
  "is_orche_node n = (case wn_body n of PhaseBody _ \<Rightarrow> False | TriggerBody \<Rightarrow> False | _ \<Rightarrow> True)"

definition node_type_of :: "wf_node \<Rightarrow> string" where
  "node_type_of n = (case wn_body n of PhaseBody _ \<Rightarrow> ''phase'' | IfBody _ _ \<Rightarrow> ''if'' | SwitchBody _ _ \<Rightarrow> ''switch''
     | KanbanTriggerBody _ _ _ \<Rightarrow> ''kanban_trigger'' | TriggerBody \<Rightarrow> ''trigger'' | OtherBody t \<Rightarrow> t)"

definition depends_list :: "wf_node \<Rightarrow> string list" where
  "depends_list n = (case wn_depends_on n of Some ds \<Rightarrow> ds | None \<Rightarrow> [])"


section \<open>Topological order\<close>

definition node_ids :: "wf_node list \<Rightarrow> string list" where
  "node_ids nodes = map wn_id nodes"

definition id_to_node :: "wf_node list \<Rightarrow> (string, wf_node) jmap" where
  "id_to_node nodes = fold (\<lambda>n m. jset (wn_id n) n m) nodes []"

text \<open>The edges in the order the nested loops meet them: a node and one of its known dependencies.\<close>

definition known_deps :: "wf_node list \<Rightarrow> wf_node \<Rightarrow> string list" where
  "known_deps nodes n = filter (\<lambda>d. jhas (id_to_node nodes) d) (depends_list n)"

definition graph_edges :: "wf_node list \<Rightarrow> (string \<times> string) list" where
  "graph_edges nodes = concat (map (\<lambda>n. map (\<lambda>d. (wn_id n, d)) (known_deps nodes n)) nodes)"

definition add_edge :: "string \<times> string \<Rightarrow> (string, int) jmap \<times> (string, string list) jmap
    \<Rightarrow> (string, int) jmap \<times> (string, string list) jmap" where
  "add_edge e g = (case e of (n, d) \<Rightarrow> case g of (deg, deps) \<Rightarrow>
     (jset n ((case jget deg n of Some k \<Rightarrow> k | None \<Rightarrow> 0) + 1) deg,
      jset d ((case jget deps d of Some l \<Rightarrow> l | None \<Rightarrow> []) @ [n]) deps))"

definition build_graph :: "wf_node list \<Rightarrow> (string, int) jmap \<times> (string, string list) jmap" where
  "build_graph nodes = fold add_edge (graph_edges nodes)
     (fold (\<lambda>n m. jset (wn_id n) 0 m) nodes [], fold (\<lambda>n m. jset (wn_id n) [] m) nodes [])"

definition order_map :: "wf_node list \<Rightarrow> (string, nat) jmap" where
  "order_map nodes = fold (\<lambda>(n, i) m. jset (wn_id n) i m) (zip nodes [0..<length nodes]) []"

definition order_of :: "wf_node list \<Rightarrow> string \<Rightarrow> nat" where
  "order_of nodes k = (case jget (order_map nodes) k of Some i \<Rightarrow> i | None \<Rightarrow> 0)"

text \<open>One visited node lowers the degree of its dependents; every dependent has a degree.\<close>

fun relax :: "string list \<Rightarrow> (string, int) jmap \<Rightarrow> string list \<Rightarrow> (string, int) jmap \<times> string list" where
  "relax [] deg q = (deg, q)"
| "relax (d # ds) deg q = (case jget deg d of
       None \<Rightarrow> relax ds deg q
     | Some k \<Rightarrow> relax ds (jset d (k - 1) deg) (if k - 1 = 0 then q @ [d] else q))"

definition open_degrees :: "(string, int) jmap \<Rightarrow> nat" where
  "open_degrees deg = length (filter (\<lambda>e. 0 < snd e) deg)"

lemma open_degrees_set:
  "jget deg d = Some k \<Longrightarrow> open_degrees (jset d (k - 1) deg) + (if k - 1 = 0 then 1 else 0) \<le> open_degrees deg"
  by (induction deg) (auto simp: open_degrees_def split: if_splits)

lemma relax_measure:
  "relax ds deg q = (deg', q') \<Longrightarrow> length q' + open_degrees deg' \<le> length q + open_degrees deg"
proof (induction ds deg q arbitrary: deg' q' rule: relax.induct)
  case (2 d ds deg q)
  show ?case
  proof (cases "jget deg d")
    case None
    with 2 show ?thesis by simp
  next
    case (Some k)
    with 2 have "length q' + open_degrees deg' \<le> length (if k - 1 = 0 then q @ [d] else q) + open_degrees (jset d (k - 1) deg)"
      by simp
    with open_degrees_set[OF Some] show ?thesis by (auto split: if_splits)
  qed
qed simp

function kahn :: "(string \<Rightarrow> nat) \<Rightarrow> (string, string list) jmap \<Rightarrow> string list \<Rightarrow> (string, int) jmap \<Rightarrow> string list \<Rightarrow> string list" where
  "kahn ord deps queue deg visited = (case sort_key ord queue of
       [] \<Rightarrow> visited
     | k # rest \<Rightarrow> kahn ord deps (snd (relax (case jget deps k of Some l \<Rightarrow> l | None \<Rightarrow> []) deg rest))
                     (fst (relax (case jget deps k of Some l \<Rightarrow> l | None \<Rightarrow> []) deg rest)) (visited @ [k]))"
  by pat_completeness auto
termination
proof (relation "measure (\<lambda>(ord, deps, queue, deg, visited). length queue + open_degrees deg)")
  fix ord :: "string \<Rightarrow> nat" and deps :: "(string, string list) jmap" and queue deg visited k rest
  assume q: "sort_key ord queue = k # rest"
  have "length queue = length (sort_key ord queue)" by simp
  also have "\<dots> = Suc (length rest)" unfolding q by simp
  finally have len: "length queue = Suc (length rest)" .
  let ?ds = "case jget deps k of Some l \<Rightarrow> l | None \<Rightarrow> []"
  have "length (snd (relax ?ds deg rest)) + open_degrees (fst (relax ?ds deg rest)) \<le> length rest + open_degrees deg"
    by (rule relax_measure[of ?ds deg rest]) simp
  with len show "((ord, deps, snd (relax ?ds deg rest), fst (relax ?ds deg rest), visited @ [k]), ord, deps, queue, deg, visited)
      \<in> measure (\<lambda>(ord, deps, queue, deg, visited). length queue + open_degrees deg)" by simp
qed simp

declare kahn.simps [simp del]

definition kahn_order :: "wf_node list \<Rightarrow> string list" where
  "kahn_order nodes = (case build_graph nodes of (deg, deps) \<Rightarrow>
     kahn (order_of nodes) deps (filter (\<lambda>k. (case jget deg k of Some d \<Rightarrow> d | None \<Rightarrow> 0) = 0) (node_ids nodes)) deg [])"

definition topological_sort :: "wf_node list \<Rightarrow> wf_node list" where
  "topological_sort nodes =
     (let visited = kahn_order nodes
      in if length visited < length nodes then nodes
         else map (\<lambda>k. the (jget (id_to_node nodes) k)) visited)"

text \<open>\<open>normalize_workflow\<close>: the nodes in order, and the phases among them.\<close>

definition phases_of :: "wf_node list \<Rightarrow> phase_def list" where
  "phases_of nodes = concat (map (\<lambda>n. case wn_body n of PhaseBody b \<Rightarrow> [node_to_phase n b] | _ \<Rightarrow> []) nodes)"

definition normalize_workflow :: "wf_node list option \<Rightarrow> phase_def list option \<Rightarrow> wf_node list \<times> phase_def list" where
  "normalize_workflow nodes phases =
     (if (case nodes of Some ns \<Rightarrow> ns \<noteq> [] | None \<Rightarrow> False)
      then let visited = topological_sort (the nodes) in (visited, phases_of visited)
      else let ps = (case phases of Some ps \<Rightarrow> ps | None \<Rightarrow> []) in (map phase_to_node ps, ps))"



section \<open>The order is topological\<close>

text \<open>
  The proof works on the ids and the dependency lists \<open>D\<close> they have. A state of the loop is the
  visited ids, the queue and the degrees: the degree of a node is the number of its dependencies
  that have not been visited, and the ids whose degree is zero are the visited and the queued.
\<close>

definition unvisited_deps :: "(string \<Rightarrow> string list) \<Rightarrow> string set \<Rightarrow> string \<Rightarrow> nat" where
  "unvisited_deps D S n = length (filter (\<lambda>d. d \<notin> S) (D n))"

definition deps_first :: "(string \<Rightarrow> string list) \<Rightarrow> string list \<Rightarrow> bool" where
  "deps_first D ks \<longleftrightarrow> (\<forall>i < length ks. set (D (ks ! i)) \<subseteq> set (take i ks))"

definition kahn_inv :: "string list \<Rightarrow> (string \<Rightarrow> string list) \<Rightarrow> string list \<Rightarrow> string list \<Rightarrow> (string, int) jmap \<Rightarrow> bool" where
  "kahn_inv ids D S Q deg \<longleftrightarrow> distinct (S @ Q) \<and> set (S @ Q) \<subseteq> set ids
     \<and> (\<forall>n \<in> set ids. jget deg n = Some (int (unvisited_deps D (set S) n)))
     \<and> (\<forall>n \<in> set ids. n \<in> set (S @ Q) \<longleftrightarrow> unvisited_deps D (set S) n = 0)
     \<and> deps_first D S"

lemma unvisited_zero: "unvisited_deps D S n = 0 \<longleftrightarrow> set (D n) \<subseteq> S"
  by (auto simp: unvisited_deps_def filter_empty_conv)

lemma unvisited_insert:
  assumes "k \<notin> S"
  shows "unvisited_deps D (insert k S) n + count_list (D n) k = unvisited_deps D S n"
proof -
  have "length (filter (\<lambda>d. d \<notin> insert k S) xs) + count_list xs k = length (filter (\<lambda>d. d \<notin> S) xs)" for xs
    using assms by (induction xs) auto
  then show ?thesis by (simp add: unvisited_deps_def)
qed

lemma deps_first_snoc: "deps_first D ks \<Longrightarrow> set (D k) \<subseteq> set ks \<Longrightarrow> deps_first D (ks @ [k])"
  by (auto simp: deps_first_def nth_append less_Suc_eq)

lemma relax_spec:
  assumes "\<And>n. n \<in> ids \<Longrightarrow> jget deg n = Some (int (r n))" and "set ds \<subseteq> ids"
    and "\<And>n. count_list ds n \<le> r n" and "relax ds deg q = (deg', q')"
  shows "(\<forall>n \<in> ids. jget deg' n = Some (int (r n - count_list ds n)))
    \<and> (\<exists>new. q' = q @ new \<and> distinct new \<and> set new = {n \<in> set ds. r n = count_list ds n})"
  using assms
proof (induction ds arbitrary: deg q r)
  case Nil
  then show ?case by simp
next
  case (Cons d ds)
  have d: "jget deg d = Some (int (r d))" "1 \<le> r d" "d \<in> ids"
    using Cons.prems(1,2) Cons.prems(3)[of d] by simp_all
  let ?r = "r(d := r d - 1)"
  let ?q = "if int (r d) - 1 = 0 then q @ [d] else q"
  have step: "relax ds (jset d (int (r d) - 1) deg) ?q = (deg', q')" using Cons.prems(4) d(1) by simp
  have deg1: "jget (jset d (int (r d) - 1) deg) n = Some (int (?r n))" if "n \<in> ids" for n
    using that Cons.prems(1) d by (simp add: of_nat_diff)
  have cnt: "count_list ds n \<le> ?r n" for n using Cons.prems(3)[of n] by (auto split: if_splits)
  have sub: "set ds \<subseteq> ids" using Cons.prems(2) by simp
  from Cons.IH[OF deg1 sub cnt step]
  obtain new where ih: "\<forall>n \<in> ids. jget deg' n = Some (int (?r n - count_list ds n))"
      "q' = ?q @ new" "distinct new" "set new = {n \<in> set ds. ?r n = count_list ds n}" by blast
  have degs: "\<forall>n \<in> ids. jget deg' n = Some (int (r n - count_list (d # ds) n))" using ih(1) by auto
  show ?case
  proof (cases "r d = 1")
    case True
    then have out: "d \<notin> set ds" using cnt[of d] by (simp add: count_list_0_iff)
    have "q' = q @ (d # new)" using ih(2) True by simp
    moreover have "distinct (d # new)" using ih(3,4) out by simp
    moreover have "set (d # new) = {n \<in> set (d # ds). r n = count_list (d # ds) n}"
      using ih(4) out True by (auto simp: count_notin)
    ultimately show ?thesis using degs by blast
  next
    case False
    have "q' = q @ new" using ih(2) False d(2) by simp
    moreover have "set new = {n \<in> set (d # ds). r n = count_list (d # ds) n}"
    proof -
      have "d \<in> set ds" if "r d = Suc (count_list ds d)"
        using that False by (metis One_nat_def count_notin)
      then show ?thesis using ih(4) d(2) by auto
    qed
    ultimately show ?thesis using degs ih(3) by blast
  qed
qed

lemma kahn_inv_step:
  assumes inv: "kahn_inv ids D S Q deg" and q: "sort_key ord Q = k # rest"
    and ds: "set ds \<subseteq> set ids" "\<And>n. n \<in> set ids \<Longrightarrow> count_list ds n = count_list (D n) k"
    and run: "relax ds deg rest = (deg', q')"
  shows "kahn_inv ids D (S @ [k]) q' deg'"
proof -
  let ?r = "unvisited_deps D (set S)"
  have Q: "set Q = insert k (set rest)" "distinct (k # rest)"
    using inv q by (metis list.simps(15) set_sort, metis distinct_append distinct_sort kahn_inv_def)
  have k: "k \<in> set ids" "k \<notin> set S" "?r k = 0"
    using inv Q unfolding kahn_inv_def by auto
  have deg: "\<And>n. n \<in> set ids \<Longrightarrow> jget deg n = Some (int (?r n))" using inv by (simp add: kahn_inv_def)
  have r': "?r n = unvisited_deps D (insert k (set S)) n + count_list (D n) k" for n
    using unvisited_insert[OF k(2), of D n] by simp
  have cnt: "count_list ds n \<le> ?r n" for n
  proof (cases "n \<in> set ids")
    case True
    with ds(2) r' show ?thesis by simp
  next
    case False
    with ds(1) have "count_list ds n = 0" by (metis count_notin subset_iff)
    then show ?thesis by simp
  qed
  obtain new where new: "\<forall>n \<in> set ids. jget deg' n = Some (int (?r n - count_list ds n))"
      "q' = rest @ new" "distinct new" "set new = {n \<in> set ds. ?r n = count_list ds n}"
    using relax_spec[OF deg ds(1) cnt run] by blast
  have now: "?r n - count_list ds n = unvisited_deps D (insert k (set S)) n" if "n \<in> set ids" for n
    using that ds(2) r' by simp
  have fresh: "n \<notin> set (S @ Q)" if "n \<in> set new" for n
  proof -
    have "n \<in> set ids" "0 < count_list ds n" using that new(4) ds(1) by (auto simp: count_list_0_iff neq0_conv[symmetric])
    then have "?r n \<noteq> 0" using cnt[of n] by linarith
    with inv \<open>n \<in> set ids\<close> show ?thesis by (auto simp: kahn_inv_def)
  qed
  have parts: "distinct S" "set S \<inter> set Q = {}" "set S \<subseteq> set ids" "set Q \<subseteq> set ids" "deps_first D S"
    using inv by (auto simp: kahn_inv_def)
  have off: "set new \<inter> set (S @ Q) = {}" using fresh by blast
  have "distinct ((S @ [k]) @ q')"
    unfolding new(2) using parts(1,2) Q new(3) off by auto
  moreover have "set ((S @ [k]) @ q') \<subseteq> set ids"
    unfolding new(2) using parts(3,4) Q(1) new(4) ds(1) by auto
  moreover have "\<forall>n \<in> set ids. jget deg' n = Some (int (unvisited_deps D (set (S @ [k])) n))"
    using new(1) now by simp
  moreover have "n \<in> set ((S @ [k]) @ q') \<longleftrightarrow> unvisited_deps D (set (S @ [k])) n = 0" if n: "n \<in> set ids" for n
  proof -
    have old: "n \<in> set (S @ Q) \<longleftrightarrow> ?r n = 0" using inv n by (simp add: kahn_inv_def)
    have "n \<in> set new \<longleftrightarrow> unvisited_deps D (insert k (set S)) n = 0 \<and> ?r n \<noteq> 0"
    proof -
      have c: "n \<in> set ds \<longleftrightarrow> count_list (D n) k \<noteq> 0" using ds(2)[OF n] by (metis count_list_0_iff)
      have e: "n \<in> set new \<longleftrightarrow> n \<in> set ds \<and> ?r n = count_list (D n) k" using new(4) ds(2)[OF n] by simp
      show ?thesis unfolding e c r'[of n] by (cases "count_list (D n) k = 0") auto
    qed
    moreover have "n \<in> set ((S @ [k]) @ q') \<longleftrightarrow> n \<in> set (S @ Q) \<or> n \<in> set new"
      unfolding new(2) using Q(1) by auto
    moreover have "?r n = 0 \<Longrightarrow> unvisited_deps D (insert k (set S)) n = 0" using r'[of n] by linarith
    ultimately show ?thesis using old by auto
  qed
  moreover have "deps_first D (S @ [k])"
    using parts(5) k(3) by (intro deps_first_snoc) (simp_all add: unvisited_zero)
  ultimately show ?thesis unfolding kahn_inv_def by blast
qed

lemma kahn_result:
  assumes "kahn_inv ids D S Q deg"
    and "\<And>k. set (case jget deps k of Some l \<Rightarrow> l | None \<Rightarrow> []) \<subseteq> set ids"
    and "\<And>k n. n \<in> set ids \<Longrightarrow> count_list (case jget deps k of Some l \<Rightarrow> l | None \<Rightarrow> []) n = count_list (D n) k"
  shows "\<exists>S' deg'. kahn ord deps Q deg S = S' \<and> kahn_inv ids D S' [] deg'"
  using assms(1)
proof (induction "length Q + open_degrees deg" arbitrary: S Q deg rule: less_induct)
  case less
  show ?case
  proof (cases "sort_key ord Q")
    case Nil
    then have "Q = []" by (metis length_0_conv length_sort)
    with Nil less.prems show ?thesis by (subst kahn.simps) auto
  next
    case (Cons k rest)
    let ?ds = "case jget deps k of Some l \<Rightarrow> l | None \<Rightarrow> []"
    obtain deg' q' where run: "relax ?ds deg rest = (deg', q')" by (cases "relax ?ds deg rest")
    have "length Q = length (sort_key ord Q)" by simp
    then have "length Q = Suc (length rest)" unfolding Cons by simp
    then have small: "length q' + open_degrees deg' < length Q + open_degrees deg" using relax_measure[OF run] by simp
    have "kahn_inv ids D (S @ [k]) q' deg'"
      by (rule kahn_inv_step[OF less.prems Cons _ _ run]) (use assms(2,3) in auto)
    from less.hyps[OF small this] show ?thesis
      by (subst kahn.simps) (simp add: Cons run)
  qed
qed

text \<open>If the ids can be ordered at all, the loop visits every one of them.\<close>

lemma kahn_complete:
  assumes "kahn_inv ids D S [] deg" and "set ys = set ids" and "deps_first D ys"
  shows "set S = set ids"
proof (rule ccontr)
  assume "set S \<noteq> set ids"
  moreover have "set S \<subseteq> set ys" using assms(1,2) by (simp add: kahn_inv_def)
  ultimately obtain y where "y \<in> set ys" "y \<notin> set S" using assms(2) by blast
  then have "\<exists>i. i < length ys \<and> ys ! i \<notin> set S" by (auto simp: in_set_conv_nth)
  then obtain i where i: "i < length ys" "ys ! i \<notin> set S" and least: "\<And>j. j < i \<Longrightarrow> \<not> (j < length ys \<and> ys ! j \<notin> set S)"
    using exists_least_iff[of "\<lambda>i. i < length ys \<and> ys ! i \<notin> set S"] by blast
  have "set (take i ys) \<subseteq> set S"
  proof
    fix x assume "x \<in> set (take i ys)"
    then obtain j where "j < i" "j < length ys" "ys ! j = x" by (auto simp: in_set_conv_nth)
    with least show "x \<in> set S" by blast
  qed
  then have "set (D (ys ! i)) \<subseteq> set S" using assms(3) i(1) by (auto simp: deps_first_def)
  moreover have "ys ! i \<in> set ids" using assms(2) i(1) nth_mem by blast
  ultimately have "ys ! i \<in> set S" using assms(1) by (auto simp: kahn_inv_def unvisited_zero)
  with i(2) show False by contradiction
qed



subsection \<open>The maps the source builds\<close>

lemma jget_fold_jset_other: "k \<notin> f ` set xs \<Longrightarrow> jget (fold (\<lambda>x m. jset (f x) (g x) m) xs m) k = jget m k"
  by (induction xs arbitrary: m) auto

lemma jget_fold_jset:
  "distinct (map f xs) \<Longrightarrow> x \<in> set xs \<Longrightarrow> jget (fold (\<lambda>x m. jset (f x) (g x) m) xs m) (f x) = Some (g x)"
proof (induction xs arbitrary: m)
  case (Cons y ys)
  show ?case
  proof (cases "x = y")
    case True
    with Cons.prems(1) show ?thesis by (simp add: jget_fold_jset_other)
  next
    case False
    with Cons show ?thesis by simp
  qed
qed simp

lemma node_of_id:
  assumes "distinct (node_ids nodes)"
  shows "n \<in> set nodes \<Longrightarrow> jget (id_to_node nodes) (wn_id n) = Some n"
    and "k \<notin> set (node_ids nodes) \<Longrightarrow> jget (id_to_node nodes) k = None"
  using jget_fold_jset[of wn_id nodes n "\<lambda>n. n" "[]"] jget_fold_jset_other[of k wn_id nodes "\<lambda>n. n" "[]"] assms
  by (simp_all add: id_to_node_def node_ids_def)

lemma known_iff: "distinct (node_ids nodes) \<Longrightarrow> jhas (id_to_node nodes) d \<longleftrightarrow> d \<in> set (node_ids nodes)"
  using node_of_id by (fastforce simp: jhas_def node_ids_def)

lemma add_edge_pair: "add_edge (n, d) (deg, deps) =
     (jset n ((case jget deg n of Some k \<Rightarrow> k | None \<Rightarrow> 0) + 1) deg,
      jset d ((case jget deps d of Some l \<Rightarrow> l | None \<Rightarrow> []) @ [n]) deps)"
  by (simp add: add_edge_def)

lemma add_edge_deg:
  "jget (fst (fold add_edge es (deg, deps))) n =
     (if n \<in> fst ` set es then Some ((case jget deg n of Some k \<Rightarrow> k | None \<Rightarrow> 0) + int (count_list (map fst es) n))
      else jget deg n)"
proof (induction es arbitrary: deg deps)
  case (Cons e es)
  obtain m d where e: "e = (m, d)" by (cases e)
  show ?case by (auto simp: e add_edge_pair Cons.IH count_notin)
qed simp

lemma add_edge_deps:
  "jget (snd (fold add_edge es (deg, deps))) d =
     (if d \<in> snd ` set es
      then Some ((case jget deps d of Some l \<Rightarrow> l | None \<Rightarrow> []) @ map fst (filter (\<lambda>e. snd e = d) es))
      else jget deps d)"
proof (induction es arbitrary: deg deps)
  case (Cons e es)
  obtain m d' where e: "e = (m, d')" by (cases e)
  have none: "d' \<notin> snd ` set es \<Longrightarrow> filter (\<lambda>e. snd e = d') es = []" by (auto simp: filter_empty_conv)
  show ?case by (auto simp: e add_edge_pair Cons.IH none)
qed simp

lemma count_list_map_const: "count_list (map (\<lambda>d. k) xs) n = (if k = n then length xs else 0)"
  by (induction xs) auto

lemma count_edges_of:
  assumes "distinct (node_ids ns)" and "n \<in> set ns"
  shows "count_list (map fst (concat (map (\<lambda>n. map (\<lambda>d. (wn_id n, d)) (f n)) ns))) (wn_id n) = length (f n)"
  using assms
proof (induction ns)
  case (Cons m ns)
  let ?rest = "concat (map (\<lambda>n. map (\<lambda>d. (wn_id n, d)) (f n)) ns)"
  have head: "count_list (map fst (map (\<lambda>d. (wn_id m, d)) (f m))) (wn_id n) = (if wn_id m = wn_id n then length (f m) else 0)"
    by (simp add: comp_def count_list_map_const)
  show ?case
  proof (cases "n = m")
    case True
    have "wn_id m \<notin> fst ` set ?rest" using Cons.prems(1) by (auto simp: node_ids_def)
    then have "count_list (map fst ?rest) (wn_id m) = 0" by (metis count_notin set_map)
    with head True show ?thesis by simp
  next
    case False
    then have n: "n \<in> set ns" using Cons.prems(2) by simp
    have "wn_id m \<noteq> wn_id n" using Cons.prems(1) n by (auto simp: node_ids_def)
    with head Cons.IH[OF _ n] Cons.prems(1) show ?thesis by (simp add: node_ids_def)
  qed
qed simp

lemma count_edges_to:
  assumes "distinct (node_ids ns)" and "n \<in> set ns"
  shows "count_list (map fst (filter (\<lambda>e. snd e = d) (concat (map (\<lambda>n. map (\<lambda>d. (wn_id n, d)) (f n)) ns)))) (wn_id n)
     = count_list (f n) d"
proof -
  have flt: "filter (\<lambda>e. snd e = d) (concat (map (\<lambda>n. map (\<lambda>d. (wn_id n, d)) (f n)) ms))
      = concat (map (\<lambda>n. map (\<lambda>d. (wn_id n, d)) (filter (\<lambda>x. x = d) (f n))) ms)" for ms :: "wf_node list"
    by (induction ms) (simp_all add: filter_map comp_def)
  have "length (filter (\<lambda>x. x = d) xs) = count_list xs d" for xs by (induction xs) auto
  then show ?thesis unfolding flt count_edges_of[OF assms] .
qed

definition deps_of_id :: "wf_node list \<Rightarrow> string \<Rightarrow> string list" where
  "deps_of_id nodes k = (case jget (id_to_node nodes) k of Some n \<Rightarrow> known_deps nodes n | None \<Rightarrow> [])"

text \<open>What topological order means: every known dependency of a node stands before it.\<close>

definition topo_ok :: "wf_node list \<Rightarrow> wf_node list \<Rightarrow> bool" where
  "topo_ok nodes xs \<longleftrightarrow> (\<forall>i < length xs. \<forall>d \<in> set (known_deps nodes (xs ! i)). \<exists>j < i. wn_id (xs ! j) = d)"

lemma topo_ok_deps_first:
  assumes "distinct (node_ids nodes)" and "set xs \<subseteq> set nodes"
  shows "topo_ok nodes xs \<longleftrightarrow> deps_first (deps_of_id nodes) (map wn_id xs)"
proof -
  have d: "deps_of_id nodes (wn_id (xs ! i)) = known_deps nodes (xs ! i)" if "i < length xs" for i
    using that assms nth_mem[OF that] by (simp add: deps_of_id_def node_of_id(1)[OF assms(1)] subset_iff)
  have "set (take i (map wn_id xs)) = {wn_id (xs ! j) | j. j < i}" if "i < length xs" for i
    using that by (fastforce simp: in_set_conv_nth)
  with d show ?thesis unfolding topo_ok_def deps_first_def by (auto simp: subset_iff; metis)
qed

lemma kahn_start:
  assumes dist: "distinct (node_ids nodes)"
  shows "\<exists>deg. kahn_inv (node_ids nodes) (deps_of_id nodes) (kahn_order nodes) [] deg"
proof -
  let ?ids = "node_ids nodes" and ?D = "deps_of_id nodes" and ?es = "graph_edges nodes"
  let ?deg0 = "fold (\<lambda>n m. jset (wn_id n) 0 m) nodes [] :: (string, int) jmap"
  let ?deps0 = "fold (\<lambda>n m. jset (wn_id n) [] m) nodes [] :: (string, string list) jmap"
  obtain deg deps where g: "build_graph nodes = (deg, deps)" by (cases "build_graph nodes")
  then have deg_deps: "deg = fst (fold add_edge ?es (?deg0, ?deps0))" "deps = snd (fold add_edge ?es (?deg0, ?deps0))"
    by (simp_all add: build_graph_def prod_eq_iff)
  have fst_es: "fst ` set ?es \<subseteq> set ?ids" by (auto simp: graph_edges_def node_ids_def)
  have D: "?D (wn_id n) = known_deps nodes n" if "n \<in> set nodes" for n
    using node_of_id(1)[OF dist that] by (simp add: deps_of_id_def)
  have deg: "jget deg k = Some (int (unvisited_deps ?D (set []) k))" if k: "k \<in> set ?ids" for k
  proof -
    obtain n where n: "n \<in> set nodes" "k = wn_id n" using k by (auto simp: node_ids_def)
    have base: "jget ?deg0 k = Some 0" using jget_fold_jset[of wn_id nodes n "\<lambda>n. 0"] n dist by (simp add: node_ids_def)
    have "count_list (map fst ?es) k = length (known_deps nodes n)"
      unfolding graph_edges_def n(2) by (rule count_edges_of[OF dist n(1)])
    moreover have "k \<notin> fst ` set ?es \<Longrightarrow> count_list (map fst ?es) k = 0" by (metis count_notin set_map)
    ultimately show ?thesis using D[OF n(1)] n(2) base by (simp add: deg_deps(1) add_edge_deg unvisited_deps_def)
  qed
  have base2: "(case jget ?deps0 k of Some l \<Rightarrow> l | None \<Rightarrow> []) = []" for k
  proof (cases "k \<in> wn_id ` set nodes")
    case True
    then obtain n where "n \<in> set nodes" "k = wn_id n" by blast
    then show ?thesis using jget_fold_jset[of wn_id nodes n "(\<lambda>n. []) :: wf_node \<Rightarrow> string list"] dist by (simp add: node_ids_def)
  next
    case False
    then show ?thesis by (simp add: jget_fold_jset_other)
  qed
  have deps: "(case jget deps k of Some l \<Rightarrow> l | None \<Rightarrow> []) = map fst (filter (\<lambda>e. snd e = k) ?es)" for k
  proof (cases "k \<in> snd ` set ?es")
    case True
    then show ?thesis using base2[of k] by (simp add: deg_deps(2) add_edge_deps)
  next
    case False
    then have "filter (\<lambda>e. snd e = k) ?es = []" by (auto simp: filter_empty_conv)
    with False base2[of k] show ?thesis by (simp add: deg_deps(2) add_edge_deps)
  qed
  have sub: "set (case jget deps k of Some l \<Rightarrow> l | None \<Rightarrow> []) \<subseteq> set ?ids" for k
    unfolding deps using fst_es by auto
  have cnt: "count_list (case jget deps k of Some l \<Rightarrow> l | None \<Rightarrow> []) m = count_list (?D m) k" if m: "m \<in> set ?ids" for k m
  proof -
    obtain n where n: "n \<in> set nodes" "m = wn_id n" using m by (auto simp: node_ids_def)
    show ?thesis unfolding deps n(2) D[OF n(1)] graph_edges_def by (rule count_edges_to[OF dist n(1)])
  qed
  let ?Q = "filter (\<lambda>k. (case jget deg k of Some d \<Rightarrow> d | None \<Rightarrow> 0) = 0) ?ids"
  have "kahn_inv ?ids ?D [] ?Q deg"
    unfolding kahn_inv_def deps_first_def using dist deg by auto
  from kahn_result[OF this sub cnt] show ?thesis
    by (auto simp: kahn_order_def g)
qed

text \<open>The workflow's nodes are put in an order in which every node comes after the nodes it
  depends on: when some such order exists the result is one, it is a rearrangement of the nodes,
  and only a cyclic workflow keeps the order it was written in.\<close>

theorem topological_sort_spec:
  assumes "distinct (node_ids nodes)"
  shows "mset (topological_sort nodes) = mset nodes
    \<and> ((\<exists>ys. mset ys = mset nodes \<and> topo_ok nodes ys) \<longleftrightarrow> topo_ok nodes (topological_sort nodes))"
proof -
  let ?ids = "node_ids nodes" and ?D = "deps_of_id nodes" and ?K = "kahn_order nodes"
  let ?node = "\<lambda>k. the (jget (id_to_node nodes) k)"
  obtain deg where inv: "kahn_inv ?ids ?D ?K [] deg" using kahn_start[OF assms] by blast
  have K: "distinct ?K" "set ?K \<subseteq> set ?ids" "deps_first ?D ?K" using inv by (simp_all add: kahn_inv_def)
  have inverse: "?node (wn_id n) = n" if "n \<in> set nodes" for n using node_of_id(1)[OF assms that] by simp
  have ids: "map wn_id (map ?node ?K) = ?K"
    using K(2) inverse by (simp only: map_map) (intro map_idI, auto simp: node_ids_def)
  have perm: "mset (map ?node ?K) = mset nodes \<and> topo_ok nodes (map ?node ?K)" if "set ?K = set ?ids"
  proof
    have sub: "set (map ?node ?K) = set nodes" using that inverse by (force simp: node_ids_def)
    have "distinct (map ?node ?K)" using ids K(1) by (metis distinct_map)
    moreover have "distinct nodes" using assms by (simp add: node_ids_def distinct_map)
    ultimately show "mset (map ?node ?K) = mset nodes" using sub by (metis set_eq_iff_mset_eq_distinct)
    show "topo_ok nodes (map ?node ?K)"
      using topo_ok_deps_first[OF assms, of "map ?node ?K"] sub K(3) unfolding ids by simp
  qed
  have all: "set ?K = set ?ids" if "mset ys = mset nodes" "topo_ok nodes ys" for ys
  proof -
    have sy: "set ys = set nodes" using that(1) by (metis set_mset_mset)
    then have "deps_first ?D (map wn_id ys)" using that(2) topo_ok_deps_first[OF assms, of ys] by simp
    with sy show ?thesis by (intro kahn_complete[OF inv]) (simp_all add: node_ids_def)
  qed
  have len: "length nodes \<le> length ?K \<longleftrightarrow> set ?K = set ?ids"
  proof
    assume "length nodes \<le> length ?K"
    moreover have "card (set ?ids) \<le> length nodes" using card_length[of ?ids] by (simp add: node_ids_def)
    ultimately have "card (set ?ids) \<le> card (set ?K)" using distinct_card[OF K(1)] by linarith
    then show "set ?K = set ?ids" using K(2) by (intro card_subset_eq) (simp_all add: card_mono le_antisym)
  next
    assume "set ?K = set ?ids"
    then show "length nodes \<le> length ?K" using assms K(1) by (metis distinct_card length_map node_ids_def order_refl)
  qed
  show ?thesis
  proof (cases "set ?K = set ?ids")
    case True
    then have "topological_sort nodes = map ?node ?K" using len by (simp add: topological_sort_def Let_def)
    with perm[OF True] have "mset (topological_sort nodes) = mset nodes \<and> topo_ok nodes (topological_sort nodes)" by simp
    then show ?thesis by blast
  next
    case False
    then have t: "topological_sort nodes = nodes" using len by (simp add: topological_sort_def Let_def)
    have "\<not> topo_ok nodes nodes" using all[of nodes] False by blast
    with t all False show ?thesis by auto
  qed
qed

text \<open>A phase keeps everything but its description when it goes through its node.\<close>

lemma node_to_phase_to_node:
  "wn_body (phase_to_node p) = PhaseBody b \<Longrightarrow> node_to_phase (phase_to_node p) b = p\<lparr>pd_description := None\<rparr>"
  by (rule phase_def.equality) (auto simp: node_to_phase_def phase_to_node_def)

definition plain_node :: "string \<Rightarrow> string list \<Rightarrow> wf_node" where
  "plain_node k ds = \<lparr>wn_id = k, wn_title = k, wn_depends_on = Some ds, wn_body = OtherBody ''set''\<rparr>"

theorem topological_sort_spec_witness:
  "mset (topological_sort [plain_node ''c'' [''b''], plain_node ''b'' [''a''], plain_node ''a'' []])
     = mset [plain_node ''c'' [''b''], plain_node ''b'' [''a''], plain_node ''a'' []]"
  using topological_sort_spec[of "[plain_node ''c'' [''b''], plain_node ''b'' [''a''], plain_node ''a'' []]"]
  by (simp add: node_ids_def plain_node_def)

end
