(* ===== verification/PhaseState.thy ===== *)
theory PhaseState
  imports WorkflowGraph
begin

text \<open>
  The state of a running workflow (\<open>src/src/agent/phase-loop.types.ts\<close>) and the helpers of
  \<open>src/src/agent/phase-loop-runner.ts\<close> that make, reset, read and close a phase, with the
  parser of the critic's answer.

  Time stamps are left out. \<open>JSON.parse\<close> and \<open>String\<close> of a value are arguments of the
  definitions that use them; the prompts sent to the agents are not modelled.
\<close>

section \<open>State\<close>

datatype wf_status = WfRunning | WfCompleted | WfFailed | WfCancelled | WfWaitingUserInput
datatype phase_status = PsPending | PsRunning | PsReviewing | PsCompleted | PsFailed
datatype agent_status = AsPending | AsRunning | AsCompleted | AsFailed
datatype critic_status = CsPending | CsRunning | CsCompleted | CsFailed
datatype orche_status = OsPending | OsRunning | OsCompleted | OsFailed | OsSkipped
datatype message_role = RoleUser | RoleAssistant | RoleSystem

record phase_message =
  pm_role :: message_role
  pm_content :: string

record agent_state =
  as_agent_id :: string
  as_role :: string
  as_label :: string
  as_model :: string
  as_status :: agent_status
  as_messages :: "phase_message list"
  as_result :: "string option"
  as_error :: "string option"
  as_subagent_id :: "nat option"

record critic_state =
  cs_agent_id :: string
  cs_model :: string
  cs_status :: critic_status
  cs_review :: "string option"
  cs_approved :: "bool option"
  cs_messages :: "phase_message list"

record phase_state =
  ph_phase_id :: string
  ph_title :: string
  ph_status :: phase_status
  ph_agents :: "agent_state list"
  ph_critic :: "critic_state option"
  ph_loop_iteration :: "nat option"
  ph_loop_results :: "string list option"
  ph_pending_user_input :: "bool option"

record orche_state =
  os_node_id :: string
  os_node_type :: string
  os_status :: orche_status
  os_result :: "jsval option"
  os_error :: "string option"

record wf_state =
  wf_workflow_id :: string
  wf_title :: string
  wf_objective :: string
  wf_channel :: string
  wf_chat_id :: string
  wf_status :: wf_status
  wf_current_phase :: nat
  wf_phases :: "phase_state list"
  wf_orche_states :: "orche_state list"
  wf_memory :: memory

datatype phase_event =
    WorkflowStarted string
  | PhaseStarted string string
  | AgentStarted string string string
  | AgentCompleted string string string string
  | AgentFailed string string string string
  | CriticStarted string string
  | CriticCompleted string string bool string
  | PhaseCompleted string string
  | WorkflowCompleted string
  | WorkflowFailed string string
  | UserInputRequested string string string
  | UserInputReceived string string
  | LoopIteration string string nat
  | PhaseGoto string string string string
  | NodeStarted string string string
  | NodeCompleted string string string string
  | NodeSkipped string string string
  | NodeWaiting string string string string


section \<open>Making and resetting a phase\<close>

definition critic_id :: "string \<Rightarrow> string" where
  "critic_id phase_id = ''critic-'' @ phase_id"

definition initial_agent :: "agent_def \<Rightarrow> agent_state" where
  "initial_agent a =
     \<lparr>as_agent_id = ad_agent_id a, as_role = ad_role a, as_label = ad_label a,
      as_model = (case ad_model a of Some m \<Rightarrow> m | None \<Rightarrow> []), as_status = AsPending, as_messages = [],
      as_result = None, as_error = None, as_subagent_id = None\<rparr>"

definition initial_critic :: "string \<Rightarrow> critic_def \<Rightarrow> critic_state" where
  "initial_critic phase_id c =
     \<lparr>cs_agent_id = critic_id phase_id, cs_model = (case cd_model c of Some m \<Rightarrow> m | None \<Rightarrow> []),
      cs_status = CsPending, cs_review = None, cs_approved = None, cs_messages = []\<rparr>"

definition build_initial_phase_state :: "phase_def \<Rightarrow> phase_state" where
  "build_initial_phase_state d =
     \<lparr>ph_phase_id = pd_phase_id d, ph_title = pd_title d, ph_status = PsPending,
      ph_agents = map initial_agent (pd_agents d), ph_critic = map_option (initial_critic (pd_phase_id d)) (pd_critic d),
      ph_loop_iteration = None, ph_loop_results = None, ph_pending_user_input = None\<rparr>"

definition reset_agent :: "agent_state \<Rightarrow> agent_state" where
  "reset_agent a = a\<lparr>as_status := AsPending, as_result := None, as_error := None, as_subagent_id := None\<rparr>"

definition reset_phase_state :: "phase_state \<Rightarrow> phase_state" where
  "reset_phase_state p =
     p\<lparr>ph_status := PsPending, ph_loop_iteration := None, ph_loop_results := None, ph_pending_user_input := None,
       ph_agents := map reset_agent (ph_agents p),
       ph_critic := map_option (\<lambda>c. c\<lparr>cs_status := CsPending, cs_review := None, cs_approved := None\<rparr>) (ph_critic p)\<rparr>"

definition agent_wait_timeout_ms :: "int option \<Rightarrow> int" where
  "agent_wait_timeout_ms max_turns =
     (let effective = (if max_turns = Some 0 then 20 else (case max_turns of Some n \<Rightarrow> n | None \<Rightarrow> 10))
      in min (effective * 600000) 3600000)"

definition merge_tools :: "string list option \<Rightarrow> string list option \<Rightarrow> string list option" where
  "merge_tools agent_tools phase_tools =
     (let a = (case agent_tools of Some l \<Rightarrow> l | None \<Rightarrow> []); p = (case phase_tools of Some l \<Rightarrow> l | None \<Rightarrow> [])
      in if a = [] \<and> p = [] then None else Some (rev (remdups (rev (a @ p)))))"

definition ensure_kanban :: "string list option \<Rightarrow> string list option" where
  "ensure_kanban tools = (case tools of None \<Rightarrow> None
     | Some l \<Rightarrow> Some (if ''kanban'' \<in> set l then l else l @ [''kanban'']))"

definition backend_to_provider :: "string option \<Rightarrow> string option" where
  "backend_to_provider backend = (case backend of None \<Rightarrow> None
     | Some b \<Rightarrow> if b = [] then None
         else Some (if b = ''codex_cli'' then ''chatgpt'' else if b = ''claude_cli'' then ''claude_code''
           else if b = ''claude_sdk'' then ''claude_code'' else if b = ''gemini_cli'' then ''gemini''
           else b))"

definition merge_phase_results :: "phase_state \<Rightarrow> jsval" where
  "merge_phase_results p =
     JObj [(''agents'', JObj (fold (\<lambda>a m. case as_result a of
              Some r \<Rightarrow> if r \<noteq> [] then jset (as_agent_id a) (JStr r) m else m | None \<Rightarrow> m) (ph_agents p) [])),
           (''critic_review'', case ph_critic p of
              Some c \<Rightarrow> (case cs_review c of Some r \<Rightarrow> if r = [] then JNull else JStr r | None \<Rightarrow> JNull) | None \<Rightarrow> JNull),
           (''critic_approved'', case ph_critic p of
              Some c \<Rightarrow> (case cs_approved c of Some b \<Rightarrow> JBool b | None \<Rightarrow> JNull) | None \<Rightarrow> JNull)]"


section \<open>The critic's answer\<close>

datatype review_quality = QGood | QNeedsImprovement | QLowQuality

record agent_review =
  av_agent_id :: string
  av_quality :: review_quality
  av_feedback :: string

record critic_review =
  rv_approved :: bool
  rv_summary :: string
  rv_agent_reviews :: "agent_review list option"

text \<open>The greedy match \<open>{...\"approved\"...}\<close>: from the first brace to the last one.\<close>

definition approved_key :: string where
  "approved_key = CHR 0x22 # ''approved'' @ [CHR 0x22]"

definition json_block :: "string \<Rightarrow> string option" where
  "json_block content =
     (let s = dropWhile (\<lambda>c. c \<noteq> CHR 0x7B) content;
          b = rev (dropWhile (\<lambda>c. c \<noteq> CHR 0x7D) (rev s))
      in if s \<noteq> [] \<and> str_includes approved_key (butlast (tl b)) then Some b else None)"

definition review_of :: "(jsval \<Rightarrow> string) \<Rightarrow> jsval \<Rightarrow> agent_review option" where
  "review_of str r = (if r = JNull \<or> r = JUndef then None
     else let q = str (js_get r ''quality'')
          in Some \<lparr>av_agent_id = (if js_truthy (js_get r ''agent_id'') then str (js_get r ''agent_id'') else []),
                   av_quality = (if q = ''needs_improvement'' then QNeedsImprovement
                                 else if q = ''low_quality'' then QLowQuality else QGood),
                   av_feedback = (if js_truthy (js_get r ''feedback'') then str (js_get r ''feedback'') else [])\<rparr>)"

fun all_some :: "'a option list \<Rightarrow> 'a list option" where
  "all_some [] = Some []"
| "all_some (x # xs) = (case x of None \<Rightarrow> None | Some a \<Rightarrow> map_option (\<lambda>l. a # l) (all_some xs))"

definition fallback_approved :: "string \<Rightarrow> bool" where
  "fallback_approved content = (let lower = str_lower content
     in str_includes ''approved'' lower \<or> str_includes ''pass'' lower \<or> \<not> str_includes ''rejected'' lower)"

definition parse_critic_response :: "(string \<Rightarrow> jsval option) \<Rightarrow> (jsval \<Rightarrow> string) \<Rightarrow> string \<Rightarrow> critic_review" where
  "parse_critic_response json str content =
     (let fallback = \<lparr>rv_approved = fallback_approved content, rv_summary = take 2000 content, rv_agent_reviews = None\<rparr>
      in case json_block content of None \<Rightarrow> fallback
         | Some block \<Rightarrow> (case json block of None \<Rightarrow> fallback
           | Some parsed \<Rightarrow>
               (let summary = (if js_truthy (js_get parsed ''summary'') then str (js_get parsed ''summary'')
                               else if js_truthy (js_get parsed ''review'') then str (js_get parsed ''review'') else content);
                    review = (\<lambda>rs. \<lparr>rv_approved = js_truthy (js_get parsed ''approved''),
                                rv_summary = take 2000 summary, rv_agent_reviews = rs\<rparr>)
                in case js_get parsed ''agent_reviews'' of
                     JArr rs \<Rightarrow> (case all_some (map (review_of str) rs) of Some l \<Rightarrow> review (Some l) | None \<Rightarrow> fallback)
                   | _ \<Rightarrow> review None)))"

text \<open>The fallback approves an answer that says the opposite.\<close>

lemma fallback_approves_rejection:
  "rv_approved (parse_critic_response json str ''Rejected: this is not approved.'')"
  by (simp add: parse_critic_response_def json_block_def fallback_approved_def str_lower_def lower_char_def Let_def)

end
