(* ===== verification/PhaseLoop.thy ===== *)
theory PhaseLoop
  imports PhaseState
begin

text \<open>
  \<open>src/src/agent/phase-loop-runner.ts\<close>: running a workflow. The agents, the critic, the handlers
  of the orchestration nodes, the user and the abort signal are an environment: functions of how
  often each has been asked. Agents of a phase run at the same time in the source; each one works
  on its own state, and here they follow one another in the order of their definitions.

  This theory holds the run's state and what happens inside a phase: its agents, its critic and
  the looping phases. The main loop is in the theory PhaseRun.
\<close>

section \<open>The environment and a run\<close>

datatype agent_outcome = AgentReturn bool string "string option" | AgentTimeout | AgentThrow string
datatype critic_outcome = CriticSays string | CriticThrow string
datatype node_outcome = NodeThrow string | NodeOutput jsval "string option"

text \<open>
  A handler sees and may change the memory and the states of the orchestration nodes (the retry
  and error handling nodes do); \<open>pe_json\<close>, \<open>pe_str\<close> and \<open>pe_stringify\<close> stand for
  \<open>JSON.parse\<close>, \<open>String\<close> and \<open>JSON.stringify\<close> of a value that is not undefined.
\<close>

record pl_env =
  pe_agent :: "nat \<Rightarrow> agent_outcome"
  pe_critic :: "nat \<Rightarrow> critic_outcome"
  pe_node :: "nat \<Rightarrow> wf_node \<Rightarrow> memory \<Rightarrow> orche_state list \<Rightarrow> node_outcome \<times> memory \<times> orche_state list"
  pe_aborted :: "nat \<Rightarrow> bool"
  pe_ask_user :: "(nat \<Rightarrow> string) option"
  pe_json :: "string \<Rightarrow> jsval option"
  pe_str :: "jsval \<Rightarrow> string"
  pe_stringify :: "jsval \<Rightarrow> string"
  pe_workspace :: string
  pe_mappings :: "field_mapping list"

record wf_run =
  rn_state :: wf_state
  rn_saved :: "wf_state option"
  rn_events :: "phase_event list"
  rn_goto :: "(string, nat) jmap"
  rn_skipped :: "string list"
  rn_completed :: "string list"
  rn_agents :: nat
  rn_critics :: nat
  rn_nodes :: nat
  rn_checks :: nat
  rn_asks :: nat
  rn_board_waits :: nat

definition set_state :: "(wf_state \<Rightarrow> wf_state) \<Rightarrow> wf_run \<Rightarrow> wf_run" where
  "set_state f r = r\<lparr>rn_state := f (rn_state r)\<rparr>"

definition upsert :: "wf_run \<Rightarrow> wf_run" where
  "upsert r = r\<lparr>rn_saved := Some (rn_state r)\<rparr>"

definition emit :: "phase_event \<Rightarrow> wf_run \<Rightarrow> wf_run" where
  "emit e r = r\<lparr>rn_events := rn_events r @ [e]\<rparr>"

definition set_status :: "wf_status \<Rightarrow> wf_run \<Rightarrow> wf_run" where
  "set_status st r = set_state (\<lambda>s. s\<lparr>wf_status := st\<rparr>) r"

definition phase_at :: "wf_run \<Rightarrow> nat \<Rightarrow> phase_state" where
  "phase_at r i = wf_phases (rn_state r) ! i"

definition set_phase :: "nat \<Rightarrow> phase_state \<Rightarrow> wf_run \<Rightarrow> wf_run" where
  "set_phase i p r = set_state (\<lambda>s. s\<lparr>wf_phases := (wf_phases s)[i := p]\<rparr>) r"

definition set_phase_status :: "nat \<Rightarrow> phase_status \<Rightarrow> wf_run \<Rightarrow> wf_run" where
  "set_phase_status i st r = set_phase i ((phase_at r i)\<lparr>ph_status := st\<rparr>) r"

definition agent_at :: "wf_run \<Rightarrow> nat \<Rightarrow> nat \<Rightarrow> agent_state" where
  "agent_at r i k = ph_agents (phase_at r i) ! k"

definition set_agent :: "nat \<Rightarrow> nat \<Rightarrow> agent_state \<Rightarrow> wf_run \<Rightarrow> wf_run" where
  "set_agent i k a r = set_phase i ((phase_at r i)\<lparr>ph_agents := (ph_agents (phase_at r i))[k := a]\<rparr>) r"

fun index_of :: "('a \<Rightarrow> bool) \<Rightarrow> 'a list \<Rightarrow> nat option" where
  "index_of P [] = None"
| "index_of P (x # xs) = (if P x then Some 0 else map_option Suc (index_of P xs))"


section \<open>The agents of a phase\<close>

definition agent_slot :: "phase_state \<Rightarrow> string \<Rightarrow> nat \<Rightarrow> nat option" where
  "agent_slot p agent_id idx = (case index_of (\<lambda>a. as_agent_id a = agent_id) (ph_agents p) of
       Some k \<Rightarrow> Some k | None \<Rightarrow> if idx < length (ph_agents p) then Some idx else None)"

text \<open>One agent; \<open>Some\<close> message when the source throws.\<close>

definition run_agent :: "pl_env \<Rightarrow> nat \<Rightarrow> phase_def \<Rightarrow> agent_def \<Rightarrow> nat \<Rightarrow> wf_run \<Rightarrow> string option \<times> wf_run" where
  "run_agent env i pd ad idx r =
     (case agent_slot (phase_at r i) (ad_agent_id ad) idx of
        None \<Rightarrow> (Some ''Cannot read properties of undefined'', r)
      | Some k \<Rightarrow>
          if as_status (agent_at r i k) = AsCompleted then (None, r)
          else
            let w = wf_workflow_id (rn_state r); p = pd_phase_id pd; n = rn_agents r;
                r = set_agent i k ((agent_at r i k)\<lparr>as_status := AsRunning, as_subagent_id := None\<rparr>) r;
                r = emit (AgentStarted w p (ad_agent_id ad)) r;
                r = r\<lparr>rn_agents := Suc n\<rparr>
            in (None, upsert
                 (case pe_agent env n of
                    AgentThrow e \<Rightarrow>
                      emit (AgentFailed w p (ad_agent_id ad) e)
                        (set_agent i k ((agent_at r i k)\<lparr>as_status := AsFailed, as_error := Some e\<rparr>) r)
                  | AgentTimeout \<Rightarrow>
                      emit (AgentFailed w p (ad_agent_id ad) ''agent_failed'')
                        (set_agent i k ((agent_at r i k)\<lparr>as_subagent_id := Some n, as_status := AsFailed,
                                          as_error := Some ''agent_failed''\<rparr>) r)
                  | AgentReturn True content _ \<Rightarrow>
                      emit (AgentCompleted w p (ad_agent_id ad) (take 500 content))
                        (set_agent i k ((agent_at r i k)\<lparr>as_subagent_id := Some n, as_status := AsCompleted,
                                          as_result := Some content,
                                          as_messages := as_messages (agent_at r i k) @
                                            [\<lparr>pm_role = RoleAssistant, pm_content = content\<rparr>]\<rparr>) r)
                  | AgentReturn False _ err \<Rightarrow>
                      (let e = (case err of Some m \<Rightarrow> if m = [] then ''agent_failed'' else m | None \<Rightarrow> ''agent_failed'')
                       in emit (AgentFailed w p (ad_agent_id ad) e)
                            (set_agent i k ((agent_at r i k)\<lparr>as_subagent_id := Some n, as_status := AsFailed,
                                              as_error := Some e\<rparr>) r)))))"

fun run_agents :: "pl_env \<Rightarrow> nat \<Rightarrow> phase_def \<Rightarrow> agent_def list \<Rightarrow> nat \<Rightarrow> wf_run \<Rightarrow> string option \<times> wf_run" where
  "run_agents env i pd [] idx r = (None, r)"
| "run_agents env i pd (ad # ads) idx r =
     (case run_agent env i pd ad idx r of (Some e, r') \<Rightarrow> (Some e, r')
      | (None, r') \<Rightarrow> run_agents env i pd ads (Suc idx) r')"

definition run_phase_agents :: "pl_env \<Rightarrow> nat \<Rightarrow> phase_def \<Rightarrow> wf_run \<Rightarrow> string option \<times> wf_run" where
  "run_phase_agents env i pd r =
     (if pe_workspace env = [] then (Some ''workspace is required for phase agent execution'', r)
      else run_agents env i pd (pd_agents pd) 0 r)"


section \<open>The critic\<close>

definition run_critic :: "pl_env \<Rightarrow> nat \<Rightarrow> phase_def \<Rightarrow> critic_def \<Rightarrow> wf_run \<Rightarrow> critic_review \<times> wf_run" where
  "run_critic env i pd cd r =
     (let w = wf_workflow_id (rn_state r); p = pd_phase_id pd; n = rn_critics r;
          c = (case ph_critic (phase_at r i) of Some c \<Rightarrow> c | None \<Rightarrow> initial_critic p cd);
          put = (\<lambda>c r. set_phase i ((phase_at r i)\<lparr>ph_critic := Some c\<rparr>) r);
          c = c\<lparr>cs_status := CsRunning\<rparr>;
          r = (emit (CriticStarted w p) (put c r))\<lparr>rn_critics := Suc n\<rparr>
      in case pe_critic env n of
           CriticThrow e \<Rightarrow>
             (\<lparr>rv_approved = True, rv_summary = ''Critic failed: '' @ e, rv_agent_reviews = None\<rparr>,
              put (c\<lparr>cs_status := CsFailed\<rparr>) r)
         | CriticSays content \<Rightarrow>
             (let rv = parse_critic_response (pe_json env) (pe_str env) content
              in (rv, emit (CriticCompleted w p (rv_approved rv) (take 500 (rv_summary rv)))
                   (put (c\<lparr>cs_status := CsCompleted, cs_approved := Some (rv_approved rv),
                           cs_review := Some (rv_summary rv),
                           cs_messages := cs_messages c @ [\<lparr>pm_role = RoleAssistant, pm_content = content\<rparr>]\<rparr>) r))))"


section \<open>Looping phases\<close>

record loop_config =
  lc_done_token :: string
  lc_default_max :: int
  lc_interactive :: bool

definition interactive_config :: loop_config where
  "interactive_config = \<lparr>lc_done_token = ''[SPEC_COMPLETE]'', lc_default_max = 20, lc_interactive = True\<rparr>"

definition sequential_loop_config :: loop_config where
  "sequential_loop_config = \<lparr>lc_done_token = ''[DONE]'', lc_default_max = 50, lc_interactive = False\<rparr>"

fun drop_first :: "string \<Rightarrow> string \<Rightarrow> string" where
  "drop_first t [] = []"
| "drop_first t (c # s) = (if starts_with t (c # s) then drop (length t) (c # s) else c # drop_first t s)"

text \<open>\<open>replace(/\\[ASK_USER\\]/g, "")\<close>.\<close>

function drop_all :: "string \<Rightarrow> string \<Rightarrow> string" where
  "drop_all t s = (if s = [] then [] else if t \<noteq> [] \<and> starts_with t s then drop_all t (drop (length t) s)
     else hd s # drop_all t (tl s))"
  by pat_completeness auto
termination by (relation "measure (\<lambda>(t, s). length s)") auto

declare drop_all.simps [simp del]

definition ask_token :: string where
  "ask_token = ''[ASK_USER]''"

fun digits_of :: "nat \<Rightarrow> nat \<Rightarrow> string" where
  "digits_of 0 n = []"
| "digits_of (Suc k) n = (if n < 10 then [char_of (48 + n)] else digits_of k (n div 10) @ [char_of (48 + n mod 10)])"

definition nat_string :: "nat \<Rightarrow> string" where
  "nat_string n = digits_of (Suc n) n"

definition format_ask_entry :: "loop_config \<Rightarrow> nat \<Rightarrow> string \<Rightarrow> string \<Rightarrow> string" where
  "format_ask_entry cfg i content response =
     (if lc_interactive cfg
      then ''Agent: '' @ str_trim (drop_all ask_token content) @ [CHR 0x0A] @ ''User: '' @ response
      else ''[Iteration '' @ nat_string i @ '']'' @ [CHR 0x0A] @ content @ [CHR 0x0A, CHR 0x0A] @ ''User: '' @ response)"

definition loop_results :: "wf_run \<Rightarrow> nat \<Rightarrow> string list" where
  "loop_results r i = (case ph_loop_results (phase_at r i) of Some l \<Rightarrow> l | None \<Rightarrow> [])"

text \<open>The question to the user, and the run with the answer.\<close>

definition ask_round :: "nat \<Rightarrow> phase_def \<Rightarrow> (nat \<Rightarrow> string) \<Rightarrow> string \<Rightarrow> wf_run \<Rightarrow> string \<times> wf_run" where
  "ask_round i pd ask question r =
     (let w = wf_workflow_id (rn_state r); p = pd_phase_id pd;
          r = set_status WfWaitingUserInput r;
          r = set_phase i ((phase_at r i)\<lparr>ph_pending_user_input := Some True\<rparr>) r;
          r = emit (UserInputRequested w p question) (upsert r);
          response = ask (rn_asks r);
          r = set_status WfRunning (r\<lparr>rn_asks := Suc (rn_asks r)\<rparr>);
          r = set_phase i ((phase_at r i)\<lparr>ph_pending_user_input := Some False\<rparr>) r
      in (response, emit (UserInputReceived w p) r))"

definition push_loop_result :: "nat \<Rightarrow> string \<Rightarrow> wf_run \<Rightarrow> wf_run" where
  "push_loop_result i x r = set_phase i ((phase_at r i)\<lparr>ph_loop_results := Some (loop_results r i @ [x])\<rparr>) r"

text \<open>An answer without the token that ends the loop.\<close>

definition loop_continue :: "pl_env \<Rightarrow> nat \<Rightarrow> phase_def \<Rightarrow> loop_config \<Rightarrow> nat \<Rightarrow> string \<Rightarrow> wf_run \<Rightarrow> wf_run" where
  "loop_continue env i pd cfg iter content r =
     (let r = (case (str_includes ask_token content, pe_ask_user env) of
             (True, Some ask) \<Rightarrow>
               (case ask_round i pd ask (str_trim (drop_all ask_token content)) r of
                  (response, r) \<Rightarrow> push_loop_result i (format_ask_entry cfg (Suc iter) content response) r)
           | _ \<Rightarrow> push_loop_result i content r);
          r = set_phase i ((phase_at r i)\<lparr>ph_loop_iteration := Some (Suc iter)\<rparr>) r
      in upsert (emit (LoopIteration (wf_workflow_id (rn_state r)) (pd_phase_id pd) (Suc iter)) r))"

definition loop_answer :: "pl_env \<Rightarrow> nat \<Rightarrow> phase_def \<Rightarrow> agent_def \<Rightarrow> loop_config \<Rightarrow> nat \<Rightarrow> string \<Rightarrow> wf_run \<Rightarrow> bool \<times> wf_run" where
  "loop_answer env i pd ad cfg iter content r =
     (if str_includes (lc_done_token cfg) content
      then let res = str_trim (drop_first (lc_done_token cfg) content)
           in (False, emit (AgentCompleted (wf_workflow_id (rn_state r)) (pd_phase_id pd) (ad_agent_id ad) (take 500 res))
                (set_agent i 0 ((agent_at r i 0)\<lparr>as_result := Some res, as_status := AsCompleted\<rparr>) r))
      else (True, loop_continue env i pd cfg iter content r))"

text \<open>One iteration: an error message, or whether the loop goes on.\<close>

definition loop_iteration :: "pl_env \<Rightarrow> nat \<Rightarrow> phase_def \<Rightarrow> loop_config \<Rightarrow> nat \<Rightarrow> wf_run \<Rightarrow> (string + bool) \<times> wf_run" where
  "loop_iteration env i pd cfg iter r =
     (let chk = rn_checks r; r = r\<lparr>rn_checks := Suc chk\<rparr>
      in if pe_aborted env chk then (Inr False, r)
         else case pd_agents pd of [] \<Rightarrow> (Inl ''Cannot read properties of undefined'', r)
         | ad # _ \<Rightarrow>
           if ph_agents (phase_at r i) = [] then (Inl ''Cannot set properties of undefined'', r)
           else
             let n = rn_agents r;
                 r = set_agent i 0 ((agent_at r i 0)\<lparr>as_status := AsRunning\<rparr>) r;
                 r = emit (AgentStarted (wf_workflow_id (rn_state r)) (pd_phase_id pd) (ad_agent_id ad)) r;
                 r = r\<lparr>rn_agents := Suc n\<rparr>
             in case pe_agent env n of
                  AgentThrow e \<Rightarrow> (Inl e, r)
                | oc \<Rightarrow>
                  let content = (case oc of AgentReturn _ c _ \<Rightarrow> c | _ \<Rightarrow> []);
                      r = set_agent i 0 ((agent_at r i 0)\<lparr>as_subagent_id := Some n,
                            as_messages := as_messages (agent_at r i 0) @ [\<lparr>pm_role = RoleAssistant, pm_content = content\<rparr>]\<rparr>) r
                  in case loop_answer env i pd ad cfg iter content r of (go, r) \<Rightarrow> (Inr go, r))"

fun loop_iterations :: "pl_env \<Rightarrow> nat \<Rightarrow> phase_def \<Rightarrow> loop_config \<Rightarrow> nat \<Rightarrow> nat \<Rightarrow> wf_run \<Rightarrow> string option \<times> wf_run" where
  "loop_iterations env i pd cfg 0 iter r = (None, r)"
| "loop_iterations env i pd cfg (Suc left) iter r =
     (case loop_iteration env i pd cfg iter r of
        (Inl e, r') \<Rightarrow> (Some e, r')
      | (Inr False, r') \<Rightarrow> (None, r')
      | (Inr True, r') \<Rightarrow> loop_iterations env i pd cfg left (Suc iter) r')"

definition run_looping_phase :: "pl_env \<Rightarrow> nat \<Rightarrow> phase_def \<Rightarrow> loop_config \<Rightarrow> wf_run \<Rightarrow> string option \<times> wf_run" where
  "run_looping_phase env i pd cfg r =
     (let mx = (case pd_max_loop_iterations pd of Some n \<Rightarrow> if n = 0 then lc_default_max cfg else n | None \<Rightarrow> lc_default_max cfg);
          r = set_phase i ((phase_at r i)\<lparr>ph_loop_results := Some [], ph_loop_iteration := Some 0\<rparr>) r
      in case loop_iterations env i pd cfg (nat mx) 0 r of
           (Some e, r') \<Rightarrow> (Some e, r')
         | (None, r') \<Rightarrow>
             if ph_agents (phase_at r' i) = [] then (Some ''Cannot read properties of undefined'', r')
             else if as_status (agent_at r' i 0) = AsCompleted then (None, r')
             else (None, set_agent i 0 ((agent_at r' i 0)\<lparr>
                    as_result := Some (if loop_results r' i = [] then [] else last (loop_results r' i)),
                    as_status := AsCompleted\<rparr>) r'))"

definition finalize_phase :: "nat \<Rightarrow> phase_def \<Rightarrow> wf_run \<Rightarrow> wf_run" where
  "finalize_phase i pd r =
     (let r = set_phase_status i PsCompleted r;
          r = set_state (\<lambda>s. s\<lparr>wf_memory := jset (ph_phase_id (phase_at r i)) (merge_phase_results (phase_at r i)) (wf_memory s)\<rparr>) r
      in emit (PhaseCompleted (wf_workflow_id (rn_state r)) (pd_phase_id pd)) (upsert r))"

end
