(* ===== verification/PhaseRun.thy ===== *)
theory PhaseRun
  imports PhaseLoop
begin

text \<open>
  The main loop of \<open>src/src/agent/phase-loop-runner.ts\<close> (\<open>run_phase_loop\<close>). A step handles the
  node at an index and goes on with an index, leaves the loop, returns from the function, or
  throws; \<open>run_nodes\<close> iterates it and is a partial function, so that its ending is a theorem.
\<close>

section \<open>Orchestration nodes\<close>

datatype step_result = Next nat wf_run | Leave wf_run | Return wf_run | Throw string wf_run

definition add_all :: "string list \<Rightarrow> string list \<Rightarrow> string list" where
  "add_all xs S = fold (\<lambda>x S. if x \<in> set S then S else S @ [x]) xs S"

text \<open>The nodes a branch leaves out.\<close>

definition branch_skips :: "wf_node \<Rightarrow> string option \<Rightarrow> string list" where
  "branch_skips n branch = (case branch of None \<Rightarrow> [] | Some br \<Rightarrow>
     if br = [] then []
     else case wn_body n of
       IfBody true_branch false_branch \<Rightarrow> if br = ''true'' then false_branch else true_branch
     | SwitchBody cases default_targets \<Rightarrow>
         (let dflt = (case default_targets of Some ts \<Rightarrow> ts | None \<Rightarrow> []);
              active = (case find (\<lambda>c. sw_value c = br) cases of Some c \<Rightarrow> sw_targets c | None \<Rightarrow> dflt);
              every = add_all dflt (add_all (concat (map sw_targets cases)) [])
          in filter (\<lambda>t. t \<notin> set active) every)
     | _ \<Rightarrow> [])"

definition orche_at :: "wf_run \<Rightarrow> string \<Rightarrow> nat option" where
  "orche_at r k = index_of (\<lambda>s. os_node_id s = k) (wf_orche_states (rn_state r))"

definition set_orche :: "nat option \<Rightarrow> (orche_state \<Rightarrow> orche_state) \<Rightarrow> wf_run \<Rightarrow> wf_run" where
  "set_orche k f r = (case k of None \<Rightarrow> r
     | Some j \<Rightarrow> set_state (\<lambda>s. s\<lparr>wf_orche_states := (wf_orche_states s)[j := f (wf_orche_states s ! j)]\<rparr>) r)"

definition orche_settled :: "wf_run \<Rightarrow> nat option \<Rightarrow> bool" where
  "orche_settled r k = (case k of None \<Rightarrow> False
     | Some j \<Rightarrow> os_status (wf_orche_states (rn_state r) ! j) \<in> {OsCompleted, OsSkipped})"

definition set_memory :: "string \<Rightarrow> jsval \<Rightarrow> wf_run \<Rightarrow> wf_run" where
  "set_memory k v r = set_state (\<lambda>s. s\<lparr>wf_memory := jset k v (wf_memory s)\<rparr>) r"

definition pending_board :: string where
  "pending_board = ''__pending_kanban_trigger''"

definition js_opt :: "('a \<Rightarrow> jsval) \<Rightarrow> 'a option \<Rightarrow> jsval" where
  "js_opt f x = (case x of Some v \<Rightarrow> f v | None \<Rightarrow> JUndef)"

definition board_meta :: "wf_node \<Rightarrow> jsval option" where
  "board_meta n = (case wn_body n of
       KanbanTriggerBody board actions column \<Rightarrow>
         Some (JObj [(''node_id'', JStr (wn_id n)), (''board_id'', JStr board),
                     (''actions'', js_opt (\<lambda>l. JArr (map JStr l)) actions), (''column_id'', js_opt JStr column)])
     | _ \<Rightarrow> None)"

definition is_waiting :: "jsval \<Rightarrow> bool" where
  "is_waiting out = (case out of JObj m \<Rightarrow> js_get out ''waiting'' = JBool True | _ \<Rightarrow> False)"

definition orche_waits :: "wf_node \<Rightarrow> nat option \<Rightarrow> jsval \<Rightarrow> wf_run \<Rightarrow> wf_run" where
  "orche_waits n k out r =
     (let r = set_orche k (\<lambda>s. s\<lparr>os_status := OsPending, os_result := Some out\<rparr>) r;
          r = (case board_meta n of Some m \<Rightarrow> set_memory pending_board m r | None \<Rightarrow> r);
          r = upsert (set_status WfWaitingUserInput r);
          r = emit (NodeWaiting (wf_workflow_id (rn_state r)) (wn_id n) (node_type_of n) ''trigger_timeout'') r
      in if js_truthy (memory_at (wf_memory (rn_state r)) pending_board)
         then r\<lparr>rn_board_waits := Suc (rn_board_waits r)\<rparr> else r)"

definition orche_fails :: "nat option \<Rightarrow> string \<Rightarrow> wf_run \<Rightarrow> wf_run" where
  "orche_fails k e r = upsert (set_status WfFailed (set_orche k (\<lambda>s. s\<lparr>os_status := OsFailed, os_error := Some e\<rparr>) r))"

definition orche_done :: "pl_env \<Rightarrow> nat \<Rightarrow> wf_node \<Rightarrow> nat option \<Rightarrow> jsval \<Rightarrow> wf_run \<Rightarrow> step_result" where
  "orche_done env idx n k out r =
     (let r = set_orche k (\<lambda>s. s\<lparr>os_status := OsCompleted, os_result := Some out\<rparr>) r
      in if out = JUndef then Leave (orche_fails k ''Cannot read properties of undefined'' r)
         else let preview = take 200 (case out of JStr s \<Rightarrow> s | _ \<Rightarrow> pe_stringify env out)
              in Next (Suc idx) (upsert (emit (NodeCompleted (wf_workflow_id (rn_state r)) (wn_id n) (node_type_of n) preview) r)))"

definition call_handler :: "pl_env \<Rightarrow> wf_node \<Rightarrow> wf_run \<Rightarrow> node_outcome \<times> wf_run" where
  "call_handler env n r =
     (case pe_node env (rn_nodes r) n (wf_memory (rn_state r)) (wf_orche_states (rn_state r)) of
        (out, mem, oss) \<Rightarrow>
          (out, set_state (\<lambda>s. s\<lparr>wf_memory := mem, wf_orche_states := oss\<rparr>) (r\<lparr>rn_nodes := Suc (rn_nodes r)\<rparr>)))"

definition orche_step :: "pl_env \<Rightarrow> nat \<Rightarrow> wf_node \<Rightarrow> wf_run \<Rightarrow> step_result" where
  "orche_step env idx n r =
     (let k = orche_at r (wn_id n)
      in if orche_settled r k then Next (Suc idx) r
         else
           let r = set_orche k (\<lambda>s. s\<lparr>os_status := OsRunning\<rparr>) r;
               r = emit (NodeStarted (wf_workflow_id (rn_state r)) (wn_id n) (node_type_of n)) r
           in case call_handler env n r of
                (NodeThrow e, r) \<Rightarrow> Leave (orche_fails k e r)
              | (NodeOutput out branch, r) \<Rightarrow>
                  (let r = set_memory (wn_id n) out r;
                       r = set_state (\<lambda>s. s\<lparr>wf_memory := apply_field_mappings (wf_memory s) (wn_id n) out (pe_mappings env)\<rparr>) r;
                       r = r\<lparr>rn_skipped := add_all (branch_skips n branch) (rn_skipped r)\<rparr>
                   in if is_waiting out then Leave (orche_waits n k out r) else orche_done env idx n k out r))"


section \<open>The critic's gate\<close>

datatype critic_exit = CxPassed wf_run | CxGoto nat wf_run | CxReturn wf_run | CxThrow string wf_run | CxAgain wf_run

definition critic_retries :: "critic_def \<Rightarrow> int" where
  "critic_retries cd = (case cd_max_retries cd of Some m \<Rightarrow> m | None \<Rightarrow> 1)"

definition goto_key :: "string \<Rightarrow> string \<Rightarrow> string" where
  "goto_key from_phase to_phase = from_phase @ ''->'' @ to_phase"

definition goto_count :: "wf_run \<Rightarrow> string \<Rightarrow> nat" where
  "goto_count r k = (case jget (rn_goto r) k of Some c \<Rightarrow> c | None \<Rightarrow> 0)"

definition escalate :: "wf_run \<Rightarrow> critic_exit" where
  "escalate r = CxReturn (upsert (set_status WfWaitingUserInput r))"

definition reset_phases :: "nat \<Rightarrow> nat \<Rightarrow> wf_run \<Rightarrow> wf_run" where
  "reset_phases a b r = fold (\<lambda>j r. set_phase j (reset_phase_state (phase_at r j)) r) [a..<Suc b] r"

definition goto_index :: "wf_node list \<Rightarrow> string \<Rightarrow> nat \<Rightarrow> nat" where
  "goto_index nodes target idx = (case index_of (\<lambda>n. wn_id n = target) nodes of Some j \<Rightarrow> j
     | None \<Rightarrow> (case index_of (\<lambda>n. \<not> is_orche_node n \<and> wn_id n = target) nodes of Some j \<Rightarrow> j | None \<Rightarrow> idx))"

definition critic_goto :: "wf_node list \<Rightarrow> phase_def list \<Rightarrow> nat \<Rightarrow> nat \<Rightarrow> phase_def \<Rightarrow> critic_def \<Rightarrow> string
    \<Rightarrow> critic_review \<Rightarrow> wf_run \<Rightarrow> critic_exit" where
  "critic_goto nodes pds idx i pd cd target rv r =
     (let key = goto_key (pd_phase_id pd) target; count = Suc (goto_count r key);
          r = r\<lparr>rn_goto := jset key count (rn_goto r)\<rparr>
      in if critic_retries cd < int count then escalate r
         else case index_of (\<lambda>p. pd_phase_id p = target) pds of
                None \<Rightarrow> CxPassed r
              | Some t \<Rightarrow>
                  (let r = emit (PhaseGoto (wf_workflow_id (rn_state r)) (pd_phase_id pd) target (take 200 (rv_summary rv))) r
                   in CxGoto (goto_index nodes target idx) (reset_phases t i r)))"

definition reset_agents :: "(agent_state \<Rightarrow> bool) \<Rightarrow> nat \<Rightarrow> wf_run \<Rightarrow> wf_run" where
  "reset_agents P i r = set_phase i ((phase_at r i)\<lparr>ph_agents :=
     map (\<lambda>a. if P a then reset_agent a else a) (ph_agents (phase_at r i))\<rparr>) r"

definition rerun_agents :: "pl_env \<Rightarrow> nat \<Rightarrow> phase_def \<Rightarrow> wf_run \<Rightarrow> critic_exit" where
  "rerun_agents env i pd r = (case run_phase_agents env i pd r of (Some e, r) \<Rightarrow> CxThrow e r | (None, r) \<Rightarrow> CxAgain r)"

definition targeted :: "critic_review \<Rightarrow> agent_state \<Rightarrow> bool" where
  "targeted rv a =
     (let low = (case rv_agent_reviews rv of Some l \<Rightarrow> map av_agent_id (filter (\<lambda>v. av_quality v \<noteq> QGood) l) | None \<Rightarrow> [])
      in if low \<noteq> [] then as_agent_id a \<in> set low else as_status a = AsFailed \<or> as_result a = None)"

definition critic_retry_targeted :: "pl_env \<Rightarrow> nat \<Rightarrow> phase_def \<Rightarrow> critic_review \<Rightarrow> wf_run \<Rightarrow> critic_exit" where
  "critic_retry_targeted env i pd rv r =
     (let r = set_phase_status i PsRunning r;
          again = filter (targeted rv) (ph_agents (phase_at r i));
          defs = filter (\<lambda>d. list_ex (\<lambda>a. as_agent_id a = ad_agent_id d) again) (pd_agents pd)
      in if defs = [] then CxPassed r
         else rerun_agents env i (pd\<lparr>pd_agents := defs\<rparr>) (upsert (reset_agents (targeted rv) i r)))"

definition critic_retry_all :: "pl_env \<Rightarrow> nat \<Rightarrow> phase_def \<Rightarrow> wf_run \<Rightarrow> critic_exit" where
  "critic_retry_all env i pd r =
     rerun_agents env i pd (upsert (reset_agents (\<lambda>a. True) i (set_phase_status i PsRunning r)))"

text \<open>One turn of the critic's loop.\<close>

definition critic_round :: "pl_env \<Rightarrow> wf_node list \<Rightarrow> phase_def list \<Rightarrow> nat \<Rightarrow> nat \<Rightarrow> phase_def \<Rightarrow> critic_def
    \<Rightarrow> nat \<Rightarrow> wf_run \<Rightarrow> critic_exit" where
  "critic_round env nodes pds idx i pd cd retries r =
     (case run_critic env i pd cd (upsert (set_phase_status i PsReviewing r)) of (rv, r) \<Rightarrow>
        if rv_approved rv \<or> \<not> cd_gate cd then CxPassed r
        else
          let policy = (case cd_on_rejection cd of Some p \<Rightarrow> p | None \<Rightarrow> Escalate);
              target = (case cd_goto_phase cd of Some t \<Rightarrow> t | None \<Rightarrow> [])
          in if policy = Goto \<and> target \<noteq> [] then critic_goto nodes pds idx i pd cd target rv r
             else if policy = Escalate \<or> critic_retries cd < int (Suc retries) then escalate r
             else case policy of
                    RetryAll \<Rightarrow> critic_retry_all env i pd r
                  | RetryTargeted \<Rightarrow> critic_retry_targeted env i pd rv r
                  | _ \<Rightarrow> CxAgain r)"

lemma critic_round_again:
  "critic_round env nodes pds idx i pd cd retries r = CxAgain r' \<Longrightarrow> int (Suc retries) \<le> critic_retries cd"
  by (auto simp: critic_round_def critic_goto_def escalate_def Let_def split: prod.splits if_splits option.splits)

function critic_loop :: "pl_env \<Rightarrow> wf_node list \<Rightarrow> phase_def list \<Rightarrow> nat \<Rightarrow> nat \<Rightarrow> phase_def \<Rightarrow> critic_def
    \<Rightarrow> nat \<Rightarrow> wf_run \<Rightarrow> critic_exit" where
  "critic_loop env nodes pds idx i pd cd retries r =
     (case critic_round env nodes pds idx i pd cd retries r of
        CxAgain r' \<Rightarrow> critic_loop env nodes pds idx i pd cd (Suc retries) r'
      | x \<Rightarrow> x)"
  by pat_completeness auto
termination
  by (relation "measure (\<lambda>(env, nodes, pds, idx, i, pd, cd, retries, r). nat (critic_retries cd - int retries))")
     (auto dest!: critic_round_again)

declare critic_loop.simps [simp del]


section \<open>Phase nodes\<close>

text \<open>The results the failure policy counts: the state of the agent of each definition.\<close>

definition agent_results :: "wf_run \<Rightarrow> nat \<Rightarrow> phase_def \<Rightarrow> agent_state list" where
  "agent_results r i pd = map (\<lambda>(ad, k). case agent_slot (phase_at r i) (ad_agent_id ad) k of
       Some j \<Rightarrow> agent_at r i j | None \<Rightarrow> agent_at r i k) (zip (pd_agents pd) [0..<length (pd_agents pd)])"

definition policy_fails :: "phase_def \<Rightarrow> agent_state list \<Rightarrow> bool" where
  "policy_fails pd results =
     (let failed = length (filter (\<lambda>a. as_status a = AsFailed) results); ok = length results - failed
      in case pd_failure_policy pd of
           Some FailFast \<Rightarrow> 0 < failed
         | Some Quorum \<Rightarrow> int ok < (case pd_quorum_count pd of Some q \<Rightarrow> q | None \<Rightarrow> 1)
         | _ \<Rightarrow> False)"

definition critic_part :: "pl_env \<Rightarrow> wf_node list \<Rightarrow> phase_def list \<Rightarrow> nat \<Rightarrow> nat \<Rightarrow> phase_def \<Rightarrow> wf_run \<Rightarrow> step_result" where
  "critic_part env nodes pds idx i pd r =
     (case (case pd_critic pd of None \<Rightarrow> CxPassed r | Some cd \<Rightarrow> critic_loop env nodes pds idx i pd cd 0 r) of
        CxPassed r \<Rightarrow> Next (Suc idx) (finalize_phase i pd r)
      | CxGoto j r \<Rightarrow> Next j r
      | CxReturn r \<Rightarrow> Return r
      | CxThrow e r \<Rightarrow> Throw e r
      | CxAgain r \<Rightarrow> Next idx r)"

definition judge_agents :: "pl_env \<Rightarrow> wf_node list \<Rightarrow> phase_def list \<Rightarrow> nat \<Rightarrow> nat \<Rightarrow> phase_def
    \<Rightarrow> agent_state list \<Rightarrow> wf_run \<Rightarrow> step_result" where
  "judge_agents env nodes pds idx i pd results r =
     (if policy_fails pd results then Leave (upsert (set_status WfFailed (set_phase_status i PsFailed r)))
      else critic_part env nodes pds idx i pd r)"

definition phase_execute :: "pl_env \<Rightarrow> wf_node list \<Rightarrow> phase_def list \<Rightarrow> nat \<Rightarrow> nat \<Rightarrow> phase_def \<Rightarrow> wf_run \<Rightarrow> step_result" where
  "phase_execute env nodes pds idx i pd r =
     (case pd_mode pd of
        Some ModeInteractive \<Rightarrow>
          (case run_looping_phase env i pd interactive_config r of
             (Some e, r) \<Rightarrow> Throw e r | (None, r) \<Rightarrow> Next (Suc idx) (finalize_phase i pd r))
      | Some ModeSequentialLoop \<Rightarrow>
          (case run_looping_phase env i pd sequential_loop_config r of
             (Some e, r) \<Rightarrow> Throw e r
           | (None, r) \<Rightarrow> judge_agents env nodes pds idx i pd (ph_agents (phase_at r i)) r)
      | _ \<Rightarrow>
          (case run_phase_agents env i pd r of
             (Some e, r) \<Rightarrow> Throw e r
           | (None, r) \<Rightarrow> judge_agents env nodes pds idx i pd (agent_results r i pd) r))"

text \<open>A phase or a trigger node; a trigger node has no agents to run.\<close>

definition phase_step :: "pl_env \<Rightarrow> wf_node list \<Rightarrow> phase_def list \<Rightarrow> bool \<Rightarrow> nat \<Rightarrow> wf_node \<Rightarrow> wf_run \<Rightarrow> step_result" where
  "phase_step env nodes pds resume idx n r =
     (case index_of (\<lambda>p. ph_phase_id p = wn_id n) (wf_phases (rn_state r)) of
        None \<Rightarrow> Next (Suc idx) r
      | Some i \<Rightarrow>
          let r = set_state (\<lambda>s. s\<lparr>wf_current_phase := i\<rparr>) r
          in if ph_status (phase_at r i) = PsCompleted then Next (Suc idx) r
             else if resume \<and> ph_agents (phase_at r i) \<noteq> [] \<and> list_all (\<lambda>a. as_status a = AsCompleted) (ph_agents (phase_at r i))
             then Next (Suc idx) (upsert (set_phase_status i PsCompleted r))
             else
               let r = emit (PhaseStarted (wf_workflow_id (rn_state r)) (wn_id n)) (upsert (set_phase_status i PsRunning r))
               in case wn_body n of
                    PhaseBody b \<Rightarrow> phase_execute env nodes pds idx i (node_to_phase n b) r
                  | _ \<Rightarrow> Throw ''phase_def.agents is not iterable'' r)"


section \<open>The main loop\<close>

definition dep_unmet :: "wf_run \<Rightarrow> string \<Rightarrow> bool" where
  "dep_unmet r d =
     (if d \<in> set (rn_skipped r) then False
      else case index_of (\<lambda>p. ph_phase_id p = d) (wf_phases (rn_state r)) of
             Some i \<Rightarrow> ph_status (phase_at r i) \<noteq> PsCompleted
           | None \<Rightarrow> \<not> orche_settled r (orche_at r d))"

definition skip_inactive :: "wf_node \<Rightarrow> wf_run \<Rightarrow> wf_run" where
  "skip_inactive n r = (if is_orche_node n
     then emit (NodeSkipped (wf_workflow_id (rn_state r)) (wn_id n) ''if_branch_inactive'')
            (set_orche (orche_at r (wn_id n)) (\<lambda>s. s\<lparr>os_status := OsSkipped\<rparr>) r)
     else r)"

definition node_step :: "pl_env \<Rightarrow> wf_node list \<Rightarrow> phase_def list \<Rightarrow> bool \<Rightarrow> nat \<Rightarrow> wf_run \<Rightarrow> step_result" where
  "node_step env nodes pds resume idx r =
     (let chk = rn_checks r; r = r\<lparr>rn_checks := Suc chk\<rparr>; n = nodes ! idx
      in if pe_aborted env chk then Leave (set_status WfCancelled r)
         else if wn_id n \<in> set (rn_completed r)
         then Next (Suc idx) (emit (NodeSkipped (wf_workflow_id (rn_state r)) (wn_id n) ''already_completed'') r)
         else if wn_id n \<in> set (rn_skipped r) then Next (Suc idx) (skip_inactive n r)
         else if list_ex (dep_unmet r) (depends_list n) then Next (Suc idx) r
         else if is_orche_node n then orche_step env idx n r
         else phase_step env nodes pds resume idx n r)"

partial_function (option) run_nodes :: "pl_env \<Rightarrow> wf_node list \<Rightarrow> phase_def list \<Rightarrow> bool \<Rightarrow> nat \<Rightarrow> wf_run \<Rightarrow> step_result option" where
  "run_nodes env nodes pds resume idx r =
     (if idx < length nodes
      then case node_step env nodes pds resume idx r of
             Next j r' \<Rightarrow> run_nodes env nodes pds resume j r'
           | x \<Rightarrow> Some x
      else Some (Leave r))"

record pl_options =
  po_workflow_id :: string
  po_title :: string
  po_objective :: string
  po_channel :: string
  po_chat_id :: string
  po_nodes :: "wf_node list option"
  po_phases :: "phase_def list option"
  po_initial_memory :: memory
  po_resume :: "wf_state option"

definition initial_state :: "pl_options \<Rightarrow> wf_node list \<Rightarrow> phase_def list \<Rightarrow> wf_state" where
  "initial_state opts nodes pds =
     \<lparr>wf_workflow_id = po_workflow_id opts, wf_title = po_title opts, wf_objective = po_objective opts,
      wf_channel = po_channel opts, wf_chat_id = po_chat_id opts, wf_status = WfRunning, wf_current_phase = 0,
      wf_phases = map build_initial_phase_state pds,
      wf_orche_states = map (\<lambda>n. \<lparr>os_node_id = wn_id n, os_node_type = node_type_of n, os_status = OsPending,
                                   os_result = None, os_error = None\<rparr>) (filter is_orche_node nodes),
      wf_memory = po_initial_memory opts\<rparr>"

definition completed_ids :: "wf_state \<Rightarrow> string list" where
  "completed_ids s =
     add_all (map ph_phase_id (filter (\<lambda>p. ph_status p = PsCompleted) (wf_phases s)))
       (add_all (map os_node_id (filter (\<lambda>x. os_status x \<in> {OsCompleted, OsSkipped}) (wf_orche_states s))) [])"

definition start_run :: "pl_options \<Rightarrow> wf_node list \<Rightarrow> phase_def list \<Rightarrow> wf_run" where
  "start_run opts nodes pds =
     (let s = (case po_resume opts of Some s \<Rightarrow> s\<lparr>wf_status := WfRunning\<rparr> | None \<Rightarrow> initial_state opts nodes pds)
      in emit (WorkflowStarted (wf_workflow_id s)) (upsert
           \<lparr>rn_state = s, rn_saved = None, rn_events = [], rn_goto = [], rn_skipped = [],
            rn_completed = (if po_resume opts \<noteq> None then completed_ids s else []),
            rn_agents = 0, rn_critics = 0, rn_nodes = 0, rn_checks = 0, rn_asks = 0, rn_board_waits = 0\<rparr>))"

text \<open>What follows the loop, and the \<open>catch\<close> around it: the run and the error of the result.\<close>

definition finish_run :: "step_result \<Rightarrow> wf_run \<times> string option" where
  "finish_run x = (case x of
       Leave r \<Rightarrow>
         (if wf_status (rn_state r) = WfRunning
          then emit (WorkflowCompleted (wf_workflow_id (rn_state r))) (upsert (set_status WfCompleted r))
          else r, None)
     | Return r \<Rightarrow> (r, None)
     | Throw e r \<Rightarrow> (emit (WorkflowFailed (wf_workflow_id (rn_state r)) e) (upsert (set_status WfFailed r)), Some e)
     | Next _ r \<Rightarrow> (r, None))"

definition run_phase_loop :: "pl_env \<Rightarrow> pl_options \<Rightarrow> (wf_run \<times> string option) option" where
  "run_phase_loop env opts =
     (case normalize_workflow (po_nodes opts) (po_phases opts) of (nodes, pds) \<Rightarrow>
        map_option finish_run (run_nodes env nodes pds (po_resume opts \<noteq> None) 0 (start_run opts nodes pds)))"

end
