(* ===== verification/PhaseFrames.thy ===== *)
theory PhaseFrames
  imports PhaseRun
begin

text \<open>
  What the parts of a workflow run leave alone. \<open>phase_frame i\<close> relates two states of a run
  between which only phase \<open>i\<close> may have changed: the ids, the other phases and the orchestration
  nodes stay, the skipped nodes stay, goto counters never go down, and a live run stays live.
  Every operation inside a phase has its frame lemma, in the collection \<open>frames\<close>.
\<close>

named_theorems frames \<open>frame lemmas of the operations inside a phase\<close>

section \<open>Positions\<close>

lemma index_of_Some:
  "index_of P xs = Some k \<longleftrightarrow> k < length xs \<and> P (xs ! k) \<and> (\<forall>j < k. \<not> P (xs ! j))"
proof (induction xs arbitrary: k)
  case (Cons x xs)
  show ?case
  proof (cases k)
    case 0
    then show ?thesis by auto
  next
    case (Suc k')
    then show ?thesis using Cons.IH[of k'] by (auto simp: All_less_Suc2)
  qed
qed simp

lemma index_of_None: "index_of P xs = None \<longleftrightarrow> (\<forall>x \<in> set xs. \<not> P x)"
  by (induction xs) auto

lemma index_of_map: "index_of (\<lambda>x. f x = c) xs = index_of (\<lambda>y. y = c) (map f xs)"
  by (induction xs) auto

lemma index_of_distinct:
  assumes "distinct (map f xs)" and "k < length xs" and "f (xs ! k) = c"
  shows "index_of (\<lambda>x. f x = c) xs = Some k"
  unfolding index_of_Some
proof (intro conjI allI impI)
  fix j assume "j < k"
  then show "f (xs ! j) \<noteq> c" using assms nth_eq_iff_index_eq[OF assms(1), of j k] by auto
qed (use assms in simp_all)


section \<open>Frames\<close>

definition saved_live :: "wf_run \<Rightarrow> bool" where
  "saved_live r \<longleftrightarrow> (\<forall>s. rn_saved r = Some s \<longrightarrow> wf_status s \<noteq> WfCancelled)"

definition run_live :: "wf_run \<Rightarrow> bool" where
  "run_live r \<longleftrightarrow> wf_status (rn_state r) = WfRunning \<and> saved_live r"

abbreviation phase_ids :: "wf_run \<Rightarrow> string list" where
  "phase_ids r \<equiv> map ph_phase_id (wf_phases (rn_state r))"

abbreviation orche_ids :: "wf_run \<Rightarrow> string list" where
  "orche_ids r \<equiv> map os_node_id (wf_orche_states (rn_state r))"

definition phase_frame :: "nat \<Rightarrow> wf_run \<Rightarrow> wf_run \<Rightarrow> bool" where
  "phase_frame i r r' \<longleftrightarrow> phase_ids r' = phase_ids r
     \<and> (\<forall>j. j \<noteq> i \<longrightarrow> wf_phases (rn_state r') ! j = wf_phases (rn_state r) ! j)
     \<and> wf_orche_states (rn_state r') = wf_orche_states (rn_state r)
     \<and> rn_skipped r' = rn_skipped r \<and> rn_completed r' = rn_completed r
     \<and> (\<forall>k. goto_count r k \<le> goto_count r' k) \<and> (run_live r \<longrightarrow> run_live r')"

lemma frame_refl [intro, simp]: "phase_frame i r r"
  by (simp add: phase_frame_def)

lemma frame_trans: "phase_frame i r r' \<Longrightarrow> phase_frame i r' r'' \<Longrightarrow> phase_frame i r r''"
  unfolding phase_frame_def by (auto intro: le_trans)

lemma frame_upsert [frames]: "phase_frame i r r' \<Longrightarrow> phase_frame i r (upsert r')"
  by (erule frame_trans) (simp add: phase_frame_def upsert_def goto_count_def run_live_def saved_live_def)

lemma frame_emit [frames]: "phase_frame i r r' \<Longrightarrow> phase_frame i r (emit e r')"
  by (erule frame_trans) (simp add: phase_frame_def emit_def goto_count_def run_live_def saved_live_def)

lemma set_phase_ids: "ph_phase_id p = ph_phase_id (phase_at r i) \<Longrightarrow> phase_ids (set_phase i p r) = phase_ids r"
proof -
  let ?ps = "wf_phases (rn_state r)"
  assume p: "ph_phase_id p = ph_phase_id (phase_at r i)"
  have "map ph_phase_id (?ps[i := p]) = map ph_phase_id ?ps"
  proof (cases "i < length ?ps")
    case True
    with p show ?thesis by (simp add: map_update phase_at_def list_update_same_conv)
  qed (simp add: list_update_beyond)
  then show ?thesis by (simp add: set_phase_def set_state_def)
qed

lemma frame_set_phase [frames]:
  assumes "phase_frame i r r'" and "ph_phase_id p = ph_phase_id (phase_at r' i)"
  shows "phase_frame i r (set_phase i p r')"
proof -
  have "phase_frame i r' (set_phase i p r')"
    using set_phase_ids[OF assms(2)]
    by (simp add: phase_frame_def set_phase_def set_state_def goto_count_def run_live_def saved_live_def)
  with assms(1) show ?thesis by (rule frame_trans)
qed

lemma frame_set_agent [frames]: "phase_frame i r r' \<Longrightarrow> phase_frame i r (set_agent i k a r')"
  unfolding set_agent_def by (rule frame_set_phase) simp_all

lemma frame_set_phase_status [frames]: "phase_frame i r r' \<Longrightarrow> phase_frame i r (set_phase_status i st r')"
  unfolding set_phase_status_def by (rule frame_set_phase) simp_all

lemma frame_counters [frames]:
  "phase_frame i r r' \<Longrightarrow> phase_frame i r (r'\<lparr>rn_agents := n\<rparr>)"
  "phase_frame i r r' \<Longrightarrow> phase_frame i r (r'\<lparr>rn_critics := n\<rparr>)"
  "phase_frame i r r' \<Longrightarrow> phase_frame i r (r'\<lparr>rn_checks := n\<rparr>)"
  "phase_frame i r r' \<Longrightarrow> phase_frame i r (r'\<lparr>rn_asks := n\<rparr>)"
  by (erule frame_trans, simp add: phase_frame_def goto_count_def run_live_def saved_live_def)+

lemma frame_memory [frames]:
  "phase_frame i r r' \<Longrightarrow> phase_frame i r (set_state (\<lambda>s. s\<lparr>wf_memory := f s\<rparr>) r')"
  "phase_frame i r r' \<Longrightarrow> phase_frame i r (set_state (\<lambda>s. s\<lparr>wf_current_phase := c\<rparr>) r')"
  by (erule frame_trans, simp add: phase_frame_def set_state_def goto_count_def run_live_def saved_live_def)+

lemma frame_run_agent:
  assumes "run_agent env i pd ad idx r = (e, r')"
  shows "phase_frame i r r'"
proof (cases "agent_slot (phase_at r i) (ad_agent_id ad) idx")
  case None
  with assms show ?thesis by (simp add: run_agent_def)
next
  case (Some k)
  show ?thesis
  proof (cases "as_status (agent_at r i k) = AsCompleted")
    case True
    with assms Some show ?thesis by (simp add: run_agent_def)
  next
    case False
    note run = assms[unfolded run_agent_def Some option.case Let_def if_not_P[OF False] prod.inject]
    show ?thesis
    proof (cases "pe_agent env (rn_agents r)")
      case (AgentReturn ok content err)
      with run show ?thesis by (cases ok) (auto intro!: frames)
    next
      case AgentTimeout
      with run show ?thesis by (auto intro!: frames)
    next
      case (AgentThrow m)
      with run show ?thesis by (auto intro!: frames)
    qed
  qed
qed

lemma frame_run_agents: "run_agents env i pd ads idx r = (e, r') \<Longrightarrow> phase_frame i r r'"
proof (induction env i pd ads idx r rule: run_agents.induct)
  case (2 env i pd ad ads idx r)
  obtain e1 r1 where one: "run_agent env i pd ad idx r = (e1, r1)" by fastforce
  from frame_run_agent[OF one] have f: "phase_frame i r r1" .
  show ?case
  proof (cases e1)
    case None
    with 2 one have "phase_frame i r1 r'" by simp
    with f show ?thesis by (rule frame_trans)
  next
    case (Some m)
    with 2 one f show ?thesis by simp
  qed
qed simp

lemma frame_run_phase_agents: "run_phase_agents env i pd r = (e, r') \<Longrightarrow> phase_frame i r r'"
  by (auto simp: run_phase_agents_def split: if_splits intro: frame_run_agents)

lemma frame_run_critic: "run_critic env i pd cd r = (rv, r') \<Longrightarrow> phase_frame i r r'"
  by (auto simp: run_critic_def Let_def split: critic_outcome.splits intro!: frames)

text \<open>While the user is asked the run waits; it is live again afterwards.\<close>

lemma frame_ask_round:
  assumes "ask_round i pd ask q r = (response, r')"
  shows "phase_frame i r r'"
proof -
  let ?w = "set_status WfWaitingUserInput r"
  let ?p = "(phase_at ?w i)\<lparr>ph_pending_user_input := Some True\<rparr>"
  let ?r1 = "emit (UserInputRequested (wf_workflow_id (rn_state r)) (pd_phase_id pd) q) (upsert (set_phase i ?p ?w))"
  let ?r2 = "set_status WfRunning (?r1\<lparr>rn_asks := Suc (rn_asks ?r1)\<rparr>)"
  have ids: "phase_ids (set_phase i ?p ?w) = phase_ids ?w" by (rule set_phase_ids) simp
  have "phase_frame i r ?r2"
    using ids
    by (simp add: phase_frame_def set_phase_def set_status_def set_state_def upsert_def emit_def goto_count_def
        run_live_def saved_live_def)
  then show ?thesis using assms by (auto simp: ask_round_def Let_def intro!: frames)
qed

lemma frame_push [frames]: "phase_frame i r r' \<Longrightarrow> phase_frame i r (push_loop_result i x r')"
  unfolding push_loop_result_def by (rule frame_set_phase) simp_all

lemma frame_loop_continue [frames]:
  assumes "phase_frame i r r'"
  shows "phase_frame i r (loop_continue env i pd cfg iter content r')"
proof (cases "\<exists>ask. str_includes ask_token content \<and> pe_ask_user env = Some ask")
  case True
  then obtain ask where ask: "str_includes ask_token content" "pe_ask_user env = Some ask" by blast
  obtain resp r1 where one: "ask_round i pd ask (str_trim (drop_all ask_token content)) r' = (resp, r1)" by fastforce
  have "phase_frame i r r1" using assms frame_ask_round[OF one] by (rule frame_trans)
  with ask one show ?thesis by (simp add: loop_continue_def Let_def frames)
next
  case False
  with assms show ?thesis
    by (cases "str_includes ask_token content"; cases "pe_ask_user env") (simp_all add: loop_continue_def Let_def frames)
qed

lemma frame_loop_answer:
  "loop_answer env i pd ad cfg iter content r = (go, r') \<Longrightarrow> phase_frame i r r'"
  by (auto simp: loop_answer_def Let_def split: if_splits intro!: frames)

lemma frame_loop_iteration:
  assumes "loop_iteration env i pd cfg iter r = (x, r')"
  shows "phase_frame i r r'"
proof (cases "pe_aborted env (rn_checks r)")
  case True
  with assms show ?thesis by (auto simp: loop_iteration_def Let_def intro!: frames)
next
  case False
  note run1 = assms[unfolded loop_iteration_def Let_def if_not_P[OF False]]
  show ?thesis
  proof (cases "pd_agents pd = [] \<or> ph_agents (phase_at (r\<lparr>rn_checks := Suc (rn_checks r)\<rparr>) i) = []")
    case True
    with run1 show ?thesis by (cases "pd_agents pd") (auto intro!: frames)
  next
    case ne: False
    then obtain ad ads where ads: "pd_agents pd = ad # ads" by (cases "pd_agents pd") auto
    with ne have ne2: "\<not> ph_agents (phase_at (r\<lparr>rn_checks := Suc (rn_checks r)\<rparr>) i) = []" by simp
    note run2 = run1[unfolded ads list.case if_not_P[OF ne2]]
    show ?thesis
    proof (cases "pe_agent env (rn_agents r)")
      case (AgentThrow e)
      with run2 show ?thesis by (auto intro!: frames)
    next
      case (AgentReturn ok c err)
      with run2 show ?thesis by (auto split: prod.splits dest!: frame_loop_answer intro!: frames elim!: frame_trans[rotated])
    next
      case AgentTimeout
      with run2 show ?thesis by (auto split: prod.splits dest!: frame_loop_answer intro!: frames elim!: frame_trans[rotated])
    qed
  qed
qed

lemma frame_loop_iterations: "loop_iterations env i pd cfg left iter r = (e, r') \<Longrightarrow> phase_frame i r r'"
proof (induction env i pd cfg left iter r rule: loop_iterations.induct)
  case (2 env i pd cfg left iter r)
  obtain x r1 where one: "loop_iteration env i pd cfg iter r = (x, r1)" by fastforce
  from frame_loop_iteration[OF one] have f: "phase_frame i r r1" .
  consider (go) "x = Inr True" | (stop) "x \<noteq> Inr True" by blast
  then show ?case
  proof cases
    case go
    with 2 one have "phase_frame i r1 r'" by simp
    with f show ?thesis by (rule frame_trans)
  next
    case stop
    then have "r' = r1" using 2(2) one by (auto split: sum.splits bool.splits)
    with f show ?thesis by simp
  qed
qed simp

lemma frame_run_looping_phase:
  assumes "run_looping_phase env i pd cfg r = (e, r')"
  shows "phase_frame i r r'"
proof -
  let ?start = "set_phase i ((phase_at r i)\<lparr>ph_loop_results := Some [], ph_loop_iteration := Some 0\<rparr>) r"
  let ?mx = "case pd_max_loop_iterations pd of Some n \<Rightarrow> if n = 0 then lc_default_max cfg else n | None \<Rightarrow> lc_default_max cfg"
  obtain e1 r1 where one: "loop_iterations env i pd cfg (nat ?mx) 0 ?start = (e1, r1)" by fastforce
  have "phase_frame i r ?start" by (rule frame_set_phase) simp_all
  then have f: "phase_frame i r r1" using frame_loop_iterations[OF one] by (rule frame_trans)
  have "run_looping_phase env i pd cfg r = (case (e1, r1) of
      (Some e, r') \<Rightarrow> (Some e, r')
    | (None, r') \<Rightarrow>
        if ph_agents (phase_at r' i) = [] then (Some ''Cannot read properties of undefined'', r')
        else if as_status (agent_at r' i 0) = AsCompleted then (None, r')
        else (None, set_agent i 0 ((agent_at r' i 0)\<lparr>
               as_result := Some (if loop_results r' i = [] then [] else last (loop_results r' i)),
               as_status := AsCompleted\<rparr>) r'))"
    unfolding run_looping_phase_def Let_def one ..
  with assms f show ?thesis by (auto split: option.splits if_splits intro!: frames)
qed

end
