(* ===== verification/PhaseTermination.thy ===== *)
theory PhaseTermination
  imports PhaseFrames
begin

text \<open>
  The critic's loop, step by step, and the ending of the main loop: a jump back to an earlier
  phase spends one of the jumps its critic has, and between two jumps the index only grows.
\<close>

section \<open>The exits of the critic's loop\<close>

definition cd_target :: "critic_def \<Rightarrow> string" where
  "cd_target cd = (case cd_goto_phase cd of Some t \<Rightarrow> t | None \<Rightarrow> [])"

definition critic_key :: "phase_def \<Rightarrow> critic_def \<Rightarrow> string" where
  "critic_key pd cd = goto_key (pd_phase_id pd) (cd_target cd)"

definition goto_exit :: "wf_node list \<Rightarrow> phase_def list \<Rightarrow> nat \<Rightarrow> nat \<Rightarrow> phase_def \<Rightarrow> critic_def \<Rightarrow> wf_run \<Rightarrow> nat \<Rightarrow> wf_run \<Rightarrow> bool" where
  "goto_exit nodes pds idx i pd cd r j r' \<longleftrightarrow>
     (\<exists>t r1. cd_on_rejection cd = Some Goto \<and> cd_target cd \<noteq> []
        \<and> index_of (\<lambda>p. pd_phase_id p = cd_target cd) pds = Some t \<and> j = goto_index nodes (cd_target cd) idx
        \<and> phase_frame i r r1 \<and> goto_count r (critic_key pd cd) < goto_count r1 (critic_key pd cd)
        \<and> int (goto_count r1 (critic_key pd cd)) \<le> critic_retries cd \<and> r' = reset_phases t i r1)"

definition paused :: "wf_run \<Rightarrow> wf_run \<Rightarrow> bool" where
  "paused r r' \<longleftrightarrow> wf_status (rn_state r') = WfWaitingUserInput \<and> rn_saved r' = Some (rn_state r')"

definition exit_ok :: "wf_node list \<Rightarrow> phase_def list \<Rightarrow> nat \<Rightarrow> nat \<Rightarrow> phase_def \<Rightarrow> critic_def \<Rightarrow> wf_run \<Rightarrow> critic_exit \<Rightarrow> bool" where
  "exit_ok nodes pds idx i pd cd r x = (case x of
       CxPassed r' \<Rightarrow> phase_frame i r r' | CxAgain r' \<Rightarrow> phase_frame i r r' | CxThrow _ r' \<Rightarrow> phase_frame i r r'
     | CxReturn r' \<Rightarrow> paused r r'
     | CxGoto j r' \<Rightarrow> goto_exit nodes pds idx i pd cd r j r')"

lemma exit_ok_trans:
  assumes "phase_frame i r r1" and "exit_ok nodes pds idx i pd cd r1 x"
  shows "exit_ok nodes pds idx i pd cd r x"
proof (cases x)
  case (CxGoto j r')
  with assms(2) obtain t r2 where g: "cd_on_rejection cd = Some Goto" "cd_target cd \<noteq> []"
      "index_of (\<lambda>p. pd_phase_id p = cd_target cd) pds = Some t" "j = goto_index nodes (cd_target cd) idx"
      "phase_frame i r1 r2" "goto_count r1 (critic_key pd cd) < goto_count r2 (critic_key pd cd)"
      "int (goto_count r2 (critic_key pd cd)) \<le> critic_retries cd" "r' = reset_phases t i r2"
    by (auto simp: exit_ok_def goto_exit_def)
  have "goto_count r (critic_key pd cd) \<le> goto_count r1 (critic_key pd cd)" using assms(1) by (simp add: phase_frame_def)
  with g(6) have "goto_count r (critic_key pd cd) < goto_count r2 (critic_key pd cd)" by simp
  moreover have "phase_frame i r r2" using assms(1) g(5) by (rule frame_trans)
  ultimately have "goto_exit nodes pds idx i pd cd r j r'" using g unfolding goto_exit_def by blast
  with CxGoto show ?thesis by (simp add: exit_ok_def)
qed (use assms frame_trans in \<open>auto simp: exit_ok_def paused_def\<close>)

lemma paused_escalate: "exit_ok nodes pds idx i pd cd r (escalate r')"
  by (simp add: exit_ok_def escalate_def paused_def upsert_def set_status_def set_state_def)

lemma frame_count [frames]:
  assumes "phase_frame i r r'"
  shows "phase_frame i r (r'\<lparr>rn_goto := jset k (Suc (goto_count r' k)) (rn_goto r')\<rparr>)"
proof -
  have "phase_frame i r' (r'\<lparr>rn_goto := jset k (Suc (goto_count r' k)) (rn_goto r')\<rparr>)"
    by (simp add: phase_frame_def goto_count_def run_live_def saved_live_def)
  with assms show ?thesis by (rule frame_trans)
qed

lemma exit_critic_goto:
  assumes "cd_on_rejection cd = Some Goto" and "cd_target cd \<noteq> []"
  shows "exit_ok nodes pds idx i pd cd r (critic_goto nodes pds idx i pd cd (cd_target cd) rv r)"
proof -
  let ?k = "critic_key pd cd"
  let ?r1 = "r\<lparr>rn_goto := jset ?k (Suc (goto_count r ?k)) (rn_goto r)\<rparr>"
  have f: "phase_frame i r ?r1" by (rule frame_count) simp
  have cnt: "goto_count ?r1 ?k = Suc (goto_count r ?k)" by (simp add: goto_count_def)
  show ?thesis
  proof (cases "critic_retries cd < int (Suc (goto_count r ?k))")
    case True
    then have "critic_goto nodes pds idx i pd cd (cd_target cd) rv r = escalate ?r1"
      by (simp add: critic_goto_def Let_def critic_key_def)
    then show ?thesis by (simp add: paused_escalate)
  next
    case le: False
    show ?thesis
    proof (cases "index_of (\<lambda>p. pd_phase_id p = cd_target cd) pds")
      case None
      with le have "critic_goto nodes pds idx i pd cd (cd_target cd) rv r = CxPassed ?r1"
        by (simp add: critic_goto_def Let_def critic_key_def)
      with f show ?thesis by (simp add: exit_ok_def)
    next
      case (Some t)
      let ?r2 = "emit (PhaseGoto (wf_workflow_id (rn_state r)) (pd_phase_id pd) (cd_target cd) (take 200 (rv_summary rv))) ?r1"
      from le Some have "critic_goto nodes pds idx i pd cd (cd_target cd) rv r
          = CxGoto (goto_index nodes (cd_target cd) idx) (reset_phases t i ?r2)"
        by (simp add: critic_goto_def Let_def critic_key_def)
      moreover have "goto_exit nodes pds idx i pd cd r (goto_index nodes (cd_target cd) idx) (reset_phases t i ?r2)"
        unfolding goto_exit_def
      proof (intro exI[of _ t] exI[of _ ?r2] conjI)
        show "phase_frame i r ?r2" using f by (rule frame_emit)
        have cnt2: "goto_count ?r2 ?k = Suc (goto_count r ?k)" by (simp add: goto_count_def emit_def)
        show "goto_count r ?k < goto_count ?r2 ?k" by (simp only: cnt2)
        show "int (goto_count ?r2 ?k) \<le> critic_retries cd" using le by (simp only: cnt2)
      qed (use assms Some in simp_all)
      ultimately show ?thesis by (simp add: exit_ok_def)
    qed
  qed
qed

lemma frame_reset_agents [frames]: "phase_frame i r r' \<Longrightarrow> phase_frame i r (reset_agents P i r')"
  unfolding reset_agents_def by (rule frame_set_phase) simp_all

lemma exit_rerun:
  assumes "phase_frame i r r1"
  shows "exit_ok nodes pds idx i pd cd r (rerun_agents env i pd' r1)"
proof -
  obtain e r2 where run: "run_phase_agents env i pd' r1 = (e, r2)" by fastforce
  have "phase_frame i r r2" using assms frame_run_phase_agents[OF run] by (rule frame_trans)
  with run show ?thesis by (cases e) (simp_all add: rerun_agents_def exit_ok_def)
qed

lemma exit_retry_all: "exit_ok nodes pds idx i pd cd r (critic_retry_all env i pd r)"
  unfolding critic_retry_all_def by (rule exit_rerun) (intro frames frame_refl)

lemma exit_retry_targeted: "exit_ok nodes pds idx i pd cd r (critic_retry_targeted env i pd rv r)"
proof -
  let ?r1 = "set_phase_status i PsRunning r"
  have f: "phase_frame i r ?r1" by (intro frames frame_refl)
  have "phase_frame i r (upsert (reset_agents (targeted rv) i ?r1))" by (intro frames frame_refl)
  then have "exit_ok nodes pds idx i pd cd r (rerun_agents env i pd' (upsert (reset_agents (targeted rv) i ?r1)))" for pd'
    by (rule exit_rerun)
  moreover have "exit_ok nodes pds idx i pd cd r (CxPassed ?r1)" using f by (simp add: exit_ok_def)
  ultimately show ?thesis unfolding critic_retry_targeted_def Let_def by (simp split: if_split)
qed

lemma exit_critic_round: "exit_ok nodes pds idx i pd cd r (critic_round env nodes pds idx i pd cd retries r)"
proof -
  let ?start = "upsert (set_phase_status i PsReviewing r)"
  obtain rv r1 where run: "run_critic env i pd cd ?start = (rv, r1)" by fastforce
  have "phase_frame i r ?start" by (intro frames frame_refl)
  then have f: "phase_frame i r r1" using frame_run_critic[OF run] by (rule frame_trans)
  define policy where "policy = (case cd_on_rejection cd of Some p \<Rightarrow> p | None \<Rightarrow> Escalate)"
  have policy: "cd_on_rejection cd = Some Goto" if "policy = Goto"
    using that by (simp add: policy_def split: option.splits)
  have round: "critic_round env nodes pds idx i pd cd retries r =
      (if rv_approved rv \<or> \<not> cd_gate cd then CxPassed r1
       else if policy = Goto \<and> cd_target cd \<noteq> [] then critic_goto nodes pds idx i pd cd (cd_target cd) rv r1
       else if policy = Escalate \<or> critic_retries cd < int (Suc retries) then escalate r1
       else case policy of RetryAll \<Rightarrow> critic_retry_all env i pd r1
          | RetryTargeted \<Rightarrow> critic_retry_targeted env i pd rv r1 | _ \<Rightarrow> CxAgain r1)"
    by (simp add: critic_round_def run policy_def cd_target_def Let_def)
  have "exit_ok nodes pds idx i pd cd r1 (critic_goto nodes pds idx i pd cd (cd_target cd) rv r1)"
    if "policy = Goto" "cd_target cd \<noteq> []" using exit_critic_goto policy that by blast
  moreover have "exit_ok nodes pds idx i pd cd r1 (CxPassed r1)" "exit_ok nodes pds idx i pd cd r1 (CxAgain r1)"
    by (simp_all add: exit_ok_def)
  ultimately have "exit_ok nodes pds idx i pd cd r1 (critic_round env nodes pds idx i pd cd retries r)"
    unfolding round by (cases policy) (simp_all add: paused_escalate exit_retry_all exit_retry_targeted)
  with f show ?thesis by (rule exit_ok_trans)
qed

lemma exit_critic_loop: "exit_ok nodes pds idx i pd cd r (critic_loop env nodes pds idx i pd cd retries r)"
proof (induction env nodes pds idx i pd cd retries r rule: critic_loop.induct)
  case (1 env nodes pds idx i pd cd retries r)
  note one = exit_critic_round[of nodes pds idx i pd cd r env retries]
  show ?case
  proof (cases "critic_round env nodes pds idx i pd cd retries r")
    case (CxAgain r1)
    then have "phase_frame i r r1" using one by (simp add: exit_ok_def)
    with 1[OF CxAgain] have "exit_ok nodes pds idx i pd cd r (critic_loop env nodes pds idx i pd cd (Suc retries) r1)"
      by (rule exit_ok_trans[rotated])
    then show ?thesis by (subst critic_loop.simps) (simp add: CxAgain)
  qed (use one in \<open>subst critic_loop.simps, simp\<close>)+
qed

lemma critic_loop_not_again: "critic_loop env nodes pds idx i pd cd retries r \<noteq> CxAgain r'"
proof (induction env nodes pds idx i pd cd retries r rule: critic_loop.induct)
  case (1 env nodes pds idx i pd cd retries r)
  then show ?case
    by (subst critic_loop.simps) (cases "critic_round env nodes pds idx i pd cd retries r"; simp)
qed


section \<open>The exits of a phase\<close>

definition stopped :: "wf_run \<Rightarrow> bool" where
  "stopped r \<longleftrightarrow> wf_status (rn_state r) \<in> {WfFailed, WfWaitingUserInput} \<and> rn_saved r = Some (rn_state r)"

definition phase_exit :: "wf_node list \<Rightarrow> phase_def list \<Rightarrow> nat \<Rightarrow> nat \<Rightarrow> phase_def \<Rightarrow> wf_run \<Rightarrow> step_result \<Rightarrow> bool" where
  "phase_exit nodes pds idx i pd r x = (case x of
       Next j r' \<Rightarrow> (j = Suc idx \<and> (\<exists>r1. phase_frame i r r1 \<and> r' = finalize_phase i pd r1))
         \<or> (\<exists>cd. pd_critic pd = Some cd \<and> goto_exit nodes pds idx i pd cd r j r')
     | Leave r' \<Rightarrow> stopped r'
     | Return r' \<Rightarrow> stopped r'
     | Throw _ r' \<Rightarrow> phase_frame i r r')"

lemma goto_exit_trans:
  "phase_frame i r r1 \<Longrightarrow> goto_exit nodes pds idx i pd cd r1 j r' \<Longrightarrow> goto_exit nodes pds idx i pd cd r j r'"
  using exit_ok_trans[of i r r1 nodes pds idx pd cd "CxGoto j r'"] by (simp add: exit_ok_def)

lemma phase_exit_trans:
  assumes "phase_frame i r r1" and "phase_exit nodes pds idx i pd r1 x"
  shows "phase_exit nodes pds idx i pd r x"
proof (cases x)
  case (Next j r')
  with assms(2) consider (fin) "j = Suc idx" "\<exists>r2. phase_frame i r1 r2 \<and> r' = finalize_phase i pd r2"
    | (goto_) cd where "pd_critic pd = Some cd" "goto_exit nodes pds idx i pd cd r1 j r'"
    by (auto simp: phase_exit_def)
  then show ?thesis
  proof cases
    case fin
    with Next assms(1) frame_trans show ?thesis by (simp add: phase_exit_def) blast
  next
    case goto_
    with Next goto_exit_trans[OF assms(1)] show ?thesis by (auto simp: phase_exit_def)
  qed
qed (use assms frame_trans in \<open>auto simp: phase_exit_def\<close>)

lemma exit_critic_part: "phase_exit nodes pds idx i pd r (critic_part env nodes pds idx i pd r)"
proof (cases "pd_critic pd")
  case None
  then show ?thesis by (auto simp: critic_part_def phase_exit_def)
next
  case (Some cd)
  note loop = exit_critic_loop[of nodes pds idx i pd cd r env 0]
  have "paused r r' \<Longrightarrow> stopped r'" for r' by (simp add: paused_def stopped_def)
  then show ?thesis using loop critic_loop_not_again[of env nodes pds idx i pd cd 0 r]
    by (cases "critic_loop env nodes pds idx i pd cd 0 r") (auto simp: critic_part_def phase_exit_def exit_ok_def Some)
qed

lemma exit_judge: "phase_exit nodes pds idx i pd r (judge_agents env nodes pds idx i pd results r)"
  using exit_critic_part
  by (simp add: judge_agents_def phase_exit_def stopped_def upsert_def set_status_def set_state_def)

lemma exit_phase_execute: "phase_exit nodes pds idx i pd r (phase_execute env nodes pds idx i pd r)"
proof -
  have thrown: "phase_exit nodes pds idx i pd r (Throw m r1)" if "phase_frame i r r1" for m r1
    using that by (simp add: phase_exit_def)
  have judged: "phase_exit nodes pds idx i pd r (judge_agents env nodes pds idx i pd results r1)"
    if "phase_frame i r r1" for results r1 using that exit_judge by (rule phase_exit_trans)
  obtain e1 r1 where ag: "run_phase_agents env i pd r = (e1, r1)" by fastforce
  obtain e2 r2 where it: "run_looping_phase env i pd interactive_config r = (e2, r2)" by fastforce
  obtain e3 r3 where sq: "run_looping_phase env i pd sequential_loop_config r = (e3, r3)" by fastforce
  note fs = frame_run_phase_agents[OF ag] frame_run_looping_phase[OF it] frame_run_looping_phase[OF sq]
  have "phase_exit nodes pds idx i pd r (Next (Suc idx) (finalize_phase i pd r2))"
    using fs(2) by (auto simp: phase_exit_def)
  then show ?thesis
    unfolding phase_execute_def ag it sq
    using thrown judged fs by (cases "pd_mode pd") (auto split: phase_mode.split option.split)
qed


section \<open>The main loop ends\<close>

definition goto_left :: "wf_run \<Rightarrow> wf_node \<Rightarrow> nat" where
  "goto_left r n = (case wn_body n of
       PhaseBody b \<Rightarrow> (case pb_critic b of
           Some cd \<Rightarrow> nat (critic_retries cd) - goto_count r (critic_key (node_to_phase n b) cd) | None \<Rightarrow> 0)
     | _ \<Rightarrow> 0)"

definition gotos_left :: "wf_node list \<Rightarrow> wf_run \<Rightarrow> nat" where
  "gotos_left nodes r = sum_list (map (goto_left r) nodes)"

lemma goto_left_mono: "(\<And>k. goto_count r k \<le> goto_count r' k) \<Longrightarrow> goto_left r' n \<le> goto_left r n"
  by (auto simp: goto_left_def split: node_body.split option.split intro: diff_le_mono2)

lemma gotos_left_mono: "(\<And>k. goto_count r k \<le> goto_count r' k) \<Longrightarrow> gotos_left nodes r' \<le> gotos_left nodes r"
  unfolding gotos_left_def by (intro sum_list_mono goto_left_mono)

lemma gotos_left_less:
  assumes "\<And>k. goto_count r k \<le> goto_count r' k" and "n \<in> set nodes" and "goto_left r' n < goto_left r n"
  shows "gotos_left nodes r' < gotos_left nodes r"
proof -
  from assms(2) obtain as bs where "nodes = as @ n # bs" by (auto simp: in_set_conv_decomp)
  moreover have "gotos_left as r' \<le> gotos_left as r" "gotos_left bs r' \<le> gotos_left bs r"
    using assms(1) by (simp_all add: gotos_left_mono)
  ultimately show ?thesis using assms(3) by (simp add: gotos_left_def)
qed

lemma goto_count_reset_phases [simp]: "goto_count (reset_phases a b r) k = goto_count r k"
proof -
  have "goto_count (fold (\<lambda>j r. set_phase j (reset_phase_state (phase_at r j)) r) js r) k = goto_count r k" for js
    by (induction js arbitrary: r) (simp_all add: goto_count_def set_phase_def set_state_def)
  then show ?thesis by (simp add: reset_phases_def)
qed

lemma goto_exit_less:
  assumes "goto_exit nodes pds idx i (node_to_phase n b) cd r j r'" and "wn_body n = PhaseBody b" "pb_critic b = Some cd"
    and "n \<in> set nodes"
  shows "gotos_left nodes r' < gotos_left nodes r"
proof -
  let ?k = "critic_key (node_to_phase n b) cd"
  from assms(1) obtain t r1 where g: "phase_frame i r r1" "goto_count r ?k < goto_count r1 ?k"
      "int (goto_count r1 ?k) \<le> critic_retries cd" "r' = reset_phases t i r1"
    by (auto simp: goto_exit_def)
  have "\<And>k. goto_count r k \<le> goto_count r' k" using g(1,4) by (simp add: phase_frame_def)
  moreover have "goto_left r' n < goto_left r n"
  proof -
    have "goto_count r' ?k = goto_count r1 ?k" by (simp add: g(4))
    then show ?thesis using assms(2,3) g(2,3) by (simp add: goto_left_def)
  qed
  ultimately show ?thesis using gotos_left_less[OF _ assms(4)] by blast
qed

lemma pd_critic_node: "pd_critic (node_to_phase n b) = pb_critic b"
  by (simp add: node_to_phase_def)

lemma goto_count_upd [simp]:
  "goto_count (emit e r) k = goto_count r k"
  "goto_count (upsert r) k = goto_count r k"
  "goto_count (set_state f r) k = goto_count r k"
  "goto_count (set_phase_status i st r) k = goto_count r k"
  "goto_count (set_orche o1 g r) k = goto_count r k"
  "goto_count (set_memory m v r) k = goto_count r k"
  "goto_count (r\<lparr>rn_checks := c\<rparr>) k = goto_count r k"
  "goto_count (r\<lparr>rn_nodes := c\<rparr>) k = goto_count r k"
  "goto_count (r\<lparr>rn_skipped := sk\<rparr>) k = goto_count r k"
  by (simp_all add: goto_count_def emit_def upsert_def set_state_def set_phase_status_def set_phase_def
      set_orche_def set_memory_def split: option.split)

lemma frame_finalize [frames]: "phase_frame i r r' \<Longrightarrow> phase_frame i r (finalize_phase i pd r')"
  unfolding finalize_phase_def Let_def by (intro frames)

text \<open>Where a step goes.\<close>

definition moves_on :: "wf_node list \<Rightarrow> nat \<Rightarrow> wf_run \<Rightarrow> step_result \<Rightarrow> bool" where
  "moves_on nodes idx r x \<longleftrightarrow> (\<forall>j r'. x = Next j r' \<longrightarrow>
     gotos_left nodes r' < gotos_left nodes r \<or> (j = Suc idx \<and> gotos_left nodes r' \<le> gotos_left nodes r))"

lemma moves_on_next: "(\<And>k. goto_count r k \<le> goto_count r' k) \<Longrightarrow> moves_on nodes idx r (Next (Suc idx) r')"
  by (simp add: moves_on_def gotos_left_mono)

lemma moves_on_if: "moves_on nodes idx r x \<Longrightarrow> moves_on nodes idx r y \<Longrightarrow> moves_on nodes idx r (if c then x else y)"
  by simp

lemma moves_on_cong: "(\<And>k. goto_count r k = goto_count r1 k) \<Longrightarrow> moves_on nodes idx r1 x \<Longrightarrow> moves_on nodes idx r x"
  unfolding moves_on_def gotos_left_def goto_left_def by presburger

lemma goto_count_call: "call_handler env n r = (out, r') \<Longrightarrow> goto_count r' k = goto_count r k"
  by (auto simp: call_handler_def split: prod.splits)

lemma moves_on_orche: "moves_on nodes idx r (orche_step env idx n r)"
proof (cases "orche_settled r (orche_at r (wn_id n))")
  case True
  then show ?thesis by (simp add: orche_step_def moves_on_next)
next
  case False
  let ?r1 = "emit (NodeStarted (wf_workflow_id (rn_state (set_orche (orche_at r (wn_id n)) (\<lambda>s. s\<lparr>os_status := OsRunning\<rparr>) r)))
                 (wn_id n) (node_type_of n)) (set_orche (orche_at r (wn_id n)) (\<lambda>s. s\<lparr>os_status := OsRunning\<rparr>) r)"
  obtain out r2 where call: "call_handler env n ?r1 = (out, r2)" by fastforce
  then have "goto_count r2 k = goto_count r k" for k using goto_count_call by simp
  then show ?thesis using call False
    by (cases out) (auto simp: orche_step_def Let_def moves_on_def orche_done_def intro!: gotos_left_mono)
qed

lemma moves_on_phase:
  assumes "n \<in> set nodes"
  shows "moves_on nodes idx r (phase_step env nodes pds resume idx n r)"
proof (cases "index_of (\<lambda>p. ph_phase_id p = wn_id n) (wf_phases (rn_state r))")
  case None
  then show ?thesis by (simp add: phase_step_def moves_on_next)
next
  case (Some i)
  let ?r1 = "set_state (\<lambda>s. s\<lparr>wf_current_phase := i\<rparr>) r"
  let ?r3 = "emit (PhaseStarted (wf_workflow_id (rn_state ?r1)) (wn_id n)) (upsert (set_phase_status i PsRunning ?r1))"
  have "moves_on nodes idx r (case wn_body n of
      PhaseBody b \<Rightarrow> phase_execute env nodes pds idx i (node_to_phase n b) ?r3
    | _ \<Rightarrow> Throw ''phase_def.agents is not iterable'' ?r3)"
  proof (cases "\<exists>b. wn_body n = PhaseBody b")
    case True
    then obtain b where b: "wn_body n = PhaseBody b" by blast
    note ex = exit_phase_execute[of nodes pds idx i "node_to_phase n b" ?r3 env]
    have "moves_on nodes idx ?r3 (phase_execute env nodes pds idx i (node_to_phase n b) ?r3)"
      unfolding moves_on_def
    proof (intro allI impI)
      fix j r' assume "phase_execute env nodes pds idx i (node_to_phase n b) ?r3 = Next j r'"
      with ex consider (fin) r4 where "j = Suc idx" "phase_frame i ?r3 r4" "r' = finalize_phase i (node_to_phase n b) r4"
        | (goto_) cd where "pb_critic b = Some cd" "goto_exit nodes pds idx i (node_to_phase n b) cd ?r3 j r'"
        by (auto simp: phase_exit_def pd_critic_node)
      then show "gotos_left nodes r' < gotos_left nodes ?r3 \<or> j = Suc idx \<and> gotos_left nodes r' \<le> gotos_left nodes ?r3"
      proof cases
        case fin
        then have "phase_frame i ?r3 r'" by (simp add: frames)
        then show ?thesis using fin(1) by (simp add: phase_frame_def gotos_left_mono)
      next
        case goto_
        with goto_exit_less[OF goto_(2) b goto_(1) assms] show ?thesis by simp
      qed
    qed
    then show ?thesis by (simp add: b) (erule moves_on_cong[rotated], simp)
  next
    case False
    then show ?thesis by (cases "wn_body n") (simp_all add: moves_on_def)
  qed
  then show ?thesis unfolding phase_step_def Some option.case Let_def
    by (intro moves_on_if moves_on_next) simp_all
qed

lemma moves_on_node:
  assumes "idx < length nodes"
  shows "moves_on nodes idx r (node_step env nodes pds resume idx r)"
proof -
  let ?r = "r\<lparr>rn_checks := Suc (rn_checks r)\<rparr>"
  have "moves_on nodes idx ?r (node_step env nodes pds resume idx r)"
    using moves_on_orche moves_on_phase[of "nodes ! idx" nodes] assms
    by (simp add: node_step_def Let_def moves_on_next skip_inactive_def) (simp add: moves_on_def)
  then show ?thesis by (rule moves_on_cong[rotated]) simp
qed

lemma run_nodes_ends: "\<exists>x. run_nodes env nodes pds resume idx r = Some x"
proof (induction "(gotos_left nodes r, length nodes - idx)" arbitrary: idx r
    rule: wf_induct[OF wf_lex_prod[OF wf_less wf_less]])
  case (1 idx r)
  show ?case
  proof (cases "idx < length nodes")
    case False
    then show ?thesis by (subst run_nodes.simps) simp
  next
    case True
    note mv = moves_on_node[OF True, of r env pds resume]
    show ?thesis
    proof (cases "node_step env nodes pds resume idx r")
      case (Next j r')
      with mv True have "((gotos_left nodes r', length nodes - j), gotos_left nodes r, length nodes - idx)
          \<in> {(x, y). x < y} <*lex*> {(x, y). x < y}"
        by (auto simp: moves_on_def)
      with 1 have "\<exists>x. run_nodes env nodes pds resume j r' = Some x" by blast
      then show ?thesis by (subst run_nodes.simps) (simp add: True Next)
    qed (subst run_nodes.simps, simp add: True)+
  qed
qed

text \<open>C6. Running a workflow always returns: whatever the agents, the critics and the handlers
  answer, jumps back, retries and loops are bounded.\<close>

theorem workflow_returns:
  "\<exists>r err. run_phase_loop env opts = Some (r, err)"
proof -
  obtain nodes pds where norm: "normalize_workflow (po_nodes opts) (po_phases opts) = (nodes, pds)" by fastforce
  obtain x where "run_nodes env nodes pds (po_resume opts \<noteq> None) 0 (start_run opts nodes pds) = Some x"
    using run_nodes_ends by blast
  then show ?thesis using norm by (cases "finish_run x") (simp add: run_phase_loop_def)
qed

end
