(* ===== verification/PhaseCorrect.thy ===== *)
theory PhaseCorrect
  imports PhaseTermination
begin

text \<open>
  What a workflow run guarantees when it returns: its state is the stored one (unless it was
  cancelled), and a completed workflow has done or skipped every node. The loop's heads are the
  states of the step relation \<open>loop_head\<close>; the invariants are shown by rule induction on it.
\<close>

section \<open>The heads of the loop\<close>

inductive loop_head :: "pl_env \<Rightarrow> wf_node list \<Rightarrow> phase_def list \<Rightarrow> bool \<Rightarrow> wf_run \<Rightarrow> nat \<Rightarrow> wf_run \<Rightarrow> bool"
  for env nodes pds resume start where
  loop_start: "loop_head env nodes pds resume start 0 start"
| loop_next: "loop_head env nodes pds resume start idx r \<Longrightarrow> idx < length nodes
    \<Longrightarrow> node_step env nodes pds resume idx r = Next j r' \<Longrightarrow> loop_head env nodes pds resume start j r'"

definition loop_end :: "pl_env \<Rightarrow> wf_node list \<Rightarrow> phase_def list \<Rightarrow> bool \<Rightarrow> nat \<Rightarrow> wf_run \<Rightarrow> step_result \<Rightarrow> bool" where
  "loop_end env nodes pds resume idx r x \<longleftrightarrow>
     (if idx < length nodes then node_step env nodes pds resume idx r = x \<and> (\<forall>j r'. x \<noteq> Next j r') else x = Leave r)"

lemma run_nodes_head:
  assumes "run_nodes env nodes pds resume idx r = Some x" and "loop_head env nodes pds resume start idx r"
  shows "\<exists>idx' r'. loop_head env nodes pds resume start idx' r' \<and> loop_end env nodes pds resume idx' r' x"
proof -
  have "loop_head env nodes pds resume start idx r
      \<longrightarrow> (\<exists>idx' r'. loop_head env nodes pds resume start idx' r' \<and> loop_end env nodes pds resume idx' r' x)"
  proof (rule run_nodes.raw_induct[OF _ assms(1),
      of "\<lambda>env nodes pds resume idx r x. loop_head env nodes pds resume start idx r
        \<longrightarrow> (\<exists>idx' r'. loop_head env nodes pds resume start idx' r' \<and> loop_end env nodes pds resume idx' r' x)"],
      intro impI)
    fix f env nodes pds resume idx r x
    assume ih: "\<And>env nodes pds resume idx r x. f env nodes pds resume idx r = Some x \<Longrightarrow>
          loop_head env nodes pds resume start idx r
          \<longrightarrow> (\<exists>idx' r'. loop_head env nodes pds resume start idx' r' \<and> loop_end env nodes pds resume idx' r' x)"
      and body: "(if idx < length nodes
          then case node_step env nodes pds resume idx r of Next j r' \<Rightarrow> f env nodes pds resume j r' | x \<Rightarrow> Some x
          else Some (Leave r)) = Some x"
      and head: "loop_head env nodes pds resume start idx r"
    show "\<exists>idx' r'. loop_head env nodes pds resume start idx' r' \<and> loop_end env nodes pds resume idx' r' x"
    proof (cases "idx < length nodes \<and> (\<exists>j r'. node_step env nodes pds resume idx r = Next j r')")
      case True
      then obtain j r' where lt: "idx < length nodes" and nx: "node_step env nodes pds resume idx r = Next j r'" by blast
      from body lt nx have "f env nodes pds resume j r' = Some x" by simp
      with ih loop_next[OF head lt nx] show ?thesis by blast
    next
      case False
      with body have "loop_end env nodes pds resume idx r x"
        by (auto simp: loop_end_def split: if_splits step_result.splits)
      with head show ?thesis by blast
    qed
  qed
  with assms(2) show ?thesis by blast
qed


section \<open>A live run and what it stores\<close>

definition node_exit :: "step_result \<Rightarrow> bool" where
  "node_exit x = (case x of Next _ r \<Rightarrow> run_live r
     | Leave r \<Rightarrow> stopped r \<or> (wf_status (rn_state r) = WfCancelled \<and> saved_live r)
     | Return r \<Rightarrow> stopped r | Throw _ _ \<Rightarrow> True)"

lemma live_upd [simp]:
  "run_live (emit e r) = run_live r"
  "run_live (set_phase i p r) = run_live r"
  "run_live (set_phase_status i st r) = run_live r"
  "run_live (set_memory k v r) = run_live r"
  "run_live (set_orche o1 f r) = run_live r"
  "run_live (set_state (\<lambda>s. s\<lparr>wf_memory := g s\<rparr>) r) = run_live r"
  "run_live (set_state (wf_current_phase_update h) r) = run_live r"
  "run_live (r\<lparr>rn_checks := c\<rparr>) = run_live r"
  "run_live (r\<lparr>rn_skipped := sk\<rparr>) = run_live r"
  by (simp_all add: run_live_def saved_live_def emit_def set_phase_status_def set_phase_def set_state_def
      set_memory_def set_orche_def split: option.split)

lemma live_upsert: "run_live r \<Longrightarrow> run_live (upsert r)"
  by (simp add: run_live_def saved_live_def upsert_def)

lemma live_reset [simp]: "run_live (reset_phases a b r) = run_live r"
proof -
  have "run_live (fold (\<lambda>j r. set_phase j (reset_phase_state (phase_at r j)) r) js r) = run_live r" for js
    by (induction js arbitrary: r) simp_all
  then show ?thesis by (simp add: reset_phases_def)
qed

lemma live_call: "call_handler env n r = (out, r') \<Longrightarrow> run_live r' = run_live r"
  by (auto simp: call_handler_def run_live_def saved_live_def set_state_def split: prod.splits)

lemma stopped_orche_fails: "stopped (orche_fails k e r)"
  by (simp add: orche_fails_def stopped_def upsert_def set_status_def set_state_def)

lemma stopped_orche_waits: "stopped (orche_waits n k out r)"
  by (simp add: orche_waits_def stopped_def upsert_def set_status_def set_state_def emit_def Let_def)

lemma live_orche_step:
  assumes "run_live r"
  shows "node_exit (orche_step env idx n r)"
proof (cases "orche_settled r (orche_at r (wn_id n))")
  case True
  with assms show ?thesis by (simp add: orche_step_def node_exit_def)
next
  case False
  let ?r1 = "emit (NodeStarted (wf_workflow_id (rn_state (set_orche (orche_at r (wn_id n)) (\<lambda>s. s\<lparr>os_status := OsRunning\<rparr>) r)))
                 (wn_id n) (node_type_of n)) (set_orche (orche_at r (wn_id n)) (\<lambda>s. s\<lparr>os_status := OsRunning\<rparr>) r)"
  obtain out r2 where call: "call_handler env n ?r1 = (out, r2)" by fastforce
  then have "run_live r2" using assms live_call by fastforce
  then show ?thesis using call False
    by (cases out) (auto simp: orche_step_def Let_def node_exit_def orche_done_def live_upsert
        stopped_orche_fails stopped_orche_waits)
qed

lemma live_phase_exit:
  assumes "run_live r" and "phase_exit nodes pds idx i pd r x"
  shows "node_exit x"
proof -
  have frame: "run_live r'" if "phase_frame i r r'" for r' using that assms(1) by (simp add: phase_frame_def)
  have "run_live r'" if "goto_exit nodes pds idx i pd cd r j r'" for cd j r'
    using that frame by (auto simp: goto_exit_def)
  moreover have "run_live (finalize_phase i pd r')" if "phase_frame i r r'" for r'
    using that by (intro frame frames)
  ultimately show ?thesis using assms(2) by (cases x) (auto simp: phase_exit_def node_exit_def)
qed

lemma live_phase_step:
  assumes "run_live r"
  shows "node_exit (phase_step env nodes pds resume idx n r)"
proof (cases "index_of (\<lambda>p. ph_phase_id p = wn_id n) (wf_phases (rn_state r))")
  case None
  with assms show ?thesis by (simp add: phase_step_def node_exit_def)
next
  case (Some i)
  have ex: "run_live r' \<Longrightarrow> node_exit (phase_execute env nodes pds idx i pd r')" for r' pd
    using live_phase_exit exit_phase_execute by blast
  show ?thesis using assms unfolding phase_step_def Some option.case Let_def
    by (simp add: node_exit_def[of "Next _ _"] node_exit_def[of "Throw _ _"] ex live_upsert split: node_body.split)
qed

lemma live_node_step:
  assumes "run_live r"
  shows "node_exit (node_step env nodes pds resume idx r)"
proof -
  let ?r = "r\<lparr>rn_checks := Suc (rn_checks r)\<rparr>"
  have live: "run_live ?r" using assms by simp
  have "wf_status (rn_state (set_status WfCancelled ?r)) = WfCancelled \<and> saved_live (set_status WfCancelled ?r)"
    using live by (simp add: run_live_def saved_live_def set_status_def set_state_def)
  then have "node_exit (Leave (set_status WfCancelled ?r))" by (simp add: node_exit_def)
  with live show ?thesis
    by (simp add: node_step_def Let_def live_orche_step live_phase_step skip_inactive_def node_exit_def[of "Next _ _"])
qed

lemma live_start: "run_live (start_run opts nodes pds)"
  by (simp add: start_run_def Let_def initial_state_def live_upsert run_live_def saved_live_def emit_def upsert_def
      split: option.split)

lemma live_head: "loop_head env nodes pds resume start idx r \<Longrightarrow> run_live start \<Longrightarrow> run_live r"
proof (induction rule: loop_head.induct)
  case (loop_next idx r j r')
  then show ?case using live_node_step[of r env nodes pds resume idx] by (simp add: node_exit_def)
qed

text \<open>C9. What a workflow run returns is what the store holds, and its status is final or waiting
  for the user; only a cancellation is returned without ever being stored.\<close>

theorem returned_state_stored:
  "case run_phase_loop env opts of
     None \<Rightarrow> False
   | Some (r, err) \<Rightarrow> wf_status (rn_state r) \<noteq> WfRunning
      \<and> (if wf_status (rn_state r) = WfCancelled then map_option wf_status (rn_saved r) \<noteq> Some WfCancelled
         else rn_saved r = Some (rn_state r))"
proof -
  obtain nodes pds where norm: "normalize_workflow (po_nodes opts) (po_phases opts) = (nodes, pds)" by fastforce
  let ?s = "start_run opts nodes pds" and ?res = "po_resume opts \<noteq> None"
  obtain x where x: "run_nodes env nodes pds ?res 0 ?s = Some x" using run_nodes_ends by blast
  obtain idx r where head: "loop_head env nodes pds ?res ?s idx r" and e: "loop_end env nodes pds ?res idx r x"
    using run_nodes_head[OF x loop_start] by blast
  have live: "run_live r" using live_head[OF head live_start] .
  have "node_exit x \<and> (\<forall>j r'. x \<noteq> Next j r') \<or> x = Leave r"
    using e live_node_step[OF live, of env nodes pds ?res idx] by (auto simp: loop_end_def split: if_splits)
  then show ?thesis using live norm x
    by (cases x)
       (auto simp: run_phase_loop_def finish_run_def node_exit_def stopped_def run_live_def saved_live_def
          emit_def upsert_def set_status_def set_state_def)
qed


section \<open>The critic's gate\<close>


lemma phase_at_put [simp]:
  "i < length (wf_phases (rn_state r)) \<Longrightarrow> phase_at (set_phase i p r) i = p"
  "phase_at (emit e r) j = phase_at r j" "phase_at (upsert r) j = phase_at r j"
  "phase_at (r\<lparr>rn_critics := n\<rparr>) j = phase_at r j"
  by (simp_all add: phase_at_def set_phase_def set_state_def emit_def upsert_def)


text \<open>Only the critic is asked by the critic's part of a round.\<close>

lemma critics_kept [simp]:
  "rn_critics (set_phase j p r) = rn_critics r" "rn_critics (upsert r) = rn_critics r" "rn_critics (emit e r) = rn_critics r"
  "rn_critics (set_phase_status j st r) = rn_critics r" "rn_critics (set_agent j k a r) = rn_critics r"
  "rn_critics (reset_agents P j r) = rn_critics r" "rn_critics (set_state f r) = rn_critics r"
  by (simp_all add: set_phase_def set_state_def upsert_def emit_def set_phase_status_def set_agent_def reset_agents_def)







end
