(* ===== verification/PhaseComplete.thy ===== *)
theory PhaseComplete
  imports PhaseCorrect
begin

text \<open>
  A workflow that is reported completed has dealt with every node: in an order that puts
  dependencies first, with jumps that only go back, the loop never passes a node it has not
  completed or skipped.
\<close>

section \<open>Well-formed workflows\<close>

definition is_phase_node :: "wf_node \<Rightarrow> bool" where
  "is_phase_node n = (case wn_body n of PhaseBody _ \<Rightarrow> True | _ \<Rightarrow> False)"

definition goto_back :: "wf_node list \<Rightarrow> nat \<Rightarrow> bool" where
  "goto_back nodes i = (case wn_body (nodes ! i) of
       PhaseBody b \<Rightarrow> (case pb_critic b of
           Some cd \<Rightarrow> (case index_of (\<lambda>n. is_phase_node n \<and> wn_id n = cd_target cd) nodes of Some j \<Rightarrow> j \<le> i | None \<Rightarrow> True)
         | None \<Rightarrow> True)
     | _ \<Rightarrow> True)"

definition deps_before :: "wf_node list \<Rightarrow> nat \<Rightarrow> bool" where
  "deps_before nodes i = list_all (\<lambda>d. list_ex (\<lambda>m. wn_id m = d \<and> wn_body m \<noteq> TriggerBody) (take i nodes)) (depends_list (nodes ! i))"

definition workflow_ok :: "wf_node list \<Rightarrow> bool" where
  "workflow_ok nodes \<longleftrightarrow> distinct (node_ids nodes) \<and> list_all (\<lambda>i. deps_before nodes i \<and> goto_back nodes i) [0..<length nodes]"

text \<open>The handlers of these nodes leave the nodes' states in place, and what was completed or skipped stays so.\<close>

abbreviation os_settled :: "orche_state \<Rightarrow> bool" where
  "os_settled s \<equiv> os_status s \<in> {OsCompleted, OsSkipped}"

definition states_kept :: "orche_state list \<Rightarrow> orche_state list \<Rightarrow> bool" where
  "states_kept oss oss' \<longleftrightarrow> map os_node_id oss' = map os_node_id oss \<and> (\<forall>j < length oss. os_settled (oss ! j) \<longrightarrow> os_settled (oss' ! j))"

definition handlers_keep :: "wf_node list \<Rightarrow> pl_env \<Rightarrow> bool" where
  "handlers_keep nodes env \<longleftrightarrow> (\<forall>n \<in> set nodes. \<forall>c mem oss. states_kept oss (snd (snd (pe_node env c n mem oss))))"

definition node_done :: "wf_run \<Rightarrow> wf_node \<Rightarrow> bool" where
  "node_done r n \<longleftrightarrow> wn_body n = TriggerBody \<or> wn_id n \<in> set (rn_skipped r)
     \<or> (\<exists>p \<in> set (wf_phases (rn_state r)). ph_phase_id p = wn_id n \<and> ph_status p = PsCompleted)
     \<or> (\<exists>s \<in> set (wf_orche_states (rn_state r)). os_node_id s = wn_id n \<and> os_settled s)"

text \<open>What normalisation makes of the phases.\<close>

definition phases_match :: "wf_node list \<Rightarrow> phase_def list \<Rightarrow> bool" where
  "phases_match nodes pds \<longleftrightarrow> map pd_phase_id pds = map wn_id (filter is_phase_node nodes)"

lemma normalize_match: "normalize_workflow ns ps = (nodes, pds) \<Longrightarrow> phases_match nodes pds"
proof -
  have ids: "map pd_phase_id (phases_of ms) = map wn_id (filter is_phase_node ms)" for ms
    by (induction ms) (auto simp: phases_of_def is_phase_node_def node_to_phase_def split: node_body.split)
  have "map pd_phase_id qs = map wn_id (filter is_phase_node (map phase_to_node qs))" for qs
    by (induction qs) (auto simp: is_phase_node_def phase_to_node_def)
  with ids show "normalize_workflow ns ps = (nodes, pds) \<Longrightarrow> phases_match nodes pds"
    by (auto simp: normalize_workflow_def phases_match_def Let_def split: if_splits)
qed


section \<open>Where the phases are\<close>

definition phase_pos :: "wf_node list \<Rightarrow> nat \<Rightarrow> nat" where
  "phase_pos nodes a = length (filter is_phase_node (take a nodes))"

lemma filter_nth_pos:
  assumes "a < length xs" and "P (xs ! a)"
  shows "length (filter P (take a xs)) < length (filter P xs) \<and> filter P xs ! length (filter P (take a xs)) = xs ! a"
proof -
  have "filter P xs = filter P (take a xs) @ xs ! a # filter P (drop (Suc a) xs)"
    using assms by (subst id_take_nth_drop[of a xs]) simp_all
  then show ?thesis by (simp add: nth_append)
qed

lemma distinct_filter_ids: "distinct (node_ids nodes) \<Longrightarrow> distinct (map wn_id (filter P nodes))"
  by (auto simp: node_ids_def distinct_map inj_on_def)

lemma phase_index:
  assumes "distinct (node_ids nodes)" and "a < length nodes" and "is_phase_node (nodes ! a)"
  shows "index_of (\<lambda>y. y = wn_id (nodes ! a)) (map wn_id (filter is_phase_node nodes)) = Some (phase_pos nodes a)"
proof -
  note pos = filter_nth_pos[where P = is_phase_node, OF assms(2,3)]
  have "index_of (\<lambda>n. wn_id n = wn_id (nodes ! a)) (filter is_phase_node nodes) = Some (phase_pos nodes a)"
    by (rule index_of_distinct) (use pos distinct_filter_ids[OF assms(1)] in \<open>simp_all add: phase_pos_def\<close>)
  then show ?thesis unfolding index_of_map[of wn_id] .
qed

lemma phase_pos_less: "a < b \<Longrightarrow> b \<le> length nodes \<Longrightarrow> is_phase_node (nodes ! a) \<Longrightarrow> phase_pos nodes a < phase_pos nodes b"
proof -
  assume ab: "a < b" "b \<le> length nodes" "is_phase_node (nodes ! a)"
  have "take b nodes = take a nodes @ drop a (take b nodes)" by (metis ab(1) append_take_drop_id min.absorb1 nat_less_le take_take)
  moreover have "drop a (take b nodes) = nodes ! a # drop (Suc a) (take b nodes)"
    using ab by (subst Cons_nth_drop_Suc[symmetric]) simp_all
  ultimately have "filter is_phase_node (take b nodes)
      = filter is_phase_node (take a nodes) @ nodes ! a # filter is_phase_node (drop (Suc a) (take b nodes))"
    using ab(3) by (metis filter.simps(2) filter_append)
  then show ?thesis by (simp add: phase_pos_def)
qed

lemma not_phase_index:
  assumes "distinct (node_ids nodes)" and "n \<in> set nodes" and "\<not> is_phase_node n"
  shows "index_of (\<lambda>y. y = wn_id n) (map wn_id (filter is_phase_node nodes)) = None"
  using assms by (auto simp: index_of_None node_ids_def distinct_map inj_on_def)


section \<open>Resolved dependencies\<close>

lemma dep_unmet_alt:
  "dep_unmet r d \<longleftrightarrow> d \<notin> set (rn_skipped r) \<and>
     (case index_of (\<lambda>y. y = d) (phase_ids r) of
        Some i \<Rightarrow> ph_status (wf_phases (rn_state r) ! i) \<noteq> PsCompleted
      | None \<Rightarrow> \<not> (case index_of (\<lambda>y. y = d) (orche_ids r) of None \<Rightarrow> False | Some j \<Rightarrow> os_settled (wf_orche_states (rn_state r) ! j)))"
  unfolding dep_unmet_def orche_settled_def orche_at_def phase_at_def index_of_map[of ph_phase_id] index_of_map[of os_node_id]
  by simp

lemma resolved_mono:
  assumes "\<not> dep_unmet r d" and "phase_ids r' = phase_ids r" and "orche_ids r' = orche_ids r"
    and "set (rn_skipped r) \<subseteq> set (rn_skipped r')"
    and "\<And>i. index_of (\<lambda>y. y = d) (phase_ids r) = Some i \<Longrightarrow> ph_status (wf_phases (rn_state r) ! i) = PsCompleted
        \<Longrightarrow> ph_status (wf_phases (rn_state r') ! i) = PsCompleted"
    and "\<And>j. j < length (wf_orche_states (rn_state r)) \<Longrightarrow> os_settled (wf_orche_states (rn_state r) ! j)
        \<Longrightarrow> os_settled (wf_orche_states (rn_state r') ! j)"
  shows "\<not> dep_unmet r' d"
proof -
  have "j < length (wf_orche_states (rn_state r))" if "index_of (\<lambda>y. y = d) (orche_ids r) = Some j" for j
    using that by (simp add: index_of_Some)
  then show ?thesis using assms unfolding dep_unmet_alt by (auto split: option.splits)
qed

lemma resolved_frame:
  assumes "phase_frame i r r'" and "\<not> dep_unmet r d" and "index_of (\<lambda>y. y = d) (phase_ids r) \<noteq> Some i"
  shows "\<not> dep_unmet r' d"
  by (rule resolved_mono[OF assms(2)]) (use assms(1,3) in \<open>auto simp: phase_frame_def\<close>)

lemma resolved_done: "\<not> dep_unmet r (wn_id n) \<Longrightarrow> node_done r n"
proof -
  assume "\<not> dep_unmet r (wn_id n)"
  then consider "wn_id n \<in> set (rn_skipped r)"
    | i where "i < length (wf_phases (rn_state r))" "ph_phase_id (wf_phases (rn_state r) ! i) = wn_id n"
        "ph_status (wf_phases (rn_state r) ! i) = PsCompleted"
    | j where "j < length (wf_orche_states (rn_state r))" "os_node_id (wf_orche_states (rn_state r) ! j) = wn_id n"
        "os_settled (wf_orche_states (rn_state r) ! j)"
    unfolding dep_unmet_alt by (auto simp: index_of_Some split: option.splits)
  then show ?thesis unfolding node_done_def by cases (blast, use nth_mem in blast, use nth_mem in blast)
qed

definition node_settled :: "wf_run \<Rightarrow> wf_node \<Rightarrow> bool" where
  "node_settled r n \<longleftrightarrow> wn_body n = TriggerBody \<or> \<not> dep_unmet r (wn_id n)"

definition done_inv :: "wf_node list \<Rightarrow> phase_def list \<Rightarrow> nat \<Rightarrow> wf_run \<Rightarrow> bool" where
  "done_inv nodes pds idx r \<longleftrightarrow> phase_ids r = map pd_phase_id pds \<and> orche_ids r = map wn_id (filter is_orche_node nodes)
     \<and> rn_completed r = [] \<and> (\<forall>a < idx. a < length nodes \<longrightarrow> node_settled r (nodes ! a))"

lemma done_inv_next:
  assumes "done_inv nodes pds idx r" and "phase_ids r' = phase_ids r" and "orche_ids r' = orche_ids r"
    and "rn_completed r' = rn_completed r"
    and "\<And>a. a < idx \<Longrightarrow> a < length nodes \<Longrightarrow> \<not> dep_unmet r (wn_id (nodes ! a)) \<Longrightarrow> \<not> dep_unmet r' (wn_id (nodes ! a))"
    and "idx < length nodes \<Longrightarrow> node_settled r' (nodes ! idx)"
  shows "done_inv nodes pds (Suc idx) r'"
  using assms unfolding done_inv_def node_settled_def by (auto simp: less_Suc_eq)


section \<open>Every step keeps the invariant\<close>

lemma set_orche_other [simp]:
  "wf_phases (rn_state (set_orche k f r)) = wf_phases (rn_state r)"
  "rn_skipped (set_orche k f r) = rn_skipped r"
  "rn_completed (set_orche k f r) = rn_completed r"
  by (auto simp: set_orche_def set_state_def split: option.split)

lemma set_orche_states:
  "wf_orche_states (rn_state (set_orche k f r)) = (case k of None \<Rightarrow> wf_orche_states (rn_state r)
     | Some j \<Rightarrow> (wf_orche_states (rn_state r))[j := f (wf_orche_states (rn_state r) ! j)])"
  by (auto simp: set_orche_def set_state_def split: option.split)

lemma set_orche_ids: "(\<And>s. os_node_id (f s) = os_node_id s) \<Longrightarrow> orche_ids (set_orche k f r) = orche_ids r"
proof -
  assume f: "\<And>s. os_node_id (f s) = os_node_id s"
  have "map os_node_id (xs[j := f (xs ! j)]) = map os_node_id xs" for xs j
  proof (cases "j < length xs")
    case True
    then show ?thesis by (simp add: map_update f list_update_same_conv)
  qed (simp add: list_update_beyond)
  then show ?thesis by (simp add: set_orche_states split: option.split)
qed

lemma set_orche_settled:
  assumes "os_settled (wf_orche_states (rn_state r) ! j)" and "\<And>s. os_settled s \<Longrightarrow> os_settled (f s)"
  shows "os_settled (wf_orche_states (rn_state (set_orche k f r)) ! j)"
proof (cases k)
  case (Some m)
  show ?thesis
  proof (cases "m = j \<and> m < length (wf_orche_states (rn_state r))")
    case True
    with assms Some show ?thesis by (simp add: set_orche_states)
  next
    case False
    then have "(wf_orche_states (rn_state r))[m := y] ! j = wf_orche_states (rn_state r) ! j" for y
      by (cases "m = j") (simp_all add: list_update_beyond)
    with assms(1) Some show ?thesis by (simp add: set_orche_states)
  qed
qed (use assms(1) in \<open>simp add: set_orche_states\<close>)

lemma emit_upsert_same [simp]:
  "rn_state (emit e r) = rn_state r" "rn_skipped (emit e r) = rn_skipped r" "rn_completed (emit e r) = rn_completed r"
  "rn_state (upsert r) = rn_state r" "rn_skipped (upsert r) = rn_skipped r" "rn_completed (upsert r) = rn_completed r"
  by (simp_all add: emit_def upsert_def)

lemma dep_unmet_cong:
  "rn_skipped r' = rn_skipped r \<Longrightarrow> wf_phases (rn_state r') = wf_phases (rn_state r)
    \<Longrightarrow> wf_orche_states (rn_state r') = wf_orche_states (rn_state r) \<Longrightarrow> dep_unmet r' d = dep_unmet r d"
  by (simp only: dep_unmet_alt)

lemma dep_unmet_same [simp]:
  "dep_unmet (emit e r) d = dep_unmet r d" "dep_unmet (upsert r) d = dep_unmet r d"
  "dep_unmet (r\<lparr>rn_checks := c\<rparr>) d = dep_unmet r d"
  "dep_unmet (set_state (\<lambda>s. s\<lparr>wf_memory := g s\<rparr>) r) d = dep_unmet r d"
  "dep_unmet (set_memory k v r) d = dep_unmet r d"
  "dep_unmet (set_state (wf_current_phase_update h) r) d = dep_unmet r d"
  by (rule dep_unmet_cong; simp add: set_state_def set_memory_def)+

lemma add_all_set: "set (add_all xs S) = set xs \<union> set S"
proof -
  have "set (fold (\<lambda>x S. if x \<in> set S then S else S @ [x]) xs S) = set xs \<union> set S"
    by (induction xs arbitrary: S) auto
  then show ?thesis by (simp add: add_all_def)
qed

text \<open>A handled node: what was settled is settled, and the node itself is.\<close>

lemma done_orche:
  assumes shape: "distinct (node_ids nodes)" "phases_match nodes pds"
    and keep: "handlers_keep nodes env" and idx: "idx < length nodes" "is_orche_node (nodes ! idx)"
    and inv: "done_inv nodes pds idx r" and step: "orche_step env idx (nodes ! idx) r = Next j r'"
  shows "done_inv nodes pds j r'"
proof -
  let ?n = "nodes ! idx" and ?k = "orche_at r (wn_id (nodes ! idx))"
  have np: "index_of (\<lambda>y. y = wn_id ?n) (phase_ids r) = None"
    using not_phase_index[OF shape(1), of ?n] idx inv shape(2)
    by (auto simp: done_inv_def phases_match_def is_phase_node_def is_orche_node_def split: node_body.splits)
  have "wn_id ?n \<in> set (orche_ids r)" using idx inv by (simp add: done_inv_def)
  then have "?k \<noteq> None" by (auto simp: orche_at_def index_of_None)
  then obtain k where k: "?k = Some k" by blast
  then have k2: "k < length (wf_orche_states (rn_state r))" "index_of (\<lambda>y. y = wn_id ?n) (orche_ids r) = Some k"
    unfolding orche_at_def index_of_map[of os_node_id] by (auto simp: index_of_Some)
  show ?thesis
  proof (cases "orche_settled r ?k")
    case True
    then have "node_settled r ?n" using k k2(2) np by (simp add: node_settled_def dep_unmet_alt orche_settled_def)
    moreover have "j = Suc idx" "r' = r" using step True by (simp_all add: orche_step_def)
    ultimately show ?thesis using inv done_inv_next[OF inv, of r] by simp
  next
    case False
    let ?r1 = "set_orche ?k (\<lambda>s. s\<lparr>os_status := OsRunning\<rparr>) r"
    let ?r2 = "emit (NodeStarted (wf_workflow_id (rn_state ?r1)) (wn_id ?n) (node_type_of ?n)) ?r1"
    obtain out branch r3 where call: "call_handler env ?n ?r2 = (NodeOutput out branch, r3)"
      using step False by (cases "call_handler env ?n ?r2"; cases "fst (call_handler env ?n ?r2)")
        (auto simp: orche_step_def Let_def)
    let ?r4 = "set_state (\<lambda>s. s\<lparr>wf_memory := apply_field_mappings (wf_memory s) (wn_id ?n) out (pe_mappings env)\<rparr>)
                 (set_memory (wn_id ?n) out r3)"
    let ?r5 = "?r4\<lparr>rn_skipped := add_all (branch_skips ?n branch) (rn_skipped ?r4)\<rparr>"
    let ?r6 = "set_orche ?k (\<lambda>s. s\<lparr>os_status := OsCompleted, os_result := Some out\<rparr>) ?r5"
    have "orche_done env idx ?n ?k out ?r5 = Next j r'"
      using step False call by (auto simp: orche_step_def Let_def split: if_splits)
    then obtain ev where fin: "j = Suc idx" "r' = upsert (emit ev ?r6)"
      by (auto simp: orche_done_def Let_def split: if_splits)
    obtain o3 mem where pe: "pe_node env (rn_nodes ?r2) ?n (wf_memory (rn_state ?r2)) (wf_orche_states (rn_state ?r2))
        = (NodeOutput out branch, mem, o3)"
      and r3: "r3 = set_state (\<lambda>s. s\<lparr>wf_memory := mem, wf_orche_states := o3\<rparr>) (?r2\<lparr>rn_nodes := Suc (rn_nodes ?r2)\<rparr>)"
      using call by (auto simp: call_handler_def split: prod.splits)
    have "states_kept (wf_orche_states (rn_state ?r2)) (snd (snd (pe_node env (rn_nodes ?r2) ?n (wf_memory (rn_state ?r2)) (wf_orche_states (rn_state ?r2)))))"
      using keep idx(1) unfolding handlers_keep_def by (simp only: nth_mem)
    then have kept: "states_kept (wf_orche_states (rn_state ?r1)) o3" unfolding pe by (simp add: emit_def)
    have keep3: "map os_node_id o3 = orche_ids ?r1"
        "\<And>m. m < length (wf_orche_states (rn_state ?r1)) \<Longrightarrow> os_settled (wf_orche_states (rn_state ?r1) ! m) \<Longrightarrow> os_settled (o3 ! m)"
      using kept unfolding states_kept_def by blast+
    have o5: "wf_orche_states (rn_state ?r5) = o3" "wf_phases (rn_state ?r5) = wf_phases (rn_state r)"
        "rn_completed ?r5 = rn_completed r" "set (rn_skipped r) \<subseteq> set (rn_skipped ?r5)"
      by (auto simp: r3 set_state_def set_memory_def add_all_set)
    have ids1: "orche_ids ?r1 = orche_ids r" by (rule set_orche_ids) simp
    have ids6: "orche_ids ?r6 = orche_ids r"
      using set_orche_ids[of "\<lambda>s. s\<lparr>os_status := OsCompleted, os_result := Some out\<rparr>" ?k ?r5] keep3(1) ids1 o5(1) by simp
    have settled6: "os_settled (wf_orche_states (rn_state ?r6) ! m)"
      if "m < length (wf_orche_states (rn_state r))" "os_settled (wf_orche_states (rn_state r) ! m)" for m
    proof -
      have "m \<noteq> k" using that(2) False k by (auto simp: orche_settled_def)
      then have "wf_orche_states (rn_state ?r1) ! m = wf_orche_states (rn_state r) ! m" by (simp add: set_orche_states k)
      moreover have "m < length (wf_orche_states (rn_state ?r1))" using that(1) by (simp add: set_orche_states k)
      ultimately have "os_settled (wf_orche_states (rn_state ?r5) ! m)" using keep3(2) that(2) o5(1) by simp
      then show ?thesis by (rule set_orche_settled) simp
    qed
    have skip6: "set (rn_skipped r) \<subseteq> set (rn_skipped ?r6)" using o5(4) by simp
    have phases6: "wf_phases (rn_state ?r6) = wf_phases (rn_state r)" using o5(2) by simp
    have "length o3 = length (wf_orche_states (rn_state r))" using keep3(1) ids1 by (metis length_map)
    then have "os_settled (wf_orche_states (rn_state ?r6) ! k)" using k2(1) o5(1) by (simp add: set_orche_states k)
    then have self: "\<not> dep_unmet ?r6 (wn_id ?n)" using np k2(2) ids6 phases6 unfolding dep_unmet_alt by simp
    have mono: "\<not> dep_unmet ?r6 d" if "\<not> dep_unmet r d" for d
      by (rule resolved_mono[OF that]) (use phases6 ids6 skip6 settled6 in simp_all)
    have "done_inv nodes pds (Suc idx) r'"
      by (rule done_inv_next[OF inv]) (use mono self ids6 phases6 o5(3) in \<open>simp_all add: fin(2) node_settled_def\<close>)
    with fin(1) show ?thesis by simp
  qed
qed

lemma reset_phases_frame:
  "rn_skipped (reset_phases a b r) = rn_skipped r \<and> rn_completed (reset_phases a b r) = rn_completed r
   \<and> wf_orche_states (rn_state (reset_phases a b r)) = wf_orche_states (rn_state r)
   \<and> phase_ids (reset_phases a b r) = phase_ids r
   \<and> (\<forall>c. c < a \<or> b < c \<longrightarrow> wf_phases (rn_state (reset_phases a b r)) ! c = wf_phases (rn_state r) ! c)"
proof -
  let ?step = "\<lambda>j r. set_phase j (reset_phase_state (phase_at r j)) r"
  have "rn_skipped (fold ?step js r) = rn_skipped r \<and> rn_completed (fold ?step js r) = rn_completed r
     \<and> wf_orche_states (rn_state (fold ?step js r)) = wf_orche_states (rn_state r)
     \<and> phase_ids (fold ?step js r) = phase_ids r
     \<and> (\<forall>c. c \<notin> set js \<longrightarrow> wf_phases (rn_state (fold ?step js r)) ! c = wf_phases (rn_state r) ! c)" for js
  proof (induction js arbitrary: r)
    case (Cons j js)
    have "phase_ids (?step j r) = phase_ids r" by (rule set_phase_ids) (simp add: reset_phase_state_def)
    with Cons.IH[of "?step j r"] show ?case by (simp add: set_phase_def set_state_def)
  qed simp
  then show ?thesis unfolding reset_phases_def by simp
qed

text \<open>A phase that ran, or jumped back.\<close>

lemma done_phase_exit:
  assumes shape: "distinct (node_ids nodes)" "phases_match nodes pds" and idx: "idx < length nodes"
    and body: "wn_body (nodes ! idx) = PhaseBody b" and i: "i = phase_pos nodes idx"
    and backward: "goto_back nodes idx" and inv: "done_inv nodes pds idx r"
    and leave: "phase_exit nodes pds idx i (node_to_phase (nodes ! idx) b) r (Next j r')"
  shows "done_inv nodes pds j r'"
proof -
  let ?n = "nodes ! idx" and ?pd = "node_to_phase (nodes ! idx) b"
  have ph: "is_phase_node ?n" using body by (simp add: is_phase_node_def)
  have ids: "phase_ids r = map wn_id (filter is_phase_node nodes)"
    using inv shape(2) by (simp add: done_inv_def phases_match_def)
  have at: "index_of (\<lambda>y. y = wn_id ?n) (phase_ids r) = Some i"
    using phase_index[OF shape(1) idx ph] ids i by simp
  have other: "index_of (\<lambda>y. y = wn_id (nodes ! a)) (phase_ids r) \<noteq> Some i" if "a < length nodes" "a \<noteq> idx" for a
  proof
    assume "index_of (\<lambda>y. y = wn_id (nodes ! a)) (phase_ids r) = Some i"
    with at have "wn_id (nodes ! a) = wn_id ?n" by (simp add: index_of_Some)
    then show False using that idx shape(1) nth_eq_iff_index_eq[of "node_ids nodes" a idx] by (simp add: node_ids_def)
  qed
  from leave consider (fin) r1 where "j = Suc idx" "phase_frame i r r1" "r' = finalize_phase i ?pd r1"
    | (jump) cd where "pb_critic b = Some cd" "goto_exit nodes pds idx i ?pd cd r j r'"
    by (auto simp: phase_exit_def pd_critic_node)
  then show ?thesis
  proof cases
    case fin
    have f: "phase_frame i r r'" using fin(2,3) by (simp add: frames)
    have len: "i < length (wf_phases (rn_state r1))"
    proof -
      have "i < length (phase_ids r)" using at by (simp add: index_of_Some)
      moreover have "length (phase_ids r1) = length (phase_ids r)" using fin(2) by (simp add: phase_frame_def)
      ultimately show ?thesis by simp
    qed
    have "ph_status (wf_phases (rn_state r') ! i) = PsCompleted"
      using len by (simp add: fin(3) finalize_phase_def Let_def set_phase_status_def set_phase_def set_state_def)
    moreover have "phase_ids r' = phase_ids r" using f by (simp add: phase_frame_def)
    ultimately have "\<not> dep_unmet r' (wn_id ?n)" using at by (simp add: dep_unmet_alt)
    moreover have "\<not> dep_unmet r' (wn_id (nodes ! a))" if "a < idx" "\<not> dep_unmet r (wn_id (nodes ! a))" for a
      using resolved_frame[OF f that(2)] other[of a] that(1) idx by simp
    ultimately have "done_inv nodes pds (Suc idx) r'"
      by (intro done_inv_next[OF inv]) (use f in \<open>simp_all add: phase_frame_def node_settled_def\<close>)
    with fin(1) show ?thesis by simp
  next
    case jump
    then obtain t r1 where t: "cd_target cd \<noteq> []" "index_of (\<lambda>p. pd_phase_id p = cd_target cd) pds = Some t"
        "j = goto_index nodes (cd_target cd) idx" and f: "phase_frame i r r1" and r': "r' = reset_phases t i r1"
      by (auto simp: goto_exit_def)
    note reset = reset_phases_frame[of t i r1]
    have ids_pds: "map pd_phase_id pds = map wn_id (filter is_phase_node nodes)" using shape(2) by (simp add: phases_match_def)
    from t(2) have "index_of (\<lambda>y. y = cd_target cd) (map pd_phase_id pds) = Some t" unfolding index_of_map[of pd_phase_id] .
    then have tn: "index_of (\<lambda>y. y = cd_target cd) (map wn_id (filter is_phase_node nodes)) = Some t" by (simp add: ids_pds)
    then have "cd_target cd \<in> set (map wn_id (filter is_phase_node nodes))" unfolding index_of_Some by (metis nth_mem)
    then obtain c where c: "c < length nodes" "is_phase_node (nodes ! c)" "wn_id (nodes ! c) = cd_target cd"
      by (auto simp: in_set_conv_nth)
    have dist: "distinct (map wn_id nodes)" using shape(1) by (simp add: node_ids_def)
    have ic: "index_of (\<lambda>n. wn_id n = cd_target cd) nodes = Some c" by (rule index_of_distinct[OF dist c(1,3)])
    then have jc: "j = c" using t(3) by (simp add: goto_index_def)
    have tc: "t = phase_pos nodes c" using phase_index[OF shape(1) c(1,2)] tn c(3) by simp
    have "index_of (\<lambda>n. is_phase_node n \<and> wn_id n = cd_target cd) nodes = Some c"
      using c ic by (auto simp: index_of_Some)
    then have le: "c \<le> idx" using backward body jump(1) by (simp add: goto_back_def)
    have "node_settled r' (nodes ! a)" if a: "a < j" "a < length nodes" for a
    proof -
      have "node_settled r (nodes ! a)" using inv a jc le by (simp add: done_inv_def)
      moreover have "\<not> dep_unmet r' (wn_id (nodes ! a))" if un: "\<not> dep_unmet r (wn_id (nodes ! a))"
      proof -
        have one: "\<not> dep_unmet r1 (wn_id (nodes ! a))"
          using resolved_frame[OF f un] other[of a] a jc le by simp
        show ?thesis
        proof (rule resolved_mono[OF one])
          fix m assume m: "index_of (\<lambda>y. y = wn_id (nodes ! a)) (phase_ids r1) = Some m"
            and "ph_status (wf_phases (rn_state r1) ! m) = PsCompleted"
          have r1ids: "phase_ids r1 = map wn_id (filter is_phase_node nodes)" using f ids by (simp add: phase_frame_def)
          have "m < t"
          proof (cases "is_phase_node (nodes ! a)")
            case True
            then have "m = phase_pos nodes a" using phase_index[OF shape(1) a(2) True] m r1ids by simp
            then show ?thesis using phase_pos_less[of a c nodes] a jc c(1) True tc by simp
          next
            case False
            then show ?thesis using not_phase_index[OF shape(1), of "nodes ! a"] a(2) m r1ids by simp
          qed
          then show "ph_status (wf_phases (rn_state r') ! m) = PsCompleted"
            using reset \<open>ph_status (wf_phases (rn_state r1) ! m) = PsCompleted\<close> by (simp add: r')
        qed (use reset in \<open>simp_all add: r'\<close>)
      qed
      ultimately show ?thesis by (auto simp: node_settled_def)
    qed
    then show ?thesis using inv f reset by (simp add: done_inv_def r' phase_frame_def)
  qed
qed

lemma done_same:
  assumes "done_inv nodes pds idx r" and "node_settled r (nodes ! idx)"
    and "phase_ids r' = phase_ids r" "orche_ids r' = orche_ids r" "rn_completed r' = rn_completed r"
    and "\<And>d. \<not> dep_unmet r d \<Longrightarrow> \<not> dep_unmet r' d"
  shows "done_inv nodes pds (Suc idx) r'"
  by (rule done_inv_next[OF assms(1,3-5)]) (use assms(2,6) in \<open>auto simp: node_settled_def\<close>)

lemma done_skip:
  assumes "done_inv nodes pds idx r" and "wn_id (nodes ! idx) \<in> set (rn_skipped r)"
  shows "done_inv nodes pds (Suc idx) (skip_inactive (nodes ! idx) r)"
proof (rule done_same[OF assms(1)])
  let ?n = "nodes ! idx"
  let ?r1 = "set_orche (orche_at r (wn_id ?n)) (\<lambda>s. s\<lparr>os_status := OsSkipped\<rparr>) r"
  show "node_settled r ?n" using assms(2) by (simp add: node_settled_def dep_unmet_alt)
  have ids: "orche_ids ?r1 = orche_ids r" by (rule set_orche_ids) simp
  then show "orche_ids (skip_inactive ?n r) = orche_ids r" by (simp add: skip_inactive_def)
  fix d assume un: "\<not> dep_unmet r d"
  have "\<not> dep_unmet ?r1 d"
    by (rule resolved_mono[OF un]) (use ids set_orche_settled in simp_all)
  with un show "\<not> dep_unmet (skip_inactive ?n r) d" by (simp add: skip_inactive_def)
qed (simp_all add: skip_inactive_def)

lemma done_phase_step:
  assumes shape: "distinct (node_ids nodes)" "phases_match nodes pds" and idx: "idx < length nodes"
    and orche: "\<not> is_orche_node (nodes ! idx)" and backward: "goto_back nodes idx" and inv: "done_inv nodes pds idx r"
    and step: "phase_step env nodes pds False idx (nodes ! idx) r = Next j r'"
  shows "done_inv nodes pds j r'"
proof -
  let ?n = "nodes ! idx"
  have ids: "phase_ids r = map wn_id (filter is_phase_node nodes)"
    using inv shape(2) by (simp add: done_inv_def phases_match_def)
  show ?thesis
  proof (cases "is_phase_node ?n")
    case False
    then have "index_of (\<lambda>y. y = wn_id ?n) (phase_ids r) = None"
      using not_phase_index[OF shape(1), of ?n] idx ids by simp
    then have "index_of (\<lambda>p. ph_phase_id p = wn_id ?n) (wf_phases (rn_state r)) = None"
      unfolding index_of_map[of ph_phase_id] .
    then have "j = Suc idx" "r' = r" using step by (simp_all add: phase_step_def)
    moreover have "node_settled r ?n"
      using False orche by (auto simp: node_settled_def is_phase_node_def is_orche_node_def split: node_body.splits)
    ultimately show ?thesis using done_same[OF inv] by simp
  next
    case True
    then obtain b where b: "wn_body ?n = PhaseBody b" by (auto simp: is_phase_node_def split: node_body.splits)
    define i where "i = phase_pos nodes idx"
    have at: "index_of (\<lambda>y. y = wn_id ?n) (phase_ids r) = Some i"
      using phase_index[OF shape(1) idx True] ids by (simp add: i_def)
    then have found: "index_of (\<lambda>p. ph_phase_id p = wn_id ?n) (wf_phases (rn_state r)) = Some i"
      unfolding index_of_map[of ph_phase_id] .
    let ?r1 = "set_state (\<lambda>s. s\<lparr>wf_current_phase := i\<rparr>) r"
    let ?r3 = "emit (PhaseStarted (wf_workflow_id (rn_state ?r1)) (wn_id ?n)) (upsert (set_phase_status i PsRunning ?r1))"
    have same1: "wf_phases (rn_state ?r1) = wf_phases (rn_state r)" by (simp add: set_state_def)
    show ?thesis
    proof (cases "ph_status (phase_at ?r1 i) = PsCompleted")
      case True
      then have settled: "node_settled r ?n" using at same1 by (simp add: node_settled_def dep_unmet_alt phase_at_def)
      have same: "dep_unmet ?r1 d = dep_unmet r d" for d by simp
      have "done_inv nodes pds (Suc idx) ?r1"
        by (rule done_same[OF inv settled]) (simp_all only: same, simp_all add: set_state_def)
      moreover have "j = Suc idx" "r' = ?r1"
        using step True unfolding phase_step_def found by (simp_all add: Let_def)
      ultimately show ?thesis by simp
    next
      case False
      have run: "phase_execute env nodes pds idx i (node_to_phase ?n b) ?r3 = Next j r'"
        using step False unfolding phase_step_def found by (simp add: Let_def b)
      have f: "phase_frame i r ?r3" by (intro frames frame_refl)
      have "phase_exit nodes pds idx i (node_to_phase ?n b) ?r3 (Next j r')"
        using exit_phase_execute[of nodes pds idx i "node_to_phase ?n b" ?r3 env] run by simp
      with f have "phase_exit nodes pds idx i (node_to_phase ?n b) r (Next j r')" by (rule phase_exit_trans)
      with done_phase_exit[OF shape idx b i_def backward inv] show ?thesis by blast
    qed
  qed
qed

lemma deps_met:
  assumes "deps_before nodes idx" and "idx \<le> length nodes" and "done_inv nodes pds idx r"
  shows "\<not> list_ex (dep_unmet r) (depends_list (nodes ! idx))"
proof
  assume "list_ex (dep_unmet r) (depends_list (nodes ! idx))"
  then obtain d where d: "d \<in> set (depends_list (nodes ! idx))" "dep_unmet r d" by (auto simp: list_ex_iff)
  then obtain m where m: "m \<in> set (take idx nodes)" "wn_id m = d" "wn_body m \<noteq> TriggerBody"
    using assms(1) by (auto simp: deps_before_def list_all_iff list_ex_iff)
  then obtain a where a: "a < idx" "a < length nodes" "nodes ! a = m" by (auto simp: in_set_conv_nth)
  then have "node_settled r m" using assms(3) by (auto simp: done_inv_def)
  with m d(2) show False by (simp add: node_settled_def)
qed

lemma done_node_step:
  assumes ok: "workflow_ok nodes" "phases_match nodes pds" and keep: "handlers_keep nodes env" and idx: "idx < length nodes"
    and inv: "done_inv nodes pds idx r" and step: "node_step env nodes pds False idx r = Next j r'"
  shows "done_inv nodes pds j r'"
proof -
  let ?n = "nodes ! idx" and ?r = "r\<lparr>rn_checks := Suc (rn_checks r)\<rparr>"
  have dist: "distinct (node_ids nodes)" and before: "deps_before nodes idx" and backward: "goto_back nodes idx"
    using ok(1) idx by (auto simp: workflow_ok_def list_all_iff)
  have inv2: "done_inv nodes pds idx ?r" using inv by (simp add: done_inv_def node_settled_def)
  have none: "wn_id ?n \<notin> set (rn_completed ?r)" using inv by (simp add: done_inv_def)
  have met: "\<not> list_ex (dep_unmet ?r) (depends_list ?n)" using deps_met[OF before _ inv2] idx by simp
  have noabort: "\<not> pe_aborted env (rn_checks r)" using step by (auto simp: node_step_def Let_def)
  have step2: "(if wn_id ?n \<in> set (rn_skipped ?r) then Next (Suc idx) (skip_inactive ?n ?r)
       else if is_orche_node ?n then orche_step env idx ?n ?r else phase_step env nodes pds False idx ?n ?r) = Next j r'"
    using step unfolding node_step_def Let_def if_not_P[OF noabort] if_not_P[OF none] if_not_P[OF met] .
  show ?thesis
  proof (cases "wn_id ?n \<in> set (rn_skipped ?r)")
    case True
    with step2 done_skip[OF inv2] show ?thesis by simp
  next
    case noskip: False
    show ?thesis
    proof (cases "is_orche_node ?n")
      case True
      with step2 noskip done_orche[OF dist ok(2) keep idx True inv2] show ?thesis by simp
    next
      case False
      with step2 noskip done_phase_step[OF dist ok(2) idx False backward inv2] show ?thesis by simp
    qed
  qed
qed

lemma done_head:
  assumes "loop_head env nodes pds False start idx r" and "workflow_ok nodes" and "phases_match nodes pds"
    and "handlers_keep nodes env" and "done_inv nodes pds 0 start"
  shows "done_inv nodes pds idx r"
  using assms(1)
proof (induction rule: loop_head.induct)
  case loop_start
  show ?case by (rule assms(5))
next
  case (loop_next idx r j r')
  with done_node_step[OF assms(2-4)] show ?case by blast
qed

lemma done_start:
  assumes "po_resume opts = None"
  shows "done_inv nodes pds 0 (start_run opts nodes pds)"
  using assms
  by (simp add: done_inv_def start_run_def initial_state_def emit_def upsert_def Let_def build_initial_phase_state_def comp_def)

text \<open>
  C7. Take a workflow with distinct ids whose nodes only depend on earlier nodes that are no triggers, whose critics
  only jump back to phases, and whose handlers take no completed node back. When a new run of it, not a resumed one,
  is reported completed, every node has been completed or was left out by a branch, and nothing was thrown.
\<close>

theorem completed_means_done:
  assumes "normalize_workflow (po_nodes opts) (po_phases opts) = (nodes, pds)" and "workflow_ok nodes"
    and "po_resume opts = None" and "handlers_keep nodes env"
    and "run_phase_loop env opts = Some (r, err)" and "wf_status (rn_state r) = WfCompleted"
  shows "err = None \<and> (\<forall>n \<in> set nodes. node_done r n)"
proof -
  let ?s = "start_run opts nodes pds"
  have match: "phases_match nodes pds" using normalize_match[OF assms(1)] .
  obtain x where x: "run_nodes env nodes pds False 0 ?s = Some x" "finish_run x = (r, err)"
    using assms(1,3,5) by (auto simp: run_phase_loop_def)
  obtain idx r1 where head: "loop_head env nodes pds False ?s idx r1" and e: "loop_end env nodes pds False idx r1 x"
    using run_nodes_head[OF x(1) loop_start] by blast
  have live: "run_live r1" using live_head[OF head live_start] .
  have inv: "done_inv nodes pds idx r1" using done_head[OF head assms(2) match assms(4) done_start[OF assms(3)]] .
  have "\<not> idx < length nodes"
  proof
    assume "idx < length nodes"
    then have "node_exit x" "\<forall>j r'. x \<noteq> Next j r'"
      using e live_node_step[OF live, of env nodes pds False idx] by (auto simp: loop_end_def)
    with x(2) assms(6) show False
      by (cases x) (auto simp: finish_run_def node_exit_def stopped_def set_status_def set_state_def split: if_splits)
  qed
  then have done_: "x = Leave r1" using e by (simp add: loop_end_def)
  have settled: "node_settled r1 n" if "n \<in> set nodes" for n
    using that inv \<open>\<not> idx < length nodes\<close> by (auto simp: done_inv_def in_set_conv_nth)
  have same: "rn_skipped r = rn_skipped r1" "wf_phases (rn_state r) = wf_phases (rn_state r1)"
      "wf_orche_states (rn_state r) = wf_orche_states (rn_state r1)" and err: "err = None"
    using x(2) by (auto simp: done_ finish_run_def set_status_def set_state_def split: if_splits)
  have "node_done r n" if "n \<in> set nodes" for n
  proof (cases "wn_body n = TriggerBody")
    case True
    then show ?thesis by (simp add: node_done_def)
  next
    case False
    with settled[OF that] have "\<not> dep_unmet r1 (wn_id n)" by (simp add: node_settled_def)
    then have "\<not> dep_unmet r (wn_id n)" using dep_unmet_cong[OF same] by simp
    then show ?thesis by (rule resolved_done)
  qed
  with err show ?thesis by blast
qed

end
