(* ===== verification/PhaseFindings.thy ===== *)
theory PhaseFindings
  imports PhaseComplete
begin

text \<open>
  Runs of small workflows: the witnesses of the theorems on the main loop, and behaviours of it
  that its hypotheses exclude or that surprise.
\<close>

section \<open>Small workflows\<close>

definition demo_agent :: "string \<Rightarrow> agent_def" where
  "demo_agent k = \<lparr>ad_agent_id = k, ad_role = ''implementer'', ad_label = k, ad_backend = ''codex_cli'', ad_model = None,
     ad_system_prompt = [], ad_tools = None, ad_max_turns = None, ad_isolation = None\<rparr>"

definition demo_critic :: "rejection_policy option \<Rightarrow> string option \<Rightarrow> critic_def" where
  "demo_critic policy target = \<lparr>cd_backend = ''codex_cli'', cd_model = None, cd_system_prompt = [], cd_gate = True,
     cd_on_rejection = policy, cd_goto_phase = target, cd_max_retries = None\<rparr>"

definition demo_phase :: "string \<Rightarrow> string list \<Rightarrow> critic_def option \<Rightarrow> phase_mode option \<Rightarrow> wf_node" where
  "demo_phase k deps critic mode = \<lparr>wn_id = k, wn_title = k, wn_depends_on = Some deps, wn_body = PhaseBody
     \<lparr>pb_agents = [demo_agent ''worker''], pb_critic = critic, pb_context_template = None, pb_failure_policy = None,
      pb_quorum_count = None, pb_mode = mode, pb_loop_until = None, pb_max_loop_iterations = None,
      pb_tools = None, pb_skills = None\<rparr>\<rparr>"

definition demo_env :: "(nat \<Rightarrow> string) \<Rightarrow> pl_env" where
  "demo_env critic = \<lparr>pe_agent = (\<lambda>_. AgentReturn True ''ok'' None), pe_critic = (\<lambda>n. CriticSays (critic n)),
     pe_node = (\<lambda>_ _ mem oss. (NodeOutput (JStr ''out'') (Some ''true''), mem, oss)), pe_aborted = (\<lambda>_. False),
     pe_ask_user = None, pe_json = (\<lambda>_. None), pe_str = (\<lambda>_. []), pe_stringify = (\<lambda>_. []),
     pe_workspace = ''ws'', pe_mappings = []\<rparr>"

definition demo_options :: "wf_node list \<Rightarrow> wf_state option \<Rightarrow> pl_options" where
  "demo_options nodes resume = \<lparr>po_workflow_id = ''w'', po_title = [], po_objective = [], po_channel = [], po_chat_id = [],
     po_nodes = Some nodes, po_phases = None, po_initial_memory = [], po_resume = resume\<rparr>"

definition demo_run :: "pl_env \<Rightarrow> wf_node list \<Rightarrow> wf_state option \<Rightarrow> wf_run" where
  "demo_run env nodes resume = fst (the (run_phase_loop env (demo_options nodes resume)))"

definition phase_statuses :: "wf_run \<Rightarrow> phase_status list" where
  "phase_statuses r = map ph_status (wf_phases (rn_state r))"

text \<open>What the returned state says.\<close>

definition run_summary :: "wf_run \<Rightarrow> wf_status \<times> phase_status list" where
  "run_summary r = (wf_status (rn_state r), phase_statuses r)"

definition branch_nodes :: "wf_node list" where
  "branch_nodes = [demo_phase ''build'' [''gate''] None None,
     \<lparr>wn_id = ''gate'', wn_title = [], wn_depends_on = None, wn_body = IfBody [''build''] [''rework'']\<rparr>,
     demo_phase ''rework'' [''gate''] None None]"

declare run_nodes.simps [code]

lemma branch_run: "case run_phase_loop (demo_env (\<lambda>_. [])) (demo_options branch_nodes None) of
   Some (r, err) \<Rightarrow> wf_status (rn_state r) = WfCompleted \<and> phase_statuses r = [PsCompleted, PsPending] | None \<Rightarrow> False"
  by code_simp

theorem completed_means_done_witness:
  "case run_phase_loop (demo_env (\<lambda>_. [])) (demo_options branch_nodes None) of
     None \<Rightarrow> False
   | Some (r, err) \<Rightarrow> err = None \<and> list_all (node_done r) (topological_sort branch_nodes)"
proof -
  let ?env = "demo_env (\<lambda>_. [])" and ?o = "demo_options branch_nodes None"
  obtain r err where run: "run_phase_loop ?env ?o = Some (r, err)" and st: "wf_status (rn_state r) = WfCompleted"
    using branch_run by (auto split: option.splits)
  have norm: "normalize_workflow (po_nodes ?o) (po_phases ?o)
      = (topological_sort branch_nodes, phases_of (topological_sort branch_nodes))"
    by (simp add: demo_options_def normalize_workflow_def branch_nodes_def Let_def)
  have ok: "workflow_ok (topological_sort branch_nodes)" by code_simp
  have resume: "po_resume ?o = None" by (simp add: demo_options_def)
  have keep: "handlers_keep (topological_sort branch_nodes) ?env" by (simp add: handlers_keep_def states_kept_def demo_env_def)
  from completed_means_done[OF norm ok resume keep run st] run show ?thesis by (simp add: list_all_iff)
qed






section \<open>Surprises\<close>

text \<open>A dependency that names no node is never met: the node is passed over without an event, and
  the workflow is reported completed. A trigger node counts as such a dependency.\<close>

lemma unknown_dependency_dropped:
  "run_summary (demo_run (demo_env (\<lambda>_. [])) [demo_phase ''a'' [''typo''] None None] None) = (WfCompleted, [PsPending])"
  by code_simp

lemma trigger_dependency_dropped:
  "run_summary (demo_run (demo_env (\<lambda>_. []))
     [\<lparr>wn_id = ''t'', wn_title = [], wn_depends_on = None, wn_body = TriggerBody\<rparr>, demo_phase ''a'' [''t''] None None] None)
   = (WfCompleted, [PsPending])"
  by code_simp

text \<open>An abort that arrives inside the last phase, when that phase loops, ends the loop, and the
  workflow is completed with whatever the agent had said.\<close>

lemma aborted_loop_completes:
  "wf_status (rn_state (demo_run ((demo_env (\<lambda>_. []))\<lparr>pe_aborted := \<lambda>n. 2 \<le> n\<rparr>)
     [demo_phase ''a'' [] None (Some ModeSequentialLoop)] None)) = WfCompleted"
  by code_simp

text \<open>A jump forward leaves the judged phase under review and passes the phases in between.\<close>

lemma forward_goto_passes:
  "run_summary (demo_run (demo_env (\<lambda>_. ''rejected''))
     [demo_phase ''a'' [] (Some (demo_critic (Some Goto) (Some ''c''))) None, demo_phase ''b'' [] None None,
      demo_phase ''c'' [] None None] None)
   = (WfCompleted, [PsReviewing, PsPending, PsCompleted])"
  by code_simp

text \<open>After a resume the phases that were complete stay on the list of nodes to pass over: a
  critic's jump back to one resets it, nothing runs it again, the judged phase waits for it, and
  the workflow is reported completed with both phases pending.\<close>

definition resume_nodes :: "wf_node list" where
  "resume_nodes = [demo_phase ''a'' [] None None,
     demo_phase ''b'' [''a''] (Some (demo_critic (Some Goto) (Some ''a''))) None]"

definition resume_state :: wf_state where
  "resume_state = (let s = initial_state (demo_options resume_nodes None) resume_nodes (phases_of resume_nodes)
     in s\<lparr>wf_phases := (wf_phases s)[0 := (wf_phases s ! 0)\<lparr>ph_status := PsCompleted\<rparr>]\<rparr>)"

lemma resumed_goto_skips:
  "run_summary (demo_run (demo_env (\<lambda>_. ''rejected'')) resume_nodes (Some resume_state)) = (WfCompleted, [PsPending, PsPending])"
  by code_simp

end
