(* ===== verification/NodeHandlers.thy ===== *)
theory NodeHandlers
  imports PhaseFindings
begin

text \<open>
  The two handlers that change the states of other nodes: \<open>src/src/agent/nodes/retry.ts\<close> and \<open>error-handler.ts\<close>.
  Executing a node is an argument, a function of how often this handler has done it; it throws a message or gives an
  output. Delays and events are left out. When these handlers take no completed node back, which
  \<open>completed_means_done\<close> asks for, and what happens when one does.
\<close>

section \<open>The handlers\<close>

type_synonym node_executor = "nat \<Rightarrow> wf_node \<Rightarrow> memory \<Rightarrow> string + jsval"

text \<open>\<open>all_nodes.find\<close>, and whether it is a node with a handler.\<close>

definition handled_node :: "wf_node list \<Rightarrow> string \<Rightarrow> wf_node option" where
  "handled_node nodes k = (case find (\<lambda>n. wn_id n = k) nodes of None \<Rightarrow> None | Some n \<Rightarrow> if is_orche_node n then Some n else None)"

definition change_state :: "string \<Rightarrow> (orche_state \<Rightarrow> orche_state) \<Rightarrow> orche_state list \<Rightarrow> orche_state list" where
  "change_state k f oss = (case index_of (\<lambda>s. os_node_id s = k) oss of None \<Rightarrow> oss | Some j \<Rightarrow> oss[j := f (oss ! j)])"

definition start_again :: "orche_state \<Rightarrow> orche_state" where
  "start_again s = s\<lparr>os_status := OsRunning, os_error := None, os_result := None\<rparr>"

definition complete_with :: "jsval \<Rightarrow> orche_state \<Rightarrow> orche_state" where
  "complete_with out s = s\<lparr>os_status := OsCompleted, os_result := Some out\<rparr>"

definition retry_output :: "jsval \<Rightarrow> int \<Rightarrow> bool \<Rightarrow> string \<Rightarrow> jsval" where
  "retry_output res attempts ok err =
     JObj [(''result'', res), (''attempts'', JNum (of_int attempts)), (''succeeded'', JBool ok), (''last_error'', JStr err)]"

text \<open>The attempts that are left; \<open>i\<close> have been made.\<close>

fun retry_attempts :: "node_executor \<Rightarrow> wf_node \<Rightarrow> int \<Rightarrow> nat \<Rightarrow> nat \<Rightarrow> string \<Rightarrow> memory \<Rightarrow> orche_state list
    \<Rightarrow> node_outcome \<times> memory \<times> orche_state list" where
  "retry_attempts run target mx 0 i err mem oss = (NodeOutput (retry_output JNull mx False err) None, mem, oss)"
| "retry_attempts run target mx (Suc left) i err mem oss =
     (let oss = change_state (wn_id target) start_again oss
      in case run i target mem of
           Inl e \<Rightarrow> retry_attempts run target mx left (Suc i) e mem oss
         | Inr out \<Rightarrow> (NodeOutput (retry_output out (int i + 1) True []) None, jset (wn_id target) out mem,
                       change_state (wn_id target) (complete_with out) oss))"

record retry_def =
  rt_target :: string
  rt_max :: int

definition retry_target :: "retry_def \<Rightarrow> wf_node \<Rightarrow> string" where
  "retry_target rd n = (if rt_target rd \<noteq> [] then rt_target rd else case wn_depends_on n of Some (d # _) \<Rightarrow> d | _ \<Rightarrow> [])"

definition retry_handler :: "node_executor \<Rightarrow> wf_node list \<Rightarrow> retry_def \<Rightarrow> wf_node \<Rightarrow> memory \<Rightarrow> orche_state list
    \<Rightarrow> node_outcome \<times> memory \<times> orche_state list" where
  "retry_handler run nodes rd n mem oss =
     (case handled_node nodes (retry_target rd n) of
        None \<Rightarrow> (NodeOutput (retry_output JNull 0 False (''target node not found: '' @ retry_target rd n)) None, mem, oss)
      | Some target \<Rightarrow> let mx = (if rt_max rd = 0 then 3 else rt_max rd) in retry_attempts run target mx (nat mx) 0 [] mem oss)"

record error_handler_def =
  eh_try :: "string list"
  eh_fallback :: bool
  eh_fallbacks :: "string list"

definition error_output :: "bool \<Rightarrow> string \<Rightarrow> string \<Rightarrow> jsval \<Rightarrow> jsval" where
  "error_output failed err k out = JObj [(''has_error'', JBool failed), (''error'', JStr err), (''error_node'', JStr k), (''output'', out)]"

text \<open>A fallback node sees the error in its memory, which is a copy; its state is not changed.\<close>

fun run_fallbacks :: "node_executor \<Rightarrow> wf_node list \<Rightarrow> string \<Rightarrow> string \<Rightarrow> string list \<Rightarrow> nat \<Rightarrow> jsval \<Rightarrow> memory \<Rightarrow> jsval \<times> memory" where
  "run_fallbacks run nodes k err [] i out mem = (error_output True err k out, mem)"
| "run_fallbacks run nodes k err (f # fs) i out mem =
     (case handled_node nodes f of
        None \<Rightarrow> run_fallbacks run nodes k err fs i out mem
      | Some n \<Rightarrow>
          (case run i n (jset ''_error'' (JObj [(''node_id'', JStr k), (''message'', JStr err)]) mem) of
             Inl e \<Rightarrow> (error_output True (''fallback '' @ f @ '' failed: '' @ e) f JNull, mem)
           | Inr res \<Rightarrow> run_fallbacks run nodes k err fs (Suc i) res (jset f res mem)))"

fun try_nodes :: "node_executor \<Rightarrow> wf_node list \<Rightarrow> error_handler_def \<Rightarrow> string list \<Rightarrow> nat \<Rightarrow> jsval \<Rightarrow> memory \<Rightarrow> orche_state list
    \<Rightarrow> node_outcome \<times> memory \<times> orche_state list" where
  "try_nodes run nodes ed [] i out mem oss = (NodeOutput (error_output False [] [] out) None, mem, oss)"
| "try_nodes run nodes ed (k # ks) i out mem oss =
     (case handled_node nodes k of
        None \<Rightarrow> try_nodes run nodes ed ks i out mem oss
      | Some n \<Rightarrow>
          (case run i n mem of
             Inl e \<Rightarrow>
               if eh_fallback ed \<and> eh_fallbacks ed \<noteq> []
               then (case run_fallbacks run nodes k e (eh_fallbacks ed) (Suc i) JNull mem of (res, mem) \<Rightarrow> (NodeOutput res None, mem, oss))
               else (NodeOutput (error_output True e k JNull) None, mem, oss)
           | Inr res \<Rightarrow> try_nodes run nodes ed ks (Suc i) res (jset k res mem) (change_state k (complete_with res) oss)))"

definition error_handler :: "node_executor \<Rightarrow> wf_node list \<Rightarrow> error_handler_def \<Rightarrow> memory \<Rightarrow> orche_state list
    \<Rightarrow> node_outcome \<times> memory \<times> orche_state list" where
  "error_handler run nodes ed mem oss = try_nodes run nodes ed (eh_try ed) 0 JNull mem oss"


section \<open>What they keep\<close>

lemma states_kept_refl [simp]: "states_kept oss oss"
  by (simp add: states_kept_def)

lemma states_kept_trans: "states_kept a b \<Longrightarrow> states_kept b c \<Longrightarrow> states_kept a c"
  unfolding states_kept_def by (metis length_map)

lemma change_state_ids [simp]: "(\<And>s. os_node_id (f s) = os_node_id s) \<Longrightarrow> map os_node_id (change_state k f oss) = map os_node_id oss"
  by (auto simp: change_state_def index_of_Some map_update list_update_same_conv split: option.split)

lemma settling_keeps:
  assumes "\<And>s. os_node_id (f s) = os_node_id s" "\<And>s. os_settled (f s)"
  shows "states_kept oss (change_state k f oss)"
proof -
  have "os_settled (change_state k f oss ! j)" if "os_settled (oss ! j)" for j
  proof (cases "index_of (\<lambda>s. os_node_id s = k) oss")
    case None
    then show ?thesis using that by (simp add: change_state_def)
  next
    case (Some m)
    then have "m < length oss" by (simp add: index_of_Some)
    then show ?thesis using that Some assms(2)[of "oss ! m"] by (cases "j = m") (simp_all add: change_state_def)
  qed
  then show ?thesis unfolding states_kept_def using change_state_ids[of f k oss, OF assms(1)] by blast
qed

lemma complete_keeps: "states_kept oss (change_state k (complete_with out) oss)"
  by (rule settling_keeps) (simp_all add: complete_with_def)

text \<open>The error handler completes nodes and takes none back.\<close>

lemma try_nodes_keep: "states_kept oss (snd (snd (try_nodes run nodes ed ks i out mem oss)))"
proof (induction run nodes ed ks i out mem oss rule: try_nodes.induct)
  case (2 run nodes ed k ks i out mem oss)
  show ?case
  proof (cases "handled_node nodes k")
    case None
    then show ?thesis using 2(1) by simp
  next
    case (Some n)
    show ?thesis
    proof (cases "run i n mem")
      case (Inl e)
      then show ?thesis using Some by (simp split: prod.split)
    next
      case (Inr res)
      have "states_kept (change_state k (complete_with res) oss)
          (snd (snd (try_nodes run nodes ed ks (Suc i) res (jset k res mem) (change_state k (complete_with res) oss))))"
        by (rule 2(2)[OF Some Inr])
      with complete_keeps have "states_kept oss
          (snd (snd (try_nodes run nodes ed ks (Suc i) res (jset k res mem) (change_state k (complete_with res) oss))))"
        by (rule states_kept_trans)
      then show ?thesis using Some Inr by simp
    qed
  qed
qed simp

lemma error_handler_keeps: "states_kept oss (snd (snd (error_handler run nodes ed mem oss)))"
  by (simp add: error_handler_def try_nodes_keep)

text \<open>A retry keeps what was completed when an attempt succeeds: then the target is completed again.\<close>

lemma changed_index:
  assumes "\<And>s. os_node_id (f s) = os_node_id s"
  shows "index_of (\<lambda>s. os_node_id s = k) (change_state k f oss) = index_of (\<lambda>s. os_node_id s = k) oss"
  unfolding index_of_map[of os_node_id] change_state_ids[of f k oss, OF assms] ..

lemma change_twice:
  assumes "\<And>s. os_node_id (f s) = os_node_id s"
  shows "change_state k g (change_state k f oss) = change_state k (\<lambda>s. g (f s)) oss"
proof (cases "index_of (\<lambda>s. os_node_id s = k) oss")
  case None
  then show ?thesis by (simp add: change_state_def)
next
  case (Some j)
  then have "j < length oss" by (simp add: index_of_Some)
  then show ?thesis using Some changed_index[of f k oss, OF assms] by (simp add: change_state_def)
qed

lemma again_completed: "states_kept oss (change_state k (complete_with out) (change_state k start_again oss))"
proof -
  have "change_state k (complete_with out) (change_state k start_again oss) = change_state k (\<lambda>s. complete_with out (start_again s)) oss"
    by (rule change_twice) (simp add: start_again_def)
  moreover have "states_kept oss (change_state k (\<lambda>s. complete_with out (start_again s)) oss)"
    by (rule settling_keeps) (simp_all add: complete_with_def start_again_def)
  ultimately show ?thesis by simp
qed

lemma start_again_twice: "change_state k start_again (change_state k start_again oss) = change_state k start_again oss"
proof -
  have "change_state k start_again (change_state k start_again oss) = change_state k (\<lambda>s. start_again (start_again s)) oss"
    by (rule change_twice) (simp add: start_again_def)
  moreover have "(\<lambda>s. start_again (start_again s)) = start_again" by (simp add: start_again_def fun_eq_iff)
  ultimately show ?thesis by simp
qed

lemma retry_keeps:
  assumes "i \<le> j" "j < i + left" "run j target mem = Inr out"
  shows "states_kept oss (snd (snd (retry_attempts run target mx left i err mem oss)))"
  using assms
proof (induction left arbitrary: i err oss)
  case (Suc left)
  have again: "retry_attempts run target mx left' i' err' mem (change_state (wn_id target) start_again oss)
      = retry_attempts run target mx left' i' err' mem oss" if "left' \<noteq> 0" for left' i' err'
    using that by (cases left') (simp_all add: start_again_twice)
  show ?case
  proof (cases "run i target mem")
    case (Inl e)
    then have "i \<noteq> j" using Suc.prems(3) by auto
    then have j: "Suc i \<le> j" "j < Suc i + left" using Suc.prems(1,2) by simp_all
    have "states_kept oss (snd (snd (retry_attempts run target mx left (Suc i) e mem oss)))" by (rule Suc.IH[OF j Suc.prems(3)])
    moreover have "left \<noteq> 0" using j by simp
    ultimately show ?thesis using Inl again by (simp add: Let_def)
  next
    case (Inr res)
    then show ?thesis using again_completed by (simp add: Let_def)
  qed
qed simp


section \<open>A retry that fails\<close>

text \<open>
  When all attempts fail the target stays running although it was completed: what depends on it is passed over
  without an event, and the workflow is reported completed.
\<close>

definition retry_nodes :: "wf_node list" where
  "retry_nodes = [\<lparr>wn_id = ''fetch'', wn_title = [], wn_depends_on = None, wn_body = OtherBody ''http''\<rparr>,
     \<lparr>wn_id = ''again'', wn_title = [], wn_depends_on = Some [''fetch''], wn_body = OtherBody ''retry''\<rparr>,
     \<lparr>wn_id = ''report'', wn_title = [], wn_depends_on = Some [''fetch'', ''again''], wn_body = OtherBody ''template''\<rparr>]"

definition retry_env :: pl_env where
  "retry_env = (demo_env (\<lambda>_. []))\<lparr>pe_node := \<lambda>c n mem oss.
     if wn_body n = OtherBody ''retry''
     then retry_handler (\<lambda>_ _ _. Inl ''down'') retry_nodes \<lparr>rt_target = ''fetch'', rt_max = 0\<rparr> n mem oss
     else (NodeOutput (JStr ''out'') None, mem, oss)\<rparr>"

lemma failed_retry_drops:
  "(let s = rn_state (demo_run retry_env retry_nodes None)
    in (wf_status s, map (\<lambda>x. (os_node_id x, os_status x)) (wf_orche_states s)))
   = (WfCompleted, [(''fetch'', OsRunning), (''again'', OsCompleted), (''report'', OsPending)])"
  by code_simp

end
