(* ===== verification/WorkflowStore.thy ===== *)
theory WorkflowStore
  imports PhaseState
begin

text \<open>
  \<open>src/src/agent/phase-workflow-store.ts\<close>: the table of workflows and the table of agent
  messages. A row's JSON column holds the state it encodes, or \<open>None\<close> when the text does not
  parse; rows are in order of insertion and carry the time of their last write. A store error is
  not modelled. With it \<open>cancel\<close> of \<open>src/src/dashboard/ops/workflow.ts\<close>, which goes through
  the store alone.
\<close>

section \<open>Operations\<close>

record stored_wf =
  sf_state :: wf_state
  sf_auto_approve :: "bool option"
  sf_auto_resume :: "bool option"

record wf_row =
  rw_payload :: "stored_wf option"
  rw_updated :: nat

record agent_message =
  am_workflow :: string
  am_phase :: string
  am_agent :: string
  am_message :: phase_message

record wf_store =
  ws_rows :: "(string, wf_row) jmap"
  ws_messages :: "agent_message list"

definition stored_id :: "stored_wf \<Rightarrow> string" where
  "stored_id s = wf_workflow_id (sf_state s)"

definition ws_upsert :: "nat \<Rightarrow> stored_wf \<Rightarrow> wf_store \<Rightarrow> wf_store" where
  "ws_upsert now s db =
     (let save = (case jget (ws_rows db) (stored_id s) of
           None \<Rightarrow> s
         | Some row \<Rightarrow> (case rw_payload row of
               None \<Rightarrow> s
             | Some prev \<Rightarrow> s\<lparr>sf_auto_approve := sf_auto_approve prev, sf_auto_resume := sf_auto_resume prev\<rparr>))
      in db\<lparr>ws_rows := jset (stored_id save) \<lparr>rw_payload = Some save, rw_updated = now\<rparr> (ws_rows db)\<rparr>)"

definition patch_settings :: "nat \<Rightarrow> string \<Rightarrow> bool option \<Rightarrow> bool option \<Rightarrow> wf_store \<Rightarrow> wf_store" where
  "patch_settings now wid approve resume db =
     (case jget (ws_rows db) wid of
        None \<Rightarrow> db
      | Some row \<Rightarrow> (case rw_payload row of
            None \<Rightarrow> db
          | Some prev \<Rightarrow>
              (let updated = (case approve of Some b \<Rightarrow> prev\<lparr>sf_auto_approve := Some b\<rparr> | None \<Rightarrow> prev);
                   updated = (case resume of Some b \<Rightarrow> updated\<lparr>sf_auto_resume := Some b\<rparr> | None \<Rightarrow> updated)
               in db\<lparr>ws_rows := jset wid \<lparr>rw_payload = Some updated, rw_updated = now\<rparr> (ws_rows db)\<rparr>)))"

definition ws_get :: "wf_store \<Rightarrow> string \<Rightarrow> stored_wf option" where
  "ws_get db wid = (case jget (ws_rows db) wid of None \<Rightarrow> None | Some row \<Rightarrow> rw_payload row)"

text \<open>The newest write first; rows written at the same time come out with the later row first.\<close>

definition ws_list :: "wf_store \<Rightarrow> stored_wf list" where
  "ws_list db = concat (map (\<lambda>row. case rw_payload row of Some s \<Rightarrow> [s] | None \<Rightarrow> [])
     (rev (sort_key rw_updated (jvals (ws_rows db)))))"

definition ws_remove :: "string \<Rightarrow> wf_store \<Rightarrow> bool \<times> wf_store" where
  "ws_remove wid db = (jhas (ws_rows db) wid,
     db\<lparr>ws_messages := filter (\<lambda>m. am_workflow m \<noteq> wid) (ws_messages db), ws_rows := jdel wid (ws_rows db)\<rparr>)"

definition insert_message :: "string \<Rightarrow> string \<Rightarrow> string \<Rightarrow> phase_message \<Rightarrow> wf_store \<Rightarrow> wf_store" where
  "insert_message wid pid aid m db = db\<lparr>ws_messages := ws_messages db @
     [\<lparr>am_workflow = wid, am_phase = pid, am_agent = aid, am_message = m\<rparr>]\<rparr>"

definition get_messages :: "wf_store \<Rightarrow> string \<Rightarrow> string \<Rightarrow> string \<Rightarrow> phase_message list" where
  "get_messages db wid pid aid = map am_message
     (filter (\<lambda>m. am_workflow m = wid \<and> am_phase m = pid \<and> am_agent m = aid) (ws_messages db))"

definition cancel_workflow :: "nat \<Rightarrow> string \<Rightarrow> wf_store \<Rightarrow> bool \<times> wf_store" where
  "cancel_workflow now wid db = (case ws_get db wid of
       None \<Rightarrow> (False, db)
     | Some s \<Rightarrow> (True, ws_upsert now (s\<lparr>sf_state := (sf_state s)\<lparr>wf_status := WfCancelled\<rparr>\<rparr>) db))"


section \<open>What the store keeps\<close>

lemma get_upsert:
  "ws_get (ws_upsert now s db) wid = (if wid = stored_id s
     then Some (case ws_get db wid of None \<Rightarrow> s
                | Some prev \<Rightarrow> s\<lparr>sf_auto_approve := sf_auto_approve prev, sf_auto_resume := sf_auto_resume prev\<rparr>)
     else ws_get db wid)"
  by (auto simp: ws_get_def ws_upsert_def Let_def stored_id_def split: option.splits)

lemma get_patch:
  "ws_get (patch_settings now wid approve resume db) wid' = (case ws_get db wid' of
     None \<Rightarrow> None
   | Some s \<Rightarrow> Some (if wid' = wid
       then s\<lparr>sf_auto_approve := (case approve of Some b \<Rightarrow> Some b | None \<Rightarrow> sf_auto_approve s),
              sf_auto_resume := (case resume of Some b \<Rightarrow> Some b | None \<Rightarrow> sf_auto_resume s)\<rparr>
       else s))"
  by (auto simp: ws_get_def patch_settings_def Let_def split: option.splits)

lemma get_after_upserts:
  assumes "ws_get db wid = Some prev" and "list_all (\<lambda>(t, s). stored_id s = wid) ss"
  shows "ws_get (fold (\<lambda>(t, s). ws_upsert t s) ss db) wid =
     Some (if ss = [] then prev
           else (snd (last ss))\<lparr>sf_auto_approve := sf_auto_approve prev, sf_auto_resume := sf_auto_resume prev\<rparr>)"
  using assms
proof (induction ss arbitrary: db prev)
  case (Cons x ss)
  obtain t s where x: "x = (t, s)" by (cases x)
  let ?kept = "s\<lparr>sf_auto_approve := sf_auto_approve prev, sf_auto_resume := sf_auto_resume prev\<rparr>"
  have "ws_get (ws_upsert t s db) wid = Some ?kept" using Cons.prems by (simp add: get_upsert x)
  from Cons.IH[OF this] Cons.prems(2) show ?case by (cases "ss = []") (simp_all add: x)
qed simp

text \<open>What the user has set stays: a running workflow stores its states as often as it likes,
  each carrying whatever settings it started with, and the stored workflow is its last state with
  the user's settings.\<close>

theorem settings_survive_runs:
  assumes "ws_get db wid = Some prev" and "list_all (\<lambda>(t, s). stored_id s = wid) ss" and "ss \<noteq> []"
  shows "ws_get (fold (\<lambda>(t, s). ws_upsert t s) ss (patch_settings now wid (Some approve) (Some resume) db)) wid
     = Some \<lparr>sf_state = sf_state (snd (last ss)), sf_auto_approve = Some approve, sf_auto_resume = Some resume\<rparr>"
proof -
  let ?db = "patch_settings now wid (Some approve) (Some resume) db"
  have "ws_get ?db wid = Some (prev\<lparr>sf_auto_approve := Some approve, sf_auto_resume := Some resume\<rparr>)"
    using assms(1) by (simp add: get_patch)
  from get_after_upserts[OF this assms(2)] assms(3) show ?thesis by simp
qed

definition demo_stored :: "wf_status \<Rightarrow> stored_wf" where
  "demo_stored st = \<lparr>sf_state = \<lparr>wf_workflow_id = ''w'', wf_title = [], wf_objective = [], wf_channel = [], wf_chat_id = [],
     wf_status = st, wf_current_phase = 0, wf_phases = [], wf_orche_states = [], wf_memory = []\<rparr>,
     sf_auto_approve = None, sf_auto_resume = None\<rparr>"

definition demo_store :: wf_store where
  "demo_store = ws_upsert 0 (demo_stored WfRunning) \<lparr>ws_rows = [], ws_messages = []\<rparr>"

theorem settings_survive_runs_witness:
  "ws_get (ws_upsert 3 (demo_stored WfCompleted) (ws_upsert 2 (demo_stored WfWaitingUserInput)
      (patch_settings 1 ''w'' (Some True) (Some False) demo_store))) ''w''
   = Some ((demo_stored WfCompleted)\<lparr>sf_auto_approve := Some True, sf_auto_resume := Some False\<rparr>)"
proof -
  have "ws_get demo_store ''w'' = Some (demo_stored WfRunning)"
    by (simp add: demo_store_def ws_upsert_def stored_id_def demo_stored_def ws_get_def)
  from settings_survive_runs[OF this, of "[(2, demo_stored WfWaitingUserInput), (3, demo_stored WfCompleted)]" 1 True False]
  show ?thesis by (simp add: stored_id_def demo_stored_def)
qed

text \<open>Messages come back in the order they were put in, and only to their own agent.\<close>

lemma get_insert_message:
  "get_messages (insert_message wid pid aid m db) wid' pid' aid' =
     get_messages db wid' pid' aid' @ (if (wid', pid', aid') = (wid, pid, aid) then [m] else [])"
  by (auto simp: get_messages_def insert_message_def)

lemma get_remove:
  "ws_get (snd (ws_remove wid db)) wid' = (if wid' = wid then None else ws_get db wid')"
  "get_messages (snd (ws_remove wid db)) wid pid aid = []"
  by (auto simp: ws_get_def ws_remove_def get_messages_def filter_empty_conv)

text \<open>A cancellation lasts until the running loop stores its own state again.\<close>

lemma cancel_overwritten:
  assumes "ws_get db wid = Some s" and "stored_id s = wid" and "stored_id s' = wid"
  shows "map_option (wf_status \<circ> sf_state) (ws_get (snd (cancel_workflow t wid db)) wid) = Some WfCancelled"
    and "map_option (wf_status \<circ> sf_state) (ws_get (ws_upsert t' s' (snd (cancel_workflow t wid db))) wid) = Some (wf_status (sf_state s'))"
  using assms by (auto simp: cancel_workflow_def get_upsert stored_id_def split: option.splits)

end
