(* ===== verification/MessageBus.thy ===== *)
theory MessageBus
  imports Prelude "HOL-Library.Sublist"
begin

text \<open>
  The message bus in memory, \<open>src/src/bus/service.ts\<close>: a bounded queue with a head index, and
  the three directions of the bus, each a queue with the consumers that wait on it.

  A consumer is a number and its call settles once, with a message or with nothing; the settled
  calls of a direction are kept in the order they settle. A consumer's timer is an operation of
  its own. Messages are objects, so a message taken from the queue is never falsy.
\<close>

section \<open>The bounded queue\<close>

datatype overflow_policy = DropOldest | RejectNewest

record 'a bqueue =
  bq_items :: "'a option list"
  bq_head :: nat
  bq_capacity :: int
  bq_policy :: overflow_policy
  bq_overflow :: nat

definition compact_threshold :: nat where
  "compact_threshold = 512"

definition bq_new :: "int \<Rightarrow> overflow_policy \<Rightarrow> 'a bqueue" where
  "bq_new capacity policy =
     \<lparr>bq_items = [], bq_head = 0, bq_capacity = max 1 capacity, bq_policy = policy, bq_overflow = 0\<rparr>"

definition bq_length :: "'a bqueue \<Rightarrow> int" where
  "bq_length q = int (length (bq_items q)) - int (bq_head q)"

definition bq_compact :: "'a bqueue \<Rightarrow> 'a bqueue" where
  "bq_compact q = (if compact_threshold \<le> bq_head q \<and> length (bq_items q) \<le> 2 * bq_head q
     then q\<lparr>bq_items := drop (bq_head q) (bq_items q), bq_head := 0\<rparr> else q)"

text \<open>The message a push returns is the one it did not keep.\<close>

definition bq_push :: "'a \<Rightarrow> 'a bqueue \<Rightarrow> 'a option \<times> 'a bqueue" where
  "bq_push x q =
     (if bq_capacity q \<le> bq_length q
      then let q = q\<lparr>bq_overflow := Suc (bq_overflow q)\<rparr>
           in if bq_policy q = RejectNewest then (Some x, q)
              else (bq_items q ! bq_head q,
                bq_compact (q\<lparr>bq_items := (bq_items q)[bq_head q := None] @ [Some x], bq_head := Suc (bq_head q)\<rparr>))
      else (None, q\<lparr>bq_items := bq_items q @ [Some x]\<rparr>))"

definition bq_shift :: "'a bqueue \<Rightarrow> 'a option \<times> 'a bqueue" where
  "bq_shift q =
     (if length (bq_items q) \<le> bq_head q then (None, q)
      else (bq_items q ! bq_head q,
        bq_compact (q\<lparr>bq_items := (bq_items q)[bq_head q := None], bq_head := Suc (bq_head q)\<rparr>)))"

definition bq_clear :: "'a bqueue \<Rightarrow> int \<times> 'a bqueue" where
  "bq_clear q = (bq_length q, q\<lparr>bq_items := [], bq_head := 0\<rparr>)"


section \<open>The bus\<close>

record 'a bus_channel =
  ch_queue :: "'a bqueue"
  ch_waiters :: "nat list"
  ch_settled :: "(nat \<times> 'a option) list"

record ('i, 'o, 'p) message_bus =
  mb_inbound :: "'i bus_channel"
  mb_outbound :: "'o bus_channel"
  mb_progress :: "'p bus_channel"
  mb_observers :: "nat list"
  mb_observed :: "(nat \<times> ('i + 'o)) list"
  mb_closed :: bool

definition default_queue_size :: int where
  "default_queue_size = 10000"

definition channel_new :: "int \<Rightarrow> overflow_policy \<Rightarrow> 'a bus_channel" where
  "channel_new cap policy = \<lparr>ch_queue = bq_new cap policy, ch_waiters = [], ch_settled = []\<rparr>"

definition bus_new :: "int option \<Rightarrow> overflow_policy option \<Rightarrow> ('i, 'o, 'p) message_bus" where
  "bus_new max_queue_size policy =
     (let cap = max 1 (case max_queue_size of Some n \<Rightarrow> n | None \<Rightarrow> default_queue_size);
          p = (case policy of Some p \<Rightarrow> p | None \<Rightarrow> DropOldest)
      in \<lparr>mb_inbound = channel_new cap p, mb_outbound = channel_new cap p, mb_progress = channel_new cap p,
          mb_observers = [], mb_observed = [], mb_closed = False\<rparr>)"

definition ch_settle :: "nat \<Rightarrow> 'a option \<Rightarrow> 'a bus_channel \<Rightarrow> 'a bus_channel" where
  "ch_settle c m ch = ch\<lparr>ch_settled := ch_settled ch @ [(c, m)]\<rparr>"

definition ch_publish :: "'a \<Rightarrow> 'a bus_channel \<Rightarrow> 'a bus_channel" where
  "ch_publish m ch = (case ch_waiters ch of
       w # ws \<Rightarrow> ch_settle w (Some m) (ch\<lparr>ch_waiters := ws\<rparr>)
     | [] \<Rightarrow> ch\<lparr>ch_queue := snd (bq_push m (ch_queue ch))\<rparr>)"

definition ch_consume :: "bool \<Rightarrow> nat \<Rightarrow> 'a bus_channel \<Rightarrow> 'a bus_channel" where
  "ch_consume closed c ch =
     (if closed then ch_settle c None ch
      else case bq_shift (ch_queue ch) of
             (Some m, q) \<Rightarrow> ch_settle c (Some m) (ch\<lparr>ch_queue := q\<rparr>)
           | (None, q) \<Rightarrow> ch\<lparr>ch_queue := q, ch_waiters := ch_waiters ch @ [c]\<rparr>)"

definition consume_timeout_ms :: "int option \<Rightarrow> int" where
  "consume_timeout_ms timeout_ms =
     (let raw = (case timeout_ms of Some n \<Rightarrow> if n = 0 then 30000 else n | None \<Rightarrow> 30000)
      in max 1 (min 300000 raw))"

text \<open>A consumer's timer; it is cleared when the consumer is served.\<close>

definition ch_timeout :: "nat \<Rightarrow> 'a bus_channel \<Rightarrow> 'a bus_channel" where
  "ch_timeout c ch = (if c \<in> set (ch_waiters ch)
     then ch_settle c None (ch\<lparr>ch_waiters := remove1 c (ch_waiters ch)\<rparr>) else ch)"

definition ch_close :: "'a bus_channel \<Rightarrow> 'a bus_channel" where
  "ch_close ch =
     (let ch = fold (\<lambda>w ch. ch_settle w None ch) (ch_waiters ch) (ch\<lparr>ch_waiters := []\<rparr>)
      in ch\<lparr>ch_queue := snd (bq_clear (ch_queue ch))\<rparr>)"

definition on_publish :: "nat \<Rightarrow> ('i, 'o, 'p) message_bus \<Rightarrow> ('i, 'o, 'p) message_bus" where
  "on_publish observer b = b\<lparr>mb_observers := mb_observers b @ [observer]\<rparr>"

definition publish_inbound :: "'i \<Rightarrow> ('i, 'o, 'p) message_bus \<Rightarrow> ('i, 'o, 'p) message_bus" where
  "publish_inbound m b = (if mb_closed b then b
     else b\<lparr>mb_inbound := ch_publish m (mb_inbound b),
            mb_observed := mb_observed b @ map (\<lambda>f. (f, Inl m)) (mb_observers b)\<rparr>)"

definition publish_outbound :: "'o \<Rightarrow> ('i, 'o, 'p) message_bus \<Rightarrow> ('i, 'o, 'p) message_bus" where
  "publish_outbound m b = (if mb_closed b then b
     else b\<lparr>mb_outbound := ch_publish m (mb_outbound b),
            mb_observed := mb_observed b @ map (\<lambda>f. (f, Inr m)) (mb_observers b)\<rparr>)"

definition publish_progress :: "'p \<Rightarrow> ('i, 'o, 'p) message_bus \<Rightarrow> ('i, 'o, 'p) message_bus" where
  "publish_progress m b = (if mb_closed b then b else b\<lparr>mb_progress := ch_publish m (mb_progress b)\<rparr>)"

definition consume_inbound :: "nat \<Rightarrow> ('i, 'o, 'p) message_bus \<Rightarrow> ('i, 'o, 'p) message_bus" where
  "consume_inbound c b = b\<lparr>mb_inbound := ch_consume (mb_closed b) c (mb_inbound b)\<rparr>"

definition consume_outbound :: "nat \<Rightarrow> ('i, 'o, 'p) message_bus \<Rightarrow> ('i, 'o, 'p) message_bus" where
  "consume_outbound c b = b\<lparr>mb_outbound := ch_consume (mb_closed b) c (mb_outbound b)\<rparr>"

definition consume_progress :: "nat \<Rightarrow> ('i, 'o, 'p) message_bus \<Rightarrow> ('i, 'o, 'p) message_bus" where
  "consume_progress c b = b\<lparr>mb_progress := ch_consume (mb_closed b) c (mb_progress b)\<rparr>"

definition get_sizes :: "('i, 'o, 'p) message_bus \<Rightarrow> int \<times> int \<times> int" where
  "get_sizes b = (let i = bq_length (ch_queue (mb_inbound b)); k = bq_length (ch_queue (mb_outbound b)) in (i, k, i + k))"

definition get_size :: "bool option \<Rightarrow> ('i, 'o, 'p) message_bus \<Rightarrow> int" where
  "get_size inbound b = (case get_sizes b of (i, k, t) \<Rightarrow>
     case inbound of Some True \<Rightarrow> i | Some False \<Rightarrow> k | None \<Rightarrow> t)"

record bus_metrics =
  bm_inbound :: "int \<times> nat"
  bm_outbound :: "int \<times> nat"
  bm_progress :: "int \<times> nat"
  bm_capacity :: int

definition queue_stats :: "'a bqueue \<Rightarrow> int \<times> nat" where
  "queue_stats q = (bq_length q, bq_overflow q)"

definition bus_get_metrics :: "('i, 'o, 'p) message_bus \<Rightarrow> bus_metrics" where
  "bus_get_metrics b =
     \<lparr>bm_inbound = queue_stats (ch_queue (mb_inbound b)), bm_outbound = queue_stats (ch_queue (mb_outbound b)),
      bm_progress = queue_stats (ch_queue (mb_progress b)), bm_capacity = bq_capacity (ch_queue (mb_inbound b))\<rparr>"

definition bus_close :: "('i, 'o, 'p) message_bus \<Rightarrow> ('i, 'o, 'p) message_bus" where
  "bus_close b = b\<lparr>mb_closed := True, mb_inbound := ch_close (mb_inbound b), mb_outbound := ch_close (mb_outbound b),
     mb_progress := ch_close (mb_progress b)\<rparr>"


section \<open>The queue as a list\<close>

definition bq_contents :: "'a bqueue \<Rightarrow> 'a list" where
  "bq_contents q = map the (drop (bq_head q) (bq_items q))"

definition bq_ok :: "'a bqueue \<Rightarrow> bool" where
  "bq_ok q \<longleftrightarrow> bq_head q \<le> length (bq_items q) \<and> list_all (\<lambda>x. x \<noteq> None) (drop (bq_head q) (bq_items q))
     \<and> 1 \<le> bq_capacity q \<and> bq_length q \<le> bq_capacity q"

text \<open>What the bus relies on: a queue keeps messages in order and says which one it lost.\<close>

locale fifo =
  fixes ok :: "'q \<Rightarrow> bool"
    and contents :: "'q \<Rightarrow> 'a list"
    and push :: "'a \<Rightarrow> 'q \<Rightarrow> 'a option \<times> 'q"
    and shift :: "'q \<Rightarrow> 'a option \<times> 'q"
  assumes ok_push: "ok q \<Longrightarrow> ok (snd (push x q))"
    and ok_shift: "ok q \<Longrightarrow> ok (snd (shift q))"
    and push_law: "ok q \<Longrightarrow>
        (case fst (push x q) of None \<Rightarrow> contents (snd (push x q)) = contents q @ [x]
         | Some lost \<Rightarrow> (lost = x \<and> contents (snd (push x q)) = contents q)
             \<or> (contents q = lost # tl (contents q) \<and> contents (snd (push x q)) = tl (contents q) @ [x]))"
    and shift_law: "ok q \<Longrightarrow>
        (case contents q of [] \<Rightarrow> shift q = (None, q)
         | x # xs \<Rightarrow> fst (shift q) = Some x \<and> contents (snd (shift q)) = xs)"
begin

lemma push_accounts:
  "ok q \<Longrightarrow> mset (contents (snd (push x q))) + mset_set (set_option (fst (push x q))) = mset (contents q) + {#x#}"
  using push_law[of q x] by (cases "contents q") (auto split: option.splits)

lemma push_in_order: "ok q \<Longrightarrow> subseq (ys @ contents q) zs \<Longrightarrow> subseq (ys @ contents (snd (push x q))) (zs @ [x])"
proof -
  assume "ok q" and s: "subseq (ys @ contents q) zs"
  then consider "contents (snd (push x q)) = contents q @ [x]" | "contents (snd (push x q)) = contents q"
    | y xs where "contents q = y # xs" "contents (snd (push x q)) = xs @ [x]"
    using push_law[of q x] by (auto split: option.splits)
  then show ?thesis
  proof cases
    case 1
    then show ?thesis using s list_emb_append_mono[of "(=)" "ys @ contents q" zs "[x]" "[x]"] by simp
  next
    case 2
    have "subseq zs (zs @ [x])" using list_emb_append_mono[of "(=)" zs zs "[]" "[x]"] by simp
    with s have "subseq (ys @ contents q) (zs @ [x])" by (rule subseq_order.trans)
    with 2 show ?thesis by simp
  next
    case 3
    have "subseq xs (y # xs)" by (rule list_emb_Cons) simp
    then have "subseq (ys @ xs) (ys @ y # xs)" by (intro list_emb_append_mono) simp_all
    then have "subseq (ys @ xs) zs" using s 3(1) subseq_order.trans by fastforce
    then show ?thesis using 3(2) list_emb_append_mono[of "(=)" "ys @ xs" zs "[x]" "[x]"] by simp
  qed
qed

lemma shift_moves: "ok q \<Longrightarrow> shift q = (Some m, q') \<Longrightarrow> contents q = m # contents q'"
  using shift_law[of q] by (cases "contents q") auto

lemma shift_empty: "ok q \<Longrightarrow> shift q = (None, q') \<Longrightarrow> contents q = [] \<and> q' = q"
  using shift_law[of q] by (cases "contents q") auto

end

lemma bq_compact_contents [simp]: "bq_contents (bq_compact q) = bq_contents q"
  by (simp add: bq_compact_def bq_contents_def)

lemma bq_compact_ok [simp]: "bq_head q \<le> length (bq_items q) \<Longrightarrow> bq_ok (bq_compact q) = bq_ok q"
  by (auto simp: bq_compact_def bq_ok_def bq_length_def of_nat_diff)

lemma bq_nonempty:
  assumes "bq_ok q" and "bq_head q < length (bq_items q)"
  obtains x rest where "drop (bq_head q) (bq_items q) = Some x # rest" "bq_items q ! bq_head q = Some x"
    "rest = drop (Suc (bq_head q)) (bq_items q)"
proof -
  have d: "drop (bq_head q) (bq_items q) = bq_items q ! bq_head q # drop (Suc (bq_head q)) (bq_items q)"
    using assms(2) by (rule Cons_nth_drop_Suc[symmetric])
  then obtain x where "bq_items q ! bq_head q = Some x" using assms(1) by (auto simp: bq_ok_def)
  with d that show thesis by simp
qed

lemma bq_push_law:
  assumes "bq_ok q"
  shows "bq_ok (snd (bq_push x q)) \<and>
    (case fst (bq_push x q) of None \<Rightarrow> bq_contents (snd (bq_push x q)) = bq_contents q @ [x]
     | Some lost \<Rightarrow> (lost = x \<and> bq_contents (snd (bq_push x q)) = bq_contents q)
         \<or> (bq_contents q = lost # tl (bq_contents q) \<and> bq_contents (snd (bq_push x q)) = tl (bq_contents q) @ [x]))"
proof (cases "bq_capacity q \<le> bq_length q")
  case False
  with assms show ?thesis by (auto simp: bq_push_def bq_ok_def bq_contents_def bq_length_def)
next
  case full: True
  show ?thesis
  proof (cases "bq_policy q")
    case RejectNewest
    with full assms show ?thesis by (simp add: bq_push_def Let_def bq_ok_def bq_contents_def bq_length_def)
  next
    case DropOldest
    have lt: "bq_head q < length (bq_items q)" using full assms by (simp add: bq_ok_def bq_length_def)
    obtain y rest where y: "drop (bq_head q) (bq_items q) = Some y # rest" "bq_items q ! bq_head q = Some y"
        "rest = drop (Suc (bq_head q)) (bq_items q)" using bq_nonempty[OF assms lt] by blast
    let ?q = "q\<lparr>bq_overflow := Suc (bq_overflow q), bq_items := (bq_items q)[bq_head q := None] @ [Some x], bq_head := Suc (bq_head q)\<rparr>"
    have push: "bq_push x q = (Some y, bq_compact ?q)" using full DropOldest y(2) by (simp add: bq_push_def Let_def)
    have d: "drop (bq_head ?q) (bq_items ?q) = rest @ [Some x]" using lt y(3) by simp
    have "list_all (\<lambda>x. x \<noteq> None) rest" using assms y(1) by (simp add: bq_ok_def)
    then have "bq_ok ?q" using assms lt d by (simp add: bq_ok_def bq_length_def)
    moreover have "bq_contents ?q = map the rest @ [x]" using d by (simp add: bq_contents_def)
    moreover have "bq_contents q = y # map the rest" using y(1) by (simp add: bq_contents_def)
    ultimately show ?thesis using lt by (simp add: push)
  qed
qed

lemma bq_shift_law:
  assumes "bq_ok q"
  shows "bq_ok (snd (bq_shift q)) \<and>
    (case bq_contents q of [] \<Rightarrow> bq_shift q = (None, q)
     | x # xs \<Rightarrow> fst (bq_shift q) = Some x \<and> bq_contents (snd (bq_shift q)) = xs)"
proof (cases "bq_head q < length (bq_items q)")
  case False
  with assms show ?thesis by (simp add: bq_shift_def bq_contents_def)
next
  case lt: True
  obtain y rest where y: "drop (bq_head q) (bq_items q) = Some y # rest" "bq_items q ! bq_head q = Some y"
      "rest = drop (Suc (bq_head q)) (bq_items q)" using bq_nonempty[OF assms lt] by blast
  let ?q = "q\<lparr>bq_items := (bq_items q)[bq_head q := None], bq_head := Suc (bq_head q)\<rparr>"
  have shift: "bq_shift q = (Some y, bq_compact ?q)" using lt y(2) by (simp add: bq_shift_def)
  have d: "drop (bq_head ?q) (bq_items ?q) = rest" using y(3) by simp
  have "list_all (\<lambda>x. x \<noteq> None) rest" using assms y(1) by (simp add: bq_ok_def)
  then have "bq_ok ?q" using assms lt d by (simp add: bq_ok_def bq_length_def)
  moreover have "bq_contents ?q = map the rest" using d by (simp add: bq_contents_def)
  moreover have "bq_contents q = y # map the rest" using y(1) by (simp add: bq_contents_def)
  ultimately show ?thesis using lt by (simp add: shift)
qed

interpretation bq: fifo bq_ok bq_contents bq_push bq_shift
  by unfold_locales (blast dest: bq_push_law bq_shift_law)+


section \<open>What the bus delivers\<close>

datatype 'a ch_op = ChPublish 'a | ChConsume nat | ChTimeout nat

definition ch_step :: "'a ch_op \<Rightarrow> 'a bus_channel \<Rightarrow> 'a bus_channel" where
  "ch_step e ch = (case e of ChPublish m \<Rightarrow> ch_publish m ch | ChConsume c \<Rightarrow> ch_consume False c ch
     | ChTimeout c \<Rightarrow> ch_timeout c ch)"

definition published :: "'a ch_op list \<Rightarrow> 'a list" where
  "published es = concat (map (\<lambda>e. case e of ChPublish m \<Rightarrow> [m] | _ \<Rightarrow> []) es)"

definition delivered :: "'a bus_channel \<Rightarrow> 'a list" where
  "delivered ch = concat (map (\<lambda>(c, m). case m of Some x \<Rightarrow> [x] | None \<Rightarrow> []) (ch_settled ch))"

text \<open>The message a step loses to the overflow policy.\<close>

definition step_loses :: "'a ch_op \<Rightarrow> 'a bus_channel \<Rightarrow> 'a multiset" where
  "step_loses e ch = (case e of ChPublish m \<Rightarrow>
       (if ch_waiters ch = [] then mset_set (set_option (fst (bq_push m (ch_queue ch)))) else {#})
     | _ \<Rightarrow> {#})"

fun ch_losses :: "'a ch_op list \<Rightarrow> 'a bus_channel \<Rightarrow> 'a multiset" where
  "ch_losses [] ch = {#}"
| "ch_losses (e # es) ch = step_loses e ch + ch_losses es (ch_step e ch)"

definition ch_ok :: "'a bus_channel \<Rightarrow> bool" where
  "ch_ok ch \<longleftrightarrow> bq_ok (ch_queue ch) \<and> (ch_waiters ch = [] \<or> bq_contents (ch_queue ch) = [])"

lemma delivered_settle [simp]: "delivered (ch_settle c m ch) = delivered ch @ (case m of Some x \<Rightarrow> [x] | None \<Rightarrow> [])"
  by (simp add: delivered_def ch_settle_def)

lemma delivered_upd [simp]:
  "delivered (ch\<lparr>ch_waiters := ws\<rparr>) = delivered ch" "delivered (ch\<lparr>ch_queue := q\<rparr>) = delivered ch"
  by (simp_all add: delivered_def)

lemma ch_settle_queue [simp]:
  "ch_queue (ch_settle c m ch) = ch_queue ch" "ch_waiters (ch_settle c m ch) = ch_waiters ch"
  by (simp_all add: ch_settle_def)

lemma ch_step_ok:
  assumes "ch_ok ch"
  shows "ch_ok (ch_step e ch)"
proof (cases e)
  case (ChPublish m)
  with assms bq.ok_push[of "ch_queue ch" m] show ?thesis
    by (auto simp: ch_step_def ch_publish_def ch_ok_def split: list.split)
next
  case (ChConsume c)
  obtain x q where sh: "bq_shift (ch_queue ch) = (x, q)" by fastforce
  have ok: "bq_ok (ch_queue ch)" using assms by (simp add: ch_ok_def)
  then have okq: "bq_ok q" using bq.ok_shift[of "ch_queue ch"] sh by simp
  show ?thesis
  proof (cases x)
    case None
    with bq.shift_empty[OF ok] sh okq ChConsume show ?thesis by (simp add: ch_step_def ch_consume_def ch_ok_def)
  next
    case (Some m)
    with bq.shift_moves[OF ok] sh have "bq_contents (ch_queue ch) = m # bq_contents q" by simp
    with assms have "ch_waiters ch = []" by (simp add: ch_ok_def)
    with Some sh okq ChConsume show ?thesis by (simp add: ch_step_def ch_consume_def ch_ok_def)
  qed
next
  case (ChTimeout c)
  with assms show ?thesis by (auto simp: ch_step_def ch_timeout_def ch_ok_def)
qed

lemma ch_step_accounts:
  assumes "ch_ok ch"
  shows "mset (delivered (ch_step e ch)) + mset (bq_contents (ch_queue (ch_step e ch))) + step_loses e ch
       = mset (delivered ch) + mset (bq_contents (ch_queue ch)) + mset (published [e])"
proof (cases e)
  case (ChPublish m)
  have "bq_ok (ch_queue ch)" using assms by (simp add: ch_ok_def)
  from bq.push_accounts[OF this, of m] ChPublish show ?thesis
    by (cases "ch_waiters ch") (simp_all add: ch_step_def ch_publish_def step_loses_def published_def add.assoc)
next
  case (ChConsume c)
  obtain x q where sh: "bq_shift (ch_queue ch) = (x, q)" by fastforce
  have ok: "bq_ok (ch_queue ch)" using assms by (simp add: ch_ok_def)
  show ?thesis
  proof (cases x)
    case None
    with bq.shift_empty[OF ok] sh ChConsume show ?thesis
      by (simp add: ch_step_def ch_consume_def step_loses_def published_def)
  next
    case (Some m)
    with bq.shift_moves[OF ok] sh have "bq_contents (ch_queue ch) = m # bq_contents q" by simp
    with Some sh ChConsume show ?thesis by (simp add: ch_step_def ch_consume_def step_loses_def published_def)
  qed
next
  case (ChTimeout c)
  then show ?thesis by (simp add: ch_step_def ch_timeout_def step_loses_def published_def)
qed

lemma ch_step_in_order:
  assumes "ch_ok ch" and "subseq (delivered ch @ bq_contents (ch_queue ch)) ps"
  shows "subseq (delivered (ch_step e ch) @ bq_contents (ch_queue (ch_step e ch))) (ps @ published [e])"
proof (cases e)
  case (ChPublish m)
  have ok: "bq_ok (ch_queue ch)" using assms by (simp add: ch_ok_def)
  show ?thesis
  proof (cases "ch_waiters ch")
    case Nil
    with bq.push_in_order[OF ok assms(2), of m] ChPublish show ?thesis
      by (simp add: ch_step_def ch_publish_def published_def)
  next
    case (Cons w ws)
    then have "bq_contents (ch_queue ch) = []" using assms(1) by (simp add: ch_ok_def)
    moreover from this assms(2) have "subseq (delivered ch @ [m]) (ps @ [m])" by simp
    ultimately show ?thesis using ChPublish Cons by (simp add: ch_step_def ch_publish_def published_def)
  qed
next
  case (ChConsume c)
  obtain x q where sh: "bq_shift (ch_queue ch) = (x, q)" by fastforce
  have ok: "bq_ok (ch_queue ch)" using assms by (simp add: ch_ok_def)
  show ?thesis
  proof (cases x)
    case None
    with bq.shift_empty[OF ok] sh ChConsume assms(2) show ?thesis by (simp add: ch_step_def ch_consume_def published_def)
  next
    case (Some m)
    with bq.shift_moves[OF ok] sh have "bq_contents (ch_queue ch) = m # bq_contents q" by simp
    with Some sh ChConsume assms(2) show ?thesis by (simp add: ch_step_def ch_consume_def published_def)
  qed
next
  case (ChTimeout c)
  with assms(2) show ?thesis by (simp add: ch_step_def ch_timeout_def published_def)
qed

lemma published_Cons: "published (e # es) = published [e] @ published es"
  by (simp add: published_def)

lemma ch_run:
  assumes "ch_ok ch" and "subseq (delivered ch @ bq_contents (ch_queue ch)) ps"
  shows "ch_ok (fold ch_step es ch)
    \<and> subseq (delivered (fold ch_step es ch) @ bq_contents (ch_queue (fold ch_step es ch))) (ps @ published es)
    \<and> mset (delivered (fold ch_step es ch)) + mset (bq_contents (ch_queue (fold ch_step es ch))) + ch_losses es ch
       = mset (delivered ch) + mset (bq_contents (ch_queue ch)) + mset (published es)"
  using assms
proof (induction es arbitrary: ch ps)
  case Nil
  then show ?case by (simp add: published_def)
next
  case (Cons e es)
  note IH = Cons.IH[OF ch_step_ok[OF Cons.prems(1), of e] ch_step_in_order[OF Cons.prems, of e]]
  show ?case
    using IH ch_step_accounts[OF Cons.prems(1), of e]
    by (simp add: published_Cons[of e es] ac_simps)
qed

lemma bq_push_capacity [simp]: "bq_capacity (snd (bq_push x q)) = bq_capacity q"
  by (simp add: bq_push_def bq_compact_def Let_def)

lemma bq_shift_capacity [simp]: "bq_capacity (snd (bq_shift q)) = bq_capacity q"
  by (simp add: bq_shift_def bq_compact_def)

lemma ch_capacity: "bq_capacity (ch_queue (fold ch_step es ch)) = bq_capacity (ch_queue ch)"
proof (induction es arbitrary: ch)
  case (Cons e es)
  have "bq_capacity q = bq_capacity (ch_queue ch)" if "bq_shift (ch_queue ch) = (x, q)" for x q
    using bq_shift_capacity[of "ch_queue ch"] that by simp
  then have "bq_capacity (ch_queue (ch_step e ch)) = bq_capacity (ch_queue ch)"
    by (cases e) (auto simp: ch_step_def ch_publish_def ch_consume_def ch_timeout_def split: list.split prod.split option.split)
  with Cons show ?case by simp
qed simp

text \<open>C36. Whatever is published, consumed and timed out on a direction of the bus, in whatever
  order: what has been delivered, followed by what waits, is in the order of publishing; nothing is
  made up, duplicated or lost except what the overflow policy drops; the queue stays within its
  capacity, and no message waits while a consumer does.\<close>

theorem bus_delivers_in_order:
  "let start = channel_new cap policy; ch = fold ch_step es start; waiting = bq_contents (ch_queue ch)
   in subseq (delivered ch @ waiting) (published es)
      \<and> mset (published es) = mset (delivered ch) + mset waiting + ch_losses es start
      \<and> int (length waiting) \<le> max 1 cap
      \<and> (waiting = [] \<or> ch_waiters ch = [])"
proof -
  let ?start = "channel_new cap policy :: 'a bus_channel"
  have "ch_ok ?start" by (simp add: channel_new_def ch_ok_def bq_ok_def bq_new_def bq_length_def)
  moreover have "delivered ?start = []" "bq_contents (ch_queue ?start) = []"
    by (simp_all add: channel_new_def delivered_def bq_contents_def bq_new_def)
  ultimately have run: "ch_ok (fold ch_step es ?start)"
      "subseq (delivered (fold ch_step es ?start) @ bq_contents (ch_queue (fold ch_step es ?start))) (published es)"
      "mset (delivered (fold ch_step es ?start)) + mset (bq_contents (ch_queue (fold ch_step es ?start))) + ch_losses es ?start
         = mset (published es)"
    using ch_run[of ?start "[]" es] by simp_all
  have cap: "bq_capacity (ch_queue (fold ch_step es ?start)) = max 1 cap"
    by (simp add: ch_capacity) (simp add: channel_new_def bq_new_def)
  have "int (length (bq_contents q)) = bq_length q" if "bq_ok q" for q :: "'a bqueue"
    using that by (simp add: bq_contents_def bq_ok_def bq_length_def of_nat_diff)
  then have "int (length (bq_contents (ch_queue (fold ch_step es ?start)))) \<le> max 1 cap"
    using run(1) cap by (simp add: ch_ok_def bq_ok_def)
  with run show ?thesis by (auto simp: Let_def ch_ok_def)
qed

text \<open>Closing serves every waiting consumer with nothing, and nothing moves afterwards.\<close>

lemma ch_close_settles:
  "ch_waiters (ch_close ch) = []" "bq_contents (ch_queue (ch_close ch)) = []"
  "ch_settled (ch_close ch) = ch_settled ch @ map (\<lambda>w. (w, None)) (ch_waiters ch)"
proof -
  have f: "ch_waiters (fold (\<lambda>w ch. ch_settle w None ch) ws c) = ch_waiters c
      \<and> ch_settled (fold (\<lambda>w ch. ch_settle w None ch) ws c) = ch_settled c @ map (\<lambda>w. (w, None)) ws" for ws and c :: "'a bus_channel"
    by (induction ws arbitrary: c) (simp_all add: ch_settle_def)
  from f[of "ch_waiters ch" "ch\<lparr>ch_waiters := []\<rparr>"]
  show "ch_waiters (ch_close ch) = []" "bq_contents (ch_queue (ch_close ch)) = []"
    "ch_settled (ch_close ch) = ch_settled ch @ map (\<lambda>w. (w, None)) (ch_waiters ch)"
    by (simp_all add: ch_close_def Let_def bq_clear_def bq_contents_def)
qed

lemma closed_bus_quiet:
  "publish_inbound m (bus_close b) = bus_close b" "publish_outbound k (bus_close b) = bus_close b"
  "publish_progress p (bus_close b) = bus_close b"
  "ch_settled (mb_outbound (consume_outbound c (bus_close b))) = ch_settled (mb_outbound (bus_close b)) @ [(c, None)]"
  by (simp_all add: publish_inbound_def publish_outbound_def publish_progress_def consume_outbound_def ch_consume_def
      ch_settle_def bus_close_def)

end
