(* ===== verification/TaskStore.thy ===== *)
theory TaskStore
  imports JsValue
begin

text \<open>
  Tasks (\<open>src/src/contracts.ts\<close>) and the table they are kept in,
  \<open>src/src/agent/task-store.ts\<close>. A row's JSON column holds the task it encodes, or \<open>None\<close> when
  it does not parse; rows are in order of insertion. \<open>String\<close> of a value is an argument, the
  full-text index and store errors are not modelled.
\<close>

datatype task_status = TkRunning | TkWaitingApproval | TkWaitingUserInput | TkCompleted | TkFailed | TkCancelled | TkMaxTurns

record task =
  tk_id :: string
  tk_team :: string
  tk_title :: string
  tk_objective :: string
  tk_channel :: string
  tk_chat_id :: string
  tk_turn :: int
  tk_max_turns :: int
  tk_status :: task_status
  tk_step :: "string option"
  tk_exit :: "string option"
  tk_memory :: memory

record task_row =
  tr_payload :: "task option"
  tr_status :: task_status
  tr_updated :: nat
  tr_provider :: string
  tr_chat_id :: string
  tr_trigger :: string

type_synonym task_table = "(string, task_row) jmap"

text \<open>\<open>String(x || "")\<close>.\<close>

definition text_or_empty :: "(jsval \<Rightarrow> string) \<Rightarrow> jsval \<Rightarrow> string" where
  "text_or_empty str v = (if js_truthy v then (case v of JStr s \<Rightarrow> s | _ \<Rightarrow> str v) else [])"

definition normalize_task :: "(jsval \<Rightarrow> string) \<Rightarrow> task \<Rightarrow> task" where
  "normalize_task str t =
     t\<lparr>tk_objective := (if tk_objective t = [] then text_or_empty str (memory_at (tk_memory t) ''objective'') else tk_objective t),
       tk_channel := (if tk_channel t = [] then text_or_empty str (memory_at (tk_memory t) ''channel'') else tk_channel t),
       tk_chat_id := (if tk_chat_id t = [] then text_or_empty str (memory_at (tk_memory t) ''chat_id'') else tk_chat_id t)\<rparr>"

definition task_upsert :: "(jsval \<Rightarrow> string) \<Rightarrow> nat \<Rightarrow> task \<Rightarrow> task_table \<Rightarrow> task_table" where
  "task_upsert str now t db =
     (let n = normalize_task str t;
          field = (\<lambda>x k. str_trim (if x \<noteq> [] then x else text_or_empty str (memory_at (tk_memory n) k)))
      in jset (tk_id n)
           \<lparr>tr_payload = Some n, tr_status = tk_status n, tr_updated = now, tr_provider = field (tk_channel n) ''channel'',
            tr_chat_id = field (tk_chat_id n) ''chat_id'',
            tr_trigger = str_trim (text_or_empty str (memory_at (tk_memory n) ''__trigger_message_id''))\<rparr> db)"

definition row_to_task :: "(jsval \<Rightarrow> string) \<Rightarrow> task_row \<Rightarrow> task option" where
  "row_to_task str row = map_option (normalize_task str) (tr_payload row)"

definition task_get :: "(jsval \<Rightarrow> string) \<Rightarrow> task_table \<Rightarrow> string \<Rightarrow> task option" where
  "task_get str db k = (case jget db k of None \<Rightarrow> None | Some row \<Rightarrow> row_to_task str row)"

text \<open>The newest write first; of two rows written at the same time the later row first.\<close>

definition newest_first :: "task_row list \<Rightarrow> task_row list" where
  "newest_first rows = rev (sort_key tr_updated rows)"

definition task_list :: "(jsval \<Rightarrow> string) \<Rightarrow> task_table \<Rightarrow> task list" where
  "task_list str db =
     concat (map (\<lambda>row. case row_to_task str row of Some t \<Rightarrow> [t] | None \<Rightarrow> []) (newest_first (jvals db)))"

definition list_resumable :: "(jsval \<Rightarrow> string) \<Rightarrow> task_table \<Rightarrow> task list" where
  "list_resumable str db =
     filter (\<lambda>t. tk_status t \<in> {TkRunning, TkWaitingApproval, TkWaitingUserInput, TkMaxTurns}) (task_list str db)"

definition first_task :: "(jsval \<Rightarrow> string) \<Rightarrow> (task_row \<Rightarrow> bool) \<Rightarrow> task_table \<Rightarrow> task option" where
  "first_task str P db = (case newest_first (filter P (jvals db)) of [] \<Rightarrow> None | row # _ \<Rightarrow> row_to_task str row)"

definition find_waiting_by_chat :: "(jsval \<Rightarrow> string) \<Rightarrow> task_table \<Rightarrow> string \<Rightarrow> string \<Rightarrow> task option" where
  "find_waiting_by_chat str db provider chat_id = first_task str
     (\<lambda>row. tr_provider row = provider \<and> tr_chat_id row = chat_id
        \<and> tr_status row \<in> {TkWaitingUserInput, TkWaitingApproval, TkFailed, TkMaxTurns}) db"

definition find_by_trigger_message_id :: "(jsval \<Rightarrow> string) \<Rightarrow> task_table \<Rightarrow> string \<Rightarrow> string \<Rightarrow> task option" where
  "find_by_trigger_message_id str db provider trigger = (if trigger = [] then None
     else first_task str (\<lambda>row. tr_provider row = provider \<and> tr_trigger row = trigger) db)"


section \<open>What the table gives back\<close>

lemma normalize_task_idem [simp]: "normalize_task str (normalize_task str t) = normalize_task str t"
  by (simp add: normalize_task_def)

lemma normalize_task_same [simp]:
  "tk_id (normalize_task str t) = tk_id t" "tk_status (normalize_task str t) = tk_status t"
  "tk_memory (normalize_task str t) = tk_memory t"
  by (simp_all add: normalize_task_def)

lemma get_upsert_task:
  "task_get str (task_upsert str now t db) k = (if k = tk_id t then Some (normalize_task str t) else task_get str db k)"
  by (simp add: task_get_def task_upsert_def Let_def row_to_task_def)

lemma newest_first_hd:
  assumes "newest_first rows = row # rest"
  shows "row \<in> set rows \<and> (\<forall>r \<in> set rows. tr_updated r \<le> tr_updated row)"
proof -
  have "set (newest_first rows) = set rows" by (simp add: newest_first_def)
  then have mem: "row \<in> set rows" using assms by (metis list.set_intros(1))
  have "sorted (map tr_updated (rev (row # rest)))"
    using assms by (metis newest_first_def rev_rev_ident sorted_sort_key)
  then have "\<forall>r \<in> set rest. tr_updated r \<le> tr_updated row" by (auto simp: sorted_append)
  with mem show ?thesis using assms by (metis \<open>set (newest_first rows) = set rows\<close> order_refl set_ConsD)
qed

lemma first_task_spec:
  "first_task str P db = Some t \<Longrightarrow>
     \<exists>row \<in> set (jvals db). P row \<and> row_to_task str row = Some t \<and> (\<forall>r \<in> set (jvals db). P r \<longrightarrow> tr_updated r \<le> tr_updated row)"
proof -
  assume t: "first_task str P db = Some t"
  obtain row rest where nf: "newest_first (filter P (jvals db)) = row # rest" and row: "row_to_task str row = Some t"
    using t by (auto simp: first_task_def split: list.splits)
  from newest_first_hd[OF nf] row show ?thesis by auto
qed

end
