(* ===== verification/AgentLoop.thy ===== *)
theory AgentLoop
  imports TaskStore "HOL-Library.List_Lexorder" "HOL-Library.Char_ord"
begin

text \<open>
  The agent loop: \<open>AgentLoopStore\<close> of \<open>src/src/agent/loop.service.ts\<close> as far as it keeps loops and
  messages for them, \<open>run_agent_loop\<close>, and the guard against repeated tool calls
  (\<open>src/src/agent/tool-call-guard.ts\<close>).

  Loops are mutable objects that the store's map shares with a running loop until a snapshot puts
  a copy in its place, so they live in a heap and the map holds references. A turn is two steps,
  the request to the provider and what follows its answer; other operations may come in between.
  The answer carries what the callbacks say in that turn. A provider or a callback that throws ends the
  loop with that exception and leaves it running; that is left out.
\<close>

section \<open>The guard against repeated tool calls\<close>

record tool_call =
  tc_name :: string
  tc_arguments :: string

record call_guard =
  tg_max :: nat
  tg_last :: "tool_call list"
  tg_repeated :: nat

text \<open>\<open>JSON.stringify\<close> of the rows is the rows; arguments are their JSON text.\<close>

definition signature_of :: "tool_call list \<Rightarrow> tool_call list" where
  "signature_of calls =
     sort_key tc_name (map (\<lambda>c. c\<lparr>tc_name := str_lower (str_trim (tc_name c))\<rparr>) calls)"

definition guard_new :: "int \<Rightarrow> call_guard" where
  "guard_new max_repeated = \<lparr>tg_max = nat (max 1 (if max_repeated = 0 then 2 else max_repeated)), tg_last = [], tg_repeated = 0\<rparr>"

definition guard_reset :: "call_guard \<Rightarrow> call_guard" where
  "guard_reset g = g\<lparr>tg_last := [], tg_repeated := 0\<rparr>"

definition guard_observe :: "tool_call list \<Rightarrow> call_guard \<Rightarrow> bool \<times> call_guard" where
  "guard_observe calls g =
     (if calls = [] then (False, guard_reset g)
      else let sig = signature_of calls;
               g = (if sig = tg_last g then g\<lparr>tg_repeated := Suc (tg_repeated g)\<rparr> else g\<lparr>tg_last := sig, tg_repeated := 0\<rparr>)
           in (tg_max g \<le> tg_repeated g, g))"


section \<open>The store\<close>

datatype loop_status = LsRunning | LsStopped | LsFailed | LsCompleted | LsMaxTurns

record loop_state =
  ls_id :: string
  ls_agent :: string
  ls_team :: string
  ls_objective :: string
  ls_turn :: int
  ls_max :: int
  ls_continue :: bool
  ls_status :: loop_status
  ls_reason :: "string option"

record task_obj =
  to_task :: task
  to_memory :: nat

record loop_store =
  al_loops :: "(string, nat) jmap"
  al_loop_heap :: "loop_state list"
  al_tasks :: "(string, nat) jmap"
  al_task_heap :: "task_obj list"
  al_memories :: "memory list"
  al_table :: "task_table option"
  al_session :: string
  al_mailbox :: "(string, string list) jmap"
  al_cascade :: "string list"
  al_changes :: "task list"

definition loop_store_new :: "task_table option \<Rightarrow> loop_store" where
  "loop_store_new table = \<lparr>al_loops = [], al_loop_heap = [], al_tasks = [], al_task_heap = [], al_memories = [],
     al_table = table, al_session = [], al_mailbox = [], al_cascade = [], al_changes = []\<rparr>"

definition set_session_id :: "string \<Rightarrow> loop_store \<Rightarrow> loop_store" where
  "set_session_id k s = s\<lparr>al_session := k\<rparr>"

definition loop_at :: "loop_store \<Rightarrow> nat \<Rightarrow> loop_state" where
  "loop_at s r = al_loop_heap s ! r"

definition put_loop :: "nat \<Rightarrow> loop_state \<Rightarrow> loop_store \<Rightarrow> loop_store" where
  "put_loop r l s = s\<lparr>al_loop_heap := (al_loop_heap s)[r := l]\<rparr>"

definition new_loop :: "loop_state \<Rightarrow> loop_store \<Rightarrow> loop_store" where
  "new_loop l s = s\<lparr>al_loops := jset (ls_id l) (length (al_loop_heap s)) (al_loops s), al_loop_heap := al_loop_heap s @ [l]\<rparr>"

text \<open>A snapshot puts a copy of the loop into the map.\<close>

definition save_loop_snapshot :: "nat \<Rightarrow> loop_store \<Rightarrow> loop_store" where
  "save_loop_snapshot r s = new_loop (loop_at s r) s"

definition list_loops :: "loop_store \<Rightarrow> loop_state list" where
  "list_loops s = map (loop_at s) (jvals (al_loops s))"

definition stop_loop :: "string \<Rightarrow> string \<Rightarrow> loop_store \<Rightarrow> loop_state option \<times> loop_store" where
  "stop_loop loop_id reason s = (case jget (al_loops s) loop_id of
       None \<Rightarrow> (None, s)
     | Some r \<Rightarrow>
         let l = (loop_at s r)\<lparr>ls_continue := False, ls_status := LsStopped, ls_reason := Some reason\<rparr>;
             s = put_loop r l s
         in (Some l, s\<lparr>al_loops := jset loop_id r (al_loops s), al_cascade := al_cascade s @ [loop_id]\<rparr>))"

definition max_mailbox_size :: nat where
  "max_mailbox_size = 1000"

definition mailbox_of :: "loop_store \<Rightarrow> string \<Rightarrow> string list" where
  "mailbox_of s k = (case jget (al_mailbox s) k of Some q \<Rightarrow> q | None \<Rightarrow> [])"

definition inject_message :: "string \<Rightarrow> string \<Rightarrow> loop_store \<Rightarrow> bool \<times> loop_store" where
  "inject_message loop_id m s = (case jget (al_loops s) loop_id of
       None \<Rightarrow> (False, s)
     | Some r \<Rightarrow>
         if ls_status (loop_at s r) \<noteq> LsRunning then (False, s)
         else let q = mailbox_of s loop_id @ [m]; q = drop (length q - max_mailbox_size) q
              in (True, s\<lparr>al_mailbox := jset loop_id q (al_mailbox s)\<rparr>))"

definition drain_mailbox :: "string \<Rightarrow> loop_store \<Rightarrow> string list \<times> loop_store" where
  "drain_mailbox loop_id s = (let ms = mailbox_of s loop_id
     in (ms, if ms = [] then s else s\<lparr>al_mailbox := jdel loop_id (al_mailbox s)\<rparr>))"


section \<open>The agent loop\<close>

record agent_options =
  ao_loop_id :: string
  ao_agent_id :: string
  ao_team_id :: "string option"
  ao_objective :: string
  ao_message :: "string option"
  ao_max_turns :: "int option"
  ao_flush :: "(int \<times> int option \<times> int option) option"
  ao_tool_handler :: bool
  ao_check :: bool
  ao_blocked_notice :: string

datatype continue_answer = ContinueFlag bool | ContinueWith string

record agent_reply =
  ry_content :: "string option"
  ry_has_tool_calls :: bool
  ry_tool_calls :: "tool_call list"
  ry_text_calls :: "tool_call list"
  ry_prompt_tokens :: "int option"
  ry_followup :: "string option"
  ry_continue :: continue_answer

text \<open>The local variables of a run.\<close>

record agent_run =
  ag_ref :: nat
  ag_message :: string
  ag_final :: "string option"
  ag_guard :: call_guard
  ag_flushed :: bool

datatype agent_step = AskProvider agent_run | LoopOver agent_run

definition agent_begin :: "agent_options \<Rightarrow> loop_store \<Rightarrow> agent_run \<times> loop_store" where
  "agent_begin opts s =
     (let l = \<lparr>ls_id = ao_loop_id opts, ls_agent = ao_agent_id opts,
               ls_team = (case ao_team_id opts of Some t \<Rightarrow> t | None \<Rightarrow> []), ls_objective = ao_objective opts, ls_turn = 0,
               ls_max = max 1 (case ao_max_turns opts of Some n \<Rightarrow> if n = 0 then 30 else n | None \<Rightarrow> 30),
               ls_continue = True, ls_status = LsRunning, ls_reason = None\<rparr>
      in (\<lparr>ag_ref = length (al_loop_heap s),
           ag_message = (case ao_message opts of Some m \<Rightarrow> if m = [] then ao_objective opts else m | None \<Rightarrow> ao_objective opts),
           ag_final = None, ag_guard = guard_new 2, ag_flushed = False\<rparr>, new_loop l s))"

definition agent_turn_start :: "bool \<Rightarrow> agent_run \<Rightarrow> loop_store \<Rightarrow> agent_step \<times> loop_store" where
  "agent_turn_start aborted run s =
     (let l = loop_at s (ag_ref run)
      in if ls_turn l < ls_max l \<and> ls_continue l
         then if aborted
              then (LoopOver run, put_loop (ag_ref run)
                      (l\<lparr>ls_status := LsStopped, ls_reason := Some ''aborted'', ls_continue := False\<rparr>) s)
              else (AskProvider run, put_loop (ag_ref run) (l\<lparr>ls_turn := ls_turn l + 1\<rparr>) s)
         else (LoopOver run, s))"

definition flush_trigger :: "agent_options \<Rightarrow> int option" where
  "flush_trigger opts = (case ao_flush opts of None \<Rightarrow> None
     | Some (window, floor_, soft) \<Rightarrow>
         Some (window - (case floor_ of Some n \<Rightarrow> n | None \<Rightarrow> 20000) - (case soft of Some n \<Rightarrow> n | None \<Rightarrow> 4000)))"

definition flush_due :: "agent_options \<Rightarrow> agent_reply \<Rightarrow> agent_run \<Rightarrow> bool" where
  "flush_due opts reply run = (\<not> ag_flushed run \<and> (case flush_trigger opts of None \<Rightarrow> False
     | Some t \<Rightarrow> t \<le> (case ry_prompt_tokens reply of Some n \<Rightarrow> n | None \<Rightarrow> 0)))"

definition blank_line :: string where
  "blank_line = [CHR 0x0A, CHR 0x0A]"

definition fail_loop :: "string \<Rightarrow> agent_run \<Rightarrow> loop_store \<Rightarrow> loop_store" where
  "fail_loop reason run s = put_loop (ag_ref run)
     ((loop_at s (ag_ref run))\<lparr>ls_status := LsFailed, ls_reason := Some reason, ls_continue := False\<rparr>) s"

text \<open>The next turn's message, with the copy in the map.\<close>

definition go_on :: "string \<Rightarrow> agent_run \<Rightarrow> loop_store \<Rightarrow> (agent_run \<times> bool) \<times> loop_store" where
  "go_on m run s = ((run\<lparr>ag_message := m\<rparr>, True), save_loop_snapshot (ag_ref run) s)"

definition tool_turn :: "agent_options \<Rightarrow> agent_reply \<Rightarrow> tool_call list \<Rightarrow> agent_run \<Rightarrow> loop_store \<Rightarrow> (agent_run \<times> bool) \<times> loop_store" where
  "tool_turn opts reply calls run s =
     (case guard_observe calls (ag_guard run) of (blocked, g) \<Rightarrow>
        let run = run\<lparr>ag_guard := g\<rparr>
        in if blocked
           then ((run\<lparr>ag_final := Some (ao_blocked_notice opts)\<rparr>, False), fail_loop ''repeated_tool_calls'' run s)
           else if \<not> ao_tool_handler opts
           then ((run, False), fail_loop ''tool_calls_requested_but_handler_missing'' run s)
           else case drain_mailbox (ls_id (loop_at s (ag_ref run))) s of (injected, s) \<Rightarrow>
             let followup = (case ry_followup reply of
                   Some f \<Rightarrow> if f = [] then ''(tool execution completed; continue)'' else f
                 | None \<Rightarrow> ''(tool execution completed; continue)'')
             in go_on (str_join blank_line (followup # injected)) run s)"

definition text_turn :: "agent_options \<Rightarrow> agent_reply \<Rightarrow> agent_run \<Rightarrow> loop_store \<Rightarrow> (agent_run \<times> bool) \<times> loop_store" where
  "text_turn opts reply run s =
     (let run = run\<lparr>ag_guard := guard_reset (ag_guard run)\<rparr>
      in case drain_mailbox (ls_id (loop_at s (ag_ref run))) s of (injected, s) \<Rightarrow>
           if injected \<noteq> [] then go_on (str_join blank_line injected) run s
           else
             let answer = (if ao_check opts then ry_continue reply else ContinueFlag False);
                 yes = (case answer of ContinueFlag b \<Rightarrow> b | ContinueWith m \<Rightarrow> m \<noteq> []);
                 l = (loop_at s (ag_ref run))\<lparr>ls_continue := yes\<rparr>
             in if \<not> yes
                then ((run, False), put_loop (ag_ref run)
                        (l\<lparr>ls_status := LsCompleted, ls_reason := Some ''check_should_continue_false''\<rparr>) s)
                else go_on (case answer of ContinueWith m \<Rightarrow> m
                       | _ \<Rightarrow> (case ag_final run of Some c \<Rightarrow> if c = [] then ao_objective opts else c | None \<Rightarrow> ao_objective opts))
                     run (put_loop (ag_ref run) l s))"

text \<open>What follows the provider's answer; the flag says whether the loop is tried again.\<close>

definition agent_turn_finish :: "agent_options \<Rightarrow> agent_reply \<Rightarrow> agent_run \<Rightarrow> loop_store \<Rightarrow> (agent_run \<times> bool) \<times> loop_store" where
  "agent_turn_finish opts reply run s =
     (let run = run\<lparr>ag_final := ry_content reply, ag_flushed := (ag_flushed run \<or> flush_due opts reply run)\<rparr>;
          calls = (if ry_has_tool_calls reply then ry_tool_calls reply else ry_text_calls reply)
      in if calls \<noteq> [] then tool_turn opts reply calls run s else text_turn opts reply run s)"

definition agent_end :: "agent_run \<Rightarrow> loop_store \<Rightarrow> (loop_state \<times> string option) \<times> loop_store" where
  "agent_end run s =
     (let l = loop_at s (ag_ref run);
          l = (if ls_status l = LsRunning \<and> ls_max l \<le> ls_turn l
               then l\<lparr>ls_status := LsMaxTurns, ls_reason := Some ''max_turns_reached'', ls_continue := False\<rparr> else l);
          l = (if ls_status l = LsRunning \<and> \<not> ls_continue l
               then l\<lparr>ls_status := LsStopped,
                      ls_reason := Some (case ls_reason l of Some x \<Rightarrow> if x = [] then ''stopped'' else x | None \<Rightarrow> ''stopped'')\<rparr>
               else l)
      in ((l, ag_final run), save_loop_snapshot (ag_ref run) (put_loop (ag_ref run) l s)))"

text \<open>
  The whole loop, with the abort signal and the answers of each turn; \<open>other\<close> is what else
  happens to the store while the provider works.
\<close>

partial_function (option) agent_loop :: "agent_options \<Rightarrow> (nat \<Rightarrow> bool) \<Rightarrow> (nat \<Rightarrow> agent_reply) \<Rightarrow> (nat \<Rightarrow> loop_store \<Rightarrow> loop_store)
    \<Rightarrow> nat \<Rightarrow> agent_run \<Rightarrow> loop_store \<Rightarrow> (nat \<times> (loop_state \<times> string option) \<times> loop_store) option" where
  "agent_loop opts aborted replies other n run s =
     (case agent_turn_start (aborted n) run s of
        (LoopOver run, s) \<Rightarrow> Some (n, agent_end run s)
      | (AskProvider run, s) \<Rightarrow>
          (case agent_turn_finish opts (replies n) run (other n s) of
             ((run, again), s) \<Rightarrow>
               if again then agent_loop opts aborted replies other (Suc n) run s else Some (Suc n, agent_end run s)))"

definition run_agent_loop :: "agent_options \<Rightarrow> (nat \<Rightarrow> bool) \<Rightarrow> (nat \<Rightarrow> agent_reply) \<Rightarrow> (nat \<Rightarrow> loop_store \<Rightarrow> loop_store)
    \<Rightarrow> loop_store \<Rightarrow> (nat \<times> (loop_state \<times> string option) \<times> loop_store) option" where
  "run_agent_loop opts aborted replies other s =
     (case agent_begin opts s of (run, s) \<Rightarrow> agent_loop opts aborted replies other 0 run s)"


section \<open>The guard blocks the third round of the same calls\<close>

lemma signature_nonempty: "calls \<noteq> [] \<Longrightarrow> signature_of calls \<noteq> []"
proof
  assume "calls \<noteq> []" and "signature_of calls = []"
  then have "length (signature_of calls) = 0" by simp
  then show False using \<open>calls \<noteq> []\<close> by (simp add: signature_of_def)
qed

definition observe_all :: "tool_call list list \<Rightarrow> call_guard \<Rightarrow> call_guard" where
  "observe_all rounds g = fold (\<lambda>c g. snd (guard_observe c g)) rounds g"

text \<open>How many rounds before the last one have its signature, without a break.\<close>

definition run_back :: "tool_call list list \<Rightarrow> tool_call list \<Rightarrow> nat" where
  "run_back rounds sig = length (takeWhile (\<lambda>c. signature_of c = sig) (rev rounds))"

lemma guard_state:
  assumes "list_all (\<lambda>c. c \<noteq> []) rounds"
  shows "observe_all rounds (guard_new 2) =
    (if rounds = [] then guard_new 2
     else (guard_new 2)\<lparr>tg_last := signature_of (last rounds),
            tg_repeated := run_back (butlast rounds) (signature_of (last rounds))\<rparr>)"
  using assms
proof (induction rounds rule: rev_induct)
  case Nil
  then show ?case by (simp add: observe_all_def)
next
  case (snoc c rounds)
  have ih: "observe_all rounds (guard_new 2) =
    (if rounds = [] then guard_new 2
     else (guard_new 2)\<lparr>tg_last := signature_of (last rounds),
            tg_repeated := run_back (butlast rounds) (signature_of (last rounds))\<rparr>)"
    using snoc by simp
  have step: "observe_all (rounds @ [c]) (guard_new 2) = snd (guard_observe c (observe_all rounds (guard_new 2)))"
    by (simp add: observe_all_def)
  have ne: "c \<noteq> []" "signature_of c \<noteq> []" using snoc.prems signature_nonempty by simp_all
  show ?case
  proof (cases rounds rule: rev_cases)
    case Nil
    with ih step ne show ?thesis by (simp add: guard_observe_def guard_new_def run_back_def Let_def)
  next
    case (snoc pre d)
    have "run_back (pre @ [d]) (signature_of c) = (if signature_of d = signature_of c then Suc (run_back pre (signature_of c)) else 0)"
      by (simp add: run_back_def)
    moreover have "butlast (rounds @ [c]) = rounds" "last (rounds @ [c]) = c" "rounds @ [c] \<noteq> []" by simp_all
    ultimately show ?thesis using snoc ih step ne
      by (simp only: if_False) (simp add: guard_observe_def Let_def)
  qed
qed

text \<open>Whatever tools a loop has called, a round of calls is blocked exactly when the two rounds
  before it made the same calls (up to the order and the case of the tool names).\<close>

theorem guard_blocks_third_round:
  assumes "list_all (\<lambda>c. c \<noteq> []) rounds" and "calls \<noteq> []"
  shows "fst (guard_observe calls (observe_all rounds (guard_new 2))) \<longleftrightarrow>
    2 \<le> length rounds \<and> signature_of (rounds ! (length rounds - 1)) = signature_of calls
    \<and> signature_of (rounds ! (length rounds - 2)) = signature_of calls"
proof (cases rounds rule: rev_cases)
  case Nil
  then show ?thesis using assms signature_nonempty[OF assms(2)]
    by (simp add: observe_all_def guard_observe_def guard_new_def Let_def)
next
  case (snoc pre d)
  then have g: "observe_all rounds (guard_new 2)
      = (guard_new 2)\<lparr>tg_last := signature_of d, tg_repeated := run_back pre (signature_of d)\<rparr>"
    using guard_state[OF assms(1)] by simp
  show ?thesis
  proof (cases pre rule: rev_cases)
    case Nil
    then show ?thesis using assms(2) unfolding g by (simp add: snoc guard_observe_def guard_new_def Let_def run_back_def)
  next
    case pre: (snoc pre2 e)
    show ?thesis using assms(2) unfolding g
      by (simp add: snoc pre guard_observe_def guard_new_def Let_def run_back_def nth_append)
  qed
qed

definition demo_call :: "string \<Rightarrow> tool_call" where
  "demo_call k = \<lparr>tc_name = k, tc_arguments = ''{}''\<rparr>"

theorem guard_blocks_third_round_witness:
  "fst (guard_observe [demo_call ''read''] (observe_all [[demo_call ''ls''], [demo_call ''read''], [demo_call ''Read'']] (guard_new 2)))"
proof -
  let ?rounds = "[[demo_call ''ls''], [demo_call ''read''], [demo_call ''Read'']]"
  have "list_all (\<lambda>c. c \<noteq> []) ?rounds" "[demo_call ''read''] \<noteq> []" by simp_all
  from guard_blocks_third_round[OF this] show ?thesis
    by (simp add: numeral_2_eq_2 numeral_3_eq_3) code_simp
qed


section \<open>Messages for a running loop\<close>

lemma inject_one:
  assumes "jget (al_loops s) k = Some r" and "ls_status (loop_at s r) = LsRunning"
  shows "snd (inject_message k m s) = s\<lparr>al_mailbox := jset k
     (drop (Suc (length (mailbox_of s k)) - max_mailbox_size) (mailbox_of s k @ [m])) (al_mailbox s)\<rparr>"
  using assms by (simp add: inject_message_def Let_def)

text \<open>A running loop receives the messages put into its mailbox in order, the latest thousand of
  them, and receives each once.\<close>

theorem mailbox_keeps_latest:
  assumes "jget (al_loops s) k = Some r" and "ls_status (loop_at s r) = LsRunning" and "mailbox_of s k = []"
  shows "case drain_mailbox k (fold (\<lambda>m s. snd (inject_message k m s)) ms s) of
    (got, s') \<Rightarrow> got = drop (length ms - max_mailbox_size) ms \<and> fst (drain_mailbox k s') = []"
proof -
  let ?in = "\<lambda>ms. fold (\<lambda>m s. snd (inject_message k m s)) ms s"
  have run: "al_loops (?in ms) = al_loops s \<and> al_loop_heap (?in ms) = al_loop_heap s
      \<and> mailbox_of (?in ms) k = drop (length ms - max_mailbox_size) ms" for ms
  proof (induction ms rule: rev_induct)
    case Nil
    with assms(3) show ?case by simp
  next
    case (snoc m ms)
    let ?s = "?in ms"
    have "jget (al_loops ?s) k = Some r" "ls_status (loop_at ?s r) = LsRunning"
      using snoc assms(1,2) by (simp_all add: loop_at_def)
    note one = inject_one[OF this, of m]
    have "?in (ms @ [m]) = snd (inject_message k m ?s)" by simp
    moreover have "n - (n - 1000 + 999) + (n - 1000) = n - 999" for n :: nat by arith
    ultimately show ?case using one snoc by (auto simp: mailbox_of_def[of "_\<lparr>al_mailbox := _\<rparr>"] max_mailbox_size_def)
  qed
  show ?thesis using run[of ms]
    by (auto simp: drain_mailbox_def Let_def) (simp_all add: mailbox_of_def)
qed


section \<open>The loop ends within its turns\<close>

text \<open>What else may happen to the store while a loop waits.\<close>

datatype loop_op = OpStop string string | OpInject string string | OpSession string

definition loop_op_step :: "loop_op \<Rightarrow> loop_store \<Rightarrow> loop_store" where
  "loop_op_step e s = (case e of OpStop k reason \<Rightarrow> snd (stop_loop k reason s)
     | OpInject k m \<Rightarrow> snd (inject_message k m s) | OpSession k \<Rightarrow> set_session_id k s)"

text \<open>The parts of a loop no operation changes, and of which objects exist.\<close>

definition same_turns :: "nat \<Rightarrow> loop_store \<Rightarrow> loop_store \<Rightarrow> bool" where
  "same_turns r s s' \<longleftrightarrow> length (al_loop_heap s) \<le> length (al_loop_heap s')
     \<and> (r < length (al_loop_heap s) \<longrightarrow> ls_turn (loop_at s' r) = ls_turn (loop_at s r)
          \<and> ls_max (loop_at s' r) = ls_max (loop_at s r) \<and> ls_id (loop_at s' r) = ls_id (loop_at s r))"

lemma same_turns_refl [simp]: "same_turns r s s"
  by (simp add: same_turns_def)

lemma same_turns_trans: "same_turns r s s1 \<Longrightarrow> same_turns r s1 s2 \<Longrightarrow> same_turns r s s2"
  by (auto simp: same_turns_def)

lemma same_turns_put:
  "ls_turn l = ls_turn (loop_at s q) \<Longrightarrow> ls_max l = ls_max (loop_at s q) \<Longrightarrow> ls_id l = ls_id (loop_at s q)
   \<Longrightarrow> same_turns r s (put_loop q l s)"
  by (cases "q = r") (auto simp: same_turns_def put_loop_def loop_at_def)

lemma same_turns_snapshot: "same_turns r s (save_loop_snapshot q s)"
  by (auto simp: same_turns_def save_loop_snapshot_def new_loop_def loop_at_def nth_append)

lemma same_turns_heap: "al_loop_heap s' = al_loop_heap s \<Longrightarrow> same_turns r s s'"
  by (simp add: same_turns_def loop_at_def)

lemma same_turns_op: "same_turns r s (loop_op_step e s)"
proof (cases e)
  case (OpStop k reason)
  show ?thesis
  proof (cases "jget (al_loops s) k")
    case None
    with OpStop show ?thesis by (simp add: loop_op_step_def stop_loop_def)
  next
    case (Some q)
    let ?s1 = "put_loop q ((loop_at s q)\<lparr>ls_continue := False, ls_status := LsStopped, ls_reason := Some reason\<rparr>) s"
    have "same_turns r s ?s1" by (rule same_turns_put) simp_all
    moreover have "same_turns r ?s1 (loop_op_step e s)"
      by (rule same_turns_heap) (simp add: loop_op_step_def OpStop stop_loop_def Some Let_def)
    ultimately show ?thesis by (rule same_turns_trans)
  qed
qed (auto simp: loop_op_step_def inject_message_def set_session_id_def Let_def split: option.split intro!: same_turns_heap)

lemma same_turns_ops: "same_turns r s (fold loop_op_step es s)"
  by (induction es arbitrary: s) (auto intro: same_turns_trans same_turns_op)

lemma drain_heap: "drain_mailbox k s = (ms, s') \<Longrightarrow> al_loop_heap s' = al_loop_heap s \<and> al_loops s' = al_loops s"
  by (auto simp: drain_mailbox_def Let_def split: if_splits)

lemma go_on_turns: "same_turns r s s1 \<Longrightarrow> same_turns r s (snd (go_on m run s1))"
  by (auto simp: go_on_def intro: same_turns_trans same_turns_snapshot)

lemma turns_finish:
  assumes "agent_turn_finish opts reply run s = ((run', again), s')"
  shows "same_turns r s s' \<and> ag_ref run' = ag_ref run"
proof -
  define run1 where "run1 = run\<lparr>ag_final := ry_content reply, ag_flushed := (ag_flushed run \<or> flush_due opts reply run)\<rparr>"
  have put: "same_turns r t (put_loop (ag_ref q) l t)"
    if "ls_turn l = ls_turn (loop_at t (ag_ref q))" "ls_max l = ls_max (loop_at t (ag_ref q))" "ls_id l = ls_id (loop_at t (ag_ref q))" for q t l
    using that by (rule same_turns_put)
  have drain: "same_turns r t t'" if "drain_mailbox k t = (ms, t')" for k t ms t'
    using drain_heap[OF that] by (simp add: same_turns_heap)
  have tool: "same_turns r s s' \<and> ag_ref run' = ag_ref run1" if t: "tool_turn opts reply calls run1 s = ((run', again), s')" for calls
  proof -
    obtain b g where g: "guard_observe calls (ag_guard run1) = (b, g)" by fastforce
    obtain ms t where d: "drain_mailbox (ls_id (loop_at s (ag_ref run1))) s = (ms, t)" by fastforce
    from t show ?thesis
      by (auto simp: tool_turn_def g d Let_def fail_loop_def go_on_def split: if_splits
          intro!: put intro: same_turns_trans[OF drain[OF d]] same_turns_snapshot)
  qed
  have answer: "same_turns r s s' \<and> ag_ref run' = ag_ref run1" if t: "text_turn opts reply run1 s = ((run', again), s')"
  proof -
    obtain ms t where d: "drain_mailbox (ls_id (loop_at s (ag_ref run1))) s = (ms, t)" by fastforce
    note dr = same_turns_trans[OF drain[OF d]]
    from t show ?thesis
      by (auto simp: text_turn_def d Let_def go_on_def split: if_splits
          intro!: dr intro: put same_turns_snapshot same_turns_trans[OF put same_turns_snapshot])
  qed
  have "ag_ref run1 = ag_ref run" by (simp add: run1_def)
  with assms tool answer show ?thesis
    unfolding agent_turn_finish_def Let_def run1_def[symmetric] by (auto split: if_splits)
qed

lemma agent_loop_ends:
  assumes "ag_ref run < length (al_loop_heap s)" and "ls_turn (loop_at s (ag_ref run)) \<le> ls_max (loop_at s (ag_ref run))"
  shows "\<exists>k res. agent_loop opts aborted replies (\<lambda>n. fold loop_op_step (ops n)) n run s = Some (k, res)
     \<and> int k \<le> int n + (ls_max (loop_at s (ag_ref run)) - ls_turn (loop_at s (ag_ref run)))"
  using assms
proof (induction "nat (ls_max (loop_at s (ag_ref run)) - ls_turn (loop_at s (ag_ref run)))" arbitrary: n run s rule: less_induct)
  case less
  let ?l = "loop_at s (ag_ref run)"
  obtain x s1 where start: "agent_turn_start (aborted n) run s = (x, s1)" by fastforce
  show ?case
  proof (cases x)
    case (LoopOver run1)
    with start less.prems(2) show ?thesis by (subst agent_loop.simps) simp
  next
    case (AskProvider run1)
    with start have lt: "ls_turn ?l < ls_max ?l" and run1: "run1 = run"
      and s1: "s1 = put_loop (ag_ref run) (?l\<lparr>ls_turn := ls_turn ?l + 1\<rparr>) s"
      by (auto simp: agent_turn_start_def Let_def split: if_splits)
    let ?s2 = "fold loop_op_step (ops n) s1"
    obtain run3 again s3 where fin: "agent_turn_finish opts (replies n) run1 ?s2 = ((run3, again), s3)"
      by (metis prod.exhaust_sel)
    have one: "ls_turn (loop_at s1 (ag_ref run)) = ls_turn ?l + 1" "ls_max (loop_at s1 (ag_ref run)) = ls_max ?l"
        "length (al_loop_heap s1) = length (al_loop_heap s)"
      using less.prems(1) by (simp_all add: s1 put_loop_def loop_at_def)
    have same: "same_turns (ag_ref run) s1 s3" and ref: "ag_ref run3 = ag_ref run"
      using same_turns_trans[OF same_turns_ops[of "ag_ref run" s1 "ops n"]] turns_finish[OF fin, of "ag_ref run"] run1 by simp_all
    have three: "ag_ref run3 < length (al_loop_heap s3)" "ls_turn (loop_at s3 (ag_ref run3)) = ls_turn ?l + 1"
        "ls_max (loop_at s3 (ag_ref run3)) = ls_max ?l"
      using same one less.prems(1) ref by (auto simp: same_turns_def)
    show ?thesis
    proof (cases again)
      case False
      with start AskProvider fin lt show ?thesis by (subst agent_loop.simps) simp
    next
      case True
      have "\<exists>k res. agent_loop opts aborted replies (\<lambda>n. fold loop_op_step (ops n)) (Suc n) run3 s3 = Some (k, res)
         \<and> int k \<le> int (Suc n) + (ls_max (loop_at s3 (ag_ref run3)) - ls_turn (loop_at s3 (ag_ref run3)))"
        by (rule less.hyps) (use three lt in simp_all)
      with start AskProvider fin True three show ?thesis by (subst agent_loop.simps) auto
    qed
  qed
qed

text \<open>C15. An agent loop returns whatever the model, its tools and the other operations do, and asks
  the provider at most as often as it has turns.\<close>

theorem agent_loop_bounded:
  "\<exists>k res. run_agent_loop opts aborted replies (\<lambda>n. fold loop_op_step (ops n)) s = Some (k, res)
     \<and> int k \<le> max 1 (case ao_max_turns opts of Some n \<Rightarrow> if n = 0 then 30 else n | None \<Rightarrow> 30)"
proof -
  obtain run s1 where b: "agent_begin opts s = (run, s1)" by fastforce
  then have "ag_ref run < length (al_loop_heap s1)" "ls_turn (loop_at s1 (ag_ref run)) = 0"
      "ls_max (loop_at s1 (ag_ref run)) = max 1 (case ao_max_turns opts of Some n \<Rightarrow> if n = 0 then 30 else n | None \<Rightarrow> 30)"
    by (auto simp: agent_begin_def Let_def new_loop_def loop_at_def)
  with agent_loop_ends[of run s1 opts aborted replies ops 0] b show ?thesis by (simp add: run_agent_loop_def)
qed


section \<open>A stop is lost once the loop has gone on\<close>

definition known_loop :: "loop_store \<Rightarrow> string \<Rightarrow> loop_state option" where
  "known_loop s k = map_option (loop_at s) (jget (al_loops s) k)"

lemma finish_again:
  assumes "agent_turn_finish opts reply run s = ((run1, True), s1)"
  shows "\<exists>t. s1 = save_loop_snapshot (ag_ref run) t \<and> same_turns (ag_ref run) s t"
proof -
  have drain: "same_turns q t t'" if "drain_mailbox k t = (ms, t')" for q k t ms t'
    using drain_heap[OF that] by (simp add: same_turns_heap)
  have put: "same_turns q t (put_loop q ((loop_at t q)\<lparr>ls_continue := b\<rparr>) t)" for q t b
    by (rule same_turns_put) simp_all
  have tool: "\<exists>t. s1 = save_loop_snapshot (ag_ref r0) t \<and> same_turns (ag_ref r0) s t"
    if t: "tool_turn opts reply calls r0 s = ((run1, True), s1)" for calls r0
  proof -
    obtain b g where g: "guard_observe calls (ag_guard r0) = (b, g)" by fastforce
    obtain ms u where d: "drain_mailbox (ls_id (loop_at s (ag_ref r0))) s = (ms, u)" by fastforce
    from t drain[OF d] show ?thesis by (auto simp: tool_turn_def g d Let_def go_on_def split: if_splits)
  qed
  have answer: "\<exists>t. s1 = save_loop_snapshot (ag_ref r0) t \<and> same_turns (ag_ref r0) s t"
    if t: "text_turn opts reply r0 s = ((run1, True), s1)" for r0
  proof -
    obtain ms u where d: "drain_mailbox (ls_id (loop_at s (ag_ref r0))) s = (ms, u)" by fastforce
    from t drain[OF d] same_turns_trans[OF drain[OF d] put] show ?thesis
      by (auto simp: text_turn_def d Let_def go_on_def split: if_splits)
  qed
  let ?r0 = "run\<lparr>ag_final := ry_content reply, ag_flushed := (ag_flushed run \<or> flush_due opts reply run)\<rparr>"
  have "ag_ref ?r0 = ag_ref run" by simp
  with assms tool[of _ ?r0] answer[of ?r0] show ?thesis
    by (simp add: agent_turn_finish_def Let_def split: if_splits)
qed

lemma snapshot_entry: "known_loop (save_loop_snapshot r t) (ls_id (loop_at t r)) = Some (loop_at t r)"
  by (simp add: known_loop_def save_loop_snapshot_def new_loop_def loop_at_def)

text \<open>When a loop has gone on to another turn, the map holds a copy of it: a request to stop it is
  answered with a stopped loop, but the running loop stays as it is, its next turn starts as if
  nothing had been asked, and its next snapshot overwrites the stopped copy.\<close>

theorem stop_lost_after_turn:
  assumes "agent_turn_finish opts reply run s = ((run1, True), s1)" and "ag_ref run < length (al_loop_heap s)"
    and "stop_loop (ls_id (loop_at s (ag_ref run))) reason s1 = (told, s2)"
  shows "map_option ls_status told = Some LsStopped \<and> loop_at s2 (ag_ref run1) = loop_at s1 (ag_ref run1)
    \<and> fst (agent_turn_start aborted run1 s2) = fst (agent_turn_start aborted run1 s1)
    \<and> known_loop (save_loop_snapshot (ag_ref run1) s2) (ls_id (loop_at s (ag_ref run))) = Some (loop_at s1 (ag_ref run1))"
proof -
  let ?r = "ag_ref run" and ?k = "ls_id (loop_at s (ag_ref run))"
  obtain t where s1: "s1 = save_loop_snapshot ?r t" and same: "same_turns ?r s t" using finish_again[OF assms(1)] by blast
  have ref: "ag_ref run1 = ?r" using turns_finish[OF assms(1)] by simp
  have lt: "?r < length (al_loop_heap t)" and k: "ls_id (loop_at t ?r) = ?k" using same assms(2) by (auto simp: same_turns_def)
  have map_: "jget (al_loops s1) ?k = Some (length (al_loop_heap t))"
    by (simp add: s1 save_loop_snapshot_def new_loop_def k)
  have own: "loop_at s2 ?r = loop_at s1 ?r" and told: "map_option ls_status told = Some LsStopped"
    using assms(3)[unfolded stop_loop_def map_ option.case Let_def] lt by (auto simp: put_loop_def loop_at_def)
  have id1: "ls_id (loop_at s1 ?r) = ?k" using lt k by (simp add: s1 save_loop_snapshot_def new_loop_def loop_at_def nth_append)
  have "fst (agent_turn_start aborted run1 s2) = fst (agent_turn_start aborted run1 s1)"
    using own by (simp add: agent_turn_start_def Let_def ref)
  moreover have "known_loop (save_loop_snapshot ?r s2) ?k = Some (loop_at s1 ?r)"
    using snapshot_entry[of ?r s2] own id1 by simp
  ultimately show ?thesis using own told ref by simp
qed

definition demo_agent_options :: agent_options where
  "demo_agent_options = \<lparr>ao_loop_id = ''l'', ao_agent_id = ''a'', ao_team_id = None, ao_objective = ''do it'', ao_message = None,
     ao_max_turns = None, ao_flush = None, ao_tool_handler = True, ao_check = True, ao_blocked_notice = []\<rparr>"

definition demo_reply :: agent_reply where
  "demo_reply = \<lparr>ry_content = Some ''ok'', ry_has_tool_calls = False, ry_tool_calls = [], ry_text_calls = [],
     ry_prompt_tokens = None, ry_followup = None, ry_continue = ContinueFlag True\<rparr>"

definition demo_turn :: "(agent_run \<times> bool) \<times> loop_store" where
  "demo_turn = (case agent_begin demo_agent_options (loop_store_new None) of (run, s) \<Rightarrow>
     agent_turn_finish demo_agent_options demo_reply run (snd (agent_turn_start False run s)))"

theorem stop_lost_after_turn_witness:
  "case demo_turn of ((run, again), s1) \<Rightarrow> again
     \<and> map_option ls_status (fst (stop_loop ''l'' ''user'' s1)) = Some LsStopped
     \<and> fst (agent_turn_start False run (snd (stop_loop ''l'' ''user'' s1))) = fst (agent_turn_start False run s1)"
proof -
  obtain run s where b: "agent_begin demo_agent_options (loop_store_new None) = (run, s)" by fastforce
  let ?s = "snd (agent_turn_start False run s)"
  obtain run1 again s1 where fin: "agent_turn_finish demo_agent_options demo_reply run ?s = ((run1, again), s1)"
    by (metis prod.exhaust_sel)
  have again: "again" using fin by (simp add: agent_turn_finish_def demo_reply_def text_turn_def Let_def go_on_def
        demo_agent_options_def split: prod.splits if_splits)
  have ref: "ag_ref run < length (al_loop_heap ?s)" "ls_id (loop_at ?s (ag_ref run)) = ''l''"
    using b by (auto simp: agent_begin_def demo_agent_options_def loop_store_new_def new_loop_def agent_turn_start_def
        Let_def put_loop_def loop_at_def)
  obtain told s2 where stop: "stop_loop ''l'' ''user'' s1 = (told, s2)" by fastforce
  have "map_option ls_status told = Some LsStopped
      \<and> fst (agent_turn_start False run1 s2) = fst (agent_turn_start False run1 s1)"
    using stop_lost_after_turn[OF fin[unfolded eqTrueI[OF again]] ref(1), of "''user''" told s2 False] stop ref(2) by simp
  then show ?thesis using again fin stop by (simp add: demo_turn_def b)
qed

end
