(* ===== verification/TaskLoop.thy ===== *)
theory TaskLoop
  imports AgentLoop
begin

text \<open>
  The tasks of \<open>AgentLoopStore\<close> (\<open>src/src/agent/loop.service.ts\<close>): the map in memory with its
  persistence, recovery after a restart, expiry, cancellation and resumption, and
  \<open>run_task_loop\<close>.

  A task is an object in a heap and so is its memory, because the map shares both with a running
  loop: a snapshot gives the task a new memory object and puts a copy of the task, with the same
  memory object, into the map. Time stamps in the memory are their milliseconds. Writing to the
  table happens at once; the first argument of the operations is \<open>String\<close> of a value, the second
  the clock.
\<close>

section \<open>Task objects\<close>

definition task_value :: "loop_store \<Rightarrow> nat \<Rightarrow> task" where
  "task_value s r = (let o1 = al_task_heap s ! r in (to_task o1)\<lparr>tk_memory := al_memories s ! to_memory o1\<rparr>)"

definition new_task :: "task \<Rightarrow> loop_store \<Rightarrow> nat \<times> loop_store" where
  "new_task t s = (length (al_task_heap s),
     s\<lparr>al_task_heap := al_task_heap s @ [\<lparr>to_task = t, to_memory = length (al_memories s)\<rparr>],
       al_memories := al_memories s @ [tk_memory t]\<rparr>)"

definition set_task :: "nat \<Rightarrow> (task \<Rightarrow> task) \<Rightarrow> loop_store \<Rightarrow> loop_store" where
  "set_task r f s = s\<lparr>al_task_heap := (al_task_heap s)[r := (al_task_heap s ! r)\<lparr>to_task := f (to_task (al_task_heap s ! r))\<rparr>]\<rparr>"

text \<open>A write into the memory object a task refers to, and a new memory object for it.\<close>

definition set_task_memory :: "nat \<Rightarrow> string \<Rightarrow> jsval \<Rightarrow> loop_store \<Rightarrow> loop_store" where
  "set_task_memory r k v s = (let m = to_memory (al_task_heap s ! r)
     in s\<lparr>al_memories := (al_memories s)[m := jset k v (al_memories s ! m)]\<rparr>)"

definition replace_memory :: "nat \<Rightarrow> memory \<Rightarrow> loop_store \<Rightarrow> loop_store" where
  "replace_memory r mem s = s\<lparr>al_memories := al_memories s @ [mem],
     al_task_heap := (al_task_heap s)[r := (al_task_heap s ! r)\<lparr>to_memory := length (al_memories s)\<rparr>]\<rparr>"

definition put_task :: "string \<Rightarrow> nat \<Rightarrow> loop_store \<Rightarrow> loop_store" where
  "put_task k r s = s\<lparr>al_tasks := jset k r (al_tasks s)\<rparr>"

definition task_status_at :: "loop_store \<Rightarrow> nat \<Rightarrow> task_status" where
  "task_status_at s r = tk_status (to_task (al_task_heap s ! r))"

definition set_task_status :: "nat \<Rightarrow> task_status \<Rightarrow> string option \<Rightarrow> loop_store \<Rightarrow> loop_store" where
  "set_task_status r st reason s = set_task r (\<lambda>t. t\<lparr>tk_status := st, tk_exit := reason\<rparr>) s"

definition persist_task :: "(jsval \<Rightarrow> string) \<Rightarrow> nat \<Rightarrow> nat \<Rightarrow> loop_store \<Rightarrow> loop_store" where
  "persist_task str now r s = s\<lparr>al_table := map_option (task_upsert str now (task_value s r)) (al_table s)\<rparr>"

definition task_changed :: "nat \<Rightarrow> loop_store \<Rightarrow> loop_store" where
  "task_changed r s = s\<lparr>al_changes := al_changes s @ [task_value s r]\<rparr>"

text \<open>A number kept in the memory; an entry that is not a number reads as 0.\<close>

definition memory_number :: "loop_store \<Rightarrow> nat \<Rightarrow> string \<Rightarrow> rat" where
  "memory_number s r k = (case memory_at (tk_memory (task_value s r)) k of JNum n \<Rightarrow> n | _ \<Rightarrow> 0)"

definition seoul_stamp :: "nat \<Rightarrow> jsval" where
  "seoul_stamp now = JNum (of_nat (now div 1000 * 1000))"

definition session_value :: "loop_store \<Rightarrow> jsval" where
  "session_value s = (if al_session s = [] then JUndef else JStr (al_session s))"

text \<open>A snapshot: a new memory object, a copy of the task in the map, the row and the broadcast.\<close>

definition save_task_snapshot :: "(jsval \<Rightarrow> string) \<Rightarrow> nat \<Rightarrow> nat \<Rightarrow> loop_store \<Rightarrow> loop_store" where
  "save_task_snapshot str now r s =
     (let mem = jset ''__session_id'' (session_value s) (jset ''__updated_at_seoul'' (seoul_stamp now) (tk_memory (task_value s r)));
          s = replace_memory r mem s;
          copy = length (al_task_heap s);
          s = put_task (tk_id (to_task (al_task_heap s ! r))) copy (s\<lparr>al_task_heap := al_task_heap s @ [al_task_heap s ! r]\<rparr>)
      in task_changed r (persist_task str now r s))"

definition get_task :: "loop_store \<Rightarrow> string \<Rightarrow> task option" where
  "get_task s k = map_option (task_value s) (jget (al_tasks s) k)"

definition list_tasks :: "loop_store \<Rightarrow> task list" where
  "list_tasks s = map (task_value s) (jvals (al_tasks s))"


section \<open>Recovery, expiry, cancellation and resumption\<close>

definition recover_task :: "(jsval \<Rightarrow> string) \<Rightarrow> nat \<Rightarrow> nat \<Rightarrow> loop_store \<times> task list \<Rightarrow> loop_store \<times> task list" where
  "recover_task str now r p = (case p of (s, recovered) \<Rightarrow>
     let t = task_value s r
     in if tk_status t \<noteq> TkRunning \<or> memory_at (tk_memory t) ''__session_id'' = JStr (al_session s) then (s, recovered)
        else
          let s = (if starts_with ''task:'' (tk_id t)
                   then set_task_memory r ''__interrupted'' (JBool True)
                          (set_task_status r TkWaitingUserInput (Some ''session_expired'') s)
                   else set_task_status r TkFailed (Some ''session_expired'') s);
              s = task_changed r (persist_task str now r (put_task (tk_id t) r s))
          in (s, recovered @ [task_value s r]))"

definition recover_orphaned_tasks :: "(jsval \<Rightarrow> string) \<Rightarrow> nat \<Rightarrow> loop_store \<Rightarrow> loop_store \<times> task list" where
  "recover_orphaned_tasks str now s = fold (recover_task str now) (jvals (al_tasks s)) (s, [])"

definition load_task :: "task \<Rightarrow> loop_store \<Rightarrow> loop_store" where
  "load_task t s = (case new_task t s of (r, s) \<Rightarrow> put_task (tk_id t) r s)"

definition initialize_tasks :: "(jsval \<Rightarrow> string) \<Rightarrow> nat \<Rightarrow> loop_store \<Rightarrow> loop_store" where
  "initialize_tasks str now s = (case al_table s of
       None \<Rightarrow> s
     | Some db \<Rightarrow>
         let s = fold load_task (task_list str db) s
         in if al_session s = [] then s else fst (recover_orphaned_tasks str now s))"

definition expire_task :: "(jsval \<Rightarrow> string) \<Rightarrow> nat \<Rightarrow> int \<Rightarrow> string \<times> nat \<Rightarrow> loop_store \<times> task list \<times> string list
    \<Rightarrow> loop_store \<times> task list \<times> string list" where
  "expire_task str now ttl e p = (case e of (k, r) \<Rightarrow> case p of (s, expired, gone) \<Rightarrow>
     let updated = memory_number s r ''__updated_at_seoul''; st = task_status_at s r; age = of_nat now - updated
     in if st = TkCompleted \<or> st = TkCancelled
        then (s, expired, if updated \<noteq> 0 \<and> of_int ttl < age then gone @ [k] else gone)
        else if st \<noteq> TkWaitingApproval \<and> st \<noteq> TkWaitingUserInput then (s, expired, gone)
        else if updated = 0 \<or> age < of_int ttl then (s, expired, gone)
        else let s = put_task k r (set_task_status r TkCancelled (Some ''expired_stale'') s);
                 s = task_changed r (persist_task str now r s)
             in (s, expired @ [task_value s r], gone))"

definition drop_ended_loop :: "string \<times> nat \<Rightarrow> loop_store \<Rightarrow> loop_store" where
  "drop_ended_loop e s = (case e of (k, r) \<Rightarrow>
     if ls_status (loop_at s r) \<in> {LsStopped, LsFailed}
     then s\<lparr>al_loops := jdel k (al_loops s), al_mailbox := jdel k (al_mailbox s)\<rparr> else s)"

definition expire_stale_tasks :: "(jsval \<Rightarrow> string) \<Rightarrow> nat \<Rightarrow> int \<Rightarrow> loop_store \<Rightarrow> task list \<times> loop_store" where
  "expire_stale_tasks str now ttl s =
     (case fold (expire_task str now ttl) (al_tasks s) (s, [], []) of (s, expired, gone) \<Rightarrow>
        let s = s\<lparr>al_tasks := fold jdel gone (al_tasks s)\<rparr>
        in (expired, fold drop_ended_loop (al_loops s) s))"

text \<open>The task in the map, or a fresh object for the row in the table.\<close>

definition lookup_task :: "(jsval \<Rightarrow> string) \<Rightarrow> string \<Rightarrow> loop_store \<Rightarrow> (nat \<times> loop_store) option" where
  "lookup_task str k s = (case jget (al_tasks s) k of
       Some r \<Rightarrow> Some (r, s)
     | None \<Rightarrow> (case al_table s of None \<Rightarrow> None
         | Some db \<Rightarrow> map_option (\<lambda>t. new_task t s) (task_get str db k)))"

definition cancel_task :: "(jsval \<Rightarrow> string) \<Rightarrow> nat \<Rightarrow> string \<Rightarrow> string \<Rightarrow> loop_store \<Rightarrow> task option \<times> loop_store" where
  "cancel_task str now k reason s = (case lookup_task str k s of
       None \<Rightarrow> (None, s)
     | Some (r, s) \<Rightarrow>
         let s = put_task k r (set_task_status r TkCancelled (Some reason) s);
             s = s\<lparr>al_cascade := al_cascade s @ [k]\<rparr>;
             s = task_changed r (persist_task str now r s)
         in (Some (task_value s r), s))"

definition max_task_turns :: int where
  "max_task_turns = 500"

definition max_resume_count :: rat where
  "max_resume_count = 3"

definition restore_channel :: "nat \<Rightarrow> (string \<times> string) option \<Rightarrow> loop_store \<Rightarrow> loop_store" where
  "restore_channel r ctx s = (case ctx of None \<Rightarrow> s
     | Some (channel, chat_id) \<Rightarrow>
         let s = (if tk_channel (task_value s r) = [] \<and> channel \<noteq> []
                  then set_task_memory r ''channel'' (JStr channel) (set_task r (\<lambda>t. t\<lparr>tk_channel := channel\<rparr>) s) else s)
         in if tk_chat_id (task_value s r) = [] \<and> chat_id \<noteq> []
            then set_task_memory r ''chat_id'' (JStr chat_id) (set_task r (\<lambda>t. t\<lparr>tk_chat_id := chat_id\<rparr>) s) else s)"

text \<open>A quarter of the turns more, rounded up, at most 500 in all.\<close>

definition extended_turns :: "int \<Rightarrow> int \<Rightarrow> int" where
  "extended_turns turn max_turns = (if max_turns \<le> turn
     then min (turn + max 1 ((max 1 max_turns + 3) div 4)) max_task_turns else max_turns)"

definition resume_task :: "(jsval \<Rightarrow> string) \<Rightarrow> nat \<Rightarrow> string \<Rightarrow> string option \<Rightarrow> string \<Rightarrow> (string \<times> string) option
    \<Rightarrow> loop_store \<Rightarrow> task option \<times> loop_store" where
  "resume_task str now k input reason ctx s = (case lookup_task str k s of
       None \<Rightarrow> (None, s)
     | Some (r, s) \<Rightarrow>
         if task_status_at s r = TkCompleted \<or> task_status_at s r = TkCancelled then (Some (task_value s r), s)
         else
           let s = restore_channel r ctx s; count = memory_number s r ''__resume_count'' + 1
           in if max_resume_count < count
              then let s = put_task k r (set_task_status r TkCancelled (Some ''max_resume_exceeded'') s);
                       s = persist_task str now r s
                   in (Some (task_value s r), s)
              else
                let s = set_task_memory r ''__resume_count'' (JNum count) s;
                    s = set_task r (\<lambda>t. t\<lparr>tk_max_turns := extended_turns (tk_turn t) (tk_max_turns t)\<rparr>) s;
                    s = (case input of None \<Rightarrow> s | Some u \<Rightarrow>
                           set_task_memory r ''__resumed_at'' (JNum (of_nat now)) (set_task_memory r ''__user_input'' (JStr u) s));
                    s = put_task k r (set_task_status r TkRunning (Some reason) s);
                    s = persist_task str now r s
                in (Some (task_value s r), s))"


section \<open>The task loop\<close>

record task_options =
  tp_task_id :: string
  tp_team_id :: "string option"
  tp_title :: string
  tp_objective :: string
  tp_channel :: string
  tp_chat_id :: string
  tp_nodes :: "string list"
  tp_max_turns :: "int option"
  tp_memory :: memory
  tp_start :: "int option"

record node_result =
  nr_status :: "task_status option"
  nr_patch :: "memory option"
  nr_next :: "int option"
  nr_step :: "string option"
  nr_exit :: "string option"

datatype node_answer = NodeResult node_result | NodeFails string

datatype task_step = RunNode nat | TaskOver

definition task_begin :: "(jsval \<Rightarrow> string) \<Rightarrow> nat \<Rightarrow> task_options \<Rightarrow> loop_store \<Rightarrow> nat \<times> loop_store" where
  "task_begin str now opts s =
     (let existing = jget (al_tasks s) (tp_task_id opts);
          fresh = \<lparr>tk_id = tp_task_id opts, tk_team = (case tp_team_id opts of Some t \<Rightarrow> t | None \<Rightarrow> []), tk_title = tp_title opts,
                   tk_objective = tp_objective opts, tk_channel = tp_channel opts, tk_chat_id = tp_chat_id opts, tk_turn = 0,
                   tk_max_turns = max 1 (case tp_max_turns opts of Some n \<Rightarrow> if n = 0 then 40 else n | None \<Rightarrow> 40),
                   tk_status = TkRunning, tk_step = None, tk_exit = None, tk_memory = tp_memory opts\<rparr>
      in case (case existing of Some r \<Rightarrow> (r, s) | None \<Rightarrow> new_task fresh s) of (r, s) \<Rightarrow>
           let s = set_task r (\<lambda>t. t\<lparr>tk_channel := (if tk_channel t = [] then tp_channel opts else tk_channel t),
                                    tk_chat_id := (if tk_chat_id t = [] then tp_chat_id opts else tk_chat_id t)\<rparr>) s
           in if existing = None
              then let s = set_task_memory r ''__step_index''
                             (JNum (of_int (case tp_start opts of Some i \<Rightarrow> i | None \<Rightarrow> 0))) s
                   in (r, persist_task str now r (put_task (tp_task_id opts) r s))
              else (r, if of_nat (length (tp_nodes opts)) \<le> memory_number s r ''__step_index''
                       then set_task_memory r ''__step_index'' (JNum 0) s else s))"

definition take_injected :: "nat \<Rightarrow> loop_store \<Rightarrow> loop_store" where
  "take_injected r s = (case drain_mailbox (tk_id (task_value s r)) s of (ms, s) \<Rightarrow>
     if ms = [] then s else set_task_memory r ''__injected_message'' (JStr (str_join blank_line ms)) s)"

definition current_index :: "loop_store \<Rightarrow> nat \<Rightarrow> nat" where
  "current_index s r = nat (floor (max 0 (memory_number s r ''__step_index'')))"

definition task_turn_start :: "task_options \<Rightarrow> bool \<Rightarrow> nat \<Rightarrow> loop_store \<Rightarrow> task_step \<times> loop_store" where
  "task_turn_start opts aborted r s =
     (let t = task_value s r
      in if \<not> (tk_turn t < tk_max_turns t \<and> tk_status t = TkRunning) then (TaskOver, s)
         else if aborted then (TaskOver, set_task_status r TkCancelled (Some ''aborted'') s)
         else
           let s = take_injected r s; i = current_index s r
           in if length (tp_nodes opts) \<le> i then (TaskOver, set_task_status r TkCompleted (Some ''workflow_completed'') s)
              else (RunNode i, set_task r (\<lambda>t. t\<lparr>tk_turn := tk_turn t + 1, tk_step := Some (tp_nodes opts ! i)\<rparr>) s))"

definition merge_memory :: "memory \<Rightarrow> memory \<Rightarrow> memory" where
  "merge_memory mem patch = fold (\<lambda>(k, v) m. jset k v m) patch mem"

definition apply_result :: "task_options \<Rightarrow> nat \<Rightarrow> node_result \<Rightarrow> nat \<Rightarrow> loop_store \<Rightarrow> loop_store" where
  "apply_result opts i res r s =
     (let s = (case nr_patch res of None \<Rightarrow> s | Some p \<Rightarrow> replace_memory r (merge_memory (tk_memory (task_value s r)) p) s);
          s = (case nr_step res of None \<Rightarrow> s | Some k \<Rightarrow> if k = [] then s else set_task r (\<lambda>t. t\<lparr>tk_step := Some k\<rparr>) s);
          s = (case nr_status res of None \<Rightarrow> s
               | Some st \<Rightarrow> if st = TkRunning then s
                   else set_task r (\<lambda>t. t\<lparr>tk_status := st,
                          tk_exit := (case nr_exit res of Some e \<Rightarrow> if e = [] then tk_exit t else Some e | None \<Rightarrow> tk_exit t)\<rparr>) s)
      in if task_status_at s r \<noteq> TkRunning then s
         else let next_index = (case nr_next res of Some n \<Rightarrow> n | None \<Rightarrow> int i + 1);
                  s = set_task_memory r ''__step_index'' (JNum (of_int next_index)) s
              in if int (length (tp_nodes opts)) \<le> next_index
                 then set_task_status r TkCompleted (Some ''workflow_completed'') s else s)"

definition terminal_task :: "task_status \<Rightarrow> bool" where
  "terminal_task st \<longleftrightarrow> st \<in> {TkWaitingApproval, TkWaitingUserInput, TkFailed, TkCancelled, TkCompleted}"

text \<open>After the node; the flag says whether the loop is tried again.\<close>

definition task_turn_finish :: "(jsval \<Rightarrow> string) \<Rightarrow> nat \<Rightarrow> task_options \<Rightarrow> nat \<Rightarrow> node_answer \<Rightarrow> nat \<Rightarrow> loop_store \<Rightarrow> bool \<times> loop_store" where
  "task_turn_finish str now opts i answer r s =
     (let s = (case answer of NodeResult res \<Rightarrow> apply_result opts i res r s
               | NodeFails e \<Rightarrow> set_task_status r TkFailed (Some e) s);
          s = save_task_snapshot str now r s
      in (\<not> terminal_task (task_status_at s r), s))"

definition task_end :: "(jsval \<Rightarrow> string) \<Rightarrow> nat \<Rightarrow> nat \<Rightarrow> loop_store \<Rightarrow> task \<times> loop_store" where
  "task_end str now r s =
     (let t = task_value s r;
          s = (if tk_status t = TkRunning \<and> tk_max_turns t \<le> tk_turn t
               then set_task_status r TkMaxTurns (Some ''max_turns_reached'') s else s);
          s = save_task_snapshot str now r s
      in (task_value s r, s))"

partial_function (option) task_loop :: "(jsval \<Rightarrow> string) \<Rightarrow> (nat \<Rightarrow> nat) \<Rightarrow> task_options \<Rightarrow> (nat \<Rightarrow> bool)
    \<Rightarrow> (nat \<Rightarrow> nat \<Rightarrow> task \<Rightarrow> node_answer) \<Rightarrow> nat \<Rightarrow> nat \<Rightarrow> loop_store \<Rightarrow> (nat \<times> task \<times> loop_store) option" where
  "task_loop str clock opts aborted node n r s =
     (case task_turn_start opts (aborted n) r s of
        (TaskOver, s) \<Rightarrow> (case task_end str (clock n) r s of (t, s) \<Rightarrow> Some (n, t, s))
      | (RunNode i, s) \<Rightarrow>
          (case task_turn_finish str (clock n) opts i (node n i (task_value s r)) r s of
             (again, s) \<Rightarrow>
               if again then task_loop str clock opts aborted node (Suc n) r s
               else (case task_end str (clock n) r s of (t, s) \<Rightarrow> Some (Suc n, t, s))))"

definition run_task_loop :: "(jsval \<Rightarrow> string) \<Rightarrow> (nat \<Rightarrow> nat) \<Rightarrow> task_options \<Rightarrow> (nat \<Rightarrow> bool)
    \<Rightarrow> (nat \<Rightarrow> nat \<Rightarrow> task \<Rightarrow> node_answer) \<Rightarrow> loop_store \<Rightarrow> (nat \<times> task \<times> loop_store) option" where
  "run_task_loop str clock opts aborted node s =
     (case task_begin str (clock 0) opts s of (r, s) \<Rightarrow> task_loop str clock opts aborted node 0 r s)"


section \<open>Task objects and what the operations leave of them\<close>

definition task_there :: "loop_store \<Rightarrow> nat \<Rightarrow> bool" where
  "task_there s r \<longleftrightarrow> r < length (al_task_heap s) \<and> to_memory (al_task_heap s ! r) < length (al_memories s)"

text \<open>A change of a task that does not look at its memory.\<close>

definition plain_change :: "(task \<Rightarrow> task) \<Rightarrow> bool" where
  "plain_change f \<longleftrightarrow> (\<forall>t m. f (t\<lparr>tk_memory := m\<rparr>) = (f t)\<lparr>tk_memory := m\<rparr>)"

lemma value_set_task:
  "plain_change f \<Longrightarrow> task_there s r \<Longrightarrow> task_value (set_task r f s) r = f (task_value s r)"
  by (simp add: task_value_def set_task_def task_there_def plain_change_def Let_def)

lemma value_set_status [simp]:
  "task_there s r \<Longrightarrow> task_value (set_task_status r st e s) r = (task_value s r)\<lparr>tk_status := st, tk_exit := e\<rparr>"
  by (simp add: set_task_status_def value_set_task plain_change_def)

lemma value_set_memory [simp]:
  "task_there s r \<Longrightarrow> task_value (set_task_memory r k v s) r = (task_value s r)\<lparr>tk_memory := jset k v (tk_memory (task_value s r))\<rparr>"
  by (simp add: task_value_def set_task_memory_def task_there_def Let_def)

lemma heap_memory: "to_memory (al_task_heap (set_task q f s) ! r) = to_memory (al_task_heap s ! r)"
proof (cases "q < length (al_task_heap s)")
  case True
  then show ?thesis by (cases "r = q") (simp_all add: set_task_def)
next
  case False
  then show ?thesis by (simp add: set_task_def list_update_beyond)
qed

lemma there_set [simp]:
  "task_there (set_task q f s) r = task_there s r"
  "task_there (set_task_memory q k v s) r = task_there s r"
  unfolding task_there_def heap_memory by (simp_all add: set_task_def set_task_memory_def Let_def)

lemma there_upd [simp]:
  "task_there (put_task k q s) r = task_there s r" "task_there (persist_task str now q s) r = task_there s r"
  "task_there (task_changed q s) r = task_there s r" "task_there (set_task_status q st e s) r = task_there s r"
  by (simp_all add: task_there_def put_task_def persist_task_def task_changed_def set_task_status_def heap_memory)
     (simp add: set_task_def)

lemma value_upd [simp]:
  "task_value (put_task k q s) r = task_value s r" "task_value (persist_task str now q s) r = task_value s r"
  "task_value (task_changed q s) r = task_value s r"
  by (simp_all add: task_value_def put_task_def persist_task_def task_changed_def)

lemma status_at_value: "task_status_at s r = tk_status (task_value s r)"
  by (simp add: task_status_at_def task_value_def Let_def)

text \<open>A snapshot keeps the task's fields, and puts a copy of it in the map and in the table.\<close>

lemma snapshot_value:
  assumes "task_there s r"
  shows "task_value (save_task_snapshot str now r s) r = (task_value s r)\<lparr>tk_memory :=
      jset ''__session_id'' (session_value s) (jset ''__updated_at_seoul'' (seoul_stamp now) (tk_memory (task_value s r)))\<rparr>"
  using assms
  by (simp add: save_task_snapshot_def Let_def task_value_def replace_memory_def put_task_def persist_task_def
      task_changed_def task_there_def nth_append)

lemma snapshot_there: "task_there s r \<Longrightarrow> task_there (save_task_snapshot str now r s) r"
  by (simp add: save_task_snapshot_def Let_def replace_memory_def put_task_def persist_task_def
      task_changed_def task_there_def nth_append)

lemma snapshot_map:
  "task_there s r \<Longrightarrow> jget (al_tasks (save_task_snapshot str now r s)) (tk_id (task_value s r)) = Some (length (al_task_heap s))"
  by (simp add: save_task_snapshot_def Let_def replace_memory_def put_task_def persist_task_def
      task_changed_def task_there_def task_value_def)

lemma snapshot_get:
  assumes "task_there s r"
  shows "get_task (save_task_snapshot str now r s) (tk_id (task_value s r)) = Some (task_value (save_task_snapshot str now r s) r)"
proof -
  have "task_value (save_task_snapshot str now r s) (length (al_task_heap s)) = task_value (save_task_snapshot str now r s) r"
    using assms by (simp add: save_task_snapshot_def Let_def task_value_def replace_memory_def put_task_def
        persist_task_def task_changed_def task_there_def nth_append)
  then show ?thesis by (simp add: get_task_def snapshot_map[OF assms])
qed

lemma snapshot_table:
  assumes "task_there s r"
  shows "al_table (save_task_snapshot str now r s)
       = map_option (task_upsert str now (task_value (save_task_snapshot str now r s) r)) (al_table s)"
proof -
  let ?mem = "jset ''__session_id'' (session_value s) (jset ''__updated_at_seoul'' (seoul_stamp now) (tk_memory (task_value s r)))"
  let ?s1 = "replace_memory r ?mem s"
  let ?s2 = "put_task (tk_id (to_task (al_task_heap ?s1 ! r))) (length (al_task_heap ?s1))
               (?s1\<lparr>al_task_heap := al_task_heap ?s1 @ [al_task_heap ?s1 ! r]\<rparr>)"
  have run: "save_task_snapshot str now r s = task_changed r (persist_task str now r ?s2)"
    by (simp only: save_task_snapshot_def Let_def)
  have "al_table ?s2 = al_table s" by (simp add: put_task_def replace_memory_def)
  then show ?thesis unfolding run by (simp add: task_changed_def persist_task_def) (simp add: task_value_def put_task_def)
qed

lemma value_replace [simp]:
  "task_there s r \<Longrightarrow> task_value (replace_memory r mem s) r = (task_value s r)\<lparr>tk_memory := mem\<rparr>"
  "task_there s r \<Longrightarrow> task_there (replace_memory r mem s) r"
  by (simp_all add: task_value_def replace_memory_def task_there_def Let_def)

lemma plain_fields [simp]:
  "plain_change (\<lambda>t. t\<lparr>tk_step := k\<rparr>)" "plain_change (\<lambda>t. t\<lparr>tk_turn := tk_turn t + 1, tk_step := k\<rparr>)"
  "plain_change (\<lambda>t. t\<lparr>tk_max_turns := extended_turns (tk_turn t) (tk_max_turns t)\<rparr>)"
  "plain_change (\<lambda>t. t\<lparr>tk_channel := c\<rparr>)" "plain_change (\<lambda>t. t\<lparr>tk_chat_id := c\<rparr>)"
  "plain_change (\<lambda>t. t\<lparr>tk_status := st, tk_exit := (case e of Some x \<Rightarrow> if x = [] then tk_exit t else Some x | None \<Rightarrow> tk_exit t)\<rparr>)"
  "plain_change (\<lambda>t. t\<lparr>tk_channel := (if tk_channel t = [] then c else tk_channel t), tk_chat_id := (if tk_chat_id t = [] then d else tk_chat_id t)\<rparr>)"
  by (auto simp: plain_change_def split: option.split)

text \<open>What a turn never changes of a task.\<close>

definition same_task :: "nat \<Rightarrow> loop_store \<Rightarrow> loop_store \<Rightarrow> bool" where
  "same_task r s s' \<longleftrightarrow> task_there s' r \<and> tk_turn (task_value s' r) = tk_turn (task_value s r)
     \<and> tk_max_turns (task_value s' r) = tk_max_turns (task_value s r) \<and> tk_id (task_value s' r) = tk_id (task_value s r)"

lemma same_task_trans: "same_task r s s1 \<Longrightarrow> same_task r s1 s2 \<Longrightarrow> same_task r s s2"
  by (simp add: same_task_def)

lemma drain_task: "drain_mailbox k s = (ms, s') \<Longrightarrow> task_there s' r = task_there s r \<and> task_value s' r = task_value s r"
  by (auto simp: drain_mailbox_def Let_def task_there_def task_value_def split: if_splits)

lemma take_injected_same:
  assumes "task_there s r"
  shows "same_task r s (take_injected r s) \<and> tk_status (task_value (take_injected r s) r) = tk_status (task_value s r)"
proof -
  obtain ms s1 where d: "drain_mailbox (tk_id (task_value s r)) s = (ms, s1)" by fastforce
  from drain_task[OF d, of r] assms show ?thesis by (simp add: take_injected_def d same_task_def)
qed

lemma turn_start_run:
  assumes "task_turn_start opts aborted r s = (RunNode i, s')" and "task_there s r"
  shows "task_there s' r \<and> tk_turn (task_value s' r) = tk_turn (task_value s r) + 1
    \<and> tk_max_turns (task_value s' r) = tk_max_turns (task_value s r) \<and> tk_id (task_value s' r) = tk_id (task_value s r)
    \<and> tk_status (task_value s r) = TkRunning \<and> tk_turn (task_value s r) < tk_max_turns (task_value s r)"
  using assms take_injected_same[OF assms(2)]
  by (auto simp: task_turn_start_def Let_def same_task_def value_set_task split: if_splits)

lemma turn_start_over:
  assumes "task_turn_start opts aborted r s = (TaskOver, s')" and "task_there s r"
  shows "task_there s' r \<and> tk_id (task_value s' r) = tk_id (task_value s r)
    \<and> (tk_status (task_value s' r) \<noteq> TkRunning \<or> tk_max_turns (task_value s' r) \<le> tk_turn (task_value s' r))"
  using assms take_injected_same[OF assms(2)]
  by (auto simp: task_turn_start_def Let_def same_task_def split: if_splits)

lemma apply_result_same:
  assumes "task_there s r"
  shows "same_task r s (apply_result opts i res r s)"
proof -
  let ?s1 = "case nr_patch res of None \<Rightarrow> s | Some p \<Rightarrow> replace_memory r (merge_memory (tk_memory (task_value s r)) p) s"
  let ?s2 = "case nr_step res of None \<Rightarrow> ?s1 | Some k \<Rightarrow> if k = [] then ?s1 else set_task r (\<lambda>t. t\<lparr>tk_step := Some k\<rparr>) ?s1"
  let ?s3 = "case nr_status res of None \<Rightarrow> ?s2
               | Some st \<Rightarrow> if st = TkRunning then ?s2
                   else set_task r (\<lambda>t. t\<lparr>tk_status := st,
                          tk_exit := (case nr_exit res of Some e \<Rightarrow> if e = [] then tk_exit t else Some e | None \<Rightarrow> tk_exit t)\<rparr>) ?s2"
  have 1: "same_task r s ?s1" using assms by (cases "nr_patch res") (simp_all add: same_task_def)
  have 2: "same_task r ?s1 ?s2" using 1 by (cases "nr_step res") (simp_all add: same_task_def value_set_task)
  have 3: "same_task r ?s2 ?s3" using 2 by (cases "nr_status res") (simp_all add: same_task_def value_set_task)
  have s3: "same_task r s ?s3" using 1 2 3 same_task_trans by blast
  have "same_task r ?s3 (if task_status_at ?s3 r \<noteq> TkRunning then ?s3
         else let next_index = (case nr_next res of Some n \<Rightarrow> n | None \<Rightarrow> int i + 1);
                  s = set_task_memory r ''__step_index'' (JNum (of_int next_index)) ?s3
              in if int (length (tp_nodes opts)) \<le> next_index
                 then set_task_status r TkCompleted (Some ''workflow_completed'') s else s)"
    using s3 by (simp add: same_task_def Let_def)
  with s3 have "same_task r s (if task_status_at ?s3 r \<noteq> TkRunning then ?s3
         else let next_index = (case nr_next res of Some n \<Rightarrow> n | None \<Rightarrow> int i + 1);
                  s = set_task_memory r ''__step_index'' (JNum (of_int next_index)) ?s3
              in if int (length (tp_nodes opts)) \<le> next_index
                 then set_task_status r TkCompleted (Some ''workflow_completed'') s else s)"
    by (rule same_task_trans)
  then show ?thesis unfolding apply_result_def Let_def .
qed

lemma turn_finish_same:
  assumes "task_turn_finish str now opts i answer r s = (again, s')" and "task_there s r"
  shows "same_task r s s' \<and> (again \<longleftrightarrow> \<not> terminal_task (tk_status (task_value s' r)))"
proof -
  let ?s1 = "case answer of NodeResult res \<Rightarrow> apply_result opts i res r s | NodeFails e \<Rightarrow> set_task_status r TkFailed (Some e) s"
  have 1: "same_task r s ?s1" using apply_result_same[OF assms(2)] assms(2) by (cases answer) (simp_all add: same_task_def)
  then have there: "task_there ?s1 r" by (simp add: same_task_def)
  then have "same_task r ?s1 (save_task_snapshot str now r ?s1)" by (simp add: same_task_def snapshot_value snapshot_there)
  with 1 have "same_task r s (save_task_snapshot str now r ?s1)" by (rule same_task_trans)
  moreover have "s' = save_task_snapshot str now r ?s1" "again \<longleftrightarrow> \<not> terminal_task (task_status_at s' r)"
    using assms(1) unfolding task_turn_finish_def Let_def by auto
  ultimately show ?thesis by (simp add: status_at_value)
qed

text \<open>What is returned is what the map and the table hold.\<close>

definition task_reported :: "(jsval \<Rightarrow> string) \<Rightarrow> string \<Rightarrow> task \<Rightarrow> loop_store \<Rightarrow> bool" where
  "task_reported str k t s \<longleftrightarrow> tk_status t \<noteq> TkRunning \<and> get_task s k = Some t
     \<and> (case al_table s of None \<Rightarrow> True | Some db \<Rightarrow> task_get str db k = Some (normalize_task str t))"

lemma task_end_reported:
  assumes "task_end str now r s = (t, s')" and "task_there s r" and "tk_id (task_value s r) = k"
    and "tk_status (task_value s r) \<noteq> TkRunning \<or> tk_max_turns (task_value s r) \<le> tk_turn (task_value s r)"
  shows "task_reported str k t s'"
proof -
  let ?s1 = "if tk_status (task_value s r) = TkRunning \<and> tk_max_turns (task_value s r) \<le> tk_turn (task_value s r)
               then set_task_status r TkMaxTurns (Some ''max_turns_reached'') s else s"
  have there: "task_there ?s1 r" and k: "tk_id (task_value ?s1 r) = k" and st: "tk_status (task_value ?s1 r) \<noteq> TkRunning"
    using assms(2-4) by auto
  have fin: "s' = save_task_snapshot str now r ?s1" "t = task_value s' r"
    using assms(1) by (auto simp: task_end_def Let_def)
  have "get_task s' k = Some t" using snapshot_get[OF there] k fin by simp
  moreover have "tk_status t \<noteq> TkRunning" "tk_id t = k" using snapshot_value[OF there] st k fin by simp_all
  moreover have "al_table s' = map_option (task_upsert str now t) (al_table ?s1)" using snapshot_table[OF there] fin by simp
  ultimately show ?thesis by (cases "al_table ?s1") (simp_all add: task_reported_def get_upsert_task)
qed

lemma task_loop_ends:
  assumes "task_there s r" and "tk_id (task_value s r) = k"
  shows "\<exists>m t s'. task_loop str clock opts aborted node n r s = Some (m, t, s') \<and> task_reported str k t s'
     \<and> int m \<le> int n + max 0 (tk_max_turns (task_value s r) - tk_turn (task_value s r))"
  using assms
proof (induction "nat (tk_max_turns (task_value s r) - tk_turn (task_value s r))" arbitrary: n s rule: less_induct)
  case less
  obtain x s1 where start: "task_turn_start opts (aborted n) r s = (x, s1)" by fastforce
  show ?case
  proof (cases x)
    case TaskOver
    note over = turn_start_over[OF start[unfolded TaskOver] less.prems(1)]
    obtain t s2 where e: "task_end str (clock n) r s1 = (t, s2)" by fastforce
    from task_end_reported[OF e, of k] over less.prems(2) have "task_reported str k t s2" by simp
    with start TaskOver e show ?thesis by (subst task_loop.simps) simp
  next
    case (RunNode i)
    note run = turn_start_run[OF start[unfolded RunNode] less.prems(1)]
    obtain again s2 where fin: "task_turn_finish str (clock n) opts i (node n i (task_value s1 r)) r s1 = (again, s2)" by fastforce
    note same = turn_finish_same[OF fin]
    have there: "task_there s2 r" and val: "tk_turn (task_value s2 r) = tk_turn (task_value s r) + 1"
        "tk_max_turns (task_value s2 r) = tk_max_turns (task_value s r)" "tk_id (task_value s2 r) = k"
      using same run less.prems(2) by (simp_all add: same_task_def)
    show ?thesis
    proof (cases again)
      case True
      have "\<exists>m t s'. task_loop str clock opts aborted node (Suc n) r s2 = Some (m, t, s') \<and> task_reported str k t s'
         \<and> int m \<le> int (Suc n) + max 0 (tk_max_turns (task_value s2 r) - tk_turn (task_value s2 r))"
        by (rule less.hyps) (use there val run in simp_all)
      with start RunNode fin True val run show ?thesis by (subst task_loop.simps) auto
    next
      case False
      obtain t s3 where e: "task_end str (clock n) r s2 = (t, s3)" by fastforce
      have "tk_status (task_value s2 r) \<noteq> TkRunning" using same run False by (auto simp: terminal_task_def)
      with task_end_reported[OF e there val(3)] have "task_reported str k t s3" by simp
      with start RunNode fin False e run show ?thesis by (subst task_loop.simps) simp
    qed
  qed
qed

lemma new_task_value: "new_task t s = (r, s') \<Longrightarrow> task_there s' r \<and> task_value s' r = t"
  by (auto simp: new_task_def task_there_def task_value_def)

text \<open>C16. A task that is started runs at most its turns whatever its nodes answer and whenever it is
  aborted; it returns with a status other than running, and what it returns is what the map gives
  and the table has.\<close>

theorem task_loop_reported:
  assumes "jget (al_tasks s) (tp_task_id opts) = None"
  shows "\<exists>m t s'. run_task_loop str clock opts aborted node s = Some (m, t, s')
     \<and> int m \<le> max 1 (case tp_max_turns opts of Some n \<Rightarrow> if n = 0 then 40 else n | None \<Rightarrow> 40)
     \<and> task_reported str (tp_task_id opts) t s'"
proof -
  let ?max = "max 1 (case tp_max_turns opts of Some n \<Rightarrow> if n = 0 then 40 else n | None \<Rightarrow> 40)"
  obtain r s1 where b: "task_begin str (clock 0) opts s = (r, s1)" by fastforce
  have "task_there s1 r \<and> tk_id (task_value s1 r) = tp_task_id opts \<and> tk_turn (task_value s1 r) = 0
      \<and> tk_max_turns (task_value s1 r) = ?max"
    using b assms new_task_value
    by (auto simp: task_begin_def Let_def value_set_task split: prod.splits)
  with task_loop_ends[of s1 r "tp_task_id opts" str clock opts aborted node 0] b show ?thesis
    by (auto simp: run_task_loop_def)
qed


definition plain_string :: "jsval \<Rightarrow> string" where
  "plain_string v = (case v of JStr s \<Rightarrow> s | _ \<Rightarrow> [])"

definition demo_task_options :: task_options where
  "demo_task_options = \<lparr>tp_task_id = ''t1'', tp_team_id = None, tp_title = ''demo'', tp_objective = ''goal'', tp_channel = ''slack'',
     tp_chat_id = ''c1'', tp_nodes = [''a'', ''b''], tp_max_turns = Some 5, tp_memory = [], tp_start = None\<rparr>"

theorem task_loop_reported_witness:
  "\<exists>m t s'. run_task_loop plain_string (\<lambda>_. 0) demo_task_options (\<lambda>_. False) (\<lambda>_ _ _. NodeFails ''x'') (loop_store_new (Some [])) = Some (m, t, s')
     \<and> int m \<le> 5 \<and> task_reported plain_string ''t1'' t s'"
  using task_loop_reported[of "loop_store_new (Some [])" demo_task_options plain_string "\<lambda>_. 0" "\<lambda>_. False" "\<lambda>_ _ _. NodeFails ''x''"]
  by (simp add: demo_task_options_def loop_store_new_def)


section \<open>Cancelling and resuming\<close>

lemma snapshot_copy:
  assumes "task_there s r"
  shows "task_there (save_task_snapshot str now r s) (length (al_task_heap s))
       \<and> task_value (save_task_snapshot str now r s) (length (al_task_heap s)) = task_value (save_task_snapshot str now r s) r
       \<and> length (al_task_heap s) \<noteq> r"
  using assms
  by (simp add: save_task_snapshot_def Let_def task_value_def replace_memory_def put_task_def
      persist_task_def task_changed_def task_there_def nth_append)

lemma value_set_other [simp]:
  "q \<noteq> r \<Longrightarrow> task_value (set_task_status q st e s) r = task_value s r"
  by (simp add: set_task_status_def set_task_def task_value_def Let_def)

lemma cancel_found:
  assumes "jget (al_tasks s) k = Some q"
  shows "cancel_task str now k reason s = (let s = put_task k q (set_task_status q TkCancelled (Some reason) s);
             s = s\<lparr>al_cascade := al_cascade s @ [k]\<rparr>;
             s = task_changed q (persist_task str now q s)
         in (Some (task_value s q), s))"
  using assms by (simp add: cancel_task_def lookup_task_def)

lemma cascade_value [simp]:
  "task_value (s\<lparr>al_cascade := xs\<rparr>) r = task_value s r" "task_there (s\<lparr>al_cascade := xs\<rparr>) r = task_there s r"
  by (simp_all add: task_value_def task_there_def)

text \<open>
  Cancelling a task that has finished a turn does not stop it: the map shows it as cancelled,
  but the object the running loop works on still runs, and the snapshot after the next node puts
  that status back into the map.
\<close>

theorem cancel_lost_after_turn:
  assumes "task_there s r" and "tk_status (task_value s r) = TkRunning" and "tk_id (task_value s r) = k"
    and "cancel_task str now' k reason (save_task_snapshot str now r s) = (t, s')"
  shows "map_option tk_status t = Some TkCancelled \<and> map_option tk_status (get_task s' k) = Some TkCancelled
     \<and> tk_status (task_value s' r) = TkRunning
     \<and> map_option tk_status (get_task (save_task_snapshot str now'' r s') k) = Some TkRunning"
proof -
  let ?q = "length (al_task_heap s)" and ?s1 = "save_task_snapshot str now r s"
  note copy = snapshot_copy[OF assms(1), of str now]
  have q: "jget (al_tasks ?s1) k = Some ?q" using snapshot_map[OF assms(1)] assms(3) by simp
  note run = assms(4)[unfolded cancel_found[OF q] Let_def]
  have there: "task_there s' r" using run snapshot_there[OF assms(1)] by auto
  have val: "task_value s' r = task_value ?s1 r" using run copy by auto
  then have st: "tk_status (task_value s' r) = TkRunning" "tk_id (task_value s' r) = k"
    using snapshot_value[OF assms(1)] assms(2,3) by simp_all
  have map: "jget (al_tasks s') k = Some ?q" using run by (auto simp: put_task_def task_changed_def persist_task_def)
  have "tk_status (task_value s' ?q) = TkCancelled" "map_option tk_status t = Some TkCancelled" using run copy by auto
  moreover have "get_task (save_task_snapshot str now'' r s') k = Some (task_value (save_task_snapshot str now'' r s') r)"
    using snapshot_get[OF there] st(2) by simp
  ultimately show ?thesis using map st snapshot_value[OF there] by (auto simp: get_task_def)
qed

definition demo_running :: loop_store where
  "demo_running = snd (task_turn_start demo_task_options False 0
     (snd (task_begin plain_string 0 demo_task_options (loop_store_new (Some [])))))"

theorem cancel_lost_after_turn_witness:
  "map_option tk_status (get_task (save_task_snapshot plain_string 3 0
     (snd (cancel_task plain_string 2 ''t1'' ''stop'' (save_task_snapshot plain_string 1 0 demo_running)))) ''t1'') = Some TkRunning"
proof -
  have "task_there demo_running 0" "tk_status (task_value demo_running 0) = TkRunning" "tk_id (task_value demo_running 0) = ''t1''"
    by code_simp+
  from cancel_lost_after_turn[OF this, of plain_string 2 "''stop''" 1 _ _ 3]
  show ?thesis by (cases "cancel_task plain_string 2 ''t1'' ''stop'' (save_task_snapshot plain_string 1 0 demo_running)") simp
qed

lemma extended_turns_more: "turn < 500 \<Longrightarrow> turn < extended_turns turn m"
  by (auto simp: extended_turns_def max_task_turns_def)

lemma persisted_report:
  assumes "tk_id (task_value s r) = k" and "s' = persist_task str now r (put_task k r s)"
  shows "task_value s' r = task_value s r" and "get_task s' k = Some (task_value s r)"
    and "al_table s' = Some db \<Longrightarrow> task_get str db k = Some (normalize_task str (task_value s r))"
  unfolding assms(2) using assms(1)
  by (auto simp: get_task_def persist_task_def put_task_def get_upsert_task task_value_def)

lemma restore_channel_keeps:
  assumes "task_there s r" and "ctx \<noteq> None \<Longrightarrow> tk_channel (task_value s r) \<noteq> [] \<and> tk_chat_id (task_value s r) \<noteq> []"
  shows "restore_channel r ctx s = s"
  using assms by (cases ctx) (auto simp: restore_channel_def Let_def)

text \<open>
  A task that has not ended and knows where it answers is resumed three times: it runs again, has
  a turn left unless it has used five hundred, and the resumption is counted in its memory; after
  that resuming cancels it.  What is returned is what the map gives and the table has.
\<close>

theorem resume_task_outcome:
  assumes "jget (al_tasks s) k = Some r" and "task_there s r" and "tk_id (task_value s r) = k"
    and "tk_status (task_value s r) \<notin> {TkCompleted, TkCancelled}"
    and "tk_channel (task_value s r) \<noteq> []" and "tk_chat_id (task_value s r) \<noteq> []"
    and "resume_task str now k input reason ctx s = (t, s')"
  shows "\<exists>u. t = Some u \<and> get_task s' k = Some u \<and> (\<forall>db. al_table s' = Some db \<longrightarrow> task_get str db k = Some (normalize_task str u))
     \<and> (if memory_number s r ''__resume_count'' + 1 \<le> 3
        then tk_status u = TkRunning \<and> memory_number s' r ''__resume_count'' = memory_number s r ''__resume_count'' + 1
           \<and> tk_max_turns u = extended_turns (tk_turn u) (tk_max_turns (task_value s r))
           \<and> (tk_turn u < 500 \<longrightarrow> tk_turn u < tk_max_turns u)
        else tk_status u = TkCancelled \<and> tk_exit u = Some ''max_resume_exceeded'')"
proof -
  let ?count = "memory_number s r ''__resume_count'' + 1"
  note run = assms(7)[unfolded resume_task_def lookup_task_def assms(1) option.case restore_channel_keeps[OF assms(2), of ctx, OF conjI[OF assms(5,6)]]
      status_at_value Let_def prod.case]
  show ?thesis
  proof (cases "max_resume_count < ?count")
    case True
    let ?s1 = "set_task_status r TkCancelled (Some ''max_resume_exceeded'') s"
    from True have fin: "s' = persist_task str now r (put_task k r ?s1)" "t = Some (task_value s' r)" using run assms(4) by auto
    have val: "tk_id (task_value ?s1 r) = k" using assms(2,3) by simp
    note rep = persisted_report[OF val fin(1)]
    from True assms(2) show ?thesis using rep(3) by (simp add: fin(2) rep(1,2) max_resume_count_def)
  next
    case False
    let ?s1 = "set_task_memory r ''__resume_count'' (JNum ?count) s"
    let ?s2 = "set_task r (\<lambda>t. t\<lparr>tk_max_turns := extended_turns (tk_turn t) (tk_max_turns t)\<rparr>) ?s1"
    let ?s3 = "case input of None \<Rightarrow> ?s2 | Some u \<Rightarrow>
        set_task_memory r ''__resumed_at'' (JNum (of_nat now)) (set_task_memory r ''__user_input'' (JStr u) ?s2)"
    let ?s4 = "set_task_status r TkRunning (Some reason) ?s3"
    from False have fin: "s' = persist_task str now r (put_task k r ?s4)" "t = Some (task_value s' r)" using run assms(4) by auto
    have 3: "task_there ?s3 r \<and> tk_id (task_value ?s3 r) = k \<and> tk_turn (task_value ?s3 r) = tk_turn (task_value s r)
        \<and> tk_max_turns (task_value ?s3 r) = extended_turns (tk_turn (task_value s r)) (tk_max_turns (task_value s r))
        \<and> memory_number ?s3 r ''__resume_count'' = ?count"
      using assms(2,3) by (cases input) (simp_all add: value_set_task memory_number_def memory_at_def)
    then have 4: "tk_id (task_value ?s4 r) = k" by simp
    note rep = persisted_report[OF 4 fin(1)]
    have 5: "tk_status (task_value ?s4 r) = TkRunning" "tk_turn (task_value ?s4 r) = tk_turn (task_value s r)"
        "tk_max_turns (task_value ?s4 r) = extended_turns (tk_turn (task_value s r)) (tk_max_turns (task_value s r))"
        "memory_number s' r ''__resume_count'' = ?count"
      using 3 by (simp_all add: memory_number_def rep(1))
    from False 5 show ?thesis using rep(3) extended_turns_more by (simp add: fin(2) rep(1,2) max_resume_count_def del: value_set_status)
  qed
qed

theorem resume_task_outcome_witness:
  "map_option tk_status (get_task (snd (resume_task plain_string 5 ''t1'' (Some ''yes'') ''again'' None demo_running)) ''t1'') = Some TkRunning"
proof -
  have "jget (al_tasks demo_running) ''t1'' = Some 0" "task_there demo_running 0" "tk_id (task_value demo_running 0) = ''t1''"
    "tk_status (task_value demo_running 0) \<notin> {TkCompleted, TkCancelled}"
    "tk_channel (task_value demo_running 0) \<noteq> []" "tk_chat_id (task_value demo_running 0) \<noteq> []"
    by code_simp+
  note out = resume_task_outcome[OF this, of plain_string 5 "Some ''yes''" "''again''" None]
  have "memory_number demo_running 0 ''__resume_count'' + 1 \<le> 3" by code_simp
  then show ?thesis
    using out by (cases "resume_task plain_string 5 ''t1'' (Some ''yes'') ''again'' None demo_running") fastforce
qed

end
