(* ===== verification/Reconcile.thy ===== *)
theory Reconcile
  imports JsValue
begin

text \<open>
  Reconciling the results of agents that worked in parallel:
  \<open>src/src/orchestration/parallel-contracts.ts\<close> (conflicts), \<open>reconcile-policy.ts\<close> (the four
  policies), \<open>critic-gate.ts\<close> (the bounded review loop), and the two workflow nodes that use them,
  \<open>src/src/agent/nodes/reconcile.ts\<close> and \<open>critic-gate.ts\<close>.

  A result that was not parsed has the value undefined. Property names that every object inherits
  (\<open>constructor\<close>, \<open>toString\<close>, ...) are left out: \<open>in\<close> sees own properties only. The evaluation of
  a critic's condition, \<open>String\<close> of a value and \<open>JSON.stringify\<close> in messages are arguments.
\<close>

section \<open>Values as JSON\<close>

definition digit_char :: "nat \<Rightarrow> char" where
  "digit_char n = char_of (48 + n)"

fun nat_text :: "nat \<Rightarrow> string" where
  "nat_text n = (if n < 10 then [digit_char n] else nat_text (n div 10) @ [digit_char (n mod 10)])"

declare nat_text.simps [simp del]

text \<open>\<open>Object.keys\<close>, and \<open>k in v\<close>.\<close>

definition own_keys :: "jsval \<Rightarrow> string list" where
  "own_keys v = (case v of JObj m \<Rightarrow> jkeys m | JArr xs \<Rightarrow> map nat_text [0..<length xs] | _ \<Rightarrow> [])"

definition has_prop :: "jsval \<Rightarrow> string \<Rightarrow> bool" where
  "has_prop v k = (case v of
       JObj m \<Rightarrow> jhas m k
     | JArr xs \<Rightarrow> (case array_index k of Some i \<Rightarrow> i < length xs | None \<Rightarrow> k = ''length'')
     | _ \<Rightarrow> False)"

text \<open>
  Two values have the same JSON text when these agree: an undefined property is left out, an
  undefined item is null.
\<close>

function json_form :: "jsval \<Rightarrow> jsval" where
  "json_form (JArr xs) = JArr (map (\<lambda>x. case json_form x of JUndef \<Rightarrow> JNull | y \<Rightarrow> y) xs)"
| "json_form (JObj m) = JObj (filter (\<lambda>e. snd e \<noteq> JUndef) (map (\<lambda>e. (fst e, json_form (snd e))) m))"
| "json_form JUndef = JUndef"
| "json_form JNull = JNull"
| "json_form (JBool b) = JBool b"
| "json_form (JNum n) = JNum n"
| "json_form (JStr s) = JStr s"
  by pat_completeness auto

termination
proof (relation "measure size")
  fix m and e :: "string \<times> jsval"
  assume "e \<in> set m"
  then have "size_prod (\<lambda>_. 0) size e < Suc (size_list (size_prod (\<lambda>_. 0) size) m)"
    by (induction m) auto
  then show "(snd e, JObj m) \<in> measure size" by (cases e) simp
qed (auto simp: less_Suc_eq_le intro: size_list_estimation')


section \<open>Results and conflicts\<close>

record agent_result =
  pr_agent :: string
  pr_content :: "string option"
  pr_parsed :: jsval
  pr_error :: "string option"

record envelope =
  en_sources :: "string list"
  en_results :: "agent_result list"
  en_succeeded :: nat
  en_failed :: nat

record conflict_field =
  cf_field :: string
  cf_values :: "jsval list"
  cf_agents :: "string list"

record conflict_set =
  cs_fields :: "conflict_field list"
  cs_consensus :: memory

definition result_ok :: "agent_result \<Rightarrow> bool" where
  "result_ok r = (case pr_error r of None \<Rightarrow> True | Some e \<Rightarrow> e = [])"

definition content_value :: "agent_result \<Rightarrow> jsval" where
  "content_value r = (case pr_content r of Some c \<Rightarrow> JStr c | None \<Rightarrow> JNull)"

definition build_parallel_envelope :: "string list \<Rightarrow> agent_result list \<Rightarrow> envelope" where
  "build_parallel_envelope sources results =
     \<lparr>en_sources = sources, en_results = results, en_succeeded = length (filter result_ok results),
      en_failed = length (filter (\<lambda>r. \<not> result_ok r) results)\<rparr>"

text \<open>The distinct items in the order of their first occurrence, as a \<open>Set\<close> lists them.\<close>

definition js_set :: "'a list \<Rightarrow> 'a list" where
  "js_set xs = fold (\<lambda>x s. if x \<in> set s then s else s @ [x]) xs []"

definition assign_own :: "jsval \<Rightarrow> memory \<Rightarrow> memory" where
  "assign_own v m = fold (\<lambda>k m. jset k (js_get v k) m) (own_keys v) m"

definition detect_content_conflicts :: "agent_result list \<Rightarrow> conflict_set" where
  "detect_content_conflicts ok =
     (let unique = js_set (map content_value ok)
      in if length unique = 1 then \<lparr>cs_fields = [], cs_consensus = [(''content'', hd (map content_value ok))]\<rparr>
         else \<lparr>cs_fields = [\<lparr>cf_field = ''content'', cf_values = unique, cf_agents = map pr_agent ok\<rparr>], cs_consensus = []\<rparr>)"

definition parsed_results :: "agent_result list \<Rightarrow> agent_result list" where
  "parsed_results = filter (\<lambda>r. js_is_object (pr_parsed r))"

definition parsed_keys :: "agent_result list \<Rightarrow> string list" where
  "parsed_keys rs = js_set (concat (map (\<lambda>r. own_keys (pr_parsed r)) rs))"

definition holders :: "agent_result list \<Rightarrow> string \<Rightarrow> (string \<times> jsval) list" where
  "holders rs k = map (\<lambda>r. (pr_agent r, js_get (pr_parsed r) k)) (filter (\<lambda>r. has_prop (pr_parsed r) k) rs)"

definition compare_key :: "agent_result list \<Rightarrow> string \<Rightarrow> conflict_set \<Rightarrow> conflict_set" where
  "compare_key rs k cs =
     (let entries = holders rs k
      in if length (js_set (map (json_form \<circ> snd) entries)) = 1
         then cs\<lparr>cs_consensus := jset k (snd (hd entries)) (cs_consensus cs)\<rparr>
         else cs\<lparr>cs_fields := cs_fields cs @ [\<lparr>cf_field = k, cf_values = map snd entries, cf_agents = map fst entries\<rparr>]\<rparr>)"

definition detect_parsed_conflicts :: "agent_result list \<Rightarrow> conflict_set" where
  "detect_parsed_conflicts ok = (case parsed_results ok of
       [] \<Rightarrow> \<lparr>cs_fields = [], cs_consensus = []\<rparr>
     | [r] \<Rightarrow> \<lparr>cs_fields = [], cs_consensus = assign_own (pr_parsed r) []\<rparr>
     | rs \<Rightarrow> fold (compare_key rs) (parsed_keys rs) \<lparr>cs_fields = [], cs_consensus = []\<rparr>)"

definition detect_conflicts :: "agent_result list \<Rightarrow> string option \<Rightarrow> conflict_set" where
  "detect_conflicts results field = (case filter result_ok results of
       [] \<Rightarrow> \<lparr>cs_fields = [], cs_consensus = []\<rparr>
     | [only] \<Rightarrow> \<lparr>cs_fields = [], cs_consensus =
           (if field = Some ''parsed'' \<and> js_is_object (pr_parsed only) then assign_own (pr_parsed only) []
            else if field = None \<or> field = Some [] then [(''content'', content_value only)] else [])\<rparr>
     | ok \<Rightarrow> if field = Some ''parsed'' then detect_parsed_conflicts ok else detect_content_conflicts ok)"


section \<open>The policies\<close>

datatype reconcile_policy = MajorityVote | FirstWins | LastWins | MergeUnion

definition content_votes :: "string option list \<Rightarrow> (string, nat) jmap" where
  "content_votes values = fold (\<lambda>v freq. case v of None \<Rightarrow> freq
     | Some s \<Rightarrow> jset s ((case jget freq s of Some n \<Rightarrow> n | None \<Rightarrow> 0) + 1) freq) values []"

text \<open>The first of the entries with the highest count, starting from a given one.\<close>

definition keep_better :: "'a \<times> nat \<Rightarrow> 'a \<times> nat \<Rightarrow> 'a \<times> nat" where
  "keep_better e best = (if snd best < snd e then e else best)"

definition content_majority :: "string option list \<Rightarrow> jsval" where
  "content_majority values = (let freq = content_votes values
     in case freq of [] \<Rightarrow> JNull
        | first # _ \<Rightarrow> JStr (fst (fold keep_better freq (fst first, 0))))"

definition value_votes :: "jsval list \<Rightarrow> (jsval, jsval \<times> nat) jmap" where
  "value_votes values = fold (\<lambda>v freq. case jget freq (json_form v) of
       Some (x, n) \<Rightarrow> jset (json_form v) (x, n + 1) freq
     | None \<Rightarrow> jset (json_form v) (v, 1) freq) values []"

definition pick_majority :: "conflict_field \<Rightarrow> jsval" where
  "pick_majority f = (case jvals (value_votes (cf_values f)) of
       [] \<Rightarrow> JUndef
     | first # rest \<Rightarrow>
         let best = fst (fold keep_better rest first)
         in if best = JUndef \<or> best = JNull then hd (cf_values f) else best)"

definition apply_majority_vote :: "string option list \<Rightarrow> conflict_set option \<Rightarrow> jsval" where
  "apply_majority_vote values conflicts = (case conflicts of
       None \<Rightarrow> content_majority values
     | Some cs \<Rightarrow> if cs_fields cs = [] then content_majority values
         else JObj (fold (\<lambda>f m. jset (cf_field f) (pick_majority f) m) (cs_fields cs) (cs_consensus cs)))"

definition add_missing :: "jsval \<Rightarrow> memory \<Rightarrow> memory" where
  "add_missing v m = fold (\<lambda>k m. if jhas m k then m else jset k (js_get v k) m) (own_keys v) m"

definition apply_merge_union :: "agent_result list \<Rightarrow> conflict_set option \<Rightarrow> jsval" where
  "apply_merge_union ok conflicts =
     (if parsed_results ok \<noteq> []
      then JObj (fold (\<lambda>r. add_missing (pr_parsed r)) (parsed_results ok)
                   (case conflicts of Some cs \<Rightarrow> cs_consensus cs | None \<Rightarrow> []))
      else JArr (filter (\<lambda>v. v \<noteq> JNull) (map content_value ok)))"

definition apply_reconcile_policy :: "envelope \<Rightarrow> reconcile_policy \<Rightarrow> conflict_set option \<Rightarrow> jsval" where
  "apply_reconcile_policy env policy conflicts =
     (let ok = filter result_ok (en_results env)
      in if ok = [] then JNull
         else case policy of
             FirstWins \<Rightarrow> content_value (hd ok)
           | LastWins \<Rightarrow> content_value (last ok)
           | MajorityVote \<Rightarrow> apply_majority_vote (map pr_content ok) conflicts
           | MergeUnion \<Rightarrow> apply_merge_union ok conflicts)"


section \<open>The critic's gate\<close>

datatype critic_verdict = CgPass | CgFail | CgRework

record gate_result =
  gr_verdict :: critic_verdict
  gr_reason :: "string option"
  gr_rework :: "string option"

definition int_text :: "int \<Rightarrow> string" where
  "int_text i = (if i < 0 then CHR ''-'' # nat_text (nat (- i)) else nat_text (nat i))"

definition default_max_rounds :: int where
  "default_max_rounds = 2"

definition gate_fail :: "string \<Rightarrow> gate_result" where
  "gate_fail reason = \<lparr>gr_verdict = CgFail, gr_reason = Some reason, gr_rework = None\<rparr>"

text \<open>\<open>eval\<close> is the condition as a function of the value: what it returns, or the message it throws.\<close>

definition evaluate_critic_condition :: "(string \<Rightarrow> jsval \<Rightarrow> string + jsval) \<Rightarrow> (jsval \<Rightarrow> string) \<Rightarrow> jsval \<Rightarrow> string \<Rightarrow> gate_result" where
  "evaluate_critic_condition eval json value condition = (case eval condition value of
       Inl e \<Rightarrow> gate_fail (''condition error: '' @ e)
     | Inr r \<Rightarrow>
         if r = JBool True \<or> r = JStr ''pass'' then \<lparr>gr_verdict = CgPass, gr_reason = None, gr_rework = None\<rparr>
         else if r = JStr ''rework''
         then \<lparr>gr_verdict = CgRework, gr_reason = None, gr_rework = Some ''condition returned rework''\<rparr>
         else gate_fail (''condition evaluated to: '' @ json r))"

definition exhausted :: "int \<Rightarrow> gate_result" where
  "exhausted max_rounds = gate_fail (''critic budget exhausted after '' @ int_text max_rounds @ '' rounds'')"

text \<open>The loop, with the rounds used so far; the critic sees them in its budget.\<close>

function critic_rounds :: "int \<Rightarrow> (jsval \<Rightarrow> int \<Rightarrow> gate_result) \<Rightarrow> (string \<Rightarrow> int \<Rightarrow> jsval) \<Rightarrow> int \<Rightarrow> jsval
    \<Rightarrow> gate_result \<times> jsval \<times> int" where
  "critic_rounds max_rounds critic retry used value =
     (if used \<le> max_rounds
      then let result = critic value used
           in if gr_verdict result \<noteq> CgRework then (result, value, used + 1)
              else if max_rounds < used + 1 then (exhausted max_rounds, value, used + 1)
              else critic_rounds max_rounds critic retry (used + 1)
                     (retry (case gr_rework result of Some i \<Rightarrow> i | None \<Rightarrow> []) (used + 1))
      else (gate_fail ''critic budget exhausted'', value, used))"
  by pat_completeness auto

termination
  by (relation "measure (\<lambda>(m, _, _, used, _). nat (m + 1 - used))") auto

declare critic_rounds.simps [simp del]

definition run_critic_gate :: "jsval \<Rightarrow> (jsval \<Rightarrow> int \<Rightarrow> gate_result) \<Rightarrow> (string \<Rightarrow> int \<Rightarrow> jsval) \<Rightarrow> int \<Rightarrow> gate_result \<times> jsval \<times> int" where
  "run_critic_gate value critic retry max_rounds = critic_rounds max_rounds critic retry 0 value"


section \<open>The two workflow nodes\<close>

text \<open>\<open>memory[id]\<close> as the result of an agent; \<open>str\<close> is \<open>String\<close>.\<close>

definition collect_result :: "(jsval \<Rightarrow> string) \<Rightarrow> bool \<Rightarrow> memory \<Rightarrow> string \<Rightarrow> agent_result" where
  "collect_result str use_parsed mem k = (let value = memory_at mem k
     in if value = JUndef \<or> value = JNull
        then \<lparr>pr_agent = k, pr_content = None, pr_parsed = JUndef, pr_error = Some (''no_data:'' @ k)\<rparr>
        else if js_is_object value
        then \<lparr>pr_agent = k, pr_content = (case js_get value ''content'' of JStr c \<Rightarrow> Some c | _ \<Rightarrow> None),
              pr_parsed = (if use_parsed
                 then (case js_get value ''parsed'' of JUndef \<Rightarrow> value | JNull \<Rightarrow> value | p \<Rightarrow> p) else JUndef),
              pr_error = (case js_get value ''error'' of JStr e \<Rightarrow> if e = [] then None else Some e | _ \<Rightarrow> None)\<rparr>
        else \<lparr>pr_agent = k, pr_content = Some (case value of JStr s \<Rightarrow> s | _ \<Rightarrow> str value), pr_parsed = JUndef, pr_error = None\<rparr>)"

definition policy_name :: "reconcile_policy \<Rightarrow> string" where
  "policy_name p = (case p of MajorityVote \<Rightarrow> ''majority_vote'' | FirstWins \<Rightarrow> ''first_wins''
     | LastWins \<Rightarrow> ''last_wins'' | MergeUnion \<Rightarrow> ''merge_union'')"

definition conflicts_value :: "conflict_set \<Rightarrow> jsval" where
  "conflicts_value cs = JObj
     [(''fields'', JArr (map (\<lambda>f. JObj [(''field'', JStr (cf_field f)), (''values'', JArr (cf_values f)),
                                       (''agent_ids'', JArr (map JStr (cf_agents f)))]) (cs_fields cs))),
      (''consensus'', JObj (cs_consensus cs))]"

definition reconcile_execute :: "(jsval \<Rightarrow> string) \<Rightarrow> string list \<Rightarrow> reconcile_policy \<Rightarrow> bool \<Rightarrow> memory \<Rightarrow> jsval" where
  "reconcile_execute str sources policy use_parsed mem =
     (let results = map (collect_result str use_parsed mem) sources;
          env = build_parallel_envelope sources results;
          conflicts = detect_conflicts results (if use_parsed then Some ''parsed'' else None);
          reconciled = apply_reconcile_policy env policy (if use_parsed then Some conflicts else None)
      in JObj [(''reconciled'', reconciled), (''conflicts'', conflicts_value conflicts),
               (''policy_applied'', JStr (policy_name policy)), (''succeeded'', JNum (of_nat (en_succeeded env))),
               (''failed'', JNum (of_nat (en_failed env)))])"

record critic_node =
  cg_id :: string
  cg_source :: string
  cg_condition :: string
  cg_max :: "int option"
  cg_rework :: "string option"

definition rounds_key :: "critic_node \<Rightarrow> string" where
  "rounds_key n = cg_id n @ ''__rounds_used''"

definition verdict_name :: "critic_verdict \<Rightarrow> string" where
  "verdict_name v = (case v of CgPass \<Rightarrow> ''pass'' | CgFail \<Rightarrow> ''fail'' | CgRework \<Rightarrow> ''rework'')"

definition optional_text :: "string option \<Rightarrow> jsval" where
  "optional_text x = (case x of Some s \<Rightarrow> JStr s | None \<Rightarrow> JNull)"

text \<open>The rounds are counted in the memory; only this node writes the key, and it writes numbers.\<close>

definition prev_rounds :: "critic_node \<Rightarrow> memory \<Rightarrow> int" where
  "prev_rounds n mem = (case memory_at mem (rounds_key n) of JNum r \<Rightarrow> floor r | _ \<Rightarrow> 0)"

definition critic_judgement :: "(string \<Rightarrow> jsval \<Rightarrow> string + jsval) \<Rightarrow> (jsval \<Rightarrow> string) \<Rightarrow> critic_node \<Rightarrow> memory \<Rightarrow> gate_result" where
  "critic_judgement eval json n mem =
     (let max_rounds = (case cg_max n of Some m \<Rightarrow> m | None \<Rightarrow> default_max_rounds);
          prev = prev_rounds n mem; used = prev + 1
      in if max_rounds < used \<and> 0 < prev then exhausted max_rounds
         else let r = evaluate_critic_condition eval json (memory_at mem (cg_source n)) (cg_condition n)
              in if gr_verdict r = CgRework \<and> max_rounds < used then exhausted max_rounds else r)"

definition critic_gate_execute :: "(string \<Rightarrow> jsval \<Rightarrow> string + jsval) \<Rightarrow> (jsval \<Rightarrow> string) \<Rightarrow> critic_node \<Rightarrow> memory \<Rightarrow> jsval \<times> memory" where
  "critic_gate_execute eval json n mem =
     (let used = prev_rounds n mem + 1; r = critic_judgement eval json n mem; rework = (gr_verdict r = CgRework)
      in (JObj [(''verdict'', JStr (verdict_name (gr_verdict r))), (''passed'', JBool (gr_verdict r = CgPass)),
                (''reason'', optional_text (gr_reason r)),
                (''rework_instruction'',
                   if rework then optional_text (case gr_rework r of Some i \<Rightarrow> Some i | None \<Rightarrow> cg_rework n) else JNull),
                (''rounds_used'', JNum (of_int used))],
          jset (rounds_key n) (JNum (if rework then of_int used else 0)) mem))"


section \<open>The summary of a run\<close>

record reconcile_summary =
  rs_node :: string
  rs_policy :: string
  rs_succeeded :: rat
  rs_failed :: rat
  rs_conflicts :: nat

record critic_summary =
  zs_node :: string
  zs_verdict :: string
  zs_passed :: bool
  zs_rounds :: rat
  zs_reason :: "string option"

record read_model =
  rm_reconciles :: "reconcile_summary list"
  rm_critics :: "critic_summary list"
  rm_failures :: bool
  rm_conflicts :: nat
  rm_unresolved :: nat

text \<open>\<open>String(x ?? "")\<close> and \<open>Number(x ?? 0)\<close>; the number of a value that is none is an argument.\<close>

definition text_of :: "(jsval \<Rightarrow> string) \<Rightarrow> jsval \<Rightarrow> string" where
  "text_of str v = (case v of JUndef \<Rightarrow> [] | JNull \<Rightarrow> [] | JStr s \<Rightarrow> s | _ \<Rightarrow> str v)"

definition number_of :: "(jsval \<Rightarrow> rat) \<Rightarrow> jsval \<Rightarrow> rat" where
  "number_of num v = (case v of JUndef \<Rightarrow> 0 | JNull \<Rightarrow> 0 | JNum n \<Rightarrow> n | _ \<Rightarrow> num v)"

definition ends_with :: "string \<Rightarrow> string \<Rightarrow> bool" where
  "ends_with p s = starts_with (rev p) (rev s)"

definition reconcile_summary_of :: "(jsval \<Rightarrow> string) \<Rightarrow> (jsval \<Rightarrow> rat) \<Rightarrow> string \<times> jsval \<Rightarrow> reconcile_summary list" where
  "reconcile_summary_of str num e = (case e of (k, v) \<Rightarrow>
     if ends_with ''__rounds_used'' k \<or> \<not> js_is_object v \<or> \<not> has_prop v ''policy_applied'' then []
     else [\<lparr>rs_node = k, rs_policy = text_of str (js_get v ''policy_applied''), rs_succeeded = number_of num (js_get v ''succeeded''),
            rs_failed = number_of num (js_get v ''failed''),
            rs_conflicts = (case js_get (js_get v ''conflicts'') ''fields'' of JArr xs \<Rightarrow> length xs | _ \<Rightarrow> 0)\<rparr>])"

definition critic_summary_of :: "(jsval \<Rightarrow> string) \<Rightarrow> (jsval \<Rightarrow> rat) \<Rightarrow> string \<times> jsval \<Rightarrow> critic_summary list" where
  "critic_summary_of str num e = (case e of (k, v) \<Rightarrow>
     if ends_with ''__rounds_used'' k \<or> \<not> js_is_object v \<or> has_prop v ''policy_applied''
        \<or> \<not> (has_prop v ''verdict'' \<and> has_prop v ''rounds_used'' \<and> has_prop v ''passed'') then []
     else [\<lparr>zs_node = k, zs_verdict = text_of str (js_get v ''verdict''), zs_passed = js_truthy (js_get v ''passed''),
            zs_rounds = number_of num (js_get v ''rounds_used''),
            zs_reason = (case js_get v ''reason'' of JStr s \<Rightarrow> Some s | _ \<Rightarrow> None)\<rparr>])"

definition extract_reconcile_read_model :: "(jsval \<Rightarrow> string) \<Rightarrow> (jsval \<Rightarrow> rat) \<Rightarrow> memory \<Rightarrow> read_model" where
  "extract_reconcile_read_model str num mem =
     (let rs = concat (map (reconcile_summary_of str num) mem); cs = concat (map (critic_summary_of str num) mem)
      in \<lparr>rm_reconciles = rs, rm_critics = cs, rm_failures = (\<exists>s \<in> set rs. 0 < rs_failed s),
          rm_conflicts = sum_list (map rs_conflicts rs),
          rm_unresolved = length (filter (\<lambda>c. zs_verdict c = ''fail'') cs)\<rparr>)"

end
