(* ===== verification/RunTracking.thy ===== *)
theory RunTracking
  imports Classifier
begin

text \<open>
  Runs and what is waited for: \<open>src/src/orchestration/process-tracker.ts\<close>,
  \<open>src/src/channels/active-run-controller.ts\<close> and \<open>src/src/orchestration/hitl-pending-store.ts\<close>.

  Fresh ids and times are arguments. Abort controllers are numbers, and the aborted ones a set. The
  four callbacks of the cancel strategy act on a state \<open>'x\<close> outside; what else happens to the
  tracker while \<open>cancel\<close> awaits the task's cancellation is an argument.
\<close>

section \<open>The process tracker\<close>

datatype process_status = PsRunning | PsCompleted | PsFailed | PsCancelled

record process_entry =
  pe_run :: string
  pe_team :: string
  pe_provider :: string
  pe_chat :: string
  pe_alias :: string
  pe_sender :: string
  pe_mode :: exec_mode
  pe_status :: process_status
  pe_started :: nat
  pe_ended :: "nat option"
  pe_loop :: "string option"
  pe_task :: "string option"
  pe_workflow :: "string option"
  pe_subagents :: "string list"
  pe_tools :: int
  pe_executor :: "string option"
  pe_error :: "string option"

record process_tracker =
  pt_active :: "(string, process_entry) jmap"
  pt_history :: "process_entry list"
  pt_index :: "(string, string) jmap"
  pt_max :: nat
  pt_changes :: "(bool \<times> process_entry) list"

record run_params =
  rp_provider :: string
  rp_chat :: string
  rp_alias :: string
  rp_sender :: string
  rp_team :: "string option"

definition tracker_new :: "nat option \<Rightarrow> process_tracker" where
  "tracker_new max_history = \<lparr>pt_active = [], pt_history = [], pt_index = [],
     pt_max = (case max_history of Some n \<Rightarrow> n | None \<Rightarrow> 100), pt_changes = []\<rparr>"

definition run_key :: "string \<Rightarrow> string \<Rightarrow> string \<Rightarrow> string" where
  "run_key provider chat_id alias = str_lower (provider @ '':'' @ chat_id @ '':'' @ alias)"

definition entry_key :: "process_entry \<Rightarrow> string" where
  "entry_key e = run_key (pe_provider e) (pe_chat e) (pe_alias e)"

definition new_entry :: "string \<Rightarrow> nat \<Rightarrow> run_params \<Rightarrow> process_entry" where
  "new_entry k now p =
     \<lparr>pe_run = k, pe_team = (case rp_team p of Some x \<Rightarrow> x | None \<Rightarrow> []), pe_provider = rp_provider p, pe_chat = rp_chat p,
      pe_alias = rp_alias p, pe_sender = rp_sender p, pe_mode = ModeOnce, pe_status = PsRunning, pe_started = now,
      pe_ended = None, pe_loop = None, pe_task = None, pe_workflow = None, pe_subagents = [], pe_tools = 0,
      pe_executor = None, pe_error = None\<rparr>"

definition tracker_start :: "string \<Rightarrow> nat \<Rightarrow> run_params \<Rightarrow> process_tracker \<Rightarrow> process_tracker" where
  "tracker_start k now p t =
     t\<lparr>pt_active := jset k (new_entry k now p) (pt_active t),
       pt_index := jset (run_key (rp_provider p) (rp_chat p) (rp_alias p)) k (pt_index t),
       pt_changes := pt_changes t @ [(True, new_entry k now p)]\<rparr>"

definition update_run :: "string \<Rightarrow> (process_entry \<Rightarrow> process_entry) \<Rightarrow> process_tracker \<Rightarrow> process_tracker" where
  "update_run k f t = (case jget (pt_active t) k of None \<Rightarrow> t | Some e \<Rightarrow> t\<lparr>pt_active := jset k (f e) (pt_active t)\<rparr>)"

definition set_mode :: "string \<Rightarrow> exec_mode \<Rightarrow> process_tracker \<Rightarrow> process_tracker" where
  "set_mode k m = update_run k (\<lambda>e. e\<lparr>pe_mode := m\<rparr>)"

definition set_executor :: "string \<Rightarrow> string \<Rightarrow> process_tracker \<Rightarrow> process_tracker" where
  "set_executor k x = update_run k (\<lambda>e. e\<lparr>pe_executor := Some x\<rparr>)"

definition link_loop :: "string \<Rightarrow> string \<Rightarrow> process_tracker \<Rightarrow> process_tracker" where
  "link_loop k x = update_run k (\<lambda>e. e\<lparr>pe_loop := Some x\<rparr>)"

definition link_task :: "string \<Rightarrow> string \<Rightarrow> process_tracker \<Rightarrow> process_tracker" where
  "link_task k x = update_run k (\<lambda>e. e\<lparr>pe_task := Some x\<rparr>)"

definition link_subagent :: "string \<Rightarrow> string \<Rightarrow> process_tracker \<Rightarrow> process_tracker" where
  "link_subagent k x = update_run k
     (\<lambda>e. if x \<in> set (pe_subagents e) then e else e\<lparr>pe_subagents := pe_subagents e @ [x]\<rparr>)"

definition link_workflow :: "string \<Rightarrow> string \<Rightarrow> process_tracker \<Rightarrow> process_tracker" where
  "link_workflow k x = update_run k (\<lambda>e. e\<lparr>pe_workflow := Some x\<rparr>)"

definition set_tool_count :: "string \<Rightarrow> int \<Rightarrow> process_tracker \<Rightarrow> process_tracker" where
  "set_tool_count k n = update_run k (\<lambda>e. e\<lparr>pe_tools := n\<rparr>)"

definition ended_entry :: "process_status \<Rightarrow> string option \<Rightarrow> nat \<Rightarrow> process_entry \<Rightarrow> process_entry" where
  "ended_entry st err now e = e\<lparr>pe_status := st, pe_ended := Some now,
     pe_error := (case err of Some m \<Rightarrow> if m = [] then pe_error e else Some m | None \<Rightarrow> pe_error e)\<rparr>"

definition tracker_end :: "string \<Rightarrow> process_status \<Rightarrow> string option \<Rightarrow> nat \<Rightarrow> process_tracker \<Rightarrow> process_tracker" where
  "tracker_end k st err now t = (case jget (pt_active t) k of
       None \<Rightarrow> t
     | Some e \<Rightarrow>
         let d = ended_entry st err now e; h = pt_history t @ [d]
         in t\<lparr>pt_active := jdel k (pt_active t),
              pt_index := (if jget (pt_index t) (entry_key d) = Some k then jdel (entry_key d) (pt_index t) else pt_index t),
              pt_history := drop (length h - pt_max t) h, pt_changes := pt_changes t @ [(False, d)]\<rparr>)"

definition tracker_get :: "process_tracker \<Rightarrow> string \<Rightarrow> process_entry option" where
  "tracker_get t k = (case jget (pt_active t) k of Some e \<Rightarrow> Some e | None \<Rightarrow> find (\<lambda>e. pe_run e = k) (pt_history t))"

definition find_active_by_key :: "process_tracker \<Rightarrow> string \<Rightarrow> string \<Rightarrow> string \<Rightarrow> process_entry option" where
  "find_active_by_key t provider chat_id alias = (case jget (pt_index t) (run_key provider chat_id alias) of
       None \<Rightarrow> None | Some k \<Rightarrow> if k = [] then None else jget (pt_active t) k)"

definition list_active :: "process_tracker \<Rightarrow> string option \<Rightarrow> process_entry list" where
  "list_active t team = (case team of None \<Rightarrow> jvals (pt_active t)
     | Some x \<Rightarrow> filter (\<lambda>e. pe_team e = x) (jvals (pt_active t)))"

definition list_recent :: "process_tracker \<Rightarrow> int \<Rightarrow> string option \<Rightarrow> process_entry list" where
  "list_recent t limit team =
     (let h = (case team of None \<Rightarrow> pt_history t | Some x \<Rightarrow> filter (\<lambda>e. pe_team e = x) (pt_history t))
      in rev (drop (length h - nat (max 1 limit)) h))"

record 'x cancel_strategy =
  kx_abort :: "string \<Rightarrow> string \<Rightarrow> string \<Rightarrow> 'x \<Rightarrow> bool \<times> 'x"
  kx_loop :: "string \<Rightarrow> 'x \<Rightarrow> bool \<times> 'x"
  kx_task :: "string \<Rightarrow> 'x \<Rightarrow> bool \<times> 'x"
  kx_subagent :: "string \<Rightarrow> 'x \<Rightarrow> bool \<times> 'x"

text \<open>One callback: its step is noted when it succeeds.\<close>

definition try_cancel :: "('x \<Rightarrow> bool \<times> 'x) \<Rightarrow> string \<Rightarrow> string list \<times> 'x \<Rightarrow> string list \<times> 'x" where
  "try_cancel act label p = (case p of (steps, x) \<Rightarrow> case act x of (ok, x) \<Rightarrow> (if ok then steps @ [label] else steps, x))"

definition cascade :: "'x cancel_strategy \<Rightarrow> process_entry \<Rightarrow> 'x \<Rightarrow> string list \<times> 'x" where
  "cascade ks e x =
     (let p = fold (\<lambda>sid. try_cancel (kx_subagent ks sid) (''subagent:'' @ sid)) (pe_subagents e) ([], x);
          p = (case pe_loop e of None \<Rightarrow> p
               | Some l \<Rightarrow> if l = [] then p else try_cancel (kx_loop ks l) (''loop:'' @ l) p);
          p = (case pe_task e of None \<Rightarrow> p
               | Some k \<Rightarrow> if k = [] then p else try_cancel (kx_task ks k) (''task:'' @ k) p)
      in case p of (steps, x) \<Rightarrow>
           (steps @ [''abort_signal''], snd (kx_abort ks (pe_provider e) (pe_chat e) (pe_alias e) x)))"

text \<open>\<open>cancel\<close>: the steps taken, or nothing when the run is unknown, of another team, or no strategy is set.\<close>

definition tracker_cancel :: "'x cancel_strategy option \<Rightarrow> (process_tracker \<Rightarrow> process_tracker) \<Rightarrow> string \<Rightarrow> string option
    \<Rightarrow> nat \<Rightarrow> 'x \<Rightarrow> process_tracker \<Rightarrow> (string list option \<times> 'x) \<times> process_tracker" where
  "tracker_cancel strategy other k team now x t = (case jget (pt_active t) k of
       None \<Rightarrow> ((None, x), t)
     | Some e \<Rightarrow>
         if team \<noteq> None \<and> team \<noteq> Some (pe_team e) then ((None, x), t)
         else case strategy of None \<Rightarrow> ((None, x), t)
              | Some ks \<Rightarrow> (case cascade ks e x of (steps, x) \<Rightarrow>
                  let t = (if pe_task e \<in> {None, Some []} then t else other t)
                  in ((Some steps, x), tracker_end k PsCancelled (Some ''cascade_cancel'') now t)))"


section \<open>Active runs\<close>

record active_run =
  ax_abort :: nat
  ax_provider :: string
  ax_chat :: string
  ax_alias :: string
  ax_input :: bool

record active_runs =
  ac_runs :: "(string, active_run) jmap"
  ac_aborted :: "nat set"

definition ac_register :: "string \<Rightarrow> active_run \<Rightarrow> active_runs \<Rightarrow> active_runs" where
  "ac_register k r c = c\<lparr>ac_runs := jset k r (ac_runs c)\<rparr>"

definition ac_unregister :: "string \<Rightarrow> nat \<Rightarrow> active_runs \<Rightarrow> active_runs" where
  "ac_unregister k expected c = (case jget (ac_runs c) k of
       Some r \<Rightarrow> if ax_abort r = expected then c\<lparr>ac_runs := jdel k (ac_runs c)\<rparr> else c
     | None \<Rightarrow> c)"

definition ac_abort :: "nat \<Rightarrow> active_runs \<Rightarrow> active_runs" where
  "ac_abort a c = c\<lparr>ac_aborted := insert a (ac_aborted c)\<rparr>"

definition cancel_targets :: "string option \<Rightarrow> active_runs \<Rightarrow> string list" where
  "cancel_targets key c = (case map_option str_lower key of
       None \<Rightarrow> jkeys (ac_runs c)
     | Some lk \<Rightarrow> if lk = [] then jkeys (ac_runs c)
                 else filter (\<lambda>k. k = lk \<or> starts_with (lk @ '':'') k) (jkeys (ac_runs c)))"

definition cancel_run :: "nat \<Rightarrow> string \<Rightarrow> active_runs \<times> process_tracker \<Rightarrow> active_runs \<times> process_tracker" where
  "cancel_run now k p = (case p of (c, t) \<Rightarrow>
     (case jget (ac_runs c) k of
        None \<Rightarrow> (c\<lparr>ac_runs := jdel k (ac_runs c)\<rparr>, t)
      | Some r \<Rightarrow> ((ac_abort (ax_abort r) c)\<lparr>ac_runs := jdel k (ac_runs c)\<rparr>,
          (case find_active_by_key t (ax_provider r) (ax_chat r) (ax_alias r) of
             None \<Rightarrow> t
           | Some e \<Rightarrow> tracker_end (pe_run e) PsCancelled (Some ''stopped_by_request'') now t))))"

definition ac_cancel :: "nat \<Rightarrow> string option \<Rightarrow> active_runs \<times> process_tracker \<Rightarrow> nat \<times> active_runs \<times> process_tracker" where
  "ac_cancel now key p = (let targets = cancel_targets key (fst p)
     in (length targets, fold (cancel_run now) targets p))"

definition ac_find_by_chat_id :: "active_runs \<Rightarrow> string \<Rightarrow> active_run option" where
  "ac_find_by_chat_id c chat_id = find (\<lambda>r. ax_chat r = chat_id \<and> ax_input r \<and> ax_abort r \<notin> ac_aborted c) (jvals (ac_runs c))"

definition ac_clear :: "active_runs \<Rightarrow> active_runs" where
  "ac_clear c = c\<lparr>ac_runs := []\<rparr>"


section \<open>Answers a workflow waits for\<close>

text \<open>A waiting workflow is the chat it asked in; what was resolved is kept.\<close>

record hitl_store =
  hp_pending :: "(string, string) jmap"
  hp_resolved :: "(string \<times> string) list"

definition hitl_set :: "string \<Rightarrow> string \<Rightarrow> hitl_store \<Rightarrow> hitl_store" where
  "hitl_set flow chat_id s = s\<lparr>hp_pending := jset flow chat_id (hp_pending s)\<rparr>"

definition hitl_delete :: "string \<Rightarrow> hitl_store \<Rightarrow> hitl_store" where
  "hitl_delete flow s = s\<lparr>hp_pending := jdel flow (hp_pending s)\<rparr>"

definition hitl_get :: "hitl_store \<Rightarrow> string \<Rightarrow> string option" where
  "hitl_get s flow = jget (hp_pending s) flow"

definition hitl_try_resolve :: "string \<Rightarrow> string \<Rightarrow> hitl_store \<Rightarrow> bool \<times> hitl_store" where
  "hitl_try_resolve chat_id content s = (case find (\<lambda>e. snd e = chat_id) (hp_pending s) of
       None \<Rightarrow> (False, s)
     | Some (flow, _) \<Rightarrow> (True, s\<lparr>hp_pending := jdel flow (hp_pending s), hp_resolved := hp_resolved s @ [(flow, content)]\<rparr>))"


section \<open>The tracker's invariant\<close>

datatype tracker_op =
    TStart string nat run_params
  | TUpdate string "process_entry \<Rightarrow> process_entry"
  | TEnd string process_status "string option" nat

text \<open>The updates change neither the run nor its key nor its status; a run starts under a new id.\<close>

definition harmless :: "(process_entry \<Rightarrow> process_entry) \<Rightarrow> bool" where
  "harmless f \<longleftrightarrow> (\<forall>e. pe_run (f e) = pe_run e \<and> entry_key (f e) = entry_key e \<and> pe_status (f e) = pe_status e)"

fun tracker_step :: "tracker_op \<Rightarrow> process_tracker \<Rightarrow> process_tracker" where
  "tracker_step (TStart k now p) t = (if jhas (pt_active t) k \<or> k = [] then t else tracker_start k now p t)"
| "tracker_step (TUpdate k f) t = (if harmless f then update_run k f t else t)"
| "tracker_step (TEnd k st err now) t = tracker_end k st err now t"

definition tracker_ok :: "process_tracker \<Rightarrow> bool" where
  "tracker_ok t \<longleftrightarrow> jwf (pt_active t)
     \<and> (\<forall>k e. jget (pt_active t) k = Some e \<longrightarrow> pe_run e = k \<and> k \<noteq> [] \<and> pe_status e = PsRunning)
     \<and> (\<forall>key k. jget (pt_index t) key = Some k \<longrightarrow> (\<exists>e. jget (pt_active t) k = Some e \<and> entry_key e = key))
     \<and> length (pt_history t) \<le> pt_max t"

lemma tracker_okD:
  assumes "tracker_ok t"
  shows "jget (pt_active t) k = Some e \<Longrightarrow> pe_run e = k \<and> k \<noteq> [] \<and> pe_status e = PsRunning"
    and "jget (pt_index t) key = Some k \<Longrightarrow> \<exists>e. jget (pt_active t) k = Some e \<and> entry_key e = key"
  using assms by (auto simp: tracker_ok_def)

lemma tracker_okI:
  assumes "jwf (pt_active t)" and "length (pt_history t) \<le> pt_max t"
    and "\<And>k e. jget (pt_active t) k = Some e \<Longrightarrow> pe_run e = k \<and> k \<noteq> [] \<and> pe_status e = PsRunning"
    and "\<And>key k. jget (pt_index t) key = Some k \<Longrightarrow> \<exists>e. jget (pt_active t) k = Some e \<and> entry_key e = key"
  shows "tracker_ok t"
  using assms by (simp add: tracker_ok_def)

lemma new_entry_simps:
  "pe_run (new_entry k now p) = k" "pe_status (new_entry k now p) = PsRunning"
  "run_key (rp_provider p) (rp_chat p) (rp_alias p) = entry_key (new_entry k now p)"
  by (simp_all add: new_entry_def entry_key_def)

lemma tracker_start_form:
  "\<exists>e. tracker_start k now p t = t\<lparr>pt_active := jset k e (pt_active t), pt_index := jset (entry_key e) k (pt_index t),
       pt_changes := pt_changes t @ [(True, e)]\<rparr> \<and> pe_run e = k \<and> pe_status e = PsRunning"
  by (rule exI[of _ "new_entry k now p"]) (simp add: tracker_start_def new_entry_simps(1,2) new_entry_simps(3)[of p k now])

lemma tracker_ok_start:
  assumes "tracker_ok t" and "\<not> jhas (pt_active t) k" and "k \<noteq> []"
  shows "tracker_ok (tracker_start k now p t)"
proof -
  obtain e where t': "tracker_start k now p t = t\<lparr>pt_active := jset k e (pt_active t), pt_index := jset (entry_key e) k (pt_index t),
       pt_changes := pt_changes t @ [(True, e)]\<rparr>" and e: "pe_run e = k" "pe_status e = PsRunning"
    using tracker_start_form by blast
  show ?thesis unfolding t'
  proof (rule tracker_okI)
    fix j d assume "jget (pt_active (t\<lparr>pt_active := jset k e (pt_active t), pt_index := jset (entry_key e) k (pt_index t),
       pt_changes := pt_changes t @ [(True, e)]\<rparr>)) j = Some d"
    then show "pe_run d = j \<and> j \<noteq> [] \<and> pe_status d = PsRunning"
      using e assms(3) tracker_okD(1)[OF assms(1), of j d] by (auto split: if_splits)
  next
    fix key j assume "jget (pt_index (t\<lparr>pt_active := jset k e (pt_active t), pt_index := jset (entry_key e) k (pt_index t),
       pt_changes := pt_changes t @ [(True, e)]\<rparr>)) key = Some j"
    then show "\<exists>d. jget (pt_active (t\<lparr>pt_active := jset k e (pt_active t), pt_index := jset (entry_key e) k (pt_index t),
       pt_changes := pt_changes t @ [(True, e)]\<rparr>)) j = Some d \<and> entry_key d = key"
      using tracker_okD(2)[OF assms(1), of key j] assms(2) by (auto simp: jhas_def split: if_splits)
  qed (use assms(1) in \<open>simp_all add: tracker_ok_def\<close>)
qed

lemma tracker_ok_update:
  assumes "tracker_ok t" and "harmless f"
  shows "tracker_ok (update_run k f t)"
proof (cases "jget (pt_active t) k")
  case None
  with assms(1) show ?thesis by (simp add: update_run_def)
next
  case (Some e)
  then have t': "update_run k f t = t\<lparr>pt_active := jset k (f e) (pt_active t)\<rparr>" by (simp add: update_run_def)
  show ?thesis unfolding t'
  proof (rule tracker_okI)
    fix j d assume "jget (pt_active (t\<lparr>pt_active := jset k (f e) (pt_active t)\<rparr>)) j = Some d"
    then show "pe_run d = j \<and> j \<noteq> [] \<and> pe_status d = PsRunning"
      using assms(2) Some tracker_okD(1)[OF assms(1), of j] by (auto simp: harmless_def split: if_splits)
  next
    fix key j assume "jget (pt_index (t\<lparr>pt_active := jset k (f e) (pt_active t)\<rparr>)) key = Some j"
    then show "\<exists>d. jget (pt_active (t\<lparr>pt_active := jset k (f e) (pt_active t)\<rparr>)) j = Some d \<and> entry_key d = key"
      using tracker_okD(2)[OF assms(1), of key j] assms(2) Some by (auto simp: harmless_def)
  qed (use assms(1) in \<open>simp_all add: tracker_ok_def\<close>)
qed

lemma ended_entry_simps [simp]:
  "entry_key (ended_entry st err now e) = entry_key e" "pe_run (ended_entry st err now e) = pe_run e"
  "pe_status (ended_entry st err now e) = st"
  by (simp_all add: ended_entry_def entry_key_def)

lemma tracker_end_form:
  assumes "jget (pt_active t) k = Some e"
  shows "\<exists>d h. tracker_end k st err now t = t\<lparr>pt_active := jdel k (pt_active t),
         pt_index := (if jget (pt_index t) (entry_key e) = Some k then jdel (entry_key e) (pt_index t) else pt_index t),
         pt_history := drop (length h - pt_max t) h, pt_changes := pt_changes t @ [(False, d)]\<rparr>"
  by (rule exI[of _ "ended_entry st err now e"], rule exI[of _ "pt_history t @ [ended_entry st err now e]"])
     (use assms in \<open>simp add: tracker_end_def Let_def\<close>)

lemma tracker_ok_end:
  assumes "tracker_ok t"
  shows "tracker_ok (tracker_end k st err now t)"
proof (cases "jget (pt_active t) k")
  case None
  with assms show ?thesis by (simp add: tracker_end_def)
next
  case (Some e)
  let ?ix = "if jget (pt_index t) (entry_key e) = Some k then jdel (entry_key e) (pt_index t) else pt_index t"
  obtain d h where t': "tracker_end k st err now t = t\<lparr>pt_active := jdel k (pt_active t), pt_index := ?ix,
         pt_history := drop (length h - pt_max t) h, pt_changes := pt_changes t @ [(False, d)]\<rparr>"
    using tracker_end_form[OF Some] by blast
  show ?thesis unfolding t'
  proof (rule tracker_okI)
    fix j c assume "jget (pt_active (t\<lparr>pt_active := jdel k (pt_active t), pt_index := ?ix,
         pt_history := drop (length h - pt_max t) h, pt_changes := pt_changes t @ [(False, d)]\<rparr>)) j = Some c"
    then show "pe_run c = j \<and> j \<noteq> [] \<and> pe_status c = PsRunning"
      using tracker_okD(1)[OF assms, of j c] by (auto split: if_splits)
  next
    fix key j assume a: "jget (pt_index (t\<lparr>pt_active := jdel k (pt_active t), pt_index := ?ix,
         pt_history := drop (length h - pt_max t) h, pt_changes := pt_changes t @ [(False, d)]\<rparr>)) key = Some j"
    then have ix: "jget (pt_index t) key = Some j" by (auto split: if_splits)
    from tracker_okD(2)[OF assms this] obtain c where c: "jget (pt_active t) j = Some c" "entry_key c = key" by blast
    have "j \<noteq> k"
    proof
      assume "j = k"
      with c Some have "key = entry_key e" by simp
      with a ix \<open>j = k\<close> show False by simp
    qed
    with c show "\<exists>c. jget (pt_active (t\<lparr>pt_active := jdel k (pt_active t), pt_index := ?ix,
         pt_history := drop (length h - pt_max t) h, pt_changes := pt_changes t @ [(False, d)]\<rparr>)) j = Some c \<and> entry_key c = key" by simp
  qed (use assms in \<open>simp_all add: tracker_ok_def\<close>)
qed

interpretation tracking: machine tracker_step tracker_ok
proof unfold_locales
  fix t and e :: tracker_op
  assume "tracker_ok t"
  then show "tracker_ok (tracker_step e t)"
    by (cases e) (auto simp: tracker_ok_start tracker_ok_update tracker_ok_end)
qed

lemma harmless_updates [simp]:
  "harmless (\<lambda>e. e\<lparr>pe_mode := m\<rparr>)" "harmless (\<lambda>e. e\<lparr>pe_executor := x\<rparr>)" "harmless (\<lambda>e. e\<lparr>pe_loop := x\<rparr>)"
  "harmless (\<lambda>e. e\<lparr>pe_task := x\<rparr>)" "harmless (\<lambda>e. e\<lparr>pe_workflow := x\<rparr>)" "harmless (\<lambda>e. e\<lparr>pe_tools := n\<rparr>)"
  "harmless (\<lambda>e. if y \<in> set (pe_subagents e) then e else e\<lparr>pe_subagents := pe_subagents e @ [y]\<rparr>)"
  by (simp_all add: harmless_def entry_key_def)


section \<open>What becomes of a run\<close>

text \<open>
  In every run of the tracker, whatever is started, linked, ended and cancelled: the runs that are
  listed as active are running, each under its own id; a lookup by channel finds an active run with
  that key or nothing; and the history never grows past its limit.
\<close>

theorem tracker_sound:
  "let t = run_steps tracker_step es (tracker_new m) in
     (\<forall>e \<in> set (list_active t None). pe_status e = PsRunning \<and> tracker_get t (pe_run e) = Some e)
     \<and> (case find_active_by_key t provider chat_id alias of None \<Rightarrow> True
        | Some e \<Rightarrow> e \<in> set (list_active t None) \<and> entry_key e = run_key provider chat_id alias)
     \<and> length (pt_history t) \<le> (case m of Some n \<Rightarrow> n | None \<Rightarrow> 100)"
proof -
  let ?t = "run_steps tracker_step es (tracker_new m)"
  have "tracker_ok (tracker_new m)" by (simp add: tracker_ok_def tracker_new_def)
  then have ok: "tracker_ok ?t" by (rule tracking.inv_run)
  have mx: "pt_max (tracker_step e t) = pt_max t" for e t
    by (cases e) (auto simp: tracker_start_def update_run_def tracker_end_def Let_def split: option.split)
  have "pt_max (run_steps tracker_step es t) = pt_max t" for t
    by (induction es arbitrary: t) (simp_all add: mx)
  then have hist: "length (pt_history ?t) \<le> (case m of Some n \<Rightarrow> n | None \<Rightarrow> 100)"
    using ok by (simp add: tracker_ok_def tracker_new_def)
  have active: "pe_status e = PsRunning \<and> tracker_get ?t (pe_run e) = Some e" if "e \<in> set (list_active ?t None)" for e
  proof -
    from that obtain k where "(k, e) \<in> set (pt_active ?t)" by (auto simp: list_active_def jvals_def)
    then have k: "jget (pt_active ?t) k = Some e" using ok jget_iff[of "pt_active ?t" k e] by (simp add: tracker_ok_def)
    with tracker_okD(1)[OF ok k] show ?thesis by (simp add: tracker_get_def)
  qed
  have found: "e \<in> set (list_active ?t None) \<and> entry_key e = run_key provider chat_id alias"
    if f: "find_active_by_key ?t provider chat_id alias = Some e" for e
  proof -
    obtain k where k: "jget (pt_index ?t) (run_key provider chat_id alias) = Some k" "jget (pt_active ?t) k = Some e"
      using f by (auto simp: find_active_by_key_def split: option.splits if_splits)
    from tracker_okD(2)[OF ok k(1)] k(2) have "entry_key e = run_key provider chat_id alias" by auto
    with jget_mem[OF k(2)] show ?thesis by (force simp: list_active_def jvals_def)
  qed
  show ?thesis unfolding Let_def using active found hist by (auto split: option.split)
qed

text \<open>
  A cancelled run is cancelled: when \<open>cancel\<close> reports its steps the run has left the active ones,
  the subagents it started, its loop and its task were each asked to stop, and the run's own abort
  signal is the last step; a second \<open>cancel\<close> finds nothing.
\<close>

theorem tracker_cancel_outcome:
  assumes "tracker_cancel strategy other k team now x t = ((Some steps, x'), t')"
  shows "jget (pt_active t') k = None \<and> last steps = ''abort_signal''
    \<and> (\<exists>e ks. jget (pt_active t) k = Some e \<and> strategy = Some ks \<and> (team = None \<or> team = Some (pe_team e)) \<and> cascade ks e x = (steps, x'))
    \<and> tracker_cancel strategy other k team now' x' t' = ((None, x'), t')"
proof -
  obtain e where e: "jget (pt_active t) k = Some e" using assms by (cases "jget (pt_active t) k") (auto simp: tracker_cancel_def)
  have team: "\<not> (team \<noteq> None \<and> team \<noteq> Some (pe_team e))" using assms e by (auto simp: tracker_cancel_def split: if_splits)
  obtain ks where ks: "strategy = Some ks" using assms e team by (cases strategy) (auto simp: tracker_cancel_def)
  obtain st y where c: "cascade ks e x = (st, y)" by fastforce
  let ?u = "if pe_task e \<in> {None, Some []} then t else other t"
  have run: "steps = st" "x' = y" "t' = tracker_end k PsCancelled (Some ''cascade_cancel'') now ?u"
    using assms e team ks c by (auto simp: tracker_cancel_def Let_def)
  have "jget (pt_active t') k = None" unfolding run by (simp add: tracker_end_def Let_def split: option.split)
  moreover have "last st = ''abort_signal''" using c by (auto simp: cascade_def Let_def split: prod.splits)
  ultimately show ?thesis using e ks team c run by (auto simp: tracker_cancel_def)
qed

definition demo_params :: run_params where
  "demo_params = \<lparr>rp_provider = ''slack'', rp_chat = ''c'', rp_alias = ''a'', rp_sender = ''u'', rp_team = None\<rparr>"

definition demo_strategy :: "nat cancel_strategy" where
  "demo_strategy = \<lparr>kx_abort = (\<lambda>_ _ _ n. (True, Suc n)), kx_loop = (\<lambda>_ n. (True, Suc n)), kx_task = (\<lambda>_ n. (True, Suc n)),
     kx_subagent = (\<lambda>_ n. (False, Suc n))\<rparr>"

theorem tracker_cancel_outcome_witness:
  "jget (pt_active (snd (tracker_cancel (Some demo_strategy) id ''r'' None 5 0
     (link_loop ''r'' ''l'' (tracker_start ''r'' 1 demo_params (tracker_new None)))))) ''r'' = None"
proof -
  let ?t = "link_loop ''r'' ''l'' (tracker_start ''r'' 1 demo_params (tracker_new None))"
  have "fst (fst (tracker_cancel (Some demo_strategy) id ''r'' None 5 0 ?t)) = Some [''loop:l'', ''abort_signal'']" by code_simp
  then have "tracker_cancel (Some demo_strategy) id ''r'' None 5 0 ?t
      = ((Some [''loop:l'', ''abort_signal''], snd (fst (tracker_cancel (Some demo_strategy) id ''r'' None 5 0 ?t))),
         snd (tracker_cancel (Some demo_strategy) id ''r'' None 5 0 ?t))" by (metis prod.collapse)
  from tracker_cancel_outcome[OF this] show ?thesis by simp
qed


section \<open>Stopping all runs\<close>

lemma find_after_end:
  assumes "find_active_by_key t p c a = None"
  shows "find_active_by_key (tracker_end k st err now t) p c a = None"
  using assms by (auto simp: find_active_by_key_def tracker_end_def Let_def split: option.splits if_splits)

lemma find_after_own_end:
  assumes "tracker_ok t" and "find_active_by_key t p c a = Some e"
  shows "find_active_by_key (tracker_end (pe_run e) st err now t) p c a = None"
proof -
  obtain k where k: "jget (pt_index t) (run_key p c a) = Some k" "jget (pt_active t) k = Some e"
    using assms(2) by (auto simp: find_active_by_key_def split: option.splits if_splits)
  have "entry_key e = run_key p c a" using tracker_okD(2)[OF assms(1) k(1)] k(2) by auto
  moreover have "pe_run e = k" using tracker_okD(1)[OF assms(1) k(2)] by simp
  ultimately show ?thesis using k by (simp add: find_active_by_key_def tracker_end_def Let_def)
qed

definition run_stopped :: "active_run \<Rightarrow> active_runs \<times> process_tracker \<Rightarrow> bool" where
  "run_stopped r p \<longleftrightarrow> ax_abort r \<in> ac_aborted (fst p) \<and> find_active_by_key (snd p) (ax_provider r) (ax_chat r) (ax_alias r) = None"

lemma cancel_run_effect:
  assumes "tracker_ok (snd p)"
  shows "tracker_ok (snd (cancel_run now k p)) \<and> ac_runs (fst (cancel_run now k p)) = jdel k (ac_runs (fst p))
    \<and> (run_stopped r p \<longrightarrow> run_stopped r (cancel_run now k p))
    \<and> (jget (ac_runs (fst p)) k = Some r \<longrightarrow> run_stopped r (cancel_run now k p))"
proof (cases p)
  case (Pair c t)
  with assms have ok: "tracker_ok t" by simp
  show ?thesis
  proof (cases "jget (ac_runs c) k")
    case None
    with Pair ok show ?thesis by (simp add: cancel_run_def run_stopped_def)
  next
    case (Some q)
    show ?thesis
    proof (cases "find_active_by_key t (ax_provider q) (ax_chat q) (ax_alias q)")
      case None
      with Some Pair ok show ?thesis by (auto simp: cancel_run_def ac_abort_def run_stopped_def)
    next
      case (Some e)
      with \<open>jget (ac_runs c) k = Some q\<close> Pair ok show ?thesis
        using find_after_own_end[OF ok Some]
        by (auto simp: cancel_run_def ac_abort_def run_stopped_def tracker_ok_end find_after_end)
    qed
  qed
qed

lemma cancel_runs_effect:
  "tracker_ok (snd p) \<Longrightarrow> tracker_ok (snd (fold (cancel_run now) ks p))
    \<and> ac_runs (fst (fold (cancel_run now) ks p)) = filter (\<lambda>e. fst e \<notin> set ks) (ac_runs (fst p))
    \<and> (run_stopped r p \<or> (\<exists>k \<in> set ks. jget (ac_runs (fst p)) k = Some r) \<longrightarrow> run_stopped r (fold (cancel_run now) ks p))"
proof (induction ks arbitrary: p)
  case Nil
  then show ?case by simp
next
  case (Cons k ks)
  let ?q = "cancel_run now k p"
  note one = cancel_run_effect[OF Cons.prems, of now k r]
  then have ok: "tracker_ok (snd ?q)" by blast
  note rest = Cons.IH[OF ok]
  have "(\<exists>j \<in> set ks. jget (ac_runs (fst ?q)) j = Some r) \<or> run_stopped r ?q"
    if "\<exists>j \<in> set (k # ks). jget (ac_runs (fst p)) j = Some r"
    using that one by auto
  moreover have "filter (\<lambda>e. fst e \<notin> set ks) (jdel k (ac_runs (fst p))) = filter (\<lambda>e. fst e \<notin> set (k # ks)) (ac_runs (fst p))"
    by (auto simp: jdel_def intro!: filter_cong)
  ultimately show ?case using one rest by auto
qed

text \<open>
  Stopping everything stops everything: every registered run is aborted, none stays registered,
  and none of their channels has an active process any more.
\<close>

theorem stop_all_runs:
  assumes "tracker_ok t" and "jwf (ac_runs c)"
  shows "case ac_cancel now None (c, t) of (n, c', t') \<Rightarrow>
     n = length (ac_runs c) \<and> ac_runs c' = [] \<and> (\<forall>r \<in> set (jvals (ac_runs c)). run_stopped r (c', t'))"
proof -
  let ?out = "fold (cancel_run now) (jkeys (ac_runs c)) (c, t)"
  have ok: "tracker_ok (snd (c, t))" using assms(1) by simp
  note eff = cancel_runs_effect[OF ok, of now "jkeys (ac_runs c)"]
  have "run_stopped r ?out" if "r \<in> set (jvals (ac_runs c))" for r
  proof -
    from that obtain k where "(k, r) \<in> set (ac_runs c)" by (auto simp: jvals_def)
    then have "k \<in> set (jkeys (ac_runs c))" "jget (ac_runs c) k = Some r"
      using jget_iff[OF assms(2)] by (force simp: jkeys_def)+
    then show ?thesis using eff by fastforce
  qed
  moreover have "ac_runs (fst ?out) = []" using eff by (force simp: jkeys_def filter_empty_conv)
  ultimately show ?thesis
    by (cases ?out) (simp add: ac_cancel_def Let_def cancel_targets_def, simp add: jkeys_def)
qed

theorem stop_all_runs_witness:
  "case ac_cancel 9 None (ac_register ''slack:c:a'' \<lparr>ax_abort = 0, ax_provider = ''slack'', ax_chat = ''c'', ax_alias = ''a'', ax_input = False\<rparr>
       \<lparr>ac_runs = [], ac_aborted = {}\<rparr>, tracker_start ''r'' 1 demo_params (tracker_new None)) of (n, c', t') \<Rightarrow> n = 1 \<and> ac_runs c' = []"
proof -
  let ?c = "ac_register ''slack:c:a'' \<lparr>ax_abort = 0, ax_provider = ''slack'', ax_chat = ''c'', ax_alias = ''a'', ax_input = False\<rparr>
       \<lparr>ac_runs = [], ac_aborted = {}\<rparr>"
  have "tracker_ok (tracker_new None)" by (simp add: tracker_ok_def tracker_new_def)
  then have ok: "tracker_ok (tracker_start ''r'' 1 demo_params (tracker_new None))"
    by (rule tracker_ok_start) (simp_all add: tracker_new_def jhas_def)
  have "jwf (ac_runs ?c)" by (simp add: ac_register_def)
  from stop_all_runs[OF ok this, of 9] show ?thesis by (auto simp: ac_register_def)
qed

end
