(* ===== verification/Guards.thy ===== *)
theory Guards
  imports Reconcile RunTracking StreamBuffer TaskStore
begin

text \<open>
  The guards around an execution: \<open>src/src/orchestration/confirmation-guard.ts\<close> (a task waits for
  the user's yes), \<open>guardrails/session-reuse.ts\<close> and \<open>guardrails/enforcement.ts\<close> (a question asked
  before is not searched again), \<open>guardrails/budget-policy.ts\<close> (the tool calls of a run are
  bounded) and \<open>tool-call-handler.ts\<close>, which keeps to the budget.

  The tokenizer of questions, the tools and their labels and blocks are arguments; times are in
  milliseconds, similarities are fractions.
\<close>

section \<open>Confirmation\<close>

record pending_confirmation =
  pc_text :: string
  pc_mode :: exec_mode
  pc_categories :: "string list"
  pc_summary :: string
  pc_created :: int

datatype guard_resolution = GuardConfirmed string | GuardCancelled

record confirmation_guard =
  gd_enabled :: bool
  gd_pending :: "(string, pending_confirmation) jmap"
  gd_skip :: "string list"
  gd_ttl :: int

text \<open>The Korean words are given by their bytes.\<close>

definition guard_yes :: "string list" where
  "guard_yes = [[CHR 0xEB, CHR 0x84, CHR 0xA4], ''yes'', ''y'',
     [CHR 0xED, CHR 0x99, CHR 0x95, CHR 0xEC, CHR 0x9D, CHR 0xB8],
     [CHR 0xEC, CHR 0xA7, CHR 0x84, CHR 0xED, CHR 0x96, CHR 0x89], ''ok'',
     [CHR 0xEC, CHR 0x98, CHR 0x88],
     [CHR 0xE3, CHR 0x85, CHR 0x87, CHR 0xE3, CHR 0x85, CHR 0x87]]"

definition guard_no :: "string list" where
  "guard_no = [[CHR 0xEC, CHR 0x95, CHR 0x84, CHR 0xEB, CHR 0x8B, CHR 0x88, CHR 0xEC, CHR 0x98, CHR 0xA4],
     [CHR 0xEC, CHR 0x95, CHR 0x84, CHR 0xEB, CHR 0x8B, CHR 0x88], ''no'', ''n'',
     [CHR 0xEC, CHR 0xB7, CHR 0xA8, CHR 0xEC, CHR 0x86, CHR 0x8C],
     [CHR 0xE3, CHR 0x84, CHR 0xB4, CHR 0xE3, CHR 0x84, CHR 0xB4]]"

definition confirmation_guard_new :: "bool option \<Rightarrow> int option \<Rightarrow> confirmation_guard" where
  "confirmation_guard_new enabled ttl = \<lparr>gd_enabled = (enabled = Some True), gd_pending = [], gd_skip = [],
     gd_ttl = (case ttl of Some n \<Rightarrow> n | None \<Rightarrow> 120000)\<rparr>"

definition guard_set_enabled :: "bool \<Rightarrow> confirmation_guard \<Rightarrow> confirmation_guard" where
  "guard_set_enabled on g = (if on then g\<lparr>gd_enabled := True\<rparr> else g\<lparr>gd_enabled := False, gd_pending := [], gd_skip := []\<rparr>)"

definition chat_key :: "string \<Rightarrow> string \<Rightarrow> string" where
  "chat_key provider chat_id = provider @ '':'' @ chat_id"

definition needs_confirmation :: "exec_mode \<Rightarrow> string list \<Rightarrow> string \<Rightarrow> string \<Rightarrow> confirmation_guard \<Rightarrow> bool \<times> confirmation_guard" where
  "needs_confirmation mode categories provider chat_id g =
     (if \<not> gd_enabled g then (False, g)
      else if provider \<noteq> [] \<and> chat_id \<noteq> [] \<and> chat_key provider chat_id \<in> set (gd_skip g)
      then (False, g\<lparr>gd_skip := filter (\<lambda>k. k \<noteq> chat_key provider chat_id) (gd_skip g)\<rparr>)
      else (mode = ModeTask \<or> (\<exists>c \<in> set categories. c = ''scheduling''), g))"

definition guard_prune_expired :: "int \<Rightarrow> confirmation_guard \<Rightarrow> confirmation_guard" where
  "guard_prune_expired now g = g\<lparr>gd_pending := filter (\<lambda>e. now - pc_created (snd e) \<le> gd_ttl g) (gd_pending g),
     gd_skip := (if 10 < length (gd_skip g) then [] else gd_skip g)\<rparr>"

definition guard_store :: "int \<Rightarrow> string \<Rightarrow> string \<Rightarrow> string \<Rightarrow> string \<Rightarrow> exec_mode \<Rightarrow> string list \<Rightarrow> confirmation_guard \<Rightarrow> confirmation_guard" where
  "guard_store now provider chat_id original summary mode categories g =
     (let g = guard_prune_expired now g
      in g\<lparr>gd_pending := jset (chat_key provider chat_id)
             \<lparr>pc_text = original, pc_mode = mode, pc_categories = categories, pc_summary = summary, pc_created = now\<rparr> (gd_pending g)\<rparr>)"

definition has_pending :: "int \<Rightarrow> string \<Rightarrow> string \<Rightarrow> confirmation_guard \<Rightarrow> bool \<times> confirmation_guard" where
  "has_pending now provider chat_id g = (case jget (gd_pending g) (chat_key provider chat_id) of
       None \<Rightarrow> (False, g)
     | Some e \<Rightarrow> if gd_ttl g < now - pc_created e then (False, g\<lparr>gd_pending := jdel (chat_key provider chat_id) (gd_pending g)\<rparr>)
                else (True, g))"

definition guard_try_resolve :: "int \<Rightarrow> string \<Rightarrow> string \<Rightarrow> string \<Rightarrow> confirmation_guard \<Rightarrow> guard_resolution option \<times> confirmation_guard" where
  "guard_try_resolve now provider chat_id answer g =
     (let key = chat_key provider chat_id
      in case jget (gd_pending g) key of
           None \<Rightarrow> (None, g)
         | Some e \<Rightarrow>
             let gone = g\<lparr>gd_pending := jdel key (gd_pending g)\<rparr>; norm = str_lower (str_trim answer)
             in if gd_ttl g < now - pc_created e then (None, gone)
                else if norm \<in> set guard_yes
                then (Some (GuardConfirmed (pc_text e)),
                      gone\<lparr>gd_skip := (if key \<in> set (gd_skip g) then gd_skip g else gd_skip g @ [key])\<rparr>)
                else if norm \<in> set guard_no then (Some GuardCancelled, gone)
                else (None, gone))"

definition guard_status :: "int \<Rightarrow> confirmation_guard \<Rightarrow> (bool \<times> nat) \<times> confirmation_guard" where
  "guard_status now g = (let g = guard_prune_expired now g in ((gd_enabled g, length (gd_pending g)), g))"


section \<open>Reuse of what the session has answered\<close>

record session_entry =
  he_role :: string
  he_content :: string
  he_at :: "rat option"

record past_query =
  pq_normalized :: string
  pq_original :: string
  pq_at :: rat

record session_evidence =
  se_recent :: "past_query list"
  se_failed :: "past_query list"

datatype reuse_decision = ReuseSummary string rat | SameTopic string rat | StaleRetry string rat | NewSearch

fun has_successful_response :: "session_entry list \<Rightarrow> bool" where
  "has_successful_response [] = False"
| "has_successful_response (m # rest) =
     (if he_role m = ''user'' then False
      else if he_role m = ''assistant'' then str_trim (he_content m) \<noteq> []
      else has_successful_response rest)"

definition past_indices :: "session_entry list \<Rightarrow> nat list" where
  "past_indices h = butlast (filter (\<lambda>i. he_role (h ! i) = ''user'') [0..<length h])"

definition past_query_at :: "(string \<Rightarrow> string) \<Rightarrow> session_entry list \<Rightarrow> rat \<Rightarrow> rat \<Rightarrow> nat \<times> nat \<Rightarrow> past_query" where
  "past_query_at nq h start step p = (case p of (n, i) \<Rightarrow>
     \<lparr>pq_normalized = nq (he_content (h ! i)), pq_original = he_content (h ! i),
      pq_at = (case he_at (h ! i) of Some t \<Rightarrow> t | None \<Rightarrow> start + of_nat n * step)\<rparr>)"

definition build_session_evidence :: "(string \<Rightarrow> string) \<Rightarrow> session_entry list \<Rightarrow> rat \<Rightarrow> rat \<Rightarrow> session_evidence" where
  "build_session_evidence nq h now freshness =
     (let past = past_indices h; window = max freshness 1;
          step = (if 1 < length past then window / of_nat (length past) else 0);
          rows = zip [0..<length past] past;
          ok = (\<lambda>p. has_successful_response (drop (Suc (snd p)) h))
      in \<lparr>se_recent = map (past_query_at nq h (now - window) step) (filter ok rows),
          se_failed = map (past_query_at nq h (now - window) step) (filter (\<lambda>p. \<not> ok p) rows)\<rparr>)"

definition query_words :: "string \<Rightarrow> string list" where
  "query_words s = js_set (filter (\<lambda>w. w \<noteq> []) (split_on (\<lambda>c. c = CHR '' '') s))"

definition compute_similarity :: "string \<Rightarrow> string \<Rightarrow> rat" where
  "compute_similarity a b =
     (if a = b then 1
      else let wa = query_words a; wb = query_words b
           in if wa = [] \<and> wb = [] then 1 else if wa = [] \<or> wb = [] then 0
              else let common = length (filter (\<lambda>w. w \<in> set wb) wa)
                   in of_nat common / of_nat (length wa + length wb - common))"

text \<open>The best match so far: its text, age and similarity.\<close>

definition better_match :: "rat \<Rightarrow> string \<Rightarrow> rat \<Rightarrow> past_query \<Rightarrow> (string \<times> rat \<times> rat) option \<Rightarrow> (string \<times> rat \<times> rat) option" where
  "better_match now normalized threshold q best =
     (let sim = compute_similarity normalized (pq_normalized q); age = now - pq_at q; this = Some (pq_normalized q, age, sim)
      in if sim < threshold then best
         else case best of None \<Rightarrow> this
              | Some (_, best_age, best_sim) \<Rightarrow> if best_sim < sim \<or> (sim = best_sim \<and> age < best_age) then this else best)"

definition evaluate_reuse :: "(string \<Rightarrow> string) \<Rightarrow> string \<Rightarrow> session_evidence \<Rightarrow> rat \<Rightarrow> rat \<Rightarrow> rat \<Rightarrow> reuse_decision" where
  "evaluate_reuse nq query evidence now freshness threshold =
     (let normalized = nq query
      in if normalized = [] then NewSearch
         else if \<exists>q \<in> set (se_failed evidence). threshold \<le> compute_similarity normalized (pq_normalized q) then NewSearch
         else case fold (better_match now normalized threshold) (se_recent evidence) None of
             None \<Rightarrow> NewSearch
           | Some (m, age, sim) \<Rightarrow>
               let fresh = (0 < freshness \<and> age \<le> freshness)
               in if 999 / 1000 \<le> sim \<and> fresh then ReuseSummary m age
                  else if fresh then SameTopic m age else StaleRetry m age)"


section \<open>Budgets\<close>

record budget_state =
  bs_executed :: int
  bs_max :: int

definition create_budget_state :: "int \<Rightarrow> budget_state" where
  "create_budget_state max_calls = \<lparr>bs_executed = 0, bs_max = max_calls\<rparr>"

definition is_budget_enabled :: "budget_state \<Rightarrow> bool" where
  "is_budget_enabled b \<longleftrightarrow> 0 < bs_max b"

definition is_budget_exceeded :: "budget_state \<Rightarrow> bool" where
  "is_budget_exceeded b \<longleftrightarrow> is_budget_enabled b \<and> bs_max b \<le> bs_executed b"

text \<open>\<open>None\<close> is infinity.\<close>

definition remaining_calls :: "budget_state \<Rightarrow> int option" where
  "remaining_calls b = (if is_budget_enabled b then Some (max 0 (bs_max b - bs_executed b)) else None)"

definition record_tool_calls :: "int \<Rightarrow> budget_state \<Rightarrow> budget_state" where
  "record_tool_calls n b = b\<lparr>bs_executed := bs_executed b + n\<rparr>"

record budget_tracker =
  bt_max :: int
  bt_used :: int

definition create_budget_tracker :: "int \<Rightarrow> budget_tracker" where
  "create_budget_tracker n = \<lparr>bt_max = n, bt_used = 0\<rparr>"

definition is_over_budget :: "budget_tracker \<Rightarrow> bool" where
  "is_over_budget b \<longleftrightarrow> 0 < bt_max b \<and> bt_max b \<le> bt_used b"

definition remaining_budget :: "budget_tracker \<Rightarrow> int option" where
  "remaining_budget b = (if bt_max b \<le> 0 then None else Some (max 0 (bt_max b - bt_used b)))"


section \<open>Executing the calls of a round\<close>

record tool_entry =
  te_name :: string
  te_args :: "memory option"

datatype tool_event = ToolUse string memory | ToolResult string string bool

text \<open>What the handler is given; \<open>hd_execute\<close> is the tool's answer or error, by the number of the call.\<close>

record handler_deps =
  hd_execute :: "nat \<Rightarrow> string \<Rightarrow> memory \<Rightarrow> string + string"
  hd_reduce :: "(string \<Rightarrow> memory \<Rightarrow> string \<Rightarrow> string \<times> string \<times> string) option"
  hd_label :: "string \<Rightarrow> memory option \<Rightarrow> string"
  hd_block :: "string \<Rightarrow> string \<Rightarrow> bool \<Rightarrow> string"
  hd_max_chars :: int
  hd_on_event :: bool
  hd_on_log :: bool
  hd_on_block :: bool
  hd_on_stream :: bool

record handler_state =
  hx_outputs :: "string list"
  hx_suppress :: bool
  hx_file :: bool
  hx_done :: bool
  hx_count :: nat
  hx_budget :: "budget_tracker option"
  hx_events :: "tool_event list"
  hx_logs :: "(string \<times> string \<times> bool) list"
  hx_blocks :: "string list"
  hx_buffer :: stream_buffer
  hx_sent :: "string list"

definition truncate_tool_result :: "string \<Rightarrow> int \<Rightarrow> string" where
  "truncate_tool_result result max_chars =
     (let limit = nat (max 100 max_chars)
      in if length result \<le> limit then result
         else let half = (limit - 40) div 2
              in take half result @ CHR 0x0A # ''...[truncated '' @ nat_text (length result - limit) @ '' chars]...'' @ [CHR 0x0A]
                 @ drop (length result - half) result)"

definition is_done_phase :: "(jsval \<Rightarrow> string) \<Rightarrow> memory \<Rightarrow> bool" where
  "is_done_phase str args \<longleftrightarrow> str_lower (str_trim (text_or_empty str (memory_at args ''phase''))) = ''done''"

definition flush_stream :: "handler_deps \<Rightarrow> int \<Rightarrow> handler_state \<Rightarrow> handler_state" where
  "flush_stream d now h = (if \<not> hd_on_stream d then h
     else case sb_flush now (hx_buffer h) of (content, b) \<Rightarrow>
       h\<lparr>hx_buffer := b, hx_sent := hx_sent h @ (case content of Some c \<Rightarrow> [c] | None \<Rightarrow> [])\<rparr>)"

definition emit_result :: "handler_deps \<Rightarrow> int \<Rightarrow> tool_entry \<Rightarrow> string \<Rightarrow> bool \<Rightarrow> handler_state \<Rightarrow> string \<times> handler_state" where
  "emit_result d now tc result is_error h =
     (let args = (case te_args tc of Some a \<Rightarrow> a | None \<Rightarrow> []);
          plain = (if is_error then result else truncate_tool_result result (hd_max_chars d));
          views = (case hd_reduce d of
                Some reduce \<Rightarrow> if is_error then (plain, result, plain) else reduce (te_name tc) args result
              | None \<Rightarrow> (plain, result, plain))
      in case views of (prompt, display, storage) \<Rightarrow>
        let block = hd_block d (hd_label d (te_name tc) (te_args tc)) display is_error;
            h = (if hd_on_event d then h\<lparr>hx_events := hx_events h @ [ToolResult (te_name tc) prompt is_error]\<rparr> else h);
            h = (if hd_on_log d then h\<lparr>hx_logs := hx_logs h @ [(te_name tc, take 500 storage, is_error)]\<rparr> else h);
            h = (if hd_on_block d then h\<lparr>hx_blocks := hx_blocks h @ [block]\<rparr>
                 else if hd_on_stream d then flush_stream d now (h\<lparr>hx_buffer := sb_append block (hx_buffer h)\<rparr>) else h)
        in (prompt, h))"

definition count_call :: "handler_state \<Rightarrow> handler_state" where
  "count_call h = h\<lparr>hx_count := hx_count h + 1, hx_budget := map_option (\<lambda>b. b\<lparr>bt_used := bt_used b + 1\<rparr>) (hx_budget h)\<rparr>"

definition add_output :: "string \<Rightarrow> handler_state \<Rightarrow> handler_state" where
  "add_output s h = h\<lparr>hx_outputs := hx_outputs h @ [s]\<rparr>"

definition over_budget :: "handler_state \<Rightarrow> bool" where
  "over_budget h = (case hx_budget h of Some b \<Rightarrow> is_over_budget b | None \<Rightarrow> False)"

definition skipped_line :: "tool_entry \<Rightarrow> handler_state \<Rightarrow> string" where
  "skipped_line tc h = ''[tool:'' @ te_name tc @ ''] skipped: budget exceeded ('' @
     (case hx_budget h of Some b \<Rightarrow> int_text (bt_used b) @ ''/'' @ int_text (bt_max b) | None \<Rightarrow> []) @ '')''"

definition handle_call :: "(jsval \<Rightarrow> string) \<Rightarrow> handler_deps \<Rightarrow> int \<Rightarrow> tool_entry \<Rightarrow> handler_state \<Rightarrow> handler_state" where
  "handle_call str d now tc h =
     (if over_budget h then add_output (skipped_line tc h) h
      else
        let args = (case te_args tc of Some a \<Rightarrow> a | None \<Rightarrow> []);
            h = (if te_name tc = ''request_file'' then h\<lparr>hx_file := True\<rparr> else h);
            h = (if te_name tc = ''message'' \<and> is_done_phase str args then h\<lparr>hx_suppress := True, hx_done := True\<rparr> else h);
            h = (if hd_on_event d then h\<lparr>hx_events := hx_events h @ [ToolUse (te_name tc) args]\<rparr> else h)
        in case hd_execute d (hx_count h) (te_name tc) args of
             Inr result \<Rightarrow> (case emit_result d now tc result False (count_call h) of
               (prompt, h) \<Rightarrow> add_output (''[tool:'' @ te_name tc @ ''] '' @ prompt) h)
           | Inl err \<Rightarrow> (case emit_result d now tc err True (count_call h) of
               (_, h) \<Rightarrow> add_output (''[tool:'' @ te_name tc @ ''] error: '' @ err) h))"

text \<open>A round returns the lines of its calls.\<close>

definition handle_calls :: "(jsval \<Rightarrow> string) \<Rightarrow> handler_deps \<Rightarrow> int \<Rightarrow> tool_entry list \<Rightarrow> handler_state \<Rightarrow> string \<times> handler_state" where
  "handle_calls str d now calls h =
     (let h = fold (handle_call str d now) calls (h\<lparr>hx_outputs := []\<rparr>)
      in (str_join [CHR 0x0A] (hx_outputs h), h))"

end
