(* ===== verification/ReconcileCorrect.thy ===== *)
theory ReconcileCorrect
  imports Reconcile
begin

text \<open>
  What reconciliation promises: the majority policy elects a value with the most votes, the first
  of them; conflict detection sorts every field into the consensus or the conflicts, rightly;
  a union loses no field; the critic's gate and its node bound the rounds; and the summary of a run
  says what the nodes did.
\<close>

section \<open>Sets in order of occurrence\<close>

lemma js_set_simps [simp]:
  "js_set [] = []" "js_set (xs @ [x]) = (if x \<in> set (js_set xs) then js_set xs else js_set xs @ [x])"
  by (simp_all add: js_set_def)

lemma set_js_set [simp]: "set (js_set xs) = set xs"
  by (induction xs rule: rev_induct) auto

lemma distinct_js_set [simp]: "distinct (js_set xs)"
  by (induction xs rule: rev_induct) auto

lemma js_set_first:
  "js_set xs = pre @ v # post \<Longrightarrow> \<exists>a b. xs = a @ v # b \<and> v \<notin> set a \<and> set a \<subseteq> set pre"
proof (induction xs arbitrary: post rule: rev_induct)
  case Nil
  then show ?case by simp
next
  case (snoc x xs)
  show ?case
  proof (cases "x \<in> set xs")
    case True
    with snoc obtain a b where "xs = a @ v # b" "v \<notin> set a" "set a \<subseteq> set pre" by fastforce
    then show ?thesis by (intro exI[of _ a] exI[of _ "b @ [x]"]) simp
  next
    case False
    then have eq: "js_set xs @ [x] = pre @ v # post" using snoc.prems by simp
    show ?thesis
    proof (cases post rule: rev_cases)
      case Nil
      with eq have "js_set xs = pre" "x = v" by auto
      with False show ?thesis by (intro exI[of _ xs] exI[of _ "[]"]) auto
    next
      case (snoc ys y)
      with eq have "js_set xs = pre @ v # ys" by simp
      with snoc.IH obtain a b where "xs = a @ v # b" "v \<notin> set a" "set a \<subseteq> set pre" by blast
      then show ?thesis by (intro exI[of _ a] exI[of _ "b @ [x]"]) simp
    qed
  qed
qed

lemma js_set_one: "length (js_set xs) = 1 \<longleftrightarrow> xs \<noteq> [] \<and> (\<forall>x \<in> set xs. \<forall>y \<in> set xs. x = y)"
proof
  assume "length (js_set xs) = 1"
  then obtain z where "js_set xs = [z]" by (metis One_nat_def length_0_conv length_Suc_conv)
  then have "set xs = {z}" by (metis list.set(1) list.simps(15) set_js_set)
  then show "xs \<noteq> [] \<and> (\<forall>x \<in> set xs. \<forall>y \<in> set xs. x = y)" by auto
next
  assume a: "xs \<noteq> [] \<and> (\<forall>x \<in> set xs. \<forall>y \<in> set xs. x = y)"
  then have "set (js_set xs) = {hd xs}" by (auto intro: hd_in_set)
  then show "length (js_set xs) = 1" using distinct_card[OF distinct_js_set, of xs] by simp
qed


section \<open>Votes\<close>

lemma keep_better_fold:
  assumes "fold keep_better m b = r"
  shows "(r = b \<and> (\<forall>e \<in> set m. snd e \<le> snd b))
    \<or> (\<exists>pre post. m = pre @ r # post \<and> snd b < snd r \<and> (\<forall>e \<in> set pre. snd e < snd r) \<and> (\<forall>e \<in> set post. snd e \<le> snd r))"
  using assms
proof (induction m arbitrary: r rule: rev_induct)
  case Nil
  then show ?case by simp
next
  case (snoc e m)
  define q where "q = fold keep_better m b"
  have r: "r = keep_better e q" using snoc.prems by (simp add: q_def)
  from snoc.IH[OF q_def[symmetric]] show ?case
  proof (elim disjE exE conjE)
    assume q: "q = b" "\<forall>e \<in> set m. snd e \<le> snd b"
    then show ?thesis using r by (fastforce simp: keep_better_def)
  next
    fix pre post
    assume q: "m = pre @ q # post" "snd b < snd q" "\<forall>e \<in> set pre. snd e < snd q" "\<forall>e \<in> set post. snd e \<le> snd q"
    show ?thesis
    proof (cases "snd q < snd e")
      case True
      then have "r = e" using r by (simp add: keep_better_def)
      with q True show ?thesis by (intro disjI2 exI[of _ m] exI[of _ "[]"]) auto
    next
      case False
      then have "r = q" using r by (simp add: keep_better_def)
      with q False show ?thesis by (intro disjI2 exI[of _ pre] exI[of _ "post @ [e]"]) auto
    qed
  qed
qed

definition spoken :: "string option list \<Rightarrow> string list" where
  "spoken vs = concat (map (\<lambda>v. case v of None \<Rightarrow> [] | Some s \<Rightarrow> [s]) vs)"

lemma jkeys_jset: "jkeys (jset k v m) = (if k \<in> set (jkeys m) then jkeys m else jkeys m @ [k])"
  by (induction k v m rule: jset.induct) (auto simp: jkeys_def)

lemma set_spoken: "set (spoken vs) = {s. Some s \<in> set vs}"
  by (induction vs) (auto simp: spoken_def split: option.splits)

lemma content_votes_keys: "jkeys (content_votes vs) = js_set (spoken vs)"
proof (induction vs rule: rev_induct)
  case Nil
  then show ?case by (simp add: content_votes_def spoken_def jkeys_def)
next
  case (snoc v vs)
  show ?case
  proof (cases v)
    case None
    with snoc show ?thesis by (simp add: content_votes_def spoken_def)
  next
    case (Some s)
    have "spoken (vs @ [v]) = spoken vs @ [s]" by (simp add: spoken_def Some)
    moreover have "jkeys (content_votes (vs @ [v]))
        = (if s \<in> set (jkeys (content_votes vs)) then jkeys (content_votes vs) else jkeys (content_votes vs) @ [s])"
      by (simp add: content_votes_def Some jkeys_jset)
    ultimately show ?thesis using snoc by simp
  qed
qed

lemma content_votes_count:
  "jget (content_votes vs) s = (if Some s \<in> set vs then Some (count_list vs (Some s)) else None)"
proof (induction vs rule: rev_induct)
  case Nil
  then show ?case by (simp add: content_votes_def)
next
  case (snoc v vs)
  show ?case
  proof (cases v)
    case None
    with snoc show ?thesis by (simp add: content_votes_def)
  next
    case (Some t)
    have step: "content_votes (vs @ [Some t])
        = jset t ((case jget (content_votes vs) t of Some n \<Rightarrow> n | None \<Rightarrow> 0) + 1) (content_votes vs)"
      by (simp add: content_votes_def)
    show ?thesis using snoc.IH by (cases "s = t") (auto simp: step Some count_list_0_iff split: if_splits)
  qed
qed

lemma content_votes_wf: "jwf (content_votes vs)"
  using distinct_js_set[of "spoken vs"] content_votes_keys[of vs] by (simp add: jwf_def jkeys_def)

lemma content_vote_iff:
  "(s, n) \<in> set (content_votes vs) \<longleftrightarrow> Some s \<in> set vs \<and> n = count_list vs (Some s)"
  using jget_iff[OF content_votes_wf, of vs s n] by (auto simp: content_votes_count split: if_splits)

lemma spoken_split:
  "spoken vs = a @ w # b \<Longrightarrow> \<exists>c d. vs = c @ Some w # d \<and> spoken c = a"
proof (induction vs arbitrary: a)
  case Nil
  then show ?case by (simp add: spoken_def)
next
  case (Cons v vs)
  show ?case
  proof (cases v)
    case None
    then have "spoken vs = a @ w # b" using Cons.prems by (simp add: spoken_def)
    with Cons.IH obtain c d where "vs = c @ Some w # d" "spoken c = a" by blast
    with None show ?thesis by (intro exI[of _ "v # c"] exI[of _ d]) (simp add: spoken_def)
  next
    case (Some s)
    then have sp: "s # spoken vs = a @ w # b" using Cons.prems by (simp add: spoken_def)
    show ?thesis
    proof (cases a)
      case Nil
      with sp Some show ?thesis by (intro exI[of _ "[]"] exI[of _ vs]) (simp add: spoken_def)
    next
      case (Cons x a')
      with sp have "x = s" "spoken vs = a' @ w # b" by simp_all
      with Cons.IH obtain c d where "vs = c @ Some w # d" "spoken c = a'" by blast
      with Some Cons \<open>x = s\<close> show ?thesis by (intro exI[of _ "v # c"] exI[of _ d]) (simp add: spoken_def)
    qed
  qed
qed

text \<open>
  Without parsed values the majority policy elects: when some agent that did not fail gave a
  content, the reconciled value is a content that no other has more votes than, and among those
  with as many votes the one given first.
\<close>

theorem majority_elected:
  assumes "Some v \<in> set vs"
    and "vs = map pr_content (filter result_ok (en_results env))"
  shows "\<exists>w a b. apply_reconcile_policy env MajorityVote None = JStr w \<and> vs = a @ Some w # b
    \<and> (\<forall>x. count_list vs (Some x) \<le> count_list vs (Some w))
    \<and> (\<forall>x. Some x \<in> set a \<longrightarrow> count_list vs (Some x) < count_list vs (Some w))"
proof -
  let ?m = "content_votes vs"
  have "(v, count_list vs (Some v)) \<in> set ?m" using assms(1) by (simp add: content_vote_iff)
  then obtain f fs where m: "?m = f # fs" by (cases ?m) auto
  obtain w n where best: "fold keep_better ?m (fst f, 0) = (w, n)" by fastforce
  have run: "apply_reconcile_policy env MajorityVote None = JStr w"
  proof -
    have "filter result_ok (en_results env) \<noteq> []" using assms by force
    then show ?thesis using best m
      by (simp add: apply_reconcile_policy_def Let_def apply_majority_vote_def content_majority_def assms(2)[symmetric])
  qed
  have "f \<in> set ?m" using m by simp
  moreover obtain s c where "f = (s, c)" by fastforce
  ultimately have "0 < snd f" by (auto simp: content_vote_iff count_list_0_iff intro: gr0I)
  with \<open>f \<in> set ?m\<close> have "\<not> (\<forall>e \<in> set ?m. snd e \<le> snd (fst f, 0 :: nat))" by fastforce
  with keep_better_fold[OF best] obtain pre post where
    split: "?m = pre @ (w, n) # post" "\<forall>e \<in> set pre. snd e < n" "\<forall>e \<in> set post. snd e \<le> n"
    by (elim disjE) auto
  have "(w, n) \<in> set ?m" by (simp add: split)
  then have n: "n = count_list vs (Some w)" by (simp add: content_vote_iff)
  have most: "count_list vs (Some x) \<le> n" for x
  proof (cases "Some x \<in> set vs")
    case True
    then have "(x, count_list vs (Some x)) \<in> set ?m" by (simp add: content_vote_iff)
    then show ?thesis using split by fastforce
  next
    case False
    then show ?thesis by (simp add: count_list_0_iff)
  qed
  have "js_set (spoken vs) = map fst pre @ w # map fst post"
    using content_votes_keys[of vs] split(1) by (simp add: jkeys_def)
  then obtain a b where "spoken vs = a @ w # b" "set a \<subseteq> fst ` set pre" using js_set_first by fastforce
  with spoken_split obtain c d where c: "vs = c @ Some w # d" "set (spoken c) \<subseteq> fst ` set pre" by metis
  have "count_list vs (Some x) < n" if "Some x \<in> set c" for x
  proof -
    from that c(2) have "x \<in> fst ` set pre" by (auto simp: set_spoken)
    then obtain k where k: "(x, k) \<in> set pre" by auto
    then have "(x, k) \<in> set ?m" by (simp add: split)
    then have "k = count_list vs (Some x)" by (simp add: content_vote_iff)
    with k split(2) show ?thesis by auto
  qed
  with run c(1) most n show ?thesis by blast
qed

definition told :: "string \<Rightarrow> string \<Rightarrow> agent_result" where
  "told k c = \<lparr>pr_agent = k, pr_content = Some c, pr_parsed = JUndef, pr_error = None\<rparr>"

theorem majority_elected_witness:
  "\<exists>w. apply_reconcile_policy (build_parallel_envelope [] [told ''a'' ''x'', told ''b'' ''y'', told ''c'' ''y'']) MajorityVote None = JStr w
     \<and> 2 \<le> count_list [Some ''x'', Some ''y'', Some ''y''] (Some w)"
proof -
  let ?env = "build_parallel_envelope [] [told ''a'' ''x'', told ''b'' ''y'', told ''c'' ''y'']"
  have v: "[Some ''x'', Some ''y'', Some ''y''] = map pr_content (filter result_ok (en_results ?env))"
    by (simp add: build_parallel_envelope_def told_def result_ok_def)
  have "Some ''x'' \<in> set [Some ''x'', Some ''y'', Some ''y'']" by simp
  from majority_elected[OF this v] obtain w where w: "apply_reconcile_policy ?env MajorityVote None = JStr w"
      "\<forall>x. count_list [Some ''x'', Some ''y'', Some ''y''] (Some x) \<le> count_list [Some ''x'', Some ''y'', Some ''y''] (Some w)"
    by blast
  from w(2)[rule_format, of "''y''"] have "2 \<le> count_list [Some ''x'', Some ''y'', Some ''y''] (Some w)" by simp
  with w(1) show ?thesis by blast
qed


section \<open>Conflicts\<close>

definition agreed :: "agent_result list \<Rightarrow> string \<Rightarrow> bool" where
  "agreed rs k \<longleftrightarrow> (\<forall>x \<in> set (holders rs k). \<forall>y \<in> set (holders rs k). json_form (snd x) = json_form (snd y))"

lemma digits_nat_text:
  "nat_of_digits (nat_text n) = n \<and> all_digits (nat_text n) \<and> nat_text n \<noteq> [] \<and> (hd (nat_text n) = CHR ''0'' \<longrightarrow> n = 0)"
proof (induction n rule: nat_text.induct)
  case (1 n)
  have "\<forall>k \<in> set [0..<10]. digit_val (digit_char k) = k \<and> cron_digit (digit_char k) \<and> (digit_char k = CHR ''0'' \<longleftrightarrow> k = 0)"
    by code_simp
  then have d: "digit_val (digit_char k) = k" "cron_digit (digit_char k)" "digit_char k = CHR ''0'' \<longleftrightarrow> k = 0" if "k < 10" for k
    using that by auto
  show ?case
  proof (cases "n < 10")
    case True
    then show ?thesis using d[of n] by (simp add: nat_text.simps[of n] nat_of_digits_def all_digits_def)
  next
    case False
    then show ?thesis using 1 d[of "n mod 10"]
      by (auto simp: nat_text.simps[of n] nat_of_digits_def all_digits_def hd_append)
  qed
qed

lemma array_index_nat_text: "array_index (nat_text n) = Some n"
  using digits_nat_text[of n] by (auto simp: array_index_def nat_text.simps[of 0] digit_char_def)

lemma own_key_has: "k \<in> set (own_keys v) \<Longrightarrow> has_prop v k"
  by (cases v) (auto simp: own_keys_def has_prop_def jkeys_def jhas_def map_of_eq_None_iff array_index_nat_text)

lemma holders_some:
  assumes "k \<in> set (parsed_keys rs)"
  shows "holders rs k \<noteq> []"
proof -
  from assms obtain r where "r \<in> set rs" "k \<in> set (own_keys (pr_parsed r))" by (auto simp: parsed_keys_def)
  with own_key_has have "r \<in> set (filter (\<lambda>r. has_prop (pr_parsed r) k) rs)" by simp
  then have "filter (\<lambda>r. has_prop (pr_parsed r) k) rs \<noteq> []" by force
  then show ?thesis by (simp add: holders_def)
qed

lemma compare_key_agreed:
  assumes "holders rs k \<noteq> []"
  shows "compare_key rs k cs = (if agreed rs k then cs\<lparr>cs_consensus := jset k (snd (hd (holders rs k))) (cs_consensus cs)\<rparr>
     else cs\<lparr>cs_fields := cs_fields cs @
        [\<lparr>cf_field = k, cf_values = map snd (holders rs k), cf_agents = map fst (holders rs k)\<rparr>]\<rparr>)"
  using assms by (simp add: compare_key_def Let_def js_set_one agreed_def del: One_nat_def)

definition conflict_of :: "agent_result list \<Rightarrow> string \<Rightarrow> conflict_field" where
  "conflict_of rs k = \<lparr>cf_field = k, cf_values = map snd (holders rs k), cf_agents = map fst (holders rs k)\<rparr>"

lemma compare_all:
  assumes "\<forall>k \<in> set ks. holders rs k \<noteq> []" and "out = fold (compare_key rs) ks cs"
  shows "cs_fields out = cs_fields cs @ map (conflict_of rs) (filter (\<lambda>k. \<not> agreed rs k) ks)"
    and "jget (cs_consensus out) k = (if k \<in> set ks \<and> agreed rs k then Some (snd (hd (holders rs k))) else jget (cs_consensus cs) k)"
    and "set (jkeys (cs_consensus out)) = set (jkeys (cs_consensus cs)) \<union> {k \<in> set ks. agreed rs k}"
  unfolding assms(2) using assms(1)
  by (induction ks arbitrary: cs) (auto simp: compare_key_agreed conflict_of_def jkeys_jset)

lemma filter_field:
  "distinct ks \<Longrightarrow> filter (\<lambda>f. cf_field f = k) (map (conflict_of rs) (filter P ks)) = (if k \<in> set ks \<and> P k then [conflict_of rs k] else [])"
  by (induction ks) (auto simp: conflict_of_def)

lemma detect_many:
  assumes "2 \<le> length (parsed_results (filter result_ok results))"
  shows "detect_conflicts results (Some ''parsed'') = (let rs = parsed_results (filter result_ok results)
     in fold (compare_key rs) (parsed_keys rs) \<lparr>cs_fields = [], cs_consensus = []\<rparr>)"
proof -
  obtain a b rest where p: "parsed_results (filter result_ok results) = a # b # rest"
    using assms by (cases "parsed_results (filter result_ok results)" rule: remdups_adj.cases) auto
  have "length (a # b # rest) \<le> length (filter result_ok results)"
    unfolding p[symmetric] parsed_results_def by (rule length_filter_le)
  then obtain c d rest' where ok: "filter result_ok results = c # d # rest'"
    by (cases "filter result_ok results" rule: remdups_adj.cases) auto
  have "detect_conflicts results (Some ''parsed'') = detect_parsed_conflicts (filter result_ok results)"
    by (simp add: detect_conflicts_def ok)
  then show ?thesis by (simp add: detect_parsed_conflicts_def p Let_def)
qed

lemma detected:
  assumes "rs = parsed_results (filter result_ok results)" and "2 \<le> length rs"
  defines "cs \<equiv> detect_conflicts results (Some ''parsed'')"
  shows "jget (cs_consensus cs) k = (if (\<exists>r \<in> set rs. k \<in> set (own_keys (pr_parsed r))) \<and> agreed rs k
           then Some (snd (hd (holders rs k))) else None)"
    and "filter (\<lambda>f. cf_field f = k) (cs_fields cs) = (if (\<exists>r \<in> set rs. k \<in> set (own_keys (pr_parsed r))) \<and> \<not> agreed rs k
           then [conflict_of rs k] else [])"
proof -
  let ?none = "\<lparr>cs_fields = [], cs_consensus = []\<rparr>"
  have key: "(\<exists>r \<in> set rs. k \<in> set (own_keys (pr_parsed r))) \<longleftrightarrow> k \<in> set (parsed_keys rs)" by (auto simp: parsed_keys_def)
  have some: "\<forall>k \<in> set (parsed_keys rs). holders rs k \<noteq> []" using holders_some by blast
  have cs: "cs = fold (compare_key rs) (parsed_keys rs) ?none"
    using detect_many[of results] assms by (simp add: Let_def)
  note all = compare_all[OF some cs]
  have d: "distinct (parsed_keys rs)" by (simp add: parsed_keys_def)
  show "jget (cs_consensus cs) k = (if (\<exists>r \<in> set rs. k \<in> set (own_keys (pr_parsed r))) \<and> agreed rs k
           then Some (snd (hd (holders rs k))) else None)" unfolding key all(2) by simp
  show "filter (\<lambda>f. cf_field f = k) (cs_fields cs) = (if (\<exists>r \<in> set rs. k \<in> set (own_keys (pr_parsed r))) \<and> \<not> agreed rs k
           then [conflict_of rs k] else [])" unfolding key all(1) by (simp add: filter_field[OF d])
qed

lemma key_consensus:
  assumes "rs = parsed_results (filter result_ok results)" and "2 \<le> length rs"
  shows "jget (cs_consensus (detect_conflicts results (Some ''parsed''))) k
    = (if (\<exists>r \<in> set rs. k \<in> set (own_keys (pr_parsed r))) \<and> agreed rs k then Some (snd (hd (holders rs k))) else None)"
  unfolding detected(1)[OF assms] by simp

text \<open>
  When at least two agents gave a parsed object, detection is exact: a field is in the consensus,
  with the first holder's value, exactly when some object has it and all that have it agree on its
  JSON; it is listed as a conflict, once, with every holder and its value, exactly when some object
  has it and two that have it disagree.
\<close>

theorem conflicts_exact:
  assumes "rs = parsed_results (filter result_ok results)" and "2 \<le> length rs"
    and "cs = detect_conflicts results (Some ''parsed'')"
  shows "jget (cs_consensus cs) k = (if (\<exists>r \<in> set rs. k \<in> set (own_keys (pr_parsed r))) \<and> agreed rs k
           then Some (snd (hd (holders rs k))) else None)
    \<and> filter (\<lambda>f. cf_field f = k) (cs_fields cs) = (if (\<exists>r \<in> set rs. k \<in> set (own_keys (pr_parsed r))) \<and> \<not> agreed rs k
           then [\<lparr>cf_field = k, cf_values = map snd (holders rs k), cf_agents = map fst (holders rs k)\<rparr>] else [])"
  using detected[OF assms(1,2), of k] by (simp add: assms(3) conflict_of_def)

definition parsed_as :: "string \<Rightarrow> (string \<times> jsval) list \<Rightarrow> agent_result" where
  "parsed_as k m = \<lparr>pr_agent = k, pr_content = None, pr_parsed = JObj m, pr_error = None\<rparr>"

theorem conflicts_exact_witness:
  "jget (cs_consensus (detect_conflicts
     [parsed_as ''a'' [(''x'', JNum 1), (''y'', JNum 2)], parsed_as ''b'' [(''x'', JNum 1), (''y'', JNum 3)]] (Some ''parsed''))) ''x'' = Some (JNum 1)"
proof -
  let ?rs = "[parsed_as ''a'' [(''x'', JNum 1), (''y'', JNum 2)], parsed_as ''b'' [(''x'', JNum 1), (''y'', JNum 3)]]"
  have rs: "?rs = parsed_results (filter result_ok ?rs)"
    by (simp add: parsed_results_def result_ok_def parsed_as_def js_is_object_def)
  have "holders ?rs ''x'' = [(''a'', JNum 1), (''b'', JNum 1)]"
    by (simp add: holders_def has_prop_def parsed_as_def jhas_def js_get_def)
  moreover have "\<exists>r \<in> set ?rs. ''x'' \<in> set (own_keys (pr_parsed r))" by (simp add: own_keys_def parsed_as_def jkeys_def)
  ultimately show ?thesis using conflicts_exact[OF rs _ refl, of "''x''"] by (simp add: agreed_def)
qed


section \<open>The union\<close>

lemma add_missing_get:
  "jget (add_missing v m) k = (case jget m k of Some x \<Rightarrow> Some x
     | None \<Rightarrow> if k \<in> set (own_keys v) then Some (js_get v k) else None)"
proof -
  have "jget (fold (\<lambda>k m. if jhas m k then m else jset k (js_get v k) m) ks m) k
      = (case jget m k of Some x \<Rightarrow> Some x | None \<Rightarrow> if k \<in> set ks then Some (js_get v k) else None)" for ks
    by (induction ks arbitrary: m) (auto simp: jhas_def split: option.split)
  then show ?thesis by (simp add: add_missing_def)
qed

lemma union_get:
  "jget (fold (\<lambda>r. add_missing (pr_parsed r)) rs m) k = (case jget m k of Some x \<Rightarrow> Some x
     | None \<Rightarrow> (case filter (\<lambda>r. k \<in> set (own_keys (pr_parsed r))) rs of [] \<Rightarrow> None | r # _ \<Rightarrow> Some (js_get (pr_parsed r) k)))"
  by (induction rs arbitrary: m) (auto simp: add_missing_get split: option.split)

lemma own_key_object: "v = JObj m \<Longrightarrow> k \<in> set (own_keys v) \<longleftrightarrow> has_prop v k"
  by (simp add: own_keys_def has_prop_def jkeys_def jhas_def map_of_eq_None_iff)

text \<open>
  The union of parsed objects, with the conflicts detected among them, loses no field and makes
  none up: a property of the reconciled object is a property of one of the objects, with the first
  holder's value.
\<close>

theorem union_complete:
  assumes "rs = parsed_results (filter result_ok results)" and "2 \<le> length rs" and "\<forall>r \<in> set rs. \<exists>m. pr_parsed r = JObj m"
  shows "\<exists>m. apply_reconcile_policy (build_parallel_envelope sources results) MergeUnion
       (Some (detect_conflicts results (Some ''parsed''))) = JObj m
     \<and> jget m k = (case holders rs k of [] \<Rightarrow> None | h # _ \<Rightarrow> Some (snd h))"
proof -
  let ?cs = "detect_conflicts results (Some ''parsed'')"
  have rs: "rs \<noteq> []" using assms(2) by auto
  have ok: "filter result_ok results \<noteq> []"
  proof
    assume "filter result_ok results = []"
    then have "rs = []" unfolding assms(1) by (simp only: parsed_results_def filter.simps)
    with rs show False by contradiction
  qed
  have run: "apply_reconcile_policy (build_parallel_envelope sources results) MergeUnion (Some ?cs)
      = JObj (fold (\<lambda>r. add_missing (pr_parsed r)) rs (cs_consensus ?cs))"
    using ok rs by (simp add: apply_reconcile_policy_def Let_def build_parallel_envelope_def apply_merge_union_def assms(1)[symmetric])
  have own: "filter (\<lambda>r. k \<in> set (own_keys (pr_parsed r))) rs = filter (\<lambda>r. has_prop (pr_parsed r) k) rs"
    using assms(3) own_key_object by (intro filter_cong) auto
  have held: "(\<exists>r \<in> set rs. k \<in> set (own_keys (pr_parsed r))) \<longleftrightarrow> holders rs k \<noteq> []"
    unfolding holders_def map_is_Nil_conv own[symmetric] by (simp add: filter_empty_conv)
  have cons: "jget (cs_consensus ?cs) k = (if holders rs k \<noteq> [] \<and> agreed rs k then Some (snd (hd (holders rs k))) else None)"
    using held key_consensus[OF assms(1,2)] by simp
  show ?thesis unfolding run
    by (rule exI, rule conjI[OF refl]) (auto simp: union_get cons own holders_def split: list.split)
qed

theorem union_complete_witness:
  "\<exists>m. apply_reconcile_policy (build_parallel_envelope [] [parsed_as ''a'' [(''x'', JNum 1)], parsed_as ''b'' [(''x'', JNum 2), (''y'', JNull)]])
       MergeUnion (Some (detect_conflicts [parsed_as ''a'' [(''x'', JNum 1)], parsed_as ''b'' [(''x'', JNum 2), (''y'', JNull)]] (Some ''parsed''))) = JObj m
     \<and> jget m ''y'' = Some JNull"
proof -
  let ?rs = "[parsed_as ''a'' [(''x'', JNum 1)], parsed_as ''b'' [(''x'', JNum 2), (''y'', JNull)]]"
  have rs: "?rs = parsed_results (filter result_ok ?rs)"
    by (simp add: parsed_results_def result_ok_def parsed_as_def js_is_object_def)
  have "holders ?rs ''y'' = [(''b'', JNull)]" by (simp add: holders_def has_prop_def parsed_as_def jhas_def js_get_def)
  then show ?thesis using union_complete[OF rs, of "[]" "''y''"] by (simp add: parsed_as_def)
qed


section \<open>Where the majority goes wrong\<close>

text \<open>
  With parsed values and no conflict the majority policy looks at the contents again instead of the
  consensus: agents that all give the same object, without a content of their own, reconcile to null.
\<close>

theorem agreement_reconciles_to_null:
  assumes "cs_fields (detect_conflicts results (Some ''parsed'')) = []" and "\<forall>r \<in> set results. pr_content r = None"
  shows "apply_reconcile_policy (build_parallel_envelope sources results) MajorityVote
       (Some (detect_conflicts results (Some ''parsed''))) = JNull"
proof -
  have none: "content_votes vs = []" if "\<forall>v \<in> set vs. v = None" for vs
    using that by (induction vs) (simp_all add: content_votes_def)
  have "content_votes (map pr_content (filter result_ok results)) = []" by (rule none) (use assms(2) in auto)
  with assms(1) show ?thesis
    by (simp add: apply_reconcile_policy_def Let_def build_parallel_envelope_def apply_majority_vote_def content_majority_def)
qed

lemma agreement_lost_in_node:
  "js_get (reconcile_execute (\<lambda>_. []) [''a'', ''b''] MajorityVote True
     [(''a'', JObj [(''x'', JNum 1)]), (''b'', JObj [(''x'', JNum 1)])]) ''reconciled'' = JNull"
  by code_simp

text \<open>A majority of null values loses against any other first value.\<close>

lemma null_majority_overruled:
  "pick_majority \<lparr>cf_field = ''x'', cf_values = [JNum 1, JNull, JNull], cf_agents = [''a'', ''b'', ''c'']\<rparr> = JNum 1"
  by code_simp


section \<open>The bound on reviews\<close>

lemma critic_rounds_bounded:
  assumes "critic_rounds m critic retry used v = (r, w, n)" and "used \<le> max 0 (m + 1)" and "0 \<le> used"
  shows "gr_verdict r \<noteq> CgRework \<and> used \<le> n \<and> n \<le> max 0 (m + 1) \<and> (used \<le> m \<longrightarrow> used < n)
    \<and> (gr_verdict r = CgPass \<longleftrightarrow> used < n \<and> gr_verdict (critic w (n - 1)) = CgPass)"
  using assms
proof (induction m critic retry used v rule: critic_rounds.induct)
  case (1 m critic retry used v)
  show ?case
  proof (cases "used \<le> m")
    case False
    with 1(2) show ?thesis by (subst (asm) critic_rounds.simps) (use 1(3) in \<open>auto simp: gate_fail_def\<close>)
  next
    case True
    consider "gr_verdict (critic v used) \<noteq> CgRework" | "gr_verdict (critic v used) = CgRework" "m < used + 1"
      | "gr_verdict (critic v used) = CgRework" "\<not> m < used + 1" by blast
    then show ?thesis
    proof cases
      case 1
      with \<open>critic_rounds m critic retry used v = _\<close> True show ?thesis
        by (subst (asm) critic_rounds.simps) (auto simp: Let_def)
    next
      case 2
      with \<open>critic_rounds m critic retry used v = _\<close> True show ?thesis
        by (subst (asm) critic_rounds.simps) (auto simp: Let_def exhausted_def gate_fail_def)
    next
      case 3
      let ?w = "retry (case gr_rework (critic v used) of Some i \<Rightarrow> i | None \<Rightarrow> []) (used + 1)"
      have "critic_rounds m critic retry (used + 1) ?w = (r, w, n)"
        using "1.prems"(1) True 3 by (subst (asm) critic_rounds.simps) (auto simp: Let_def)
      from "1.IH"[OF True refl _ 3(2) this] 3 "1.prems" True show ?thesis by auto
    qed
  qed
qed

text \<open>
  C10. The critic's gate ends: the critic is asked at most once more than \<open>max_rounds\<close>, its gate never
  answers rework, and it passes a value exactly when the critic's last review passed that value.
\<close>

theorem critic_gate_bounded:
  "case run_critic_gate v critic retry max_rounds of (r, w, n) \<Rightarrow>
     gr_verdict r \<noteq> CgRework \<and> 0 \<le> n \<and> n \<le> max 0 (max_rounds + 1)
     \<and> (gr_verdict r = CgPass \<longleftrightarrow> 0 < n \<and> gr_verdict (critic w (n - 1)) = CgPass)"
proof -
  obtain r w n where "run_critic_gate v critic retry max_rounds = (r, w, n)" by (cases "run_critic_gate v critic retry max_rounds")
  with critic_rounds_bounded[of max_rounds critic retry 0 v r w n] show ?thesis by (simp add: run_critic_gate_def)
qed


lemma rounds_counted:
  assumes "js_get (fst (critic_gate_execute eval json n mem)) ''verdict'' = JStr ''rework''"
  shows "prev_rounds n (snd (critic_gate_execute eval json n mem)) = prev_rounds n mem + 1
    \<and> prev_rounds n mem + 1 \<le> (case cg_max n of Some m \<Rightarrow> m | None \<Rightarrow> 2)"
proof -
  let ?r = "critic_judgement eval json n mem" and ?max = "case cg_max n of Some m \<Rightarrow> m | None \<Rightarrow> (2::int)"
  have v: "gr_verdict ?r = CgRework"
    using assms by (auto simp: critic_gate_execute_def Let_def js_get_def verdict_name_def split: critic_verdict.splits)
  then have "prev_rounds n mem + 1 \<le> ?max"
    by (auto simp: critic_judgement_def Let_def default_max_rounds_def exhausted_def gate_fail_def not_less split: if_splits option.splits)
  with v show ?thesis by (simp add: critic_gate_execute_def Let_def prev_rounds_def memory_at_def)
qed

text \<open>
  Executed again and again from a memory without its counter, with whatever happens to the rest
  of the memory in between, a critic node asks for at most \<open>max_rounds\<close> reworks in a row.
\<close>

theorem critic_node_reworks_bounded:
  assumes "prev_rounds n (mem 0) = 0"
    and "\<forall>i < k. js_get (fst (critic_gate_execute eval json n (mem i))) ''verdict'' = JStr ''rework''"
    and "\<forall>i < k. memory_at (mem (Suc i)) (rounds_key n) = memory_at (snd (critic_gate_execute eval json n (mem i))) (rounds_key n)"
    and "0 < k"
  shows "int k \<le> (case cg_max n of Some m \<Rightarrow> m | None \<Rightarrow> 2)"
proof -
  have count: "i \<le> k \<Longrightarrow> prev_rounds n (mem i) = int i" for i
  proof (induction i)
    case 0
    then show ?case using assms(1) by simp
  next
    case (Suc i)
    then have lt: "i < k" by simp
    have "prev_rounds n (mem (Suc i)) = prev_rounds n (snd (critic_gate_execute eval json n (mem i)))"
      using assms(3) lt by (simp add: prev_rounds_def)
    with rounds_counted[OF assms(2)[rule_format, OF lt]] Suc show ?case by simp
  qed
  obtain j where "k = Suc j" using assms(4) by (cases k) auto
  with rounds_counted[OF assms(2)[rule_format, of j]] count[of j] show ?thesis by simp
qed

definition demo_critic_node :: critic_node where
  "demo_critic_node = \<lparr>cg_id = ''c'', cg_source = ''a'', cg_condition = ''v'', cg_max = Some 1, cg_rework = None\<rparr>"

theorem critic_node_reworks_bounded_witness:
  "js_get (fst (critic_gate_execute (\<lambda>_ _. Inr (JStr ''rework'')) (\<lambda>_. []) demo_critic_node [])) ''verdict'' = JStr ''rework''
   \<and> int 1 \<le> (case cg_max demo_critic_node of Some m \<Rightarrow> m | None \<Rightarrow> 2)"
proof -
  let ?ex = "critic_gate_execute (\<lambda>_ _. Inr (JStr ''rework'')) (\<lambda>_. []) demo_critic_node"
  define mem where "mem i = (if i = 0 then [] else snd (?ex []))" for i :: nat
  have a: "js_get (fst (?ex [])) ''verdict'' = JStr ''rework''" by code_simp
  have b: "prev_rounds demo_critic_node (mem 0) = 0" by (simp add: mem_def prev_rounds_def memory_at_def)
  have c: "\<forall>i < 1. js_get (fst (?ex (mem i))) ''verdict'' = JStr ''rework''" using a by (simp add: mem_def)
  have d: "\<forall>i < 1. memory_at (mem (Suc i)) (rounds_key demo_critic_node) = memory_at (snd (?ex (mem i))) (rounds_key demo_critic_node)"
    by (simp add: mem_def)
  from critic_node_reworks_bounded[OF b c d] a show ?thesis by simp
qed


section \<open>The summary\<close>

lemma conflict_fields_value:
  "js_get (conflicts_value cs) ''fields'' = JArr (map (\<lambda>f. JObj [(''field'', JStr (cf_field f)), (''values'', JArr (cf_values f)),
     (''agent_ids'', JArr (map JStr (cf_agents f)))]) (cs_fields cs))"
  by (simp add: conflicts_value_def js_get_def)

lemma reconcile_output:
  "js_get (reconcile_execute str sources policy use_parsed mem) ''policy_applied'' = JStr (policy_name policy)"
  "js_get (reconcile_execute str sources policy use_parsed mem) ''succeeded''
     = JNum (of_nat (length (filter result_ok (map (collect_result str use_parsed mem) sources))))"
  "js_get (reconcile_execute str sources policy use_parsed mem) ''failed''
     = JNum (of_nat (length (filter (\<lambda>r. \<not> result_ok r) (map (collect_result str use_parsed mem) sources))))"
  "js_get (js_get (reconcile_execute str sources policy use_parsed mem) ''conflicts'') ''fields''
     = js_get (conflicts_value (detect_conflicts (map (collect_result str use_parsed mem) sources)
         (if use_parsed then Some ''parsed'' else None))) ''fields''"
  "js_is_object (reconcile_execute str sources policy use_parsed mem)"
  "has_prop (reconcile_execute str sources policy use_parsed mem) ''policy_applied''"
  by (simp_all add: reconcile_execute_def Let_def js_get_def js_is_object_def has_prop_def jhas_def build_parallel_envelope_def)

text \<open>
  The read model reports the reconcile node: with its output in the memory the model has an entry
  for the node whose successes and failures add up to its sources, and whose conflicts are the
  fields detection listed; it counts as a failure exactly when a source failed.
\<close>

theorem read_model_reports:
  assumes "\<not> ends_with ''__rounds_used'' k"
    and "(k, reconcile_execute str sources policy use_parsed mem) \<in> set mem'"
  shows "\<exists>s \<in> set (rm_reconciles (extract_reconcile_read_model str' num mem')).
    rs_node s = k \<and> rs_policy s = policy_name policy \<and> rs_succeeded s + rs_failed s = of_nat (length sources)
    \<and> rs_conflicts s = length (cs_fields (detect_conflicts (map (collect_result str use_parsed mem) sources)
         (if use_parsed then Some ''parsed'' else None)))
    \<and> rs_conflicts s \<le> rm_conflicts (extract_reconcile_read_model str' num mem')
    \<and> ((\<exists>r \<in> set sources. \<not> result_ok (collect_result str use_parsed mem r)) \<longrightarrow> rm_failures (extract_reconcile_read_model str' num mem'))"
proof -
  let ?out = "reconcile_execute str sources policy use_parsed mem" and ?rs = "map (collect_result str use_parsed mem) sources"
  let ?s = "hd (reconcile_summary_of str' num (k, ?out))" and ?model = "extract_reconcile_read_model str' num mem'"
  have s: "reconcile_summary_of str' num (k, ?out) = [?s]"
    using assms(1) by (simp add: reconcile_summary_of_def reconcile_output)
  have val: "rs_node ?s = k" "rs_policy ?s = policy_name policy"
    "rs_succeeded ?s = of_nat (length (filter result_ok ?rs))" "rs_failed ?s = of_nat (length (filter (\<lambda>r. \<not> result_ok r) ?rs))"
    "rs_conflicts ?s = length (cs_fields (detect_conflicts ?rs (if use_parsed then Some ''parsed'' else None)))"
    using assms(1) by (simp_all add: reconcile_summary_of_def reconcile_output text_of_def number_of_def conflict_fields_value)
  have mem: "?s \<in> set (rm_reconciles ?model)"
  proof -
    have "?s \<in> set (reconcile_summary_of str' num (k, ?out))" by (subst s) simp
    with assms(2) show ?thesis by (auto simp: extract_reconcile_read_model_def Let_def)
  qed
  have "rs_succeeded ?s + rs_failed ?s = of_nat (length ?rs)"
    unfolding val of_nat_add[symmetric] by (simp only: sum_length_filter_compl)
  moreover have "rs_conflicts ?s \<le> rm_conflicts ?model"
    using member_le_sum_list[of "rs_conflicts ?s" "map rs_conflicts (rm_reconciles ?model)"] mem
    by (simp add: extract_reconcile_read_model_def Let_def del: set_concat)
  moreover have "rm_failures ?model" if "\<exists>r \<in> set sources. \<not> result_ok (collect_result str use_parsed mem r)"
  proof -
    from that have "filter (\<lambda>r. \<not> result_ok r) ?rs \<noteq> []" by (auto simp: filter_empty_conv)
    then have "0 < rs_failed ?s" unfolding val of_nat_0_less_iff length_greater_0_conv .
    with mem show ?thesis by (auto simp: extract_reconcile_read_model_def Let_def)
  qed
  ultimately show ?thesis using mem val by (intro bexI[of _ ?s]) auto
qed

theorem read_model_reports_witness:
  "rm_failures (extract_reconcile_read_model (\<lambda>_. []) (\<lambda>_. 0)
     [(''r'', reconcile_execute (\<lambda>_. []) [''a''] FirstWins False [])])"
proof -
  have "\<not> ends_with ''__rounds_used'' ''r''" by code_simp
  from read_model_reports[OF this, of "\<lambda>_. []" "[''a'']" FirstWins False "[]" "[(''r'', reconcile_execute (\<lambda>_. []) [''a''] FirstWins False [])]" "\<lambda>_. []" "\<lambda>_. 0"]
  show ?thesis by (auto simp: collect_result_def memory_at_def result_ok_def Let_def)
qed

end
