(* ===== verification/GuardsCorrect.thy ===== *)
theory GuardsCorrect
  imports Guards ReconcileCorrect
begin

text \<open>
  What the guards promise: a confirmed task passes once, with the text that was asked about; the
  reuse decision is the best fresh match; a run executes no more tools than its budget; and a
  truncated result fits its limit. A session whose messages carry no time counts as fresh throughout.
\<close>

section \<open>Confirmation\<close>

text \<open>
  C18. A guarded task waits and then passes once: what is stored while the guard is enabled is given
  back by a yes within the time to live, nothing is pending after it, the next check of that chat
  passes, and the one after that asks again.
\<close>

theorem confirmation_passes_once:
  assumes "gd_enabled g" and "provider \<noteq> []" and "chat_id \<noteq> []" and "now' - now \<le> gd_ttl g"
    and "str_lower (str_trim answer) \<in> set guard_yes"
  shows "let g1 = guard_store now provider chat_id original summary ModeTask cats g;
      g2 = snd (guard_try_resolve now' provider chat_id answer g1);
      g3 = snd (needs_confirmation ModeTask cats provider chat_id g2)
    in fst (has_pending now' provider chat_id g1)
    \<and> fst (guard_try_resolve now' provider chat_id answer g1) = Some (GuardConfirmed original)
    \<and> \<not> fst (has_pending now'' provider chat_id g2)
    \<and> \<not> fst (needs_confirmation ModeTask cats provider chat_id g2)
    \<and> fst (needs_confirmation ModeTask cats provider chat_id g3)"
proof -
  let ?k = "chat_key provider chat_id" and ?g1 = "guard_store now provider chat_id original summary ModeTask cats g"
  let ?g2 = "snd (guard_try_resolve now' provider chat_id answer ?g1)"
  have "\<exists>e. jget (gd_pending ?g1) ?k = Some e \<and> pc_text e = original \<and> pc_created e = now"
    and g1: "gd_ttl ?g1 = gd_ttl g" "gd_enabled ?g1"
    using assms(1) by (simp_all add: guard_store_def Let_def guard_prune_expired_def)
  then obtain e where e: "jget (gd_pending ?g1) ?k = Some e" "pc_text e = original" "pc_created e = now" by blast
  have t: "\<not> gd_ttl g < now' - now" using assms(4) by simp
  have res: "guard_try_resolve now' provider chat_id answer ?g1 = (Some (GuardConfirmed original),
      ?g1\<lparr>gd_pending := jdel ?k (gd_pending ?g1), gd_skip := (if ?k \<in> set (gd_skip ?g1) then gd_skip ?g1 else gd_skip ?g1 @ [?k])\<rparr>)"
    using assms(5) t e g1(1) by (simp add: guard_try_resolve_def Let_def)
  have g2: "gd_enabled ?g2" "?k \<in> set (gd_skip ?g2)" "jget (gd_pending ?g2) ?k = None" unfolding res using g1(2) by simp_all
  then have n: "needs_confirmation ModeTask cats provider chat_id ?g2 = (False, ?g2\<lparr>gd_skip := filter (\<lambda>k. k \<noteq> ?k) (gd_skip ?g2)\<rparr>)"
    using assms(2,3) by (simp add: needs_confirmation_def)
  then have "fst (needs_confirmation ModeTask cats provider chat_id (snd (needs_confirmation ModeTask cats provider chat_id ?g2)))"
    using g2(1) assms(2,3) by (simp add: needs_confirmation_def)
  moreover have "fst (has_pending now' provider chat_id ?g1)" using e t g1 by (simp add: has_pending_def)
  moreover have "\<not> fst (has_pending now'' provider chat_id ?g2)" using g2(3) by (simp add: has_pending_def)
  ultimately show ?thesis using n unfolding Let_def by (simp only: res fst_conv simp_thms)
qed

theorem confirmation_passes_once_witness:
  "fst (guard_try_resolve 10 ''slack'' ''c'' '' Yes '' (guard_store 0 ''slack'' ''c'' ''deploy'' ''s'' ModeTask [] (confirmation_guard_new (Some True) None)))
     = Some (GuardConfirmed ''deploy'')"
proof -
  have "gd_enabled (confirmation_guard_new (Some True) None)" "(10::int) - 0 \<le> gd_ttl (confirmation_guard_new (Some True) None)"
    by (simp_all add: confirmation_guard_new_def)
  moreover have "str_lower (str_trim '' Yes '') \<in> set guard_yes" by code_simp
  ultimately show ?thesis using confirmation_passes_once[of "confirmation_guard_new (Some True) None" "''slack''" "''c''" 10 0 "'' Yes ''"] by (simp add: Let_def)
qed


section \<open>Reuse\<close>

definition reuse_matches :: "string \<Rightarrow> rat \<Rightarrow> past_query \<Rightarrow> bool" where
  "reuse_matches n threshold q \<longleftrightarrow> threshold \<le> compute_similarity n (pq_normalized q)"

text \<open>A match at least as good as every other: more similar, or as similar and not older.\<close>

definition best_match :: "rat \<Rightarrow> string \<Rightarrow> rat \<Rightarrow> past_query list \<Rightarrow> past_query \<Rightarrow> bool" where
  "best_match now n threshold qs q \<longleftrightarrow> q \<in> set qs \<and> reuse_matches n threshold q
     \<and> (\<forall>p \<in> set qs. reuse_matches n threshold p \<longrightarrow>
          compute_similarity n (pq_normalized p) < compute_similarity n (pq_normalized q)
          \<or> compute_similarity n (pq_normalized p) = compute_similarity n (pq_normalized q) \<and> now - pq_at q \<le> now - pq_at p)"

lemma better_match_fold:
  "(case fold (better_match now n threshold) qs None of
      None \<Rightarrow> \<forall>q \<in> set qs. \<not> reuse_matches n threshold q
    | Some b \<Rightarrow> \<exists>q. best_match now n threshold qs q \<and> b = (pq_normalized q, now - pq_at q, compute_similarity n (pq_normalized q)))"
proof (induction qs rule: rev_induct)
  case Nil
  then show ?case by simp
next
  case (snoc q qs)
  let ?best = "fold (better_match now n threshold) qs None"
  have run: "fold (better_match now n threshold) (qs @ [q]) None = better_match now n threshold q ?best" by simp
  show ?case
  proof (cases "reuse_matches n threshold q")
    case False
    then have "better_match now n threshold q ?best = ?best" by (simp add: better_match_def reuse_matches_def Let_def)
    with snoc False show ?thesis unfolding run by (fastforce simp: best_match_def split: option.splits)
  next
    case True
    then have sim: "\<not> compute_similarity n (pq_normalized q) < threshold" by (simp add: reuse_matches_def)
    show ?thesis
    proof (cases ?best)
      case None
      with snoc have "\<forall>p \<in> set qs. \<not> reuse_matches n threshold p" by simp
      with True None sim show ?thesis unfolding run
        by (auto simp: better_match_def Let_def best_match_def)
    next
      case (Some b)
      with snoc obtain p where p: "best_match now n threshold qs p"
          "b = (pq_normalized p, now - pq_at p, compute_similarity n (pq_normalized p))" by auto
      let ?s = "\<lambda>q. compute_similarity n (pq_normalized q)"
      show ?thesis
      proof (cases "?s p < ?s q \<or> (?s q = ?s p \<and> now - pq_at q < now - pq_at p)")
        case True
        with Some p sim have "better_match now n threshold q ?best = Some (pq_normalized q, now - pq_at q, ?s q)"
          by (auto simp: better_match_def Let_def)
        moreover have "best_match now n threshold (qs @ [q]) q"
          using p(1) True \<open>reuse_matches n threshold q\<close> unfolding best_match_def by fastforce
        ultimately show ?thesis unfolding run by auto
      next
        case False
        with Some p sim have "better_match now n threshold q ?best = Some b"
          by (auto simp: better_match_def Let_def)
        moreover have "best_match now n threshold (qs @ [q]) p"
          using p(1) False unfolding best_match_def by fastforce
        ultimately show ?thesis unfolding run using p(2) by auto
      qed
    qed
  qed
qed

text \<open>
  The reuse decision: a search is new exactly when the question has no words, resembles one that
  failed, or resembles none that was answered; otherwise the most similar, then youngest, answered
  question decides: a summary is reused when it is the same question and fresh, the topic when it is
  fresh, and a stale one is tried again.
\<close>

theorem reuse_decision_spec:
  "let n = nq query; recent = se_recent evidence;
       fresh = (\<lambda>q. 0 < freshness \<and> now - pq_at q \<le> freshness);
       same = (\<lambda>q. 999 / 1000 \<le> compute_similarity n (pq_normalized q))
   in (if n = [] \<or> (\<exists>q \<in> set (se_failed evidence). reuse_matches n threshold q) \<or> \<not> (\<exists>q \<in> set recent. reuse_matches n threshold q)
       then evaluate_reuse nq query evidence now freshness threshold = NewSearch
       else \<exists>q. best_match now n threshold recent q
         \<and> evaluate_reuse nq query evidence now freshness threshold =
             (if same q \<and> fresh q then ReuseSummary (pq_normalized q) (now - pq_at q)
              else if fresh q then SameTopic (pq_normalized q) (now - pq_at q)
              else StaleRetry (pq_normalized q) (now - pq_at q)))"
proof -
  let ?n = "nq query" and ?fold = "fold (better_match now (nq query) threshold) (se_recent evidence) None"
  have ev: "evaluate_reuse nq query evidence now freshness threshold =
     (if ?n = [] \<or> (\<exists>q \<in> set (se_failed evidence). reuse_matches ?n threshold q) then NewSearch
      else case ?fold of None \<Rightarrow> NewSearch
        | Some (m, age, sim) \<Rightarrow>
            if 999 / 1000 \<le> sim \<and> 0 < freshness \<and> age \<le> freshness then ReuseSummary m age
            else if 0 < freshness \<and> age \<le> freshness then SameTopic m age else StaleRetry m age)"
    unfolding evaluate_reuse_def Let_def reuse_matches_def by simp
  note f = better_match_fold[where now = now and n = ?n and threshold = threshold and qs = "se_recent evidence"]
  show ?thesis
  proof (cases ?fold)
    case None
    with f have "\<not> (\<exists>q \<in> set (se_recent evidence). reuse_matches ?n threshold q)" by simp
    then show ?thesis unfolding Let_def ev None by simp
  next
    case (Some b)
    with f obtain q where q: "best_match now ?n threshold (se_recent evidence) q"
        "b = (pq_normalized q, now - pq_at q, compute_similarity ?n (pq_normalized q))" by auto
    then have "\<exists>q \<in> set (se_recent evidence). reuse_matches ?n threshold q" by (auto simp: best_match_def)
    with q show ?thesis unfolding Let_def ev Some by auto
  qed
qed

text \<open>
  Session histories reach the dispatcher without times, and then every past question is given a time
  inside the window: nothing the session remembers is ever stale.
\<close>

lemma synthetic_fresh:
  assumes "\<forall>e \<in> set h. he_at e = None" and "1 \<le> window"
    and "q \<in> set (se_recent (build_session_evidence nq h now window)) \<union> set (se_failed (build_session_evidence nq h now window))"
  shows "now - pq_at q \<le> window"
proof -
  let ?past = "past_indices h"
  let ?step = "if 1 < length ?past then window / of_nat (length ?past) else 0"
  have "\<exists>p \<in> set (zip [0..<length ?past] ?past). q = past_query_at nq h (now - window) ?step p"
    using assms(2,3) by (auto simp: build_session_evidence_def Let_def max_def)
  then obtain n i where p: "(n, i) \<in> set (zip [0..<length ?past] ?past)" "q = past_query_at nq h (now - window) ?step (n, i)" by auto
  have "i \<in> set ?past" using p(1) by (rule set_zip_rightD)
  then have "i < length h" unfolding past_indices_def by (auto dest: in_set_butlastD)
  then have "he_at (h ! i) = None" using assms(1) by simp
  moreover have "0 \<le> of_nat n * ?step" using assms(2) by simp
  ultimately show ?thesis using p(2) by (simp add: past_query_at_def)
qed

theorem session_never_stale:
  assumes "\<forall>e \<in> set h. he_at e = None" and "1 \<le> window"
  shows "evaluate_reuse nq query (build_session_evidence nq h now window) now window threshold \<noteq> StaleRetry m age"
proof -
  let ?ev = "build_session_evidence nq h now window"
  have "now - pq_at q \<le> window" if "best_match now n threshold (se_recent ?ev) q" for n q
    using synthetic_fresh[OF assms, of q nq now] that by (auto simp: best_match_def)
  then show ?thesis
    using reuse_decision_spec[of nq query ?ev window now threshold] assms(2) by (fastforce simp: Let_def split: if_splits)
qed


section \<open>Budgets\<close>

lemma emit_result_keeps:
  "emit_result d now tc r e h = (p, h') \<Longrightarrow>
     hx_budget h' = hx_budget h \<and> hx_count h' = hx_count h \<and> hx_outputs h' = hx_outputs h"
  by (auto simp: emit_result_def Let_def flush_stream_def split: prod.splits if_splits option.splits)

lemma handle_call_effect:
  "length (hx_outputs (handle_call str d now tc h)) = Suc (length (hx_outputs h))
   \<and> hx_count (handle_call str d now tc h) = (if over_budget h then hx_count h else Suc (hx_count h))
   \<and> hx_budget (handle_call str d now tc h) = (if over_budget h then hx_budget h
        else map_option (\<lambda>b. b\<lparr>bt_used := bt_used b + 1\<rparr>) (hx_budget h))"
proof (cases "over_budget h")
  case True
  then show ?thesis by (simp add: handle_call_def add_output_def)
next
  case False
  let ?args = "case te_args tc of Some a \<Rightarrow> a | None \<Rightarrow> []"
  let ?h1 = "if te_name tc = ''request_file'' then h\<lparr>hx_file := True\<rparr> else h"
  let ?h2 = "if te_name tc = ''message'' \<and> is_done_phase str ?args then ?h1\<lparr>hx_suppress := True, hx_done := True\<rparr> else ?h1"
  let ?h3 = "if hd_on_event d then ?h2\<lparr>hx_events := hx_events ?h2 @ [ToolUse (te_name tc) ?args]\<rparr> else ?h2"
  have keep: "hx_budget ?h3 = hx_budget h" "hx_count ?h3 = hx_count h" "hx_outputs ?h3 = hx_outputs h" by simp_all
  show ?thesis
  proof (cases "hd_execute d (hx_count ?h3) (te_name tc) ?args")
    case (Inl err)
    obtain q h4 where e: "emit_result d now tc err True (count_call ?h3) = (q, h4)" by fastforce
    have "handle_call str d now tc h = add_output (''[tool:'' @ te_name tc @ ''] error: '' @ err) h4"
      unfolding handle_call_def Let_def if_not_P[OF False] Inl sum.case e prod.case ..
    with emit_result_keeps[OF e] keep False show ?thesis by (simp add: add_output_def count_call_def)
  next
    case (Inr result)
    obtain q h4 where e: "emit_result d now tc result False (count_call ?h3) = (q, h4)" by fastforce
    have "handle_call str d now tc h = add_output (''[tool:'' @ te_name tc @ ''] '' @ q) h4"
      unfolding handle_call_def Let_def if_not_P[OF False] Inr sum.case e prod.case ..
    with emit_result_keeps[OF e] keep False show ?thesis by (simp add: add_output_def count_call_def)
  qed
qed

text \<open>
  A run keeps to its budget over all its rounds: with a positive limit of which \<open>used\<close> is used,
  the calls of a round execute exactly as many tools as are left, the count of executed calls grows
  by the same number, and every call, executed or skipped, has its line.
\<close>

theorem tool_calls_within_budget:
  assumes "hx_budget h = Some \<lparr>bt_max = mx, bt_used = used\<rparr>" and "0 < mx" and "used \<le> mx"
    and "handle_calls str d now calls h = (text, h')"
  shows "hx_budget h' = Some \<lparr>bt_max = mx, bt_used = min mx (used + int (length calls))\<rparr>
    \<and> int (hx_count h') = int (hx_count h) + (min mx (used + int (length calls)) - used)
    \<and> length (hx_outputs h') = length calls"
proof -
  have *: "hx_budget (fold (handle_call str d now) calls g) = Some \<lparr>bt_max = mx, bt_used = min mx (u + int (length calls))\<rparr>
      \<and> int (hx_count (fold (handle_call str d now) calls g)) = int (hx_count g) + (min mx (u + int (length calls)) - u)
      \<and> length (hx_outputs (fold (handle_call str d now) calls g)) = length (hx_outputs g) + length calls"
    if "hx_budget g = Some \<lparr>bt_max = mx, bt_used = u\<rparr>" "u \<le> mx" for g u
    using that
  proof (induction calls arbitrary: g u)
    case Nil
    then show ?case by simp
  next
    case (Cons tc calls)
    let ?g = "handle_call str d now tc g"
    note eff = handle_call_effect[of str d now tc g]
    have over: "over_budget g \<longleftrightarrow> u = mx" using Cons.prems assms(2) by (auto simp: over_budget_def is_over_budget_def)
    show ?case
    proof (cases "u = mx")
      case True
      with eff over Cons.prems have "hx_budget ?g = Some \<lparr>bt_max = mx, bt_used = mx\<rparr>" "hx_count ?g = hx_count g"
          "length (hx_outputs ?g) = Suc (length (hx_outputs g))" by auto
      with Cons.IH[of ?g mx] True show ?thesis by simp
    next
      case False
      with eff over Cons.prems have g: "hx_budget ?g = Some \<lparr>bt_max = mx, bt_used = u + 1\<rparr>" "hx_count ?g = Suc (hx_count g)"
          "length (hx_outputs ?g) = Suc (length (hx_outputs g))" by auto
      have "u + 1 \<le> mx" using False Cons.prems(2) by simp
      from Cons.IH[OF g(1) this] g show ?thesis by (simp add: add.assoc)
    qed
  qed
  have "h' = fold (handle_call str d now) calls (h\<lparr>hx_outputs := []\<rparr>)" using assms(4) by (simp add: handle_calls_def Let_def)
  with *[of "h\<lparr>hx_outputs := []\<rparr>" used] assms(1,3) show ?thesis by simp
qed

definition demo_deps :: handler_deps where
  "demo_deps = \<lparr>hd_execute = (\<lambda>_ _ _. Inr ''ok''), hd_reduce = None, hd_label = (\<lambda>n _. n), hd_block = (\<lambda>l d _. l @ d),
     hd_max_chars = 100, hd_on_event = False, hd_on_log = False, hd_on_block = True, hd_on_stream = False\<rparr>"

definition demo_handler :: handler_state where
  "demo_handler = \<lparr>hx_outputs = [], hx_suppress = False, hx_file = False, hx_done = False, hx_count = 0,
     hx_budget = Some (create_budget_tracker 1), hx_events = [], hx_logs = [], hx_blocks = [], hx_buffer = stream_buffer_new, hx_sent = []\<rparr>"

theorem tool_calls_within_budget_witness:
  "hx_count (snd (handle_calls (\<lambda>_. []) demo_deps 0 [\<lparr>te_name = ''t'', te_args = None\<rparr>, \<lparr>te_name = ''t'', te_args = None\<rparr>] demo_handler)) = 1"
proof -
  let ?calls = "[\<lparr>te_name = ''t'', te_args = None\<rparr>, \<lparr>te_name = ''t'', te_args = None\<rparr>]"
  have "hx_budget demo_handler = Some \<lparr>bt_max = 1, bt_used = 0\<rparr>" by (simp add: demo_handler_def create_budget_tracker_def)
  from tool_calls_within_budget[OF this _ _ prod.collapse[symmetric], of "\<lambda>_. []" demo_deps 0 ?calls]
  show ?thesis by (simp add: demo_handler_def)
qed


section \<open>Truncation\<close>

lemma nat_text_length: "n < 10 ^ Suc k \<Longrightarrow> length (nat_text n) \<le> Suc k"
proof (induction k arbitrary: n)
  case 0
  then show ?case by (simp add: nat_text.simps[of n])
next
  case (Suc k)
  show ?case
  proof (cases "n < 10")
    case True
    then show ?thesis by (simp add: nat_text.simps[of n])
  next
    case False
    have "n div 10 < 10 ^ Suc k" using Suc.prems by (simp add: div_less_iff_less_mult mult.commute)
    from Suc.IH[OF this] False show ?thesis by (simp add: nat_text.simps[of n])
  qed
qed

text \<open>
  A truncated tool result fits: up to ten trillion characters and more it is at most as long as the
  limit, and never shorter than it must be; a result that fits is left as it is, and what is kept is
  the beginning and the end.
\<close>

theorem truncated_fits:
  assumes "length r < 10 ^ 14"
  shows "length (truncate_tool_result r m) \<le> nat (max 100 m)
    \<and> (length r \<le> nat (max 100 m) \<longrightarrow> truncate_tool_result r m = r)
    \<and> starts_with (take 30 r) (truncate_tool_result r m)
    \<and> ends_with (drop (length r - 30) r) (truncate_tool_result r m)"
proof -
  define limit where "limit = nat (max 100 m)"
  have limit: "100 \<le> limit" by (simp add: limit_def)
  show ?thesis
  proof (cases "length r \<le> limit")
    case True
    then have "truncate_tool_result r m = r" by (simp add: truncate_tool_result_def Let_def limit_def)
    moreover have "starts_with (take 30 r) r" by (metis append_take_drop_id starts_with_iff)
    moreover have "ends_with (drop (length r - 30) r) r"
      by (metis append_take_drop_id ends_with_def rev_append starts_with_iff)
    ultimately show ?thesis using True by (simp add: limit_def)
  next
    case False
    let ?half = "(limit - 40) div 2" and ?n = "nat_text (length r - limit)"
    let ?mid = "CHR 0x0A # ''...[truncated '' @ ?n @ '' chars]...'' @ [CHR 0x0A]"
    have t: "truncate_tool_result r m = take ?half r @ ?mid @ drop (length r - ?half) r"
      using False by (simp add: truncate_tool_result_def Let_def limit_def)
    have half: "30 \<le> ?half" "2 * ?half + 40 \<le> limit" using limit by auto
    have "length r - limit < 10 ^ Suc 13" using assms by simp
    then have n: "length ?n \<le> 14" using nat_text_length[of "length r - limit" 13] by simp
    have len: "length (truncate_tool_result r m) \<le> limit" unfolding t using half False n by simp
    have "take ?half r = take 30 r @ take (?half - 30) (drop 30 r)" using half(1) by (metis le_add_diff_inverse take_add)
    then have a: "starts_with (take 30 r) (truncate_tool_result r m)" unfolding t starts_with_iff by auto
    have "(?half - 30) + (length r - ?half) = length r - 30" using half False by linarith
    then have "drop (?half - 30) (drop (length r - ?half) r) = drop (length r - 30) r" by (simp only: drop_drop)
    then have "drop (length r - ?half) r = take (?half - 30) (drop (length r - ?half) r) @ drop (length r - 30) r"
      by (metis append_take_drop_id)
    then have b: "ends_with (drop (length r - 30) r) (truncate_tool_result r m)"
      unfolding t ends_with_def starts_with_iff by (metis append.assoc rev_append)
    show ?thesis using len a b False by (simp add: limit_def)
  qed
qed

theorem truncated_fits_witness:
  "length (truncate_tool_result (replicate 200 CHR ''x'') 0) \<le> 100"
  using truncated_fits[of "replicate 200 CHR ''x''" 0] by simp

end
