(* ===== verification/Dispatcher.thy ===== *)
theory Dispatcher
  imports GuardsCorrect Gateway
begin

text \<open>
  \<open>src/src/orchestration/execution/execute-dispatcher.ts\<close>: what happens to a request between the
  gateway's decision and its result, with \<open>direct-executor.ts\<close> (tools run without a model) and
  \<open>completion-checker.ts\<close> (the questions appended for reviewers).

  The runners (once, agent and task loop, workflow) are an argument: what the \<open>n\<close>-th of them answers
  or throws, and what it does to the process tracker. So are tool selection, the texts shown to the
  user and the skills. Texts in Korean are given by their bytes.
\<close>

section \<open>Questions for a reviewer\<close>

definition dynamic_rules :: "(string list \<times> string) list" where
  "dynamic_rules =
     [([''write_file'', ''edit_file'', ''create_file''],
       utf8 [235, 179, 128, 234, 178, 189, 235, 144, 156, 32, 237, 140, 140, 236, 157, 188, 236, 157, 152, 32, 235,
       130, 180, 236, 154, 169, 236, 157, 180, 32, 236, 157, 152, 235, 143, 132, 236, 153, 128, 32, 236, 157, 188, 236,
       185, 152, 237, 149, 152, 235, 130, 152, 236, 154, 148, 63]),
      ([''exec'', ''bash'', ''shell'', ''run_command''],
       utf8 [236, 139, 164, 237, 150, 137, 32, 234, 178, 176, 234, 179, 188, 236, 151, 144, 32, 236, 151, 144, 235,
       159, 172, 234, 176, 128, 32, 236, 151, 134, 236, 151, 136, 235, 130, 152, 236, 154, 148, 63]),
      ([''web_search'', ''web_fetch'', ''search''],
       utf8 [234, 178, 128, 236, 131, 137, 32, 234, 178, 176, 234, 179, 188, 236, 157, 152, 32, 236, 182, 156, 236,
       178, 152, 234, 176, 128, 32, 236, 139, 160, 235, 162, 176, 237, 149, 160, 32, 236, 136, 152, 32, 236, 158, 136,
       235, 130, 152, 236, 154, 148, 63]),
      ([''oauth_fetch'', ''secret_read''],
       utf8 [235, 175, 188, 234, 176, 144, 237, 149, 156, 32, 236, 160, 149, 235, 179, 180, 234, 176, 128, 32, 235,
       133, 184, 236, 182, 156, 235, 144, 152, 236, 167, 128, 32, 236, 149, 138, 236, 149, 152, 235, 130, 152, 236,
       154, 148, 63])]"

definition heavy_task_question :: string where
  "heavy_task_question =
       utf8 [236, 181, 156, 236, 162, 133, 32, 234, 178, 176, 234, 179, 188, 235, 172, 188, 236, 157, 132, 32, 236,
       160, 132, 236, 178, 180, 236, 160, 129, 236, 156, 188, 235, 161, 156, 32, 234, 178, 128, 237, 134, 160, 237,
       150, 136, 235, 130, 152, 236, 154, 148, 63]"

record skill_info =
  sk_always :: bool
  sk_checks :: "string list option"

definition add_question :: "string \<Rightarrow> string list \<Rightarrow> string list" where
  "add_question q qs = (if 5 \<le> length qs \<or> q \<in> set qs then qs else qs @ [q])"

definition generate_completion_checks :: "string list \<Rightarrow> skill_info list \<Rightarrow> int \<Rightarrow> bool \<Rightarrow> string list" where
  "generate_completion_checks tools_used skills calls has_role = (if \<not> has_role then [] else
     let checks = concat (map (\<lambda>s. if sk_always s then [] else (case sk_checks s of Some cs \<Rightarrow> cs | None \<Rightarrow> [])) skills);
         qs = fold add_question (filter (\<lambda>c. str_trim c \<noteq> []) checks) [];
         used = map str_lower tools_used;
         rules = filter (\<lambda>r. \<exists>t \<in> set (fst r). t \<in> set used) dynamic_rules;
         qs = fold (\<lambda>r. add_question (snd r)) rules qs
     in if 10 < calls then add_question heavy_task_question qs else qs)"

definition checklist_header :: string where
  "checklist_header =
       utf8 [240, 159, 147, 139, 32, 42, 42, 236, 153, 132, 235, 163, 140, 32, 236, 178, 180, 237, 129, 172, 235, 166,
       172, 236, 138, 164, 237, 138, 184, 42, 42]"

definition format_follow_up :: "string list \<Rightarrow> string" where
  "format_follow_up questions = (if questions = [] then []
     else str_join [CHR 0x0A] ([checklist_header, []] @ map (\<lambda>q. ''- [ ] '' @ q) questions))"


section \<open>Tools without a model\<close>

definition default_direct_allowed :: "string list" where
  "default_direct_allowed = [''datetime'', ''task_query'', ''read_file'', ''list_dir'', ''search_files'', ''memory'']"

definition create_direct_executor :: "string list option \<Rightarrow> string list" where
  "create_direct_executor allowed = (case allowed of Some xs \<Rightarrow> xs | None \<Rightarrow> default_direct_allowed)"

text \<open>The output, or the error.\<close>

definition direct_execute :: "string list \<Rightarrow> (string \<Rightarrow> 'a option \<Rightarrow> string + string) \<Rightarrow> string \<Rightarrow> 'a option \<Rightarrow> string + string" where
  "direct_execute allowed execute_tool tool args =
     (if tool \<notin> set allowed then Inl (''tool '' @ CHR 0x27 # tool @ CHR 0x27 # '' is not allowed in direct mode'')
      else execute_tool tool args)"


section \<open>The dispatcher\<close>

record outcome = orchestration_result +
  oc_calls :: int
  oc_stop :: "string option"
  oc_builtin :: "(string \<times> string option) option"
  oc_skills :: "string list option"

datatype run_call = CallOnce string bool | CallLoop exec_mode string | CallPhase "string option" "string list option"

record dispatch_state =
  dp_tracker :: process_tracker
  dp_guard :: "confirmation_guard option"
  dp_events :: "(string \<times> string) list"
  dp_calls :: "run_call list"

record 'a dispatch_deps =
  dd_identity :: string
  dd_direct :: "string list option"
  dd_execute_tool :: "(string \<Rightarrow> 'a option \<Rightarrow> string + string) option"
  dd_freshness :: "rat option"
  dd_executor :: string
  dd_caps :: provider_capabilities
  dd_gateway :: bool
  dd_tracked :: bool
  dd_tokens :: "string \<Rightarrow> string"
  dd_categories :: "exec_mode \<Rightarrow> string list option \<Rightarrow> string list"
  dd_prepare :: "exec_mode \<Rightarrow> string option"
  dd_summary :: "string + string"
  dd_prompt :: "string \<Rightarrow> exec_mode \<Rightarrow> string list \<Rightarrow> string"
  dd_reuse_reply :: "reuse_decision \<Rightarrow> string"
  dd_skill :: "string \<Rightarrow> skill_info option"
  dd_run :: "nat \<Rightarrow> run_call \<Rightarrow> process_tracker \<Rightarrow> (string + outcome) \<times> process_tracker"

record dispatch_request =
  dq_provider :: string
  dq_chat :: string
  dq_alias :: string
  dq_task :: string
  dq_history :: "session_entry list"
  dq_run_id :: "string option"
  dq_preferred :: "string option"

definition log_event :: "string \<Rightarrow> string \<Rightarrow> dispatch_state \<Rightarrow> dispatch_state" where
  "log_event phase summary s = s\<lparr>dp_events := dp_events s @ [(phase, summary)]\<rparr>"

text \<open>An operation of the tracker on the request's run.\<close>

definition track :: "'a dispatch_deps \<Rightarrow> dispatch_request \<Rightarrow> (string \<Rightarrow> process_tracker \<Rightarrow> process_tracker) \<Rightarrow> dispatch_state \<Rightarrow> dispatch_state" where
  "track d req f s = (case dq_run_id req of None \<Rightarrow> s
     | Some k \<Rightarrow> if k = [] \<or> \<not> dd_tracked d then s else s\<lparr>dp_tracker := f k (dp_tracker s)\<rparr>)"

definition plain_outcome :: "string option \<Rightarrow> outcome" where
  "plain_outcome reply = \<lparr>or_reply = reply, or_error = None, or_suppress_reply = None, or_mode = ModeOnce, or_usage = None,
     or_tools_used = None, or_streamed = False, oc_calls = 0, oc_stop = None, oc_builtin = None, oc_skills = None\<rparr>"

definition error_result :: "exec_mode \<Rightarrow> string \<Rightarrow> outcome" where
  "error_result mode err = (plain_outcome None)\<lparr>or_error := Some err, or_mode := mode\<rparr>"

definition text_set :: "string option \<Rightarrow> bool" where
  "text_set x \<longleftrightarrow> x \<noteq> None \<and> x \<noteq> Some []"

definition mode_name :: "exec_mode \<Rightarrow> string" where
  "mode_name m = (case m of ModeOnce \<Rightarrow> ''once'' | ModeAgent \<Rightarrow> ''agent'' | ModeTask \<Rightarrow> ''task'' | ModePhase \<Rightarrow> ''phase'')"

definition validation_roles :: "string list" where
  "validation_roles = [''validator'', ''reviewer'']"

definition follow_up_of :: "'a dispatch_deps \<Rightarrow> outcome \<Rightarrow> string" where
  "follow_up_of d r = format_follow_up (generate_completion_checks
     (case or_tools_used r of Some ts \<Rightarrow> ts | None \<Rightarrow> [])
     (concat (map (\<lambda>n. case dd_skill d n of Some s \<Rightarrow> [s] | None \<Rightarrow> []) (case oc_skills r of Some ns \<Rightarrow> ns | None \<Rightarrow> [])))
     (oc_calls r) True)"

definition finalize :: "'a dispatch_deps \<Rightarrow> nat \<Rightarrow> dispatch_request \<Rightarrow> outcome \<Rightarrow> dispatch_state \<Rightarrow> outcome \<times> dispatch_state" where
  "finalize d now req r s =
     (let failed = text_set (or_error r); err = (case or_error r of Some e \<Rightarrow> e | None \<Rightarrow> []);
          s = log_event (if failed then ''blocked'' else ''done'')
                (if failed then ''failed: '' @ take 120 err else ''completed: '' @ mode_name (or_mode r)) s;
          s = track d req (\<lambda>k t. tracker_end k (if failed then PsFailed else PsCompleted)
                (if failed then Some err else None) now (set_tool_count k (oc_calls r) t)) s
      in (if text_set (or_reply r) \<and> \<not> failed \<and> dq_alias req \<in> set validation_roles \<and> follow_up_of d r \<noteq> []
          then r\<lparr>or_reply := Some (the (or_reply r) @ [CHR 0x0A, CHR 0x0A] @ follow_up_of d r)\<rparr> else r, s))"


subsection \<open>Running\<close>

definition call_runner :: "'a dispatch_deps \<Rightarrow> run_call \<Rightarrow> dispatch_state \<Rightarrow> (string + outcome) \<times> dispatch_state" where
  "call_runner d c s = (case dd_run d (length (dp_calls s)) c (dp_tracker s) of
     (r, t) \<Rightarrow> (r, s\<lparr>dp_tracker := t, dp_calls := dp_calls s @ [c]\<rparr>))"

definition replied :: "outcome \<Rightarrow> bool" where
  "replied r \<longleftrightarrow> text_set (or_reply r) \<or> or_suppress_reply r = Some True"

fun try_fallbacks :: "'a dispatch_deps \<Rightarrow> exec_mode \<Rightarrow> string \<Rightarrow> string list \<Rightarrow> outcome \<Rightarrow> dispatch_state \<Rightarrow> (string + outcome) \<times> dispatch_state" where
  "try_fallbacks d mode executor [] first s = (Inr first, s)"
| "try_fallbacks d mode executor (fb # fbs) first s =
     (if fb = executor then try_fallbacks d mode executor fbs first s
      else case call_runner d (CallLoop mode fb) s of
          (Inl e, s) \<Rightarrow> (Inl e, s)
        | (Inr r, s) \<Rightarrow> if replied r then (Inr r, s) else try_fallbacks d mode executor fbs first s)"

definition second_choice :: "'a dispatch_deps \<Rightarrow> exec_mode \<Rightarrow> string \<Rightarrow> outcome \<Rightarrow> dispatch_state \<Rightarrow> (string + outcome) \<times> dispatch_state" where
  "second_choice d mode executor first s =
     (let fb = resolve_executor_provider ''chatgpt'' (dd_caps d)
      in if executor = ''claude_code'' \<and> fb \<noteq> executor
         then case call_runner d (CallLoop mode fb) s of
             (Inl e, s) \<Rightarrow> (Inl e, s)
           | (Inr r, s) \<Rightarrow> (Inr (if replied r then r else if text_set (or_error r) then r else r\<lparr>or_error := or_error first\<rparr>), s)
         else (Inr first, s))"

definition run_loops :: "'a dispatch_deps \<Rightarrow> dispatch_request \<Rightarrow> 'a gateway_decision \<Rightarrow> exec_mode \<Rightarrow> string \<Rightarrow> dispatch_state
    \<Rightarrow> (string + outcome) \<times> dispatch_state" where
  "run_loops d req decision mode executor s = (case call_runner d (CallLoop mode executor) s of
       (Inl e, s) \<Rightarrow> (Inl e, s)
     | (Inr first, s) \<Rightarrow>
         if mode = ModeAgent \<and> or_error first = Some ''agent_requires_task_loop''
         then call_runner d (CallLoop ModeTask executor) (track d req (\<lambda>k. set_mode k ModeTask) s)
         else if replied first then (Inr first, s)
         else if dd_gateway d
         then try_fallbacks d mode executor (snd (gateway_route (to_request_plan decision) (dd_caps d) (dd_executor d))) first s
         else second_choice d mode executor first s)"

definition run_modes :: "'a dispatch_deps \<Rightarrow> dispatch_request \<Rightarrow> 'a gateway_decision \<Rightarrow> exec_mode \<Rightarrow> string list option \<Rightarrow> string \<Rightarrow> dispatch_state
    \<Rightarrow> (string + outcome) \<times> dispatch_state" where
  "run_modes d req decision mode cats executor s =
     (if mode \<noteq> ModeOnce then run_loops d req decision mode executor s
      else case call_runner d (CallOnce executor (cats \<noteq> None \<and> cats \<noteq> Some [])) s of
          (Inl e, s) \<Rightarrow> (Inl e, s)
        | (Inr r, s) \<Rightarrow>
            if or_error r = Some ''once_requires_task_loop'' \<or> or_error r = Some ''once_requires_agent_loop''
            then let loop_mode = (if or_error r = Some ''once_requires_task_loop'' then ModeTask else ModeAgent)
                 in run_loops d req decision loop_mode executor (track d req (\<lambda>k. set_mode k loop_mode) s)
            else (Inr r, s))"

definition reuse_outcome :: "'a dispatch_deps \<Rightarrow> rat \<Rightarrow> rat \<Rightarrow> dispatch_request \<Rightarrow> exec_mode \<Rightarrow> (string \<times> outcome) option" where
  "reuse_outcome d now now' req mode =
     (let fw = (case dd_freshness d of Some n \<Rightarrow> n | None \<Rightarrow> 0)
      in if mode = ModePhase \<or> \<not> 0 < fw \<or> length (dq_history req) \<le> 1 then None
         else let ev = build_session_evidence (dd_tokens d) (dq_history req) now fw;
                  reuse = evaluate_reuse (dd_tokens d) (dq_task req) ev now' fw (85 / 100)
              in case reuse of
                   ReuseSummary _ _ \<Rightarrow> Some (''reuse_summary'', (plain_outcome (Some (dd_reuse_reply d reuse)))\<lparr>oc_stop := Some ''session_reuse:reuse_summary''\<rparr>)
                 | SameTopic _ _ \<Rightarrow> Some (''same_topic'', (plain_outcome (Some (dd_reuse_reply d reuse)))\<lparr>oc_stop := Some ''session_reuse:same_topic''\<rparr>)
                 | _ \<Rightarrow> None)"

definition guard_wanted :: "'a dispatch_deps \<Rightarrow> dispatch_request \<Rightarrow> exec_mode \<Rightarrow> string list \<Rightarrow> dispatch_state \<Rightarrow> bool \<times> dispatch_state" where
  "guard_wanted d req mode cats s = (case dp_guard s of None \<Rightarrow> (False, s)
     | Some g \<Rightarrow> (case needs_confirmation mode cats (dq_provider req) (dq_chat req) g of (b, g) \<Rightarrow> (b, s\<lparr>dp_guard := Some g\<rparr>)))"

definition ask_confirmation :: "'a dispatch_deps \<Rightarrow> int \<Rightarrow> dispatch_request \<Rightarrow> exec_mode \<Rightarrow> string list \<Rightarrow> dispatch_state
    \<Rightarrow> (string + outcome) \<times> dispatch_state" where
  "ask_confirmation d now req mode cats s = (case dd_summary d of
       Inl e \<Rightarrow> (Inl e, s)
     | Inr summary \<Rightarrow>
         (Inr (plain_outcome (Some (dd_prompt d summary mode cats))),
          s\<lparr>dp_guard := map_option (guard_store now (dq_provider req) (dq_chat req) (dq_task req) summary mode cats) (dp_guard s)\<rparr>))"

text \<open>
  The result of a runner is finalized; in the workflow mode an exception leaves the dispatcher, and in the other
  modes one from selecting the tools, building the system prompt (\<open>dd_prepare\<close>) or summing up for the guard does.
\<close>

definition execute_mode :: "'a dispatch_deps \<Rightarrow> nat \<Rightarrow> nat \<Rightarrow> dispatch_request \<Rightarrow> 'a gateway_decision \<Rightarrow> exec_mode \<Rightarrow> string
    \<Rightarrow> string option \<Rightarrow> string list option \<Rightarrow> string list option \<Rightarrow> dispatch_state \<Rightarrow> (string + outcome) \<times> dispatch_state" where
  "execute_mode d now now' req decision mode raw_executor hint tools nodes s =
     (case reuse_outcome d (of_nat now) (of_nat now') req mode of
        Some (kind, r) \<Rightarrow> (Inr r, log_event ''done'' (''session_reuse: '' @ kind) s)
      | None \<Rightarrow>
          let executor = (case dq_preferred req of Some e \<Rightarrow> e | None \<Rightarrow> raw_executor)
          in if mode = ModePhase
             then (case call_runner d (CallPhase hint nodes) (log_event ''progress'' ''executing: phase'' s) of
                     (Inl e, s) \<Rightarrow> (Inl e, s)
                   | (Inr r, s) \<Rightarrow> map_prod Inr id (finalize d now' req r s))
             else (case dd_prepare d mode of Some e \<Rightarrow> (Inl e, s)
             | None \<Rightarrow> let cats = dd_categories d mode tools
                  in case guard_wanted d req mode cats s of
                       (True, s) \<Rightarrow> ask_confirmation d (int now') req mode cats s
                     | (False, s) \<Rightarrow>
                         let s = track d req (\<lambda>k t. set_executor k executor (set_mode k mode t)) s;
                             s = log_event ''progress'' (''executing: '' @ mode_name mode) s
                         in case run_modes d req decision mode tools executor s of
                              (r, s) \<Rightarrow> map_prod Inr id (finalize d now' req (case r of Inr r \<Rightarrow> r | Inl e \<Rightarrow> error_result mode e) s)))"

definition direct_outcome :: "string \<Rightarrow> string \<Rightarrow> outcome" where
  "direct_outcome tool output = (plain_outcome (Some output))\<lparr>oc_calls := 1, or_tools_used := Some [tool]\<rparr>"

definition execute_dispatch :: "'a dispatch_deps \<Rightarrow> nat \<Rightarrow> nat \<Rightarrow> dispatch_request \<Rightarrow> 'a gateway_decision \<Rightarrow> dispatch_state
    \<Rightarrow> (string + outcome) \<times> dispatch_state" where
  "execute_dispatch d now now' req decision s = (case decision of
       DIdentity \<Rightarrow> (Inr (plain_outcome (Some (dd_identity d))), log_event ''done'' ''identity shortcircuit'' s)
     | DBuiltin command args \<Rightarrow>
         (Inr ((plain_outcome None)\<lparr>oc_builtin := Some (command, args)\<rparr>), log_event ''done'' (''builtin: '' @ command) s)
     | DInquiry summary \<Rightarrow> (Inr (plain_outcome (Some summary)), log_event ''done'' ''inquiry shortcircuit'' s)
     | DDirectTool tool args \<Rightarrow>
         (case (dd_direct d, dd_execute_tool d) of
            (Some allowed, Some execute_tool) \<Rightarrow>
              (if tool \<in> set allowed
               then (case direct_execute allowed execute_tool tool args of
                   Inr output \<Rightarrow> (Inr (direct_outcome tool output), log_event ''done'' (''direct_tool: '' @ tool) s)
                 | Inl e \<Rightarrow> execute_mode d now now' req decision ModeOnce (resolve_executor_provider (dd_executor d) (dd_caps d)) None None None
                     (log_event ''progress'' ''direct_tool fallback to once'' s))
               else execute_mode d now now' req decision ModeOnce (resolve_executor_provider (dd_executor d) (dd_caps d)) None None None
                      (log_event ''progress'' ''direct_tool fallback to once'' s))
          | _ \<Rightarrow> execute_mode d now now' req decision ModeOnce (resolve_executor_provider (dd_executor d) (dd_caps d)) None None None
                   (log_event ''progress'' ''direct_tool fallback to once'' s))
     | DExecute mode executor hint tools nodes \<Rightarrow> execute_mode d now now' req decision mode executor hint tools nodes s)"

end
