(* ===== verification/DispatcherCorrect.thy ===== *)
theory DispatcherCorrect
  imports Dispatcher
begin

text \<open>
  What a dispatched request costs and leaves behind: at most six runner calls, no two the same, and an
  ended run; a guarded request calls nothing and waits; a confirmed request that the session remembers
  is answered by the reuse guard instead of being run.
\<close>

section \<open>The runner calls\<close>

definition calls_added :: "dispatch_state \<Rightarrow> dispatch_state \<Rightarrow> run_call list \<Rightarrow> bool" where
  "calls_added s s' new \<longleftrightarrow> dp_calls s' = dp_calls s @ new"

lemma calls_trans: "calls_added s s1 a \<Longrightarrow> calls_added s1 s2 b \<Longrightarrow> calls_added s s2 (a @ b)"
  by (simp add: calls_added_def)

lemma call_runner_calls: "call_runner d c s = (r, s') \<Longrightarrow> calls_added s s' [c]"
  by (auto simp: call_runner_def calls_added_def split: prod.splits)

lemma track_calls [simp]: "dp_calls (track d req f s) = dp_calls s"
  by (simp add: track_def split: option.split)

lemma log_calls [simp]: "dp_calls (log_event p t s) = dp_calls s" "dp_tracker (log_event p t s) = dp_tracker s"
  "dp_guard (log_event p t s) = dp_guard s"
  by (simp_all add: log_event_def)

lemma calls_same: "dp_calls s1 = dp_calls s \<Longrightarrow> calls_added s1 s' new = calls_added s s' new"
  by (simp add: calls_added_def)

lemma fallback_calls:
  "try_fallbacks d mode ex fbs first s = (r, s') \<Longrightarrow>
     \<exists>n. calls_added s s' (take n (map (CallLoop mode) (filter (\<lambda>f. f \<noteq> ex) fbs)))"
proof (induction fbs arbitrary: s)
  case Nil
  then show ?case by (simp add: calls_added_def)
next
  case (Cons fb fbs)
  show ?case
  proof (cases "fb = ex")
    case True
    with Cons show ?thesis by simp
  next
    case False
    obtain q s1 where c: "call_runner d (CallLoop mode fb) s = (q, s1)" by fastforce
    note one = call_runner_calls[OF c]
    show ?thesis
    proof (cases "\<exists>x. q = Inr x \<and> \<not> replied x")
      case True
      then obtain x where "q = Inr x" "\<not> replied x" by blast
      with Cons.prems False c have "try_fallbacks d mode ex fbs first s1 = (r, s')" by simp
      from Cons.IH[OF this] obtain n where "calls_added s1 s' (take n (map (CallLoop mode) (filter (\<lambda>f. f \<noteq> ex) fbs)))" by blast
      from calls_trans[OF one this] False show ?thesis by (intro exI[of _ "Suc n"]) simp
    next
      case no: False
      then have "s' = s1" using Cons.prems False c by (cases q) auto
      with one False show ?thesis by (intro exI[of _ 1]) simp
    qed
  qed
qed

lemma chain_facts:
  "distinct (snd (gateway_route plan caps pref)) \<and> length (snd (gateway_route plan caps pref)) \<le> 4"
proof -
  let ?order = "[''chatgpt'', ''claude_code'', ''openrouter'', ''orchestrator_llm'']"
  have "distinct (filter P ?order) \<and> length (filter P ?order) \<le> 4" for P
    using length_filter_le[of P ?order] by (intro conjI distinct_filter) simp_all
  then show ?thesis by (simp add: gateway_route_def Let_def build_fallback_chain_def)
qed

text \<open>The calls of the executor loops: one with the executor first, then each of the others at most once.\<close>

definition loop_calls :: "exec_mode \<Rightarrow> string \<Rightarrow> run_call list \<Rightarrow> bool" where
  "loop_calls mode ex new \<longleftrightarrow> new \<noteq> [] \<and> hd new = CallLoop mode ex \<and> distinct new \<and> length new \<le> 5
     \<and> (\<forall>c \<in> set new. \<exists>m e. c = CallLoop m e)"

lemma run_loops_calls:
  assumes "run_loops d req decision mode ex s = (r, s')"
  shows "\<exists>new. calls_added s s' new \<and> loop_calls mode ex new"
proof -
  obtain q s1 where c: "call_runner d (CallLoop mode ex) s = (q, s1)" by fastforce
  note one = call_runner_calls[OF c]
  have single: "loop_calls mode ex [CallLoop mode ex]" by (simp add: loop_calls_def)
  show ?thesis
  proof (cases q)
    case (Inl e)
    with assms c one single show ?thesis by (auto simp: run_loops_def)
  next
    case (Inr first)
    note run = assms[unfolded run_loops_def c Inr prod.case sum.case]
    show ?thesis
    proof (cases "mode = ModeAgent \<and> or_error first = Some ''agent_requires_task_loop''")
      case True
      with run have "calls_added (track d req (\<lambda>k. set_mode k ModeTask) s1) s' [CallLoop ModeTask ex]"
        by (auto dest: call_runner_calls)
      then have "calls_added s1 s' [CallLoop ModeTask ex]" by (simp add: calls_added_def)
      from calls_trans[OF one this] True show ?thesis
        by (intro exI[of _ "[CallLoop mode ex, CallLoop ModeTask ex]"]) (simp add: loop_calls_def)
    next
      case no: False
      show ?thesis
      proof (cases "replied first")
        case True
        with run no one single show ?thesis by auto
      next
        case nr: False
        show ?thesis
        proof (cases "dd_gateway d")
          case True
          let ?fbs = "snd (gateway_route (to_request_plan decision) (dd_caps d) (dd_executor d))"
          from True run no nr have "try_fallbacks d mode ex ?fbs first s1 = (r, s')" by simp
          from fallback_calls[OF this] obtain n where
            n: "calls_added s1 s' (take n (map (CallLoop mode) (filter (\<lambda>f. f \<noteq> ex) ?fbs)))" by blast
          have "distinct (map (CallLoop mode) (filter (\<lambda>f. f \<noteq> ex) ?fbs))"
            using chain_facts[of "to_request_plan decision" "dd_caps d" "dd_executor d"] by (auto simp: distinct_map inj_on_def)
          moreover have "length (filter (\<lambda>f. f \<noteq> ex) ?fbs) \<le> 4"
            using chain_facts[of "to_request_plan decision" "dd_caps d" "dd_executor d"] length_filter_le le_trans by blast
          ultimately have "loop_calls mode ex ([CallLoop mode ex] @ take n (map (CallLoop mode) (filter (\<lambda>f. f \<noteq> ex) ?fbs)))"
            by (auto simp: loop_calls_def dest!: in_set_takeD)
          with calls_trans[OF one n] show ?thesis by blast
        next
          case False
          with run no nr have sc: "second_choice d mode ex first s1 = (r, s')" by simp
          show ?thesis
          proof (cases "ex = ''claude_code'' \<and> resolve_executor_provider ''chatgpt'' (dd_caps d) \<noteq> ex")
            case True
            let ?fb = "resolve_executor_provider ''chatgpt'' (dd_caps d)"
            from True have ne: "CallLoop mode ex \<noteq> CallLoop mode ?fb" by auto
            obtain q2 s2 where c2: "call_runner d (CallLoop mode ?fb) s1 = (q2, s2)" by fastforce
            then have "s' = s2" using sc True by (cases q2) (auto simp: second_choice_def Let_def)
            with calls_trans[OF one call_runner_calls[OF c2]] ne show ?thesis
              by (intro exI[of _ "[CallLoop mode ex, CallLoop mode ?fb]"]) (simp add: loop_calls_def)
          next
            case False
            with sc have "s' = s1" by (auto simp: second_choice_def Let_def)
            with one single show ?thesis by blast
          qed
        qed
      qed
    qed
  qed
qed

lemma run_modes_calls:
  assumes "run_modes d req decision mode cats ex s = (r, s')"
  shows "\<exists>new. calls_added s s' new \<and> new \<noteq> [] \<and> distinct new \<and> length new \<le> 6"
proof (cases "mode = ModeOnce")
  case False
  with assms have "run_loops d req decision mode ex s = (r, s')" by (simp add: run_modes_def)
  from run_loops_calls[OF this] show ?thesis by (fastforce simp: loop_calls_def)
next
  case True
  let ?c = "CallOnce ex (cats \<noteq> None \<and> cats \<noteq> Some [])"
  obtain q s1 where c: "call_runner d ?c s = (q, s1)" by fastforce
  note one = call_runner_calls[OF c]
  show ?thesis
  proof (cases "\<exists>x. q = Inr x \<and> (or_error x = Some ''once_requires_task_loop'' \<or> or_error x = Some ''once_requires_agent_loop'')")
    case False
    then have "s' = s1" using assms True c by (cases q) (auto simp: run_modes_def)
    with one show ?thesis by auto
  next
    case esc: True
    then obtain x where x: "q = Inr x" "or_error x = Some ''once_requires_task_loop'' \<or> or_error x = Some ''once_requires_agent_loop''" by blast
    let ?m = "if or_error x = Some ''once_requires_task_loop'' then ModeTask else ModeAgent"
    have "run_loops d req decision ?m ex (track d req (\<lambda>k. set_mode k ?m) s1) = (r, s')"
      using assms True c x by (simp add: run_modes_def Let_def split: if_splits)
    from run_loops_calls[OF this] obtain new where new: "calls_added s1 s' new" "loop_calls ?m ex new"
      by (auto simp: calls_added_def)
    have "distinct ([?c] @ new)" "length ([?c] @ new) \<le> 6" using new(2) by (auto simp: loop_calls_def)
    with calls_trans[OF one new(1)] show ?thesis by (metis append_is_Nil_conv list.distinct(1))
  qed
qed


section \<open>The end of a run\<close>

definition run_ended :: "'a dispatch_deps \<Rightarrow> dispatch_request \<Rightarrow> dispatch_state \<Rightarrow> bool" where
  "run_ended d req s \<longleftrightarrow> (case dq_run_id req of None \<Rightarrow> True
     | Some k \<Rightarrow> k = [] \<or> \<not> dd_tracked d \<or> jget (pt_active (dp_tracker s)) k = None)"

lemma finalize_ends: "finalize d now req r s = (r', s') \<Longrightarrow> run_ended d req s' \<and> dp_calls s' = dp_calls s"
proof -
  assume f: "finalize d now req r s = (r', s')"
  have e: "jget (pt_active (tracker_end k st err now t)) k = None" for k st err t
    by (simp add: tracker_end_def Let_def split: option.split)
  have "run_ended d req (track d req (\<lambda>k t. tracker_end k (st k) (er k) now (g k t)) s0)" for st er g s0
    by (simp add: run_ended_def track_def e split: option.split)
  with f show ?thesis by (auto simp: finalize_def Let_def)
qed

text \<open>The requests for which no runner is called.\<close>

definition mode_runs_nothing :: "'a dispatch_deps \<Rightarrow> nat \<Rightarrow> nat \<Rightarrow> dispatch_request \<Rightarrow> exec_mode \<Rightarrow> string list option \<Rightarrow> dispatch_state \<Rightarrow> bool" where
  "mode_runs_nothing d now now' req mode tools s \<longleftrightarrow> reuse_outcome d (of_nat now) (of_nat now') req mode \<noteq> None
     \<or> mode \<noteq> ModePhase \<and> (dd_prepare d mode \<noteq> None \<or> fst (guard_wanted d req mode (dd_categories d mode tools) s))"

definition tool_answers :: "'a dispatch_deps \<Rightarrow> string \<Rightarrow> 'a option \<Rightarrow> bool" where
  "tool_answers d tool args \<longleftrightarrow> (case (dd_direct d, dd_execute_tool d) of
       (Some allowed, Some execute_tool) \<Rightarrow> tool \<in> set allowed \<and> (\<exists>out. direct_execute allowed execute_tool tool args = Inr out)
     | _ \<Rightarrow> False)"

definition runs_nothing :: "'a dispatch_deps \<Rightarrow> nat \<Rightarrow> nat \<Rightarrow> dispatch_request \<Rightarrow> 'a gateway_decision \<Rightarrow> dispatch_state \<Rightarrow> bool" where
  "runs_nothing d now now' req decision s \<longleftrightarrow> (case decision of
       DExecute mode ex hint tools nodes \<Rightarrow> mode_runs_nothing d now now' req mode tools s
     | DDirectTool tool args \<Rightarrow> tool_answers d tool args \<or> mode_runs_nothing d now now' req ModeOnce None s
     | _ \<Rightarrow> True)"

lemma guard_wanted_frame:
  "guard_wanted d req mode cats s = (b, s') \<Longrightarrow> dp_calls s' = dp_calls s \<and> dp_tracker s' = dp_tracker s"
  by (auto simp: guard_wanted_def split: option.splits prod.splits)

lemma execute_mode_outcome:
  assumes "execute_mode d now now' req decision mode raw hint tools nodes s = (res, s')"
  shows "\<exists>new. calls_added s s' new \<and> distinct new \<and> length new \<le> 6 \<and> (new = [] \<longleftrightarrow> mode_runs_nothing d now now' req mode tools s)
    \<and> (if new = [] then dp_tracker s' = dp_tracker s else case res of Inl _ \<Rightarrow> mode = ModePhase | Inr r \<Rightarrow> run_ended d req s')"
proof (cases "reuse_outcome d (of_nat now) (of_nat now') req mode")
  case (Some kr)
  obtain kind r where "kr = (kind, r)" by fastforce
  with Some assms have "dp_calls s' = dp_calls s" "dp_tracker s' = dp_tracker s" by (auto simp: execute_mode_def log_event_def)
  then show ?thesis using Some by (intro exI[of _ "[]"]) (simp add: calls_added_def mode_runs_nothing_def)
next
  case None
  note run = assms[unfolded execute_mode_def None option.case Let_def]
  show ?thesis
  proof (cases "mode = ModePhase")
    case True
    let ?s0 = "log_event ''progress'' ''executing: phase'' s"
    obtain q s1 where c: "call_runner d (CallPhase hint nodes) ?s0 = (q, s1)" by fastforce
    have one: "calls_added s s1 [CallPhase hint nodes]" using call_runner_calls[OF c] by (simp add: calls_added_def)
    have n: "\<not> mode_runs_nothing d now now' req mode tools s" using None True by (simp add: mode_runs_nothing_def)
    show ?thesis
    proof (cases q)
      case (Inl e)
      with run True c one n show ?thesis by (intro exI[of _ "[CallPhase hint nodes]"]) auto
    next
      case (Inr r)
      obtain r2 s2 where f: "finalize d now' req r s1 = (r2, s2)" by fastforce
      with run True c Inr have "res = Inr r2" "s' = s2" by auto
      with finalize_ends[OF f] one n show ?thesis
        by (intro exI[of _ "[CallPhase hint nodes]"]) (simp add: calls_added_def)
    qed
  next
    case phase: False
    show ?thesis
    proof (cases "dd_prepare d mode")
      case (Some e)
      with run phase have "dp_calls s' = dp_calls s" "dp_tracker s' = dp_tracker s" by simp_all
      then show ?thesis using Some phase by (intro exI[of _ "[]"]) (simp add: calls_added_def mode_runs_nothing_def)
    next
      case prepared: None
      obtain b s1 where g: "guard_wanted d req mode (dd_categories d mode tools) s = (b, s1)" by fastforce
      note s1 = guard_wanted_frame[OF g]
      show ?thesis
      proof (cases b)
        case True
        with run phase prepared g have "dp_calls s' = dp_calls s" "dp_tracker s' = dp_tracker s"
          using s1 by (auto simp: ask_confirmation_def split: sum.splits)
        then show ?thesis using True g phase by (intro exI[of _ "[]"]) (simp add: calls_added_def mode_runs_nothing_def)
      next
        case False
        let ?ex = "case dq_preferred req of Some e \<Rightarrow> e | None \<Rightarrow> raw"
        let ?s2 = "log_event ''progress'' (''executing: '' @ mode_name mode) (track d req (\<lambda>k t. set_executor k ?ex (set_mode k mode t)) s1)"
        obtain q s3 where m: "run_modes d req decision mode tools ?ex ?s2 = (q, s3)" by fastforce
        obtain r4 s4 where f: "finalize d now' req (case q of Inr r \<Rightarrow> r | Inl e \<Rightarrow> error_result mode e) s3 = (r4, s4)" by fastforce
        have "res = Inr r4 \<and> s' = s4" using run phase prepared g False m f by simp
        moreover obtain new where "calls_added ?s2 s3 new" "new \<noteq> []" "distinct new" "length new \<le> 6"
          using run_modes_calls[OF m] by blast
        moreover have "\<not> mode_runs_nothing d now now' req mode tools s" using None prepared g False by (simp add: mode_runs_nothing_def)
        ultimately show ?thesis using finalize_ends[OF f] s1 by (intro exI[of _ new]) (simp add: calls_added_def)
      qed
    qed
  qed
qed

text \<open>
  C17. Whatever is decided and whatever the runners answer or throw, dispatching a request makes at most six runner
  calls, no two of them the same. It makes none exactly for an identity, builtin or inquiry answer, an answer of a
  direct tool, a reused answer, a question of the guard and an error before the first call; then the tracker is left as
  it was and the request's run to the caller. When it makes one and returns, the request's run has ended in the
  tracker; it throws after a call only out of a workflow.
\<close>

theorem dispatch_bounded:
  assumes "execute_dispatch d now now' req decision s = (res, s')"
  shows "\<exists>new. dp_calls s' = dp_calls s @ new \<and> distinct new \<and> length new \<le> 6
    \<and> (new = [] \<longleftrightarrow> runs_nothing d now now' req decision s)
    \<and> (if new = [] then dp_tracker s' = dp_tracker s
       else case res of Inl _ \<Rightarrow> (\<exists>ex hint tools nodes. decision = DExecute ModePhase ex hint tools nodes) | Inr r \<Rightarrow> run_ended d req s')"
proof -
  have quick: ?thesis if "dp_calls s' = dp_calls s" "dp_tracker s' = dp_tracker s" "runs_nothing d now now' req decision s"
    using that by (intro exI[of _ "[]"]) simp
  show ?thesis
  proof (cases decision)
    case (DBuiltin c a)
    with assms quick show ?thesis by (auto simp: execute_dispatch_def runs_nothing_def log_event_def)
  next
    case (DInquiry x)
    with assms quick show ?thesis by (auto simp: execute_dispatch_def runs_nothing_def log_event_def)
  next
    case DIdentity
    with assms quick show ?thesis by (auto simp: execute_dispatch_def runs_nothing_def log_event_def)
  next
    case (DExecute m ex hint tools nodes)
    with assms have "execute_mode d now now' req decision m ex hint tools nodes s = (res, s')" by (simp add: execute_dispatch_def)
    from execute_mode_outcome[OF this] show ?thesis
      unfolding runs_nothing_def DExecute gateway_decision.case calls_added_def by (auto split: sum.splits if_splits)
  next
    case (DDirectTool tool args)
    let ?s0 = "log_event ''progress'' ''direct_tool fallback to once'' s"
    let ?fall = "execute_mode d now now' req decision ModeOnce (resolve_executor_provider (dd_executor d) (dd_caps d)) None None None ?s0"
    show ?thesis
    proof (cases "tool_answers d tool args")
      case True
      with assms have "dp_calls s' = dp_calls s" "dp_tracker s' = dp_tracker s"
        by (auto simp: execute_dispatch_def DDirectTool tool_answers_def log_event_def split: option.splits)
      with True quick show ?thesis by (simp add: runs_nothing_def DDirectTool)
    next
      case False
      with assms have "?fall = (res, s')"
        by (auto simp: execute_dispatch_def DDirectTool tool_answers_def split: option.splits if_splits sum.splits)
      from execute_mode_outcome[OF this] obtain new where new: "calls_added ?s0 s' new" "distinct new" "length new \<le> 6"
        "new = [] \<longleftrightarrow> mode_runs_nothing d now now' req ModeOnce None ?s0"
        "if new = [] then dp_tracker s' = dp_tracker ?s0 else case res of Inl _ \<Rightarrow> ModeOnce = ModePhase | Inr r \<Rightarrow> run_ended d req s'"
        by blast
      have "mode_runs_nothing d now now' req ModeOnce None ?s0 = mode_runs_nothing d now now' req ModeOnce None s"
        by (simp add: mode_runs_nothing_def guard_wanted_def log_event_def split: option.split prod.split)
      then have "new = [] \<longleftrightarrow> runs_nothing d now now' req decision s" using new(4) False by (simp add: runs_nothing_def DDirectTool)
      moreover have "dp_calls ?s0 = dp_calls s" "dp_tracker ?s0 = dp_tracker s" by (simp_all add: log_event_def)
      ultimately show ?thesis using new(1,2,3,5)
        by (intro exI[of _ new]) (cases res; cases "new = []"; simp add: calls_added_def)
    qed
  qed
qed

definition demo_dispatch :: "unit dispatch_deps" where
  "demo_dispatch = \<lparr>dd_identity = ''me'', dd_direct = None, dd_execute_tool = None, dd_freshness = Some 300000,
     dd_executor = ''claude_code'',
     dd_caps = \<lparr>chatgpt_available = False, claude_available = True, openrouter_available = False\<rparr>, dd_gateway = False, dd_tracked = True,
     dd_tokens = id, dd_categories = (\<lambda>mode cats. []), dd_prepare = (\<lambda>m. None), dd_summary = Inr ''sum'', dd_prompt = (\<lambda>a mode cats. a),
     dd_reuse_reply = (\<lambda>r. ''again''), dd_skill = (\<lambda>n. None),
     dd_run = (\<lambda>n c t. (if n = 0 then Inl ''down'' else Inr (plain_outcome (Some ''done'')), t))\<rparr>"

definition demo_dispatch_request :: "session_entry list \<Rightarrow> dispatch_request" where
  "demo_dispatch_request h = \<lparr>dq_provider = ''web'', dq_chat = ''c'', dq_alias = ''a'', dq_task = ''deploy'', dq_history = h,
     dq_run_id = Some ''r1'', dq_preferred = None\<rparr>"

definition demo_dispatch_state :: "confirmation_guard option \<Rightarrow> dispatch_state" where
  "demo_dispatch_state g = \<lparr>dp_tracker = tracker_start ''r1'' 0 demo_params (tracker_new None), dp_guard = g, dp_events = [], dp_calls = []\<rparr>"

theorem dispatch_bounded_witness:
  "let decision = DExecute ModeAgent ''claude_code'' None None None; s = demo_dispatch_state None
   in case execute_dispatch demo_dispatch 5 6 (demo_dispatch_request []) decision s of
        (res, s') \<Rightarrow> res = Inr (error_result ModeAgent ''down'') \<and> dp_calls s' = [CallLoop ModeAgent ''claude_code'']
          \<and> distinct (dp_calls s') \<and> run_ended demo_dispatch (demo_dispatch_request []) s'"
proof -
  let ?decision = "DExecute ModeAgent ''claude_code'' None None None" and ?s = "demo_dispatch_state None"
  obtain res s' where run: "execute_dispatch demo_dispatch 5 6 (demo_dispatch_request []) ?decision ?s = (res, s')" by fastforce
  have out: "map_prod id dp_calls (execute_dispatch demo_dispatch 5 6 (demo_dispatch_request []) ?decision ?s)
      = (Inr (error_result ModeAgent ''down''), [CallLoop ModeAgent ''claude_code''])"
    by code_simp
  from run out have "res = Inr (error_result ModeAgent ''down'')" "dp_calls s' = [CallLoop ModeAgent ''claude_code'']" by simp_all
  with dispatch_bounded[OF run] run show ?thesis
    by (auto simp: demo_dispatch_state_def)
qed


section \<open>A guarded request\<close>

text \<open>
  A task for which the guard wants a confirmation is not started: the reply is the prompt, no runner
  is called, and its text waits under its chat until it expires.
\<close>

theorem guarded_request_waits:
  assumes "dp_guard s = Some g" and "gd_enabled g" and "chat_key (dq_provider req) (dq_chat req) \<notin> set (gd_skip g)" and "0 \<le> gd_ttl g"
    and "reuse_outcome d (of_nat now) (of_nat now') req ModeTask = None" and "dd_prepare d ModeTask = None" and "dd_summary d = Inr summary"
    and "execute_dispatch d now now' req (DExecute ModeTask ex hint tools nodes) s = (res, s')"
  shows "\<exists>g' e. res = Inr (plain_outcome (Some (dd_prompt d summary ModeTask (dd_categories d ModeTask tools))))
    \<and> dp_calls s' = dp_calls s \<and> dp_tracker s' = dp_tracker s \<and> dp_guard s' = Some g'
    \<and> jget (gd_pending g') (chat_key (dq_provider req) (dq_chat req)) = Some e \<and> pc_text e = dq_task req
    \<and> fst (has_pending (int now' + gd_ttl g) (dq_provider req) (dq_chat req) g')
    \<and> \<not> fst (has_pending (int now' + gd_ttl g + 1) (dq_provider req) (dq_chat req) g')"
proof -
  have need: "needs_confirmation ModeTask c (dq_provider req) (dq_chat req) g = (True, g)" for c
    using assms(2,3) by (simp add: needs_confirmation_def)
  show ?thesis using assms(8)
    by (auto simp: execute_dispatch_def execute_mode_def assms(1,5,6,7) guard_wanted_def need ask_confirmation_def guard_store_def Let_def
        guard_prune_expired_def has_pending_def)
qed

definition demo_guard :: confirmation_guard where
  "demo_guard = confirmation_guard_new (Some True) None"

theorem guarded_request_waits_witness:
  "let decision = DExecute ModeTask ''claude_code'' None None None
   in fst (execute_dispatch demo_dispatch 5 6 (demo_dispatch_request []) decision (demo_dispatch_state (Some demo_guard)))
      = Inr (plain_outcome (Some ''sum''))"
proof -
  let ?s = "demo_dispatch_state (Some demo_guard)" and ?req = "demo_dispatch_request []"
  obtain res s' where run: "execute_dispatch demo_dispatch 5 6 ?req (DExecute ModeTask ''claude_code'' None None None) ?s = (res, s')" by fastforce
  have g: "dp_guard ?s = Some demo_guard" by (simp add: demo_dispatch_state_def)
  have e: "gd_enabled demo_guard" "chat_key (dq_provider ?req) (dq_chat ?req) \<notin> set (gd_skip demo_guard)" "0 \<le> gd_ttl demo_guard"
    by (simp_all add: demo_guard_def confirmation_guard_new_def)
  have r: "reuse_outcome demo_dispatch (of_nat 5) (of_nat 6) ?req ModeTask = None"
    by (simp add: reuse_outcome_def demo_dispatch_def demo_dispatch_request_def)
  have p: "dd_prepare demo_dispatch ModeTask = None" "dd_summary demo_dispatch = Inr ''sum''" by (simp_all add: demo_dispatch_def)
  from guarded_request_waits[OF g e r p run] run show ?thesis by (auto simp: demo_dispatch_def)
qed


section \<open>A confirmed request\<close>

definition said :: "string \<Rightarrow> string \<Rightarrow> session_entry" where
  "said role content = \<lparr>he_role = role, he_content = content, he_at = None\<rparr>"

lemma similarity_le_1: "compute_similarity a b \<le> 1"
proof -
  let ?a = "query_words a" and ?b = "query_words b"
  let ?common = "filter (\<lambda>w. w \<in> set ?b) ?a"
  have d: "distinct ?a" unfolding query_words_def by (rule distinct_js_set)
  have "length ?common = card (set ?common)" using distinct_card[of ?common] d by (simp only: distinct_filter)
  also have "\<dots> \<le> card (set ?b)" by (rule card_mono) auto
  also have "\<dots> \<le> length ?b" by (rule card_length)
  finally have b: "length ?common \<le> length ?b" .
  have a: "length ?common \<le> length ?a" by simp
  from a b have "length ?common \<le> length ?a + length ?b - length ?common" by linarith
  then have "(of_nat (length ?common) :: rat) \<le> of_nat (length ?a + length ?b - length ?common)" by (simp only: of_nat_le_iff)
  then have "(of_nat (length ?common) :: rat) / of_nat (length ?a + length ?b - length ?common) \<le> 1"
    by (cases "length ?a + length ?b - length ?common = 0") (simp_all add: divide_le_eq)
  then show ?thesis by (simp add: compute_similarity_def Let_def)
qed

definition user_turns :: "session_entry list \<Rightarrow> nat list" where
  "user_turns h = filter (\<lambda>i. he_role (h ! i) = ''user'') [0..<length h]"

lemma asked_again_indices:
  "past_indices (h @ [said ''user'' x, said ''assistant'' prompt, said ''user'' x]) = user_turns h @ [length h]"
proof -
  let ?h = "h @ [said ''user'' x, said ''assistant'' prompt, said ''user'' x]"
  have up: "[0..<length ?h] = [0..<length h] @ [length h, length h + 1, length h + 2]"
    by (simp add: numeral_3_eq_3 numeral_2_eq_2)
  have "filter (\<lambda>i. he_role (?h ! i) = ''user'') [0..<length h] = user_turns h"
    unfolding user_turns_def by (rule filter_cong) (auto simp: nth_append)
  then have "filter (\<lambda>i. he_role (?h ! i) = ''user'') [0..<length ?h] = user_turns h @ [length h, length h + 2]"
    unfolding up by (simp add: nth_append said_def)
  then show ?thesis by (simp add: past_indices_def butlast_append)
qed

lemma asked_again_evidence:
  fixes h x prompt
  defines "h' \<equiv> h @ [said ''user'' x, said ''assistant'' prompt, said ''user'' x]"
  assumes "str_trim prompt \<noteq> []" and "1 \<le> fw"
  shows "\<exists>q \<in> set (se_recent (build_session_evidence nq h' now fw)). pq_normalized q = nq x
    \<and> now - pq_at q = fw - fw * of_nat (length (user_turns h)) / of_nat (length (user_turns h) + 1)"
proof -
  let ?n = "length (user_turns h)"
  let ?past = "user_turns h @ [length h]"
  let ?step = "if 1 < length ?past then fw / of_nat (length ?past) else 0"
  let ?q = "past_query_at nq h' (now - fw) ?step (?n, length h)"
  have "(?n, length h) \<in> set (zip [0..<length ?past] ?past)" by (auto simp: set_zip intro!: exI[of _ ?n] simp: nth_append)
  moreover have "has_successful_response (drop (Suc (length h)) h')" using assms(2) by (simp add: h'_def said_def)
  ultimately have "?q \<in> set (se_recent (build_session_evidence nq h' now fw))"
    using assms(3) unfolding build_session_evidence_def h'_def asked_again_indices Let_def
    by (fastforce simp: max_def)
  moreover have "pq_normalized ?q = nq x" by (simp add: past_query_at_def h'_def nth_append said_def)
  moreover have "now - pq_at ?q = fw - of_nat ?n * ?step"
    by (simp add: past_query_at_def h'_def nth_append said_def)
  moreover have "of_nat ?n * ?step = fw * of_nat ?n / of_nat (?n + 1)" by (cases "user_turns h = []") simp_all
  ultimately show ?thesis by (intro bexI[of _ ?q]) simp_all
qed

text \<open>
  A confirmed task is sent through the dispatcher again with its text asked twice in the history and
  the prompt as the answer of the first time. When nothing like it has failed before and the clock has
  hardly moved, the reuse guard takes the prompt for an answer: the task is not run, and the guard's
  permission stays for whatever is asked next.
\<close>

theorem confirmed_request_reused:
  fixes d :: "'a dispatch_deps" and fw :: rat
  assumes "dq_history req = h @ [said ''user'' x, said ''assistant'' prompt, said ''user'' x]"
    and "dd_tokens d (dq_task req) = dd_tokens d x" and "dd_tokens d x \<noteq> []" and "str_trim prompt \<noteq> []"
    and "dd_freshness d = Some fw" and "1 \<le> fw"
    and "of_nat now' - of_nat now \<le> fw * of_nat (length (user_turns h)) / of_nat (length (user_turns h) + 1)"
    and "\<forall>q \<in> set (se_failed (build_session_evidence (dd_tokens d) (dq_history req) (of_nat now) fw)).
           \<not> reuse_matches (dd_tokens d (dq_task req)) (85 / 100) q"
    and "mode \<noteq> ModePhase"
  shows "\<exists>r. execute_dispatch d now now' req (DExecute mode ex hint tools nodes) s
      = (Inr r, log_event ''done'' ''session_reuse: reuse_summary'' s) \<and> oc_stop r = Some ''session_reuse:reuse_summary''"
proof -
  let ?n = "dd_tokens d (dq_task req)"
  let ?ev = "build_session_evidence (dd_tokens d) (dq_history req) (of_nat now) fw"
  obtain q where q: "q \<in> set (se_recent ?ev)" "pq_normalized q = ?n"
      "of_nat now - pq_at q = fw - fw * of_nat (length (user_turns h)) / of_nat (length (user_turns h) + 1)"
    using asked_again_evidence[OF assms(4,6), where nq = "dd_tokens d" and x = x and now = "of_nat now" and h = h] assms(1,2) by auto
  have one: "compute_similarity ?n (pq_normalized q) = 1" using q(2) by (simp add: compute_similarity_def)
  then have m: "reuse_matches ?n (85 / 100) q" by (simp add: reuse_matches_def)
  have age: "of_nat now' - pq_at q \<le> fw" using q(3) assms(7) by linarith
  from reuse_decision_spec[of "dd_tokens d" "dq_task req" ?ev fw "of_nat now'" "85 / 100", unfolded Let_def] q(1) m assms(2,3,8)
  obtain b where b: "best_match (of_nat now') ?n (85 / 100) (se_recent ?ev) b"
      "evaluate_reuse (dd_tokens d) (dq_task req) ?ev (of_nat now') fw (85 / 100) =
             (if 999 / 1000 \<le> compute_similarity ?n (pq_normalized b) \<and> 0 < fw \<and> of_nat now' - pq_at b \<le> fw
              then ReuseSummary (pq_normalized b) (of_nat now' - pq_at b)
              else if 0 < fw \<and> of_nat now' - pq_at b \<le> fw then SameTopic (pq_normalized b) (of_nat now' - pq_at b)
              else StaleRetry (pq_normalized b) (of_nat now' - pq_at b))"
    by (auto split: if_splits)
  from b(1) q(1) m have "compute_similarity ?n (pq_normalized b) = 1 \<and> of_nat now' - pq_at b \<le> of_nat now' - pq_at q"
    unfolding best_match_def using one similarity_le_1[of ?n "pq_normalized b"] by fastforce
  with b(2) age assms(6) obtain k a where e: "evaluate_reuse (dd_tokens d) (dq_task req) ?ev (of_nat now') fw (85 / 100) = ReuseSummary k a"
    by auto
  have "\<exists>r. reuse_outcome d (of_nat now) (of_nat now') req mode = Some (''reuse_summary'', r) \<and> oc_stop r = Some ''session_reuse:reuse_summary''"
    using assms(1,5,6,9) e by (simp add: reuse_outcome_def Let_def)
  then obtain r where "reuse_outcome d (of_nat now) (of_nat now') req mode = Some (''reuse_summary'', r)" "oc_stop r = Some ''session_reuse:reuse_summary''"
    by blast
  then show ?thesis by (simp add: execute_dispatch_def execute_mode_def)
qed

theorem confirmed_request_reused_witness:
  "let h = [said ''user'' ''deploy'', said ''assistant'' ''sure?'', said ''user'' ''deploy'']; req = demo_dispatch_request h;
       s = demo_dispatch_state (Some (snd (guard_try_resolve 4000 ''web'' ''c'' ''yes'' (guard_store 10 ''web'' ''c'' ''deploy'' ''sum'' ModeTask [] demo_guard))))
   in \<exists>r. execute_dispatch demo_dispatch 4001 4001 req (DExecute ModeTask ''claude_code'' None None None) s
      = (Inr r, log_event ''done'' ''session_reuse: reuse_summary'' s) \<and> oc_stop r = Some ''session_reuse:reuse_summary''"
  unfolding Let_def
proof (rule confirmed_request_reused[where h = "[]" and x = "''deploy''" and prompt = "''sure?''" and fw = 300000])
  let ?h = "[said ''user'' ''deploy'', said ''assistant'' ''sure?'', said ''user'' ''deploy'']"
  have "se_failed (build_session_evidence id ?h 4001 300000) = []" by code_simp
  then show "\<forall>q \<in> set (se_failed (build_session_evidence (dd_tokens demo_dispatch) (dq_history (demo_dispatch_request ?h)) (of_nat 4001) 300000)).
           \<not> reuse_matches (dd_tokens demo_dispatch (dq_task (demo_dispatch_request ?h))) (85 / 100) q"
    by (simp add: demo_dispatch_def demo_dispatch_request_def)
  show "str_trim ''sure?'' \<noteq> []" by code_simp
qed (simp_all add: demo_dispatch_def demo_dispatch_request_def user_turns_def)

end
