(* ===== verification/SchemaRepair.thy ===== *)
theory SchemaRepair
  imports Reconcile
begin

text \<open>
  Structured answers: \<open>src/src/orchestration/schema-validator.ts\<close> checks a value against a schema,
  \<open>schema-repair-loop.ts\<close> asks the model again, a bounded number of times, while its answer has errors.

  A schema is the tree of the keywords the validator reads, each of the type the code takes it to have.
  Regular expressions, \<open>JSON.parse\<close>, \<open>JSON.stringify\<close> of a schema and the text of a number are
  arguments, and so is the model.
\<close>

section \<open>Schemas\<close>

record schema_limits =
  sl_min_items :: "rat option"
  sl_max_items :: "rat option"
  sl_min_length :: "rat option"
  sl_max_length :: "rat option"
  sl_pattern :: "string option"
  sl_enum :: "jsval list option"
  sl_minimum :: "rat option"
  sl_maximum :: "rat option"

datatype schema = Schema
  (sc_type: "string option")
  (sc_required: "string list")
  (sc_properties: "(string \<times> schema) list")
  (sc_items: "schema option")
  (sc_limits: schema_limits)

record schema_error =
  er_path :: string
  er_message :: string

record schema_env =
  sv_num :: "rat \<Rightarrow> string"
  sv_regex :: "string \<Rightarrow> (string \<Rightarrow> bool) option"
  sv_parse :: "string \<Rightarrow> jsval option"
  sv_stringify :: "schema \<Rightarrow> string"

text \<open>The text between code fences, when there are any.\<close>

definition fence :: string where
  "fence = replicate 3 (CHR 0x60)"

definition normalize_json_text :: "string \<Rightarrow> string" where
  "normalize_json_text raw =
     (let trimmed = str_trim raw; rest = drop 3 trimmed
      in if starts_with fence trimmed \<and> ends_with fence rest
         then let body = take (length rest - 3) rest
              in str_trim (if starts_with ''json'' body \<or> starts_with ''JSON'' body then drop 4 body else body)
         else trimmed)"


section \<open>Validation\<close>

definition json_type :: "jsval \<Rightarrow> string" where
  "json_type v = (case v of JUndef \<Rightarrow> ''undefined'' | JNull \<Rightarrow> ''null'' | JBool _ \<Rightarrow> ''boolean'' | JNum _ \<Rightarrow> ''number''
     | JStr _ \<Rightarrow> ''string'' | JArr _ \<Rightarrow> ''array'' | JObj _ \<Rightarrow> ''object'')"

definition is_integer :: "jsval \<Rightarrow> bool" where
  "is_integer v = (case v of JNum n \<Rightarrow> snd (quotient_of n) = 1 | _ \<Rightarrow> False)"

text \<open>\<open>includes\<close>: a parsed object or array is never the same object as one of the schema.\<close>

definition js_includes :: "jsval list \<Rightarrow> jsval \<Rightarrow> bool" where
  "js_includes xs v \<longleftrightarrow> \<not> js_is_object v \<and> v \<in> set xs"

definition error_at :: "string \<Rightarrow> string \<Rightarrow> schema_error" where
  "error_at path message = \<lparr>er_path = path, er_message = message\<rparr>"

text \<open>The expected type, and whether the check ends at its error.\<close>

definition expected_type :: "schema \<Rightarrow> string option" where
  "expected_type s = (case sc_type s of Some [] \<Rightarrow> None | x \<Rightarrow> x)"

definition type_errors :: "jsval \<Rightarrow> schema \<Rightarrow> string \<Rightarrow> bool \<times> schema_error list" where
  "type_errors v s path = (case expected_type s of
       None \<Rightarrow> (False, [])
     | Some t \<Rightarrow>
         let wrong = [error_at path (''expected '' @ t @ '', got '' @ json_type v)]
         in if t = ''integer'' then (False, if is_integer v then [] else wrong)
            else if t = ''null'' then (if v = JNull then (False, []) else (True, wrong))
            else if json_type v = t then (False, []) else (True, wrong))"

text \<open>A limit of 0 is no limit.\<close>

definition too_short :: "rat option \<Rightarrow> nat \<Rightarrow> bool" where
  "too_short limit n = (case limit of None \<Rightarrow> False | Some m \<Rightarrow> m \<noteq> 0 \<and> of_nat n < m)"

definition too_long :: "rat option \<Rightarrow> nat \<Rightarrow> bool" where
  "too_long limit n = (case limit of None \<Rightarrow> False | Some m \<Rightarrow> m \<noteq> 0 \<and> m < of_nat n)"

definition size_errors :: "schema_env \<Rightarrow> string \<Rightarrow> rat option \<Rightarrow> rat option \<Rightarrow> nat \<Rightarrow> string \<Rightarrow> schema_error list" where
  "size_errors e what lo hi n path =
     (if too_short lo n then [error_at path (what @ '' too short (min '' @ sv_num e (the lo) @ '')'')] else [])
     @ (if too_long hi n then [error_at path (what @ '' too long (max '' @ sv_num e (the hi) @ '')'')] else [])"

definition enum_errors :: "schema \<Rightarrow> jsval \<Rightarrow> string \<Rightarrow> schema_error list" where
  "enum_errors s v path = (case sl_enum (sc_limits s) of
       None \<Rightarrow> [] | Some xs \<Rightarrow> if js_includes xs v then [] else [error_at path ''value not in enum''])"

definition pattern_errors :: "schema_env \<Rightarrow> schema \<Rightarrow> string \<Rightarrow> string \<Rightarrow> schema_error list" where
  "pattern_errors e s x path = (case sl_pattern (sc_limits s) of
       None \<Rightarrow> []
     | Some p \<Rightarrow> if p = [] then []
         else (case sv_regex e p of
                 None \<Rightarrow> []
               | Some test \<Rightarrow> if test x then [] else [error_at path (''pattern mismatch: '' @ p)]))"

definition number_errors :: "schema_env \<Rightarrow> schema \<Rightarrow> rat \<Rightarrow> string \<Rightarrow> schema_error list" where
  "number_errors e s x path =
     (case sl_minimum (sc_limits s) of Some m \<Rightarrow> if x < m then [error_at path (''below minimum '' @ sv_num e m)] else [] | None \<Rightarrow> [])
     @ (case sl_maximum (sc_limits s) of Some m \<Rightarrow> if m < x then [error_at path (''above maximum '' @ sv_num e m)] else [] | None \<Rightarrow> [])"

text \<open>What is checked of the value itself, after its parts.\<close>

definition scalar_errors :: "schema_env \<Rightarrow> jsval \<Rightarrow> schema \<Rightarrow> string \<Rightarrow> schema_error list" where
  "scalar_errors e v s path = (case v of
       JStr x \<Rightarrow> size_errors e ''string'' (sl_min_length (sc_limits s)) (sl_max_length (sc_limits s)) (length x) path
                 @ pattern_errors e s x path
     | JNum x \<Rightarrow> number_errors e s x path
     | _ \<Rightarrow> []) @ enum_errors s v path"

definition array_size_errors :: "schema_env \<Rightarrow> nat \<Rightarrow> schema \<Rightarrow> string \<Rightarrow> schema_error list" where
  "array_size_errors e n s path = size_errors e ''array'' (sl_min_items (sc_limits s)) (sl_max_items (sc_limits s)) n path"

definition field_path :: "string \<Rightarrow> string \<Rightarrow> string" where
  "field_path path k = path @ ''.'' @ k"

definition item_path :: "string \<Rightarrow> nat \<Rightarrow> string" where
  "item_path path i = path @ ''['' @ nat_text i @ '']''"

definition missing_errors :: "jsval \<Rightarrow> schema \<Rightarrow> string \<Rightarrow> schema_error list" where
  "missing_errors v s path = map (\<lambda>k. error_at (field_path path k) ''required field missing'') (filter (\<lambda>k. \<not> has_prop v k) (sc_required s))"

lemma size_property: "p \<in> set (sc_properties s) \<Longrightarrow> size (snd p) < size s"
proof (cases s)
  case (Schema a b ps c d)
  assume "p \<in> set (sc_properties s)"
  then have "size (snd p) < size_list (size_prod (\<lambda>_. 0) size) ps"
    using Schema by (intro size_list_estimation[of p]) (auto simp: size_prod_simp)
  with Schema show ?thesis by simp
qed

lemma size_items: "sc_items s = Some t \<Longrightarrow> size t < size s"
  by (cases s) auto

function validate_schema :: "schema_env \<Rightarrow> jsval \<Rightarrow> schema \<Rightarrow> string \<Rightarrow> schema_error list" where
  "validate_schema e v s path = (case type_errors v s path of (stop, errs) \<Rightarrow>
     if stop then errs
     else errs
       @ (case v of JObj m \<Rightarrow> if expected_type s = Some ''object''
              then missing_errors v s path
                @ concat (map (\<lambda>p. if has_prop v (fst p) then validate_schema e (js_get v (fst p)) (snd p) (field_path path (fst p)) else [])
                    (sc_properties s))
              else []
          | JArr xs \<Rightarrow> if expected_type s = Some ''array''
              then (case sc_items s of None \<Rightarrow> []
                    | Some t \<Rightarrow> concat (map (\<lambda>i. validate_schema e (xs ! i) t (item_path path i)) [0..<length xs]))
                @ array_size_errors e (length xs) s path
              else []
          | _ \<Rightarrow> [])
       @ scalar_errors e v s path)"
  by pat_completeness auto

termination
  by (relation "measure (\<lambda>(e, v, s, path). size s)") (auto dest: size_property size_items)

declare validate_schema.simps [simp del]


section \<open>Answers of a model\<close>

definition validate_json_output :: "schema_env \<Rightarrow> string \<Rightarrow> schema \<Rightarrow> (jsval \<times> schema_error list) option" where
  "validate_json_output e raw s =
     (let normalized = normalize_json_text raw
      in if normalized = [] then None
         else map_option (\<lambda>v. (v, validate_schema e v s ''$'')) (sv_parse e normalized))"

definition invalid_json :: "schema_error list" where
  "invalid_json = [error_at ''$'' ''invalid JSON'']"

definition format_repair_prompt :: "schema_env \<Rightarrow> schema_error list \<Rightarrow> schema \<Rightarrow> string" where
  "format_repair_prompt e errors s = str_join [CHR 0x0A]
     [''Your previous JSON output had schema validation errors:'',
      str_join [CHR 0x0A] (map (\<lambda>x. ''- '' @ er_path x @ '': '' @ er_message x) errors),
      [],
      ''Please fix and respond with valid JSON matching this schema:'',
      sv_stringify e s]"

record repair_result =
  rr_content :: string
  rr_parsed :: jsval
  rr_errors :: "schema_error list"
  rr_attempts :: nat

text \<open>The \<open>i\<close>-th question to the model is answered or throws; the fuel is the attempts left.\<close>

fun repair_loop :: "schema_env \<Rightarrow> (nat \<Rightarrow> string \<Rightarrow> string \<Rightarrow> string + string) \<Rightarrow> schema \<Rightarrow> nat \<Rightarrow> nat
    \<Rightarrow> string \<Rightarrow> jsval \<Rightarrow> schema_error list \<Rightarrow> string + repair_result" where
  "repair_loop e retry s i 0 content parsed errors =
     Inr \<lparr>rr_content = content, rr_parsed = parsed, rr_errors = errors, rr_attempts = i\<rparr>"
| "repair_loop e retry s i (Suc n) content parsed errors =
     (case retry i content (format_repair_prompt e errors s) of
        Inl x \<Rightarrow> Inl x
      | Inr answer \<Rightarrow> (case validate_json_output e answer s of
            None \<Rightarrow> repair_loop e retry s (Suc i) n answer JUndef invalid_json
          | Some (v, []) \<Rightarrow> Inr \<lparr>rr_content = answer, rr_parsed = v, rr_errors = [], rr_attempts = Suc i\<rparr>
          | Some (v, errs) \<Rightarrow> repair_loop e retry s (Suc i) n answer v errs))"

definition default_max_repair_attempts :: int where
  "default_max_repair_attempts = 2"

definition run_schema_repair :: "schema_env \<Rightarrow> (nat \<Rightarrow> string \<Rightarrow> string \<Rightarrow> string + string) \<Rightarrow> schema \<Rightarrow> string \<Rightarrow> int option
    \<Rightarrow> string + repair_result" where
  "run_schema_repair e retry s initial max_attempts =
     (let limit = (case max_attempts of Some n \<Rightarrow> n | None \<Rightarrow> default_max_repair_attempts)
      in case validate_json_output e initial s of
           None \<Rightarrow> if limit \<le> 0 then Inr \<lparr>rr_content = initial, rr_parsed = JUndef, rr_errors = invalid_json, rr_attempts = 0\<rparr>
                  else repair_loop e retry s 0 (nat limit) initial JUndef invalid_json
         | Some (v, errs) \<Rightarrow>
             if errs = [] then Inr \<lparr>rr_content = initial, rr_parsed = v, rr_errors = [], rr_attempts = 0\<rparr>
             else if limit \<le> 0 then Inr \<lparr>rr_content = initial, rr_parsed = v, rr_errors = errs, rr_attempts = 0\<rparr>
             else repair_loop e retry s 0 (nat limit) initial JUndef errs)"


section \<open>Values that pass\<close>

lemma valid_type:
  assumes "validate_schema e v s path = []"
  shows "fst (type_errors v s path) = False" "snd (type_errors v s path) = []"
  using assms by (auto simp: validate_schema.simps[of e v s path] type_errors_def Let_def split: option.splits if_splits prod.splits)

lemma valid_parts:
  assumes "validate_schema e v s path = []"
  shows "expected_type s = Some ''object'' \<Longrightarrow> v = JObj m \<Longrightarrow> missing_errors v s path = []"
    and "expected_type s = Some ''object'' \<Longrightarrow> v = JObj m \<Longrightarrow> p \<in> set (sc_properties s) \<Longrightarrow> has_prop v (fst p)
      \<Longrightarrow> validate_schema e (js_get v (fst p)) (snd p) (field_path path (fst p)) = []"
    and "expected_type s = Some ''array'' \<Longrightarrow> v = JArr xs \<Longrightarrow> sc_items s = Some t \<Longrightarrow> i < length xs
      \<Longrightarrow> validate_schema e (xs ! i) t (item_path path i) = []"
proof -
  note all = assms[unfolded validate_schema.simps[of e v s path]]
  have none: "type_errors v s path = (False, [])" using valid_type[OF assms] by (simp add: prod_eq_iff)
  show "missing_errors v s path = []" if "expected_type s = Some ''object''" "v = JObj m"
    using all none that by simp
  show "validate_schema e (js_get v (fst p)) (snd p) (field_path path (fst p)) = []"
    if "expected_type s = Some ''object''" "v = JObj m" "p \<in> set (sc_properties s)" "has_prop v (fst p)"
    using all none that by auto
  show "validate_schema e (xs ! i) t (item_path path i) = []"
    if "expected_type s = Some ''array''" "v = JArr xs" "sc_items s = Some t" "i < length xs"
    using all none that by auto
qed

text \<open>A place in a value: a field of an object or an item of an array.\<close>

datatype place = Field string | Item nat

fun value_at :: "place list \<Rightarrow> jsval \<Rightarrow> jsval option" where
  "value_at [] v = Some v"
| "value_at (Field k # ps) v = (case v of JObj m \<Rightarrow> (if jhas m k then value_at ps (js_get v k) else None) | _ \<Rightarrow> None)"
| "value_at (Item i # ps) v = (case v of JArr xs \<Rightarrow> (if i < length xs then value_at ps (xs ! i) else None) | _ \<Rightarrow> None)"

fun schema_at :: "place list \<Rightarrow> schema \<Rightarrow> schema option" where
  "schema_at [] s = Some s"
| "schema_at (Field k # ps) s = (if expected_type s \<noteq> Some ''object'' then None
     else case map_of (sc_properties s) k of None \<Rightarrow> None | Some t \<Rightarrow> schema_at ps t)"
| "schema_at (Item i # ps) s = (if expected_type s \<noteq> Some ''array'' then None
     else case sc_items s of None \<Rightarrow> None | Some t \<Rightarrow> schema_at ps t)"

definition has_json_type :: "jsval \<Rightarrow> string \<Rightarrow> bool" where
  "has_json_type v t \<longleftrightarrow> (if t = ''integer'' then \<exists>i. v = JNum (of_int i) else json_type v = t)"

lemma valid_has_type:
  assumes "validate_schema e v s path = []" and "expected_type s = Some t"
  shows "has_json_type v t"
proof -
  have "is_integer v \<Longrightarrow> \<exists>i. v = JNum (of_int i)"
  proof (cases v)
    case (JNum n)
    assume "is_integer v"
    then have "snd (quotient_of n) = 1" using JNum by (simp add: is_integer_def)
    then have "n = of_int (fst (quotient_of n))" using quotient_of_div[of n "fst (quotient_of n)" "1"]
      by (metis div_by_1 of_int_1 prod.collapse)
    then show ?thesis using JNum by blast
  qed (simp_all add: is_integer_def)
  then show ?thesis using valid_type[OF assms(1)] assms(2)
    by (auto simp: type_errors_def has_json_type_def Let_def json_type_def split: if_splits)
qed

lemma valid_at:
  assumes "validate_schema e v s path = []" and "schema_at places s = Some t" and "value_at places v = Some w"
  shows "(\<exists>path'. validate_schema e w t path' = []) \<and> (\<forall>ty. expected_type t = Some ty \<longrightarrow> has_json_type w ty)"
  using assms
proof (induction places s arbitrary: v path rule: schema_at.induct)
  case (1 s)
  then show ?case using valid_has_type by auto
next
  case (2 k ps s)
  from 2(3) obtain sub where o: "expected_type s = Some ''object''" and sub: "map_of (sc_properties s) k = Some sub" "schema_at ps sub = Some t"
    by (auto split: if_splits option.splits)
  from 2(4) obtain m where m: "v = JObj m" "jhas m k" "value_at ps (js_get v k) = Some w" by (auto split: jsval.splits if_splits)
  have "validate_schema e (js_get v k) sub (field_path path k) = []"
    using valid_parts(2)[OF 2(2) o m(1), of "(k, sub)"] map_of_SomeD[OF sub(1)] m by (simp add: has_prop_def)
  then show ?case using 2(1)[of sub] o sub m(3) by simp
next
  case (3 i ps s)
  from 3(3) obtain sub where a: "expected_type s = Some ''array''" and sub: "sc_items s = Some sub" "schema_at ps sub = Some t"
    by (auto split: if_splits option.splits)
  from 3(4) obtain xs where x: "v = JArr xs" "i < length xs" "value_at ps (xs ! i) = Some w" by (auto split: jsval.splits if_splits)
  have "validate_schema e (xs ! i) sub (item_path path i) = []" using valid_parts(3)[OF 3(2) a x(1) sub(1) x(2)] .
  then show ?case using 3(1)[of sub] a sub x(3) by simp
qed


text \<open>The fields on the way are required.\<close>

fun required_at :: "place list \<Rightarrow> schema \<Rightarrow> bool" where
  "required_at [] s = True"
| "required_at (Field k # ps) s = (k \<in> set (sc_required s) \<and> (case map_of (sc_properties s) k of None \<Rightarrow> False | Some t \<Rightarrow> required_at ps t))"
| "required_at (Item i # ps) s = False"

lemma required_found:
  assumes "validate_schema e v s path = []" and "schema_at places s = Some t" and "required_at places s"
  shows "value_at places v \<noteq> None"
  using assms
proof (induction places s arbitrary: v path rule: schema_at.induct)
  case (2 k ps s)
  from 2(3) obtain sub where o: "expected_type s = Some ''object''" and sub: "map_of (sc_properties s) k = Some sub" "schema_at ps sub = Some t"
    by (auto split: if_splits option.splits)
  obtain m where m: "v = JObj m"
    using valid_has_type[OF 2(2) o] by (cases v) (auto simp: has_json_type_def json_type_def)
  have k: "jhas m k" using valid_parts(1)[OF 2(2) o m] 2(4) m by (auto simp: missing_errors_def filter_empty_conv has_prop_def)
  have "validate_schema e (js_get v k) sub (field_path path k) = []"
    using valid_parts(2)[OF 2(2) o m, of "(k, sub)"] map_of_SomeD[OF sub(1)] m k by (simp add: has_prop_def)
  then show ?case using 2(1)[of sub] 2(4) o sub m k by simp
qed auto

text \<open>
  C31. What passes the validator is typed like its schema: at every place the schema describes, reached
  through objects and arrays it declares as such, a value is there when the fields on the way are
  required, and the value there, if any, passes the schema of that place and has its declared type.
\<close>

theorem validated_values_typed:
  assumes "validate_schema e v s path = []" and "schema_at places s = Some t"
  shows "(required_at places s \<longrightarrow> value_at places v \<noteq> None)
    \<and> (\<forall>w. value_at places v = Some w \<longrightarrow>
          (\<exists>path'. validate_schema e w t path' = []) \<and> (\<forall>ty. expected_type t = Some ty \<longrightarrow> has_json_type w ty))"
  using required_found[OF assms] valid_at[OF assms] by blast

definition no_limits :: schema_limits where
  "no_limits = \<lparr>sl_min_items = None, sl_max_items = None, sl_min_length = None, sl_max_length = None, sl_pattern = None,
     sl_enum = None, sl_minimum = None, sl_maximum = None\<rparr>"

definition demo_schema :: schema where
  "demo_schema = Schema (Some ''object'') [''score''] [(''score'', Schema (Some ''integer'') [] [] None (no_limits\<lparr>sl_maximum := Some 10\<rparr>))] None no_limits"

definition demo_env :: schema_env where
  "demo_env = \<lparr>sv_num = (\<lambda>n. int_text (fst (quotient_of n))), sv_regex = (\<lambda>p. None),
     sv_parse = (\<lambda>t. if t = ''{'' then None else Some (JObj [(''score'', JNum (of_nat (length t)))])), sv_stringify = (\<lambda>s. ''{}'')\<rparr>"

theorem validated_values_typed_witness:
  "value_at [Field ''score''] (JObj [(''score'', JNum 3)]) = Some (JNum 3) \<and> has_json_type (JNum 3) ''integer''"
proof -
  have v: "validate_schema demo_env (JObj [(''score'', JNum 3)]) demo_schema ''$'' = []" by code_simp
  have s: "schema_at [Field ''score''] demo_schema = Some (Schema (Some ''integer'') [] [] None (no_limits\<lparr>sl_maximum := Some 10\<rparr>))"
    by (simp add: demo_schema_def expected_type_def)
  have r: "value_at [Field ''score''] (JObj [(''score'', JNum 3)]) = Some (JNum 3)" by (simp add: jhas_def js_get_def)
  with validated_values_typed[OF v s] show ?thesis by (auto simp: expected_type_def)
qed


section \<open>Repairs\<close>

text \<open>What an answer is told about itself.\<close>

definition answer_errors :: "schema_env \<Rightarrow> schema \<Rightarrow> string \<Rightarrow> schema_error list" where
  "answer_errors e s c = (case validate_json_output e c s of None \<Rightarrow> invalid_json | Some (_, errs) \<Rightarrow> errs)"

text \<open>The \<open>i\<close>-th answer led to the next: it had errors, and the model was asked with them.\<close>

definition repair_chain :: "schema_env \<Rightarrow> (nat \<Rightarrow> string \<Rightarrow> string \<Rightarrow> string + string) \<Rightarrow> schema \<Rightarrow> nat \<Rightarrow> string list \<Rightarrow> bool" where
  "repair_chain e retry s i cs \<longleftrightarrow> (\<forall>n. Suc n < length cs \<longrightarrow> answer_errors e s (cs ! n) \<noteq> []
     \<and> retry (i + n) (cs ! n) (format_repair_prompt e (answer_errors e s (cs ! n)) s) = Inr (cs ! Suc n))"

lemma repair_chain_Cons:
  "cs \<noteq> [] \<Longrightarrow> repair_chain e retry s i (c # cs) \<longleftrightarrow> answer_errors e s c \<noteq> []
     \<and> retry i c (format_repair_prompt e (answer_errors e s c) s) = Inr (hd cs) \<and> repair_chain e retry s (Suc i) cs"
proof -
  assume "cs \<noteq> []"
  then obtain d ds where cs: "cs = d # ds" by (cases cs) auto
  have all: "(\<forall>n. P n) \<longleftrightarrow> P 0 \<and> (\<forall>n. P (Suc n))" for P :: "nat \<Rightarrow> bool" by (metis nat.exhaust)
  show ?thesis unfolding repair_chain_def cs all[of "\<lambda>n. Suc n < length (c # d # ds) \<longrightarrow> _ n"] by simp
qed

text \<open>The result says truly what its content is.\<close>

definition honest :: "schema_env \<Rightarrow> schema \<Rightarrow> repair_result \<Rightarrow> bool" where
  "honest e s r \<longleftrightarrow> (case validate_json_output e (rr_content r) s of
       None \<Rightarrow> rr_parsed r = JUndef \<and> rr_errors r = invalid_json
     | Some (v, errs) \<Rightarrow> rr_parsed r = v \<and> rr_errors r = errs)"

lemma invalid_json_some [simp]: "invalid_json \<noteq> []"
  by (simp add: invalid_json_def)

lemma repair_loop_outcome:
  assumes "answer_errors e s c = errors" and "errors \<noteq> []" and "n = 0 \<longrightarrow> honest e s \<lparr>rr_content = c, rr_parsed = p, rr_errors = errors, rr_attempts = i\<rparr>"
  shows "case repair_loop e retry s i n c p errors of
      Inl x \<Rightarrow> \<exists>k q r. k < i + n \<and> retry k q r = Inl x
    | Inr r \<Rightarrow> honest e s r \<and> rr_attempts r \<le> i + n \<and> (rr_errors r \<noteq> [] \<longrightarrow> rr_attempts r = i + n)
        \<and> (\<exists>cs. cs \<noteq> [] \<and> hd cs = c \<and> last cs = rr_content r \<and> i + length cs = rr_attempts r + 1 \<and> repair_chain e retry s i cs)"
  using assms
proof (induction n arbitrary: i c p errors)
  case 0
  then show ?case by (auto simp: repair_chain_def intro!: exI[of _ "[c]"])
next
  case (Suc n)
  show ?case
  proof (cases "retry i c (format_repair_prompt e errors s)")
    case (Inl x)
    then show ?thesis by (auto intro!: exI[of _ i])
  next
    case (Inr a)
    have chain: "\<exists>cs'. cs' \<noteq> [] \<and> hd cs' = c \<and> last cs' = last cs \<and> i + length cs' = Suc i + length cs \<and> repair_chain e retry s i cs'"
      if "cs \<noteq> []" "hd cs = a" "repair_chain e retry s (Suc i) cs" for cs
      using that Suc.prems(1,2) Inr by (intro exI[of _ "c # cs"]) (simp add: repair_chain_Cons)
    have go: ?thesis if "repair_loop e retry s i (Suc n) c p errors = repair_loop e retry s (Suc i) n a v errs"
        and v: "answer_errors e s a = errs" "errs \<noteq> []" "honest e s \<lparr>rr_content = a, rr_parsed = v, rr_errors = errs, rr_attempts = Suc i\<rparr>" for v errs
    proof -
      have ih: "case repair_loop e retry s (Suc i) n a v errs of
          Inl x \<Rightarrow> \<exists>k q r. k < Suc i + n \<and> retry k q r = Inl x
        | Inr r \<Rightarrow> honest e s r \<and> rr_attempts r \<le> Suc i + n \<and> (rr_errors r \<noteq> [] \<longrightarrow> rr_attempts r = Suc i + n)
            \<and> (\<exists>cs. cs \<noteq> [] \<and> hd cs = a \<and> last cs = rr_content r \<and> Suc i + length cs = rr_attempts r + 1 \<and> repair_chain e retry s (Suc i) cs)"
        by (rule Suc.IH[OF v(1,2)]) (use v(3) in simp)
      show ?thesis
      proof (cases "repair_loop e retry s (Suc i) n a v errs")
        case (Inl x)
        with ih show ?thesis unfolding that(1) by simp
      next
        case (Inr r)
        with ih obtain cs where cs: "cs \<noteq> []" "hd cs = a" "last cs = rr_content r" "Suc i + length cs = rr_attempts r + 1"
            "repair_chain e retry s (Suc i) cs"
          and r: "honest e s r" "rr_attempts r \<le> Suc i + n" "rr_errors r \<noteq> [] \<longrightarrow> rr_attempts r = Suc i + n" by auto
        from chain[OF cs(1,2,5)] cs(3,4) obtain cs' where cs': "cs' \<noteq> []" "hd cs' = c" "last cs' = rr_content r"
            "i + length cs' = rr_attempts r + 1" "repair_chain e retry s i cs'" by auto
        have "\<exists>cs. cs \<noteq> [] \<and> hd cs = c \<and> last cs = rr_content r \<and> i + length cs = rr_attempts r + 1 \<and> repair_chain e retry s i cs"
          using cs' by blast
        with r Inr show ?thesis unfolding that(1) by simp
      qed
    qed
    show ?thesis
    proof (cases "validate_json_output e a s")
      case None
      then show ?thesis using Inr by (intro go[of JUndef invalid_json]) (simp_all add: answer_errors_def honest_def)
    next
      case (Some w)
      obtain v errs where w: "w = (v, errs)" by fastforce
      show ?thesis
      proof (cases errs)
        case Nil
        have "repair_chain e retry s (Suc i) [a]" by (simp add: repair_chain_def)
        from chain[OF _ _ this] have "\<exists>cs'. cs' \<noteq> [] \<and> hd cs' = c \<and> last cs' = a \<and> i + length cs' = Suc i + 1 \<and> repair_chain e retry s i cs'"
          by simp
        with Inr Some w Nil show ?thesis by (simp add: honest_def)
      next
        case (Cons x xs)
        then show ?thesis using Inr Some w by (intro go[of v errs]) (simp_all add: answer_errors_def honest_def)
      qed
    qed
  qed
qed

text \<open>
  C32. Repairing an answer ends within its limit and tells the truth: either one of the questions to the
  model threw and that error is passed on, or a content is returned with its own parsed value and errors;
  it is the end of a chain of answers, each with errors and each followed by a question that lists them,
  as many as are reported; and errors are left only when the limit is used up.
\<close>

theorem repair_outcome:
  "let limit = nat (case m of Some n \<Rightarrow> n | None \<Rightarrow> 2)
   in case run_schema_repair e retry s c m of
      Inl x \<Rightarrow> \<exists>k q r. k < limit \<and> retry k q r = Inl x
    | Inr r \<Rightarrow> honest e s r \<and> rr_attempts r \<le> limit \<and> (rr_errors r = [] \<or> rr_attempts r = limit)
        \<and> (\<exists>cs. hd cs = c \<and> last cs = rr_content r \<and> length cs = rr_attempts r + 1 \<and> repair_chain e retry s 0 cs)"
proof -
  define limit where "limit = (case m of Some n \<Rightarrow> n | None \<Rightarrow> 2)"
  let ?run = "run_schema_repair e retry s c m"
  have run: "?run = (case validate_json_output e c s of
           None \<Rightarrow> if limit \<le> 0 then Inr \<lparr>rr_content = c, rr_parsed = JUndef, rr_errors = invalid_json, rr_attempts = 0\<rparr>
                  else repair_loop e retry s 0 (nat limit) c JUndef invalid_json
         | Some (v, errs) \<Rightarrow>
             if errs = [] then Inr \<lparr>rr_content = c, rr_parsed = v, rr_errors = [], rr_attempts = 0\<rparr>
             else if limit \<le> 0 then Inr \<lparr>rr_content = c, rr_parsed = v, rr_errors = errs, rr_attempts = 0\<rparr>
             else repair_loop e retry s 0 (nat limit) c JUndef errs)"
    unfolding run_schema_repair_def limit_def default_max_repair_attempts_def Let_def ..
  have now: ?thesis if "?run = Inr r" "rr_attempts r = 0" "rr_content r = c" "honest e s r" "rr_errors r = [] \<or> limit \<le> 0" for r
    unfolding that(1) Let_def limit_def[symmetric] using that(2-5)
    by (auto simp: repair_chain_def intro!: exI[of _ "[c]"])
  have loop: ?thesis if "?run = repair_loop e retry s 0 (nat limit) c JUndef errs" "answer_errors e s c = errs" "errs \<noteq> []" "0 < limit" for errs
  proof -
    have "nat limit \<noteq> 0" using that(4) by simp
    then have "case repair_loop e retry s 0 (nat limit) c JUndef errs of
        Inl x \<Rightarrow> \<exists>k q r. k < 0 + nat limit \<and> retry k q r = Inl x
      | Inr r \<Rightarrow> honest e s r \<and> rr_attempts r \<le> 0 + nat limit \<and> (rr_errors r \<noteq> [] \<longrightarrow> rr_attempts r = 0 + nat limit)
          \<and> (\<exists>cs. cs \<noteq> [] \<and> hd cs = c \<and> last cs = rr_content r \<and> 0 + length cs = rr_attempts r + 1 \<and> repair_chain e retry s 0 cs)"
      by (intro repair_loop_outcome[OF that(2,3)]) simp
    then show ?thesis unfolding that(1) Let_def limit_def[symmetric] by (auto split: sum.splits)
  qed
  show ?thesis
  proof (cases "validate_json_output e c s")
    case None
    show ?thesis
    proof (cases "limit \<le> 0")
      case True
      with None run show ?thesis by (intro now[of "\<lparr>rr_content = c, rr_parsed = JUndef, rr_errors = invalid_json, rr_attempts = 0\<rparr>"])
          (simp_all add: honest_def)
    next
      case False
      with None run show ?thesis by (intro loop[of invalid_json]) (simp_all add: answer_errors_def)
    qed
  next
    case (Some w)
    obtain v errs where w: "w = (v, errs)" by fastforce
    show ?thesis
    proof (cases "errs = [] \<or> limit \<le> 0")
      case True
      with Some w run show ?thesis by (intro now[of "\<lparr>rr_content = c, rr_parsed = v, rr_errors = errs, rr_attempts = 0\<rparr>"])
          (auto simp: honest_def)
    next
      case False
      with Some w run show ?thesis by (intro loop[of errs]) (simp_all add: answer_errors_def)
    qed
  qed
qed

lemma repair_example:
  "run_schema_repair demo_env (\<lambda>k q p. Inr ''{...}'') demo_schema ''{'' None
     = Inr \<lparr>rr_content = ''{...}'', rr_parsed = JObj [(''score'', JNum 5)], rr_errors = [], rr_attempts = 1\<rparr>"
  by code_simp


section \<open>What the validator does not see\<close>

text \<open>A schema that names no type checks neither required fields nor properties nor items.\<close>

lemma untyped_schema_accepts:
  assumes "expected_type s = None" and "sc_limits s = no_limits"
  shows "validate_schema e v s path = []"
  using assms by (subst validate_schema.simps)
    (auto simp: type_errors_def scalar_errors_def size_errors_def too_short_def too_long_def pattern_errors_def number_errors_def
      enum_errors_def no_limits_def split: jsval.splits)

text \<open>An object or array is never one of the values of an enumeration, even of one that lists it.\<close>

lemma enum_rejects_objects:
  assumes "js_is_object v" and "sl_enum (sc_limits s) = Some xs"
  shows "validate_schema e v s path \<noteq> []"
proof
  assume valid: "validate_schema e v s path = []"
  have "type_errors v s path = (False, [])" using valid_type[OF valid] by (simp add: prod_eq_iff)
  then have "scalar_errors e v s path = []" using valid[unfolded validate_schema.simps[of e v s path]] by simp
  then show False using assms by (simp add: scalar_errors_def enum_errors_def js_includes_def)
qed

end
