(* ===== verification/ToolParams.thy ===== *)
theory ToolParams
  imports SchemaRepair
begin

text \<open>
  The parameters of a tool call, from \<open>src/src/agent/tools/base.ts\<close>: they are checked against the
  tool's schema, references to secrets are replaced, and values of a wrong type are coerced.

  The texts and numbers of values (\<open>String\<close>, \<open>Number\<close>) and the vault that resolves secrets are
  arguments.
\<close>

section \<open>Schemas of parameters\<close>

record param_rules =
  pl_enum :: "jsval list option"
  pl_minimum :: "rat option"
  pl_maximum :: "rat option"
  pl_min_length :: "rat option"
  pl_max_length :: "rat option"
  pl_additional :: "bool option"

datatype param_schema = PSchema
  (ps_type: "string option")
  (ps_properties: "(string \<times> param_schema) list")
  (ps_required: "string list")
  (ps_items: "param_schema option")
  (ps_rules: param_rules)

record param_env =
  tv_str :: "jsval \<Rightarrow> string"
  tv_num :: "rat \<Rightarrow> string"
  tv_number :: "string \<Rightarrow> rat option"

text \<open>What a value of a type is; other type names are not checked.\<close>

definition type_map :: "string \<Rightarrow> (jsval \<Rightarrow> bool) option" where
  "type_map t =
     (if t = ''string'' then Some (\<lambda>v. case v of JStr _ \<Rightarrow> True | _ \<Rightarrow> False)
      else if t = ''integer'' then Some is_integer
      else if t = ''number'' then Some (\<lambda>v. case v of JNum _ \<Rightarrow> True | _ \<Rightarrow> False)
      else if t = ''boolean'' then Some (\<lambda>v. case v of JBool _ \<Rightarrow> True | _ \<Rightarrow> False)
      else if t = ''array'' then Some (\<lambda>v. case v of JArr _ \<Rightarrow> True | _ \<Rightarrow> False)
      else if t = ''object'' then Some (\<lambda>v. case v of JObj _ \<Rightarrow> True | _ \<Rightarrow> False)
      else None)"

definition wrong_type :: "param_schema \<Rightarrow> jsval \<Rightarrow> bool" where
  "wrong_type s v = (case ps_type s of None \<Rightarrow> False
     | Some t \<Rightarrow> (case type_map t of None \<Rightarrow> False | Some test \<Rightarrow> \<not> test v))"

definition below :: "rat option \<Rightarrow> rat \<Rightarrow> bool" where
  "below limit n = (case limit of None \<Rightarrow> False | Some m \<Rightarrow> n < m)"

definition above :: "rat option \<Rightarrow> rat \<Rightarrow> bool" where
  "above limit n = (case limit of None \<Rightarrow> False | Some m \<Rightarrow> m < n)"

definition param_label :: "string \<Rightarrow> string" where
  "param_label path = (if path = [] then ''parameter'' else path)"

definition param_path :: "string \<Rightarrow> string \<Rightarrow> string" where
  "param_path path k = (if path = [] then k else path @ ''.'' @ k)"

definition param_scalar_errors :: "param_env \<Rightarrow> jsval \<Rightarrow> param_schema \<Rightarrow> string \<Rightarrow> string list" where
  "param_scalar_errors e v s label =
     (case pl_enum (ps_rules s) of None \<Rightarrow> []
      | Some xs \<Rightarrow> if js_includes xs v then [] else [label @ '' must be one of ['' @ str_join '', '' (map (tv_str e) xs) @ '']''])
     @ (case v of
          JNum n \<Rightarrow> if ps_type s = Some ''integer'' \<or> ps_type s = Some ''number''
            then (if below (pl_minimum (ps_rules s)) n then [label @ '' must be >= '' @ tv_num e (the (pl_minimum (ps_rules s)))] else [])
                 @ (if above (pl_maximum (ps_rules s)) n then [label @ '' must be <= '' @ tv_num e (the (pl_maximum (ps_rules s)))] else [])
            else []
        | JStr x \<Rightarrow> if ps_type s = Some ''string''
            then (if below (pl_min_length (ps_rules s)) (of_nat (length x)) then [label @ '' too short''] else [])
                 @ (if above (pl_max_length (ps_rules s)) (of_nat (length x)) then [label @ '' too long''] else [])
            else []
        | _ \<Rightarrow> [])"

definition missing_params :: "jsval \<Rightarrow> param_schema \<Rightarrow> string \<Rightarrow> string list" where
  "missing_params v s path = map (\<lambda>k. ''missing required '' @ param_path path k) (filter (\<lambda>k. \<not> has_prop v k) (ps_required s))"

lemma size_param_property: "map_of (ps_properties s) k = Some t \<Longrightarrow> size t < size s"
proof (cases s)
  case (PSchema a ps c d f)
  assume "map_of (ps_properties s) k = Some t"
  then have "(k, t) \<in> set (ps_properties s)" by (rule map_of_SomeD)
  then have "size t < size_list (size_prod (\<lambda>_. 0) size) ps"
    using PSchema by (intro size_list_estimation[of "(k, t)"]) (auto simp: size_prod_simp)
  with PSchema show ?thesis by simp
qed

lemma size_param_items: "ps_items s = Some t \<Longrightarrow> size t < size s"
  by (cases s) auto

function validate_value :: "param_env \<Rightarrow> jsval \<Rightarrow> param_schema \<Rightarrow> string \<Rightarrow> string list" where
  "validate_value e v s path =
     (if wrong_type s v then [param_label path @ '' should be '' @ the (ps_type s)]
      else param_scalar_errors e v s (param_label path)
        @ (case v of
             JObj m \<Rightarrow> if ps_type s = Some ''object''
               then missing_params v s path
                 @ concat (map (\<lambda>p. case map_of (ps_properties s) (fst p) of None \<Rightarrow> []
                     | Some t \<Rightarrow> validate_value e (snd p) t (param_path path (fst p))) m)
               else []
           | JArr xs \<Rightarrow> if ps_type s = Some ''array''
               then (case ps_items s of None \<Rightarrow> []
                     | Some t \<Rightarrow> concat (map (\<lambda>i. validate_value e (xs ! i) t (item_path (param_label path) i)) [0..<length xs]))
               else []
           | _ \<Rightarrow> []))"
  by pat_completeness auto

termination
  by (relation "measure (\<lambda>(e, v, s, path). size s)") (auto dest: size_param_property size_param_items)

declare validate_value.simps [simp del]

definition validate_params :: "param_env \<Rightarrow> param_schema \<Rightarrow> memory \<Rightarrow> string list" where
  "validate_params e s params =
     (if (case ps_type s of None \<Rightarrow> ''object'' | Some [] \<Rightarrow> ''object'' | Some t \<Rightarrow> t) \<noteq> ''object'' then [''parameters schema must be object'']
      else validate_value e (JObj params) (PSchema (Some ''object'') (ps_properties s) (ps_required s) (ps_items s) (ps_rules s)) [])"


section \<open>Secrets\<close>

text \<open>The vault: the text with its references replaced, the unknown keys and the broken ciphertexts.\<close>

type_synonym secret_resolver = "string \<Rightarrow> string \<times> string list \<times> string list"

lemma size_member: "x \<in> set xs \<Longrightarrow> size x < Suc (size_list size xs)" for xs :: "jsval list"
  by (metis less_Suc_eq_le size_list_estimation' le_refl)

lemma size_field: "p \<in> set m \<Longrightarrow> size (snd p) < Suc (size_list (size_prod (\<lambda>_. 0) size) m)" for m :: memory
  by (auto simp: size_prod_simp less_Suc_eq_le intro!: size_list_estimation'[of p])

function resolve_param_secrets :: "secret_resolver option \<Rightarrow> jsval \<Rightarrow> jsval \<times> string list \<times> string list" where
  "resolve_param_secrets r (JStr s) = (case r of None \<Rightarrow> (JStr s, [], [])
     | Some f \<Rightarrow> (case f s of (t, missing, invalid) \<Rightarrow> (JStr t, map str_trim missing, map str_trim invalid)))"
| "resolve_param_secrets r (JArr xs) = (let ys = map (resolve_param_secrets r) xs
     in (JArr (map fst ys), concat (map (fst \<circ> snd) ys), concat (map (snd \<circ> snd) ys)))"
| "resolve_param_secrets r (JObj m) = (let ys = map (\<lambda>p. (fst p, resolve_param_secrets r (snd p))) m
     in (JObj (map (\<lambda>y. (fst y, fst (snd y))) ys), concat (map (\<lambda>y. fst (snd (snd y))) ys), concat (map (\<lambda>y. snd (snd (snd y))) ys)))"
| "resolve_param_secrets r JUndef = (JUndef, [], [])"
| "resolve_param_secrets r JNull = (JNull, [], [])"
| "resolve_param_secrets r (JBool b) = (JBool b, [], [])"
| "resolve_param_secrets r (JNum n) = (JNum n, [], [])"
  by pat_completeness auto

termination
  by (relation "measure (\<lambda>(r, v). size v)") (auto dest: size_member size_field)

definition secret_help :: "string list" where
  "secret_help =
     [utf8 [97, 99, 116, 105, 111, 110, 95, 49, 58, 32, 47, 115, 101, 99, 114, 101, 116, 32, 108, 105, 115, 116,
       32, 235, 161, 156, 32, 237, 130, 164, 32, 236, 157, 180, 235, 166, 132, 236, 157, 132, 32, 237, 153, 149,
       236, 157, 184, 237, 149, 152, 236, 132, 184, 236, 154, 148, 46],
       utf8 [97, 99, 116, 105, 111, 110, 95, 50, 58, 32, 47, 115, 101, 99, 114, 101, 116, 32, 115, 101, 116, 32,
       60, 110, 97, 109, 101, 62, 32, 60, 118, 97, 108, 117, 101, 62, 32, 235, 161, 156, 32, 237, 130, 164, 235,
       165, 188, 32, 236, 158, 172, 235, 147, 177, 235, 161, 157, 237, 149, 152, 236, 132, 184, 236, 154, 148, 46],
       utf8 [97, 99, 116, 105, 111, 110, 95, 51, 58, 32, 236, 154, 148, 236, 178, 173, 236, 151, 144, 235, 138,
       148, 32, 123, 123, 115, 101, 99, 114, 101, 116, 58, 60, 110, 97, 109, 101, 62, 125, 125, 32, 237, 152, 149,
       237, 131, 156, 235, 167, 140, 32, 236, 130, 172, 236, 154, 169, 237, 149, 152, 236, 132, 184, 236, 154,
       148, 46]]"

definition secret_notice :: string where
  "secret_notice =
       utf8 [110, 111, 116, 105, 99, 101, 58, 32, 235, 175, 188, 234, 176, 144, 236, 160, 149, 235, 179, 180, 32,
       237, 130, 164, 235, 165, 188, 32, 237, 153, 149, 236, 157, 184, 237, 149, 160, 32, 236, 136, 152, 32, 236,
       151, 134, 236, 150, 180, 32, 235, 179, 181, 237, 152, 184, 237, 153, 148, 235, 165, 188, 32, 236, 136, 152,
       237, 150, 137, 237, 149, 152, 236, 167, 128, 32, 236, 149, 138, 236, 149, 152, 236, 138, 181, 235, 139,
       136, 235, 139, 164, 46]"

definition format_secret_resolution_error :: "string list \<Rightarrow> string list \<Rightarrow> string" where
  "format_secret_resolution_error missing invalid =
     (let missing = filter (\<lambda>k. k \<noteq> []) missing; invalid = filter (\<lambda>k. k \<noteq> []) invalid
      in str_join [CHR 0x0A] (filter (\<lambda>l. l \<noteq> [])
           ([''Error: secret_resolution_required'', ''template: secret_resolution_required'', secret_notice,
             if missing \<noteq> [] then ''missing_keys: '' @ str_join '', '' missing else [],
             if invalid \<noteq> [] then ''invalid_ciphertexts: '' @ str_join '', '' invalid else []] @ secret_help)))"


section \<open>Coercion\<close>

definition truthy_words :: "string list" where
  "truthy_words = [''true'', ''yes'', ''on'', ''1'', ''ok'', ''y'', utf8 [236, 152, 136], utf8 [235, 132, 164]]"

definition falsy_words :: "string list" where
  "falsy_words = [''false'', ''no'', ''off'', ''0'', ''n'',
     utf8 [236, 149, 132, 235, 139, 136, 236, 152, 164], utf8 [236, 149, 132, 235, 139, 136]]"

definition coerce_boolean :: "jsval \<Rightarrow> bool" where
  "coerce_boolean v = (case v of
       JBool b \<Rightarrow> b
     | JNum n \<Rightarrow> n \<noteq> 0
     | JStr s \<Rightarrow> (let norm = str_lower (str_trim s)
                 in if norm \<in> set truthy_words then True else if norm \<in> set falsy_words then False else js_truthy v)
     | _ \<Rightarrow> js_truthy v)"

definition coerce_value :: "param_env \<Rightarrow> param_schema \<Rightarrow> jsval \<Rightarrow> jsval" where
  "coerce_value e s v =
     (if ps_type s = Some ''boolean'' then (case v of JBool _ \<Rightarrow> v | _ \<Rightarrow> JBool (coerce_boolean v))
      else case v of
          JStr x \<Rightarrow> if ps_type s = Some ''integer''
              then (case tv_number e x of Some n \<Rightarrow> JNum (of_int \<lfloor>n + 1 / 2\<rfloor>) | None \<Rightarrow> v)
              else if ps_type s = Some ''number''
              then (case tv_number e x of Some n \<Rightarrow> JNum n | None \<Rightarrow> v)
              else v
        | _ \<Rightarrow> v)"

definition coerce_param :: "param_env \<Rightarrow> string \<times> param_schema \<Rightarrow> memory \<Rightarrow> memory" where
  "coerce_param e p out = (if jhas out (fst p) then jset (fst p) (coerce_value e (snd p) (memory_at out (fst p))) out else out)"

definition coerce_params :: "param_env \<Rightarrow> param_schema \<Rightarrow> memory \<Rightarrow> memory" where
  "coerce_params e s params = fold (coerce_param e) (ps_properties s) params"


section \<open>Executing a tool\<close>

text \<open>A tool runs in a world of its own; it answers or throws.\<close>

definition run_with_params :: "param_env \<Rightarrow> param_schema \<Rightarrow> secret_resolver option \<Rightarrow> (memory \<Rightarrow> 'x \<Rightarrow> (string + string) \<times> 'x)
    \<Rightarrow> memory \<Rightarrow> 'x \<Rightarrow> (string + string) \<times> 'x" where
  "run_with_params e s r run params w = (case resolve_param_secrets r (JObj params) of (resolved, missing, invalid) \<Rightarrow>
     if missing \<noteq> [] \<or> invalid \<noteq> [] then (Inr (format_secret_resolution_error (js_set missing) (js_set invalid)), w)
     else run (coerce_params e s (case resolved of JObj m \<Rightarrow> m | _ \<Rightarrow> params)) w)"


section \<open>What is checked and what is not\<close>

text \<open>A parameter the schema does not declare is never looked at, whatever \<open>additionalProperties\<close> says.\<close>

lemma undeclared_params_ignored:
  assumes "map_of (ps_properties s) k = None" and "k \<notin> set (ps_required s)" and "\<not> jhas params k"
    and "pl_enum (ps_rules s) = None"
  shows "validate_params e s (params @ [(k, v)]) = validate_params e s params"
proof -
  have "has_prop (JObj (params @ [(k, v)])) r = has_prop (JObj params) r" if "r \<in> set (ps_required s)" for r
    using that assms(2) by (auto simp: has_prop_def jhas_def map_of_append split: option.split)
  then have "missing_params (JObj (params @ [(k, v)])) t [] = missing_params (JObj params) t []"
      if "ps_required t = ps_required s" for t
    using that by (simp add: missing_params_def cong: filter_cong)
  then show ?thesis using assms(1,4)
    by (auto simp: validate_params_def validate_value.simps[of e "JObj _"] wrong_type_def type_map_def param_scalar_errors_def)
qed

text \<open>A value that passed the check needs no coercion.\<close>

lemma valid_value_typed:
  assumes "validate_value e v s path = []"
  shows "\<not> wrong_type s v"
  using assms by (subst (asm) validate_value.simps) (auto split: if_splits)

lemma coerce_valid:
  assumes "\<not> wrong_type s v"
  shows "coerce_value e s v = v"
proof (cases "ps_type s")
  case None
  then show ?thesis by (cases v) (simp_all add: coerce_value_def)
next
  case (Some t)
  with assms have "\<forall>test. type_map t = Some test \<longrightarrow> test v" by (cases "type_map t") (simp_all add: wrong_type_def)
  with Some show ?thesis by (cases v) (auto simp: coerce_value_def type_map_def is_integer_def)
qed

lemma jset_same: "jget m k = Some v \<Longrightarrow> jset k v m = m"
  by (induction m) (auto split: if_splits)

lemma resolve_without_vault: "resolve_param_secrets None v = (v, [], [])"
proof (induction "None :: secret_resolver option" v rule: resolve_param_secrets.induct)
  case (2 xs)
  have eq: "map (resolve_param_secrets None) xs = map (\<lambda>x. (x, [], [])) xs" using 2 by simp
  show ?case unfolding resolve_param_secrets.simps Let_def eq by (simp add: comp_def)
next
  case (3 m)
  have eq: "map (\<lambda>p. (fst p, resolve_param_secrets None (snd p))) m = map (\<lambda>p. (fst p, snd p, [], [])) m" using 3 by simp
  show ?case unfolding resolve_param_secrets.simps Let_def eq by (simp add: comp_def)
qed simp_all

text \<open>
  Coercion never gets a value to correct: parameters that pass the check reach the tool exactly as
  they were sent when no vault is set, because a value of a wrong type is refused before.
\<close>

theorem checked_params_reach_tool:
  assumes "validate_params e s params = []" and "distinct (map fst (ps_properties s))"
  shows "run_with_params e s None run params w = run params w"
proof -
  have type: "(case ps_type s of None \<Rightarrow> ''object'' | Some [] \<Rightarrow> ''object'' | Some t \<Rightarrow> t) = ''object''"
    using assms(1) by (auto simp: validate_params_def split: if_splits)
  have checked: "validate_value e (JObj params) (PSchema (Some ''object'') (ps_properties s) (ps_required s) (ps_items s) (ps_rules s)) [] = []"
    using assms(1) type by (simp add: validate_params_def)
  have ok: "coerce_value e t v = v" if "(k, t) \<in> set (ps_properties s)" "jget params k = Some v" for k t v
  proof -
    have "map_of (ps_properties s) k = Some t" using assms(2) that(1) by simp
    moreover have "(k, v) \<in> set params" using jget_mem[OF that(2)] .
    ultimately have "validate_value e v t (param_path [] k) = []"
      using checked[unfolded validate_value.simps[of e "JObj params"]] by (force simp: wrong_type_def type_map_def)
    then show ?thesis using coerce_valid[OF valid_value_typed] by blast
  qed
  have "fold (coerce_param e) ps params = params" if "set ps \<subseteq> set (ps_properties s)" for ps
    using that
  proof (induction ps)
    case (Cons p ps)
    then have "coerce_param e p params = params"
      using ok[of "fst p" "snd p"] by (auto simp: coerce_param_def jhas_def memory_at_def jset_same)
    with Cons show ?case by simp
  qed simp
  then show ?thesis by (simp add: run_with_params_def resolve_without_vault coerce_params_def del: resolve_param_secrets.simps)
qed

definition demo_param_env :: param_env where
  "demo_param_env = \<lparr>tv_str = (\<lambda>v. ''?''), tv_num = (\<lambda>n. ''0''), tv_number = (\<lambda>s. None)\<rparr>"

definition demo_param_schema :: param_schema where
  "demo_param_schema = (let none = \<lparr>pl_enum = None, pl_minimum = None, pl_maximum = None, pl_min_length = None, pl_max_length = None,
       pl_additional = Some False\<rparr>
     in PSchema (Some ''object'') [(''append'', PSchema (Some ''boolean'') [] [] None none)] [''append''] None none)"

theorem checked_params_reach_tool_witness:
  "run_with_params demo_param_env demo_param_schema None (\<lambda>p n. (Inr ''ok'', length p)) [(''append'', JBool True), (''extra'', JNull)] 0
     = (Inr ''ok'', 2)
   \<and> validate_params demo_param_env demo_param_schema [(''append'', JStr ''true'')] = [''append should be boolean'']"
proof -
  have v: "validate_params demo_param_env demo_param_schema [(''append'', JBool True), (''extra'', JNull)] = []" by code_simp
  have d: "distinct (map fst (ps_properties demo_param_schema))" by (simp add: demo_param_schema_def Let_def)
  have "validate_params demo_param_env demo_param_schema [(''append'', JStr ''true'')] = [''append should be boolean'']" by code_simp
  with checked_params_reach_tool[OF v d, where run = "\<lambda>p n. (Inr ''ok'', length p)" and w = 0] show ?thesis by simp
qed

end
