(* ===== verification/ApprovalParser.thy ===== *)
theory ApprovalParser
  imports ToolParams Messages
begin

text \<open>
  \<open>src/src/agent/tools/approval-parser.ts\<close>: what a user's reply decides about a tool call that waits
  for approval. Texts are bytes; words and emoji outside ASCII are given by theirs.
\<close>

section \<open>Patterns\<close>

text \<open>Whole words of a text in lower case, or parts anywhere in it.\<close>

datatype approval_pattern = WordsP "string list" | PartsP "string list"

definition word_char :: "char \<Rightarrow> bool" where
  "word_char c \<longleftrightarrow> c \<in> set ''abcdefghijklmnopqrstuvwxyz0123456789_ABCDEFGHIJKLMNOPQRSTUVWXYZ''"

definition word_at :: "string \<Rightarrow> string \<Rightarrow> bool" where
  "word_at w s \<longleftrightarrow> starts_with w s \<and> (case drop (length w) s of [] \<Rightarrow> True | c # _ \<Rightarrow> \<not> word_char c)"

fun word_match :: "bool \<Rightarrow> string list \<Rightarrow> string \<Rightarrow> bool" where
  "word_match boundary ws [] = False"
| "word_match boundary ws (c # s) = (boundary \<and> (\<exists>w \<in> set ws. word_at w (c # s)) \<or> word_match (\<not> word_char c) ws s)"

definition pattern_test :: "approval_pattern \<Rightarrow> string \<Rightarrow> bool" where
  "pattern_test p text = (case p of
       WordsP ws \<Rightarrow> word_match True ws (str_lower text)
     | PartsP ps \<Rightarrow> \<exists>part \<in> set ps. str_includes part text)"

definition approve_patterns :: "approval_pattern list" where
  "approve_patterns =
     [WordsP [''y'', ''yes'', ''ok'', ''okay'', ''approve'', ''approved'', ''allow'', ''allowed'', ''go'', ''proceed''],
      PartsP [[CHR 0xEC, CHR 0x8A, CHR 0xB9, CHR 0xEC, CHR 0x9D, CHR 0xB8], [CHR 0xED, CHR 0x97, CHR 0x88,
         CHR 0xEC, CHR 0x9A, CHR 0xA9],
         [CHR 0xEC, CHR 0xA7, CHR 0x84, CHR 0xED, CHR 0x96, CHR 0x89], [CHR 0xEC, CHR 0xA2, CHR 0x8B, CHR 0xEC,
         CHR 0x95, CHR 0x84],
         [CHR 0xEC, CHR 0x98, CHR 0xA4, CHR 0xEC, CHR 0xBC, CHR 0x80, CHR 0xEC, CHR 0x9D, CHR 0xB4], [CHR 0xEA,
         CHR 0xB0, CHR 0x80, CHR 0xEB, CHR 0x8A, CHR 0xA5]],
      PartsP [[CHR 0xE2, CHR 0x9C, CHR 0x85], [CHR 0xF0, CHR 0x9F, CHR 0x91, CHR 0x8D], [CHR 0xF0, CHR 0x9F,
         CHR 0x9F, CHR 0xA2], [CHR 0xF0, CHR 0x9F, CHR 0x99, CHR 0x86],
         [CHR 0xF0, CHR 0x9F, CHR 0x91, CHR 0x8C]]]"

definition deny_patterns :: "approval_pattern list" where
  "deny_patterns =
     [WordsP [''n'', ''no'', ''deny'', ''denied'', ''reject'', ''rejected'', ''stop'', ''block'', ''forbid''],
      PartsP [[CHR 0xEA, CHR 0xB1, CHR 0xB0, CHR 0xEC, CHR 0xA0, CHR 0x88], [CHR 0xEB, CHR 0xB6, CHR 0x88,
         CHR 0xEA, CHR 0xB0, CHR 0x80],
         [CHR 0xEA, CHR 0xB8, CHR 0x88, CHR 0xEC, CHR 0xA7, CHR 0x80], [CHR 0xEC, CHR 0xA4, CHR 0x91, CHR 0xEB,
         CHR 0x8B, CHR 0xA8],
         [CHR 0xEC, CHR 0x95, CHR 0x88, CHR 0xEB, CHR 0x8F, CHR 0xBC], [CHR 0xEC, CHR 0x95, CHR 0x88, CHR 0xEB,
         CHR 0x90, CHR 0xA8],
         [CHR 0xEC, CHR 0xB7, CHR 0xA8, CHR 0xEC, CHR 0x86, CHR 0x8C, CHR 0xED, CHR 0x95, CHR 0xB4]],
      PartsP [[CHR 0xE2, CHR 0x9D, CHR 0x8C], [CHR 0xF0, CHR 0x9F, CHR 0x91, CHR 0x8E], [CHR 0xF0, CHR 0x9F,
         CHR 0x94, CHR 0xB4], [CHR 0xF0, CHR 0x9F, CHR 0x99, CHR 0x85],
         [CHR 0xE2, CHR 0x9B, CHR 0x94]]]"

definition defer_patterns :: "approval_pattern list" where
  "defer_patterns =
     [WordsP [''later'', ''hold'', ''wait'', ''defer'', ''postpone'', ''pending''],
      PartsP [[CHR 0xEB, CHR 0xB3, CHR 0xB4, CHR 0xEB, CHR 0xA5, CHR 0x98], [CHR 0xEB, CHR 0x8C, CHR 0x80,
         CHR 0xEA, CHR 0xB8, CHR 0xB0],
         [CHR 0xEB, CHR 0x82, CHR 0x98, CHR 0xEC, CHR 0xA4, CHR 0x91, CHR 0xEC, CHR 0x97, CHR 0x90], [CHR 0xEC,
         CHR 0x9E, CHR 0xA0, CHR 0xEC, CHR 0x8B, CHR 0x9C]],
      PartsP [[CHR 0xE2, CHR 0x8F, CHR 0xB8, CHR 0xEF, CHR 0xB8, CHR 0x8F], [CHR 0xE2, CHR 0x8F, CHR 0xB3],
         [CHR 0xF0, CHR 0x9F, CHR 0xA4, CHR 0x94]]]"

definition cancel_patterns :: "approval_pattern list" where
  "cancel_patterns =
     [WordsP [''cancel'', ''abort'', ''drop''],
      PartsP [[CHR 0xEC, CHR 0xB7, CHR 0xA8, CHR 0xEC, CHR 0x86, CHR 0x8C], [CHR 0xEC, CHR 0xA4, CHR 0x91,
         CHR 0xEB, CHR 0x8B, CHR 0xA8]]]"

definition clarify_patterns :: "approval_pattern list" where
  "clarify_patterns =
     [WordsP [''why'', ''reason'', ''explain'', ''detail'', ''what''],
      PartsP [[CHR 0xEC, CHR 0x99, CHR 0x9C], [CHR 0xEC, CHR 0x9D, CHR 0xB4, CHR 0xEC, CHR 0x9C, CHR 0xA0],
         [CHR 0xEC, CHR 0x84, CHR 0xA4, CHR 0xEB, CHR 0xAA, CHR 0x85],
         [CHR 0xEA, CHR 0xB7, CHR 0xBC, CHR 0xEA, CHR 0xB1, CHR 0xB0], [CHR 0xEC, CHR 0x83, CHR 0x81, CHR 0xEC,
         CHR 0x84, CHR 0xB8]]]"

definition approve_all_patterns :: "approval_pattern list" where
  "approve_all_patterns =
     [WordsP [''approve all'', ''approveall'', ''allow all'', ''allowall'', ''yes all'', ''yesall''],
      PartsP [[CHR 0xEB, CHR 0xAA, CHR 0xA8, CHR 0xEB, CHR 0x91, CHR 0x90, CHR 0x20, CHR 0xEC, CHR 0x8A, CHR 0xB9,
         CHR 0xEC, CHR 0x9D, CHR 0xB8],
         [CHR 0xEC, CHR 0xA0, CHR 0x84, CHR 0xEB, CHR 0xB6, CHR 0x80, CHR 0x20, CHR 0xEC, CHR 0x8A, CHR 0xB9,
         CHR 0xEC, CHR 0x9D, CHR 0xB8],
         [CHR 0xEC, CHR 0x9D, CHR 0xBC, CHR 0xEA, CHR 0xB4, CHR 0x84, CHR 0x20, CHR 0xEC, CHR 0x8A, CHR 0xB9,
         CHR 0xEC, CHR 0x9D, CHR 0xB8],
         [CHR 0xEB, CHR 0xAA, CHR 0xA8, CHR 0xEB, CHR 0x91, CHR 0x90, CHR 0x20, CHR 0xED, CHR 0x97, CHR 0x88,
         CHR 0xEC, CHR 0x9A, CHR 0xA9],
         [CHR 0xEC, CHR 0xA0, CHR 0x84, CHR 0xEB, CHR 0xB6, CHR 0x80, CHR 0x20, CHR 0xED, CHR 0x97, CHR 0x88,
         CHR 0xEC, CHR 0x9A, CHR 0xA9]]]"

definition pattern_score :: "approval_pattern list \<Rightarrow> string \<Rightarrow> nat" where
  "pattern_score ps text = length (filter (\<lambda>p. pattern_test p text) ps)"


section \<open>The decision\<close>

datatype approval_decision = AdApprove | AdApproveAll | AdDeny | AdDefer | AdCancel | AdClarify | AdUnknown

record approval_parse =
  ap_decision :: approval_decision
  ap_confidence :: rat
  ap_normalized :: string

definition approval_scores :: "string \<Rightarrow> (approval_decision \<times> nat) list" where
  "approval_scores text =
     [(AdApprove, pattern_score approve_patterns text), (AdDeny, pattern_score deny_patterns text),
      (AdDefer, pattern_score defer_patterns text), (AdCancel, pattern_score cancel_patterns text),
      (AdClarify, pattern_score clarify_patterns text)]"

definition by_score :: "(approval_decision \<times> nat) list \<Rightarrow> (approval_decision \<times> nat) list" where
  "by_score xs = sort_key (\<lambda>p. - int (snd p)) xs"

definition parse_approval_response :: "string \<Rightarrow> approval_parse" where
  "parse_approval_response input =
     (let text = normalize_text False input
      in if text = [] then \<lparr>ap_decision = AdUnknown, ap_confidence = 0, ap_normalized = []\<rparr>
         else if 0 < pattern_score approve_all_patterns text
         then \<lparr>ap_decision = AdApproveAll, ap_confidence = 9 / 10, ap_normalized = str_lower text\<rparr>
         else let scores = by_score (approval_scores text); top = hd scores
           in if snd top = 0 then \<lparr>ap_decision = AdUnknown, ap_confidence = 1 / 10, ap_normalized = str_lower text\<rparr>
              else \<lparr>ap_decision = fst top,
                     ap_confidence = min 1 (1 / 2 + of_nat (snd top - snd (scores ! 1)) * (2 / 10)),
                     ap_normalized = str_lower text\<rparr>)"


section \<open>Who wins\<close>

lemma hd_insort_key: "hd (insort_key f x ys) = (if ys = [] \<or> f x \<le> f (hd ys) then x else hd ys)"
  by (cases ys) auto

lemma top_score:
  "hd (by_score [a, b, c, d, e]) =
     (let m = max (snd a) (max (snd b) (max (snd c) (max (snd d) (snd e))))
      in if snd a = m then a else if snd b = m then b else if snd c = m then c else if snd d = m then d else e)"
proof -
  have top: "hd (by_score (x # y # xs)) = (if snd (hd (by_score (y # xs))) \<le> snd x then x else hd (by_score (y # xs)))"
    for x y :: "approval_decision \<times> nat" and xs
    by (simp add: by_score_def hd_insort_key)
  have one: "hd (by_score [x]) = x" for x by (simp add: by_score_def)
  show ?thesis unfolding top one Let_def max_def by auto
qed

definition winner :: "nat \<Rightarrow> nat \<Rightarrow> nat \<Rightarrow> nat \<Rightarrow> nat \<Rightarrow> approval_decision" where
  "winner a n l c q = (let most = max a (max n (max l (max c q)))
     in if a = most then AdApprove else if n = most then AdDeny else if l = most then AdDefer
        else if c = most then AdCancel else AdClarify)"

lemma top_winner:
  "fst (hd (by_score [(AdApprove, a), (AdDeny, n), (AdDefer, l), (AdCancel, c), (AdClarify, q)])) = winner a n l c q
   \<and> snd (hd (by_score [(AdApprove, a), (AdDeny, n), (AdDefer, l), (AdCancel, c), (AdClarify, q)])) = max a (max n (max l (max c q)))"
  unfolding top_score winner_def Let_def by (auto simp: max_def)

text \<open>
  The decision of a reply: blank text and text without any known word decides nothing; a phrase that
  approves everything wins; otherwise the side with the most kinds of words wins, and of sides that
  score the same the first of approve, deny, defer, cancel and clarify.
\<close>

theorem approval_decision_spec:
  "let text = normalize_text False input;
       a = pattern_score approve_patterns text; n = pattern_score deny_patterns text; l = pattern_score defer_patterns text;
       c = pattern_score cancel_patterns text; q = pattern_score clarify_patterns text; most = max a (max n (max l (max c q)))
   in ap_decision (parse_approval_response input) =
       (if text = [] then AdUnknown
        else if 0 < pattern_score approve_all_patterns text then AdApproveAll
        else if most = 0 then AdUnknown
        else if a = most then AdApprove else if n = most then AdDeny else if l = most then AdDefer
        else if c = most then AdCancel else AdClarify)"
proof -
  let ?t = "normalize_text False input"
  have "fst (hd (by_score (approval_scores ?t))) = winner a n l c q \<and> snd (hd (by_score (approval_scores ?t))) = max a (max n (max l (max c q)))"
    if "a = pattern_score approve_patterns ?t" "n = pattern_score deny_patterns ?t" "l = pattern_score defer_patterns ?t"
      "c = pattern_score cancel_patterns ?t" "q = pattern_score clarify_patterns ?t" for a n l c q
    unfolding approval_scores_def that[symmetric] by (rule top_winner)
  note w = this[OF refl refl refl refl refl]
  have d: "ap_decision (parse_approval_response input) =
      (if ?t = [] then AdUnknown else if 0 < pattern_score approve_all_patterns ?t then AdApproveAll
       else if snd (hd (by_score (approval_scores ?t))) = 0 then AdUnknown else fst (hd (by_score (approval_scores ?t))))"
    by (simp add: parse_approval_response_def Let_def)
  show ?thesis unfolding d Let_def conjunct1[OF w] conjunct2[OF w] winner_def ..
qed

text \<open>A refusal that names what it refuses is an approval: both sides score, and approval comes first.\<close>

lemma refusal_approves:
  "ap_decision (parse_approval_response ''No, do not proceed.'') = AdApprove"
  "ap_confidence (parse_approval_response ''No, do not proceed.'') = 1 / 2"
  "ap_decision (parse_approval_response ''not ok'') = AdApprove"
  by code_simp+

end
