(* ===== verification/ToolRegistry.thy ===== *)
theory ToolRegistry
  imports ApprovalParser
begin

text \<open>
  \<open>src/src/agent/tools/registry.ts\<close>: the tools an agent can call, the hooks around a call, and the
  calls that wait for approval. With it, the approval checks of \<open>filesystem.ts\<close> and \<open>dynamic.ts\<close>.

  Tools and hooks act on a world of their own, of any type; new ids and times are arguments. An
  operation is atomic, so nothing else reaches the registry while a tool runs.
\<close>

section \<open>State\<close>

record tool_ctx =
  tx_task :: "string option"
  tx_channel :: "string option"
  tx_chat :: "string option"
  tx_team :: "string option"

datatype hook_permission = HkAllow | HkDeny | HkAsk

record hook_decision =
  hk_permission :: "hook_permission option"
  hk_reason :: "string option"
  hk_params :: "memory option"

type_synonym 'x pre_hook = "string \<Rightarrow> memory \<Rightarrow> tool_ctx option \<Rightarrow> 'x \<Rightarrow> (string + hook_decision) \<times> 'x"

text \<open>The call and its result; what a hook throws is dropped.\<close>

type_synonym 'x post_hook = "string \<Rightarrow> memory \<Rightarrow> string \<Rightarrow> tool_ctx option \<Rightarrow> bool \<Rightarrow> 'x \<Rightarrow> 'x"

record 'x tool =
  tl_name :: string
  tl_category :: string
  tl_schema :: jsval
  tl_validate :: "memory \<Rightarrow> string list"
  tl_run :: "memory \<Rightarrow> tool_ctx option \<Rightarrow> 'x \<Rightarrow> (string + string) \<times> 'x"
  tl_takes_resolver :: bool
  tl_resolver :: "nat option"

datatype approval_status = ApPending | ApApproved | ApDenied | ApDeferred | ApCancelled | ApClarify

record approval_request =
  aq_id :: string
  aq_tool :: string
  aq_params :: memory
  aq_context :: "tool_ctx option"
  aq_detail :: string
  aq_created :: int
  aq_status :: approval_status
  aq_response :: "(string \<times> approval_parse) option"
  aq_bridge :: bool

text \<open>
  \<open>rg_waiting\<close> are the requests whose caller waits for the decision, \<open>rg_decided\<close> the decisions these
  callers got.
\<close>

record 'x registry =
  rg_tools :: "(string, 'x tool) jmap"
  rg_dynamic :: "string list"
  rg_requests :: "(string, approval_request) jmap"
  rg_waiting :: "string list"
  rg_decided :: "(string \<times> approval_decision) list"
  rg_auto :: "string list"
  rg_resolver :: "nat option"
  rg_pre :: "'x pre_hook list"
  rg_post :: "'x post_hook list"
  rg_notify :: "(approval_request \<Rightarrow> 'x \<Rightarrow> 'x) option"

definition registry_new :: "'x pre_hook list \<Rightarrow> 'x post_hook list \<Rightarrow> (approval_request \<Rightarrow> 'x \<Rightarrow> 'x) option \<Rightarrow> 'x registry" where
  "registry_new pre post notify = \<lparr>rg_tools = [], rg_dynamic = [], rg_requests = [], rg_waiting = [], rg_decided = [], rg_auto = [],
     rg_resolver = None, rg_pre = pre, rg_post = post, rg_notify = notify\<rparr>"


section \<open>The tools\<close>

definition inject_resolver :: "'x registry \<Rightarrow> 'x tool \<Rightarrow> 'x tool" where
  "inject_resolver g t = (if rg_resolver g \<noteq> None \<and> tl_takes_resolver t then t\<lparr>tl_resolver := rg_resolver g\<rparr> else t)"

definition register_tool :: "'x tool \<Rightarrow> 'x registry \<Rightarrow> 'x registry" where
  "register_tool t g = g\<lparr>rg_tools := jset (tl_name t) (inject_resolver g t) (rg_tools g)\<rparr>"

definition set_secret_resolver :: "nat \<Rightarrow> 'x registry \<Rightarrow> 'x registry" where
  "set_secret_resolver r g = (let g = g\<lparr>rg_resolver := Some r\<rparr>
     in g\<lparr>rg_tools := map (\<lambda>p. (fst p, inject_resolver g (snd p))) (rg_tools g)\<rparr>)"

definition unregister_tool :: "string \<Rightarrow> 'x registry \<Rightarrow> 'x registry" where
  "unregister_tool name g = g\<lparr>rg_dynamic := filter (\<lambda>n. n \<noteq> name) (rg_dynamic g), rg_tools := jdel name (rg_tools g)\<rparr>"

definition tool_names :: "'x registry \<Rightarrow> string list" where
  "tool_names g = jkeys (rg_tools g)"

definition add_dynamic_tool :: "'x tool \<Rightarrow> 'x registry \<Rightarrow> 'x registry" where
  "add_dynamic_tool t g = g\<lparr>rg_tools := jset (tl_name t) (inject_resolver g t) (rg_tools g),
     rg_dynamic := (if tl_name t \<in> set (rg_dynamic g) then rg_dynamic g else rg_dynamic g @ [tl_name t])\<rparr>"

definition set_dynamic_tools :: "'x tool list \<Rightarrow> 'x registry \<Rightarrow> 'x registry" where
  "set_dynamic_tools ts g = fold add_dynamic_tool ts
     (g\<lparr>rg_tools := filter (\<lambda>p. fst p \<notin> set (rg_dynamic g)) (rg_tools g), rg_dynamic := []\<rparr>)"

definition get_definitions :: "'x registry \<Rightarrow> jsval list" where
  "get_definitions g = map tl_schema (jvals (rg_tools g))"

definition build_category_map :: "'x registry \<Rightarrow> (string, string) jmap" where
  "build_category_map g = fold (\<lambda>t. jset (tl_name t) (tl_category t)) (jvals (rg_tools g)) []"


section \<open>Requests for approval\<close>

definition create_approval_request :: "string \<Rightarrow> int \<Rightarrow> string \<Rightarrow> memory \<Rightarrow> tool_ctx option \<Rightarrow> string \<Rightarrow> approval_request" where
  "create_approval_request k now tool params ctx detail = \<lparr>aq_id = k, aq_tool = tool, aq_params = params, aq_context = ctx,
     aq_detail = detail, aq_created = now, aq_status = ApPending, aq_response = None, aq_bridge = False\<rparr>"

definition put_request :: "approval_request \<Rightarrow> 'x registry \<Rightarrow> 'x registry" where
  "put_request r g = g\<lparr>rg_requests := jset (aq_id r) r (rg_requests g)\<rparr>"

definition notify_approval_required :: "'x registry \<Rightarrow> approval_request \<Rightarrow> 'x \<Rightarrow> 'x" where
  "notify_approval_required g r w = (case rg_notify g of None \<Rightarrow> w | Some f \<Rightarrow> f r w)"

definition get_approval_request :: "'x registry \<Rightarrow> string \<Rightarrow> approval_request option" where
  "get_approval_request g k = jget (rg_requests g) k"

definition list_approval_requests :: "'x registry \<Rightarrow> approval_status option \<Rightarrow> approval_request list" where
  "list_approval_requests g status =
     (let rows = sort_key (\<lambda>r. - aq_created r) (jvals (rg_requests g))
      in case status of None \<Rightarrow> rows | Some s \<Rightarrow> filter (\<lambda>r. aq_status r = s) rows)"

definition register_approval_with_callback :: "string \<Rightarrow> int \<Rightarrow> string \<Rightarrow> string \<Rightarrow> tool_ctx option
    \<Rightarrow> 'x registry \<Rightarrow> 'x \<Rightarrow> 'x registry \<times> 'x" where
  "register_approval_with_callback k now tool detail ctx g w =
     (let r = (create_approval_request k now tool [] ctx detail)\<lparr>aq_bridge := True\<rparr>
      in ((put_request r g)\<lparr>rg_waiting := (if k \<in> set (rg_waiting g) then rg_waiting g else rg_waiting g @ [k])\<rparr>,
          notify_approval_required g r w))"

text \<open>The caller that waits for a request gets its decision.\<close>

definition answer_waiting :: "string \<Rightarrow> approval_decision \<Rightarrow> 'x registry \<Rightarrow> 'x registry" where
  "answer_waiting k d g = (if k \<in> set (rg_waiting g)
     then g\<lparr>rg_waiting := filter (\<lambda>w. w \<noteq> k) (rg_waiting g), rg_decided := rg_decided g @ [(k, d)]\<rparr> else g)"

text \<open>The timer of a waiting caller.\<close>

definition approval_timeout :: "string \<Rightarrow> 'x registry \<Rightarrow> 'x registry" where
  "approval_timeout k g = (if k \<notin> set (rg_waiting g) then g
     else answer_waiting k AdCancel (case jget (rg_requests g) k of
         Some r \<Rightarrow> if aq_status r = ApPending then g\<lparr>rg_requests := jset k (r\<lparr>aq_status := ApCancelled\<rparr>) (rg_requests g)\<rparr> else g
       | None \<Rightarrow> g))"

definition status_of :: "approval_decision \<Rightarrow> approval_status" where
  "status_of d = (case d of AdApprove \<Rightarrow> ApApproved | AdApproveAll \<Rightarrow> ApApproved | AdDeny \<Rightarrow> ApDenied | AdDefer \<Rightarrow> ApDeferred
     | AdCancel \<Rightarrow> ApCancelled | AdClarify \<Rightarrow> ApClarify | AdUnknown \<Rightarrow> ApPending)"

record approval_resolution =
  as_ok :: bool
  as_decision :: approval_decision
  as_status :: approval_status
  as_confidence :: rat

definition resolve_approval_request :: "string \<Rightarrow> string \<Rightarrow> 'x registry \<Rightarrow> approval_resolution \<times> 'x registry" where
  "resolve_approval_request k response g = (case jget (rg_requests g) k of
       None \<Rightarrow> (\<lparr>as_ok = False, as_decision = AdUnknown, as_status = ApPending, as_confidence = 0\<rparr>, g)
     | Some r \<Rightarrow>
         let parsed = parse_approval_response response; d = ap_decision parsed; status = status_of d;
             g = (if d = AdApproveAll \<and> aq_tool r \<notin> set (rg_auto g) then g\<lparr>rg_auto := rg_auto g @ [aq_tool r]\<rparr> else g);
             g = g\<lparr>rg_requests := jset k (r\<lparr>aq_status := status, aq_response := Some (response, parsed)\<rparr>) (rg_requests g)\<rparr>
         in (\<lparr>as_ok = (status \<noteq> ApPending), as_decision = d, as_status = status, as_confidence = ap_confidence parsed\<rparr>,
             answer_waiting k d g))"

text \<open>A request that has waited too long; the sweep goes over all of them.\<close>

definition expire_request :: "int \<Rightarrow> int \<Rightarrow> string \<Rightarrow> nat \<times> 'x registry \<Rightarrow> nat \<times> 'x registry" where
  "expire_request now ttl k p = (case jget (rg_requests (snd p)) k of
       None \<Rightarrow> p
     | Some r \<Rightarrow> if aq_status r \<noteq> ApPending \<or> now - aq_created r < ttl then p
         else (fst p + 1, answer_waiting k AdCancel
                ((snd p)\<lparr>rg_requests := jset k (r\<lparr>aq_status := ApCancelled\<rparr>) (rg_requests (snd p))\<rparr>)))"

definition expire_stale_approvals :: "int \<Rightarrow> int \<Rightarrow> 'x registry \<Rightarrow> nat \<times> 'x registry" where
  "expire_stale_approvals now ttl g = fold (expire_request now ttl) (jkeys (rg_requests g)) (0, g)"


section \<open>Executing\<close>

definition error_hint :: string where
  "error_hint = [CHR 0x0A, CHR 0x0A] @ ''[Analyze the error and retry with a safer or narrower approach.]''"

definition approval_examples :: string where
  "approval_examples =
     ''approval_reply_examples: '' @ [CHR 0xEC, CHR 0x8A, CHR 0xB9, CHR 0xEC, CHR 0x9D, CHR 0xB8] @ '' / '' @
     [CHR 0xEB, CHR 0xAA, CHR 0xA8, CHR 0xEB, CHR 0x91, CHR 0x90] @ '' '' @ [CHR 0xEC, CHR 0x8A, CHR 0xB9, CHR
     0xEC, CHR 0x9D, CHR 0xB8] @ '' / '' @ [CHR 0xEA, CHR 0xB1, CHR 0xB0, CHR 0xEB, CHR 0xB6, CHR 0x80] @ '' /
     '' @ [CHR 0xEB, CHR 0xB3, CHR 0xB4, CHR 0xEB, CHR 0xA5, CHR 0x98]"

definition hook_examples :: string where
  "hook_examples =
     ''approval_reply_examples: '' @ [CHR 0xE2, CHR 0x9C, CHR 0x85] @ '' / '' @ [CHR 0xF0, CHR 0x9F, CHR 0x91,
     CHR 0x8D] @ '' / yes / '' @ [CHR 0xEC, CHR 0x8A, CHR 0xB9, CHR 0xEC, CHR 0x9D, CHR 0xB8] @ '' / '' @ [CHR
     0xED, CHR 0x97, CHR 0x88, CHR 0xEC, CHR 0x9A, CHR 0xA9] @ '' / go | '' @ [CHR 0xE2, CHR 0x9D, CHR 0x8C] @
     '' / '' @ [CHR 0xF0, CHR 0x9F, CHR 0x91, CHR 0x8E] @ '' / no / '' @ [CHR 0xEA, CHR 0xB1, CHR 0xB0, CHR
     0xEC, CHR 0xA0, CHR 0x88] @ '' / '' @ [CHR 0xEB, CHR 0xB6, CHR 0x88, CHR 0xEA, CHR 0xB0, CHR 0x80] @ '' /
     stop | '' @ [CHR 0xE2, CHR 0x8F, CHR 0xB8, CHR 0xEF, CHR 0xB8, CHR 0x8F] @ '' / '' @ [CHR 0xEB, CHR 0xB3,
     CHR 0xB4, CHR 0xEB, CHR 0xA5, CHR 0x98] @ '' / later | ? / '' @ [CHR 0xEC, CHR 0x9D, CHR 0xB4, CHR 0xEC,
     CHR 0x9C, CHR 0xA0]"

definition approval_required :: string where
  "approval_required = ''Error: approval_required''"

definition is_error_text :: "string \<Rightarrow> bool" where
  "is_error_text s = starts_with ''Error:'' s"

definition with_request_hint :: "string \<Rightarrow> string \<Rightarrow> string \<Rightarrow> string" where
  "with_request_hint result k examples =
     str_join [CHR 0x0A] [result, [], ''approval_request_id: '' @ k, examples]"

definition or_text :: "string option \<Rightarrow> string \<Rightarrow> string" where
  "or_text x d = (case x of None \<Rightarrow> d | Some s \<Rightarrow> if s = [] then d else s)"

text \<open>The hooks before a call: one throws, denies or asks, or the call goes on with its parameters.\<close>

datatype pre_outcome = PreThrown string | PreDenied string | PreAsked memory string | PrePassed memory

fun run_pre_hooks :: "'x pre_hook list \<Rightarrow> bool \<Rightarrow> string \<Rightarrow> tool_ctx option \<Rightarrow> memory \<Rightarrow> 'x \<Rightarrow> pre_outcome \<times> 'x" where
  "run_pre_hooks [] auto name ctx params w = (PrePassed params, w)"
| "run_pre_hooks (h # hs) auto name ctx params w = (case h name params ctx w of
       (Inl err, w) \<Rightarrow> (PreThrown err, w)
     | (Inr d, w) \<Rightarrow>
         if hk_permission d = Some HkDeny then (PreDenied (or_text (hk_reason d) ''blocked''), w)
         else if hk_permission d = Some HkAsk \<and> \<not> auto then (PreAsked params (or_text (hk_reason d) ''hook_requires_approval''), w)
         else run_pre_hooks hs auto name ctx (case hk_params d of None \<Rightarrow> params | Some u \<Rightarrow> fold (\<lambda>p. jset (fst p) (snd p)) u params) w)"

definition thrown_text :: "string \<Rightarrow> string \<Rightarrow> string" where
  "thrown_text name err = ''Error executing '' @ name @ '': '' @ err @ error_hint"

definition approve_params :: "memory \<Rightarrow> memory" where
  "approve_params params = jset ''__approved'' (JBool True) params"

definition ask_approval :: "string \<Rightarrow> int \<Rightarrow> string \<Rightarrow> memory \<Rightarrow> tool_ctx option \<Rightarrow> string \<Rightarrow> string \<Rightarrow> 'x registry \<Rightarrow> 'x
    \<Rightarrow> string \<times> 'x registry \<times> 'x" where
  "ask_approval k now name params ctx detail examples g w =
     (let r = create_approval_request k now name params ctx detail
      in (with_request_hint detail k examples, put_request r g, notify_approval_required g r w))"

text \<open>The call has passed the hooks. What the second run of an approved tool throws is not caught.\<close>

definition call_tool :: "string \<Rightarrow> int \<Rightarrow> 'x tool \<Rightarrow> string \<Rightarrow> memory \<Rightarrow> tool_ctx option \<Rightarrow> 'x registry \<Rightarrow> 'x
    \<Rightarrow> (string + string) \<times> 'x registry \<times> 'x" where
  "call_tool k now t name params ctx g w = (case tl_run t params ctx w of
       (Inl err, w) \<Rightarrow> (Inr (thrown_text name err), g, w)
     | (Inr result, w) \<Rightarrow>
         let w = fold (\<lambda>h. h name params result ctx (is_error_text result)) (rg_post g) w
         in if starts_with approval_required result
            then if name \<in> set (rg_auto g)
                 then (case tl_run t (approve_params params) ctx w of (r, w) \<Rightarrow> (r, g, w))
                 else (case ask_approval k now name params ctx result approval_examples g w of (text, g, w) \<Rightarrow> (Inr text, g, w))
            else (Inr (if is_error_text result then result @ error_hint else result), g, w))"

definition registry_execute :: "string \<Rightarrow> int \<Rightarrow> string \<Rightarrow> memory \<Rightarrow> tool_ctx option \<Rightarrow> 'x registry \<Rightarrow> 'x
    \<Rightarrow> (string + string) \<times> 'x registry \<times> 'x" where
  "registry_execute k now name params ctx g w = (case jget (rg_tools g) name of
       None \<Rightarrow> (Inr (''Error: Tool '' @ CHR 0x27 # name @ CHR 0x27 # '' not found. Available: '' @ str_join '', '' (tool_names g)), g, w)
     | Some t \<Rightarrow>
         if tl_validate t params \<noteq> []
         then (Inr (''Error: Invalid parameters for tool '' @ CHR 0x27 # name @ CHR 0x27 # '': '' @ str_join ''; '' (tl_validate t params) @ error_hint), g, w)
         else (case run_pre_hooks (rg_pre g) (name \<in> set (rg_auto g)) name ctx params w of
             (PreThrown err, w) \<Rightarrow> (Inr (thrown_text name err), g, w)
           | (PreDenied reason, w) \<Rightarrow> (Inr (''Error: denied by policy '' @ [CHR 0xE2, CHR 0x80, CHR 0x94] @ CHR '' '' # reason @ error_hint), g, w)
           | (PreAsked params reason, w) \<Rightarrow>
               (case ask_approval k now name params ctx
                     (str_join [CHR 0x0A] [approval_required, ''reason: '' @ reason, ''tool: '' @ name]) hook_examples g w of
                  (text, g, w) \<Rightarrow> (Inr text, g, w))
           | (PrePassed params, w) \<Rightarrow> call_tool k now t name params ctx g w))"

text \<open>A view of the registry for an agent that may use some of the tools.\<close>

definition filtered_definitions :: "(jsval \<Rightarrow> string) \<Rightarrow> string list \<Rightarrow> 'x registry \<Rightarrow> jsval list" where
  "filtered_definitions str allowed g = filter (\<lambda>d. text_of str (js_get d ''name'') \<in> set allowed) (get_definitions g)"

definition filtered_execute :: "string list \<Rightarrow> string \<Rightarrow> int \<Rightarrow> string \<Rightarrow> memory \<Rightarrow> tool_ctx option \<Rightarrow> 'x registry \<Rightarrow> 'x
    \<Rightarrow> (string + string) \<times> 'x registry \<times> 'x" where
  "filtered_execute allowed k now name params ctx g w =
     (if name \<notin> set allowed
      then (Inr (''Error: Tool '' @ CHR 0x27 # name @ CHR 0x27 # '' is not allowed. Allowed: '' @ str_join '', '' allowed), g, w)
      else registry_execute k now name params ctx g w)"

definition filtered_tool_names :: "string list \<Rightarrow> 'x registry \<Rightarrow> string list" where
  "filtered_tool_names allowed g = filter (\<lambda>n. n \<in> set allowed) (tool_names g)"

text \<open>The outcome of an approved call; no status is an unknown request.\<close>

record approved_run =
  rn_ok :: bool
  rn_status :: "approval_status option"
  rn_tool :: "string option"
  rn_result :: "string option"
  rn_error :: "string option"

definition status_text :: "approval_status \<Rightarrow> string" where
  "status_text s = (case s of ApPending \<Rightarrow> ''pending'' | ApApproved \<Rightarrow> ''approved'' | ApDenied \<Rightarrow> ''denied''
     | ApDeferred \<Rightarrow> ''deferred'' | ApCancelled \<Rightarrow> ''cancelled'' | ApClarify \<Rightarrow> ''clarify'')"

definition failed_run :: "approval_request \<Rightarrow> string \<Rightarrow> approved_run" where
  "failed_run r err = \<lparr>rn_ok = False, rn_status = Some (aq_status r), rn_tool = Some (aq_tool r), rn_result = None, rn_error = Some err\<rparr>"

definition finished_run :: "approval_request \<Rightarrow> string \<Rightarrow> approved_run" where
  "finished_run r result = \<lparr>rn_ok = True, rn_status = Some (aq_status r), rn_tool = Some (aq_tool r), rn_result = Some result, rn_error = None\<rparr>"

definition execute_approved_request :: "string \<Rightarrow> 'x registry \<Rightarrow> 'x \<Rightarrow> approved_run \<times> 'x" where
  "execute_approved_request k g w = (case jget (rg_requests g) k of
       None \<Rightarrow> (\<lparr>rn_ok = False, rn_status = None, rn_tool = None, rn_result = None, rn_error = Some ''approval_request_not_found''\<rparr>, w)
     | Some r \<Rightarrow>
         if aq_status r \<noteq> ApApproved then (failed_run r (''approval_not_approved:'' @ status_text (aq_status r)), w)
         else if aq_bridge r then (finished_run r ''bridge_approved'', w)
         else (case jget (rg_tools g) (aq_tool r) of
             None \<Rightarrow> (failed_run r (''tool_not_found:'' @ aq_tool r), w)
           | Some t \<Rightarrow> (case tl_run t (approve_params (aq_params r)) (aq_context r) w of
               (Inl err, w) \<Rightarrow> (failed_run r err, w)
             | (Inr result, w) \<Rightarrow>
                 (if starts_with approval_required result then failed_run r ''still_requires_approval''
                  else if is_error_text result then failed_run r result else finished_run r result, w))))"


section \<open>Tools that ask\<close>

text \<open>What a tool takes for an approval.\<close>

definition is_approved :: "(jsval \<Rightarrow> string) \<Rightarrow> memory \<Rightarrow> bool" where
  "is_approved str params \<longleftrightarrow> (let v = memory_at params ''__approved''
     in v = JBool True \<or> str_lower (str_trim (if js_truthy v then text_of str v else [])) = ''true'')"

definition approval_required_for_path :: "string \<Rightarrow> string \<Rightarrow> string" where
  "approval_required_for_path original resolved = str_join [CHR 0x0A]
     [approval_required, ''reason: path_outside_allowed_dir'', ''requested_path: '' @ resolved,
      ''action: Ask leader/user approval and re-run with __approved=true'', ''path: '' @ original]"

text \<open>\<open>resolve\<close> makes a path absolute, \<open>place\<close> puts a relative one into the workspace.\<close>

definition is_outside_allowed_dir :: "(string \<Rightarrow> string) \<Rightarrow> string \<Rightarrow> string option \<Rightarrow> bool" where
  "is_outside_allowed_dir resolve path allowed = (case allowed of None \<Rightarrow> False
     | Some dir \<Rightarrow> dir \<noteq> [] \<and> (let p = str_lower path; d = str_lower (resolve dir)
         in p \<noteq> d \<and> \<not> starts_with (d @ [CHR 0x5C]) p \<and> \<not> starts_with (d @ ''/'') p))"

definition resolve_path_with_approval :: "(jsval \<Rightarrow> string) \<Rightarrow> (string \<Rightarrow> string) \<Rightarrow> (string \<Rightarrow> string) \<Rightarrow> string option
    \<Rightarrow> string \<Rightarrow> memory \<Rightarrow> string + string" where
  "resolve_path_with_approval str resolve place allowed original params =
     (let path = resolve (place original)
      in if \<not> is_outside_allowed_dir resolve path allowed \<or> is_approved str params then Inr path
         else Inl (approval_required_for_path original path))"

definition dynamic_run :: "bool \<Rightarrow> (memory \<Rightarrow> 'x \<Rightarrow> (string + string) \<times> 'x) \<Rightarrow> memory \<Rightarrow> 'x \<Rightarrow> (string + string) \<times> 'x" where
  "dynamic_run requires_approval shell params w =
     (if requires_approval \<and> memory_at params ''__approved'' \<noteq> JBool True
      then (Inr (str_join [CHR 0x0A] [approval_required, ''reason: dynamic tool marked as write-risk or external-risk'',
              ''action: Ask leader/user approval and re-run with __approved=true'']), w)
      else shell params w)"

end
