(* ===== verification/ToolRegistryCorrect.thy ===== *)
theory ToolRegistryCorrect
  imports ToolRegistry
begin

text \<open>
  What the registry guarantees of calls that wait for approval: every caller that waits is answered
  once, a call that a hook asks about runs after an approval only and with the parameters it was asked
  about; and what it does not: a refusal can approve, an approval can go around a later hook or be
  written into the parameters by the model itself.
\<close>

section \<open>Every waiting caller is answered once\<close>

datatype 'x registry_op =
    RoCall string int string memory "tool_ctx option"
  | RoBridge string int string string "tool_ctx option"
  | RoReply string string
  | RoTimeout string
  | RoExpire int int
  | RoRegister "'x tool"
  | RoUnregister string
  | RoDynamic "'x tool list"

text \<open>Ids of requests are new.\<close>

fun registry_step :: "'x registry_op \<Rightarrow> 'x registry \<times> 'x \<Rightarrow> 'x registry \<times> 'x" where
  "registry_step (RoCall k now name params ctx) (g, w) =
     (if jhas (rg_requests g) k then (g, w) else snd (registry_execute k now name params ctx g w))"
| "registry_step (RoBridge k now tool detail ctx) (g, w) =
     (if jhas (rg_requests g) k then (g, w) else register_approval_with_callback k now tool detail ctx g w)"
| "registry_step (RoReply k response) (g, w) = (snd (resolve_approval_request k response g), w)"
| "registry_step (RoTimeout k) (g, w) = (approval_timeout k g, w)"
| "registry_step (RoExpire now ttl) (g, w) = (snd (expire_stale_approvals now ttl g), w)"
| "registry_step (RoRegister t) (g, w) = (register_tool t g, w)"
| "registry_step (RoUnregister name) (g, w) = (unregister_tool name g, w)"
| "registry_step (RoDynamic ts) (g, w) = (set_dynamic_tools ts g, w)"

definition bridged :: "'x registry \<Rightarrow> string \<Rightarrow> bool" where
  "bridged g k \<longleftrightarrow> (\<exists>r. jget (rg_requests g) k = Some r \<and> aq_bridge r)"

definition registry_ok :: "'x registry \<Rightarrow> bool" where
  "registry_ok g \<longleftrightarrow> distinct (rg_waiting g) \<and> distinct (map fst (rg_decided g))
     \<and> set (rg_waiting g) \<inter> set (map fst (rg_decided g)) = {}
     \<and> (\<forall>k. bridged g k \<longleftrightarrow> k \<in> set (rg_waiting g) \<or> k \<in> set (map fst (rg_decided g)))
     \<and> (\<forall>k \<in> set (rg_waiting g). map_option aq_status (jget (rg_requests g) k) = Some ApPending)"

text \<open>Operations that touch none of the requests and callers.\<close>

definition same_requests :: "'x registry \<Rightarrow> 'x registry \<Rightarrow> bool" where
  "same_requests g g' \<longleftrightarrow> rg_requests g' = rg_requests g \<and> rg_waiting g' = rg_waiting g \<and> rg_decided g' = rg_decided g"

lemma registry_ok_same: "registry_ok g \<Longrightarrow> same_requests g g' \<Longrightarrow> registry_ok g'"
  by (simp add: registry_ok_def same_requests_def bridged_def)

lemma same_requests_tools [simp]:
  "same_requests g (register_tool t g)" "same_requests g (unregister_tool name g)" "same_requests g (set_dynamic_tools ts g)"
proof -
  have "same_requests h (fold add_dynamic_tool ts h)" for h
    by (induction ts arbitrary: h) (auto simp: same_requests_def add_dynamic_tool_def)
  from this[of "g\<lparr>rg_tools := filter (\<lambda>p. fst p \<notin> set (rg_dynamic g)) (rg_tools g), rg_dynamic := []\<rparr>"]
  show "same_requests g (set_dynamic_tools ts g)" by (simp add: set_dynamic_tools_def same_requests_def)
qed (simp_all add: same_requests_def register_tool_def unregister_tool_def)

text \<open>A call asks for at most one approval, of its own.\<close>

lemma execute_requests:
  "case registry_execute k now name params ctx g w of (res, g', w') \<Rightarrow>
     g' = g \<or> (\<exists>r. g' = put_request r g \<and> aq_id r = k \<and> \<not> aq_bridge r \<and> aq_status r = ApPending)"
  by (auto simp: registry_execute_def call_tool_def ask_approval_def create_approval_request_def Let_def
      split: option.split prod.split sum.split pre_outcome.split)

lemma registry_ok_request:
  assumes "registry_ok g" and "\<not> jhas (rg_requests g) k" and "aq_id r = k" and "\<not> aq_bridge r"
  shows "registry_ok (put_request r g)"
proof -
  have b: "bridged (put_request r g) = bridged g" using assms(2,3,4) by (auto simp: bridged_def put_request_def jhas_def fun_eq_iff)
  have k: "k \<notin> set (rg_waiting g)" using assms(1,2) by (force simp: registry_ok_def bridged_def jhas_def)
  show ?thesis using assms(1,3) b k unfolding registry_ok_def by (auto simp: put_request_def)
qed

lemma registry_ok_bridge:
  assumes "registry_ok g" and "\<not> jhas (rg_requests g) k"
  shows "registry_ok (fst (register_approval_with_callback k now tool detail ctx g w))"
proof -
  have k: "k \<notin> set (rg_waiting g)" "k \<notin> set (map fst (rg_decided g))"
    using assms by (force simp: registry_ok_def bridged_def jhas_def)+
  have b: "bridged (fst (register_approval_with_callback k now tool detail ctx g w)) x \<longleftrightarrow> x = k \<or> bridged g x" for x
    using assms(2) by (auto simp: register_approval_with_callback_def bridged_def put_request_def create_approval_request_def Let_def jhas_def)
  show ?thesis using assms(1) k b
    unfolding registry_ok_def
    by (auto simp: register_approval_with_callback_def put_request_def create_approval_request_def Let_def)
qed

text \<open>Changing the status of a request and answering its caller.\<close>

lemma registry_ok_answer:
  assumes "registry_ok g" and "jget (rg_requests g) k = Some r"
    and "rg_requests h = jset k r' (rg_requests g)" and "aq_bridge r' = aq_bridge r" and "rg_waiting h = rg_waiting g" and "rg_decided h = rg_decided g"
  shows "registry_ok (answer_waiting k d h)"
proof -
  have b: "bridged h x = bridged g x" for x using assms(2,3,4) by (auto simp: bridged_def)
  have b': "bridged (answer_waiting k d h) x = bridged g x" for x using b[of x] by (simp add: answer_waiting_def bridged_def)
  show ?thesis
  proof (cases "k \<in> set (rg_waiting g)")
    case True
    then have w: "rg_waiting (answer_waiting k d h) = filter (\<lambda>w. w \<noteq> k) (rg_waiting g)"
        "rg_decided (answer_waiting k d h) = rg_decided g @ [(k, d)]" "rg_requests (answer_waiting k d h) = jset k r' (rg_requests g)"
      using assms(3,5,6) by (simp_all add: answer_waiting_def)
    show ?thesis using assms(1) True unfolding registry_ok_def b' w by auto
  next
    case False
    then have "answer_waiting k d h = h" using assms(5) by (simp add: answer_waiting_def)
    then show ?thesis using assms(1,3,5,6) False b unfolding registry_ok_def by auto
  qed
qed

lemma registry_ok_resolve:
  assumes "registry_ok g"
  shows "registry_ok (snd (resolve_approval_request k response g))"
proof (cases "jget (rg_requests g) k")
  case (Some r)
  then show ?thesis by (auto simp: resolve_approval_request_def Let_def intro!: registry_ok_answer[OF assms Some])
qed (simp add: resolve_approval_request_def assms)

lemma registry_ok_timeout:
  assumes "registry_ok g"
  shows "registry_ok (approval_timeout k g)"
proof (cases "k \<in> set (rg_waiting g)")
  case True
  then obtain r where r: "jget (rg_requests g) k = Some r" "aq_status r = ApPending" using assms by (auto simp: registry_ok_def)
  with True show ?thesis by (auto simp: approval_timeout_def intro!: registry_ok_answer[OF assms r(1)])
qed (simp add: approval_timeout_def assms)

lemma registry_ok_expire:
  fixes g :: "'x registry"
  assumes "registry_ok g"
  shows "registry_ok (snd (expire_stale_approvals now ttl g))"
proof -
  have one: "registry_ok (snd (expire_request now ttl k p))" if "registry_ok (snd p)" for k and p :: "nat \<times> 'x registry"
  proof (cases "jget (rg_requests (snd p)) k")
    case (Some r)
    then show ?thesis using that by (auto simp: expire_request_def intro!: registry_ok_answer[OF that Some])
  qed (simp add: expire_request_def that)
  have "registry_ok (snd (fold (expire_request now ttl) ks p))" if "registry_ok (snd p)" for ks and p :: "nat \<times> 'x registry"
    using that by (induction ks arbitrary: p) (simp_all add: one)
  then show ?thesis using assms by (simp add: expire_stale_approvals_def)
qed

interpretation approvals: machine registry_step "\<lambda>s. registry_ok (fst s)"
proof
  fix s :: "'x registry \<times> 'x" and e :: "'x registry_op"
  obtain g w where s: "s = (g, w)" by fastforce
  assume "registry_ok (fst s)"
  then have ok: "registry_ok g" using s by simp
  show "registry_ok (fst (registry_step e s))"
  proof (cases e)
    case (RoCall k now name params ctx)
    obtain res g' w' where x: "registry_execute k now name params ctx g w = (res, g', w')" by (metis prod_cases3)
    have "g' = g \<or> (\<exists>r. g' = put_request r g \<and> aq_id r = k \<and> \<not> aq_bridge r \<and> aq_status r = ApPending)"
      using execute_requests[where k = k and now = now and name = name and params = params and ctx = ctx and g = g and w = w] x by simp
    then have "registry_ok g'" if "\<not> jhas (rg_requests g) k"
      using registry_ok_request[OF ok that] ok by auto
    with RoCall s x ok show ?thesis by simp
  qed (use s ok registry_ok_bridge[OF ok] registry_ok_resolve[OF ok] registry_ok_timeout[OF ok] registry_ok_expire[OF ok]
      registry_ok_same[OF ok same_requests_tools(1)] registry_ok_same[OF ok same_requests_tools(2)] registry_ok_same[OF ok same_requests_tools(3)] in auto)
qed

text \<open>
  C14. In every run of the registry, whatever is called, answered, timed out, swept and registered: a
  request whose caller waits is pending, and a caller that no longer waits was given exactly one decision.
\<close>

theorem callers_answered_once:
  "let g = fst (run_steps registry_step es (registry_new pre post notify, w)) in
     \<forall>k r. jget (rg_requests g) k = Some r \<longrightarrow> aq_bridge r \<longrightarrow>
       (if k \<in> set (rg_waiting g) then aq_status r = ApPending \<and> jget (rg_decided g) k = None
        else \<exists>!d. (k, d) \<in> set (rg_decided g))"
proof -
  let ?g = "fst (run_steps registry_step es (registry_new pre post notify, w))"
  have "registry_ok (fst (registry_new pre post notify, w))" by (simp add: registry_ok_def registry_new_def bridged_def)
  then have ok: "registry_ok ?g" by (rule approvals.inv_run)
  have "if k \<in> set (rg_waiting ?g) then aq_status r = ApPending \<and> jget (rg_decided ?g) k = None
        else \<exists>!d. (k, d) \<in> set (rg_decided ?g)"
    if r: "jget (rg_requests ?g) k = Some r" "aq_bridge r" for k r
  proof (cases "k \<in> set (rg_waiting ?g)")
    case True
    then have "k \<notin> fst ` set (rg_decided ?g)" using ok by (auto simp: registry_ok_def)
    then have "jget (rg_decided ?g) k = None" by (simp add: map_of_eq_None_iff)
    with True ok r show ?thesis by (force simp: registry_ok_def)
  next
    case False
    then have "k \<in> set (map fst (rg_decided ?g))" using ok r by (auto simp: registry_ok_def bridged_def)
    then obtain d where d: "(k, d) \<in> set (rg_decided ?g)" by auto
    have "d' = d" if "(k, d') \<in> set (rg_decided ?g)" for d'
      using ok d that by (auto simp: registry_ok_def dest: eq_key_imp_eq_value)
    with d False show ?thesis by auto
  qed
  then show ?thesis by (simp add: Let_def)
qed

definition demo_ctx :: tool_ctx where
  "demo_ctx = \<lparr>tx_task = Some ''t1'', tx_channel = Some ''slack'', tx_chat = Some ''c'', tx_team = None\<rparr>"

theorem callers_answered_once_witness:
  "let g = fst (run_steps registry_step [RoBridge ''k1'' 5 ''exec'' ''run'' (Some demo_ctx), RoReply ''k1'' ''yes'', RoTimeout ''k1'']
       (registry_new [] [] None, 0 :: nat))
   in rg_decided g = [(''k1'', AdApprove)] \<and> (\<exists>!d. (''k1'', d) \<in> set (rg_decided g))"
proof -
  let ?es = "[RoBridge ''k1'' 5 ''exec'' ''run'' (Some demo_ctx), RoReply ''k1'' ''yes'', RoTimeout ''k1''] :: nat registry_op list"
  let ?g = "fst (run_steps registry_step ?es (registry_new [] [] None, 0))"
  have g: "rg_waiting ?g = []" "rg_decided ?g = [(''k1'', AdApprove)]" "map_option aq_bridge (jget (rg_requests ?g) ''k1'') = Some True"
    by code_simp+
  from g(3) obtain r where r: "jget (rg_requests ?g) ''k1'' = Some r" "aq_bridge r" by auto
  note once = callers_answered_once[where es = ?es and pre = "[]" and post = "[]" and notify = None and w = "0 :: nat",
      unfolded Let_def, rule_format, OF r]
  from once show ?thesis unfolding Let_def g(1) using g(2) by simp
qed


section \<open>A call that is asked about\<close>

text \<open>What an approved request does when it runs.\<close>

definition approved_effect :: "'x tool \<Rightarrow> memory \<Rightarrow> tool_ctx option \<Rightarrow> 'x \<Rightarrow> 'x" where
  "approved_effect t params ctx w = snd (tl_run t (approve_params params) ctx w)"

lemma resolve_status:
  assumes "jget (rg_requests g) k = Some r" and "resolve_approval_request k response g = (a, g')"
  shows "jget (rg_requests g') k = Some (r\<lparr>aq_status := as_status a, aq_response := Some (response, parse_approval_response response)\<rparr>)
    \<and> as_status a = status_of (ap_decision (parse_approval_response response)) \<and> rg_tools g' = rg_tools g"
  using assms by (auto simp: resolve_approval_request_def Let_def answer_waiting_def)

text \<open>
  C11. A call that a hook asks about waits for its approval: the tool has not run, the request is stored
  under its id with the parameters the hook saw, running it is refused and without effect while nothing
  is decided, and after a reply it has an effect only if the reply approves, which is the tool's on
  those parameters, marked as approved.
\<close>

theorem asked_call_waits:
  assumes "jget (rg_tools g) name = Some t" and "tl_validate t params = []"
    and "run_pre_hooks (rg_pre g) (name \<in> set (rg_auto g)) name ctx params w = (PreAsked p reason, w')"
    and "registry_execute k now name params ctx g w = (res, g', w'')"
    and "resolve_approval_request k response g' = (a, g2)"
  shows "(\<exists>r. jget (rg_requests g') k = Some r \<and> aq_status r = ApPending \<and> aq_params r = p \<and> w'' = notify_approval_required g r w')
    \<and> \<not> rn_ok (fst (execute_approved_request k g' v)) \<and> snd (execute_approved_request k g' v) = v
    \<and> (if as_decision a \<in> {AdApprove, AdApproveAll} then snd (execute_approved_request k g2 v) = approved_effect t p ctx v
       else \<not> rn_ok (fst (execute_approved_request k g2 v)) \<and> snd (execute_approved_request k g2 v) = v)"
proof -
  let ?d = "str_join [CHR 0x0A] [approval_required, ''reason: '' @ reason, ''tool: '' @ name]"
  let ?r = "create_approval_request k now name p ctx ?d"
  have x: "g' = put_request ?r g" "w'' = notify_approval_required g ?r w'"
    using assms(1-4) by (auto simp: registry_execute_def ask_approval_def Let_def)
  have r: "jget (rg_requests g') k = Some ?r" by (simp add: x(1) put_request_def create_approval_request_def)
  have fields: "aq_status ?r = ApPending" "aq_params ?r = p" "aq_tool ?r = name" "aq_context ?r = ctx" "\<not> aq_bridge ?r"
    by (simp_all add: create_approval_request_def)
  have pend: "\<not> rn_ok (fst (execute_approved_request k g' v)) \<and> snd (execute_approved_request k g' v) = v"
    using r fields by (simp add: execute_approved_request_def failed_run_def)
  have t: "jget (rg_tools g2) name = Some t" and r2: "jget (rg_requests g2) k = Some (?r\<lparr>aq_status := as_status a,
      aq_response := Some (response, parse_approval_response response)\<rparr>)"
    and st: "as_status a = status_of (ap_decision (parse_approval_response response))"
    using resolve_status[OF r assms(5)] assms(1) x(1) by (simp_all add: put_request_def)
  have dec: "as_decision a = ap_decision (parse_approval_response response)"
    using assms(5) r by (auto simp: resolve_approval_request_def Let_def)
  have "if as_decision a \<in> {AdApprove, AdApproveAll} then snd (execute_approved_request k g2 v) = approved_effect t p ctx v
       else \<not> rn_ok (fst (execute_approved_request k g2 v)) \<and> snd (execute_approved_request k g2 v) = v"
  proof (cases "as_decision a \<in> {AdApprove, AdApproveAll}")
    case True
    then have "as_status a = ApApproved" using st dec by (auto simp: status_of_def)
    with True r2 t fields show ?thesis
      by (simp add: execute_approved_request_def approved_effect_def split: prod.split sum.split)
  next
    case False
    then have "as_status a \<noteq> ApApproved" using st dec by (cases "as_decision a") (auto simp: status_of_def)
    with False r2 fields show ?thesis by (simp add: execute_approved_request_def failed_run_def)
  qed
  with r x(2) fields(1,2) pend show ?thesis by blast
qed

text \<open>A tool that counts its runs, behind a hook that asks.\<close>

definition demo_tool :: "nat tool" where
  "demo_tool = \<lparr>tl_name = ''deploy'', tl_category = ''external'', tl_schema = JNull, tl_validate = (\<lambda>p. []),
     tl_run = (\<lambda>p ctx n. (Inr ''ok'', Suc n)), tl_takes_resolver = False, tl_resolver = None\<rparr>"

definition asking_hook :: "nat pre_hook" where
  "asking_hook name params ctx w = (Inr \<lparr>hk_permission = Some HkAsk, hk_reason = Some ''write'', hk_params = None\<rparr>, w)"

definition denying_hook :: "nat pre_hook" where
  "denying_hook name params ctx w = (Inr \<lparr>hk_permission = Some HkDeny, hk_reason = None, hk_params = None\<rparr>, w)"

definition demo_registry :: "nat pre_hook list \<Rightarrow> nat registry" where
  "demo_registry hooks = register_tool demo_tool (registry_new hooks [] None)"

theorem asked_call_waits_witness:
  "let (res, g', w'') = registry_execute ''k1'' 5 ''deploy'' [] (Some demo_ctx) (demo_registry [asking_hook]) 0
   in w'' = 0 \<and> snd (execute_approved_request ''k1'' (snd (resolve_approval_request ''k1'' ''approve'' g')) 7) = 8"
proof -
  let ?g = "demo_registry [asking_hook]"
  obtain res g' w'' where x: "registry_execute ''k1'' 5 ''deploy'' [] (Some demo_ctx) ?g 0 = (res, g', w'')" by (metis prod_cases3)
  obtain a g2 where y: "resolve_approval_request ''k1'' ''approve'' g' = (a, g2)" by fastforce
  have t: "jget (rg_tools ?g) ''deploy'' = Some demo_tool"
    by (simp add: demo_registry_def register_tool_def registry_new_def demo_tool_def inject_resolver_def)
  have v: "tl_validate demo_tool [] = []" by (simp add: demo_tool_def)
  have h: "run_pre_hooks (rg_pre ?g) (''deploy'' \<in> set (rg_auto ?g)) ''deploy'' (Some demo_ctx) [] 0 = (PreAsked [] ''write'', 0)"
    by (simp add: demo_registry_def register_tool_def registry_new_def asking_hook_def or_text_def)
  have n: "rg_notify ?g = None" by (simp add: demo_registry_def register_tool_def registry_new_def)
  note w = asked_call_waits[OF t v h x y, of 7]
  have "ap_decision (parse_approval_response ''approve'') = AdApprove" by code_simp
  then have "as_decision a = AdApprove" using w y by (auto simp: resolve_approval_request_def Let_def)
  with w n show ?thesis unfolding x
    by (auto simp: y approved_effect_def demo_tool_def notify_approval_required_def)
qed


section \<open>What an approval does not cover\<close>

text \<open>
  The hooks after the one that asks are not consulted, neither before the question nor after the
  approval: a call that a later hook denies runs when it is approved.
\<close>

lemma approval_skips_later_hooks:
  "let (res, g', w) = registry_execute ''k1'' 5 ''deploy'' [] None (demo_registry [asking_hook, denying_hook]) 0;
       g2 = snd (resolve_approval_request ''k1'' ''yes'' g')
   in w = 0 \<and> rn_ok (fst (execute_approved_request ''k1'' g2 w)) \<and> snd (execute_approved_request ''k1'' g2 w) = 1
    \<and> snd (snd (registry_execute ''k2'' 5 ''deploy'' [] None (demo_registry [denying_hook, asking_hook]) 0)) = 0"
  by code_simp

text \<open>
  A model that adds the mark of an approval to its own parameters runs a tool that requires approval: the
  check of the parameters lets it pass and nothing is asked.
\<close>

lemma approval_by_parameter:
  assumes "jget (rg_tools g) name = Some t" and "rg_pre g = []"
    and "tl_validate t = validate_params e s" and "tl_run t = (\<lambda>p ctx. run_with_params e s None (dynamic_run True shell) p)"
    and "map_of (ps_properties s) ''__approved'' = None" and "''__approved'' \<notin> set (ps_required s)" and "pl_enum (ps_rules s) = None"
    and "distinct (map fst (ps_properties s))" and "\<not> jhas params ''__approved''" and "validate_params e s params = []"
    and "shell (params @ [(''__approved'', JBool True)]) w = (Inr out, w')" and "\<not> is_error_text out"
  shows "registry_execute k now name (params @ [(''__approved'', JBool True)]) ctx g w
      = (Inr out, g, fold (\<lambda>h. h name (params @ [(''__approved'', JBool True)]) out ctx False) (rg_post g) w')"
proof -
  let ?p = "params @ [(''__approved'', JBool True)]"
  have v: "validate_params e s ?p = []" using undeclared_params_ignored[OF assms(5,6,9,7)] assms(10) by simp
  have "memory_at ?p ''__approved'' = JBool True" using assms(9) by (simp add: memory_at_def jhas_def map_add_def map_of_append split: option.split)
  then have run: "tl_run t ?p ctx w = (Inr out, w')"
    using assms(4,11) checked_params_reach_tool[OF v assms(8), where run = "dynamic_run True shell" and w = w] by (simp add: dynamic_run_def)
  have "\<not> starts_with approval_required out" using assms(12) by (auto simp: is_error_text_def approval_required_def starts_with_iff)
  with run v assms(1,2,3,12) show ?thesis by (simp add: registry_execute_def call_tool_def)
qed

text \<open>The view of an agent with a list of allowed tools offers none of them.\<close>

definition tool_schema :: "string \<Rightarrow> string \<Rightarrow> jsval \<Rightarrow> jsval" where
  "tool_schema name description parameters = JObj [(''type'', JStr ''function''),
     (''function'', JObj [(''name'', JStr name), (''description'', JStr description), (''parameters'', parameters)])]"

lemma filtered_definitions_empty:
  assumes "\<forall>t \<in> set (jvals (rg_tools g)). \<exists>d p. tl_schema t = tool_schema (tl_name t) d p" and "[] \<notin> set allowed"
  shows "filtered_definitions str allowed g = []"
  using assms by (auto simp: filtered_definitions_def get_definitions_def filter_empty_conv tool_schema_def js_get_def text_of_def)

text \<open>
  A reply that decides nothing is taken as the answer the caller waits for, although the request stays
  pending; an approval that follows is confirmed and reported as run, and reaches nobody.
\<close>

lemma chatter_spends_decision:
  "let (g, w) = register_approval_with_callback ''k1'' 5 ''exec'' ''run'' None (registry_new [] [] None) (0 :: nat);
       (a1, g1) = resolve_approval_request ''k1'' ''hello there'' g;
       (a2, g2) = resolve_approval_request ''k1'' ''yes'' g1
   in \<not> as_ok a1 \<and> as_ok a2 \<and> as_status a2 = ApApproved \<and> rg_decided g2 = [(''k1'', AdUnknown)]
    \<and> rn_ok (fst (execute_approved_request ''k1'' g2 w))"
  by code_simp

end
