(* ===== verification/Approvals.thy ===== *)
theory Approvals
  imports ToolRegistryCorrect
begin

text \<open>
  \<open>src/src/channels/approval.service.ts\<close>: replies and reactions in a chat decide about the calls that
  wait there. With it, what a native backend makes of a decision
  (\<open>src/src/orchestration/agent-hooks-builder.ts\<close>).

  The message sent back goes out; a failure to send it is left out.
\<close>

section \<open>The id in a text\<close>

text \<open>The separator in \<open>request_id\<close>, and the words of an id with what follows.\<close>

definition id_separator :: "char \<Rightarrow> bool" where
  "id_separator c \<longleftrightarrow> c = CHR ''_'' \<or> c = CHR ''-'' \<or> is_ws c"

definition id_char :: "char \<Rightarrow> bool" where
  "id_char c \<longleftrightarrow> c \<in> set ''abcdefghijklmnopqrstuvwxyz0123456789-ABCDEFGHIJKLMNOPQRSTUVWXYZ''"

definition drop_separator :: "string \<Rightarrow> string" where
  "drop_separator s = (case s of [] \<Rightarrow> [] | c # r \<Rightarrow> if id_separator c then r else s)"

definition drop_prefix_ci :: "string \<Rightarrow> string \<Rightarrow> string option" where
  "drop_prefix_ci p s = (if starts_with p (str_lower (take (length p) s)) then Some (drop (length p) s) else None)"

text \<open>A word boundary between the end of one text and the start of another.\<close>

definition boundary :: "string \<Rightarrow> string \<Rightarrow> bool" where
  "boundary before after \<longleftrightarrow>
     (before \<noteq> [] \<and> word_char (last before)) \<noteq> (case after of [] \<Rightarrow> False | c # _ \<Rightarrow> word_char c)"

fun longest_id :: "nat \<Rightarrow> string \<Rightarrow> string option" where
  "longest_id n s = (if n < 6 then None
     else if boundary (take n s) (drop n s) then Some (take n s) else longest_id (n - 1) s)"

declare longest_id.simps [simp del]

definition id_after_colon :: "string \<Rightarrow> string option" where
  "id_after_colon s = (case dropWhile is_ws s of
       [] \<Rightarrow> None
     | c # r \<Rightarrow> if c = CHR '':'' \<or> c = CHR ''=''
         then (let v = dropWhile is_ws r in longest_id (length (takeWhile id_char v)) v) else None)"

definition request_id_at :: "string \<Rightarrow> string option" where
  "request_id_at s = (case drop_prefix_ci ''request'' s of None \<Rightarrow> None
     | Some r \<Rightarrow> (case drop_prefix_ci ''id'' (drop_separator r) of None \<Rightarrow> None | Some v \<Rightarrow> id_after_colon v))"

definition approval_request_id_at :: "string \<Rightarrow> string option" where
  "approval_request_id_at s = (case drop_prefix_ci ''approval'' s of None \<Rightarrow> None
     | Some r \<Rightarrow> request_id_at (drop_separator r))"

text \<open>The first place of a word where a pattern matches.\<close>

fun find_at_word :: "bool \<Rightarrow> (string \<Rightarrow> string option) \<Rightarrow> string \<Rightarrow> string option" where
  "find_at_word start f [] = None"
| "find_at_word start f (c # s) = (case (if start then f (c # s) else None) of
       Some x \<Rightarrow> Some x
     | None \<Rightarrow> find_at_word (\<not> word_char c) f s)"

definition extract_request_id :: "string \<Rightarrow> string option" where
  "extract_request_id text = (case find_at_word True request_id_at text of
       Some x \<Rightarrow> Some x
     | None \<Rightarrow> find_at_word True approval_request_id_at text)"


section \<open>Reactions\<close>

definition emoji_to_reaction :: "(string, string) jmap" where
  "emoji_to_reaction =
     [([CHR 0xF0, CHR 0x9F, CHR 0x91, CHR 0x8D], ''thumbsup''),
      ([CHR 0xE2, CHR 0x9C, CHR 0x85], ''white_check_mark''),
      ([CHR 0xE2, CHR 0x9C, CHR 0x94, CHR 0xEF, CHR 0xB8, CHR 0x8F], ''heavy_check_mark''),
      ([CHR 0xF0, CHR 0x9F, CHR 0x92, CHR 0x9A], ''green_heart''),
      ([CHR 0xF0, CHR 0x9F, CHR 0x9F, CHR 0xA2], ''large_green_circle''),
      ([CHR 0xF0, CHR 0x9F, CHR 0x91, CHR 0x8C], ''ok_hand''),
      ([CHR 0xE2, CHR 0x9D, CHR 0x8C], ''x''),
      ([CHR 0xF0, CHR 0x9F, CHR 0x91, CHR 0x8E], ''thumbsdown''),
      ([CHR 0xE2, CHR 0x9B, CHR 0x94], ''no_entry''),
      ([CHR 0xF0, CHR 0x9F, CHR 0x9A, CHR 0xAB], ''no_entry_sign''),
      ([CHR 0xF0, CHR 0x9F, CHR 0x94, CHR 0xB4], ''red_circle''),
      ([CHR 0xE2, CHR 0x8F, CHR 0xB8, CHR 0xEF, CHR 0xB8, CHR 0x8F], ''pause_button''),
      ([CHR 0xE2, CHR 0x8F, CHR 0xB3], ''hourglass_flowing_sand''),
      ([CHR 0xE2, CHR 0x8C, CHR 0x9B], ''hourglass''),
      ([CHR 0xF0, CHR 0x9F, CHR 0xA4, CHR 0x94], ''thinking_face''),
      ([CHR 0xF0, CHR 0x9F, CHR 0x9B, CHR 0x91], ''octagonal_sign'')]"

datatype reaction_meta = SlackReactions "string list" | TelegramReactions "string list" | DiscordReactions "string list" | NoReactions

definition extract_reaction_names :: "reaction_meta \<Rightarrow> string list" where
  "extract_reaction_names m = (case m of
       SlackReactions ns \<Rightarrow> filter (\<lambda>n. n \<noteq> []) (map (\<lambda>n. str_lower (str_trim n)) ns)
     | TelegramReactions es \<Rightarrow> filter (\<lambda>n. n \<noteq> []) (map (\<lambda>e. case jget emoji_to_reaction e of Some n \<Rightarrow> n | None \<Rightarrow> e) es)
     | DiscordReactions ns \<Rightarrow> filter (\<lambda>n. n \<noteq> []) (map (\<lambda>n. str_lower (str_trim n)) ns)
     | NoReactions \<Rightarrow> [])"

definition approve_reactions :: "string list" where
  "approve_reactions = [''white_check_mark'', ''heavy_check_mark'', ''thumbsup'', ''+1'', ''green_heart'', ''large_green_circle'', ''ok_hand'']"

definition deny_reactions :: "string list" where
  "deny_reactions = [''x'', ''thumbsdown'', ''-1'', ''no_entry'', ''no_entry_sign'', ''red_circle'']"

definition defer_reactions :: "string list" where
  "defer_reactions = [''hourglass_flowing_sand'', ''hourglass'', ''pause_button'', ''thinking_face'']"

definition cancel_reactions :: "string list" where
  "cancel_reactions = [''octagonal_sign'', ''stop_sign'']"

definition is_control_stop_reaction :: "string list \<Rightarrow> bool" where
  "is_control_stop_reaction names \<longleftrightarrow> (\<exists>n \<in> set cancel_reactions. n \<in> set names)"

definition reaction_to_decision :: "string list \<Rightarrow> approval_decision option" where
  "reaction_to_decision names =
     (if \<exists>n \<in> set approve_reactions. n \<in> set names then Some AdApprove
      else if \<exists>n \<in> set deny_reactions. n \<in> set names then Some AdDeny
      else if \<exists>n \<in> set defer_reactions. n \<in> set names then Some AdDefer
      else if \<exists>n \<in> set cancel_reactions. n \<in> set names then Some AdCancel else None)"

definition decision_name :: "approval_decision \<Rightarrow> string" where
  "decision_name d = (case d of AdApprove \<Rightarrow> ''approve'' | AdApproveAll \<Rightarrow> ''approve_all'' | AdDeny \<Rightarrow> ''deny'' | AdDefer \<Rightarrow> ''defer''
     | AdCancel \<Rightarrow> ''cancel'' | AdClarify \<Rightarrow> ''clarify'' | AdUnknown \<Rightarrow> ''unknown'')"

text \<open>The text a reaction is turned into.\<close>

definition decision_emoji :: "approval_decision \<Rightarrow> string" where
  "decision_emoji d = (case d of AdApprove \<Rightarrow> [CHR 0xE2, CHR 0x9C, CHR 0x85] | AdDeny \<Rightarrow> [CHR 0xE2, CHR 0x9D, CHR 0x8C]
     | AdDefer \<Rightarrow> [CHR 0xE2, CHR 0x8F, CHR 0xB8, CHR 0xEF, CHR 0xB8, CHR 0x8F] | _ \<Rightarrow> [CHR 0xE2, CHR 0x9B, CHR 0x94])"


section \<open>The service\<close>

record approval_message =
  am_chat :: string
  am_content :: string
  am_reactions :: reaction_meta

record approval_notice =
  an_provider :: string
  an_chat :: string
  an_content :: string
  an_request :: string
  an_tool :: string
  an_decision :: approval_decision

record 'x approval_service =
  sv_runtime :: bool
  sv_registry :: "'x registry"
  sv_world :: 'x
  sv_seen :: "(string, int) jmap"
  sv_sent :: "approval_notice list"

record handle_result =
  hr_handled :: bool
  hr_task :: "string option"
  hr_tool_result :: "string option"
  hr_status :: "approval_status option"

definition not_handled :: handle_result where
  "not_handled = \<lparr>hr_handled = False, hr_task = None, hr_tool_result = None, hr_status = None\<rparr>"

definition failure_text :: "string \<Rightarrow> approval_request \<Rightarrow> approved_run \<Rightarrow> string" where
  "failure_text source r x = [CHR 0xF0, CHR 0x9F, CHR 0x94, CHR 0xB4] @ '' '' @ [CHR 0xEC, CHR 0x8A, CHR 0xB9, CHR 0xEC, CHR 0x9D, CHR
     0xB8] @ '' '' @ [CHR 0xEB, CHR 0xB0, CHR 0x98, CHR 0xEC, CHR 0x98, CHR 0x81] @ '' '' @ [CHR 0xEC, CHR 0x8B,
     CHR 0xA4, CHR 0xED, CHR 0x8C, CHR 0xA8] @ ''('' @ source
     @ '') '' @ [CHR 0xC2, CHR 0xB7] @ '' tool='' @ or_text (rn_tool x) (aq_tool r) @ [CHR 0x0A] @ take 220 (or_text (rn_error x) ''unknown_error'')"

definition decision_text :: "string \<Rightarrow> approval_request \<Rightarrow> approval_status \<Rightarrow> string" where
  "decision_text source r status =
     (case status of
        ApDenied \<Rightarrow> [CHR 0xE2, CHR 0x9D, CHR 0x8C] @ '' '' @ [CHR 0xEC, CHR 0x8A, CHR 0xB9, CHR 0xEC, CHR 0x9D, CHR 0xB8] @
     '' '' @ [CHR 0xEA, CHR 0xB1, CHR 0xB0, CHR 0xEB, CHR 0xB6, CHR 0x80, CHR 0xEB, CHR 0x90, CHR 0xA8]
      | ApDeferred \<Rightarrow> [CHR 0xE2, CHR 0x8F, CHR 0xB8, CHR 0xEF, CHR 0xB8, CHR 0x8F] @ '' '' @ [CHR 0xEC, CHR 0x8A, CHR 0xB9, CHR
     0xEC, CHR 0x9D, CHR 0xB8] @ '' '' @ [CHR 0xEB, CHR 0xB3, CHR 0xB4, CHR 0xEB, CHR 0xA5, CHR 0x98, CHR 0xEB,
     CHR 0x90, CHR 0xA8]
      | ApCancelled \<Rightarrow> [CHR 0xE2, CHR 0x9B, CHR 0x94] @ '' '' @ [CHR 0xEC, CHR 0x8A, CHR 0xB9, CHR 0xEC, CHR 0x9D, CHR 0xB8] @
     '' '' @ [CHR 0xEC, CHR 0xB7, CHR 0xA8, CHR 0xEC, CHR 0x86, CHR 0x8C, CHR 0xEB, CHR 0x90, CHR 0xA8]
      | _ \<Rightarrow> [CHR 0xE2, CHR 0x84, CHR 0xB9, CHR 0xEF, CHR 0xB8, CHR 0x8F] @ '' '' @ [CHR 0xEC, CHR 0x8A, CHR 0xB9, CHR
     0xEC, CHR 0x9D, CHR 0xB8] @ '' '' @ [CHR 0xED, CHR 0x8C, CHR 0x90, CHR 0xEB, CHR 0x8B, CHR 0xA8] @ '' '' @
     [CHR 0xEB, CHR 0xB3, CHR 0xB4, CHR 0xEB, CHR 0xA5, CHR 0x98])
     @ ''('' @ source @ '') '' @ [CHR 0xC2, CHR 0xB7] @ '' request_id='' @ aq_id r @ '' '' @ [CHR 0xC2, CHR 0xB7] @ '' tool='' @ aq_tool r"

definition approved_text :: string where
  "approved_text = [CHR 0xE2, CHR 0x9C, CHR 0x85] @ '' '' @ [CHR 0xEC, CHR 0x8A, CHR 0xB9, CHR 0xEC, CHR 0x9D, CHR 0xB8, CHR
     0xEC, CHR 0x9D, CHR 0x84] @ '' '' @ [CHR 0xED, CHR 0x99, CHR 0x95, CHR 0xEC, CHR 0x9D, CHR 0xB8, CHR 0xED,
     CHR 0x96, CHR 0x88, CHR 0xEC, CHR 0x8A, CHR 0xB5, CHR 0xEB, CHR 0x8B, CHR 0x88, CHR 0xEB, CHR 0x8B, CHR
     0xA4] @ ''. '' @ [CHR 0xEC, CHR 0xB0, CHR 0xA8, CHR 0xEB, CHR 0x8B, CHR 0xA8, CHR 0xEB, CHR 0x90, CHR 0x9C]
     @ '' '' @ [CHR 0xEC, CHR 0x9E, CHR 0x91, CHR 0xEC, CHR 0x97, CHR 0x85, CHR 0xEC, CHR 0x9D, CHR 0x84] @
     '' '' @ [CHR 0xEC, CHR 0x9E, CHR 0xAC, CHR 0xEA, CHR 0xB0, CHR 0x9C, CHR 0xED, CHR 0x95, CHR 0xA9, CHR
     0xEB, CHR 0x8B, CHR 0x88, CHR 0xEB, CHR 0x8B, CHR 0xA4] @ ''.''"

definition apply_decision :: "string \<Rightarrow> approval_message \<Rightarrow> string \<Rightarrow> string \<Rightarrow> string \<Rightarrow> 'x approval_service \<Rightarrow> handle_result \<times> 'x approval_service" where
  "apply_decision provider m k input source s =
     (if \<not> sv_runtime s then (not_handled, s)
      else case get_approval_request (sv_registry s) (str_trim k) of
          None \<Rightarrow> (not_handled, s)
        | Some r \<Rightarrow> (case resolve_approval_request k input (sv_registry s) of (a, g) \<Rightarrow>
            let s = s\<lparr>sv_registry := g\<rparr>
            in if \<not> as_ok a then (not_handled, s)
               else
                 let x = (if as_status a = ApApproved then Some (execute_approved_request k g (sv_world s)) else None);
                     result = (case x of Some (y, _) \<Rightarrow> if rn_ok y then Some (take 2000 (or_text (rn_result y) [])) else None | None \<Rightarrow> None);
                     content = (case x of None \<Rightarrow> decision_text source r (as_status a)
                        | Some (y, _) \<Rightarrow> if rn_ok y then approved_text else failure_text source r y);
                     w = (case x of None \<Rightarrow> sv_world s | Some (_, w) \<Rightarrow> w);
                     notice = \<lparr>an_provider = provider, an_chat = am_chat m, an_content = content, an_request = aq_id r, an_tool = aq_tool r,
                        an_decision = as_decision a\<rparr>
                 in (\<lparr>hr_handled = True, hr_task = (case aq_context r of Some c \<Rightarrow> tx_task c | None \<Rightarrow> None), hr_tool_result = result,
                       hr_status = Some (as_status a)\<rparr>,
                     s\<lparr>sv_world := w, sv_sent := sv_sent s @ [notice]\<rparr>)))"

definition in_chat :: "string \<Rightarrow> string \<Rightarrow> approval_request \<Rightarrow> bool" where
  "in_chat provider chat r = (case aq_context r of None \<Rightarrow> provider = [] \<and> chat = []
     | Some c \<Rightarrow> str_lower (or_text (tx_channel c) []) = provider \<and> or_text (tx_chat c) [] = chat)"

definition pending_requests :: "'x approval_service \<Rightarrow> approval_request list" where
  "pending_requests s = list_approval_requests (sv_registry s) (Some ApPending)"

text \<open>The request a text is about: the one it names, or the latest of its chat.\<close>

definition select_request :: "string \<Rightarrow> string \<Rightarrow> string \<Rightarrow> approval_request list \<Rightarrow> approval_request option" where
  "select_request provider chat text pending = (case extract_request_id text of
       Some k \<Rightarrow> find (\<lambda>r. aq_id r = k) pending
     | None \<Rightarrow> find (in_chat provider chat) pending)"

definition try_handle_text_reply :: "string \<Rightarrow> approval_message \<Rightarrow> 'x approval_service \<Rightarrow> handle_result \<times> 'x approval_service" where
  "try_handle_text_reply provider m s =
     (let text = str_trim (am_content m)
      in if \<not> sv_runtime s \<or> text = [] then (not_handled, s)
         else case select_request provider (am_chat m) text (pending_requests s) of
             None \<Rightarrow> (not_handled, s)
           | Some r \<Rightarrow> apply_decision provider m (aq_id r) text ''text'' s)"

definition reaction_sig :: "string \<Rightarrow> approval_message \<Rightarrow> approval_request \<Rightarrow> approval_decision \<Rightarrow> string list \<Rightarrow> string" where
  "reaction_sig provider m r d names = provider @ '':'' @ am_chat m @ '':'' @ aq_id r @ '':'' @ decision_name d @ '':'' @ str_join '','' (sort names)"

fun handle_rows :: "string \<Rightarrow> int \<Rightarrow> approval_request list \<Rightarrow> approval_message list \<Rightarrow> 'x approval_service \<Rightarrow> handle_result \<times> 'x approval_service" where
  "handle_rows provider now pending [] s = (not_handled, s)"
| "handle_rows provider now pending (m # ms) s =
     (let names = extract_reaction_names (am_reactions m)
      in case (if names = [] then None else reaction_to_decision names) of
           None \<Rightarrow> handle_rows provider now pending ms s
         | Some d \<Rightarrow> (case select_request provider (am_chat m) (am_content m) pending of
               None \<Rightarrow> handle_rows provider now pending ms s
             | Some r \<Rightarrow>
                 let sig = reaction_sig provider m r d names
                 in if jhas (sv_seen s) sig then handle_rows provider now pending ms s
                    else apply_decision provider m (aq_id r) (decision_emoji d) ''reaction'' (s\<lparr>sv_seen := jset sig now (sv_seen s)\<rparr>)))"

definition try_handle_approval_reactions :: "string \<Rightarrow> int \<Rightarrow> approval_message list \<Rightarrow> 'x approval_service \<Rightarrow> handle_result \<times> 'x approval_service" where
  "try_handle_approval_reactions provider now rows s =
     (if \<not> sv_runtime s \<or> pending_requests s = [] then (not_handled, s)
      else handle_rows provider now (pending_requests s) (take 80 rows) s)"

definition approval_prune_seen :: "int \<Rightarrow> int \<Rightarrow> int \<Rightarrow> 'x approval_service \<Rightarrow> 'x approval_service" where
  "approval_prune_seen now ttl max_size s =
     (let seen = filter (\<lambda>p. now - snd p \<le> ttl) (sv_seen s)
      in s\<lparr>sv_seen := drop (nat (int (length seen) - max_size)) seen\<rparr>)"


section \<open>A native backend\<close>

datatype bridge_answer = BrAccept | BrDeny | BrCancel

definition bridge_answer_of :: "approval_decision \<Rightarrow> bridge_answer" where
  "bridge_answer_of d = (if d = AdApprove then BrAccept else if d = AdDeny then BrDeny else BrCancel)"

end
