(* ===== verification/ApprovalsCorrect.thy ===== *)
theory ApprovalsCorrect
  imports Approvals
begin

text \<open>
  What replies and reactions in a chat can do: they decide about one waiting call of that chat, or the
  one they name, and run no other; a call that is decided is never touched again, so it runs once, and
  so a question about it is the end of it.
\<close>

section \<open>Requests under their ids\<close>

definition ids_ok :: "'x registry \<Rightarrow> bool" where
  "ids_ok g \<longleftrightarrow> jwf (rg_requests g) \<and> (\<forall>k r. jget (rg_requests g) k = Some r \<longrightarrow> aq_id r = k)"

lemma ids_ok_put: "ids_ok g \<Longrightarrow> rg_requests h = jset k r (rg_requests g) \<Longrightarrow> aq_id r = k \<Longrightarrow> ids_ok h"
  by (auto simp: ids_ok_def)

lemma ids_ok_put_request: "ids_ok g \<Longrightarrow> ids_ok (put_request r g)"
  by (rule ids_ok_put[where r = r and k = "aq_id r"]) (simp_all add: put_request_def)

lemma ids_ok_same: "ids_ok g \<Longrightarrow> rg_requests h = rg_requests g \<Longrightarrow> ids_ok h"
  by (simp add: ids_ok_def)

lemma answer_waiting_requests [simp]: "rg_requests (answer_waiting k d g) = rg_requests g"
  by (simp add: answer_waiting_def)

lemma pending_request:
  assumes "ids_ok (sv_registry s)" and "r \<in> set (pending_requests s)"
  shows "jget (rg_requests (sv_registry s)) (aq_id r) = Some r" "aq_status r = ApPending"
proof -
  have "r \<in> set (jvals (rg_requests (sv_registry s)))" "aq_status r = ApPending"
    using assms(2) by (auto simp: pending_requests_def list_approval_requests_def)
  then obtain k where "(k, r) \<in> set (rg_requests (sv_registry s))" by (auto simp: jvals_def)
  then have "jget (rg_requests (sv_registry s)) k = Some r" using assms(1) jget_iff[of "rg_requests (sv_registry s)" k r] by (simp add: ids_ok_def)
  moreover from this have "aq_id r = k" using assms(1) by (simp add: ids_ok_def)
  ultimately show "jget (rg_requests (sv_registry s)) (aq_id r) = Some r" "aq_status r = ApPending"
    using \<open>aq_status r = ApPending\<close> by simp_all
qed

lemma select_pending: "select_request provider chat text pending = Some r \<Longrightarrow> r \<in> set pending"
  by (auto simp: select_request_def find_Some_iff split: option.splits)

text \<open>What a decision changes: the entry of its request and no other, and the world by that request's run.\<close>

definition decided_by :: "approval_request \<Rightarrow> string \<Rightarrow> 'x approval_service \<Rightarrow> 'x approval_service \<Rightarrow> bool" where
  "decided_by r input s s' \<longleftrightarrow>
     rg_requests (sv_registry s') = jset (aq_id r)
        (r\<lparr>aq_status := status_of (ap_decision (parse_approval_response input)), aq_response := Some (input, parse_approval_response input)\<rparr>)
        (rg_requests (sv_registry s))
     \<and> rg_tools (sv_registry s') = rg_tools (sv_registry s)
     \<and> (sv_world s' = sv_world s \<or>
         status_of (ap_decision (parse_approval_response input)) = ApApproved \<and> \<not> aq_bridge r
         \<and> (\<exists>t. jget (rg_tools (sv_registry s)) (aq_tool r) = Some t
              \<and> sv_world s' = approved_effect t (aq_params r) (aq_context r) (sv_world s)))"

lemma ids_ok_decided:
  assumes "ids_ok (sv_registry s)" and "decided_by r input s s'"
  shows "ids_ok (sv_registry s')"
  using assms(2) unfolding decided_by_def
  by (intro ids_ok_put[OF assms(1), where k = "aq_id r" and r = "r\<lparr>aq_status := status_of (ap_decision (parse_approval_response input)),
      aq_response := Some (input, parse_approval_response input)\<rparr>"]) auto

lemma apply_decision_effect:
  assumes "jget (rg_requests (sv_registry s)) (aq_id r) = Some r" and "apply_decision provider m (aq_id r) input source s = (h, s')"
  shows "s' = s \<and> h = not_handled \<or> decided_by r input s s'"
proof (cases "sv_runtime s \<and> get_approval_request (sv_registry s) (str_trim (aq_id r)) \<noteq> None")
  case False
  then consider "\<not> sv_runtime s" | "sv_runtime s" "get_approval_request (sv_registry s) (str_trim (aq_id r)) = None" by blast
  then show ?thesis using assms(2) by cases (simp_all add: apply_decision_def)
next
  case True
  then obtain q where q: "get_approval_request (sv_registry s) (str_trim (aq_id r)) = Some q" by blast
  obtain a g where x: "resolve_approval_request (aq_id r) input (sv_registry s) = (a, g)" by fastforce
  let ?r = "r\<lparr>aq_status := status_of (ap_decision (parse_approval_response input)), aq_response := Some (input, parse_approval_response input)\<rparr>"
  have req: "rg_requests g = jset (aq_id r) ?r (rg_requests (sv_registry s))" "rg_tools g = rg_tools (sv_registry s)"
    and a: "as_status a = status_of (ap_decision (parse_approval_response input))"
    using x assms(1) by (auto simp: resolve_approval_request_def Let_def answer_waiting_def)
  have stored: "jget (rg_requests g) (aq_id r) = Some ?r" by (simp add: req(1))
  have w: "sv_registry s' = g \<and> (sv_world s' = sv_world s
      \<or> as_status a = ApApproved \<and> sv_world s' = snd (execute_approved_request (aq_id r) g (sv_world s)))"
    using assms(2) True q x by (auto simp: apply_decision_def Let_def split: if_splits prod.splits)
  have run: "snd (execute_approved_request (aq_id r) g v) = v \<or> \<not> aq_bridge r \<and> (\<exists>t. jget (rg_tools (sv_registry s)) (aq_tool r) = Some t
      \<and> snd (execute_approved_request (aq_id r) g v) = approved_effect t (aq_params r) (aq_context r) v)" for v
    unfolding execute_approved_request_def stored using req(2)
    by (auto simp: approved_effect_def split: option.split prod.split sum.split)
  show ?thesis unfolding decided_by_def using w run[of "sv_world s"] req a by auto
qed


section \<open>A reply decides about one call\<close>

text \<open>
  C12. A text in a chat decides about at most one call: if anything changes, it is a pending request that
  the text names by its id or the chat's own, its entry alone gets the decision, and the world changes
  only when the text approves it, by running that request's tool on the stored parameters.
\<close>

theorem text_reply_confined:
  assumes "ids_ok (sv_registry s)" and "try_handle_text_reply provider m s = (h, s')"
  shows "s' = s \<and> h = not_handled \<or> (\<exists>r. jget (rg_requests (sv_registry s)) (aq_id r) = Some r \<and> aq_status r = ApPending
    \<and> (extract_request_id (str_trim (am_content m)) = Some (aq_id r)
       \<or> extract_request_id (str_trim (am_content m)) = None \<and> in_chat provider (am_chat m) r)
    \<and> decided_by r (str_trim (am_content m)) s s')"
proof -
  let ?text = "str_trim (am_content m)"
  show ?thesis
  proof (cases "\<not> sv_runtime s \<or> ?text = [] \<or> select_request provider (am_chat m) ?text (pending_requests s) = None")
    case True
    then show ?thesis using assms(2) by (auto simp: try_handle_text_reply_def Let_def split: option.splits)
  next
    case False
    then obtain r where r: "select_request provider (am_chat m) ?text (pending_requests s) = Some r" by blast
    have app: "apply_decision provider m (aq_id r) ?text ''text'' s = (h, s')"
      using assms(2) False r by (simp add: try_handle_text_reply_def Let_def)
    note p = pending_request[OF assms(1) select_pending[OF r]]
    have "extract_request_id ?text = Some (aq_id r) \<or> extract_request_id ?text = None \<and> in_chat provider (am_chat m) r"
      using r by (auto simp: select_request_def find_Some_iff split: option.splits)
    with apply_decision_effect[OF p(1) app] p show ?thesis by blast
  qed
qed


section \<open>What is decided stays decided\<close>

datatype 'x service_op =
    SoText string approval_message
  | SoReactions string int "approval_message list"
  | SoPrune int int int
  | SoRegistry "'x registry_op"

text \<open>The other operations of the registry are all but a reply to a request by its id.\<close>

fun service_step :: "'x service_op \<Rightarrow> 'x approval_service \<Rightarrow> 'x approval_service" where
  "service_step (SoText provider m) s = snd (try_handle_text_reply provider m s)"
| "service_step (SoReactions provider now rows) s = snd (try_handle_approval_reactions provider now rows s)"
| "service_step (SoPrune now ttl n) s = approval_prune_seen now ttl n s"
| "service_step (SoRegistry e) s = (if (\<exists>k x. e = RoReply k x) then s
     else case registry_step e (sv_registry s, sv_world s) of (g, w) \<Rightarrow> s\<lparr>sv_registry := g, sv_world := w\<rparr>)"

definition request_settled :: "string \<Rightarrow> approval_request \<Rightarrow> 'x registry \<Rightarrow> bool" where
  "request_settled k r g \<longleftrightarrow> ids_ok g \<and> jget (rg_requests g) k = Some r \<and> aq_status r \<noteq> ApPending"

lemma settled_other:
  "request_settled k r g \<Longrightarrow> rg_requests h = jset k' r' (rg_requests g) \<Longrightarrow> aq_id r' = k' \<Longrightarrow> k' \<noteq> k \<Longrightarrow> request_settled k r h"
  by (auto simp: request_settled_def ids_ok_def)

lemma settled_same: "request_settled k r g \<Longrightarrow> rg_requests h = rg_requests g \<Longrightarrow> request_settled k r h"
  by (auto simp: request_settled_def ids_ok_def)

lemma settled_decided:
  assumes "request_settled k r (sv_registry s)" and "q \<in> set (pending_requests s)" and "decided_by q input s s'"
  shows "request_settled k r (sv_registry s')"
proof -
  note p = pending_request[OF _ assms(2)]
  have i: "ids_ok (sv_registry s)" using assms(1) by (simp add: request_settled_def)
  have "aq_id q \<noteq> k" using p[OF i] assms(1) by (auto simp: request_settled_def)
  then show ?thesis using assms(1,3) by (auto simp: decided_by_def intro!: settled_other[OF assms(1)])
qed

lemma settled_apply:
  assumes "request_settled k r (sv_registry s)" and "q \<in> set (pending_requests s)" and "apply_decision provider m (aq_id q) input source s = (h, s')"
  shows "request_settled k r (sv_registry s')"
  using apply_decision_effect[OF pending_request(1)[OF _ assms(2)] assms(3)] settled_decided[OF assms(1,2)] assms(1)
  by (auto simp: request_settled_def)

lemma settled_rows:
  assumes "request_settled k r (sv_registry s)" and "set pending \<subseteq> set (pending_requests s)"
  shows "request_settled k r (sv_registry (snd (handle_rows provider now pending rows s)))"
  using assms
proof (induction rows)
  case (Cons m ms)
  have seen: "request_settled k r (sv_registry (snd (apply_decision provider m (aq_id q) input source (s\<lparr>sv_seen := sn\<rparr>))))"
    if "q \<in> set pending" for q input source sn
  proof -
    let ?s = "s\<lparr>sv_seen := sn\<rparr>"
    have "q \<in> set (pending_requests ?s)" "request_settled k r (sv_registry ?s)" using that Cons.prems by (auto simp: pending_requests_def)
    from settled_apply[OF this(2,1) prod.collapse[symmetric]] show ?thesis .
  qed
  show ?case using Cons seen by (auto simp: Let_def dest!: select_pending split: option.split)
qed simp

lemma registry_step_settled:
  assumes "request_settled k r (fst p)" and "\<not> (\<exists>k x. e = RoReply k x)"
  shows "request_settled k r (fst (registry_step e p))"
proof -
  obtain g w where p: "p = (g, w)" by fastforce
  have s: "request_settled k r g" using assms(1) p by simp
  have known: "k' \<noteq> k" if "\<not> jhas (rg_requests g) k'" for k' using s that by (auto simp: request_settled_def jhas_def)
  have same: "request_settled k r h" if "same_requests g h" for h :: "'a registry"
    using settled_same[OF s, of h] that by (simp add: same_requests_def)
  show ?thesis
  proof (cases e)
    case (RoCall k' now name params ctx)
    obtain res g' w' where x: "registry_execute k' now name params ctx g w = (res, g', w')" by (metis prod_cases3)
    have "g' = g \<or> (\<exists>r. g' = put_request r g \<and> aq_id r = k' \<and> \<not> aq_bridge r \<and> aq_status r = ApPending)"
      using execute_requests[where k = k' and now = now and name = name and params = params and ctx = ctx and g = g and w = w] x by simp
    moreover have "request_settled k r (put_request q g)" if "\<not> jhas (rg_requests g) k'" "aq_id q = k'" for q
      by (rule settled_other[OF s, where r' = q and k' = k']) (use that known in \<open>auto simp: put_request_def\<close>)
    ultimately show ?thesis using RoCall p x s by auto
  next
    case (RoBridge k' now tool detail ctx)
    then show ?thesis using p s known
      by (auto simp: register_approval_with_callback_def put_request_def create_approval_request_def Let_def intro!: settled_other[OF s])
  next
    case (RoTimeout k')
    have "request_settled k r (approval_timeout k' g)"
    proof (cases "k' \<in> set (rg_waiting g)")
      case True
      show ?thesis
      proof (cases "\<exists>q. jget (rg_requests g) k' = Some q \<and> aq_status q = ApPending")
        case False
        with True have "rg_requests (approval_timeout k' g) = rg_requests g" by (auto simp: approval_timeout_def split: option.split)
        then show ?thesis by (rule settled_same[OF s])
      next
        case pending: True
        then obtain q where q: "jget (rg_requests g) k' = Some q" "aq_status q = ApPending" by blast
        have "rg_requests (approval_timeout k' g) = jset k' (q\<lparr>aq_status := ApCancelled\<rparr>) (rg_requests g)"
          using True q by (simp add: approval_timeout_def)
        moreover have "aq_id q = k'" "k' \<noteq> k" using q s by (auto simp: request_settled_def ids_ok_def)
        ultimately show ?thesis by (intro settled_other[OF s, where k' = k' and r' = "q\<lparr>aq_status := ApCancelled\<rparr>"]) auto
      qed
    qed (simp add: approval_timeout_def s)
    then show ?thesis using RoTimeout p by simp
  next
    case (RoExpire now ttl)
    have one: "request_settled k r (snd (expire_request now ttl k' q))" if "request_settled k r (snd q)" for k' and q :: "nat \<times> 'a registry"
    proof (cases "jget (rg_requests (snd q)) k'")
      case (Some r')
      show ?thesis
      proof (cases "aq_status r' \<noteq> ApPending \<or> now - aq_created r' < ttl")
        case False
        then have "rg_requests (snd (expire_request now ttl k' q)) = jset k' (r'\<lparr>aq_status := ApCancelled\<rparr>) (rg_requests (snd q))"
          using Some by (simp add: expire_request_def)
        moreover have "aq_id r' = k'" "k' \<noteq> k" using Some False that by (auto simp: request_settled_def ids_ok_def)
        ultimately show ?thesis by (intro settled_other[OF that, where k' = k' and r' = "r'\<lparr>aq_status := ApCancelled\<rparr>"]) auto
      qed (use Some that in \<open>simp add: expire_request_def\<close>)
    qed (simp add: expire_request_def that)
    have "request_settled k r (snd (fold (expire_request now ttl) ks q))" if "request_settled k r (snd q)" for ks and q :: "nat \<times> 'a registry"
      using that by (induction ks arbitrary: q) (simp_all add: one)
    then show ?thesis using RoExpire p s by (simp add: expire_stale_approvals_def)
  qed (use p same assms(2) in auto)
qed

interpretation approved: machine service_step "\<lambda>s. request_settled k r (sv_registry s)" for k r
proof
  fix s :: "'x approval_service" and e :: "'x service_op"
  assume s: "request_settled k r (sv_registry s)"
  show "request_settled k r (sv_registry (service_step e s))"
  proof (cases e)
    case (SoText provider m)
    obtain h s' where t: "try_handle_text_reply provider m s = (h, s')" by fastforce
    have i: "ids_ok (sv_registry s)" using s by (simp add: request_settled_def)
    from text_reply_confined[OF i t] consider "s' = s"
      | q where "jget (rg_requests (sv_registry s)) (aq_id q) = Some q" "aq_status q = ApPending" "decided_by q (str_trim (am_content m)) s s'"
      by blast
    then show ?thesis
    proof cases
      case 1
      with s t SoText show ?thesis by simp
    next
      case (2 q)
      have "q \<in> set (pending_requests s)"
        using jget_mem[OF 2(1)] 2(2) by (force simp: pending_requests_def list_approval_requests_def jvals_def)
      with settled_decided[OF s _ 2(3)] show ?thesis using SoText t by simp
    qed
  next
    case (SoReactions provider now rows)
    have "request_settled k r (sv_registry (snd (handle_rows provider now (pending_requests s) (take 80 rows) s)))"
      by (rule settled_rows[OF s]) simp
    with SoReactions s show ?thesis by (auto simp: try_handle_approval_reactions_def)
  next
    case (SoPrune now ttl n)
    with s show ?thesis by (simp add: approval_prune_seen_def Let_def)
  next
    case (SoRegistry x)
    have "request_settled k r (fst (sv_registry s, sv_world s))" using s by simp
    from registry_step_settled[OF this, of x] s SoRegistry show ?thesis by (auto split: prod.split)
  qed
qed

text \<open>
  C13. A decision is final: once a request is no longer pending, whatever is said and reacted in any chat
  and whatever is called, timed out and swept leaves its entry as it is; so it is run by at most one
  reply.
\<close>

theorem decision_is_final:
  assumes "ids_ok (sv_registry s)" and "jget (rg_requests (sv_registry s)) k = Some r" and "aq_status r \<noteq> ApPending"
  shows "jget (rg_requests (sv_registry (run_steps service_step es s))) k = Some r"
  using approved.inv_run[where k = k and r = r and s = s and es = es] assms by (simp add: request_settled_def)

definition demo_service :: "'x registry \<Rightarrow> 'x \<Rightarrow> 'x approval_service" where
  "demo_service g w = \<lparr>sv_runtime = True, sv_registry = g, sv_world = w, sv_seen = [], sv_sent = []\<rparr>"

definition asked_service :: "nat approval_service" where
  "asked_service = (case registry_execute ''req001'' 5 ''deploy'' [] (Some demo_ctx) (demo_registry [asking_hook]) 0 of
     (_, g, w) \<Rightarrow> demo_service g w)"

definition says :: "string \<Rightarrow> approval_message" where
  "says content = \<lparr>am_chat = ''c'', am_content = content, am_reactions = NoReactions\<rparr>"

lemma asked_service_ids: "ids_ok (sv_registry asked_service)"
proof -
  obtain res g w where x: "registry_execute ''req001'' 5 ''deploy'' [] (Some demo_ctx) (demo_registry [asking_hook]) 0 = (res, g, w)"
    by (metis prod_cases3)
  have "ids_ok (demo_registry [asking_hook])" by (simp add: demo_registry_def register_tool_def registry_new_def ids_ok_def jwf_def)
  then have "ids_ok g"
    using execute_requests[where k = "''req001''" and now = 5 and name = "''deploy''" and params = "[]" and ctx = "Some demo_ctx"
        and g = "demo_registry [asking_hook]" and w = 0] x ids_ok_put_request by auto
  then show ?thesis by (simp add: asked_service_def x demo_service_def)
qed

theorem text_reply_confined_witness:
  "sv_world (snd (try_handle_text_reply ''slack'' (says ''yes'') asked_service)) = 1
   \<and> (\<exists>r. aq_status r = ApPending \<and> decided_by r ''yes'' asked_service (snd (try_handle_text_reply ''slack'' (says ''yes'') asked_service)))"
proof -
  let ?run = "try_handle_text_reply ''slack'' (says ''yes'') asked_service"
  have w: "sv_world (snd ?run) = 1" "sv_world asked_service = 0" by code_simp+
  have "str_trim (am_content (says ''yes'')) = ''yes''" by code_simp
  with text_reply_confined[OF asked_service_ids prod.collapse[symmetric], of "''slack''" "says ''yes''"] w show ?thesis by auto
qed


theorem decision_is_final_witness:
  "let s = snd (try_handle_text_reply ''slack'' (says ''why?'') asked_service) in
     map_option aq_status (jget (rg_requests (sv_registry (run_steps service_step [SoText ''slack'' (says ''yes, approve'')] s))) ''req001'') = Some ApClarify"
proof -
  let ?s = "snd (try_handle_text_reply ''slack'' (says ''why?'') asked_service)"
  obtain r where r: "jget (rg_requests (sv_registry asked_service)) (aq_id r) = Some r" "decided_by r ''why?'' asked_service ?s"
  proof -
    have "sv_sent ?s \<noteq> []" "sv_sent asked_service = []" by code_simp+
    then have "?s \<noteq> asked_service" by auto
    moreover have "str_trim (am_content (says ''why?'')) = ''why?''" by code_simp
    ultimately show ?thesis using that text_reply_confined[OF asked_service_ids prod.collapse[symmetric], of "''slack''" "says ''why?''"] by auto
  qed
  have st: "map_option aq_status (jget (rg_requests (sv_registry ?s)) ''req001'') = Some ApClarify" by code_simp
  then obtain q where q: "jget (rg_requests (sv_registry ?s)) ''req001'' = Some q" "aq_status q = ApClarify" by auto
  have "ids_ok (sv_registry ?s)" using ids_ok_decided[OF asked_service_ids r(2)] .
  from decision_is_final[OF this q(1), of "[SoText ''slack'' (says ''yes, approve'')]"] q(2)
  show ?thesis unfolding Let_def by (simp del: run_steps.simps)
qed

section \<open>What users may not expect\<close>

text \<open>A question about a waiting call settles it: the approval that follows finds nothing to approve.\<close>

lemma question_settles:
  "let s = snd (try_handle_text_reply ''slack'' (says ''why?'') asked_service); (h, s') = try_handle_text_reply ''slack'' (says ''yes'') s
   in pending_requests s = [] \<and> \<not> hr_handled h \<and> sv_world s' = 0"
  by code_simp

text \<open>A reaction that cancels is recorded as a refusal, for its emoji is one of those that refuse.\<close>

lemma cancel_reaction_denies:
  "reaction_to_decision (extract_reaction_names (SlackReactions [''octagonal_sign''])) = Some AdCancel
   \<and> ap_decision (parse_approval_response (decision_emoji AdCancel)) = AdDeny"
  by code_simp

text \<open>Approving everything approves a bridged request, and its backend is told that it was cancelled.\<close>

lemma approve_all_cancels_bridge:
  "let (g, w) = register_approval_with_callback ''k1'' 5 ''exec'' ''run'' None (registry_new [] [] None) (0 :: nat);
       (a, g1) = resolve_approval_request ''k1'' ''approve all'' g
   in as_status a = ApApproved \<and> map (bridge_answer_of \<circ> snd) (rg_decided g1) = [BrCancel]"
  by code_simp

text \<open>And it approves the tool for every chat from then on.\<close>

lemma approve_all_everywhere:
  assumes "resolve_approval_request k response g = (a, g')" and "as_decision a = AdApproveAll" and "jget (rg_requests g) k = Some r"
  shows "aq_tool r \<in> set (rg_auto g')"
    and "run_pre_hooks (rg_pre g') (aq_tool r \<in> set (rg_auto g')) (aq_tool r) ctx params w \<noteq> (PreAsked p reason, w')"
proof -
  show auto: "aq_tool r \<in> set (rg_auto g')"
    using assms by (auto simp: resolve_approval_request_def Let_def answer_waiting_def)
  have "run_pre_hooks hs True name ctx params w \<noteq> (PreAsked p reason, w')" for hs name params w
    by (induction hs arbitrary: params w) (auto split: prod.split sum.split)
  with auto show "run_pre_hooks (rg_pre g') (aq_tool r \<in> set (rg_auto g')) (aq_tool r) ctx params w \<noteq> (PreAsked p reason, w')" by simp
qed

end
