(* ===== verification/SessionStore.thy ===== *)
theory SessionStore
  imports JsValue TtlMap
begin

text \<open>
  \<open>src/src/session/service.ts\<close>: the sessions of all chats, in a table with a cache in front of it.

  The table is a map from keys to sessions. Times are in milliseconds; a time that is missing or cannot
  be read is \<open>None\<close>. Writes to one key are serialised, so an operation is atomic, except loading a
  session, whose two halves have a pause between them in which anything else may happen. Moving the keys of
  the old format, which is done once at the start, is one step. A session that was handed out is not changed
  by its reader.
\<close>

section \<open>State\<close>

record session_message =
  sm_role :: string
  sm_content :: string
  sm_at :: "int option"
  sm_sender :: string
  sm_extra :: memory

record session =
  sn_messages :: "session_message list"
  sn_created :: int
  sn_updated :: int
  sn_metadata :: memory
  sn_consolidated :: int

record session_store =
  sx_cache :: "(string, session) jmap"
  sx_table :: "(string, session) jmap"

definition max_cache_size :: nat where
  "max_cache_size = 200"

definition new_session :: "int \<Rightarrow> session" where
  "new_session now = \<lparr>sn_messages = [], sn_created = now, sn_updated = now, sn_metadata = [], sn_consolidated = 0\<rparr>"

definition add_message :: "int \<Rightarrow> session_message \<Rightarrow> session \<Rightarrow> session" where
  "add_message now m s = s\<lparr>sn_messages := sn_messages s @ [m], sn_updated := now\<rparr>"

text \<open>The last messages, at least one of them.\<close>

definition last_messages :: "int \<Rightarrow> 'a list \<Rightarrow> 'a list" where
  "last_messages n xs = drop (length xs - nat (max 1 n)) xs"

text \<open>Of the other fields a model sees its tool calls and, when they are strings, what names them.\<close>

definition history_fields :: "memory \<Rightarrow> memory" where
  "history_fields xs = filter (\<lambda>e. fst e = ''tool_calls''
     \<or> (fst e \<in> {''tool_call_id'', ''name''} \<and> (case snd e of JStr _ \<Rightarrow> True | _ \<Rightarrow> False))) xs"

definition session_history :: "int \<Rightarrow> session \<Rightarrow> (string \<times> string \<times> memory) list" where
  "session_history n s =
     map (\<lambda>m. (sm_role m, sm_content m, history_fields (sm_extra m))) (last_messages n (sn_messages s))"


section \<open>Reading\<close>

definition load_session :: "session_store \<Rightarrow> string \<Rightarrow> session option" where
  "load_session x k = jget (sx_table x) k"

definition evict_oldest_sessions :: "session_store \<Rightarrow> session_store" where
  "evict_oldest_sessions x = x\<lparr>sx_cache := drop (length (sx_cache x) + 1 - max_cache_size) (sx_cache x)\<rparr>"

definition cache_session :: "string \<Rightarrow> session \<Rightarrow> session_store \<Rightarrow> session_store" where
  "cache_session k s x = (let x = evict_oldest_sessions x in x\<lparr>sx_cache := jset k s (sx_cache x)\<rparr>)"

text \<open>The first half finds the session, the second keeps what was loaded.\<close>

definition get_begin :: "int \<Rightarrow> string \<Rightarrow> session_store \<Rightarrow> (session \<times> bool) \<times> session_store" where
  "get_begin now k x = (case jget (sx_cache x) k of
       Some s \<Rightarrow> ((s, True), x\<lparr>sx_cache := jdel k (sx_cache x) @ [(k, s)]\<rparr>)
     | None \<Rightarrow> ((case load_session x k of Some s \<Rightarrow> s | None \<Rightarrow> new_session now, False), x))"

definition get_finish :: "string \<Rightarrow> session \<times> bool \<Rightarrow> session_store \<Rightarrow> session_store" where
  "get_finish k r x = (case r of (s, cached) \<Rightarrow> if cached then x else cache_session k s x)"

definition get_or_create :: "int \<Rightarrow> string \<Rightarrow> session_store \<Rightarrow> session \<times> session_store" where
  "get_or_create now k x = (case get_begin now k x of (r, x) \<Rightarrow> (fst r, get_finish k r x))"


section \<open>Writing\<close>

definition append_message :: "int \<Rightarrow> string \<Rightarrow> session_message \<Rightarrow> session_store \<Rightarrow> session_store" where
  "append_message now k m x =
     (let row = (case load_session x k of Some s \<Rightarrow> s | None \<Rightarrow> new_session now);
          x = x\<lparr>sx_table := jset k (add_message now m row) (sx_table x)\<rparr>
      in case jget (sx_cache x) k of None \<Rightarrow> x | Some s \<Rightarrow> x\<lparr>sx_cache := jset k (add_message now m s) (sx_cache x)\<rparr>)"

definition save_session :: "string \<Rightarrow> session \<Rightarrow> session_store \<Rightarrow> session_store" where
  "save_session k s x = cache_session k s (x\<lparr>sx_table := jset k s (sx_table x)\<rparr>)"

definition delete_session :: "string \<Rightarrow> session_store \<Rightarrow> bool \<times> session_store" where
  "delete_session k x = (jhas (sx_table x) k, x\<lparr>sx_cache := jdel k (sx_cache x), sx_table := jdel k (sx_table x)\<rparr>)"

text \<open>The pattern of a query does not distinguish upper and lower case.\<close>

definition sessions_by_prefix :: "string \<Rightarrow> nat \<Rightarrow> session_store \<Rightarrow> (string \<times> int \<times> int \<times> nat) list" where
  "sessions_by_prefix prefix limit x =
     take limit (sort_key (\<lambda>r. - fst (snd (snd r)))
       (map (\<lambda>e. (fst e, sn_created (snd e), sn_updated (snd e), length (sn_messages (snd e))))
         (filter (\<lambda>e. starts_with (str_lower prefix) (str_lower (fst e))) (sx_table x))))"

definition prune_expired_sessions :: "int \<Rightarrow> int \<Rightarrow> session_store \<Rightarrow> nat \<times> session_store" where
  "prune_expired_sessions now max_age x =
     (let cutoff = now - max max_age 60000;
          old = filter (\<lambda>e. sn_updated (snd e) < cutoff) (sx_table x);
          y = x\<lparr>sx_table := filter (\<lambda>e. \<not> sn_updated (snd e) < cutoff) (sx_table x)\<rparr>
      in (length old, if old = [] then y else y\<lparr>sx_cache := filter (\<lambda>e. \<not> sn_updated (snd e) < cutoff) (sx_cache y)\<rparr>))"

definition prune_excess_sessions :: "int \<Rightarrow> session_store \<Rightarrow> nat \<times> session_store" where
  "prune_excess_sessions max_entries x = (if max_entries \<le> 0 then (0, x) else
     let kept = map fst (take (nat max_entries) (sort_key (\<lambda>e. - sn_updated (snd e)) (sx_table x)));
         y = x\<lparr>sx_table := filter (\<lambda>e. fst e \<in> set kept) (sx_table x)\<rparr>;
         n = length (filter (\<lambda>e. fst e \<notin> set kept) (sx_table x))
     in (n, if n = 0 then y else y\<lparr>sx_cache := filter (\<lambda>e. fst e \<in> set (jkeys (sx_table y))) (sx_cache y)\<rparr>))"


section \<open>Keys of another format\<close>

definition colon_parts :: "string \<Rightarrow> string list" where
  "colon_parts k = split_on (\<lambda>c. c = CHR '':'') k"

definition nth_or :: "'a \<Rightarrow> 'a list \<Rightarrow> nat \<Rightarrow> 'a" where
  "nth_or d xs i = (if i < length xs then xs ! i else d)"

text \<open>The new key of an old one, when it is of the old format.\<close>

definition migrated_key :: "string \<Rightarrow> string \<Rightarrow> string \<Rightarrow> string option" where
  "migrated_key team user k =
     (let parts = colon_parts k; provider = nth_or [] parts 0; web = (provider = ''web'');
          chat = nth_or [] parts 1; alias = nth_or [] parts 2; thread = nth_or ''main'' parts 3
      in if provider = [] \<or> (web \<and> 6 \<le> length parts) \<or> (\<not> web \<and> 5 \<le> length parts) \<or> length parts < 3 \<or> chat = [] then None
         else Some (str_join '':'' (if web then [provider, team, user, chat, alias, thread] else [provider, team, chat, alias, thread])))"

definition migrate_key :: "string \<Rightarrow> string \<Rightarrow> string \<Rightarrow> nat \<times> session_store \<Rightarrow> nat \<times> session_store" where
  "migrate_key team user k p = (case migrated_key team user k of None \<Rightarrow> p
     | Some k' \<Rightarrow> (case load_session (snd p) k of
           None \<Rightarrow> (fst p, snd (delete_session k (snd p)))
         | Some old \<Rightarrow>
             if sn_messages old = [] then (fst p, snd (delete_session k (snd p)))
             else let s = (case load_session (snd p) k' of
                        Some e \<Rightarrow> if sn_messages e \<noteq> [] then e\<lparr>sn_messages := sn_messages old @ sn_messages e, sn_created := sn_created old\<rparr> else old
                      | None \<Rightarrow> old)
                  in (fst p + 1, snd (delete_session k (save_session k' s (snd p))))))"

definition migrate_legacy_keys :: "string \<Rightarrow> string \<Rightarrow> session_store \<Rightarrow> nat \<times> session_store" where
  "migrate_legacy_keys team user x = fold (migrate_key team user) (jkeys (sx_table x)) (0, x)"


section \<open>The cache agrees with the table\<close>

text \<open>The store with the loads under way. A load that found a cached session is over at once.\<close>

record session_system =
  sy_store :: session_store
  sy_loads :: "(string \<times> session) list"

definition load_begin :: "int \<Rightarrow> string \<Rightarrow> session_system \<Rightarrow> session_system" where
  "load_begin now k y = (case get_begin now k (sy_store y) of ((s, cached), x) \<Rightarrow>
     \<lparr>sy_store = x, sy_loads = (if cached then sy_loads y else sy_loads y @ [(k, s)])\<rparr>)"

definition load_finish :: "nat \<Rightarrow> session_system \<Rightarrow> session_system" where
  "load_finish i y = (if i < length (sy_loads y)
     then (case sy_loads y ! i of (k, s) \<Rightarrow>
       \<lparr>sy_store = get_finish k (s, False) (sy_store y), sy_loads = take i (sy_loads y) @ drop (Suc i) (sy_loads y)\<rparr>)
     else y)"

datatype session_op =
    SxBegin int string
  | SxFinish nat
  | SxAppend int string session_message
  | SxSave string session
  | SxDelete string
  | SxPrune int int
  | SxExcess int
  | SxMigrate string string

definition on_store :: "(session_store \<Rightarrow> session_store) \<Rightarrow> session_system \<Rightarrow> session_system" where
  "on_store f y = y\<lparr>sy_store := f (sy_store y)\<rparr>"

fun session_step :: "session_op \<Rightarrow> session_system \<Rightarrow> session_system" where
  "session_step (SxBegin now k) y = load_begin now k y"
| "session_step (SxFinish i) y = load_finish i y"
| "session_step (SxAppend now k m) y = on_store (append_message now k m) y"
| "session_step (SxSave k s) y = on_store (save_session k s) y"
| "session_step (SxDelete k) y = on_store (\<lambda>x. snd (delete_session k x)) y"
| "session_step (SxPrune now age) y = on_store (\<lambda>x. snd (prune_expired_sessions now age x)) y"
| "session_step (SxExcess n) y = on_store (\<lambda>x. snd (prune_excess_sessions n x)) y"
| "session_step (SxMigrate team user) y = on_store (\<lambda>x. snd (migrate_legacy_keys team user x)) y"

text \<open>The operations that may change what is stored for a key.\<close>

fun may_write :: "string \<Rightarrow> session_op \<Rightarrow> bool" where
  "may_write k (SxBegin _ _) = False"
| "may_write k (SxFinish _) = False"
| "may_write k (SxAppend _ k' _) = (k' = k)"
| "may_write k (SxSave k' _) = (k' = k)"
| "may_write k (SxDelete k') = (k' = k)"
| "may_write k _ = True"

text \<open>Nothing of a key is written while a load of it is under way.\<close>

fun loads_undisturbed :: "string \<Rightarrow> session_op list \<Rightarrow> session_system \<Rightarrow> bool" where
  "loads_undisturbed k [] y = True"
| "loads_undisturbed k (op # ops) y =
     (\<not> (may_write k op \<and> k \<in> fst ` set (sy_loads y)) \<and> loads_undisturbed k ops (session_step op y))"

definition stored_messages :: "session_store \<Rightarrow> string \<Rightarrow> session_message list" where
  "stored_messages x k = (case jget (sx_table x) k of Some s \<Rightarrow> sn_messages s | None \<Rightarrow> [])"

text \<open>A cached session has the messages and the time of the stored one; one that is not stored has none.\<close>

definition agrees :: "(string, session) jmap \<Rightarrow> string \<Rightarrow> session \<Rightarrow> bool" where
  "agrees table k s \<longleftrightarrow> (case jget table k of
       Some t \<Rightarrow> sn_messages s = sn_messages t \<and> sn_updated s = sn_updated t
     | None \<Rightarrow> sn_messages s = [])"

definition coherent_on :: "string set \<Rightarrow> session_store \<Rightarrow> bool" where
  "coherent_on A x \<longleftrightarrow> jwf (sx_cache x) \<and> jwf (sx_table x) \<and> length (sx_cache x) \<le> max_cache_size
     \<and> (\<forall>k s. (k, s) \<in> set (sx_cache x) \<longrightarrow> k \<in> A \<longrightarrow> agrees (sx_table x) k s)"

abbreviation coherent :: "session_store \<Rightarrow> bool" where
  "coherent x \<equiv> coherent_on UNIV x"

lemma coherent_cache:
  assumes "coherent_on A x" and "k \<in> A \<Longrightarrow> agrees (sx_table x) k s"
  shows "coherent_on A (cache_session k s x)"
proof -
  let ?c = "drop (length (sx_cache x) + 1 - max_cache_size) (sx_cache x)"
  have c: "sx_cache (cache_session k s x) = jset k s ?c" "sx_table (cache_session k s x) = sx_table x"
    by (simp_all add: cache_session_def evict_oldest_sessions_def Let_def)
  have "length ?c < max_cache_size" by (simp add: max_cache_size_def)
  then have "length (jset k s ?c) \<le> max_cache_size" using length_jset_le[of k s ?c] by linarith
  moreover have "jwf ?c" using assms(1) by (simp add: coherent_on_def jwf_drop)
  moreover have "agrees (sx_table x) k' t" if "(k', t) \<in> set (jset k s ?c)" "k' \<in> A" for k' t
    using that set_jset_subset[of k s ?c] assms by (auto simp: coherent_on_def dest: in_set_dropD)
  ultimately show ?thesis using assms(1) unfolding coherent_on_def c by auto
qed

lemma agrees_stored: "jget table k = Some s \<Longrightarrow> agrees table k s"
  by (simp add: agrees_def)

lemma agrees_other: "agrees table k s \<Longrightarrow> k \<noteq> k' \<Longrightarrow> agrees (jset k' t table) k s"
  by (simp add: agrees_def)

text \<open>Fewer entries on both sides: an entry that stays cached keeps its row, or had no messages.\<close>

lemma coherent_shrink:
  assumes "coherent_on A x" and "set (sx_cache y) \<subseteq> set (sx_cache x)" and "length (sx_cache y) \<le> length (sx_cache x)"
    and "jwf (sx_cache y)" and "jwf (sx_table y)"
    and "\<And>k s. (k, s) \<in> set (sx_cache y) \<Longrightarrow> agrees (sx_table x) k s \<Longrightarrow> agrees (sx_table y) k s"
  shows "coherent_on A y"
  using assms unfolding coherent_on_def by fastforce

lemma coherent_get: "coherent_on A x \<Longrightarrow> coherent_on A (snd (get_or_create now k x))"
proof -
  assume x: "coherent_on A x"
  show ?thesis
  proof (cases "jget (sx_cache x) k")
    case (Some s)
    have m: "(k, s) \<in> set (sx_cache x)" by (rule jget_mem[OF Some])
    have "length (jdel k (sx_cache x) @ [(k, s)]) \<le> length (sx_cache x)"
      using x length_jdel[of "sx_cache x" k] imageI[OF m, of fst] by (simp add: coherent_on_def)
    moreover have "jwf (jdel k (sx_cache x) @ [(k, s)])" using x by (auto simp: coherent_on_def jwf_def jdel_def distinct_map_filter)
    ultimately have "coherent_on A (x\<lparr>sx_cache := jdel k (sx_cache x) @ [(k, s)]\<rparr>)"
      using x m unfolding coherent_on_def by (auto simp: jdel_def)
    with Some show ?thesis by (simp add: get_or_create_def get_begin_def get_finish_def)
  next
    case None
    let ?s = "case load_session x k of Some s \<Rightarrow> s | None \<Rightarrow> new_session now"
    have "agrees (sx_table x) k ?s" by (simp add: agrees_def load_session_def new_session_def split: option.split)
    from coherent_cache[OF x this] None show ?thesis by (simp add: get_or_create_def get_begin_def get_finish_def)
  qed
qed

lemma coherent_append: "coherent_on A x \<Longrightarrow> coherent_on A (append_message now k m x)"
proof -
  assume x: "coherent_on A x"
  let ?row = "case load_session x k of Some s \<Rightarrow> s | None \<Rightarrow> new_session now"
  let ?t = "jset k (add_message now m ?row) (sx_table x)"
  have old: "agrees ?t k' s" if "(k', s) \<in> set (sx_cache x)" "k' \<noteq> k" "k' \<in> A" for k' s
    using that x by (intro agrees_other) (auto simp: coherent_on_def)
  show ?thesis
  proof (cases "jget (sx_cache x) k")
    case None
    then have no: "(k, s) \<notin> set (sx_cache x)" for s using x jget_iff[of "sx_cache x" k s] by (simp add: coherent_on_def)
    have a: "append_message now k m x = x\<lparr>sx_table := ?t\<rparr>" using None by (simp add: append_message_def Let_def)
    have "agrees ?t k' s" if "(k', s) \<in> set (sx_cache x)" "k' \<in> A" for k' s using that no old[OF that(1)] by (cases "k' = k") auto
    then show ?thesis using x unfolding a by (simp add: coherent_on_def)
  next
    case (Some s)
    have a: "append_message now k m x = x\<lparr>sx_table := ?t, sx_cache := jset k (add_message now m s) (sx_cache x)\<rparr>"
      using Some by (simp add: append_message_def Let_def)
    have "k \<in> A \<Longrightarrow> agrees (sx_table x) k s" using x jget_mem[OF Some] by (auto simp: coherent_on_def)
    then have new: "k \<in> A \<Longrightarrow> agrees ?t k (add_message now m s)"
      by (auto simp: agrees_def add_message_def load_session_def new_session_def split: option.splits)
    have "agrees ?t k' q" if "(k', q) \<in> set (jset k (add_message now m s) (sx_cache x))" "k' \<in> A" for k' q
    proof (cases "k' = k")
      case True
      have "jwf (jset k (add_message now m s) (sx_cache x))" using x by (simp add: coherent_on_def)
      then have "jget (jset k (add_message now m s) (sx_cache x)) k' = Some q" using that jget_iff by metis
      with True new that(2) show ?thesis by simp
    next
      case False
      then show ?thesis using that old set_jset_subset[of k "add_message now m s" "sx_cache x"] by auto
    qed
    moreover have "length (jset k (add_message now m s) (sx_cache x)) = length (sx_cache x)"
      using imageI[OF jget_mem[OF Some], of fst] by (simp add: length_jset)
    ultimately show ?thesis using x unfolding a by (auto simp: coherent_on_def)
  qed
qed

lemma coherent_save: "coherent_on A x \<Longrightarrow> coherent_on A (save_session k s x)"
proof -
  assume x: "coherent_on A x"
  let ?c = "drop (length (sx_cache x) + 1 - max_cache_size) (sx_cache x)"
  let ?t = "jset k s (sx_table x)"
  have c: "sx_cache (save_session k s x) = jset k s ?c" "sx_table (save_session k s x) = ?t"
    by (simp_all add: save_session_def cache_session_def evict_oldest_sessions_def Let_def)
  have "length ?c < max_cache_size" by (simp add: max_cache_size_def)
  then have "length (jset k s ?c) \<le> max_cache_size" using length_jset_le[of k s ?c] by linarith
  moreover have w: "jwf (jset k s ?c)" using x by (simp add: coherent_on_def jwf_drop)
  moreover have "agrees ?t k' q" if "(k', q) \<in> set (jset k s ?c)" "k' \<in> A" for k' q
  proof (cases "k' = k")
    case True
    then have "q = s" using that(1) w jget_iff[OF w, of k q] by simp
    with True show ?thesis by (simp add: agrees_def)
  next
    case False
    with that set_jset_subset[of k s ?c] have "(k', q) \<in> set (sx_cache x)" by (auto dest: in_set_dropD)
    with x False that(2) show ?thesis by (intro agrees_other) (auto simp: coherent_on_def)
  qed
  ultimately show ?thesis using x unfolding coherent_on_def c by auto
qed

lemma coherent_delete: "coherent_on A x \<Longrightarrow> coherent_on A (snd (delete_session k x))"
proof -
  assume x: "coherent_on A x"
  show ?thesis
  proof (rule coherent_shrink[OF x])
    fix k' s
    assume "(k', s) \<in> set (sx_cache (snd (delete_session k x)))"
    then have "k' \<noteq> k" by (simp add: delete_session_def jdel_def)
    then show "agrees (sx_table x) k' s \<Longrightarrow> agrees (sx_table (snd (delete_session k x))) k' s"
      by (simp add: delete_session_def agrees_def)
  qed (use x in \<open>auto simp: delete_session_def jdel_def coherent_on_def\<close>)
qed

text \<open>A row that stays makes its cached session agree with it still.\<close>

lemma agrees_filter:
  assumes "agrees t k s" and "jwf t" and "\<And>r. jget t k = Some r \<Longrightarrow> sn_updated r = sn_updated s \<Longrightarrow> P (k, r)"
  shows "agrees (filter P t) k s"
proof (cases "jget t k")
  case (Some r)
  then have "P (k, r)" using assms(1,3) by (simp add: agrees_def)
  then show ?thesis using assms(1) Some by (simp add: agrees_def jget_filter[OF assms(2)])
qed (use assms(1) in \<open>simp add: agrees_def jget_filter[OF assms(2)]\<close>)

lemma coherent_prune: "coherent_on A x \<Longrightarrow> coherent_on A (snd (prune_expired_sessions now age x))"
proof -
  assume x: "coherent_on A x"
  let ?y = "snd (prune_expired_sessions now age x)"
  let ?P = "\<lambda>e :: string \<times> session. \<not> sn_updated (snd e) < now - max age 60000"
  show ?thesis
  proof (cases "filter (\<lambda>e. sn_updated (snd e) < now - max age 60000) (sx_table x) = []")
    case True
    then have "filter ?P (sx_table x) = sx_table x" by (simp add: filter_empty_conv)
    with True x show ?thesis by (simp add: prune_expired_sessions_def Let_def)
  next
    case False
    then have y: "sx_cache ?y = filter ?P (sx_cache x)" "sx_table ?y = filter ?P (sx_table x)"
      by (simp_all add: prune_expired_sessions_def Let_def)
    show ?thesis
    proof (rule coherent_shrink[OF x])
      fix k s
      assume "(k, s) \<in> set (sx_cache ?y)" and "agrees (sx_table x) k s"
      then show "agrees (sx_table ?y) k s" using x unfolding y by (intro agrees_filter) (auto simp: coherent_on_def)
    qed (use x in \<open>auto simp: y coherent_on_def\<close>)
  qed
qed

lemma coherent_excess: "coherent_on A x \<Longrightarrow> coherent_on A (snd (prune_excess_sessions n x))"
proof (cases "n \<le> 0")
  case pos: False
  assume x: "coherent_on A x"
  let ?y = "snd (prune_excess_sessions n x)"
  define kept where "kept = set (map fst (take (nat n) (sort_key (\<lambda>e. - sn_updated (snd e)) (sx_table x))))"
  have y: "?y = (if filter (\<lambda>e. fst e \<notin> kept) (sx_table x) = [] then x\<lparr>sx_table := filter (\<lambda>e. fst e \<in> kept) (sx_table x)\<rparr>
      else x\<lparr>sx_table := filter (\<lambda>e. fst e \<in> kept) (sx_table x),
             sx_cache := filter (\<lambda>e. fst e \<in> set (jkeys (filter (\<lambda>e. fst e \<in> kept) (sx_table x)))) (sx_cache x)\<rparr>)"
    using pos unfolding prune_excess_sessions_def Let_def kept_def by simp
  show ?thesis
  proof (cases "filter (\<lambda>e. fst e \<notin> kept) (sx_table x) = []")
    case True
    then have "filter (\<lambda>e. fst e \<in> kept) (sx_table x) = sx_table x" by (simp add: filter_empty_conv)
    with True x show ?thesis unfolding y by simp
  next
    case False
    show ?thesis
    proof (rule coherent_shrink[OF x])
      fix k s
      assume m: "(k, s) \<in> set (sx_cache ?y)" and a: "agrees (sx_table x) k s"
      then have "k \<in> kept" using False by (auto simp: y jkeys_def)
      with a show "agrees (sx_table ?y) k s" using x False unfolding y by (auto simp: coherent_on_def intro!: agrees_filter)
    qed (use x False in \<open>auto simp: y coherent_on_def\<close>)
  qed
qed (simp add: prune_excess_sessions_def)

lemma coherent_migrate: "coherent_on A x \<Longrightarrow> coherent_on A (snd (migrate_legacy_keys team user x))"
proof -
  have one: "coherent_on A (snd (migrate_key team user k p))" if "coherent_on A (snd p)" for k p
    using that by (auto simp: migrate_key_def Let_def coherent_delete coherent_save split: option.split)
  have "coherent_on A (snd (fold (migrate_key team user) ks p))" if "coherent_on A (snd p)" for ks p
    using that by (induction ks arbitrary: p) (simp_all add: one)
  then show "coherent_on A x \<Longrightarrow> ?thesis" by (simp add: migrate_legacy_keys_def)
qed

text \<open>A reader of a cache that agrees with the table gets what is stored, and stores nothing.\<close>

lemma coherent_reads:
  assumes "coherent_on A x" and "k \<in> A"
  shows "sn_messages (fst (get_or_create now k x)) = stored_messages x k"
proof (cases "jget (sx_cache x) k")
  case (Some s)
  then have "agrees (sx_table x) k s" using assms jget_mem[OF Some] by (auto simp: coherent_on_def)
  with Some show ?thesis by (auto simp: get_or_create_def get_begin_def agrees_def stored_messages_def split: option.splits)
next
  case None
  then show ?thesis by (auto simp: get_or_create_def get_begin_def load_session_def stored_messages_def new_session_def split: option.split)
qed

lemma stored_get [simp]: "stored_messages (snd (get_or_create now k x)) k' = stored_messages x k'"
  by (auto simp: get_or_create_def get_begin_def get_finish_def cache_session_def evict_oldest_sessions_def Let_def stored_messages_def
      split: option.split)

lemma stored_append [simp]:
  "stored_messages (append_message now k m x) k' = stored_messages x k' @ (if k = k' then [m] else [])"
  by (auto simp: append_message_def Let_def stored_messages_def load_session_def add_message_def new_session_def split: option.split)

definition empty_store :: session_store where
  "empty_store = \<lparr>sx_cache = [], sx_table = []\<rparr>"

lemma coherent_empty [simp]: "coherent_on A empty_store"
  by (simp add: empty_store_def coherent_on_def)

text \<open>What a load found agrees with the table as long as nothing is written.\<close>

definition system_ok :: "string \<Rightarrow> session_system \<Rightarrow> bool" where
  "system_ok k y \<longleftrightarrow> coherent_on {k} (sy_store y) \<and> (\<forall>s. (k, s) \<in> set (sy_loads y) \<longrightarrow> agrees (sx_table (sy_store y)) k s)"

lemma table_kept:
  assumes "\<not> may_write k op" and "op \<noteq> SxFinish i" and "\<And>now k'. op \<noteq> SxBegin now k'"
  shows "jget (sx_table (sy_store (session_step op y))) k = jget (sx_table (sy_store y)) k"
  using assms
  by (cases op) (auto simp: on_store_def append_message_def save_session_def cache_session_def evict_oldest_sessions_def delete_session_def
      load_finish_def get_finish_def Let_def split: option.split prod.split)

lemma agrees_same: "jget t' k = jget t k \<Longrightarrow> agrees t' k s = agrees t k s"
  by (simp add: agrees_def)

lemma load_begin_ok:
  assumes "system_ok k y"
  shows "system_ok k (load_begin now k' y)"
proof (cases "jget (sx_cache (sy_store y)) k'")
  case (Some s)
  have "coherent_on {k} (snd (get_or_create now k' (sy_store y)))" by (rule coherent_get) (use assms in \<open>simp add: system_ok_def\<close>)
  then show ?thesis using Some assms by (simp add: load_begin_def get_begin_def get_or_create_def get_finish_def system_ok_def)
next
  case None
  have "agrees (sx_table (sy_store y)) k' (case load_session (sy_store y) k' of Some s \<Rightarrow> s | None \<Rightarrow> new_session now)"
    by (simp add: agrees_def load_session_def new_session_def split: option.split)
  then show ?thesis using None assms by (auto simp: load_begin_def get_begin_def system_ok_def)
qed

lemma load_finish_ok:
  assumes "system_ok k y"
  shows "system_ok k (load_finish i y)"
proof (cases "i < length (sy_loads y)")
  case True
  obtain k' s where ks: "sy_loads y ! i = (k', s)" by fastforce
  then have "(k', s) \<in> set (sy_loads y)" using True nth_mem by metis
  then have "k' \<in> {k} \<Longrightarrow> agrees (sx_table (sy_store y)) k' s" using assms by (auto simp: system_ok_def)
  then have "coherent_on {k} (cache_session k' s (sy_store y))" using assms by (intro coherent_cache) (simp_all add: system_ok_def)
  moreover have "sx_table (cache_session k' s (sy_store y)) = sx_table (sy_store y)"
    by (simp add: cache_session_def evict_oldest_sessions_def Let_def)
  ultimately show ?thesis using True ks assms
    by (auto simp: load_finish_def get_finish_def system_ok_def dest: in_set_takeD in_set_dropD)
qed (use assms in \<open>simp add: load_finish_def\<close>)

lemma session_step_ok:
  assumes "system_ok k y" and quiet: "\<not> (may_write k op \<and> k \<in> fst ` set (sy_loads y))"
  shows "system_ok k (session_step op y)"
proof -
  have c: "coherent_on {k} (sy_store y)" using assms(1) by (simp add: system_ok_def)
  consider (load) now k' where "op = SxBegin now k'" | (loaded) i where "op = SxFinish i"
    | (stored) "\<And>now k'. op \<noteq> SxBegin now k'" "\<And>i. op \<noteq> SxFinish i" by blast
  then show ?thesis
  proof cases
    case load
    then show ?thesis using load_begin_ok[OF assms(1)] by simp
  next
    case loaded
    then show ?thesis using load_finish_ok[OF assms(1)] by simp
  next
    case stored
    have st: "coherent_on {k} (sy_store (session_step op y))" "sy_loads (session_step op y) = sy_loads y"
    proof -
      have "coherent_on {k} (sy_store (session_step op y)) \<and> sy_loads (session_step op y) = sy_loads y"
      proof (cases op)
        case (SxBegin now k')
        then show ?thesis using stored(1) by blast
      next
        case (SxFinish i)
        then show ?thesis using stored(2) by blast
      qed (use c in \<open>simp_all add: on_store_def coherent_append coherent_save coherent_delete coherent_prune coherent_excess coherent_migrate\<close>)
      then show "coherent_on {k} (sy_store (session_step op y))" "sy_loads (session_step op y) = sy_loads y" by simp_all
    qed
    have "agrees (sx_table (sy_store (session_step op y))) k s" if s: "(k, s) \<in> set (sy_loads y)" for s
    proof -
      have "\<not> may_write k op" using quiet s by force
      then have t: "jget (sx_table (sy_store (session_step op y))) k = jget (sx_table (sy_store y)) k"
        by (rule table_kept[OF _ stored(2) stored(1)])
      have "agrees (sx_table (sy_store y)) k s" using assms(1) s by (simp add: system_ok_def)
      then show ?thesis unfolding agrees_same[of _ k, OF t] .
    qed
    then show ?thesis using st by (simp add: system_ok_def)
  qed
qed

lemma session_run_ok: "system_ok k y \<Longrightarrow> loads_undisturbed k ops y \<Longrightarrow> system_ok k (run_steps session_step ops y)"
  by (induction ops arbitrary: y) (simp_all add: session_step_ok)

definition empty_system :: session_system where
  "empty_system = \<lparr>sy_store = empty_store, sy_loads = []\<rparr>"

lemma empty_system_ok: "system_ok k empty_system"
  by (simp add: system_ok_def empty_system_def)

text \<open>Whatever is loaded and written, at most two hundred sessions are cached.\<close>

definition cache_bounded :: "session_system \<Rightarrow> bool" where
  "cache_bounded y \<longleftrightarrow> coherent_on {} (sy_store y)"

lemma cache_bounded_step: "cache_bounded y \<Longrightarrow> cache_bounded (session_step op y)"
proof -
  assume y: "cache_bounded y"
  have f: "coherent_on {} (cache_session k' s (sy_store y))" for k' s
    using y by (intro coherent_cache) (simp_all add: cache_bounded_def)
  have g: "coherent_on {} (snd (get_or_create now k' (sy_store y)))" for now k'
    using y by (intro coherent_get) (simp add: cache_bounded_def)
  show "cache_bounded (session_step op y)"
  proof (cases op)
    case (SxBegin now k')
    then show ?thesis using y g[of now k']
      by (cases "jget (sx_cache (sy_store y)) k'") (simp_all add: cache_bounded_def load_begin_def get_begin_def get_or_create_def get_finish_def)
  next
    case (SxFinish i)
    then show ?thesis using y f by (simp add: cache_bounded_def load_finish_def get_finish_def split: prod.split)
  qed (use y in \<open>simp_all add: cache_bounded_def on_store_def coherent_append coherent_save coherent_delete coherent_prune coherent_excess coherent_migrate\<close>)
qed

interpretation sessions: machine session_step cache_bounded
  by unfold_locales (rule cache_bounded_step)

text \<open>
  C30. Let sessions be loaded, in two halves with anything in between, and written in any order. If nothing of a key is
  written while a load of it is under way, whoever reads that key gets exactly its stored messages. In any case no more
  than two hundred sessions are cached.
\<close>

theorem reader_sees_stored:
  "let y = run_steps session_step ops empty_system; x = sy_store y
   in (if loads_undisturbed k ops empty_system
       then sn_messages (fst (get_or_create now k x)) = stored_messages x k
         \<and> list_all (\<lambda>(k', s). if k' = k then sn_messages s = stored_messages x k else True) (sy_loads y)
       else True)
     \<and> length (sx_cache x) \<le> 200"
proof -
  let ?y = "run_steps session_step ops empty_system"
  have "cache_bounded empty_system" by (simp add: cache_bounded_def empty_system_def)
  then have "cache_bounded ?y" by (rule sessions.inv_run)
  then have b: "length (sx_cache (sy_store ?y)) \<le> 200" by (simp add: cache_bounded_def coherent_on_def max_cache_size_def)
  have "sn_messages (fst (get_or_create now k (sy_store ?y))) = stored_messages (sy_store ?y) k
      \<and> (\<forall>s. (k, s) \<in> set (sy_loads ?y) \<longrightarrow> sn_messages s = stored_messages (sy_store ?y) k)" if "loads_undisturbed k ops empty_system"
  proof -
    have ok: "system_ok k ?y" by (rule session_run_ok[OF empty_system_ok that])
    then have "sn_messages (fst (get_or_create now k (sy_store ?y))) = stored_messages (sy_store ?y) k"
      by (intro coherent_reads[of "{k}"]) (simp_all add: system_ok_def)
    moreover have "sn_messages s = stored_messages (sy_store ?y) k" if "(k, s) \<in> set (sy_loads ?y)" for s
      using ok that by (auto simp: system_ok_def agrees_def stored_messages_def split: option.splits)
    ultimately show ?thesis by blast
  qed
  with b show ?thesis by (auto simp: Let_def list_all_iff)
qed

text \<open>
  A message that is stored between the two halves of a reader's load is lost to the cache: every later
  reader gets the session without it, until the session leaves the cache.
\<close>

lemma message_lost_to_cache:
  assumes "jget (sx_cache x) k = None" and "length (sx_cache x) < 199"
  shows "let (r, x1) = get_begin now k x; x2 = append_message now' k m x1; x3 = get_finish k r x2
     in stored_messages x3 k = stored_messages x k @ [m]
      \<and> sn_messages (fst (get_or_create now'' k x3)) = stored_messages x k"
  using assms
  by (simp add: get_begin_def append_message_def get_finish_def cache_session_def evict_oldest_sessions_def max_cache_size_def Let_def
      stored_messages_def load_session_def add_message_def get_or_create_def new_session_def split: option.split)

end
