(* ===== verification/SessionRecorder.thy ===== *)
theory SessionRecorder
  imports SessionStore Messages
begin

text \<open>
  \<open>src/src/channels/session-recorder.ts\<close>: what a chat says is appended to the session of the chat, and
  read from there as the model's history. With it, messages as they come in (\<open>src/src/bus/types.ts\<close>).

  A text field that is absent is the empty string. An environment says what the clock shows, how it is
  written, and whether the session table and the daily memory take a write; a failure is logged. What
  makes a text fit to be stored is an argument, as \<open>String\<close> of a value is.
\<close>

section \<open>Messages that come in\<close>

record inbound =
  ib_id :: string
  ib_provider :: string
  ib_channel :: string
  ib_instance :: string
  ib_sender :: string
  ib_chat :: string
  ib_content :: string
  ib_at :: string
  ib_thread :: string
  ib_reply_to :: string
  ib_meta :: memory

definition inbound_provider :: "inbound \<Rightarrow> string option" where
  "inbound_provider m = (let raw = str_trim (str_lower (or_else (ib_provider m) (ib_channel m)))
     in if raw = [] then None else Some raw)"

definition extract_team_id :: "memory \<Rightarrow> string" where
  "extract_team_id meta = (case memory_at meta ''team_id'' of JStr s \<Rightarrow> s | _ \<Rightarrow> [])"

definition chat_session_key :: "string \<Rightarrow> string \<Rightarrow> string \<Rightarrow> string \<Rightarrow> string \<Rightarrow> string" where
  "chat_session_key provider chat_id alias thread team =
     str_join '':'' ([provider] @ (if team = [] then [] else [team]) @ [chat_id, alias, or_else (str_trim thread) ''main''])"

definition inbound_key :: "string \<Rightarrow> inbound \<Rightarrow> string \<Rightarrow> string" where
  "inbound_key provider m alias = chat_session_key provider (ib_chat m) alias (ib_thread m) (extract_team_id (ib_meta m))"


section \<open>The recorder\<close>

record recorder_env =
  re_now :: int
  re_iso :: "int \<Rightarrow> string"
  re_sanitize :: "string \<Rightarrow> string"
  re_store_ok :: bool
  re_daily_ok :: bool

record mirror_event =
  mv_key :: string
  mv_from_user :: bool
  mv_sender :: string
  mv_content :: string
  mv_at :: string

record recorder =
  rr_sessions :: "session_store option"
  rr_daily :: "string list option"
  rr_mirror :: "mirror_event list option"

definition emit_mirror :: "mirror_event \<Rightarrow> recorder \<Rightarrow> recorder" where
  "emit_mirror e r = r\<lparr>rr_mirror := map_option (\<lambda>es. es @ [e]) (rr_mirror r)\<rparr>"

definition daily_line :: "recorder_env \<Rightarrow> string \<Rightarrow> string \<Rightarrow> string \<Rightarrow> string \<Rightarrow> string \<Rightarrow> string \<Rightarrow> string" where
  "daily_line env role provider chat_id thread sender body =
     ''- ['' @ re_iso env (re_now env) @ ''] ['' @ provider @ '':'' @ chat_id @ '':'' @ or_else (str_trim thread) ''-'' @ ''] ''
     @ role @ ''('' @ or_else (str_trim sender) ''unknown'' @ ''): '' @ body @ [CHR 0x0A]"

definition append_daily :: "recorder_env \<Rightarrow> string \<Rightarrow> string \<Rightarrow> inbound \<Rightarrow> string \<Rightarrow> string \<Rightarrow> recorder \<Rightarrow> recorder" where
  "append_daily env role provider m sender content r =
     (let body = take 1600 (normalize_text False content)
      in if body = [] \<or> \<not> re_daily_ok env then r
         else r\<lparr>rr_daily := map_option (\<lambda>ls. ls @ [daily_line env role provider (ib_chat m) (ib_thread m) sender body]) (rr_daily r)\<rparr>)"

text \<open>What both kinds of messages share: the store, the mirror, the daily memory.\<close>

definition record_message :: "recorder_env \<Rightarrow> string \<Rightarrow> string \<Rightarrow> inbound \<Rightarrow> string \<Rightarrow> session_message \<Rightarrow> recorder \<Rightarrow> recorder" where
  "record_message env role provider m alias msg r = (case rr_sessions r of
       None \<Rightarrow> r
     | Some x \<Rightarrow> if \<not> re_store_ok env then r
         else let k = inbound_key provider m alias;
                  r = r\<lparr>rr_sessions := Some (append_message (re_now env) k msg x)\<rparr>;
                  r = emit_mirror \<lparr>mv_key = k, mv_from_user = (sm_role msg = ''user''), mv_sender = sm_sender msg,
                        mv_content = sm_content msg, mv_at = re_iso env (re_now env)\<rparr> r
              in append_daily env role provider m (sm_sender msg) (sm_content msg) r)"

definition record_user :: "recorder_env \<Rightarrow> string \<Rightarrow> inbound \<Rightarrow> string \<Rightarrow> recorder \<Rightarrow> recorder" where
  "record_user env provider m alias =
     record_message env ''USER'' provider m alias
       \<lparr>sm_role = ''user'', sm_content = re_sanitize env (ib_content m), sm_at = Some (re_now env), sm_sender = ib_sender m,
        sm_extra = [(''at'', JStr (ib_at m)), (''thread_id'', JStr (ib_thread m))]\<rparr>"

record reply_meta =
  ry_stream :: string
  ry_parsed :: jsval
  ry_tool_calls :: int
  ry_run :: string
  ry_usage :: jsval
  ry_tools :: "string list"

definition reply_fields :: "reply_meta option \<Rightarrow> memory" where
  "reply_fields meta = (case meta of None \<Rightarrow> [] | Some y \<Rightarrow>
     (if ry_stream y = [] then [] else [(''stream_full_content'', JStr (ry_stream y))])
     @ (if ry_parsed y = JUndef then [] else [(''parsed_output'', ry_parsed y)])
     @ (if ry_tool_calls y = 0 then [] else [(''tool_calls_count'', JNum (of_int (ry_tool_calls y)))])
     @ (if ry_run y = [] then [] else [(''run_id'', JStr (ry_run y))])
     @ (if js_truthy (ry_usage y) then [(''usage'', ry_usage y)] else [])
     @ (if ry_tools y = [] then [] else [(''tools_used'', JArr (map JStr (ry_tools y)))]))"

definition record_assistant :: "recorder_env \<Rightarrow> string \<Rightarrow> inbound \<Rightarrow> string \<Rightarrow> string \<Rightarrow> reply_meta option \<Rightarrow> recorder \<Rightarrow> recorder" where
  "record_assistant env provider m alias content meta =
     record_message env ''ASSISTANT'' provider m alias
       \<lparr>sm_role = ''assistant'', sm_content = re_sanitize env content, sm_at = Some (re_now env), sm_sender = alias,
        sm_extra = [(''at'', JStr (re_iso env (re_now env))), (''thread_id'', JStr (ib_thread m))] @ reply_fields meta\<rparr>"


section \<open>Reading a session\<close>

text \<open>A time that cannot be read does not make a message old.\<close>

definition recent_enough :: "int \<Rightarrow> int \<Rightarrow> session_message \<Rightarrow> bool" where
  "recent_enough now max_age m \<longleftrightarrow> max_age \<le> 0 \<or> (case sm_at m of None \<Rightarrow> True | Some t \<Rightarrow> now - t \<le> max_age)"

definition history_of :: "int \<Rightarrow> int \<Rightarrow> int \<Rightarrow> session_message list \<Rightarrow> (string \<times> string) list" where
  "history_of now max_messages max_age ms =
     filter (\<lambda>e. snd e \<noteq> []) (map (\<lambda>m. (or_else (sm_role m) ''user'', sm_content m))
       (last_messages max_messages (filter (recent_enough now max_age) ms)))"

definition with_session :: "int \<Rightarrow> string \<Rightarrow> 'a \<Rightarrow> (session_message list \<Rightarrow> 'a) \<Rightarrow> recorder \<Rightarrow> 'a \<times> recorder" where
  "with_session now k d f r = (case rr_sessions r of
       None \<Rightarrow> (d, r)
     | Some x \<Rightarrow> (case get_or_create now k x of (s, x) \<Rightarrow> (f (sn_messages s), r\<lparr>rr_sessions := Some x\<rparr>)))"

definition recorded_history :: "int \<Rightarrow> string \<Rightarrow> string \<Rightarrow> string \<Rightarrow> string \<Rightarrow> int \<Rightarrow> int \<Rightarrow> string \<Rightarrow> recorder
    \<Rightarrow> (string \<times> string) list \<times> recorder" where
  "recorded_history now provider chat_id alias thread max_messages max_age team =
     with_session now (chat_session_key provider chat_id alias thread team) [] (history_of now max_messages max_age)"

text \<open>The messages are read from the last one; the first of a session answers nothing.\<close>

fun retry_scan :: "int \<Rightarrow> int \<Rightarrow> string \<Rightarrow> session_message list \<Rightarrow> bool" where
  "retry_scan now window content (cur # prev # older) =
     (if sm_role cur \<noteq> ''assistant'' then retry_scan now window content (prev # older)
      else case sm_at cur of
          None \<Rightarrow> False
        | Some t \<Rightarrow> if window < now - t then False
            else if sm_role prev = ''user'' \<and> str_trim (sm_content prev) = content then True
            else retry_scan now window content (prev # older))"
| "retry_scan now window content _ = False"

definition is_delivery_retry :: "int \<Rightarrow> int \<Rightarrow> string \<Rightarrow> inbound \<Rightarrow> string \<Rightarrow> recorder \<Rightarrow> bool \<times> recorder" where
  "is_delivery_retry now window provider m alias =
     with_session now (inbound_key provider m alias) False
       (\<lambda>ms. str_trim (ib_content m) \<noteq> [] \<and> retry_scan now window (str_trim (ib_content m)) (rev ms))"

definition get_last_assistant_content :: "int \<Rightarrow> string \<Rightarrow> string \<Rightarrow> string \<Rightarrow> string \<Rightarrow> recorder \<Rightarrow> string option \<times> recorder" where
  "get_last_assistant_content now provider chat_id alias team =
     with_session now (chat_session_key provider chat_id alias [] team) None
       (\<lambda>ms. map_option sm_content (find (\<lambda>m. sm_role m = ''assistant'' \<and> sm_content m \<noteq> []) (rev ms)))"


section \<open>History is what was recorded\<close>

datatype recorder_op =
    RcUser recorder_env string inbound string
  | RcAssistant recorder_env string inbound string string "reply_meta option"
  | RcHistory int string string string string string
  | RcRetry int int string inbound string
  | RcLast int string string string string

fun recorder_step :: "recorder_op \<Rightarrow> recorder \<Rightarrow> recorder" where
  "recorder_step (RcUser env provider m alias) r = record_user env provider m alias r"
| "recorder_step (RcAssistant env provider m alias content meta) r = record_assistant env provider m alias content meta r"
| "recorder_step (RcHistory now provider chat_id alias thread team) r =
     snd (recorded_history now provider chat_id alias thread 12 0 team r)"
| "recorder_step (RcRetry now window provider m alias) r = snd (is_delivery_retry now window provider m alias r)"
| "recorder_step (RcLast now provider chat_id alias team) r = snd (get_last_assistant_content now provider chat_id alias team r)"

text \<open>What an operation records in a session: the sanitised text, its side and its time, when the table takes it.\<close>

fun recorded :: "string \<Rightarrow> recorder_op \<Rightarrow> (string \<times> string \<times> int) list" where
  "recorded k (RcUser env provider m alias) =
     (if re_store_ok env \<and> inbound_key provider m alias = k then [(''user'', re_sanitize env (ib_content m), re_now env)] else [])"
| "recorded k (RcAssistant env provider m alias content meta) =
     (if re_store_ok env \<and> inbound_key provider m alias = k then [(''assistant'', re_sanitize env content, re_now env)] else [])"
| "recorded k _ = []"

definition side_text_time :: "session_message \<Rightarrow> string \<times> string \<times> int option" where
  "side_text_time m = (sm_role m, sm_content m, sm_at m)"

definition recorder_ok :: "recorder \<Rightarrow> bool" where
  "recorder_ok r \<longleftrightarrow> (\<exists>x. rr_sessions r = Some x \<and> coherent x)"

definition recorder_messages :: "recorder \<Rightarrow> string \<Rightarrow> session_message list" where
  "recorder_messages r k = (case rr_sessions r of None \<Rightarrow> [] | Some x \<Rightarrow> stored_messages x k)"

lemma with_session_ok:
  assumes "recorder_ok r"
  shows "fst (with_session now k d f r) = f (recorder_messages r k)" and "recorder_ok (snd (with_session now k d f r))"
    and "recorder_messages (snd (with_session now k d f r)) k' = recorder_messages r k'"
proof -
  from assms obtain x where x: "rr_sessions r = Some x" "coherent x" by (auto simp: recorder_ok_def)
  obtain s y where y: "get_or_create now k x = (s, y)" by force
  with coherent_get[OF x(2), of now k] coherent_reads[OF x(2), of k now] stored_get[of now k x k']
  show "fst (with_session now k d f r) = f (recorder_messages r k)" and "recorder_ok (snd (with_session now k d f r))"
    and "recorder_messages (snd (with_session now k d f r)) k' = recorder_messages r k'"
    by (simp_all add: with_session_def x(1) recorder_ok_def recorder_messages_def)
qed

lemma record_message_ok:
  assumes "recorder_ok r"
  shows "recorder_ok (record_message env role provider m alias msg r)"
    and "recorder_messages (record_message env role provider m alias msg r) k
       = recorder_messages r k @ (if re_store_ok env \<and> inbound_key provider m alias = k then [msg] else [])"
proof -
  from assms obtain x where x: "rr_sessions r = Some x" "coherent x" by (auto simp: recorder_ok_def)
  have "rr_sessions (record_message env role provider m alias msg r)
      = Some (if re_store_ok env then append_message (re_now env) (inbound_key provider m alias) msg x else x)"
    by (simp add: record_message_def x(1) Let_def append_daily_def emit_mirror_def)
  with x coherent_append[OF x(2)] show "recorder_ok (record_message env role provider m alias msg r)"
    and "recorder_messages (record_message env role provider m alias msg r) k
       = recorder_messages r k @ (if re_store_ok env \<and> inbound_key provider m alias = k then [msg] else [])"
    by (simp_all add: recorder_ok_def recorder_messages_def)
qed

interpretation recording: machine recorder_step recorder_ok
proof
  fix r e
  assume "recorder_ok r"
  then show "recorder_ok (recorder_step e r)"
    by (cases e) (simp_all add: with_session_ok record_message_ok record_user_def record_assistant_def recorded_history_def
        is_delivery_retry_def get_last_assistant_content_def)
qed

lemma recorded_step:
  assumes "recorder_ok r"
  shows "map side_text_time (recorder_messages (recorder_step e r) k)
    = map side_text_time (recorder_messages r k) @ map (\<lambda>(a, b, t). (a, b, Some t)) (recorded k e)"
  using assms by (cases e) (simp_all add: with_session_ok record_message_ok record_user_def record_assistant_def
      recorded_history_def is_delivery_retry_def get_last_assistant_content_def side_text_time_def)

lemma recorded_run:
  assumes "recorder_ok r"
  shows "map side_text_time (recorder_messages (run_steps recorder_step es r) k)
    = map side_text_time (recorder_messages r k) @ map (\<lambda>(a, b, t). (a, b, Some t)) (concat (map (recorded k) es))"
  using assms
proof (induction es arbitrary: r)
  case (Cons e es)
  then show ?case using recording.inv_run[OF Cons.prems, of "[e]"] by (simp add: recorded_step)
qed simp


definition recorder_new :: "string list option \<Rightarrow> mirror_event list option \<Rightarrow> recorder" where
  "recorder_new daily mirror = \<lparr>rr_sessions = Some empty_store, rr_daily = daily, rr_mirror = mirror\<rparr>"

lemma recorder_new_ok [simp]:
  "recorder_ok (recorder_new daily mirror)" "recorder_messages (recorder_new daily mirror) k = []"
  by (simp_all add: recorder_new_def recorder_ok_def recorder_messages_def stored_messages_def) (simp add: empty_store_def)

lemma recorded_from_new:
  "map side_text_time (recorder_messages (run_steps recorder_step es (recorder_new daily mirror)) k)
     = map (\<lambda>(a, b, t). (a, b, Some t)) (concat (map (recorded k) es))"
  by (simp add: recorded_run)

lemma last_messages_map: "last_messages n (map f xs) = map f (last_messages n xs)"
  by (simp add: last_messages_def drop_map)

text \<open>
  After any run of a recorder that started empty, the history of a chat is what was recorded under its
  key: the last messages that are recent enough, in order, without the empty ones.
\<close>

theorem history_is_recorded:
  "fst (recorded_history now provider chat_id alias thread n age team (run_steps recorder_step es (recorder_new daily mirror)))
   = filter (\<lambda>e. snd e \<noteq> []) (map (\<lambda>(side, body, t). (side, body)) (last_messages n
       (filter (\<lambda>(side, body, t). age \<le> 0 \<or> now - t \<le> age)
         (concat (map (recorded (chat_session_key provider chat_id alias thread team)) es)))))"
proof -
  let ?k = "chat_session_key provider chat_id alias thread team"
  let ?r = "run_steps recorder_step es (recorder_new daily mirror)"
  let ?g = "\<lambda>(a, b, t). (or_else a ''user'', b)" and ?P = "\<lambda>(a, b, t). age \<le> 0 \<or> (case t of None \<Rightarrow> True | Some t \<Rightarrow> now - t \<le> age)"
  have hist: "history_of now n age ms = filter (\<lambda>e. snd e \<noteq> []) (map ?g (last_messages n (filter ?P (map side_text_time ms))))" for ms
    by (simp add: history_of_def filter_map last_messages_map comp_def side_text_time_def recent_enough_def[abs_def])
  let ?xs = "concat (map (recorded ?k) es)"
  have side: "or_else a ''user'' = a" if "(a, b, t) \<in> set (last_messages n (filter Q ?xs))" for a b t Q
  proof -
    from that have "(a, b, t) \<in> set ?xs" by (auto simp: last_messages_def dest!: in_set_dropD)
    then obtain e where "(a, b, t) \<in> set (recorded ?k e)" by auto
    then have "a = ''user'' \<or> a = ''assistant''" by (cases e) (auto split: if_splits)
    then show ?thesis by (auto simp: or_else_def)
  qed
  have "recorder_ok ?r" by (rule recording.inv_run) simp
  from with_session_ok(1)[OF this] have "fst (recorded_history now provider chat_id alias thread n age team ?r)
      = history_of now n age (recorder_messages ?r ?k)" by (simp add: recorded_history_def)
  then show ?thesis
    by (simp add: hist recorded_from_new filter_map last_messages_map comp_def case_prod_unfold)
       (auto intro: side)
qed


section \<open>A delivery that is repeated\<close>

definition in_window :: "int \<Rightarrow> int \<Rightarrow> session_message \<Rightarrow> bool" where
  "in_window now window m \<longleftrightarrow> (case sm_at m of None \<Rightarrow> False | Some t \<Rightarrow> now - t \<le> window)"

lemma retry_scan_iff:
  "retry_scan now window content (rev ms) \<longleftrightarrow> (\<exists>older prev cur newer. ms = older @ [prev, cur] @ newer
     \<and> sm_role prev = ''user'' \<and> str_trim (sm_content prev) = content \<and> sm_role cur = ''assistant''
     \<and> filter (\<lambda>m. sm_role m = ''assistant'' \<and> \<not> in_window now window m) (cur # newer) = [])"
  (is "_ \<longleftrightarrow> ?R ms")
proof (induction ms rule: rev_induct)
  case (snoc cur ms)
  note IH = this
  show ?case
  proof (cases ms rule: rev_cases)
    case (snoc older prev)
    have split: "?R (ms @ [cur]) \<longleftrightarrow> \<not> (sm_role cur = ''assistant'' \<and> \<not> in_window now window cur)
       \<and> (?R ms \<or> sm_role prev = ''user'' \<and> str_trim (sm_content prev) = content \<and> sm_role cur = ''assistant'')" (is "?L \<longleftrightarrow> ?S")
    proof
      assume ?L
      then obtain o1 p c nw where d: "ms @ [cur] = o1 @ [p, c] @ nw" "sm_role p = ''user''" "str_trim (sm_content p) = content"
        "sm_role c = ''assistant''" "filter (\<lambda>m. sm_role m = ''assistant'' \<and> \<not> in_window now window m) (c # nw) = []" by blast
      show ?S
      proof (cases nw rule: rev_cases)
        case Nil
        with d snoc show ?thesis by (auto split: if_splits)
      next
        case (snoc nw' x)
        with d have "ms = o1 @ [p, c] @ nw'" "x = cur"
          "filter (\<lambda>m. sm_role m = ''assistant'' \<and> \<not> in_window now window m) (c # nw') = []"
          "\<not> (sm_role cur = ''assistant'' \<and> \<not> in_window now window cur)" by (auto split: if_splits)
        with d(2-4) show ?thesis by blast
      qed
    next
      assume s: ?S
      then consider "?R ms" | "sm_role prev = ''user''" "str_trim (sm_content prev) = content" "sm_role cur = ''assistant''" by blast
      then show ?L
      proof cases
        case 1
        then obtain o1 p c nw where d: "ms = o1 @ [p, c] @ nw" "sm_role p = ''user''" "str_trim (sm_content p) = content"
          "sm_role c = ''assistant''" "filter (\<lambda>m. sm_role m = ''assistant'' \<and> \<not> in_window now window m) (c # nw) = []" by blast
        moreover have "\<not> (sm_role cur = ''assistant'' \<and> \<not> in_window now window cur)" using s by blast
        ultimately show ?thesis by (intro exI[of _ o1] exI[of _ p] exI[of _ c] exI[of _ "nw @ [cur]"]) (auto split: if_splits)
      next
        case 2
        with s snoc show ?thesis by (intro exI[of _ older] exI[of _ prev] exI[of _ cur] exI[of _ "[]"]) auto
      qed
    qed
    have turn: "(if sm_role cur \<noteq> ''assistant'' then B else case sm_at cur of None \<Rightarrow> False
         | Some t \<Rightarrow> if window < now - t then False else if P then True else B)
       \<longleftrightarrow> \<not> (sm_role cur = ''assistant'' \<and> \<not> in_window now window cur) \<and> (B \<or> P \<and> sm_role cur = ''assistant'')" for B P
      by (auto simp: in_window_def split: option.splits)
    have r: "rev (ms @ [cur]) = cur # prev # rev older" "prev # rev older = rev ms" using snoc by simp_all
    have "retry_scan now window content (rev (ms @ [cur])) \<longleftrightarrow> ?S"
      unfolding r(1) retry_scan.simps(1)[of now window content cur prev "rev older"] turn
      unfolding r(2) IH by (simp only: conj_assoc)
    with split show ?thesis by simp
  qed (auto simp: Cons_eq_append_conv append_eq_Cons_conv)
qed simp


lemma adjacent_map:
  "(\<exists>older prev cur newer. map f xs = older @ [prev, cur] @ newer \<and> A prev cur \<and> filter B (cur # newer) = [])
   \<longleftrightarrow> (\<exists>older prev cur newer. xs = older @ [prev, cur] @ newer \<and> A (f prev) (f cur) \<and> filter (\<lambda>x. B (f x)) (cur # newer) = [])"
  (is "?L \<longleftrightarrow> ?R")
proof
  assume ?L
  then obtain older prev cur newer where d: "map f xs = older @ [prev, cur] @ newer" "A prev cur" "filter B (cur # newer) = []" by blast
  then obtain o1 p c n1 where "xs = o1 @ [p, c] @ n1" "f p = prev" "f c = cur" "map f n1 = newer"
    by (auto simp: map_eq_append_conv map_eq_Cons_conv)
  with d(2,3) show ?R by (intro exI[of _ o1] exI[of _ p] exI[of _ c] exI[of _ n1]) (auto simp: filter_empty_conv)
next
  assume ?R
  then obtain o1 p c n1 where "xs = o1 @ [p, c] @ n1" "A (f p) (f c)" "filter (\<lambda>x. B (f x)) (c # n1) = []" by blast
  then show ?L by (intro exI[of _ "map f o1"] exI[of _ "f p"] exI[of _ "f c"] exI[of _ "map f n1"]) (auto simp: filter_empty_conv)
qed

text \<open>
  After any run of a recorder that started empty, a message is taken for a repeated delivery exactly
  when a message with the same text was answered and neither that answer nor one after it is older than
  the window.
\<close>

theorem repeated_delivery_spec:
  "fst (is_delivery_retry now window provider m alias (run_steps recorder_step es (recorder_new daily mirror)))
   \<longleftrightarrow> str_trim (ib_content m) \<noteq> []
     \<and> (\<exists>older question at_question answer at_answer newer.
          concat (map (recorded (inbound_key provider m alias)) es)
            = older @ [(''user'', question, at_question), (''assistant'', answer, at_answer)] @ newer
        \<and> str_trim question = str_trim (ib_content m) \<and> now - at_answer \<le> window
        \<and> filter (\<lambda>(side, _, t). side = ''assistant'' \<and> window < now - t) newer = [])"
proof -
  let ?k = "inbound_key provider m alias"
  let ?r = "run_steps recorder_step es (recorder_new daily mirror)"
  let ?xs = "concat (map (recorded ?k) es)" and ?c = "str_trim (ib_content m)"
  have "recorder_ok ?r" by (rule recording.inv_run) simp
  then have is_retry: "fst (is_delivery_retry now window provider m alias ?r)
      \<longleftrightarrow> ?c \<noteq> [] \<and> retry_scan now window ?c (rev (recorder_messages ?r ?k))" by (simp add: is_delivery_retry_def with_session_ok)
  let ?A = "\<lambda>prev cur. fst prev = ''user'' \<and> str_trim (fst (snd prev)) = ?c \<and> fst cur = ''assistant''"
  let ?B = "\<lambda>x. fst x = ''assistant'' \<and> (case snd (snd x) of None \<Rightarrow> True | Some t \<Rightarrow> window < now - t)"
  let ?D = "\<lambda>A B xs. \<exists>older prev cur newer. xs = older @ [prev, cur] @ newer \<and> A prev cur \<and> filter B (cur # newer) = []"
  have "retry_scan now window ?c (rev (recorder_messages ?r ?k)) \<longleftrightarrow> ?D ?A ?B (map side_text_time (recorder_messages ?r ?k))"
    unfolding adjacent_map retry_scan_iff
    by (intro iff_exI) (auto simp: side_text_time_def in_window_def filter_empty_conv split: option.splits)
  also have "\<dots> \<longleftrightarrow> ?D ?A ?B (map (\<lambda>(a, b, t). (a, b, Some t)) ?xs)" by (simp only: recorded_from_new)
  finally have scan: "retry_scan now window ?c (rev (recorder_messages ?r ?k)) \<longleftrightarrow> ?D ?A ?B (map (\<lambda>(a, b, t). (a, b, Some t)) ?xs)" .
  show ?thesis unfolding is_retry scan adjacent_map
    by (simp add: split_paired_Ex filter_empty_conv case_prod_unfold linorder_not_less) blast
qed


section \<open>Sessions that are mixed up or lost\<close>

definition team_message :: "string \<Rightarrow> string \<Rightarrow> string \<Rightarrow> inbound" where
  "team_message provider chat_id team =
     \<lparr>ib_id = [], ib_provider = provider, ib_channel = [], ib_instance = [], ib_sender = ''u1'', ib_chat = chat_id, ib_content = ''hello'',
      ib_at = [], ib_thread = [], ib_reply_to = [], ib_meta = (if team = [] then [] else [(''team_id'', JStr team)])\<rparr>"

definition plain_env :: "int \<Rightarrow> recorder_env" where
  "plain_env now = \<lparr>re_now = now, re_iso = (\<lambda>_. []), re_sanitize = (\<lambda>s. s), re_store_ok = True, re_daily_ok = True\<rparr>"

text \<open>A chat of a team and a chat whose name starts with the team share their session.\<close>

lemma keys_collide:
  "team \<noteq> [] \<Longrightarrow> chat_session_key provider chat_id alias thread team = chat_session_key provider (team @ '':'' @ chat_id) alias thread []"
  by (simp add: chat_session_key_def)

text \<open>
  Every start of the program moves the sessions of messages that carry no team to keys with one; the
  recorder reads them under the old key, and the history is gone.
\<close>

definition history_after_start :: "inbound \<Rightarrow> string \<Rightarrow> string \<Rightarrow> (string \<times> string) list \<times> (string \<times> string) list" where
  "history_after_start m team user =
     (let r = record_user (plain_env 1) ''telegram'' m ''bot'' (recorder_new None None);
          r' = r\<lparr>rr_sessions := map_option (\<lambda>x. snd (migrate_legacy_keys team user x)) (rr_sessions r)\<rparr>;
          read = (\<lambda>r. fst (recorded_history 2 ''telegram'' (ib_chat m) ''bot'' [] 12 0 (extract_team_id (ib_meta m)) r))
      in (read r, read r'))"

lemma history_lost_at_start:
  "history_after_start (team_message ''telegram'' ''c1'' []) ''t1'' ''u1'' = ([(''user'', ''hello'')], [])"
  by code_simp

text \<open>
  The session of a web chat whose messages carry a team has five parts, and its move takes the team for
  the chat, the chat for the agent and the agent for the thread.
\<close>

lemma web_key_garbled:
  "migrated_key ''t1'' ''u1'' (inbound_key ''web'' (team_message ''web'' ''c1'' ''t1'') ''bot'') = Some ''web:t1:u1:t1:c1:bot''"
  by code_simp

end
