(* ===== verification/TaskResume.thy ===== *)
theory TaskResume
  imports TaskLoop SessionRecorder
begin

text \<open>
  \<open>src/src/channels/task-resume.service.ts\<close> on the tasks of \<open>TaskLoop\<close>: a reply resumes the task its
  reference started, an approval resumes the task that waits for it, a refusal cancels it. The clock is an
  argument, and so is \<open>String\<close> of a value.
\<close>

section \<open>The service\<close>

record resume_result =
  ru_resumed :: bool
  ru_task :: string
  ru_previous :: task_status
  ru_context :: "string option"

definition failed_task_ttl :: rat where
  "failed_task_ttl = 30 * 60000"

text \<open>Ten minutes, when the caller names no time.\<close>

definition stale_task_ttl :: int where
  "stale_task_ttl = 600000"

definition skip_resume :: "string \<Rightarrow> bool" where
  "skip_resume body \<longleftrightarrow> (case body of
       [] \<Rightarrow> False
     | c # r \<Rightarrow> c = CHR ''!'' \<or> (c = CHR ''/'' \<and> (case r of [] \<Rightarrow> False | d # _ \<Rightarrow> \<not> is_ws d)))"

text \<open>No time is infinitely long ago; one that cannot be read is never too long ago.\<close>

definition retry_too_late :: "nat \<Rightarrow> task \<Rightarrow> bool" where
  "retry_too_late now t \<longleftrightarrow> (case memory_at (tk_memory t) ''__updated_at_seoul'' of
       JNum at_ms \<Rightarrow> failed_task_ttl < of_nat now - at_ms
     | v \<Rightarrow> \<not> js_truthy v)"

definition task_context_summary :: "(jsval \<Rightarrow> string) \<Rightarrow> task \<Rightarrow> string" where
  "task_context_summary str t =
     (let objective = str_trim (text_or_empty str (memory_at (tk_memory t) ''objective''));
          result = str_trim (text_or_empty str (memory_at (tk_memory t) ''last_output''))
      in str_join [CHR 0x0A]
           ([utf8 [91, 236, 157, 180, 236, 160, 132, 32, 236, 158, 145, 236, 151, 133, 32, 236, 187, 168, 237, 133, 141, 236, 138,
               164, 237, 138, 184, 93]]
            @ (if objective = [] then [] else [utf8 [235, 170, 169, 236, 160, 129, 58, 32] @ take 300 objective])
            @ (if result = [] then [] else [utf8 [234, 178, 176, 234, 179, 188, 58, 32] @ take 500 result])))"

definition resumable_statuses :: "task_status list" where
  "resumable_statuses = [TkWaitingUserInput, TkWaitingApproval, TkFailed, TkMaxTurns]"

definition service_expire_stale :: "(jsval \<Rightarrow> string) \<Rightarrow> nat \<Rightarrow> loop_store \<Rightarrow> task list \<times> loop_store" where
  "service_expire_stale str now s = expire_stale_tasks str now stale_task_ttl s"

definition resume_referenced :: "(jsval \<Rightarrow> string) \<Rightarrow> nat \<Rightarrow> string \<Rightarrow> inbound \<Rightarrow> string \<Rightarrow> task \<Rightarrow> loop_store
    \<Rightarrow> resume_result option \<times> loop_store" where
  "resume_referenced str now provider m body t s =
     (if tk_status t \<in> set resumable_statuses then
        if tk_status t = TkFailed \<and> retry_too_late now t then (None, s)
        else let reason = (if tk_status t = TkFailed then ''retry_with_enrichment'' else ''referenced_message_reply'')
          in (case resume_task str now (tk_id t) (Some body) reason (Some (provider, ib_chat m)) s of (u, s) \<Rightarrow>
               (case u of None \<Rightarrow> (None, s)
                | Some u \<Rightarrow> if tk_status u \<noteq> TkRunning then (None, s)
                    else (Some \<lparr>ru_resumed = True, ru_task = tk_id t, ru_previous = tk_status t, ru_context = None\<rparr>, s)))
      else if tk_status t = TkCompleted then
        (Some \<lparr>ru_resumed = False, ru_task = tk_id t, ru_previous = TkCompleted, ru_context = Some (task_context_summary str t)\<rparr>, s)
      else (None, s))"

definition reference_of :: "inbound \<Rightarrow> string" where
  "reference_of m = str_trim (or_else (ib_thread m) (ib_reply_to m))"

definition find_task_by_trigger :: "(jsval \<Rightarrow> string) \<Rightarrow> string \<Rightarrow> string \<Rightarrow> loop_store \<Rightarrow> task option" where
  "find_task_by_trigger str provider trigger s =
     (case al_table s of None \<Rightarrow> None | Some db \<Rightarrow> find_by_trigger_message_id str db provider trigger)"

definition try_resume :: "(jsval \<Rightarrow> string) \<Rightarrow> nat \<Rightarrow> string \<Rightarrow> inbound \<Rightarrow> loop_store \<Rightarrow> resume_result option \<times> loop_store" where
  "try_resume str now provider m s =
     (let body = str_trim (ib_content m)
      in if body = [] \<or> skip_resume body then (None, s)
         else case service_expire_stale str now s of (_, s) \<Rightarrow>
           if reference_of m = [] then (None, s)
           else case find_task_by_trigger str provider (reference_of m) s of
               None \<Rightarrow> (None, s)
             | Some t \<Rightarrow> resume_referenced str now provider m body t s)"

definition approved_input :: "string \<Rightarrow> string" where
  "approved_input tool_result = utf8 [91, 236, 138, 185, 236, 157, 184, 235, 144, 168, 93, 32, 235, 143, 132, 234, 181, 172, 32, 236,
     139, 164, 237, 150, 137, 32, 234, 178, 176, 234, 179, 188, 58, 10] @ tool_result"

definition task_channel_context :: "(jsval \<Rightarrow> string) \<Rightarrow> task \<Rightarrow> (string \<times> string) option" where
  "task_channel_context str t =
     (let ch = or_else (tk_channel t) (text_or_empty str (memory_at (tk_memory t) ''channel''));
          cid = or_else (tk_chat_id t) (text_or_empty str (memory_at (tk_memory t) ''chat_id''))
      in if ch \<noteq> [] \<and> cid \<noteq> [] then Some (ch, cid) else None)"

text \<open>\<open>get_task\<close> of the runtime reads the table.\<close>

definition stored_task :: "(jsval \<Rightarrow> string) \<Rightarrow> string \<Rightarrow> loop_store \<Rightarrow> task option" where
  "stored_task str k s = (case al_table s of None \<Rightarrow> None | Some db \<Rightarrow> task_get str db k)"

definition resume_after_approval :: "(jsval \<Rightarrow> string) \<Rightarrow> nat \<Rightarrow> string \<Rightarrow> string \<Rightarrow> loop_store \<Rightarrow> bool \<times> loop_store" where
  "resume_after_approval str now k tool_result s = (case stored_task str k s of
       None \<Rightarrow> (False, s)
     | Some t \<Rightarrow>
         if tk_status t \<noteq> TkWaitingApproval then (False, s)
         else (case resume_task str now k (Some (approved_input tool_result)) ''approval_resolved'' (task_channel_context str t) s of
             (u, s) \<Rightarrow> (case u of None \<Rightarrow> False | Some u \<Rightarrow> tk_status u = TkRunning, s)))"

definition service_cancel_task :: "(jsval \<Rightarrow> string) \<Rightarrow> nat \<Rightarrow> string \<Rightarrow> string \<Rightarrow> loop_store \<Rightarrow> loop_store" where
  "service_cancel_task str now k reason s = snd (cancel_task str now k reason s)"


section \<open>What is resumed\<close>

lemma resumed_is_current:
  assumes "resume_task str now k input reason ctx s = (Some u, s')" and "tk_status u = TkRunning"
  shows "get_task s' k = Some u"
  using assms
  by (auto simp: resume_task_def Let_def get_task_def put_task_def persist_task_def task_status_at_def task_value_def
      split: option.splits prod.splits if_splits)


lemma resume_referenced_resumed:
  assumes "resume_referenced str now provider m body t s = (Some q, s')" and "ru_resumed q"
  shows "tk_status t \<in> set resumable_statuses \<and> ru_task q = tk_id t \<and> ru_previous q = tk_status t
    \<and> map_option tk_status (get_task s' (tk_id t)) = Some TkRunning"
  using assms
  by (auto simp: resume_referenced_def resumed_is_current split: if_splits prod.splits option.splits)

text \<open>
  C19. A reply, in any chat of its channel, resumes only a task whose row names this channel as its provider and the
  message the reply refers to as its trigger, the last written of such rows, when that task waited, failed or ran out of
  turns; the task runs again. A message without a reference resumes nothing.
\<close>

theorem resumed_reply_runs:
  assumes "try_resume str now provider m s = (Some q, s')" and "ru_resumed q"
  shows "\<exists>db row t. al_table (snd (service_expire_stale str now s)) = Some db \<and> row \<in> set (jvals db) \<and> row_to_task str row = Some t
     \<and> reference_of m \<noteq> [] \<and> tr_provider row = provider \<and> tr_trigger row = reference_of m
     \<and> (\<forall>r \<in> set (jvals db). tr_provider r = provider \<and> tr_trigger r = reference_of m \<longrightarrow> tr_updated r \<le> tr_updated row)
     \<and> ru_task q = tk_id t \<and> ru_previous q = tk_status t
     \<and> tk_status t \<in> {TkWaitingUserInput, TkWaitingApproval, TkFailed, TkMaxTurns}
     \<and> map_option tk_status (get_task s' (tk_id t)) = Some TkRunning"
proof -
  let ?s = "snd (service_expire_stale str now s)"
  obtain t where t: "find_task_by_trigger str provider (reference_of m) ?s = Some t" "reference_of m \<noteq> []"
      "ru_task q = tk_id t \<and> ru_previous q = tk_status t \<and> tk_status t \<in> {TkWaitingUserInput, TkWaitingApproval, TkFailed, TkMaxTurns}
       \<and> map_option tk_status (get_task s' (tk_id t)) = Some TkRunning"
    using assms(1) resume_referenced_resumed[OF _ assms(2)]
    by (auto simp: try_resume_def Let_def resumable_statuses_def split: if_splits prod.splits option.splits)
  obtain db where db: "al_table ?s = Some db" using t(1) by (auto simp: find_task_by_trigger_def split: option.splits)
  have "first_task str (\<lambda>row. tr_provider row = provider \<and> tr_trigger row = reference_of m) db = Some t"
    using t(1,2) db by (simp add: find_task_by_trigger_def find_by_trigger_message_id_def)
  from first_task_spec[OF this] t(2,3) db show ?thesis by blast
qed

definition reply_to :: "string \<Rightarrow> string \<Rightarrow> string \<Rightarrow> inbound" where
  "reply_to chat_id ref body =
     \<lparr>ib_id = ''m9'', ib_provider = ''telegram'', ib_channel = [], ib_instance = [], ib_sender = ''u1'', ib_chat = chat_id, ib_content = body,
      ib_at = [], ib_thread = [], ib_reply_to = ref, ib_meta = []\<rparr>"

definition waiting_task :: "task_status \<Rightarrow> string \<Rightarrow> task" where
  "waiting_task st chat_id = \<lparr>tk_id = ''t1'', tk_team = [], tk_title = ''demo'', tk_objective = ''goal'', tk_channel = ''telegram'',
     tk_chat_id = chat_id, tk_turn = 2, tk_max_turns = 5, tk_status = st, tk_step = None, tk_exit = None,
     tk_memory = [(''__trigger_message_id'', JStr ''42''), (''__updated_at_seoul'', JNum 0)]\<rparr>"

definition waiting_store :: "task_status \<Rightarrow> string \<Rightarrow> loop_store" where
  "waiting_store st chat_id = initialize_tasks plain_string 0 (loop_store_new (Some (task_upsert plain_string 0 (waiting_task st chat_id) [])))"

theorem resumed_reply_runs_witness:
  "map_option tk_status (get_task (snd (try_resume plain_string 5 ''telegram'' (reply_to ''c1'' ''42'' ''yes'') (waiting_store TkWaitingUserInput ''c1''))) ''t1'')
     = Some TkRunning"
proof -
  let ?a = "try_resume plain_string 5 ''telegram'' (reply_to ''c1'' ''42'' ''yes'') (waiting_store TkWaitingUserInput ''c1'')"
  have r: "map_option ru_resumed (fst ?a) = Some True" "map_option ru_task (fst ?a) = Some ''t1''" by code_simp+
  then obtain q where q: "?a = (Some q, snd ?a)" "ru_resumed q" "ru_task q = ''t1''" by (cases ?a) auto
  from resumed_reply_runs[OF q(1,2)] q(3) show ?thesis by auto
qed

text \<open>
  Message numbers are counted in each chat, and the chat is not compared: a reply in one chat resumes the
  task that a message with the same number started in another, and goes into its memory.
\<close>

lemma reply_resumes_another_chat:
  "let (q, s') = try_resume plain_string 5 ''telegram'' (reply_to ''c2'' ''42'' ''secret'') (waiting_store TkWaitingUserInput ''c1'')
   in map_option ru_resumed q = Some True
     \<and> map_option (\<lambda>t. (tk_chat_id t, memory_at (tk_memory t) ''__user_input'')) (get_task s' ''t1'') = Some (''c1'', JStr ''secret'')"
  by code_simp

text \<open>
  The approval of a task that waits for it lets the task run again, and only that task; at the fourth
  time the task is cancelled instead, although the approved tool has run.
\<close>

theorem approval_resumes_waiting:
  assumes "jget (al_tasks s) k = Some r" and "task_there s r" and "tk_id (task_value s r) = k"
    and "tk_status (task_value s r) = TkWaitingApproval" and "stored_task str k s = Some (normalize_task str (task_value s r))"
    and "tk_channel (task_value s r) \<noteq> []" and "tk_chat_id (task_value s r) \<noteq> []"
    and "resume_after_approval str now k tool_result s = (ok, s')"
  shows "ok = (memory_number s r ''__resume_count'' + 1 \<le> 3)
     \<and> map_option tk_status (get_task s' k) = Some (if ok then TkRunning else TkCancelled)"
proof -
  obtain u s1 where run: "resume_task str now k (Some (approved_input tool_result)) ''approval_resolved''
      (task_channel_context str (normalize_task str (task_value s r))) s = (u, s1)" by force
  have "tk_status (task_value s r) \<notin> {TkCompleted, TkCancelled}" using assms(4) by simp
  from resume_task_outcome[OF assms(1-3) this assms(6,7) run] have
    "\<exists>v. u = Some v \<and> get_task s1 k = Some v \<and> tk_status v = (if memory_number s r ''__resume_count'' + 1 \<le> 3 then TkRunning else TkCancelled)"
    by (auto split: if_splits)
  moreover have "s' = s1" "ok = (case u of None \<Rightarrow> False | Some u \<Rightarrow> tk_status u = TkRunning)"
    using assms(8) run by (simp_all add: resume_after_approval_def assms(4,5))
  ultimately show ?thesis by (auto split: if_splits)
qed


theorem approval_resumes_waiting_witness:
  "map_option tk_status (get_task (snd (resume_after_approval plain_string 5 ''t1'' ''done'' (waiting_store TkWaitingApproval ''c1''))) ''t1'')
     = Some TkRunning"
proof -
  let ?s = "waiting_store TkWaitingApproval ''c1''"
  have "jget (al_tasks ?s) ''t1'' = Some 0" "task_there ?s 0" "tk_id (task_value ?s 0) = ''t1''"
    "tk_status (task_value ?s 0) = TkWaitingApproval"
    "stored_task plain_string ''t1'' ?s = Some (normalize_task plain_string (task_value ?s 0))"
    "tk_channel (task_value ?s 0) \<noteq> []" "tk_chat_id (task_value ?s 0) \<noteq> []"
    by code_simp+
  note out = approval_resumes_waiting[OF this, of 5 "''done''"]
  have "memory_number ?s 0 ''__resume_count'' + 1 \<le> 3" by code_simp
  with out show ?thesis by (cases "resume_after_approval plain_string 5 ''t1'' ''done'' ?s") auto
qed

end
