(* ===== verification/Commands.thy ===== *)
theory Commands
  imports TaskResume
begin

text \<open>
  Slash commands and long replies: \<open>src/src/channels/slash-command.ts\<close>,
  \<open>src/src/channels/commands/router.ts\<close> with \<open>src/src/utils/string-match.ts\<close>,
  \<open>src/src/channels/commands/types.ts\<close>, and the splitting of a reply in
  \<open>src/src/channels/rendering.ts\<close>.

  A handler acts on an arbitrary world. \<open>String\<close> of a value is an argument.
\<close>

section \<open>Slash commands\<close>

record slash_command =
  sc_raw :: string
  sc_name :: string
  sc_args :: "string list"
  sc_args_lower :: "string list"

definition normalize_slash_token :: "string \<Rightarrow> string" where
  "normalize_slash_token v = str_lower (str_trim v)"

definition normalize_slash_name :: "string \<Rightarrow> string" where
  "normalize_slash_name v =
     (let raw = dropWhile (\<lambda>c. c = CHR ''/'') (str_trim v);
          first = takeWhile (\<lambda>c. c \<noteq> CHR ''@'') raw
      in if raw = [] then [] else str_lower (str_trim (or_else first raw)))"

definition clean_args :: "(jsval \<Rightarrow> string) \<Rightarrow> jsval \<Rightarrow> string list" where
  "clean_args str v = (case v of
       JArr xs \<Rightarrow> filter (\<lambda>a. a \<noteq> []) (map (\<lambda>x. str_trim (text_or_empty str x)) xs)
     | _ \<Rightarrow> [])"

definition parse_slash_command :: "string \<Rightarrow> slash_command option" where
  "parse_slash_command content =
     (let raw = str_trim content
      in if \<not> starts_with ''/'' raw then None
         else case filter (\<lambda>w. w \<noteq> []) (split_on is_ws raw) of
             [] \<Rightarrow> None
           | w # args \<Rightarrow> if normalize_slash_name w = [] then None
               else Some \<lparr>sc_raw = raw, sc_name = normalize_slash_name w, sc_args = filter (\<lambda>a. a \<noteq> []) (map str_trim args),
                          sc_args_lower = map normalize_slash_token (filter (\<lambda>a. a \<noteq> []) (map str_trim args))\<rparr>)"

definition parse_slash_command_from_message :: "(jsval \<Rightarrow> string) \<Rightarrow> inbound \<Rightarrow> slash_command option" where
  "parse_slash_command_from_message str m =
     (let c = memory_at (ib_meta m) ''command''
      in if js_is_object c
         then let name = normalize_slash_name (text_or_empty str (js_get c ''name'')); args = clean_args str (js_get c ''args'')
           in if name = [] then None
              else Some \<lparr>sc_raw = str_trim (if js_truthy (js_get c ''raw'') then text_or_empty str (js_get c ''raw'') else ib_content m),
                         sc_name = name, sc_args = args, sc_args_lower = map normalize_slash_token args\<rparr>
         else parse_slash_command (ib_content m))"

definition slash_token_in :: "string \<Rightarrow> string list \<Rightarrow> bool" where
  "slash_token_in v aliases \<longleftrightarrow> (let t = normalize_slash_token v
     in t \<noteq> [] \<and> (\<exists>a \<in> set aliases. t = normalize_slash_token a))"

definition slash_name_in :: "string \<Rightarrow> string list \<Rightarrow> bool" where
  "slash_name_in v aliases \<longleftrightarrow> (let t = normalize_slash_name v
     in t \<noteq> [] \<and> (\<exists>a \<in> set aliases. t = normalize_slash_name a))"

definition format_mention :: "string \<Rightarrow> string \<Rightarrow> string" where
  "format_mention provider sender = (if provider = ''telegram'' \<or> provider = ''web'' then [] else ''@'' @ sender @ '' '')"


section \<open>Edit distance\<close>

text \<open>One row from the row before it: \<open>c\<close> is the entry to the left.\<close>

fun lev_row :: "'a \<Rightarrow> 'a list \<Rightarrow> nat list \<Rightarrow> nat \<Rightarrow> nat list" where
  "lev_row x (y # ys) (p # q # ps) c =
     (let d = (if x = y then p else 1 + min p (min q c)) in d # lev_row x ys (q # ps) d)"
| "lev_row x _ _ c = []"

fun lev_rows :: "nat \<Rightarrow> 'a list \<Rightarrow> 'a list \<Rightarrow> nat list \<Rightarrow> nat list" where
  "lev_rows i [] b prev = prev"
| "lev_rows i (x # a) b prev = lev_rows (i + 1) a b (i # lev_row x b prev i)"

definition levenshtein :: "'a list \<Rightarrow> 'a list \<Rightarrow> nat" where
  "levenshtein a b = (if a = b then 0 else if a = [] then length b else if b = [] then length a
     else lev_rows 1 a b [0..<length b + 1] ! length b)"


section \<open>The router\<close>

record command_context =
  cx_provider :: string
  cx_message :: inbound
  cx_command :: "slash_command option"
  cx_text :: string

record 'w command_handler =
  ch_name :: string
  ch_can_handle :: "command_context \<Rightarrow> bool"
  ch_handle :: "command_context \<Rightarrow> 'w \<Rightarrow> bool \<times> 'w"

fun first_handled :: "command_context \<Rightarrow> 'w command_handler list \<Rightarrow> 'w \<Rightarrow> bool \<times> 'w" where
  "first_handled ctx [] w = (False, w)"
| "first_handled ctx (h # hs) w =
     (if ch_can_handle h ctx
      then (case ch_handle h ctx w of (ok, w) \<Rightarrow> if ok then (True, w) else first_handled ctx hs w)
      else first_handled ctx hs w)"

fun closest_name :: "string \<Rightarrow> string list \<Rightarrow> (string \<times> nat) option \<Rightarrow> (string \<times> nat) option" where
  "closest_name input [] best = best"
| "closest_name input (n # ns) best =
     (let d = levenshtein (str_lower input) (str_lower n)
      in closest_name input ns (if 0 < d \<and> (case best of None \<Rightarrow> True | Some (_, b) \<Rightarrow> d < b) then Some (n, d) else best))"

definition fuzzy_match_command :: "string \<Rightarrow> string list \<Rightarrow> string option" where
  "fuzzy_match_command input names = (if input = [] then None else case closest_name input names None of
       None \<Rightarrow> None | Some (n, d) \<Rightarrow> if d \<le> 2 then Some n else None)"

text \<open>The command's name at the start of the text, in whatever case, is replaced.\<close>

definition correct_text :: "string \<Rightarrow> string \<Rightarrow> string \<Rightarrow> string" where
  "correct_text original corrected content = (case content of
       [] \<Rightarrow> []
     | c # r \<Rightarrow> let s = dropWhile is_ws r
         in if c = CHR ''/'' \<and> str_lower (take (length original) s) = str_lower original \<and> length original \<le> length s
            then ''/'' @ corrected @ drop (length original) s else content)"

definition correct_context :: "string \<Rightarrow> command_context \<Rightarrow> command_context" where
  "correct_context corrected ctx = (case cx_command ctx of None \<Rightarrow> ctx
     | Some c \<Rightarrow> let fixed = correct_text (sc_name c) corrected (ib_content (cx_message ctx))
         in ctx\<lparr>cx_text := fixed, cx_command := Some (c\<lparr>sc_name := corrected, sc_raw := fixed\<rparr>),
                cx_message := (cx_message ctx)\<lparr>ib_content := fixed\<rparr>\<rparr>)"

definition try_handle_command :: "'w command_handler list \<Rightarrow> command_context \<Rightarrow> 'w \<Rightarrow> bool \<times> 'w" where
  "try_handle_command hs ctx w = (case first_handled ctx hs w of (ok, w) \<Rightarrow>
     if ok then (True, w)
     else case cx_command ctx of None \<Rightarrow> (False, w)
       | Some c \<Rightarrow> (case fuzzy_match_command (sc_name c) (map ch_name hs) of
             None \<Rightarrow> (False, w)
           | Some n \<Rightarrow> first_handled (correct_context n ctx) hs w))"


section \<open>Long replies\<close>

definition provider_max_length :: "string \<Rightarrow> int" where
  "provider_max_length provider =
     (let p = str_lower provider
      in if p = ''discord'' then 1950 else if p = ''slack'' then 3800 else if p = ''telegram'' then 4000
         else if p = ''web'' then 20000 else 1950)"

text \<open>\<open>slice(0, n)\<close> and \<open>slice(n)\<close>; a negative number counts from the end.\<close>

definition slice_at :: "int \<Rightarrow> 'a list \<Rightarrow> nat" where
  "slice_at n s = nat (if n < 0 then int (length s) + n else n)"

fun last_index_of :: "'a list \<Rightarrow> 'a list \<Rightarrow> int" where
  "last_index_of p [] = (if p = [] then 0 else -1)"
| "last_index_of p (c # s) = (let i = last_index_of p s
     in if 0 \<le> i then i + 1 else if starts_with p (c # s) then 0 else -1)"

definition trim_end :: "string \<Rightarrow> string" where
  "trim_end s = rev (dropWhile is_ws (rev s))"

definition find_split_point :: "string \<Rightarrow> int \<Rightarrow> int" where
  "find_split_point s n =
     (let w = take (slice_at n s) s;
          para = last_index_of [CHR 0x0A, CHR 0x0A] w; nl = last_index_of [CHR 0x0A] w; sp = last_index_of '' '' w
      in if 3 * n < 10 * para then para + 1 else if 3 * n < 10 * nl then nl + 1 else if 3 * n < 10 * sp then sp + 1 else n)"

partial_function (option) split_loop :: "int \<Rightarrow> string \<Rightarrow> string list \<Rightarrow> string list option" where
  "split_loop n s acc =
     (if n < int (length s)
      then let cut = slice_at (find_split_point s n) s
        in split_loop n (dropWhile is_ws (drop cut s)) (acc @ [trim_end (take cut s)])
      else Some (if str_trim s = [] then acc else acc @ [trim_end s]))"

definition split_markdown :: "string \<Rightarrow> int \<Rightarrow> string list option" where
  "split_markdown s n = (if s = [] \<or> int (length s) \<le> n then Some [s] else split_loop n s [])"

end
