(* ===== verification/ChannelManager.thy ===== *)
theory ChannelManager
  imports Commands Approvals RunTracking Guards ThreadOwnership
begin

text \<open>
  \<open>src/src/channels/manager.ts\<close>: what happens to a message from a chat. The manager puts together the
  parts modelled before it: approvals, waiting workflows, the confirmation guard, the resumption of
  tasks, commands, thread ownership, active runs, the run tracker and the session recorder.

  One state holds the manager and these parts. What the manager calls beyond them is an environment:
  the orchestration of a request, which may do anything to the state while it runs; the command
  handlers; the texts of a persona; parsers of times and numbers. An operation sees one time of the
  clock. Sending does not fail; editing a message may. Runs started without waiting for them are kept
  in a list and may start at any later time.
\<close>

section \<open>State\<close>

record run_request =
  rq_message :: inbound
  rq_alias :: string
  rq_provider :: string
  rq_media :: "string list"
  rq_history :: "(string \<times> string) list"
  rq_resumed :: "string option"
  rq_run :: "string option"
  rq_abort :: nat
  rq_team :: "string option"
  rq_preferred :: "string option \<times> string option \<times> string option \<times> string option"

record run_result =
  oc_reply :: string
  oc_error :: string
  oc_suppress :: bool
  oc_tool_calls :: int
  oc_builtin :: string
  oc_builtin_args :: string
  oc_streamed :: bool
  oc_stream_full :: string
  oc_parsed :: jsval
  oc_run :: string
  oc_usage :: jsval
  oc_tools :: "string list"
  oc_stream_id :: string
  oc_tool_blocks :: nat

datatype run_outcome = RunDone run_result | RunThrew string

datatype outgoing =
    OutMessage string string string string string string
  | OutEdit string string string string

record 'x manager =
  mg_seen :: "(string, int) jmap"
  mg_primed :: "(string, int) jmap"
  mg_cooldowns :: "(string, int) jmap"
  mg_control_seen :: "(string, int) jmap"
  mg_tones :: "(string, string) jmap"
  mg_runs :: active_runs
  mg_run_times :: "(string, int) jmap"
  mg_next :: nat
  mg_busy :: int
  mg_recorder :: recorder
  mg_threads :: "thread_ownership option"
  mg_tracker :: "process_tracker option"
  mg_guard :: "confirmation_guard option"
  mg_hitl :: "hitl_store option"
  mg_tasks :: loop_store
  mg_approvals :: "'x approval_service"
  mg_inbox :: "inbound list"
  mg_out :: "outgoing list"
  mg_requests :: "run_request list"
  mg_jobs :: "(string \<times> inbound \<times> string) list"
  mg_injected :: "(nat \<times> string) list"

definition manager_new :: "recorder \<Rightarrow> thread_ownership option \<Rightarrow> process_tracker option \<Rightarrow> confirmation_guard option \<Rightarrow> hitl_store option
    \<Rightarrow> loop_store \<Rightarrow> 'x approval_service \<Rightarrow> 'x manager" where
  "manager_new recorder threads tracker guard hitl tasks approvals =
     \<lparr>mg_seen = [], mg_primed = [], mg_cooldowns = [], mg_control_seen = [], mg_tones = [],
      mg_runs = \<lparr>ac_runs = [], ac_aborted = {}\<rparr>, mg_run_times = [], mg_next = 0, mg_busy = 0, mg_recorder = recorder,
      mg_threads = threads, mg_tracker = tracker, mg_guard = guard, mg_hitl = hitl, mg_tasks = tasks, mg_approvals = approvals,
      mg_inbox = [], mg_out = [], mg_requests = [], mg_jobs = [], mg_injected = []\<rparr>"

record manager_config =
  mc_alias :: string
  mc_auto_reply :: bool
  mc_providers :: bool
  mc_seen_ttl :: int
  mc_seen_max :: nat
  mc_reaction_ttl :: int
  mc_stale_timeout :: int
  mc_history_age :: int
  mc_approval_reactions :: bool
  mc_control_reactions :: bool
  mc_status_mode :: bool
  mc_suppress_final :: bool
  mc_poll_ms :: int
  mc_poll_max_ms :: int
  mc_bot_ids :: "(string, string) jmap"

record rendered_reply =
  rd_content :: string
  rd_markdown :: string
  rd_media :: nat

record 'x manager_env =
  me_config :: manager_config
  me_now :: nat
  me_str :: "jsval \<Rightarrow> string"
  me_iso :: "int \<Rightarrow> string"
  me_sanitize :: "string \<Rightarrow> string"
  me_number :: "string \<Rightarrow> rat option"
  me_date :: "string \<Rightarrow> int option"
  me_tone :: "string \<Rightarrow> string option"
  me_say :: "string \<Rightarrow> string option \<Rightarrow> string"
  me_error_text :: "string \<Rightarrow> string"
  me_render :: "string \<Rightarrow> string \<Rightarrow> string \<Rightarrow> rendered_reply"
  me_mentions :: "string \<Rightarrow> string \<Rightarrow> string list"
  me_reactions :: "inbound \<Rightarrow> reaction_meta"
  me_media :: "inbound \<Rightarrow> string list"
  me_run_id :: "nat \<Rightarrow> string"
  me_edit_ok :: bool
  me_waited :: "'x manager \<Rightarrow> 'x manager"
  me_execute :: "run_request \<Rightarrow> 'x manager \<Rightarrow> run_outcome \<times> 'x manager"
  me_handlers :: "'x manager command_handler list"
  me_cancel_run :: "string \<Rightarrow> 'x manager \<Rightarrow> 'x manager"

definition clock :: "'x manager_env \<Rightarrow> int" where
  "clock env = int (me_now env)"

definition recorder_clock :: "'x manager_env \<Rightarrow> recorder_env" where
  "recorder_clock env = \<lparr>re_now = clock env, re_iso = me_iso env, re_sanitize = me_sanitize env, re_store_ok = True, re_daily_ok = True\<rparr>"


section \<open>Messages\<close>

definition meta_text :: "'x manager_env \<Rightarrow> inbound \<Rightarrow> string \<Rightarrow> string" where
  "meta_text env m k = text_or_empty (me_str env) (memory_at (ib_meta m) k)"

definition meta_string :: "inbound \<Rightarrow> string \<Rightarrow> string option" where
  "meta_string m k = (case memory_at (ib_meta m) k of JStr s \<Rightarrow> Some s | _ \<Rightarrow> None)"

definition is_reaction_message :: "inbound \<Rightarrow> bool" where
  "is_reaction_message m \<longleftrightarrow> memory_at (ib_meta m) ''is_reaction'' = JBool True"

definition render_key :: "string \<Rightarrow> string \<Rightarrow> string" where
  "render_key provider chat_id = str_lower (provider @ '':'' @ str_trim chat_id)"

definition anchor_of :: "'x manager_env \<Rightarrow> inbound \<Rightarrow> string" where
  "anchor_of env m = or_else (meta_text env m ''message_id'') (ib_id m)"

definition seen_key :: "'x manager_env \<Rightarrow> inbound \<Rightarrow> string option" where
  "seen_key env m = (let k = str_trim (anchor_of env m) in if k = [] then None
     else Some (str_lower (or_else (ib_provider m) (ib_channel m)) @ '':'' @ ib_chat m @ '':'' @ k))"

definition mark_seen :: "'x manager_env \<Rightarrow> inbound \<Rightarrow> 'x manager \<Rightarrow> 'x manager" where
  "mark_seen env m g = (case seen_key env m of None \<Rightarrow> g | Some k \<Rightarrow> g\<lparr>mg_seen := jset k (clock env) (mg_seen g)\<rparr>)"

definition is_duplicate :: "'x manager_env \<Rightarrow> inbound \<Rightarrow> 'x manager \<Rightarrow> bool" where
  "is_duplicate env m g \<longleftrightarrow> (case seen_key env m of None \<Rightarrow> False | Some k \<Rightarrow> jhas (mg_seen g) k)"

definition extract_ts :: "'x manager_env \<Rightarrow> inbound \<Rightarrow> rat" where
  "extract_ts env m =
     (let raw = str_trim (or_else (meta_text env m ''ts'') (anchor_of env m));
          by_date = (case me_date env (ib_at m) of Some d \<Rightarrow> of_int d | None \<Rightarrow> 0)
      in case me_number env raw of
           Some n \<Rightarrow> if 1000000000 < n then (if 1000000000000 < n then n else n * 1000) else by_date
         | None \<Rightarrow> by_date)"

definition should_ignore :: "'x manager_env \<Rightarrow> inbound \<Rightarrow> bool" where
  "should_ignore env m \<longleftrightarrow>
     (let sender = str_lower (str_trim (ib_sender m)); slack = memory_at (ib_meta m) ''slack''
      in sender = [] \<or> sender = ''unknown'' \<or> starts_with ''subagent:'' sender \<or> sender = ''approval-bot'' \<or> sender = ''recovery''
       \<or> str_lower (meta_text env m ''kind'') = ''task_recovery''
       \<or> memory_at (ib_meta m) ''from_is_bot'' = JBool True
       \<or> (case inbound_provider m of None \<Rightarrow> False
          | Some p \<Rightarrow> (case jget (mc_bot_ids (me_config env)) p of None \<Rightarrow> False | Some b \<Rightarrow> b \<noteq> [] \<and> sender = str_lower b))
       \<or> (js_is_object slack \<and>
          ((case js_get slack ''bot_id'' of JStr b \<Rightarrow> b \<noteq> [] | _ \<Rightarrow> False)
           \<or> str_lower (text_or_empty (me_str env) (js_get slack ''subtype'')) \<in> {''bot_message'', ''message_changed'', ''message_deleted''})))"

definition resolve_reply_to :: "'x manager_env \<Rightarrow> string \<Rightarrow> inbound \<Rightarrow> string" where
  "resolve_reply_to env provider m =
     (if provider = ''slack'' then (if str_trim (ib_thread m) \<noteq> [] then str_trim (ib_thread m) else str_trim (anchor_of env m))
      else if provider = ''telegram'' then [] else str_trim (anchor_of env m))"


section \<open>Sending\<close>

definition send_outbound :: "'x manager_env \<Rightarrow> string \<Rightarrow> inbound \<Rightarrow> string \<Rightarrow> string \<Rightarrow> string \<Rightarrow> 'x manager \<Rightarrow> 'x manager" where
  "send_outbound env provider m sender content kind g =
     g\<lparr>mg_out := mg_out g @ [OutMessage provider (ib_chat m) sender content kind (resolve_reply_to env provider m)]\<rparr>"

fun send_pieces :: "'x manager_env \<Rightarrow> string \<Rightarrow> inbound \<Rightarrow> string \<Rightarrow> string \<Rightarrow> string \<Rightarrow> string list \<Rightarrow> 'x manager \<Rightarrow> 'x manager" where
  "send_pieces env provider m alias prefix kind [] g = g"
| "send_pieces env provider m alias prefix kind (c # cs) g =
     send_pieces env provider m alias [] ''agent_reply_cont'' cs (send_outbound env provider m alias (str_trim (prefix @ c)) kind g)"

text \<open>A reply that cannot be split is one that is never sent.\<close>

definition send_chunked :: "'x manager_env \<Rightarrow> string \<Rightarrow> inbound \<Rightarrow> string \<Rightarrow> string \<Rightarrow> string \<Rightarrow> string \<Rightarrow> 'x manager \<Rightarrow> 'x manager option" where
  "send_chunked env provider m alias mention content kind g =
     (case split_markdown content (provider_max_length provider - int (length mention)) of
        None \<Rightarrow> None
      | Some cs \<Rightarrow> Some (send_pieces env provider m alias mention kind cs g))"

definition record_reply :: "'x manager_env \<Rightarrow> string \<Rightarrow> inbound \<Rightarrow> string \<Rightarrow> string \<Rightarrow> reply_meta option \<Rightarrow> 'x manager \<Rightarrow> 'x manager" where
  "record_reply env provider m alias content meta g =
     g\<lparr>mg_recorder := record_assistant (recorder_clock env) provider m alias content meta (mg_recorder g)\<rparr>"

definition send_command_reply :: "'x manager_env \<Rightarrow> string \<Rightarrow> inbound \<Rightarrow> string \<Rightarrow> 'x manager \<Rightarrow> 'x manager option" where
  "send_command_reply env provider m content g =
     (let r = me_render env content provider (ib_chat m); alias = mc_alias (me_config env)
      in map_option (record_reply env provider m alias (rd_markdown r) None)
           (send_chunked env provider m alias [] (rd_content r) ''command_reply'' g))"

definition send_error_reply :: "'x manager_env \<Rightarrow> string \<Rightarrow> inbound \<Rightarrow> string \<Rightarrow> string \<Rightarrow> string \<Rightarrow> 'x manager \<Rightarrow> 'x manager" where
  "send_error_reply env provider m alias err run g =
     (let content = str_trim (format_mention provider (ib_sender m) @ me_error_text env err)
      in record_reply env provider m alias content
           (Some \<lparr>ry_stream = [], ry_parsed = JUndef, ry_tool_calls = 0, ry_run = run, ry_usage = JUndef, ry_tools = []\<rparr>)
           (send_outbound env provider m alias content ''agent_error'' g))"

definition reply_meta_of :: "run_result \<Rightarrow> reply_meta" where
  "reply_meta_of r = \<lparr>ry_stream = oc_stream_full r, ry_parsed = oc_parsed r, ry_tool_calls = oc_tool_calls r, ry_run = oc_run r,
     ry_usage = oc_usage r, ry_tools = oc_tools r\<rparr>"

definition edit_message :: "string \<Rightarrow> string \<Rightarrow> string \<Rightarrow> string \<Rightarrow> 'x manager \<Rightarrow> 'x manager" where
  "edit_message provider chat_id k content g = g\<lparr>mg_out := mg_out g @ [OutEdit provider chat_id k content]\<rparr>"

definition deliver_result :: "'x manager_env \<Rightarrow> string \<Rightarrow> inbound \<Rightarrow> string \<Rightarrow> run_result \<Rightarrow> bool \<Rightarrow> 'x manager \<Rightarrow> 'x manager option" where
  "deliver_result env provider m alias r status_mode g =
     (if oc_suppress r then Some g
      else if oc_reply r = [] then Some (if oc_error r = [] then g else send_error_reply env provider m alias (oc_error r) (oc_run r) g)
      else
        let d = me_render env (oc_reply r) provider (ib_chat m); mention = format_mention provider (ib_sender m);
            done = record_reply env provider m alias (rd_markdown d) (Some (reply_meta_of r))
        in if (status_mode \<or> (provider \<noteq> ''web'' \<and> 0 < oc_tool_blocks r)) \<and> oc_stream_id r \<noteq> []
           then map_option done (send_chunked env provider m alias mention (rd_content d) ''agent_reply''
                  (if me_edit_ok env then edit_message provider (ib_chat m) (oc_stream_id r) (me_say env ''status_completed'' None) g else g))
           else if oc_streamed r \<and> oc_stream_id r \<noteq> []
           then let first = take (nat (provider_max_length provider)) (str_trim (mention @ rd_content d));
                    sent = (if mc_suppress_final (me_config env) then Some g
                            else if me_edit_ok env then Some (edit_message provider (ib_chat m) (oc_stream_id r) first g)
                            else send_chunked env provider m alias mention (rd_content d) ''agent_reply'' g)
                in map_option (\<lambda>g. done (if 0 < rd_media d then send_outbound env provider m alias (me_say env ''attachment'' None) ''agent_media'' g else g)) sent
           else map_option done (send_chunked env provider m alias mention (rd_content d) ''agent_reply'' g))"



section \<open>One run\<close>

definition invoke_key :: "string \<Rightarrow> inbound \<Rightarrow> string \<Rightarrow> string" where
  "invoke_key provider m alias = str_lower (or_else (ib_instance m) provider @ '':'' @ ib_chat m @ '':'' @ alias)"

definition claim_thread :: "'x manager_env \<Rightarrow> string \<Rightarrow> inbound \<Rightarrow> string \<Rightarrow> 'x manager \<Rightarrow> 'x manager" where
  "claim_thread env provider m alias g =
     (let tid = str_trim (ib_thread m)
      in if tid = [] then g
         else g\<lparr>mg_threads := map_option (\<lambda>t. snd (own_claim (clock env) provider (ib_chat m) tid alias t)) (mg_threads g)\<rparr>)"

text \<open>An earlier run of the same chat and agent is aborted and waited for, three seconds at most.\<close>

definition displace_run :: "'x manager_env \<Rightarrow> string \<Rightarrow> 'x manager \<Rightarrow> 'x manager" where
  "displace_run env key g = (case jget (ac_runs (mg_runs g)) key of
       None \<Rightarrow> g
     | Some r \<Rightarrow> me_waited env (g\<lparr>mg_runs := ac_abort (ax_abort r) (mg_runs g)\<rparr>))"

definition open_run :: "'x manager_env \<Rightarrow> string \<Rightarrow> inbound \<Rightarrow> string \<Rightarrow> 'x manager \<Rightarrow> (nat \<times> string option) \<times> 'x manager" where
  "open_run env provider m alias g =
     (let a = mg_next g; key = invoke_key provider m alias;
          run = (case mg_tracker g of None \<Rightarrow> None | Some _ \<Rightarrow> Some (me_run_id env a));
          p = \<lparr>rp_provider = provider, rp_chat = ib_chat m, rp_alias = alias, rp_sender = ib_sender m, rp_team = None\<rparr>
      in ((a, run),
          g\<lparr>mg_next := a + 1,
            mg_runs := ac_register key \<lparr>ax_abort = a, ax_provider = provider, ax_chat = ib_chat m, ax_alias = alias, ax_input = False\<rparr> (mg_runs g),
            mg_run_times := (if 0 < mc_stale_timeout (me_config env) then jset key (clock env) (mg_run_times g) else mg_run_times g),
            mg_tracker := map_option (tracker_start (me_run_id env a) (me_now env) p) (mg_tracker g)\<rparr>))"

definition close_run :: "string \<Rightarrow> nat \<Rightarrow> 'x manager \<Rightarrow> 'x manager" where
  "close_run key a g = g\<lparr>mg_runs := ac_unregister key a (mg_runs g), mg_run_times := jdel key (mg_run_times g)\<rparr>"

definition end_tracked :: "'x manager_env \<Rightarrow> string option \<Rightarrow> process_status \<Rightarrow> string option \<Rightarrow> 'x manager \<Rightarrow> 'x manager" where
  "end_tracked env run st err g = (case run of None \<Rightarrow> g
     | Some k \<Rightarrow> g\<lparr>mg_tracker := map_option (tracker_end k st err (me_now env)) (mg_tracker g)\<rparr>)"

definition set_tools :: "string option \<Rightarrow> int \<Rightarrow> 'x manager \<Rightarrow> 'x manager" where
  "set_tools run n g = (case run of None \<Rightarrow> g | Some k \<Rightarrow> g\<lparr>mg_tracker := map_option (set_tool_count k n) (mg_tracker g)\<rparr>)"

definition is_recovery :: "inbound \<Rightarrow> bool" where
  "is_recovery m \<longleftrightarrow> js_truthy (memory_at (ib_meta m) ''is_recovery'')"

definition run_request_of :: "'x manager_env \<Rightarrow> string \<Rightarrow> inbound \<Rightarrow> string \<Rightarrow> string option \<Rightarrow> nat \<times> string option \<Rightarrow> (string \<times> string) list
    \<Rightarrow> run_request" where
  "run_request_of env provider m alias resumed ids history =
     \<lparr>rq_message = m, rq_alias = alias, rq_provider = provider, rq_media = me_media env m, rq_history = history, rq_resumed = resumed,
      rq_run = snd ids, rq_abort = fst ids, rq_team = meta_string m ''team_id'',
      rq_preferred = (meta_string m ''preferred_provider_id'', meta_string m ''preferred_model'', meta_string m ''system_prompt_override'',
        meta_string m ''workspace_dir'')\<rparr>"

definition synthetic_command :: "string \<Rightarrow> inbound \<Rightarrow> run_result \<Rightarrow> command_context option" where
  "synthetic_command provider m r =
     (let txt = ''/'' @ oc_builtin r @ (if oc_builtin_args r = [] then [] else '' '' @ oc_builtin_args r)
      in if oc_builtin r = [] then None
         else map_option (\<lambda>c. \<lparr>cx_provider = provider, cx_message = m, cx_command = Some c, cx_text = txt\<rparr>) (parse_slash_command txt))"

text \<open>After the orchestration: the tracked run ends, a command it asked for is run, the reply delivered.\<close>

definition answer_run :: "'x manager_env \<Rightarrow> string \<Rightarrow> inbound \<Rightarrow> string \<Rightarrow> string option \<Rightarrow> run_outcome \<Rightarrow> 'x manager \<Rightarrow> 'x manager option" where
  "answer_run env provider m alias run out g = (case out of
       RunThrew e \<Rightarrow> Some (send_error_reply env provider m alias e (case run of Some k \<Rightarrow> k | None \<Rightarrow> []) (end_tracked env run PsFailed (Some e) g))
     | RunDone r \<Rightarrow>
         let g = end_tracked env run (if oc_error r = [] then PsCompleted else PsFailed) (Some (oc_error r)) (set_tools run (oc_tool_calls r) g);
             (handled, g) = (case synthetic_command provider m r of None \<Rightarrow> (False, g) | Some ctx \<Rightarrow> try_handle_command (me_handlers env) ctx g)
         in if handled then Some g
            else deliver_result env provider m alias r (provider \<noteq> ''web'' \<and> mc_status_mode (me_config env)) g)"

definition on_recorder :: "(recorder \<Rightarrow> 'a \<times> recorder) \<Rightarrow> 'x manager \<Rightarrow> 'a \<times> 'x manager" where
  "on_recorder f g = (case f (mg_recorder g) of (a, r) \<Rightarrow> (a, g\<lparr>mg_recorder := r\<rparr>))"

definition repeated_delivery :: "'x manager_env \<Rightarrow> string \<Rightarrow> inbound \<Rightarrow> string \<Rightarrow> 'x manager \<Rightarrow> bool \<times> 'x manager" where
  "repeated_delivery env provider m alias g = (if is_recovery m then (False, g)
     else on_recorder (is_delivery_retry (clock env) 3000 provider m alias) g)"

definition run_started :: "'x manager_env \<Rightarrow> string \<Rightarrow> inbound \<Rightarrow> string \<Rightarrow> string option \<Rightarrow> nat \<times> string option \<Rightarrow> 'x manager \<Rightarrow> 'x manager option" where
  "run_started env provider m alias resumed ids g =
     (case repeated_delivery env provider m alias g of (again, g) \<Rightarrow>
        if again then Some g
        else
          let g = (if is_recovery m then g else snd (on_recorder (\<lambda>r. ((), record_user (recorder_clock env) provider m alias r)) g));
              (history, g) = on_recorder (recorded_history (clock env) provider (ib_chat m) alias (ib_thread m) 12
                 (mc_history_age (me_config env)) (extract_team_id (ib_meta m))) g;
              rq = run_request_of env provider m alias resumed ids history
          in (case me_execute env rq (g\<lparr>mg_requests := mg_requests g @ [rq]\<rparr>) of (out, g) \<Rightarrow>
               answer_run env provider m alias (snd ids) out g))"

definition invoke_and_reply :: "'x manager_env \<Rightarrow> string \<Rightarrow> inbound \<Rightarrow> string \<Rightarrow> string option \<Rightarrow> 'x manager \<Rightarrow> 'x manager option" where
  "invoke_and_reply env provider m alias resumed g =
     (let key = invoke_key provider m alias
      in case open_run env provider m alias (displace_run env key (claim_thread env provider m alias g)) of (ids, g) \<Rightarrow>
           map_option (close_run key (fst ids)) (run_started env provider m alias resumed ids g))"


section \<open>A message\<close>

definition approval_view :: "'x manager_env \<Rightarrow> inbound \<Rightarrow> approval_message" where
  "approval_view env m = \<lparr>am_chat = ib_chat m, am_content = ib_content m, am_reactions = me_reactions env m\<rparr>"

definition on_tasks :: "(loop_store \<Rightarrow> 'a \<times> loop_store) \<Rightarrow> 'x manager \<Rightarrow> 'a \<times> 'x manager" where
  "on_tasks f g = (case f (mg_tasks g) of (a, s) \<Rightarrow> (a, g\<lparr>mg_tasks := s\<rparr>))"

definition given :: "string option \<Rightarrow> bool" where
  "given x \<longleftrightarrow> x \<noteq> None \<and> x \<noteq> Some []"

text \<open>What follows a decision: the task goes on with what the tool gave, or ends.\<close>

definition after_decision :: "'x manager_env \<Rightarrow> string \<Rightarrow> inbound \<Rightarrow> handle_result \<Rightarrow> 'x manager \<Rightarrow> 'x manager option" where
  "after_decision env provider m h g =
     (let alias = mc_alias (me_config env); k = (case hr_task h of Some k \<Rightarrow> k | None \<Rightarrow> [])
      in if given (hr_task h) \<and> given (hr_tool_result h)
         then (case on_tasks (resume_after_approval (me_str env) (me_now env) k (the (hr_tool_result h))) g of (resumed, g) \<Rightarrow>
                if resumed
                then invoke_and_reply env provider m alias (Some k)
                       (send_outbound env provider m alias (me_say env ''approval_resumed'' None) ''approval_resume_ack'' g)
                else Some (send_outbound env provider m alias (me_say env ''approval_resume_failed'' None) ''approval_resume_failed'' g))
         else if given (hr_task h) \<and> hr_status h \<in> {Some ApDenied, Some ApCancelled}
         then Some (snd (on_tasks (\<lambda>s. ((), service_cancel_task (me_str env) (me_now env) k
                (if hr_status h = Some ApDenied then ''approval_denied'' else ''approval_cancelled'') s)) g))
         else Some g)"

definition answer_hitl :: "inbound \<Rightarrow> 'x manager \<Rightarrow> bool \<times> 'x manager" where
  "answer_hitl m g = (case mg_hitl g of None \<Rightarrow> (False, g)
     | Some h \<Rightarrow> (case hitl_try_resolve (ib_chat m) (str_trim (ib_content m)) h of (ok, h) \<Rightarrow> (ok, g\<lparr>mg_hitl := Some h\<rparr>)))"

definition answer_guard :: "'x manager_env \<Rightarrow> string \<Rightarrow> inbound \<Rightarrow> 'x manager \<Rightarrow> guard_resolution option \<times> 'x manager" where
  "answer_guard env provider m g = (case mg_guard g of None \<Rightarrow> (None, g)
     | Some c \<Rightarrow> (case has_pending (clock env) provider (ib_chat m) c of (pending, c) \<Rightarrow>
         if \<not> pending then (None, g\<lparr>mg_guard := Some c\<rparr>)
         else (case guard_try_resolve (clock env) provider (ib_chat m) (str_trim (ib_content m)) c of (a, c) \<Rightarrow> (a, g\<lparr>mg_guard := Some c\<rparr>))))"

definition expired_notice :: "'x manager_env \<Rightarrow> string \<Rightarrow> task \<Rightarrow> outgoing" where
  "expired_notice env provider t =
     (let objective = take 200 (or_else (text_or_empty (me_str env) (memory_at (tk_memory t) ''objective'')) (tk_title t))
      in OutMessage provider (tk_chat_id t) (mc_alias (me_config env))
           (me_say env ''expired_task'' (if objective = [] then None else Some objective)) ''task_expired'' [])"

definition notify_expired_tasks :: "'x manager_env \<Rightarrow> string \<Rightarrow> 'x manager \<Rightarrow> 'x manager" where
  "notify_expired_tasks env provider g = (case on_tasks (service_expire_stale (me_str env) (me_now env)) g of (expired, g) \<Rightarrow>
     g\<lparr>mg_out := mg_out g @ map (expired_notice env provider) expired\<rparr>)"


definition enriched :: "inbound \<Rightarrow> string \<Rightarrow> inbound" where
  "enriched m context_text = m\<lparr>ib_content := context_text @ [CHR 0x0A, CHR 0x0A] @ utf8 [91, 237, 152, 132, 236, 158, 172, 32, 236, 154,
     148, 236, 178, 173, 93, 10] @ str_trim (ib_content m)\<rparr>"

definition extract_mentions :: "'x manager_env \<Rightarrow> string \<Rightarrow> inbound \<Rightarrow> string list" where
  "extract_mentions env provider m =
     (let in_meta = (case memory_at (ib_meta m) ''mentions'' of
             JArr xs \<Rightarrow> filter (\<lambda>a. a \<noteq> []) (map (\<lambda>x. str_trim (text_or_empty (me_str env) (js_get x ''alias''))) xs)
           | _ \<Rightarrow> []);
          raw = (if in_meta \<noteq> [] then in_meta else filter (\<lambda>a. a \<noteq> []) (me_mentions env provider (ib_content m)));
          own = (case jget (mc_bot_ids (me_config env)) ''slack'' of Some b \<Rightarrow> str_lower b | None \<Rightarrow> []);
          alias = (\<lambda>a. if provider = ''slack'' \<and> ((own \<noteq> [] \<and> str_lower a = own) \<or> str_lower a \<in> {''claude'', ''claude-worker'', ''worker''})
                     then mc_alias (me_config env) else a)
      in rev (remdups (rev (map alias raw))))"

definition mention_cooldown :: int where
  "mention_cooldown = 5000"

fun handle_mentions :: "'x manager_env \<Rightarrow> string \<Rightarrow> inbound \<Rightarrow> string list \<Rightarrow> 'x manager \<Rightarrow> 'x manager option" where
  "handle_mentions env provider m [] g = Some g"
| "handle_mentions env provider m (a # as) g =
     (if str_lower (ib_sender m) = str_lower a then handle_mentions env provider m as g
      else let k = provider @ '':'' @ ib_chat m @ '':'' @ a; last = (case jget (mg_cooldowns g) k of Some t \<Rightarrow> t | None \<Rightarrow> 0)
        in if clock env - last < mention_cooldown then handle_mentions env provider m as g
           else (case invoke_and_reply env provider m a None (g\<lparr>mg_cooldowns := jset k (clock env) (mg_cooldowns g)\<rparr>) of
                   None \<Rightarrow> None | Some g \<Rightarrow> handle_mentions env provider m as g))"

text \<open>A thread that another agent owns is left to it; mentioned agents answer anyway.\<close>

definition owned_by_other :: "'x manager_env \<Rightarrow> string \<Rightarrow> inbound \<Rightarrow> 'x manager \<Rightarrow> bool \<times> 'x manager" where
  "owned_by_other env provider m g =
     (let tid = str_trim (ib_thread m)
      in case mg_threads g of None \<Rightarrow> (False, g)
         | Some t \<Rightarrow> if tid = [] then (False, g)
             else (case owner_of (clock env) provider (ib_chat m) tid t of (ow, t) \<Rightarrow>
                 (case ow of None \<Rightarrow> False | Some a \<Rightarrow> a \<noteq> [] \<and> str_lower a \<noteq> str_lower (mc_alias (me_config env)),
                  g\<lparr>mg_threads := Some t\<rparr>)))"

definition answer_plain :: "'x manager_env \<Rightarrow> string \<Rightarrow> inbound \<Rightarrow> 'x manager \<Rightarrow> 'x manager option" where
  "answer_plain env provider m g =
     (let mentions = extract_mentions env provider m; sender = str_lower (ib_sender m)
      in if mentions \<noteq> [] then handle_mentions env provider m mentions g
         else if \<not> mc_auto_reply (me_config env) \<or> \<not> mc_providers (me_config env) then Some g
         else if sender = [] \<or> starts_with ''subagent:'' sender \<or> sender = ''approval-bot'' then Some g
         else (case owned_by_other env provider m g of (other, g) \<Rightarrow>
                 if other then Some g else invoke_and_reply env provider m (mc_alias (me_config env)) None g))"

definition answer_command :: "'x manager_env \<Rightarrow> string \<Rightarrow> inbound \<Rightarrow> 'x manager \<Rightarrow> 'x manager option" where
  "answer_command env provider m g =
     (let slash = parse_slash_command_from_message (me_str env) m;
          ctx = \<lparr>cx_provider = provider, cx_message = m, cx_command = slash, cx_text = str_trim (ib_content m)\<rparr>
      in case try_handle_command (me_handlers env) ctx g of (handled, g) \<Rightarrow>
           if handled then Some g
           else case slash of
               Some c \<Rightarrow> send_command_reply env provider m (me_say env ''cmd.unknown'' (Some (sc_name c))) g
             | None \<Rightarrow> answer_plain env provider m g)"

definition answer_reference :: "'x manager_env \<Rightarrow> string \<Rightarrow> inbound \<Rightarrow> 'x manager \<Rightarrow> 'x manager option" where
  "answer_reference env provider m g =
     (let alias = mc_alias (me_config env)
      in case on_tasks (try_resume (me_str env) (me_now env) provider m) (notify_expired_tasks env provider g) of (q, g) \<Rightarrow>
           (case q of
              None \<Rightarrow> answer_command env provider m g
            | Some q \<Rightarrow> if ru_resumed q then invoke_and_reply env provider m alias (Some (ru_task q)) g
                else (case ru_context q of
                        Some c \<Rightarrow> if c \<noteq> [] then invoke_and_reply env provider (enriched m c) alias None g else answer_command env provider m g
                      | None \<Rightarrow> answer_command env provider m g)))"

text \<open>In this order: a decision about a waiting call, an answer to a workflow, one to the guard, the rest.\<close>

definition answer_message :: "'x manager_env \<Rightarrow> string \<Rightarrow> inbound \<Rightarrow> 'x manager \<Rightarrow> 'x manager option" where
  "answer_message env provider m g =
     (let alias = mc_alias (me_config env)
      in case try_handle_text_reply provider (approval_view env m) (mg_approvals g) of (h, a) \<Rightarrow>
         let g = g\<lparr>mg_approvals := a\<rparr>
         in if hr_handled h then after_decision env provider m h g
            else case answer_hitl m g of (resolved, g) \<Rightarrow>
              if resolved then Some (send_outbound env provider m alias (me_say env ''workflow_resume'' None) ''workflow_resume_ack'' g)
              else case answer_guard env provider m g of (q, g) \<Rightarrow>
                (case q of
                   Some GuardCancelled \<Rightarrow> Some (send_outbound env provider m alias (me_say env ''guard_cancelled'' None) ''guard_cancelled'' g)
                 | Some (GuardConfirmed txt) \<Rightarrow> invoke_and_reply env provider (m\<lparr>ib_content := txt\<rparr>) alias None g
                 | None \<Rightarrow> answer_reference env provider m g))"

definition begin_turn :: "'x manager_env \<Rightarrow> string \<Rightarrow> inbound \<Rightarrow> 'x manager \<Rightarrow> 'x manager" where
  "begin_turn env ck m g =
     (let g = mark_seen env m g; g = g\<lparr>mg_busy := mg_busy g + 1\<rparr>
      in case me_tone env (ib_content m) of None \<Rightarrow> g | Some t \<Rightarrow> g\<lparr>mg_tones := jset ck t (mg_tones g)\<rparr>)"

definition end_turn :: "'x manager_env \<Rightarrow> string \<Rightarrow> inbound \<Rightarrow> 'x manager \<Rightarrow> 'x manager" where
  "end_turn env ck m g =
     (let g = (case me_tone env (ib_content m) of None \<Rightarrow> g | Some _ \<Rightarrow> g\<lparr>mg_tones := jdel ck (mg_tones g)\<rparr>)
      in g\<lparr>mg_busy := mg_busy g - 1\<rparr>)"

definition handle_inbound_message :: "'x manager_env \<Rightarrow> inbound \<Rightarrow> 'x manager \<Rightarrow> 'x manager option" where
  "handle_inbound_message env m g =
     (if should_ignore env m then Some g
      else case inbound_provider m of None \<Rightarrow> Some g
        | Some provider \<Rightarrow> let ck = render_key provider (ib_chat m)
            in map_option (end_turn env ck m) (answer_message env provider m (begin_turn env ck m g)))"


section \<open>Reading the channels\<close>

definition after_reaction :: "'x manager_env \<Rightarrow> string \<Rightarrow> inbound list \<Rightarrow> handle_result \<Rightarrow> 'x manager \<Rightarrow> 'x manager" where
  "after_reaction env provider rows h g =
     (let k = (case hr_task h of Some k \<Rightarrow> k | None \<Rightarrow> [])
      in if \<not> hr_handled h \<or> \<not> given (hr_task h) then g
         else if given (hr_tool_result h)
         then (case on_tasks (resume_after_approval (me_str env) (me_now env) k (the (hr_tool_result h))) g of (resumed, g) \<Rightarrow>
                (case (case find is_reaction_message rows of Some m \<Rightarrow> Some m | None \<Rightarrow> (case rows of m # _ \<Rightarrow> Some m | [] \<Rightarrow> None)) of
                   Some m \<Rightarrow> if resumed then g\<lparr>mg_jobs := mg_jobs g @ [(provider, m, k)]\<rparr> else g
                 | None \<Rightarrow> g))
         else if hr_status h \<in> {Some ApDenied, Some ApCancelled}
         then snd (on_tasks (\<lambda>s. ((), service_cancel_task (me_str env) (me_now env) k
                (if hr_status h = Some ApDenied then ''approval_denied'' else ''approval_cancelled'') s)) g)
         else g)"

definition control_sig :: "string \<Rightarrow> inbound \<Rightarrow> string list \<Rightarrow> string" where
  "control_sig provider m names = provider @ '':'' @ ib_chat m @ '':'' @ str_join '','' (sort names)"

definition runs_of_chat :: "string \<Rightarrow> inbound \<Rightarrow> 'x manager \<Rightarrow> process_entry list" where
  "runs_of_chat provider m g = (case mg_tracker g of None \<Rightarrow> []
     | Some t \<Rightarrow> filter (\<lambda>e. pe_provider e = provider \<and> pe_chat e = ib_chat m) (list_active t None))"

fun handle_control_reactions :: "'x manager_env \<Rightarrow> string \<Rightarrow> inbound list \<Rightarrow> 'x manager \<Rightarrow> 'x manager" where
  "handle_control_reactions env provider [] g = g"
| "handle_control_reactions env provider (m # ms) g =
     (let names = extract_reaction_names (me_reactions env m); sig = control_sig provider m names
      in if \<not> is_reaction_message m \<or> names = [] \<or> \<not> is_control_stop_reaction names \<or> jhas (mg_control_seen g) sig
         then handle_control_reactions env provider ms g
         else let g = g\<lparr>mg_control_seen := jset sig (clock env) (mg_control_seen g)\<rparr>; active = runs_of_chat provider m g
           in handle_control_reactions env provider ms
                (if active = [] then g
                 else send_outbound env provider m ''system'' (me_say env ''stopped'' None) ''control_reaction''
                        (fold (\<lambda>e. me_cancel_run env (pe_run e)) active g)))"

fun publish_new :: "'x manager_env \<Rightarrow> inbound list \<Rightarrow> 'x manager \<Rightarrow> 'x manager" where
  "publish_new env [] g = g"
| "publish_new env (m # ms) g =
     (if is_reaction_message m \<or> is_duplicate env m g then publish_new env ms g
      else publish_new env ms ((mark_seen env m g)\<lparr>mg_inbox := mg_inbox g @ [m]\<rparr>))"

text \<open>What the first reading of a target finds is only marked as seen.\<close>

definition poll_channel :: "'x manager_env \<Rightarrow> string \<Rightarrow> string \<Rightarrow> string \<Rightarrow> inbound list \<Rightarrow> 'x manager \<Rightarrow> 'x manager" where
  "poll_channel env provider instance target rows g =
     (let rows = map (\<lambda>m. if ib_instance m = [] then m\<lparr>ib_instance := instance\<rparr> else m) rows;
          g = (if mc_approval_reactions (me_config env)
               then (case try_handle_approval_reactions provider (clock env) (map (approval_view env) rows) (mg_approvals g) of
                       (h, a) \<Rightarrow> after_reaction env provider rows h (g\<lparr>mg_approvals := a\<rparr>))
               else g);
          g = (if mc_control_reactions (me_config env) then handle_control_reactions env provider rows g else g);
          key = instance @ '':'' @ target
      in if \<not> jhas (mg_primed g) key
         then (fold (mark_seen env) rows g)\<lparr>mg_primed := jset key (clock env) (mg_primed (fold (mark_seen env) rows g))\<rparr>
         else publish_new env (sort_key (extract_ts env) rows) g)"

definition next_poll_ms :: "manager_config \<Rightarrow> bool \<Rightarrow> int \<Rightarrow> int" where
  "next_poll_ms c had_new current = (if mc_poll_max_ms c \<le> 0 then current
     else if had_new then mc_poll_ms c else min ((3 * current + 1) div 2) (mc_poll_max_ms c))"

text \<open>A run that waits for input takes the message; otherwise the message is handled.\<close>

definition try_hitl_send_input :: "inbound \<Rightarrow> 'x manager \<Rightarrow> bool \<times> 'x manager" where
  "try_hitl_send_input m g =
     (let txt = str_trim (ib_content m)
      in if txt = [] then (False, g)
         else case ac_find_by_chat_id (mg_runs g) (ib_chat m) of
             None \<Rightarrow> (False, g)
           | Some r \<Rightarrow> (True, g\<lparr>mg_injected := mg_injected g @ [(ax_abort r, txt)]\<rparr>))"

definition consume_message :: "'x manager_env \<Rightarrow> inbound \<Rightarrow> 'x manager \<Rightarrow> 'x manager option" where
  "consume_message env m g = (case try_hitl_send_input m g of (taken, g) \<Rightarrow>
     if taken then Some g else handle_inbound_message env m g)"

definition run_job :: "'x manager_env \<Rightarrow> 'x manager \<Rightarrow> 'x manager option" where
  "run_job env g = (case mg_jobs g of [] \<Rightarrow> Some g
     | (provider, m, k) # js \<Rightarrow> invoke_and_reply env provider m (mc_alias (me_config env)) (Some k) (g\<lparr>mg_jobs := js\<rparr>))"


section \<open>Upkeep\<close>

definition prune_seen :: "'x manager_env \<Rightarrow> 'x manager \<Rightarrow> 'x manager" where
  "prune_seen env g =
     (let c = me_config env; now = clock env; cap = Some (mc_seen_max c)
      in g\<lparr>mg_seen := prune_ttl_map now (\<lambda>t. t) (mc_seen_ttl c) cap (mg_seen g),
           mg_control_seen := prune_ttl_map now (\<lambda>t. t) (mc_reaction_ttl c) cap (mg_control_seen g),
           mg_cooldowns := prune_ttl_map now (\<lambda>t. t) 30000 cap (mg_cooldowns g),
           mg_primed := prune_ttl_map now (\<lambda>t. t) (mc_seen_ttl c) cap (mg_primed g),
           mg_approvals := approval_prune_seen now (mc_seen_ttl c) (int (mc_seen_max c)) (mg_approvals g)\<rparr>)"

definition prune_stale_run :: "'x manager_env \<Rightarrow> string \<times> int \<Rightarrow> 'x manager \<Rightarrow> 'x manager" where
  "prune_stale_run env e g =
     (if clock env - snd e \<le> mc_stale_timeout (me_config env) then g
      else case jget (ac_runs (mg_runs g)) (fst e) of
          None \<Rightarrow> g\<lparr>mg_run_times := jdel (fst e) (mg_run_times g)\<rparr>
        | Some r \<Rightarrow> if ax_abort r \<in> ac_aborted (mg_runs g) then g\<lparr>mg_run_times := jdel (fst e) (mg_run_times g)\<rparr>
                    else g\<lparr>mg_runs := ac_abort (ax_abort r) (mg_runs g)\<rparr>)"

definition prune_stale_runs :: "'x manager_env \<Rightarrow> 'x manager \<Rightarrow> 'x manager" where
  "prune_stale_runs env g = (if mc_stale_timeout (me_config env) \<le> 0 then g
     else fold (prune_stale_run env) (mg_run_times g) g)"

definition cancel_active_runs :: "'x manager_env \<Rightarrow> string option \<Rightarrow> 'x manager \<Rightarrow> nat \<times> 'x manager" where
  "cancel_active_runs env key g =
     (case ac_cancel (me_now env) key (mg_runs g, case mg_tracker g of Some t \<Rightarrow> t | None \<Rightarrow> tracker_new None) of
        (n, c, t) \<Rightarrow> (n, g\<lparr>mg_runs := c, mg_tracker := map_option (\<lambda>_. t) (mg_tracker g)\<rparr>))"

definition recovery_window :: int where
  "recovery_window = 1800000"

text \<open>The message that asks again what the last message of a session asked, when nothing answered it.\<close>

definition recovery_message :: "'x manager_env \<Rightarrow> string \<Rightarrow> string \<Rightarrow> session_message list \<Rightarrow> inbound option" where
  "recovery_message env provider key ms =
     (if ms = [] then None
      else let m = last ms; parts = colon_parts key; chat_id = nth_or [] parts 1; thread = nth_or [] parts 3;
               original = (case memory_at (sm_extra m) ''metadata'' of JObj o1 \<Rightarrow>
                   or_else (text_or_empty (me_str env) (js_get (JObj o1) ''message_id'')) (text_or_empty (me_str env) (js_get (JObj o1) ''telegram_message_id''))
                 | _ \<Rightarrow> []);
               k = or_else original (''recovery:'' @ chat_id @ '':'' @ me_str env (JNum (of_nat (length ms))))
           in if sm_role m \<noteq> ''user'' \<or> length parts < 4 \<or> chat_id = [] \<or> str_trim (sm_sender m) \<in> {[], ''unknown''}
                \<or> str_trim (sm_content m) = [] \<or> (3 \<le> length ms \<and> sm_role (ms ! (length ms - 2)) = ''assistant'')
              then None
              else Some \<lparr>ib_id = k, ib_provider = provider, ib_channel = provider, ib_instance = [], ib_sender = str_trim (sm_sender m),
                ib_chat = chat_id, ib_content = str_trim (sm_content m), ib_at = (case sm_at m of Some t \<Rightarrow> me_iso env t | None \<Rightarrow> me_iso env (clock env)),
                ib_thread = (if thread = ''main'' then [] else thread), ib_reply_to = [],
                ib_meta = [(''kind'', JStr ''orphan_recovery''), (''is_recovery'', JBool True), (''message_id'', JStr k)]\<rparr>)"

definition recover_session :: "'x manager_env \<Rightarrow> string \<Rightarrow> string \<times> int \<times> int \<times> nat \<Rightarrow> 'x manager \<Rightarrow> 'x manager" where
  "recover_session env provider e g =
     (case e of (key, _, updated, n) \<Rightarrow>
        if n = 0 \<or> recovery_window < clock env - updated then g
        else case on_recorder (with_session (clock env) key [] (\<lambda>ms. ms)) g of (ms, g) \<Rightarrow>
          (case recovery_message env provider key ms of
             None \<Rightarrow> g
           | Some m \<Rightarrow> if jhas (mg_seen g) (provider @ '':'' @ ib_chat m @ '':'' @ ib_id m) then g
               else (mark_seen env m g)\<lparr>mg_inbox := mg_inbox g @ [m]\<rparr>))"

definition recover_orphaned_messages :: "'x manager_env \<Rightarrow> 'x manager \<Rightarrow> 'x manager" where
  "recover_orphaned_messages env g =
     fold (\<lambda>provider g. case rr_sessions (mg_recorder g) of None \<Rightarrow> g
         | Some x \<Rightarrow> fold (recover_session env provider) (sessions_by_prefix (provider @ '':'') 50 x) g)
       [''telegram'', ''slack'', ''discord''] g"


definition resume_after_dashboard_approval :: "'x manager_env \<Rightarrow> string \<Rightarrow> string \<Rightarrow> string \<Rightarrow> string \<Rightarrow> string \<Rightarrow> 'x manager
    \<Rightarrow> (bool \<times> 'x manager) option" where
  "resume_after_dashboard_approval env k tool_result provider chat_id message_id g =
     (case on_tasks (resume_after_approval (me_str env) (me_now env) k tool_result) g of (resumed, g) \<Rightarrow>
        if \<not> resumed then Some (False, g)
        else let p = or_else provider ''web'';
                 m = \<lparr>ib_id = message_id, ib_provider = p, ib_channel = p, ib_instance = [], ib_sender = ''dashboard'', ib_chat = chat_id,
                      ib_content = [], ib_at = me_iso env (clock env), ib_thread = [], ib_reply_to = [], ib_meta = []\<rparr>
             in map_option (Pair True) (invoke_and_reply env p m (mc_alias (me_config env)) (Some k) g))"

definition stop_manager :: "'x manager_env \<Rightarrow> 'x manager \<Rightarrow> 'x manager" where
  "stop_manager env g =
     (snd (cancel_active_runs env None g))\<lparr>mg_threads := map_option own_dispose (mg_threads g), mg_primed := [], mg_seen := [],
        mg_cooldowns := [], mg_control_seen := [], mg_tones := []\<rparr>"

end
