(* ===== verification/ChannelManagerCorrect.thy ===== *)
theory ChannelManagerCorrect
  imports ChannelManager
begin

text \<open>
  What the manager guarantees for a message, a reading of the channels and a run that takes too long; and
  where it does not do what it means to.
\<close>

section \<open>What leaves the requests alone\<close>

lemma requests_simps [simp]:
  "mg_requests (send_outbound env p m al c k g) = mg_requests g"
  "mg_requests (record_reply env p m al c y g) = mg_requests g"
  "mg_requests (send_error_reply env p m al e run g) = mg_requests g"
  "mg_requests (edit_message p chat k c g) = mg_requests g"
  "mg_requests (claim_thread env p m al g) = mg_requests g"
  "mg_requests (close_run key a g) = mg_requests g"
  "mg_requests (end_tracked env ro st err g) = mg_requests g"
  "mg_requests (set_tools ro n g) = mg_requests g"
  "mg_requests (mark_seen env m g) = mg_requests g"
  by (simp_all add: send_outbound_def record_reply_def send_error_reply_def edit_message_def claim_thread_def close_run_def
      end_tracked_def set_tools_def mark_seen_def Let_def split: option.split)

lemma requests_parts [simp]:
  "mg_requests (snd (on_tasks f g)) = mg_requests g" "mg_requests (snd (on_recorder f' g)) = mg_requests g"
  "mg_requests (snd (open_run env p m al g)) = mg_requests g"
  "mg_requests (snd (answer_hitl m g)) = mg_requests g" "mg_requests (snd (answer_guard env p m g)) = mg_requests g"
  "mg_requests (snd (owned_by_other env p m g)) = mg_requests g"
  "mg_requests (snd (repeated_delivery env p m al g)) = mg_requests g"
  "mg_requests (notify_expired_tasks env p g) = mg_requests g"
  "mg_requests (begin_turn env ck m g) = mg_requests g" "mg_requests (end_turn env ck m g) = mg_requests g"
  by (simp_all add: on_tasks_def on_recorder_def open_run_def answer_hitl_def answer_guard_def owned_by_other_def repeated_delivery_def
      notify_expired_tasks_def begin_turn_def end_turn_def Let_def split: option.split prod.split)

lemma requests_pieces [simp]: "mg_requests (send_pieces env p m al pre k cs g) = mg_requests g"
  by (induction env p m al pre k cs g rule: send_pieces.induct) simp_all

lemma requests_chunked: "send_chunked env p m al me c k g = Some g' \<Longrightarrow> mg_requests g' = mg_requests g"
  by (auto simp: send_chunked_def split: option.splits)

lemma requests_deliver: "deliver_result env p m al r st g = Some g' \<Longrightarrow> mg_requests g' = mg_requests g"
  by (auto simp: deliver_result_def Let_def map_option_case dest!: requests_chunked split: if_splits option.splits)

lemma requests_command_reply: "send_command_reply env p m c g = Some g' \<Longrightarrow> mg_requests g' = mg_requests g"
  by (auto simp: send_command_reply_def Let_def dest: requests_chunked)

text \<open>What the manager calls makes no requests of its own.\<close>

definition quiet :: "'x manager_env \<Rightarrow> bool" where
  "quiet env \<longleftrightarrow> (\<forall>rq g. mg_requests (snd (me_execute env rq g)) = mg_requests g) \<and> (\<forall>g. mg_requests (me_waited env g) = mg_requests g)
     \<and> (\<forall>h \<in> set (me_handlers env). \<forall>ctx g. mg_requests (snd (ch_handle h ctx g)) = mg_requests g)"

lemma requests_first_handled:
  assumes "\<forall>h \<in> set hs. \<forall>ctx g. mg_requests (snd (ch_handle h ctx g)) = mg_requests g"
  shows "mg_requests (snd (first_handled ctx hs g)) = mg_requests g"
  using assms
proof (induction ctx hs g rule: first_handled.induct)
  case (2 ctx h hs g)
  obtain ok g1 where h: "ch_handle h ctx g = (ok, g1)" by force
  from 2(3) have "mg_requests (snd (ch_handle h ctx g)) = mg_requests g" by simp
  with h have "mg_requests g1 = mg_requests g" by simp
  with 2 h show ?case by auto
qed simp

lemma requests_command:
  assumes "quiet env"
  shows "mg_requests (snd (try_handle_command (me_handlers env) ctx g)) = mg_requests g"
proof -
  have q: "\<forall>h \<in> set (me_handlers env). \<forall>ctx g. mg_requests (snd (ch_handle h ctx g)) = mg_requests g" using assms by (simp add: quiet_def)
  obtain ok g1 where 1: "first_handled ctx (me_handlers env) g = (ok, g1)" by force
  with requests_first_handled[OF q, of ctx g] have "mg_requests g1 = mg_requests g" by simp
  with 1 show ?thesis using requests_first_handled[OF q, of _ g1] by (auto simp: try_handle_command_def split: option.split)
qed

lemma requests_displace: "quiet env \<Longrightarrow> mg_requests (displace_run env key g) = mg_requests g"
  by (simp add: displace_run_def quiet_def split: option.split)

lemma requests_answer_run:
  assumes "quiet env" and "answer_run env p m al run out g = Some g'"
  shows "mg_requests g' = mg_requests g"
proof (cases out)
  case (RunThrew e)
  with assms(2) show ?thesis by (auto simp: answer_run_def)
next
  case (RunDone r)
  let ?g = "end_tracked env run (if oc_error r = [] then PsCompleted else PsFailed) (Some (oc_error r)) (set_tools run (oc_tool_calls r) g)"
  obtain handled g1 where h: "(case synthetic_command p m r of None \<Rightarrow> (False, ?g) | Some ctx \<Rightarrow> try_handle_command (me_handlers env) ctx ?g) = (handled, g1)"
    by force
  have "mg_requests g1 = mg_requests g"
    using h by (cases "synthetic_command p m r") (auto dest!: arg_cong[where f = snd] simp: requests_command[OF assms(1)])
  with h assms(2) RunDone show ?thesis by (auto simp: answer_run_def Let_def dest!: requests_deliver split: if_splits)
qed


section \<open>One message, one run\<close>

definition asks :: "nat \<Rightarrow> string \<Rightarrow> string \<Rightarrow> 'x manager \<Rightarrow> 'x manager \<Rightarrow> bool" where
  "asks n provider chat_id g g' \<longleftrightarrow> (\<exists>rs. mg_requests g' = mg_requests g @ rs \<and> length rs \<le> n
     \<and> filter (\<lambda>rq. \<not> (rq_provider rq = provider \<and> ib_chat (rq_message rq) = chat_id)) rs = [])"

lemma asks_none: "mg_requests g' = mg_requests g \<Longrightarrow> asks n p c g g'"
  by (simp add: asks_def)

lemma asks_trans: "asks i p c g g1 \<Longrightarrow> asks j p c g1 g2 \<Longrightarrow> asks (i + j) p c g g2"
  unfolding asks_def by (elim exE conjE, rule_tac x = "rs @ rsa" in exI) auto

lemma asks_mono: "asks i p c g g' \<Longrightarrow> i \<le> j \<Longrightarrow> asks j p c g g'"
  by (auto simp: asks_def)

lemma asks_from: "mg_requests g1 = mg_requests g \<Longrightarrow> asks n p c g1 g' \<Longrightarrow> asks n p c g g'"
  by (simp add: asks_def)

lemma asks_to: "mg_requests g' = mg_requests g1 \<Longrightarrow> asks n p c g g1 \<Longrightarrow> asks n p c g g'"
  by (simp add: asks_def)


lemma asks_run_started:
  assumes "quiet env" and "run_started env p m al q ids g = Some g'"
  shows "asks 1 p (ib_chat m) g g'"
proof -
  obtain again g1 where 1: "repeated_delivery env p m al g = (again, g1)" by force
  have r1: "mg_requests g1 = mg_requests g" using arg_cong[OF 1, of snd] by (auto dest: sym)
  show ?thesis
  proof (cases again)
    case True
    with assms(2) 1 r1 show ?thesis by (auto simp: run_started_def asks_def)
  next
    case False
    let ?g2 = "if is_recovery m then g1 else snd (on_recorder (\<lambda>r. ((), record_user (recorder_clock env) p m al r)) g1)"
    obtain history g3 where 3: "on_recorder (recorded_history (clock env) p (ib_chat m) al (ib_thread m) 12
                 (mc_history_age (me_config env)) (extract_team_id (ib_meta m))) ?g2 = (history, g3)" by force
    let ?rq = "run_request_of env p m al q ids history"
    obtain out g4 where 4: "me_execute env ?rq (g3\<lparr>mg_requests := mg_requests g3 @ [?rq]\<rparr>) = (out, g4)" by force
    have "mg_requests g3 = mg_requests g" using arg_cong[OF 3, of snd] r1 by (auto dest: sym)
    moreover have "mg_requests g4 = mg_requests g3 @ [?rq]" using arg_cong[OF 4, of snd] assms(1) by (auto simp: quiet_def dest: sym)
    moreover have "answer_run env p m al (snd ids) out g4 = Some g'" using assms(2) 1 False 3 4 by (simp add: run_started_def Let_def)
    from requests_answer_run[OF assms(1) this] have "mg_requests g' = mg_requests g4" .
    ultimately show ?thesis by (simp add: asks_def run_request_of_def)
  qed
qed

lemma asks_invoke:
  assumes "quiet env" and "invoke_and_reply env p m al q g = Some g'"
  shows "asks 1 p (ib_chat m) g g'"
proof -
  let ?g = "displace_run env (invoke_key p m al) (claim_thread env p m al g)"
  obtain ids g1 where 1: "open_run env p m al ?g = (ids, g1)" by (cases "open_run env p m al ?g")
  have "mg_requests g1 = mg_requests g" using arg_cong[OF 1, of snd] requests_displace[OF assms(1)] by (auto dest: sym)
  moreover from assms(2) 1 obtain g2 where 2: "run_started env p m al q ids g1 = Some g2" "g' = close_run (invoke_key p m al) (fst ids) g2"
    by (auto simp: invoke_and_reply_def Let_def)
  ultimately show ?thesis using asks_run_started[OF assms(1) 2(1)] by (simp add: asks_def)
qed

lemma asks_mentions:
  assumes "quiet env" and "handle_mentions env p m as g = Some g'"
  shows "asks (length as) p (ib_chat m) g g'"
  using assms(2)
proof (induction as arbitrary: g)
  case (Cons a as)
  have skip: "handle_mentions env p m as g = Some g' \<Longrightarrow> ?case" using Cons.IH[of g] by (auto elim: asks_mono)
  show ?case
  proof (cases "handle_mentions env p m as g = Some g'")
    case False
    let ?g = "g\<lparr>mg_cooldowns := jset (p @ '':'' @ ib_chat m @ '':'' @ a) (clock env) (mg_cooldowns g)\<rparr>"
    from False Cons.prems obtain g1 where 1: "invoke_and_reply env p m a None ?g = Some g1" "handle_mentions env p m as g1 = Some g'"
      by (auto simp: Let_def split: if_splits option.splits)
    from asks_invoke[OF assms(1) 1(1)] have "asks 1 p (ib_chat m) g g1" by (simp add: asks_def)
    from asks_trans[OF this Cons.IH[OF 1(2)]] show ?thesis by simp
  qed (rule skip)
qed (simp add: asks_def)


text \<open>The run a message starts, when no agent is mentioned.\<close>

lemma asks_after_decision: "quiet env \<Longrightarrow> after_decision env p m h g = Some g' \<Longrightarrow> asks 1 p (ib_chat m) g g'"
proof -
  assume q: "quiet env" and run: "after_decision env p m h g = Some g'"
  let ?f = "resume_after_approval (me_str env) (me_now env) (case hr_task h of Some k \<Rightarrow> k | None \<Rightarrow> []) (the (hr_tool_result h))"
  obtain resumed g1 where 1: "on_tasks ?f g = (resumed, g1)" by (cases "on_tasks ?f g")
  have "mg_requests g1 = mg_requests g" using arg_cong[OF 1, of snd] by (auto dest: sym)
  with run 1 show ?thesis
    by (auto simp: after_decision_def Let_def asks_def split: if_splits dest!: asks_invoke[OF q, unfolded asks_def])
qed

lemma asks_plain:
  assumes "quiet env" and "answer_plain env p m g = Some g'"
  shows "asks (max 1 (length (extract_mentions env p m))) p (ib_chat m) g g'"
proof (cases "extract_mentions env p m = []")
  case True
  obtain ob g1 where 1: "owned_by_other env p m g = (ob, g1)" by (cases "owned_by_other env p m g")
  have "mg_requests g1 = mg_requests g" using arg_cong[OF 1, of snd] by (auto dest: sym)
  with assms(2) 1 True show ?thesis
    by (auto simp: answer_plain_def Let_def split: if_splits dest!: asks_invoke[OF assms(1)] intro: asks_none elim: asks_from[rotated])
next
  case False
  with assms(2) have "handle_mentions env p m (extract_mentions env p m) g = Some g'" by (simp add: answer_plain_def Let_def)
  from asks_mentions[OF assms(1) this] show ?thesis by (rule asks_mono) simp
qed

lemma asks_command:
  assumes "quiet env" and "answer_command env p m g = Some g'"
  shows "asks (max 1 (length (extract_mentions env p m))) p (ib_chat m) g g'"
proof -
  let ?ctx = "\<lparr>cx_provider = p, cx_message = m, cx_command = parse_slash_command_from_message (me_str env) m, cx_text = str_trim (ib_content m)\<rparr>"
  obtain ok g1 where 1: "try_handle_command (me_handlers env) ?ctx g = (ok, g1)" by (cases "try_handle_command (me_handlers env) ?ctx g")
  have r: "mg_requests g1 = mg_requests g" using arg_cong[OF 1, of snd] requests_command[OF assms(1)] by (auto dest: sym)
  show ?thesis
    using assms(2) 1 asks_from[OF r asks_plain[OF assms(1)]] r
    by (auto simp: answer_command_def Let_def split: if_splits option.splits dest!: requests_command_reply intro: asks_none)
qed

lemma asks_reference:
  assumes "quiet env" and "answer_reference env p m g = Some g'"
  shows "asks (max 1 (length (extract_mentions env p m))) p (ib_chat m) g g'"
proof -
  let ?f = "try_resume (me_str env) (me_now env) p m"
  obtain q g1 where 1: "on_tasks ?f (notify_expired_tasks env p g) = (q, g1)" by (cases "on_tasks ?f (notify_expired_tasks env p g)")
  have r: "mg_requests g1 = mg_requests g" using arg_cong[OF 1, of snd] by (auto dest: sym)
  have run: "invoke_and_reply env p n al x g1 = Some g' \<Longrightarrow> ib_chat n = ib_chat m \<Longrightarrow> ?thesis" for n al x
    using asks_mono[OF asks_from[OF r asks_invoke[OF assms(1)]]] by fastforce
  note cmd = asks_from[OF r asks_command[OF assms(1)]]
  show ?thesis
    using assms(2) 1 run[of m] run[of "enriched m _"] cmd
    by (auto simp: answer_reference_def Let_def enriched_def split: if_splits option.splits)
qed


lemma asks_answer:
  assumes "quiet env" and "answer_message env p m g = Some g'"
  shows "asks (max 1 (length (extract_mentions env p m))) p (ib_chat m) g g'" (is "asks ?n p _ g g'")
proof -
  obtain h a where 1: "try_handle_text_reply p (approval_view env m) (mg_approvals g) = (h, a)"
    by (cases "try_handle_text_reply p (approval_view env m) (mg_approvals g)")
  let ?g1 = "g\<lparr>mg_approvals := a\<rparr>"
  obtain resolved g2 where 2: "answer_hitl m ?g1 = (resolved, g2)" by (cases "answer_hitl m ?g1")
  obtain q g3 where 3: "answer_guard env p m g2 = (q, g3)" by (cases "answer_guard env p m g2")
  have r2: "mg_requests g2 = mg_requests g" using arg_cong[OF 2, of snd] by (auto dest: sym)
  have r3: "mg_requests g3 = mg_requests g" using arg_cong[OF 3, of snd] r2 by (auto dest: sym)
  have one: "asks ?n p (ib_chat m) g g'" if "asks 1 p (ib_chat m) x g'" "mg_requests x = mg_requests g" for x
    using asks_mono[OF asks_from[of x g, OF that(2,1)], of ?n] by simp
  consider "hr_handled h" | "\<not> hr_handled h" "resolved" | "\<not> hr_handled h" "\<not> resolved" by blast
  then show ?thesis
  proof cases
    case 1
    with assms(2) \<open>try_handle_text_reply _ _ _ = _\<close> have "after_decision env p m h ?g1 = Some g'" by (simp add: answer_message_def Let_def)
    from asks_after_decision[OF assms(1) this] show ?thesis by (rule one) simp
  next
    case c: 2
    with assms(2) 1 2 r2 show ?thesis by (auto simp: answer_message_def Let_def intro!: asks_none)
  next
    case c: 3
    from c assms(2) 1 2 3 have rest: "Some g' = (case q of
          Some GuardCancelled \<Rightarrow> Some (send_outbound env p m (mc_alias (me_config env)) (me_say env ''guard_cancelled'' None) ''guard_cancelled'' g3)
        | Some (GuardConfirmed said) \<Rightarrow> invoke_and_reply env p (m\<lparr>ib_content := said\<rparr>) (mc_alias (me_config env)) None g3
        | None \<Rightarrow> answer_reference env p m g3)"
      by (simp add: answer_message_def Let_def)
    from rest consider "answer_reference env p m g3 = Some g'" | "mg_requests g' = mg_requests g3"
      | said where "invoke_and_reply env p (m\<lparr>ib_content := said\<rparr>) (mc_alias (me_config env)) None g3 = Some g'"
      by (auto split: option.splits guard_resolution.splits)
    then show ?thesis
    proof cases
      case 1
      from asks_reference[OF assms(1) 1] show ?thesis by (rule asks_from[OF r3])
    next
      case 2
      with r3 show ?thesis by (simp add: asks_none)
    next
      case (3 said)
      have "asks 1 p (ib_chat m) g3 g'" using asks_invoke[OF assms(1) 3] by simp
      then show ?thesis using r3 by (rule one)
    qed
  qed
qed

text \<open>
  C1. A message starts at most one run, or one for each agent it mentions, and every run it starts is of
  its own chat; a message that is ignored starts none.
\<close>

theorem message_runs_in_chat:
  assumes "quiet env" and "handle_inbound_message env m g = Some g'" and "inbound_provider m = Some p"
  shows "\<exists>rs. mg_requests g' = mg_requests g @ rs
     \<and> length rs \<le> (if should_ignore env m then 0 else max 1 (length (extract_mentions env p m)))
     \<and> filter (\<lambda>rq. \<not> (rq_provider rq = p \<and> ib_chat (rq_message rq) = ib_chat m)) rs = []"
proof (cases "should_ignore env m")
  case False
  let ?g = "begin_turn env (render_key p (ib_chat m)) m g"
  from assms(2,3) False obtain g1 where "answer_message env p m ?g = Some g1" "g' = end_turn env (render_key p (ib_chat m)) m g1"
    by (auto simp: handle_inbound_message_def Let_def)
  with asks_answer[OF assms(1), of p m ?g g1] False show ?thesis by (auto simp: asks_def)
qed (use assms(2) in \<open>auto simp: handle_inbound_message_def\<close>)


definition demo_config :: manager_config where
  "demo_config = \<lparr>mc_alias = ''bot'', mc_auto_reply = True, mc_providers = True, mc_seen_ttl = 600000, mc_seen_max = 100, mc_reaction_ttl = 60000,
     mc_stale_timeout = 60000, mc_history_age = 0, mc_approval_reactions = True, mc_control_reactions = True, mc_status_mode = False,
     mc_suppress_final = False, mc_poll_ms = 2000, mc_poll_max_ms = 8000, mc_bot_ids = []\<rparr>"

definition demo_result :: run_result where
  "demo_result = \<lparr>oc_reply = ''hi'', oc_error = [], oc_suppress = False, oc_tool_calls = 0, oc_builtin = [], oc_builtin_args = [],
     oc_streamed = False, oc_stream_full = [], oc_parsed = JUndef, oc_run = [], oc_usage = JUndef, oc_tools = [], oc_stream_id = [],
     oc_tool_blocks = 0\<rparr>"

definition demo_manager_env :: "nat \<Rightarrow> unit manager_env" where
  "demo_manager_env now = \<lparr>me_config = demo_config, me_now = now, me_str = plain_string, me_iso = (\<lambda>_. []), me_sanitize = (\<lambda>s. s),
     me_number = (\<lambda>_. None), me_date = (\<lambda>_. None), me_tone = (\<lambda>_. None), me_say = (\<lambda>k _. k), me_error_text = (\<lambda>e. e),
     me_render = (\<lambda>c _ _. \<lparr>rd_content = c, rd_markdown = c, rd_media = 0\<rparr>), me_mentions = (\<lambda>_ _. []), me_reactions = (\<lambda>_. NoReactions),
     me_media = (\<lambda>_. []), me_run_id = (\<lambda>n. ''run'' @ plain_string (JStr (replicate n CHR ''i''))), me_edit_ok = True, me_waited = (\<lambda>g. g),
     me_execute = (\<lambda>_ g. (RunDone demo_result, g)), me_handlers = [], me_cancel_run = (\<lambda>_ g. g)\<rparr>"

definition demo_manager :: "recorder \<Rightarrow> confirmation_guard option \<Rightarrow> unit manager" where
  "demo_manager r guard = manager_new r None (Some (tracker_new None)) guard None (loop_store_new (Some []))
     \<lparr>sv_runtime = True, sv_registry = registry_new [] [] None, sv_world = (), sv_seen = [], sv_sent = []\<rparr>"

lemma demo_quiet: "quiet (demo_manager_env now)"
  by (simp add: quiet_def demo_manager_env_def)

definition hello :: inbound where
  "hello = team_message ''slack'' ''c1'' []"

theorem message_runs_in_chat_witness:
  "map_option (\<lambda>g. map (\<lambda>rq. ib_chat (rq_message rq)) (mg_requests g))
     (handle_inbound_message (demo_manager_env 9) hello (demo_manager (recorder_new None None) None)) = Some [''c1'']"
proof -
  let ?h = "handle_inbound_message (demo_manager_env 9) hello (demo_manager (recorder_new None None) None)"
  have n: "map_option (\<lambda>g. length (mg_requests g)) ?h = Some 1" by code_simp
  then obtain g where g: "?h = Some g" "length (mg_requests g) = 1" by auto
  have "inbound_provider hello = Some ''slack''" by code_simp
  from message_runs_in_chat[OF demo_quiet g(1) this] g show ?thesis
    by (auto simp: demo_manager_def manager_new_def hello_def team_message_def length_Suc_conv split: if_splits)
qed



section \<open>Reading the channels again and again\<close>

record reading =
  rk_time :: nat
  rk_provider :: string
  rk_instance :: string
  rk_target :: string
  rk_rows :: "inbound list"

definition read_channel :: "'x manager_env \<Rightarrow> reading \<Rightarrow> 'x manager \<Rightarrow> 'x manager" where
  "read_channel env k = poll_channel (env\<lparr>me_now := rk_time k\<rparr>) (rk_provider k) (rk_instance k) (rk_target k) (rk_rows k)"

definition published_keys :: "'x manager_env \<Rightarrow> 'x manager \<Rightarrow> string option list" where
  "published_keys env g = filter (\<lambda>k. k \<noteq> None) (map (seen_key env) (mg_inbox g))"

definition read_ok :: "'x manager_env \<Rightarrow> string list \<Rightarrow> 'x manager \<Rightarrow> bool" where
  "read_ok env old g \<longleftrightarrow> distinct (published_keys env g) \<and> (\<forall>k. Some k \<in> set (published_keys env g) \<longrightarrow> jhas (mg_seen g) k \<and> k \<notin> set old)
     \<and> (\<forall>k \<in> set old. jhas (mg_seen g) k) \<and> filter is_reaction_message (mg_inbox g) = []"

lemma jhas_keys: "jhas m k \<longleftrightarrow> k \<in> fst ` set m"
  by (induction m) (auto simp: jhas_def)

lemma read_ok_keep:
  assumes "read_ok env old g" and "mg_inbox g' = mg_inbox g" and "\<And>k. jhas (mg_seen g) k \<Longrightarrow> jhas (mg_seen g') k"
  shows "read_ok env old g'"
  using assms by (auto simp: read_ok_def published_keys_def)

lemma seen_key_now [simp]: "seen_key (env\<lparr>me_now := t\<rparr>) m = seen_key env m"
  by (simp add: seen_key_def anchor_of_def meta_text_def)

lemma jhas_jset [simp]: "jhas (jset k v m) j \<longleftrightarrow> j = k \<or> jhas m j"
  by (simp add: jhas_def)

lemma mark_seen_simps [simp]:
  "mg_inbox (mark_seen env m g) = mg_inbox g"
  "jhas (mg_seen (mark_seen env m g)) k \<longleftrightarrow> jhas (mg_seen g) k \<or> seen_key env m = Some k"
  by (auto simp: mark_seen_def split: option.split)

lemma read_ok_publish:
  assumes "read_ok env old g" and "\<And>m. seen_key e m = seen_key env m"
  shows "read_ok env old (publish_new e ms g)"
  using assms(1)
proof (induction ms arbitrary: g)
  case (Cons m ms)
  let ?g = "(mark_seen e m g)\<lparr>mg_inbox := mg_inbox g @ [m]\<rparr>"
  have "read_ok env old ?g" if "\<not> is_reaction_message m" "\<not> is_duplicate e m g"
  proof (cases "seen_key env m")
    case None
    then have "mg_seen ?g = mg_seen g" by (simp add: mark_seen_def assms(2))
    with None Cons.prems that show ?thesis by (simp add: read_ok_def published_keys_def)
  next
    case (Some k)
    then have "\<not> jhas (mg_seen g) k" using that(2) by (simp add: is_duplicate_def assms(2))
    with Some Cons.prems that show ?thesis by (auto simp: read_ok_def published_keys_def assms(2))
  qed
  then show ?case using Cons.IH[of g] Cons.IH[of ?g] Cons.prems by simp
qed simp

lemma fold_keeps: "(\<And>x g. obs (f x g) = obs g) \<Longrightarrow> obs (fold f xs g) = obs g"
  by (induction xs arbitrary: g) auto

lemma after_reaction_keeps [simp]:
  "mg_inbox (after_reaction env p rows h g) = mg_inbox g" "mg_seen (after_reaction env p rows h g) = mg_seen g"
  by (auto simp: after_reaction_def Let_def on_tasks_def split: option.splits list.splits prod.splits)

lemma control_reactions_keep:
  assumes "\<And>k g. obs (me_cancel_run env k g) = obs g"
    and "\<And>g x. obs (g\<lparr>mg_control_seen := x\<rparr>) = obs g" and "\<And>g x. obs (g\<lparr>mg_out := x\<rparr>) = obs g"
  shows "obs (handle_control_reactions env p ms g) = obs g"
proof (induction ms arbitrary: g)
  case (Cons m ms)
  have cancelled: "obs (fold (\<lambda>e. me_cancel_run env (pe_run e)) es h) = obs h" for es h by (rule fold_keeps) (rule assms(1))
  show ?case by (simp add: Let_def Cons.IH assms(2,3) send_outbound_def cancelled)
qed simp

lemma read_ok_read:
  assumes "read_ok env old g" and "\<And>k g. mg_inbox (me_cancel_run env k g) = mg_inbox g" and "\<And>k g. mg_seen (me_cancel_run env k g) = mg_seen g"
  shows "read_ok env old (read_channel env k g)"
proof -
  let ?e = "env\<lparr>me_now := rk_time k\<rparr>"
  let ?rows = "map (\<lambda>m. if ib_instance m = [] then m\<lparr>ib_instance := rk_instance k\<rparr> else m) (rk_rows k)"
  define g1 where "g1 = (if mc_approval_reactions (me_config ?e)
               then (case try_handle_approval_reactions (rk_provider k) (clock ?e) (map (approval_view ?e) ?rows) (mg_approvals g) of
                       (h, a) \<Rightarrow> after_reaction ?e (rk_provider k) ?rows h (g\<lparr>mg_approvals := a\<rparr>))
               else g)"
  define g2 where "g2 = (if mc_control_reactions (me_config ?e) then handle_control_reactions ?e (rk_provider k) ?rows g1 else g1)"
  have "mg_inbox g1 = mg_inbox g" "mg_seen g1 = mg_seen g" by (auto simp: g1_def split: prod.split)
  then have 2: "mg_inbox g2 = mg_inbox g" "mg_seen g2 = mg_seen g"
    by (simp_all add: g2_def control_reactions_keep[of mg_inbox] control_reactions_keep[of mg_seen] assms(2,3))
  have ok: "read_ok env old g2" by (rule read_ok_keep[OF assms(1)]) (simp_all add: 2)
  have marked: "mg_inbox (fold (mark_seen ?e) ms h) = mg_inbox h" "jhas (mg_seen h) j \<Longrightarrow> jhas (mg_seen (fold (mark_seen ?e) ms h)) j" for ms h j
    by (rule fold_keeps, simp) (induction ms arbitrary: h, auto)
  have "read_channel env k g = (if \<not> jhas (mg_primed g2) (rk_instance k @ '':'' @ rk_target k)
         then (fold (mark_seen ?e) ?rows g2)\<lparr>mg_primed := jset (rk_instance k @ '':'' @ rk_target k) (clock ?e) (mg_primed (fold (mark_seen ?e) ?rows g2))\<rparr>
         else publish_new ?e (sort_key (extract_ts ?e) ?rows) g2)"
    by (simp only: read_channel_def poll_channel_def Let_def g1_def g2_def)
  moreover have "read_ok env old (publish_new ?e ms g2)" for ms by (rule read_ok_publish[OF ok]) simp
  moreover have "read_ok env old ((fold (mark_seen ?e) ?rows g2)\<lparr>mg_primed := x\<rparr>)" for x
    by (rule read_ok_keep[OF ok]) (simp_all add: marked)
  ultimately show ?thesis by simp
qed

lemma read_ok_run:
  assumes "read_ok env old g" and "\<And>k h. mg_inbox (me_cancel_run env k h) = mg_inbox h" and "\<And>k h. mg_seen (me_cancel_run env k h) = mg_seen h"
  shows "read_ok env old (run_steps (read_channel env) ks g)"
  using assms(1) by (induction ks arbitrary: g) (simp_all add: read_ok_read[OF _ assms(2,3)])

text \<open>
  C20. However often the channels are read, no message with an id is published twice, none that was seen
  before is published, and no reaction is.
\<close>

theorem reading_publishes_once:
  assumes "\<And>k h. mg_inbox (me_cancel_run env k h) = mg_inbox h" and "\<And>k h. mg_seen (me_cancel_run env k h) = mg_seen h"
    and "mg_inbox g = []"
  shows "let g' = run_steps (read_channel env) ks g
     in distinct (published_keys env g') \<and> filter is_reaction_message (mg_inbox g') = []
      \<and> filter (\<lambda>m. is_duplicate env m g) (mg_inbox g') = []"
proof -
  let ?g = "run_steps (read_channel env) ks g"
  have "read_ok env (map fst (mg_seen g)) g" using assms(3) by (simp add: read_ok_def published_keys_def jhas_keys)
  from read_ok_run[OF this assms(1,2)] have ok: "read_ok env (map fst (mg_seen g)) ?g" .
  moreover have "\<not> is_duplicate env m g" if "m \<in> set (mg_inbox ?g)" for m
  proof (cases "seen_key env m")
    case (Some k)
    then have "Some k \<in> set (published_keys env ?g)" using that by (force simp: published_keys_def)
    with Some ok show ?thesis by (auto simp: read_ok_def is_duplicate_def jhas_keys)
  qed (simp add: is_duplicate_def)
  ultimately show ?thesis by (simp add: read_ok_def Let_def filter_empty_conv)
qed


definition numbered :: "string \<Rightarrow> inbound" where
  "numbered k = hello\<lparr>ib_id := k\<rparr>"

definition demo_readings :: "reading list" where
  "demo_readings = map (\<lambda>ids. \<lparr>rk_time = 5, rk_provider = ''slack'', rk_instance = ''slack'', rk_target = ''c1'', rk_rows = map numbered ids\<rparr>)
     [[''1''], [''2'', ''1'', ''3''], [''3'', ''2'']]"

theorem reading_publishes_once_witness:
  "map ib_id (mg_inbox (run_steps (read_channel (demo_manager_env 5)) demo_readings (demo_manager (recorder_new None None) None))) = [''2'', ''3'']
   \<and> distinct (published_keys (demo_manager_env 5) (run_steps (read_channel (demo_manager_env 5)) demo_readings (demo_manager (recorder_new None None) None)))"
proof
  show "map ib_id (mg_inbox (run_steps (read_channel (demo_manager_env 5)) demo_readings (demo_manager (recorder_new None None) None))) = [''2'', ''3'']"
    by code_simp
  show "distinct (published_keys (demo_manager_env 5) (run_steps (read_channel (demo_manager_env 5)) demo_readings (demo_manager (recorder_new None None) None)))"
    using reading_publishes_once[of "demo_manager_env 5" "demo_manager (recorder_new None None) None" demo_readings]
    by (simp add: Let_def demo_manager_env_def demo_manager_def manager_new_def)
qed


section \<open>Runs that take too long\<close>

lemma prune_stale_run_runs: "ac_runs (mg_runs (prune_stale_run env e g)) = ac_runs (mg_runs g)"
  by (simp add: prune_stale_run_def ac_abort_def split: option.split)

lemma prune_stale_fold:
  "ac_runs (mg_runs (fold (prune_stale_run env) es g)) = ac_runs (mg_runs g)
   \<and> ac_aborted (mg_runs (fold (prune_stale_run env) es g)) = ac_aborted (mg_runs g)
      \<union> {a. \<exists>k t r. (k, t) \<in> set es \<and> mc_stale_timeout (me_config env) < clock env - t \<and> jget (ac_runs (mg_runs g)) k = Some r \<and> a = ax_abort r}"
proof (induction es arbitrary: g)
  case (Cons e es)
  obtain k t where e: "e = (k, t)" by (cases e)
  have "ac_aborted (mg_runs (prune_stale_run env e g)) = ac_aborted (mg_runs g)
      \<union> {a. \<exists>r. mc_stale_timeout (me_config env) < clock env - t \<and> jget (ac_runs (mg_runs g)) k = Some r \<and> a = ax_abort r}"
    by (auto simp: prune_stale_run_def ac_abort_def e split: option.split)
  with Cons.IH[of "prune_stale_run env e g"] show ?case by (simp add: prune_stale_run_runs e) blast
qed simp

text \<open>
  The upkeep aborts exactly the runs that are registered, were started and have gone on for longer
  than the limit; it removes none.
\<close>

theorem stale_runs_aborted:
  "ac_runs (mg_runs (prune_stale_runs env g)) = ac_runs (mg_runs g)
   \<and> ac_aborted (mg_runs (prune_stale_runs env g)) = ac_aborted (mg_runs g)
      \<union> (if mc_stale_timeout (me_config env) \<le> 0 then {} else
          {a. \<exists>k t r. (k, t) \<in> set (mg_run_times g) \<and> mc_stale_timeout (me_config env) < clock env - t
             \<and> jget (ac_runs (mg_runs g)) k = Some r \<and> a = ax_abort r})"
  using prune_stale_fold[of env "mg_run_times g" g] by (simp add: prune_stale_runs_def)



section \<open>Where the parts do not fit\<close>

text \<open>A message taken for a repeated delivery ends its run without telling the tracker, which lists it as active.\<close>

lemma repeated_delivery_stays_active:
  assumes "jget (ac_runs (mg_runs g)) (invoke_key p m al) = None" and "mg_tracker g = Some t" and "str_trim (ib_thread m) = []"
    and "fst (repeated_delivery env p m al g)"
  shows "\<exists>g' t'. invoke_and_reply env p m al q g = Some g' \<and> mg_requests g' = mg_requests g \<and> mg_tracker g' = Some t'
     \<and> map_option pe_status (jget (pt_active t') (me_run_id env (mg_next g))) = Some PsRunning"
proof -
  obtain ids g1 where 1: "open_run env p m al g = (ids, g1)" by (cases "open_run env p m al g")
  then have g1: "mg_recorder g1 = mg_recorder g" "mg_requests g1 = mg_requests g"
    "mg_tracker g1 = map_option (tracker_start (me_run_id env (mg_next g)) (me_now env)
        \<lparr>rp_provider = p, rp_chat = ib_chat m, rp_alias = al, rp_sender = ib_sender m, rp_team = None\<rparr>) (mg_tracker g)"
    by (auto simp: open_run_def Let_def)
  obtain again g2 where 2: "repeated_delivery env p m al g1 = (again, g2)" by (cases "repeated_delivery env p m al g1")
  have same: "again" "mg_tracker g2 = mg_tracker g1" "mg_requests g2 = mg_requests g1"
    using 2 assms(4) g1(1) by (auto simp: repeated_delivery_def on_recorder_def split: if_splits prod.splits)
  have "invoke_and_reply env p m al q g = Some (close_run (invoke_key p m al) (fst ids) g2)"
    using assms(1,3) 1 2 same(1) by (simp add: invoke_and_reply_def Let_def displace_run_def claim_thread_def run_started_def)
  then show ?thesis using same(2,3) g1 assms(2)
    by (simp add: close_run_def end_tracked_def tracker_start_def new_entry_simps)
qed

text \<open>
  The question whether to go on is recorded as an answer; who says yes within three seconds sends, so it
  seems, the first request again, and it is dropped.
\<close>

definition asked_manager :: "unit manager" where
  "asked_manager = demo_manager
     (run_steps recorder_step [RcUser (plain_env 1000) ''slack'' hello ''bot'', RcAssistant (plain_env 2000) ''slack'' hello ''bot'' ''go on?'' None]
        (recorder_new None None))
     (Some (guard_store 2000 ''slack'' ''c1'' ''hello'' [] ModeTask [] (confirmation_guard_new (Some True) None)))"

lemma quick_confirmation_dropped:
  "map_option (\<lambda>g. (length (mg_requests g), map_option (\<lambda>c. gd_pending c) (mg_guard g)))
     (handle_inbound_message (demo_manager_env 4000) (hello\<lparr>ib_content := ''yes''\<rparr>) asked_manager) = Some (0, Some [])"
  "map_option (\<lambda>g. length (mg_requests g)) (handle_inbound_message (demo_manager_env 6000) (hello\<lparr>ib_content := ''yes''\<rparr>) asked_manager) = Some 1"
  by code_simp+

text \<open>An approved call whose result is empty does not resume its task.\<close>

lemma empty_result_never_resumes:
  assumes "hr_tool_result h = Some []" and "hr_status h = Some ApApproved"
  shows "after_decision env p m h g = Some g"
  using assms by (simp add: after_decision_def given_def Let_def)

text \<open>\<open>/stop\<close> names the provider, the key of a run its instance.\<close>

lemma stop_misses_instance:
  "let m = hello\<lparr>ib_instance := ''slack-2''\<rparr>; g = snd (open_run (demo_manager_env 5) ''slack'' m ''bot'' (demo_manager (recorder_new None None) None))
   in length (ac_runs (mg_runs g)) = 1 \<and> fst (cancel_active_runs (demo_manager_env 6) (Some ''slack:c1'') g) = 0"
  by code_simp

text \<open>What was left unanswered in a session of a team is asked again in a chat with the team's name.\<close>

lemma recovery_in_wrong_chat:
  "map_option (\<lambda>m. (ib_chat m, ib_thread m)) (recovery_message (demo_manager_env 5) ''telegram'' ''telegram:t1:c1:bot:main''
     [\<lparr>sm_role = ''user'', sm_content = ''hi'', sm_at = None, sm_sender = ''u1'', sm_extra = []\<rparr>]) = Some (''t1'', ''bot'')"
  by code_simp

text \<open>A second stop reaction of the same kind in a chat does nothing until the first is forgotten.\<close>

lemma second_stop_ignored:
  assumes "jhas (mg_control_seen g) (control_sig p m (extract_reaction_names (me_reactions env m)))"
  shows "handle_control_reactions env p [m] g = g"
  using assms by (simp add: Let_def)

text \<open>A run that was given up but ends later takes the start time of the run that replaced it.\<close>

lemma newer_run_untimed:
  assumes "jget (ac_runs (mg_runs g)) key = Some r" and "ax_abort r \<noteq> a"
  shows "jget (ac_runs (mg_runs (close_run key a g))) key = Some r \<and> jget (mg_run_times (close_run key a g)) key = None"
  using assms by (simp add: close_run_def ac_unregister_def)

text \<open>Of two messages that wait for the same run the second replaces the first without aborting it.\<close>

lemma second_waiter_replaces:
  assumes "jget (ac_runs (mg_runs g)) key = Some r0" and "key = invoke_key p m al"
    and "jget (ac_runs (mg_runs (me_waited env (g\<lparr>mg_runs := ac_abort (ax_abort r0) (mg_runs g)\<rparr>)))) key = Some r"
    and "ax_abort r \<notin> ac_aborted (mg_runs (me_waited env (g\<lparr>mg_runs := ac_abort (ax_abort r0) (mg_runs g)\<rparr>)))"
  shows "let g' = snd (open_run env p m al (displace_run env key g))
     in map_option ax_abort (jget (ac_runs (mg_runs g')) key) \<noteq> Some (ax_abort r)
        \<or> mg_next (me_waited env (g\<lparr>mg_runs := ac_abort (ax_abort r0) (mg_runs g)\<rparr>)) = ax_abort r"
    and "ax_abort r \<notin> ac_aborted (mg_runs (snd (open_run env p m al (displace_run env key g))))"
  using assms by (auto simp: open_run_def displace_run_def ac_register_def Let_def)

end
