(* ===== verification/CommandsCorrect.thy ===== *)
theory CommandsCorrect
  imports Commands
begin

text \<open>
  The edit distance is the least number of edits, a misspelt command goes to the closest handler, and a
  long reply is split without losing a word.
\<close>

section \<open>Edits\<close>

text \<open>\<open>b\<close> comes from \<open>a\<close> by \<open>n\<close> insertions, deletions and substitutions of single elements.\<close>

inductive edits :: "nat \<Rightarrow> 'a list \<Rightarrow> 'a list \<Rightarrow> bool" where
  nothing: "edits 0 [] []"
| keep: "edits n a b \<Longrightarrow> edits n (x # a) (x # b)"
| insert: "edits n a b \<Longrightarrow> edits (Suc n) a (y # b)"
| delete: "edits n a b \<Longrightarrow> edits (Suc n) (x # a) b"
| substitute: "edits n a b \<Longrightarrow> edits (Suc n) (x # a) (y # b)"

lemma edits_from_Nil: "edits (length b) [] b"
  by (induction b) (auto intro: edits.intros)

lemma edits_to_Nil: "edits (length a) a []"
  by (induction a) (auto intro: edits.intros)

lemma edits_append: "edits m a b \<Longrightarrow> edits n c d \<Longrightarrow> edits (m + n) (a @ c) (b @ d)"
  by (induction rule: edits.induct) (auto intro: edits.intros)

lemma edits_rev: "edits n a b \<Longrightarrow> edits n (rev a) (rev b)"
proof (induction rule: edits.induct)
  case (keep n a b x)
  have "edits 0 [x] [x]" by (auto intro: edits.intros)
  from edits_append[OF keep.IH this] show ?case by simp
next
  case (insert n a b y)
  from edits_append[OF insert.IH edits_from_Nil[of "[y]"]] show ?case by simp
next
  case (delete n a b x)
  from edits_append[OF delete.IH edits_to_Nil[of "[x]"]] show ?case by simp
next
  case (substitute n a b x y)
  have "edits (Suc 0) [x] [y]" by (auto intro: edits.intros)
  from edits_append[OF substitute.IH this] show ?case by simp
qed (auto intro: edits.intros)

text \<open>One element less on a side costs at most one edit more.\<close>

lemma edits_drop_target: "edits n a c \<Longrightarrow> c = y # b \<Longrightarrow> \<exists>m \<le> Suc n. edits m a b"
proof (induction arbitrary: b rule: edits.induct)
  case (delete n a c x)
  then obtain m where "m \<le> Suc n" "edits m a b" by blast
  then show ?case by (intro exI[of _ "Suc m"]) (auto intro: edits.intros)
qed (auto intro: edits.intros le_SucI)

lemma edits_drop_source: "edits n c b \<Longrightarrow> c = x # a \<Longrightarrow> \<exists>m \<le> Suc n. edits m a b"
proof (induction arbitrary: a rule: edits.induct)
  case (insert n c b y)
  then obtain m where "m \<le> Suc n" "edits m a b" by blast
  then show ?case by (intro exI[of _ "Suc m"]) (auto intro: edits.intros)
qed (auto intro: edits.intros le_SucI)

fun edit_distance :: "'a list \<Rightarrow> 'a list \<Rightarrow> nat" where
  "edit_distance [] b = length b"
| "edit_distance (x # a) [] = Suc (length a)"
| "edit_distance (x # a) (y # b) = min ((if x = y then 0 else 1) + edit_distance a b)
     (1 + min (edit_distance a (y # b)) (edit_distance (x # a) b))"

lemma edit_distance_Nil [simp]: "edit_distance a [] = length a"
  by (cases a) auto

lemma edits_distance: "edits (edit_distance a b) a b"
proof (induction a b rule: edit_distance.induct)
  case (1 b)
  then show ?case by (simp add: edits_from_Nil)
next
  case (2 x a)
  then show ?case using edits_to_Nil[of "x # a"] by simp
next
  case (3 x a y b)
  then show ?case by (auto simp: min_def intro: edits.intros)
qed

lemma distance_le_insert: "edit_distance a (y # b) \<le> Suc (edit_distance a b)"
  by (cases a) auto

lemma distance_le_delete: "edit_distance (x # a) b \<le> Suc (edit_distance a b)"
  by (cases b) auto

lemma distance_least: "edits n a b \<Longrightarrow> edit_distance a b \<le> n"
proof (induction rule: edits.induct)
  case (insert n a b y)
  then show ?case using distance_le_insert[of a y b] by linarith
next
  case (delete n a b x)
  then show ?case using distance_le_delete[of x a b] by linarith
qed auto

lemma distance_rev: "edit_distance (rev a) (rev b) = edit_distance a b"
proof -
  have "edit_distance (rev a) (rev b) \<le> edit_distance a b" for a b :: "'b list"
    by (rule distance_least[OF edits_rev[OF edits_distance]])
  from this[of a b] this[of "rev a" "rev b"] show ?thesis by simp
qed

text \<open>Keeping an element that both sides share is never worse.\<close>

lemma distance_keep: "edit_distance (x # a) (x # b) = edit_distance a b"
proof -
  from edits_drop_target[OF edits_distance[of a "x # b"]] obtain m where "m \<le> Suc (edit_distance a (x # b))" "edits m a b" by blast
  moreover from edits_drop_source[OF edits_distance[of "x # a" b]] obtain k where "k \<le> Suc (edit_distance (x # a) b)" "edits k a b" by blast
  ultimately show ?thesis using distance_least[of m a b] distance_least[of k a b] by simp
qed

lemma distance_self: "edit_distance a a = 0"
  by (induction a) (simp_all add: distance_keep del: edit_distance.simps(3))

lemma distance_differ:
  "x \<noteq> y \<Longrightarrow> edit_distance (x # a) (y # b)
     = 1 + min (edit_distance a b) (min (edit_distance a (y # b)) (edit_distance (x # a) b))"
  by simp


section \<open>The table\<close>

text \<open>A row: the distances of one text, reversed, to the beginnings of the other.\<close>

fun distance_row :: "'a list \<Rightarrow> 'a list \<Rightarrow> 'a list \<Rightarrow> nat list" where
  "distance_row a b [] = [edit_distance a b]"
| "distance_row a b (y # ys) = edit_distance a b # distance_row a (y # b) ys"

lemma distance_row_hd: "distance_row a b ys = edit_distance a b # tl (distance_row a b ys)"
  by (cases ys) auto

lemma lev_row_distance: "lev_row x ys (distance_row a b ys) (edit_distance (x # a) b) = tl (distance_row (x # a) b ys)"
proof (induction ys arbitrary: b)
  case (Cons y ys)
  have d: "(if x = y then edit_distance a b else 1 + min (edit_distance a b) (min (edit_distance a (y # b)) (edit_distance (x # a) b)))
      = edit_distance (x # a) (y # b)"
    using distance_keep[of x a b] distance_differ[of x y a b] by auto
  have r: "distance_row a (y # b) ys = edit_distance a (y # b) # tl (distance_row a (y # b) ys)" by (rule distance_row_hd)
  have "lev_row x (y # ys) (distance_row a b (y # ys)) (edit_distance (x # a) b)
      = edit_distance (x # a) (y # b) # lev_row x ys (distance_row a (y # b) ys) (edit_distance (x # a) (y # b))"
    unfolding distance_row.simps(2) by (subst (1 2) r) (simp only: lev_row.simps Let_def d)
  also have "\<dots> = edit_distance (x # a) (y # b) # tl (distance_row (x # a) (y # b) ys)" by (simp only: Cons.IH)
  also have "\<dots> = distance_row (x # a) (y # b) ys" by (rule distance_row_hd[symmetric])
  finally show ?case by simp
qed simp

lemma lev_rows_distance: "lev_rows (Suc (length a)) xs b (distance_row a [] b) = distance_row (rev xs @ a) [] b"
proof (induction xs arbitrary: a)
  case (Cons x xs)
  have "Suc (length a) # lev_row x b (distance_row a [] b) (Suc (length a)) = distance_row (x # a) [] b"
    using lev_row_distance[of x b a "[]"] distance_row_hd[of "x # a" "[]" b] by simp
  then show ?case using Cons.IH[of "x # a"] by simp
qed simp

lemma first_row: "[length b..<length b + length ys + 1] = distance_row [] b ys"
proof (induction ys arbitrary: b)
  case (Cons y ys)
  have "[length b..<length b + length (y # ys) + 1] = length b # [length (y # b)..<length (y # b) + length ys + 1]"
    by (simp add: upt_conv_Cons del: upt_Suc)
  with Cons.IH[of "y # b"] show ?case by simp
qed simp

lemma last_of_row: "distance_row a b ys ! length ys = edit_distance a (rev ys @ b)"
  by (induction ys arbitrary: b) auto

lemma levenshtein_distance: "levenshtein a b = edit_distance a b"
proof -
  have "lev_rows 1 a b [0..<length b + 1] = distance_row (rev a) [] b"
    using lev_rows_distance[of "[]" a b] first_row[of "[]" b] by simp
  then have "lev_rows 1 a b [0..<length b + 1] ! length b = edit_distance a b"
    by (simp only: last_of_row) (simp add: distance_rev)
  then show ?thesis unfolding levenshtein_def by (simp add: distance_self)
qed

text \<open>
  The distance the router computes row by row is the least number of insertions, deletions and
  substitutions that turn one word into the other.
\<close>

theorem levenshtein_least_edits:
  "edits (levenshtein a b) a b \<and> levenshtein a b = (LEAST n. edits n a b)"
proof
  show "edits (levenshtein a b) a b" by (simp add: levenshtein_distance edits_distance)
  show "levenshtein a b = (LEAST n. edits n a b)" unfolding levenshtein_distance
    by (rule Least_equality[symmetric]) (simp_all add: edits_distance distance_least)
qed



section \<open>Misspelt commands\<close>

definition close_names :: "string \<Rightarrow> string list \<Rightarrow> string list" where
  "close_names input names = filter (\<lambda>n. 0 < levenshtein (str_lower input) (str_lower n)) names"

definition best_so_far :: "('a \<Rightarrow> nat) \<Rightarrow> 'a list \<Rightarrow> ('a \<times> nat) option \<Rightarrow> bool" where
  "best_so_far f ns best \<longleftrightarrow> (case best of None \<Rightarrow> \<forall>m \<in> set ns. f m = 0
     | Some (n, d) \<Rightarrow> n \<in> set ns \<and> d = f n \<and> 0 < d \<and> (\<forall>m \<in> set ns. f m = 0 \<or> d \<le> f m))"

lemma best_so_far_step:
  assumes "best_so_far f ms best"
  shows "best_so_far f (ms @ [n]) (if 0 < f n \<and> (case best of None \<Rightarrow> True | Some (_, b) \<Rightarrow> f n < b) then Some (n, f n) else best)"
proof (cases best)
  case None
  with assms show ?thesis by (auto simp: best_so_far_def)
next
  case (Some e)
  then obtain k d where "best = Some (k, d)" by (cases e) auto
  with assms show ?thesis by (auto simp: best_so_far_def intro: less_imp_le order_trans)
qed

lemma closest_name_best:
  "best_so_far (\<lambda>n. levenshtein (str_lower input) (str_lower n)) ms best
    \<Longrightarrow> best_so_far (\<lambda>n. levenshtein (str_lower input) (str_lower n)) (ms @ ns) (closest_name input ns best)"
proof (induction ns arbitrary: ms best)
  case (Cons n ns)
  from Cons.IH[OF best_so_far_step[OF Cons.prems, of n]] show ?case by (simp add: Let_def)
qed simp

text \<open>
  A command no handler takes goes to a handler whose name is one or two edits away, and no other name
  that differs is closer; none is chosen only when no name is that close.
\<close>

theorem misspelt_goes_to_closest:
  "case fuzzy_match_command input names of
      Some n \<Rightarrow> n \<in> set (close_names input names) \<and> levenshtein (str_lower input) (str_lower n) \<le> 2
        \<and> filter (\<lambda>m. levenshtein (str_lower input) (str_lower m) < levenshtein (str_lower input) (str_lower n)) (close_names input names) = []
    | None \<Rightarrow> input = [] \<or> filter (\<lambda>m. levenshtein (str_lower input) (str_lower m) \<le> 2) (close_names input names) = []"
proof -
  have "best_so_far (\<lambda>n. levenshtein (str_lower input) (str_lower n)) names (closest_name input names None)"
    using closest_name_best[of input "[]" None names] by (simp add: best_so_far_def)
  then show ?thesis
    by (cases "closest_name input names None")
       (auto simp: fuzzy_match_command_def best_so_far_def close_names_def filter_empty_conv not_less not_le, force)
qed



section \<open>Long replies\<close>

lemma last_index_of_fits: "p \<noteq> [] \<Longrightarrow> 0 \<le> last_index_of p s \<Longrightarrow> last_index_of p s + int (length p) \<le> int (length s)"
proof (induction s)
  case (Cons c s)
  have "length p \<le> length (c # s)" if "starts_with p (c # s)" using that by (auto simp: starts_with_iff dest: arg_cong[of _ _ length])
  with Cons show ?case by (auto simp: Let_def split: if_splits)
qed simp

lemma split_point_bounds:
  assumes "1 \<le> n" and "n < int (length s)"
  shows "1 \<le> find_split_point s n \<and> find_split_point s n \<le> n"
proof -
  let ?w = "take (slice_at n s) s"
  have w: "int (length ?w) = n" using assms by (simp add: slice_at_def)
  have i: "i + 1 \<le> n" if "3 * n < 10 * i" "i = last_index_of p ?w" "p \<noteq> []" for i p
  proof -
    have "1 \<le> length p" using that(3) by (cases p) auto
    moreover have "0 \<le> last_index_of p ?w" using that(1,2) assms(1) by linarith
    ultimately show ?thesis using last_index_of_fits[OF that(3), of ?w] w that(2) by linarith
  qed
  show ?thesis unfolding find_split_point_def Let_def
    using assms(1) i[OF _ refl, of "[CHR 0x0A, CHR 0x0A]"] i[OF _ refl, of "[CHR 0x0A]"] i[OF _ refl, of "'' ''"] by auto
qed

definition inked :: "string \<Rightarrow> string" where
  "inked s = filter (\<lambda>c. \<not> is_ws c) s"

lemma inked_simps [simp]:
  "inked [] = []" "inked (a @ b) = inked a @ inked b" "inked (dropWhile is_ws s) = inked s" "inked (trim_end s) = inked s"
proof -
  show d: "inked (dropWhile is_ws s) = inked s" for s by (induction s) (auto simp: inked_def)
  have "inked (rev s) = rev (inked s)" for s by (simp add: inked_def rev_filter)
  then show "inked (trim_end s) = inked s" by (simp add: trim_end_def d)
qed (simp_all add: inked_def)

lemma inked_empty: "str_trim s = [] \<Longrightarrow> inked s = []"
  by (auto simp: inked_def str_trim_empty_iff filter_empty_conv)

lemma trim_end_length: "length (trim_end s) \<le> length s"
  by (metis length_dropWhile_le length_rev trim_end_def)

lemma split_loop_returns:
  assumes "1 \<le> n"
  shows "\<exists>cs. split_loop n s acc = Some (acc @ cs) \<and> inked (concat cs) = inked s \<and> (\<forall>c \<in> set cs. int (length c) \<le> n)"
proof (induction "length s" arbitrary: s acc rule: less_induct)
  case less
  show ?case
  proof (cases "n < int (length s)")
    case True
    let ?cut = "slice_at (find_split_point s n) s"
    note b = split_point_bounds[OF assms True]
    then have cut: "1 \<le> ?cut" "int ?cut \<le> n" by (auto simp: slice_at_def)
    have "length (dropWhile is_ws (drop ?cut s)) \<le> length s - ?cut" using length_dropWhile_le[of is_ws "drop ?cut s"] by simp
    then have "length (dropWhile is_ws (drop ?cut s)) < length s" using cut(1) True assms by linarith
    from less[OF this, of "acc @ [trim_end (take ?cut s)]"] obtain cs where
      cs: "split_loop n (dropWhile is_ws (drop ?cut s)) (acc @ [trim_end (take ?cut s)]) = Some ((acc @ [trim_end (take ?cut s)]) @ cs)"
        "inked (concat cs) = inked (drop ?cut s)" "\<forall>c \<in> set cs. int (length c) \<le> n" by auto
    have "int (length (trim_end (take ?cut s))) \<le> n" using trim_end_length[of "take ?cut s"] cut(2) by simp
    moreover have "inked (take ?cut s) @ inked (drop ?cut s) = inked s" by (simp add: inked_simps(2)[symmetric] del: inked_simps(2))
    ultimately show ?thesis using True cs
      by (subst split_loop.simps) (auto simp: Let_def intro!: exI[of _ "trim_end (take ?cut s) # cs"])
  next
    case False
    then have "int (length (trim_end s)) \<le> n" using trim_end_length[of s] by linarith
    with False show ?thesis
      by (subst split_loop.simps) (auto simp: inked_empty intro!: exI[of _ "if str_trim s = [] then [] else [trim_end s]"])
  qed
qed

text \<open>
  A reply is split into pieces that fit the limit, as long as the limit leaves room for a character:
  the splitting ends, and the pieces together have exactly the visible characters of the reply in order.
\<close>

theorem split_keeps_text:
  assumes "1 \<le> n"
  shows "\<exists>cs. split_markdown s n = Some cs \<and> inked (concat cs) = inked s \<and> (\<forall>c \<in> set cs. int (length c) \<le> n)"
  using split_loop_returns[OF assms, of s "[]"] assms by (auto simp: split_markdown_def)

theorem split_keeps_text_witness:
  "map_option (map length) (split_markdown ''one two three'' 8) = Some [7, 5]
   \<and> (\<exists>cs. split_markdown ''one two three'' 8 = Some cs \<and> inked (concat cs) = ''onetwothree'')"
proof
  have "split_loop 8 ''one two three'' [] = Some [''one two'', ''three'']"
    by (subst split_loop.simps, simp add: find_split_point_def slice_at_def Let_def trim_end_def is_ws_def)
       (subst split_loop.simps, simp add: trim_end_def is_ws_def str_trim_def)
  then show "map_option (map length) (split_markdown ''one two three'' 8) = Some [7, 5]" by (simp add: split_markdown_def)
  show "\<exists>cs. split_markdown ''one two three'' 8 = Some cs \<and> inked (concat cs) = ''onetwothree''"
    using split_keeps_text[of 8 "''one two three''"] by (auto simp: inked_def is_ws_def)
qed

text \<open>A mention that fills the limit leaves none, and the splitting never ends.\<close>

lemma split_without_room:
  assumes "s \<noteq> []" and "\<not> is_ws (hd s)"
  shows "split_markdown s 0 = None"
proof (rule ccontr)
  assume "split_markdown s 0 \<noteq> None"
  with assms obtain cs where run: "split_loop 0 s [] = Some cs" by (auto simp: split_markdown_def)
  have "\<not> ((0 :: int) = 0 \<and> s \<noteq> [] \<and> \<not> is_ws (hd s))"
  proof (rule split_loop.raw_induct[OF _ run, of "\<lambda>n s acc cs. \<not> (n = 0 \<and> s \<noteq> [] \<and> \<not> is_ws (hd s))"])
    fix f n s acc cs
    assume ih: "\<And>n s acc cs. f n s acc = Some cs \<Longrightarrow> \<not> (n = 0 \<and> s \<noteq> [] \<and> \<not> is_ws (hd s))"
      and body: "(if n < int (length s)
      then let cut = slice_at (find_split_point s n) s in f n (dropWhile is_ws (drop cut s)) (acc @ [trim_end (take cut s)])
      else Some (if str_trim s = [] then acc else acc @ [trim_end s])) = Some cs"
    show "\<not> (n = 0 \<and> s \<noteq> [] \<and> \<not> is_ws (hd s))"
    proof
      assume n: "n = 0 \<and> s \<noteq> [] \<and> \<not> is_ws (hd s)"
      then have "slice_at (find_split_point s 0) s = 0" by (simp add: find_split_point_def slice_at_def)
      moreover have "dropWhile is_ws s = s" using n by (cases s) auto
      ultimately have "f 0 s (acc @ [trim_end []]) = Some cs" using body n by (simp add: Let_def)
      from ih[OF this] n show False by simp
    qed
  qed
  with assms show False by simp
qed

end
