(* ===== verification/Kanban.thy ===== *)
theory Kanban
  imports Classifier Reconcile Commands "HOL-Library.Char_ord" "HOL-Library.List_Lexorder"
begin

text \<open>
  \<open>src/src/services/kanban-store.ts\<close>: boards of cards with comments, relations, activities, rules,
  templates and saved filters.

  Every table is the list of its rows in the order they were inserted; where a query leaves the order
  open, the rows come in that order. The constraints of the schema are checked where a statement is
  executed: primary keys, uniqueness, the lists of allowed words, and foreign keys with their cascades.
  A statement that breaks one raises \<open>ConstraintFailed\<close>, and a transaction is rolled back. Times are
  milliseconds, whose ISO texts compare the same way; a JSON column holds the value it encodes. An
  activity that is logged is stored and then emitted: \<open>kb_emitted\<close> holds the emitted ones in their
  order. Random identifiers come from a counter.
\<close>

section \<open>Rows\<close>

datatype kanban_error = BoardNotFound string | ConstraintFailed string

record kanban_column =
  kc_id :: string
  kc_name :: string
  kc_color :: string
  kc_wip :: "int option"

record board_row =
  bd_id :: string
  bd_name :: string
  bd_prefix :: string
  bd_next_seq :: nat
  bd_scope_type :: string
  bd_scope_id :: string
  bd_columns :: "kanban_column list"
  bd_created :: int
  bd_updated :: int

record card_row =
  ca_id :: string
  ca_seq :: nat
  ca_board :: string
  ca_title :: string
  ca_description :: string
  ca_column :: string
  ca_position :: int
  ca_priority :: string
  ca_labels :: "string list"
  ca_assignee :: "string option"
  ca_created_by :: string
  ca_task :: "string option"
  ca_due :: "string option"
  ca_metadata :: memory
  ca_created :: int
  ca_updated :: int

record comment_row =
  cm_id :: string
  cm_card :: string
  cm_author :: string
  cm_text :: string
  cm_created :: int

record relation_row =
  rl_id :: string
  rl_source :: string
  rl_target :: string
  rl_type :: string

record activity_row =
  av_id :: string
  av_card :: string
  av_board :: string
  av_actor :: string
  av_action :: string
  av_detail :: memory
  av_created :: int

record rule_row =
  ru_id :: string
  ru_board :: string
  ru_trigger :: string
  ru_condition :: memory
  ru_action :: string
  ru_params :: memory
  ru_enabled :: bool
  ru_created :: int

record template_row =
  tp_id :: string
  tp_name :: string
  tp_description :: string
  tp_columns :: "kanban_column list option"
  tp_cards :: "jsval list"
  tp_created :: int

record filter_row =
  fi_id :: string
  fi_board :: string
  fi_name :: string
  fi_criteria :: memory
  fi_created_by :: string
  fi_created :: int

record kanban =
  kb_boards :: "board_row list"
  kb_cards :: "card_row list"
  kb_comments :: "comment_row list"
  kb_relations :: "relation_row list"
  kb_activities :: "activity_row list"
  kb_rules :: "rule_row list"
  kb_templates :: "template_row list"
  kb_filters :: "filter_row list"
  kb_emitted :: "activity_row list"
  kb_uuids :: nat

definition kanban_new :: kanban where
  "kanban_new = \<lparr>kb_boards = [], kb_cards = [], kb_comments = [], kb_relations = [], kb_activities = [],
     kb_rules = [], kb_templates = [], kb_filters = [], kb_emitted = [], kb_uuids = 0\<rparr>"

definition uuid_of :: "nat \<Rightarrow> string" where
  "uuid_of n = ''uuid-'' @ nat_text n"

text \<open>A card with the number of its comments.\<close>

record kanban_card =
  kd_row :: card_row
  kd_comments :: nat


section \<open>Boards\<close>

definition default_columns :: "kanban_column list" where
  "default_columns =
     [\<lparr>kc_id = ''todo'', kc_name = ''TODO'', kc_color = ''#95a5a6'', kc_wip = None\<rparr>,
      \<lparr>kc_id = ''in_progress'', kc_name = ''In Progress'', kc_color = ''#3498db'', kc_wip = None\<rparr>,
      \<lparr>kc_id = ''in_review'', kc_name = ''In Review'', kc_color = ''#f39c12'', kc_wip = None\<rparr>,
      \<lparr>kc_id = ''done'', kc_name = ''Done'', kc_color = ''#27ae60'', kc_wip = None\<rparr>]"

definition ascii_alnum :: "char \<Rightarrow> bool" where
  "ascii_alnum c = (let n = of_char c :: nat in (48 \<le> n \<and> n \<le> 57) \<or> (65 \<le> n \<and> n \<le> 90) \<or> (97 \<le> n \<and> n \<le> 122))"

text \<open>\<open>split(/\s+/)\<close> of a text without white space at its ends: the empty text is one empty word.\<close>

fun ws_words :: "string \<Rightarrow> string \<Rightarrow> string list" where
  "ws_words cur [] = [rev cur]"
| "ws_words cur [c] = (if is_ws c then [rev cur, []] else [rev (c # cur)])"
| "ws_words cur (c # d # s) =
     (if is_ws c then (if is_ws d then ws_words cur (d # s) else rev cur # ws_words [] (d # s))
      else ws_words (c # cur) (d # s))"

definition derive_prefix :: "string \<Rightarrow> string" where
  "derive_prefix name =
     (let ws = ws_words [] (str_trim (filter (\<lambda>c. ascii_alnum c \<or> is_ws c) name))
      in if 2 \<le> length ws then take 4 (map upper_char (concat (map (take 1) ws)))
         else let p = take 3 (map upper_char (filter ascii_alnum name)) in if p = [] then ''KB'' else p)"

definition scope_types :: "string list" where
  "scope_types = [''channel'', ''session'', ''workflow'']"

definition create_board ::
  "int \<Rightarrow> string \<Rightarrow> string \<Rightarrow> string \<Rightarrow> kanban_column list option \<Rightarrow> kanban \<Rightarrow> (kanban_error + board_row) \<times> kanban" where
  "create_board now name scope_type scope_id columns k =
     (let b = \<lparr>bd_id = uuid_of (kb_uuids k), bd_name = name, bd_prefix = derive_prefix name, bd_next_seq = 1,
               bd_scope_type = scope_type, bd_scope_id = scope_id,
               bd_columns = (case columns of Some cs \<Rightarrow> cs | None \<Rightarrow> default_columns), bd_created = now, bd_updated = now\<rparr>;
          k = k\<lparr>kb_uuids := kb_uuids k + 1\<rparr>
      in if scope_type \<notin> set scope_types then (Inl (ConstraintFailed ''scope_type''), k)
         else if bd_id b \<in> set (map bd_id (kb_boards k)) then (Inl (ConstraintFailed ''board_id''), k)
         else if (scope_type, scope_id) \<in> set (map (\<lambda>b. (bd_scope_type b, bd_scope_id b)) (kb_boards k))
              then (Inl (ConstraintFailed ''scope''), k)
         else (Inr b, k\<lparr>kb_boards := kb_boards k @ [b]\<rparr>))"

definition get_board :: "string \<Rightarrow> kanban \<Rightarrow> board_row option" where
  "get_board bid k = find (\<lambda>b. bd_id b = bid) (kb_boards k)"

text \<open>An empty scope is no restriction, and a scope's name counts only with its type.\<close>

definition list_boards :: "string option \<Rightarrow> string option \<Rightarrow> kanban \<Rightarrow> board_row list" where
  "list_boards scope_type scope_id k =
     (let given = (\<lambda>x. case x of Some s \<Rightarrow> s \<noteq> [] | None \<Rightarrow> False);
          sel = (\<lambda>b. \<not> given scope_type
                   \<or> (Some (bd_scope_type b) = scope_type \<and> (\<not> given scope_id \<or> Some (bd_scope_id b) = scope_id)))
      in sort_key (\<lambda>b. - bd_updated b) (filter sel (kb_boards k)))"

definition update_board ::
  "int \<Rightarrow> string \<Rightarrow> string option \<Rightarrow> kanban_column list option \<Rightarrow> kanban \<Rightarrow> board_row option \<times> kanban" where
  "update_board now bid name columns k =
     (let k' = k\<lparr>kb_boards := map (\<lambda>b. if bd_id b = bid
           then b\<lparr>bd_updated := now,
                  bd_name := (case name of Some n \<Rightarrow> n | None \<Rightarrow> bd_name b),
                  bd_columns := (case columns of Some cs \<Rightarrow> cs | None \<Rightarrow> bd_columns b)\<rparr>
           else b) (kb_boards k)\<rparr>
      in (get_board bid k', k'))"

text \<open>What refers to cards that are deleted is deleted with them.\<close>

definition drop_cards :: "(card_row \<Rightarrow> bool) \<Rightarrow> kanban \<Rightarrow> kanban" where
  "drop_cards gone k =
     (let ids = map ca_id (filter gone (kb_cards k))
      in k\<lparr>kb_cards := filter (\<lambda>c. \<not> gone c) (kb_cards k),
           kb_comments := filter (\<lambda>m. cm_card m \<notin> set ids) (kb_comments k),
           kb_relations := filter (\<lambda>r. rl_source r \<notin> set ids \<and> rl_target r \<notin> set ids) (kb_relations k)\<rparr>)"

definition delete_board :: "string \<Rightarrow> kanban \<Rightarrow> bool \<times> kanban" where
  "delete_board bid k =
     (let k' = drop_cards (\<lambda>c. ca_board c = bid) k
      in (bid \<in> set (map bd_id (kb_boards k)),
          k'\<lparr>kb_boards := filter (\<lambda>b. bd_id b \<noteq> bid) (kb_boards k'),
             kb_rules := filter (\<lambda>r. ru_board r \<noteq> bid) (kb_rules k'),
             kb_filters := filter (\<lambda>f. fi_board f \<noteq> bid) (kb_filters k')\<rparr>))"


section \<open>Activities\<close>

definition log_activity :: "int \<Rightarrow> string \<Rightarrow> string \<Rightarrow> string \<Rightarrow> string \<Rightarrow> memory \<Rightarrow> kanban \<Rightarrow> kanban" where
  "log_activity now cid bid actor action detail k =
     (let a = \<lparr>av_id = uuid_of (kb_uuids k), av_card = cid, av_board = bid, av_actor = actor, av_action = action,
               av_detail = detail, av_created = now\<rparr>;
          k' = k\<lparr>kb_uuids := kb_uuids k + 1\<rparr>
      in if av_id a \<in> set (map av_id (kb_activities k)) then k'
         else k'\<lparr>kb_activities := kb_activities k @ [a], kb_emitted := kb_emitted k @ [a]\<rparr>)"

text \<open>A query without a limit, or with the limit 0, returns every row; so does a negative limit.\<close>

definition sql_limit :: "int option \<Rightarrow> 'a list \<Rightarrow> 'a list" where
  "sql_limit limit xs = (case limit of None \<Rightarrow> xs | Some n \<Rightarrow> if n \<le> 0 then xs else take (nat n) xs)"

definition list_activities :: "string option \<Rightarrow> string option \<Rightarrow> int option \<Rightarrow> kanban \<Rightarrow> activity_row list" where
  "list_activities cid bid limit k =
     (let given = (\<lambda>x. case x of Some s \<Rightarrow> s \<noteq> [] | None \<Rightarrow> False);
          sel = (\<lambda>a. (\<not> given cid \<or> Some (av_card a) = cid) \<and> (\<not> given bid \<or> Some (av_board a) = bid))
      in sql_limit limit (sort_key (\<lambda>a. - av_created a) (filter sel (kb_activities k))))"


section \<open>Cards\<close>

definition priorities :: "string list" where
  "priorities = [''urgent'', ''high'', ''medium'', ''low'', ''none'']"

definition relation_types :: "string list" where
  "relation_types = [''blocked_by'', ''blocks'', ''related_to'', ''parent_of'', ''child_of'']"

definition get_row :: "string \<Rightarrow> kanban \<Rightarrow> card_row option" where
  "get_row cid k = find (\<lambda>c. ca_id c = cid) (kb_cards k)"

definition comment_count :: "string \<Rightarrow> kanban \<Rightarrow> nat" where
  "comment_count cid k = length (filter (\<lambda>m. cm_card m = cid) (kb_comments k))"

definition with_count :: "kanban \<Rightarrow> card_row \<Rightarrow> kanban_card" where
  "with_count k c = \<lparr>kd_row = c, kd_comments = comment_count (ca_id c) k\<rparr>"

definition get_card :: "string \<Rightarrow> kanban \<Rightarrow> kanban_card option" where
  "get_card cid k = map_option (with_count k) (get_row cid k)"

definition max_position :: "string \<Rightarrow> string \<Rightarrow> kanban \<Rightarrow> int" where
  "max_position bid col k =
     (case map ca_position (filter (\<lambda>c. ca_board c = bid \<and> ca_column c = col) (kb_cards k)) of
        [] \<Rightarrow> -1 | p # ps \<Rightarrow> fold max ps p)"

text \<open>Inserting a relation between cards that have to exist.\<close>

definition insert_relation :: "string \<Rightarrow> string \<Rightarrow> string \<Rightarrow> kanban \<Rightarrow> (kanban_error + string) \<times> kanban" where
  "insert_relation src tgt ty k =
     (let r = \<lparr>rl_id = uuid_of (kb_uuids k), rl_source = src, rl_target = tgt, rl_type = ty\<rparr>;
          k = k\<lparr>kb_uuids := kb_uuids k + 1\<rparr>
      in if ty \<notin> set relation_types then (Inl (ConstraintFailed ''type''), k)
         else if rl_id r \<in> set (map rl_id (kb_relations k)) then (Inl (ConstraintFailed ''relation_id''), k)
         else if (src, tgt, ty) \<in> set (map (\<lambda>r. (rl_source r, rl_target r, rl_type r)) (kb_relations k))
              then (Inl (ConstraintFailed ''relation''), k)
         else if src \<notin> set (map ca_id (kb_cards k)) \<or> tgt \<notin> set (map ca_id (kb_cards k))
              then (Inl (ConstraintFailed ''card''), k)
         else (Inr (rl_id r), k\<lparr>kb_relations := kb_relations k @ [r]\<rparr>))"

record card_input =
  ci_board :: string
  ci_title :: string
  ci_description :: "string option"
  ci_column :: "string option"
  ci_priority :: "string option"
  ci_labels :: "string list option"
  ci_assignee :: "string option"
  ci_created_by :: string
  ci_parent :: "string option"
  ci_task :: "string option"
  ci_due :: "string option"
  ci_metadata :: "memory option"

definition given_or :: "'a \<Rightarrow> 'a option \<Rightarrow> 'a" where
  "given_or d x = (case x of Some v \<Rightarrow> v | None \<Rightarrow> d)"

text \<open>The row a new card is stored as.\<close>

definition new_card_row :: "int \<Rightarrow> card_input \<Rightarrow> board_row \<Rightarrow> kanban \<Rightarrow> card_row" where
  "new_card_row now inp b k =
     (let col = given_or ''todo'' (ci_column inp)
      in \<lparr>ca_id = bd_prefix b @ ''-'' @ nat_text (bd_next_seq b), ca_seq = bd_next_seq b, ca_board = ci_board inp,
          ca_title = ci_title inp, ca_description = given_or [] (ci_description inp), ca_column = col,
          ca_position = max_position (ci_board inp) col k + 1, ca_priority = given_or ''none'' (ci_priority inp),
          ca_labels = given_or [] (ci_labels inp), ca_assignee = ci_assignee inp, ca_created_by = ci_created_by inp,
          ca_task = ci_task inp, ca_due = ci_due inp, ca_metadata = given_or [] (ci_metadata inp),
          ca_created = now, ca_updated = now\<rparr>)"

text \<open>The two relations of a card with the parent it is given.\<close>

definition link_parent :: "string \<Rightarrow> string option \<Rightarrow> kanban \<Rightarrow> (kanban_error + string) \<times> kanban" where
  "link_parent cid parent k =
     (case parent of
       None \<Rightarrow> (Inr cid, k)
     | Some p \<Rightarrow> if p = [] then (Inr cid, k) else
         (case insert_relation p cid ''parent_of'' k of
           (Inl e, k') \<Rightarrow> (Inl e, k')
         | (Inr _, k') \<Rightarrow> insert_relation cid p ''child_of'' k'))"

definition count_card :: "int \<Rightarrow> string \<Rightarrow> board_row \<Rightarrow> board_row" where
  "count_card now bid x = (if bd_id x = bid then x\<lparr>bd_next_seq := bd_next_seq x + 1, bd_updated := now\<rparr> else x)"

definition insert_card :: "int \<Rightarrow> card_input \<Rightarrow> kanban \<Rightarrow> (kanban_error + card_row) \<times> kanban" where
  "insert_card now inp k =
     (case get_board (ci_board inp) k of
       None \<Rightarrow> (Inl (BoardNotFound (ci_board inp)), k)
     | Some b \<Rightarrow>
         let k1 = k\<lparr>kb_boards := map (count_card now (ci_board inp)) (kb_boards k)\<rparr>;
             c = new_card_row now inp b k
         in if ca_priority c \<notin> set priorities then (Inl (ConstraintFailed ''priority''), k)
            else if ca_id c \<in> set (map ca_id (kb_cards k)) then (Inl (ConstraintFailed ''card_id''), k)
            else (case link_parent (ca_id c) (ci_parent inp) (k1\<lparr>kb_cards := kb_cards k @ [c]\<rparr>) of
                   (Inl e, k3) \<Rightarrow> (Inl e, k\<lparr>kb_uuids := kb_uuids k3\<rparr>)
                 | (Inr _, k3) \<Rightarrow> (Inr c, k3)))"

text \<open>The card that is handed back is built from the input: its position is always 0.\<close>

definition create_card :: "int \<Rightarrow> card_input \<Rightarrow> kanban \<Rightarrow> (kanban_error + kanban_card) \<times> kanban" where
  "create_card now inp k =
     (case insert_card now inp k of
       (Inl e, k') \<Rightarrow> (Inl e, k')
     | (Inr c, k') \<Rightarrow>
         (Inr \<lparr>kd_row = c\<lparr>ca_position := 0\<rparr>, kd_comments = 0\<rparr>,
          log_activity now (ca_id c) (ci_board inp) (ci_created_by inp) ''created''
            [(''title'', JStr (ci_title inp)), (''column_id'', JStr (ca_column c))] k'))"

definition list_cards :: "string \<Rightarrow> string option \<Rightarrow> int option \<Rightarrow> string option \<Rightarrow> kanban \<Rightarrow> kanban_card list" where
  "list_cards bid col limit assignee k =
     (let given = (\<lambda>x. case x of Some s \<Rightarrow> s \<noteq> [] | None \<Rightarrow> False);
          sel = (\<lambda>c. ca_board c = bid \<and> (\<not> given col \<or> Some (ca_column c) = col)
                   \<and> (\<not> given assignee \<or> ca_assignee c = assignee))
      in sql_limit limit (map (with_count k)
           (sort_key ca_column (sort_key ca_position (filter sel (kb_cards k))))))"

text \<open>Making room at a position of a column, and putting a card there.\<close>

definition shift_from :: "string \<Rightarrow> string \<Rightarrow> int \<Rightarrow> card_row \<Rightarrow> card_row" where
  "shift_from bid col pos c =
     (if ca_board c = bid \<and> ca_column c = col \<and> pos \<le> ca_position c then c\<lparr>ca_position := ca_position c + 1\<rparr> else c)"

definition place_card :: "int \<Rightarrow> string \<Rightarrow> string \<Rightarrow> int \<Rightarrow> card_row \<Rightarrow> card_row" where
  "place_card now cid col pos c =
     (if ca_id c = cid then c\<lparr>ca_column := col, ca_position := pos, ca_updated := now\<rparr> else c)"

definition move_card ::
  "int \<Rightarrow> string \<Rightarrow> string \<Rightarrow> int option \<Rightarrow> string option \<Rightarrow> kanban \<Rightarrow> kanban_card option \<times> kanban" where
  "move_card now cid col position actor k =
     (case get_row cid k of
       None \<Rightarrow> (get_card cid k, k)
     | Some c \<Rightarrow>
         let pos = given_or (max_position (ca_board c) col k + 1) position;
             k1 = k\<lparr>kb_cards := map (place_card now cid col pos) (map (shift_from (ca_board c) col pos) (kb_cards k))\<rparr>;
             who = (case actor of Some a \<Rightarrow> if a = [] then ''system'' else a | None \<Rightarrow> ''system'');
             k2 = log_activity now cid (ca_board c) who ''moved''
                    [(''from'', JStr (ca_column c)), (''to'', JStr col)] k1
         in (get_card cid k2, k2))"


record card_updates =
  cu_title :: "string option"
  cu_description :: "string option"
  cu_priority :: "string option"
  cu_labels :: "string list option"
  cu_assignee :: "string option option"
  cu_metadata :: "memory option"
  cu_task :: "string option option"
  cu_due :: "string option option"
  cu_actor :: "string option"

definition no_updates :: card_updates where
  "no_updates = \<lparr>cu_title = None, cu_description = None, cu_priority = None, cu_labels = None, cu_assignee = None,
     cu_metadata = None, cu_task = None, cu_due = None, cu_actor = None\<rparr>"

definition apply_updates :: "int \<Rightarrow> card_updates \<Rightarrow> card_row \<Rightarrow> card_row" where
  "apply_updates now u c = c\<lparr>ca_updated := now,
     ca_title := given_or (ca_title c) (cu_title u), ca_description := given_or (ca_description c) (cu_description u),
     ca_priority := given_or (ca_priority c) (cu_priority u), ca_labels := given_or (ca_labels c) (cu_labels u),
     ca_assignee := given_or (ca_assignee c) (cu_assignee u), ca_task := given_or (ca_task c) (cu_task u),
     ca_due := given_or (ca_due c) (cu_due u), ca_metadata := given_or (ca_metadata c) (cu_metadata u)\<rparr>"

definition null_or_text :: "string option \<Rightarrow> jsval" where
  "null_or_text x = (case x of Some s \<Rightarrow> JStr s | None \<Rightarrow> JNull)"

definition update_detail :: "card_updates \<Rightarrow> memory" where
  "update_detail u =
     (case cu_priority u of Some p \<Rightarrow> [(''priority'', JStr p)] | None \<Rightarrow> []) @
     (case cu_assignee u of Some a \<Rightarrow> [(''assignee'', null_or_text a)] | None \<Rightarrow> []) @
     (case cu_labels u of Some ls \<Rightarrow> [(''labels'', JArr (map JStr ls))] | None \<Rightarrow> []) @
     (case cu_due u of Some d \<Rightarrow> [(''due_date'', null_or_text d)] | None \<Rightarrow> [])"

definition update_action :: "card_updates \<Rightarrow> string" where
  "update_action u =
     (if cu_due u \<noteq> None then ''due_date_set'' else if cu_priority u \<noteq> None then ''priority_changed''
      else if cu_assignee u \<noteq> None then ''assigned'' else if cu_labels u \<noteq> None then ''labels_changed'' else ''updated'')"

definition update_card :: "int \<Rightarrow> string \<Rightarrow> card_updates \<Rightarrow> kanban \<Rightarrow> (kanban_error + kanban_card option) \<times> kanban" where
  "update_card now cid u k =
     (case get_row cid k of
       None \<Rightarrow> (Inr (get_card cid k), k)
     | Some c \<Rightarrow>
         if ca_priority (apply_updates now u c) \<notin> set priorities then (Inl (ConstraintFailed ''priority''), k)
         else let k1 = k\<lparr>kb_cards := map (\<lambda>x. if ca_id x = cid then apply_updates now u x else x) (kb_cards k)\<rparr>;
                  who = (case cu_actor u of Some a \<Rightarrow> if a = [] then ''system'' else a | None \<Rightarrow> ''system'');
                  k2 = (if ca_board c = [] then k1
                        else log_activity now cid (ca_board c) who (update_action u) (update_detail u) k1)
              in (Inr (get_card cid k2), k2))"

definition delete_card :: "int \<Rightarrow> string \<Rightarrow> kanban \<Rightarrow> bool \<times> kanban" where
  "delete_card now cid k =
     (case get_row cid k of
       None \<Rightarrow> (False, k)
     | Some c \<Rightarrow> (True, log_activity now cid (ca_board c) ''system'' ''archived'' [(''title'', JStr (ca_title c))]
                       (drop_cards (\<lambda>x. ca_id x = cid) k)))"


section \<open>Comments and relations\<close>

definition add_comment :: "int \<Rightarrow> string \<Rightarrow> string \<Rightarrow> string \<Rightarrow> kanban \<Rightarrow> (kanban_error + comment_row) \<times> kanban" where
  "add_comment now cid author body k =
     (let m = \<lparr>cm_id = uuid_of (kb_uuids k), cm_card = cid, cm_author = author, cm_text = body, cm_created = now\<rparr>;
          k0 = k\<lparr>kb_uuids := kb_uuids k + 1\<rparr>
      in if cm_id m \<in> set (map cm_id (kb_comments k)) then (Inl (ConstraintFailed ''comment_id''), k0)
         else (case get_row cid k of
           None \<Rightarrow> (Inl (ConstraintFailed ''card''), k0)
         | Some c \<Rightarrow>
             let k1 = k0\<lparr>kb_comments := kb_comments k @ [m],
                         kb_cards := map (\<lambda>x. if ca_id x = cid then x\<lparr>ca_updated := now\<rparr> else x) (kb_cards k)\<rparr>
             in (Inr m, if ca_board c = [] then k1
                        else log_activity now cid (ca_board c) author ''commented'' [(''text'', JStr (take 100 body))] k1)))"

definition list_comments :: "string \<Rightarrow> int option \<Rightarrow> kanban \<Rightarrow> comment_row list" where
  "list_comments cid limit k = sql_limit limit (sort_key cm_created (filter (\<lambda>m. cm_card m = cid) (kb_comments k)))"

text \<open>
  \<open>INSERT OR IGNORE\<close>: a row that breaks a check or a uniqueness is left out without an error, a missing
  card is one. What is handed back and logged is the row that was meant.
\<close>

definition add_relation :: "int \<Rightarrow> string \<Rightarrow> string \<Rightarrow> string \<Rightarrow> kanban \<Rightarrow> (kanban_error + relation_row) \<times> kanban" where
  "add_relation now src tgt ty k =
     (let r = \<lparr>rl_id = uuid_of (kb_uuids k), rl_source = src, rl_target = tgt, rl_type = ty\<rparr>;
          logged = (\<lambda>k. case get_row src k of
             None \<Rightarrow> k
           | Some c \<Rightarrow> if ca_board c = [] then k
               else log_activity now src (ca_board c) ''system'' ''relation_added'' [(''target'', JStr tgt), (''type'', JStr ty)] k)
      in case insert_relation src tgt ty k of
           (Inr _, k') \<Rightarrow> (Inr r, logged k')
         | (Inl e, k') \<Rightarrow> if e = ConstraintFailed ''card'' then (Inl e, k') else (Inr r, logged k'))"

definition remove_relation :: "int \<Rightarrow> string \<Rightarrow> kanban \<Rightarrow> bool \<times> kanban" where
  "remove_relation now rid k =
     (case find (\<lambda>r. rl_id r = rid) (kb_relations k) of
       None \<Rightarrow> (False, k)
     | Some r \<Rightarrow>
         let k1 = k\<lparr>kb_relations := filter (\<lambda>x. rl_id x \<noteq> rid) (kb_relations k)\<rparr>
         in (True, case get_row (rl_source r) k1 of
              None \<Rightarrow> k1
            | Some c \<Rightarrow> if ca_board c = [] then k1
                else log_activity now (rl_source r) (ca_board c) ''system'' ''relation_removed''
                       [(''target'', JStr (rl_target r)), (''type'', JStr (rl_type r))] k1))"

definition list_relations :: "string \<Rightarrow> kanban \<Rightarrow> relation_row list" where
  "list_relations cid k = filter (\<lambda>r. rl_source r = cid \<or> rl_target r = cid) (kb_relations k)"


section \<open>Views of a board\<close>

definition get_subtasks :: "string \<Rightarrow> kanban \<Rightarrow> kanban_card list" where
  "get_subtasks parent k =
     map (with_count k) (sort_key ca_seq
       (concat (map (\<lambda>r. filter (\<lambda>c. ca_id c = rl_target r) (kb_cards k))
         (filter (\<lambda>r. rl_source r = parent \<and> rl_type r = ''parent_of'') (kb_relations k)))))"

definition get_participants :: "string \<Rightarrow> kanban \<Rightarrow> string list" where
  "get_participants cid k =
     (case get_row cid k of
       None \<Rightarrow> []
     | Some c \<Rightarrow> uniq (ca_created_by c # (case ca_assignee c of Some a \<Rightarrow> if a = [] then [] else [a] | None \<Rightarrow> [])
                        @ map cm_author (filter (\<lambda>m. cm_card m = cid) (kb_comments k))))"

text \<open>Grouping and counting, in the order in which the groups first occur.\<close>

definition group_counts :: "('a \<Rightarrow> 'k) \<Rightarrow> 'a list \<Rightarrow> ('k, nat) jmap" where
  "group_counts f xs = map (\<lambda>k. (k, length (filter (\<lambda>x. f x = k) xs))) (uniq (map f xs))"

definition get_subtask_counts :: "string \<Rightarrow> kanban \<Rightarrow> (string, nat \<times> nat) jmap" where
  "get_subtask_counts bid k =
     (let rows = concat (map (\<lambda>r. map (\<lambda>c. (rl_source r, ca_column c))
                   (filter (\<lambda>c. ca_id c = rl_target r \<and> ca_board c = bid) (kb_cards k)))
                 (filter (\<lambda>r. rl_type r = ''parent_of'') (kb_relations k)))
      in map (\<lambda>p. (p, length (filter (\<lambda>x. fst x = p) rows),
                    length (filter (\<lambda>x. fst x = p \<and> snd x = ''done'') rows)))
           (uniq (map fst rows)))"

definition board_cards :: "string \<Rightarrow> kanban \<Rightarrow> card_row list" where
  "board_cards bid k = filter (\<lambda>c. ca_board c = bid) (kb_cards k)"

definition column_counts :: "string \<Rightarrow> kanban \<Rightarrow> (string, nat) jmap" where
  "column_counts bid k = group_counts ca_column (board_cards bid k)"

record board_summary =
  bs_name :: string
  bs_columns :: "(kanban_column \<times> nat) list"
  bs_total :: nat
  bs_done :: nat
  bs_blockers :: "(string \<times> string \<times> string list) list"
  bs_overdue :: "(string \<times> string \<times> string \<times> string) list"

definition blocked_by :: "card_row \<Rightarrow> kanban \<Rightarrow> string list" where
  "blocked_by c k = map rl_target (filter (\<lambda>r. rl_source r = ca_id c \<and> rl_type r = ''blocked_by'') (kb_relations k))"

text \<open>The identifiers of blocking cards are joined with commas by the query and split again.\<close>

definition summary_of :: "string \<Rightarrow> string \<Rightarrow> kanban \<Rightarrow> board_summary option" where
  "summary_of today bid k =
     (case get_board bid k of
       None \<Rightarrow> None
     | Some b \<Rightarrow>
         let counts = column_counts bid k;
             cs = filter (\<lambda>c. ca_column c \<noteq> ''done'') (board_cards bid k)
         in Some \<lparr>bs_name = bd_name b,
              bs_columns = map (\<lambda>col. (col, given_or 0 (jget counts (kc_id col)))) (bd_columns b),
              bs_total = sum_list (map snd counts),
              bs_done = given_or 0 (jget counts ''done''),
              bs_blockers = map (\<lambda>c. (ca_id c, ca_title c,
                  split_on (\<lambda>x. x = CHR '','') (str_join '','' (blocked_by c k))))
                (filter (\<lambda>c. blocked_by c k \<noteq> []) cs),
              bs_overdue = map (\<lambda>c. (ca_id c, ca_title c, given_or [] (ca_due c), ca_column c))
                (sort_key (\<lambda>c. given_or [] (ca_due c))
                  (filter (\<lambda>c. case ca_due c of Some d \<Rightarrow> d < today | None \<Rightarrow> False) cs))\<rparr>)"


section \<open>Rules, templates and filters\<close>

definition rule_triggers :: "string list" where
  "rule_triggers = [''card_moved'', ''subtasks_done'', ''card_stale'']"

definition rule_actions :: "string list" where
  "rule_actions = [''move_card'', ''assign'', ''add_label'', ''comment'', ''run_workflow'', ''create_task'']"

definition add_rule ::
  "int \<Rightarrow> string \<Rightarrow> string \<Rightarrow> memory \<Rightarrow> string \<Rightarrow> memory \<Rightarrow> kanban \<Rightarrow> (kanban_error + rule_row) \<times> kanban" where
  "add_rule now bid trigger condition action params k =
     (let r = \<lparr>ru_id = uuid_of (kb_uuids k), ru_board = bid, ru_trigger = trigger, ru_condition = condition,
               ru_action = action, ru_params = params, ru_enabled = True, ru_created = now\<rparr>;
          k = k\<lparr>kb_uuids := kb_uuids k + 1\<rparr>
      in if trigger \<notin> set rule_triggers then (Inl (ConstraintFailed ''trigger''), k)
         else if action \<notin> set rule_actions then (Inl (ConstraintFailed ''action_type''), k)
         else if ru_id r \<in> set (map ru_id (kb_rules k)) then (Inl (ConstraintFailed ''rule_id''), k)
         else if bid \<notin> set (map bd_id (kb_boards k)) then (Inl (ConstraintFailed ''board_id''), k)
         else (Inr r, k\<lparr>kb_rules := kb_rules k @ [r]\<rparr>))"

definition list_rules :: "string \<Rightarrow> kanban \<Rightarrow> rule_row list" where
  "list_rules bid k = sort_key ru_created (filter (\<lambda>r. ru_board r = bid) (kb_rules k))"

definition edit_rule :: "bool option \<Rightarrow> memory option \<Rightarrow> memory option \<Rightarrow> rule_row \<Rightarrow> rule_row" where
  "edit_rule enabled condition params r =
     r\<lparr>ru_enabled := given_or (ru_enabled r) enabled, ru_condition := given_or (ru_condition r) condition,
       ru_params := given_or (ru_params r) params\<rparr>"

definition update_rule ::
  "string \<Rightarrow> bool option \<Rightarrow> memory option \<Rightarrow> memory option \<Rightarrow> kanban \<Rightarrow> rule_row option \<times> kanban" where
  "update_rule rid enabled condition params k =
     (let k' = k\<lparr>kb_rules := map (\<lambda>r. if ru_id r = rid then edit_rule enabled condition params r else r) (kb_rules k)\<rparr>
      in (find (\<lambda>r. ru_id r = rid) (kb_rules k'), k'))"

definition remove_rule :: "string \<Rightarrow> kanban \<Rightarrow> bool \<times> kanban" where
  "remove_rule rid k =
     (rid \<in> set (map ru_id (kb_rules k)), k\<lparr>kb_rules := filter (\<lambda>r. ru_id r \<noteq> rid) (kb_rules k)\<rparr>)"

definition rules_by_trigger :: "string \<Rightarrow> string \<Rightarrow> kanban \<Rightarrow> rule_row list" where
  "rules_by_trigger bid trigger k =
     sort_key ru_created (filter (\<lambda>r. ru_board r = bid \<and> ru_trigger r = trigger \<and> ru_enabled r) (kb_rules k))"

definition create_template ::
  "int \<Rightarrow> string \<Rightarrow> string option \<Rightarrow> kanban_column list option \<Rightarrow> jsval list \<Rightarrow> kanban
     \<Rightarrow> (kanban_error + template_row) \<times> kanban" where
  "create_template now name description columns cards k =
     (let t = \<lparr>tp_id = uuid_of (kb_uuids k), tp_name = name, tp_description = given_or [] description,
               tp_columns = columns, tp_cards = cards, tp_created = now\<rparr>;
          k = k\<lparr>kb_uuids := kb_uuids k + 1\<rparr>
      in if tp_id t \<in> set (map tp_id (kb_templates k)) then (Inl (ConstraintFailed ''template_id''), k)
         else if name \<in> set (map tp_name (kb_templates k)) then (Inl (ConstraintFailed ''name''), k)
         else (Inr t, k\<lparr>kb_templates := kb_templates k @ [t]\<rparr>))"

definition list_templates :: "kanban \<Rightarrow> template_row list" where
  "list_templates k = sort_key tp_name (kb_templates k)"

definition get_template :: "string \<Rightarrow> kanban \<Rightarrow> template_row option" where
  "get_template key k = find (\<lambda>t. tp_id t = key \<or> tp_name t = key) (kb_templates k)"

definition delete_template :: "string \<Rightarrow> kanban \<Rightarrow> bool \<times> kanban" where
  "delete_template tid k =
     (tid \<in> set (map tp_id (kb_templates k)), k\<lparr>kb_templates := filter (\<lambda>t. tp_id t \<noteq> tid) (kb_templates k)\<rparr>)"

definition save_filter ::
  "int \<Rightarrow> string \<Rightarrow> string \<Rightarrow> memory \<Rightarrow> string option \<Rightarrow> kanban \<Rightarrow> (kanban_error + filter_row) \<times> kanban" where
  "save_filter now bid name criteria created_by k =
     (let f = \<lparr>fi_id = uuid_of (kb_uuids k), fi_board = bid, fi_name = name, fi_criteria = criteria,
               fi_created_by = given_or ''user:dashboard'' created_by, fi_created = now\<rparr>;
          k = k\<lparr>kb_uuids := kb_uuids k + 1\<rparr>
      in if fi_id f \<in> set (map fi_id (kb_filters k)) then (Inl (ConstraintFailed ''filter_id''), k)
         else if (bid, name) \<in> set (map (\<lambda>f. (fi_board f, fi_name f)) (kb_filters k)) then (Inl (ConstraintFailed ''name''), k)
         else if bid \<notin> set (map bd_id (kb_boards k)) then (Inl (ConstraintFailed ''board_id''), k)
         else (Inr f, k\<lparr>kb_filters := kb_filters k @ [f]\<rparr>))"

definition list_filters :: "string \<Rightarrow> kanban \<Rightarrow> filter_row list" where
  "list_filters bid k = sort_key fi_name (filter (\<lambda>f. fi_board f = bid) (kb_filters k))"

definition delete_filter :: "string \<Rightarrow> kanban \<Rightarrow> bool \<times> kanban" where
  "delete_filter fid k =
     (fid \<in> set (map fi_id (kb_filters k)), k\<lparr>kb_filters := filter (\<lambda>f. fi_id f \<noteq> fid) (kb_filters k)\<rparr>)"


section \<open>Every operation that writes\<close>

datatype kanban_op =
    CreateBoard int string string string "kanban_column list option"
  | UpdateBoard int string "string option" "kanban_column list option"
  | DeleteBoard string
  | CreateCard int card_input
  | MoveCard int string string "int option" "string option"
  | UpdateCard int string card_updates
  | DeleteCard int string
  | AddComment int string string string
  | AddRelation int string string string
  | RemoveRelation int string
  | LogActivity int string string string string memory
  | AddRule int string string memory string memory
  | UpdateRule string "bool option" "memory option" "memory option"
  | RemoveRule string
  | CreateTemplate int string "string option" "kanban_column list option" "jsval list"
  | DeleteTemplate string
  | SaveFilter int string string memory "string option"
  | DeleteFilter string

fun kanban_step :: "kanban_op \<Rightarrow> kanban \<Rightarrow> kanban" where
  "kanban_step (CreateBoard now n st si cs) k = snd (create_board now n st si cs k)"
| "kanban_step (UpdateBoard now b n cs) k = snd (update_board now b n cs k)"
| "kanban_step (DeleteBoard b) k = snd (delete_board b k)"
| "kanban_step (CreateCard now inp) k = snd (create_card now inp k)"
| "kanban_step (MoveCard now c col p a) k = snd (move_card now c col p a k)"
| "kanban_step (UpdateCard now c u) k = snd (update_card now c u k)"
| "kanban_step (DeleteCard now c) k = snd (delete_card now c k)"
| "kanban_step (AddComment now c a t) k = snd (add_comment now c a t k)"
| "kanban_step (AddRelation now s t ty) k = snd (add_relation now s t ty k)"
| "kanban_step (RemoveRelation now r) k = snd (remove_relation now r k)"
| "kanban_step (LogActivity now c b a act d) k = log_activity now c b a act d k"
| "kanban_step (AddRule now b t c a p) k = snd (add_rule now b t c a p k)"
| "kanban_step (UpdateRule r e c p) k = snd (update_rule r e c p k)"
| "kanban_step (RemoveRule r) k = snd (remove_rule r k)"
| "kanban_step (CreateTemplate now n d cs xs) k = snd (create_template now n d cs xs k)"
| "kanban_step (DeleteTemplate t) k = snd (delete_template t k)"
| "kanban_step (SaveFilter now b n c who) k = snd (save_filter now b n c who k)"
| "kanban_step (DeleteFilter f) k = snd (delete_filter f k)"

end
