(* ===== verification/KanbanViews.thy ===== *)
theory KanbanViews
  imports Kanban
begin

text \<open>
  The other views of \<open>src/src/services/kanban-store.ts\<close>: metrics of a board, the time a card spent in
  its columns, and the search. Hours are exact; what is rounded to hundredths of an hour is the number of
  hundredths. The week of a time is an argument.
\<close>

section \<open>Metrics\<close>

definition went_done :: "activity_row \<Rightarrow> bool" where
  "went_done a \<longleftrightarrow> av_action a = ''moved'' \<and> jget (av_detail a) ''to'' = Some (JStr ''done'')"

definition js_hundredths :: "rat \<Rightarrow> int" where
  "js_hundredths x = floor (x + 1 / 2)"

record board_metrics =
  bm_period :: int
  bm_throughput :: nat
  bm_cycle_hundredths :: int
  bm_by_column :: "(string, nat) jmap"
  bm_by_priority :: "(string, nat) jmap"
  bm_velocity :: "(string \<times> nat) list"

definition done_since :: "string \<Rightarrow> int \<Rightarrow> kanban \<Rightarrow> activity_row list" where
  "done_since bid since k = filter (\<lambda>a. av_board a = bid \<and> went_done a \<and> since \<le> av_created a) (kb_activities k)"

text \<open>From the creation of a card to each of its moves to the done column, in milliseconds.\<close>

definition cycle_times :: "string \<Rightarrow> int \<Rightarrow> kanban \<Rightarrow> int list" where
  "cycle_times bid since k =
     concat (map (\<lambda>a. map (\<lambda>c. av_created a - ca_created c) (filter (\<lambda>c. ca_id c = av_card a) (kb_cards k)))
       (done_since bid since k))"

definition ceil_div :: "int \<Rightarrow> int \<Rightarrow> int" where
  "ceil_div a b = - ((- a) div b)"

definition metrics_of :: "(int \<Rightarrow> string) \<Rightarrow> int \<Rightarrow> int \<Rightarrow> string \<Rightarrow> kanban \<Rightarrow> board_metrics option" where
  "metrics_of week now days bid k =
     (case get_board bid k of
       None \<Rightarrow> None
     | Some _ \<Rightarrow>
         let since = now - days * 86400000;
             moves = done_since bid since k;
             times = cycle_times bid since k;
             weeks = ceil_div days 7;
             velocity = sort_key fst (map (\<lambda>w. (w, length (uniq (map av_card (filter (\<lambda>a. week (av_created a) = w) moves)))))
               (uniq (map (\<lambda>a. week (av_created a)) moves)))
         in Some \<lparr>bm_period = days,
              bm_throughput = length (uniq (map av_card moves)),
              bm_cycle_hundredths = (if times = [] then 0
                else js_hundredths (of_int (sum_list times) / of_nat (length times) / 36000)),
              bm_by_column = column_counts bid k,
              bm_by_priority = group_counts ca_priority (board_cards bid k),
              bm_velocity = drop (slice_at (- weeks) velocity) velocity\<rparr>)"


section \<open>Time in a column\<close>

record dwell =
  dw_column :: jsval
  dw_entered :: int
  dw_exited :: "int option"
  dw_hundredths :: int

definition hundredths_between :: "int \<Rightarrow> int \<Rightarrow> int" where
  "hundredths_between a b = js_hundredths (of_int (b - a) / 36000)"

definition nullish_or :: "jsval \<Rightarrow> jsval \<Rightarrow> jsval" where
  "nullish_or v d = (if v = JUndef \<or> v = JNull then d else v)"

text \<open>The stays that begin with the moves, each until the next move.\<close>

fun dwells :: "int \<Rightarrow> activity_row list \<Rightarrow> dwell list" where
  "dwells now [] = []"
| "dwells now (m # ms) =
     (let col = nullish_or (memory_at (av_detail m) ''to'') (JStr ''unknown'');
          exited = (case ms of [] \<Rightarrow> None | n # _ \<Rightarrow> Some (av_created n))
      in \<lparr>dw_column = col, dw_entered = av_created m, dw_exited = exited,
          dw_hundredths = hundredths_between (av_created m) (given_or now exited)\<rparr> # dwells now ms)"

definition time_tracking :: "int \<Rightarrow> string \<Rightarrow> kanban \<Rightarrow> (int \<times> dwell list) option" where
  "time_tracking now cid k =
     (case get_row cid k of
       None \<Rightarrow> None
     | Some c \<Rightarrow>
         let acts = list_activities (Some cid) None None k;
             moved = sort_key av_created (filter (\<lambda>a. av_action a = ''moved'') acts);
             initial_col = (case find (\<lambda>a. av_action a = ''created'') acts of
                 Some a \<Rightarrow> nullish_or (memory_at (av_detail a) ''column_id'') (JStr (ca_column c))
               | None \<Rightarrow> JStr (ca_column c));
             exited = (case moved of [] \<Rightarrow> None | m # _ \<Rightarrow> Some (av_created m));
             first = \<lparr>dw_column = initial_col, dw_entered = ca_created c, dw_exited = exited,
                      dw_hundredths = hundredths_between (ca_created c) (given_or now exited)\<rparr>;
             times = first # dwells now moved
         in Some (sum_list (map dw_hundredths times), times))"


section \<open>Search\<close>

text \<open>\<open>LIKE\<close>: a percent sign stands for any text, an underscore for one character; case is ignored.\<close>

fun like_match :: "string \<Rightarrow> string \<Rightarrow> bool" where
  "like_match [] s = (s = [])"
| "like_match (p # ps) [] = (p = CHR ''%'' \<and> like_match ps [])"
| "like_match (p # ps) (c # s) =
     (if p = CHR ''%'' then like_match ps (c # s) \<or> like_match (p # ps) s
      else (p = CHR ''_'' \<or> lower_char p = lower_char c) \<and> like_match ps s)"

definition hex_char :: "nat \<Rightarrow> char" where
  "hex_char n = char_of (if n < 10 then 48 + n else 87 + n)"

definition json_char :: "char \<Rightarrow> string" where
  "json_char c = (let n = of_char c :: nat in
     if c = CHR 0x22 then [CHR 0x5C, CHR 0x22] else if c = CHR 0x5C then [CHR 0x5C, CHR 0x5C]
     else if n = 8 then [CHR 0x5C, CHR ''b''] else if n = 9 then [CHR 0x5C, CHR ''t'']
     else if n = 10 then [CHR 0x5C, CHR ''n''] else if n = 12 then [CHR 0x5C, CHR ''f'']
     else if n = 13 then [CHR 0x5C, CHR ''r'']
     else if n < 32 then [CHR 0x5C, CHR ''u'', CHR ''0'', CHR ''0'', hex_char (n div 16), hex_char (n mod 16)]
     else [c])"

definition json_quote :: "string \<Rightarrow> string" where
  "json_quote s = CHR 0x22 # concat (map json_char s) @ [CHR 0x22]"

definition labels_json :: "string list \<Rightarrow> string" where
  "labels_json ls = ''['' @ str_join '','' (map json_quote ls) @ '']''"

record search_result =
  sr_card :: string
  sr_board :: string
  sr_board_name :: string
  sr_title :: string
  sr_snippet :: string
  sr_column :: string
  sr_priority :: string
  sr_score :: nat

definition card_score :: "string \<Rightarrow> card_row \<Rightarrow> nat" where
  "card_score q c = (if ca_id c = q then 100 else if like_match (''%'' @ q @ ''%'') (ca_title c) then 50 else 10)"

definition card_matches :: "string \<Rightarrow> card_row \<Rightarrow> bool" where
  "card_matches q c = (let like = ''%'' @ q @ ''%''
     in ca_id c = q \<or> like_match like (ca_title c) \<or> like_match like (ca_description c)
        \<or> like_match like (labels_json (ca_labels c)))"

definition search_cards :: "string \<Rightarrow> string option \<Rightarrow> int option \<Rightarrow> kanban \<Rightarrow> search_result list" where
  "search_cards query board_id limit k =
     (let q = str_trim query; n = given_or 20 limit;
          here = (\<lambda>c. case board_id of Some b \<Rightarrow> b = [] \<or> ca_board c = b | None \<Rightarrow> True);
          rows = concat (map (\<lambda>c. map (\<lambda>b. (c, b)) (filter (\<lambda>b. bd_id b = ca_board c) (kb_boards k)))
                   (filter (\<lambda>c. card_matches q c \<and> here c) (kb_cards k)));
          ordered = sort_key (\<lambda>x. - int (card_score q (fst x))) (sort_key (\<lambda>x. - ca_updated (fst x)) rows)
      in if q = [] then []
         else map (\<lambda>(c, b). \<lparr>sr_card = ca_id c, sr_board = ca_board c, sr_board_name = bd_name b, sr_title = ca_title c,
                      sr_snippet = take 100 (ca_description c), sr_column = ca_column c, sr_priority = ca_priority c,
                      sr_score = card_score q c\<rparr>)
                (if n < 0 then ordered else take (nat n) ordered))"

end
