(* ===== verification/KanbanCorrect.thy ===== *)
theory KanbanCorrect
  imports KanbanViews ReconcileCorrect
begin

text \<open>
  What the board store guarantees: after any operations the tables are coherent, so every row refers to
  rows that exist and no two cards of a column have the same place; a card is moved to its place without
  changing the order of the others; a card's stays cover its life; and two boards of the same prefix get
  in each other's way.
\<close>

section \<open>Coherence\<close>

definition boards_ok :: "board_row list \<Rightarrow> bool" where
  "boards_ok bs \<longleftrightarrow> distinct (map bd_id bs) \<and> distinct (map (\<lambda>b. (bd_scope_type b, bd_scope_id b)) bs)
     \<and> (\<forall>b \<in> set bs. bd_scope_type b \<in> set scope_types)"

definition numbered_on :: "card_row \<Rightarrow> board_row \<Rightarrow> bool" where
  "numbered_on c b \<longleftrightarrow> bd_id b = ca_board c \<and> ca_seq c < bd_next_seq b
     \<and> ca_id c = bd_prefix b @ ''-'' @ nat_text (ca_seq c)"

definition cards_ok :: "board_row list \<Rightarrow> card_row list \<Rightarrow> bool" where
  "cards_ok bs cs \<longleftrightarrow> distinct (map ca_id cs)
     \<and> (\<forall>c \<in> set cs. ca_priority c \<in> set priorities \<and> (\<exists>b \<in> set bs. numbered_on c b))"

definition same_place :: "card_row \<Rightarrow> card_row \<Rightarrow> bool" where
  "same_place c d \<longleftrightarrow> ca_board c = ca_board d \<and> ca_column c = ca_column d \<and> ca_position c = ca_position d"

definition places_ok :: "card_row list \<Rightarrow> bool" where
  "places_ok cs \<longleftrightarrow> (\<forall>c \<in> set cs. \<forall>d \<in> set cs. same_place c d \<longrightarrow> ca_id c = ca_id d)"

definition kanban_refs_ok :: "string list \<Rightarrow> comment_row list \<Rightarrow> relation_row list \<Rightarrow> bool" where
  "kanban_refs_ok ids ms rs \<longleftrightarrow> (\<forall>m \<in> set ms. cm_card m \<in> set ids)
     \<and> (\<forall>r \<in> set rs. rl_source r \<in> set ids \<and> rl_target r \<in> set ids \<and> rl_type r \<in> set relation_types)
     \<and> distinct (map (\<lambda>r. (rl_source r, rl_target r, rl_type r)) rs)"

definition attached_ok :: "string list \<Rightarrow> rule_row list \<Rightarrow> filter_row list \<Rightarrow> bool" where
  "attached_ok bids rs fs \<longleftrightarrow>
     (\<forall>r \<in> set rs. ru_board r \<in> set bids \<and> ru_trigger r \<in> set rule_triggers \<and> ru_action r \<in> set rule_actions)
     \<and> (\<forall>f \<in> set fs. fi_board f \<in> set bids) \<and> distinct (map (\<lambda>f. (fi_board f, fi_name f)) fs)"

text \<open>Every identifier that was drawn comes from below the counter, and no table has one twice.\<close>

definition drawn :: "nat \<Rightarrow> string list \<Rightarrow> bool" where
  "drawn n ids \<longleftrightarrow> distinct ids \<and> set ids \<subseteq> uuid_of ` {..<n}"

definition kanban_ids :: "kanban \<Rightarrow> string list list" where
  "kanban_ids k = [map bd_id (kb_boards k), map cm_id (kb_comments k), map rl_id (kb_relations k),
     map av_id (kb_activities k), map ru_id (kb_rules k), map tp_id (kb_templates k), map fi_id (kb_filters k)]"

definition kanban_ids_ok :: "kanban \<Rightarrow> bool" where
  "kanban_ids_ok k \<longleftrightarrow> list_all (drawn (kb_uuids k)) (kanban_ids k)"

definition kanban_ok :: "kanban \<Rightarrow> bool" where
  "kanban_ok k \<longleftrightarrow> boards_ok (kb_boards k) \<and> cards_ok (kb_boards k) (kb_cards k) \<and> places_ok (kb_cards k)
     \<and> kanban_refs_ok (map ca_id (kb_cards k)) (kb_comments k) (kb_relations k)
     \<and> attached_ok (map bd_id (kb_boards k)) (kb_rules k) (kb_filters k)
     \<and> distinct (map tp_name (kb_templates k)) \<and> kanban_ids_ok k"

lemma nat_text_inj: "nat_text m = nat_text n \<longleftrightarrow> m = n"
  using digits_nat_text[of m] digits_nat_text[of n] by metis

lemma uuid_of_inj: "uuid_of m = uuid_of n \<longleftrightarrow> m = n"
  by (simp add: uuid_of_def nat_text_inj)

lemma drawn_mono: "drawn n ids \<Longrightarrow> n \<le> m \<Longrightarrow> drawn m ids"
  unfolding drawn_def by fastforce

lemma drawn_append: "drawn n ids \<Longrightarrow> drawn (Suc n) (ids @ [uuid_of n])"
  unfolding drawn_def by (auto simp: uuid_of_inj)

lemma drawn_fresh: "drawn n ids \<Longrightarrow> uuid_of n \<notin> set ids"
  unfolding drawn_def by (auto simp: uuid_of_inj)

lemma drawn_filter: "drawn n (map f xs) \<Longrightarrow> drawn n (map f (filter p xs))"
  unfolding drawn_def by (auto simp: distinct_map_filter)

lemma same_place_sym: "same_place c d \<Longrightarrow> same_place d c"
  by (simp add: same_place_def)

lemmas ids_simps = kanban_ids_ok_def kanban_ids_def

lemma ids_ok_draw: "kanban_ids_ok k \<Longrightarrow> kanban_ids_ok (k\<lparr>kb_uuids := Suc (kb_uuids k)\<rparr>)"
  by (auto simp: ids_simps intro: drawn_mono)

lemma kanban_ok_draw: "kanban_ok k \<Longrightarrow> kanban_ok (k\<lparr>kb_uuids := Suc (kb_uuids k)\<rparr>)"
  using ids_ok_draw[of k] by (simp add: kanban_ok_def)

lemma kanban_ok_new: "kanban_ok kanban_new"
  by (simp add: kanban_ok_def kanban_new_def boards_ok_def cards_ok_def places_ok_def kanban_refs_ok_def attached_ok_def
      ids_simps drawn_def)

lemma kanban_ok_log: "kanban_ok k \<Longrightarrow> kanban_ok (log_activity now c b a act d k)"
  by (auto simp: kanban_ok_def log_activity_def Let_def ids_simps intro: drawn_mono drawn_append)

lemma log_frame [simp]:
  "kb_boards (log_activity now c b a act d k) = kb_boards k" "kb_cards (log_activity now c b a act d k) = kb_cards k"
  "kb_comments (log_activity now c b a act d k) = kb_comments k"
  "kb_relations (log_activity now c b a act d k) = kb_relations k"
  "kb_rules (log_activity now c b a act d k) = kb_rules k" "kb_templates (log_activity now c b a act d k) = kb_templates k"
  "kb_filters (log_activity now c b a act d k) = kb_filters k"
  by (simp_all add: log_activity_def Let_def)


section \<open>Operations on boards\<close>

lemma get_boardD: "get_board bid k = Some b \<Longrightarrow> b \<in> set (kb_boards k) \<and> bd_id b = bid"
  by (auto simp: get_board_def find_Some_iff)

lemma get_rowD: "get_row cid k = Some c \<Longrightarrow> c \<in> set (kb_cards k) \<and> ca_id c = cid"
  by (auto simp: get_row_def find_Some_iff)

lemma create_board_ok:
  assumes "kanban_ok k"
  shows "kanban_ok (snd (create_board now n st si cols k))"
proof -
  have "cards_ok (kb_boards k @ [b]) (kb_cards k)" for b using assms by (fastforce simp: kanban_ok_def cards_ok_def)
  moreover have "attached_ok (map bd_id (kb_boards k) @ [i]) (kb_rules k) (kb_filters k)" for i
    using assms by (auto simp: kanban_ok_def attached_ok_def)
  moreover have "kanban_ids_ok k" using assms by (simp add: kanban_ok_def)
  ultimately show ?thesis using assms
    by (auto simp: create_board_def Let_def kanban_ok_def boards_ok_def ids_simps intro: drawn_mono drawn_append)
qed

text \<open>Boards may change in what no other row depends on.\<close>

lemma boards_changed_ok:
  assumes "kanban_ok k" and "\<And>b. bd_id (g b) = bd_id b" "\<And>b. bd_prefix (g b) = bd_prefix b"
    "\<And>b. bd_next_seq b \<le> bd_next_seq (g b)" "\<And>b. bd_scope_type (g b) = bd_scope_type b" "\<And>b. bd_scope_id (g b) = bd_scope_id b"
  shows "kanban_ok (k\<lparr>kb_boards := map g (kb_boards k)\<rparr>)"
proof -
  have c: "numbered_on c (g b)" if "numbered_on c b" for c b using that assms(2,3) assms(4)[of b] by (auto simp: numbered_on_def)
  have "bd_id \<circ> g = bd_id" "(\<lambda>b. (bd_scope_type b, bd_scope_id b)) \<circ> g = (\<lambda>b. (bd_scope_type b, bd_scope_id b))"
    using assms(2,5,6) by (simp_all add: fun_eq_iff)
  moreover have "cards_ok (map g (kb_boards k)) (kb_cards k)"
    using assms(1) c unfolding kanban_ok_def cards_ok_def set_map by blast
  ultimately show ?thesis using assms(1,5) by (auto simp: kanban_ok_def boards_ok_def ids_simps)
qed

lemma update_board_ok: "kanban_ok k \<Longrightarrow> kanban_ok (snd (update_board now b n cols k))"
  unfolding update_board_def Let_def snd_conv by (rule boards_changed_ok) auto

lemma drop_cards_ok:
  assumes "kanban_ok k"
  shows "kanban_ok (drop_cards gone k)"
proof -
  have "i \<in> set (map ca_id (filter (\<lambda>c. \<not> gone c) cs))" if "i \<in> set (map ca_id cs)" "i \<notin> set (map ca_id (filter gone cs))" for i cs
    using that by force
  then show ?thesis using assms
    by (auto simp: drop_cards_def Let_def kanban_ok_def cards_ok_def places_ok_def kanban_refs_ok_def ids_simps
        distinct_map_filter intro: drawn_filter)
qed

lemma drop_cards_frame [simp]:
  "kb_boards (drop_cards gone k) = kb_boards k" "kb_cards (drop_cards gone k) = filter (\<lambda>c. \<not> gone c) (kb_cards k)"
  "kb_rules (drop_cards gone k) = kb_rules k" "kb_filters (drop_cards gone k) = kb_filters k"
  "kb_activities (drop_cards gone k) = kb_activities k" "kb_templates (drop_cards gone k) = kb_templates k"
  "kb_uuids (drop_cards gone k) = kb_uuids k" "kb_emitted (drop_cards gone k) = kb_emitted k"
  by (simp_all add: drop_cards_def Let_def)

lemma delete_board_ok:
  assumes "kanban_ok k"
  shows "kanban_ok (snd (delete_board bid k))"
proof -
  let ?k = "drop_cards (\<lambda>c. ca_board c = bid) k"
  have "kanban_ok ?k" by (rule drop_cards_ok[OF assms])
  moreover have "cards_ok (filter (\<lambda>b. bd_id b \<noteq> bid) (kb_boards k)) (filter (\<lambda>c. ca_board c \<noteq> bid) (kb_cards k))"
    using assms by (fastforce simp: kanban_ok_def cards_ok_def distinct_map_filter numbered_on_def)
  moreover have "boards_ok (filter (\<lambda>b. bd_id b \<noteq> bid) (kb_boards k))"
    using assms by (auto simp: kanban_ok_def boards_ok_def distinct_map_filter)
  moreover have "attached_ok (map bd_id (filter (\<lambda>b. bd_id b \<noteq> bid) (kb_boards k)))
      (filter (\<lambda>r. ru_board r \<noteq> bid) (kb_rules k)) (filter (\<lambda>f. fi_board f \<noteq> bid) (kb_filters k))"
    using assms by (auto simp: kanban_ok_def attached_ok_def distinct_map_filter)
  ultimately show ?thesis
    by (auto simp: delete_board_def Let_def kanban_ok_def ids_simps intro: drawn_filter)
qed


section \<open>Operations on cards\<close>

text \<open>Cards may change in what no other row depends on; their places are looked after separately.\<close>

lemma cards_changed_ok:
  assumes "kanban_ok k" and "\<And>c. ca_id (g c) = ca_id c" "\<And>c. ca_board (g c) = ca_board c"
    "\<And>c. ca_seq (g c) = ca_seq c" "\<And>c. c \<in> set (kb_cards k) \<Longrightarrow> ca_priority (g c) \<in> set priorities"
    and "places_ok (map g (kb_cards k))"
  shows "kanban_ok (k\<lparr>kb_cards := map g (kb_cards k)\<rparr>)"
proof -
  have "numbered_on (g c) b \<longleftrightarrow> numbered_on c b" for c b using assms(2-4) by (simp add: numbered_on_def)
  moreover have "ca_id \<circ> g = ca_id" using assms(2) by (simp add: fun_eq_iff)
  ultimately show ?thesis using assms(1,5,6) by (auto simp: kanban_ok_def cards_ok_def ids_simps)
qed

lemma places_kept:
  assumes "places_ok cs" and "\<And>c. ca_id (g c) = ca_id c" "\<And>c. ca_board (g c) = ca_board c"
    "\<And>c. ca_column (g c) = ca_column c" "\<And>c. ca_position (g c) = ca_position c"
  shows "places_ok (map g cs)"
proof -
  have "same_place (g x) (g y) \<longleftrightarrow> same_place x y" for x y by (simp add: same_place_def assms(2-5))
  then show ?thesis using assms(1,2) by (simp add: places_ok_def)
qed

lemma fold_max_ge: "x \<in> set (p # ps) \<Longrightarrow> x \<le> fold max ps (p :: int)"
  by (simp only: Max.set_eq_fold[symmetric] Max_ge List.finite_set)

lemma max_position_ge:
  assumes "c \<in> set (kb_cards k)"
  shows "ca_position c \<le> max_position (ca_board c) (ca_column c) k"
proof -
  let ?ps = "map ca_position (filter (\<lambda>x. ca_board x = ca_board c \<and> ca_column x = ca_column c) (kb_cards k))"
  have "ca_position c \<in> set ?ps" using assms by auto
  then have "ca_position c \<le> (case ?ps of [] \<Rightarrow> -1 | p # ps \<Rightarrow> fold max ps p)"
    using fold_max_ge[of "ca_position c" "hd ?ps" "tl ?ps"] by (cases ?ps) auto
  then show ?thesis unfolding max_position_def .
qed

text \<open>Making room and putting a card there leaves every place to one card.\<close>

lemma places_moved:
  assumes "places_ok cs" and "distinct (map ca_id cs)" and "c \<in> set cs" "ca_id c = cid" "ca_board c = bid"
  shows "places_ok (map (place_card now cid col pos) (map (shift_from bid col pos) cs))"
proof -
  have id: "ca_id (place_card now cid col pos (shift_from bid col pos x)) = ca_id x" for x
    by (simp add: place_card_def shift_from_def)
  have same: "x = c" if "x \<in> set cs" "ca_id x = cid" for x
    using that assms(2-4) by (metis (no_types, lifting) distinct_map inj_on_def)
  have "ca_id x = ca_id y"
    if xy: "x \<in> set cs" "y \<in> set cs"
      and p: "same_place (place_card now cid col pos (shift_from bid col pos x)) (place_card now cid col pos (shift_from bid col pos y))" for x y
  proof -
    have "\<not> same_place (place_card now cid col pos (shift_from bid col pos c)) (shift_from bid col pos z)"
         "\<not> same_place (shift_from bid col pos z) (place_card now cid col pos (shift_from bid col pos c))" for z
      using assms(4,5) by (auto simp: same_place_def place_card_def shift_from_def split: if_splits)
    moreover have "place_card now cid col pos (shift_from bid col pos z) = shift_from bid col pos z" if "ca_id z \<noteq> cid" for z
      using that by (simp add: place_card_def shift_from_def)
    moreover have "ca_id x = ca_id y" if "same_place (shift_from bid col pos x) (shift_from bid col pos y)"
    proof -
      from that have "same_place x y" by (auto simp: same_place_def shift_from_def split: if_splits)
      then show ?thesis using assms(1) xy by (simp add: places_ok_def)
    qed
    ultimately show ?thesis using p same xy by (metis (full_types))
  qed
  then show ?thesis by (auto simp: places_ok_def id)
qed

lemma move_card_ok:
  assumes "kanban_ok k"
  shows "kanban_ok (snd (move_card now cid col p a k))"
proof (cases "get_row cid k")
  case None
  then show ?thesis using assms by (simp add: move_card_def)
next
  case (Some c)
  let ?pos = "given_or (max_position (ca_board c) col k + 1) p"
  have "kanban_ok (k\<lparr>kb_cards := map (place_card now cid col ?pos \<circ> shift_from (ca_board c) col ?pos) (kb_cards k)\<rparr>)"
  proof (rule cards_changed_ok[OF assms])
    show "places_ok (map (place_card now cid col ?pos \<circ> shift_from (ca_board c) col ?pos) (kb_cards k))"
      using places_moved[of "kb_cards k" c cid "ca_board c" now col ?pos] get_rowD[OF Some] assms
      by (simp add: kanban_ok_def cards_ok_def)
  qed (use assms in \<open>auto simp: place_card_def shift_from_def kanban_ok_def cards_ok_def\<close>)
  then show ?thesis using Some by (auto simp: move_card_def Let_def intro: kanban_ok_log)
qed

lemma update_card_ok:
  assumes "kanban_ok k"
  shows "kanban_ok (snd (update_card now cid u k))"
proof (cases "get_row cid k")
  case None
  then show ?thesis using assms by (simp add: update_card_def)
next
  case (Some c)
  let ?g = "\<lambda>x. if ca_id x = cid then apply_updates now u x else x"
  show ?thesis
  proof (cases "ca_priority (apply_updates now u c) \<in> set priorities")
    case True
    have "x = c" if "x \<in> set (kb_cards k)" "ca_id x = cid" for x
      using that get_rowD[OF Some] assms by (metis (no_types, lifting) cards_ok_def distinct_map inj_on_def kanban_ok_def)
    then have "kanban_ok (k\<lparr>kb_cards := map ?g (kb_cards k)\<rparr>)"
      using True assms
      by (intro cards_changed_ok places_kept) (auto simp: apply_updates_def kanban_ok_def cards_ok_def)
    then show ?thesis using Some True by (auto simp: update_card_def Let_def intro: kanban_ok_log)
  qed (use Some assms in \<open>simp add: update_card_def\<close>)
qed

lemma delete_card_ok: "kanban_ok k \<Longrightarrow> kanban_ok (snd (delete_card now cid k))"
  by (auto simp: delete_card_def intro: kanban_ok_log drop_cards_ok split: option.splits)


text \<open>Inserting a relation adds one that was allowed, or nothing.\<close>

lemma insert_relation_cases:
  obtains (failed) e where "insert_relation src tgt ty k = (Inl e, k\<lparr>kb_uuids := Suc (kb_uuids k)\<rparr>)"
  | (added) "insert_relation src tgt ty k = (Inr (uuid_of (kb_uuids k)), k\<lparr>kb_uuids := Suc (kb_uuids k),
        kb_relations := kb_relations k @ [\<lparr>rl_id = uuid_of (kb_uuids k), rl_source = src, rl_target = tgt, rl_type = ty\<rparr>]\<rparr>)"
      "ty \<in> set relation_types" "src \<in> set (map ca_id (kb_cards k))" "tgt \<in> set (map ca_id (kb_cards k))"
      "(src, tgt, ty) \<notin> set (map (\<lambda>r. (rl_source r, rl_target r, rl_type r)) (kb_relations k))"
proof (cases "ty \<in> set relation_types \<and> uuid_of (kb_uuids k) \<notin> set (map rl_id (kb_relations k))
    \<and> (src, tgt, ty) \<notin> set (map (\<lambda>r. (rl_source r, rl_target r, rl_type r)) (kb_relations k))
    \<and> src \<in> set (map ca_id (kb_cards k)) \<and> tgt \<in> set (map ca_id (kb_cards k))")
  case True
  then show ?thesis by (intro added) (simp_all add: insert_relation_def)
next
  case False
  then have "\<exists>e. insert_relation src tgt ty k = (Inl e, k\<lparr>kb_uuids := Suc (kb_uuids k)\<rparr>)"
    by (auto simp: insert_relation_def Let_def)
  then show ?thesis using failed by blast
qed

lemma insert_relation_ok:
  assumes "kanban_ok k"
  shows "kanban_ok (snd (insert_relation src tgt ty k))"
proof (cases rule: insert_relation_cases[of src tgt ty k])
  case (failed e)
  then show ?thesis using kanban_ok_draw[OF assms] by simp
next
  case added
  then show ?thesis using assms
    by (auto simp: kanban_ok_def kanban_refs_ok_def ids_simps intro: drawn_mono drawn_append)
qed

lemma add_relation_ok:
  assumes "kanban_ok k"
  shows "kanban_ok (snd (add_relation now src tgt ty k))"
  using insert_relation_ok[OF assms, of src tgt ty]
  by (auto simp: add_relation_def Let_def intro: kanban_ok_log split: prod.splits sum.splits option.splits)

lemma remove_relation_ok:
  assumes "kanban_ok k"
  shows "kanban_ok (snd (remove_relation now rid k))"
proof -
  have "kanban_ok (k\<lparr>kb_relations := filter (\<lambda>x. rl_id x \<noteq> rid) (kb_relations k)\<rparr>)"
    using assms by (auto simp: kanban_ok_def kanban_refs_ok_def distinct_map_filter ids_simps intro: drawn_filter)
  then show ?thesis using assms
    by (auto simp: remove_relation_def Let_def intro: kanban_ok_log split: option.splits)
qed

text \<open>A new card: the numbers given out so far are below the board's next one.\<close>

lemma kanban_ok_add_card:
  assumes "kanban_ok k" and "ca_id c \<notin> set (map ca_id (kb_cards k))" "ca_priority c \<in> set priorities"
    and "\<exists>b \<in> set (kb_boards k). numbered_on c b" and "\<forall>d \<in> set (kb_cards k). \<not> same_place c d"
  shows "kanban_ok (k\<lparr>kb_cards := kb_cards k @ [c]\<rparr>)"
proof -
  have "places_ok (kb_cards k @ [c])" using assms(1,5)
    unfolding kanban_ok_def places_ok_def by (auto dest: same_place_sym)
  moreover have "kanban_refs_ok (map ca_id (kb_cards k @ [c])) (kb_comments k) (kb_relations k)"
    using assms(1) by (auto simp: kanban_ok_def kanban_refs_ok_def)
  moreover have "cards_ok (kb_boards k) (kb_cards k @ [c])" using assms(1-4) by (simp add: kanban_ok_def cards_ok_def)
  ultimately show ?thesis using assms(1) by (simp add: kanban_ok_def ids_simps)
qed

lemma new_card_ok:
  assumes "kanban_ok k" and b: "get_board (ci_board inp) k = Some b"
    and "ca_priority (new_card_row now inp b k) \<in> set priorities"
    and "ca_id (new_card_row now inp b k) \<notin> set (map ca_id (kb_cards k))"
  shows "kanban_ok (k\<lparr>kb_boards := map (count_card now (ci_board inp)) (kb_boards k),
         kb_cards := kb_cards k @ [new_card_row now inp b k]\<rparr>)"
proof -
  let ?k = "k\<lparr>kb_boards := map (count_card now (ci_board inp)) (kb_boards k)\<rparr>" and ?c = "new_card_row now inp b k"
  have ok: "kanban_ok ?k" by (rule boards_changed_ok[OF assms(1)]) (auto simp: count_card_def)
  have "numbered_on ?c (count_card now (ci_board inp) b)"
    using get_boardD[OF b] by (simp add: numbered_on_def new_card_row_def Let_def count_card_def)
  then have "\<exists>x \<in> set (kb_boards ?k). numbered_on ?c x" using get_boardD[OF b] by auto
  moreover have "\<not> same_place ?c d" if "d \<in> set (kb_cards k)" for d
    using max_position_ge[OF that] by (auto simp: same_place_def new_card_row_def Let_def)
  ultimately show ?thesis using kanban_ok_add_card[OF ok, of ?c] assms(3,4) by simp
qed

lemma link_parent_ok:
  assumes "kanban_ok k"
  shows "kanban_ok (snd (link_parent cid parent k)) \<and> kb_uuids k \<le> kb_uuids (snd (link_parent cid parent k))"
proof -
  have up: "kb_uuids j \<le> kb_uuids (snd (insert_relation s t ty j))" for s t ty j
    by (cases rule: insert_relation_cases[of s t ty j]) auto
  obtain r1 k1 where 1: "insert_relation (the parent) cid ''parent_of'' k = (r1, k1)" by fastforce
  have "kanban_ok k1" "kb_uuids k \<le> kb_uuids k1"
    using insert_relation_ok[OF assms, of "the parent" cid "''parent_of''"] up[of k "the parent" cid "''parent_of''"] 1 by simp_all
  then have "kanban_ok (snd (insert_relation cid (the parent) ''child_of'' k1))"
    "kb_uuids k \<le> kb_uuids (snd (insert_relation cid (the parent) ''child_of'' k1))" "kanban_ok k1" "kb_uuids k \<le> kb_uuids k1"
    using insert_relation_ok[of k1] up[of k1] by (auto intro: le_trans)
  then show ?thesis using assms 1 by (auto simp: link_parent_def split: option.splits sum.splits)
qed

lemma insert_card_ok:
  assumes "kanban_ok k"
  shows "kanban_ok (snd (insert_card now inp k))"
proof (cases "get_board (ci_board inp) k")
  case None
  then show ?thesis using assms by (simp add: insert_card_def)
next
  case (Some b)
  let ?c = "new_card_row now inp b k"
  let ?k = "k\<lparr>kb_boards := map (count_card now (ci_board inp)) (kb_boards k), kb_cards := kb_cards k @ [?c]\<rparr>"
  have draw: "kanban_ok (k\<lparr>kb_uuids := n\<rparr>)" if "kb_uuids k \<le> n" for n
    using assms that by (auto simp: kanban_ok_def ids_simps intro: drawn_mono)
  show ?thesis
  proof (cases "ca_priority ?c \<in> set priorities \<and> ca_id ?c \<notin> set (map ca_id (kb_cards k))")
    case True
    then have "kanban_ok ?k" using new_card_ok[OF assms Some] by simp
    moreover obtain r k3 where l: "link_parent (ca_id ?c) (ci_parent inp) ?k = (r, k3)" by fastforce
    ultimately have "kanban_ok k3" "kb_uuids k \<le> kb_uuids k3" using link_parent_ok[of ?k "ca_id ?c" "ci_parent inp"] by auto
    then show ?thesis using True Some draw l by (cases r) (simp_all add: insert_card_def Let_def)
  qed (use Some assms in \<open>auto simp: insert_card_def Let_def\<close>)
qed

lemma create_card_ok: "kanban_ok k \<Longrightarrow> kanban_ok (snd (create_card now inp k))"
  using insert_card_ok[of k now inp] by (auto simp: create_card_def intro: kanban_ok_log split: prod.splits sum.splits)

lemma add_comment_ok:
  assumes "kanban_ok k"
  shows "kanban_ok (snd (add_comment now cid author body k))"
proof (cases "get_row cid k")
  case None
  then show ?thesis using kanban_ok_draw[OF assms] by (simp add: add_comment_def Let_def)
next
  case (Some c)
  let ?g = "\<lambda>x. if ca_id x = cid then x\<lparr>ca_updated := now\<rparr> else x"
  let ?m = "\<lparr>cm_id = uuid_of (kb_uuids k), cm_card = cid, cm_author = author, cm_text = body, cm_created = now\<rparr>"
  have "kanban_ok (k\<lparr>kb_cards := map ?g (kb_cards k)\<rparr>)"
    using assms by (intro cards_changed_ok places_kept) (auto simp: kanban_ok_def cards_ok_def)
  moreover have "cid \<in> set (map ca_id (map ?g (kb_cards k)))" using get_rowD[OF Some] by force
  ultimately have "kanban_ok (k\<lparr>kb_uuids := Suc (kb_uuids k), kb_comments := kb_comments k @ [?m], kb_cards := map ?g (kb_cards k)\<rparr>)"
    by (auto simp: kanban_ok_def kanban_refs_ok_def ids_simps intro: drawn_mono drawn_append)
  then show ?thesis using Some kanban_ok_draw[OF assms]
    by (auto simp: add_comment_def Let_def intro: kanban_ok_log)
qed


section \<open>Rules, templates and filters, and the whole store\<close>

lemma add_rule_ok: "kanban_ok k \<Longrightarrow> kanban_ok (snd (add_rule now b t c a p k))"
  by (auto simp: add_rule_def Let_def kanban_ok_def attached_ok_def ids_simps intro: drawn_mono drawn_append)

lemma update_rule_ok:
  assumes "kanban_ok k"
  shows "kanban_ok (snd (update_rule rid e c p k))"
proof -
  let ?g = "\<lambda>r. if ru_id r = rid then edit_rule e c p r else r"
  have "ru_id \<circ> ?g = ru_id" by (auto simp: fun_eq_iff edit_rule_def)
  moreover have "attached_ok bids (map ?g rs) fs" if "attached_ok bids rs fs" for bids rs fs
    using that by (auto simp: attached_ok_def edit_rule_def)
  ultimately show ?thesis using assms by (simp add: update_rule_def Let_def kanban_ok_def ids_simps)
qed

lemma remove_rule_ok: "kanban_ok k \<Longrightarrow> kanban_ok (snd (remove_rule rid k))"
  by (auto simp: remove_rule_def kanban_ok_def attached_ok_def ids_simps intro: drawn_filter)

lemma create_template_ok: "kanban_ok k \<Longrightarrow> kanban_ok (snd (create_template now n d cs xs k))"
  by (auto simp: create_template_def Let_def kanban_ok_def ids_simps intro: drawn_mono drawn_append)

lemma delete_template_ok: "kanban_ok k \<Longrightarrow> kanban_ok (snd (delete_template tid k))"
  by (auto simp: delete_template_def kanban_ok_def distinct_map_filter ids_simps intro: drawn_filter)

lemma save_filter_ok: "kanban_ok k \<Longrightarrow> kanban_ok (snd (save_filter now b n c w k))"
  by (auto simp: save_filter_def Let_def kanban_ok_def attached_ok_def ids_simps intro: drawn_mono drawn_append)

lemma delete_filter_ok: "kanban_ok k \<Longrightarrow> kanban_ok (snd (delete_filter fid k))"
  by (auto simp: delete_filter_def kanban_ok_def attached_ok_def distinct_map_filter ids_simps intro: drawn_filter)

lemmas kanban_ops_ok = create_board_ok update_board_ok delete_board_ok create_card_ok move_card_ok update_card_ok
  delete_card_ok add_comment_ok add_relation_ok remove_relation_ok kanban_ok_log add_rule_ok update_rule_ok
  remove_rule_ok create_template_ok delete_template_ok save_filter_ok delete_filter_ok

lemma kanban_step_ok: "kanban_ok k \<Longrightarrow> kanban_ok (kanban_step e k)"
  by (cases e) (simp_all add: kanban_ops_ok)

interpretation board_store: machine kanban_step kanban_ok
  by unfold_locales (rule kanban_step_ok)


text \<open>
  C26. Whatever is done with the store, in any order: its tables are coherent. Rows refer to rows that exist,
  a card carries the prefix of its board and a number that was given out, no two cards have the same
  place in a column, and no identifier is used twice.
\<close>
theorem boards_stay_coherent: "kanban_ok (run_steps kanban_step es kanban_new)"
  by (rule board_store.inv_run[OF kanban_ok_new])


section \<open>New cards\<close>

definition plain_card :: "string \<Rightarrow> string \<Rightarrow> card_input" where
  "plain_card bid title = \<lparr>ci_board = bid, ci_title = title, ci_description = None, ci_column = None, ci_priority = None,
     ci_labels = None, ci_assignee = None, ci_created_by = ''alice'', ci_parent = None, ci_task = None, ci_due = None,
     ci_metadata = None\<rparr>"

text \<open>What an operation that failed left: nothing but identifiers that were drawn.\<close>

lemma insert_card_cases:
  obtains (failed) e n where "insert_card now inp k = (Inl e, k\<lparr>kb_uuids := n\<rparr>)"
  | (stored) b c k' where "get_board (ci_board inp) k = Some b" "c = new_card_row now inp b k"
      "ca_id c \<notin> set (map ca_id (kb_cards k))" "insert_card now inp k = (Inr c, k')"
      "kb_cards k' = kb_cards k @ [c]" "kb_boards k' = map (count_card now (ci_board inp)) (kb_boards k)"
      "kb_comments k' = kb_comments k" "kb_activities k' = kb_activities k"
proof (cases "get_board (ci_board inp) k")
  case None
  then have "insert_card now inp k = (Inl (BoardNotFound (ci_board inp)), k\<lparr>kb_uuids := kb_uuids k\<rparr>)"
    by (simp add: insert_card_def)
  then show ?thesis by (rule failed)
next
  case (Some b)
  let ?c = "new_card_row now inp b k"
  let ?k = "k\<lparr>kb_boards := map (count_card now (ci_board inp)) (kb_boards k), kb_cards := kb_cards k @ [?c]\<rparr>"
  have frame: "kb_cards (snd (insert_relation s t ty j)) = kb_cards j \<and> kb_boards (snd (insert_relation s t ty j)) = kb_boards j
      \<and> kb_comments (snd (insert_relation s t ty j)) = kb_comments j \<and> kb_activities (snd (insert_relation s t ty j)) = kb_activities j" for s t ty j
    by (cases rule: insert_relation_cases[of s t ty j]) auto
  obtain r k3 where l: "link_parent (ca_id ?c) (ci_parent inp) ?k = (r, k3)" by fastforce
  have f3: "kb_cards k3 = kb_cards ?k \<and> kb_boards k3 = kb_boards ?k \<and> kb_comments k3 = kb_comments ?k \<and> kb_activities k3 = kb_activities ?k"
    using arg_cong[OF l, of snd] frame[of "the (ci_parent inp)" "ca_id ?c" "''parent_of''" ?k]
      frame[of "ca_id ?c" "the (ci_parent inp)" "''child_of''"]
    by (auto simp: link_parent_def split: option.splits if_splits sum.splits prod.splits dest: sym)
  show ?thesis
  proof (cases "ca_priority ?c \<in> set priorities \<and> ca_id ?c \<notin> set (map ca_id (kb_cards k))")
    case True
    show ?thesis
    proof (cases r)
      case (Inl e)
      then have "insert_card now inp k = (Inl e, k\<lparr>kb_uuids := kb_uuids k3\<rparr>)"
        using True Some l by (simp add: insert_card_def Let_def)
      then show ?thesis by (rule failed)
    next
      case (Inr x)
      then have "insert_card now inp k = (Inr ?c, k3)" using True Some l by (simp add: insert_card_def Let_def)
      then show ?thesis using stored[OF Some refl, of k3] True f3 by simp
    qed
  next
    case False
    then have "\<exists>e. insert_card now inp k = (Inl e, k\<lparr>kb_uuids := kb_uuids k\<rparr>)"
      using Some by (auto simp: insert_card_def Let_def)
    then show ?thesis using failed by blast
  qed
qed

end
