(* ===== verification/KanbanMoves.thy ===== *)
theory KanbanMoves
  imports KanbanCorrect
begin

text \<open>
  Cards of a board: where a moved card goes, how long a card stayed in its columns, what the summary
  counts; and the behaviours of the store that surprise.
\<close>

section \<open>The order of a column\<close>

definition in_column :: "string \<Rightarrow> string \<Rightarrow> card_row \<Rightarrow> bool" where
  "in_column bid col c \<longleftrightarrow> ca_board c = bid \<and> ca_column c = col"

definition column_order :: "string \<Rightarrow> string \<Rightarrow> card_row list \<Rightarrow> string list" where
  "column_order bid col cs = map ca_id (sort_key ca_position (filter (in_column bid col) cs))"

definition place_in_order :: "(card_row \<Rightarrow> bool) \<Rightarrow> string \<Rightarrow> card_row list \<Rightarrow> string list" where
  "place_in_order before cid cs =
     map ca_id (sort_key ca_position (filter before cs)) @ cid # map ca_id (sort_key ca_position (filter (\<lambda>c. \<not> before c) cs))"

text \<open>With every place taken once, the order is the one list that is sorted.\<close>

lemma inj_positions:
  assumes "places_ok cs" "distinct (map ca_id cs)"
  shows "inj_on ca_position (set (filter (in_column bid col) cs))"
proof (rule inj_onI)
  fix c d assume *: "c \<in> set (filter (in_column bid col) cs)" "d \<in> set (filter (in_column bid col) cs)"
    "ca_position c = ca_position d"
  then have "same_place c d" by (simp add: same_place_def in_column_def)
  then have "ca_id c = ca_id d" using assms(1) * by (simp add: places_ok_def)
  then show "c = d" using assms(2) * by (simp add: distinct_map inj_on_def)
qed

lemma order_is:
  assumes "places_ok cs" "distinct (map ca_id cs)"
    and "mset (filter (in_column bid col) cs) = mset ys" "sorted (map ca_position ys)"
  shows "column_order bid col cs = map ca_id ys"
  unfolding column_order_def using inj_positions[OF assms(1,2)] assms(3,4) by (subst sort_key_inj_key_eq) auto

lemma shift_sorted:
  "sorted (map ca_position xs) \<Longrightarrow> sorted (map ca_position (map (shift_from bid col pos) xs))" if "\<forall>x \<in> set xs. in_column bid col x \<and> pos \<le> ca_position x"
proof -
  have "map ca_position (map (shift_from bid col pos) xs) = map (\<lambda>p. p + 1) (map ca_position xs)"
    using that by (auto simp: shift_from_def in_column_def)
  then show "sorted (map ca_position xs) \<Longrightarrow> sorted (map ca_position (map (shift_from bid col pos) xs))"
    by (auto simp: sorted_map intro: sorted_wrt_mono_rel[rotated])
qed

text \<open>The cards of the target column after a move, as a collection.\<close>

definition moved_cards :: "int \<Rightarrow> string \<Rightarrow> string \<Rightarrow> string \<Rightarrow> int \<Rightarrow> card_row list \<Rightarrow> card_row list" where
  "moved_cards now cid bid col pos cs = map (place_card now cid col pos) (map (shift_from bid col pos) cs)"

definition others_of :: "string \<Rightarrow> string \<Rightarrow> string \<Rightarrow> card_row list \<Rightarrow> card_row list" where
  "others_of cid bid col cs = filter (\<lambda>c. ca_id c \<noteq> cid) (filter (in_column bid col) cs)"

lemma moved_others:
  assumes "cid \<notin> set (map ca_id cs)"
  shows "filter (in_column bid col) (moved_cards now cid bid col pos cs) = map (shift_from bid col pos) (filter (in_column bid col) cs)"
  using assms by (induction cs) (auto simp: moved_cards_def place_card_def shift_from_def in_column_def)

lemma moved_target_mset:
  assumes "distinct (map ca_id cs)" "c \<in> set cs" "ca_id c = cid" "ca_board c = bid"
  shows "mset (filter (in_column bid col) (moved_cards now cid bid col pos cs))
       = mset (map (shift_from bid col pos) (others_of cid bid col cs)) + {#place_card now cid col pos (shift_from bid col pos c)#}"
proof -
  obtain xs ys where cs: "cs = xs @ c # ys" using assms(2) by (auto simp: in_set_conv_decomp)
  then have n: "cid \<notin> set (map ca_id xs)" "cid \<notin> set (map ca_id ys)" using assms(1,3) by auto
  have o: "others_of cid bid col zs = filter (in_column bid col) zs" if "cid \<notin> set (map ca_id zs)" for zs
    using that by (induction zs) (auto simp: others_of_def)
  have "in_column bid col (place_card now cid col pos (shift_from bid col pos c))"
    using assms(3,4) by (auto simp: in_column_def place_card_def shift_from_def)
  then have "filter (in_column bid col) (moved_cards now cid bid col pos cs)
      = map (shift_from bid col pos) (filter (in_column bid col) xs) @ place_card now cid col pos (shift_from bid col pos c)
        # map (shift_from bid col pos) (filter (in_column bid col) ys)"
    using moved_others[OF n(1), of bid col now pos] moved_others[OF n(2), of bid col now pos] cs
    by (simp add: moved_cards_def)
  moreover have "others_of cid bid col cs = filter (in_column bid col) xs @ filter (in_column bid col) ys"
    using o[OF n(1)] o[OF n(2)] cs assms(3) by (simp add: others_of_def)
  ultimately show ?thesis by simp
qed


text \<open>Elsewhere the card is gone and nothing else has changed.\<close>

lemma moved_elsewhere:
  assumes "\<And>x. x \<in> set cs \<Longrightarrow> ca_id x = cid \<Longrightarrow> ca_board x = bid" and "(bid', col') \<noteq> (bid, col)"
  shows "filter (in_column bid' col') (moved_cards now cid bid col pos cs) = others_of cid bid' col' cs"
  using assms
proof (induction cs)
  case (Cons x cs)
  have "filter (in_column bid' col') (moved_cards now cid bid col pos cs) = others_of cid bid' col' cs"
    by (rule Cons.IH) (use Cons.prems in auto)
  moreover have "in_column bid' col' (place_card now cid col pos (shift_from bid col pos x)) \<longleftrightarrow> in_column bid' col' x \<and> ca_id x \<noteq> cid"
  proof (cases "ca_id x = cid")
    case True
    then have "ca_board x = bid" using Cons.prems(1) by simp
    with True Cons.prems(2) show ?thesis by (auto simp: place_card_def shift_from_def in_column_def)
  qed (simp add: place_card_def shift_from_def in_column_def)
  moreover have "place_card now cid col pos (shift_from bid col pos x) = x" if "in_column bid' col' x" "ca_id x \<noteq> cid"
    using that Cons.prems(2) unfolding place_card_def shift_from_def in_column_def by (simp add: prod_eq_iff) blast
  ultimately show ?case by (simp add: moved_cards_def others_of_def)
qed (simp add: moved_cards_def others_of_def)

text \<open>In the column itself the card stands between those before its place and those from there on.\<close>

lemma moved_order:
  assumes "places_ok cs" "distinct (map ca_id cs)" "c \<in> set cs" "ca_id c = cid" "ca_board c = bid"
  shows "column_order bid col (moved_cards now cid bid col pos cs)
       = place_in_order (\<lambda>x. ca_position x < pos) cid (others_of cid bid col cs)"
proof -
  let ?os = "others_of cid bid col cs" and ?sh = "shift_from bid col pos"
  let ?c = "place_card now cid col pos (?sh c)"
  let ?lo = "sort_key ca_position (filter (\<lambda>x. ca_position x < pos) ?os)"
  let ?hi = "sort_key ca_position (filter (\<lambda>x. \<not> ca_position x < pos) ?os)"
  have os: "in_column bid col x" if "x \<in> set ?os" for x using that by (auto simp: others_of_def)
  have lo: "map ?sh ?lo = ?lo" by (rule map_idI) (auto simp: shift_from_def)
  have hi: "\<forall>x \<in> set ?hi. in_column bid col x \<and> pos \<le> ca_position x" using os by auto
  have c: "ca_position ?c = pos" "ca_id ?c = cid" using assms(4) by (auto simp: place_card_def shift_from_def)
  have ids: "map ca_id (map ?sh xs) = map ca_id xs" for xs by (simp add: shift_from_def)
  have "mset ?os = mset ?lo + mset ?hi" by (simp only: mset_sort mset_filter multiset_partition[symmetric])
  then have "mset (map ?sh ?os) = mset (map ?sh ?lo) + mset (map ?sh ?hi)" by (simp only: mset_map image_mset_union)
  then have all: "mset (filter (in_column bid col) (moved_cards now cid bid col pos cs)) = mset (?lo @ ?c # map ?sh ?hi)"
    using moved_target_mset[OF assms(2-5), of col now pos] lo by simp
  have srt: "sorted (map ca_position (?lo @ ?c # map ?sh ?hi))"
  proof -
    have "ca_position x \<le> pos" if "x \<in> set ?lo" for x using that by auto
    moreover have "pos \<le> ca_position x" if "x \<in> set (map ?sh ?hi)" for x using that by (auto simp: shift_from_def)
    moreover have "sorted (map ca_position (map ?sh ?hi))" by (rule shift_sorted[OF hi]) simp
    ultimately show ?thesis using c by (fastforce simp: sorted_append)
  qed
  have pl: "places_ok (moved_cards now cid bid col pos cs)"
    unfolding moved_cards_def by (rule places_moved[OF assms])
  have "map ca_id (moved_cards now cid bid col pos cs) = map ca_id cs"
    by (simp add: moved_cards_def place_card_def shift_from_def)
  then have "column_order bid col (moved_cards now cid bid col pos cs) = map ca_id (?lo @ ?c # map ?sh ?hi)"
    using order_is[OF pl _ all srt] assms(2) by simp
  then show ?thesis using c(2) ids[of ?hi] by (simp add: place_in_order_def)
qed

text \<open>
  C27. In a store that came about by any operations, a card that is moved stands in its new column behind the
  cards with a smaller position and before the others; their order is as it was, and so is that of every
  other column, from which the card is gone.
\<close>
theorem card_moved_in_order:
  assumes "k = run_steps kanban_step es kanban_new" and "get_row cid k = Some c"
    and "pos = given_or (max_position (ca_board c) col k + 1) position"
    and "cs' = kb_cards (snd (move_card now cid col position actor k))"
  shows "column_order (ca_board c) col cs'
           = place_in_order (\<lambda>x. ca_position x < pos) cid (others_of cid (ca_board c) col (kb_cards k))
       \<and> (\<forall>b l. (b, l) \<noteq> (ca_board c, col) \<longrightarrow>
            column_order b l cs' = filter (\<lambda>i. i \<noteq> cid) (column_order b l (kb_cards k)))"
proof -
  have ok: "places_ok (kb_cards k)" "distinct (map ca_id (kb_cards k))"
    using board_store.inv_run[OF kanban_ok_new, of es] assms(1) by (auto simp: kanban_ok_def cards_ok_def)
  have c: "c \<in> set (kb_cards k)" "ca_id c = cid" using get_rowD[OF assms(2)] by auto
  have cs': "cs' = moved_cards now cid (ca_board c) col pos (kb_cards k)"
    using assms(2-4) by (simp add: move_card_def Let_def moved_cards_def)
  have "x = c" if "x \<in> set (kb_cards k)" "ca_id x = cid" for x
    using that c ok(2) by (auto simp: distinct_map inj_on_def)
  then have "column_order b l cs' = filter (\<lambda>i. i \<noteq> cid) (column_order b l (kb_cards k))" if "(b, l) \<noteq> (ca_board c, col)" for b l
    unfolding cs' column_order_def using moved_elsewhere[OF _ that, of "kb_cards k" cid now pos]
    by (simp add: others_of_def filter_sort filter_map o_def)
  then show ?thesis using moved_order[OF ok c refl, of col now pos] cs' by blast
qed


definition demo_board_ops :: "kanban_op list" where
  "demo_board_ops =
     [CreateBoard 1 ''Sprint Board'' ''channel'' ''c1'' None,
      CreateCard 2 (plain_card ''uuid-0'' ''one''), CreateCard 3 (plain_card ''uuid-0'' ''two''),
      CreateCard 4 (plain_card ''uuid-0'' ''three'')]"

lemma card_moved_in_order_witness:
  "column_order ''uuid-0'' ''todo'' (kb_cards (snd (move_card 9 ''SB-3'' ''todo'' (Some 1) None
     (run_steps kanban_step demo_board_ops kanban_new)))) = [''SB-1'', ''SB-3'', ''SB-2'']"
proof -
  let ?k = "run_steps kanban_step demo_board_ops kanban_new"
  have r: "get_row ''SB-3'' ?k = Some (kb_cards ?k ! 2)" "ca_board (kb_cards ?k ! 2) = ''uuid-0''" by code_simp+
  have "place_in_order (\<lambda>x. ca_position x < 1) ''SB-3'' (others_of ''SB-3'' ''uuid-0'' ''todo'' (kb_cards ?k))
      = [''SB-1'', ''SB-3'', ''SB-2'']" by code_simp
  with card_moved_in_order[where col = "''todo''" and position = "Some 1" and now = 9 and actor = None,
      OF refl r(1) refl refl] r(2) show ?thesis
    by (simp add: given_or_def)
qed


section \<open>The stays of a card\<close>

lemma round_error: "\<bar>of_int (js_hundredths x) - x\<bar> \<le> 1 / 2"
  unfolding js_hundredths_def by linarith

text \<open>The hours of a stay, in milliseconds.\<close>

definition stay_length :: "int \<Rightarrow> dwell \<Rightarrow> int" where
  "stay_length now d = given_or now (dw_exited d) - dw_entered d"

fun stays_chained :: "dwell list \<Rightarrow> bool" where
  "stays_chained [] = True"
| "stays_chained [d] = (dw_exited d = None)"
| "stays_chained (d # e # ds) = (dw_exited d = Some (dw_entered e) \<and> stays_chained (e # ds))"

lemma dwells_chained: "stays_chained (dwells now ms)"
proof (induction ms)
  case (Cons m ms)
  then show ?case by (cases ms) (simp_all add: Let_def)
qed simp

lemma stays_sum:
  "stays_chained (d # ds) \<Longrightarrow> sum_list (map (stay_length now) (d # ds)) = now - dw_entered d"
  by (induction ds arbitrary: d) (auto simp: stay_length_def given_or_def)

lemma rounded_sum:
  assumes "\<forall>d \<in> set ds. dw_hundredths d = js_hundredths (of_int (stay_length now d) / 36000)"
  shows "\<bar>of_int (sum_list (map dw_hundredths ds)) - of_int (sum_list (map (stay_length now) ds)) / 36000\<bar>
    \<le> (of_nat (length ds) / 2 :: rat)"
  using assms
proof (induction ds)
  case (Cons d ds)
  have "\<bar>of_int (dw_hundredths d) - of_int (stay_length now d) / 36000\<bar> \<le> (1 / 2 :: rat)"
    using Cons.prems round_error by simp
  moreover have "\<bar>of_int (sum_list (map dw_hundredths ds)) - of_int (sum_list (map (stay_length now) ds)) / 36000\<bar>
      \<le> (of_nat (length ds) / 2 :: rat)" using Cons by simp
  moreover have "\<bar>(a + b) - (x + y)\<bar> \<le> p + q" if "\<bar>a - x\<bar> \<le> p" "\<bar>b - y\<bar> \<le> q" for a b x y p q :: rat
    using that by linarith
  ultimately have "\<bar>(of_int (dw_hundredths d) + of_int (sum_list (map dw_hundredths ds)))
      - (of_int (stay_length now d) / 36000 + of_int (sum_list (map (stay_length now) ds)) / 36000)\<bar>
      \<le> (1 / 2 + of_nat (length ds) / 2 :: rat)" by blast
  then show ?case by (simp add: add_divide_distrib)
qed simp

text \<open>
  The stays reported for a card follow one another without a gap from its creation until now, and the
  total differs from the age of the card by at most half a hundredth of an hour for each stay.
\<close>
theorem stays_cover_life:
  "(case get_row cid k of
     None \<Rightarrow> time_tracking now cid k = None
   | Some c \<Rightarrow> \<exists>total ds. time_tracking now cid k = Some (total, ds) \<and> ds \<noteq> [] \<and> stays_chained ds
       \<and> dw_entered (hd ds) = ca_created c
       \<and> \<bar>of_int total - of_int (now - ca_created c) / 36000\<bar> \<le> (of_nat (length ds) / 2 :: rat))"
proof (cases "get_row cid k")
  case None
  then show ?thesis by (simp add: time_tracking_def)
next
  case (Some c)
  then obtain total ds where t: "time_tracking now cid k = Some (total, ds)"
    by (simp add: time_tracking_def Let_def)
  let ?ms = "sort_key av_created (filter (\<lambda>a. av_action a = ''moved'') (list_activities (Some cid) None None k))"
  obtain d where ds: "ds = d # dwells now ?ms" "dw_entered d = ca_created c" "total = sum_list (map dw_hundredths ds)"
    "dw_exited d = (case ?ms of [] \<Rightarrow> None | m # _ \<Rightarrow> Some (av_created m))"
    "dw_hundredths d = js_hundredths (of_int (stay_length now d) / 36000)"
    using t Some by (auto simp: time_tracking_def Let_def stay_length_def hundredths_between_def)
  have ch: "stays_chained ds"
  proof (cases ?ms)
    case Nil
    then show ?thesis using ds by simp
  next
    case (Cons m ms)
    then obtain e es where e: "dwells now ?ms = e # es" "dw_entered e = av_created m" by (auto simp: Let_def)
    then show ?thesis using ds Cons dwells_chained[of now ?ms] by simp
  qed
  have "\<forall>x \<in> set (dwells now ms). dw_hundredths x = js_hundredths (of_int (stay_length now x) / 36000)" for ms
    by (induction now ms rule: dwells.induct) (auto simp: Let_def stay_length_def hundredths_between_def)
  then have "\<forall>x \<in> set ds. dw_hundredths x = js_hundredths (of_int (stay_length now x) / 36000)" using ds by auto
  moreover have "sum_list (map (stay_length now) ds) = now - ca_created c"
    using stays_sum[of d "dwells now ?ms" now] ch ds(1,2) by simp
  ultimately have "\<bar>of_int total - of_int (now - ca_created c) / 36000\<bar> \<le> (of_nat (length ds) / 2 :: rat)"
    using rounded_sum[of ds now] ds(3) by metis
  then show ?thesis using Some t ds(1,2) ch by auto
qed



section \<open>The summary\<close>

lemma uniq_set [simp]: "set (uniq xs) = set xs"
  by (induction xs rule: uniq.induct) auto

lemma group_counts_get:
  "jget (group_counts f xs) v = (if v \<in> f ` set xs then Some (length (filter (\<lambda>x. f x = v) xs)) else None)"
  by (auto simp: group_counts_def map_of_map_restrict restrict_map_def)

lemma group_counts_or_zero: "given_or 0 (jget (group_counts f xs) v) = length (filter (\<lambda>x. f x = v) xs)"
proof (cases "v \<in> f ` set xs")
  case False
  then have "filter (\<lambda>x. f x = v) xs = []" by (auto simp: filter_empty_conv)
  with False show ?thesis by (simp add: group_counts_get given_or_def)
qed (simp add: group_counts_get given_or_def)

lemma sum_filter_lengths:
  assumes "distinct ks" "set (map f xs) \<subseteq> set ks"
  shows "sum_list (map (\<lambda>k. length (filter (\<lambda>x. f x = k) xs)) ks) = length xs"
proof -
  have "sum_list (map (\<lambda>k. length (filter (\<lambda>x. f x = k) xs)) ks) = (\<Sum>k \<in> set ks. length (filter (\<lambda>x. f x = k) xs))"
    by (simp add: sum_list_distinct_conv_sum_set[OF assms(1)])
  also have "\<dots> = length xs"
    using assms(2)
  proof (induction xs)
    case (Cons x xs)
    have "(\<Sum>k \<in> set ks. length (filter (\<lambda>y. f y = k) (x # xs)))
        = (\<Sum>k \<in> set ks. (if k = f x then 1 else 0) + length (filter (\<lambda>y. f y = k) xs))"
      by (rule sum.cong) auto
    also have "\<dots> = 1 + length xs" using Cons by (simp add: sum.distrib)
    finally show ?case by simp
  qed simp
  finally show ?thesis .
qed

lemma uniq_distinct: "distinct (uniq xs)"
  by (induction xs rule: uniq.induct) auto

text \<open>
  The summary of a board counts its cards: each column of the board with the cards in it, and all cards,
  also those in a column the board does not have.
\<close>
lemma summary_counts:
  assumes "summary_of today bid k = Some s"
  shows "bs_total s = length (board_cards bid k)"
    and "bs_done s = length (filter (\<lambda>c. ca_column c = ''done'') (board_cards bid k))"
    and "\<forall>(col, n) \<in> set (bs_columns s). n = length (filter (\<lambda>c. ca_column c = kc_id col) (board_cards bid k))"
proof -
  obtain b where b: "get_board bid k = Some b" using assms by (cases "get_board bid k") (simp_all add: summary_of_def)
  have "bs_total s = sum_list (map snd (column_counts bid k))"
    using assms b by (auto simp: summary_of_def Let_def)
  also have "\<dots> = length (board_cards bid k)"
    using sum_filter_lengths[OF uniq_distinct, of ca_column "board_cards bid k" "map ca_column (board_cards bid k)"]
    by (simp add: column_counts_def group_counts_def o_def)
  finally show "bs_total s = length (board_cards bid k)" .
  show "bs_done s = length (filter (\<lambda>c. ca_column c = ''done'') (board_cards bid k))"
    using assms b by (auto simp: summary_of_def Let_def column_counts_def group_counts_or_zero)
  show "\<forall>(col, n) \<in> set (bs_columns s). n = length (filter (\<lambda>c. ca_column c = kc_id col) (board_cards bid k))"
    using assms b by (auto simp: summary_of_def Let_def column_counts_def group_counts_or_zero)
qed


section \<open>Behaviours that surprise\<close>

text \<open>
  A card's identifier is its board's prefix and number, and identifiers are unique over all boards: while
  another board of the same prefix has a card of that number, the board cannot get its next card, and since
  the number is rolled back, no later attempt differs.
\<close>
lemma same_prefix_blocks:
  assumes "get_board (ci_board inp) k = Some b" and "c \<in> set (kb_cards k)"
    and "ca_id c = bd_prefix b @ ''-'' @ nat_text (bd_next_seq b)" and "given_or ''none'' (ci_priority inp) \<in> set priorities"
  shows "create_card now inp k = (Inl (ConstraintFailed ''card_id''), k)"
proof -
  have "ca_id (new_card_row now inp b k) = ca_id c" using assms(3) by (simp add: new_card_row_def Let_def)
  moreover have "ca_priority (new_card_row now inp b k) \<in> set priorities" using assms(4) by (simp add: new_card_row_def Let_def)
  ultimately show ?thesis using assms(1,2) by (auto simp: create_card_def insert_card_def Let_def)
qed

text \<open>Every name without Latin letters and digits has the prefix KB.\<close>

lemma other_scripts_share_prefix:
  assumes "\<forall>c \<in> set name. \<not> ascii_alnum c"
  shows "derive_prefix name = ''KB''"
proof -
  have "filter ascii_alnum name = []" using assms by (simp add: filter_empty_conv)
  moreover have "str_trim (filter (\<lambda>c. ascii_alnum c \<or> is_ws c) name) = []"
    using assms by (auto simp: str_trim_empty_iff)
  ultimately show ?thesis by (simp add: derive_prefix_def)
qed

text \<open>So the second board of a Korean team cannot have a card.\<close>

definition korean_ops :: "kanban_op list" where
  "korean_ops =
     [CreateBoard 1 (utf8 [0xEB, 0xB3, 0xB4, 0xEB, 0x93, 0x9C]) ''channel'' ''c1'' None,
      CreateBoard 2 (utf8 [0xEC, 0x9D, 0xBC, 0xEC, 0xA0, 0x95]) ''channel'' ''c2'' None,
      CreateCard 3 (plain_card ''uuid-0'' ''one'')]"

lemma second_korean_board_stuck:
  "(let k = run_steps kanban_step korean_ops kanban_new
    in fst (create_card 4 (plain_card ''uuid-1'' ''two'') k) = Inl (ConstraintFailed ''card_id'')
       \<and> snd (create_card 4 (plain_card ''uuid-1'' ''two'') k) = k)"
  by code_simp

text \<open>The card handed back has the position 0, the stored one stands at the end of its column.\<close>

lemma created_position_wrong:
  "(let (r, k) = create_card 9 (plain_card ''uuid-0'' ''four'') (run_steps kanban_step demo_board_ops kanban_new)
    in (case r of Inr c \<Rightarrow> ca_position (kd_row c) = 0 | Inl _ \<Rightarrow> False)
       \<and> map_option ca_position (get_row ''SB-4'' k) = Some 3)"
  by code_simp

text \<open>A relation that exists already is announced again, with an identifier that does not exist.\<close>

lemma repeated_relation_phantom:
  "(let k = snd (add_relation 5 ''SB-1'' ''SB-2'' ''blocks'' (run_steps kanban_step demo_board_ops kanban_new));
        (r, k') = add_relation 6 ''SB-1'' ''SB-2'' ''blocks'' k
    in length (kb_relations k') = 1 \<and> length (kb_activities k') = length (kb_activities k) + 1
       \<and> (case r of Inr x \<Rightarrow> \<not> fst (remove_relation 7 (rl_id x) k') | Inl _ \<Rightarrow> False))"
  by code_simp

text \<open>A card without a column goes to the column todo, which the board need not have.\<close>

lemma default_column_missing:
  "(let k = run_steps kanban_step
        [CreateBoard 1 ''Ops'' ''channel'' ''c1'' (Some [\<lparr>kc_id = ''inbox'', kc_name = ''Inbox'', kc_color = [], kc_wip = None\<rparr>]),
         CreateCard 2 (plain_card ''uuid-0'' ''one'')] kanban_new
    in (case summary_of ''2026-01-01'' ''uuid-0'' k of
          Some s \<Rightarrow> bs_total s = 1 \<and> map snd (bs_columns s) = [0] | None \<Rightarrow> False))"
  by code_simp

text \<open>A percent sign in a search is not a character but a wildcard, so a search for one finds every card.\<close>

lemma like_all: "like_match [CHR ''%''] s"
  by (induction s) auto

lemma like_all2: "like_match [CHR ''%'', CHR ''%''] s"
  by (cases s) (auto simp: like_all)

lemma like_all3: "like_match [CHR ''%'', CHR ''%'', CHR ''%''] s"
  by (cases s) (use like_all2 in auto)

lemma percent_finds_all: "card_matches ''%'' c"
  by (simp add: card_matches_def like_all3)

end
