(* ===== verification/JsText.thy ===== *)
theory JsText
  imports JsValue
begin

text \<open>
  \<open>String(v)\<close> as the components of \<open>src/src\<close> use it on values of any kind. The text of a number is an
  argument.
\<close>

text \<open>\<open>String(v)\<close>: an array is the texts of its items with commas between, null and undefined items are empty.\<close>

fun js_string :: "(rat \<Rightarrow> string) \<Rightarrow> jsval \<Rightarrow> string" where
  "js_string num JUndef = ''undefined''"
| "js_string num JNull = ''null''"
| "js_string num (JBool b) = (if b then ''true'' else ''false'')"
| "js_string num (JNum n) = num n"
| "js_string num (JStr s) = s"
| "js_string num (JArr xs) = str_join '','' (map (\<lambda>x. if x = JUndef \<or> x = JNull then [] else js_string num x) xs)"
| "js_string num (JObj m) = ''[object Object]''"

text \<open>\<open>String(v || "")\<close>.\<close>

definition string_or_empty :: "(rat \<Rightarrow> string) \<Rightarrow> jsval \<Rightarrow> string" where
  "string_or_empty num v = (if js_truthy v then js_string num v else [])"

end
