(* ===== verification/KanbanAutomation.thy ===== *)
theory KanbanAutomation
  imports Kanban JsText
begin

text \<open>
  What happens by itself on a board: the rules of \<open>src/src/services/kanban-rule-executor.ts\<close> and the
  workflows that wait for an event, \<open>src/src/services/kanban-trigger-watcher.ts\<close>.

  The events a store emits wait in \<open>kb_emitted\<close> and are handled one after the other, each to its end; the
  source starts handling an event when it is emitted, so the handling of several events overlaps there.
  What a rule starts outside the store (workflows and tasks) and the clock act on an arbitrary world.
\<close>

section \<open>Equality of values\<close>

text \<open>\<open>===\<close> on values that were read from the store: two objects are never the same.\<close>

definition strict_equal :: "jsval \<Rightarrow> jsval \<Rightarrow> bool" where
  "strict_equal a b \<longleftrightarrow> \<not> js_is_object a \<and> a = b"


section \<open>Rules\<close>

datatype rule_answer = BridgeThrows | BridgeAnswer bool "string option"

record workflow_request =
  wq_template :: string
  wq_title :: "string option"
  wq_objective :: "string option"
  wq_channel :: "string option"
  wq_chat :: "string option"

record task_request =
  tq_prompt :: string
  tq_channel :: "string option"
  tq_chat :: "string option"

record 'w rule_env =
  re_number :: "rat \<Rightarrow> string"
  re_clock :: "'w \<Rightarrow> int"
  re_workflow :: "(workflow_request \<Rightarrow> 'w \<Rightarrow> rule_answer \<times> 'w) option"
  re_task :: "(task_request \<Rightarrow> 'w \<Rightarrow> rule_answer \<times> 'w) option"

record 'w board_system =
  by_kanban :: kanban
  by_world :: 'w
  by_watched :: "string list"

definition action_to_trigger :: "string \<Rightarrow> string option" where
  "action_to_trigger action =
     (if action = ''moved'' then Some ''card_moved'' else if action = ''updated'' then Some ''subtasks_done'' else None)"

definition trigger_actions :: "string \<Rightarrow> string list" where
  "trigger_actions trigger =
     (if trigger = ''card_moved'' then [''moved''] else if trigger = ''subtasks_done'' then [''updated''] else [])"

definition matches_trigger :: "rule_row \<Rightarrow> string \<Rightarrow> bool" where
  "matches_trigger r action \<longleftrightarrow> action \<in> set (trigger_actions (ru_trigger r))"

definition matches_condition :: "(rat \<Rightarrow> string) \<Rightarrow> memory \<Rightarrow> memory \<Rightarrow> bool" where
  "matches_condition num cond detail =
     (let to_col = memory_at cond ''to_column''; from_col = memory_at cond ''from_column''; label = memory_at cond ''label''
      in cond = [] \<or>
         (\<not> (js_truthy to_col \<and> \<not> strict_equal (memory_at detail ''to'') to_col) \<and>
          \<not> (js_truthy from_col \<and> \<not> strict_equal (memory_at detail ''from'') from_col) \<and>
          \<not> (js_truthy label
             \<and> \<not> str_includes (js_string num label) (string_or_empty num (memory_at detail ''labels'')))))"

text \<open>A parameter that is given as a text, when it is given.\<close>

definition given_text :: "(rat \<Rightarrow> string) \<Rightarrow> memory \<Rightarrow> string \<Rightarrow> string option" where
  "given_text num params key = (let v = memory_at params key in if js_truthy v then Some (js_string num v) else None)"

text \<open>One call of the store by a rule; an exception is caught outside, so only its state matters here.\<close>

definition store_call :: "'w rule_env \<Rightarrow> (int \<Rightarrow> kanban \<Rightarrow> kanban) \<Rightarrow> 'w board_system \<Rightarrow> 'w board_system" where
  "store_call env f s = s\<lparr>by_kanban := f (re_clock env (by_world s)) (by_kanban s)\<rparr>"

definition rule_comment :: "'w rule_env \<Rightarrow> string \<Rightarrow> string \<Rightarrow> 'w board_system \<Rightarrow> 'w board_system" where
  "rule_comment env cid body = store_call env (\<lambda>now k. snd (add_comment now cid ''rule-executor'' body k))"

definition rule_update :: "'w rule_env \<Rightarrow> string \<Rightarrow> card_updates \<Rightarrow> 'w board_system \<Rightarrow> 'w board_system" where
  "rule_update env cid u = store_call env (\<lambda>now k. snd (update_card now cid u k))"

text \<open>The texts the executor writes: the start of a workflow and the creation of a task.\<close>

definition workflow_started :: string where
  "workflow_started = utf8 [0xEC, 0x9B, 0x8C, 0xED, 0x81, 0xAC, 0xED, 0x94, 0x8C, 0xEB, 0xA1, 0x9C, 0xEC, 0x9A, 0xB0, 0x20,
     0xEC, 0x8B, 0x9C, 0xEC, 0x9E, 0x91, 0x3A, 0x20]"

definition task_created :: string where
  "task_created = utf8 [0xED, 0x83, 0x9C, 0xEC, 0x8A, 0xA4, 0xED, 0x81, 0xAC, 0x20, 0xEC, 0x83, 0x9D, 0xEC, 0x84, 0xB1, 0x3A, 0x20]"

definition start_workflow :: "'w rule_env \<Rightarrow> memory \<Rightarrow> string \<Rightarrow> 'w board_system \<Rightarrow> 'w board_system" where
  "start_workflow env params cid s =
     (case re_workflow env of
       None \<Rightarrow> s
     | Some f \<Rightarrow>
         let num = re_number env;
             (answer, w) = f \<lparr>wq_template = string_or_empty num (memory_at params ''template''),
                              wq_title = given_text num params ''title'', wq_objective = given_text num params ''objective'',
                              wq_channel = given_text num params ''channel'', wq_chat = given_text num params ''chat_id''\<rparr>
                            (by_world s);
             s = s\<lparr>by_world := w\<rparr>
         in case answer of
              BridgeThrows \<Rightarrow> s
            | BridgeAnswer ok wid \<Rightarrow>
                if ok then rule_comment env cid (workflow_started @ given_or ''undefined'' wid) s else s)"

definition start_task :: "'w rule_env \<Rightarrow> memory \<Rightarrow> string \<Rightarrow> 'w board_system \<Rightarrow> 'w board_system" where
  "start_task env params cid s =
     (case re_task env of
       None \<Rightarrow> s
     | Some f \<Rightarrow>
         let num = re_number env;
             prompt = (case given_text num params ''prompt'' of
                 Some p \<Rightarrow> p
               | None \<Rightarrow> (case get_row cid (by_kanban s) of Some c \<Rightarrow> ca_title c | None \<Rightarrow> []));
             (answer, w) = f \<lparr>tq_prompt = prompt, tq_channel = given_text num params ''channel'',
                              tq_chat = given_text num params ''chat_id''\<rparr> (by_world s);
             s = s\<lparr>by_world := w\<rparr>
         in case answer of
              BridgeAnswer True (Some tid) \<Rightarrow>
                if tid = [] then s
                else rule_comment env cid (task_created @ tid) (rule_update env cid (no_updates\<lparr>cu_task := Some (Some tid)\<rparr>) s)
            | _ \<Rightarrow> s)"

definition execute_action :: "'w rule_env \<Rightarrow> rule_row \<Rightarrow> string \<Rightarrow> 'w board_system \<Rightarrow> 'w board_system" where
  "execute_action env r cid s =
     (let num = re_number env; params = ru_params r in
      if ru_action r = ''move_card'' then
        (let col = string_or_empty num (memory_at params ''column_id'')
         in if col = [] then s else store_call env (\<lambda>now k. snd (move_card now cid col None None k)) s)
      else if ru_action r = ''assign'' then
        (let a = string_or_empty num (memory_at params ''assignee'')
         in if a = [] then s else rule_update env cid (no_updates\<lparr>cu_assignee := Some (Some a)\<rparr>) s)
      else if ru_action r = ''add_label'' then
        (let l = string_or_empty num (memory_at params ''label'')
         in if l = [] then s else
              (case get_row cid (by_kanban s) of
                None \<Rightarrow> s
              | Some c \<Rightarrow> rule_update env cid (no_updates\<lparr>cu_labels := Some (uniq (ca_labels c @ [l]))\<rparr>) s))
      else if ru_action r = ''comment'' then
        (let t = string_or_empty num (memory_at params ''text'') in if t = [] then s else rule_comment env cid t s)
      else if ru_action r = ''run_workflow'' then start_workflow env params cid s
      else if ru_action r = ''create_task'' then start_task env params cid s
      else s)"

text \<open>
  The rules for an event. When one of them has a label in its condition, all conditions are read against the
  labels the card has now.
\<close>

definition event_detail :: "activity_row \<Rightarrow> rule_row list \<Rightarrow> kanban \<Rightarrow> memory" where
  "event_detail a rules k =
     (if (\<exists>r \<in> set rules. ru_enabled r \<and> js_truthy (memory_at (ru_condition r) ''label''))
      then jset ''labels'' (case get_row (av_card a) k of
               Some c \<Rightarrow> JArr (map JStr (ca_labels c)) | None \<Rightarrow> memory_at (av_detail a) ''labels'') (av_detail a)
      else av_detail a)"

definition apply_rule :: "'w rule_env \<Rightarrow> activity_row \<Rightarrow> memory \<Rightarrow> rule_row \<Rightarrow> 'w board_system \<Rightarrow> 'w board_system" where
  "apply_rule env a detail r s =
     (if ru_enabled r \<and> matches_trigger r (av_action a) \<and> matches_condition (re_number env) (ru_condition r) detail
      then execute_action env r (av_card a) s else s)"

definition evaluate_rules :: "'w rule_env \<Rightarrow> activity_row \<Rightarrow> 'w board_system \<Rightarrow> 'w board_system" where
  "evaluate_rules env a s =
     (case action_to_trigger (av_action a) of
       None \<Rightarrow> s
     | Some trigger \<Rightarrow>
         let rules = rules_by_trigger (av_board a) trigger (by_kanban s);
             detail = event_detail a rules (by_kanban s)
         in fold (apply_rule env a detail) rules s)"

definition watch_board :: "string \<Rightarrow> 'w board_system \<Rightarrow> 'w board_system" where
  "watch_board bid s = (if bid \<in> set (by_watched s) then s else s\<lparr>by_watched := by_watched s @ [bid]\<rparr>)"

definition dispose_rules :: "'w board_system \<Rightarrow> 'w board_system" where
  "dispose_rules s = s\<lparr>by_watched := []\<rparr>"

definition setup_rules :: "'w board_system \<Rightarrow> 'w board_system" where
  "setup_rules s = fold (\<lambda>b s. if \<exists>r \<in> set (list_rules (bd_id b) (by_kanban s)). ru_enabled r then watch_board (bd_id b) s else s)
     (list_boards None None (by_kanban s)) (s\<lparr>by_watched := []\<rparr>)"

text \<open>Handling the oldest event, and all events until none is left.\<close>

definition handle_event :: "'w rule_env \<Rightarrow> activity_row \<Rightarrow> 'w board_system \<Rightarrow> 'w board_system" where
  "handle_event env a s = (if av_board a \<in> set (by_watched s) then evaluate_rules env a s else s)"

definition take_event :: "'w board_system \<Rightarrow> 'w board_system" where
  "take_event s = s\<lparr>by_kanban := (by_kanban s)\<lparr>kb_emitted := tl (kb_emitted (by_kanban s))\<rparr>\<rparr>"

partial_function (option) run_rules :: "'w rule_env \<Rightarrow> 'w board_system \<Rightarrow> 'w board_system option" where
  "run_rules env s =
     (case kb_emitted (by_kanban s) of
       [] \<Rightarrow> Some s
     | a # _ \<Rightarrow> run_rules env (handle_event env a (take_event s)))"

declare run_rules.simps [code]


section \<open>Workflows that wait for an event\<close>

record pending_trigger =
  pt_node :: string
  pt_board :: string
  pt_actions :: "string list"
  pt_column :: string

record waiting_workflow =
  ww_waiting :: bool
  ww_pending :: "pending_trigger option"
  ww_event :: "activity_row option"

type_synonym workflow_table = "(string, waiting_workflow) jmap"

text \<open>
  Asking the workflow store is awaited, so notifying, scanning and resuming have parts between which anything may
  happen: the parts still to come, with what was asked for or found.
\<close>

datatype watcher_part =
    NotifyRead string
  | NotifyGot "string" "waiting_workflow option"
  | ScanRead
  | ScanGot workflow_table
  | InjectRead string activity_row
  | InjectGot string activity_row waiting_workflow
  | InjectResume string activity_row

text \<open>
  A listener is a number, its workflow and what that waits for, in the order of subscribing; \<open>tw_subs\<close> is the map of
  the watcher from workflows to listeners.
\<close>

record trigger_watcher =
  tw_listeners :: "(nat \<times> string \<times> pending_trigger) list"
  tw_next :: nat
  tw_subs :: "(string, nat) jmap"
  tw_flows :: workflow_table
  tw_parts :: "watcher_part list"
  tw_resumed :: "(string \<times> activity_row) list"

definition queue_part :: "watcher_part \<Rightarrow> trigger_watcher \<Rightarrow> trigger_watcher" where
  "queue_part j t = t\<lparr>tw_parts := tw_parts t @ [j]\<rparr>"

text \<open>A missing list of actions and a missing column are an empty list and an empty text: both match anything.\<close>

definition subscribe_flow :: "string \<Rightarrow> pending_trigger \<Rightarrow> trigger_watcher \<Rightarrow> trigger_watcher" where
  "subscribe_flow wid m t =
     t\<lparr>tw_listeners := tw_listeners t @ [(tw_next t, wid, m)], tw_next := tw_next t + 1, tw_subs := jset wid (tw_next t) (tw_subs t)\<rparr>"

definition unsubscribe_listener :: "nat \<Rightarrow> trigger_watcher \<Rightarrow> trigger_watcher" where
  "unsubscribe_listener n t = t\<lparr>tw_listeners := filter (\<lambda>l. fst l \<noteq> n) (tw_listeners t)\<rparr>"

definition subscribe_waiting :: "string \<Rightarrow> waiting_workflow \<Rightarrow> trigger_watcher \<Rightarrow> trigger_watcher" where
  "subscribe_waiting wid f t =
     (if ww_waiting f then (case ww_pending f of Some m \<Rightarrow> if pt_board m = [] then t else subscribe_flow wid m t | None \<Rightarrow> t) else t)"

definition consider_flow :: "string \<times> waiting_workflow \<Rightarrow> trigger_watcher \<Rightarrow> trigger_watcher" where
  "consider_flow e t = (if jhas (tw_subs t) (fst e) then t else subscribe_waiting (fst e) (snd e) t)"

definition scan_flows :: "trigger_watcher \<Rightarrow> trigger_watcher" where
  "scan_flows t = queue_part ScanRead t"

definition notify_flow :: "string \<Rightarrow> trigger_watcher \<Rightarrow> trigger_watcher" where
  "notify_flow wid t = (if jhas (tw_subs t) wid then t else queue_part (NotifyRead wid) t)"

definition trigger_matches :: "pending_trigger \<Rightarrow> activity_row \<Rightarrow> bool" where
  "trigger_matches m a \<longleftrightarrow> pt_board m = av_board a
     \<and> (pt_actions m \<noteq> [] \<longrightarrow> av_action a \<in> set (pt_actions m))
     \<and> (pt_column m \<noteq> [] \<longrightarrow> memory_at (av_detail a) ''column_id'' = JStr (pt_column m)
          \<or> memory_at (av_detail a) ''to'' = JStr (pt_column m))"

text \<open>\<open>inject_and_resume\<close> up to its first await.\<close>

definition inject_begin :: "activity_row \<Rightarrow> string \<Rightarrow> trigger_watcher \<Rightarrow> trigger_watcher" where
  "inject_begin a wid t =
     (let t = (case jget (tw_subs t) wid of None \<Rightarrow> t
        | Some n \<Rightarrow> (unsubscribe_listener n t)\<lparr>tw_subs := jdel wid (tw_subs t)\<rparr>)
      in queue_part (InjectRead wid a) t)"

text \<open>The emitter calls the listeners an event finds, also those that are unsubscribed meanwhile.\<close>

definition watcher_event :: "activity_row \<Rightarrow> trigger_watcher \<Rightarrow> trigger_watcher" where
  "watcher_event a t = fold (inject_begin a) (map (\<lambda>l. fst (snd l)) (filter (\<lambda>l. trigger_matches (snd (snd l)) a) (tw_listeners t))) t"

text \<open>The parts after an await. Resuming is the engine's: it changes the table of workflows.\<close>

fun run_part :: "(string \<Rightarrow> workflow_table \<Rightarrow> workflow_table) \<Rightarrow> watcher_part \<Rightarrow> trigger_watcher \<Rightarrow> trigger_watcher" where
  "run_part resume (NotifyRead wid) t = queue_part (NotifyGot wid (jget (tw_flows t) wid)) t"
| "run_part resume (NotifyGot wid f) t = (case f of None \<Rightarrow> t | Some f \<Rightarrow> subscribe_waiting wid f t)"
| "run_part resume ScanRead t = queue_part (ScanGot (tw_flows t)) t"
| "run_part resume (ScanGot fs) t = fold consider_flow fs t"
| "run_part resume (InjectRead wid a) t = (case jget (tw_flows t) wid of
       None \<Rightarrow> t
     | Some f \<Rightarrow> if ww_waiting f then queue_part (InjectGot wid a f) t else t)"
| "run_part resume (InjectGot wid a f) t = queue_part (InjectResume wid a) (t\<lparr>tw_flows := jset wid (f\<lparr>ww_event := Some a\<rparr>) (tw_flows t)\<rparr>)"
| "run_part resume (InjectResume wid a) t = t\<lparr>tw_flows := resume wid (tw_flows t), tw_resumed := tw_resumed t @ [(wid, a)]\<rparr>"

definition take_part :: "(string \<Rightarrow> workflow_table \<Rightarrow> workflow_table) \<Rightarrow> nat \<Rightarrow> trigger_watcher \<Rightarrow> trigger_watcher" where
  "take_part resume i t = (if i < length (tw_parts t)
     then run_part resume (tw_parts t ! i) (t\<lparr>tw_parts := take i (tw_parts t) @ drop (Suc i) (tw_parts t)\<rparr>)
     else t)"

definition dispose_watcher :: "trigger_watcher \<Rightarrow> trigger_watcher" where
  "dispose_watcher t = (fold (\<lambda>e. unsubscribe_listener (snd e)) (tw_subs t) t)\<lparr>tw_subs := []\<rparr>"

text \<open>What happens to a watcher: the engine may change its workflows at any time.\<close>

datatype watcher_op =
  ScanFlows | NotifyFlow string | ChangeFlows workflow_table | WatcherEvent activity_row | TakePart nat | DisposeWatcher

fun watcher_step :: "(string \<Rightarrow> workflow_table \<Rightarrow> workflow_table) \<Rightarrow> watcher_op \<Rightarrow> trigger_watcher \<Rightarrow> trigger_watcher" where
  "watcher_step resume ScanFlows t = scan_flows t"
| "watcher_step resume (NotifyFlow wid) t = notify_flow wid t"
| "watcher_step resume (ChangeFlows fs) t = t\<lparr>tw_flows := fs\<rparr>"
| "watcher_step resume (WatcherEvent a) t = watcher_event a t"
| "watcher_step resume (TakePart i) t = take_part resume i t"
| "watcher_step resume DisposeWatcher t = dispose_watcher t"

definition watcher_new :: trigger_watcher where
  "watcher_new = \<lparr>tw_listeners = [], tw_next = 0, tw_subs = [], tw_flows = [], tw_parts = [], tw_resumed = []\<rparr>"

end
