(* ===== verification/KanbanAutomationCorrect.thy ===== *)
theory KanbanAutomationCorrect
  imports KanbanAutomation KanbanCorrect "HOL-Library.Sublist"
begin

text \<open>
  When the rules of a board come to rest, and when they do not; and which workflows an event resumes.
\<close>

section \<open>What an action of a rule emits\<close>

text \<open>
  \<open>grown acts k k'\<close>: the store has emitted at most \<open>n\<close> more events, all of the given actions; its
  rules are the same and its cards are those it had, on the boards they were on.
\<close>

definition card_homes :: "kanban \<Rightarrow> (string \<times> string) list" where
  "card_homes k = map (\<lambda>c. (ca_id c, ca_board c)) (kb_cards k)"

definition grown :: "nat \<Rightarrow> string list \<Rightarrow> kanban \<Rightarrow> kanban \<Rightarrow> bool" where
  "grown n acts k k' \<longleftrightarrow> kb_rules k' = kb_rules k \<and> card_homes k' = card_homes k
     \<and> (\<exists>es. kb_emitted k' = kb_emitted k @ es \<and> length es \<le> n \<and> (\<forall>e \<in> set es. av_action e \<in> set acts))"

lemma grown_refl: "grown 0 acts k k"
  by (simp add: grown_def)

lemma grown_mono: "grown n acts k k' \<Longrightarrow> n \<le> m \<Longrightarrow> set acts \<subseteq> set acts' \<Longrightarrow> grown m acts' k k'"
  unfolding grown_def by (meson le_trans subsetD)

lemma grown_trans:
  assumes "grown n acts k k'" "grown m acts k' k''"
  shows "grown (n + m) acts k k''"
proof -
  obtain es fs where "kb_emitted k' = kb_emitted k @ es" "length es \<le> n" "\<forall>e \<in> set es. av_action e \<in> set acts"
    "kb_emitted k'' = kb_emitted k' @ fs" "length fs \<le> m" "\<forall>e \<in> set fs. av_action e \<in> set acts"
    using assms unfolding grown_def by blast
  then have "kb_emitted k'' = kb_emitted k @ (es @ fs) \<and> length (es @ fs) \<le> n + m \<and> (\<forall>e \<in> set (es @ fs). av_action e \<in> set acts)"
    by auto
  with assms show ?thesis unfolding grown_def by metis
qed

lemma grown_log: "kb_rules k' = kb_rules k \<Longrightarrow> card_homes k' = card_homes k \<Longrightarrow> kb_emitted k' = kb_emitted k
    \<Longrightarrow> act \<in> set acts \<Longrightarrow> grown (Suc 0) acts k (log_activity now c b a act d k')"
  by (auto simp: grown_def card_homes_def log_activity_def Let_def)

lemma grown_plain: "kb_rules k' = kb_rules k \<Longrightarrow> card_homes k' = card_homes k \<Longrightarrow> kb_emitted k' = kb_emitted k
    \<Longrightarrow> grown n acts k k'"
  by (simp add: grown_def)

lemma grown_move: "grown (Suc 0) [''moved''] k (snd (move_card now cid col p a k))"
  by (auto simp: move_card_def Let_def card_homes_def place_card_def shift_from_def
      intro!: grown_log split: option.splits) (auto simp: card_homes_def apply_updates_def intro!: grown_plain)

lemma grown_update: "grown (Suc 0) [update_action u] k (snd (update_card now cid u k))"
  by (auto simp: update_card_def Let_def card_homes_def apply_updates_def
      intro!: grown_log split: option.splits) (auto simp: card_homes_def apply_updates_def intro!: grown_plain)

lemma grown_comment: "grown (Suc 0) [''commented''] k (snd (add_comment now cid a t k))"
  by (auto simp: add_comment_def Let_def card_homes_def intro!: grown_log split: option.splits)
    (auto simp: card_homes_def intro!: grown_plain)

definition action_events :: "string \<Rightarrow> string list" where
  "action_events act =
     (if act = ''move_card'' then [''moved''] else if act = ''assign'' then [''assigned'']
      else if act = ''add_label'' then [''labels_changed''] else if act = ''create_task'' then [''updated'', ''commented'']
      else [''commented''])"

definition grown_sys :: "nat \<Rightarrow> string list \<Rightarrow> 'w board_system \<Rightarrow> 'w board_system \<Rightarrow> bool" where
  "grown_sys n acts s t \<longleftrightarrow> grown n acts (by_kanban s) (by_kanban t) \<and> by_watched t = by_watched s
     \<and> (kanban_ok (by_kanban s) \<longrightarrow> kanban_ok (by_kanban t))"

lemma grown_sys_refl: "grown_sys n acts s s"
  by (simp add: grown_sys_def grown_plain)

lemma grown_sys_world: "grown_sys n acts s (s\<lparr>by_world := w\<rparr>)"
  by (simp add: grown_sys_def grown_plain)

lemma grown_sys_mono: "grown_sys n acts s t \<Longrightarrow> n \<le> m \<Longrightarrow> set acts \<subseteq> set acts' \<Longrightarrow> grown_sys m acts' s t"
  by (auto simp: grown_sys_def intro: grown_mono)

lemma grown_sys_trans: "grown_sys n acts s t \<Longrightarrow> grown_sys m acts t u \<Longrightarrow> grown_sys (n + m) acts s u"
  by (auto simp: grown_sys_def intro: grown_trans)

lemma sys_comment: "grown_sys (Suc 0) [''commented''] s (rule_comment env cid t s)"
  by (simp add: grown_sys_def rule_comment_def store_call_def grown_comment add_comment_ok)

lemma sys_update: "grown_sys (Suc 0) [update_action u] s (rule_update env cid u s)"
  by (simp add: grown_sys_def rule_update_def store_call_def grown_update update_card_ok)

lemma sys_move: "grown_sys (Suc 0) [''moved''] s (store_call env (\<lambda>now k. snd (move_card now cid col p a k)) s)"
  by (simp add: grown_sys_def store_call_def grown_move move_card_ok)

lemma sys_workflow: "grown_sys (Suc 0) [''commented''] s (start_workflow env params cid s)"
proof (cases "re_workflow env")
  case (Some f)
  let ?q = "\<lparr>wq_template = string_or_empty (re_number env) (memory_at params ''template''),
     wq_title = given_text (re_number env) params ''title'', wq_objective = given_text (re_number env) params ''objective'',
     wq_channel = given_text (re_number env) params ''channel'', wq_chat = given_text (re_number env) params ''chat_id''\<rparr>"
  obtain x w where x: "f ?q (by_world s) = (x, w)" by fastforce
  have "grown_sys (0 + Suc 0) [''commented''] s (rule_comment env cid t (s\<lparr>by_world := w\<rparr>))" for t
    by (rule grown_sys_trans[OF grown_sys_world sys_comment])
  then show ?thesis using Some x by (cases x) (auto simp: start_workflow_def Let_def intro: grown_sys_world)
qed (simp add: start_workflow_def grown_sys_refl)

lemma sys_task: "grown_sys 2 [''updated'', ''commented''] s (start_task env params cid s)"
proof (cases "re_task env")
  case (Some f)
  let ?q = "\<lparr>tq_prompt = (case given_text (re_number env) params ''prompt'' of Some p \<Rightarrow> p
       | None \<Rightarrow> (case get_row cid (by_kanban s) of Some c \<Rightarrow> ca_title c | None \<Rightarrow> [])),
     tq_channel = given_text (re_number env) params ''channel'', tq_chat = given_text (re_number env) params ''chat_id''\<rparr>"
  obtain x w where x: "f ?q (by_world s) = (x, w)" by fastforce
  have u: "grown_sys (Suc 0) [''updated'', ''commented''] s' (rule_update env cid (no_updates\<lparr>cu_task := v\<rparr>) s')" for s' v
    using sys_update[of "no_updates\<lparr>cu_task := v\<rparr>" s' env cid] by (rule grown_sys_mono) (simp_all add: update_action_def no_updates_def)
  have c: "grown_sys (Suc 0) [''updated'', ''commented''] s' (rule_comment env cid t s')" for s' t
    using sys_comment by (rule grown_sys_mono) simp_all
  have "grown_sys (0 + (Suc 0 + Suc 0)) [''updated'', ''commented''] s
      (rule_comment env cid t (rule_update env cid (no_updates\<lparr>cu_task := v\<rparr>) (s\<lparr>by_world := w\<rparr>)))" for t v
    by (rule grown_sys_trans[OF grown_sys_world grown_sys_trans[OF u c]])
  then have "grown_sys 2 [''updated'', ''commented''] s
      (rule_comment env cid t (rule_update env cid (no_updates\<lparr>cu_task := v\<rparr>) (s\<lparr>by_world := w\<rparr>)))" for t v
    by (simp add: numeral_2_eq_2)
  then show ?thesis using Some x
    by (cases x) (auto simp: start_task_def Let_def intro: grown_sys_world split: option.splits bool.splits)
qed (simp add: start_task_def grown_sys_refl)

lemma sys_action: "grown_sys 2 (action_events (ru_action r)) s (execute_action env r cid s)"
proof -
  have u: "grown_sys 2 [act] s (rule_update env cid u s)" if "update_action u = act" for u act
    using sys_update[of u s env cid] that by (auto intro: grown_sys_mono)
  have c: "grown_sys 2 [''commented''] s (rule_comment env cid t s)" "grown_sys 2 [''commented''] s (start_workflow env p cid s)" for t p
    by (rule grown_sys_mono[OF sys_comment] grown_sys_mono[OF sys_workflow]; simp)+
  have m: "grown_sys 2 [''moved''] s (store_call env (\<lambda>now k. snd (move_card now cid col None None k)) s)" for col
    using sys_move by (rule grown_sys_mono) auto
  have a: "update_action (no_updates\<lparr>cu_assignee := Some x\<rparr>) = ''assigned''" "update_action (no_updates\<lparr>cu_labels := Some y\<rparr>) = ''labels_changed''" for x y
    by (simp_all add: update_action_def no_updates_def)
  show ?thesis
    by (auto simp: execute_action_def action_events_def Let_def intro: u[OF a(1)] u[OF a(2)] c m sys_task grown_sys_refl split: option.splits)
qed



section \<open>Rules that come to rest\<close>

text \<open>Whether an enabled rule with a trigger has an action.\<close>

definition has_rule :: "rule_row list \<Rightarrow> string \<Rightarrow> string \<Rightarrow> bool" where
  "has_rule rs trigger action \<longleftrightarrow> (\<exists>r \<in> set rs. ru_enabled r \<and> ru_trigger r = trigger \<and> ru_action r = action)"

text \<open>
  A move of a card starts no further move and an update no further update, neither at once nor by way of
  the other. Creating a task updates the card, which is why it counts as an update.
\<close>

definition rules_acyclic :: "rule_row list \<Rightarrow> bool" where
  "rules_acyclic rs \<longleftrightarrow> \<not> has_rule rs ''card_moved'' ''move_card'' \<and> \<not> has_rule rs ''subtasks_done'' ''create_task''
     \<and> \<not> (has_rule rs ''card_moved'' ''create_task'' \<and> has_rule rs ''subtasks_done'' ''move_card'')"

text \<open>How many events can follow from an event, itself included.\<close>

definition event_weight :: "rule_row list \<Rightarrow> string \<Rightarrow> nat" where
  "event_weight rs act =
     (let b = 1 + 2 * length rs; task = has_rule rs ''card_moved'' ''create_task''
      in if act = ''moved'' then (if task then 1 + 2 * length rs * b else b)
         else if act = ''updated'' then (if task then b else 1 + 2 * length rs * b) else 1)"

definition queue_weight :: "rule_row list \<Rightarrow> activity_row list \<Rightarrow> nat" where
  "queue_weight rs es = sum_list (map (\<lambda>e. event_weight rs (av_action e)) es)"

definition rule_step :: "'w rule_env \<Rightarrow> 'w board_system \<Rightarrow> 'w board_system" where
  "rule_step env s =
     (case kb_emitted (by_kanban s) of [] \<Rightarrow> s | a # _ \<Rightarrow> handle_event env a (take_event s))"

lemma weight_pos: "0 < event_weight rs act"
  by (simp add: event_weight_def Let_def)

lemma queue_weight_simps [simp]:
  "queue_weight rs [] = 0" "queue_weight rs (e # es) = event_weight rs (av_action e) + queue_weight rs es"
  "queue_weight rs (es @ fs) = queue_weight rs es + queue_weight rs fs"
  by (simp_all add: queue_weight_def)

lemma queue_weight_bound: "\<forall>e \<in> set es. event_weight rs (av_action e) \<le> w \<Longrightarrow> queue_weight rs es \<le> length es * w"
  by (induction es) auto

text \<open>What the rules of one event emit weighs less than the event.\<close>

lemma follow_ups_lighter:
  assumes "rules_acyclic rs" and "has_rule rs trigger action" and "e \<in> set (action_events action)"
    and "trigger = ''card_moved'' \<and> act = ''moved'' \<or> trigger = ''subtasks_done'' \<and> act = ''updated''"
  shows "2 * length rs * event_weight rs e < event_weight rs act"
proof -
  have "\<not> (trigger = ''card_moved'' \<and> action = ''move_card'')" "\<not> (trigger = ''subtasks_done'' \<and> action = ''create_task'')"
    "trigger = ''subtasks_done'' \<Longrightarrow> action = ''move_card'' \<Longrightarrow> \<not> has_rule rs ''card_moved'' ''create_task''"
    "trigger = ''card_moved'' \<Longrightarrow> action = ''create_task'' \<Longrightarrow> has_rule rs ''card_moved'' ''create_task''"
    using assms(1,2) by (auto simp: rules_acyclic_def)
  then show ?thesis using assms(3,4)
    by (auto simp: action_events_def event_weight_def Let_def split: if_splits)
qed

lemma apply_rule_grown:
  "grown_sys 2 (if ru_enabled r \<and> matches_trigger r (av_action a) then action_events (ru_action r) else []) s (apply_rule env a d r s)"
  using sys_action[of r s env "av_card a"] by (simp add: apply_rule_def grown_sys_refl)

lemma fold_rules_grown:
  assumes "\<forall>r \<in> set qs. ru_enabled r \<and> matches_trigger r (av_action a) \<longrightarrow> set (action_events (ru_action r)) \<subseteq> set acts"
  shows "grown_sys (2 * length qs) acts s (fold (apply_rule env a d) qs s)"
  using assms
proof (induction qs arbitrary: s)
  case Nil
  then show ?case by (simp add: grown_sys_refl)
next
  case (Cons r qs)
  have "grown_sys 2 acts s (apply_rule env a d r s)"
    using apply_rule_grown[of r a s env d] Cons.prems by (auto intro: grown_sys_mono split: if_splits)
  moreover have "grown_sys (2 * length qs) acts (apply_rule env a d r s) (fold (apply_rule env a d) qs (apply_rule env a d r s))"
    by (rule Cons.IH) (use Cons.prems in simp)
  ultimately show ?case using grown_sys_trans by fastforce
qed

lemma take_event_frame [simp]:
  "kb_emitted (by_kanban (take_event s)) = tl (kb_emitted (by_kanban s))" "kb_rules (by_kanban (take_event s)) = kb_rules (by_kanban s)"
  "by_watched (take_event s) = by_watched s" "card_homes (by_kanban (take_event s)) = card_homes (by_kanban s)"
  by (simp_all add: take_event_def card_homes_def)

lemma rule_step_lighter:
  assumes "rules_acyclic (kb_rules (by_kanban s))" and "kb_emitted (by_kanban s) \<noteq> []"
  shows "kb_rules (by_kanban (rule_step env s)) = kb_rules (by_kanban s)
    \<and> queue_weight (kb_rules (by_kanban s)) (kb_emitted (by_kanban (rule_step env s)))
      < queue_weight (kb_rules (by_kanban s)) (kb_emitted (by_kanban s))"
proof -
  let ?rs = "kb_rules (by_kanban s)"
  obtain a es where q: "kb_emitted (by_kanban s) = a # es" using assms(2) by (cases "kb_emitted (by_kanban s)") auto
  have step: "rule_step env s = handle_event env a (take_event s)" by (simp add: rule_step_def q)
  show ?thesis
  proof (cases "action_to_trigger (av_action a)")
    case None
    then show ?thesis using weight_pos[of ?rs "av_action a"] q step by (simp add: handle_event_def evaluate_rules_def)
  next
    case (Some trigger)
    then have t: "trigger = ''card_moved'' \<and> av_action a = ''moved'' \<or> trigger = ''subtasks_done'' \<and> av_action a = ''updated''"
      by (auto simp: action_to_trigger_def split: if_splits)
    let ?qs = "rules_by_trigger (av_board a) trigger (by_kanban (take_event s))"
    let ?acts = "filter (\<lambda>x. 2 * length ?rs * event_weight ?rs x < event_weight ?rs (av_action a)) (concat (map (action_events \<circ> ru_action) ?qs))"
    have qs: "r \<in> set ?rs \<and> ru_trigger r = trigger \<and> ru_enabled r" if "r \<in> set ?qs" for r
      using that by (auto simp: rules_by_trigger_def)
    have len: "length ?qs \<le> length ?rs" by (simp add: rules_by_trigger_def length_filter_le)
    have "set (action_events (ru_action r)) \<subseteq> set ?acts" if "r \<in> set ?qs" for r
    proof -
      have "has_rule ?rs trigger (ru_action r)" using qs[OF that] by (auto simp: has_rule_def)
      from follow_ups_lighter[OF assms(1) this _ t] show ?thesis using that by auto
    qed
    then have "grown_sys (2 * length ?qs) ?acts (take_event s) (fold (apply_rule env a d) ?qs (take_event s))" for d
      by (intro fold_rules_grown) auto
    moreover have "rule_step env s = take_event s \<or> (\<exists>d. rule_step env s = fold (apply_rule env a d) ?qs (take_event s))"
      using Some by (auto simp: step handle_event_def evaluate_rules_def Let_def)
    ultimately have g: "grown_sys (2 * length ?qs) ?acts (take_event s) (rule_step env s)" by (auto simp: grown_sys_refl)
    then obtain fs where fs: "kb_emitted (by_kanban (rule_step env s)) = es @ fs" "length fs \<le> 2 * length ?qs"
      "\<forall>e \<in> set fs. av_action e \<in> set ?acts" by (auto simp: grown_sys_def grown_def q)
    have "queue_weight ?rs fs < event_weight ?rs (av_action a)"
    proof (cases fs)
      case (Cons f fs')
      let ?w = "Max ((\<lambda>e. event_weight ?rs (av_action e)) ` set fs)"
      have w: "?w \<in> (\<lambda>e. event_weight ?rs (av_action e)) ` set fs" using Cons by (intro Max_in) auto
      have "queue_weight ?rs fs \<le> length fs * ?w" by (rule queue_weight_bound) simp
      also have "\<dots> \<le> 2 * length ?rs * ?w" using fs(2) len by (intro mult_le_mono1) linarith
      also have "\<dots> < event_weight ?rs (av_action a)" using w fs(3) by auto
      finally show ?thesis .
    qed (simp add: weight_pos)
    then show ?thesis using g q fs(1) by (simp add: grown_sys_def grown_def)
  qed
qed

text \<open>
  C28. If no move leads to a move and no task to a task, the rules of the boards come to rest: all events are
  handled, after at most as many steps as the waiting events weigh.
\<close>
theorem rules_come_to_rest:
  assumes "rules_acyclic (kb_rules (by_kanban s))"
  shows "\<exists>n \<le> queue_weight (kb_rules (by_kanban s)) (kb_emitted (by_kanban s)).
    run_rules env s = Some ((rule_step env ^^ n) s) \<and> kb_emitted (by_kanban ((rule_step env ^^ n) s)) = []"
  using assms
proof (induction "queue_weight (kb_rules (by_kanban s)) (kb_emitted (by_kanban s))" arbitrary: s rule: less_induct)
  case less
  show ?case
  proof (cases "kb_emitted (by_kanban s)")
    case Nil
    then show ?thesis by (intro exI[of _ 0]) (simp add: run_rules.simps)
  next
    case (Cons a es)
    let ?t = "rule_step env s"
    have l: "kb_rules (by_kanban ?t) = kb_rules (by_kanban s)"
      "queue_weight (kb_rules (by_kanban s)) (kb_emitted (by_kanban ?t)) < queue_weight (kb_rules (by_kanban s)) (kb_emitted (by_kanban s))"
      using rule_step_lighter[of s env] less.prems Cons by auto
    then obtain n where n: "n \<le> queue_weight (kb_rules (by_kanban s)) (kb_emitted (by_kanban ?t))"
      "run_rules env ?t = Some ((rule_step env ^^ n) ?t)" "kb_emitted (by_kanban ((rule_step env ^^ n) ?t)) = []"
      using less.hyps[of ?t] less.prems by auto
    have "run_rules env s = run_rules env ?t" using Cons by (subst run_rules.simps) (simp add: rule_step_def)
    then show ?thesis using n l by (intro exI[of _ "Suc n"]) (simp add: funpow_swap1)
  qed
qed


definition demo_rule_env :: "nat rule_env" where
  "demo_rule_env = \<lparr>re_number = (\<lambda>_. []), re_clock = int, re_workflow = None,
     re_task = Some (\<lambda>_ w. (BridgeAnswer True (Some (''t'' @ nat_text w)), w + 1))\<rparr>"

definition demo_rules_ops :: "string \<Rightarrow> string \<Rightarrow> memory \<Rightarrow> kanban_op list" where
  "demo_rules_ops trigger action params =
     [CreateBoard 1 ''Ops'' ''channel'' ''c1'' None, AddRule 2 ''uuid-0'' trigger [] action params,
      CreateCard 3 \<lparr>ci_board = ''uuid-0'', ci_title = ''one'', ci_description = None, ci_column = None, ci_priority = None,
        ci_labels = None, ci_assignee = None, ci_created_by = ''alice'', ci_parent = None, ci_task = None, ci_due = None,
        ci_metadata = None\<rparr>,
      MoveCard 4 ''OPS-1'' ''done'' None None]"

definition demo_system :: "string \<Rightarrow> string \<Rightarrow> memory \<Rightarrow> nat board_system" where
  "demo_system trigger action params =
     \<lparr>by_kanban = run_steps kanban_step (demo_rules_ops trigger action params) kanban_new, by_world = 0, by_watched = [''uuid-0'']\<rparr>"

lemma rules_come_to_rest_witness:
  "\<exists>t. run_rules demo_rule_env (demo_system ''card_moved'' ''create_task'' []) = Some t \<and> kb_emitted (by_kanban t) = []"
proof -
  have "rules_acyclic (kb_rules (by_kanban (demo_system ''card_moved'' ''create_task'' [])))" by code_simp
  from rules_come_to_rest[OF this, of demo_rule_env] show ?thesis by blast
qed

text \<open>The task is created once, and the card carries it.\<close>

lemma task_of_a_move:
  "(let t = (rule_step demo_rule_env ^^ 4) (demo_system ''card_moved'' ''create_task'' [])
    in by_world t = 1 \<and> kb_emitted (by_kanban t) = []
       \<and> map ca_task (kb_cards (by_kanban t)) = [Some ''t0''])"
  by code_simp


section \<open>Rules that do not\<close>

text \<open>The calls of a store that is coherent draw a new identifier, so a move is logged and emitted.\<close>

lemma move_emits:
  assumes "kanban_ok k" and "get_row cid k = Some c"
  shows "\<exists>e. kb_emitted (snd (move_card now cid col p actor k)) = kb_emitted k @ [e]
     \<and> av_action e = ''moved'' \<and> av_card e = cid \<and> av_board e = ca_board c"
proof -
  have "uuid_of (kb_uuids k) \<notin> set (map av_id (kb_activities k))"
    using assms(1) by (intro drawn_fresh) (simp add: kanban_ok_def ids_simps)
  then show ?thesis using assms(2) by (simp add: move_card_def Let_def log_activity_def)
qed

lemma home_row:
  assumes "kanban_ok k" and "(cid, bid) \<in> set (card_homes k)"
  shows "\<exists>c. get_row cid k = Some c \<and> ca_board c = bid"
proof -
  obtain c where c: "c \<in> set (kb_cards k)" "ca_id c = cid" "ca_board c = bid" using assms(2) by (auto simp: card_homes_def)
  then obtain d where d: "get_row cid k = Some d"
    by (cases "get_row cid k") (auto simp: get_row_def find_None_iff)
  then have "d = c" using get_rowD[OF d] c assms(1) by (auto simp: kanban_ok_def cards_ok_def distinct_map inj_on_def)
  then show ?thesis using d c by auto
qed

text \<open>A rule that moves cards whenever one is moved, on a board that is watched, with such a move waiting.\<close>

definition endless :: "rule_row \<Rightarrow> 'w rule_env \<Rightarrow> 'w board_system \<Rightarrow> bool" where
  "endless r env s \<longleftrightarrow> kanban_ok (by_kanban s) \<and> r \<in> set (kb_rules (by_kanban s)) \<and> ru_board r \<in> set (by_watched s)
     \<and> (\<exists>a \<in> set (kb_emitted (by_kanban s)). av_action a = ''moved'' \<and> av_board a = ru_board r
          \<and> (av_card a, ru_board r) \<in> set (card_homes (by_kanban s)))"

lemma fold_rules_keep:
  "grown_sys (2 * length qs) (concat (map (action_events \<circ> ru_action) qs)) s (fold (apply_rule env a d) qs s)"
  by (rule fold_rules_grown) auto

lemma evaluate_grown: "\<exists>n acts. grown_sys n acts s (evaluate_rules env a s)"
proof (cases "action_to_trigger (av_action a)")
  case None
  then show ?thesis using grown_sys_refl[of 0 "[]" s] by (auto simp: evaluate_rules_def)
next
  case (Some t)
  then show ?thesis using fold_rules_keep by (fastforce simp: evaluate_rules_def Let_def)
qed

lemma handle_grown: "\<exists>n acts. grown_sys n acts s (handle_event env a s)"
proof (cases "av_board a \<in> set (by_watched s)")
  case False
  then show ?thesis using grown_sys_refl[of 0 "[]" s] by (auto simp: handle_event_def)
qed (simp add: handle_event_def evaluate_grown)

lemma moving_rule_emits:
  assumes r: "ru_enabled r" "ru_trigger r = ''card_moved''" "ru_action r = ''move_card''" "ru_condition r = []"
    and col: "string_or_empty (re_number env) (memory_at (ru_params r) ''column_id'') \<noteq> []"
    and s: "kanban_ok (by_kanban s)" "r \<in> set (kb_rules (by_kanban s))"
    and a: "av_action a = ''moved''" "av_board a = ru_board r" "(av_card a, ru_board r) \<in> set (card_homes (by_kanban s))"
  shows "\<exists>e \<in> set (kb_emitted (by_kanban (evaluate_rules env a s))). av_action e = ''moved'' \<and> av_board e = ru_board r \<and> av_card e = av_card a"
proof -
  let ?qs = "rules_by_trigger (av_board a) ''card_moved'' (by_kanban s)"
  let ?d = "event_detail a ?qs (by_kanban s)"
  have "r \<in> set ?qs" using r s(2) a(2) by (simp add: rules_by_trigger_def)
  then obtain xs ys where qs: "?qs = xs @ r # ys" by (auto simp: in_set_conv_decomp)
  let ?t = "fold (apply_rule env a ?d) xs s" and ?f = "\<lambda>now k. snd (move_card now (av_card a)
    (string_or_empty (re_number env) (memory_at (ru_params r) ''column_id'')) None None k)"
  have "grown_sys (2 * length xs) (concat (map (action_events \<circ> ru_action) xs)) s ?t" by (rule fold_rules_keep)
  then have t: "kanban_ok (by_kanban ?t)" "(av_card a, ru_board r) \<in> set (card_homes (by_kanban ?t))"
    using s(1) a(3) by (auto simp: grown_sys_def grown_def)
  have step: "apply_rule env a ?d r ?t = store_call env ?f ?t"
    using r col a(1) by (simp add: apply_rule_def matches_trigger_def trigger_actions_def matches_condition_def Let_def execute_action_def)
  obtain c where c: "get_row (av_card a) (by_kanban ?t) = Some c" "ca_board c = ru_board r" using home_row[OF t] by blast
  obtain e where e: "kb_emitted (?f (re_clock env (by_world ?t)) (by_kanban ?t)) = kb_emitted (by_kanban ?t) @ [e]"
    "av_action e = ''moved''" "av_card e = av_card a" "av_board e = ru_board r"
    using move_emits[OF t(1) c(1)] c(2) by metis
  have "grown_sys (2 * length ys) (concat (map (action_events \<circ> ru_action) ys)) (store_call env ?f ?t)
      (fold (apply_rule env a ?d) ys (store_call env ?f ?t))" by (rule fold_rules_keep)
  moreover have "e \<in> set (kb_emitted (by_kanban (store_call env ?f ?t)))" using e(1) by (simp add: store_call_def)
  ultimately have "e \<in> set (kb_emitted (by_kanban (fold (apply_rule env a ?d) ys (store_call env ?f ?t))))"
    by (auto simp: grown_sys_def grown_def)
  moreover have "evaluate_rules env a s = fold (apply_rule env a ?d) ys (store_call env ?f ?t)"
    using qs step a(1) by (simp add: evaluate_rules_def action_to_trigger_def Let_def)
  ultimately show ?thesis using e by metis
qed

lemma take_event_ok: "kanban_ok (by_kanban s) \<Longrightarrow> kanban_ok (by_kanban (take_event s))"
  by (simp add: take_event_def kanban_ok_def ids_simps)

lemma endless_step:
  assumes r: "ru_enabled r" "ru_trigger r = ''card_moved''" "ru_action r = ''move_card''" "ru_condition r = []"
    and col: "string_or_empty (re_number env) (memory_at (ru_params r) ''column_id'') \<noteq> []"
    and s: "endless r env s" and q: "kb_emitted (by_kanban s) = a # es"
  shows "endless r env (handle_event env a (take_event s))"
proof -
  let ?s = "take_event s"
  obtain b where b: "b \<in> set (a # es)" "av_action b = ''moved''" "av_board b = ru_board r" "(av_card b, ru_board r) \<in> set (card_homes (by_kanban s))"
    using s q unfolding endless_def by metis
  have ok: "kanban_ok (by_kanban ?s)" using s take_event_ok by (auto simp: endless_def)
  obtain n acts where g: "grown_sys n acts ?s (handle_event env a ?s)"
    using handle_grown[of ?s env a] by blast
  have "\<exists>e \<in> set (kb_emitted (by_kanban (handle_event env a ?s))). av_action e = ''moved'' \<and> av_board e = ru_board r \<and> av_card e = av_card b"
  proof (cases "b \<in> set es")
    case True
    then have "b \<in> set (kb_emitted (by_kanban ?s))" using q by simp
    then show ?thesis using g b by (auto simp: grown_sys_def grown_def)
  next
    case False
    then have "b = a" using b(1) by simp
    then show ?thesis using moving_rule_emits[OF r col ok, of a] s b q
      by (auto simp: endless_def handle_event_def)
  qed
  then show ?thesis using g ok s b(4) by (auto simp: endless_def grown_sys_def grown_def)
qed

text \<open>
  A rule without a condition that moves a card when one is moved is triggered by its own move: once a card
  of the board is moved, the rules never come to rest.
\<close>
theorem moving_rule_never_rests:
  assumes r: "ru_enabled r" "ru_trigger r = ''card_moved''" "ru_action r = ''move_card''" "ru_condition r = []"
    and col: "string_or_empty (re_number env) (memory_at (ru_params r) ''column_id'') \<noteq> []"
    and s: "endless r env s"
  shows "run_rules env s = None"
proof (rule ccontr)
  assume "run_rules env s \<noteq> None"
  then obtain t where run: "run_rules env s = Some t" by blast
  have "env = env \<longrightarrow> \<not> endless r env s"
  proof (rule run_rules.raw_induct[OF _ run, of "\<lambda>e s t. e = env \<longrightarrow> \<not> endless r e s"])
    fix f e s t
    assume ih: "\<And>e s t. f e s = Some t \<Longrightarrow> e = env \<longrightarrow> \<not> endless r e s"
      and body: "(case kb_emitted (by_kanban s) of [] \<Rightarrow> Some s | a # _ \<Rightarrow> f e (handle_event e a (take_event s))) = Some t"
    show "e = env \<longrightarrow> \<not> endless r e s"
    proof (cases "kb_emitted (by_kanban s)")
      case Nil
      then show ?thesis by (simp add: endless_def)
    next
      case (Cons a es)
      then have "f e (handle_event e a (take_event s)) = Some t" using body by simp
      then show ?thesis using ih endless_step[OF r col _ Cons] by blast
    qed
  qed
  then show False using s by blast
qed

lemma moving_rule_never_rests_witness:
  "run_rules demo_rule_env (demo_system ''card_moved'' ''move_card'' [(''column_id'', JStr ''done'')]) = None"
proof -
  let ?s = "demo_system ''card_moved'' ''move_card'' [(''column_id'', JStr ''done'')]"
  let ?r = "kb_rules (by_kanban ?s) ! 0"
  have "kanban_ok (by_kanban ?s)" unfolding demo_system_def by (simp add: board_store.inv_run[OF kanban_ok_new])
  moreover have "?r \<in> set (kb_rules (by_kanban ?s)) \<and> ru_board ?r \<in> set (by_watched ?s)
     \<and> (\<exists>a \<in> set (kb_emitted (by_kanban ?s)). av_action a = ''moved'' \<and> av_board a = ru_board ?r
          \<and> (av_card a, ru_board ?r) \<in> set (card_homes (by_kanban ?s)))" by code_simp
  ultimately have "endless ?r demo_rule_env ?s" by (simp add: endless_def)
  moreover have "ru_enabled ?r" "ru_trigger ?r = ''card_moved''" "ru_action ?r = ''move_card''" "ru_condition ?r = []"
    "string_or_empty (re_number demo_rule_env) (memory_at (ru_params ?r) ''column_id'') \<noteq> []" by code_simp+
  ultimately show ?thesis using moving_rule_never_rests[of ?r demo_rule_env ?s] by blast
qed


text \<open>Tasks made for updates: each is written into the card, which is an update.\<close>

lemma task_rule_repeats:
  "(let s = demo_system ''subtasks_done'' ''create_task'' [];
        s = s\<lparr>by_kanban := snd (update_card 5 ''OPS-1'' (no_updates\<lparr>cu_title := Some ''two''\<rparr>) (by_kanban s))\<rparr>
    in by_world ((rule_step demo_rule_env ^^ 3) s) = 1 \<and> by_world ((rule_step demo_rule_env ^^ 5) s) = 2)"
  by code_simp

text \<open>A condition on the label bug is met by the label debug.\<close>

lemma label_condition_substring:
  "matches_condition num [(''label'', JStr ''bug'')] [(''labels'', JArr [JStr ''debug''])]"
  by code_simp


section \<open>Workflows that wait for an event\<close>

text \<open>
  The watcher's map and the listeners of the board: every subscription of the map is a listener of its workflow, no
  two listeners share a number.
\<close>

definition watcher_ok :: "trigger_watcher \<Rightarrow> bool" where
  "watcher_ok t \<longleftrightarrow> jwf (tw_subs t) \<and> distinct (map fst (tw_listeners t)) \<and> (\<forall>l\<in>set (tw_listeners t). fst l < tw_next t)
     \<and> (\<forall>e\<in>set (tw_subs t). \<exists>m. (snd e, fst e, m) \<in> set (tw_listeners t))"

lemma queue_part_fields [simp]:
  "tw_listeners (queue_part p t) = tw_listeners t" "tw_next (queue_part p t) = tw_next t"
  "tw_subs (queue_part p t) = tw_subs t" "tw_flows (queue_part p t) = tw_flows t"
  "tw_parts (queue_part p t) = tw_parts t @ [p]" "tw_resumed (queue_part p t) = tw_resumed t"
  by (simp_all add: queue_part_def)

lemma watcher_ok_cong:
  "watcher_ok t \<Longrightarrow> tw_listeners u = tw_listeners t \<Longrightarrow> tw_next u = tw_next t \<Longrightarrow> tw_subs u = tw_subs t \<Longrightarrow> watcher_ok u"
  by (simp add: watcher_ok_def)

lemma subscribe_flow_ok:
  assumes "watcher_ok t"
  shows "watcher_ok (subscribe_flow wid m t)"
proof -
  have "\<exists>m'. (snd e, fst e, m') \<in> set (tw_listeners t) \<or> \<not> (snd e, fst e) \<noteq> (tw_next t, wid)"
    if "e \<in> set (jset wid (tw_next t) (tw_subs t))" for e
    using that set_jset_subset[of wid "tw_next t" "tw_subs t"] assms unfolding watcher_ok_def by fastforce
  then show ?thesis using assms by (fastforce simp: watcher_ok_def subscribe_flow_def)
qed

lemma consider_flow_ok: "watcher_ok t \<Longrightarrow> watcher_ok (consider_flow e t)"
  by (simp add: consider_flow_def subscribe_waiting_def subscribe_flow_ok split: option.splits)

lemma fold_consider_ok: "watcher_ok t \<Longrightarrow> watcher_ok (fold consider_flow fs t)"
  by (induction fs arbitrary: t) (auto simp: consider_flow_ok)

text \<open>The first part of a resumption, for one workflow and for those of an event.\<close>

lemma inject_begin_fields [simp]:
  "tw_parts (inject_begin a w t) = tw_parts t @ [InjectRead w a]"
  "tw_subs (inject_begin a w t) = jdel w (tw_subs t)"
  "tw_flows (inject_begin a w t) = tw_flows t"
  "tw_next (inject_begin a w t) = tw_next t"
  "tw_resumed (inject_begin a w t) = tw_resumed t"
proof -
  have "jdel w (tw_subs t) = tw_subs t" if "jget (tw_subs t) w = None"
    using that by (simp add: jdel_notin map_of_eq_None_iff)
  then show "tw_subs (inject_begin a w t) = jdel w (tw_subs t)"
    by (simp add: inject_begin_def unsubscribe_listener_def split: option.splits)
qed (simp_all add: inject_begin_def unsubscribe_listener_def split: option.splits)

lemma inject_begin_listeners:
  assumes "watcher_ok t"
  shows "tw_listeners (inject_begin a w t)
    = filter (\<lambda>l. \<not> (fst (snd l) = w \<and> jget (tw_subs t) (fst (snd l)) = Some (fst l))) (tw_listeners t)"
proof (cases "jget (tw_subs t) w")
  case None
  then show ?thesis by (auto simp: inject_begin_def intro!: filter_True[symmetric])
next
  case (Some n)
  then obtain m where m: "(n, w, m) \<in> set (tw_listeners t)"
    using assms jget_mem[of "tw_subs t" w n] unfolding watcher_ok_def by fastforce
  have "fst (snd l) = w" if "l \<in> set (tw_listeners t)" "fst l = n" for l
  proof -
    have "(n, snd l) \<in> set (tw_listeners t)" using that by (metis prod.collapse)
    then have "snd l = (w, m)" using m assms unfolding watcher_ok_def by (metis eq_key_imp_eq_value)
    then show ?thesis by simp
  qed
  then show ?thesis using Some
    by (auto simp: inject_begin_def unsubscribe_listener_def intro!: filter_cong)
qed

lemma inject_begin_ok:
  assumes "watcher_ok t"
  shows "watcher_ok (inject_begin a w t)"
proof -
  have "distinct (map fst (filter P (tw_listeners t)))" for P
    using assms by (simp add: watcher_ok_def distinct_map_filter)
  moreover have "\<exists>m. (snd e, fst e, m) \<in> set (tw_listeners (inject_begin a w t))" if "e \<in> set (jdel w (tw_subs t))" for e
  proof -
    have e: "e \<in> set (tw_subs t)" "fst e \<noteq> w" using that by (auto simp: jdel_def)
    then obtain m where "(snd e, fst e, m) \<in> set (tw_listeners t)" using assms unfolding watcher_ok_def by blast
    then show ?thesis using e(2) by (auto simp: inject_begin_listeners[OF assms])
  qed
  ultimately show ?thesis using assms inject_begin_listeners[OF assms, of a w] by (simp add: watcher_ok_def)
qed

lemma event_begins:
  assumes "watcher_ok t"
  shows "tw_parts (fold (inject_begin a) ws t) = tw_parts t @ map (\<lambda>w. InjectRead w a) ws"
    and "tw_subs (fold (inject_begin a) ws t) = filter (\<lambda>e. fst e \<notin> set ws) (tw_subs t)"
    and "tw_flows (fold (inject_begin a) ws t) = tw_flows t"
    and "tw_resumed (fold (inject_begin a) ws t) = tw_resumed t"
    and "tw_listeners (fold (inject_begin a) ws t)
      = filter (\<lambda>l. \<not> (fst (snd l) \<in> set ws \<and> jget (tw_subs t) (fst (snd l)) = Some (fst l))) (tw_listeners t)"
    and "watcher_ok (fold (inject_begin a) ws t)"
proof -
  show "tw_parts (fold (inject_begin a) ws t) = tw_parts t @ map (\<lambda>w. InjectRead w a) ws"
    by (induction ws arbitrary: t) simp_all
  show "tw_subs (fold (inject_begin a) ws t) = filter (\<lambda>e. fst e \<notin> set ws) (tw_subs t)"
    by (induction ws arbitrary: t) (simp_all add: jdel_def conj_commute)
  show "tw_flows (fold (inject_begin a) ws t) = tw_flows t" by (induction ws arbitrary: t) simp_all
  show "tw_resumed (fold (inject_begin a) ws t) = tw_resumed t" by (induction ws arbitrary: t) simp_all
  show "watcher_ok (fold (inject_begin a) ws t)"
    using assms by (induction ws arbitrary: t) (simp_all add: inject_begin_ok)
  show "tw_listeners (fold (inject_begin a) ws t)
      = filter (\<lambda>l. \<not> (fst (snd l) \<in> set ws \<and> jget (tw_subs t) (fst (snd l)) = Some (fst l))) (tw_listeners t)"
    using assms
  proof (induction ws arbitrary: t)
    case (Cons w ws)
    show ?case unfolding fold_simps Cons.IH[OF inject_begin_ok[OF Cons.prems]] inject_begin_listeners[OF Cons.prems]
      by (auto intro!: filter_cong)
  qed simp
qed

lemma run_part_ok:
  assumes "watcher_ok t"
  shows "watcher_ok (run_part resume p t)"
proof (cases p)
  case (NotifyGot wid f)
  then show ?thesis using assms by (simp add: subscribe_waiting_def subscribe_flow_ok split: option.splits)
next
  case (ScanGot fs)
  then show ?thesis using assms by (simp add: fold_consider_ok)
qed (auto intro!: watcher_ok_cong[OF assms] split: option.splits)

lemma unsubscribe_listener_next: "tw_next (unsubscribe_listener n t) = tw_next t"
  by (simp add: unsubscribe_listener_def)

lemma dispose_watcher_ok:
  assumes "watcher_ok t"
  shows "watcher_ok (dispose_watcher t)"
proof -
  have "\<exists>P. tw_listeners (fold (\<lambda>e. unsubscribe_listener (snd e)) es t) = filter P (tw_listeners t)
      \<and> tw_next (fold (\<lambda>e. unsubscribe_listener (snd e)) es t) = tw_next t" for es :: "(string \<times> nat) list" and t
  proof (induction es arbitrary: t)
    case Nil
    then show ?case by (intro exI[of _ "\<lambda>_. True"]) simp
  next
    case (Cons e es)
    obtain P where P: "tw_listeners (fold (\<lambda>e. unsubscribe_listener (snd e)) es (unsubscribe_listener (snd e) t))
        = filter P (tw_listeners (unsubscribe_listener (snd e) t))"
      "tw_next (fold (\<lambda>e. unsubscribe_listener (snd e)) es (unsubscribe_listener (snd e) t)) = tw_next t"
      using Cons.IH[of "unsubscribe_listener (snd e) t"] unfolding unsubscribe_listener_next by blast
    have "tw_listeners (unsubscribe_listener (snd e) t) = filter (\<lambda>l. fst l \<noteq> snd e) (tw_listeners t)"
      by (simp add: unsubscribe_listener_def)
    then show ?case using P by (intro exI[of _ "\<lambda>l. fst l \<noteq> snd e \<and> P l"]) (simp add: conj_commute)
  qed
  then obtain P where "tw_listeners (dispose_watcher t) = filter P (tw_listeners t)" "tw_next (dispose_watcher t) = tw_next t"
    unfolding dispose_watcher_def by fastforce
  then show ?thesis using assms by (simp add: watcher_ok_def dispose_watcher_def distinct_map_filter)
qed

interpretation trigger_watching: machine "watcher_step resume" watcher_ok for resume
proof
  show "watcher_ok (watcher_step resume e t)" if "watcher_ok t" for e t
  proof (cases e)
    case (WatcherEvent a)
    then show ?thesis using event_begins(6)[OF that] by (simp add: watcher_event_def)
  next
    case (TakePart i)
    have "watcher_ok (t\<lparr>tw_parts := ps\<rparr>)" for ps by (rule watcher_ok_cong[OF that]) simp_all
    then show ?thesis using TakePart that by (simp add: take_part_def run_part_ok)
  qed (auto simp: scan_flows_def notify_flow_def intro!: dispose_watcher_ok that watcher_ok_cong[OF that])
qed

text \<open>
  The later parts of resumptions that begin together: all workflows are read, the event is written into those that
  wait, and these are resumed.
\<close>

definition flow_waits :: "workflow_table \<Rightarrow> string \<Rightarrow> bool" where
  "flow_waits fs w = (case jget fs w of None \<Rightarrow> False | Some f \<Rightarrow> ww_waiting f)"

definition give_event :: "activity_row \<Rightarrow> workflow_table \<Rightarrow> string \<Rightarrow> workflow_table \<Rightarrow> workflow_table" where
  "give_event a fs w = jset w ((the (jget fs w))\<lparr>ww_event := Some a\<rparr>)"

abbreviation take_first :: "(string \<Rightarrow> workflow_table \<Rightarrow> workflow_table) \<Rightarrow> nat \<Rightarrow> trigger_watcher \<Rightarrow> trigger_watcher" where
  "take_first resume n \<equiv> run_steps (watcher_step resume) (replicate n (TakePart 0))"

lemma take_reads:
  "tw_parts t = map (\<lambda>w. InjectRead w a) ws @ ps \<Longrightarrow> take_first resume (length ws) t
     = t\<lparr>tw_parts := ps @ map (\<lambda>w. InjectGot w a (the (jget (tw_flows t) w))) (filter (flow_waits (tw_flows t)) ws)\<rparr>"
proof (induction ws arbitrary: t ps)
  case (Cons w ws)
  let ?g = "\<lambda>w. InjectGot w a (the (jget (tw_flows t) w))"
  let ?t = "take_part resume 0 t"
  have t: "?t = t\<lparr>tw_parts := map (\<lambda>w. InjectRead w a) ws @ ps @ (if flow_waits (tw_flows t) w then [?g w] else [])\<rparr>"
    using Cons.prems by (simp add: take_part_def flow_waits_def queue_part_def split: option.splits)
  have "take_first resume (length ws) ?t = ?t\<lparr>tw_parts := (ps @ (if flow_waits (tw_flows t) w then [?g w] else []))
      @ map (\<lambda>w. InjectGot w a (the (jget (tw_flows ?t) w))) (filter (flow_waits (tw_flows ?t)) ws)\<rparr>"
    by (rule Cons.IH) (simp add: t)
  then show ?case by (simp add: t)
qed simp

lemma take_writes:
  "tw_parts t = map (\<lambda>w. InjectGot w a (the (jget fs w))) ws @ ps \<Longrightarrow> take_first resume (length ws) t
     = t\<lparr>tw_parts := ps @ map (\<lambda>w. InjectResume w a) ws, tw_flows := fold (give_event a fs) ws (tw_flows t)\<rparr>"
proof (induction ws arbitrary: t ps)
  case (Cons w ws)
  let ?t = "take_part resume 0 t"
  have t: "?t = t\<lparr>tw_parts := map (\<lambda>w. InjectGot w a (the (jget fs w))) ws @ ps @ [InjectResume w a],
      tw_flows := give_event a fs w (tw_flows t)\<rparr>"
    using Cons.prems by (simp add: take_part_def queue_part_def give_event_def)
  have "take_first resume (length ws) ?t = ?t\<lparr>tw_parts := (ps @ [InjectResume w a]) @ map (\<lambda>w. InjectResume w a) ws,
      tw_flows := fold (give_event a fs) ws (tw_flows ?t)\<rparr>"
    by (rule Cons.IH) (simp add: t)
  then show ?case by (simp add: t)
qed simp

lemma take_resumes:
  "tw_parts t = map (\<lambda>w. InjectResume w a) ws @ ps \<Longrightarrow> take_first resume (length ws) t
     = t\<lparr>tw_parts := ps, tw_flows := fold resume ws (tw_flows t), tw_resumed := tw_resumed t @ map (\<lambda>w. (w, a)) ws\<rparr>"
proof (induction ws arbitrary: t ps)
  case (Cons w ws)
  let ?t = "take_part resume 0 t"
  have t: "?t = t\<lparr>tw_parts := map (\<lambda>w. InjectResume w a) ws @ ps,
      tw_flows := resume w (tw_flows t), tw_resumed := tw_resumed t @ [(w, a)]\<rparr>"
    using Cons.prems by (simp add: take_part_def)
  have "take_first resume (length ws) ?t = ?t\<lparr>tw_parts := ps, tw_flows := fold resume ws (tw_flows ?t),
      tw_resumed := tw_resumed ?t @ map (\<lambda>w. (w, a)) ws\<rparr>"
    by (rule Cons.IH) (simp add: t)
  then show ?case by (simp add: t)
qed simp

lemma event_parts:
  assumes "tw_parts t = map (\<lambda>w. InjectRead w a) ws"
  defines "waits \<equiv> filter (flow_waits (tw_flows t)) ws"
  shows "take_first resume (length ws + 2 * length waits) t
    = t\<lparr>tw_parts := [], tw_flows := fold resume waits (fold (give_event a (tw_flows t)) waits (tw_flows t)),
        tw_resumed := tw_resumed t @ map (\<lambda>w. (w, a)) waits\<rparr>"
proof -
  let ?t1 = "t\<lparr>tw_parts := map (\<lambda>w. InjectGot w a (the (jget (tw_flows t) w))) waits\<rparr>"
  let ?t2 = "?t1\<lparr>tw_parts := map (\<lambda>w. InjectResume w a) waits, tw_flows := fold (give_event a (tw_flows t)) waits (tw_flows t)\<rparr>"
  have 1: "take_first resume (length ws) t = ?t1"
    using take_reads[of t a ws "[]" resume] assms(1) unfolding waits_def by simp
  have 2: "take_first resume (length waits) ?t1 = ?t2"
    using take_writes[of ?t1 a "tw_flows t" waits "[]" resume] by simp
  have 3: "take_first resume (length waits) ?t2 = ?t2\<lparr>tw_parts := [], tw_flows := fold resume waits (tw_flows ?t2),
      tw_resumed := tw_resumed t @ map (\<lambda>w. (w, a)) waits\<rparr>"
    using take_resumes[of ?t2 a waits "[]" resume] by simp
  show ?thesis unfolding mult_2 replicate_add run_steps_append 1 2 3 by simp
qed

text \<open>
  C29. Whatever happened to a watcher before, in whatever order the answers it awaited came: an event begins a
  resumption for exactly the listeners it matches, in the order they subscribed; the subscriptions of their
  workflows are gone, with the listeners these had, and all others stay. If the watcher awaits nothing else and the
  answers come in the order of their questions, these resumptions end, the event is written into exactly those of the
  workflows that wait, and each of these is resumed, once for each of its listeners; a second listener can only be one
  that a notification left behind (below). Every subscription of the watcher's map has its listener.
\<close>
theorem event_resumes_matching:
  "let t = run_steps (watcher_step resume) ops watcher_new;
       hit = map (\<lambda>l. fst (snd l)) (filter (\<lambda>l. trigger_matches (snd (snd l)) a) (tw_listeners t));
       waits = filter (flow_waits (tw_flows t)) hit;
       t' = watcher_event a t;
       u = take_first resume (length hit + 2 * length waits) t'
   in tw_parts t' = tw_parts t @ map (\<lambda>w. InjectRead w a) hit
      \<and> tw_subs t' = filter (\<lambda>e. fst e \<notin> set hit) (tw_subs t)
      \<and> tw_listeners t' = filter (\<lambda>l. \<not> (fst (snd l) \<in> set hit \<and> jget (tw_subs t) (fst (snd l)) = Some (fst l))) (tw_listeners t)
      \<and> (if tw_parts t = [] then tw_resumed u = tw_resumed t @ map (\<lambda>w. (w, a)) waits \<and> tw_parts u = []
            \<and> tw_flows u = fold resume waits (fold (give_event a (tw_flows t)) waits (tw_flows t))
         else True)
      \<and> list_all (\<lambda>e. \<exists>m. (snd e, fst e, m) \<in> set (tw_listeners t)) (tw_subs t)"
proof -
  let ?t = "run_steps (watcher_step resume) ops watcher_new"
  let ?hit = "map (\<lambda>l. fst (snd l)) (filter (\<lambda>l. trigger_matches (snd (snd l)) a) (tw_listeners ?t))"
  have ok: "watcher_ok ?t"
    by (rule trigger_watching.inv_run) (simp add: watcher_ok_def watcher_new_def jwf_def jkeys_def)
  note begins = event_begins[OF ok, of a ?hit]
  have "list_all (\<lambda>e. \<exists>m. (snd e, fst e, m) \<in> set (tw_listeners ?t)) (tw_subs ?t)"
    using ok by (simp add: watcher_ok_def list_all_iff)
  then show ?thesis
    unfolding Let_def watcher_event_def
    using begins(1,2,5) event_parts[of "fold (inject_begin a) ?hit ?t" a ?hit resume]
    by (simp add: begins(3,4))
qed

text \<open>
  A notification asks whether the workflow is subscribed before it awaits the workflow. Two of them leave two
  listeners, of which the map knows one: one event resumes the workflow twice.
\<close>

definition demo_trigger :: "string \<Rightarrow> pending_trigger" where
  "demo_trigger bid = \<lparr>pt_node = ''n'', pt_board = bid, pt_actions = [], pt_column = []\<rparr>"

definition demo_event :: "string \<Rightarrow> activity_row" where
  "demo_event bid = \<lparr>av_id = ''e'', av_card = ''c'', av_board = bid, av_actor = ''alice'', av_action = ''created'', av_detail = [], av_created = 0\<rparr>"

lemma notify_twice_resumes_twice:
  "(let parts = replicate 4 (TakePart 0);
        t = run_steps (watcher_step (\<lambda>_ fs. fs))
              ([ChangeFlows [(''wf'', \<lparr>ww_waiting = True, ww_pending = Some (demo_trigger ''b1''), ww_event = None\<rparr>)],
                NotifyFlow ''wf'', NotifyFlow ''wf''] @ parts @ [WatcherEvent (demo_event ''b1'')] @ parts @ parts) watcher_new
    in map fst (tw_resumed t) = [''wf'', ''wf''] \<and> tw_subs t = [] \<and> length (tw_listeners t) = 1)"
  by code_simp

text \<open>
  A subscription is kept when its workflow was resumed otherwise. If that workflow waits again, for another
  board, it is not subscribed there; the old board's events resume it.
\<close>

lemma stale_subscription_resumes:
  "(let flow = (\<lambda>w b. [(''wf'', \<lparr>ww_waiting = w, ww_pending = Some (demo_trigger b), ww_event = None\<rparr>)]);
        parts = replicate 6 (TakePart 0);
        t = run_steps (watcher_step (\<lambda>_ fs. fs))
              ([ChangeFlows (flow True ''b1''), ScanFlows] @ parts @ [ChangeFlows (flow False ''b1''),
               ChangeFlows (flow True ''b2''), NotifyFlow ''wf''] @ parts @ [ScanFlows] @ parts) watcher_new
    in tw_resumed (run_steps (watcher_step (\<lambda>_ fs. fs)) (WatcherEvent (demo_event ''b2'') # parts) t) = []
       \<and> map fst (tw_resumed (run_steps (watcher_step (\<lambda>_ fs. fs)) (WatcherEvent (demo_event ''b1'') # parts) t)) = [''wf''])"
  by code_simp

end
