(* ===== verification/Subagents.thy ===== *)
theory Subagents
  imports JsText Reconcile
begin

text \<open>
  \<open>src/src/agent/subagents.ts\<close>: the registry of subagents and the run of one of them, a controller that
  plans turns and an executor that carries them out.

  A run shares the registry with everything else: every call it waits for, of a model, a backend or a tool,
  is an argument that may also change the registry, as another operation would. Publishing a message and
  firing an event are entries of a log. Streamed previews and the texts of prompts are left out. Times are
  milliseconds.
\<close>

section \<open>The registry\<close>

datatype sub_status = SubIdle | SubRunning | SubCompleted | SubFailed | SubCancelled | SubOffline

record sub_ref =
  sa_role :: string
  sa_team :: string
  sa_model :: "string option"
  sa_status :: sub_status
  sa_session :: string
  sa_created :: int
  sa_updated :: int
  sa_error :: "string option"
  sa_result :: "string option"
  sa_label :: string

record sub_running =
  sg_aborted :: bool
  sg_parent :: "string option"
  sg_input :: bool

record subagents =
  sb_items :: "(string, sub_ref) jmap"
  sb_running :: "(string, sub_running) jmap"

definition subagents_new :: subagents where
  "subagents_new = \<lparr>sb_items = [], sb_running = []\<rparr>"

definition sub_terminal :: "sub_status \<Rightarrow> bool" where
  "sub_terminal st \<longleftrightarrow> st = SubCompleted \<or> st = SubFailed \<or> st = SubCancelled"

text \<open>Pruning with nothing that has ended reads the first of no entries: an exception.\<close>

definition prune_items :: "subagents \<Rightarrow> subagents option" where
  "prune_items g =
     (let ended = sort_key (\<lambda>e. sa_updated (snd e)) (filter (\<lambda>e. sa_status (snd e) \<in> {SubCompleted, SubFailed, SubCancelled}) (sb_items g));
          target = nat (max 1 (int (length ended) - 50))
      in if length ended < target then None
         else Some (g\<lparr>sb_items := filter (\<lambda>e. fst e \<notin> set (map fst (take target ended))) (sb_items g)\<rparr>))"

definition prune_if_full :: "subagents \<Rightarrow> bool \<times> subagents" where
  "prune_if_full g =
     (if 500 < length (sb_items g) then (case prune_items g of Some h \<Rightarrow> (True, h) | None \<Rightarrow> (False, g)) else (True, g))"

text \<open>
  The fields a new reference has over those of the old one; the time of creation stays. The flag says that
  the operation returned.
\<close>

definition over_ref :: "sub_ref \<Rightarrow> sub_ref \<Rightarrow> sub_ref" where
  "over_ref prev ref = ref\<lparr>
     sa_model := (if sa_model ref = None then sa_model prev else sa_model ref),
     sa_session := (if sa_session ref = [] then sa_session prev else sa_session ref),
     sa_error := (if sa_error ref = None then sa_error prev else sa_error ref),
     sa_result := (if sa_result ref = None then sa_result prev else sa_result ref),
     sa_label := (if sa_label ref = [] then sa_label prev else sa_label ref),
     sa_created := sa_created prev\<rparr>"

definition sub_upsert :: "int \<Rightarrow> string \<Rightarrow> sub_ref \<Rightarrow> subagents \<Rightarrow> bool \<times> subagents" where
  "sub_upsert now sid ref g =
     (let merged = (case jget (sb_items g) sid of Some prev \<Rightarrow> over_ref prev ref | None \<Rightarrow> ref)
      in prune_if_full (g\<lparr>sb_items := jset sid (merged\<lparr>sa_updated := now\<rparr>) (sb_items g)\<rparr>))"

definition sub_get :: "string \<Rightarrow> subagents \<Rightarrow> sub_ref option" where
  "sub_get sid g = jget (sb_items g) sid"

definition sub_list :: "subagents \<Rightarrow> sub_ref list" where
  "sub_list g = sort_key (\<lambda>r. - sa_updated r) (jvals (sb_items g))"

definition running_count :: "subagents \<Rightarrow> nat" where
  "running_count g = length (sb_running g)"

definition max_concurrent_subagents :: nat where
  "max_concurrent_subagents = 10"

record sub_options =
  so_task :: string
  so_role :: string
  so_team :: "string option"
  so_label :: string
  so_provider :: "string option"
  so_model :: "string option"
  so_max_iterations :: int
  so_channel :: string
  so_chat :: string
  so_announce :: bool
  so_parent :: string
  so_skip_controller :: bool
  so_hooks :: bool

definition option_label :: "sub_options \<Rightarrow> string" where
  "option_label o1 = (if so_label o1 = [] then take 40 (so_task o1) else so_label o1)"

datatype spawn_answer = SpawnRejected | SpawnStarted string

definition sub_spawn :: "int \<Rightarrow> string \<Rightarrow> sub_options \<Rightarrow> subagents \<Rightarrow> spawn_answer \<times> subagents" where
  "sub_spawn now sid o1 g =
     (if max_concurrent_subagents \<le> length (sb_running g) then (SpawnRejected, g)
      else let ref = \<lparr>sa_role = (if so_role o1 = [] then ''worker'' else so_role o1),
                      sa_team = (case so_team o1 of Some t \<Rightarrow> t | None \<Rightarrow> []), sa_model = so_model o1, sa_status = SubRunning,
                      sa_session = [], sa_created = now, sa_updated = now, sa_error = None, sa_result = None,
                      sa_label = option_label o1\<rparr>;
               entry = \<lparr>sg_aborted = False, sg_parent = (if so_parent o1 = [] then None else Some (so_parent o1)), sg_input = False\<rparr>
           in (SpawnStarted sid, g\<lparr>sb_items := jset sid ref (sb_items g), sb_running := jset sid entry (sb_running g)\<rparr>))"

text \<open>The end of a run takes the entry away.\<close>

definition sub_settled :: "string \<Rightarrow> subagents \<Rightarrow> subagents" where
  "sub_settled sid g = g\<lparr>sb_running := jdel sid (sb_running g)\<rparr>"

definition register_input :: "string \<Rightarrow> subagents \<Rightarrow> subagents" where
  "register_input sid g = g\<lparr>sb_running := map (\<lambda>e. if fst e = sid then (sid, (snd e)\<lparr>sg_input := True\<rparr>) else e) (sb_running g)\<rparr>"

definition sub_send_input :: "string \<Rightarrow> subagents \<Rightarrow> bool" where
  "sub_send_input sid g = (case jget (sb_running g) sid of Some r \<Rightarrow> sg_input r | None \<Rightarrow> False)"

definition mark_cancelled :: "int \<Rightarrow> string \<Rightarrow> subagents \<Rightarrow> subagents" where
  "mark_cancelled now sid g = g\<lparr>
     sb_running := map (\<lambda>e. if fst e = sid then (sid, (snd e)\<lparr>sg_aborted := True\<rparr>) else e) (sb_running g),
     sb_items := map (\<lambda>e. if fst e = sid then (sid, (snd e)\<lparr>sa_status := SubCancelled, sa_updated := now\<rparr>) else e) (sb_items g)\<rparr>"

definition children_of :: "string \<Rightarrow> subagents \<Rightarrow> string list" where
  "children_of sid g = map fst (filter (\<lambda>e. sg_parent (snd e) = Some sid) (sb_running g))"

text \<open>Cancelling goes down to the children; the fuel bounds how deep.\<close>

fun cancel_sub :: "nat \<Rightarrow> int \<Rightarrow> bool \<Rightarrow> string \<Rightarrow> subagents \<Rightarrow> bool \<times> subagents" where
  "cancel_sub 0 now cascade sid g = (False, g)"
| "cancel_sub (Suc n) now cascade sid g =
     (case jget (sb_running g) sid of
       None \<Rightarrow> (False, g)
     | Some _ \<Rightarrow> let g = mark_cancelled now sid g
                 in (True, if cascade then fold (\<lambda>c g. snd (cancel_sub n now True c g)) (children_of sid g) g else g))"

definition sub_cancel :: "int \<Rightarrow> bool \<Rightarrow> string \<Rightarrow> subagents \<Rightarrow> bool \<times> subagents" where
  "sub_cancel now cascade sid g = cancel_sub (length (sb_running g)) now cascade sid g"

definition cancel_by_parent :: "int \<Rightarrow> string \<Rightarrow> subagents \<Rightarrow> nat \<times> subagents" where
  "cancel_by_parent now parent g =
     (let ids = children_of parent g
      in (length ids, fold (\<lambda>c g. snd (sub_cancel now True c g)) ids g))"

definition update_status :: "int \<Rightarrow> string \<Rightarrow> sub_status \<Rightarrow> string option \<Rightarrow> string option \<Rightarrow> subagents \<Rightarrow> subagents" where
  "update_status now sid st err res g =
     g\<lparr>sb_items := map (\<lambda>e. if fst e = sid
         then (sid, (snd e)\<lparr>sa_status := st, sa_error := err, sa_result := res, sa_updated := now\<rparr>) else e) (sb_items g)\<rparr>"

text \<open>One look at a subagent that is waited for: nothing means to look again later.\<close>

datatype wait_answer = WaitGone | WaitEnded sub_status "string option"

definition wait_poll :: "int \<Rightarrow> int \<Rightarrow> int \<Rightarrow> string \<Rightarrow> subagents \<Rightarrow> wait_answer option" where
  "wait_poll timeout_ms started now sid g =
     (if 0 < timeout_ms \<and> timeout_ms < now - started then Some (WaitEnded SubFailed (Some (''subagent_timeout_'' @ int_text timeout_ms @ ''ms'')))
      else (case jget (sb_items g) sid of
        None \<Rightarrow> Some WaitGone
      | Some r \<Rightarrow> if sa_status r = SubCompleted then Some (WaitEnded SubCompleted (sa_result r))
                  else if sa_status r \<in> {SubFailed, SubCancelled, SubOffline} then Some (WaitEnded (sa_status r) (sa_error r))
                  else None))"

text \<open>The registry at one look after the other.\<close>

fun wait_for_completion :: "int \<Rightarrow> int \<Rightarrow> string \<Rightarrow> (int \<times> subagents) list \<Rightarrow> wait_answer option" where
  "wait_for_completion timeout_ms started sid [] = None"
| "wait_for_completion timeout_ms started sid ((now, g) # looks) =
     (case wait_poll timeout_ms started now sid g of Some x \<Rightarrow> Some x | None \<Rightarrow> wait_for_completion timeout_ms started sid looks)"

definition capture_session :: "string \<Rightarrow> string \<Rightarrow> subagents \<Rightarrow> subagents" where
  "capture_session sid ses g = (if ses = [] then g else
     g\<lparr>sb_items := map (\<lambda>e. if fst e = sid \<and> sa_session (snd e) = [] then (sid, (snd e)\<lparr>sa_session := ses\<rparr>) else e) (sb_items g)\<rparr>)"


section \<open>Plans\<close>

record controller_plan =
  cp_done :: bool
  cp_prompt :: string
  cp_answer :: string
  cp_handoffs :: "(string \<times> string) list"

definition plan_text :: "(rat \<Rightarrow> string) \<Rightarrow> jsval \<Rightarrow> string \<Rightarrow> string" where
  "plan_text num v key = str_trim (string_or_empty num (js_get v key))"

definition plan_handoffs :: "(rat \<Rightarrow> string) \<Rightarrow> jsval \<Rightarrow> (string \<times> string) list" where
  "plan_handoffs num v =
     (case js_get v ''handoffs'' of
       JArr rows \<Rightarrow> filter (\<lambda>(alias, instr). alias \<noteq> [] \<and> instr \<noteq> [])
         (map (\<lambda>row. (plan_text num row ''alias'', plan_text num row ''instruction'')) rows)
     | _ \<Rightarrow> [])"

text \<open>
  The answer of the controller as a plan. What is no JSON is an instruction for the executor; so is the text
  null, because reading a property of it fails.
\<close>

definition parse_controller_plan :: "(string \<Rightarrow> jsval option) \<Rightarrow> (rat \<Rightarrow> string) \<Rightarrow> string \<Rightarrow> controller_plan" where
  "parse_controller_plan parse num raw =
     (let t = str_trim raw;
          plain = (\<lambda>p. \<lparr>cp_done = False, cp_prompt = p, cp_answer = [], cp_handoffs = []\<rparr>)
      in if t = [] then plain []
         else (case parse t of
           None \<Rightarrow> plain t
         | Some v \<Rightarrow> if v = JNull then plain t
             else \<lparr>cp_done = js_truthy (js_get v ''done''), cp_prompt = plan_text num v ''executor_prompt'',
                   cp_answer = plan_text num v ''final_answer'', cp_handoffs = plan_handoffs num v\<rparr>))"

end
