(* ===== verification/SubagentRun.thy ===== *)
theory SubagentRun
  imports Subagents
begin

text \<open>
  The run of a subagent, \<open>_run_subagent\<close> of \<open>src/src/agent/subagents.ts\<close>.
\<close>

section \<open>Calls and log\<close>

datatype 'a call_result = CallThrows string | CallReturns 'a

record sub_call =
  sq_id :: string
  sq_name :: string
  sq_args :: jsval

record native_reply =
  nr_finish :: string
  nr_content :: string
  nr_error :: string
  nr_session :: string

record headless_reply =
  hr_content :: string
  hr_has_calls :: bool
  hr_calls :: "sub_call list"
  hr_session :: string

datatype tool_message = CallMessage string "sub_call list" | AnswerMessage string string string

datatype sub_event =
    EvInit
  | EvPlan nat bool
  | EvToolUse string string
  | EvToolResult string string string
  | EvComplete string string
  | EvError string
  | MsgProgress nat
  | MsgHandoff string string
  | MsgResult string

type_synonym ('a, 'w) sub_await = "'w \<Rightarrow> subagents \<Rightarrow> 'a call_result \<times> 'w \<times> subagents"

record 'w sub_env =
  se_clock :: "'w \<Rightarrow> int"
  se_number :: "rat \<Rightarrow> string"
  se_parse :: "string \<Rightarrow> jsval option"
  se_bus :: bool
  se_context :: "(unit, 'w) sub_await"
  se_controller :: "nat \<Rightarrow> string \<Rightarrow> (string, 'w) sub_await"
  se_native :: "(string \<Rightarrow> string \<Rightarrow> (native_reply, 'w) sub_await) option"
  se_direct :: "(string \<Rightarrow> (native_reply, 'w) sub_await) option"
  se_headless :: "string \<Rightarrow> (headless_reply, 'w) sub_await"
  se_followup :: "string \<Rightarrow> tool_message list \<Rightarrow> (headless_reply, 'w) sub_await"
  se_tool :: "string \<Rightarrow> jsval \<Rightarrow> (string, 'w) sub_await"
  se_text_calls :: "string \<Rightarrow> sub_call list"
  se_error_reply :: "string \<Rightarrow> bool"
  se_sanitize :: "string \<Rightarrow> string"

record 'w sub_run =
  sr_reg :: subagents
  sr_world :: 'w
  sr_log :: "sub_event list"
  sr_seen :: "string list"
  sr_turns :: nat
  sr_last :: string
  sr_finish :: string

definition sub_await :: "('a, 'w) sub_await \<Rightarrow> 'w sub_run \<Rightarrow> 'a call_result \<times> 'w sub_run" where
  "sub_await f s = (let (a, w, g) = f (sr_world s) (sr_reg s) in (a, s\<lparr>sr_world := w, sr_reg := g\<rparr>))"

definition fire_event :: "sub_options \<Rightarrow> sub_event \<Rightarrow> 'w sub_run \<Rightarrow> 'w sub_run" where
  "fire_event o1 e s = (if so_hooks o1 then s\<lparr>sr_log := sr_log s @ [e]\<rparr> else s)"

text \<open>A message goes to the chat the work came from, when it is known.\<close>

definition publish_message :: "'w sub_env \<Rightarrow> sub_options \<Rightarrow> sub_event \<Rightarrow> 'w sub_run \<Rightarrow> 'w sub_run" where
  "publish_message env o1 e s =
     (if se_bus env \<and> str_trim (so_channel o1) \<noteq> [] \<and> str_trim (so_chat o1) \<noteq> [] then s\<lparr>sr_log := sr_log s @ [e]\<rparr> else s)"

definition sub_set_status :: "'w sub_env \<Rightarrow> string \<Rightarrow> sub_status \<Rightarrow> string option \<Rightarrow> string option \<Rightarrow> 'w sub_run \<Rightarrow> 'w sub_run" where
  "sub_set_status env sid st err res s = s\<lparr>sr_reg := update_status (se_clock env (sr_world s)) sid st err res (sr_reg s)\<rparr>"

definition run_aborted :: "string \<Rightarrow> 'w sub_run \<Rightarrow> bool" where
  "run_aborted sid s = (case jget (sb_running (sr_reg s)) sid of Some r \<Rightarrow> sg_aborted r | None \<Rightarrow> False)"

text \<open>The warnings about an unusual end.\<close>

definition finish_warning :: "string \<Rightarrow> string option" where
  "finish_warning reason =
     (if reason = ''max_turns'' then Some (utf8
        [0xEC, 0xB5, 0x9C, 0xEB, 0x8C, 0x80, 0x20, 0xED, 0x84, 0xB4, 0x20, 0xEC, 0x88, 0x98, 0xEC, 0x97, 0x90, 0x20, 0xEB, 0x8F, 0x84, 0xEB, 0x8B, 0xAC, 0xED, 0x95, 0x98, 0xEC, 0x97, 0xAC, 0x20, 0xEC, 0x9E, 0x91, 0xEC, 0x97, 0x85, 0xEC, 0x9D, 0xB4, 0x20, 0xEC, 0xA4, 0x91, 0xEB, 0x8B, 0xA8, 0xEB, 0x90, 0x98, 0xEC, 0x97, 0x88, 0xEC, 0x8A, 0xB5, 0xEB, 0x8B, 0x88, 0xEB, 0x8B, 0xA4, 0x2E])
      else if reason = ''max_budget'' then Some (utf8
        [0xEC, 0x98, 0x88, 0xEC, 0x82, 0xB0, 0x20, 0xED, 0x95, 0x9C, 0xEB, 0x8F, 0x84, 0xEC, 0x97, 0x90, 0x20, 0xEB, 0x8F, 0x84, 0xEB, 0x8B, 0xAC, 0xED, 0x95, 0x98, 0xEC, 0x97, 0xAC, 0x20, 0xEC, 0x9E, 0x91, 0xEC, 0x97, 0x85, 0xEC, 0x9D, 0xB4, 0x20, 0xEC, 0xA4, 0x91, 0xEB, 0x8B, 0xA8, 0xEB, 0x90, 0x98, 0xEC, 0x97, 0x88, 0xEC, 0x8A, 0xB5, 0xEB, 0x8B, 0x88, 0xEB, 0x8B, 0xA4, 0x2E])
      else if reason = ''max_tokens'' then Some (utf8
        [0xEC, 0xB5, 0x9C, 0xEB, 0x8C, 0x80, 0x20, 0xED, 0x86, 0xA0, 0xED, 0x81, 0xB0, 0x20, 0xEC, 0x88, 0x98, 0xEC, 0x97, 0x90, 0x20, 0xEB, 0x8F, 0x84, 0xEB, 0x8B, 0xAC, 0xED, 0x95, 0x98, 0xEC, 0x97, 0xAC, 0x20, 0xEC, 0x9D, 0x91, 0xEB, 0x8B, 0xB5, 0xEC, 0x9D, 0xB4, 0x20, 0xEC, 0x9E, 0x98, 0xEB, 0xA0, 0xB8, 0xEC, 0x9D, 0x84, 0x20, 0xEC, 0x88, 0x98, 0x20, 0xEC, 0x9E, 0x88, 0xEC, 0x8A, 0xB5, 0xEB, 0x8B, 0x88, 0xEB, 0x8B, 0xA4, 0x2E])
      else if reason = ''output_retries'' then Some (utf8
        [0xEC, 0xB6, 0x9C, 0xEB, 0xA0, 0xA5, 0x20, 0xEC, 0x9E, 0xAC, 0xEC, 0x8B, 0x9C, 0xEB, 0x8F, 0x84, 0x20, 0xED, 0x95, 0x9C, 0xEB, 0x8F, 0x84, 0xEC, 0x97, 0x90, 0x20, 0xEB, 0x8F, 0x84, 0xEB, 0x8B, 0xAC, 0xED, 0x96, 0x88, 0xEC, 0x8A, 0xB5, 0xEB, 0x8B, 0x88, 0xEB, 0x8B, 0xA4, 0x2E])
      else None)"

definition with_warning :: "string \<Rightarrow> string \<Rightarrow> string" where
  "with_warning reason content =
     (case finish_warning reason of
       Some w \<Rightarrow> str_trim (content @ utf8 [0x0A, 0x0A, 0xE2, 0x9A, 0xA0, 0xEF, 0xB8, 0x8F, 0x20] @ w)
     | None \<Rightarrow> content)"


section \<open>The executor's turn\<close>

text \<open>How a turn or the loop over turns ends.\<close>

datatype turn_end =
    TurnOutput string
  | TurnCancelled
  | TurnAborted
  | TurnThrows string

definition set_session :: "string \<Rightarrow> string \<Rightarrow> 'w sub_run \<Rightarrow> 'w sub_run" where
  "set_session sid ses s = s\<lparr>sr_reg := capture_session sid ses (sr_reg s)\<rparr>"

definition native_turn ::
  "'w sub_env \<Rightarrow> (string \<Rightarrow> string \<Rightarrow> (native_reply, 'w) sub_await) \<Rightarrow> string \<Rightarrow> string \<Rightarrow> 'w sub_run \<Rightarrow> turn_end \<times> 'w sub_run" where
  "native_turn env f sid prompt s =
     (let session = (case jget (sb_items (sr_reg s)) sid of Some r \<Rightarrow> sa_session r | None \<Rightarrow> []);
          (a, s) = sub_await (f prompt session) s
      in case a of
           CallThrows e \<Rightarrow> (TurnThrows e, s)
         | CallReturns r \<Rightarrow>
             if nr_finish r = ''error'' then (TurnThrows (if nr_error r = [] then ''agent_backend_error'' else nr_error r), s)
             else if nr_finish r = ''cancelled'' then (TurnCancelled, s)
             else (TurnOutput (with_warning (nr_finish r) (nr_content r)),
                   set_session sid (nr_session r) (s\<lparr>sr_finish := nr_finish r\<rparr>)))"

text \<open>The calls of one round, one after the other, unless the run is aborted.\<close>

fun run_calls ::
  "'w sub_env \<Rightarrow> sub_options \<Rightarrow> string \<Rightarrow> sub_call list \<Rightarrow> tool_message list \<Rightarrow> 'w sub_run
     \<Rightarrow> (turn_end + tool_message list) \<times> 'w sub_run" where
  "run_calls env o1 sid [] msgs s = (Inr msgs, s)"
| "run_calls env o1 sid (c # cs) msgs s =
     (if run_aborted sid s then (Inl TurnAborted, s)
      else let s = fire_event o1 (EvToolUse (sq_name c) (sq_id c)) s;
               (a, s) = sub_await (se_tool env (sq_name c) (sq_args c)) s
           in case a of
                CallThrows e \<Rightarrow> (Inl (TurnThrows e), s)
              | CallReturns x \<Rightarrow>
                  run_calls env o1 sid cs (msgs @ [AnswerMessage (sq_id c) (sq_name c) x])
                    (fire_event o1 (EvToolResult (sq_name c) (sq_id c) (take 200 x)) s))"

definition effective_calls :: "'w sub_env \<Rightarrow> headless_reply \<Rightarrow> sub_call list" where
  "effective_calls env r = (if hr_has_calls r then hr_calls r else se_text_calls env (hr_content r))"

definition max_tool_rounds :: nat where
  "max_tool_rounds = 5"

text \<open>The rounds of tool calls that are left; the answer of the last model call is the output.\<close>

fun tool_rounds ::
  "'w sub_env \<Rightarrow> sub_options \<Rightarrow> string \<Rightarrow> string \<Rightarrow> nat \<Rightarrow> tool_message list \<Rightarrow> headless_reply \<Rightarrow> 'w sub_run
     \<Rightarrow> (turn_end + headless_reply) \<times> 'w sub_run" where
  "tool_rounds env o1 sid prompt 0 msgs r s = (Inr r, s)"
| "tool_rounds env o1 sid prompt (Suc n) msgs r s =
     (let calls = effective_calls env r
      in if calls = [] then (Inr r, s)
         else (case run_calls env o1 sid calls (msgs @ [CallMessage (hr_content r) calls]) s of
                (Inl e, s) \<Rightarrow> (Inl e, s)
              | (Inr msgs, s) \<Rightarrow>
                  (case sub_await (se_followup env prompt msgs) s of
                    (CallThrows e, s) \<Rightarrow> (Inl (TurnThrows e), s)
                  | (CallReturns r, s) \<Rightarrow>
                      if se_error_reply env (hr_content r) then (Inl (TurnThrows (hr_content r)), s)
                      else tool_rounds env o1 sid prompt n msgs r s)))"

definition headless_turn :: "'w sub_env \<Rightarrow> sub_options \<Rightarrow> string \<Rightarrow> string \<Rightarrow> 'w sub_run \<Rightarrow> turn_end \<times> 'w sub_run" where
  "headless_turn env o1 sid prompt s =
     (case sub_await (se_headless env prompt) s of
       (CallThrows e, s) \<Rightarrow> (TurnThrows e, s)
     | (CallReturns r, s) \<Rightarrow>
         let s = set_session sid (str_trim (hr_session r)) s
         in if se_error_reply env (hr_content r) then (TurnThrows (hr_content r), s)
            else (case tool_rounds env o1 sid prompt max_tool_rounds [] r s of
                   (Inl e, s) \<Rightarrow> (e, s)
                 | (Inr r', s) \<Rightarrow> (TurnOutput (if hr_content r' = [] then hr_content r else hr_content r'), s)))"

definition executor_turn :: "'w sub_env \<Rightarrow> sub_options \<Rightarrow> string \<Rightarrow> string \<Rightarrow> 'w sub_run \<Rightarrow> turn_end \<times> 'w sub_run" where
  "executor_turn env o1 sid prompt s =
     (case se_native env of
       Some f \<Rightarrow> native_turn env f sid prompt s
     | None \<Rightarrow> headless_turn env o1 sid prompt s)"

text \<open>
  Without a controller the executor runs once. A cancelled run answers with an empty text, as one that
  has nothing to say.
\<close>

definition run_direct_executor :: "'w sub_env \<Rightarrow> sub_options \<Rightarrow> 'w sub_run \<Rightarrow> (string + string \<times> string) \<times> 'w sub_run" where
  "run_direct_executor env o1 s =
     (case se_direct env of
       Some f \<Rightarrow>
         (case sub_await (f (so_task o1)) s of
           (CallThrows e, s) \<Rightarrow> (Inl e, s)
         | (CallReturns r, s) \<Rightarrow>
             if nr_finish r = ''error'' then (Inl (if nr_error r = [] then ''agent_backend_error'' else nr_error r), s)
             else if nr_finish r = ''cancelled'' then (Inr ([], ''cancelled''), s)
             else (Inr (with_warning (nr_finish r) (nr_content r), nr_finish r), s))
     | None \<Rightarrow>
         (case sub_await (se_headless env (so_task o1)) s of
           (CallThrows e, s) \<Rightarrow> (Inl e, s)
         | (CallReturns r, s) \<Rightarrow>
             if se_error_reply env (hr_content r) then (Inl (hr_content r), s) else (Inr (hr_content r, ''stop''), s)))"


section \<open>The controller's loop\<close>

text \<open>A handoff is announced once.\<close>

definition handoff_key :: "string \<times> string \<Rightarrow> string" where
  "handoff_key h = fst h @ ''::'' @ snd h"

definition announce_handoff :: "'w sub_env \<Rightarrow> sub_options \<Rightarrow> string \<times> string \<Rightarrow> 'w sub_run \<Rightarrow> 'w sub_run" where
  "announce_handoff env o1 h s =
     (if handoff_key h \<in> set (sr_seen s) then s
      else publish_message env o1 (MsgHandoff (fst h) (snd h)) (s\<lparr>sr_seen := sr_seen s @ [handoff_key h]\<rparr>))"

definition no_answer :: string where
  "no_answer = ''completed_without_final_response''"

definition first_text :: "string list \<Rightarrow> string" where
  "first_text xs = (case filter (\<lambda>x. x \<noteq> []) xs of [] \<Rightarrow> [] | x # _ \<Rightarrow> x)"

text \<open>One iteration: the plan, and its turn; nothing means that the loop goes on.\<close>

definition sub_iteration :: "'w sub_env \<Rightarrow> sub_options \<Rightarrow> string \<Rightarrow> nat \<Rightarrow> 'w sub_run \<Rightarrow> turn_end option \<times> 'w sub_run" where
  "sub_iteration env o1 sid i s =
     (if run_aborted sid s then (Some TurnCancelled, s)
      else (case sub_await (se_controller env i (sr_last s)) s of
        (CallThrows e, s) \<Rightarrow> (Some (TurnThrows e), s)
      | (CallReturns raw, s) \<Rightarrow>
          let plan = parse_controller_plan (se_parse env) (se_number env) raw;
              s = fold (announce_handoff env o1) (cp_handoffs plan) (fire_event o1 (EvPlan (i + 1) (cp_done plan)) s)
          in if cp_done plan then (Some (TurnOutput (first_text [cp_answer plan, sr_last s, no_answer])), s)
             else if cp_prompt plan = [] then (Some (TurnOutput (first_text [sr_last s, no_answer])), s)
             else let s = publish_message env o1 (MsgProgress (sr_turns s + 1)) (s\<lparr>sr_turns := sr_turns s + 1\<rparr>)
                  in (case executor_turn env o1 sid (cp_prompt plan) s of
                       (TurnOutput x, s) \<Rightarrow> (None, s\<lparr>sr_last := x\<rparr>)
                     | (e, s) \<Rightarrow> (Some e, s))))"

text \<open>The iterations from \<open>i\<close> on, as many as are left; without an answer the last output is one.\<close>

fun sub_loop :: "'w sub_env \<Rightarrow> sub_options \<Rightarrow> string \<Rightarrow> nat \<Rightarrow> nat \<Rightarrow> 'w sub_run \<Rightarrow> turn_end \<times> 'w sub_run" where
  "sub_loop env o1 sid i 0 s = (TurnOutput [], s)"
| "sub_loop env o1 sid i (Suc n) s =
     (case sub_iteration env o1 sid i s of
       (Some e, s) \<Rightarrow> (e, s)
     | (None, s) \<Rightarrow> sub_loop env o1 sid (i + 1) n s)"

definition iterations_of :: "sub_options \<Rightarrow> nat" where
  "iterations_of o1 = nat (max 1 (if so_max_iterations o1 = 0 then 15 else so_max_iterations o1))"

definition work_phase :: "'w sub_env \<Rightarrow> sub_options \<Rightarrow> string \<Rightarrow> 'w sub_run \<Rightarrow> turn_end \<times> 'w sub_run" where
  "work_phase env o1 sid s =
     (if so_skip_controller o1
      then (case run_direct_executor env o1 s of
             (Inl e, s) \<Rightarrow> (TurnThrows e, s)
           | (Inr (x, reason), s) \<Rightarrow> (TurnOutput x, s\<lparr>sr_finish := reason\<rparr>))
      else sub_loop env o1 sid 0 (iterations_of o1) s)"

definition result_text :: "sub_options \<Rightarrow> bool \<Rightarrow> string \<Rightarrow> string" where
  "result_text o1 failed content =
     utf8 (if failed then [0xE2, 0x9D, 0x8C] else [0xE2, 0x9C, 0x85]) @ '' '' @ option_label o1 @ '': '' @ take 800 content"

definition announce_result :: "'w sub_env \<Rightarrow> sub_options \<Rightarrow> bool \<Rightarrow> string \<Rightarrow> 'w sub_run \<Rightarrow> 'w sub_run" where
  "announce_result env o1 failed content s =
     (if so_announce o1 then publish_message env o1 (MsgResult (result_text o1 failed content)) s else s)"

text \<open>The state a run begins with.\<close>

definition run_begin :: "'w \<Rightarrow> subagents \<Rightarrow> 'w sub_run" where
  "run_begin w g = \<lparr>sr_reg = g, sr_world = w, sr_log = [], sr_seen = [], sr_turns = 0, sr_last = [], sr_finish = ''stop''\<rparr>"

text \<open>
  The model a run asks for: the name of a remote model is dropped when another provider stands in.
\<close>

definition run_model :: "string option \<Rightarrow> string \<Rightarrow> string option \<Rightarrow> string option" where
  "run_model wanted actual model =
     (case wanted of
       Some p \<Rightarrow> if p \<noteq> [] \<and> p \<noteq> actual \<and> (case model of Some m \<Rightarrow> CHR ''/'' \<in> set m | None \<Rightarrow> False) then None else model
     | None \<Rightarrow> model)"

text \<open>
  The whole run. What fails before the work begins is an exception of the run, which nothing reports: the
  flag says that the run ended properly.
\<close>

definition run_subagent :: "'w sub_env \<Rightarrow> sub_options \<Rightarrow> string \<Rightarrow> 'w sub_run \<Rightarrow> bool \<times> 'w sub_run" where
  "run_subagent env o1 sid s =
     (case sub_await (se_context env) s of
       (CallThrows e, s) \<Rightarrow> (False, s)
     | (CallReturns _, s) \<Rightarrow>
         (case work_phase env o1 sid (fire_event o1 EvInit s) of
           (TurnOutput x, s) \<Rightarrow>
             let content = first_text [x, sr_last s, no_answer];
                 clean = str_trim (se_sanitize env content);
                 content = (if clean = [] then content else clean);
                 s = fire_event o1 (EvComplete (sr_finish s) content) (sub_set_status env sid SubCompleted None (Some content) s)
             in (True, announce_result env o1 False content s)
         | (TurnCancelled, s) \<Rightarrow>
             (True, fire_event o1 (EvComplete ''cancelled'' []) (sub_set_status env sid SubCancelled None None s))
         | (TurnAborted, s) \<Rightarrow> (True, sub_set_status env sid SubCancelled None None s)
         | (TurnThrows e, s) \<Rightarrow>
             let s = fire_event o1 (EvError e) (sub_set_status env sid SubFailed (Some e) None s)
             in (True, announce_result env o1 True (''Error: '' @ e) s)))"

end
