(* ===== verification/SubagentsCorrect.thy ===== *)
theory SubagentsCorrect
  imports SubagentRun
begin

text \<open>
  What the registry of subagents and a run guarantee: at most ten run, a cancellation reaches exactly the
  descendants, a run that began properly leaves its subagent in a final state and tells its chat the result
  once; and where they do not do what they mean to.
\<close>

section \<open>Operations of the registry\<close>

datatype sub_op =
    SubSpawn int string sub_options
  | SubUpsert int string sub_ref
  | SubSettled string
  | SubCancel int bool string
  | SubCancelChildren int string
  | SubSetStatus int string sub_status "string option" "string option"
  | SubSession string string
  | SubInput string

fun sub_step :: "sub_op \<Rightarrow> subagents \<Rightarrow> subagents" where
  "sub_step (SubSpawn now sid o1) g = snd (sub_spawn now sid o1 g)"
| "sub_step (SubUpsert now sid r) g = snd (sub_upsert now sid r g)"
| "sub_step (SubSettled sid) g = sub_settled sid g"
| "sub_step (SubCancel now c sid) g = snd (sub_cancel now c sid g)"
| "sub_step (SubCancelChildren now p) g = snd (cancel_by_parent now p g)"
| "sub_step (SubSetStatus now sid st e r) g = update_status now sid st e r g"
| "sub_step (SubSession sid ses) g = capture_session sid ses g"
| "sub_step (SubInput sid) g = register_input sid g"

text \<open>Who runs, and under whom.\<close>

definition run_tree :: "subagents \<Rightarrow> (string \<times> string option) list" where
  "run_tree g = map (\<lambda>e. (fst e, sg_parent (snd e))) (sb_running g)"

definition aborted_ids :: "subagents \<Rightarrow> string set" where
  "aborted_ids g = {i. \<exists>r. (i, r) \<in> set (sb_running g) \<and> sg_aborted r}"

lemma run_tree_length: "length (run_tree g) = length (sb_running g)"
  by (simp add: run_tree_def)

lemma run_tree_keys: "map fst (run_tree g) = map fst (sb_running g)"
  by (simp add: run_tree_def)

lemma children_tree: "children_of p g = map fst (filter (\<lambda>e. snd e = Some p) (run_tree g))"
  by (simp add: children_of_def run_tree_def filter_map o_def)

lemma mark_tree [simp]: "run_tree (mark_cancelled now sid g) = run_tree g"
  by (auto simp: run_tree_def mark_cancelled_def)

lemma mark_aborted: "jget (sb_running g) sid \<noteq> None \<Longrightarrow> aborted_ids (mark_cancelled now sid g) = insert sid (aborted_ids g)"
  by (auto simp: aborted_ids_def mark_cancelled_def image_iff map_of_eq_None_iff split: if_splits) force

lemma running_tree: "jget (sb_running g) sid = None \<longleftrightarrow> sid \<notin> set (map fst (run_tree g))"
  by (simp add: run_tree_keys map_of_eq_None_iff)

text \<open>What a cancellation with fuel reaches in a tree.\<close>

fun reached :: "(string \<times> string option) list \<Rightarrow> nat \<Rightarrow> string \<Rightarrow> string set" where
  "reached t 0 sid = {}"
| "reached t (Suc n) sid =
     (if sid \<in> set (map fst t) then insert sid (\<Union>c \<in> set (map fst (filter (\<lambda>e. snd e = Some sid) t)). reached t n c) else {})"

lemma cancel_reaches:
  "run_tree (snd (cancel_sub n now True sid g)) = run_tree g
   \<and> aborted_ids (snd (cancel_sub n now True sid g)) = aborted_ids g \<union> reached (run_tree g) n sid"
proof (induction n arbitrary: sid g)
  case (Suc n)
  have f: "run_tree (fold (\<lambda>c g. snd (cancel_sub n now True c g)) cs h) = run_tree h
      \<and> aborted_ids (fold (\<lambda>c g. snd (cancel_sub n now True c g)) cs h) = aborted_ids h \<union> (\<Union>c \<in> set cs. reached (run_tree h) n c)" for cs h
    by (induction cs arbitrary: h) (use Suc.IH in auto)
  show ?case
  proof (cases "jget (sb_running g) sid")
    case None
    then show ?thesis using running_tree[of g sid] by simp
  next
    case (Some r)
    then have "sid \<in> set (map fst (run_tree g))" using running_tree[of g sid] by simp
    then show ?thesis using Some f[of "children_of sid (mark_cancelled now sid g)" "mark_cancelled now sid g"]
      mark_aborted[of g sid now] by (auto simp: Let_def children_tree)
  qed
qed simp

lemma cancel_alone_tree: "run_tree (snd (cancel_sub n now False sid g)) = run_tree g"
  by (cases n) (auto simp: Let_def split: option.splits)

lemma sub_cancel_tree [simp]: "run_tree (snd (sub_cancel now c sid g)) = run_tree g"
  using cancel_reaches cancel_alone_tree by (cases c) (auto simp: sub_cancel_def)

lemma cancel_children_tree [simp]: "run_tree (snd (cancel_by_parent now p g)) = run_tree g"
proof -
  have "run_tree (fold (\<lambda>c g. snd (sub_cancel now True c g)) cs h) = run_tree h" for cs h
    by (induction cs arbitrary: h) auto
  then show ?thesis by (simp add: cancel_by_parent_def Let_def)
qed

definition few_running :: "subagents \<Rightarrow> bool" where
  "few_running g \<longleftrightarrow> length (sb_running g) \<le> max_concurrent_subagents \<and> jwf (sb_running g)"

lemma few_running_tree: "run_tree h = run_tree g \<Longrightarrow> few_running g \<Longrightarrow> few_running h"
  by (metis few_running_def jkeys_def jwf_def run_tree_keys run_tree_length)

lemma prune_running:
  assumes "prune_items g = Some h"
  shows "sb_running h = sb_running g"
proof -
  from assms obtain m where "h = g\<lparr>sb_items := m\<rparr>"
    unfolding prune_items_def Let_def by (metis option.distinct(1) option.inject)
  then show ?thesis by simp
qed

lemma upsert_running: "sb_running (snd (sub_upsert now sid r g)) = sb_running g"
proof -
  have "sb_running (snd (prune_if_full h)) = sb_running h" for h
    using prune_running[of h] by (cases "prune_items h") (auto simp: prune_if_full_def)
  then show ?thesis by (simp add: sub_upsert_def Let_def)
qed

lemma sub_step_few: "few_running g \<Longrightarrow> few_running (sub_step e g)"
proof (cases e)
  case (SubSpawn now sid o1)
  show "few_running g \<Longrightarrow> ?thesis"
  proof (cases "max_concurrent_subagents \<le> length (sb_running g)")
    case False
    then obtain r where "sb_running (sub_step e g) = jset sid r (sb_running g)"
      using SubSpawn by (simp add: sub_spawn_def Let_def)
    then show "few_running g \<Longrightarrow> ?thesis"
      using False length_jset_le[of sid r "sb_running g"] by (simp add: few_running_def)
  qed (simp add: SubSpawn sub_spawn_def)
next
  case (SubUpsert now sid r)
  then have "run_tree (sub_step e g) = run_tree g" using upsert_running[of now sid r g] by (simp add: run_tree_def)
  then show "few_running g \<Longrightarrow> ?thesis" by (rule few_running_tree)
next
  case (SubSettled sid)
  have "length (jdel sid (sb_running g)) \<le> length (sb_running g)" by (simp add: jdel_def)
  then show "few_running g \<Longrightarrow> ?thesis" using SubSettled
    by (auto simp: sub_settled_def few_running_def jdel_def intro: le_trans[OF length_filter_le])
next
  case (SubInput sid)
  then have "run_tree (sub_step e g) = run_tree g" by (auto simp: register_input_def run_tree_def)
  then show "few_running g \<Longrightarrow> ?thesis" by (rule few_running_tree)
next
  case (SubSetStatus now sid st err res)
  then show "few_running g \<Longrightarrow> ?thesis" by (simp add: update_status_def few_running_def)
next
  case (SubSession sid ses)
  then show "few_running g \<Longrightarrow> ?thesis" by (simp add: capture_session_def few_running_def)
next
  case (SubCancel now c sid)
  then have "run_tree (sub_step e g) = run_tree g" by simp
  then show "few_running g \<Longrightarrow> ?thesis" by (rule few_running_tree)
next
  case (SubCancelChildren now p)
  then have "run_tree (sub_step e g) = run_tree g" by simp
  then show "few_running g \<Longrightarrow> ?thesis" by (rule few_running_tree)
qed

interpretation subagent_registry: machine sub_step few_running
  by unfold_locales (rule sub_step_few)

text \<open>
  C23. Whatever is done with the registry, no more than ten subagents run.
\<close>
theorem at_most_ten_run: "length (sb_running (run_steps sub_step ops subagents_new)) \<le> 10"
  using subagent_registry.inv_run[of subagents_new ops]
  by (simp add: few_running_def subagents_new_def max_concurrent_subagents_def)



section \<open>Cancelling with all descendants\<close>

definition tree_edges :: "(string \<times> string option) list \<Rightarrow> (string \<times> string) set" where
  "tree_edges t = {(p, c). (c, Some p) \<in> set t}"

text \<open>A subagent was spawned after its parent.\<close>

definition parents_first :: "(string \<times> string option) list \<Rightarrow> bool" where
  "parents_first t \<longleftrightarrow> sorted_wrt (\<lambda>a b. snd a \<noteq> Some (fst b)) t \<and> (\<forall>e \<in> set t. snd e \<noteq> Some (fst e))"

definition tree_pos :: "(string \<times> string option) list \<Rightarrow> string \<Rightarrow> nat" where
  "tree_pos t c = length (takeWhile (\<lambda>e. fst e \<noteq> c) t)"

lemma tree_pos_nth:
  assumes "distinct (map fst t)" "i < length t"
  shows "tree_pos t (fst (t ! i)) = i"
proof -
  have "takeWhile (\<lambda>e. fst e \<noteq> fst (t ! i)) t = take i t"
  proof (rule takeWhile_eq_take_P_nth)
    fix j assume "j < i" "j < length t"
    then show "fst (t ! j) \<noteq> fst (t ! i)" using assms by (auto simp: distinct_conv_nth)
  qed (use assms in auto)
  then show ?thesis using assms(2) by (simp add: tree_pos_def)
qed

lemma tree_pos_less: "c \<in> set (map fst t) \<Longrightarrow> tree_pos t c < length t"
  by (induction t) (auto simp: tree_pos_def)

lemma edge_pos:
  assumes "distinct (map fst t)" "parents_first t" "(p, c) \<in> tree_edges t" "p \<in> set (map fst t)"
  shows "tree_pos t p < tree_pos t c"
proof -
  obtain i where i: "i < length t" "t ! i = (c, Some p)" using assms(3) by (auto simp: tree_edges_def in_set_conv_nth)
  obtain j where j: "j < length t" "fst (t ! j) = p" using assms(4) by (auto simp: in_set_conv_nth)
  have "snd (t ! i) \<noteq> Some (fst (t ! i))" using assms(2) i(1) nth_mem[OF i(1)] unfolding parents_first_def by blast
  then have "i \<noteq> j" using i(2) j(2) by (metis fst_conv snd_conv)
  moreover have "\<not> i < j"
  proof
    assume "i < j"
    then have "snd (t ! i) \<noteq> Some (fst (t ! j))" using assms(2) j(1) unfolding parents_first_def sorted_wrt_iff_nth_less by blast
    then show False using i(2) j(2) by simp
  qed
  ultimately show ?thesis using tree_pos_nth[OF assms(1) i(1)] tree_pos_nth[OF assms(1) j(1)] i(2) j(2) by simp
qed

lemma path_pos:
  assumes "distinct (map fst t)" "parents_first t" "sid \<in> set (map fst t)"
  shows "(sid, d) \<in> tree_edges t ^^ k \<Longrightarrow> d \<in> set (map fst t) \<and> tree_pos t sid + k \<le> tree_pos t d"
proof (induction k arbitrary: d)
  case 0
  then show ?case using assms(3) by simp
next
  case (Suc k)
  then obtain m where m: "(sid, m) \<in> tree_edges t ^^ k" "(m, d) \<in> tree_edges t" by auto
  then have "tree_pos t m < tree_pos t d" using edge_pos[OF assms(1,2) m(2)] Suc.IH by blast
  moreover have "d \<in> set (map fst t)" using m(2) by (force simp: tree_edges_def)
  ultimately show ?case using Suc.IH[OF m(1)] by simp
qed

lemma reached_paths:
  "sid \<in> set (map fst t) \<Longrightarrow> reached t n sid = {d. \<exists>k < n. (sid, d) \<in> tree_edges t ^^ k}"
proof (induction n arbitrary: sid)
  case (Suc n)
  let ?cs = "set (map fst (filter (\<lambda>e. snd e = Some sid) t))"
  have cs: "c \<in> ?cs \<longleftrightarrow> (sid, c) \<in> tree_edges t" for c by (force simp: tree_edges_def)
  have "reached t n c = {d. \<exists>k < n. (c, d) \<in> tree_edges t ^^ k}" if "c \<in> ?cs" for c
    by (rule Suc.IH) (use that in auto)
  then have "reached t (Suc n) sid = insert sid {d. \<exists>c k. (sid, c) \<in> tree_edges t \<and> k < n \<and> (c, d) \<in> tree_edges t ^^ k}"
    using Suc.prems cs by (auto simp del: set_map set_filter)
  also have "\<dots> = {d. \<exists>k < Suc n. (sid, d) \<in> tree_edges t ^^ k}"
  proof (intro set_eqI iffI)
    fix d assume "d \<in> insert sid {d. \<exists>c k. (sid, c) \<in> tree_edges t \<and> k < n \<and> (c, d) \<in> tree_edges t ^^ k}"
    then consider "d = sid" | c k where "(sid, c) \<in> tree_edges t" "k < n" "(c, d) \<in> tree_edges t ^^ k" by blast
    then show "d \<in> {d. \<exists>k < Suc n. (sid, d) \<in> tree_edges t ^^ k}"
    proof cases
      case 1
      then show ?thesis by (intro CollectI exI[of _ 0]) simp
    next
      case 2
      then have "(sid, d) \<in> tree_edges t ^^ Suc k" by (intro relpow_Suc_I2)
      then show ?thesis using \<open>k < n\<close> by (intro CollectI exI[of _ "Suc k"] conjI) simp_all
    qed
  next
    fix d assume "d \<in> {d. \<exists>k < Suc n. (sid, d) \<in> tree_edges t ^^ k}"
    then obtain k where k: "k < Suc n" "(sid, d) \<in> tree_edges t ^^ k" by blast
    then show "d \<in> insert sid {d. \<exists>c k. (sid, c) \<in> tree_edges t \<and> k < n \<and> (c, d) \<in> tree_edges t ^^ k}"
      by (cases k) (simp, blast dest: relpow_Suc_D2[of sid d])
  qed
  finally show ?case .
qed simp

text \<open>
  C22. Cancelling a running subagent aborts it, its children, their children and so on, and no other.
\<close>
theorem cancel_reaches_descendants:
  assumes "jwf (sb_running g)" and "parents_first (run_tree g)" and "jget (sb_running g) sid \<noteq> None"
  shows "aborted_ids (snd (sub_cancel now True sid g)) = aborted_ids g \<union> {d. (sid, d) \<in> (tree_edges (run_tree g))\<^sup>*}"
proof -
  let ?t = "run_tree g"
  have d: "distinct (map fst ?t)" using assms(1) by (simp add: run_tree_keys jwf_def jkeys_def)
  have k: "sid \<in> set (map fst ?t)" using assms(3) running_tree[of g sid] by simp
  have bound: "m < length ?t" if "(sid, e) \<in> tree_edges ?t ^^ m" for e m
  proof -
    have "e \<in> set (map fst ?t)" "tree_pos ?t sid + m \<le> tree_pos ?t e" using path_pos[OF d assms(2) k that] by auto
    moreover have "tree_pos ?t e < length ?t" using calculation(1) by (rule tree_pos_less)
    ultimately show ?thesis by simp
  qed
  have "reached ?t (length (sb_running g)) sid = {e. (sid, e) \<in> (tree_edges ?t)\<^sup>*}"
    unfolding reached_paths[OF k] using bound run_tree_length[of g] by (auto simp: rtrancl_power)
  then show ?thesis using cancel_reaches[of "length (sb_running g)" now sid g] by (simp add: sub_cancel_def)
qed

text \<open>Spawning keeps the order when the identifier is new, and so does everything else.\<close>

lemma parents_first_spawn:
  assumes "parents_first (run_tree g)" and "sid \<notin> set (map fst (run_tree g))" "Some sid \<notin> set (map snd (run_tree g))" "so_parent o1 \<noteq> sid"
  shows "parents_first (run_tree (snd (sub_spawn now sid o1 g)))"
proof -
  have new: "jset sid r m = m @ [(sid, r)]" if "sid \<notin> set (map fst m)" for r and m :: "(string, sub_running) jmap"
    using that by (induction m) auto
  show ?thesis
  proof (cases "max_concurrent_subagents \<le> length (sb_running g)")
    case False
    then have "\<exists>q. run_tree (snd (sub_spawn now sid o1 g)) = run_tree g @ [(sid, q)] \<and> q \<noteq> Some sid"
      using assms(2,4) new by (auto simp: sub_spawn_def Let_def run_tree_def)
    moreover have "snd e \<noteq> Some sid" if "e \<in> set (run_tree g)" for e using assms(3) that by (metis image_eqI set_map)
    ultimately show ?thesis using assms(1) by (auto simp: parents_first_def sorted_wrt_append)
  qed (use assms in \<open>simp add: sub_spawn_def\<close>)
qed

lemma parents_first_settled: "parents_first (run_tree g) \<Longrightarrow> parents_first (run_tree (sub_settled sid g))"
  by (auto simp: sub_settled_def run_tree_def jdel_def parents_first_def sorted_wrt_map sorted_wrt_filter)


lemma cancel_reaches_descendants_witness:
  "let o1 = (\<lambda>p. \<lparr>so_task = ''t'', so_role = [], so_team = None, so_label = [], so_provider = None, so_model = None,
       so_max_iterations = 0, so_channel = [], so_chat = [], so_announce = True, so_parent = p, so_skip_controller = False,
       so_hooks = True\<rparr>);
       g = run_steps sub_step [SubSpawn 1 ''a'' (o1 []), SubSpawn 2 ''b'' (o1 ''a''), SubSpawn 3 ''c'' (o1 ''b''), SubSpawn 4 ''d'' (o1 [])] subagents_new
   in ''c'' \<in> aborted_ids (snd (sub_cancel 5 True ''a'' g))"
proof -
  let ?o = "\<lambda>p. \<lparr>so_task = ''t'', so_role = [], so_team = None, so_label = [], so_provider = None, so_model = None,
       so_max_iterations = 0, so_channel = [], so_chat = [], so_announce = True, so_parent = p, so_skip_controller = False,
       so_hooks = True\<rparr>"
  let ?g = "run_steps sub_step [SubSpawn 1 ''a'' (?o []), SubSpawn 2 ''b'' (?o ''a''), SubSpawn 3 ''c'' (?o ''b''), SubSpawn 4 ''d'' (?o [])] subagents_new"
  have "jwf (sb_running ?g)" by code_simp
  moreover have "parents_first (run_tree ?g)" by code_simp
  moreover have "jget (sb_running ?g) ''a'' \<noteq> None" by code_simp
  moreover have t: "run_tree ?g = [(''a'', None), (''b'', Some ''a''), (''c'', Some ''b''), (''d'', None)]" by code_simp
  then have "(''a'', ''b'') \<in> tree_edges (run_tree ?g)" "(''b'', ''c'') \<in> tree_edges (run_tree ?g)" by (auto simp: tree_edges_def)
  then have "(''a'', ''c'') \<in> (tree_edges (run_tree ?g))\<^sup>*" by (meson rtrancl.rtrancl_into_rtrancl r_into_rtrancl)
  ultimately show ?thesis unfolding Let_def using cancel_reaches_descendants[of ?g "''a''" 5] by blast
qed


section \<open>The end of a run\<close>

definition item_status :: "string \<Rightarrow> subagents \<Rightarrow> sub_status option" where
  "item_status sid g = map_option sa_status (jget (sb_items g) sid)"

lemma update_status_item:
  "item_status sid (update_status now sid st err res g) = (if jget (sb_items g) sid = None then None else Some st)"
proof -
  have j: "jget (map (\<lambda>e. if fst e = sid then (sid, f (snd e)) else e) m) sid = map_option f (jget m sid)" for f and m :: "(string, sub_ref) jmap"
    by (induction m) auto
  show ?thesis
    using j[of "\<lambda>r. r\<lparr>sa_status := st, sa_error := err, sa_result := res, sa_updated := now\<rparr>" "sb_items g"]
    unfolding item_status_def update_status_def by (cases "jget (sb_items g) sid") simp_all
qed

text \<open>What a run does while it works: it neither ends nor reports, and announces no handoff twice.\<close>

fun work_event :: "sub_event \<Rightarrow> bool" where
  "work_event (EvComplete _ _) = False"
| "work_event (EvError _) = False"
| "work_event (MsgResult _) = False"
| "work_event _ = True"

fun handoffs_of :: "sub_event list \<Rightarrow> (string \<times> string) list" where
  "handoffs_of [] = []"
| "handoffs_of (MsgHandoff a i # es) = (a, i) # handoffs_of es"
| "handoffs_of (e # es) = handoffs_of es"

fun results_of :: "sub_event list \<Rightarrow> string list" where
  "results_of [] = []"
| "results_of (MsgResult x # es) = x # results_of es"
| "results_of (e # es) = results_of es"

lemma handoffs_append [simp]: "handoffs_of (es @ fs) = handoffs_of es @ handoffs_of fs"
  by (induction es rule: handoffs_of.induct) auto

lemma results_append [simp]: "results_of (es @ fs) = results_of es @ results_of fs"
  by (induction es rule: results_of.induct) auto

lemma work_no_results: "list_all work_event es \<Longrightarrow> results_of es = []"
  by (induction es rule: results_of.induct) auto

text \<open>\<open>kept\<close>: no turn was counted and no handoff announced. \<open>worked\<close>: any work.\<close>

definition kept :: "'w sub_run \<Rightarrow> 'w sub_run \<Rightarrow> bool" where
  "kept s t \<longleftrightarrow> sr_turns t = sr_turns s \<and> sr_seen t = sr_seen s
     \<and> (\<exists>es. sr_log t = sr_log s @ es \<and> list_all work_event es \<and> handoffs_of es = [])"

definition seen_once :: "'w sub_run \<Rightarrow> bool" where
  "seen_once s \<longleftrightarrow> distinct (handoffs_of (sr_log s)) \<and> handoff_key ` set (handoffs_of (sr_log s)) \<subseteq> set (sr_seen s)"

definition worked :: "nat \<Rightarrow> 'w sub_run \<Rightarrow> 'w sub_run \<Rightarrow> bool" where
  "worked n s t \<longleftrightarrow> sr_turns t \<le> sr_turns s + n \<and> (seen_once s \<longrightarrow> seen_once t)
     \<and> (\<exists>es. sr_log t = sr_log s @ es \<and> list_all work_event es)"

lemma kept_refl [simp]: "kept s s"
  by (simp add: kept_def)

lemma kept_trans: "kept s t \<Longrightarrow> kept t u \<Longrightarrow> kept s u"
  by (auto simp: kept_def)

lemma kept_worked: "kept s t \<Longrightarrow> worked n s t"
  by (auto simp: kept_def worked_def seen_once_def)

lemma worked_trans: "worked n s t \<Longrightarrow> worked m t u \<Longrightarrow> worked (n + m) s u"
  by (auto simp: worked_def)

lemma worked_mono: "worked n s t \<Longrightarrow> n \<le> m \<Longrightarrow> worked m s t"
  by (auto simp: worked_def)

lemma kept_await: "sub_await f s = (a, t) \<Longrightarrow> kept s t"
  by (auto simp: sub_await_def kept_def split: prod.splits)

lemma kept_fire: "work_event e \<Longrightarrow> handoffs_of [e] = [] \<Longrightarrow> kept s (fire_event o1 e s)"
  by (simp add: fire_event_def kept_def)

lemma kept_publish: "work_event e \<Longrightarrow> handoffs_of [e] = [] \<Longrightarrow> kept s (publish_message env o1 e s)"
  by (simp add: publish_message_def kept_def)

lemma kept_session: "kept s (set_session sid ses s)"
  by (simp add: set_session_def kept_def)

lemma kept_fields: "kept s t \<Longrightarrow> kept s (t\<lparr>sr_finish := x\<rparr>)" "kept s t \<Longrightarrow> kept s (t\<lparr>sr_last := y\<rparr>)"
  by (simp_all add: kept_def)

lemma kept_calls: "kept s (snd (run_calls env o1 sid cs msgs s))"
proof (induction cs arbitrary: msgs s)
  case (Cons c cs)
  obtain a u where u: "sub_await (se_tool env (sq_name c) (sq_args c)) (fire_event o1 (EvToolUse (sq_name c) (sq_id c)) s) = (a, u)"
    by fastforce
  have k: "kept s u" by (rule kept_trans[OF kept_fire kept_await[OF u]]) simp_all
  have f: "kept u (fire_event o1 (EvToolResult (sq_name c) (sq_id c) (take 200 x)) u)" for x by (rule kept_fire) simp_all
  show ?case using u k kept_trans[OF kept_trans[OF k f] Cons.IH] by (cases a) (auto simp: Let_def)
qed simp

lemma kept_rounds: "kept s (snd (tool_rounds env o1 sid p n msgs r s))"
proof (induction n arbitrary: msgs r s)
  case (Suc n)
  obtain x u where u: "run_calls env o1 sid (effective_calls env r) (msgs @ [CallMessage (hr_content r) (effective_calls env r)]) s = (x, u)"
    by fastforce
  have k: "kept s u" using kept_calls[of s env o1 sid] u by (metis snd_conv)
  show ?case
  proof (cases x)
    case (Inl e)
    then show ?thesis using u k by (simp add: Let_def)
  next
    case (Inr ms)
    obtain a v where v: "sub_await (se_followup env p ms) u = (a, v)" by fastforce
    have "kept s v" by (rule kept_trans[OF k kept_await[OF v]])
    then show ?thesis using u v Inr Suc.IH by (cases a) (auto simp: Let_def intro: kept_trans)
  qed
qed simp

lemma kept_headless: "kept s (snd (headless_turn env o1 sid p s))"
proof -
  obtain a u where u: "sub_await (se_headless env p) s = (a, u)" by fastforce
  have k: "kept s u" by (rule kept_await[OF u])
  have "kept s (snd (tool_rounds env o1 sid p n [] r (set_session sid ses u)))" for n r ses
    by (rule kept_trans[OF kept_trans[OF k kept_session] kept_rounds])
  moreover have "kept s (set_session sid ses u)" for ses by (rule kept_trans[OF k kept_session])
  ultimately show ?thesis using u k
    by (cases a) (simp_all add: headless_turn_def Let_def case_prod_beta split: sum.splits)
qed

lemma kept_native: "kept s (snd (native_turn env f sid p s))"
proof -
  let ?ses = "case jget (sb_items (sr_reg s)) sid of Some r \<Rightarrow> sa_session r | None \<Rightarrow> []"
  obtain a u where u: "sub_await (f p ?ses) s = (a, u)" by fastforce
  have k: "kept s u" by (rule kept_await[OF u])
  have "kept s (set_session sid ses (u\<lparr>sr_finish := x\<rparr>))" for ses x
    by (rule kept_trans[OF kept_fields(1)[OF k] kept_session])
  then show ?thesis using u k by (cases a) (simp_all add: native_turn_def Let_def)
qed

lemma kept_executor: "kept s (snd (executor_turn env o1 sid p s))"
  by (simp add: executor_turn_def kept_headless kept_native split: option.splits)

lemma worked_handoff: "worked 0 s (announce_handoff env o1 h s)"
  by (auto simp: announce_handoff_def publish_message_def worked_def seen_once_def)

lemma worked_handoffs: "worked 0 s (fold (announce_handoff env o1) hs s)"
proof (induction hs arbitrary: s)
  case (Cons h hs)
  show ?case using worked_trans[OF worked_handoff Cons] by fastforce
qed (simp add: kept_worked)

lemma worked_iteration: "worked 1 s (snd (sub_iteration env o1 sid i s))"
proof -
  obtain a u where u: "sub_await (se_controller env i (sr_last s)) s = (a, u)" by fastforce
  have k: "kept s u" by (rule kept_await[OF u])
  show ?thesis
  proof (cases a)
    case (CallThrows e)
    then show ?thesis using u k by (simp add: sub_iteration_def kept_worked)
  next
    case (CallReturns raw)
    let ?plan = "parse_controller_plan (se_parse env) (se_number env) raw"
    let ?s = "fold (announce_handoff env o1) (cp_handoffs ?plan) (fire_event o1 (EvPlan (i + 1) (cp_done ?plan)) u)"
    have "worked (0 + 0) u ?s" by (rule worked_trans[OF kept_worked[OF kept_fire] worked_handoffs]) simp_all
    then have w: "worked 0 s ?s" using worked_trans[OF kept_worked[OF k, of 0]] by fastforce
    let ?c = "publish_message env o1 (MsgProgress (sr_turns ?s + 1)) (?s\<lparr>sr_turns := sr_turns ?s + 1\<rparr>)"
    have "worked 1 ?s (?s\<lparr>sr_turns := sr_turns ?s + 1\<rparr>)" by (simp add: worked_def seen_once_def)
    then have "worked (1 + 0) ?s ?c" by (rule worked_trans[OF _ kept_worked[OF kept_publish]]) simp_all
    then have "worked 1 s ?c" using worked_trans[OF w, of "1 + 0"] by simp
    then have e: "worked 1 s (snd (executor_turn env o1 sid (cp_prompt ?plan) ?c))"
      using worked_trans[OF _ kept_worked[OF kept_executor, of 0], of 1 s ?c] by simp
    obtain y v where v: "executor_turn env o1 sid (cp_prompt ?plan) ?c = (y, v)" by fastforce
    have "worked 1 s v" "worked 1 s (v\<lparr>sr_last := z\<rparr>)" for z
      using e v by (simp_all add: worked_def seen_once_def)
    then show ?thesis using u CallReturns worked_mono[OF w, of 1] v
      by (cases y) (auto simp: sub_iteration_def Let_def kept_worked)
  qed
qed

lemma worked_loop: "worked n s (snd (sub_loop env o1 sid i n s))"
proof (induction n arbitrary: i s)
  case (Suc n)
  obtain y u where u: "sub_iteration env o1 sid i s = (y, u)" by fastforce
  have w: "worked 1 s u" using worked_iteration[of s env o1 sid i] u by simp
  show ?case using u worked_mono[OF w, of "Suc n"] worked_trans[OF w Suc.IH, of "i + 1"] by (cases y) auto
qed (simp add: kept_worked)

lemma kept_direct: "kept s (snd (run_direct_executor env o1 s))"
proof (cases "se_direct env")
  case None
  obtain a u where u: "sub_await (se_headless env (so_task o1)) s = (a, u)" by fastforce
  then show ?thesis using None kept_await[OF u] by (cases a) (simp_all add: run_direct_executor_def)
next
  case (Some f)
  obtain a u where u: "sub_await (f (so_task o1)) s = (a, u)" by fastforce
  then show ?thesis using Some kept_await[OF u] by (cases a) (simp_all add: run_direct_executor_def)
qed

lemma worked_phase: "worked (iterations_of o1) s (snd (work_phase env o1 sid s))"
proof (cases "so_skip_controller o1")
  case True
  obtain x u where u: "run_direct_executor env o1 s = (x, u)" by fastforce
  have "kept s u" using kept_direct[of s env o1] u by simp
  then have "kept s u" "kept s (u\<lparr>sr_finish := y\<rparr>)" for y by (simp_all add: kept_fields)
  then show ?thesis using True u by (cases x) (auto simp: work_phase_def kept_worked)
qed (simp add: work_phase_def worked_loop)

text \<open>
  C21. A run that began properly leaves its subagent completed, failed or cancelled, unless it was taken out of
  the registry. It uses at most the turns it was given, announces its result at most once and no handoff
  twice, whatever the models, tools and other operations do meanwhile.
\<close>
theorem run_ends_once:
  "let (ok, t) = run_subagent env o1 sid (run_begin w g)
   in (if ok then (case item_status sid (sr_reg t) of Some st \<Rightarrow> sub_terminal st | None \<Rightarrow> True) else True)
      \<and> sr_turns t \<le> iterations_of o1 \<and> length (results_of (sr_log t)) \<le> 1 \<and> distinct (handoffs_of (sr_log t))"
proof -
  obtain a u where u: "sub_await (se_context env) (run_begin w g) = (a, u)" by fastforce
  have k: "kept (run_begin w g) u" by (rule kept_await[OF u])
  obtain e v where v: "work_phase env o1 sid (fire_event o1 EvInit u) = (e, v)" by fastforce
  have "worked (iterations_of o1) u v"
    using worked_trans[OF kept_worked[OF kept_fire, of EvInit 0 u o1] worked_phase] v by (metis add_0 handoffs_of.simps(1,3) snd_conv work_event.simps(4))
  then have "worked (0 + iterations_of o1) (run_begin w g) v" by (rule worked_trans[OF kept_worked[OF k]])
  then have wv: "sr_turns v \<le> iterations_of o1" "results_of (sr_log v) = []" "distinct (handoffs_of (sr_log v))"
    by (auto simp: worked_def run_begin_def seen_once_def work_no_results)
  have wu: "sr_turns u \<le> iterations_of o1" "results_of (sr_log u) = []" "distinct (handoffs_of (sr_log u))"
    using k by (auto simp: kept_def run_begin_def work_no_results)
  have st: "sr_reg (sub_set_status env sid x er re v) = update_status (se_clock env (sr_world v)) sid x er re (sr_reg v)" for x er re
    by (simp add: sub_set_status_def)
  show ?thesis
  proof (cases a)
    case (CallThrows err)
    then show ?thesis using u wu by (simp add: run_subagent_def)
  next
    case (CallReturns b)
    then show ?thesis using u v wv
      by (cases e) (simp_all add: run_subagent_def Let_def update_status_item sub_terminal_def fire_event_def
          announce_result_def publish_message_def sub_set_status_def)
  qed
qed


section \<open>Where it does not do what it means to\<close>

definition demo_sub_options :: "bool \<Rightarrow> sub_options" where
  "demo_sub_options direct = \<lparr>so_task = ''t'', so_role = [], so_team = None, so_label = [], so_provider = None,
     so_model = None, so_max_iterations = 2, so_channel = [], so_chat = [], so_announce = True, so_parent = [],
     so_skip_controller = direct, so_hooks = True\<rparr>"

definition demo_sub_env :: "unit sub_env" where
  "demo_sub_env = \<lparr>se_clock = (\<lambda>_. 9), se_number = (\<lambda>_. []), se_parse = (\<lambda>_. Some (JObj [(''done'', JBool True)])),
     se_bus = True, se_context = (\<lambda>w g. (CallReturns (), w, g)),
     se_controller = (\<lambda>i last w g. (CallReturns ''{done: true}'', w, snd (sub_cancel 5 True ''a'' g))),
     se_native = None,
     se_direct = Some (\<lambda>task w g. (CallReturns \<lparr>nr_finish = ''cancelled'', nr_content = [], nr_error = [], nr_session = []\<rparr>,
       w, snd (sub_cancel 5 True ''a'' g))),
     se_headless = (\<lambda>p w g. (CallThrows ''no provider'', w, g)), se_followup = (\<lambda>p ms w g. (CallThrows ''no provider'', w, g)),
     se_tool = (\<lambda>n a w g. (CallThrows ''no tool'', w, g)), se_text_calls = (\<lambda>_. []), se_error_reply = (\<lambda>_. False),
     se_sanitize = (\<lambda>x. x)\<rparr>"

definition demo_spawned :: "bool \<Rightarrow> subagents" where
  "demo_spawned direct = snd (sub_spawn 1 ''a'' (demo_sub_options direct) subagents_new)"

text \<open>A run without a controller that was cancelled, and said so, ends as completed.\<close>
lemma direct_cancel_completed:
  "let (ok, t) = run_subagent demo_sub_env (demo_sub_options True) ''a'' (run_begin () (demo_spawned True))
   in ok \<and> map_option sg_aborted (jget (sb_running (sr_reg t)) ''a'') = Some True \<and> item_status ''a'' (sr_reg t) = Some SubCompleted
      \<and> map_option sa_result (sub_get ''a'' (sr_reg t)) = Some (Some no_answer)"
  by code_simp

text \<open>One cancelled while the controller plans its last turn ends as completed too.\<close>
lemma cancelled_completes:
  "let (ok, t) = run_subagent demo_sub_env (demo_sub_options False) ''a'' (run_begin () (demo_spawned False))
   in ok \<and> map_option sg_aborted (jget (sb_running (sr_reg t)) ''a'') = Some True \<and> item_status ''a'' (sr_reg t) = Some SubCompleted"
  by code_simp

text \<open>
  A prompt that cannot be built ends the run without any trace: the subagent stays running, also after its
  entry is gone, and who waits for it without a limit waits on.
\<close>
lemma context_failure_running:
  assumes "\<And>w g. se_context env w g = (CallThrows e, w, g)" and "jget (sb_items g) sid = Some r" "sa_status r = SubRunning"
  shows "let (ok, t) = run_subagent env o1 sid (run_begin w g)
         in \<not> ok \<and> sr_log t = [] \<and> wait_poll 0 started now sid (sub_settled sid (sr_reg t)) = None"
  using assms by (simp add: run_subagent_def sub_await_def run_begin_def wait_poll_def sub_settled_def)

text \<open>When 500 subagents are known and none has ended, adding one more fails.\<close>
lemma prune_fails:
  assumes "\<And>e. e \<in> set (sb_items g) \<Longrightarrow> \<not> sub_terminal (sa_status (snd e))" and "\<not> sub_terminal (sa_status r)"
    and "500 \<le> length (sb_items g)" and "sid \<notin> set (jkeys (sb_items g))"
  shows "\<not> fst (sub_upsert now sid r g)"
proof -
  have new: "jset k v m = m @ [(k, v)]" if "k \<notin> set (jkeys m)" for k v and m :: "(string, sub_ref) jmap"
    using that by (induction m) (auto simp: jkeys_def)
  have g: "jget (sb_items g) sid = None" using assms(4) by (simp add: jkeys_def map_of_eq_None_iff)
  have "filter (\<lambda>e. sa_status (snd e) \<in> {SubCompleted, SubFailed, SubCancelled}) (sb_items g @ [(sid, r\<lparr>sa_updated := now\<rparr>)]) = []"
    using assms(1,2) by (auto simp: filter_empty_conv sub_terminal_def)
  then have "prune_items (g\<lparr>sb_items := sb_items g @ [(sid, r\<lparr>sa_updated := now\<rparr>)]\<rparr>) = None"
    by (simp add: prune_items_def)
  then show ?thesis using assms(3,4) g new by (simp add: sub_upsert_def prune_if_full_def)
qed

text \<open>Spawning prunes nothing: what the registry knows grows with every subagent, and what ends stays.\<close>
lemma spawn_grows:
  assumes "length (sb_running g) < max_concurrent_subagents" and "sid \<notin> set (jkeys (sb_items g))"
  shows "length (sb_items (snd (sub_spawn now sid o1 g))) = Suc (length (sb_items g))"
    and "length (sb_items (sub_settled sid g)) = length (sb_items g)"
proof -
  have new: "length (jset k v m) = Suc (length m)" if "k \<notin> set (jkeys m)" for k v and m :: "(string, sub_ref) jmap"
    using that by (induction m) (auto simp: jkeys_def)
  show "length (sb_items (snd (sub_spawn now sid o1 g))) = Suc (length (sb_items g))"
    using assms new by (simp add: sub_spawn_def Let_def)
qed (simp add: sub_settled_def)

end
