(* ===== verification/DiffTool.thy ===== *)
theory DiffTool
  imports JsText Reconcile
begin

text \<open>
  \<open>src/src/agent/tools/diff.ts\<close>: comparing texts line by line, and applying a diff.

  Parameters have passed their schema. The files are a map from paths to contents, the text of a failed read
  is an argument; the percentage of the statistics is rounded exactly.
\<close>

section \<open>Common lines\<close>

text \<open>\<open>dp\<close>: the lengths of the longest common subsequences of the ends of both texts, row by row from below.\<close>

fun lcs_row :: "'a \<Rightarrow> 'a list \<Rightarrow> nat list \<Rightarrow> nat list" where
  "lcs_row x [] below = [0]"
| "lcs_row x (y # ys) below =
     (let right = lcs_row x ys (tl below)
      in (if x = y then hd (tl below) + 1 else max (hd below) (hd right)) # right)"

fun lcs_table :: "'a list \<Rightarrow> 'a list \<Rightarrow> nat list list" where
  "lcs_table [] b = [replicate (length b + 1) 0]"
| "lcs_table (x # xs) b = (let t = lcs_table xs b in lcs_row x b (hd t) # t)"

function lcs_walk :: "'a list \<Rightarrow> 'a list \<Rightarrow> nat list list \<Rightarrow> nat \<Rightarrow> nat \<Rightarrow> (nat \<times> nat) list" where
  "lcs_walk a b dp i j =
     (if i < length a \<and> j < length b then
        if a ! i = b ! j then (i, j) # lcs_walk a b dp (i + 1) (j + 1)
        else if dp ! i ! (j + 1) \<le> dp ! (i + 1) ! j then lcs_walk a b dp (i + 1) j
        else lcs_walk a b dp i (j + 1)
      else [])"
  by auto
termination by (relation "measure (\<lambda>(a, b, dp, i, j). (length a - i) + (length b - j))") auto

declare lcs_walk.simps [simp del]

text \<open>For long texts: every line with the next place it has in the other text.\<close>

definition next_place :: "'a \<Rightarrow> 'a list \<Rightarrow> int \<Rightarrow> nat option" where
  "next_place x b before = find (\<lambda>p. before < int p) (filter (\<lambda>p. b ! p = x) [0..<length b])"

fun lcs_greedy :: "'a list \<Rightarrow> nat \<Rightarrow> int \<Rightarrow> 'a list \<Rightarrow> (nat \<times> nat) list" where
  "lcs_greedy [] i before b = []"
| "lcs_greedy (x # xs) i before b =
     (case next_place x b before of
       Some j \<Rightarrow> (i, j) # lcs_greedy xs (i + 1) (int j) b
     | None \<Rightarrow> lcs_greedy xs (i + 1) before b)"

definition lcs_indices :: "'a list \<Rightarrow> 'a list \<Rightarrow> (nat \<times> nat) list" where
  "lcs_indices a b =
     (if a = [] \<or> b = [] then []
      else if 5000 < min (length a) (length b) then lcs_greedy a 0 (- 1) b
      else lcs_walk a b (lcs_table a b) 0 0)"


section \<open>Changes and hunks\<close>

datatype change_kind = KeepLine | DelLine | AddLine

record line_change =
  lc_kind :: change_kind
  lc_old :: nat
  lc_new :: nat
  lc_line :: string

definition line_at :: "string list \<Rightarrow> nat \<Rightarrow> string" where
  "line_at xs i = (if i < length xs then xs ! i else ''undefined'')"

definition line_change_of :: "change_kind \<Rightarrow> nat \<Rightarrow> nat \<Rightarrow> string \<Rightarrow> line_change" where
  "line_change_of k oi ni l = \<lparr>lc_kind = k, lc_old = oi, lc_new = ni, lc_line = l\<rparr>"

text \<open>The walk through both texts along the common lines that are left.\<close>

function line_changes :: "string list \<Rightarrow> string list \<Rightarrow> (nat \<times> nat) list \<Rightarrow> nat \<Rightarrow> nat \<Rightarrow> line_change list" where
  "line_changes olds news lcs oi ni =
     (if oi < length olds \<or> ni < length news then
        if lcs \<noteq> [] \<and> hd lcs = (oi, ni)
          then line_change_of KeepLine oi ni (line_at olds oi) # line_changes olds news (tl lcs) (oi + 1) (ni + 1)
        else if lcs \<noteq> [] \<and> oi < fst (hd lcs)
          then line_change_of DelLine oi ni (line_at olds oi) # line_changes olds news lcs (oi + 1) ni
        else if lcs \<noteq> [] \<and> ni < snd (hd lcs)
          then line_change_of AddLine oi ni (line_at news ni) # line_changes olds news lcs oi (ni + 1)
        else if oi < length olds
          then line_change_of DelLine oi ni (line_at olds oi) # line_changes olds news lcs (oi + 1) ni
        else line_change_of AddLine oi ni (line_at news ni) # line_changes olds news lcs oi (ni + 1)
      else [])"
  by auto

definition walk_left :: "(nat \<times> nat) list \<Rightarrow> nat \<Rightarrow> nat \<Rightarrow> nat" where
  "walk_left lcs oi ni = sum_list (map (\<lambda>(p, q). (p - oi) + (q - ni)) lcs)"

lemma walk_left_mono: "oi \<le> oi' \<Longrightarrow> ni \<le> ni' \<Longrightarrow> walk_left lcs oi' ni' \<le> walk_left lcs oi ni"
  unfolding walk_left_def by (rule sum_list_mono) auto

lemma walk_left_tl: "walk_left (tl lcs) oi ni \<le> walk_left lcs oi ni"
  by (cases lcs) (auto simp: walk_left_def)

lemma walk_left_hd:
  assumes "lcs \<noteq> []" "oi < fst (hd lcs)"
  shows "walk_left lcs (Suc oi) ni < walk_left lcs oi ni"
  using assms walk_left_mono[of oi "Suc oi" ni ni "tl lcs"]
  by (cases lcs) (auto simp: walk_left_def)

lemma walk_left_hd2:
  assumes "lcs \<noteq> []" "ni < snd (hd lcs)"
  shows "walk_left lcs oi (Suc ni) < walk_left lcs oi ni"
  using assms walk_left_mono[of oi oi ni "Suc ni" "tl lcs"]
  by (cases lcs) (auto simp: walk_left_def)

definition walk_measure :: "string list \<Rightarrow> string list \<Rightarrow> (nat \<times> nat) list \<Rightarrow> nat \<Rightarrow> nat \<Rightarrow> nat" where
  "walk_measure olds news lcs oi ni = (length olds - oi) + (length news - ni) + walk_left lcs oi ni"

lemma walk_measure_keep:
  "oi < length olds \<or> ni < length news \<Longrightarrow> walk_measure olds news (tl lcs) (Suc oi) (Suc ni) < walk_measure olds news lcs oi ni"
  using walk_left_mono[of oi "Suc oi" ni "Suc ni" "tl lcs"] walk_left_tl[of lcs oi ni]
  unfolding walk_measure_def by linarith

lemma walk_measure_old:
  "oi < length olds \<or> lcs \<noteq> [] \<and> oi < fst (hd lcs) \<Longrightarrow> walk_measure olds news lcs (Suc oi) ni < walk_measure olds news lcs oi ni"
  using walk_left_mono[of oi "Suc oi" ni ni lcs] walk_left_hd[of lcs oi ni]
  unfolding walk_measure_def by linarith

lemma walk_measure_new:
  "ni < length news \<or> lcs \<noteq> [] \<and> ni < snd (hd lcs) \<Longrightarrow> walk_measure olds news lcs oi (Suc ni) < walk_measure olds news lcs oi ni"
  using walk_left_mono[of oi oi ni "Suc ni" lcs] walk_left_hd2[of lcs ni oi]
  unfolding walk_measure_def by linarith

termination line_changes
  by (relation "measure (\<lambda>(olds, news, lcs, oi, ni). walk_measure olds news lcs oi ni)")
    (auto intro: walk_measure_keep walk_measure_old walk_measure_new)

declare line_changes.simps [simp del]

text \<open>The first change at or after a place; the end of the hunk that begins there.\<close>

definition keeps_from :: "line_change list \<Rightarrow> nat \<Rightarrow> nat" where
  "keeps_from cs i = length (takeWhile (\<lambda>c. lc_kind c = KeepLine) (drop i cs))"

function hunk_end :: "line_change list \<Rightarrow> nat \<Rightarrow> nat \<Rightarrow> nat" where
  "hunk_end cs ctx e =
     (if e < length cs then
        if lc_kind (cs ! e) \<noteq> KeepLine then hunk_end cs ctx (e + 1)
        else let j = e + keeps_from cs e
             in if ctx * 2 < j - e \<and> j < length cs then e + ctx
                else if length cs \<le> j then min (length cs) (e + ctx)
                else hunk_end cs ctx j
      else e)"
  by auto

lemma keeps_from_pos: "e < length cs \<Longrightarrow> lc_kind (cs ! e) = KeepLine \<Longrightarrow> 0 < keeps_from cs e"
  by (simp add: keeps_from_def flip: Cons_nth_drop_Suc)

termination hunk_end
  by (relation "measure (\<lambda>(cs, ctx, e). length cs - e)") (use keeps_from_pos in \<open>auto simp: diff_less_mono2\<close>)

declare hunk_end.simps [simp del]

definition change_text :: "line_change \<Rightarrow> string" where
  "change_text c = (case lc_kind c of KeepLine \<Rightarrow> CHR '' '' | DelLine \<Rightarrow> CHR ''-'' | AddLine \<Rightarrow> CHR ''+'') # lc_line c"

definition count_kind :: "change_kind \<Rightarrow> line_change list \<Rightarrow> nat" where
  "count_kind k cs = length (filter (\<lambda>c. lc_kind c \<noteq> k) cs)"

definition hunk_header :: "nat \<Rightarrow> nat \<Rightarrow> nat \<Rightarrow> nat \<Rightarrow> string" where
  "hunk_header os oc ns nc = ''@@ -'' @ nat_text os @ '','' @ nat_text oc @ '' +'' @ nat_text ns @ '','' @ nat_text nc @ '' @@''"

text \<open>A line that is not added counts for the old text, one that is not deleted for the new one.\<close>

definition hunk_text :: "line_change list \<Rightarrow> nat \<Rightarrow> nat \<Rightarrow> string list" where
  "hunk_text cs st e =
     (let h = take (e - st) (drop st cs)
      in hunk_header (if st < length cs then lc_old (cs ! st) + 1 else 1) (count_kind AddLine h)
                     (if st < length cs then lc_new (cs ! st) + 1 else 1) (count_kind DelLine h)
         # map change_text h)"

lemma hunk_end_ge: "e \<le> hunk_end cs ctx e"
proof (induction cs ctx e rule: hunk_end.induct)
  case (1 cs ctx e)
  then show ?case by (subst hunk_end.simps) (auto simp: Let_def)
qed

lemma hunk_end_gt:
  assumes "e < length cs" "lc_kind (cs ! e) \<noteq> KeepLine"
  shows "e < hunk_end cs ctx e"
  using assms hunk_end_ge[of "e + 1" cs ctx] by (subst hunk_end.simps) simp

lemma keeps_from_end: "i + keeps_from cs i < length cs \<Longrightarrow> lc_kind (cs ! (i + keeps_from cs i)) \<noteq> KeepLine"
  unfolding keeps_from_def using nth_length_takeWhile[of "\<lambda>c. lc_kind c = KeepLine" "drop i cs"] by auto

function diff_hunks :: "line_change list \<Rightarrow> nat \<Rightarrow> nat \<Rightarrow> string list" where
  "diff_hunks cs ctx i =
     (let i = i + keeps_from cs i
      in if length cs \<le> i then []
         else let e = hunk_end cs ctx i in hunk_text cs (i - ctx) e @ diff_hunks cs ctx e)"
  by auto
termination
proof (relation "measure (\<lambda>(cs, ctx, i). length cs - i)")
  fix cs :: "line_change list" and ctx i x xa
  assume "x = i + keeps_from cs i" "\<not> length cs \<le> x" "xa = hunk_end cs ctx x"
  then have "i < xa" "i < length cs" using hunk_end_gt[of x cs ctx] keeps_from_end[of i cs] by auto
  then show "((cs, ctx, xa), cs, ctx, i) \<in> measure (\<lambda>(cs, ctx, i). length cs - i)" by simp
qed simp

declare diff_hunks.simps [simp del]

definition compute_diff_hunks :: "string list \<Rightarrow> string list \<Rightarrow> nat \<Rightarrow> string list" where
  "compute_diff_hunks olds news ctx = diff_hunks (line_changes olds news (lcs_indices olds news) 0 0) ctx 0"

definition text_lines :: "string \<Rightarrow> string list" where
  "text_lines s = split_on (\<lambda>c. c = CHR 0x0A) s"

definition no_differences :: string where
  "no_differences = ''(no differences)''"

definition compare_texts :: "string \<Rightarrow> string \<Rightarrow> nat \<Rightarrow> string" where
  "compare_texts old new ctx =
     (if old = new then no_differences
      else str_join [CHR 0x0A] ([''--- a'', ''+++ b''] @ compute_diff_hunks (text_lines old) (text_lines new) ctx))"


section \<open>Applying a diff\<close>

text \<open>\<open>Array.prototype.splice\<close>: a negative place counts from the end.\<close>

definition splice_at :: "int \<Rightarrow> 'a list \<Rightarrow> nat" where
  "splice_at i xs = (if i < 0 then nat (max 0 (int (length xs) + i)) else min (nat i) (length xs))"

definition js_splice :: "int \<Rightarrow> nat \<Rightarrow> 'a list \<Rightarrow> 'a list \<Rightarrow> 'a list" where
  "js_splice i n new xs = (let k = splice_at i xs in take k xs @ new @ drop (k + n) xs)"

text \<open>The header of a hunk, as its regular expression reads it: the first number.\<close>

definition after_digits :: "string \<Rightarrow> string" where
  "after_digits s = dropWhile cron_digit s"

definition after_comma :: "string \<Rightarrow> string" where
  "after_comma s = (if starts_with '','' s then tl s else s)"

definition hunk_start :: "string \<Rightarrow> nat option" where
  "hunk_start d =
     (if \<not> starts_with ''@@ -'' d then None
      else let s = drop 4 d; n = takeWhile cron_digit s; t = after_digits (after_comma (after_digits s))
           in if n = [] \<or> \<not> starts_with '' +'' t then None
              else let u = drop 2 t
                   in if takeWhile cron_digit u = [] \<or> \<not> starts_with '' @@'' (after_digits (after_comma (after_digits u))) then None
                      else Some (nat_of_digits n))"

definition ends_hunk :: "string \<Rightarrow> bool" where
  "ends_hunk d \<longleftrightarrow> starts_with ''@@'' d \<or> starts_with ''---'' d \<or> starts_with ''+++'' d"

text \<open>The places that are removed and the lines that are added.\<close>

fun hunk_edits :: "string list \<Rightarrow> int \<Rightarrow> int list \<times> string list" where
  "hunk_edits [] pos = ([], [])"
| "hunk_edits (d # ds) pos =
     (if starts_with ''-'' d then (let (rs, as) = hunk_edits ds (pos + 1) in (pos # rs, as))
      else if starts_with ''+'' d then (let (rs, as) = hunk_edits ds pos in (rs, tl d # as))
      else hunk_edits ds (pos + 1))"

fun insert_lines :: "string list \<Rightarrow> int \<Rightarrow> string list \<Rightarrow> string list" where
  "insert_lines [] k xs = xs"
| "insert_lines (a # as) k xs = insert_lines as (k + 1) (js_splice k 0 [a] xs)"

definition apply_hunk :: "int \<Rightarrow> string list \<Rightarrow> string list \<Rightarrow> string list" where
  "apply_hunk start body xs =
     (let (rs, as) = hunk_edits body start;
          xs = foldr (\<lambda>r xs. js_splice r 1 [] xs) rs xs
      in insert_lines as (if rs = [] then start else hd rs) xs)"

definition hunk_offset :: "string list \<Rightarrow> int" where
  "hunk_offset body = (let (rs, as) = hunk_edits body 0 in int (length as) - int (length rs))"

function apply_hunks :: "string list \<Rightarrow> int \<Rightarrow> string list \<Rightarrow> string list" where
  "apply_hunks [] offset xs = xs"
| "apply_hunks (d # ds) offset xs =
     (case hunk_start d of
       None \<Rightarrow> apply_hunks ds offset xs
     | Some n \<Rightarrow> let body = takeWhile (\<lambda>d. \<not> ends_hunk d) ds
                 in apply_hunks (dropWhile (\<lambda>d. \<not> ends_hunk d) ds) (offset + hunk_offset body)
                      (apply_hunk (int n - 1 + offset) body xs))"
  by pat_completeness auto
termination
  by (relation "measure (\<lambda>(ds, offset, xs). length ds)") (auto simp: less_Suc_eq_le length_dropWhile_le)

definition patch_text :: "string \<Rightarrow> string \<Rightarrow> string" where
  "patch_text diff original = str_join [CHR 0x0A] (apply_hunks (text_lines diff) 0 (text_lines original))"


section \<open>The tool\<close>

type_synonym text_files = "string \<Rightarrow> string option"

definition max_diff_size :: nat where
  "max_diff_size = 1024 * 512"

definition resolve_text :: "(string \<Rightarrow> string) \<Rightarrow> text_files \<Rightarrow> string \<Rightarrow> string + string" where
  "resolve_text read_error files s =
     (if starts_with ''@file:'' s
      then (let path = str_trim (drop 6 s)
            in case files path of
                 None \<Rightarrow> Inl (read_error path)
               | Some c \<Rightarrow> if max_diff_size < length c then Inl (''file too large: '' @ path) else Inr c)
      else if max_diff_size < length s then Inl ''text too large''
      else Inr s)"

record diff_request =
  df_operation :: string
  df_old :: string
  df_new :: string
  df_diff :: string
  df_target :: string
  df_context :: "int option"
  df_format :: string

record diff_stats =
  dt_old :: nat
  dt_new :: nat
  dt_added :: int
  dt_removed :: int
  dt_similarity :: "int option"

datatype diff_answer = DiffText string | DiffStats diff_stats

definition context_of :: "diff_request \<Rightarrow> nat" where
  "context_of q = nat (min 20 (max 0 (case df_context q of Some n \<Rightarrow> n | None \<Rightarrow> 3)))"

definition resolve_both :: "(string \<Rightarrow> string) \<Rightarrow> text_files \<Rightarrow> diff_request \<Rightarrow> string + string \<times> string" where
  "resolve_both read_error files q =
     (case resolve_text read_error files (df_old q) of
       Inl e \<Rightarrow> Inl e
     | Inr old \<Rightarrow> (case resolve_text read_error files (df_new q) of Inl e \<Rightarrow> Inl e | Inr new \<Rightarrow> Inr (old, new)))"

definition diff_stats_of :: "string \<Rightarrow> string \<Rightarrow> diff_stats" where
  "diff_stats_of old new =
     (let os = text_lines old; ns = text_lines new; common = length (lcs_indices os ns)
      in \<lparr>dt_old = length os, dt_new = length ns, dt_added = int (length ns) - int common,
          dt_removed = int (length os) - int common,
          dt_similarity = (if os = [] then None else Some \<lfloor>of_nat common / of_nat (length os) * 100 + 1 / 2 :: rat\<rfloor>)\<rparr>)"

definition is_added_line :: "string \<Rightarrow> bool" where
  "is_added_line l \<longleftrightarrow> starts_with ''+'' l \<and> \<not> starts_with ''+++'' l"

definition is_removed_line :: "string \<Rightarrow> bool" where
  "is_removed_line l \<longleftrightarrow> starts_with ''-'' l \<and> \<not> starts_with ''---'' l"

text \<open>Escaping for HTML: ampersands first, so that the escapes of the brackets stay.\<close>

definition html_char :: "char \<Rightarrow> string" where
  "html_char c = (if c = CHR ''&'' then ''&amp;'' else if c = CHR ''<'' then ''&lt;'' else if c = CHR ''>'' then ''&gt;'' else [c])"

definition coloured :: "string \<Rightarrow> string \<Rightarrow> string" where
  "coloured colour l = ''<span style='' @ [CHR 0x22] @ ''color:'' @ colour @ [CHR 0x22] @ ''>'' @ l @ ''</span>''"

definition html_line :: "string \<Rightarrow> string" where
  "html_line l =
     (let e = concat (map html_char l)
      in if is_added_line l then coloured ''green'' e
         else if is_removed_line l then coloured ''red'' e
         else if starts_with ''@@'' l then coloured ''cyan'' e
         else e)"

definition em_dash :: string where
  "em_dash = '' '' @ utf8 [0xE2, 0x80, 0x94] @ '' ''"

definition render_diff :: "string \<Rightarrow> string \<Rightarrow> string" where
  "render_diff format diff =
     (let ls = text_lines diff; nl = [CHR 0x0A]; fence = ''```''; tick = ''`'';
          added = nat_text (length (filter is_added_line ls)); removed = nat_text (length (filter is_removed_line ls));
          counts = (\<lambda>a b. a @ ''+'' @ added @ b @ '' / '' @ a @ ''-'' @ removed @ b); body = str_join nl ls
      in if format = ''slack'' then ''*Diff*'' @ em_dash @ counts tick tick @ nl @ fence @ nl @ body @ nl @ fence
         else if format = ''html'' then ''<b>Diff</b>'' @ em_dash @ counts ''<code>'' ''</code>'' @ nl
           @ ''<pre>'' @ str_join nl (map html_line ls) @ ''</pre>''
         else if format = ''plain'' then ''Diff'' @ em_dash @ counts [] [] @ nl @ concat (replicate 40 (utf8 [0xE2, 0x94, 0x80])) @ nl @ body
         else ''**Diff**'' @ em_dash @ counts tick tick @ nl @ fence @ ''diff'' @ nl @ body @ nl @ fence)"

text \<open>A patch of a file writes it and answers with the number of its lines.\<close>

definition diff_patch :: "(string \<Rightarrow> string) \<Rightarrow> text_files \<Rightarrow> diff_request \<Rightarrow> (string + string) \<times> text_files" where
  "diff_patch read_error files q =
     (if str_trim (df_diff q) = [] then (Inr ''Error: diff_text is required'', files)
      else let target = str_trim (df_target q)
           in if target = [] then
                (case resolve_text read_error files (df_old q) of
                  Inl e \<Rightarrow> (Inl e, files)
                | Inr original \<Rightarrow> (Inr (patch_text (df_diff q) original), files))
              else (case files target of
                  None \<Rightarrow> (Inl (read_error target), files)
                | Some original \<Rightarrow>
                    let ls = apply_hunks (text_lines (df_diff q)) 0 (text_lines original)
                    in (Inr (''Patched '' @ target @ '' ('' @ nat_text (length ls) @ '' lines)''), files(target \<mapsto> str_join [CHR 0x0A] ls))))"

definition diff_render :: "(string \<Rightarrow> string) \<Rightarrow> text_files \<Rightarrow> diff_request \<Rightarrow> string + string" where
  "diff_render read_error files q =
     (let format = str_lower (if df_format q = [] then ''markdown'' else df_format q); diff = str_trim (df_diff q)
      in if diff \<noteq> [] then Inr (render_diff format diff)
         else (case resolve_both read_error files q of
                Inl e \<Rightarrow> Inl e
              | Inr (old, new) \<Rightarrow> if old = new then Inr no_differences
                                  else Inr (render_diff format (compare_texts old new (context_of q)))))"

definition error_text :: "string + string \<Rightarrow> string" where
  "error_text r = (case r of Inl e \<Rightarrow> ''Error: '' @ e | Inr x \<Rightarrow> x)"

definition diff_run :: "(string \<Rightarrow> string) \<Rightarrow> text_files \<Rightarrow> diff_request \<Rightarrow> diff_answer \<times> text_files" where
  "diff_run read_error files q =
     (let op = (if df_operation q = [] then ''compare'' else df_operation q)
      in if op = ''compare'' then
           (DiffText (error_text (case resolve_both read_error files q of
               Inl e \<Rightarrow> Inl e
             | Inr (old, new) \<Rightarrow> Inr (compare_texts old new (context_of q)))), files)
         else if op = ''patch'' then
           (let (r, files) = diff_patch read_error files q in (DiffText (error_text r), files))
         else if op = ''stats'' then
           (case resolve_both read_error files q of
             Inl e \<Rightarrow> (DiffText (error_text (Inl e)), files)
           | Inr (old, new) \<Rightarrow> (DiffStats (diff_stats_of old new), files))
         else if op = ''render'' then (DiffText (error_text (diff_render read_error files q)), files)
         else (DiffText (''Error: unsupported operation '' @ [CHR 0x22] @ op @ [CHR 0x22]), files))"

end
