(* ===== verification/DiffToolCorrect.thy ===== *)
theory DiffToolCorrect
  imports DiffTool ReconcileCorrect "HOL-Library.Sublist"
begin

text \<open>
  What the diff tool computes: a longest common subsequence of the lines, and, without lines of context, a diff
  that turns the old text into the new one. With context it need not.
\<close>

section \<open>Longest common subsequences\<close>

text \<open>The length of a longest common subsequence.\<close>

fun lcs_len :: "'a list \<Rightarrow> 'a list \<Rightarrow> nat" where
  "lcs_len [] b = 0"
| "lcs_len a [] = 0"
| "lcs_len (x # a) (y # b) = (if x = y then lcs_len a b + 1 else max (lcs_len a (y # b)) (lcs_len (x # a) b))"

lemma lcs_len_Nil [simp]: "lcs_len a [] = 0"
  by (cases a) auto

lemma subseq_rest: "subseq (z # zs) (x # a) \<Longrightarrow> subseq zs a"
  by (cases "z = x") (auto dest: subseq_Cons')

lemma lcs_len_greatest: "subseq zs a \<Longrightarrow> subseq zs b \<Longrightarrow> length zs \<le> lcs_len a b"
proof (induction a b arbitrary: zs rule: lcs_len.induct)
  case (3 x a y b)
  show ?case
  proof (cases zs)
    case (Cons z zs')
    show ?thesis
    proof (cases "x = y")
      case True
      have "subseq zs' a" "subseq zs' b" using 3(4,5) Cons by (auto intro: subseq_rest)
      then show ?thesis using True 3(1) Cons by simp
    next
      case False
      then have "subseq zs a \<or> subseq zs b" using 3(4,5) Cons by (auto split: if_splits)
      then show ?thesis using False 3 by fastforce
    qed
  qed simp
qed auto

fun tails :: "'a list \<Rightarrow> 'a list list" where
  "tails [] = [[]]"
| "tails (y # ys) = (y # ys) # tails ys"

lemma tails_nth: "j \<le> length ys \<Longrightarrow> tails ys ! j = drop j ys"
  by (induction ys arbitrary: j) (auto simp: nth_Cons split: nat.splits)

lemma length_tails [simp]: "length (tails ys) = Suc (length ys)"
  by (induction ys) auto

lemma hd_tails [simp]: "hd (map f (tails ys)) = f ys"
  by (cases ys) auto

lemma lcs_row_lens: "lcs_row x ys (map (lcs_len xs) (tails ys)) = map (lcs_len (x # xs)) (tails ys)"
  by (induction ys) (auto simp: Let_def)

lemma lcs_table_lens: "lcs_table a b = map (\<lambda>s. map (lcs_len s) (tails b)) (tails a)"
proof (induction a)
  case Nil
  have "lcs_len [] = (\<lambda>s :: 'a list. 0)" by auto
  then show ?case by (simp add: map_replicate_const)
qed (simp add: Let_def lcs_row_lens)

lemma lcs_table_nth: "i \<le> length a \<Longrightarrow> j \<le> length b \<Longrightarrow> lcs_table a b ! i ! j = lcs_len (drop i a) (drop j b)"
  by (simp add: lcs_table_lens tails_nth less_Suc_eq_le)

lemma lcs_walk_length:
  "length (lcs_walk a b (lcs_table a b) i j) = lcs_len (drop i a) (drop j b)"
proof (induction a b "lcs_table a b" i j rule: lcs_walk.induct)
  case (1 a b i j)
  show ?case
  proof (cases "i < length a \<and> j < length b")
    case True
    then have d: "drop i a = a ! i # drop (i + 1) a" "drop j b = b ! j # drop (j + 1) b" by (simp_all add: Cons_nth_drop_Suc)
    have t: "lcs_table a b ! i ! (j + 1) = lcs_len (drop i a) (drop (j + 1) b)"
      "lcs_table a b ! (i + 1) ! j = lcs_len (drop (i + 1) a) (drop j b)"
      using True lcs_table_nth[of i a "j + 1" b] lcs_table_nth[of "i + 1" a j b] by auto
    show ?thesis using True 1 d t by (subst lcs_walk.simps) auto
  qed (subst lcs_walk.simps, auto)
qed

text \<open>Pairs of places of equal lines, both coordinates growing.\<close>

fun common_from :: "'a list \<Rightarrow> 'a list \<Rightarrow> nat \<Rightarrow> nat \<Rightarrow> (nat \<times> nat) list \<Rightarrow> bool" where
  "common_from a b i j [] = True"
| "common_from a b i j ((p, q) # ps) =
     (i \<le> p \<and> j \<le> q \<and> p < length a \<and> q < length b \<and> a ! p = b ! q \<and> common_from a b (p + 1) (q + 1) ps)"

lemma common_from_mono: "common_from a b i j ps \<Longrightarrow> i' \<le> i \<Longrightarrow> j' \<le> j \<Longrightarrow> common_from a b i' j' ps"
  by (cases ps) auto

lemma common_walk: "common_from a b i j (lcs_walk a b dp i j)"
proof (induction a b dp i j rule: lcs_walk.induct)
  case (1 a b dp i j)
  then show ?case by (subst lcs_walk.simps) (auto intro: common_from_mono)
qed

lemma common_greedy:
  "i \<le> length a \<Longrightarrow> - 1 \<le> before \<Longrightarrow> common_from a b i (nat (before + 1)) (lcs_greedy (drop i a) i before b)"
proof (induction "drop i a" i before b rule: lcs_greedy.induct)
  case (2 x xs i before b)
  have i: "i < length a" using "2.hyps"(3) by (metis drop_all list.distinct(1) not_le)
  then have x: "a ! i = x" "xs = drop (i + 1) a" using "2.hyps"(3) by (metis Cons_nth_drop_Suc Suc_eq_plus1 list.inject)+
  show ?case
  proof (cases "next_place x b before")
    case None
    then show ?thesis using 2 i x common_from_mono[of a b "i + 1" "nat (before + 1)"] by (auto simp flip: "2.hyps"(3))
  next
    case (Some j)
    then have "j < length b" "b ! j = x" "before < int j" by (auto simp: next_place_def find_Some_iff dest: nth_mem)
    then show ?thesis using 2 Some i x by (auto simp: nat_add_distrib simp flip: "2.hyps"(3))
  qed
qed simp

lemma common_lcs: "common_from a b 0 0 (lcs_indices a b)"
  using common_greedy[of 0 a "- 1" b] common_walk[of a b 0 0] by (simp add: lcs_indices_def)

text \<open>
  The lines the tool keeps are equal lines of both texts, in order, and no common subsequence of lines is longer,
  unless both texts are long.
\<close>
theorem lcs_longest:
  assumes "min (length a) (length b) \<le> 5000" and "subseq zs a" and "subseq zs b"
  shows "common_from a b 0 0 (lcs_indices a b) \<and> length zs \<le> length (lcs_indices a b)"
  using assms common_lcs[of a b] lcs_walk_length[of a b 0 0] lcs_len_greatest[OF assms(2,3)]
  by (auto simp: lcs_indices_def)

lemma lcs_longest_witness:
  "let a = [1, 2, 3, 4, 5 :: nat]; b = [2, 9, 4, 1, 5] in 3 \<le> length (lcs_indices a b)"
proof -
  have "subseq [2, 4, 5 :: nat] [1, 2, 3, 4, 5]" "subseq [2, 4, 5 :: nat] [2, 9, 4, 1, 5]" by code_simp+
  then show ?thesis using lcs_longest[of "[1, 2, 3, 4, 5 :: nat]" "[2, 9, 4, 1, 5]" "[2, 4, 5]"] by simp
qed


section \<open>The changes hold both texts\<close>

definition olds_of :: "line_change list \<Rightarrow> string list" where
  "olds_of cs = map lc_line (filter (\<lambda>c. lc_kind c \<noteq> AddLine) cs)"

definition news_of :: "line_change list \<Rightarrow> string list" where
  "news_of cs = map lc_line (filter (\<lambda>c. lc_kind c \<noteq> DelLine) cs)"

lemma sides_simps [simp]:
  "olds_of [] = []" "news_of [] = []"
  "olds_of (cs @ ds) = olds_of cs @ olds_of ds" "news_of (cs @ ds) = news_of cs @ news_of ds"
  "olds_of (c # cs) = (if lc_kind c = AddLine then olds_of cs else lc_line c # olds_of cs)"
  "news_of (c # cs) = (if lc_kind c = DelLine then news_of cs else lc_line c # news_of cs)"
  by (simp_all add: olds_of_def news_of_def)

fun indexed_changes :: "nat \<Rightarrow> nat \<Rightarrow> line_change list \<Rightarrow> bool" where
  "indexed_changes o1 n [] = True"
| "indexed_changes o1 n (c # cs) = (lc_old c = o1 \<and> lc_new c = n \<and>
     indexed_changes (if lc_kind c = AddLine then o1 else o1 + 1) (if lc_kind c = DelLine then n else n + 1) cs)"

lemma indexed_nth: "indexed_changes o1 n cs \<Longrightarrow> k < length cs \<Longrightarrow> lc_old (cs ! k) = o1 + length (olds_of (take k cs))"
  by (induction cs arbitrary: o1 n k) (auto simp: nth_Cons split: nat.splits)

lemma line_change_of_simps [simp]:
  "lc_kind (line_change_of k oi ni l) = k" "lc_old (line_change_of k oi ni l) = oi"
  "lc_new (line_change_of k oi ni l) = ni" "lc_line (line_change_of k oi ni l) = l"
  by (simp_all add: line_change_of_def)

lemma line_changes_sides:
  "common_from olds news oi ni lcs \<Longrightarrow> oi \<le> length olds \<Longrightarrow> ni \<le> length news \<Longrightarrow>
     olds_of (line_changes olds news lcs oi ni) = drop oi olds \<and> news_of (line_changes olds news lcs oi ni) = drop ni news
     \<and> indexed_changes oi ni (line_changes olds news lcs oi ni)"
proof (induction olds news lcs oi ni rule: line_changes.induct)
  case (1 olds news lcs oi ni)
  have o: "oi < length olds \<Longrightarrow> drop oi olds = line_at olds oi # drop (Suc oi) olds"
    and n: "ni < length news \<Longrightarrow> drop ni news = line_at news ni # drop (Suc ni) news"
    by (simp_all add: line_at_def Cons_nth_drop_Suc)
  consider (stop) "length olds \<le> oi" "length news \<le> ni"
    | (keep) "oi < length olds \<or> ni < length news" "lcs \<noteq> [] \<and> hd lcs = (oi, ni)"
    | (del) "oi < length olds \<or> ni < length news" "\<not> (lcs \<noteq> [] \<and> hd lcs = (oi, ni))" "lcs \<noteq> [] \<and> oi < fst (hd lcs)"
    | (add) "oi < length olds \<or> ni < length news" "\<not> (lcs \<noteq> [] \<and> hd lcs = (oi, ni))" "\<not> (lcs \<noteq> [] \<and> oi < fst (hd lcs))"
        "lcs \<noteq> [] \<and> ni < snd (hd lcs)"
    | (rest) "oi < length olds \<or> ni < length news" "\<not> (lcs \<noteq> [] \<and> hd lcs = (oi, ni))" "\<not> (lcs \<noteq> [] \<and> oi < fst (hd lcs))"
        "\<not> (lcs \<noteq> [] \<and> ni < snd (hd lcs))"
    by linarith
  then show ?case
  proof cases
    case stop
    then show ?thesis by (simp add: line_changes.simps[of olds news _ oi ni])
  next
    case keep
    then obtain ps where l: "lcs = (oi, ni) # ps" by (cases lcs) auto
    then have "oi < length olds" "ni < length news" "line_at olds oi = line_at news ni"
      "common_from olds news (oi + 1) (ni + 1) ps" using "1.prems"(1) by (auto simp: line_at_def)
    then show ?thesis using "1.IH"(1) keep l o n by (simp add: line_changes.simps[of olds news _ oi ni])
  next
    case del
    then obtain p q ps where l: "lcs = (p, q) # ps" "oi < p" by (cases lcs) auto
    then have "oi < length olds" "common_from olds news (oi + 1) ni lcs" using "1.prems"(1) by auto
    then show ?thesis using "1.IH"(2) del o "1.prems" by (simp add: line_changes.simps[of olds news _ oi ni])
  next
    case add
    then obtain p q ps where l: "lcs = (p, q) # ps" "ni < q" by (cases lcs) auto
    then have "ni < length news" "common_from olds news oi (ni + 1) lcs" using "1.prems"(1) by auto
    then show ?thesis using "1.IH"(3) add n "1.prems" by (simp add: line_changes.simps[of olds news _ oi ni])
  next
    case rest
    then have l: "lcs = []" using "1.prems"(1) by (cases lcs) auto
    show ?thesis
    proof (cases "oi < length olds")
      case True
      then show ?thesis using "1.IH"(4) rest l o "1.prems" by (simp add: line_changes.simps[of olds news _ oi ni])
    next
      case False
      then show ?thesis using "1.IH"(5) rest l n "1.prems" by (simp add: line_changes.simps[of olds news "[]" "length olds" ni])
    qed
  qed
qed


section \<open>Hunks without context\<close>

abbreviation edited :: "line_change \<Rightarrow> bool" where
  "edited c \<equiv> lc_kind c \<noteq> KeepLine"

lemma hunk_end_run: "hunk_end cs 0 e = e + length (takeWhile edited (drop e cs))"
proof (induction cs "0 :: nat" e rule: hunk_end.induct)
  case (1 cs e)
  show ?case
  proof (cases "e < length cs")
    case True
    then have d: "drop e cs = cs ! e # drop (e + 1) cs" by (simp add: Cons_nth_drop_Suc)
    show ?thesis
    proof (cases "edited (cs ! e)")
      case True
      then show ?thesis using 1(1) \<open>e < length cs\<close> d by (subst hunk_end.simps) simp
    next
      case False
      then show ?thesis using keeps_from_pos[of e cs] \<open>e < length cs\<close> d
        by (subst hunk_end.simps) (auto simp: Let_def)
    qed
  qed (subst hunk_end.simps, simp)
qed

lemma keep_run_sides:
  "olds_of (takeWhile (\<lambda>c. lc_kind c = KeepLine) cs) = map lc_line (takeWhile (\<lambda>c. lc_kind c = KeepLine) cs)"
  "news_of (takeWhile (\<lambda>c. lc_kind c = KeepLine) cs) = map lc_line (takeWhile (\<lambda>c. lc_kind c = KeepLine) cs)"
  by (induction cs) auto

text \<open>Lines a diff can carry: a deleted line begins with no two dashes, an added one with no two plus signs.\<close>

definition markless :: "line_change \<Rightarrow> bool" where
  "markless c \<longleftrightarrow> (lc_kind c = DelLine \<longrightarrow> \<not> starts_with ''--'' (lc_line c)) \<and> (lc_kind c = AddLine \<longrightarrow> \<not> starts_with ''++'' (lc_line c))"

lemma plain_in_hunk: "edited c \<Longrightarrow> markless c \<Longrightarrow> \<not> ends_hunk (change_text c)"
  by (cases "lc_kind c") (auto simp: markless_def ends_hunk_def change_text_def)

lemma after_digits_text:
  assumes "all_digits s" "r \<noteq> []" "\<not> cron_digit (hd r)"
  shows "takeWhile cron_digit (s @ r) = s" "after_digits (s @ r) = r"
  using assms by (cases r; induction s; simp add: all_digits_def after_digits_def)+

lemma no_digit: "\<not> cron_digit CHR '' ''" "\<not> cron_digit CHR '',''" "\<not> cron_digit (CHR 0x0A)"
  by code_simp+

lemma hunk_start_header: "hunk_start (hunk_header os oc ns nc) = Some os"
proof -
  have d: "all_digits (nat_text n)" "nat_text n \<noteq> []" "nat_of_digits (nat_text n) = n" for n using digits_nat_text[of n] by auto
  show ?thesis
    by (simp add: hunk_start_def hunk_header_def Let_def after_digits_text d no_digit after_comma_def)
qed

lemma header_ends: "ends_hunk (hunk_header os oc ns nc)"
  by (simp add: ends_hunk_def hunk_header_def)


section \<open>Applying a hunk\<close>

lemma hunk_edits_run:
  "list_all edited cs \<Longrightarrow> hunk_edits (map change_text cs) pos = (map (\<lambda>k. pos + int k) [0..<length (olds_of cs)], news_of cs)"
proof (induction cs arbitrary: pos)
  case (Cons c cs)
  have u: "map (\<lambda>k. pos + int k) [0..<Suc n] = pos # map (\<lambda>k. pos + 1 + int k) [0..<n]" for n
    by (simp add: map_upt_Suc algebra_simps del: upt_Suc)
  show ?case using Cons u by (cases "lc_kind c") (auto simp: change_text_def simp del: upt_Suc)
qed simp

lemma remove_run: "foldr (\<lambda>r xs. js_splice r 1 [] xs) (map (\<lambda>k. int (length N) + int k) [0..<length D]) (N @ D @ R) = N @ R"
proof (induction D arbitrary: R rule: rev_induct)
  case (snoc x D)
  have "js_splice (int (length N) + int (length D)) 1 [] (N @ D @ x # R) = N @ D @ R"
    by (simp add: js_splice_def splice_at_def Let_def nat_add_distrib)
  then show ?case using snoc by simp
qed simp

lemma insert_lines_run: "insert_lines A (int (length N)) (N @ R) = N @ A @ R"
proof (induction A arbitrary: N)
  case (Cons a A)
  have "js_splice (int (length N)) 0 [a] (N @ R) = (N @ [a]) @ R" by (simp add: js_splice_def splice_at_def)
  then show ?case using Cons[of "N @ [a]"] by (simp add: add.commute)
qed simp

lemma apply_hunk_run:
  assumes "list_all edited cs"
  shows "apply_hunk (int (length N)) (map change_text cs) (N @ olds_of cs @ R) = N @ news_of cs @ R"
    and "hunk_offset (map change_text cs) = int (length (news_of cs)) - int (length (olds_of cs))"
proof -
  have rs: "(if xs = [] then m else hd (map f [0..<length xs])) = m" if "f 0 = m" for f :: "nat \<Rightarrow> int" and xs :: "string list" and m
    using that by (cases xs) (simp_all add: upt_conv_Cons del: upt_Suc)
  show "apply_hunk (int (length N)) (map change_text cs) (N @ olds_of cs @ R) = N @ news_of cs @ R"
    by (simp add: apply_hunk_def hunk_edits_run[OF assms] remove_run[simplified] insert_lines_run rs)
  show "hunk_offset (map change_text cs) = int (length (news_of cs)) - int (length (olds_of cs))"
    by (simp add: hunk_offset_def hunk_edits_run[OF assms])
qed


section \<open>A diff without context restores the new text\<close>

lemma hunks_head: "diff_hunks cs ctx i \<noteq> [] \<Longrightarrow> ends_hunk (hd (diff_hunks cs ctx i))"
  by (subst diff_hunks.simps, subst (asm) diff_hunks.simps) (auto simp: Let_def hunk_text_def header_ends split: if_splits)

lemma body_of_hunk:
  assumes "list_all edited cs" "list_all markless cs" "ds \<noteq> [] \<Longrightarrow> ends_hunk (hd ds)"
  shows "takeWhile (\<lambda>d. \<not> ends_hunk d) (map change_text cs @ ds) = map change_text cs"
    and "dropWhile (\<lambda>d. \<not> ends_hunk d) (map change_text cs @ ds) = ds"
proof -
  have d: "takeWhile (\<lambda>d. \<not> ends_hunk d) ds = []" "dropWhile (\<lambda>d. \<not> ends_hunk d) ds = ds"
    using assms(3) by (cases ds; auto)+
  show "takeWhile (\<lambda>d. \<not> ends_hunk d) (map change_text cs @ ds) = map change_text cs"
    "dropWhile (\<lambda>d. \<not> ends_hunk d) (map change_text cs @ ds) = ds"
    using assms(1,2) by (induction cs) (simp_all add: d plain_in_hunk)
qed

lemma body_of_hunks:
  assumes "list_all edited r" "list_all markless r"
  shows "takeWhile (\<lambda>d. \<not> ends_hunk d) (map change_text r @ diff_hunks cs ctx i) = map change_text r"
    and "dropWhile (\<lambda>d. \<not> ends_hunk d) (map change_text r @ diff_hunks cs ctx i) = diff_hunks cs ctx i"
  by (rule body_of_hunk[OF assms hunks_head]; assumption)+

lemma run_after:
  "take (i + length (takeWhile P (drop i cs))) cs = take i cs @ takeWhile P (drop i cs)"
  "drop i cs = takeWhile P (drop i cs) @ drop (i + length (takeWhile P (drop i cs))) cs"
  "take (length (takeWhile P (drop i cs))) (drop i cs) = takeWhile P (drop i cs)"
proof -
  show t: "take (length (takeWhile P (drop i cs))) (drop i cs) = takeWhile P (drop i cs)"
    by (rule takeWhile_eq_take[symmetric])
  show "take (i + length (takeWhile P (drop i cs))) cs = take i cs @ takeWhile P (drop i cs)"
    by (simp only: take_add t)
  show "drop i cs = takeWhile P (drop i cs) @ drop (i + length (takeWhile P (drop i cs))) cs"
    using append_take_drop_id[of "length (takeWhile P (drop i cs))" "drop i cs"] unfolding t by (simp add: add.commute)
qed

lemma apply_hunks_run:
  assumes n: "indexed_changes 0 0 cs" and p: "list_all markless cs"
  shows "apply_hunks (diff_hunks cs 0 i) (int (length (news_of (take i cs))) - int (length (olds_of (take i cs))))
     (news_of (take i cs) @ olds_of (drop i cs)) = news_of cs"
proof (induction "length cs - i" arbitrary: i rule: less_induct)
  case less
  let ?k = "takeWhile (\<lambda>c. lc_kind c = KeepLine) (drop i cs)"
  let ?i = "i + keeps_from cs i"
  have i: "take ?i cs = take i cs @ ?k" "drop i cs = ?k @ drop ?i cs"
    unfolding keeps_from_def by (rule run_after)+
  have "olds_of (drop i cs) = map lc_line ?k @ olds_of (drop ?i cs)"
    using arg_cong[OF i(2), of olds_of] unfolding sides_simps keep_run_sides .
  with i(1) have s: "news_of (take i cs) @ olds_of (drop i cs) = news_of (take ?i cs) @ olds_of (drop ?i cs)"
    and o: "int (length (news_of (take i cs))) - int (length (olds_of (take i cs)))
      = int (length (news_of (take ?i cs))) - int (length (olds_of (take ?i cs)))"
    by (simp_all add: keep_run_sides)
  show ?case
  proof (cases "length cs \<le> ?i")
    case True
    then show ?thesis using s by (simp add: diff_hunks.simps[of cs 0 i] Let_def)
  next
    case False
    let ?r = "takeWhile edited (drop ?i cs)"
    let ?e = "?i + length ?r"
    let ?N = "news_of (take ?i cs)"
    have r: "list_all edited ?r" "list_all markless ?r"
      using p by (auto simp: list_all_iff dest!: set_takeWhileD in_set_dropD)
    have e: "take ?e cs = take ?i cs @ ?r" "drop ?i cs = ?r @ drop ?e cs" "take (?e - ?i) (drop ?i cs) = ?r"
      using run_after[where i = ?i and P = edited and cs = cs] by simp_all
    have "0 < length ?r" using False keeps_from_end[of i cs] by (simp flip: Cons_nth_drop_Suc)
    then have ih: "apply_hunks (diff_hunks cs 0 ?e) (int (length (news_of (take ?e cs))) - int (length (olds_of (take ?e cs))))
        (news_of (take ?e cs) @ olds_of (drop ?e cs)) = news_of cs"
      using False by (intro less) linarith
    obtain oc ns nc where t: "diff_hunks cs 0 i = hunk_header (lc_old (cs ! ?i) + 1) oc ns nc # map change_text ?r @ diff_hunks cs 0 ?e"
      using False e(3) by (simp add: diff_hunks.simps[of cs 0 i] Let_def hunk_end_run hunk_text_def)
    have l: "lc_old (cs ! ?i) = length (olds_of (take ?i cs))" using indexed_nth[OF n, of ?i] False by simp
    let ?off = "int (length ?N) - int (length (olds_of (take ?i cs)))"
    have step: "apply_hunks (hunk_header (lc_old (cs ! ?i) + 1) oc ns nc # map change_text ?r @ diff_hunks cs 0 ?e) ?off xs
        = apply_hunks (diff_hunks cs 0 ?e) (?off + hunk_offset (map change_text ?r)) (apply_hunk (int (length ?N)) (map change_text ?r) xs)" for xs
      unfolding apply_hunks.simps(2) hunk_start_header option.case Let_def body_of_hunks[OF r] l by simp
    have d: "olds_of (drop ?i cs) = olds_of ?r @ olds_of (drop ?e cs)"
      using arg_cong[OF e(2), of olds_of] unfolding sides_simps .
    have w: "news_of (take ?e cs) = ?N @ news_of ?r" "olds_of (take ?e cs) = olds_of (take ?i cs) @ olds_of ?r"
      unfolding e(1) by simp_all
    have f: "?off + hunk_offset (map change_text ?r) = int (length (news_of (take ?e cs))) - int (length (olds_of (take ?e cs)))"
      unfolding w apply_hunk_run(2)[OF r(1)] by simp
    have x: "apply_hunk (int (length ?N)) (map change_text ?r) (?N @ olds_of (drop ?i cs)) = news_of (take ?e cs) @ olds_of (drop ?e cs)"
      unfolding d w apply_hunk_run(1)[OF r(1)] by simp
    show ?thesis unfolding s o t step f x by (rule ih)
  qed
qed

text \<open>Lines and text.\<close>

abbreviation nl :: char where
  "nl \<equiv> CHR 0x0A"

lemma split_on_append: "p c \<Longrightarrow> \<forall>x \<in> set w. \<not> p x \<Longrightarrow> split_on p (w @ c # s) = w # split_on p s"
  by (induction w) auto

lemma split_on_plain: "\<forall>x \<in> set w. \<not> p x \<Longrightarrow> split_on p w = [w]"
  by (induction w) auto

lemma lines_of_join: "ls \<noteq> [] \<Longrightarrow> \<forall>l \<in> set ls. nl \<notin> set l \<Longrightarrow> text_lines (str_join [nl] ls) = ls"
proof (induction ls rule: list_nonempty_induct)
  case (single l)
  then show ?case by (auto simp: text_lines_def intro: split_on_plain)
next
  case (cons l ls)
  obtain m ms where "ls = m # ms" using cons(1) by (cases ls) auto
  then show ?case using cons split_on_append[of "\<lambda>c. c = nl" nl l "str_join [nl] ls"] by (auto simp: text_lines_def)
qed

lemma text_lines_ne: "text_lines s \<noteq> []"
  by (simp add: text_lines_def split_on_nonempty)

lemma join_lines: "str_join [nl] (text_lines s) = s"
proof (induction s)
  case (Cons c s)
  obtain w ws where "text_lines s = w # ws" using text_lines_ne[of s] by (cases "text_lines s") auto
  then show ?case using Cons by (cases ws) (auto simp: text_lines_def)
qed (simp add: text_lines_def)

lemma lines_plain: "l \<in> set (text_lines s) \<Longrightarrow> nl \<notin> set l"
proof (induction s arbitrary: l)
  case (Cons c s)
  obtain w ws where "text_lines s = w # ws" using text_lines_ne[of s] by (cases "text_lines s") auto
  then show ?case using Cons by (auto simp: text_lines_def split: if_splits)
qed (simp add: text_lines_def)

lemma header_plain: "nl \<notin> set (hunk_header os oc ns nc)"
proof -
  have "nl \<notin> set (nat_text n)" for n using digits_nat_text[of n] no_digit by (auto simp: all_digits_def list_all_iff)
  then show ?thesis by (simp add: hunk_header_def)
qed

lemma hunk_lines_plain:
  "\<forall>c \<in> set cs. nl \<notin> set (lc_line c) \<Longrightarrow> \<forall>d \<in> set (diff_hunks cs ctx i). nl \<notin> set d"
proof (induction cs ctx i rule: diff_hunks.induct)
  case (1 cs ctx i)
  have "nl \<notin> set (change_text c)" if "c \<in> set cs" for c
    using that 1(2) by (cases "lc_kind c") (auto simp: change_text_def)
  then have "\<forall>d \<in> set (hunk_text cs st e). nl \<notin> set d" for st e
    using header_plain by (auto simp: hunk_text_def Let_def dest!: in_set_takeD in_set_dropD)
  then show ?case using 1 by (subst diff_hunks.simps) (auto simp: Let_def)
qed

lemma changes_lines:
  assumes "c \<in> set cs"
  shows "lc_kind c \<noteq> AddLine \<Longrightarrow> lc_line c \<in> set (olds_of cs)" and "lc_kind c \<noteq> DelLine \<Longrightarrow> lc_line c \<in> set (news_of cs)"
  using assms by (auto simp: olds_of_def news_of_def)

text \<open>
  C38. Applying a diff without lines of context to the old text gives the new text, unless a line to delete begins
  with two dashes or one to add with two plus signs.
\<close>
theorem diff_restores:
  assumes "list_all (\<lambda>l. \<not> starts_with ''--'' l) (text_lines old)" and "list_all (\<lambda>l. \<not> starts_with ''++'' l) (text_lines new)"
  shows "patch_text (compare_texts old new 0) old = new"
proof (cases "old = new")
  case True
  have "text_lines no_differences = [no_differences]" "hunk_start no_differences = None" by code_simp+
  then show ?thesis using True by (simp add: compare_texts_def patch_text_def join_lines)
next
  case False
  let ?cs = "line_changes (text_lines old) (text_lines new) (lcs_indices (text_lines old) (text_lines new)) 0 0"
  have s: "olds_of ?cs = text_lines old" "news_of ?cs = text_lines new" "indexed_changes 0 0 ?cs"
    using line_changes_sides[OF common_lcs] by auto
  have k: "lc_kind c \<noteq> AddLine \<Longrightarrow> lc_line c \<in> set (text_lines old)" "lc_kind c \<noteq> DelLine \<Longrightarrow> lc_line c \<in> set (text_lines new)"
    if "c \<in> set ?cs" for c using changes_lines[OF that] s by simp_all
  have p: "list_all markless ?cs" using assms k by (auto simp: list_all_iff markless_def)
  have "nl \<notin> set (lc_line c)" if "c \<in> set ?cs" for c
    using k[OF that] lines_plain by (cases "lc_kind c = AddLine") auto
  then have "\<forall>d \<in> set (diff_hunks ?cs 0 0). nl \<notin> set d" by (intro hunk_lines_plain) blast
  then have "text_lines (compare_texts old new 0) = ''--- a'' # ''+++ b'' # diff_hunks ?cs 0 0"
    using False lines_of_join[of "''--- a'' # ''+++ b'' # diff_hunks ?cs 0 0"]
    by (auto simp: compare_texts_def compute_diff_hunks_def)
  moreover have "hunk_start ''--- a'' = None" "hunk_start ''+++ b'' = None" by code_simp+
  ultimately show ?thesis using apply_hunks_run[OF s(3) p, of 0] s(1,2) by (simp add: patch_text_def join_lines)
qed

lemma diff_restores_witness:
  "let old = str_join [nl] [''a'', ''b'', ''c'', ''d'']; new = str_join [nl] [''a'', ''x'', ''d'', ''e'']
   in patch_text (compare_texts old new 0) old = new"
proof -
  have "list_all (\<lambda>l. \<not> starts_with ''--'' l) (text_lines (str_join [nl] [''a'', ''b'', ''c'', ''d'']))"
    "list_all (\<lambda>l. \<not> starts_with ''++'' l) (text_lines (str_join [nl] [''a'', ''x'', ''d'', ''e'']))" by code_simp+
  then show ?thesis unfolding Let_def by (rule diff_restores)
qed


section \<open>Where a diff does not restore\<close>

text \<open>With the lines of context it writes by default, an inserted line lands in front of the context.\<close>
lemma insertion_misplaced:
  "let old = str_join [nl] [''a'', ''b'', ''c'']; new = str_join [nl] [''a'', ''b'', ''x'', ''c'']
   in patch_text (compare_texts old new 3) old = str_join [nl] [''x'', ''a'', ''b'', ''c'']"
  by code_simp

text \<open>A deleted line that begins with two dashes ends the hunk, so nothing is deleted.\<close>
lemma dashes_kept:
  "let old = str_join [nl] [''--x'', ''a'']; new = ''a'' in patch_text (compare_texts old new 0) old = old"
  by code_simp

text \<open>A patch deletes by number: what the text has there is not compared.\<close>
lemma patch_blind:
  "let diff = compare_texts (str_join [nl] [''a'', ''b'']) ''a'' 0 in patch_text diff (str_join [nl] [''x'', ''y'', ''z'']) = str_join [nl] [''x'', ''z'']"
  by code_simp

end
