(* ===== verification/GraphTool.thy ===== *)
theory GraphTool
  imports Classifier
begin

text \<open>
  \<open>src/src/agent/tools/graph.ts\<close>: searching a graph, shortest paths, topological order, components, cycles and
  minimal spanning trees. A graph is what \<open>JSON.parse\<close> and the check of its two arrays gave, with strings as
  nodes; weights are rational.
\<close>

section \<open>Graphs\<close>

record graph_edge =
  ge_from :: string
  ge_to :: string
  ge_weight :: "rat option"

record graph_input =
  gi_nodes :: "string list"
  gi_edges :: "graph_edge list"
  gi_directed :: bool

type_synonym adjacency = "(string, (string \<times> rat) list) jmap"

definition edge_weight :: "graph_edge \<Rightarrow> rat" where
  "edge_weight e = (case ge_weight e of Some w \<Rightarrow> w | None \<Rightarrow> 1)"

definition add_neighbour :: "string \<Rightarrow> string \<Rightarrow> rat \<Rightarrow> adjacency \<Rightarrow> adjacency" where
  "add_neighbour a b w adj = (case jget adj a of Some ns \<Rightarrow> jset a (ns @ [(b, w)]) adj | None \<Rightarrow> adj)"

text \<open>Only nodes of the list have neighbours; an edge without direction counts for both ends.\<close>

definition add_graph_edge :: "bool \<Rightarrow> graph_edge \<Rightarrow> adjacency \<Rightarrow> adjacency" where
  "add_graph_edge directed e adj =
     (let adj = add_neighbour (ge_from e) (ge_to e) (edge_weight e) adj
      in if directed then adj else add_neighbour (ge_to e) (ge_from e) (edge_weight e) adj)"

definition build_adj :: "graph_input \<Rightarrow> adjacency" where
  "build_adj g = fold (add_graph_edge (gi_directed g)) (gi_edges g) (fold (\<lambda>n adj. jset n [] adj) (gi_nodes g) [])"

definition edges_at :: "adjacency \<Rightarrow> string \<Rightarrow> (string \<times> rat) list" where
  "edges_at adj n = (case jget adj n of Some ns \<Rightarrow> ns | None \<Rightarrow> [])"

definition neighbours :: "adjacency \<Rightarrow> string \<Rightarrow> string list" where
  "neighbours adj n = map fst (edges_at adj n)"

definition all_places :: "adjacency \<Rightarrow> string set" where
  "all_places adj = (\<Union>n \<in> set (jkeys adj). set (neighbours adj n))"

lemma finite_places [simp]: "finite (all_places adj)"
  by (simp add: all_places_def)

lemma neighbour_place: "m \<in> set (neighbours adj n) \<Longrightarrow> m \<in> all_places adj"
proof -
  assume m: "m \<in> set (neighbours adj n)"
  then have "jget adj n \<noteq> None" by (cases "jget adj n") (auto simp: neighbours_def edges_at_def)
  then have "n \<in> set (jkeys adj)" by (simp add: jkeys_def map_of_eq_None_iff)
  then show ?thesis using m by (auto simp: all_places_def)
qed

text \<open>\<open>params.start || g.nodes[0]\<close>, and the last node for the end.\<close>

definition start_node :: "string \<Rightarrow> graph_input \<Rightarrow> string" where
  "start_node p g = (if p \<noteq> [] then p else if gi_nodes g = [] then ''undefined'' else hd (gi_nodes g))"

definition end_node :: "string \<Rightarrow> graph_input \<Rightarrow> string" where
  "end_node p g = (if p \<noteq> [] then p else if gi_nodes g = [] then ''undefined'' else last (gi_nodes g))"


section \<open>Searching\<close>

fun enqueue_unseen :: "string list \<Rightarrow> string list \<times> string list \<Rightarrow> string list \<times> string list" where
  "enqueue_unseen [] qs = qs"
| "enqueue_unseen (m # ms) (q, seen) =
     (if m \<in> set seen then enqueue_unseen ms (q, seen) else enqueue_unseen ms (q @ [m], seen @ [m]))"

lemma enqueue_unseen_new:
  "\<exists>new. enqueue_unseen ms (q, seen) = (q @ new, seen @ new) \<and> set new = set ms - set seen \<and> distinct new"
proof (induction ms "(q, seen)" arbitrary: q seen rule: enqueue_unseen.induct)
  case (2 m ms q seen)
  show ?case
  proof (cases "m \<in> set seen")
    case False
    then obtain new where n: "enqueue_unseen ms (q @ [m], seen @ [m]) = ((q @ [m]) @ new, (seen @ [m]) @ new)"
      "set new = set ms - set (seen @ [m])" "distinct new" using 2(2) by blast
    then show ?thesis using False by (intro exI[of _ "m # new"]) auto
  qed (use 2(1) in auto)
qed simp

function bfs_loop :: "adjacency \<Rightarrow> string list \<Rightarrow> string list \<Rightarrow> string list" where
  "bfs_loop adj [] seen = []"
| "bfs_loop adj (n # q) seen = (let (q, seen) = enqueue_unseen (neighbours adj n) (q, seen) in n # bfs_loop adj q seen)"
  by pat_completeness auto
termination bfs_loop
proof (relation "measure (\<lambda>(adj, q, seen). card (all_places adj - set seen) + length q)")
  fix adj :: adjacency and n :: string and q seen x xa y
  assume "x = enqueue_unseen (neighbours adj n) (q, seen)" "(xa, y) = x"
  then obtain new where n: "xa = q @ new" "y = seen @ new" "set new = set (neighbours adj n) - set seen" "distinct new"
    using enqueue_unseen_new[of "neighbours adj n" q seen] by auto
  have s: "set new \<subseteq> all_places adj - set seen" using n(3) neighbour_place by auto
  have "all_places adj - set (seen @ new) = all_places adj - set seen - set new" by auto
  then have "card (all_places adj - set (seen @ new)) = card (all_places adj - set seen) - length new"
    using s n(4) by (simp add: card_Diff_subset distinct_card)
  moreover have "length new \<le> card (all_places adj - set seen)" using card_mono[OF _ s] n(4) by (simp add: distinct_card)
  ultimately show "((adj, xa, y), adj, n # q, seen) \<in> measure (\<lambda>(adj, q, seen). card (all_places adj - set seen) + length q)"
    using n(1,2) by simp
qed simp

definition graph_bfs :: "string \<Rightarrow> graph_input \<Rightarrow> string list" where
  "graph_bfs p g = (let start = start_node p g in bfs_loop (build_adj g) [start] [start])"

text \<open>The neighbours are pushed from last to first, so the first is on top.\<close>

function dfs_loop :: "adjacency \<Rightarrow> string list \<Rightarrow> string list \<Rightarrow> string list" where
  "dfs_loop adj [] seen = []"
| "dfs_loop adj (n # stack) seen =
     (if n \<in> set seen then dfs_loop adj stack seen
      else n # dfs_loop adj (filter (\<lambda>m. m \<notin> set (n # seen)) (neighbours adj n) @ stack) (n # seen))"
  by pat_completeness auto
termination dfs_loop
proof (relation "inv_image (less_than <*lex*> less_than)
    (\<lambda>(adj, stack, seen). (card (all_places adj \<union> set stack - set seen), length stack))")
  fix adj :: adjacency and n :: string and stack seen :: "string list"
  assume "n \<in> set seen"
  then have "all_places adj \<union> set stack - set seen = all_places adj \<union> set (n # stack) - set seen" by auto
  then show "((adj, stack, seen), adj, n # stack, seen)
    \<in> inv_image (less_than <*lex*> less_than) (\<lambda>(adj, stack, seen). (card (all_places adj \<union> set stack - set seen), length stack))"
    by simp
next
  fix adj :: adjacency and n :: string and stack seen :: "string list"
  assume n: "n \<notin> set seen"
  let ?new = "filter (\<lambda>m. m \<notin> set (n # seen)) (neighbours adj n) @ stack"
  have "all_places adj \<union> set ?new - set (n # seen) \<subset> all_places adj \<union> set (n # stack) - set seen"
    using n neighbour_place by auto
  then have "card (all_places adj \<union> set ?new - set (n # seen)) < card (all_places adj \<union> set (n # stack) - set seen)"
    by (intro psubset_card_mono) auto
  then show "((adj, ?new, n # seen), adj, n # stack, seen)
    \<in> inv_image (less_than <*lex*> less_than) (\<lambda>(adj, stack, seen). (card (all_places adj \<union> set stack - set seen), length stack))"
    by simp
qed (intro wf_inv_image wf_lex_prod wf_less_than)

definition graph_dfs :: "string \<Rightarrow> graph_input \<Rightarrow> string list" where
  "graph_dfs p g = dfs_loop (build_adj g) [start_node p g] []"


section \<open>Shortest paths\<close>

text \<open>A node without an entry is at infinite distance, or has no predecessor.\<close>

fun nearest_in :: "(string, rat) jmap \<Rightarrow> string list \<Rightarrow> (string \<times> rat) option \<Rightarrow> (string \<times> rat) option" where
  "nearest_in far [] best = best"
| "nearest_in far (n # ns) best =
     nearest_in far ns
       (case jget far n of
         None \<Rightarrow> best
       | Some d \<Rightarrow> (case best of None \<Rightarrow> Some (n, d) | Some (m, e) \<Rightarrow> if d < e then Some (n, d) else best))"

definition relax_edge :: "string \<Rightarrow> rat \<Rightarrow> string \<times> rat \<Rightarrow> (string, rat) jmap \<times> (string, string) jmap
    \<Rightarrow> (string, rat) jmap \<times> (string, string) jmap" where
  "relax_edge cur d e s =
     (let (m, w) = e; (far, prev) = s
      in if (case jget far m of None \<Rightarrow> True | Some x \<Rightarrow> d + w < x) then (jset m (d + w) far, jset m cur prev) else s)"

lemma nearest_in_mem: "nearest_in far ns best = Some (n, d) \<Longrightarrow> best = Some (n, d) \<or> n \<in> set ns \<and> jget far n = Some d"
  by (induction far ns best rule: nearest_in.induct) (auto split: option.splits if_splits)

function dijkstra_loop :: "adjacency \<Rightarrow> string \<Rightarrow> string list \<Rightarrow> (string, rat) jmap \<times> (string, string) jmap
    \<Rightarrow> (string, rat) jmap \<times> (string, string) jmap" where
  "dijkstra_loop adj goal unvisited s =
     (case nearest_in (fst s) unvisited None of
       None \<Rightarrow> s
     | Some (cur, d) \<Rightarrow>
         if cur = [] \<or> cur = goal then s
         else dijkstra_loop adj goal (filter (\<lambda>n. n \<noteq> cur) unvisited) (fold (relax_edge cur d) (edges_at adj cur) s))"
  by auto
termination dijkstra_loop
proof (relation "measure (\<lambda>(adj, goal, unvisited, s). length unvisited)")
  fix adj :: adjacency and goal unvisited and s :: "(string, rat) jmap \<times> (string, string) jmap" and x2 x y
  assume "nearest_in (fst s) unvisited None = Some x2" "(x, y) = x2"
  then have "x \<in> set unvisited" using nearest_in_mem[of "fst s" unvisited None x y] by auto
  then show "((adj, goal, filter (\<lambda>n. n \<noteq> x) unvisited, fold (relax_edge x y) (edges_at adj x) s), adj, goal, unvisited, s)
      \<in> measure (\<lambda>(adj, goal, unvisited, s). length unvisited)"
    using length_filter_less[of x unvisited "\<lambda>n. n \<noteq> x"] by simp
qed simp

declare dijkstra_loop.simps [simp del]

text \<open>The way back along the predecessors; it may go round for ever.\<close>

partial_function (option) path_back :: "(string, string) jmap \<Rightarrow> string option \<Rightarrow> string list \<Rightarrow> string list option" where
  "path_back prev cur acc =
     (case cur of None \<Rightarrow> Some acc | Some c \<Rightarrow> if c = [] then Some acc else path_back prev (jget prev c) (c # acc))"

datatype path_answer = NoPath | PathFound "rat option" "string list"

definition shortest_path :: "string \<Rightarrow> string \<Rightarrow> graph_input \<Rightarrow> path_answer option" where
  "shortest_path p q g =
     (let start = start_node p g; goal = end_node q g;
          (far, prev) = dijkstra_loop (build_adj g) goal (uniq (gi_nodes g)) ([(start, 0)], [])
      in case path_back prev (Some goal) [] of
           None \<Rightarrow> None
         | Some path \<Rightarrow> Some (if path \<noteq> [] \<and> hd path = start then PathFound (jget far goal) path else NoPath))"


section \<open>Topological order\<close>

definition degree_of :: "(string, int) jmap \<Rightarrow> string \<Rightarrow> int \<Rightarrow> int" where
  "degree_of deg n d = (case jget deg n of Some k \<Rightarrow> k | None \<Rightarrow> d)"

definition count_in :: "graph_input \<Rightarrow> (string, int) jmap" where
  "count_in g = fold (\<lambda>e deg. jset (ge_to e) (degree_of deg (ge_to e) 0 + 1) deg) (gi_edges g)
     (fold (\<lambda>n deg. jset n 0 deg) (gi_nodes g) [])"

definition lower_degree :: "string \<Rightarrow> string list \<times> (string, int) jmap \<Rightarrow> string list \<times> (string, int) jmap" where
  "lower_degree m s = (let (q, deg) = s; d = degree_of deg m 1 - 1
     in (if d = 0 then q @ [m] else q, jset m d deg))"

text \<open>The queue of nodes without open predecessors, with fuel for the nodes that can be taken.\<close>

fun graph_kahn :: "nat \<Rightarrow> adjacency \<Rightarrow> string list \<Rightarrow> (string, int) jmap \<Rightarrow> string list" where
  "graph_kahn 0 adj q deg = []"
| "graph_kahn (Suc k) adj [] deg = []"
| "graph_kahn (Suc k) adj (n # q) deg =
     (let (q, deg) = fold lower_degree (neighbours adj n) (q, deg) in n # graph_kahn k adj q deg)"

datatype order_answer = NotDirected | CyclicOrder "string list" | FullOrder "string list"

definition graph_topological :: "graph_input \<Rightarrow> order_answer" where
  "graph_topological g =
     (if \<not> gi_directed g then NotDirected
      else let deg = count_in g;
               order = graph_kahn (length (gi_nodes g) + length (gi_edges g)) (build_adj g)
                         (filter (\<lambda>n. degree_of deg n 0 = 0) (gi_nodes g)) deg
           in if length order < length (gi_nodes g) then CyclicOrder order else FullOrder order)"


section \<open>Components\<close>

definition also_from :: "bool \<Rightarrow> string list \<Rightarrow> adjacency \<Rightarrow> string list \<Rightarrow> string \<Rightarrow> string list" where
  "also_from directed nodes adj visited n =
     (if directed then [] else filter (\<lambda>m. m \<notin> set visited \<and> n \<in> set (neighbours adj m)) nodes)"

function component_from :: "bool \<Rightarrow> string list \<Rightarrow> adjacency \<Rightarrow> string list \<Rightarrow> string list \<Rightarrow> string list" where
  "component_from directed nodes adj [] visited = []"
| "component_from directed nodes adj (n # q) visited =
     (if n \<in> set visited then component_from directed nodes adj q visited
      else let visited = n # visited
           in n # component_from directed nodes adj
                (q @ filter (\<lambda>m. m \<notin> set visited) (neighbours adj n) @ also_from directed nodes adj visited n) visited)"
  by pat_completeness auto

lemma component_decreases:
  assumes "n \<notin> set visited"
  shows "card (all_places adj \<union> set nodes \<union> set (q @ filter P (neighbours adj n) @ also_from directed nodes adj vs n) - set (n # visited))
     < card (all_places adj \<union> set nodes \<union> set (n # q) - set visited)"
proof (rule psubset_card_mono)
  show "all_places adj \<union> set nodes \<union> set (q @ filter P (neighbours adj n) @ also_from directed nodes adj vs n) - set (n # visited)
     \<subset> all_places adj \<union> set nodes \<union> set (n # q) - set visited"
    using assms neighbour_place by (auto simp: also_from_def)
qed simp

termination component_from
proof (relation "inv_image (less_than <*lex*> less_than)
    (\<lambda>(directed, nodes, adj, q, visited). (card (all_places adj \<union> set nodes \<union> set q - set visited), length q))")
  fix directed :: bool and nodes and adj :: adjacency and n :: string and q visited :: "string list"
  assume "n \<in> set visited"
  then have "all_places adj \<union> set nodes \<union> set q - set visited = all_places adj \<union> set nodes \<union> set (n # q) - set visited" by auto
  then show "((directed, nodes, adj, q, visited), directed, nodes, adj, n # q, visited) \<in> inv_image (less_than <*lex*> less_than)
      (\<lambda>(directed, nodes, adj, q, visited). (card (all_places adj \<union> set nodes \<union> set q - set visited), length q))"
    by simp
qed (auto intro: wf_inv_image dest: component_decreases simp del: set_append list.set(2))

definition add_component :: "bool \<Rightarrow> string list \<Rightarrow> adjacency \<Rightarrow> string \<Rightarrow> string list \<times> string list list \<Rightarrow> string list \<times> string list list" where
  "add_component directed nodes adj n s =
     (let (visited, comps) = s
      in if n \<in> set visited then s
         else let c = component_from directed nodes adj [n] visited in (visited @ c, comps @ [c]))"

definition graph_components :: "graph_input \<Rightarrow> string list list" where
  "graph_components g = snd (fold (add_component (gi_directed g) (gi_nodes g) (build_adj g)) (gi_nodes g) ([], []))"


section \<open>Cycles\<close>

text \<open>
  The neighbours of a node on the path, until one leads back to the path: the edge that does is the hint. The
  search of a neighbour is an argument.
\<close>

type_synonym cycle_state = "string list \<times> string list"

fun first_cycle :: "(string \<Rightarrow> cycle_state \<Rightarrow> (string \<times> string) option \<times> cycle_state) \<Rightarrow> string \<Rightarrow> string list \<Rightarrow> cycle_state
    \<Rightarrow> (string \<times> string) option \<times> cycle_state" where
  "first_cycle f n [] s = (None, s)"
| "first_cycle f n (m # ms) s =
     (if m \<in> set (snd s) then (Some (n, m), s)
      else if m \<in> set (fst s) then (case f m s of (Some c, s) \<Rightarrow> (Some c, s) | (None, s) \<Rightarrow> first_cycle f n ms s)
      else first_cycle f n ms s)"

text \<open>A node leaves the white ones when its search begins, so their number is enough fuel.\<close>

fun find_cycle :: "nat \<Rightarrow> adjacency \<Rightarrow> string \<Rightarrow> cycle_state \<Rightarrow> (string \<times> string) option \<times> cycle_state" where
  "find_cycle 0 adj n s = (None, s)"
| "find_cycle (Suc k) adj n s =
     (case first_cycle (find_cycle k adj) n (neighbours adj n) (filter (\<lambda>m. m \<noteq> n) (fst s), n # snd s) of
       (Some c, s) \<Rightarrow> (Some c, s)
     | (None, s) \<Rightarrow> (None, (fst s, filter (\<lambda>m. m \<noteq> n) (snd s))))"

fun cycle_from :: "adjacency \<Rightarrow> string list \<Rightarrow> cycle_state \<Rightarrow> (string \<times> string) option" where
  "cycle_from adj [] s = None"
| "cycle_from adj (n # ns) s =
     (if n \<in> set (fst s)
      then (case find_cycle (length (fst s)) adj n s of (Some c, _) \<Rightarrow> Some c | (None, s) \<Rightarrow> cycle_from adj ns s)
      else cycle_from adj ns s)"

definition directed_cycle :: "graph_input \<Rightarrow> (string \<times> string) option" where
  "directed_cycle g = cycle_from (build_adj g) (gi_nodes g) (uniq (gi_nodes g), [])"

text \<open>
  Union and find. Looking up what is no node gives \<open>undefined\<close>, which becomes a key like any other.
\<close>

type_synonym uf_parents = "(string option, string option) jmap"

definition uf_get :: "uf_parents \<Rightarrow> string option \<Rightarrow> string option" where
  "uf_get p x = (case jget p x of Some y \<Rightarrow> y | None \<Rightarrow> None)"

partial_function (option) uf_find :: "uf_parents \<Rightarrow> string option \<Rightarrow> (string option \<times> uf_parents) option" where
  "uf_find p x =
     (if uf_get p x = x then Some (x, p)
      else let p = jset x (uf_get p (uf_get p x)) p in uf_find p (uf_get p x))"

definition uf_edge :: "uf_parents \<Rightarrow> graph_edge \<Rightarrow> (string option \<times> string option \<times> uf_parents) option" where
  "uf_edge p e =
     (case uf_find p (Some (ge_from e)) of
       None \<Rightarrow> None
     | Some (ra, p) \<Rightarrow> (case uf_find p (Some (ge_to e)) of None \<Rightarrow> None | Some (rb, p) \<Rightarrow> Some (ra, rb, p)))"

fun uf_cycle :: "uf_parents \<Rightarrow> graph_edge list \<Rightarrow> bool option" where
  "uf_cycle p [] = Some False"
| "uf_cycle p (e # es) =
     (case uf_edge p e of
       None \<Rightarrow> None
     | Some (ra, rb, p) \<Rightarrow> if ra = rb then Some True else uf_cycle (jset ra rb p) es)"

definition uf_start :: "string list \<Rightarrow> uf_parents" where
  "uf_start nodes = fold (\<lambda>n p. jset (Some n) (Some n) p) nodes []"

definition undirected_cycle :: "graph_input \<Rightarrow> bool option" where
  "undirected_cycle g = uf_cycle (uf_start (gi_nodes g)) (gi_edges g)"


section \<open>Minimal spanning trees\<close>

fun kruskal :: "uf_parents \<Rightarrow> graph_edge list \<Rightarrow> graph_edge list option" where
  "kruskal p [] = Some []"
| "kruskal p (e # es) =
     (case uf_edge p e of
       None \<Rightarrow> None
     | Some (ra, rb, p) \<Rightarrow>
         if ra = rb then kruskal p es
         else (case kruskal (jset ra rb p) es of None \<Rightarrow> None | Some t \<Rightarrow> Some (e # t)))"

definition total_weight :: "graph_edge list \<Rightarrow> rat" where
  "total_weight es = sum_list (map edge_weight es)"

definition graph_mst :: "graph_input \<Rightarrow> (string + graph_edge list \<times> rat) option" where
  "graph_mst g =
     (if gi_directed g then Some (Inl ''MST requires undirected graph'')
      else (case kruskal (uf_start (gi_nodes g)) (sort_key edge_weight (gi_edges g)) of
             None \<Rightarrow> None
           | Some t \<Rightarrow> Some (Inr (t, total_weight t))))"

end
