(* ===== verification/GraphToolCorrect.thy ===== *)
theory GraphToolCorrect
  imports GraphTool
begin

text \<open>
  What the graph tool computes: both searches visit what is reachable, once; the path it reports is a shortest one,
  when no weight is negative; and a graph without directions has a cycle when it says so. And where it goes wrong.
\<close>

section \<open>Searching\<close>

definition edge_rel :: "adjacency \<Rightarrow> (string \<times> string) set" where
  "edge_rel adj = {(a, b). b \<in> set (neighbours adj a)}"

lemma edge_rel_step: "edge_rel adj `` A \<subseteq> B \<longleftrightarrow> (\<forall>a \<in> A. set (neighbours adj a) \<subseteq> B)"
  by (auto simp: edge_rel_def)

lemma rtrancl_image_add:
  assumes "A \<subseteq> R\<^sup>* `` B" "B \<subseteq> A"
  shows "R\<^sup>* `` A = R\<^sup>* `` B"
proof
  have "R\<^sup>* `` A \<subseteq> R\<^sup>* `` (R\<^sup>* `` B)" by (rule Image_mono[OF order_refl assms(1)])
  then show "R\<^sup>* `` A \<subseteq> R\<^sup>* `` B" by (simp flip: relcomp_Image)
qed (rule Image_mono[OF order_refl assms(2)])

lemma neighbours_reached: "n \<in> A \<Longrightarrow> set (neighbours adj n) \<subseteq> (edge_rel adj)\<^sup>* `` A"
  by (auto simp: edge_rel_def intro!: ImageI r_into_rtrancl)

lemma bfs_reaches:
  assumes "set q \<subseteq> set seen" "distinct q" "edge_rel adj `` (set seen - set q) \<subseteq> set seen"
  shows "set (bfs_loop adj q seen) \<union> (set seen - set q) = (edge_rel adj)\<^sup>* `` set seen
     \<and> distinct (bfs_loop adj q seen) \<and> set (bfs_loop adj q seen) \<inter> (set seen - set q) = {}"
  using assms
proof (induction adj q seen rule: bfs_loop.induct)
  case (1 adj seen)
  then show ?case by (simp add: Image_closed_trancl)
next
  case (2 adj n q seen)
  obtain new where n: "enqueue_unseen (neighbours adj n) (q, seen) = (q @ new, seen @ new)"
    "set new = set (neighbours adj n) - set seen" "distinct new" using enqueue_unseen_new by blast
  have d: "set (seen @ new) - set (q @ new) = insert n (set seen - set (n # q))" using 2(2,3) n(2) by auto
  have "edge_rel adj `` (set (seen @ new) - set (q @ new)) \<subseteq> set (seen @ new)"
    using 2(4) n(2) unfolding d by (auto simp: edge_rel_def)
  moreover have "set (q @ new) \<subseteq> set (seen @ new)" "distinct (q @ new)" using 2(2,3) n(2,3) by auto
  ultimately have ih: "set (bfs_loop adj (q @ new) (seen @ new)) \<union> insert n (set seen - set (n # q)) = (edge_rel adj)\<^sup>* `` set (seen @ new)
      \<and> distinct (bfs_loop adj (q @ new) (seen @ new)) \<and> set (bfs_loop adj (q @ new) (seen @ new)) \<inter> insert n (set seen - set (n # q)) = {}"
    using 2(1)[OF refl n(1)[symmetric]] unfolding d[symmetric] by simp
  have "set new \<subseteq> (edge_rel adj)\<^sup>* `` set seen" using n(2) 2(2) neighbours_reached[of n "set seen" adj] by auto
  then have "(edge_rel adj)\<^sup>* `` set (seen @ new) = (edge_rel adj)\<^sup>* `` set seen" by (intro rtrancl_image_add) auto
  then show ?case using ih n(1) 2(2,3) by (auto simp: Let_def)
qed

lemma dfs_reaches:
  assumes "edge_rel adj `` set seen \<subseteq> set seen \<union> set stack"
  shows "set (dfs_loop adj stack seen) \<union> set seen = (edge_rel adj)\<^sup>* `` (set seen \<union> set stack)
     \<and> distinct (dfs_loop adj stack seen) \<and> set (dfs_loop adj stack seen) \<inter> set seen = {}"
  using assms
proof (induction adj stack seen rule: dfs_loop.induct)
  case (1 adj seen)
  then show ?case by (simp add: Image_closed_trancl)
next
  case (2 adj n stack seen)
  show ?case
  proof (cases "n \<in> set seen")
    case True
    then have "set seen \<union> set (n # stack) = set seen \<union> set stack" by auto
    then show ?thesis using 2 True by simp
  next
    case False
    let ?stack = "filter (\<lambda>m. m \<notin> set (n # seen)) (neighbours adj n) @ stack"
    have s: "set (n # seen) \<union> set ?stack = set seen \<union> set (n # stack) \<union> set (neighbours adj n)" by auto
    have c: "edge_rel adj `` set (n # seen) \<subseteq> set (n # seen) \<union> set ?stack"
      using 2(3) unfolding s by (auto simp: edge_rel_def)
    have "set (neighbours adj n) \<subseteq> (edge_rel adj)\<^sup>* `` (set seen \<union> set (n # stack))" by (rule neighbours_reached) simp
    then have "(edge_rel adj)\<^sup>* `` (set (n # seen) \<union> set ?stack) = (edge_rel adj)\<^sup>* `` (set seen \<union> set (n # stack))"
      unfolding s by (intro rtrancl_image_add) auto
    then show ?thesis using 2(2)[OF False c] False by auto
  qed
qed

text \<open>
  Searching in breadth and in depth visit the same nodes, once each: those reachable from the start.
\<close>
theorem searches_reach:
  "set (graph_bfs p g) = (edge_rel (build_adj g))\<^sup>* `` {start_node p g} \<and> distinct (graph_bfs p g)
   \<and> set (graph_dfs p g) = (edge_rel (build_adj g))\<^sup>* `` {start_node p g} \<and> distinct (graph_dfs p g)"
  using bfs_reaches[of "[start_node p g]" "[start_node p g]" "build_adj g"] dfs_reaches[of "build_adj g" "[]" "[start_node p g]"]
  by (simp add: graph_bfs_def graph_dfs_def Let_def)


section \<open>Routes and predecessors\<close>

text \<open>The ways from a node with their nodes and weights.\<close>

inductive route :: "adjacency \<Rightarrow> string \<Rightarrow> string list \<Rightarrow> rat \<Rightarrow> string \<Rightarrow> bool" for adj a where
  route_start: "route adj a [a] 0 a"
| route_step: "route adj a p d b \<Longrightarrow> (c, w) \<in> set (edges_at adj b) \<Longrightarrow> route adj a (p @ [c]) (d + w) c"

inductive back_chain :: "(string, string) jmap \<Rightarrow> string \<Rightarrow> string list \<Rightarrow> bool" for prev where
  chain_start: "jget prev a = None \<Longrightarrow> back_chain prev a [a]"
| chain_step: "back_chain prev u p \<Longrightarrow> jget prev v = Some u \<Longrightarrow> back_chain prev v (p @ [v])"

lemma route_last: "route adj a p d b \<Longrightarrow> p \<noteq> [] \<and> hd p = a \<and> last p = b"
  by (induction rule: route.induct) auto

lemma route_places: "route adj a p d b \<Longrightarrow> set p \<subseteq> insert a (all_places adj)"
proof (induction rule: route.induct)
  case (route_step p d b c w)
  then have "c \<in> all_places adj" by (intro neighbour_place[of c adj b]) (force simp: neighbours_def)
  then show ?case using route_step by auto
qed auto

lemma chain_path:
  "back_chain prev v p \<Longrightarrow> [] \<notin> set p \<Longrightarrow> path_back prev (Some v) acc = Some (p @ acc)"
proof (induction arbitrary: acc rule: back_chain.induct)
  case (chain_start a)
  then show ?case by (simp add: path_back.simps[of _ "Some a"] path_back.simps[of _ None])
next
  case (chain_step u p v)
  then show ?case by (auto simp: path_back.simps[of _ "Some v"])
qed

lemma chain_cong: "back_chain prev v p \<Longrightarrow> \<forall>y \<in> set p. jget prev' y = jget prev y \<Longrightarrow> back_chain prev' v p"
  by (induction rule: back_chain.induct) (auto intro: back_chain.intros)

lemma nearest_none: "nearest_in far ns best = None \<longleftrightarrow> best = None \<and> (\<forall>n \<in> set ns. jget far n = None)"
  by (induction far ns best rule: nearest_in.induct) (auto split: option.splits)

lemma nearest_least:
  "nearest_in far ns best = Some (n, d) \<Longrightarrow>
     (\<forall>m e. best = Some (m, e) \<longrightarrow> d \<le> e) \<and> (\<forall>m \<in> set ns. \<forall>e. jget far m = Some e \<longrightarrow> d \<le> e)"
proof (induction far ns best rule: nearest_in.induct)
  case (2 far m ms best)
  then show ?case by (fastforce split: option.splits if_splits)
qed simp


section \<open>The invariant of the search for a shortest path\<close>

text \<open>
  \<open>well_traced\<close>: every distance is the weight of a way whose inner nodes were visited and which the
  predecessors give back. \<open>well_relaxed\<close>: the edges of the visited nodes are taken into account, and the visited
  ones are nearer than those that are not.
\<close>

definition well_traced :: "adjacency \<Rightarrow> string \<Rightarrow> string set \<Rightarrow> (string, rat) jmap \<times> (string, string) jmap \<Rightarrow> bool" where
  "well_traced adj start V s \<longleftrightarrow> jget (fst s) start = Some 0
     \<and> (\<forall>v d. jget (fst s) v = Some d \<longrightarrow> (\<exists>p. back_chain (snd s) v p \<and> route adj start p d v \<and> set (butlast p) \<subseteq> V))
     \<and> (\<forall>v. jget (snd s) v \<noteq> None \<longrightarrow> jget (fst s) v \<noteq> None)"

definition well_relaxed :: "adjacency \<Rightarrow> string set \<Rightarrow> string set \<Rightarrow> (string, rat) jmap \<Rightarrow> bool" where
  "well_relaxed adj V U far \<longleftrightarrow>
     (\<forall>u \<in> V. \<exists>d. jget far u = Some d \<and> (\<forall>(x, w) \<in> set (edges_at adj u). \<exists>e. jget far x = Some e \<and> e \<le> d + w))
     \<and> (\<forall>u \<in> V. \<forall>x \<in> U. \<forall>d e. jget far u = Some d \<longrightarrow> jget far x = Some e \<longrightarrow> d \<le> e)"

definition improves :: "string set \<Rightarrow> rat \<Rightarrow> (string, rat) jmap \<Rightarrow> (string, rat) jmap \<Rightarrow> bool" where
  "improves V d far far' \<longleftrightarrow> (\<forall>u \<in> V. jget far' u = jget far u)
     \<and> (\<forall>x e. jget far x = Some e \<longrightarrow> (\<exists>e'. jget far' x = Some e' \<and> e' \<le> e))
     \<and> (\<forall>x e. jget far' x = Some e \<longrightarrow> jget far x = Some e \<or> d \<le> e)"

lemma improves_refl: "improves V d far far"
  by (auto simp: improves_def)

lemma improves_le: "improves V d f g \<Longrightarrow> jget f x = Some e \<Longrightarrow> \<exists>e'. jget g x = Some e' \<and> e' \<le> e"
  by (simp add: improves_def)

lemma improves_trans:
  assumes fg: "improves V d f g" and gh: "improves V d g h"
  shows "improves V d f h"
proof -
  have "\<exists>e'. jget h x = Some e' \<and> e' \<le> e" if "jget f x = Some e" for x e
    using improves_le[OF fg that] improves_le[OF gh] order_trans by blast
  moreover have "jget f x = Some e \<or> d \<le> e" if "jget h x = Some e" for x e
    using fg gh that unfolding improves_def by blast
  ultimately show ?thesis using fg gh by (simp add: improves_def)
qed

definition all_settled :: "string set \<Rightarrow> rat \<Rightarrow> (string, rat) jmap \<Rightarrow> bool" where
  "all_settled V d far \<longleftrightarrow> (\<forall>u \<in> V. \<exists>e. jget far u = Some e \<and> e \<le> d)"

lemma all_settled_improves: "all_settled V d f \<Longrightarrow> improves V d f g \<Longrightarrow> all_settled V d g"
  by (simp add: all_settled_def improves_def)

definition no_negative :: "adjacency \<Rightarrow> bool" where
  "no_negative adj \<longleftrightarrow> (\<forall>b. \<forall>(c, w) \<in> set (edges_at adj b). 0 \<le> w)"

lemma route_weight: "route adj a p d b \<Longrightarrow> no_negative adj \<Longrightarrow> 0 \<le> d"
  by (induction rule: route.induct) (fastforce simp: no_negative_def)+

lemma route_within: "route adj a p d b \<Longrightarrow> set (butlast p) \<subseteq> V \<Longrightarrow> set p \<subseteq> insert b V"
  using route_last[of adj a p d b] append_butlast_last_id[of p] set_append[of "butlast p" "[last p]"] by auto

lemma relax_edge_step:
  assumes n: "no_negative adj" and t: "well_traced adj start V s" and "all_settled V d (fst s)"
    and cur: "cur \<in> V" "jget (fst s) cur = Some d" and e: "(m, w) \<in> set (edges_at adj cur)"
  shows "well_traced adj start V (relax_edge cur d (m, w) s) \<and> improves V d (fst s) (fst (relax_edge cur d (m, w) s))
     \<and> (\<exists>x. jget (fst (relax_edge cur d (m, w) s)) m = Some x \<and> x \<le> d + w)"
proof (cases "jget (fst s) m = None \<or> (\<exists>x. jget (fst s) m = Some x \<and> d + w < x)")
  case False
  then show ?thesis using t improves_refl by (cases s) (auto simp: relax_edge_def not_less)
next
  case True
  let ?s = "(jset m (d + w) (fst s), jset m cur (snd s))"
  have s: "relax_edge cur d (m, w) s = ?s" using True by (cases s) (auto simp: relax_edge_def)
  have w: "0 \<le> w" using n e unfolding no_negative_def by blast
  have m: "m \<notin> V" using True assms(3) w by (force simp: all_settled_def)
  obtain p where p: "back_chain (snd s) cur p" "route adj start p d cur" "set (butlast p) \<subseteq> V"
    using t cur(2) unfolding well_traced_def by blast
  have "0 \<le> d" using route_weight[OF p(2) n] .
  then have st: "m \<noteq> start" using True t w by (auto simp: well_traced_def)
  have keep: "back_chain (snd ?s) v q" if "back_chain (snd s) v q" "route adj start q x v" "set (butlast q) \<subseteq> V" "v \<noteq> m" for v q x
    using that(1) by (rule chain_cong) (use route_within[OF that(2,3)] m that(4) in auto)
  have new: "back_chain (snd ?s) m (p @ [m])" "route adj start (p @ [m]) (d + w) m" "set (butlast (p @ [m])) \<subseteq> V"
    using chain_step[OF keep[OF p], of m] route_step[OF p(2) e] route_within[OF p(2,3)] cur(1) m by auto
  have "\<exists>q. back_chain (snd ?s) v q \<and> route adj start q x v \<and> set (butlast q) \<subseteq> V" if v: "jget (fst ?s) v = Some x" for v x
  proof (cases "v = m")
    case True
    then show ?thesis using new v by (intro exI[of _ "p @ [m]"]) simp
  next
    case False
    then have "jget (fst s) v = Some x" using v by simp
    then obtain q where "back_chain (snd s) v q" "route adj start q x v" "set (butlast q) \<subseteq> V"
      using t unfolding well_traced_def by blast
    then show ?thesis using keep False by blast
  qed
  then have "well_traced adj start V ?s" using t st by (auto simp: well_traced_def)
  moreover have "improves V d (fst s) (fst ?s)" using True m w by (auto simp: improves_def)
  ultimately show ?thesis unfolding s by simp
qed

lemma relax_edges:
  assumes n: "no_negative adj" and cur: "cur \<in> V"
  shows "set es \<subseteq> set (edges_at adj cur) \<Longrightarrow> well_traced adj start V s \<Longrightarrow> all_settled V d (fst s) \<Longrightarrow> jget (fst s) cur = Some d \<Longrightarrow>
     well_traced adj start V (fold (relax_edge cur d) es s) \<and> improves V d (fst s) (fst (fold (relax_edge cur d) es s))
     \<and> (\<forall>(m, w) \<in> set es. \<exists>x. jget (fst (fold (relax_edge cur d) es s)) m = Some x \<and> x \<le> d + w)"
proof (induction es arbitrary: s)
  case Nil
  then show ?case by (simp add: improves_refl)
next
  case (Cons e es)
  obtain m w where mw: "e = (m, w)" by (cases e)
  let ?s = "relax_edge cur d (m, w) s"
  have st: "well_traced adj start V ?s" "improves V d (fst s) (fst ?s)" "\<exists>x. jget (fst ?s) m = Some x \<and> x \<le> d + w"
    using relax_edge_step[OF n Cons.prems(2,3) cur Cons.prems(4), of m w] Cons.prems(1) mw by auto
  have ih: "well_traced adj start V (fold (relax_edge cur d) es ?s)" "improves V d (fst ?s) (fst (fold (relax_edge cur d) es ?s))"
    "\<forall>(m, w) \<in> set es. \<exists>x. jget (fst (fold (relax_edge cur d) es ?s)) m = Some x \<and> x \<le> d + w"
    using Cons.IH[of ?s] Cons.prems st(1,2) cur all_settled_improves[OF Cons.prems(3) st(2)] by (auto simp: improves_def)
  have "\<exists>x. jget (fst (fold (relax_edge cur d) es ?s)) m = Some x \<and> x \<le> d + w"
    using st(3) ih(2) unfolding improves_def by (meson order_trans)
  then show ?case using ih improves_trans[OF st(2) ih(2)] mw by simp
qed

definition known_in :: "adjacency \<Rightarrow> string set \<Rightarrow> bool" where
  "known_in adj A \<longleftrightarrow> (\<forall>b. edges_at adj b \<noteq> [] \<longrightarrow> b \<in> A)"

lemma frontier:
  assumes n: "no_negative adj" and t: "jget far start = Some 0" and r: "well_relaxed adj V U far"
    and k: "known_in adj (V \<union> U)"
  shows "route adj start p d v \<Longrightarrow> (\<exists>e. jget far v = Some e \<and> e \<le> d) \<or> (\<exists>x \<in> U. \<exists>e. jget far x = Some e \<and> e \<le> d)"
proof (induction rule: route.induct)
  case route_start
  then show ?case using t by simp
next
  case (route_step p d b c w)
  have w: "0 \<le> w" using n route_step.hyps(2) unfolding no_negative_def by blast
  show ?case
  proof (cases "b \<in> V")
    case True
    then obtain x e where "jget far b = Some x" "jget far c = Some e" "e \<le> x + w"
      using r route_step.hyps(2) unfolding well_relaxed_def by blast
    then show ?thesis using route_step.IH w by fastforce
  next
    case False
    moreover have "edges_at adj b \<noteq> []" using route_step.hyps(2) by (cases "edges_at adj b") auto
    ultimately have "b \<in> U" using k unfolding known_in_def by blast
    then show ?thesis using route_step.IH w by fastforce
  qed
qed

definition shortest_found :: "adjacency \<Rightarrow> string \<Rightarrow> string \<Rightarrow> (string, rat) jmap \<times> (string, string) jmap \<Rightarrow> bool" where
  "shortest_found adj start goal s \<longleftrightarrow> (\<exists>V. well_traced adj start V s)
     \<and> (\<forall>p d. route adj start p d goal \<longrightarrow> (\<exists>e. jget (fst s) goal = Some e \<and> e \<le> d))"

lemma relaxed_next:
  assumes r: "well_relaxed adj V U (fst s)" and cur: "cur \<in> U" "jget (fst s) cur = Some d"
    and least: "\<forall>m \<in> U. \<forall>e. jget (fst s) m = Some e \<longrightarrow> d \<le> e"
    and i: "improves (insert cur V) d (fst s) far" and e: "\<forall>(m, w) \<in> set (edges_at adj cur). \<exists>x. jget far m = Some x \<and> x \<le> d + w"
  shows "well_relaxed adj (insert cur V) (U - {cur}) far"
proof -
  have f: "jget far u = jget (fst s) u" if "u \<in> insert cur V" for u using i that unfolding improves_def by blast
  have "\<exists>d. jget far u = Some d \<and> (\<forall>(x, w) \<in> set (edges_at adj u). \<exists>e. jget far x = Some e \<and> e \<le> d + w)" if "u \<in> insert cur V" for u
  proof (cases "u = cur")
    case False
    then have u: "u \<in> V" using that by simp
    have "\<forall>u \<in> V. \<exists>d. jget (fst s) u = Some d \<and> (\<forall>(x, w) \<in> set (edges_at adj u). \<exists>e. jget (fst s) x = Some e \<and> e \<le> d + w)"
      using r unfolding well_relaxed_def by (rule conjunct1)
    from bspec[OF this u] obtain x where x: "jget (fst s) u = Some x"
      "\<forall>(y, w) \<in> set (edges_at adj u). \<exists>e. jget (fst s) y = Some e \<and> e \<le> x + w" by (elim exE conjE)
    have "\<exists>e. jget far y = Some e \<and> e \<le> x + w" if "(y, w) \<in> set (edges_at adj u)" for y w
    proof -
      have "\<exists>e. jget (fst s) y = Some e \<and> e \<le> x + w" using bspec[OF x(2) that] by simp
      then obtain e where e: "jget (fst s) y = Some e" "e \<le> x + w" by blast
      show ?thesis using improves_le[OF i e(1)] e(2) by auto
    qed
    then have "\<forall>(y, w) \<in> set (edges_at adj u). \<exists>e. jget far y = Some e \<and> e \<le> x + w" by blast
    then show ?thesis using x(1) f[OF that] by simp
  next
    case True
    then show ?thesis using cur(2) f[of cur] e by simp
  qed
  moreover have "x \<le> e" if u: "u \<in> insert cur V" and m: "m \<in> U - {cur}" and j: "jget far u = Some x" "jget far m = Some e" for u m x e
  proof -
    have "jget (fst s) u = Some x" using f[OF u] j by simp
    then have "x \<le> d" using u cur r unfolding well_relaxed_def by auto
    moreover have "d \<le> e" using i j(2) least m unfolding improves_def by blast
    ultimately show ?thesis by simp
  qed
  ultimately show ?thesis unfolding well_relaxed_def by blast
qed

lemma dijkstra_loop_finds:
  "no_negative adj \<Longrightarrow> well_traced adj start V s \<Longrightarrow> well_relaxed adj V (set U) (fst s) \<Longrightarrow> known_in adj (V \<union> set U)
     \<Longrightarrow> [] \<notin> set U \<Longrightarrow> shortest_found adj start goal (dijkstra_loop adj goal U s)"
proof (induction adj goal U s arbitrary: V rule: dijkstra_loop.induct)
  case (1 adj goal U s)
  note n = "1.prems"(1)
  have st: "jget (fst s) start = Some 0" using "1.prems"(2) by (simp add: well_traced_def)
  note fr = frontier[OF n st "1.prems"(3,4)]
  show ?case
  proof (cases "nearest_in (fst s) U None")
    case None
    then have "\<forall>x \<in> set U. jget (fst s) x = None" by (simp add: nearest_none)
    then have "shortest_found adj start goal s" using "1.prems"(2) fr unfolding shortest_found_def by fastforce
    then show ?thesis using None by (simp add: dijkstra_loop.simps[of adj goal U s])
  next
    case (Some cd)
    obtain cur d where cd: "cd = (cur, d)" by (cases cd)
    have c: "cur \<in> set U" "jget (fst s) cur = Some d" "\<forall>m \<in> set U. \<forall>e. jget (fst s) m = Some e \<longrightarrow> d \<le> e"
      using nearest_in_mem[of "fst s" U None cur d] nearest_least[of "fst s" U None cur d] Some cd by auto
    then have ne: "cur \<noteq> []" using "1.prems"(5) by auto
    show ?thesis
    proof (cases "cur = goal")
      case True
      have "\<exists>e. jget (fst s) goal = Some e \<and> e \<le> x" if "route adj start p x goal" for p x
        using fr[OF that]
      proof (elim disjE bexE exE conjE)
        fix m e assume m: "m \<in> set U" "jget (fst s) m = Some e" "e \<le> x"
        then have "d \<le> x" using c(3) order_trans by blast
        then show ?thesis using c(2) True by simp
      qed simp
      then have "shortest_found adj start goal s" using "1.prems"(2) unfolding shortest_found_def by blast
      then show ?thesis using Some cd True by (simp add: dijkstra_loop.simps[of adj goal U s])
    next
      case False
      let ?s = "fold (relax_edge cur d) (edges_at adj cur) s"
      have t: "well_traced adj start (insert cur V) s" using "1.prems"(2) unfolding well_traced_def by blast
      have "all_settled (insert cur V) d (fst s)" using "1.prems"(3) c unfolding well_relaxed_def all_settled_def by blast
      then have e: "well_traced adj start (insert cur V) ?s" "improves (insert cur V) d (fst s) (fst ?s)"
        "\<forall>(m, w) \<in> set (edges_at adj cur). \<exists>x. jget (fst ?s) m = Some x \<and> x \<le> d + w"
        using relax_edges[OF n, of cur "insert cur V" "edges_at adj cur" start s d] t c(2) by auto
      have U: "set (filter (\<lambda>n. n \<noteq> cur) U) = set U - {cur}" by auto
      have "well_relaxed adj (insert cur V) (set (filter (\<lambda>n. n \<noteq> cur) U)) (fst ?s)"
        unfolding U by (rule relaxed_next[OF "1.prems"(3) c e(2,3)])
      moreover have "known_in adj (insert cur V \<union> set (filter (\<lambda>n. n \<noteq> cur) U))"
        using "1.prems"(4) unfolding U known_in_def by blast
      ultimately have "shortest_found adj start goal (dijkstra_loop adj goal (filter (\<lambda>n. n \<noteq> cur) U) ?s)"
        using "1.IH"[OF Some cd[symmetric] _ n e(1)] "1.prems"(5) ne False by auto
      then show ?thesis using Some cd False ne by (simp add: dijkstra_loop.simps[of adj goal U s])
    qed
  qed
qed


section \<open>The edges of a graph\<close>

text \<open>\<open>joins\<close>: an edge leads from one node to another.\<close>

definition joins :: "graph_input \<Rightarrow> graph_edge \<Rightarrow> string \<Rightarrow> string \<Rightarrow> bool" where
  "joins g e a b \<longleftrightarrow> ge_from e = a \<and> ge_to e = b \<or> \<not> gi_directed g \<and> ge_from e = b \<and> ge_to e = a"

lemma key_known: "a \<in> set (jkeys m) \<longleftrightarrow> jget m a \<noteq> None"
  by (simp add: jkeys_def map_of_eq_None_iff)

lemma keys_set: "set (jkeys (jset k v m)) = insert k (set (jkeys m))"
  by (simp add: jkeys_def keys_jset)

lemma edges_at_add [simp]:
  "edges_at (add_neighbour a b w adj) n = (if n = a \<and> a \<in> set (jkeys adj) then edges_at adj n @ [(b, w)] else edges_at adj n)"
  by (cases "jget adj a") (simp_all add: add_neighbour_def edges_at_def key_known)

lemma keys_add [simp]: "set (jkeys (add_neighbour a b w adj)) = set (jkeys adj)"
  by (cases "jget adj a") (auto simp: add_neighbour_def keys_set key_known)

lemma add_edges:
  "set (jkeys (fold (add_graph_edge dir) es adj)) = set (jkeys adj)
   \<and> ((c, w) \<in> set (edges_at (fold (add_graph_edge dir) es adj) b) \<longleftrightarrow> (c, w) \<in> set (edges_at adj b) \<or> b \<in> set (jkeys adj)
       \<and> (\<exists>e \<in> set es. edge_weight e = w \<and> (ge_from e = b \<and> ge_to e = c \<or> \<not> dir \<and> ge_from e = c \<and> ge_to e = b)))"
proof (induction es arbitrary: adj)
  case (Cons e es)
  have k: "set (jkeys (add_graph_edge dir e adj)) = set (jkeys adj)" by (simp add: add_graph_edge_def Let_def)
  have "(c, w) \<in> set (edges_at (add_graph_edge dir e adj) b) \<longleftrightarrow> (c, w) \<in> set (edges_at adj b)
      \<or> b \<in> set (jkeys adj) \<and> edge_weight e = w \<and> (ge_from e = b \<and> ge_to e = c \<or> \<not> dir \<and> ge_from e = c \<and> ge_to e = b)"
    unfolding add_graph_edge_def Let_def edges_at_add keys_add if_bool_eq_conj by (cases dir) auto
  then show ?case using Cons[of "add_graph_edge dir e adj"] unfolding k fold_simps(2) list.set(2) by blast
qed simp

lemma fresh_nodes: "set (jkeys (fold (\<lambda>n adj. jset n [] adj) ns adj)) = set ns \<union> set (jkeys adj)
   \<and> ((\<forall>b. edges_at adj b = []) \<longrightarrow> (\<forall>b. edges_at (fold (\<lambda>n adj. jset n [] adj) ns adj) b = []))"
proof (induction ns arbitrary: adj)
  case (Cons n ns)
  have "set (jkeys (jset n [] adj)) = insert n (set (jkeys adj))" by (rule keys_set)
  moreover have "(\<forall>b. edges_at adj b = []) \<longrightarrow> (\<forall>b. edges_at (jset n [] adj) b = [])" by (auto simp: edges_at_def)
  ultimately show ?case using Cons[of "jset n [] adj"] by auto
qed simp

lemma edges_at_Nil [simp]: "edges_at [] b = []" "jkeys [] = []"
  by (simp_all add: edges_at_def jkeys_def)

lemma graph_edges: "(c, w) \<in> set (edges_at (build_adj g) b) \<longleftrightarrow> b \<in> set (gi_nodes g) \<and> (\<exists>e \<in> set (gi_edges g). edge_weight e = w \<and> joins g e b c)"
  using add_edges[of "gi_directed g" "gi_edges g" "fold (\<lambda>n adj. jset n [] adj) (gi_nodes g) []" c w b] fresh_nodes[of "gi_nodes g" "[]"]
  by (auto simp: build_adj_def joins_def)

definition named_graph :: "graph_input \<Rightarrow> bool" where
  "named_graph g \<longleftrightarrow> [] \<notin> set (gi_nodes g) \<and> (\<forall>e \<in> set (gi_edges g). ge_from e \<noteq> [] \<and> ge_to e \<noteq> [])"

definition weighted_graph :: "graph_input \<Rightarrow> bool" where
  "weighted_graph g \<longleftrightarrow> (\<forall>e \<in> set (gi_edges g). 0 \<le> edge_weight e)"

lemma named_places: "named_graph g \<Longrightarrow> [] \<notin> all_places (build_adj g)"
  by (auto simp: all_places_def neighbours_def graph_edges named_graph_def joins_def)

lemma start_named: "named_graph g \<Longrightarrow> start_node p g \<noteq> []"
  by (auto simp: start_node_def named_graph_def dest: hd_in_set)

lemma end_named: "named_graph g \<Longrightarrow> end_node p g \<noteq> []"
  by (auto simp: end_node_def named_graph_def dest: last_in_set)

lemma dijkstra_finds:
  assumes "named_graph g" and "weighted_graph g"
  shows "shortest_found (build_adj g) a b (dijkstra_loop (build_adj g) b (uniq (gi_nodes g)) ([(a, 0)], []))"
proof (rule dijkstra_loop_finds[of _ _ "{}"])
  show "no_negative (build_adj g)" using assms(2) by (auto simp: no_negative_def graph_edges weighted_graph_def)
  have "back_chain [] a [a]" "route (build_adj g) a [a] 0 a" by (auto intro: back_chain.intros route.intros)
  then have "\<exists>p. back_chain [] v p \<and> route (build_adj g) a p d v \<and> set (butlast p) \<subseteq> {}" if "jget [(a, 0)] v = Some d" for v d
    using that by (intro exI[of _ "[a]"]) (auto split: if_splits)
  then show "well_traced (build_adj g) a {} ([(a, 0)], [])" by (simp add: well_traced_def)
  show "well_relaxed (build_adj g) {} (set (uniq (gi_nodes g))) (fst ([(a, 0)], []))" by (simp add: well_relaxed_def)
  have "b \<in> set (gi_nodes g)" if "edges_at (build_adj g) b \<noteq> []" for b
    using that graph_edges[of _ _ g b] by (cases "edges_at (build_adj g) b") fastforce+
  then show "known_in (build_adj g) ({} \<union> set (uniq (gi_nodes g)))" by (simp add: known_in_def)
  show "[] \<notin> set (uniq (gi_nodes g))" using assms(1) by (simp add: named_graph_def)
qed

text \<open>The ways from a node, told by the edges of the input: each edge once, backwards too when they have no direction.\<close>

inductive walk :: "graph_input \<Rightarrow> string \<Rightarrow> string list \<Rightarrow> rat \<Rightarrow> string \<Rightarrow> bool" for g a where
  walk_start: "walk g a [a] 0 a"
| walk_along: "walk g a p d (ge_from e) \<Longrightarrow> e \<in> set (gi_edges g) \<Longrightarrow> ge_from e \<in> set (gi_nodes g)
    \<Longrightarrow> walk g a (p @ [ge_to e]) (d + edge_weight e) (ge_to e)"
| walk_against: "walk g a p d (ge_to e) \<Longrightarrow> e \<in> set (gi_edges g) \<Longrightarrow> ge_to e \<in> set (gi_nodes g) \<Longrightarrow> \<not> gi_directed g
    \<Longrightarrow> walk g a (p @ [ge_from e]) (d + edge_weight e) (ge_from e)"

lemma walk_route: "walk g a p d b \<longleftrightarrow> route (build_adj g) a p d b"
proof
  show "walk g a p d b \<Longrightarrow> route (build_adj g) a p d b"
  proof (induction rule: walk.induct)
    case (walk_along p d e)
    then have "(ge_to e, edge_weight e) \<in> set (edges_at (build_adj g) (ge_from e))" by (auto simp: graph_edges joins_def)
    with walk_along.IH show ?case by (rule route_step)
  next
    case (walk_against p d e)
    then have "(ge_from e, edge_weight e) \<in> set (edges_at (build_adj g) (ge_to e))" by (auto simp: graph_edges joins_def)
    with walk_against.IH show ?case by (rule route_step)
  qed (rule route_start)
  show "route (build_adj g) a p d b \<Longrightarrow> walk g a p d b"
  proof (induction rule: route.induct)
    case (route_step p d b c w)
    then obtain e where e: "e \<in> set (gi_edges g)" "edge_weight e = w" "joins g e b c" "b \<in> set (gi_nodes g)" by (auto simp: graph_edges)
    then show ?case using walk_along[OF _ e(1), of a p d] walk_against[OF _ e(1), of a p d] route_step.IH by (auto simp: joins_def)
  qed (rule walk_start)
qed

text \<open>
  C39. In a graph without negative weights and without a node of the empty name, the path that is reported is a way
  along the edges of the input from the start to the end, its distance is its weight, and no other way is lighter; when
  no path is reported there is none.
\<close>
theorem shortest_path_least:
  assumes "named_graph g" and "weighted_graph g"
  shows "case shortest_path p q g of
      None \<Rightarrow> False
    | Some NoPath \<Rightarrow> \<not> (\<exists>r y. walk g (start_node p g) r y (end_node q g))
    | Some (PathFound d r) \<Rightarrow> \<exists>x. d = Some x \<and> walk g (start_node p g) r x (end_node q g)
        \<and> (\<forall>r' y. walk g (start_node p g) r' y (end_node q g) \<longrightarrow> x \<le> y)"
proof -
  let ?adj = "build_adj g" and ?a = "start_node p g" and ?b = "end_node q g"
  obtain far prev where s: "dijkstra_loop ?adj ?b (uniq (gi_nodes g)) ([(?a, 0)], []) = (far, prev)" by fastforce
  obtain V where t: "well_traced ?adj ?a V (far, prev)"
    and l: "\<And>r y. route ?adj ?a r y ?b \<Longrightarrow> \<exists>e. jget far ?b = Some e \<and> e \<le> y"
    using dijkstra_finds[OF assms, of ?a ?b] unfolding s shortest_found_def by auto
  have b: "?b \<noteq> []" using end_named[OF assms(1)] .
  show ?thesis
  proof (cases "jget far ?b")
    case None
    then have "jget prev ?b = None" "?a \<noteq> ?b" using t unfolding well_traced_def by auto
    moreover have "path_back prev (Some ?b) [] = Some [?b]"
      using b \<open>jget prev ?b = None\<close> by (simp add: path_back.simps[of _ "Some _"] path_back.simps[of _ None])
    ultimately have "shortest_path p q g = Some NoPath" using s by (simp add: shortest_path_def Let_def)
    then show ?thesis using l None by (auto simp: walk_route)
  next
    case (Some x)
    then obtain r where r: "back_chain prev ?b r" "route ?adj ?a r x ?b" using t unfolding well_traced_def fst_conv snd_conv by blast
    have "[] \<notin> set r" using route_places[OF r(2)] named_places[OF assms(1)] start_named[OF assms(1), of p] by auto
    then have "path_back prev (Some ?b) [] = Some r" using chain_path[OF r(1)] by simp
    then have "shortest_path p q g = Some (PathFound (Some x) r)"
      using s Some route_last[OF r(2)] by (simp add: shortest_path_def Let_def)
    then show ?thesis unfolding walk_route using r(2) l Some by fastforce
  qed
qed

definition demo_graph :: graph_input where
  "demo_graph = \<lparr>gi_nodes = [''a'', ''b'', ''c'', ''d''],
     gi_edges = [\<lparr>ge_from = ''a'', ge_to = ''b'', ge_weight = Some 4\<rparr>, \<lparr>ge_from = ''a'', ge_to = ''c'', ge_weight = None\<rparr>,
                 \<lparr>ge_from = ''c'', ge_to = ''b'', ge_weight = Some 2\<rparr>], gi_directed = True\<rparr>"

lemma shortest_path_least_witness:
  "shortest_path ''a'' ''b'' demo_graph = Some (PathFound (Some 3) [''a'', ''c'', ''b''])
   \<and> \<not> (\<exists>r y. walk demo_graph ''a'' r y ''b'' \<and> y < 3)"
proof -
  have p: "shortest_path ''a'' ''b'' demo_graph = Some (PathFound (Some 3) [''a'', ''c'', ''b''])"
  proof -
    have d: "dijkstra_loop (build_adj demo_graph) ''b'' (uniq (gi_nodes demo_graph)) ([(''a'', 0)], [])
        = ([(''a'', 0), (''b'', 3), (''c'', 1)], [(''b'', ''c''), (''c'', ''a'')])" by code_simp
    show ?thesis by (simp add: shortest_path_def start_node_def end_node_def d path_back.simps[of _ "Some _"] path_back.simps[of _ None])
  qed
  have "named_graph demo_graph" "weighted_graph demo_graph" "start_node ''a'' demo_graph = ''a''" "end_node ''b'' demo_graph = ''b''"
    by code_simp+
  then show ?thesis using shortest_path_least[of demo_graph "''a''" "''b''"] p by (simp add: not_less)
qed


section \<open>Where the tool goes wrong\<close>

text \<open>A node whose name is empty stops the search: no path is found over it.\<close>

lemma empty_name_blocks:
  "let g = \<lparr>gi_nodes = [''a'', [], ''b''], gi_edges = [\<lparr>ge_from = ''a'', ge_to = [], ge_weight = Some 1\<rparr>,
       \<lparr>ge_from = [], ge_to = ''b'', ge_weight = Some 1\<rparr>], gi_directed = True\<rparr>
   in shortest_path ''a'' ''b'' g = Some NoPath \<and> walk g ''a'' [''a'', [], ''b''] 2 ''b''"
proof -
  let ?g = "\<lparr>gi_nodes = [''a'', [], ''b''], gi_edges = [\<lparr>ge_from = ''a'', ge_to = [], ge_weight = Some 1\<rparr>,
       \<lparr>ge_from = [], ge_to = ''b'', ge_weight = Some 1\<rparr>], gi_directed = True\<rparr>"
  have d: "dijkstra_loop (build_adj ?g) ''b'' (uniq (gi_nodes ?g)) ([(''a'', 0)], []) = ([(''a'', 0), ([], 1)], [([], ''a'')])"
    by code_simp
  have "shortest_path ''a'' ''b'' ?g = Some NoPath"
    unfolding shortest_path_def Let_def d start_node_def end_node_def
    by (simp add: path_back.simps[of _ "Some _"] path_back.simps[of _ None] d[simplified])
  moreover have "walk ?g ''a'' ([''a''] @ [[]]) (0 + 1) []"
    using walk_along[OF walk_start, of "\<lparr>ge_from = ''a'', ge_to = [], ge_weight = Some 1\<rparr>" ?g] by (simp add: edge_weight_def)
  then have "walk ?g ''a'' (([''a''] @ [[]]) @ [''b'']) ((0 + 1) + 1) ''b''"
    using walk_along[of ?g "''a''" "[''a''] @ [[]]" "0 + 1" "\<lparr>ge_from = [], ge_to = ''b'', ge_weight = Some 1\<rparr>"] by (simp add: edge_weight_def)
  ultimately show ?thesis by simp
qed

definition negative_graph :: graph_input where
  "negative_graph = \<lparr>gi_nodes = [''a'', ''b'', ''c''], gi_edges = [\<lparr>ge_from = ''a'', ge_to = ''b'', ge_weight = Some (- 1)\<rparr>,
     \<lparr>ge_from = ''b'', ge_to = ''c'', ge_weight = Some 1\<rparr>], gi_directed = False\<rparr>"

text \<open>With a negative weight two nodes become predecessors of each other, and the way back never ends.\<close>
lemma negative_never_returns: "shortest_path ''a'' ''c'' negative_graph = None"
proof -
  let ?prev = "[(''b'', ''a''), (''a'', ''b''), (''c'', ''b'')] :: (string, string) jmap"
  have d: "dijkstra_loop (build_adj negative_graph) ''c'' (uniq (gi_nodes negative_graph)) ([(''a'', 0)], [])
      = ([(''a'', - 2), (''b'', - 1), (''c'', 0)], ?prev)" by code_simp
  have never: "cur \<in> {Some ''a'', Some ''b'', Some ''c''} \<longrightarrow> prev = ?prev \<longrightarrow> False" if "path_back prev cur acc = Some r" for prev cur acc r
    using that
  proof (rule path_back.raw_induct[rotated 1, of prev cur acc r "\<lambda>prev cur acc r. cur \<in> {Some ''a'', Some ''b'', Some ''c''} \<longrightarrow> prev = ?prev \<longrightarrow> False"])
    fix path_back :: "(string, string) jmap \<Rightarrow> string option \<Rightarrow> string list \<Rightarrow> string list option"
    fix prev cur acc r
    assume ih: "\<And>prev cur acc r. path_back prev cur acc = Some r \<Longrightarrow> cur \<in> {Some ''a'', Some ''b'', Some ''c''} \<longrightarrow> prev = ?prev \<longrightarrow> False"
      and run: "(case cur of None \<Rightarrow> Some acc | Some c \<Rightarrow> if c = [] then Some acc else path_back prev (jget prev c) (c # acc)) = Some r"
    show "cur \<in> {Some ''a'', Some ''b'', Some ''c''} \<longrightarrow> prev = ?prev \<longrightarrow> False"
      using run ih[of prev "Some ''a''"] ih[of prev "Some ''b''"] by auto
  qed
  have "path_back ?prev (Some ''c'') [] = None" using never[of ?prev "Some ''c''" "[]"] by (cases "path_back ?prev (Some ''c'') []") auto
  then show ?thesis by (simp add: shortest_path_def start_node_def end_node_def d)
qed

text \<open>The components of a directed graph depend on the order of its nodes.\<close>
lemma directed_components_by_order:
  "let e = \<lparr>ge_from = ''b'', ge_to = ''a'', ge_weight = None\<rparr>
   in graph_components \<lparr>gi_nodes = [''a'', ''b''], gi_edges = [e], gi_directed = True\<rparr> = [[''a''], [''b'']]
      \<and> graph_components \<lparr>gi_nodes = [''b'', ''a''], gi_edges = [e], gi_directed = True\<rparr> = [[''b'', ''a'']]"
  by code_simp

text \<open>An edge from a node that is not in the list makes an order impossible.\<close>
lemma unknown_source_cyclic:
  "graph_topological \<lparr>gi_nodes = [''a'', ''b''], gi_edges = [\<lparr>ge_from = ''x'', ge_to = ''a'', ge_weight = None\<rparr>], gi_directed = True\<rparr>
     = CyclicOrder [''b'']"
  by code_simp

end
