(* ===== verification/GraphForest.thy ===== *)
theory GraphForest
  imports GraphTool
begin

text \<open>
  Cycles and minimal spanning trees of the graph tool: looking for a representative with halved paths ends and
  finds the class of a node, so that edges that close a cycle are recognised; taking the light edges that close
  none gives a spanning forest, and no spanning forest is lighter.
\<close>

section \<open>What edges link\<close>

definition edge_pairs :: "graph_edge list \<Rightarrow> (string \<times> string) set" where
  "edge_pairs es = {(a, b). \<exists>e \<in> set es. ge_from e = a \<and> ge_to e = b \<or> ge_from e = b \<and> ge_to e = a}"

definition linked :: "graph_edge list \<Rightarrow> (string \<times> string) set" where
  "linked es = (edge_pairs es)\<^sup>*"

definition closes :: "graph_edge list \<Rightarrow> graph_edge \<Rightarrow> bool" where
  "closes es e \<longleftrightarrow> (ge_from e, ge_to e) \<in> linked es"

lemma linked_refl [simp]: "(a, a) \<in> linked es"
  by (simp add: linked_def)

lemma linked_trans: "(a, b) \<in> linked es \<Longrightarrow> (b, c) \<in> linked es \<Longrightarrow> (a, c) \<in> linked es"
  unfolding linked_def by (rule rtrancl_trans)

lemma linked_sym: "(a, b) \<in> linked es \<Longrightarrow> (b, a) \<in> linked es"
proof -
  have "sym (edge_pairs es)" by (auto simp: sym_def edge_pairs_def)
  then show "(a, b) \<in> linked es \<Longrightarrow> (b, a) \<in> linked es" unfolding linked_def by (blast dest: symD[OF sym_rtrancl])
qed

lemma linked_edge: "e \<in> set es \<Longrightarrow> (ge_from e, ge_to e) \<in> linked es"
  unfolding linked_def by (rule r_into_rtrancl) (auto simp: edge_pairs_def)

lemma linked_least:
  assumes "\<And>e. e \<in> set es \<Longrightarrow> closes fs e"
  shows "linked es \<subseteq> linked fs"
proof -
  have "edge_pairs es \<subseteq> linked fs" using assms linked_sym by (auto simp: edge_pairs_def closes_def)
  then have "(edge_pairs es)\<^sup>* \<subseteq> (linked fs)\<^sup>*" by (rule rtrancl_mono)
  then show ?thesis by (simp add: linked_def)
qed

lemma closes_mem: "e \<in> set es \<Longrightarrow> closes es e"
  by (simp add: closes_def linked_edge)

lemma linked_mono: "set es \<subseteq> set fs \<Longrightarrow> linked es \<subseteq> linked fs"
  by (rule linked_least) (auto intro: closes_mem)

lemma linked_set: "set es = set fs \<Longrightarrow> linked es = linked fs"
  using linked_mono by blast

lemma closes_mono: "closes es e \<Longrightarrow> set es \<subseteq> set fs \<Longrightarrow> closes fs e"
  unfolding closes_def using linked_mono by blast

lemma linked_closed: "closes es e \<Longrightarrow> linked (e # es) = linked es"
  using linked_mono[of es "e # es"] linked_least[of "e # es" es] closes_mem by fastforce

lemma closes_sym: "ge_from f = ge_to e \<Longrightarrow> ge_to f = ge_from e \<Longrightarrow> closes es f \<longleftrightarrow> closes es e"
  using linked_sym by (auto simp: closes_def)

text \<open>What one more edge links.\<close>

lemma linked_add:
  "(x, y) \<in> linked (e # es) \<Longrightarrow> (x, y) \<in> linked es \<or> (x, ge_from e) \<in> linked es \<and> (ge_to e, y) \<in> linked es
     \<or> (x, ge_to e) \<in> linked es \<and> (ge_from e, y) \<in> linked es"
  unfolding linked_def[of "e # es"]
proof (induction rule: rtrancl_induct)
  case base
  then show ?case by simp
next
  case (step y z)
  obtain d where "d \<in> set (e # es)" "ge_from d = y \<and> ge_to d = z \<or> ge_from d = z \<and> ge_to d = y"
    using step(2) by (auto simp: edge_pairs_def)
  then consider (old) "(y, z) \<in> linked es" | (ahead) "y = ge_from e" "z = ge_to e" | (behind) "y = ge_to e" "z = ge_from e"
    using linked_edge[of d es] linked_sym by auto
  then show ?case
  proof cases
    case old
    then show ?thesis using step(3) linked_trans[OF _ old] by blast
  next
    case ahead
    then show ?thesis using step(3) by auto
  next
    case behind
    then show ?thesis using step(3) by auto
  qed
qed

lemma linked_swap:
  assumes "\<not> closes es e" "closes (f # es) e"
  shows "linked (e # es) = linked (f # es)"
proof
  have m: "linked es \<subseteq> linked (e # es)" by (rule linked_mono) auto
  have e: "(ge_from e, ge_to e) \<in> linked (e # es)" by (rule linked_edge) simp
  have "closes (e # es) f"
    using linked_add[of "ge_from e" "ge_to e" f es] assms m e unfolding closes_def by (meson linked_sym linked_trans subsetD)
  then show "linked (f # es) \<subseteq> linked (e # es)"
    by (intro linked_least) (auto intro: closes_mono[of _ _ "e # es"] closes_mem)
  show "linked (e # es) \<subseteq> linked (f # es)"
    by (intro linked_least) (auto intro: closes_mem assms(2))
qed


section \<open>Forests\<close>

text \<open>No edge is linked by the others, over edges that are there already.\<close>

definition forest :: "graph_edge list \<Rightarrow> graph_edge list \<Rightarrow> bool" where
  "forest base F \<longleftrightarrow> (\<forall>xs f ys. F = xs @ f # ys \<longrightarrow> \<not> closes (base @ xs @ ys) f)"

fun greedy :: "graph_edge list \<Rightarrow> graph_edge list \<Rightarrow> graph_edge list" where
  "greedy base [] = []"
| "greedy base (e # es) = (if closes base e then greedy base es else e # greedy (base @ [e]) es)"

lemma greedy_sub: "mset (greedy base es) \<subseteq># mset es"
  by (induction base es rule: greedy.induct) (auto intro: subset_mset.order_trans)

lemma greedy_spans: "linked (base @ greedy base es) = linked (base @ es)"
proof (induction base es rule: greedy.induct)
  case (2 base e es)
  show ?case
  proof (cases "closes base e")
    case True
    then have "linked (e # base @ es) = linked (base @ es)" by (intro linked_closed) (auto intro: closes_mono)
    then show ?thesis using 2 True linked_set[of "e # base @ es" "base @ e # es"] by simp
  next
    case False
    then show ?thesis using 2 by simp
  qed
qed simp

lemma forest_remove:
  assumes "forest base (xs @ e # ys)"
  shows "forest (base @ [e]) (xs @ ys)"
  unfolding forest_def
proof (intro allI impI notI)
  fix as f bs assume s: "xs @ ys = as @ f # bs" and c: "closes ((base @ [e]) @ as @ bs) f"
  have "\<exists>as' bs'. xs @ e # ys = as' @ f # bs' \<and> set (as' @ bs') = insert e (set (as @ bs))"
  proof -
    from s consider us where "xs = as @ f # us" "bs = us @ ys" | us where "as = xs @ us" "ys = us @ f # bs"
      by (auto simp: append_eq_append_conv2 append_eq_Cons_conv)
    then show ?thesis
    proof cases
      case (1 us)
      then show ?thesis by (intro exI[of _ as] exI[of _ "us @ e # ys"]) auto
    next
      case (2 us)
      then show ?thesis by (intro exI[of _ "xs @ e # us"] exI[of _ bs]) auto
    qed
  qed
  then obtain as' bs' where "xs @ e # ys = as' @ f # bs'" "set (as' @ bs') = insert e (set (as @ bs))" by blast
  moreover then have "closes (base @ as' @ bs') f" using c by (auto elim!: closes_mono)
  ultimately show False using assms unfolding forest_def by blast
qed

lemma first_linking:
  "closes (base @ F) e \<Longrightarrow> \<not> closes base e \<Longrightarrow> \<exists>F1 f F2. F = F1 @ f # F2 \<and> \<not> closes (base @ F1) e \<and> closes (base @ F1 @ [f]) e"
proof (induction F rule: rev_induct)
  case (snoc f F)
  show ?case
  proof (cases "closes (base @ F) e")
    case True
    then obtain F1 g F2 where "F = F1 @ g # F2" "\<not> closes (base @ F1) e" "closes (base @ F1 @ [g]) e" using snoc by blast
    then show ?thesis by (intro exI[of _ F1] exI[of _ g] exI[of _ "F2 @ [f]"]) simp
  next
    case False
    then show ?thesis using snoc.prems by (intro exI[of _ F] exI[of _ f] exI[of _ "[]"]) simp
  qed
qed simp

lemma forest_swap:
  assumes F: "forest base (F1 @ f # F2)" and e: "\<not> closes (base @ F1) e" "closes (base @ F1 @ [f]) e"
  shows "linked ((base @ [e]) @ F1 @ F2) = linked (base @ F1 @ f # F2)" and "forest (base @ [e]) (F1 @ F2)"
proof -
  have swap: "linked (e # base @ F1) = linked (f # base @ F1)"
    by (rule linked_swap) (use e linked_set[of "base @ F1 @ [f]" "f # base @ F1"] in \<open>auto simp: closes_def\<close>)
  have "closes (e # base @ F1) f" "closes (f # base @ F1) e"
    using swap linked_edge[of f "f # base @ F1"] linked_edge[of e "e # base @ F1"] unfolding closes_def by auto
  then have "closes (e # base @ F1 @ F2) f" "closes (f # base @ F1 @ F2) e" by (auto elim!: closes_mono)
  then have "linked (f # e # base @ F1 @ F2) = linked (e # base @ F1 @ F2)" "linked (e # f # base @ F1 @ F2) = linked (f # base @ F1 @ F2)"
    by (auto intro!: linked_closed)
  moreover have "linked (f # e # base @ F1 @ F2) = linked (e # f # base @ F1 @ F2)" by (rule linked_set) auto
  moreover have "linked ((base @ [e]) @ F1 @ F2) = linked (e # base @ F1 @ F2)" "linked (base @ F1 @ f # F2) = linked (f # base @ F1 @ F2)"
    by (rule linked_set; force)+
  ultimately show "linked ((base @ [e]) @ F1 @ F2) = linked (base @ F1 @ f # F2)" by simp
  have fno: "\<not> closes (base @ F1 @ F2) f" using F unfolding forest_def by blast
  have eno: "\<not> closes (base @ F1 @ F2) e"
  proof
    assume c: "closes (base @ F1 @ F2) e"
    have "linked (e # base @ F1 @ F2) = linked (base @ F1 @ F2)" by (rule linked_closed[OF c])
    moreover have "closes (e # base @ F1 @ F2) f" using \<open>closes (e # base @ F1 @ F2) f\<close> .
    ultimately show False using fno by (simp add: closes_def)
  qed
  show "forest (base @ [e]) (F1 @ F2)"
    unfolding forest_def
  proof (intro allI impI notI)
    fix as g bs assume s: "F1 @ F2 = as @ g # bs" and c: "closes ((base @ [e]) @ as @ bs) g"
    let ?X = "base @ as @ bs"
    have "\<not> closes ((base @ [f]) @ as @ bs) g" using forest_remove[OF F] s unfolding forest_def by blast
    then have "\<not> closes ?X g" by (auto dest: closes_mono[where fs = "(base @ [f]) @ as @ bs"])
    moreover have "closes (e # ?X) g" using c by (auto elim!: closes_mono)
    ultimately have "linked (g # ?X) = linked (e # ?X)" by (rule linked_swap)
    then have "closes (g # ?X) e" using linked_edge[of e "e # ?X"] by (simp add: closes_def)
    moreover have "set (g # ?X) = set (base @ F1 @ F2)" using arg_cong[OF s, of set] by auto
    ultimately have "closes (base @ F1 @ F2) e" by (auto elim!: closes_mono)
    then show False using eno by simp
  qed
qed

text \<open>Taking the light edges first, nothing is lighter.\<close>

lemma greedy_least:
  "sorted (map edge_weight es) \<Longrightarrow> mset F \<subseteq># mset es \<Longrightarrow> forest base F \<Longrightarrow> linked (base @ F) = linked (base @ es)
     \<Longrightarrow> total_weight (greedy base es) \<le> total_weight F"
proof (induction base es arbitrary: F rule: greedy.induct)
  case (1 base)
  then show ?case by (simp add: total_weight_def)
next
  case (2 base e es)
  note IH = "2.IH" and sort = "2.prems"(1) and sub = "2.prems"(2) and fo = "2.prems"(3) and span = "2.prems"(4)
  have w: "total_weight (xs @ f # ys) = edge_weight f + total_weight (xs @ ys)" for xs f ys
    by (simp add: total_weight_def)
  have rest: "mset F \<subseteq># mset es" if "e \<notin> set F"
  proof (rule mset_subset_eqI)
    fix x
    show "count (mset F) x \<le> count (mset es) x"
    proof (cases "x = e")
      case True
      then have "count (mset F) x = 0" using that by (simp add: count_mset_0_iff)
      then show ?thesis by linarith
    qed (use mset_subset_eq_count[OF sub, of x] in auto)
  qed
  show ?case
  proof (cases "closes base e")
    case True
    have "e \<notin> set F"
    proof
      assume "e \<in> set F"
      then obtain xs ys where "F = xs @ e # ys" by (meson split_list)
      then have "\<not> closes (base @ xs @ ys) e" using fo unfolding forest_def by blast
      then show False using True by (auto dest: closes_mono[where fs = "base @ xs @ ys"])
    qed
    moreover have "linked (base @ es) = linked (base @ e # es)"
      using linked_closed[OF closes_mono[OF True, of "base @ es"]] linked_set[of "e # base @ es" "base @ e # es"] by simp
    ultimately show ?thesis using IH(1)[OF True _ rest fo] sort span True by simp
  next
    case False
    have s: "linked ((base @ [e]) @ es) = linked (base @ e # es)" by simp
    show ?thesis
    proof (cases "e \<in> set F")
      case True
      then obtain xs ys where F: "F = xs @ e # ys" by (meson split_list)
      have "linked ((base @ [e]) @ xs @ ys) = linked (base @ F)" unfolding F by (rule linked_set) auto
      then have "total_weight (greedy (base @ [e]) es) \<le> total_weight (xs @ ys)"
        using IH(2)[OF False _ _ forest_remove] sort sub fo span F s by simp
      then show ?thesis using False F w[of xs e ys] by (simp add: total_weight_def)
    next
      case notin: False
      have "closes (base @ F) e" using span linked_edge[of e "base @ e # es"] by (simp add: closes_def)
      then obtain F1 f F2 where F: "F = F1 @ f # F2" and l: "\<not> closes (base @ F1) e" "closes (base @ F1 @ [f]) e"
        using first_linking False by blast
      note sw = forest_swap[OF fo[unfolded F] l]
      have "mset (F1 @ F2) \<subseteq># mset es" using rest[OF notin] F by (auto intro: subset_mset.order_trans[of _ "mset F"])
      then have "total_weight (greedy (base @ [e]) es) \<le> total_weight (F1 @ F2)"
        using IH(2)[OF False _ _ sw(2)] sort span sw(1) F by simp
      moreover have "f \<in> set es" using rest[OF notin] F by (auto dest: mset_subset_eqD)
      then have "edge_weight e \<le> edge_weight f" using sort by simp
      ultimately show ?thesis using False F w[of F1 f F2] by (simp add: total_weight_def)
    qed
  qed
qed


section \<open>Union and find\<close>

text \<open>Parents stay among the nodes and a rank grows on the way up.\<close>

definition uf_ok :: "string option set \<Rightarrow> uf_parents \<Rightarrow> (string option \<Rightarrow> nat) \<Rightarrow> bool" where
  "uf_ok A p r \<longleftrightarrow> (\<forall>x \<in> A. uf_get p x \<in> A \<and> (uf_get p x \<noteq> x \<longrightarrow> r x < r (uf_get p x)))"

inductive uf_root :: "uf_parents \<Rightarrow> string option \<Rightarrow> string option \<Rightarrow> bool" for p where
  root_here: "uf_get p x = x \<Longrightarrow> uf_root p x x"
| root_up: "uf_get p x \<noteq> x \<Longrightarrow> uf_root p (uf_get p x) y \<Longrightarrow> uf_root p x y"

inductive_cases uf_rootE: "uf_root p x y"

lemma uf_get_set [simp]: "uf_get (jset x y p) z = (if z = x then y else uf_get p z)"
  by (simp add: uf_get_def)

lemma uf_okD: "uf_ok A p r \<Longrightarrow> x \<in> A \<Longrightarrow> uf_get p x \<in> A" "uf_ok A p r \<Longrightarrow> x \<in> A \<Longrightarrow> uf_get p x \<noteq> x \<Longrightarrow> r x < r (uf_get p x)"
  by (simp_all add: uf_ok_def)

lemma root_unique: "uf_root p x y \<Longrightarrow> uf_root p x z \<Longrightarrow> y = z"
proof (induction arbitrary: z rule: uf_root.induct)
  case (root_here x)
  from root_here(2,1) show ?case by cases simp_all
next
  case (root_up x y)
  from root_up.prems root_up.hyps(1) have "uf_root p (uf_get p x) z" by cases simp_all
  then show ?case by (rule root_up.IH)
qed

lemma roots_meet: "uf_root p x a \<Longrightarrow> uf_root p y b \<Longrightarrow> (\<exists>w. uf_root p x w \<and> uf_root p y w) \<longleftrightarrow> a = b"
  using root_unique by blast

lemma root_fixed: "uf_root p x y \<Longrightarrow> uf_get p y = y"
  by (induction rule: uf_root.induct) auto

lemma root_up_iff: "uf_get p x \<noteq> x \<Longrightarrow> uf_root p x y \<longleftrightarrow> uf_root p (uf_get p x) y"
  by (auto intro: root_up elim: uf_rootE)

text \<open>Going up ends, because ranks are bounded.\<close>

lemma rank_bound: "finite A \<Longrightarrow> \<exists>B. \<forall>x \<in> A. (r :: string option \<Rightarrow> nat) x \<le> B"
  by (rule exI[of _ "Max (r ` A)"]) simp

lemma root_exists:
  assumes "finite A" "uf_ok A p r"
  shows "x \<in> A \<Longrightarrow> \<exists>y \<in> A. uf_root p x y"
proof -
  obtain B where B: "\<forall>x \<in> A. r x \<le> B" using rank_bound[OF assms(1)] by blast
  show "x \<in> A \<Longrightarrow> \<exists>y \<in> A. uf_root p x y"
  proof (induction "B - r x" arbitrary: x rule: less_induct)
    case less
    show ?case
    proof (cases "uf_get p x = x")
      case False
      have "uf_get p x \<in> A" "r x < r (uf_get p x)" using uf_okD[OF assms(2) less.prems] False by auto
      moreover have "r (uf_get p x) \<le> B" using B \<open>uf_get p x \<in> A\<close> by blast
      moreover have "B - r (uf_get p x) < B - r x" using calculation by linarith
      ultimately obtain y where "y \<in> A" "uf_root p (uf_get p x) y" using less.hyps[of "uf_get p x"] by blast
      then show ?thesis using root_up[OF False] by blast
    qed (use less.prems root_here in blast)
  qed
qed

text \<open>Halving a path keeps order and roots.\<close>

definition halved :: "uf_parents \<Rightarrow> string option \<Rightarrow> uf_parents" where
  "halved p x = jset x (uf_get p (uf_get p x)) p"

lemma halved_get: "uf_get (halved p x) z = (if z = x then uf_get p (uf_get p x) else uf_get p z)"
  by (simp add: halved_def)

lemma halved_ok:
  assumes "uf_ok A p r" "x \<in> A" "uf_get p x \<noteq> x"
  shows "uf_ok A (halved p x) r" and "uf_get p (uf_get p x) \<noteq> x" and "r x < r (uf_get p (uf_get p x))"
proof -
  note g = uf_okD[OF assms(1,2)] uf_okD[OF assms(1) uf_okD(1)[OF assms(1,2)]]
  show r: "r x < r (uf_get p (uf_get p x))"
    using g(2)[OF assms(3)] g(4) by (cases "uf_get p (uf_get p x) = uf_get p x") auto
  then show "uf_get p (uf_get p x) \<noteq> x" by auto
  show "uf_ok A (halved p x) r" using assms(1) g(3) r unfolding uf_ok_def halved_get by auto
qed

lemma halved_root:
  assumes "uf_ok A p r" "x \<in> A" "uf_get p x \<noteq> x"
  shows "uf_root p z w \<Longrightarrow> uf_root (halved p x) z w"
proof (induction rule: uf_root.induct)
  case (root_here z)
  have "z \<noteq> x" using root_here assms(3) by blast
  then show ?case using root_here by - (rule uf_root.root_here, simp add: halved_get)
next
  case (root_up z w)
  have ne: "uf_get p (uf_get p x) \<noteq> x" by (rule halved_ok(2)[OF assms])
  show ?case
  proof (cases "z = x")
    case False
    show ?thesis using root_up.hyps(1) root_up.IH False by - (rule uf_root.root_up; simp add: halved_get)
  next
    case True
    have "uf_root (halved p x) (uf_get p (uf_get p x)) w"
    proof (cases "uf_get p (uf_get p x) = uf_get p x")
      case False
      have "uf_get (halved p x) (uf_get p x) = uf_get p (uf_get p x)" using assms(3) by (simp add: halved_get)
      then show ?thesis using root_up(3) False True root_up_iff[of "halved p x" "uf_get p x" w] by simp
    qed (use root_up(3) True in simp)
    then show ?thesis using True ne by - (rule uf_root.root_up; simp add: halved_get)
  qed
qed

definition same_roots :: "string option set \<Rightarrow> uf_parents \<Rightarrow> uf_parents \<Rightarrow> bool" where
  "same_roots A p q \<longleftrightarrow> (\<forall>z \<in> A. \<forall>w. uf_root q z w \<longleftrightarrow> uf_root p z w)"

lemma same_rootsI:
  assumes "finite A" "uf_ok A p r" "\<And>z w. uf_root p z w \<Longrightarrow> uf_root q z w"
  shows "same_roots A p q"
  unfolding same_roots_def
proof (intro ballI allI iffI)
  fix z w assume z: "z \<in> A" and q: "uf_root q z w"
  obtain y where "uf_root p z y" using root_exists[OF assms(1,2) z] by blast
  then show "uf_root p z w" using assms(3) root_unique[OF q] by blast
qed (use assms(3) in blast)

text \<open>Finding a representative returns, with the parents changed but not the roots.\<close>

lemma find_root:
  assumes "finite A"
  shows "uf_ok A p r \<Longrightarrow> x \<in> A \<Longrightarrow> \<exists>y q. uf_find p x = Some (y, q) \<and> uf_root p x y \<and> y \<in> A \<and> uf_ok A q r \<and> same_roots A p q"
proof -
  obtain B where B: "\<forall>x \<in> A. r x \<le> B" using rank_bound[OF assms] by blast
  show "uf_ok A p r \<Longrightarrow> x \<in> A \<Longrightarrow> ?thesis"
  proof (induction "B - r x" arbitrary: p x rule: less_induct)
    case less
    show ?case
    proof (cases "uf_get p x = x")
      case True
      then show ?thesis using less.prems root_here by (auto simp: uf_find.simps[of p x] same_roots_def)
    next
      case False
      let ?p = "halved p x" and ?x = "uf_get p (uf_get p x)"
      have h: "uf_ok A ?p r" "r x < r ?x" using halved_ok[OF less.prems False] by auto
      have x: "?x \<in> A" using uf_okD(1)[OF less.prems(1)] less.prems(2) by blast
      have "r ?x \<le> B" using B x by blast
      then have "B - r ?x < B - r x" using h(2) by linarith
      then obtain y q where y: "uf_find ?p ?x = Some (y, q)" "uf_root ?p ?x y" "y \<in> A" "uf_ok A q r" "same_roots A ?p q"
        using less.hyps[OF _ h(1) x] by blast
      have s: "same_roots A p ?p" by (rule same_rootsI[OF assms less.prems(1)]) (rule halved_root[OF less.prems False])
      have "uf_find p x = Some (y, q)" using False y(1) by (simp add: uf_find.simps[of p x] halved_def)
      moreover have "uf_root ?p x y" using y(2) halved_ok(2)[OF less.prems False] by - (rule root_up; simp add: halved_get)
      then have "uf_root p x y" using s less.prems(2) by (simp add: same_roots_def)
      moreover have "same_roots A p q" using s y(5) by (simp add: same_roots_def)
      ultimately show ?thesis using y(3,4) by blast
    qed
  qed
qed


section \<open>Joining classes\<close>

text \<open>\<open>represents\<close>: two nodes have the same root when the edges link them.\<close>

definition node_keys :: "string set \<Rightarrow> string option set" where
  "node_keys N = Some ` N"

definition represents :: "string set \<Rightarrow> uf_parents \<Rightarrow> graph_edge list \<Rightarrow> bool" where
  "represents N p es \<longleftrightarrow> (\<exists>r. uf_ok (node_keys N) p r)
     \<and> (\<forall>a \<in> N. \<forall>b \<in> N. (\<exists>w. uf_root p (Some a) w \<and> uf_root p (Some b) w) \<longleftrightarrow> (a, b) \<in> linked es)"

definition edge_known :: "string set \<Rightarrow> graph_edge \<Rightarrow> bool" where
  "edge_known N e \<longleftrightarrow> ge_from e \<in> N \<and> ge_to e \<in> N"

text \<open>One root put under another.\<close>

lemma joined_ok:
  assumes "finite A" "uf_ok A p r" "ra \<in> A" "rb \<in> A" "uf_get p ra = ra" "uf_get p rb = rb" "ra \<noteq> rb"
  shows "\<exists>r'. uf_ok A (jset ra rb p) r'"
proof -
  obtain B where B: "\<forall>x \<in> A. r x \<le> B" using rank_bound[OF assms(1)] by blast
  define r' where "r' x = (if uf_root p x rb then r x + B + 1 else r x)" for x
  have "r' x < r' (uf_get p x)" if "x \<in> A" "uf_get p x \<noteq> x" for x
    using uf_okD(2)[OF assms(2) that] root_up_iff[OF that(2), of rb] by (auto simp: r'_def)
  moreover have "r' ra < r' rb"
  proof -
    have "\<not> uf_root p ra rb" "uf_root p rb rb" using root_unique[OF root_here[OF assms(5)]] assms(6,7) by (auto intro: root_here)
    then show ?thesis using B assms(3) by (auto simp: r'_def less_Suc_eq_le intro: trans_le_add2)
  qed
  ultimately have "uf_get (jset ra rb p) x \<in> A \<and> (uf_get (jset ra rb p) x \<noteq> x \<longrightarrow> r' x < r' (uf_get (jset ra rb p) x))" if "x \<in> A" for x
    using uf_okD(1)[OF assms(2) that] assms(4) that by (cases "x = ra") simp_all
  then show ?thesis unfolding uf_ok_def by blast
qed

lemma joined_root:
  assumes "uf_get p ra = ra" "uf_get p rb = rb" "ra \<noteq> rb"
  shows "uf_root p z w \<Longrightarrow> uf_root (jset ra rb p) z (if w = ra then rb else w)"
proof (induction rule: uf_root.induct)
  case (root_here z)
  show ?case
  proof (cases "z = ra")
    case True
    have "uf_root (jset ra rb p) rb rb" using assms by - (rule uf_root.root_here, simp)
    then show ?thesis using True assms(3) by - (rule uf_root.root_up; simp)
  next
    case False
    then show ?thesis using root_here by - (simp, rule uf_root.root_here, simp)
  qed
next
  case (root_up z w)
  then have "z \<noteq> ra" using assms(1) by auto
  then show ?case using root_up.hyps(1) root_up.IH by - (rule uf_root.root_up; simp)
qed

lemma edge_roots:
  assumes N: "finite N" and rep: "represents N p es" and e: "edge_known N e"
  shows "\<exists>ra rb q. uf_edge p e = Some (ra, rb, q) \<and> represents N q es \<and> ra \<in> node_keys N \<and> rb \<in> node_keys N
     \<and> uf_root q (Some (ge_from e)) ra \<and> uf_root q (Some (ge_to e)) rb \<and> (ra = rb \<longleftrightarrow> closes es e)"
proof -
  let ?A = "node_keys N"
  have f: "finite ?A" and k: "Some (ge_from e) \<in> ?A" "Some (ge_to e) \<in> ?A"
    using N e by (auto simp: node_keys_def edge_known_def)
  obtain r where ok: "uf_ok ?A p r" using rep unfolding represents_def by blast
  obtain ra p1 where a: "uf_find p (Some (ge_from e)) = Some (ra, p1)" "uf_root p (Some (ge_from e)) ra" "ra \<in> ?A"
    "uf_ok ?A p1 r" "same_roots ?A p p1" using find_root[OF f ok k(1)] by blast
  obtain rb q where b: "uf_find p1 (Some (ge_to e)) = Some (rb, q)" "uf_root p1 (Some (ge_to e)) rb" "rb \<in> ?A"
    "uf_ok ?A q r" "same_roots ?A p1 q" using find_root[OF f a(4) k(2)] by blast
  have s: "uf_root q z w \<longleftrightarrow> uf_root p z w" if "z \<in> ?A" for z w using a(5) b(5) that unfolding same_roots_def by blast
  have "represents N q es" using rep b(4) s unfolding represents_def by (auto simp: node_keys_def)
  moreover have roots: "uf_root q (Some (ge_from e)) ra" "uf_root q (Some (ge_to e)) rb"
    using a(2) b(2,5) s k unfolding same_roots_def by blast+
  moreover have "ra = rb \<longleftrightarrow> closes es e"
  proof -
    have "(\<exists>w. uf_root q (Some (ge_from e)) w \<and> uf_root q (Some (ge_to e)) w) \<longleftrightarrow> closes es e"
      using \<open>represents N q es\<close> e unfolding represents_def closes_def edge_known_def by blast
    then show ?thesis using roots root_unique by blast
  qed
  ultimately show ?thesis using a(1,3) b(1,3) by (auto simp: uf_edge_def)
qed

lemma represents_join:
  assumes N: "finite N" and rep: "represents N q es" and e: "edge_known N e" and k: "ra \<in> node_keys N" "rb \<in> node_keys N"
    and r: "uf_root q (Some (ge_from e)) ra" "uf_root q (Some (ge_to e)) rb" and ne: "ra \<noteq> rb"
  shows "represents N (jset ra rb q) (e # es)"
proof -
  let ?q = "jset ra rb q" and ?u = "\<lambda>w. if w = ra then rb else w"
  have fin: "finite (node_keys N)" using N by (simp add: node_keys_def)
  obtain rk where ok: "uf_ok (node_keys N) q rk" using rep unfolding represents_def by blast
  note fx = root_fixed[OF r(1)] root_fixed[OF r(2)] ne
  have get: "\<exists>w. uf_root q (Some x) w" if "x \<in> N" for x using root_exists[OF fin ok] that by (auto simp: node_keys_def)
  have new: "uf_root ?q z (?u w)" if "uf_root q z w" for z w by (rule joined_root[OF fx that])
  have same: "uf_root q (Some x) v \<Longrightarrow> uf_root q (Some y) w \<Longrightarrow> v = w \<longleftrightarrow> (x, y) \<in> linked es" if "x \<in> N" "y \<in> N" for x y v w
    using rep that root_unique unfolding represents_def by blast
  have m: "linked es \<subseteq> linked (e # es)" by (rule linked_mono) auto
  have le: "(ge_from e, ge_to e) \<in> linked (e # es)" by (rule linked_edge) simp
  have "(\<exists>w. uf_root ?q (Some x) w \<and> uf_root ?q (Some y) w) \<longleftrightarrow> (x, y) \<in> linked (e # es)" if xy: "x \<in> N" "y \<in> N" for x y
  proof -
    obtain v w where vw: "uf_root q (Some x) v" "uf_root q (Some y) w" using get xy by blast
    have n: "ge_from e \<in> N" "ge_to e \<in> N" using e by (auto simp: edge_known_def)
    have eq: "v = w \<longleftrightarrow> (x, y) \<in> linked es" "v = ra \<longleftrightarrow> (x, ge_from e) \<in> linked es" "v = rb \<longleftrightarrow> (x, ge_to e) \<in> linked es"
      "w = ra \<longleftrightarrow> (ge_from e, y) \<in> linked es" "w = rb \<longleftrightarrow> (ge_to e, y) \<in> linked es"
      using same[OF xy vw] same[OF xy(1) n(1) vw(1) r(1)] same[OF xy(1) n(2) vw(1) r(2)]
        same[OF n(1) xy(2) r(1) vw(2)] same[OF n(2) xy(2) r(2) vw(2)] by auto
    have "(\<exists>w. uf_root ?q (Some x) w \<and> uf_root ?q (Some y) w) \<longleftrightarrow> ?u v = ?u w"
      by (rule roots_meet[OF new[OF vw(1)] new[OF vw(2)]])
    also have "\<dots> \<longleftrightarrow> (x, y) \<in> linked (e # es)"
    proof
      assume "?u v = ?u w"
      then consider "v = w" | "v = ra" "w = rb" | "v = rb" "w = ra" by (auto split: if_splits)
      then show "(x, y) \<in> linked (e # es)"
      proof cases
        case 1
        then show ?thesis using eq(1) m by blast
      next
        case 2
        then have "(x, ge_from e) \<in> linked (e # es)" "(ge_to e, y) \<in> linked (e # es)" using eq m by blast+
        then show ?thesis using le linked_trans by blast
      next
        case 3
        then have "(x, ge_to e) \<in> linked (e # es)" "(ge_from e, y) \<in> linked (e # es)" using eq m by blast+
        then show ?thesis using linked_sym[OF le] linked_trans by blast
      qed
    next
      assume "(x, y) \<in> linked (e # es)"
      from linked_add[OF this] show "?u v = ?u w" using eq by auto
    qed
    finally show ?thesis .
  qed
  then show ?thesis using joined_ok[OF fin ok k fx] unfolding represents_def by blast
qed


section \<open>The tool's answers\<close>

lemma represents_cong: "represents N p es \<Longrightarrow> linked es = linked fs \<Longrightarrow> represents N p fs"
  by (simp add: represents_def)

lemma uf_start_get: "uf_get (fold (\<lambda>n p. jset (Some n) (Some n) p) nodes p) (Some n) = (if n \<in> set nodes then Some n else uf_get p (Some n))"
  by (induction nodes arbitrary: p) auto

lemma uf_start_represents: "represents (set nodes) (uf_start nodes) []"
proof -
  have g: "uf_get (uf_start nodes) (Some n) = Some n" if "n \<in> set nodes" for n using that by (simp add: uf_start_def uf_start_get)
  have r: "uf_root (uf_start nodes) (Some n) w \<longleftrightarrow> w = Some n" if "n \<in> set nodes" for n w
    using g[OF that] root_here root_unique by metis
  have "linked [] = Id" by (simp add: linked_def edge_pairs_def)
  moreover have "uf_ok (node_keys (set nodes)) (uf_start nodes) (\<lambda>_. 0)" using g by (auto simp: uf_ok_def node_keys_def)
  ultimately show ?thesis using r unfolding represents_def by auto
qed

definition cycle_closed :: "graph_edge list \<Rightarrow> graph_edge list \<Rightarrow> bool" where
  "cycle_closed base es \<longleftrightarrow> (\<exists>xs e ys. es = xs @ e # ys \<and> closes (base @ xs) e)"

lemma cycle_closed_Cons: "cycle_closed base (e # es) \<longleftrightarrow> closes base e \<or> cycle_closed (base @ [e]) es"
proof
  assume "cycle_closed base (e # es)"
  then obtain xs f ys where "e # es = xs @ f # ys" "closes (base @ xs) f" unfolding cycle_closed_def by blast
  then show "closes base e \<or> cycle_closed (base @ [e]) es" unfolding cycle_closed_def by (cases xs) auto
next
  assume "closes base e \<or> cycle_closed (base @ [e]) es"
  then consider "closes base e" | xs f ys where "es = xs @ f # ys" "closes ((base @ [e]) @ xs) f" unfolding cycle_closed_def by blast
  then show "cycle_closed base (e # es)"
  proof cases
    case 1
    then show ?thesis unfolding cycle_closed_def by (intro exI[of _ "[]"]) simp
  next
    case 2
    then show ?thesis unfolding cycle_closed_def by (intro exI[of _ "e # xs"] exI[of _ f] exI[of _ ys]) simp
  qed
qed

lemma represents_next:
  assumes "finite N" "represents N p base" "edge_known N e"
  shows "\<exists>ra rb q. uf_edge p e = Some (ra, rb, q) \<and> (ra = rb \<longleftrightarrow> closes base e)
     \<and> represents N q base \<and> (ra \<noteq> rb \<longrightarrow> represents N (jset ra rb q) (base @ [e]))"
proof -
  obtain ra rb q where q: "uf_edge p e = Some (ra, rb, q)" "represents N q base" "ra \<in> node_keys N" "rb \<in> node_keys N"
    "uf_root q (Some (ge_from e)) ra" "uf_root q (Some (ge_to e)) rb" "ra = rb \<longleftrightarrow> closes base e" using edge_roots[OF assms] by blast
  have "represents N (jset ra rb q) (base @ [e])" if "ra \<noteq> rb"
    using represents_join[OF assms(1) q(2) assms(3) q(3-6) that] by (rule represents_cong) (rule linked_set, simp)
  then show ?thesis using q by blast
qed

lemma uf_cycle_finds:
  assumes "finite N"
  shows "represents N p base \<Longrightarrow> list_all (edge_known N) es \<Longrightarrow> uf_cycle p es = Some (cycle_closed base es)"
proof (induction es arbitrary: p base)
  case Nil
  then show ?case by (simp add: cycle_closed_def)
next
  case (Cons e es)
  then obtain ra rb q where q: "uf_edge p e = Some (ra, rb, q)" "ra = rb \<longleftrightarrow> closes base e"
    "ra \<noteq> rb \<longrightarrow> represents N (jset ra rb q) (base @ [e])" using represents_next[OF assms, of p base e] by auto
  then show ?case using Cons by (cases "ra = rb") (simp_all add: cycle_closed_Cons)
qed

lemma kruskal_greedy:
  assumes "finite N"
  shows "represents N p base \<Longrightarrow> list_all (edge_known N) es \<Longrightarrow> kruskal p es = Some (greedy base es)"
proof (induction es arbitrary: p base)
  case (Cons e es)
  then obtain ra rb q where q: "uf_edge p e = Some (ra, rb, q)" "ra = rb \<longleftrightarrow> closes base e" "represents N q base"
    "ra \<noteq> rb \<longrightarrow> represents N (jset ra rb q) (base @ [e])" using represents_next[OF assms, of p base e] by auto
  then show ?case using Cons by (cases "ra = rb") simp_all
qed simp

definition known_edges :: "graph_input \<Rightarrow> bool" where
  "known_edges g \<longleftrightarrow> list_all (edge_known (set (gi_nodes g))) (gi_edges g)"

lemma greedy_forest: "forest base (greedy base es)"
proof (induction base es rule: greedy.induct)
  case (2 base e es)
  show ?case
  proof (cases "closes base e")
    case False
    let ?G = "greedy (base @ [e]) es"
    have ih: "forest (base @ [e]) ?G" using 2 False by simp
    show ?thesis
      unfolding forest_def
    proof (intro allI impI notI)
      fix xs f ys assume s: "greedy base (e # es) = xs @ f # ys" and c: "closes (base @ xs @ ys) f"
      show False
      proof (cases xs)
        case Nil
        then have "f = e" "ys = ?G" using s False by auto
        then have ce: "closes (base @ ?G) e" using c Nil by simp
        obtain F1 g F2 where F: "?G = F1 @ g # F2" "\<not> closes (base @ F1) e" "closes (base @ F1 @ [g]) e"
          using first_linking[OF ce False] by blast
        have "linked (e # base @ F1) = linked (g # base @ F1)"
          by (rule linked_swap) (use F(2,3) linked_set[of "base @ F1 @ [g]" "g # base @ F1"] in \<open>auto simp: closes_def\<close>)
        then have "closes (e # base @ F1) g" using linked_edge[of g "g # base @ F1"] by (simp add: closes_def)
        then have "closes ((base @ [e]) @ F1 @ F2) g" by (auto elim!: closes_mono)
        then show False using ih F(1) unfolding forest_def by blast
      next
        case (Cons x xs')
        then have "?G = xs' @ f # ys" "x = e" using s False by auto
        moreover have "closes ((base @ [e]) @ xs' @ ys) f" using c Cons \<open>x = e\<close> by (auto elim!: closes_mono)
        ultimately show False using ih unfolding forest_def by blast
      qed
    qed
  qed (use 2 in simp)
qed (simp add: forest_def)

text \<open>
  A graph without directions is said to have a cycle exactly when an edge joins two nodes that the edges before
  it link already, provided that its edges join nodes of the graph.
\<close>
theorem undirected_cycle_found:
  assumes "known_edges g"
  shows "undirected_cycle g = Some (\<exists>xs e ys. gi_edges g = xs @ e # ys \<and> closes xs e)"
  using uf_cycle_finds[OF _ uf_start_represents, of "gi_nodes g" "gi_edges g"] assms
  by (simp add: undirected_cycle_def known_edges_def cycle_closed_def)

text \<open>
  C40. The tree of a graph without directions is a forest of its edges that links what they link, and no forest of
  edges that does is lighter, whatever the signs of the weights.
\<close>
theorem mst_least:
  assumes "known_edges g" and "\<not> gi_directed g"
  shows "\<exists>t. graph_mst g = Some (Inr (t, total_weight t)) \<and> mset t \<subseteq># mset (gi_edges g) \<and> forest [] t \<and> linked t = linked (gi_edges g)
     \<and> (\<forall>F. mset F \<subseteq># mset (gi_edges g) \<longrightarrow> forest [] F \<longrightarrow> linked F = linked (gi_edges g) \<longrightarrow> total_weight t \<le> total_weight F)"
proof (intro exI conjI allI impI)
  let ?es = "sort_key edge_weight (gi_edges g)"
  let ?t = "greedy [] ?es"
  have "list_all (edge_known (set (gi_nodes g))) ?es" using assms(1) by (simp add: known_edges_def list_all_iff)
  then show "graph_mst g = Some (Inr (?t, total_weight ?t))"
    using kruskal_greedy[OF _ uf_start_represents] assms(2) by (simp add: graph_mst_def)
  show "mset ?t \<subseteq># mset (gi_edges g)" using greedy_sub[of "[]" ?es] by simp
  show "forest [] ?t" by (rule greedy_forest)
  have l: "linked ?es = linked (gi_edges g)" by (rule linked_set) simp
  then show "linked ?t = linked (gi_edges g)" using greedy_spans[of "[]" ?es] by simp
  fix F assume "mset F \<subseteq># mset (gi_edges g)" "forest [] F" "linked F = linked (gi_edges g)"
  then show "total_weight ?t \<le> total_weight F" using l by (intro greedy_least) simp_all
qed

definition plain_edge :: "string \<Rightarrow> string \<Rightarrow> int \<Rightarrow> graph_edge" where
  "plain_edge a b w = \<lparr>ge_from = a, ge_to = b, ge_weight = Some (of_int w)\<rparr>"

definition square_graph :: graph_input where
  "square_graph = \<lparr>gi_nodes = [''a'', ''b'', ''c'', ''d''],
     gi_edges = [plain_edge ''a'' ''b'' 3, plain_edge ''b'' ''c'' 1, plain_edge ''c'' ''a'' (- 2), plain_edge ''c'' ''d'' 5], gi_directed = False\<rparr>"

lemma undirected_cycle_found_witness: "undirected_cycle square_graph = Some True"
proof -
  let ?xs = "[plain_edge ''a'' ''b'' 3, plain_edge ''b'' ''c'' 1]" and ?e = "plain_edge ''c'' ''a'' (- 2)"
  have k: "known_edges square_graph" by code_simp
  have "(''c'', ''b'') \<in> linked ?xs" "(''b'', ''a'') \<in> linked ?xs"
    using linked_sym[OF linked_edge[of "plain_edge ''b'' ''c'' 1" ?xs]] linked_sym[OF linked_edge[of "plain_edge ''a'' ''b'' 3" ?xs]]
    by (simp_all add: plain_edge_def)
  then have "closes ?xs ?e" using linked_trans by (auto simp: closes_def plain_edge_def)
  moreover have "gi_edges square_graph = ?xs @ ?e # [plain_edge ''c'' ''d'' 5]" by (simp add: square_graph_def)
  ultimately have "\<exists>xs e ys. gi_edges square_graph = xs @ e # ys \<and> closes xs e" by blast
  then show ?thesis using undirected_cycle_found[OF k] by simp
qed

lemma mst_least_witness: "\<exists>t. graph_mst square_graph = Some (Inr (t, total_weight t)) \<and> forest [] t \<and> linked t = linked (gi_edges square_graph)"
proof -
  have "known_edges square_graph" "\<not> gi_directed square_graph" by code_simp+
  from mst_least[OF this] show ?thesis by blast
qed


section \<open>Where the graph tool goes wrong\<close>

text \<open>Two edges between nodes that are not in the list count as a cycle: both ends are looked up as \<open>undefined\<close>.\<close>
lemma unknown_nodes_cycle:
  "undirected_cycle \<lparr>gi_nodes = [''a''], gi_edges = [plain_edge ''x'' ''y'' 1], gi_directed = False\<rparr> = Some True"
  by (simp add: undirected_cycle_def uf_start_def uf_edge_def plain_edge_def uf_find.simps[of _ "Some _"] uf_find.simps[of _ None] uf_get_def)

end
