(* ===== verification/Decisions.thy ===== *)
theory Decisions
  imports Classifier Messages JsText
begin

text \<open>
  \<open>src/src/decision/store.ts\<close> and \<open>service.ts\<close>: decisions that agents keep to, each for a key of a scope; a new
  one for a key supersedes the old one. \<open>promise.service.ts\<close> is the same service over another directory.

  The table holds a row per decision, a JSON column the record it encodes. The digest of a text and the words of
  a value are arguments. Times are milliseconds; rows of the same time come in the order of the table.
\<close>

section \<open>Records and index\<close>

datatype decision_scope = GlobalScope | TeamScope | AgentScope
datatype decision_status = DecisionActive | DecisionSuperseded | DecisionArchived
datatype decision_source = FromUser | FromLeader | FromSystem | FromAgent

record decision =
  dn_id :: string
  dn_scope :: decision_scope
  dn_scope_id :: "string option"
  dn_key :: string
  dn_canonical :: string
  dn_value :: string
  dn_normal :: string
  dn_rationale :: "string option"
  dn_priority :: nat
  dn_status :: decision_status
  dn_source :: decision_source
  dn_tags :: "string list"
  dn_supersedes :: "string option"
  dn_print :: string
  dn_created :: int
  dn_updated :: int

record decision_index =
  di_records :: "(string, decision) jmap"
  di_active :: "(string, string) jmap"
  di_prints :: "(string, string) jmap"

record decision_store =
  ds_rows :: "(string, decision) jmap"
  ds_cached :: "decision_index option"

definition decision_store_new :: decision_store where
  "decision_store_new = \<lparr>ds_rows = [], ds_cached = None\<rparr>"

definition scope_text :: "decision_scope \<Rightarrow> string" where
  "scope_text s = (case s of GlobalScope \<Rightarrow> ''global'' | TeamScope \<Rightarrow> ''team'' | AgentScope \<Rightarrow> ''agent'')"

definition text_or_none :: "string option \<Rightarrow> string" where
  "text_or_none x = (case x of Some s \<Rightarrow> s | None \<Rightarrow> [])"

definition none_if_empty :: "string option \<Rightarrow> string option" where
  "none_if_empty x = (if x = Some [] then None else x)"

definition key_ref :: "decision_scope \<Rightarrow> string option \<Rightarrow> string \<Rightarrow> string" where
  "key_ref s i k = scope_text s @ '':'' @ text_or_none i @ '':'' @ k"

definition ref_of :: "decision \<Rightarrow> string" where
  "ref_of r = key_ref (dn_scope r) (dn_scope_id r) (dn_canonical r)"

abbreviation is_active :: "decision \<Rightarrow> bool" where
  "is_active r \<equiv> dn_status r = DecisionActive"

text \<open>The maps of an index: for each key and each fingerprint the last active record.\<close>

definition index_record :: "decision \<Rightarrow> decision_index \<Rightarrow> decision_index" where
  "index_record r ix =
     (if is_active r then ix\<lparr>di_active := jset (ref_of r) (dn_id r) (di_active ix), di_prints := jset (dn_print r) (dn_id r) (di_prints ix)\<rparr>
      else ix)"

definition rebuild_maps :: "decision_index \<Rightarrow> decision_index" where
  "rebuild_maps ix = fold index_record (jvals (di_records ix)) (ix\<lparr>di_active := [], di_prints := []\<rparr>)"

definition rebuild_index :: "(string, decision) jmap \<Rightarrow> decision_index" where
  "rebuild_index rows = rebuild_maps
     \<lparr>di_records = map (\<lambda>r. (dn_id r, r)) (filter (\<lambda>r. dn_id r \<noteq> []) (sort_key dn_updated (jvals rows))), di_active = [], di_prints = []\<rparr>"

definition load_index :: "decision_store \<Rightarrow> decision_index \<times> decision_store" where
  "load_index s =
     (case ds_cached s of
       Some ix \<Rightarrow> (ix, s)
     | None \<Rightarrow> let ix = rebuild_index (ds_rows s) in (ix, s\<lparr>ds_cached := Some ix\<rparr>))"

definition upsert_decisions :: "decision list \<Rightarrow> (string, decision) jmap \<Rightarrow> (string, decision) jmap" where
  "upsert_decisions rs rows = fold (\<lambda>r rows. jset (dn_id r) r rows) rs rows"

text \<open>
  A transaction computes its answer and the records to write from the index; the index is read anew after it.
\<close>

definition decision_transaction :: "(decision_index \<Rightarrow> 'a \<times> decision list) \<Rightarrow> decision_store \<Rightarrow> 'a \<times> decision_store" where
  "decision_transaction f s =
     (let (ix, s) = load_index s; (a, rs) = f ix
      in (a, s\<lparr>ds_rows := upsert_decisions rs (ds_rows s), ds_cached := None\<rparr>))"

definition list_records :: "decision_store \<Rightarrow> decision list \<times> decision_store" where
  "list_records s = (let (ix, s) = load_index s in (sort_key (\<lambda>r. - dn_updated r) (jvals (di_records ix)), s))"


section \<open>Adding a decision\<close>

text \<open>\<open>replace(/[\s-]+/g, "_")\<close> on a text whose blanks are single spaces.\<close>

fun dashes_to_underscore :: "bool \<Rightarrow> string \<Rightarrow> string" where
  "dashes_to_underscore gap [] = []"
| "dashes_to_underscore gap (c # s) =
     (if is_ws c \<or> c = CHR ''-'' then (if gap then dashes_to_underscore True s else CHR ''_'' # dashes_to_underscore True s)
      else c # dashes_to_underscore False s)"

definition normalize_key :: "string \<Rightarrow> string" where
  "normalize_key s = dashes_to_underscore False (str_lower (normalize_text False s))"

definition normalize_value :: "string \<Rightarrow> string" where
  "normalize_value s = str_lower (normalize_text False s)"

record decision_env =
  de_digest :: "string \<Rightarrow> string"
  de_words :: "string \<Rightarrow> string list"

definition fingerprint_of :: "decision_env \<Rightarrow> string list \<Rightarrow> string" where
  "fingerprint_of env parts = de_digest env (str_join ''|'' parts)"

definition token_set :: "decision_env \<Rightarrow> string \<Rightarrow> string list" where
  "token_set env v = uniq (filter (\<lambda>w. w \<noteq> []) (map str_trim (de_words env (normalize_value v))))"

definition value_similarity :: "decision_env \<Rightarrow> string \<Rightarrow> string \<Rightarrow> rat" where
  "value_similarity env a b =
     (let sa = token_set env a; sb = token_set env b
      in if sa = [] \<and> sb = [] then 1 else if sa = [] \<or> sb = [] then 0 else jaccard sa sb)"

record decision_input =
  dw_scope :: decision_scope
  dw_scope_id :: "string option"
  dw_key :: string
  dw_value :: string
  dw_rationale :: "string option"
  dw_priority :: "nat option"
  dw_source :: "decision_source option"
  dw_tags :: "string list option"

datatype append_answer = DecisionInserted decision "string option" | DecisionDeduped decision

definition new_decision :: "decision_env \<Rightarrow> int \<Rightarrow> string \<Rightarrow> decision_input \<Rightarrow> string option \<Rightarrow> string \<Rightarrow> decision" where
  "new_decision env now new_id d old fp = \<lparr>
     dn_id = new_id, dn_scope = dw_scope d, dn_scope_id = none_if_empty (dw_scope_id d), dn_key = dw_key d,
     dn_canonical = normalize_key (dw_key d), dn_value = normalize_text False (dw_value d), dn_normal = normalize_value (dw_value d),
     dn_rationale = map_option (normalize_text False) (none_if_empty (dw_rationale d)),
     dn_priority = (case dw_priority d of Some p \<Rightarrow> p | None \<Rightarrow> 1), dn_status = DecisionActive,
     dn_source = (case dw_source d of Some x \<Rightarrow> x | None \<Rightarrow> FromSystem),
     dn_tags = (case dw_tags d of Some ts \<Rightarrow> filter (\<lambda>t. t \<noteq> []) (map (normalize_text False) ts) | None \<Rightarrow> []),
     dn_supersedes = old, dn_print = fp, dn_created = now, dn_updated = now\<rparr>"

definition input_ref :: "decision_input \<Rightarrow> string" where
  "input_ref d = key_ref (dw_scope d) (none_if_empty (dw_scope_id d)) (normalize_key (dw_key d))"

definition input_print :: "decision_env \<Rightarrow> decision_input \<Rightarrow> string" where
  "input_print env d = fingerprint_of env
     [scope_text (dw_scope d), text_or_none (dw_scope_id d), normalize_key (dw_key d), normalize_value (dw_value d)]"

definition active_at :: "(string, string) jmap \<Rightarrow> string \<Rightarrow> decision_index \<Rightarrow> decision option" where
  "active_at m k ix = (case jget m k of
       None \<Rightarrow> None
     | Some i \<Rightarrow> (case jget (di_records ix) i of Some r \<Rightarrow> if is_active r then Some r else None | None \<Rightarrow> None))"

definition append_decision :: "decision_env \<Rightarrow> int \<Rightarrow> string \<Rightarrow> decision_input \<Rightarrow> decision_store \<Rightarrow> append_answer \<times> decision_store" where
  "append_decision env now new_id d = decision_transaction (\<lambda>ix.
     let fp = input_print env d; ref = input_ref d; old = jget (di_active ix) ref; new = new_decision env now new_id d old fp
     in case active_at (di_prints ix) fp ix of
          Some same \<Rightarrow> (DecisionDeduped same, [])
        | None \<Rightarrow>
          (case active_at (di_active ix) ref ix of
            Some a \<Rightarrow>
              if dn_normal a = normalize_value (dw_value d) \<or> 92 / 100 \<le> value_similarity env (dn_normal a) (normalize_value (dw_value d))
              then (let a = a\<lparr>dn_updated := now\<rparr> in (DecisionDeduped a, [a]))
              else (DecisionInserted new old, [a\<lparr>dn_status := DecisionSuperseded, dn_updated := now\<rparr>, new])
          | None \<Rightarrow> (DecisionInserted new old, [new])))"

definition archive_decision :: "int \<Rightarrow> string \<Rightarrow> decision_store \<Rightarrow> bool \<times> decision_store" where
  "archive_decision now i = decision_transaction (\<lambda>ix.
     case jget (di_records ix) i of
       Some r \<Rightarrow> if is_active r then (True, [r\<lparr>dn_status := DecisionArchived, dn_updated := now\<rparr>]) else (False, [])
     | None \<Rightarrow> (False, []))"

text \<open>Of several active decisions for one key the newest stays.\<close>

definition group_active :: "decision list \<Rightarrow> (string, decision list) jmap" where
  "group_active rs = fold (\<lambda>r m. jset (ref_of r) ((case jget m (ref_of r) of Some prev \<Rightarrow> prev | None \<Rightarrow> []) @ [r]) m) (filter is_active rs) []"

definition superseded_in :: "int \<Rightarrow> decision list \<Rightarrow> decision list" where
  "superseded_in now rs =
     (case sort_key (\<lambda>r. - dn_updated r) rs of
       [] \<Rightarrow> []
     | keep # rest \<Rightarrow> map (\<lambda>r. r\<lparr>dn_status := DecisionSuperseded, dn_supersedes := Some (dn_id keep), dn_updated := now\<rparr>) rest)"

definition dedupe_decisions :: "int \<Rightarrow> decision_store \<Rightarrow> (nat \<times> nat) \<times> decision_store" where
  "dedupe_decisions now = decision_transaction (\<lambda>ix.
     let rs = jvals (di_records ix); changed = concat (map (superseded_in now) (jvals (group_active rs)))
     in ((length changed, length (filter is_active rs) - length changed), changed))"


section \<open>Reading decisions\<close>

record decision_filter =
  dl_scope :: "decision_scope option"
  dl_scope_id :: "string option option"
  dl_status :: "decision_status option"
  dl_key :: string
  dl_priority :: "nat option"
  dl_limit :: int
  dl_search :: string

definition no_decision_filter :: decision_filter where
  "no_decision_filter = \<lparr>dl_scope = None, dl_scope_id = None, dl_status = None, dl_key = [], dl_priority = None, dl_limit = 0, dl_search = []\<rparr>"

definition same_scope_id :: "string option \<Rightarrow> string option \<Rightarrow> bool" where
  "same_scope_id a b \<longleftrightarrow> none_if_empty a = none_if_empty b"

definition decision_passes :: "decision_filter \<Rightarrow> decision \<Rightarrow> bool" where
  "decision_passes f r \<longleftrightarrow>
     (case dl_scope f of Some s \<Rightarrow> dn_scope r = s | None \<Rightarrow> True)
     \<and> (case dl_scope_id f of Some i \<Rightarrow> same_scope_id (dn_scope_id r) i | None \<Rightarrow> True)
     \<and> (case dl_status f of Some s \<Rightarrow> dn_status r = s | None \<Rightarrow> True)
     \<and> (let key = (if dl_key f = [] then [] else normalize_key (dl_key f)) in key = [] \<or> dn_canonical r = key)
     \<and> (case dl_priority f of Some p \<Rightarrow> dn_priority r \<le> p | None \<Rightarrow> True)
     \<and> (let search = (if dl_search f = [] then [] else normalize_value (dl_search f))
        in search = [] \<or> str_includes search (normalize_value
             (str_join '' '' [dn_key r, dn_value r, text_or_none (dn_rationale r), str_join '' '' (dn_tags r)])))"

definition list_limit :: "int \<Rightarrow> int \<Rightarrow> nat" where
  "list_limit usual n = nat (max 1 (if n = 0 then usual else n))"

definition list_decisions :: "decision_filter \<Rightarrow> decision_store \<Rightarrow> decision list \<times> decision_store" where
  "list_decisions f s =
     (let (rows, s) = list_records s
      in (take (list_limit 200 (dl_limit f)) (sort_key (\<lambda>r. - dn_updated r) (filter (decision_passes f) rows)), s))"

record decision_context =
  dx_team :: "string option"
  dx_agent :: "string option"
  dx_include_p2 :: bool
  dx_p1_limit :: int
  dx_p2_limit :: int

definition context_levels :: "decision_context \<Rightarrow> (decision_scope \<times> string option) list" where
  "context_levels x = [(GlobalScope, None), (TeamScope, dx_team x), (AgentScope, dx_agent x)]"

definition at_level :: "decision_scope \<times> string option \<Rightarrow> decision \<Rightarrow> bool" where
  "at_level l r \<longleftrightarrow> dn_scope r = fst l \<and> same_scope_id (dn_scope_id r) (snd l)"

text \<open>Later levels come over earlier ones.\<close>

definition merge_level :: "decision list \<Rightarrow> decision_scope \<times> string option \<Rightarrow> (string, decision) jmap \<Rightarrow> (string, decision) jmap" where
  "merge_level rows l m = fold (\<lambda>r m. jset (dn_canonical r) r m) (sort_key (\<lambda>r. - dn_updated r) (filter (at_level l) rows)) m"

definition merged_decisions :: "decision_context \<Rightarrow> decision list \<Rightarrow> decision list" where
  "merged_decisions x rows = jvals (fold (merge_level rows) (context_levels x) [])"

definition newest_of :: "nat \<Rightarrow> nat \<Rightarrow> decision list \<Rightarrow> decision list" where
  "newest_of p k rs = take k (sort_key (\<lambda>r. - dn_updated r) (filter (\<lambda>r. dn_priority r = p) rs))"

definition effective_of :: "decision_context \<Rightarrow> decision list \<Rightarrow> decision list" where
  "effective_of x rows =
     (let merged = merged_decisions x rows
      in filter (\<lambda>r. dn_priority r = 0) merged @ newest_of 1 (list_limit 5 (dx_p1_limit x)) merged
         @ (if dx_include_p2 x then newest_of 2 (list_limit 3 (dx_p2_limit x)) merged else []))"

definition effective_decisions :: "decision_context \<Rightarrow> decision_store \<Rightarrow> decision list \<times> decision_store" where
  "effective_decisions x s =
     (let (rows, s) = list_decisions (no_decision_filter\<lparr>dl_status := Some DecisionActive, dl_limit := 2000\<rparr>) s in (effective_of x rows, s))"

definition decision_line :: "(nat \<Rightarrow> string) \<Rightarrow> decision \<Rightarrow> string" where
  "decision_line num r = ''- [P'' @ num (dn_priority r) @ ''] '' @ dn_canonical r @ '': '' @ dn_value r"

definition compact_injection :: "string \<Rightarrow> (nat \<Rightarrow> string) \<Rightarrow> decision list \<Rightarrow> string" where
  "compact_injection title num rs = (if rs = [] then [] else str_join [CHR 0x0A] (title # map (decision_line num) rs))"

end
