(* ===== verification/DecisionsCorrect.thy ===== *)
theory DecisionsCorrect
  imports Decisions
begin

text \<open>
  What the decision service guarantees: whatever is added, archived and deduplicated, one decision at most is
  active for a key; and of the decisions that apply, the one of the narrowest scope is effective.
\<close>

section \<open>One active decision for a key\<close>

datatype decision_op =
    DecisionAppend int string decision_input
  | DecisionArchive int string
  | DecisionDedupe int
  | DecisionList decision_filter
  | DecisionEffective decision_context

text \<open>An identifier is never empty.\<close>

fun decision_step :: "decision_env \<Rightarrow> decision_op \<Rightarrow> decision_store \<Rightarrow> decision_store" where
  "decision_step env (DecisionAppend now i d) s = (if i = [] then s else snd (append_decision env now i d s))"
| "decision_step env (DecisionArchive now i) s = snd (archive_decision now i s)"
| "decision_step env (DecisionDedupe now) s = snd (dedupe_decisions now s)"
| "decision_step env (DecisionList f) s = snd (list_decisions f s)"
| "decision_step env (DecisionEffective x) s = snd (effective_decisions x s)"

definition rows_named :: "(string, decision) jmap \<Rightarrow> bool" where
  "rows_named rows \<longleftrightarrow> jwf rows \<and> (\<forall>i r. jget rows i = Some r \<longrightarrow> dn_id r = i \<and> i \<noteq> [])"

definition one_active :: "(string, decision) jmap \<Rightarrow> bool" where
  "one_active rows \<longleftrightarrow> (\<forall>i j r q. jget rows i = Some r \<longrightarrow> jget rows j = Some q \<longrightarrow> is_active r \<longrightarrow> is_active q \<longrightarrow> ref_of r = ref_of q \<longrightarrow> i = j)"

definition decisions_ok :: "decision_store \<Rightarrow> bool" where
  "decisions_ok s \<longleftrightarrow> rows_named (ds_rows s) \<and> one_active (ds_rows s)
     \<and> (case ds_cached s of None \<Rightarrow> True | Some ix \<Rightarrow> ix = rebuild_index (ds_rows s))"

lemma rows_named_put: "rows_named rows \<Longrightarrow> dn_id r \<noteq> [] \<Longrightarrow> rows_named (jset (dn_id r) r rows)"
  by (auto simp: rows_named_def)

lemma one_active_put:
  assumes "one_active rows"
    and "\<And>j q. is_active r \<Longrightarrow> jget rows j = Some q \<Longrightarrow> is_active q \<Longrightarrow> ref_of q = ref_of r \<Longrightarrow> j = dn_id r"
  shows "one_active (jset (dn_id r) r rows)"
  unfolding one_active_def
proof (intro allI impI)
  fix i j a b
  assume ab: "jget (jset (dn_id r) r rows) i = Some a" "jget (jset (dn_id r) r rows) j = Some b" "is_active a" "is_active b" "ref_of a = ref_of b"
  consider "i = dn_id r" "a = r" | "i \<noteq> dn_id r" "jget rows i = Some a" using ab(1) by (auto split: if_splits)
  note ca = this
  consider "j = dn_id r" "b = r" | "j \<noteq> dn_id r" "jget rows j = Some b" using ab(2) by (auto split: if_splits)
  note cb = this
  show "i = j"
    using ca
  proof cases
    case 1
    note a = this
    show ?thesis using cb
    proof cases
      case 2
      then show ?thesis using assms(2)[of j b] a ab by auto
    qed (use a in simp)
  next
    case 2
    note a = this
    show ?thesis using cb
    proof cases
      case 1
      then show ?thesis using assms(2)[of i a] a ab by auto
    next
      case 2
      then show ?thesis using assms(1) a ab unfolding one_active_def by blast
    qed
  qed
qed

text \<open>What the index holds.\<close>

lemma index_fold:
  "di_records (fold index_record rs ix) = di_records ix"
  "jget (di_active (fold index_record rs ix)) k = Some i \<Longrightarrow> (\<exists>r \<in> set rs. is_active r \<and> ref_of r = k \<and> dn_id r = i) \<or> jget (di_active ix) k = Some i"
  "\<exists>r \<in> set rs. is_active r \<and> ref_of r = k \<Longrightarrow> jget (di_active (fold index_record rs ix)) k \<noteq> None"
proof -
  show "di_records (fold index_record rs ix) = di_records ix"
    by (induction rs arbitrary: ix) (auto simp: index_record_def)
  show "jget (di_active (fold index_record rs ix)) k = Some i \<Longrightarrow> (\<exists>r \<in> set rs. is_active r \<and> ref_of r = k \<and> dn_id r = i) \<or> jget (di_active ix) k = Some i"
  proof (induction rs arbitrary: ix)
    case (Cons r rs)
    have "jget (di_active (index_record r ix)) k = Some i \<Longrightarrow> is_active r \<and> ref_of r = k \<and> dn_id r = i \<or> jget (di_active ix) k = Some i"
      by (auto simp: index_record_def split: if_splits)
    then show ?case using Cons by auto
  qed simp
  have keep: "jget (di_active ix) k \<noteq> None \<Longrightarrow> jget (di_active (fold index_record rs ix)) k \<noteq> None" for rs ix
  proof (induction rs arbitrary: ix)
    case (Cons r rs)
    have "jget (di_active (index_record r ix)) k \<noteq> None" using Cons.prems by (auto simp: index_record_def)
    then show ?case using Cons.IH by simp
  qed simp
  show "\<exists>r \<in> set rs. is_active r \<and> ref_of r = k \<Longrightarrow> jget (di_active (fold index_record rs ix)) k \<noteq> None"
  proof (induction rs arbitrary: ix)
    case (Cons r rs)
    show ?case
    proof (cases "is_active r \<and> ref_of r = k")
      case True
      then have "jget (di_active (index_record r ix)) k \<noteq> None" by (simp add: index_record_def)
      then show ?thesis using keep by simp
    qed (use Cons in auto)
  qed simp
qed

lemma row_values:
  assumes "rows_named rows"
  shows "r \<in> set (jvals rows) \<longleftrightarrow> jget rows (dn_id r) = Some r \<and> dn_id r \<noteq> []"
proof
  assume "r \<in> set (jvals rows)"
  then obtain i where "(i, r) \<in> set rows" by (auto simp: jvals_def)
  then have "jget rows i = Some r" using assms by (simp add: rows_named_def jget_iff)
  then show "jget rows (dn_id r) = Some r \<and> dn_id r \<noteq> []" using assms by (auto simp: rows_named_def)
next
  assume "jget rows (dn_id r) = Some r \<and> dn_id r \<noteq> []"
  then have "(dn_id r, r) \<in> set rows" by (auto dest: jget_mem)
  then show "r \<in> set (jvals rows)" by (force simp: jvals_def)
qed

lemma same_answer: "(\<And>r. a = Some r \<longleftrightarrow> b = Some r) \<Longrightarrow> a = b"
  by (cases a; cases b) auto

lemma rebuilt_records:
  assumes "rows_named rows"
  shows "jget (di_records (rebuild_index rows)) i = jget rows i" and "set (jvals (di_records (rebuild_index rows))) = set (jvals rows)"
proof -
  have m: "(i, r) \<in> set rows \<longleftrightarrow> jget rows i = Some r" for i r using assms by (simp add: rows_named_def jget_iff)
  have v: "r \<in> set (jvals rows) \<longleftrightarrow> jget rows (dn_id r) = Some r \<and> dn_id r \<noteq> []" for r
    by (rule row_values[OF assms])
  let ?rs = "filter (\<lambda>r. dn_id r \<noteq> []) (sort_key dn_updated (jvals rows))"
  have s: "set ?rs = set (jvals rows)" using v by auto
  have "distinct (map dn_id (jvals rows))"
  proof -
    have "map dn_id (jvals rows) = map fst rows" using assms m by (auto simp: jvals_def rows_named_def)
    then show ?thesis using assms by (simp add: rows_named_def jwf_def)
  qed
  then have "distinct (map dn_id (sort_key dn_updated (jvals rows)))" by (simp add: distinct_map)
  then have "jwf (map (\<lambda>r. (dn_id r, r)) ?rs)" by (simp add: jwf_def o_def distinct_map_filter)
  then have "jget (map (\<lambda>r. (dn_id r, r)) ?rs) i = Some r \<longleftrightarrow> r \<in> set (jvals rows) \<and> dn_id r = i" for i r
    unfolding jget_iff[OF \<open>jwf (map (\<lambda>r. (dn_id r, r)) ?rs)\<close>] s[symmetric] by auto
  then have "jget (map (\<lambda>r. (dn_id r, r)) ?rs) i = Some r \<longleftrightarrow> jget rows i = Some r" for i r
    using v[of r] assms by (cases "dn_id r = i") (auto simp: rows_named_def)
  then have g: "jget (map (\<lambda>r. (dn_id r, r)) ?rs) i = jget rows i" for i by (intro same_answer)
  have r: "di_records (rebuild_index rows) = map (\<lambda>r. (dn_id r, r)) ?rs"
    by (simp add: rebuild_index_def rebuild_maps_def index_fold)
  show "jget (di_records (rebuild_index rows)) i = jget rows i" unfolding r by (rule g)
  show "set (jvals (di_records (rebuild_index rows))) = set (jvals rows)" unfolding r using s by (simp add: jvals_def o_def)
qed

lemma active_found:
  assumes "rows_named rows" "one_active rows"
  shows "jget rows i = Some r \<Longrightarrow> is_active r \<Longrightarrow> jget (di_active (rebuild_index rows)) (ref_of r) = Some i"
    and "jget (di_active (rebuild_index rows)) k = Some i \<Longrightarrow> \<exists>r. jget rows i = Some r \<and> is_active r \<and> ref_of r = k"
proof -
  let ?rs = "jvals (di_records (rebuild_index rows))"
  have m: "r \<in> set ?rs \<Longrightarrow> jget rows (dn_id r) = Some r" for r
    using rebuilt_records[OF assms(1)] assms(1) by (auto simp: jvals_def rows_named_def jget_iff)
  have a: "di_active (rebuild_index rows) = di_active (fold index_record ?rs (\<lparr>di_records = di_records (rebuild_index rows), di_active = [], di_prints = []\<rparr>))"
    by (simp add: rebuild_index_def rebuild_maps_def index_fold)
  show sound: "\<exists>r. jget rows i = Some r \<and> is_active r \<and> ref_of r = k" if "jget (di_active (rebuild_index rows)) k = Some i" for k i
    using index_fold(2)[OF that[unfolded a]] m by auto
  assume r: "jget rows i = Some r" "is_active r"
  then have "r \<in> set ?rs" using rebuilt_records(2)[OF assms(1)] assms(1) by (force simp: jvals_def rows_named_def jget_iff)
  then have "jget (di_active (rebuild_index rows)) (ref_of r) \<noteq> None" unfolding a using r(2) by (intro index_fold(3)) blast
  then obtain j where j: "jget (di_active (rebuild_index rows)) (ref_of r) = Some j" by blast
  then obtain q where "jget rows j = Some q" "is_active q" "ref_of q = ref_of r" using sound by blast
  then have "j = i" using assms(2) r unfolding one_active_def by blast
  then show "jget (di_active (rebuild_index rows)) (ref_of r) = Some i" using j by simp
qed

text \<open>The index a transaction reads is that of the table.\<close>

lemma load_ok:
  assumes "decisions_ok s"
  shows "load_index s = (rebuild_index (ds_rows s), snd (load_index s))" and "ds_rows (snd (load_index s)) = ds_rows s"
    and "decisions_ok (snd (load_index s))"
  using assms by (auto simp: load_index_def decisions_ok_def Let_def split: option.splits)

lemma transaction_rows:
  assumes "decisions_ok s"
  shows "fst (decision_transaction f s) = fst (f (rebuild_index (ds_rows s)))"
    and "snd (decision_transaction f s) = \<lparr>ds_rows = upsert_decisions (snd (f (rebuild_index (ds_rows s)))) (ds_rows s), ds_cached = None\<rparr>"
proof -
  obtain t where t: "load_index s = (rebuild_index (ds_rows s), t)" "ds_rows t = ds_rows s" using load_ok[OF assms] by metis
  have "t\<lparr>ds_rows := x, ds_cached := None\<rparr> = \<lparr>ds_rows = x, ds_cached = None\<rparr>" for x by (cases t) simp
  then show "fst (decision_transaction f s) = fst (f (rebuild_index (ds_rows s)))"
    "snd (decision_transaction f s) = \<lparr>ds_rows = upsert_decisions (snd (f (rebuild_index (ds_rows s)))) (ds_rows s), ds_cached = None\<rparr>"
    using t by (simp_all add: decision_transaction_def case_prod_beta)
qed

definition rows_ok :: "(string, decision) jmap \<Rightarrow> bool" where
  "rows_ok rows \<longleftrightarrow> rows_named rows \<and> one_active rows"

text \<open>Writing back records that are no longer active keeps the rows in order.\<close>

lemma rows_ok_inactive: "rows_ok rows \<Longrightarrow> dn_id r \<noteq> [] \<Longrightarrow> \<not> is_active r \<Longrightarrow> rows_ok (jset (dn_id r) r rows)"
  using one_active_put[of rows r] rows_named_put[of rows r] by (auto simp: rows_ok_def)

lemma upsert_inactive:
  "rows_ok rows \<Longrightarrow> list_all (\<lambda>r. dn_id r \<noteq> [] \<and> \<not> is_active r) rs \<Longrightarrow> rows_ok (upsert_decisions rs rows)"
  by (induction rs arbitrary: rows) (auto simp: upsert_decisions_def rows_ok_inactive)

lemma new_decision_fields [simp]:
  "dn_id (new_decision env now i d old fp) = i" "is_active (new_decision env now i d old fp)"
  "ref_of (new_decision env now i d old fp) = input_ref d"
  by (simp_all add: new_decision_def ref_of_def input_ref_def)

lemma active_at_mem:
  assumes "rows_ok rows" "active_at m k (rebuild_index rows) = Some r"
  shows "is_active r" "jget rows (dn_id r) = Some r" "dn_id r \<noteq> []"
  using assms rebuilt_records[of rows] by (auto simp: active_at_def rows_ok_def rows_named_def split: option.splits if_splits)

lemma active_at_key:
  assumes "rows_ok rows"
  shows "active_at (di_active (rebuild_index rows)) k (rebuild_index rows) = Some r
     \<longleftrightarrow> jget rows (dn_id r) = Some r \<and> is_active r \<and> ref_of r = k"
proof -
  have ok: "rows_named rows" "one_active rows" using assms by (simp_all add: rows_ok_def)
  have rec: "jget (di_records (rebuild_index rows)) i = jget rows i" for i by (rule rebuilt_records(1)[OF ok(1)])
  show ?thesis
  proof
    assume "active_at (di_active (rebuild_index rows)) k (rebuild_index rows) = Some r"
    then obtain i where i: "jget (di_active (rebuild_index rows)) k = Some i" "jget rows i = Some r" "is_active r"
      by (auto simp: active_at_def rec split: option.splits if_splits)
    then show "jget rows (dn_id r) = Some r \<and> is_active r \<and> ref_of r = k"
      using active_found(2)[OF ok i(1)] ok(1) by (auto simp: rows_named_def)
  next
    assume "jget rows (dn_id r) = Some r \<and> is_active r \<and> ref_of r = k"
    then show "active_at (di_active (rebuild_index rows)) k (rebuild_index rows) = Some r"
      using active_found(1)[OF ok, of "dn_id r" r] by (auto simp: active_at_def rec)
  qed
qed

lemma append_rows_ok:
  assumes ok: "rows_ok rows" and i: "i \<noteq> []" and none: "\<And>j q. jget rows j = Some q \<Longrightarrow> is_active q \<Longrightarrow> ref_of q = input_ref d \<Longrightarrow> j = i"
  shows "rows_ok (jset i (new_decision env now i d old fp) rows)"
  using ok i none rows_named_put[of rows "new_decision env now i d old fp"] one_active_put[of rows "new_decision env now i d old fp"]
  by (auto simp: rows_ok_def)

lemma append_decision_ok:
  assumes "decisions_ok s" "i \<noteq> []"
  shows "decisions_ok (snd (append_decision env now i d s))"
proof -
  let ?rows = "ds_rows s" and ?ix = "rebuild_index (ds_rows s)"
  let ?ref = "input_ref d" and ?fp = "input_print env d"
  let ?new = "new_decision env now i d (jget (di_active ?ix) ?ref) ?fp"
  have ok: "rows_ok ?rows" using assms(1) by (simp add: decisions_ok_def rows_ok_def)
  have close: "decisions_ok \<lparr>ds_rows = rows, ds_cached = None\<rparr>" if "rows_ok rows" for rows
    using that by (simp add: decisions_ok_def rows_ok_def)
  note tr = transaction_rows(2)[OF assms(1)]
  show ?thesis
  proof (cases "active_at (di_prints ?ix) ?fp ?ix")
    case (Some r)
    then show ?thesis using ok close by (simp add: append_decision_def tr Let_def upsert_decisions_def)
  next
    case None
    note np = this
    show ?thesis
    proof (cases "active_at (di_active ?ix) ?ref ?ix")
      case None
      have "\<not> (is_active q \<and> ref_of q = ?ref)" if "jget ?rows j = Some q" for j q
        using active_at_key[OF ok, of ?ref q] None that ok by (auto simp: rows_ok_def rows_named_def)
      then have "rows_ok (jset i ?new ?rows)" by (intro append_rows_ok[OF ok assms(2)]) blast
      then show ?thesis using np None close by (simp add: append_decision_def tr Let_def upsert_decisions_def)
    next
      case (Some a)
      then have a: "jget ?rows (dn_id a) = Some a" "is_active a" "ref_of a = ?ref" using active_at_key[OF ok] by auto
      have ne: "dn_id a \<noteq> []" using active_at_mem(3)[OF ok Some] .
      have one: "j = dn_id a" if "jget ?rows j = Some q" "is_active q" "ref_of q = ?ref" for j q
        using ok a that unfolding rows_ok_def one_active_def by metis
      let ?kept = "a\<lparr>dn_updated := now\<rparr>" and ?old = "a\<lparr>dn_status := DecisionSuperseded, dn_updated := now\<rparr>"
      have r: "ref_of ?kept = ref_of a" by (simp add: ref_of_def)
      have "rows_ok (jset (dn_id ?kept) ?kept ?rows)"
        using ok rows_named_put[of ?rows ?kept] one_active_put[of ?rows ?kept] ne one r a(3) by (simp add: rows_ok_def)
      then have k: "rows_ok (jset (dn_id a) ?kept ?rows)" by simp
      have o: "rows_ok (jset (dn_id a) ?old ?rows)" using rows_ok_inactive[OF ok, of ?old] ne by simp
      have "rows_ok (jset i ?new (jset (dn_id a) ?old ?rows))"
        by (rule append_rows_ok[OF o assms(2)]) (use one in \<open>auto split: if_splits\<close>)
      then show ?thesis using np Some close k by (simp add: append_decision_def tr Let_def upsert_decisions_def)
    qed
  qed
qed

lemma archive_decision_ok: "decisions_ok s \<Longrightarrow> decisions_ok (snd (archive_decision now i s))"
proof -
  assume ok: "decisions_ok s"
  have r: "rows_ok (ds_rows s)" using ok by (simp add: decisions_ok_def rows_ok_def)
  have rec: "jget (di_records (rebuild_index (ds_rows s))) i = jget (ds_rows s) i"
    using rebuilt_records(1) r by (simp add: rows_ok_def)
  have close: "decisions_ok \<lparr>ds_rows = rows, ds_cached = None\<rparr>" if "rows_ok rows" for rows
    using that by (simp add: decisions_ok_def rows_ok_def)
  show ?thesis
  proof (cases "jget (ds_rows s) i")
    case None
    then show ?thesis using r close by (simp add: archive_decision_def transaction_rows(2)[OF ok] rec upsert_decisions_def)
  next
    case (Some q)
    have "dn_id q \<noteq> []" using r Some unfolding rows_ok_def rows_named_def by blast
    then have "rows_ok (jset (dn_id q) (q\<lparr>dn_status := DecisionArchived, dn_updated := now\<rparr>) (ds_rows s))"
      using rows_ok_inactive[OF r, of "q\<lparr>dn_status := DecisionArchived, dn_updated := now\<rparr>"] by simp
    then show ?thesis using r close Some by (simp add: archive_decision_def transaction_rows(2)[OF ok] rec upsert_decisions_def)
  qed
qed

lemma group_members: "jget (group_active rs) k = Some g \<Longrightarrow> set g \<subseteq> set rs"
proof -
  have "\<forall>k g. jget m k = Some g \<longrightarrow> set g \<subseteq> A \<Longrightarrow> set qs \<subseteq> A \<Longrightarrow>
      \<forall>k g. jget (fold (\<lambda>r m. jset (ref_of r) ((case jget m (ref_of r) of Some prev \<Rightarrow> prev | None \<Rightarrow> []) @ [r]) m) qs m) k = Some g \<longrightarrow> set g \<subseteq> A"
    for qs m A
  proof (induction qs arbitrary: m)
    case (Cons q qs)
    show ?case unfolding fold_simps(2)
    proof (rule Cons.IH)
      show "\<forall>k g. jget (jset (ref_of q) ((case jget m (ref_of q) of Some prev \<Rightarrow> prev | None \<Rightarrow> []) @ [q]) m) k = Some g \<longrightarrow> set g \<subseteq> A"
        using Cons.prems by (cases "jget m (ref_of q)") auto
      show "set qs \<subseteq> A" using Cons.prems(2) by simp
    qed
  qed simp
  from this[of "[]" "set rs" "filter is_active rs"] show "jget (group_active rs) k = Some g \<Longrightarrow> set g \<subseteq> set rs"
    by (auto simp: group_active_def)
qed

lemma group_wf: "jwf (group_active rs)"
proof -
  have "jwf m \<Longrightarrow> jwf (fold (\<lambda>r m. jset (ref_of r) ((case jget m (ref_of r) of Some prev \<Rightarrow> prev | None \<Rightarrow> []) @ [r]) m) qs m)" for qs m
    by (induction qs arbitrary: m) auto
  then show ?thesis by (simp add: group_active_def)
qed

lemma superseded_mem: "r \<in> set (superseded_in now rs) \<Longrightarrow> \<not> is_active r \<and> (\<exists>q \<in> set rs. dn_id r = dn_id q)"
proof (cases "sort_key (\<lambda>r. - dn_updated r) rs")
  case Nil
  then show "r \<in> set (superseded_in now rs) \<Longrightarrow> ?thesis" by (simp add: superseded_in_def)
next
  case (Cons keep rest)
  have "set (sort_key (\<lambda>r. - dn_updated r) rs) = set rs" by simp
  then have "set rest \<subseteq> set rs" unfolding Cons by auto
  then show "r \<in> set (superseded_in now rs) \<Longrightarrow> ?thesis" by (auto simp: superseded_in_def Cons)
qed

lemma dedupe_decisions_ok: "decisions_ok s \<Longrightarrow> decisions_ok (snd (dedupe_decisions now s))"
proof -
  assume ok: "decisions_ok s"
  let ?rs = "jvals (di_records (rebuild_index (ds_rows s)))"
  have r: "rows_ok (ds_rows s)" using ok by (simp add: decisions_ok_def rows_ok_def)
  have m: "q \<in> set ?rs \<Longrightarrow> dn_id q \<noteq> []" for q
    using rebuilt_records(2) row_values r by (auto simp: rows_ok_def)
  have "\<not> is_active q \<and> dn_id q \<noteq> []" if q: "q \<in> set (concat (map (superseded_in now) (jvals (group_active ?rs))))" for q
  proof -
    obtain g where g: "g \<in> set (jvals (group_active ?rs))" "q \<in> set (superseded_in now g)" using q by auto
    then obtain k where "(k, g) \<in> set (group_active ?rs)" by (auto simp: jvals_def)
    then have "set g \<subseteq> set ?rs" using group_members group_wf jget_iff by metis
    moreover obtain qa where "\<not> is_active q" "qa \<in> set g" "dn_id q = dn_id qa" using superseded_mem[OF g(2)] by blast
    ultimately show ?thesis using m[of qa] by auto
  qed
  then have "rows_ok (upsert_decisions (concat (map (superseded_in now) (jvals (group_active ?rs)))) (ds_rows s))"
    by (intro upsert_inactive[OF r]) (auto simp: list_all_iff)
  then show ?thesis by (simp add: dedupe_decisions_def transaction_rows(2)[OF ok] Let_def decisions_ok_def rows_ok_def)
qed

lemma list_records_ok: "decisions_ok s \<Longrightarrow> decisions_ok (snd (list_records s))"
  using load_ok(3) by (simp add: list_records_def case_prod_beta)

lemma list_decisions_ok: "decisions_ok s \<Longrightarrow> decisions_ok (snd (list_decisions f s))"
  using list_records_ok by (simp add: list_decisions_def case_prod_beta)

lemma decision_step_ok: "decisions_ok s \<Longrightarrow> decisions_ok (decision_step env op s)"
  by (cases op) (simp_all add: append_decision_ok archive_decision_ok dedupe_decisions_ok list_decisions_ok
      effective_decisions_def case_prod_beta)

interpretation decision_service: machine "decision_step env" decisions_ok for env
  by unfold_locales (rule decision_step_ok)

lemma key_entry: "x \<in> set (map fst xs) \<Longrightarrow> \<exists>y. (x, y) \<in> set xs"
  by auto

lemma one_active_count:
  assumes "rows_ok rows"
  shows "length (filter (\<lambda>r. is_active r \<and> ref_of r = k) (jvals rows)) \<le> 1"
proof -
  let ?P = "\<lambda>e. is_active (snd e) \<and> ref_of (snd e) = k"
  have one: "i = j" if "(i, r) \<in> set (filter ?P rows)" "(j, q) \<in> set (filter ?P rows)" for i j r q
  proof -
    have "jget rows i = Some r" "jget rows j = Some q" using that assms by (auto simp: rows_ok_def rows_named_def jget_iff)
    then show ?thesis using assms that unfolding rows_ok_def one_active_def by auto
  qed
  have "x = y" if x: "x \<in> set (map fst (filter ?P rows))" and y: "y \<in> set (map fst (filter ?P rows))" for x y
  proof -
    obtain r where "(x, r) \<in> set (filter ?P rows)" using key_entry[OF x] by blast
    moreover obtain q where "(y, q) \<in> set (filter ?P rows)" using key_entry[OF y] by blast
    ultimately show ?thesis by (rule one)
  qed
  then have "card (set (map fst (filter ?P rows))) \<le> 1"
    unfolding One_nat_def by (subst card_le_Suc0_iff_eq[OF List.finite_set]) blast
  moreover have "distinct (map fst (filter ?P rows))" using assms by (simp add: rows_ok_def rows_named_def jwf_def distinct_map_filter)
  ultimately have "length (filter ?P rows) \<le> 1" using distinct_card by fastforce
  then show ?thesis by (simp add: jvals_def filter_map o_def)
qed

section \<open>The decisions that apply\<close>

fun scope_rank :: "decision_scope \<Rightarrow> nat" where
  "scope_rank GlobalScope = 0"
| "scope_rank TeamScope = 1"
| "scope_rank AgentScope = 2"

lemma scope_rank_le:
  "scope_rank s \<le> 2" "scope_rank s \<le> Suc 0 \<longleftrightarrow> s \<noteq> AgentScope" "scope_rank s = 0 \<longleftrightarrow> s = GlobalScope"
  by (cases s; simp)+

definition applies :: "decision_context \<Rightarrow> decision \<Rightarrow> bool" where
  "applies x r \<longleftrightarrow> list_ex (\<lambda>l. at_level l r) (context_levels x)"

definition most_specific :: "decision_context \<Rightarrow> decision list \<Rightarrow> decision \<Rightarrow> bool" where
  "most_specific x rs r \<longleftrightarrow> applies x r
     \<and> list_all (\<lambda>q. applies x q \<and> dn_canonical q = dn_canonical r \<longrightarrow> scope_rank (dn_scope q) \<le> scope_rank (dn_scope r)) rs"

definition one_per_level :: "decision list \<Rightarrow> bool" where
  "one_per_level rs \<longleftrightarrow> (\<forall>r \<in> set rs. \<forall>q \<in> set rs. dn_scope r = dn_scope q \<longrightarrow> same_scope_id (dn_scope_id r) (dn_scope_id q)
     \<longrightarrow> dn_canonical r = dn_canonical q \<longrightarrow> r = q)"

lemma put_all:
  "jget (fold (\<lambda>r m. jset (f r) r m) qs m) k =
     (if \<exists>q \<in> set qs. f q = k then Some (last (filter (\<lambda>q. f q = k) qs)) else jget m k)"
  by (induction qs rule: rev_induct) auto

lemma put_all_wf: "jwf m \<Longrightarrow> jwf (fold (\<lambda>r m. jset (f r) r m) qs m)"
  by (induction qs arbitrary: m) auto

lemma merge_get:
  assumes "one_per_level rows" "\<And>r. jget m k = Some r \<Longrightarrow> dn_canonical r = k"
  shows "jget (merge_level rows l m) k = Some r \<longleftrightarrow>
    r \<in> set rows \<and> at_level l r \<and> dn_canonical r = k
    \<or> (\<forall>q \<in> set rows. at_level l q \<longrightarrow> dn_canonical q \<noteq> k) \<and> jget m k = Some r"
proof -
  let ?qs = "sort_key (\<lambda>r. - dn_updated r) (filter (at_level l) rows)"
  let ?f = "filter (\<lambda>q. dn_canonical q = k) ?qs"
  have set_qs: "q \<in> set ?qs \<longleftrightarrow> q \<in> set rows \<and> at_level l q" for q by auto
  have g: "jget (merge_level rows l m) k = (if \<exists>q \<in> set ?qs. dn_canonical q = k then Some (last ?f) else jget m k)"
    unfolding merge_level_def by (rule put_all)
  show ?thesis
  proof (cases "\<exists>q \<in> set ?qs. dn_canonical q = k")
    case True
    then have "?f \<noteq> []" unfolding filter_empty_conv by blast
    then have "last ?f \<in> set ?f" by (rule last_in_set)
    then obtain w where w: "w = last ?f" "w \<in> set rows" "at_level l w" "dn_canonical w = k" by auto
    have "q = w" if "q \<in> set rows" "at_level l q" "dn_canonical q = k" for q
    proof -
      have "dn_scope q = dn_scope w" "same_scope_id (dn_scope_id q) (dn_scope_id w)" "dn_canonical q = dn_canonical w"
        using that w(3,4) by (simp_all add: at_level_def same_scope_id_def)
      then show ?thesis using assms(1) that(1) w(2) unfolding one_per_level_def by blast
    qed
    then have "r \<in> set rows \<and> at_level l r \<and> dn_canonical r = k \<longleftrightarrow> r = w" using w by blast
    moreover have "jget (merge_level rows l m) k = Some w" unfolding g w(1) using True by (rule if_P)
    moreover have "\<not> (\<forall>q \<in> set rows. at_level l q \<longrightarrow> dn_canonical q \<noteq> k)" using w by blast
    ultimately show ?thesis by auto
  next
    case False
    then show ?thesis using g set_qs by auto
  qed
qed

lemma merge_key:
  assumes "\<And>k r. jget m k = Some r \<Longrightarrow> dn_canonical r = k" "jget (merge_level rows l m) k = Some r"
  shows "dn_canonical r = k"
proof -
  let ?f = "filter (\<lambda>q. dn_canonical q = k) (sort_key (\<lambda>r. - dn_updated r) (filter (at_level l) rows))"
  show ?thesis
  proof (cases "?f = []")
    case True
    then show ?thesis using assms unfolding merge_level_def put_all by (auto simp: filter_empty_conv)
  next
    case False
    then have "last ?f \<in> set ?f" by (rule last_in_set)
    then have "dn_canonical (last ?f) = k" by auto
    then show ?thesis using assms False unfolding merge_level_def put_all by (auto split: if_splits)
  qed
qed

lemma merged_mem:
  assumes "one_per_level rows"
  shows "r \<in> set (merged_decisions x rows) \<longleftrightarrow> r \<in> set rows \<and> most_specific x rows r"
    and "distinct (map dn_canonical (merged_decisions x rows))"
proof -
  let ?g = "merge_level rows (GlobalScope, None) []" let ?t = "merge_level rows (TeamScope, dx_team x) ?g"
  let ?a = "merge_level rows (AgentScope, dx_agent x) ?t"
  have m: "merged_decisions x rows = jvals ?a" by (simp add: merged_decisions_def context_levels_def)
  have kg: "jget ?g k = Some r \<Longrightarrow> dn_canonical r = k" for k r by (rule merge_key[of "[]"]) simp_all
  have kt: "jget ?t k = Some r \<Longrightarrow> dn_canonical r = k" for k r by (rule merge_key[of ?g]) (use kg in simp_all)
  have ka: "jget ?a k = Some r \<Longrightarrow> dn_canonical r = k" for k r by (rule merge_key[of ?t]) (use kt in simp_all)
  have wf: "jwf ?a" unfolding merge_level_def by (intro put_all_wf) simp
  have mem: "r \<in> set (jvals ?a) \<longleftrightarrow> jget ?a (dn_canonical r) = Some r" for r
    using ka jget_iff[OF wf] by (force simp: jvals_def)
  have "map fst ?a = map dn_canonical (jvals ?a)" using ka jget_iff[OF wf] by (auto simp: jvals_def)
  then show "distinct (map dn_canonical (merged_decisions x rows))" using wf m by (simp add: jwf_def)
  have a: "jget ?a k = Some r \<longleftrightarrow> r \<in> set rows \<and> at_level (AgentScope, dx_agent x) r \<and> dn_canonical r = k
      \<or> (\<forall>q \<in> set rows. at_level (AgentScope, dx_agent x) q \<longrightarrow> dn_canonical q \<noteq> k) \<and> jget ?t k = Some r" for k r
    by (rule merge_get[OF assms kt])
  have t: "jget ?t k = Some r \<longleftrightarrow> r \<in> set rows \<and> at_level (TeamScope, dx_team x) r \<and> dn_canonical r = k
      \<or> (\<forall>q \<in> set rows. at_level (TeamScope, dx_team x) q \<longrightarrow> dn_canonical q \<noteq> k) \<and> jget ?g k = Some r" for k r
    by (rule merge_get[OF assms kg])
  have g: "jget ?g k = Some r \<longleftrightarrow> r \<in> set rows \<and> at_level (GlobalScope, None) r \<and> dn_canonical r = k" for k r
    using merge_get[OF assms, of "[]" k "(GlobalScope, None)" r] by simp
  let ?on = "\<lambda>l. \<exists>q \<in> set rows. at_level l q \<and> dn_canonical q = dn_canonical r"
  have "jget ?a (dn_canonical r) = Some r \<longleftrightarrow> r \<in> set rows \<and> (at_level (AgentScope, dx_agent x) r
      \<or> \<not> ?on (AgentScope, dx_agent x) \<and> (at_level (TeamScope, dx_team x) r
        \<or> \<not> ?on (TeamScope, dx_team x) \<and> at_level (GlobalScope, None) r))"
    unfolding a t g by auto
  also have "\<dots> \<longleftrightarrow> r \<in> set rows \<and> most_specific x rows r"
  proof -
    have lv: "at_level (AgentScope, dx_agent x) q \<longleftrightarrow> applies x q \<and> dn_scope q = AgentScope"
      "at_level (TeamScope, dx_team x) q \<longleftrightarrow> applies x q \<and> dn_scope q = TeamScope"
      "at_level (GlobalScope, None) q \<longleftrightarrow> applies x q \<and> dn_scope q = GlobalScope" for q
      by (auto simp: applies_def context_levels_def at_level_def)
    have G: "dn_scope q = GlobalScope \<longleftrightarrow> dn_scope q \<noteq> AgentScope \<and> dn_scope q \<noteq> TeamScope" for q
      by (cases "dn_scope q") auto
    show ?thesis
    proof (cases "dn_scope r")
      case GlobalScope
      then have n: "scope_rank (dn_scope q) \<le> scope_rank (dn_scope r) \<longleftrightarrow> dn_scope q \<noteq> AgentScope \<and> dn_scope q \<noteq> TeamScope" for q
        using G by (simp add: scope_rank_le)
      show ?thesis unfolding most_specific_def list_all_iff lv n using GlobalScope by auto
    next
      case TeamScope
      then have n: "scope_rank (dn_scope q) \<le> scope_rank (dn_scope r) \<longleftrightarrow> dn_scope q \<noteq> AgentScope" for q
        by (simp add: scope_rank_le)
      show ?thesis unfolding most_specific_def list_all_iff lv n using TeamScope by auto
    next
      case AgentScope
      then have n: "scope_rank (dn_scope q) \<le> scope_rank (dn_scope r)" for q by (simp add: scope_rank_le)
      show ?thesis unfolding most_specific_def list_all_iff lv using AgentScope n by auto
    qed
  qed
  finally show "r \<in> set (merged_decisions x rows) \<longleftrightarrow> r \<in> set rows \<and> most_specific x rows r" unfolding m mem .
qed

text \<open>C24. Whatever is added, archived, deduplicated and read: at most one decision is active for a key of a scope.\<close>
theorem decisions_one_active:
  "length (filter (\<lambda>r. is_active r \<and> ref_of r = k) (jvals (ds_rows (run_steps (decision_step env) ops decision_store_new)))) \<le> 1"
proof -
  have "decisions_ok decision_store_new" by (simp add: decisions_ok_def decision_store_new_def rows_named_def one_active_def)
  then have "decisions_ok (run_steps (decision_step env) ops decision_store_new)" by (rule decision_service.inv_run)
  then show ?thesis by (intro one_active_count) (simp add: decisions_ok_def rows_ok_def)
qed

text \<open>The newest of some decisions, newest first.\<close>

definition newest_among :: "nat \<Rightarrow> decision list \<Rightarrow> decision list \<Rightarrow> bool" where
  "newest_among k xs ys \<longleftrightarrow> distinct ys \<and> set ys \<subseteq> set xs \<and> length ys = min k (card (set xs)) \<and> sorted (map (\<lambda>r. - dn_updated r) ys)
     \<and> (\<forall>x \<in> set xs - set ys. \<forall>y \<in> set ys. dn_updated x \<le> dn_updated y)"

lemma newest_among_set: "set xs = set xs' \<Longrightarrow> newest_among k xs ys \<longleftrightarrow> newest_among k xs' ys"
  by (simp add: newest_among_def)

lemma newest_take:
  assumes "distinct xs"
  shows "newest_among k xs (take k (sort_key (\<lambda>r. - dn_updated r) xs))"
proof -
  let ?f = "\<lambda>r. - dn_updated r" and ?s = "sort_key (\<lambda>r. - dn_updated r) xs"
  have sorted: "sorted (map ?f (take k ?s @ drop k ?s))" by simp
  have "dn_updated x \<le> dn_updated y" if "x \<in> set xs - set (take k ?s)" "y \<in> set (take k ?s)" for x y
  proof -
    have "set xs = set (take k ?s @ drop k ?s)" by (simp only: append_take_drop_id set_sort)
    then have "x \<in> set (drop k ?s)" using that(1) unfolding set_append by blast
    then show ?thesis using sorted that(2) unfolding map_append sorted_append by fastforce
  qed
  moreover have "length (take k ?s) = min k (card (set xs))" using distinct_card[OF assms] by simp
  moreover have "sorted (map ?f (take k ?s))" using sorted unfolding map_append sorted_append by blast
  moreover have "set (take k ?s) \<subseteq> set xs" using set_take_subset[of k ?s] by simp
  ultimately show ?thesis using assms by (simp add: newest_among_def)
qed

lemma newest_of_mem: "r \<in> set (newest_of p k rs) \<Longrightarrow> r \<in> set rs \<and> dn_priority r = p"
  using set_take_subset[of k "sort_key (\<lambda>r. - dn_updated r) (filter (\<lambda>r. dn_priority r = p) rs)"] by (auto simp: newest_of_def)

lemma newest_of_among: "distinct rs \<Longrightarrow> newest_among k (filter (\<lambda>r. dn_priority r = p) rs) (newest_of p k rs)"
  unfolding newest_of_def by (rule newest_take) simp

definition of_priority :: "nat \<Rightarrow> decision list \<Rightarrow> decision list" where
  "of_priority p rs = filter (\<lambda>r. dn_priority r = p) rs"

lemma effective_parts:
  assumes "distinct (map dn_canonical (merged_decisions x rows))"
  shows "of_priority 0 (effective_of x rows) = of_priority 0 (merged_decisions x rows)"
    and "of_priority 1 (effective_of x rows) = newest_of 1 (list_limit 5 (dx_p1_limit x)) (merged_decisions x rows)"
    and "of_priority 2 (effective_of x rows) =
      (if dx_include_p2 x then newest_of 2 (list_limit 3 (dx_p2_limit x)) (merged_decisions x rows) else [])"
    and "list_all (\<lambda>r. dn_priority r \<le> 2) (effective_of x rows)"
    and "distinct (map dn_canonical (effective_of x rows))"
proof -
  let ?m = "merged_decisions x rows"
  have own: "of_priority q (newest_of p k ?m) = (if p = q then newest_of p k ?m else [])" for p q k
    using newest_of_mem[of _ p k ?m] by (auto simp: of_priority_def filter_empty_conv intro!: filter_True)
  have e: "effective_of x rows = of_priority 0 ?m @ newest_of 1 (list_limit 5 (dx_p1_limit x)) ?m
      @ (if dx_include_p2 x then newest_of 2 (list_limit 3 (dx_p2_limit x)) ?m else [])"
    by (simp add: effective_of_def of_priority_def Let_def)
  have app: "of_priority p (a @ b) = of_priority p a @ of_priority p b" "of_priority p [] = []" for p a b by (simp_all add: of_priority_def)
  have zero: "of_priority p (of_priority 0 ?m) = (if p = 0 then of_priority 0 ?m else [])" for p
    by (auto simp: of_priority_def filter_empty_conv)
  show "of_priority 0 (effective_of x rows) = of_priority 0 ?m"
    "of_priority 1 (effective_of x rows) = newest_of 1 (list_limit 5 (dx_p1_limit x)) ?m"
    "of_priority 2 (effective_of x rows) = (if dx_include_p2 x then newest_of 2 (list_limit 3 (dx_p2_limit x)) ?m else [])"
    unfolding e app zero own by (simp_all add: app own)
  have n: "r \<in> set (newest_of p k ?m) \<Longrightarrow> r \<in> set ?m \<and> dn_priority r = p" for r p k by (rule newest_of_mem)
  show "list_all (\<lambda>r. dn_priority r \<le> 2) (effective_of x rows)"
    unfolding e list_all_iff using n by (auto simp: of_priority_def)
  have inj: "inj_on dn_canonical (set ?m)" "distinct ?m" using assms by (simp_all add: distinct_map)
  have d: "distinct (newest_of p k ?m)" for p k using newest_of_among[OF inj(2)] by (simp add: newest_among_def)
  have "distinct (effective_of x rows)"
    unfolding e using n d inj(2) by (auto simp: of_priority_def dest!: n)
  moreover have "set (effective_of x rows) \<subseteq> set ?m" unfolding e using n by (auto simp: of_priority_def split: if_splits)
  ultimately show "distinct (map dn_canonical (effective_of x rows))" using inj(1) by (simp add: distinct_map inj_on_subset)
qed

lemma row_ids_distinct:
  assumes "rows_named rows"
  shows "distinct (map dn_id (jvals rows))"
proof -
  have "map dn_id (jvals rows) = map fst rows" using assms by (auto simp: jvals_def rows_named_def jget_iff[symmetric])
  then show ?thesis using assms by (simp add: rows_named_def jwf_def)
qed

lemma rebuilt_values:
  assumes "rows_named rows"
  shows "jvals (di_records (rebuild_index rows)) = sort_key dn_updated (jvals rows)"
proof -
  have "filter (\<lambda>r. dn_id r \<noteq> []) (sort_key dn_updated (jvals rows)) = sort_key dn_updated (jvals rows)"
    using row_values[OF assms] by (intro filter_True) auto
  then show ?thesis by (simp add: rebuild_index_def rebuild_maps_def index_fold jvals_def o_def)
qed

lemma active_rows:
  assumes ok: "decisions_ok s"
  shows "newest_among 2000 (filter is_active (jvals (ds_rows s)))
    (fst (list_decisions (no_decision_filter\<lparr>dl_status := Some DecisionActive, dl_limit := 2000\<rparr>) s))"
proof -
  have r: "rows_named (ds_rows s)" using ok by (simp add: decisions_ok_def)
  let ?vs = "jvals (di_records (rebuild_index (ds_rows s)))"
  let ?xs = "filter is_active (sort_key (\<lambda>r. - dn_updated r) ?vs)"
  have "fst (load_index s) = rebuild_index (ds_rows s)" by (subst load_ok(1)[OF ok]) simp
  then have l: "fst (list_records s) = sort_key (\<lambda>r. - dn_updated r) ?vs" by (simp add: list_records_def case_prod_beta)
  have p: "decision_passes (no_decision_filter\<lparr>dl_status := Some DecisionActive, dl_limit := 2000\<rparr>) = is_active"
    by (simp add: fun_eq_iff decision_passes_def no_decision_filter_def)
  have "distinct (map dn_id (jvals (ds_rows s)))" by (rule row_ids_distinct[OF r])
  then have d: "distinct ?xs" unfolding rebuilt_values[OF r] by (simp add: distinct_map)
  have "fst (list_decisions (no_decision_filter\<lparr>dl_status := Some DecisionActive, dl_limit := 2000\<rparr>) s)
      = take 2000 (sort_key (\<lambda>r. - dn_updated r) ?xs)"
    by (simp add: list_decisions_def case_prod_beta l p list_limit_def)
  moreover have "set ?xs = set (filter is_active (jvals (ds_rows s)))" using rebuilt_records(2)[OF r] by simp
  ultimately show ?thesis using newest_take[OF d, of 2000] newest_among_set by metis
qed

lemma active_one_per_level:
  assumes "rows_ok rows" "set rs \<subseteq> set (filter is_active (jvals rows))"
  shows "one_per_level rs"
proof -
  have "r = q" if "r \<in> set rs" "q \<in> set rs" "dn_scope r = dn_scope q" "same_scope_id (dn_scope_id r) (dn_scope_id q)" "dn_canonical r = dn_canonical q" for r q
  proof -
    have g: "jget rows (dn_id r) = Some r" "jget rows (dn_id q) = Some q" "is_active r" "is_active q"
      using that(1,2) assms row_values[of rows] by (auto simp: rows_ok_def)
    have "text_or_none (dn_scope_id r) = text_or_none (dn_scope_id q)"
      using that(4) by (auto simp: same_scope_id_def none_if_empty_def text_or_none_def split: if_splits option.splits)
    then have "ref_of r = ref_of q" using that by (simp add: ref_of_def key_ref_def)
    then have "dn_id r = dn_id q" using assms(1) g unfolding rows_ok_def one_active_def by blast
    then have "Some r = Some q" using g(1,2) by metis
    then show ?thesis by (rule option.inject[THEN iffD1])
  qed
  then show ?thesis unfolding one_per_level_def by blast
qed

text \<open>
  C25. Of the at most 2000 newest active decisions, those count that apply and for whose key none of a narrower scope
  applies. Effective are all of these with priority 0, the newest with priority 1, as many as asked for, and the newest
  with priority 2 when they are asked for; nothing else is, and no key comes twice.
\<close>
theorem effective_most_specific:
  "let s = run_steps (decision_step env) ops decision_store_new; found = fst (effective_decisions x s)
   in \<exists>rs. newest_among 2000 (filter is_active (jvals (ds_rows s))) rs
      \<and> (let chosen = filter (most_specific x rs) rs
         in set (of_priority 0 found) = set (of_priority 0 chosen)
          \<and> newest_among (if dx_p1_limit x = 0 then 5 else nat (max 1 (dx_p1_limit x))) (of_priority 1 chosen) (of_priority 1 found)
          \<and> (if dx_include_p2 x
             then newest_among (if dx_p2_limit x = 0 then 3 else nat (max 1 (dx_p2_limit x))) (of_priority 2 chosen) (of_priority 2 found)
             else of_priority 2 found = [])
          \<and> list_all (\<lambda>r. dn_priority r \<le> 2) found \<and> distinct (map dn_canonical found))"
proof -
  define s where "s = run_steps (decision_step env) ops decision_store_new"
  define rs where "rs = fst (list_decisions (no_decision_filter\<lparr>dl_status := Some DecisionActive, dl_limit := 2000\<rparr>) s)"
  have "decisions_ok decision_store_new" by (simp add: decisions_ok_def decision_store_new_def rows_named_def one_active_def)
  then have ok: "decisions_ok s" unfolding s_def by (rule decision_service.inv_run)
  have new: "newest_among 2000 (filter is_active (jvals (ds_rows s))) rs" unfolding rs_def by (rule active_rows[OF ok])
  then have "set rs \<subseteq> set (filter is_active (jvals (ds_rows s)))" by (simp add: newest_among_def)
  then have one: "one_per_level rs" using ok by (intro active_one_per_level[of "ds_rows s"]) (simp_all add: decisions_ok_def rows_ok_def)
  let ?m = "merged_decisions x rs" and ?c = "filter (most_specific x rs) rs"
  have m: "set (of_priority p ?m) = set (of_priority p ?c)" for p using merged_mem(1)[OF one, of _ x] by (auto simp: of_priority_def)
  have dm: "distinct ?m" using merged_mem(2)[OF one, of x] by (simp add: distinct_map)
  have among: "newest_among k (of_priority p ?c) (newest_of p k ?m)" for p k
    using newest_of_among[OF dm, of k p] newest_among_set[OF m[of p]] by (simp add: of_priority_def)
  have e: "fst (effective_decisions x s) = effective_of x rs" by (simp add: effective_decisions_def case_prod_beta rs_def)
  have lim: "list_limit u n = (if n = 0 then nat (max 1 u) else nat (max 1 n))" for u n by (simp add: list_limit_def)
  note parts = effective_parts[OF merged_mem(2)[OF one, of x]]
  have "set (of_priority 0 (effective_of x rs)) = set (of_priority 0 ?c)" unfolding parts(1) by (rule m)
  moreover have "newest_among (if dx_p1_limit x = 0 then 5 else nat (max 1 (dx_p1_limit x))) (of_priority 1 ?c) (of_priority 1 (effective_of x rs))"
    unfolding parts(2) lim using among[of _ 1] by simp
  moreover have "if dx_include_p2 x
      then newest_among (if dx_p2_limit x = 0 then 3 else nat (max 1 (dx_p2_limit x))) (of_priority 2 ?c) (of_priority 2 (effective_of x rs))
      else of_priority 2 (effective_of x rs) = []"
    unfolding parts(3) lim using among[of _ 2] by simp
  ultimately show ?thesis using new parts(4,5) unfolding Let_def s_def[symmetric] e by blast
qed


section \<open>What the fingerprint confuses\<close>

definition print_env :: decision_env where
  "print_env = \<lparr>de_digest = \<lambda>s. s, de_words = \<lambda>s. [s]\<rparr>"

definition print_input :: "string \<Rightarrow> string \<Rightarrow> decision_input" where
  "print_input k v = \<lparr>dw_scope = GlobalScope, dw_scope_id = None, dw_key = k, dw_value = v, dw_rationale = None,
     dw_priority = None, dw_source = None, dw_tags = None\<rparr>"

text \<open>
  The parts of a fingerprint are joined by bars and not quoted: a decision for the key \<open>a\<close> is dropped as a duplicate of
  one for the key \<open>a|b\<close>, and the key \<open>a\<close> has no decision.
\<close>
lemma fingerprint_confuses_keys:
  "let s1 = snd (append_decision print_env 1 ''x'' (print_input ''a|b'' ''c'') decision_store_new);
       (answer, s2) = append_decision print_env 2 ''y'' (print_input ''a'' ''b|c'') s1
   in (case answer of DecisionDeduped r \<Rightarrow> dn_key r = ''a|b'' | DecisionInserted _ _ \<Rightarrow> False)
      \<and> map dn_key (fst (list_decisions no_decision_filter s2)) = [''a|b'']"
  by code_simp

end
