(* ===== verification/Spec2Isabelle.thy ===== *)
theory Spec2Isabelle
  imports SessionLanes Gateway AgentRegistry ThreadOwnership Dispatch StreamBuffer CronService NodeHandlers WorkflowStore
    MessageBus TaskLoop DispatcherCorrect ApprovalsCorrect ChannelManagerCorrect CommandsCorrect KanbanMoves KanbanAutomationCorrect
    SubagentsCorrect DiffToolCorrect GraphToolCorrect GraphForest DecisionsCorrect
begin

text \<open>
  A verification development of SoulFlow-Orchestrator, a server that takes messages from chat channels,
  decides what each one asks for, and answers it with runs of language-model agents, workflows, tools, cron
  jobs and boards of cards. The theories translate the TypeScript of \<open>src/src\<close>; nothing here is
  axiomatic, and every definition can be evaluated on concrete input.

  \<^bold>\<open>How the program works.\<close> A channel delivers a message (\<open>Messages\<close>) through the debouncer
  (\<open>Batching\<close>) and the lane of its session (\<open>SessionLanes\<close>) to the channel manager (\<open>ChannelManager\<close>).
  The manager asks in turn whether the message decides about a waiting tool call (\<open>Approvals\<close>), answers a
  workflow that waits (\<open>RunTracking\<close>), confirms a guarded request (\<open>Guards\<close>), resumes a task
  (\<open>TaskResume\<close>), is a command (\<open>Commands\<close>) or names agents; else it starts a run. The message is
  classified (\<open>Classifier\<close>), routed (\<open>Gateway\<close>) and dispatched (\<open>Dispatcher\<close>) to an executor:
  one call, an agent loop (\<open>AgentLoop\<close>), a task loop (\<open>TaskLoop\<close>) or a workflow (\<open>PhaseRun\<close>).
  Executors call backends through the agent registry (\<open>AgentRegistry\<close>) and the provider registry
  (\<open>ProviderService\<close>), which rest on circuit breakers and health scores; they call tools through the
  tool registry (\<open>ToolRegistry\<close>) and may spawn subagents (\<open>Subagents\<close>). Replies leave through the
  stream and grouping buffers and the outbound dispatch (\<open>Dispatch\<close>) over the bus (\<open>MessageBus\<close>).
  What was said is recorded (\<open>SessionRecorder\<close>). The cron service (\<open>CronService\<close>) and the rules of
  the boards (\<open>KanbanAutomation\<close>) start work by themselves.

  \<^bold>\<open>Conventions.\<close> A class is a record of its fields, a method a function that returns its answer and the
  record updated; an exception is a value of a sum or option type, or a flag beside the new state. An
  insertion-ordered \<open>Map\<close> is an association list (\<open>jmap\<close>, \<open>Prelude\<close>). The clock, random
  identifiers, models, tools, regular expressions, \<open>JSON.parse\<close>, tokenizers and the texts of prompts are
  arguments; where such a call is awaited, the argument may change the shared state, or other operations are
  steps between its halves. Otherwise an operation is atomic, as between two awaits of one thread. A timer is
  an operation that may come at any time. Integers are unbounded as the values stay far below
  \<open>2 ^ 53\<close>, except where the code wraps at 32 bits (the stagger hash of \<open>CronExpr\<close> uses words).
  Numbers of scores and rates are rationals or reals. Texts are lists of bytes, so a length or a slice
  differs from the code's UTF-16 units outside ASCII; text order is by code point where the code asks a
  locale.

  \<^bold>\<open>The theories and the code.\<close>

  \<^item> \<open>Prelude\<close>, \<open>TtlMap\<close>, \<open>JsValue\<close>, \<open>JsText\<close>: maps, bounded and keyed stores, the locale
    \<open>machine\<close> of an invariant under a list of operations, \<open>utils/common.ts\<close>, JSON-like values and
    their texts.
  \<^item> \<open>Lanes\<close>, \<open>Semaphores\<close>, \<open>SessionLanes\<close>: \<open>agent/pty/lane-queue.ts\<close> and
    \<open>semaphore.ts\<close>. Every task is accounted for once, in order; slots go out in order of request; runs of
    one session exclude each other and the global limit holds in every interleaving.
  \<^item> \<open>CircuitBreaker\<close>, \<open>HealthScorer\<close>, \<open>ProviderService\<close>, \<open>Classifier\<close>, \<open>Gateway\<close>,
    \<open>AgentRegistry\<close>: \<open>providers/circuit-breaker.ts\<close>, \<open>health-scorer.ts\<close>, \<open>service.ts\<close>,
    \<open>executor.ts\<close>, \<open>orchestration/classifier.ts\<close>, \<open>gateway.ts\<close>, \<open>execution-gateway.ts\<close>,
    \<open>agent/agent-registry.ts\<close>. Probing of an open breaker, scores in the unit interval, the ladder of
    retries, well-formed classifications, routes and selections.
  \<^item> \<open>ThreadOwnership\<close>, \<open>RateLimiter\<close>, \<open>Messages\<close>, \<open>Batching\<close>, \<open>Dispatch\<close>,
    \<open>StreamBuffer\<close>: the parts of \<open>channels/\<close> a message passes on its way in and out.
  \<^item> \<open>CronExpr\<close>, \<open>CronSchedule\<close>, \<open>CronService\<close>: \<open>cron/service.ts\<close>. The search that jumps over
    whole months, days and hours finds what a search minute by minute finds; a job runs once within its
    lease, as long as no older execution ends; rows come back as they were saved. Taking the lock of a job is one
    step; what its parts allow is shown apart.
  \<^item> \<open>WorkflowGraph\<close>, \<open>WorkflowStore\<close>, \<open>PhaseState\<close>, \<open>PhaseLoop\<close>, \<open>PhaseRun\<close>: workflow
    definitions, their order, their store and the run of \<open>agent/phase-loop-runner.ts\<close>.
    \<open>PhaseFrames\<close> (what each part leaves alone), \<open>PhaseTermination\<close> (the run returns),
    \<open>PhaseCorrect\<close> and \<open>PhaseComplete\<close> (the stored state, reviews, completeness),
    \<open>PhaseFindings\<close> (small runs), \<open>NodeHandlers\<close> (\<open>nodes/retry.ts\<close> and \<open>error-handler.ts\<close>, and when
    they keep what \<open>PhaseComplete\<close> asks of handlers). The agents of a phase run one after the other.
  \<^item> \<open>MessageBus\<close>: \<open>bus/service.ts\<close>, a ring of items refined by a plain queue.
  \<^item> \<open>TaskStore\<close>, \<open>AgentLoop\<close>, \<open>TaskLoop\<close>, \<open>TaskResume\<close>: \<open>agent/loop.service.ts\<close>,
    \<open>task-store.ts\<close>, \<open>tool-call-guard.ts\<close>, \<open>channels/task-resume.service.ts\<close>; tasks are
    objects in a heap, as the map and a running loop share them.
  \<^item> \<open>Reconcile\<close>, \<open>ReconcileCorrect\<close>: the reconciliation of parallel results and the critic's gate.
  \<^item> \<open>RunTracking\<close>, \<open>Guards\<close>, \<open>GuardsCorrect\<close>, \<open>Dispatcher\<close>, \<open>DispatcherCorrect\<close>: the
    table of runs, the confirmation guard, reuse and budgets, and \<open>execute-dispatcher.ts\<close>.
  \<^item> \<open>SchemaRepair\<close>, \<open>ToolParams\<close>, \<open>ApprovalParser\<close>, \<open>ToolRegistry\<close>,
    \<open>ToolRegistryCorrect\<close>, \<open>Approvals\<close>, \<open>ApprovalsCorrect\<close>: schemas, parameters, the registry
    of tools and the decisions about a call.
  \<^item> \<open>SessionStore\<close>, \<open>SessionRecorder\<close>: \<open>session/service.ts\<close> with its cache, where
    anything may happen between the halves of a load, and the recorder.
  \<^item> \<open>Commands\<close>, \<open>CommandsCorrect\<close>: commands, the edit distance, splitting of replies.
  \<^item> \<open>ChannelManager\<close>, \<open>ChannelManagerCorrect\<close>: \<open>channels/manager.ts\<close>, on the components above.
  \<^item> \<open>Kanban\<close>, \<open>KanbanViews\<close>, \<open>KanbanCorrect\<close>, \<open>KanbanMoves\<close>:
    \<open>services/kanban-store.ts\<close>; the invariant of its tables, moves, and stays of a card.
    \<open>KanbanAutomation\<close>, \<open>KanbanAutomationCorrect\<close>: rules and triggers of
    \<open>kanban-rule-executor.ts\<close> and \<open>kanban-trigger-watcher.ts\<close>, when the rules come to rest, and which
    workflows an event resumes; what the watcher awaits is a queue of parts that may come in any order.
  \<^item> \<open>Subagents\<close>, \<open>SubagentRun\<close>, \<open>SubagentsCorrect\<close>: \<open>agent/subagents.ts\<close>, the registry and
    the run of one subagent.
  \<^item> \<open>DiffTool\<close>, \<open>DiffToolCorrect\<close>, \<open>GraphTool\<close>, \<open>GraphToolCorrect\<close>, \<open>GraphForest\<close>:
    \<open>agent/tools/diff.ts\<close> and \<open>graph.ts\<close>. Longest common subsequences, a diff and its patch, searches,
    shortest paths, and spanning forests by union and find.
  \<^item> \<open>Decisions\<close>, \<open>DecisionsCorrect\<close>: \<open>decision/store.ts\<close>, \<open>service.ts\<close> and the promises; one
    active decision for a key of a scope, and the decisions that apply in a context.

  \<^bold>\<open>Interfaces.\<close> The locale \<open>machine\<close> carries an invariant over any list of operations and is
  interpreted for every component that has one; \<open>bounded_machine\<close> adds a bound (the semaphore). A component
  that uses another sees it through a locale: \<open>keyed_store\<close> and \<open>expiring_store\<close> (maps),
  \<open>fifo\<close> (the queue behind the bus), \<open>batch_buffer\<close> (the two message buffers), \<open>breaker\<close> (the
  circuit breaker under a registry), \<open>clock\<close> and \<open>calendar\<close> (the jumps of the cron search). Each is
  interpreted on the definitions of the component that provides it.

  \<^bold>\<open>Loops and bounds.\<close> A loop over data is structural. The main loop of a workflow and the handling of
  board events are \<open>partial_function (option)\<close>: that they return is a theorem (\<open>workflow_returns\<close>
  always; \<open>rules_come_to_rest\<close> under a condition on the rules, and a rule that violates it is shown not to
  rest). Agent and task loops, repairs, critics and the dispatcher count down a limit the code has. The cron
  search has the code's bound of 366 days as fuel. Cancelling a tree of subagents has the number of running
  ones as fuel, which \<open>cancel_reaches_descendants\<close> shows to be enough.

  \<^bold>\<open>Findings.\<close> Lemmas beside the properties show where the code does not do what it means to, on a
  concrete run or in general; the manifest lists them with the line of the code.

  \<^bold>\<open>Not modelled.\<close>

  \<^item> Handlers of workflow nodes except four, the tools themselves, agent backends, containers and terminals, channel
    adapters, the Redis bus, the dashboard and the web front end: each wraps a process, a network service or a
    library, and is an argument of the component that calls it.
  \<^item> Memory, skills, context and prompts, embeddings, search and rendering: full-text and vector search
    of SQLite, files and the assembly of texts.
  \<^item> The runners behind the dispatcher, command handlers, the synchronisation of cron triggers, usage and
    metrics: they compose calls of modelled services with texts.
  \<^item> Authentication, secrets and integrations: cryptography and HTTP flows.
  \<^item> Inside the modelled components: errors of SQLite and its full-text index, daylight-saving
    transitions and the hour 24 some zones report, inherited property names such as \<open>constructor\<close> used as
    keys, aliasing of objects outside the task map, exceptions of the provider inside the agent loop, two jobs of
    one id, typing notices, render profiles, metrics and logs; sending
    in the channel manager does not fail.
\<close>

end
